(* ===== verification/Ez_Prelude.thy ===== *)
theory Ez_Prelude
  imports Main "HOL-Library.Word" "HOL-Library.Monad_Syntax" "HOL-Library.Multiset" "HOL-Library.Sublist"
begin

text \<open>
  Shared vocabulary of the development: the return codes of \<^verbatim>\<open>include/ezcfg.h\<close>, the C
  string functions the library calls (on NUL-free \<^typ>\<open>string\<close>s), and an explicit heap
  with an allocator that may fail.  A C function that dereferences a NULL or freed
  pointer, or never returns, is modelled by the value \<^term>\<open>None\<close> of an option type;
  \<^term>\<open>Some\<close> carries the ordinary outcome.
\<close>

named_theorems heap_simps \<open>equations that evaluate heap operations\<close>
named_theorems cstr_simps \<open>equations of the C string functions\<close>

section \<open>Return codes\<close>

definition EZCFG_RET_OK :: int where "EZCFG_RET_OK = 0"

definition EZCFG_RET_FAIL :: int where "EZCFG_RET_FAIL = -1"

lemma ret_ok_neq_fail [simp]:
  "EZCFG_RET_OK \<noteq> EZCFG_RET_FAIL" "EZCFG_RET_FAIL \<noteq> EZCFG_RET_OK"
  by (simp_all add: EZCFG_RET_OK_def EZCFG_RET_FAIL_def)

section \<open>C strings\<close>

text \<open>
  A NUL-terminated string is the \<^typ>\<open>string\<close> of the bytes before the terminator; such a
  string has no NUL among its characters.
\<close>

definition NUL :: char where "NUL = CHR 0x00"

definition cstr :: "string \<Rightarrow> bool" where
  "cstr s \<longleftrightarrow> NUL \<notin> set s"

lemma cstr_Nil [simp]: "cstr []"
  and cstr_Cons [simp]: "cstr (c # s) \<longleftrightarrow> c \<noteq> NUL \<and> cstr s"
  and cstr_append [simp]: "cstr (s @ t) \<longleftrightarrow> cstr s \<and> cstr t"
  by (auto simp: cstr_def)

text \<open>
  \<^verbatim>\<open>strcmp\<close> compares unsigned bytes; C fixes only the sign of a non-zero result, and the
  sources only look at the sign.
\<close>

fun strcmp :: "string \<Rightarrow> string \<Rightarrow> int" where
  "strcmp [] [] = 0"
| "strcmp [] (y # ys) = -1"
| "strcmp (x # xs) [] = 1"
| "strcmp (x # xs) (y # ys) =
     (if x = y then strcmp xs ys
      else if (of_char x :: nat) < of_char y then -1 else 1)"

lemma strcmp_eq_0_iff [simp]: "strcmp s t = 0 \<longleftrightarrow> s = t"
  by (induction s t rule: strcmp.induct) auto

lemma strcmp_antisym: "strcmp t s = - strcmp s t"
  by (induction s t rule: strcmp.induct) auto

lemma strcmp_trans: "strcmp a b < 0 \<Longrightarrow> strcmp b c < 0 \<Longrightarrow> strcmp a c < 0"
proof (induction a b arbitrary: c rule: strcmp.induct)
  case (2 y ys)
  then show ?case by (cases c) auto
next
  case (4 x xs y ys)
  then obtain z zs where c: "c = z # zs" by (cases c) auto
  have inj: "of_char u = (of_char v :: nat) \<longleftrightarrow> u = v" for u v by simp
  show ?case using 4 c inj [of x y] inj [of y z] by (auto split: if_splits)
qed auto

text \<open>\<^verbatim>\<open>strncmp\<close> on the first \<open>n\<close> bytes: past the terminator nothing is compared.\<close>

definition strncmp :: "string \<Rightarrow> string \<Rightarrow> nat \<Rightarrow> int" where
  "strncmp s t n = strcmp (take n s) (take n t)"

text \<open>\<^verbatim>\<open>strchr\<close>: the suffix that starts at the first occurrence.\<close>

fun strchr :: "string \<Rightarrow> char \<Rightarrow> string option" where
  "strchr [] c = None"
| "strchr (x # xs) c = (if x = c then Some (x # xs) else strchr xs c)"

lemma strchr_None_iff [simp]: "strchr s c = None \<longleftrightarrow> c \<notin> set s"
  by (induction s) auto

lemma strchr_Some_split:
  "strchr s c = Some t \<Longrightarrow> \<exists>u v. s = u @ c # v \<and> t = c # v \<and> c \<notin> set u"
proof (induction s)
  case Nil
  then show ?case by simp
next
  case (Cons x xs)
  show ?case
  proof (cases "x = c")
    case True
    with Cons.prems have "x # xs = [] @ c # xs \<and> t = c # xs \<and> c \<notin> set []" by simp
    then show ?thesis by blast
  next
    case False
    with Cons obtain u v where "xs = u @ c # v" "t = c # v" "c \<notin> set u" by auto
    with False have "x # xs = (x # u) @ c # v \<and> t = c # v \<and> c \<notin> set (x # u)" by simp
    then show ?thesis by blast
  qed
qed

lemma strchr_append [cstr_simps]: "c \<notin> set u \<Longrightarrow> strchr (u @ c # v) c = Some (c # v)"
  by (induction u) auto

text \<open>Reading a character: past the last one stands the terminating NUL.\<close>

definition peek :: "string \<Rightarrow> char" where
  "peek s = (case s of [] \<Rightarrow> NUL | c # _ \<Rightarrow> c)"

definition char_at :: "string \<Rightarrow> nat \<Rightarrow> char" where
  "char_at s i = (if i < length s then s ! i else NUL)"

lemma peek_Nil [simp]: "peek [] = NUL"
  by (simp add: peek_def)

lemma peek_Cons [simp]: "peek (c # s) = c"
  by (simp add: peek_def)

section \<open>A heap with a fallible allocator\<close>

text \<open>
  \<^term>\<open>cells\<close> holds the live blocks, \<^term>\<open>brk\<close> numbers the allocations made so far and
  \<^term>\<open>oom\<close> says which of them fail: every theorem is about all allocation behaviours,
  because it holds for every \<^term>\<open>oom\<close>.  A C pointer is an \<^typ>\<open>nat option\<close> with
  \<^term>\<open>None\<close> for NULL.
\<close>

type_synonym ptr = "nat option"

record 'c heap =
  cells :: "nat \<Rightarrow> 'c option"
  brk :: nat
  oom :: "nat \<Rightarrow> bool"

definition heap_ok :: "('c, 'z) heap_scheme \<Rightarrow> bool" where
  "heap_ok h \<longleftrightarrow> (\<forall>a \<ge> brk h. cells h a = None)"

definition empty_heap :: "(nat \<Rightarrow> bool) \<Rightarrow> 'c heap" where
  "empty_heap f = \<lparr>cells = (\<lambda>_. None), brk = 0, oom = f\<rparr>"

definition halloc :: "'c \<Rightarrow> ('c, 'z) heap_scheme \<Rightarrow> ptr \<times> ('c, 'z) heap_scheme" where
  "halloc c h =
     (if oom h (brk h) then (None, h\<lparr>brk := Suc (brk h)\<rparr>)
      else (Some (brk h), h\<lparr>cells := (cells h)(brk h \<mapsto> c), brk := Suc (brk h)\<rparr>))"

definition hload :: "('c, 'z) heap_scheme \<Rightarrow> ptr \<Rightarrow> 'c option" where
  "hload h p = Option.bind p (cells h)"

definition hstore :: "nat \<Rightarrow> 'c \<Rightarrow> ('c, 'z) heap_scheme \<Rightarrow> ('c, 'z) heap_scheme option" where
  "hstore a c h =
     (case cells h a of None \<Rightarrow> None | Some _ \<Rightarrow> Some (h\<lparr>cells := (cells h)(a \<mapsto> c)\<rparr>))"

definition hfree :: "nat \<Rightarrow> ('c, 'z) heap_scheme \<Rightarrow> ('c, 'z) heap_scheme option" where
  "hfree a h =
     (case cells h a of None \<Rightarrow> None | Some _ \<Rightarrow> Some (h\<lparr>cells := (cells h)(a := None)\<rparr>))"

lemma hload_None [simp]: "hload h None = None"
  and hload_Some [simp]: "hload h (Some a) = cells h a"
  by (simp_all add: hload_def)

lemma hstore_Some [heap_simps]:
  "cells h a = Some c0 \<Longrightarrow> hstore a c h = Some (h\<lparr>cells := (cells h)(a \<mapsto> c)\<rparr>)"
  by (simp add: hstore_def)

lemma hfree_Some [heap_simps]:
  "cells h a = Some c0 \<Longrightarrow> hfree a h = Some (h\<lparr>cells := (cells h)(a := None)\<rparr>)"
  by (simp add: hfree_def)

lemma heap_ok_empty [simp]: "heap_ok (empty_heap f)"
  by (simp add: heap_ok_def empty_heap_def)

lemma heap_ok_fresh: "heap_ok h \<Longrightarrow> cells h a \<noteq> None \<Longrightarrow> a < brk h"
  by (meson heap_ok_def not_le)

lemma heap_ok_brk [simp]: "heap_ok h \<Longrightarrow> heap_ok (h\<lparr>brk := Suc (brk h)\<rparr>)"
  by (simp add: heap_ok_def)

lemma heap_ok_alloc [simp]:
  "heap_ok h \<Longrightarrow> heap_ok (h\<lparr>cells := (cells h)(brk h \<mapsto> c), brk := Suc (brk h)\<rparr>)"
  by (simp add: heap_ok_def)

lemma heap_ok_upd:
  "heap_ok h \<Longrightarrow> cells h a \<noteq> None \<Longrightarrow> heap_ok (h\<lparr>cells := (cells h)(a := c)\<rparr>)"
  using heap_ok_fresh [of h a] by (auto simp: heap_ok_def)

text \<open>
  A string block that belongs to one owner for its whole life is kept as a value in the owner;
  allocating it only uses up an allocation.
\<close>

definition strdup_val :: "string \<Rightarrow> ('c, 'z) heap_scheme \<Rightarrow> string option \<times> ('c, 'z) heap_scheme" where
  "strdup_val s h = (if oom h (brk h) then None else Some s, h\<lparr>brk := Suc (brk h)\<rparr>)"

lemma strdup_val_fields [simp]:
  "cells (snd (strdup_val s h)) = cells h" "brk (snd (strdup_val s h)) = Suc (brk h)"
  "oom (snd (strdup_val s h)) = oom h"
  by (simp_all add: strdup_val_def)

section \<open>Character buffers\<close>

text \<open>Writing \<open>s\<close> at index \<open>p\<close>; outside the buffer it is a fault.\<close>

definition buf_write :: "string \<Rightarrow> nat \<Rightarrow> string \<Rightarrow> string option" where
  "buf_write data p s =
     (if p + length s \<le> length data then Some (take p data @ s @ drop (p + length s) data) else None)"

lemma buf_write_app:
  "length ys = length s \<Longrightarrow> p = length xs \<Longrightarrow> buf_write (xs @ ys @ zs) p s = Some (xs @ s @ zs)"
  by (simp add: buf_write_def)

section \<open>Generic list lemmas\<close>

lemma distinct_map_fst_update:
  "distinct (map fst xs) \<Longrightarrow> i < length xs \<Longrightarrow> distinct (map fst (xs[i := (fst (xs ! i), d)]))"
  by (simp add: map_update) (metis list_update_id nth_map)

end
