(* ===== verification/Ez_Context.thy ===== *)
theory Ez_Context
  imports Ez_Prelude
begin

text \<open>
  The library context of \<^verbatim>\<open>src/common/ezcfg.c\<close>: the retry loops around the pthread mutex
  calls and the reference counter that every library object takes and drops.  The results
  of the pthread calls come from outside the program, so a call of a locking function takes
  them as an argument: attempt \<open>k\<close> returns \<open>fst (m k)\<close> and leaves \<open>snd (m k)\<close> in
  \<^verbatim>\<open>errno\<close>.
\<close>

section \<open>Locking with retries\<close>

type_synonym mutex_call = "nat \<Rightarrow> int \<times> int"

definition EINVAL :: int where "EINVAL = 22"

definition EZCFG_LOCK_RETRY_MAX :: nat where "EZCFG_LOCK_RETRY_MAX = 3"

definition EZCFG_UNLOCK_RETRY_MAX :: nat where "EZCFG_UNLOCK_RETRY_MAX = 3"

text \<open>
  The loop evaluates the pthread call before it looks at the retry count, so at most
  \<open>limit + 1\<close> calls are made.  It returns the final value of \<open>retry\<close>, or \<^term>\<open>None\<close>
  for the early return on \<^verbatim>\<open>EINVAL\<close>.
\<close>

function mutex_retry_loop :: "mutex_call \<Rightarrow> nat \<Rightarrow> nat \<Rightarrow> nat option" where
  "mutex_retry_loop m limit retry =
     (if fst (m retry) < 0 \<and> retry < limit then
        (if snd (m retry) = EINVAL then None else mutex_retry_loop m limit (Suc retry))
      else Some retry)"
  by pat_completeness auto
termination
  by (relation "measure (\<lambda>(m, limit, retry). limit - retry)") auto

declare mutex_retry_loop.simps [simp del]

definition lock_ezcfg_ref_mutex :: "mutex_call \<Rightarrow> int" where
  "lock_ezcfg_ref_mutex m =
     (case mutex_retry_loop m EZCFG_LOCK_RETRY_MAX 0 of
        None \<Rightarrow> EZCFG_RET_FAIL
      | Some retry \<Rightarrow>
          if retry < EZCFG_LOCK_RETRY_MAX then EZCFG_RET_OK else EZCFG_RET_FAIL)"

definition unlock_ezcfg_ref_mutex :: "mutex_call \<Rightarrow> int" where
  "unlock_ezcfg_ref_mutex m =
     (case mutex_retry_loop m EZCFG_UNLOCK_RETRY_MAX 0 of
        None \<Rightarrow> EZCFG_RET_FAIL
      | Some retry \<Rightarrow>
          if retry < EZCFG_UNLOCK_RETRY_MAX then EZCFG_RET_OK else EZCFG_RET_FAIL)"

section \<open>The reference counter\<close>

record ezcfg_refs =
  ezcfg_ref_counter :: int
  this_ezcfg :: ptr

definition ezcfg_inc_ref :: "mutex_call \<Rightarrow> mutex_call \<Rightarrow> ezcfg_refs \<Rightarrow> int \<times> ezcfg_refs" where
  "ezcfg_inc_ref lk ulk s =
     (if lock_ezcfg_ref_mutex lk \<noteq> EZCFG_RET_OK then (EZCFG_RET_FAIL, s)
      else
        let (ret, s') =
          (if ezcfg_ref_counter s > 0
           then (EZCFG_RET_OK, s\<lparr>ezcfg_ref_counter := ezcfg_ref_counter s + 1\<rparr>)
           else (EZCFG_RET_FAIL, s))
        in (if unlock_ezcfg_ref_mutex ulk \<noteq> EZCFG_RET_OK then EZCFG_RET_FAIL else ret, s'))"

definition ezcfg_dec_ref :: "mutex_call \<Rightarrow> mutex_call \<Rightarrow> ezcfg_refs \<Rightarrow> int \<times> ezcfg_refs" where
  "ezcfg_dec_ref lk ulk s =
     (if lock_ezcfg_ref_mutex lk \<noteq> EZCFG_RET_OK then (EZCFG_RET_FAIL, s)
      else
        let (ret, s') =
          (if ezcfg_ref_counter s > 1
           then (EZCFG_RET_OK, s\<lparr>ezcfg_ref_counter := ezcfg_ref_counter s - 1\<rparr>)
           else (EZCFG_RET_FAIL, s))
        in (if unlock_ezcfg_ref_mutex ulk \<noteq> EZCFG_RET_OK then EZCFG_RET_FAIL else ret, s'))"

section \<open>What the retry loops guarantee\<close>

text \<open>The loop stops at the first attempt whose call does not report a negative value.\<close>

lemma mutex_retry_loop_first:
  "r \<le> k \<Longrightarrow> k \<le> limit \<Longrightarrow> (\<forall>j. r \<le> j \<and> j < k \<longrightarrow> fst (m j) < 0 \<and> snd (m j) \<noteq> EINVAL) \<Longrightarrow>
     (0 \<le> fst (m k) \<or> k = limit) \<Longrightarrow> mutex_retry_loop m limit r = Some k"
proof (induction "k - r" arbitrary: r)
  case 0
  then have "k = r" by simp
  with 0 show ?case by (auto simp: mutex_retry_loop.simps [of m limit r])
next
  case (Suc n)
  then have "r < k" by simp
  with Suc.prems have "fst (m r) < 0" "snd (m r) \<noteq> EINVAL" "r < limit" by auto
  moreover have "mutex_retry_loop m limit (Suc r) = Some k"
    using Suc.hyps(1) [of "Suc r"] Suc.hyps(2) Suc.prems \<open>r < k\<close> by auto
  ultimately show ?case by (simp add: mutex_retry_loop.simps [of m limit r])
qed

text \<open>
  POSIX: \<^verbatim>\<open>pthread_mutex_lock\<close> and \<^verbatim>\<open>pthread_mutex_unlock\<close> return zero or a positive error
  number and never a negative value.
\<close>

definition posix_mutex_call :: "mutex_call \<Rightarrow> bool" where
  "posix_mutex_call m \<longleftrightarrow> (\<forall>k. 0 \<le> fst (m k))"

lemma posix_lock_ok [simp]: "posix_mutex_call m \<Longrightarrow> lock_ezcfg_ref_mutex m = EZCFG_RET_OK"
  and posix_unlock_ok [simp]: "posix_mutex_call m \<Longrightarrow> unlock_ezcfg_ref_mutex m = EZCFG_RET_OK"
  by (simp_all add: lock_ezcfg_ref_mutex_def unlock_ezcfg_ref_mutex_def posix_mutex_call_def
        mutex_retry_loop_first [of 0 0] EZCFG_LOCK_RETRY_MAX_def EZCFG_UNLOCK_RETRY_MAX_def)

lemma inc_ref_posix:
  "posix_mutex_call lk \<Longrightarrow> posix_mutex_call ulk \<Longrightarrow>
     ezcfg_inc_ref lk ulk s =
       (if ezcfg_ref_counter s > 0
        then (EZCFG_RET_OK, s\<lparr>ezcfg_ref_counter := ezcfg_ref_counter s + 1\<rparr>)
        else (EZCFG_RET_FAIL, s))"
  by (simp add: ezcfg_inc_ref_def)

lemma dec_ref_posix:
  "posix_mutex_call lk \<Longrightarrow> posix_mutex_call ulk \<Longrightarrow>
     ezcfg_dec_ref lk ulk s =
       (if ezcfg_ref_counter s > 1
        then (EZCFG_RET_OK, s\<lparr>ezcfg_ref_counter := ezcfg_ref_counter s - 1\<rparr>)
        else (EZCFG_RET_FAIL, s))"
  by (simp add: ezcfg_dec_ref_def)

end
