(* ===== verification/Util_Checksum.thy ===== *)
theory Util_Checksum
  imports Ez_Prelude
begin

text \<open>
  The checksums of \<^verbatim>\<open>src/util/util_crc32.c\<close> and \<^verbatim>\<open>src/util/util_adler32.c\<close> on 32-bit
  words.  The CRC is computed with a table of reflected remainders; it is proved equal to
  the bit-by-bit division.  Adler-32 delays the reduction modulo 65521 over blocks of 5550
  bytes; it is proved equal to the definition that reduces at once, which needs that the
  32-bit sums do not wrap around within a block.
\<close>

unbundle bit_operations_syntax

section \<open>CRC-32\<close>

definition CRC32_INITIAL_REMAINDER :: "32 word" where "CRC32_INITIAL_REMAINDER = 0xffffffff"

definition CRC32_FINAL_XOR_VALUE :: "32 word" where "CRC32_FINAL_XOR_VALUE = 0xffffffff"

definition CRC32_POLYNOMIAL :: "32 word" where "CRC32_POLYNOMIAL = 0x04c11db7"

text \<open>The loop of \<^verbatim>\<open>crc32_reflect\<close>, from the loop variable \<open>i\<close> on.\<close>

fun crc32_reflect_loop :: "nat \<Rightarrow> nat \<Rightarrow> 32 word \<Rightarrow> 32 word \<Rightarrow> 32 word" where
  "crc32_reflect_loop 0 bits data val = val"
| "crc32_reflect_loop (Suc k) bits data val =
     crc32_reflect_loop k bits (drop_bit 1 data)
       (if data AND 1 \<noteq> 0 then val OR push_bit k 1 else val)"

definition crc32_reflect :: "32 word \<Rightarrow> nat \<Rightarrow> 32 word" where
  "crc32_reflect data bits = crc32_reflect_loop bits bits data 0"

definition crc32_shift :: "32 word \<Rightarrow> 32 word" where
  "crc32_shift r = push_bit 1 r XOR (if r AND push_bit 31 1 \<noteq> 0 then CRC32_POLYNOMIAL else 0)"

text \<open>One entry of the table \<^verbatim>\<open>crc32_init_table\<close> fills.\<close>

definition crc32_table_entry :: "nat \<Rightarrow> 32 word" where
  "crc32_table_entry i =
     crc32_reflect ((crc32_shift ^^ 8) (push_bit 24 (crc32_reflect (of_nat i) 8))) 32"

definition crc32_init_table :: "nat \<Rightarrow> 32 word list" where
  "crc32_init_table len = map crc32_table_entry [0..<len]"

text \<open>The loop of \<^verbatim>\<open>crc32_calc\<close> over the data.\<close>

fun crc32_calc_loop :: "32 word list \<Rightarrow> 32 word \<Rightarrow> 8 word list \<Rightarrow> 32 word" where
  "crc32_calc_loop table crc [] = crc"
| "crc32_calc_loop table crc (b # data) =
     crc32_calc_loop table
       (drop_bit 8 crc XOR table ! unat ((crc AND 0xff) XOR ucast b)) data"

definition crc32_calc :: "32 word \<Rightarrow> 8 word list \<Rightarrow> 32 word" where
  "crc32_calc crcp data = crc32_calc_loop (crc32_init_table 256) crcp data"

definition ezcfg_util_crc32 :: "8 word list \<Rightarrow> 32 word" where
  "ezcfg_util_crc32 data = crc32_calc CRC32_INITIAL_REMAINDER data XOR CRC32_FINAL_XOR_VALUE"

section \<open>Adler-32\<close>

definition MOD_ADLER :: nat where "MOD_ADLER = 65521"

text \<open>The inner \<^verbatim>\<open>do\<close> loop over a block.\<close>

fun adler_block :: "32 word \<Rightarrow> 32 word \<Rightarrow> 8 word list \<Rightarrow> 32 word \<times> 32 word" where
  "adler_block a b [] = (a, b)"
| "adler_block a b (d # ds) = adler_block (a + ucast d) (b + (a + ucast d)) ds"

function adler_loop :: "32 word \<Rightarrow> 32 word \<Rightarrow> 8 word list \<Rightarrow> 32 word \<times> 32 word" where
  "adler_loop a b data =
     (if data = [] then (a, b)
      else
        let tlen = (if length data > 5550 then 5550 else length data);
            (a', b') = adler_block a b (take tlen data)
        in adler_loop (a' mod 65521) (b' mod 65521) (drop tlen data))"
  by pat_completeness auto

termination adler_loop
  by (relation "measure (\<lambda>(a, b, data). length data)") auto

declare adler_loop.simps [simp del]

definition ezcfg_util_adler32 :: "8 word list \<Rightarrow> 32 word" where
  "ezcfg_util_adler32 data = (let (a, b) = adler_loop 1 0 data in push_bit 16 b OR a)"

section \<open>The bit-by-bit CRC\<close>

text \<open>One step of the reflected division: shift right, subtract the reflected polynomial when a
  bit falls out.\<close>

definition crc_bit :: "32 word \<Rightarrow> 32 word" where
  "crc_bit r = drop_bit 1 r XOR (if r AND 1 \<noteq> 0 then 0xedb88320 else 0)"

definition crc_byte :: "32 word \<Rightarrow> 8 word \<Rightarrow> 32 word" where
  "crc_byte r b = (crc_bit ^^ 8) (r XOR ucast b)"

definition crc_spec :: "8 word list \<Rightarrow> 32 word" where
  "crc_spec data = foldl crc_byte 0xffffffff data XOR 0xffffffff"

section \<open>The table holds the bit-by-bit remainders\<close>

lemma and_1_iff: "x AND 1 \<noteq> 0 \<longleftrightarrow> bit x 0" for x :: "32 word"
  by (simp add: and_one_eq bit_0 odd_iff_mod_2_eq_one)

lemma bit_crc32_reflect_loop:
  "k \<le> 32 \<Longrightarrow> bit (crc32_reflect_loop k bits data val) n \<longleftrightarrow>
     bit val n \<or> n < k \<and> bit data (k - 1 - n)"
proof (induction k arbitrary: data val)
  case 0
  then show ?case by simp
next
  case (Suc k)
  have "bit (drop_bit 1 data) (k - 1 - n) = bit data (k - n)" if "n < k"
    using that by (simp add: bit_drop_bit_eq Suc_diff_Suc)
  moreover have "bit (push_bit k 1 :: 32 word) n \<longleftrightarrow> n = k"
    unfolding bit_push_bit_iff using Suc.prems by (auto simp: bit_1_iff)
  ultimately show ?case using Suc
    by (auto simp: and_1_iff bit_or_iff less_Suc_eq)
qed

lemma bit_crc32_reflect [simp]:
  "k \<le> 32 \<Longrightarrow> bit (crc32_reflect x k) n \<longleftrightarrow> n < k \<and> bit x (k - 1 - n)"
  by (simp add: crc32_reflect_def bit_crc32_reflect_loop)

lemma polynomial_reflected: "crc32_reflect CRC32_POLYNOMIAL 32 = 0xedb88320"
  by code_simp

lemma bit_xor_if: "bit (x XOR (if c then y else 0)) n \<longleftrightarrow> bit x n \<noteq> (c \<and> bit y n)" for x y :: "32 word"
  by (simp add: bit_xor_iff)

lemma crc_bit_reflect: "crc_bit (crc32_reflect x 32) = crc32_reflect (crc32_shift x) 32"
proof (rule bit_word_eqI)
  fix n :: nat
  assume "n < LENGTH(32)"
  then have n: "n < 32" by simp
  have p: "bit (0xedb88320 :: 32 word) n \<longleftrightarrow> bit CRC32_POLYNOMIAL (31 - n)"
    using n bit_crc32_reflect [of 32 CRC32_POLYNOMIAL n] polynomial_reflected by simp
  have h: "(x AND push_bit 31 1 \<noteq> 0) = bit x 31"
    by (simp add: bit_iff_and_push_bit_not_eq_0)
  have l: "bit (crc_bit (crc32_reflect x 32)) n \<longleftrightarrow>
      (Suc n < 32 \<and> bit x (30 - n)) \<noteq> (bit x 31 \<and> bit CRC32_POLYNOMIAL (31 - n))"
    unfolding crc_bit_def bit_xor_if and_1_iff p by (auto simp: bit_drop_bit_eq)
  have "bit (push_bit 1 x) (31 - n) \<longleftrightarrow> Suc n < 32 \<and> bit x (30 - n)"
    unfolding bit_push_bit_iff using n by auto
  then have "bit (crc32_reflect (crc32_shift x) 32) n \<longleftrightarrow>
      (Suc n < 32 \<and> bit x (30 - n)) \<noteq> (bit x 31 \<and> bit CRC32_POLYNOMIAL (31 - n))"
    using n unfolding crc32_shift_def h by (simp add: bit_xor_if del: bit_push_bit_iff)
  with l show "bit (crc_bit (crc32_reflect x 32)) n = bit (crc32_reflect (crc32_shift x) 32) n" by simp
qed

lemma crc_bits_reflect:
  "(crc_bit ^^ k) (crc32_reflect x 32) = crc32_reflect ((crc32_shift ^^ k) x) 32"
  by (induction k) (simp_all add: crc_bit_reflect)

lemma small_bits: "i < 256 \<Longrightarrow> bit (of_nat i :: 32 word) n \<longleftrightarrow> n < 8 \<and> bit i n"
proof -
  assume i: "i < 256"
  have "\<not> bit i n" if "8 \<le> n"
  proof -
    have "i < 2 ^ n" using i that power_increasing [of 8 n "2::nat"] by simp
    then show ?thesis by (simp add: bit_iff_odd)
  qed
  then show ?thesis by (cases "8 \<le> n") (auto simp: bit_of_nat_iff)
qed

lemma table_entry_bits:
  assumes "i < 256"
  shows "crc32_table_entry i = (crc_bit ^^ 8) (of_nat i)"
proof -
  have "crc32_reflect (push_bit 24 (crc32_reflect (of_nat i) 8)) 32 = of_nat i"
  proof (rule bit_word_eqI)
    fix n :: nat
    assume "n < LENGTH(32)"
    then show "bit (crc32_reflect (push_bit 24 (crc32_reflect (of_nat i) 8)) 32) n = bit (of_nat i :: 32 word) n"
      using assms by (auto simp: bit_push_bit_iff small_bits)
  qed
  then show ?thesis by (simp add: crc32_table_entry_def crc_bits_reflect [symmetric])
qed

lemma crc_bit_xor: "crc_bit (x XOR y) = crc_bit x XOR crc_bit y"
  by (rule bit_word_eqI)
    (auto simp: crc_bit_def bit_xor_if and_1_iff bit_drop_bit_eq bit_xor_iff)

lemma crc_bits_xor: "(crc_bit ^^ k) (x XOR y) = (crc_bit ^^ k) x XOR (crc_bit ^^ k) y"
  by (induction k) (simp_all add: crc_bit_xor)

lemma crc_bits_zero: "\<forall>m<k. \<not> bit x m \<Longrightarrow> (crc_bit ^^ k) x = drop_bit k x"
proof (induction k)
  case 0
  then show ?case by simp
next
  case (Suc k)
  then have "\<not> bit (drop_bit k x) 0" by (simp add: bit_drop_bit_eq)
  with Suc show ?case
    by (simp add: crc_bit_def and_1_iff del: One_nat_def) (simp add: drop_bit_drop_bit)
qed

lemma crc_byte_table:
  "crc_byte r b = drop_bit 8 r XOR crc32_init_table 256 ! unat ((r AND 0xff) XOR ucast b)"
proof -
  let ?lo = "(r AND 0xff) XOR ucast b :: 32 word"
  have mask: "(0xff :: 32 word) = mask 8" by (simp add: mask_eq_exp_minus_1)
  have split: "r XOR ucast b = (r AND NOT 0xff) XOR ?lo"
    unfolding mask by (rule bit_word_eqI) (auto simp: bit_xor_iff bit_and_iff bit_not_iff)
  have hi: "(crc_bit ^^ 8) (r AND NOT 0xff) = drop_bit 8 r"
  proof -
    have "(crc_bit ^^ 8) (r AND NOT 0xff) = drop_bit 8 (r AND NOT 0xff)"
      by (rule crc_bits_zero) (auto simp: bit_and_iff bit_not_iff mask bit_mask_iff)
    also have "\<dots> = drop_bit 8 r"
      by (rule bit_word_eqI) (auto simp: bit_drop_bit_eq bit_and_iff bit_not_iff mask bit_mask_iff
          dest: bit_imp_le_length)
    finally show ?thesis .
  qed
  have "take_bit 8 ?lo = ?lo"
    by (rule bit_word_eqI)
      (auto simp: bit_take_bit_iff bit_xor_iff bit_and_iff mask bit_mask_iff bit_ucast_iff
        dest: bit_imp_le_length)
  then have lo: "unat ?lo < 256"
    using unsigned_take_bit_eq [where 'a = nat, of 8 ?lo] take_bit_nat_less_exp [of 8 "unat ?lo"]
    by (simp only: power_numeral) simp
  then have "crc32_init_table 256 ! unat ?lo = (crc_bit ^^ 8) ?lo"
    by (simp add: crc32_init_table_def table_entry_bits)
  then show ?thesis by (simp only: crc_byte_def split crc_bits_xor hi)
qed

text \<open>C39: the table-driven CRC of every byte string is the bit-by-bit CRC-32 with the reflected
  polynomial \<open>0xedb88320\<close>, initial value and final mask all ones.\<close>

theorem crc32_table_correct: "ezcfg_util_crc32 data = crc_spec data"
proof -
  have "crc32_calc_loop (crc32_init_table 256) r data = foldl crc_byte r data" for r
    by (induction data arbitrary: r) (simp_all add: crc_byte_table)
  then show ?thesis
    by (simp add: ezcfg_util_crc32_def crc32_calc_def crc_spec_def CRC32_INITIAL_REMAINDER_def
        CRC32_FINAL_XOR_VALUE_def)
qed

section \<open>Adler-32 with delayed reduction\<close>

text \<open>The definition of the checksum: both sums reduced at every byte.\<close>

fun adler_sums :: "nat \<Rightarrow> nat \<Rightarrow> nat list \<Rightarrow> nat \<times> nat" where
  "adler_sums a b [] = (a, b)"
| "adler_sums a b (d # ds) =
     adler_sums ((a + d) mod MOD_ADLER) ((b + (a + d) mod MOD_ADLER) mod MOD_ADLER) ds"

definition adler_spec :: "8 word list \<Rightarrow> nat" where
  "adler_spec data = (let (a, b) = adler_sums 1 0 (map unat data) in b * 65536 + a)"

text \<open>The sums of a block without any reduction.\<close>

fun adler_raw :: "nat \<Rightarrow> nat \<Rightarrow> nat list \<Rightarrow> nat \<times> nat" where
  "adler_raw a b [] = (a, b)"
| "adler_raw a b (d # ds) = adler_raw (a + d) (b + (a + d)) ds"

lemma adler_raw_mod:
  "adler_sums (a mod MOD_ADLER) (b mod MOD_ADLER) ds =
     (fst (adler_raw a b ds) mod MOD_ADLER, snd (adler_raw a b ds) mod MOD_ADLER)"
proof (induction ds arbitrary: a b)
  case (Cons d ds)
  have "(a mod MOD_ADLER + d) mod MOD_ADLER = (a + d) mod MOD_ADLER"
    "(b mod MOD_ADLER + (a + d) mod MOD_ADLER) mod MOD_ADLER = (b + (a + d)) mod MOD_ADLER"
    by (simp_all add: mod_simps)
  then show ?case using Cons.IH [of "a + d" "b + (a + d)"] by simp
qed simp

lemma adler_raw_append:
  "adler_raw a b (xs @ ys) = (let (a', b') = adler_raw a b xs in adler_raw a' b' ys)"
  by (induction xs arbitrary: a b) auto

text \<open>A bound on the sums of a block of \<open>k\<close> bytes.\<close>

lemma adler_raw_bound:
  "\<forall>d\<in>set ds. d \<le> 255 \<Longrightarrow> length ds = k \<Longrightarrow>
    fst (adler_raw a b ds) \<le> a + 255 * k \<and> snd (adler_raw a b ds) \<le> b + k * a + 255 * (k * (k + 1) div 2)"
proof (induction ds arbitrary: a b k)
  case Nil
  then show ?case by simp
next
  case (Cons d ds)
  then obtain k' where k: "k = Suc k'" "length ds = k'" by auto
  have d: "d \<le> 255" using Cons.prems by simp
  have tri: "Suc k' * (Suc k' + 1) div 2 = k' * (k' + 1) div 2 + Suc k'"
    by (simp add: algebra_simps)
  note ih = Cons.IH [of k' "a + d" "b + (a + d)"]
  have h: "fst (adler_raw a b (d # ds)) \<le> a + d + 255 * k'"
    "snd (adler_raw a b (d # ds)) \<le> b + (a + d) + k' * (a + d) + 255 * (k' * (k' + 1) div 2)"
    using ih Cons.prems k by auto
  have p: "k' * (a + d) \<le> k' * a + 255 * k'" using d by (simp add: algebra_simps)
  have lin: "F \<le> a + 255 * Suc k' \<and> S \<le> b + (a + Q) + 255 * (T + Suc k')"
    if "F \<le> a + d + 255 * k'" "S \<le> b + (a + d) + P + 255 * T" "P \<le> Q + 255 * k'" for F S P Q T :: nat
    using that d by simp
  have "Suc k' * a = a + k' * a" by simp
  with lin [OF h p] show ?case unfolding k(1) tri by (simp only:)
qed

lemma adler_raw_mono: "a \<le> fst (adler_raw a b ds)" "b \<le> snd (adler_raw a b ds)"
  by (induction ds arbitrary: a b) (simp_all, (meson add_leD1 order_trans le_add1)+)

text \<open>The 32-bit sums are exact as long as the unreduced sums fit.\<close>

lemma adler_block_exact:
  "fst (adler_raw (unat a) (unat b) (map unat ds)) < 2 ^ 32 \<Longrightarrow>
   snd (adler_raw (unat a) (unat b) (map unat ds)) < 2 ^ 32 \<Longrightarrow>
   (let (a', b') = adler_block a b ds in (unat a', unat b')) = adler_raw (unat a) (unat b) (map unat ds)"
proof (induction ds arbitrary: a b)
  case Nil
  then show ?case by simp
next
  case (Cons d ds)
  let ?d = "ucast d :: 32 word"
  have d: "unat ?d = unat d"
    using unsigned_less [where 'a = nat, of d] by (simp add: unsigned_ucast_eq take_bit_nat_eq_self)
  have "unat a + unat d < 2 ^ 32"
    using Cons.prems(1) adler_raw_mono(1) [of "unat a + unat d" "unat b + (unat a + unat d)" "map unat ds"]
    by simp
  then have a: "unat (a + ?d) = unat a + unat d" using d by (simp add: unat_word_ariths)
  have "unat b + (unat a + unat d) < 2 ^ 32"
    using Cons.prems(2) adler_raw_mono(2) [of "unat b + (unat a + unat d)" "unat a + unat d" "map unat ds"]
    by simp
  then have b: "unat (b + (a + ?d)) = unat b + (unat a + unat d)" using a by (simp add: unat_word_ariths)
  show ?case using Cons.IH [of "a + ?d" "b + (a + ?d)"] Cons.prems by (simp add: a b)
qed

lemma adler_block_mod:
  assumes "unat a < MOD_ADLER" "unat b < MOD_ADLER" "length ds \<le> 5550"
  shows "(let (a', b') = adler_block a b ds in (unat (a' mod 65521), unat (b' mod 65521))) =
    adler_sums (unat a) (unat b) (map unat ds)"
proof -
  let ?r = "adler_raw (unat a) (unat b) (map unat ds)" and ?k = "length ds"
  have "unat w \<le> 255" for w :: "8 word" using unsigned_less [where 'a = nat, of w] by simp
  then have "\<forall>d\<in>set (map unat ds). d \<le> 255" by simp
  from adler_raw_bound [OF this, of ?k "unat a" "unat b"]
  have r: "fst ?r \<le> unat a + 255 * ?k" "snd ?r \<le> unat b + ?k * unat a + 255 * (?k * (?k + 1) div 2)"
    by simp_all
  have "?k * unat a \<le> 5550 * 65520" using assms by (intro mult_mono) (simp_all add: MOD_ADLER_def)
  moreover have "?k * (?k + 1) \<le> 5550 * 5551" using assms(3) by (intro mult_mono) simp_all
  then have "?k * (?k + 1) div 2 \<le> 15404025" by linarith
  ultimately have "fst ?r < 2 ^ 32" "snd ?r < 2 ^ 32" using r assms by (simp_all add: MOD_ADLER_def)
  then have ex: "(let (a', b') = adler_block a b ds in (unat a', unat b')) = ?r"
    by (rule adler_block_exact)
  obtain a' b' where ab: "adler_block a b ds = (a', b')" by fastforce
  have "(unat (a' mod 65521), unat (b' mod 65521)) = (fst ?r mod MOD_ADLER, snd ?r mod MOD_ADLER)"
    using ex ab by (simp add: unat_mod MOD_ADLER_def prod_eq_iff)
  also have "\<dots> = adler_sums (unat a) (unat b) (map unat ds)"
    using adler_raw_mod [of "unat a" "unat b" "map unat ds"] assms by simp
  finally show ?thesis using ab by simp
qed

lemma adler_sums_append:
  "adler_sums a b (xs @ ys) = (let (a', b') = adler_sums a b xs in adler_sums a' b' ys)"
  by (induction xs arbitrary: a b) auto

lemma adler_sums_bound:
  "a < MOD_ADLER \<Longrightarrow> b < MOD_ADLER \<Longrightarrow>
    fst (adler_sums a b ds) < MOD_ADLER \<and> snd (adler_sums a b ds) < MOD_ADLER"
  by (induction ds arbitrary: a b) (simp_all add: MOD_ADLER_def)

lemma adler_loop_sums:
  "unat a < MOD_ADLER \<Longrightarrow> unat b < MOD_ADLER \<Longrightarrow>
    (let (a', b') = adler_loop a b data in (unat a', unat b')) = adler_sums (unat a) (unat b) (map unat data)"
proof (induction a b data rule: adler_loop.induct)
  case (1 a b data)
  show ?case
  proof (cases "data = []")
    case True
    then show ?thesis by (simp add: adler_loop.simps [of a b])
  next
    case False
    define n where "n = (if length data > 5550 then 5550 else length data)"
    obtain a' b' where ab: "adler_block a b (take n data) = (a', b')" by fastforce
    have m: "(unat (a' mod 65521), unat (b' mod 65521)) =
        adler_sums (unat a) (unat b) (map unat (take n data))"
      using adler_block_mod [OF "1.prems", of "take n data"] ab by (simp add: n_def)
    then have bd: "unat (a' mod 65521) < MOD_ADLER" "unat (b' mod 65521) < MOD_ADLER"
      using adler_sums_bound [OF "1.prems"] by (metis fst_conv, metis snd_conv)
    have step: "adler_loop a b data = adler_loop (a' mod 65521) (b' mod 65521) (drop n data)"
      using False ab by (simp add: adler_loop.simps [of a b data] n_def Let_def)
    have "(let (x, y) = adler_loop (a' mod 65521) (b' mod 65521) (drop n data) in (unat x, unat y)) =
        adler_sums (unat (a' mod 65521)) (unat (b' mod 65521)) (map unat (drop n data))"
      using "1.IH" [OF False n_def ab [symmetric] refl bd] .
    also have "\<dots> = adler_sums (unat a) (unat b) (map unat (take n data) @ map unat (drop n data))"
      unfolding adler_sums_append m [symmetric] by simp
    also have "map unat (take n data) @ map unat (drop n data) = map unat data"
      by (simp flip: map_append)
    finally show ?thesis using step by simp
  qed
qed

text \<open>For byte strings of any length the checksum equals Adler-32 with both sums reduced at
  every byte: blocks of 5550 bytes never overflow the 32-bit sums.\<close>

theorem adler32_blocks_correct: "unat (ezcfg_util_adler32 data) = adler_spec data"
proof -
  obtain a b where ab: "adler_loop 1 0 data = (a, b)" by fastforce
  then have s: "(unat a, unat b) = adler_sums 1 0 (map unat data)"
    using adler_loop_sums [of 1 0 data] by (simp add: MOD_ADLER_def)
  then have lt: "unat a < 65521" "unat b < 65521"
    using adler_sums_bound [of 1 0 "map unat data"] by (auto simp: MOD_ADLER_def prod_eq_iff)
  have "push_bit 16 b AND a = 0"
  proof (rule bit_word_eqI)
    fix n :: nat
    assume "n < LENGTH(32)"
    have "\<not> bit a n" if "16 \<le> n"
    proof -
      have "unat a < 2 ^ n" using lt(1) power_increasing [OF that, of "2::nat"] by simp
      then have "\<not> bit (unat a) n" by (simp add: bit_iff_odd)
      then show ?thesis by (simp add: bit_unsigned_iff)
    qed
    then show "bit (push_bit 16 b AND a) n = bit (0 :: 32 word) n"
      by (auto simp: bit_and_iff bit_push_bit_iff)
  qed
  then have "push_bit 16 b OR a = push_bit 16 b + a" by (simp add: disjunctive_add_eq_or)
  moreover have "unat (push_bit 16 b) = unat b * 65536"
    using lt(2) by (simp add: push_bit_eq_mult unat_word_ariths)
  then have "unat (push_bit 16 b + a) = unat b * 65536 + unat a"
    using lt by (simp add: unat_word_ariths)
  ultimately show ?thesis
    using s ab by (auto simp: ezcfg_util_adler32_def adler_spec_def split: prod.splits)
qed

end
