(* ===== verification/Stack_List.thy ===== *)
theory Stack_List
  imports Ez_Prelude
begin

text \<open>
  The stack lists of \<^verbatim>\<open>src/common/stack_list.c\<close> (used by the JSON reader and writer of the
  library context) and \<^verbatim>\<open>src/basic/stack_list/stack_list.c\<close> (its public twin).  The nodes
  of a stack are reachable from its header only, so the chain from \<open>head\<close> is kept as the
  list of the data it carries; the separate \<open>length\<close> field is kept as in the code, and
  \<open>is_empty\<close> reads it and not the chain.  The argument \<open>mem\<close> of a push says whether
  \<^verbatim>\<open>calloc\<close> succeeds.
\<close>

section \<open>The context's stack: common/stack\_list.c\<close>

record 'd stack_list =
  sl_length :: int
  sl_head :: "'d list"
  sl_del :: bool \<comment> \<open>\<open>data_delete_handler\<close> is not NULL\<close>

definition local_stack_list_new :: "bool \<Rightarrow> 'd stack_list option" where
  "local_stack_list_new mem =
     (if mem then Some \<lparr>sl_length = 0, sl_head = [], sl_del = False\<rparr> else None)"

text \<open>\<^verbatim>\<open>stack_list_node_delete\<close> hands non-NULL data to the handler; the result is the data
  handed over.\<close>

definition stack_list_node_delete :: "'d stack_list \<Rightarrow> 'd option \<Rightarrow> 'd list" where
  "stack_list_node_delete l p =
     (if sl_del l \<and> p \<noteq> None then (case p of Some d \<Rightarrow> [d] | None \<Rightarrow> []) else [])"

text \<open>\<^verbatim>\<open>local_stack_list_del\<close>: the data the handler receives while the nodes are freed.\<close>

fun stack_list_del_loop :: "'d stack_list \<Rightarrow> 'd list \<Rightarrow> 'd list" where
  "stack_list_del_loop l [] = []"
| "stack_list_del_loop l (d # ds) = stack_list_node_delete l (Some d) @ stack_list_del_loop l ds"

definition local_stack_list_del :: "'d stack_list \<Rightarrow> 'd list" where
  "local_stack_list_del l = stack_list_del_loop l (sl_head l)"

definition local_stack_list_set_data_delete_handler :: "'d stack_list \<Rightarrow> bool \<Rightarrow> 'd stack_list" where
  "local_stack_list_set_data_delete_handler l handler = l\<lparr>sl_del := handler\<rparr>"

definition local_stack_list_push :: "bool \<Rightarrow> 'd stack_list \<Rightarrow> 'd \<Rightarrow> bool \<times> 'd stack_list" where
  "local_stack_list_push mem l d =
     (if \<not> mem then (False, l)
      else (True, l\<lparr>sl_head := d # sl_head l, sl_length := sl_length l + 1\<rparr>))"

definition local_stack_list_pop :: "'d stack_list \<Rightarrow> 'd option \<times> 'd stack_list" where
  "local_stack_list_pop l =
     (case sl_head l of
        [] \<Rightarrow> (None, l)
      | d # ds \<Rightarrow> (Some d, l\<lparr>sl_head := ds, sl_length := sl_length l - 1\<rparr>))"

definition local_stack_list_get_length :: "'d stack_list \<Rightarrow> int" where
  "local_stack_list_get_length l = sl_length l"

definition local_stack_list_is_empty :: "'d stack_list \<Rightarrow> bool" where
  "local_stack_list_is_empty l = (if sl_length l > 0 then False else True)"

section \<open>The public stack: basic/stack\_list/stack\_list.c\<close>

record 'd ezcfg_stack_list =
  esl_ezcfg :: ptr
  esl_length :: int
  esl_head :: "'d list"
  esl_del :: bool

definition ezcfg_stack_list_new :: "bool \<Rightarrow> ptr \<Rightarrow> 'd ezcfg_stack_list option" where
  "ezcfg_stack_list_new mem ezcfg =
     (if mem then Some \<lparr>esl_ezcfg = ezcfg, esl_length = 0, esl_head = [], esl_del = False\<rparr>
      else None)"

definition ezcfg_stack_list_set_data_del_handler ::
    "'d ezcfg_stack_list \<Rightarrow> bool \<Rightarrow> int \<times> 'd ezcfg_stack_list" where
  "ezcfg_stack_list_set_data_del_handler l handler = (EZCFG_RET_OK, l\<lparr>esl_del := handler\<rparr>)"

definition ezcfg_stack_list_push :: "bool \<Rightarrow> 'd ezcfg_stack_list \<Rightarrow> 'd \<Rightarrow> bool \<times> 'd ezcfg_stack_list" where
  "ezcfg_stack_list_push mem l d =
     (if \<not> mem then (False, l)
      else (True, l\<lparr>esl_head := d # esl_head l, esl_length := esl_length l + 1\<rparr>))"

definition ezcfg_stack_list_pop :: "'d ezcfg_stack_list \<Rightarrow> 'd option \<times> 'd ezcfg_stack_list" where
  "ezcfg_stack_list_pop l =
     (case esl_head l of
        [] \<Rightarrow> (None, l)
      | d # ds \<Rightarrow> (Some d, l\<lparr>esl_head := ds, esl_length := esl_length l - 1\<rparr>))"

definition ezcfg_stack_list_get_length :: "'d ezcfg_stack_list \<Rightarrow> int" where
  "ezcfg_stack_list_get_length l = esl_length l"

definition ezcfg_stack_list_is_empty :: "'d ezcfg_stack_list \<Rightarrow> bool" where
  "ezcfg_stack_list_is_empty l = (if esl_length l > 0 then False else True)"

section \<open>The stack contract\<close>

text \<open>Pushing a sequence, and popping a number of times, with the operations of a stack.\<close>

primrec push_seq :: "(bool \<Rightarrow> 's \<Rightarrow> 'd \<Rightarrow> bool \<times> 's) \<Rightarrow> 's \<Rightarrow> 'd list \<Rightarrow> 's" where
  "push_seq psh s [] = s"
| "push_seq psh s (d # ds) = push_seq psh (snd (psh True s d)) ds"

primrec pop_n :: "('s \<Rightarrow> 'd option \<times> 's) \<Rightarrow> nat \<Rightarrow> 's \<Rightarrow> 'd option list" where
  "pop_n pp 0 s = []"
| "pop_n pp (Suc n) s = fst (pp s) # pop_n pp n (snd (pp s))"

locale lifo_stack =
  fixes abs :: "'s \<Rightarrow> 'd list"
    and invar :: "'s \<Rightarrow> bool"
    and push :: "bool \<Rightarrow> 's \<Rightarrow> 'd \<Rightarrow> bool \<times> 's"
    and pop :: "'s \<Rightarrow> 'd option \<times> 's"
    and is_empty :: "'s \<Rightarrow> bool"
  assumes push_ok: "invar s \<Longrightarrow> push True s d = (b, s') \<Longrightarrow> b \<and> invar s' \<and> abs s' = d # abs s"
    and push_oom: "push False s d = (False, s)"
    and pop_empty: "abs s = [] \<Longrightarrow> pop s = (None, s)"
    and pop_Cons: "invar s \<Longrightarrow> abs s = d # ds \<Longrightarrow>
      fst (pop s) = Some d \<and> invar (snd (pop s)) \<and> abs (snd (pop s)) = ds"
    and is_empty_iff: "invar s \<Longrightarrow> is_empty s \<longleftrightarrow> abs s = []"
begin

lemma push_seq_abs: "invar s \<Longrightarrow> invar (push_seq push s ds) \<and> abs (push_seq push s ds) = rev ds @ abs s"
proof (induction ds arbitrary: s)
  case Nil
  then show ?case by simp
next
  case (Cons d ds)
  obtain b s' where "push True s d = (b, s')" by force
  with push_ok [OF Cons.prems this] Cons.IH [of s'] show ?case by simp
qed

lemma pop_n_abs: "invar s \<Longrightarrow> n \<le> length (abs s) \<Longrightarrow> pop_n pop n s = map Some (take n (abs s))"
proof (induction n arbitrary: s)
  case 0
  then show ?case by simp
next
  case (Suc n)
  then obtain d ds where ds: "abs s = d # ds" by (cases "abs s") auto
  from pop_Cons [OF Suc.prems(1) ds] Suc.IH [of "snd (pop s)"] Suc.prems ds show ?case by simp
qed

lemma lifo_order: "invar s \<Longrightarrow> pop_n pop (length ds) (push_seq push s ds) = map Some (rev ds)"
  using push_seq_abs [of s ds] pop_n_abs [of "push_seq push s ds" "length ds"] by simp

end

definition sl_wf :: "'d stack_list \<Rightarrow> bool" where
  "sl_wf l \<longleftrightarrow> sl_length l = int (length (sl_head l))"

definition esl_wf :: "'d ezcfg_stack_list \<Rightarrow> bool" where
  "esl_wf l \<longleftrightarrow> esl_length l = int (length (esl_head l))"

interpretation lstk: lifo_stack sl_head sl_wf local_stack_list_push local_stack_list_pop
  local_stack_list_is_empty
  by unfold_locales
    (auto simp: local_stack_list_push_def local_stack_list_pop_def local_stack_list_is_empty_def
      sl_wf_def)

interpretation estk: lifo_stack esl_head esl_wf ezcfg_stack_list_push ezcfg_stack_list_pop
  ezcfg_stack_list_is_empty
  by unfold_locales
    (auto simp: ezcfg_stack_list_push_def ezcfg_stack_list_pop_def ezcfg_stack_list_is_empty_def
      esl_wf_def)

text \<open>The equations the JSON reader and writer compute with.\<close>

lemma stack_push_simps [simp]:
  "fst (local_stack_list_push mem l d) = mem"
  "sl_head (snd (local_stack_list_push mem l d)) = (if mem then d # sl_head l else sl_head l)"
  "sl_wf l \<Longrightarrow> sl_wf (snd (local_stack_list_push mem l d))"
  by (auto simp: local_stack_list_push_def sl_wf_def)

lemma stack_pop_simps [simp]:
  "sl_head l = d # ds \<Longrightarrow> fst (local_stack_list_pop l) = Some d"
  "sl_head l = d # ds \<Longrightarrow> sl_head (snd (local_stack_list_pop l)) = ds"
  "sl_wf l \<Longrightarrow> sl_wf (snd (local_stack_list_pop l))"
  by (auto simp: local_stack_list_pop_def sl_wf_def split: list.splits)

lemma stack_is_empty_simp [simp]: "sl_wf l \<Longrightarrow> local_stack_list_is_empty l \<longleftrightarrow> sl_head l = []"
  by (rule lstk.is_empty_iff)

text \<open>After any sequence of successful pushes on a well-formed stack, popping as many
  times returns the pushed data in reverse order, for both copies of the stack code.\<close>

theorem stack_list_lifo:
  assumes "sl_wf s" and "esl_wf e"
  shows "pop_n local_stack_list_pop (length ds) (push_seq local_stack_list_push s ds) = map Some (rev ds) \<and>
    pop_n ezcfg_stack_list_pop (length es) (push_seq ezcfg_stack_list_push e es) = map Some (rev es)"
  using lstk.lifo_order [OF assms(1)] estk.lifo_order [OF assms(2)] by blast

theorem stack_list_lifo_witness:
  "pop_n local_stack_list_pop 2 (push_seq local_stack_list_push \<lparr>sl_length = 0, sl_head = [], sl_del = False\<rparr> [1::int, 2]) =
     [Some 2, Some 1] \<and>
   pop_n ezcfg_stack_list_pop 1 (push_seq ezcfg_stack_list_push \<lparr>esl_ezcfg = None, esl_length = 0, esl_head = [], esl_del = False\<rparr>
     [3::int]) = [Some 3]"
  using stack_list_lifo [of "\<lparr>sl_length = 0, sl_head = [], sl_del = False\<rparr>"
      "\<lparr>esl_ezcfg = None, esl_length = 0, esl_head = [], esl_del = False\<rparr>" "[1::int, 2]" "[3::int]"]
  by (simp add: sl_wf_def esl_wf_def numeral_2_eq_2)

end
