(* ===== verification/Binary_Tree.thy ===== *)
theory Binary_Tree
  imports Ez_Prelude "HOL-Library.Tree"
begin

text \<open>
  The left-child/right-sibling trees of \<^verbatim>\<open>src/common/binary_tree.c\<close> on an explicit heap of
  nodes.  The JSON reader keeps the children of a node on the \<open>right\<close> chain that starts at
  its \<open>left\<close> field.  The datum of a node belongs to that node alone, so it is kept inside
  the node; the heap logs the data handed to \<^verbatim>\<open>data_delete_handler\<close>.
\<close>

section \<open>Nodes and operations\<close>

record 'd binary_tree_node =
  bt_data :: 'd
  bt_up :: ptr
  bt_left :: ptr
  bt_right :: ptr

record 'd bheap = "'d binary_tree_node heap" +
  blog :: "'d list"

record binary_tree =
  tr_root :: ptr
  tr_del :: bool

definition local_binary_tree_node_new :: "'d \<Rightarrow> 'd bheap \<Rightarrow> ptr \<times> 'd bheap" where
  "local_binary_tree_node_new d h =
     halloc \<lparr>bt_data = d, bt_up = None, bt_left = None, bt_right = None\<rparr> h"

definition local_binary_tree_node_del :: "binary_tree \<Rightarrow> ptr \<Rightarrow> 'd bheap \<Rightarrow> 'd bheap option" where
  "local_binary_tree_node_del t p h = do {
     n \<leftarrow> hload h p;
     a \<leftarrow> p;
     hfree a (if tr_del t then h\<lparr>blog := blog h @ [bt_data n]\<rparr> else h)
   }"

definition local_binary_tree_node_get_data :: "ptr \<Rightarrow> 'd bheap \<Rightarrow> 'd option" where
  "local_binary_tree_node_get_data p h = map_option bt_data (hload h p)"

definition local_binary_tree_node_get_left :: "ptr \<Rightarrow> 'd bheap \<Rightarrow> ptr option" where
  "local_binary_tree_node_get_left p h = map_option bt_left (hload h p)"

definition local_binary_tree_node_get_right :: "ptr \<Rightarrow> 'd bheap \<Rightarrow> ptr option" where
  "local_binary_tree_node_get_right p h = map_option bt_right (hload h p)"

text \<open>\<^verbatim>\<open>while (tmp_np->right != NULL) tmp_np = tmp_np->right;\<close>\<close>

partial_function (option) last_right :: "'d bheap \<Rightarrow> nat \<Rightarrow> nat option" where
  "last_right h a = do {
     n \<leftarrow> cells h a;
     case bt_right n of None \<Rightarrow> Some a | Some b \<Rightarrow> last_right h b
   }"

definition local_binary_tree_node_append_left ::
    "ptr \<Rightarrow> ptr \<Rightarrow> 'd bheap \<Rightarrow> (int \<times> 'd bheap) option" where
  "local_binary_tree_node_append_left p q h = do {
     n \<leftarrow> hload h p;
     a \<leftarrow> p;
     case bt_left n of
       None \<Rightarrow> do { h' \<leftarrow> hstore a (n\<lparr>bt_left := q\<rparr>) h; Some (EZCFG_RET_OK, h') }
     | Some b \<Rightarrow> do {
         e \<leftarrow> last_right h b;
         m \<leftarrow> cells h e;
         h' \<leftarrow> hstore e (m\<lparr>bt_right := q\<rparr>) h;
         Some (EZCFG_RET_OK, h')
       }
   }"

definition local_binary_tree_node_append_right ::
    "ptr \<Rightarrow> ptr \<Rightarrow> 'd bheap \<Rightarrow> (int \<times> 'd bheap) option" where
  "local_binary_tree_node_append_right p q h = do {
     a \<leftarrow> p;
     e \<leftarrow> last_right h a;
     m \<leftarrow> cells h e;
     h' \<leftarrow> hstore e (m\<lparr>bt_right := q\<rparr>) h;
     Some (EZCFG_RET_OK, h')
   }"

definition local_binary_tree_new :: "bool \<Rightarrow> binary_tree option" where
  "local_binary_tree_new mem = (if mem then Some \<lparr>tr_root = None, tr_del = False\<rparr> else None)"

text \<open>\<^verbatim>\<open>while (np->left != NULL) { prev_np = np; np = np->left; }\<close>\<close>

partial_function (option) descend_left :: "'d bheap \<Rightarrow> nat \<Rightarrow> nat \<Rightarrow> (nat \<times> nat) option" where
  "descend_left h prev np = do {
     n \<leftarrow> cells h np;
     case bt_left n of None \<Rightarrow> Some (prev, np) | Some l \<Rightarrow> descend_left h np l
   }"

partial_function (option) binary_tree_reset_loop ::
    "binary_tree \<Rightarrow> ptr \<Rightarrow> 'd bheap \<Rightarrow> 'd bheap option" where
  "binary_tree_reset_loop t prev_np h =
     (case prev_np of
        None \<Rightarrow> Some h
      | Some p \<Rightarrow> do {
          n \<leftarrow> cells h p;
          case bt_left n of
            Some l \<Rightarrow> do {
              (prev, np) \<leftarrow> descend_left h p l;
              pn \<leftarrow> cells h prev;
              m \<leftarrow> cells h np;
              h1 \<leftarrow> hstore prev (pn\<lparr>bt_left := bt_right m\<rparr>) h;
              h2 \<leftarrow> local_binary_tree_node_del t (Some np) h1;
              binary_tree_reset_loop t (Some prev) h2
            }
          | None \<Rightarrow>
              (if bt_right n \<noteq> None then do {
                 h1 \<leftarrow> local_binary_tree_node_del t (Some p) h;
                 binary_tree_reset_loop t (bt_right n) h1
               }
               else do {
                 h1 \<leftarrow> local_binary_tree_node_del t (Some p) h;
                 binary_tree_reset_loop t (bt_up n) h1
               })
        })"

definition local_binary_tree_reset ::
    "binary_tree \<Rightarrow> 'd bheap \<Rightarrow> (int \<times> binary_tree \<times> 'd bheap) option" where
  "local_binary_tree_reset t h =
     (case tr_root t of
        None \<Rightarrow> Some (EZCFG_RET_OK, t, h)
      | Some r \<Rightarrow> do {
          n \<leftarrow> cells h r;
          if bt_left n = None \<and> bt_right n = None then do {
            h' \<leftarrow> local_binary_tree_node_del t (Some r) h;
            Some (EZCFG_RET_OK, t\<lparr>tr_root := None\<rparr>, h')
          }
          else do {
            h' \<leftarrow> binary_tree_reset_loop t (Some r) h;
            Some (EZCFG_RET_OK, t\<lparr>tr_root := None\<rparr>, h')
          }
        })"

definition local_binary_tree_del :: "binary_tree \<Rightarrow> 'd bheap \<Rightarrow> (int \<times> 'd bheap) option" where
  "local_binary_tree_del t h = do {
     (ret, t', h') \<leftarrow> local_binary_tree_reset t h;
     Some (ret, h')
   }"

definition local_binary_tree_set_data_delete_handler :: "binary_tree \<Rightarrow> bool \<Rightarrow> int \<times> binary_tree" where
  "local_binary_tree_set_data_delete_handler t handler = (EZCFG_RET_OK, t\<lparr>tr_del := handler\<rparr>)"

definition local_binary_tree_get_root :: "binary_tree \<Rightarrow> ptr" where
  "local_binary_tree_get_root t = tr_root t"

definition local_binary_tree_set_root :: "binary_tree \<Rightarrow> ptr \<Rightarrow> int \<times> binary_tree" where
  "local_binary_tree_set_root t p = (EZCFG_RET_OK, t\<lparr>tr_root := p\<rparr>)"

section \<open>Sibling chains\<close>

text \<open>\<open>rchain c p as\<close>: following \<open>right\<close> from \<open>p\<close> visits the nodes \<open>as\<close> and ends at NULL.\<close>

fun rchain :: "(nat \<Rightarrow> 'd binary_tree_node option) \<Rightarrow> ptr \<Rightarrow> nat list \<Rightarrow> bool" where
  "rchain c p [] \<longleftrightarrow> p = None"
| "rchain c p (a # as) \<longleftrightarrow>
     p = Some a \<and> (case c a of None \<Rightarrow> False | Some n \<Rightarrow> rchain c (bt_right n) as)"

lemma last_right_rchain: "rchain (cells h) (Some a) (a # as) \<Longrightarrow> last_right h a = Some (last (a # as))"
proof (induction as arbitrary: a)
  case Nil
  then show ?case by (auto simp: last_right.simps [of h a] split: option.splits)
next
  case (Cons b bs)
  then obtain n where n: "cells h a = Some n" "bt_right n = Some b"
    "rchain (cells h) (Some b) (b # bs)" by (auto split: option.splits)
  with Cons.IH [OF n(3)] show ?case by (simp add: last_right.simps [of h a])
qed

lemma rchain_frame: "a \<notin> set as \<Longrightarrow> rchain (c(a := v)) p as \<longleftrightarrow> rchain c p as"
  by (induction c p as rule: rchain.induct) (auto split: option.splits)

lemma rchain_cells: "rchain c p as \<Longrightarrow> a \<in> set as \<Longrightarrow> c a \<noteq> None"
  by (induction c p as rule: rchain.induct) (auto split: option.splits)

lemma rchain_snoc:
  assumes "rchain c p (as @ [e])" "distinct (as @ [e])" "c e = Some m" "rchain c q bs"
    "e \<notin> set bs"
  shows "rchain (c(e \<mapsto> m\<lparr>bt_right := q\<rparr>)) p (as @ e # bs)"
  using assms
proof (induction as arbitrary: p)
  case Nil
  then show ?case by (auto simp: rchain_frame fun_upd_same simp del: fun_upd_apply)
next
  case (Cons a as)
  then show ?case by (auto split: option.splits)
qed

lemma append_left_first:
  assumes "cells h a = Some n" "bt_left n = None"
  shows "local_binary_tree_node_append_left (Some a) q h =
    Some (EZCFG_RET_OK, h\<lparr>cells := (cells h)(a \<mapsto> n\<lparr>bt_left := q\<rparr>)\<rparr>)"
  using assms by (simp add: local_binary_tree_node_append_left_def hstore_def)

lemma append_left_more:
  assumes "cells h a = Some n" "rchain (cells h) (bt_left n) (as @ [e])" "cells h e = Some m"
  shows "local_binary_tree_node_append_left (Some a) q h =
    Some (EZCFG_RET_OK, h\<lparr>cells := (cells h)(e \<mapsto> m\<lparr>bt_right := q\<rparr>)\<rparr>)"
proof -
  obtain b bs where b: "as @ [e] = b # bs" "last (b # bs) = e"
    by (cases as) (metis append_Nil last.simps, metis append_Cons last_snoc)
  with assms(2) have "rchain (cells h) (Some b) (b # bs)" "bt_left n = Some b" by auto
  with last_right_rchain [of h b bs] b assms show ?thesis
    by (simp add: local_binary_tree_node_append_left_def hstore_def)
qed

lemma append_right_single:
  assumes "cells h a = Some n" "bt_right n = None"
  shows "local_binary_tree_node_append_right (Some a) q h =
    Some (EZCFG_RET_OK, h\<lparr>cells := (cells h)(a \<mapsto> n\<lparr>bt_right := q\<rparr>)\<rparr>)"
  using assms
  by (simp add: local_binary_tree_node_append_right_def last_right.simps [of h a] hstore_def)

text \<open>Appending to a node's children adds the new child behind all present ones, whatever
  their number, and leaves every other node of the heap as it was.\<close>

theorem append_left_extends_children:
  assumes "cells h a = Some n" "rchain (cells h) (bt_left n) as" "distinct (a # as @ [b])"
    and "cells h b = Some m" "bt_right m = None"
  shows "\<exists>h' n'. local_binary_tree_node_append_left (Some a) (Some b) h = Some (EZCFG_RET_OK, h') \<and>
    cells h' a = Some n' \<and> rchain (cells h') (bt_left n') (as @ [b]) \<and>
    (\<forall>x. x \<noteq> a \<and> x \<notin> set as \<longrightarrow> cells h' x = cells h x)"
proof (cases as rule: rev_cases)
  case Nil
  with assms append_left_first [of h a n "Some b"] show ?thesis by auto
next
  case (snoc us e)
  from assms(2) snoc obtain k where k: "cells h e = Some k" using rchain_cells by fastforce
  have "rchain ((cells h)(e \<mapsto> k\<lparr>bt_right := Some b\<rparr>)) (bt_left n) (us @ e # [b])"
    by (rule rchain_snoc) (use assms snoc k in auto)
  with append_left_more [of h a n us e k "Some b"] assms snoc k show ?thesis by auto
qed

theorem append_left_extends_children_witness:
  "\<exists>h' n'. local_binary_tree_node_append_left (Some 0) (Some 2)
      \<lparr>cells = [0 \<mapsto> \<lparr>bt_data = 0::int, bt_up = None, bt_left = Some 1, bt_right = None\<rparr>,
                1 \<mapsto> \<lparr>bt_data = 1, bt_up = None, bt_left = None, bt_right = None\<rparr>,
                2 \<mapsto> \<lparr>bt_data = 2, bt_up = None, bt_left = None, bt_right = None\<rparr>],
       brk = 3, oom = (\<lambda>_. False), blog = []\<rparr> = Some (EZCFG_RET_OK, h') \<and>
     cells h' 0 = Some n' \<and> rchain (cells h') (bt_left n') [1, 2]"
  using append_left_extends_children [of
      "\<lparr>cells = [0 \<mapsto> \<lparr>bt_data = 0::int, bt_up = None, bt_left = Some 1, bt_right = None\<rparr>,
                1 \<mapsto> \<lparr>bt_data = 1, bt_up = None, bt_left = None, bt_right = None\<rparr>,
                2 \<mapsto> \<lparr>bt_data = 2, bt_up = None, bt_left = None, bt_right = None\<rparr>],
       brk = 3, oom = (\<lambda>_. False), blog = []\<rparr>"
      0 "\<lparr>bt_data = 0, bt_up = None, bt_left = Some 1, bt_right = None\<rparr>" "[1]" 2
      "\<lparr>bt_data = 2, bt_up = None, bt_left = None, bt_right = None\<rparr>"]
  by auto

section \<open>Resetting a tree\<close>

text \<open>\<open>btree_at c p t\<close>: the nodes reachable from \<open>p\<close> form the tree \<open>t\<close> of addresses, all with
  a NULL \<open>up\<close> pointer (no operation ever sets \<open>up\<close>).\<close>

fun btree_at :: "(nat \<Rightarrow> 'd binary_tree_node option) \<Rightarrow> ptr \<Rightarrow> nat tree \<Rightarrow> bool" where
  "btree_at c p Leaf \<longleftrightarrow> p = None"
| "btree_at c p (Node l a r) \<longleftrightarrow>
     p = Some a \<and>
     (case c a of
        None \<Rightarrow> False
      | Some n \<Rightarrow> bt_up n = None \<and> btree_at c (bt_left n) l \<and> btree_at c (bt_right n) r)"

lemma btree_at_frame: "a \<notin> set_tree t \<Longrightarrow> btree_at (c(a := v)) p t \<longleftrightarrow> btree_at c p t"
  by (induction c p t rule: btree_at.induct) (auto split: option.splits)

lemma btree_at_root: "btree_at c p t \<Longrightarrow> p = None \<longleftrightarrow> t = Leaf"
  by (cases t) auto

text \<open>The tree the reset loop continues with after it has unlinked the end of the left spine,
  and the address it has freed.\<close>

fun detach :: "nat tree \<Rightarrow> nat \<times> nat tree" where
  "detach (Node (Node Leaf a lr) p r) = (a, Node lr p r)"
| "detach (Node (Node l a lr) p r) = detach (Node l a lr)"
| "detach t = (0, t)"

lemma detach_size: "l \<noteq> Leaf \<Longrightarrow> size (snd (detach (Node l p r))) < size (Node l p r)"
proof (induction "Node l p r" arbitrary: l p r rule: detach.induct)
  case (2 ll la lr a b p r)
  then show ?case by auto
qed auto

lemma node_del_tree:
  "cells h a = Some n \<Longrightarrow> local_binary_tree_node_del t (Some a) h =
     Some (h\<lparr>blog := (if tr_del t then blog h @ [bt_data n] else blog h), cells := (cells h)(a := None)\<rparr>)"
  by (simp add: local_binary_tree_node_del_def hfree_def)

lemma detach_step:
  assumes "btree_at (cells h) (Some p) (Node (Node ll a lr) p r)"
    and "distinct (inorder (Node (Node ll a lr) p r))"
  shows "\<exists>prev np pn m l' r'. descend_left h p a = Some (prev, np) \<and> cells h prev = Some pn \<and>
    cells h np = Some m \<and> prev \<noteq> np \<and>
    snd (detach (Node (Node ll a lr) p r)) = Node l' prev r' \<and>
    btree_at ((cells h)(prev \<mapsto> pn\<lparr>bt_left := bt_right m\<rparr>, np := None)) (Some prev) (Node l' prev r') \<and>
    distinct (inorder (Node l' prev r'))"
  using assms
proof (induction ll arbitrary: p a lr r)
  case Leaf
  then obtain pn m where pn: "cells h p = Some pn" "bt_up pn = None" "bt_left pn = Some a"
      "btree_at (cells h) (bt_right pn) r"
    and m: "cells h a = Some m" "bt_left m = None" "btree_at (cells h) (bt_right m) lr"
    by (auto split: option.splits)
  have "descend_left h p a = Some (p, a)" using m by (simp add: descend_left.simps [of h p a])
  moreover have "p \<noteq> a" "p \<notin> set_tree lr" "a \<notin> set_tree lr" "p \<notin> set_tree r" "a \<notin> set_tree r"
    using Leaf.prems(2) by auto
  ultimately show ?case using pn m Leaf.prems(2)
    by (intro exI [of _ p] exI [of _ a] exI [of _ pn] exI [of _ m] exI [of _ lr] exI [of _ r])
      (simp add: btree_at_frame fun_upd_same fun_upd_other del: fun_upd_apply)
next
  case (Node ll' b lr')
  then obtain m where m: "cells h a = Some m" "bt_left m = Some b"
    and sub: "btree_at (cells h) (Some a) (Node (Node ll' b lr') a lr)"
    by (auto split: option.splits)
  have "descend_left h p a = descend_left h a b" using m by (simp add: descend_left.simps [of h p a])
  moreover have "distinct (inorder (Node (Node ll' b lr') a lr))" using Node.prems(2) by auto
  ultimately show ?case using Node.IH(1) [OF sub] by simp
qed

lemma binary_tree_reset_loop_returns:
  "btree_at (cells h) p t \<Longrightarrow> distinct (inorder t) \<Longrightarrow> \<exists>h'. binary_tree_reset_loop tr p h = Some h'"
proof (induction t arbitrary: p h rule: measure_induct_rule [of size])
  case (less t)
  show ?case
  proof (cases t)
    case Leaf
    with less.prems show ?thesis by (simp add: binary_tree_reset_loop.simps [of tr None h])
  next
    case (Node l a r)
    with less.prems obtain n where p: "p = Some a" and n: "cells h a = Some n" "bt_up n = None"
      and sub: "btree_at (cells h) (bt_left n) l" "btree_at (cells h) (bt_right n) r"
      by (auto split: option.splits)
    show ?thesis
    proof (cases l)
      case l: Leaf
      let ?h = "h\<lparr>blog := (if tr_del tr then blog h @ [bt_data n] else blog h),
                 cells := (cells h)(a := None)\<rparr>"
      have "bt_left n = None" using sub(1) l by simp
      then have step: "binary_tree_reset_loop tr p h =
          binary_tree_reset_loop tr (bt_right n) ?h"
        using p n by (simp add: binary_tree_reset_loop.simps [of tr "Some a" h] node_del_tree)
      have at: "btree_at (cells ?h) (bt_right n) r"
        using sub(2) less.prems(2) Node by (simp add: btree_at_frame del: fun_upd_apply)
      have r: "size r < size t" "distinct (inorder r)" using less.prems(2) Node by auto
      show ?thesis unfolding step by (rule less.IH [OF r(1) at r(2)])
    next
      case l: (Node ll b lr)
      from less.prems Node l p have "btree_at (cells h) (Some a) (Node (Node ll b lr) a r)"
        "distinct (inorder (Node (Node ll b lr) a r))" by simp_all
      from detach_step [OF this] obtain prev np pn m l' r' where
        d: "descend_left h a b = Some (prev, np)" "cells h prev = Some pn" "cells h np = Some m"
          "prev \<noteq> np" "snd (detach t) = Node l' prev r'"
        and at: "btree_at ((cells h)(prev \<mapsto> pn\<lparr>bt_left := bt_right m\<rparr>, np := None)) (Some prev)
           (Node l' prev r')" "distinct (inorder (Node l' prev r'))"
        using Node l by metis
      let ?h = "h\<lparr>blog := (if tr_del tr then blog h @ [bt_data m] else blog h),
                 cells := (cells h)(prev \<mapsto> pn\<lparr>bt_left := bt_right m\<rparr>, np := None)\<rparr>"
      have "bt_left n = Some b" using sub(1) l by simp
      then have step: "binary_tree_reset_loop tr p h = binary_tree_reset_loop tr (Some prev) ?h"
        using p n d by (simp add: binary_tree_reset_loop.simps [of tr "Some a" h] node_del_tree hstore_def)
      have sz: "size (Node l' prev r') < size t" using detach_size [of l a r] d(5) Node l by simp
      have at': "btree_at (cells ?h) (Some prev) (Node l' prev r')" using at(1) by (simp del: fun_upd_apply)
      show ?thesis unfolding step by (rule less.IH [OF sz at' at(2)])
    qed
  qed
qed

lemma tree_reset_returns:
  assumes "btree_at (cells h) (tr_root t) sh" and "distinct (inorder sh)"
  shows "\<exists>h'. local_binary_tree_reset t h = Some (EZCFG_RET_OK, t\<lparr>tr_root := None\<rparr>, h')"
proof (cases sh)
  case Leaf
  with assms show ?thesis by (cases t) (simp add: local_binary_tree_reset_def)
next
  case (Node l a r)
  with assms obtain n where n: "tr_root t = Some a" "cells h a = Some n" by (auto split: option.splits)
  from binary_tree_reset_loop_returns [OF assms, of t] n show ?thesis
    by (auto simp: local_binary_tree_reset_def node_del_tree)
qed

text \<open>Resetting any tree (of any shape) returns OK and leaves the header without a root:
  the loop ends, it never follows a NULL or freed pointer and never frees a node twice.\<close>

theorem binary_tree_reset_safe:
  assumes "btree_at (cells h) (tr_root t) sh" and "distinct (inorder sh)"
  shows "\<exists>h'. local_binary_tree_reset t h = Some (EZCFG_RET_OK, t\<lparr>tr_root := None\<rparr>, h')"
  by (rule tree_reset_returns [OF assms])

text \<open>The nodes of a JSON object with one string member: root, pair, value.\<close>

definition small_tree_heap :: "int bheap" where
  "small_tree_heap =
     \<lparr>cells = [0 \<mapsto> \<lparr>bt_data = 4, bt_up = None, bt_left = Some 1, bt_right = None\<rparr>,
               1 \<mapsto> \<lparr>bt_data = 8, bt_up = None, bt_left = Some 2, bt_right = None\<rparr>,
               2 \<mapsto> \<lparr>bt_data = 7, bt_up = None, bt_left = None, bt_right = None\<rparr>],
      brk = 3, oom = (\<lambda>_. False), blog = []\<rparr>"

theorem binary_tree_reset_safe_witness:
  "\<exists>h'. local_binary_tree_reset \<lparr>tr_root = Some 0, tr_del = True\<rparr> small_tree_heap =
     Some (EZCFG_RET_OK, \<lparr>tr_root = None, tr_del = True\<rparr>, h')"
  using binary_tree_reset_safe [of small_tree_heap "\<lparr>tr_root = Some 0, tr_del = True\<rparr>"
      "Node (Node (Node Leaf 2 Leaf) 1 Leaf) 0 Leaf"]
  by (simp add: small_tree_heap_def)

text \<open>Resetting the three-node tree of an object with one member frees the pair and the
  value but leaves the root node allocated, although the header forgets it: the descent to
  the left replaces the node the loop would have to come back to.\<close>

theorem binary_tree_reset_leaks_root:
  "\<exists>h'. local_binary_tree_reset \<lparr>tr_root = Some 0, tr_del = True\<rparr> small_tree_heap =
       Some (EZCFG_RET_OK, \<lparr>tr_root = None, tr_del = True\<rparr>, h') \<and>
     cells h' 0 \<noteq> None \<and> cells h' 1 = None \<and> cells h' 2 = None \<and> blog h' = [7, 8]"
  by (simp add: local_binary_tree_reset_def small_tree_heap_def binary_tree_reset_loop.simps
      descend_left.simps node_del_tree hstore_def)

end
