(* ===== verification/Json.thy ===== *)
theory Json
  imports Stack_List Binary_Tree
begin

text \<open>
  The JSON reader and writer of \<^verbatim>\<open>src/common/json.c\<close>.  A parser object holds a binary tree
  of values, a stack of tree nodes and the length of the compact message.  The text and the
  position in it are the \<^typ>\<open>string\<close> that is still to be read; its end is the terminating
  NUL.  One iteration of the reader's \<^verbatim>\<open>while\<close> loop is \<open>json_parse_step\<close>, one of the
  writer's is \<open>json_write_step\<close>; each \<^verbatim>\<open>case\<close> of the two \<^verbatim>\<open>switch\<close> statements is a
  definition of its own.
\<close>

section \<open>Data\<close>

datatype json_type =
  TYPE_UNKNOWN | TYPE_FALSE | TYPE_NULL | TYPE_TRUE | TYPE_OBJECT | TYPE_ARRAY | TYPE_NUMBER
  | TYPE_STRING | TYPE_NVPAIR | TYPE_EMPTYSET

record json_value =
  jv_type :: json_type
  jv_element :: "string option"
  jv_visited :: int

record json =
  js_heap :: "json_value bheap"
  js_text :: binary_tree
  js_stack :: "nat stack_list"
  js_msg_len :: int

text \<open>The outcome of one iteration: a fault, \<^verbatim>\<open>goto func_out\<close>, or the next iteration.\<close>

datatype json_flow = Fault | Out json | Cont json string

text \<open>An allocation that is not a tree node (a value, an element string, a stack node).\<close>

definition htick :: "('c, 'z) heap_scheme \<Rightarrow> bool \<times> ('c, 'z) heap_scheme" where
  "htick h = (\<not> oom h (brk h), h\<lparr>brk := Suc (brk h)\<rparr>)"

section \<open>Scanning\<close>

definition is_ws :: "char \<Rightarrow> bool" where
  "is_ws c \<longleftrightarrow> c = CHR 0x20 \<or> c = CHR 0x09 \<or> c = CHR 0x0A \<or> c = CHR 0x0D"

fun skip_ws :: "string \<Rightarrow> string" where
  "skip_ws [] = []"
| "skip_ws (c # s) = (if is_ws c then skip_ws s else c # s)"

definition is_token_delim :: "char \<Rightarrow> bool" where
  "is_token_delim c \<longleftrightarrow>
     c = CHR 0x20 \<or> c = CHR 0x09 \<or> c = CHR 0x0A \<or> c = CHR 0x0D \<or>
     c = CHR '','' \<or> c = CHR ''}'' \<or> c = CHR '']''"

definition is_digit :: "char \<Rightarrow> bool" where
  "is_digit c \<longleftrightarrow> \<not> ((of_char c :: nat) < 48 \<or> (of_char c :: nat) > 57)"

fun skip_digits :: "string \<Rightarrow> string" where
  "skip_digits [] = []"
| "skip_digits (c # s) = (if is_digit c then skip_digits s else c # s)"

text \<open>The tail of \<^verbatim>\<open>get_number\<close> from the label \<^verbatim>\<open>exp\<close>, entered at the \<open>e\<close> or \<open>E\<close>.\<close>

definition get_number_exp :: "string \<Rightarrow> string" where
  "get_number_exp p =
     (let q = tl p in
      if peek q \<noteq> CHR ''+'' \<and> peek q \<noteq> CHR ''-'' \<and> \<not> is_digit (peek q) then p
      else skip_digits (if peek q = CHR ''+'' \<or> peek q = CHR ''-'' then tl q else q))"

text \<open>The part of \<^verbatim>\<open>get_number\<close> from the label \<^verbatim>\<open>frac\<close>, entered at the dot.\<close>

definition get_number_frac :: "string \<Rightarrow> string" where
  "get_number_frac p =
     (let q = tl p in
      if \<not> is_digit (peek q) then p
      else
        let r = skip_digits q in
        if r = [] then r
        else if peek r \<noteq> CHR ''e'' \<and> peek r \<noteq> CHR ''E'' then r
        else get_number_exp r)"

definition get_number :: "string \<Rightarrow> string option" where
  "get_number buf =
     (let p = (if peek buf = CHR ''-'' then tl buf else buf) in
      if \<not> is_digit (peek p) then None
      else
        let q = (if peek p = CHR ''0'' then tl p else skip_digits p) in
        if q = [] then Some q
        else if peek q = CHR ''.'' then Some (get_number_frac q)
        else if peek q = CHR ''e'' \<or> peek q = CHR ''E'' then Some (get_number_exp q)
        else Some q)"

section \<open>Values\<close>

definition json_value_new :: "json_type \<Rightarrow> json_value bheap \<Rightarrow> json_value option \<times> json_value bheap" where
  "json_value_new t h =
     (let (mem, h') = htick h in
      (if mem then Some \<lparr>jv_type = t, jv_element = None, jv_visited = 0\<rparr> else None, h'))"

definition json_value_is_native_value :: "json_value \<Rightarrow> bool" where
  "json_value_is_native_value vp \<longleftrightarrow>
     jv_type vp = TYPE_FALSE \<or> jv_type vp = TYPE_NULL \<or> jv_type vp = TYPE_TRUE \<or>
     jv_type vp = TYPE_OBJECT \<or> jv_type vp = TYPE_ARRAY \<or> jv_type vp = TYPE_NUMBER \<or>
     jv_type vp = TYPE_STRING"

text \<open>\<^verbatim>\<open>json_value_set_element\<close> on the value of node \<open>a\<close>, then the continuation \<open>k\<close>; on a
  failed allocation the caller goes to \<^verbatim>\<open>func_out\<close>.\<close>

definition json_value_set_element ::
    "nat \<Rightarrow> string \<Rightarrow> nat \<Rightarrow> json \<Rightarrow> (json \<Rightarrow> json_flow) \<Rightarrow> json_flow" where
  "json_value_set_element a buf len j k =
     (let (mem, h1) = htick (js_heap j) in
      if \<not> mem then Out (j\<lparr>js_heap := h1\<rparr>)
      else
        case cells h1 a of
          None \<Rightarrow> Fault
        | Some n \<Rightarrow>
            k (j\<lparr>js_heap := h1\<lparr>cells := (cells h1)(a \<mapsto>
                   n\<lparr>bt_data := (bt_data n)\<lparr>jv_element := Some (take len buf)\<rparr>\<rparr>)\<rparr>\<rparr>))"

text \<open>The type \<^verbatim>\<open>local_json_value_create\<close> chooses from the first characters.\<close>

definition json_value_kind :: "string \<Rightarrow> json_type option" where
  "json_value_kind buf =
     (if peek buf = CHR 0x22 then Some TYPE_STRING
      else if peek buf = CHR ''{'' then Some TYPE_OBJECT
      else if peek buf = CHR ''['' then Some TYPE_ARRAY
      else if strncmp buf ''false'' 5 = 0 \<and> is_token_delim (char_at buf 5) then Some TYPE_FALSE
      else if strncmp buf ''null'' 4 = 0 \<and> is_token_delim (char_at buf 4) then Some TYPE_NULL
      else if strncmp buf ''true'' 4 = 0 \<and> is_token_delim (char_at buf 4) then Some TYPE_TRUE
      else if peek buf = CHR ''-'' \<or> is_digit (peek buf) then Some TYPE_NUMBER
      else None)"

definition local_json_value_create ::
    "string \<Rightarrow> json_value bheap \<Rightarrow> json_value option \<times> json_value bheap" where
  "local_json_value_create buf h =
     (case json_value_kind buf of None \<Rightarrow> (None, h) | Some t \<Rightarrow> json_value_new t h)"

section \<open>Creating, resetting and deleting a parser object\<close>

text \<open>\<^verbatim>\<open>while (local_stack_list_is_empty(sp) == false) local_stack_list_pop(sp);\<close>\<close>

partial_function (option) stack_clean_up :: "nat stack_list \<Rightarrow> nat stack_list option" where
  "stack_clean_up sp =
     (if local_stack_list_is_empty sp then Some sp
      else stack_clean_up (snd (local_stack_list_pop sp)))"

definition tree_clean_up ::
    "binary_tree \<Rightarrow> json_value bheap \<Rightarrow> (bool \<times> binary_tree \<times> json_value bheap) option" where
  "tree_clean_up tp h = do {
     (ret, tp', h') \<leftarrow> local_binary_tree_reset tp h;
     Some (ret = EZCFG_RET_OK, tp', h')
   }"

definition local_json_reset :: "json \<Rightarrow> json option" where
  "local_json_reset j = do {
     st \<leftarrow> stack_clean_up (js_stack j);
     (ok, tp, h) \<leftarrow> tree_clean_up (js_text j) (js_heap j);
     Some (j\<lparr>js_stack := st, js_text := tp, js_heap := h, js_msg_len := 0\<rparr>)
   }"

text \<open>\<^verbatim>\<open>local_json_new\<close>: the parser object, its tree and its stack are three allocations; the
  first that fails makes the whole call fail.\<close>

definition local_json_new :: "json_value bheap \<Rightarrow> json option \<times> json_value bheap" where
  "local_json_new h =
     (let (m1, h1) = htick h in
      if \<not> m1 then (None, h1)
      else let (m2, h2) = htick h1 in
        (case local_binary_tree_new m2 of
           None \<Rightarrow> (None, h2)
         | Some t \<Rightarrow>
             let (m3, h3) = htick h2 in
             (case local_stack_list_new m3 of
                None \<Rightarrow> (None, h3)
              | Some st \<Rightarrow>
                  (Some \<lparr>js_heap = h3, js_text = t, js_stack = st, js_msg_len = 0\<rparr>, h3))))"

definition local_json_del :: "json \<Rightarrow> json_value bheap option" where
  "local_json_del j = do {
     j' \<leftarrow> local_json_reset j;
     (ret, h) \<leftarrow> local_binary_tree_del (js_text j') (js_heap j');
     Some h
   }"

section \<open>One iteration of the reader\<close>

text \<open>A fresh node for the value just created, appended to the children of \<open>np\<close>.\<close>

definition json_new_left ::
    "nat \<Rightarrow> json_value option \<times> json_value bheap \<Rightarrow> json \<Rightarrow> (nat \<Rightarrow> json \<Rightarrow> json_flow) \<Rightarrow> json_flow" where
  "json_new_left np vh j k =
     (case vh of
        (None, h1) \<Rightarrow> Out (j\<lparr>js_heap := h1\<rparr>)
      | (Some vp, h1) \<Rightarrow>
          (case local_binary_tree_node_new vp h1 of
             (None, h2) \<Rightarrow> Out (j\<lparr>js_heap := h2\<rparr>)
           | (Some q, h2) \<Rightarrow>
               (case local_binary_tree_node_append_left (Some np) (Some q) h2 of
                  None \<Rightarrow> Fault
                | Some (ret, h3) \<Rightarrow> k q (j\<lparr>js_heap := h3\<rparr>))))"

definition json_push :: "nat \<Rightarrow> json \<Rightarrow> (json \<Rightarrow> json_flow) \<Rightarrow> json_flow" where
  "json_push a j k =
     (let (mem, h1) = htick (js_heap j);
          (ok, st) = local_stack_list_push mem (js_stack j) a
      in if \<not> ok then Out (j\<lparr>js_heap := h1, js_stack := st\<rparr>)
         else k (j\<lparr>js_heap := h1, js_stack := st\<rparr>))"

definition inc_msg_len :: "int \<Rightarrow> json \<Rightarrow> json" where
  "inc_msg_len i j = j\<lparr>js_msg_len := js_msg_len j + i\<rparr>"

definition json_parse_object ::
    "nat \<Rightarrow> json_value binary_tree_node \<Rightarrow> json \<Rightarrow> string \<Rightarrow> json_flow" where
  "json_parse_object np n j cur =
     (if bt_left n = None then
        (if peek cur \<noteq> CHR ''{'' then Out j
         else
           let j1 = inc_msg_len 1 j; cur1 = skip_ws (tl cur) in
           if peek cur1 = CHR ''}'' then
             json_new_left np (json_value_new TYPE_EMPTYSET (js_heap j1)) j1
               (\<lambda>q j2. Cont (inc_msg_len 1 j2) (tl cur1))
           else if peek cur1 \<noteq> CHR 0x22 then Out j1
           else
             json_new_left np (json_value_new TYPE_NVPAIR (js_heap j1)) j1
               (\<lambda>q j2. json_push np j2 (\<lambda>j3. json_push q j3 (\<lambda>j4. Cont j4 cur1))))
      else if bt_right n = None then
        (if peek cur \<noteq> CHR ''}'' then Out j else Cont (inc_msg_len 1 j) (tl cur))
      else Out j)"

definition json_parse_nvpair ::
    "nat \<Rightarrow> json_value binary_tree_node \<Rightarrow> json \<Rightarrow> string \<Rightarrow> json_flow" where
  "json_parse_nvpair np n j cur =
     (if bt_left n = None then
        (if peek cur \<noteq> CHR 0x22 then Out j
         else
           let j1 = inc_msg_len 1 j; cur1 = tl cur in
           case strchr cur1 (CHR 0x22) of
             None \<Rightarrow> Out j1
           | Some p \<Rightarrow>
               let buf_len = length cur1 - length p in
               json_value_set_element np cur1 buf_len j1 (\<lambda>j2.
                 let j3 = inc_msg_len (int buf_len + 1) j2; cur2 = skip_ws (tl p) in
                 if peek cur2 \<noteq> CHR '':'' then Out j3
                 else
                   let j4 = inc_msg_len 1 j3; cur3 = skip_ws (tl cur2) in
                   json_new_left np (local_json_value_create cur3 (js_heap j4)) j4
                     (\<lambda>q j5. json_push np j5 (\<lambda>j6. json_push q j6 (\<lambda>j7. Cont j7 cur3)))))
      else if bt_right n = None then
        (if peek cur = CHR ''}'' then Cont j cur
         else if peek cur \<noteq> CHR '','' then Out j
         else
           let j1 = inc_msg_len 1 j; cur1 = tl cur in
           case json_value_new TYPE_NVPAIR (js_heap j1) of
             (None, h1) \<Rightarrow> Out (j1\<lparr>js_heap := h1\<rparr>)
           | (Some vp, h1) \<Rightarrow>
               (case local_binary_tree_node_new vp h1 of
                  (None, h2) \<Rightarrow> Out (j1\<lparr>js_heap := h2\<rparr>)
                | (Some q, h2) \<Rightarrow>
                    (case local_binary_tree_node_append_right (Some np) (Some q) h2 of
                       None \<Rightarrow> Fault
                     | Some (ret, h3) \<Rightarrow>
                         json_push q (j1\<lparr>js_heap := h3\<rparr>) (\<lambda>j2. Cont j2 cur1))))
      else Out j)"

definition json_parse_array ::
    "nat \<Rightarrow> json_value binary_tree_node \<Rightarrow> json \<Rightarrow> string \<Rightarrow> json_flow" where
  "json_parse_array np n j cur =
     (if bt_left n = None then
        (if peek cur \<noteq> CHR ''['' then Out j
         else
           let j1 = inc_msg_len 1 j; cur1 = skip_ws (tl cur) in
           if peek cur1 = CHR '']'' then
             json_new_left np (json_value_new TYPE_EMPTYSET (js_heap j1)) j1
               (\<lambda>q j2. Cont (inc_msg_len 1 j2) (tl cur1))
           else
             json_new_left np (local_json_value_create cur1 (js_heap j1)) j1
               (\<lambda>q j2. json_push np j2 (\<lambda>j3. json_push q j3 (\<lambda>j4. Cont j4 cur1))))
      else if bt_right n = None then
        (if peek cur = CHR '']'' then Cont (inc_msg_len 1 j) (tl cur)
         else if peek cur \<noteq> CHR '','' then Out j
         else
           let j1 = inc_msg_len 1 j; cur1 = skip_ws (tl cur) in
           case local_json_value_create cur1 (js_heap j1) of
             (None, h1) \<Rightarrow> Out (j1\<lparr>js_heap := h1\<rparr>)
           | (Some vp, h1) \<Rightarrow>
               (case local_binary_tree_node_new vp h1 of
                  (None, h2) \<Rightarrow> Out (j1\<lparr>js_heap := h2\<rparr>)
                | (Some q, h2) \<Rightarrow>
                    if \<not> json_value_is_native_value vp then Out (j1\<lparr>js_heap := h2\<rparr>)
                    else
                      (case local_binary_tree_node_append_left (Some np) (Some q) h2 of
                         None \<Rightarrow> Fault
                       | Some (ret, h3) \<Rightarrow>
                           json_push np (j1\<lparr>js_heap := h3\<rparr>)
                             (\<lambda>j2. json_push q j2 (\<lambda>j3. Cont j3 cur1)))))
      else Out j)"

definition json_parse_string :: "nat \<Rightarrow> json \<Rightarrow> string \<Rightarrow> json_flow" where
  "json_parse_string np j cur =
     (if peek cur \<noteq> CHR 0x22 then Out j
      else
        let j1 = inc_msg_len 1 j; cur1 = tl cur in
        case strchr cur1 (CHR 0x22) of
          None \<Rightarrow> Out j1
        | Some p \<Rightarrow>
            let buf_len = length cur1 - length p in
            json_value_set_element np cur1 buf_len j1
              (\<lambda>j2. Cont (inc_msg_len (int buf_len + 1) j2) (tl p)))"

definition json_parse_number :: "nat \<Rightarrow> json \<Rightarrow> string \<Rightarrow> json_flow" where
  "json_parse_number np j cur =
     (case get_number cur of
        None \<Rightarrow> Out j
      | Some p \<Rightarrow>
          let buf_len = length cur - length p in
          json_value_set_element np cur buf_len j
            (\<lambda>j1. Cont (inc_msg_len (int buf_len) j1) p))"

text \<open>The body of the loop: pop a node and switch on the type of its value.\<close>

definition json_parse_step :: "json \<Rightarrow> string \<Rightarrow> json_flow" where
  "json_parse_step j cur0 =
     (let cur = skip_ws cur0; (p, st) = local_stack_list_pop (js_stack j); j = j\<lparr>js_stack := st\<rparr> in
      case p of
        None \<Rightarrow> Out j
      | Some np \<Rightarrow>
          (case cells (js_heap j) np of
             None \<Rightarrow> Fault
           | Some n \<Rightarrow>
               (case jv_type (bt_data n) of
                  TYPE_OBJECT \<Rightarrow> json_parse_object np n j cur
                | TYPE_NVPAIR \<Rightarrow> json_parse_nvpair np n j cur
                | TYPE_ARRAY \<Rightarrow> json_parse_array np n j cur
                | TYPE_STRING \<Rightarrow> json_parse_string np j cur
                | TYPE_FALSE \<Rightarrow> Cont (inc_msg_len 5 j) (drop 5 cur)
                | TYPE_NULL \<Rightarrow> Cont (inc_msg_len 4 j) (drop 4 cur)
                | TYPE_TRUE \<Rightarrow> Cont (inc_msg_len 4 j) (drop 4 cur)
                | TYPE_NUMBER \<Rightarrow> json_parse_number np j cur
                | _ \<Rightarrow> Out j)))"

section \<open>The reader\<close>

lemma skip_ws_length: "length (skip_ws s) \<le> length s"
  by (induction s) auto

lemma skip_digits_length: "length (skip_digits s) \<le> length s"
  by (induction s) auto

lemma peek_nonempty: "peek s = c \<Longrightarrow> c \<noteq> NUL \<Longrightarrow> 0 < length s"
  by (cases s) auto

lemma strchr_length: "strchr s c = Some p \<Longrightarrow> length p \<le> length s"
  by (induction s) (auto split: if_splits)

lemma get_number_exp_length: "length (get_number_exp p) \<le> length p"
proof -
  have "length (skip_digits (tl (tl p))) \<le> length p" "length (skip_digits (tl p)) \<le> length p"
    using skip_digits_length [of "tl (tl p)"] skip_digits_length [of "tl p"] by simp_all
  then show ?thesis
    unfolding get_number_exp_def Let_def by (simp only: split: if_split) simp
qed

lemma get_number_frac_length: "length (get_number_frac p) \<le> length p"
  using skip_digits_length [of "tl p"] get_number_exp_length [of "skip_digits (tl p)"]
  by (auto simp: get_number_frac_def Let_def)

lemma get_number_length:
  assumes "get_number buf = Some p"
  shows "length p \<le> length buf"
proof -
  define q where "q = (if peek buf = CHR ''-'' then tl buf else buf)"
  define r where "r = (if peek q = CHR ''0'' then tl q else skip_digits q)"
  have "length r \<le> length buf"
    using skip_digits_length [of q] skip_digits_length [of "tl q"]
    by (auto simp: q_def r_def)
  moreover have "p = r \<or> p = get_number_frac r \<or> p = get_number_exp r"
    using assms by (auto simp: get_number_def Let_def q_def r_def split: if_splits)
  ultimately show ?thesis
    using get_number_frac_length [of r] get_number_exp_length [of r] by auto
qed

text \<open>The weight of a loop state: an iteration that pushes has read a character.\<close>

definition json_weight :: "json \<Rightarrow> string \<Rightarrow> nat" where
  "json_weight j cur = 2 * length cur + length (sl_head (js_stack j))"

definition flow_below :: "nat \<Rightarrow> json_flow \<Rightarrow> bool" where
  "flow_below w f \<longleftrightarrow> (case f of Cont j cur \<Rightarrow> json_weight j cur < w | _ \<Rightarrow> True)"

lemma flow_below_simps [simp]:
  "flow_below w Fault" "flow_below w (Out j)" "flow_below w (Cont j cur) \<longleftrightarrow> json_weight j cur < w"
  by (simp_all add: flow_below_def)

lemma json_weight_simps [simp]:
  "json_weight (inc_msg_len i j) cur = json_weight j cur"
  "json_weight (j\<lparr>js_heap := h\<rparr>) cur = json_weight j cur"
  "json_weight (j\<lparr>js_msg_len := l\<rparr>) cur = json_weight j cur"
  by (simp_all add: json_weight_def inc_msg_len_def)

lemma flow_below_set_element [simp]:
  assumes "\<And>j'. js_stack j' = js_stack j \<Longrightarrow> flow_below w (k j')"
  shows "flow_below w (json_value_set_element a buf len j k)"
  using assms by (auto simp: json_value_set_element_def Let_def split: prod.split option.split)

lemma flow_below_new_left [simp]:
  assumes "\<And>q j'. js_stack j' = js_stack j \<Longrightarrow> flow_below w (k q j')"
  shows "flow_below w (json_new_left np vh j k)"
  using assms by (auto simp: json_new_left_def split: prod.split option.split)

lemma flow_below_push [simp]:
  assumes "\<And>j'. length (sl_head (js_stack j')) = Suc (length (sl_head (js_stack j))) \<Longrightarrow>
    flow_below w (k j')"
  shows "flow_below w (json_push a j k)"
  using assms by (auto simp: json_push_def local_stack_list_push_def Let_def split: prod.split)

lemma inc_msg_len_stack [simp]: "js_stack (inc_msg_len i j) = js_stack j"
  by (simp add: inc_msg_len_def)

lemma skip_ws_tl: "s \<noteq> [] \<Longrightarrow> length (skip_ws (tl s)) < length s"
  using skip_ws_length [of "tl s"] by (cases s) auto

lemma parse_object_below:
  "flow_below (Suc (json_weight j cur)) (json_parse_object np n j cur)"
proof (cases "bt_left n = None \<and> peek cur = CHR ''{''")
  case True
  then have c: "cur \<noteq> []" by (auto simp: NUL_def)
  have "length (skip_ws (tl cur)) < length cur" using skip_ws_tl [OF c] .
  moreover have "length (tl (skip_ws (tl cur))) \<le> length (skip_ws (tl cur))" by simp
  ultimately show ?thesis
    by (auto simp: json_parse_object_def Let_def json_weight_def)
next
  case False
  then show ?thesis by (auto simp: json_parse_object_def Let_def json_weight_def)
qed

lemma parse_nvpair_below:
  "flow_below (Suc (json_weight j cur)) (json_parse_nvpair np n j cur)"
proof (cases "bt_left n = None")
  case l: True
  show ?thesis
  proof (cases "peek cur = CHR 0x22 \<and> strchr (tl cur) (CHR 0x22) \<noteq> None")
    case True
    then obtain p where p: "strchr (tl cur) (CHR 0x22) = Some p"
      by (auto simp del: strchr_None_iff)
    from True have c: "cur \<noteq> []" by (auto simp: NUL_def)
    have "length p \<le> length (tl cur)" using strchr_length [OF p] .
    moreover have "length (skip_ws (tl p)) \<le> length p"
      using skip_ws_length [of "tl p"] by simp
    moreover have "length (skip_ws (tl (skip_ws (tl p)))) \<le> length (skip_ws (tl p))"
      using skip_ws_length [of "tl (skip_ws (tl p))"] by simp
    ultimately have d: "length (skip_ws (tl (skip_ws (tl p)))) < length cur"
      using c by (cases cur) auto
    then show ?thesis using l True p
      by (auto simp: json_parse_nvpair_def Let_def json_weight_def)
  next
    case False
    then show ?thesis using l
      by (auto simp: json_parse_nvpair_def Let_def simp del: strchr_None_iff)
  qed
next
  case False
  show ?thesis
  proof (cases cur)
    case Nil
    with False show ?thesis by (simp add: json_parse_nvpair_def NUL_def)
  next
    case (Cons a list)
    with False show ?thesis
      by (auto simp: json_parse_nvpair_def Let_def json_weight_def split: prod.split option.split)
  qed
qed

lemma parse_array_below:
  "flow_below (Suc (json_weight j cur)) (json_parse_array np n j cur)"
proof (cases cur)
  case Nil
  then show ?thesis by (simp add: json_parse_array_def NUL_def)
next
  case (Cons a list)
  have "length (skip_ws list) \<le> length list" by (rule skip_ws_length)
  moreover have "length (tl (skip_ws list)) \<le> length (skip_ws list)" by simp
  ultimately show ?thesis using Cons
    by (auto simp: json_parse_array_def Let_def json_weight_def split: prod.split option.split)
qed

lemma parse_string_below:
  "flow_below (Suc (json_weight j cur)) (json_parse_string np j cur)"
  using strchr_length [of "tl cur" "CHR 0x22"]
  by (fastforce simp: json_parse_string_def Let_def json_weight_def split: option.split)

lemma parse_number_below:
  "flow_below (Suc (json_weight j cur)) (json_parse_number np j cur)"
  using get_number_length [of cur]
  by (auto simp: json_parse_number_def Let_def json_weight_def split: option.split)

lemma json_weight_drop: "json_weight j (drop n cur) < Suc (json_weight j cur)"
  by (simp add: json_weight_def)

lemma parse_step_below: "flow_below (json_weight j cur) (json_parse_step j cur)"
proof (cases "sl_head (js_stack j)")
  case Nil
  then show ?thesis by (simp add: json_parse_step_def local_stack_list_pop_def Let_def)
next
  case (Cons a as)
  let ?j = "j\<lparr>js_stack := js_stack j\<lparr>sl_head := as, sl_length := sl_length (js_stack j) - 1\<rparr>\<rparr>"
  have w: "Suc (json_weight ?j (skip_ws cur)) \<le> json_weight j cur"
    using Cons skip_ws_length [of cur] by (simp add: json_weight_def)
  have "flow_below (Suc (json_weight ?j (skip_ws cur))) (json_parse_step j cur)"
    using Cons
    by (auto simp: json_parse_step_def local_stack_list_pop_def Let_def parse_object_below
        parse_nvpair_below parse_array_below parse_string_below parse_number_below
        json_weight_drop
        split: option.split json_type.split)
  then show ?thesis using w by (auto simp: flow_below_def split: json_flow.splits)
qed

text \<open>The \<^verbatim>\<open>while\<close> loop of \<^verbatim>\<open>local_json_parse_text\<close>: \<^term>\<open>None\<close> is a fault, \<open>Some (None, j)\<close>
  a \<^verbatim>\<open>goto func_out\<close>, \<open>Some (Some cur, j)\<close> the ordinary end of the loop.\<close>

function json_parse_loop :: "json \<Rightarrow> string \<Rightarrow> (string option \<times> json) option" where
  "json_parse_loop j cur =
     (if peek cur \<noteq> NUL \<and> \<not> local_stack_list_is_empty (js_stack j) then
        (case json_parse_step j cur of
           Fault \<Rightarrow> None
         | Out j' \<Rightarrow> Some (None, j')
         | Cont j' cur' \<Rightarrow> json_parse_loop j' cur')
      else Some (Some cur, j))"
  by pat_completeness auto

termination json_parse_loop
proof (relation "measure (\<lambda>(j, cur). json_weight j cur)", goal_cases)
  case 1
  then show ?case by simp
next
  case (2 j cur j' cur')
  then show ?case using parse_step_below [of j cur] by simp
qed

declare json_parse_loop.simps [simp del]

text \<open>The end of \<^verbatim>\<open>local_json_parse_text\<close>: a failure resets the parser.\<close>

definition json_parse_finish :: "(string option \<times> json) option \<Rightarrow> (int \<times> json) option" where
  "json_parse_finish r = do {
     (cur, j) \<leftarrow> r;
     if (case cur of None \<Rightarrow> False
         | Some s \<Rightarrow> peek (skip_ws s) = NUL \<and> local_stack_list_is_empty (js_stack j))
     then Some (EZCFG_RET_OK, j)
     else do { j' \<leftarrow> local_json_reset j; Some (EZCFG_RET_FAIL, j') }
   }"

definition local_json_parse_text :: "json \<Rightarrow> string \<Rightarrow> (int \<times> json) option" where
  "local_json_parse_text j text =
     (let cur = skip_ws text in
      if peek cur \<noteq> CHR ''{'' \<and> peek cur \<noteq> CHR ''['' then Some (EZCFG_RET_FAIL, j)
      else
        case local_json_value_create cur (js_heap j) of
          (None, h1) \<Rightarrow> Some (EZCFG_RET_FAIL, j\<lparr>js_heap := h1\<rparr>)
        | (Some vp, h1) \<Rightarrow>
            (case local_binary_tree_node_new vp h1 of
               (None, h2) \<Rightarrow> Some (EZCFG_RET_FAIL, j\<lparr>js_heap := h2\<rparr>)
             | (Some np, h2) \<Rightarrow>
                 let tp = snd (local_binary_tree_set_data_delete_handler (js_text j) True);
                     tp = snd (local_binary_tree_set_root tp (Some np));
                     (mem, h3) = htick h2;
                     (ok, st) = local_stack_list_push mem (js_stack j) np;
                     j1 = j\<lparr>js_heap := h3, js_text := tp, js_stack := st\<rparr>
                 in json_parse_finish
                      (if ok then json_parse_loop j1 cur else Some (None, j1))))"

definition local_json_get_msg_len :: "json \<Rightarrow> int" where
  "local_json_get_msg_len j = js_msg_len j"

section \<open>The writer\<close>

text \<open>
  The output is the string written to \<^verbatim>\<open>buf\<close> so far: \<^verbatim>\<open>cur\<close> and \<^verbatim>\<open>cur_len\<close> advance together, so
  both are its length.  A write past the \<open>len\<close> bytes of the buffer is a fault.
\<close>

definition json_put :: "nat \<Rightarrow> string \<Rightarrow> string \<Rightarrow> (string \<Rightarrow> json_flow) \<Rightarrow> json_flow" where
  "json_put len s out k = (if length out + length s \<le> len then k (out @ s) else Fault)"

text \<open>\<^verbatim>\<open>strcpy(cur, s)\<close> also writes the terminating NUL.\<close>

definition json_strcpy :: "nat \<Rightarrow> string \<Rightarrow> string \<Rightarrow> (string \<Rightarrow> json_flow) \<Rightarrow> json_flow" where
  "json_strcpy len s out k = (if length out + length s < len then k (out @ s) else Fault)"

definition json_set_visited ::
    "nat \<Rightarrow> json_value binary_tree_node \<Rightarrow> int \<Rightarrow> json \<Rightarrow> json" where
  "json_set_visited np n v j =
     j\<lparr>js_heap := (js_heap j)\<lparr>cells := (cells (js_heap j))(np \<mapsto>
         n\<lparr>bt_data := (bt_data n)\<lparr>jv_visited := v\<rparr>\<rparr>)\<rparr>\<rparr>"

text \<open>\<^verbatim>\<open>if (np_right) { *cur = ','; ... push(np_right) }\<close>\<close>

definition json_write_next :: "nat \<Rightarrow> ptr \<Rightarrow> json \<Rightarrow> string \<Rightarrow> json_flow" where
  "json_write_next len np_right j out =
     (case np_right of
        None \<Rightarrow> Cont j out
      | Some r \<Rightarrow> json_put len '','' out (\<lambda>out. json_push r j (\<lambda>j. Cont j out)))"

text \<open>The two \<^verbatim>\<open>case\<close>s of an object and of an array differ in the brackets only.\<close>

definition json_write_group ::
    "string \<Rightarrow> string \<Rightarrow> nat \<Rightarrow> nat \<Rightarrow> json_value binary_tree_node \<Rightarrow> json \<Rightarrow> string \<Rightarrow> json_flow" where
  "json_write_group opn cls len np n j out =
     (if jv_visited (bt_data n) = 0 then
        json_put len opn out (\<lambda>out.
          let j = json_set_visited np n 1 j in
          json_push np j (\<lambda>j.
            case bt_left n of
              None \<Rightarrow> Cont j out
            | Some l \<Rightarrow> json_push l j (\<lambda>j. Cont j out)))
      else if jv_visited (bt_data n) = 1 then
        json_put len cls out (\<lambda>out.
          json_write_next len (bt_right n) (json_set_visited np n 0 j) out)
      else Out j)"

definition json_write_object ::
    "nat \<Rightarrow> nat \<Rightarrow> json_value binary_tree_node \<Rightarrow> json \<Rightarrow> string \<Rightarrow> json_flow" where
  "json_write_object = json_write_group ''{'' ''}''"

definition json_write_array ::
    "nat \<Rightarrow> nat \<Rightarrow> json_value binary_tree_node \<Rightarrow> json \<Rightarrow> string \<Rightarrow> json_flow" where
  "json_write_array = json_write_group ''['' '']''"

text \<open>The copy loop \<^verbatim>\<open>while (*p != '\0') *cur++ = *p++\<close> over \<^verbatim>\<open>vp->element\<close>; a NULL element faults.\<close>

definition json_put_element ::
    "nat \<Rightarrow> json_value \<Rightarrow> string \<Rightarrow> (string \<Rightarrow> json_flow) \<Rightarrow> json_flow" where
  "json_put_element len vp out k =
     (case jv_element vp of None \<Rightarrow> Fault | Some s \<Rightarrow> json_put len s out k)"

definition json_write_nvpair ::
    "nat \<Rightarrow> nat \<Rightarrow> json_value binary_tree_node \<Rightarrow> json \<Rightarrow> string \<Rightarrow> json_flow" where
  "json_write_nvpair len np n j out =
     (if jv_visited (bt_data n) = 0 then
        (case bt_left n of
           None \<Rightarrow> Out j
         | Some l \<Rightarrow>
             json_put len [CHR 0x22] out (\<lambda>out.
               json_put_element len (bt_data n) out (\<lambda>out.
                 json_put len [CHR 0x22, CHR '':''] out (\<lambda>out.
                   json_push np (json_set_visited np n 1 j) (\<lambda>j.
                     json_push l j (\<lambda>j. Cont j out))))))
      else if jv_visited (bt_data n) = 1 then
        json_write_next len (bt_right n) (json_set_visited np n 0 j) out
      else Out j)"

definition json_write_emptyset :: "json_value binary_tree_node \<Rightarrow> json \<Rightarrow> string \<Rightarrow> json_flow" where
  "json_write_emptyset n j out =
     (if bt_left n \<noteq> None then Out j
      else if bt_right n \<noteq> None then Out j
      else if jv_element (bt_data n) \<noteq> None then Out j
      else Cont j out)"

definition json_write_string :: "nat \<Rightarrow> json_value binary_tree_node \<Rightarrow> json \<Rightarrow> string \<Rightarrow> json_flow" where
  "json_write_string len n j out =
     (if bt_left n \<noteq> None then Out j
      else
        json_put len [CHR 0x22] out (\<lambda>out.
          json_put_element len (bt_data n) out (\<lambda>out.
            json_put len [CHR 0x22] out (\<lambda>out.
              json_write_next len (bt_right n) j out))))"

definition json_write_literal ::
    "string \<Rightarrow> nat \<Rightarrow> json_value binary_tree_node \<Rightarrow> json \<Rightarrow> string \<Rightarrow> json_flow" where
  "json_write_literal s len n j out =
     (if bt_left n \<noteq> None then Out j
      else json_strcpy len s out (\<lambda>out. json_write_next len (bt_right n) j out))"

definition json_write_number :: "nat \<Rightarrow> json_value binary_tree_node \<Rightarrow> json \<Rightarrow> string \<Rightarrow> json_flow" where
  "json_write_number len n j out =
     (if bt_left n \<noteq> None then Out j
      else
        json_put_element len (bt_data n) out (\<lambda>out.
          json_write_next len (bt_right n) j out))"

definition json_write_step :: "nat \<Rightarrow> json \<Rightarrow> string \<Rightarrow> json_flow" where
  "json_write_step len j out =
     (let (p, st) = local_stack_list_pop (js_stack j); j = j\<lparr>js_stack := st\<rparr> in
      case p of
        None \<Rightarrow> Out j
      | Some np \<Rightarrow>
          (case cells (js_heap j) np of
             None \<Rightarrow> Fault
           | Some n \<Rightarrow>
               (case jv_type (bt_data n) of
                  TYPE_OBJECT \<Rightarrow> json_write_object len np n j out
                | TYPE_NVPAIR \<Rightarrow> json_write_nvpair len np n j out
                | TYPE_ARRAY \<Rightarrow> json_write_array len np n j out
                | TYPE_EMPTYSET \<Rightarrow> json_write_emptyset n j out
                | TYPE_STRING \<Rightarrow> json_write_string len n j out
                | TYPE_FALSE \<Rightarrow> json_write_literal ''false'' len n j out
                | TYPE_NULL \<Rightarrow> json_write_literal ''null'' len n j out
                | TYPE_TRUE \<Rightarrow> json_write_literal ''true'' len n j out
                | TYPE_NUMBER \<Rightarrow> json_write_number len n j out
                | TYPE_UNKNOWN \<Rightarrow> Out j)))"

text \<open>As for the reader: \<open>Some (None, j)\<close> is a \<^verbatim>\<open>goto func_out\<close>.\<close>

partial_function (option) json_write_loop ::
    "nat \<Rightarrow> json \<Rightarrow> string \<Rightarrow> (string option \<times> json) option" where
  "json_write_loop len j out =
     (if int (length out) < js_msg_len j \<and> \<not> local_stack_list_is_empty (js_stack j) then
        (case json_write_step len j out of
           Fault \<Rightarrow> None
         | Out j' \<Rightarrow> Some (None, j')
         | Cont j' out' \<Rightarrow> json_write_loop len j' out')
      else Some (Some out, j))"

text \<open>\<^verbatim>\<open>local_json_write_message\<close>: the result code, the parser object, and on success the text
  in \<^verbatim>\<open>buf\<close>.\<close>

definition local_json_write_message :: "json \<Rightarrow> nat \<Rightarrow> (int \<times> json \<times> string) option" where
  "local_json_write_message j len =
     (if int len \<le> js_msg_len j then Some (-1, j, [])
      else if \<not> local_stack_list_is_empty (js_stack j) then Some (-1, j, [])
      else
        case local_binary_tree_get_root (js_text j) of
          None \<Rightarrow> Some (-1, j, [])
        | Some np \<Rightarrow> do {
            n \<leftarrow> cells (js_heap j) np;
            if jv_type (bt_data n) \<noteq> TYPE_OBJECT \<and> jv_type (bt_data n) \<noteq> TYPE_ARRAY
            then Some (-1, j, [])
            else do {
              let (mem, h1) = htick (js_heap j);
              let st = snd (local_stack_list_push mem (js_stack j) np);
              (r, j1) \<leftarrow> json_write_loop len (j\<lparr>js_heap := h1, js_stack := st\<rparr>) [];
              case r of
                None \<Rightarrow> Some (-1, j1, [])
              | Some out \<Rightarrow>
                  if int (length out) = js_msg_len j1 \<and> local_stack_list_is_empty (js_stack j1)
                  then Some (int (length out), j1, out)
                  else Some (-1, j1, out)
            }
          })"

end
