(* ===== verification/Json_Spec.thy ===== *)
theory Json_Spec
  imports Json
begin

text \<open>
  The specification of the JSON reader and writer: abstract values, their compact text
  \<open>jprint\<close>, and the grammar \<open>vtext\<close> of the texts of a value with whitespace between the
  tokens.  Strings are the reader's own: it takes everything up to the next quote and
  knows no escape sequences.  The lemmas on scanning say what \<open>json_value_kind\<close> and
  \<open>get_number\<close> find at the start of a text of the grammar.
\<close>

section \<open>Values and their compact text\<close>

datatype jv = JFalse | JNull | JTrue | JNum string | JStr string
  | JArr "jv list" | JObj "(string \<times> jv) list"

fun jcommas :: "string list \<Rightarrow> string" where
  "jcommas [] = []"
| "jcommas [s] = s"
| "jcommas (s # t # ts) = s @ '','' @ jcommas (t # ts)"

definition jquote :: "string \<Rightarrow> string" where
  "jquote s = CHR 0x22 # s @ [CHR 0x22]"

fun jprint :: "jv \<Rightarrow> string" where
  "jprint JFalse = ''false''"
| "jprint JNull = ''null''"
| "jprint JTrue = ''true''"
| "jprint (JNum s) = s"
| "jprint (JStr s) = jquote s"
| "jprint (JArr vs) = ''['' @ jcommas (map jprint vs) @ '']''"
| "jprint (JObj ms) = ''{'' @ jcommas (map (\<lambda>(k, v). jquote k @ '':'' @ jprint v) ms) @ ''}''"

abbreviation jmember :: "string \<times> jv \<Rightarrow> string" where
  "jmember kv \<equiv> (case kv of (k, v) \<Rightarrow> jquote k @ '':'' @ jprint v)"

fun jtype :: "jv \<Rightarrow> json_type" where
  "jtype JFalse = TYPE_FALSE"
| "jtype JNull = TYPE_NULL"
| "jtype JTrue = TYPE_TRUE"
| "jtype (JNum s) = TYPE_NUMBER"
| "jtype (JStr s) = TYPE_STRING"
| "jtype (JArr vs) = TYPE_ARRAY"
| "jtype (JObj ms) = TYPE_OBJECT"

text \<open>The values that can stand at the top of a text: \<open>local_json_parse_text\<close> refuses a text that does not
  begin with a brace or a bracket.\<close>

fun jcontainer :: "jv \<Rightarrow> bool" where
  "jcontainer (JArr vs) = True"
| "jcontainer (JObj ms) = True"
| "jcontainer _ = False"

section \<open>The grammar\<close>

definition wsp :: "string \<Rightarrow> bool" where
  "wsp w \<longleftrightarrow> list_all is_ws w"

definition digits :: "string \<Rightarrow> bool" where
  "digits s \<longleftrightarrow> s \<noteq> [] \<and> list_all is_digit s"

text \<open>RFC 7159, section 6: an optional minus, an integer part without leading zeros, an optional
  fraction and an optional exponent.\<close>

definition int_part :: "string \<Rightarrow> bool" where
  "int_part s \<longleftrightarrow> s = ''0'' \<or> digits s \<and> peek s \<noteq> CHR ''0''"

definition frac_part :: "string \<Rightarrow> bool" where
  "frac_part s \<longleftrightarrow> s = [] \<or> peek s = CHR ''.'' \<and> digits (tl s)"

definition exp_part :: "string \<Rightarrow> bool" where
  "exp_part s \<longleftrightarrow> s = [] \<or> (peek s = CHR ''e'' \<or> peek s = CHR ''E'') \<and>
     digits (if peek (tl s) = CHR ''+'' \<or> peek (tl s) = CHR ''-'' then tl (tl s) else tl s)"

definition number_text :: "string \<Rightarrow> bool" where
  "number_text s \<longleftrightarrow> (\<exists>m i f e. s = m @ i @ f @ e \<and> (m = [] \<or> m = ''-'') \<and>
     int_part i \<and> frac_part f \<and> exp_part e)"

text \<open>A string between its quotes, as it is written: escape sequences stay as they are, so the only
  strings of RFC 7159 that are missing are those with an escaped double quote, at which the reader
  ends the string.\<close>

definition string_text :: "string \<Rightarrow> bool" where
  "string_text s \<longleftrightarrow> CHR 0x22 \<notin> set s \<and> NUL \<notin> set s"

text \<open>The texts of a value, with white space between any two tokens (\<open>etext\<close> the elements of an array, \<open>mtext\<close>
  the members of an object).\<close>

inductive vtext :: "jv \<Rightarrow> string \<Rightarrow> bool"
  and etext :: "jv list \<Rightarrow> string \<Rightarrow> bool"
  and mtext :: "(string \<times> jv) list \<Rightarrow> string \<Rightarrow> bool" where
  vFalse: "vtext JFalse ''false''"
| vNull: "vtext JNull ''null''"
| vTrue: "vtext JTrue ''true''"
| vNum: "number_text s \<Longrightarrow> vtext (JNum s) s"
| vStr: "string_text s \<Longrightarrow> vtext (JStr s) (jquote s)"
| vArr0: "wsp w \<Longrightarrow> vtext (JArr []) (''['' @ w @ '']'')"
| vArr: "wsp w \<Longrightarrow> etext vs e \<Longrightarrow> vtext (JArr vs) (''['' @ w @ e @ '']'')"
| vObj0: "wsp w \<Longrightarrow> vtext (JObj []) (''{'' @ w @ ''}'')"
| vObj: "wsp w \<Longrightarrow> mtext ms m \<Longrightarrow> vtext (JObj ms) (''{'' @ w @ m @ ''}'')"
| e1: "vtext v s \<Longrightarrow> wsp w \<Longrightarrow> etext [v] (s @ w)"
| eC: "vtext v s \<Longrightarrow> wsp w \<Longrightarrow> wsp w' \<Longrightarrow> etext vs e \<Longrightarrow> etext (v # vs) (s @ w @ '','' @ w' @ e)"
| m1: "string_text k \<Longrightarrow> wsp w1 \<Longrightarrow> wsp w2 \<Longrightarrow> vtext v s \<Longrightarrow> wsp w3 \<Longrightarrow>
    mtext [(k, v)] (jquote k @ w1 @ '':'' @ w2 @ s @ w3)"
| mC: "string_text k \<Longrightarrow> wsp w1 \<Longrightarrow> wsp w2 \<Longrightarrow> vtext v s \<Longrightarrow> wsp w3 \<Longrightarrow> wsp w4 \<Longrightarrow> mtext ms m \<Longrightarrow>
    mtext ((k, v) # ms) (jquote k @ w1 @ '':'' @ w2 @ s @ w3 @ '','' @ w4 @ m)"

lemmas vtext_etext_mtext_inducts = vtext_etext_mtext.inducts

section \<open>Scanning\<close>

lemma wsp_simps [simp]: "wsp []" "wsp (c # w) \<longleftrightarrow> is_ws c \<and> wsp w" "wsp (v @ w) \<longleftrightarrow> wsp v \<and> wsp w"
  by (auto simp: wsp_def)

lemma skip_ws_wsp: "wsp w \<Longrightarrow> skip_ws (w @ s) = skip_ws s"
  by (induction w) auto

lemma skip_ws_id: "\<not> is_ws (peek s) \<Longrightarrow> skip_ws s = s"
  by (cases s) auto

lemma skip_ws_wsp_id [simp]: "wsp w \<Longrightarrow> \<not> is_ws (peek s) \<Longrightarrow> skip_ws (w @ s) = s"
  by (simp add: skip_ws_wsp skip_ws_id)

lemma skip_ws_all [simp]: "wsp w \<Longrightarrow> skip_ws w = []"
  using skip_ws_wsp [of w "[]"] by simp

lemma skip_digits_app:
  "list_all is_digit s \<Longrightarrow> \<not> is_digit (peek r) \<Longrightarrow> skip_digits (s @ r) = r"
  by (induction s) (cases r, auto)

lemma is_digit_NUL [simp]: "\<not> is_digit NUL"
  by (simp add: is_digit_def NUL_def)

lemma is_ws_delim: "is_ws c \<Longrightarrow> is_token_delim c"
  by (auto simp: is_ws_def is_token_delim_def)

lemma is_token_delim_chars [simp]:
  "is_token_delim (CHR '','')" "is_token_delim (CHR ''}'')" "is_token_delim (CHR '']'')"
  by (auto simp: is_token_delim_def)

lemma is_ws_chars [simp]:
  "\<not> is_ws (CHR '','')" "\<not> is_ws (CHR ''}'')" "\<not> is_ws (CHR '']'')" "\<not> is_ws (CHR '':'')"
  "\<not> is_ws (CHR 0x22)" "\<not> is_ws (CHR ''{'')" "\<not> is_ws (CHR ''['')" "\<not> is_ws NUL"
  by (auto simp: is_ws_def NUL_def)

lemma delim_wsp: "wsp w \<Longrightarrow> is_token_delim (peek s) \<Longrightarrow> is_token_delim (peek (w @ s))"
  by (cases w) (auto simp: is_ws_delim)

lemma delim_not:
  assumes "is_token_delim c"
  shows "\<not> is_digit c" "c \<noteq> CHR ''.''" "c \<noteq> CHR ''e''" "c \<noteq> CHR ''E''" "c \<noteq> NUL"
  using assms by (auto simp: is_token_delim_def is_digit_def NUL_def)

lemma number_exp:
  assumes "exp_part e" "e \<noteq> []" "is_token_delim (peek r)"
  shows "get_number_exp (e @ r) = r"
proof -
  obtain c t where e: "e = c # t" using assms(2) by (cases e) auto
  define d where "d = (if peek t = CHR ''+'' \<or> peek t = CHR ''-'' then tl t else t)"
  have d: "digits d" using assms(1) e by (auto simp: exp_part_def d_def split: if_splits)
  then have t: "t \<noteq> []" by (auto simp: d_def digits_def split: if_splits)
  then have "peek (t @ r) = peek t" "tl (t @ r) = tl t @ r" by (cases t; simp)+
  moreover have "skip_digits (d @ r) = r"
    using d delim_not(1) [OF assms(3)] by (simp add: skip_digits_app digits_def)
  moreover have "is_digit (peek t) \<or> peek t = CHR ''+'' \<or> peek t = CHR ''-''"
    using d t by (cases t) (auto simp: d_def digits_def split: if_splits)
  ultimately show ?thesis by (auto simp: get_number_exp_def e d_def split: if_splits)
qed

lemma number_tail_end:
  assumes "exp_part e" "is_token_delim (peek r)"
  shows "(e @ r) \<noteq> []"
    "if peek (e @ r) = CHR ''e'' \<or> peek (e @ r) = CHR ''E''
     then get_number_exp (e @ r) = r else e = []"
    "peek (e @ r) \<noteq> CHR ''.''" "\<not> is_digit (peek (e @ r))"
proof -
  have r: "r \<noteq> []" using assms(2) delim_not(5) by fastforce
  show "(e @ r) \<noteq> []" using r by simp
  show "peek (e @ r) \<noteq> CHR ''.''" "\<not> is_digit (peek (e @ r))"
    using assms delim_not [OF assms(2)] by (cases e; force simp: exp_part_def is_digit_def)+
  show "if peek (e @ r) = CHR ''e'' \<or> peek (e @ r) = CHR ''E''
     then get_number_exp (e @ r) = r else e = []"
  proof (cases "e = []")
    case True
    then show ?thesis using delim_not [OF assms(2)] by auto
  next
    case False
    then have "peek (e @ r) = peek e" by (cases e) auto
    with False assms(1) number_exp [OF assms(1) False assms(2)] show ?thesis
      by (auto simp: exp_part_def)
  qed
qed

lemma number_frac:
  assumes "frac_part f" "f \<noteq> []" "exp_part e" "is_token_delim (peek r)"
  shows "get_number_frac (f @ e @ r) = r"
proof -
  obtain t where f: "f = CHR ''.'' # t" and t: "digits t"
    using assms(1,2) by (cases f) (auto simp: frac_part_def)
  have "peek (t @ e @ r) = peek t" "is_digit (peek t)" using t by (cases t; auto simp: digits_def)+
  moreover have "skip_digits (t @ e @ r) = e @ r"
    using t number_tail_end [OF assms(3,4)] by (simp add: skip_digits_app digits_def)
  ultimately show ?thesis
    using number_tail_end [OF assms(3,4)] by (auto simp: get_number_frac_def f Let_def split: if_splits)
qed

lemma number_int:
  assumes "int_part i" "\<not> is_digit (peek r)"
  shows "is_digit (peek (i @ r))"
    "(if peek (i @ r) = CHR ''0'' then tl (i @ r) else skip_digits (i @ r)) = r"
    "peek (i @ r) \<noteq> CHR ''-''"
proof -
  obtain c t where i: "i = c # t" using assms(1) by (cases i) (auto simp: int_part_def digits_def)
  show "is_digit (peek (i @ r))" using assms(1) i by (auto simp: int_part_def digits_def is_digit_def)
  then show "peek (i @ r) \<noteq> CHR ''-''" by (auto simp: is_digit_def)
  show "(if peek (i @ r) = CHR ''0'' then tl (i @ r) else skip_digits (i @ r)) = r"
    using assms i skip_digits_app [of i r] by (auto simp: int_part_def digits_def)
qed

lemma get_number_text:
  assumes "number_text s" "is_token_delim (peek r)"
  shows "get_number (s @ r) = Some r"
proof -
  obtain m i f e where s: "s = m @ i @ f @ e" and m: "m = [] \<or> m = ''-''"
    and p: "int_part i" "frac_part f" "exp_part e"
    using assms(1) by (auto simp: number_text_def)
  note tail = number_tail_end [OF p(3) assms(2)]
  have nd: "\<not> is_digit (peek (f @ e @ r))"
    using p(2) tail(4) by (cases f) (auto simp: frac_part_def is_digit_def)
  note head = number_int [OF p(1) nd]
  have m': "(if peek (s @ r) = CHR ''-'' then tl (s @ r) else s @ r) = i @ f @ e @ r"
    using m head(3) s by auto
  have fin: "get_number (s @ r) =
      (let q = f @ e @ r in
       if q = [] then Some q
       else if peek q = CHR ''.'' then Some (get_number_frac q)
       else if peek q = CHR ''e'' \<or> peek q = CHR ''E'' then Some (get_number_exp q)
       else Some q)"
    unfolding get_number_def m' Let_def head(2) using head(1) by simp
  show ?thesis
  proof (cases "f = []")
    case True
    then show ?thesis using tail unfolding fin Let_def by (auto split: if_splits)
  next
    case False
    then have "peek (f @ e @ r) = CHR ''.''" using p(2) by (cases f) (auto simp: frac_part_def)
    then show ?thesis using number_frac [OF p(2) False p(3) assms(2)] False
      unfolding fin Let_def by simp
  qed
qed

lemma number_text_head:
  assumes "number_text s"
  obtains c t where "s = c # t" "c = CHR ''-'' \<or> is_digit c"
proof -
  obtain m i f e where s: "s = m @ i @ f @ e" and m: "m = [] \<or> m = ''-''" and i: "int_part i"
    using assms by (auto simp: number_text_def)
  obtain c t where "i = c # t" "is_digit c"
    using i number_int(1) [OF i, of "[]"] by (cases i) (auto simp: int_part_def digits_def)
  with s m that show ?thesis by auto
qed

lemma is_digit_other:
  assumes "c = CHR ''-'' \<or> is_digit c"
  shows "c \<noteq> CHR 0x22" "c \<noteq> CHR ''{''" "c \<noteq> CHR ''[''" "c \<noteq> CHR ''f''" "c \<noteq> CHR ''n''"
    "c \<noteq> CHR ''t''" "c \<noteq> CHR '']''" "c \<noteq> NUL" "\<not> is_ws c"
  using assms by (auto simp: is_digit_def NUL_def is_ws_def)

lemma kind_of_number:
  assumes "c = CHR ''-'' \<or> is_digit c"
  shows "json_value_kind (c # s) = Some TYPE_NUMBER"
  using is_digit_other [OF assms] assms
  by (simp add: json_value_kind_def strncmp_def numeral_eq_Suc)

lemma char_at_append: "char_at (s @ r) (length s) = peek r"
  by (cases r) (auto simp: char_at_def)

lemma kind_of_text:
  assumes "vtext v s" "jcontainer v \<or> is_token_delim (peek r)"
  shows "json_value_kind (s @ r) = Some (jtype v)"
  using assms
proof (cases rule: vtext.cases)
  case vNum
  then show ?thesis using number_text_head [of s] kind_of_number by fastforce
qed (use char_at_append [of "''false''" r] char_at_append [of "''null''" r]
    char_at_append [of "''true''" r] in
    \<open>auto simp: json_value_kind_def strncmp_def jquote_def numeral_eq_Suc\<close>)

text \<open>The first character of a text of a value is no whitespace and no closing bracket.\<close>

lemma vtext_head:
  assumes "vtext v s"
  shows "\<exists>c t. s = c # t \<and> \<not> is_ws c \<and> c \<noteq> CHR '']'' \<and> c \<noteq> NUL"
  using assms
proof (cases rule: vtext.cases)
  case vNum
  then show ?thesis using number_text_head [of s] is_digit_other by metis
qed (auto simp: jquote_def NUL_def is_ws_def)

lemma etext_head:
  "etext vs e \<Longrightarrow> \<exists>v vs' s t. vs = v # vs' \<and> vtext v s \<and> e = s @ t \<and>
     (\<forall>r. is_token_delim (peek r) \<longrightarrow> is_token_delim (peek (t @ r)))"
  by (cases rule: etext.cases) (fastforce intro: delim_wsp)+

lemma etext_kind:
  assumes "etext vs e" "is_token_delim (peek r)"
  shows "json_value_kind (e @ r) = Some (jtype (hd vs))" "\<not> is_ws (peek (e @ r))"
    "peek (e @ r) \<noteq> CHR '']''" "peek (e @ r) \<noteq> NUL"
proof -
  obtain v vs' s t where "vs = v # vs'" "vtext v s" "e = s @ t" "is_token_delim (peek (t @ r))"
    using etext_head [OF assms(1)] assms(2) by blast
  with kind_of_text [of v s "t @ r"] vtext_head [of v s]
  show "json_value_kind (e @ r) = Some (jtype (hd vs))" "\<not> is_ws (peek (e @ r))"
    "peek (e @ r) \<noteq> CHR '']''" "peek (e @ r) \<noteq> NUL" by auto
qed

lemma mtext_head: "mtext ms m \<Longrightarrow> ms \<noteq> [] \<and> peek (m @ r) = CHR 0x22"
  by (cases rule: mtext.cases) (auto simp: jquote_def)

end
