(* ===== verification/Json_Parse.thy ===== *)
theory Json_Parse
  imports Json_Spec
begin

text \<open>
  Correctness of the JSON reader.  \<open>jtree c lo hi a v\<close> says that node \<open>a\<close> of the heap \<open>c\<close>
  represents the value \<open>v\<close> with all its descendants allocated between \<open>lo\<close> and \<open>hi\<close>; the
  reader allocates upwards, so the footprints of siblings are disjoint intervals.  The
  reader lemmas follow the grammar: reading the text of a value from a fresh node leaves a
  tree that represents it, consumes exactly the text and adds the length of the compact
  text to the message length.
\<close>

section \<open>Representation of values\<close>

inductive jtree :: "(nat \<Rightarrow> json_value binary_tree_node option) \<Rightarrow> nat \<Rightarrow> nat \<Rightarrow> nat \<Rightarrow> jv \<Rightarrow> bool"
  and jelems :: "(nat \<Rightarrow> json_value binary_tree_node option) \<Rightarrow> nat \<Rightarrow> nat \<Rightarrow> nat list \<Rightarrow> jv list \<Rightarrow> bool"
  and jmembers :: "(nat \<Rightarrow> json_value binary_tree_node option) \<Rightarrow> nat \<Rightarrow> nat \<Rightarrow> nat list \<Rightarrow>
     (string \<times> jv) list \<Rightarrow> bool" where
  tLit: "c a = Some n \<Longrightarrow> bt_data n = \<lparr>jv_type = jtype v, jv_element = None, jv_visited = 0\<rparr> \<Longrightarrow>
    bt_left n = None \<Longrightarrow> v = JFalse \<or> v = JNull \<or> v = JTrue \<Longrightarrow> lo \<le> hi \<Longrightarrow> jtree c lo hi a v"
| tNum: "c a = Some n \<Longrightarrow> bt_data n = \<lparr>jv_type = TYPE_NUMBER, jv_element = Some s, jv_visited = 0\<rparr> \<Longrightarrow>
    bt_left n = None \<Longrightarrow> s \<noteq> [] \<Longrightarrow> lo \<le> hi \<Longrightarrow> jtree c lo hi a (JNum s)"
| tStr: "c a = Some n \<Longrightarrow> bt_data n = \<lparr>jv_type = TYPE_STRING, jv_element = Some s, jv_visited = 0\<rparr> \<Longrightarrow>
    bt_left n = None \<Longrightarrow> lo \<le> hi \<Longrightarrow> jtree c lo hi a (JStr s)"
| tEmpty: "c a = Some n \<Longrightarrow> bt_data n = \<lparr>jv_type = jtype v, jv_element = None, jv_visited = 0\<rparr> \<Longrightarrow>
    bt_left n = Some e \<Longrightarrow> lo \<le> e \<Longrightarrow> e < hi \<Longrightarrow>
    c e = Some \<lparr>bt_data = \<lparr>jv_type = TYPE_EMPTYSET, jv_element = None, jv_visited = 0\<rparr>,
             bt_up = None, bt_left = None, bt_right = None\<rparr> \<Longrightarrow>
    v = JArr [] \<or> v = JObj [] \<Longrightarrow> jtree c lo hi a v"
| tArr: "c a = Some n \<Longrightarrow> bt_data n = \<lparr>jv_type = TYPE_ARRAY, jv_element = None, jv_visited = 0\<rparr> \<Longrightarrow>
    rchain c (bt_left n) qs \<Longrightarrow> jelems c lo hi qs vs \<Longrightarrow> vs \<noteq> [] \<Longrightarrow> jtree c lo hi a (JArr vs)"
| tObj: "c a = Some n \<Longrightarrow> bt_data n = \<lparr>jv_type = TYPE_OBJECT, jv_element = None, jv_visited = 0\<rparr> \<Longrightarrow>
    rchain c (bt_left n) ps \<Longrightarrow> jmembers c lo hi ps ms \<Longrightarrow> ms \<noteq> [] \<Longrightarrow> jtree c lo hi a (JObj ms)"
| teNil: "lo \<le> hi \<Longrightarrow> jelems c lo hi [] []"
| teCons: "lo \<le> q \<Longrightarrow> q < lo' \<Longrightarrow> jtree c lo' mid q v \<Longrightarrow> jelems c mid hi qs vs \<Longrightarrow>
    jelems c lo hi (q # qs) (v # vs)"
| tmNil: "lo \<le> hi \<Longrightarrow> jmembers c lo hi [] []"
| tmCons: "lo \<le> p \<Longrightarrow> p < q \<Longrightarrow> q < lo' \<Longrightarrow> c p = Some n \<Longrightarrow>
    bt_data n = \<lparr>jv_type = TYPE_NVPAIR, jv_element = Some k, jv_visited = 0\<rparr> \<Longrightarrow>
    bt_left n = Some q \<Longrightarrow> c q = Some m \<Longrightarrow> bt_right m = None \<Longrightarrow>
    jtree c lo' mid q v \<Longrightarrow> jmembers c mid hi ps ms \<Longrightarrow>
    jmembers c lo hi (p # ps) ((k, v) # ms)"

lemma jbounds:
  "jtree c lo hi a v \<Longrightarrow> lo \<le> hi"
  "jelems c lo hi qs vs \<Longrightarrow> lo \<le> hi \<and> set qs \<subseteq> {lo..<hi} \<and> distinct qs \<and> length qs = length vs"
  "jmembers c lo hi ps ms \<Longrightarrow> lo \<le> hi \<and> set ps \<subseteq> {lo..<hi} \<and> distinct ps \<and> length ps = length ms"
  by (induction rule: jtree_jelems_jmembers.inducts) (auto; fastforce)+

inductive_simps jelems_Nil [simp]: "jelems c lo hi [] vs"
inductive_simps jelems_Cons [simp]: "jelems c lo hi (q # qs) vs"
inductive_simps jmembers_Nil [simp]: "jmembers c lo hi [] ms"
inductive_simps jmembers_Cons [simp]: "jmembers c lo hi (p # ps) ms"

lemma jelems_lower: "jelems c lo hi qs vs \<Longrightarrow> lo' \<le> lo \<Longrightarrow> jelems c lo' hi qs vs"
  by (cases qs) (force intro: order_trans)+

lemma jmembers_lower: "jmembers c lo hi ps ms \<Longrightarrow> lo' \<le> lo \<Longrightarrow> jmembers c lo' hi ps ms"
  by (cases ps) (force intro: order_trans)+

lemma jelems_append:
  "jelems c lo mid qs vs \<Longrightarrow> jelems c mid hi qs' vs' \<Longrightarrow> jelems c lo hi (qs @ qs') (vs @ vs')"
proof (induction qs arbitrary: lo vs)
  case Nil
  then show ?case by (auto intro: jelems_lower)
next
  case (Cons q qs)
  from Cons.prems(1) obtain v vs0 lo' m where "vs = v # vs0" "lo \<le> q" "q < lo'"
    "jtree c lo' m q v" "jelems c m mid qs vs0" by auto
  with Cons.IH [of m vs0] Cons.prems(2) show ?case by auto
qed

lemma jmembers_append:
  "jmembers c lo mid ps ms \<Longrightarrow> jmembers c mid hi ps' ms' \<Longrightarrow> jmembers c lo hi (ps @ ps') (ms @ ms')"
proof (induction ps arbitrary: lo ms)
  case Nil
  then show ?case by (auto intro: jmembers_lower)
next
  case (Cons p ps)
  from Cons.prems(1) obtain q lo' n k m mid' v ms0 where p: "ms = (k, v) # ms0" "lo \<le> p" "p < q"
    "q < lo'" "c p = Some n" "bt_data n = \<lparr>jv_type = TYPE_NVPAIR, jv_element = Some k, jv_visited = 0\<rparr>"
    "bt_left n = Some q" "c q = Some m" "bt_right m = None" "jtree c lo' mid' q v"
    "jmembers c mid' mid ps ms0" by auto
  from tmCons [OF p(2-10) Cons.IH [OF p(11) Cons.prems(2)]] show ?case using p(1) by simp
qed

text \<open>Two heaps agree on a value when they hold the same nodes, up to the sibling pointers of
  the top nodes, which belong to the parent.\<close>

definition same_core ::
    "json_value binary_tree_node option \<Rightarrow> json_value binary_tree_node option \<Rightarrow> bool" where
  "same_core x y \<longleftrightarrow> (\<exists>n r. x = Some n \<and> y = Some (n\<lparr>bt_right := r\<rparr>))"

lemma same_core_refl: "x \<noteq> None \<Longrightarrow> same_core x x"
proof -
  assume "x \<noteq> None"
  then obtain n where "x = Some n" by auto
  then have "x = Some n \<and> x = Some (n\<lparr>bt_right := bt_right n\<rparr>)" by simp
  then show "same_core x x" unfolding same_core_def by blast
qed

lemma same_core_eq: "x \<noteq> None \<Longrightarrow> y = x \<Longrightarrow> same_core x y"
  using same_core_refl by simp

lemma same_core_right [simp]: "same_core (Some n) (Some (n\<lparr>bt_right := r\<rparr>))"
  by (auto simp: same_core_def)

lemma rchain_cong: "rchain c p as \<Longrightarrow> (\<And>x. x \<in> set as \<Longrightarrow> c' x = c x) \<Longrightarrow> rchain c' p as"
  by (induction c p as rule: rchain.induct) (auto split: option.splits)

lemma jtree_frame:
  "jtree c lo hi a v \<Longrightarrow> (\<forall>x\<in>{lo..<hi}. c' x = c x) \<Longrightarrow> same_core (c a) (c' a) \<Longrightarrow> jtree c' lo hi a v"
  "jelems c lo hi qs vs \<Longrightarrow> (\<forall>x\<in>{lo..<hi}. x \<notin> set qs \<longrightarrow> c' x = c x) \<Longrightarrow>
     (\<forall>x\<in>set qs. same_core (c x) (c' x)) \<Longrightarrow> jelems c' lo hi qs vs"
  "jmembers c lo hi ps ms \<Longrightarrow> (\<forall>x\<in>{lo..<hi}. x \<notin> set ps \<longrightarrow> c' x = c x) \<Longrightarrow>
     (\<forall>x\<in>set ps. same_core (c x) (c' x)) \<Longrightarrow> jmembers c' lo hi ps ms"
proof (induction arbitrary: c' and c' and c' rule: jtree_jelems_jmembers.inducts)
  case (tArr c a n qs lo hi vs)
  note b = jbounds(2) [OF tArr.hyps(4)]
  have "\<forall>x\<in>set qs. same_core (c x) (c' x)"
    using tArr.prems b rchain_cells [OF tArr.hyps(3)] by (metis same_core_refl subsetD)
  then have "jelems c' lo hi qs vs" using tArr by simp
  moreover have "rchain c' (bt_left n) qs"
    by (rule rchain_cong [OF tArr.hyps(3)]) (use tArr.prems b in blast)
  ultimately show ?case using tArr.hyps tArr.prems
    by (auto simp: same_core_def intro: jtree_jelems_jmembers.tArr)
next
  case (tObj c a n ps lo hi ms)
  note b = jbounds(3) [OF tObj.hyps(4)]
  have "\<forall>x\<in>set ps. same_core (c x) (c' x)"
    using tObj.prems b rchain_cells [OF tObj.hyps(3)] by (metis same_core_refl subsetD)
  then have "jmembers c' lo hi ps ms" using tObj by simp
  moreover have "rchain c' (bt_left n) ps"
    by (rule rchain_cong [OF tObj.hyps(3)]) (use tObj.prems b in blast)
  ultimately show ?case using tObj.hyps tObj.prems
    by (auto simp: same_core_def intro: jtree_jelems_jmembers.tObj)
next
  case (teCons lo q lo' c mid v hi qs vs)
  note b = jbounds(2) [OF teCons.hyps(4)] jbounds(1) [OF teCons.hyps(3)]
  have out: "x \<notin> set qs" if "x < mid" for x using b that by auto
  have "jtree c' lo' mid q v"
    by (rule teCons.IH(1)) (use teCons.hyps teCons.prems b out in auto)
  moreover have "jelems c' mid hi qs vs"
    by (rule teCons.IH(2)) (use teCons.hyps teCons.prems b in auto)
  ultimately show ?case using teCons.hyps by (blast intro: jtree_jelems_jmembers.teCons)
next
  case (tmCons lo p q lo' c n k m mid v hi ps ms)
  note b = jbounds(3) [OF tmCons.hyps(10)] jbounds(1) [OF tmCons.hyps(9)]
  have out: "x \<notin> set ps" if "x < mid" for x using b that by auto
  have q: "c' q = c q" using tmCons.hyps tmCons.prems(1) b out by auto
  have "jtree c' lo' mid q v"
    by (rule tmCons.IH(1))
      (use tmCons.hyps tmCons.prems b out q in \<open>auto simp: same_core_refl\<close>)
  moreover have "jmembers c' mid hi ps ms"
    by (rule tmCons.IH(2)) (use tmCons.hyps tmCons.prems b in auto)
  moreover obtain r where "c' p = Some (n\<lparr>bt_right := r\<rparr>)"
    using tmCons.hyps(4) tmCons.prems(2) by (auto simp: same_core_def)
  ultimately show ?case using tmCons.hyps q
    by (intro jtree_jelems_jmembers.tmCons [where n = "n\<lparr>bt_right := r\<rparr>" and m = m and
          lo' = lo' and q = q and mid = mid]) simp_all
qed (auto simp: same_core_def intro: jtree_jelems_jmembers.intros)

lemma rchain_right_cong:
  "rchain c p as \<Longrightarrow> (\<And>x. x \<in> set as \<Longrightarrow> map_option bt_right (c' x) = map_option bt_right (c x)) \<Longrightarrow>
    rchain c' p as"
proof (induction c p as rule: rchain.induct)
  case (2 c p a as)
  from "2.prems"(1) obtain n where n: "p = Some a" "c a = Some n" "rchain c (bt_right n) as"
    by (auto split: option.splits)
  moreover have "map_option bt_right (c' a) = map_option bt_right (c a)" using "2.prems"(2) by simp
  ultimately obtain n' where "c' a = Some n'" "bt_right n' = bt_right n" by auto
  with n "2.IH" [OF n(2,3)] "2.prems"(2) show ?case by simp
qed simp

section \<open>Parser states\<close>

text \<open>The state with heap cells \<open>c\<close>, the allocation counter \<open>b\<close>, the stack \<open>hs\<close> and the message
  length \<open>l\<close>; everything else is as in \<open>j0\<close>.\<close>

definition jheap :: "json \<Rightarrow> (nat \<Rightarrow> json_value binary_tree_node option) \<Rightarrow> nat \<Rightarrow> json_value bheap" where
  "jheap j0 c b = \<lparr>cells = c, brk = b, oom = oom (js_heap j0), blog = blog (js_heap j0)\<rparr>"

definition jset :: "json \<Rightarrow> (nat \<Rightarrow> json_value binary_tree_node option) \<Rightarrow> nat \<Rightarrow> nat list \<Rightarrow> int \<Rightarrow> json" where
  "jset j0 c b hs l =
     \<lparr>js_heap = jheap j0 c b, js_text = js_text j0,
      js_stack = \<lparr>sl_length = int (length hs), sl_head = hs, sl_del = sl_del (js_stack j0)\<rparr>,
      js_msg_len = l\<rparr>"

definition plenty :: "json \<Rightarrow> bool" where
  "plenty j \<longleftrightarrow> oom (js_heap j) = (\<lambda>_. False)"

definition jdata :: "json_type \<Rightarrow> json_value" where
  "jdata t = \<lparr>jv_type = t, jv_element = None, jv_visited = 0\<rparr>"

definition jfresh :: "json_type \<Rightarrow> json_value binary_tree_node" where
  "jfresh t = \<lparr>bt_data = jdata t, bt_up = None, bt_left = None, bt_right = None\<rparr>"

lemma jdata_simps [simp]: "jv_type (jdata t) = t" "jv_element (jdata t) = None" "jv_visited (jdata t) = 0"
  by (simp_all add: jdata_def)

lemma jfresh_simps [simp]:
  "bt_data (jfresh t) = jdata t" "bt_left (jfresh t) = None" "bt_right (jfresh t) = None"
  by (simp_all add: jfresh_def)

lemma jset_simps [simp]:
  "cells (js_heap (jset j0 c b hs l)) = c" "brk (js_heap (jset j0 c b hs l)) = b"
  "oom (js_heap (jset j0 c b hs l)) = oom (js_heap j0)"
  "sl_head (js_stack (jset j0 c b hs l)) = hs" "js_msg_len (jset j0 c b hs l) = l"
  "local_stack_list_is_empty (js_stack (jset j0 c b hs l)) \<longleftrightarrow> hs = []"
  "inc_msg_len i (jset j0 c b hs l) = jset j0 c b hs (l + i)"
  by (simp_all add: jset_def jheap_def inc_msg_len_def local_stack_list_is_empty_def)

lemma jheap_simps [simp]:
  "cells (jheap j0 c b) = c" "(jheap j0 c b)\<lparr>cells := c'\<rparr> = jheap j0 c' b"
  by (simp_all add: jheap_def)

lemma jset_upd [simp]:
  "(jset j0 c b hs l)\<lparr>js_heap := jheap j0 c' b'\<rparr> = jset j0 c' b' hs l"
  by (simp add: jset_def)

lemma jset_heap: "js_heap (jset j0 c b hs l) = jheap j0 c b"
  by (simp add: jset_def)

lemma jset_push [simp]:
  "plenty j0 \<Longrightarrow> json_push a (jset j0 c b hs l) k = k (jset j0 c (Suc b) (a # hs) l)"
  by (simp add: json_push_def htick_def plenty_def jset_def jheap_def local_stack_list_push_def
      add.commute)

lemma jset_pop:
  "local_stack_list_pop (js_stack (jset j0 c b (a # hs) l)) =
     (Some a, js_stack (jset j0 c b hs l))"
  by (simp add: jset_def local_stack_list_pop_def)

lemma jset_pop_upd:
  "(jset j0 c b (a # hs) l)\<lparr>js_stack := js_stack (jset j0 c b hs l)\<rparr> = jset j0 c b hs l"
  by (simp add: jset_def)

lemma jset_set_element [simp]:
  "plenty j0 \<Longrightarrow> c a = Some n \<Longrightarrow>
    json_value_set_element a buf len (jset j0 c b hs l) k =
    k (jset j0 (c(a \<mapsto> n\<lparr>bt_data := (bt_data n)\<lparr>jv_element := Some (take len buf)\<rparr>\<rparr>)) (Suc b) hs l)"
  by (simp add: json_value_set_element_def htick_def plenty_def jset_def jheap_def)

lemma jset_value_new:
  "plenty j0 \<Longrightarrow> json_value_new t (js_heap (jset j0 c b hs l)) =
    (Some (jdata t), jheap j0 c (Suc b))"
  by (simp add: json_value_new_def htick_def plenty_def jset_def jheap_def jdata_def)

lemma jset_value_create:
  "plenty j0 \<Longrightarrow> json_value_kind buf = Some t \<Longrightarrow>
    local_json_value_create buf (js_heap (jset j0 c b hs l)) =
    (Some (jdata t), jheap j0 c (Suc b))"
  by (simp add: local_json_value_create_def jset_value_new)

lemma jset_node_new:
  "plenty j0 \<Longrightarrow> local_binary_tree_node_new (jdata t) (jheap j0 c b) =
    (Some b, jheap j0 (c(b \<mapsto> jfresh t)) (Suc b))"
  by (simp add: local_binary_tree_node_new_def halloc_def plenty_def jfresh_def jheap_def)

lemma new_left_first:
  assumes "plenty j0" "c a = Some n" "bt_left n = None" "a < b"
  shows "json_new_left a (Some (jdata t), jheap j0 c b) (jset j0 c b' hs l) k =
    k b (jset j0 (c(b \<mapsto> jfresh t, a \<mapsto> n\<lparr>bt_left := Some b\<rparr>)) (Suc b) hs l)"
proof -
  let ?h = "jheap j0 (c(b \<mapsto> jfresh t)) (Suc b)"
  have "local_binary_tree_node_append_left (Some a) (Some b) ?h =
      Some (EZCFG_RET_OK, ?h\<lparr>cells := (cells ?h)(a \<mapsto> n\<lparr>bt_left := Some b\<rparr>)\<rparr>)"
    by (rule append_left_first) (use assms in auto)
  then show ?thesis
    using assms(1) by (simp add: json_new_left_def jset_node_new)
qed

lemma append_left_last:
  assumes "c a = Some n" "rchain c (bt_left n) (qs @ [e])" "c e = Some m" "a \<noteq> b" "b \<notin> set (qs @ [e])"
  shows "local_binary_tree_node_append_left (Some a) (Some b)
      (jheap j0 (c(b \<mapsto> jfresh t)) b') =
    Some (EZCFG_RET_OK,
      jheap j0 (c(b \<mapsto> jfresh t, e \<mapsto> m\<lparr>bt_right := Some b\<rparr>)) b')"
proof -
  let ?h = "jheap j0 (c(b \<mapsto> jfresh t)) b'"
  have "rchain (cells ?h) (bt_left n) (qs @ [e])"
    using assms(2,5) rchain_frame [of b "qs @ [e]" c "Some (jfresh t)"] by simp
  then have "local_binary_tree_node_append_left (Some a) (Some b) ?h =
      Some (EZCFG_RET_OK, ?h\<lparr>cells := (cells ?h)(e \<mapsto> m\<lparr>bt_right := Some b\<rparr>)\<rparr>)"
    by (intro append_left_more) (use assms in auto)
  then show ?thesis by simp
qed

text \<open>One iteration on a parser state: the popped node decides.\<close>

lemma loop_step:
  assumes "peek cur \<noteq> NUL" "json_parse_step (jset j0 c b (a # hs) l) cur = Cont j' cur'"
  shows "json_parse_loop (jset j0 c b (a # hs) l) cur = json_parse_loop j' cur'"
  using assms by (simp add: json_parse_loop.simps [of "jset j0 c b (a # hs) l" cur])

lemma parse_step_jset:
  "c a = Some n \<Longrightarrow> json_parse_step (jset j0 c b (a # hs) l) cur =
    (case jv_type (bt_data n) of
       TYPE_OBJECT \<Rightarrow> json_parse_object a n (jset j0 c b hs l) (skip_ws cur)
     | TYPE_NVPAIR \<Rightarrow> json_parse_nvpair a n (jset j0 c b hs l) (skip_ws cur)
     | TYPE_ARRAY \<Rightarrow> json_parse_array a n (jset j0 c b hs l) (skip_ws cur)
     | TYPE_STRING \<Rightarrow> json_parse_string a (jset j0 c b hs l) (skip_ws cur)
     | TYPE_FALSE \<Rightarrow> Cont (jset j0 c b hs (l + 5)) (drop 5 (skip_ws cur))
     | TYPE_NULL \<Rightarrow> Cont (jset j0 c b hs (l + 4)) (drop 4 (skip_ws cur))
     | TYPE_TRUE \<Rightarrow> Cont (jset j0 c b hs (l + 4)) (drop 4 (skip_ws cur))
     | TYPE_NUMBER \<Rightarrow> json_parse_number a (jset j0 c b hs l) (skip_ws cur)
     | _ \<Rightarrow> Out (jset j0 c b hs l))"
  by (simp add: json_parse_step_def jset_pop jset_pop_upd Let_def split: json_type.split)

section \<open>Reading values\<close>

definition reads :: "json \<Rightarrow> jv \<Rightarrow> string \<Rightarrow> bool" where
  "reads j0 v s \<longleftrightarrow> (\<forall>c b hs l a rest.
     c a = Some (jfresh (jtype v)) \<longrightarrow> a < b \<longrightarrow> (\<forall>x\<ge>b. c x = None) \<longrightarrow>
     jcontainer v \<or> is_token_delim (peek rest) \<longrightarrow>
     (\<exists>c' hi n'.
        json_parse_loop (jset j0 c b (a # hs) l) (s @ rest) =
          json_parse_loop (jset j0 c' hi hs (l + int (length (jprint v)))) rest \<and>
        (\<forall>x<b. x \<noteq> a \<longrightarrow> c' x = c x) \<and> (\<forall>x\<ge>hi. c' x = None) \<and>
        c' a = Some n' \<and> bt_right n' = None \<and> jtree c' b hi a v))"

text \<open>Reading the elements \<open>vs\<close> of array \<open>a\<close>, of which \<open>vs0\<close> have been read into the nodes \<open>qs\<close>
  and a fresh node \<open>q\<close> for the next is on the stack, up to the closing bracket.\<close>

definition reads_elems :: "json \<Rightarrow> jv list \<Rightarrow> string \<Rightarrow> bool" where
  "reads_elems j0 vs e \<longleftrightarrow> (\<forall>c b hs l a n qs q lo vs0 rest.
     c a = Some n \<longrightarrow> bt_data n = jdata TYPE_ARRAY \<longrightarrow> bt_right n = None \<longrightarrow>
     rchain c (bt_left n) (qs @ [q]) \<longrightarrow> jelems c lo q qs vs0 \<longrightarrow>
     c q = Some (jfresh (jtype (hd vs))) \<longrightarrow> a < lo \<longrightarrow> q < b \<longrightarrow> (\<forall>x\<ge>b. c x = None) \<longrightarrow>
     (\<exists>c' hi n'.
        json_parse_loop (jset j0 c b (q # a # hs) l) (e @ '']'' @ rest) =
          json_parse_loop (jset j0 c' hi hs (l + int (length (jcommas (map jprint vs))) + 1)) rest \<and>
        (\<forall>x<lo. x \<noteq> a \<longrightarrow> c' x = c x) \<and> (\<forall>x\<ge>hi. c' x = None) \<and>
        c' a = Some n' \<and> bt_right n' = None \<and> jtree c' lo hi a (JArr (vs0 @ vs))))"

text \<open>Reading the members \<open>ms\<close> of object \<open>a\<close>, of which \<open>ms0\<close> have been read into the pairs \<open>ps\<close>.\<close>

definition reads_members :: "json \<Rightarrow> (string \<times> jv) list \<Rightarrow> string \<Rightarrow> bool" where
  "reads_members j0 ms m \<longleftrightarrow> (\<forall>c b hs l a n ps p lo ms0 w rest.
     c a = Some n \<longrightarrow> bt_data n = jdata TYPE_OBJECT \<longrightarrow> bt_right n = None \<longrightarrow>
     rchain c (bt_left n) (ps @ [p]) \<longrightarrow> jmembers c lo p ps ms0 \<longrightarrow>
     c p = Some (jfresh TYPE_NVPAIR) \<longrightarrow> a < lo \<longrightarrow> p < b \<longrightarrow> (\<forall>x\<ge>b. c x = None) \<longrightarrow> wsp w \<longrightarrow>
     (\<exists>c' hi n'.
        json_parse_loop (jset j0 c b (p # a # hs) l) (w @ m @ ''}'' @ rest) =
          json_parse_loop (jset j0 c' hi hs (l + int (length (jcommas (map jmember ms))) + 1)) rest \<and>
        (\<forall>x<lo. x \<noteq> a \<longrightarrow> c' x = c x) \<and> (\<forall>x\<ge>hi. c' x = None) \<and>
        c' a = Some n' \<and> bt_right n' = None \<and> jtree c' lo hi a (JObj (ms0 @ ms))))"

lemma reads_literal:
  assumes "v = JFalse \<or> v = JNull \<or> v = JTrue" "s = jprint v"
  shows "reads j0 v s"
  unfolding reads_def
proof (intro allI impI)
  fix c b hs l a rest
  assume a: "c a = Some (jfresh (jtype v))" "a < (b::nat)" "\<forall>x\<ge>b. c x = None"
    "jcontainer v \<or> is_token_delim (peek rest)"
  have "json_parse_loop (jset j0 c b (a # hs) l) (s @ rest) =
      json_parse_loop (jset j0 c b hs (l + int (length (jprint v)))) rest"
    by (rule loop_step) (use assms a(1) in \<open>auto simp: NUL_def parse_step_jset is_ws_def\<close>)
  moreover have "jtree c b b a v"
    using a assms(1) by (intro tLit [of c a "jfresh (jtype v)"]) (auto simp: jdata_def)
  ultimately show "\<exists>c' hi n'. json_parse_loop (jset j0 c b (a # hs) l) (s @ rest) =
      json_parse_loop (jset j0 c' hi hs (l + int (length (jprint v)))) rest \<and>
    (\<forall>x<b. x \<noteq> a \<longrightarrow> c' x = c x) \<and> (\<forall>x\<ge>hi. c' x = None) \<and>
    c' a = Some n' \<and> bt_right n' = None \<and> jtree c' b hi a v"
    using a by (intro exI [of _ c] exI [of _ b] exI [of _ "jfresh (jtype v)"]) simp
qed

text \<open>A scalar with an element string.\<close>

lemma reads_scalar:
  assumes v: "v = JNum t \<and> t \<noteq> [] \<or> v = JStr t"
    and step: "\<And>c b hs l a rest. c a = Some (jfresh (jtype v)) \<Longrightarrow> is_token_delim (peek rest) \<Longrightarrow>
      json_parse_step (jset j0 c b (a # hs) l) (s @ rest) =
        Cont (jset j0 (c(a \<mapsto> (jfresh (jtype v))\<lparr>bt_data := (jdata (jtype v))\<lparr>jv_element := Some t\<rparr>\<rparr>))
           (Suc b) hs (l + int (length (jprint v)))) rest"
    and s: "\<And>rest. peek (s @ rest) \<noteq> NUL"
  shows "reads j0 v s"
  unfolding reads_def
proof (intro allI impI)
  fix c b hs l a rest
  assume a: "c a = Some (jfresh (jtype v))" "a < (b::nat)" "\<forall>x\<ge>b. c x = None"
    "jcontainer v \<or> is_token_delim (peek rest)"
  let ?n = "(jfresh (jtype v))\<lparr>bt_data := (jdata (jtype v))\<lparr>jv_element := Some t\<rparr>\<rparr>"
  let ?c = "c(a \<mapsto> ?n)"
  have d: "is_token_delim (peek rest)" using a(4) v by auto
  have "json_parse_loop (jset j0 c b (a # hs) l) (s @ rest) =
      json_parse_loop (jset j0 ?c (Suc b) hs (l + int (length (jprint v)))) rest"
    by (rule loop_step [OF s step [where a = a and c = c and rest = rest, OF a(1) d]])
  moreover have "jtree ?c b (Suc b) a v"
    using v
  proof
    assume "v = JNum t \<and> t \<noteq> []"
    then show ?thesis using tNum [of ?c a ?n t b "Suc b"] by (simp add: jdata_def)
  next
    assume "v = JStr t"
    then show ?thesis using tStr [of ?c a ?n t b "Suc b"] by (simp add: jdata_def)
  qed
  ultimately show "\<exists>c' hi n'. json_parse_loop (jset j0 c b (a # hs) l) (s @ rest) =
      json_parse_loop (jset j0 c' hi hs (l + int (length (jprint v)))) rest \<and>
    (\<forall>x<b. x \<noteq> a \<longrightarrow> c' x = c x) \<and> (\<forall>x\<ge>hi. c' x = None) \<and>
    c' a = Some n' \<and> bt_right n' = None \<and> jtree c' b hi a v"
    using a by (intro exI [of _ ?c] exI [of _ "Suc b"] exI [of _ ?n]) simp
qed

lemma reads_number: "plenty j0 \<Longrightarrow> number_text s \<Longrightarrow> reads j0 (JNum s) s"
proof (rule reads_scalar [where t = s])
  assume p: "plenty j0" and n: "number_text s"
  obtain x y where h: "s = x # y" "x = CHR ''-'' \<or> is_digit x" using number_text_head [OF n] .
  show "peek (s @ rest) \<noteq> NUL" for rest using h is_digit_other(8) by auto
  fix c b hs l rest and a :: nat
  assume "c a = Some (jfresh (jtype (JNum s)))" "is_token_delim (peek rest)"
  moreover have "skip_ws (s @ rest) = s @ rest" using h is_digit_other(9) by simp
  ultimately show "json_parse_step (jset j0 c b (a # hs) l) (s @ rest) =
        Cont (jset j0 (c(a \<mapsto> (jfresh (jtype (JNum s)))\<lparr>bt_data := (jdata (jtype (JNum s)))
           \<lparr>jv_element := Some s\<rparr>\<rparr>)) (Suc b) hs (l + int (length (jprint (JNum s))))) rest"
    using p n by (simp add: parse_step_jset json_parse_number_def get_number_text)
qed (auto elim: number_text_head)

lemma reads_string: "plenty j0 \<Longrightarrow> string_text s \<Longrightarrow> reads j0 (JStr s) (jquote s)"
proof (rule reads_scalar [where t = s])
  assume p: "plenty j0" and n: "string_text s"
  show "peek (jquote s @ rest) \<noteq> NUL" for rest by (simp add: jquote_def NUL_def)
  fix c b hs l rest and a :: nat
  assume "c a = Some (jfresh (jtype (JStr s)))" "is_token_delim (peek rest)"
  moreover have "skip_ws (jquote s @ rest) = jquote s @ rest" by (simp add: jquote_def)
  ultimately show "json_parse_step (jset j0 c b (a # hs) l) (jquote s @ rest) =
        Cont (jset j0 (c(a \<mapsto> (jfresh (jtype (JStr s)))\<lparr>bt_data := (jdata (jtype (JStr s)))
           \<lparr>jv_element := Some s\<rparr>\<rparr>)) (Suc b) hs (l + int (length (jprint (JStr s))))) rest"
    using p n strchr_append [of "CHR 0x22" s rest]
    by (simp add: parse_step_jset json_parse_string_def jquote_def string_text_def algebra_simps)
qed simp

lemma reads_empty:
  assumes p: "plenty j0" and v: "v = JArr [] \<and> s = ''['' @ w @ '']'' \<or> v = JObj [] \<and> s = ''{'' @ w @ ''}''"
    and w: "wsp w"
  shows "reads j0 v s"
  unfolding reads_def
proof (intro allI impI)
  fix c b hs l a rest
  assume a: "c a = Some (jfresh (jtype v))" "a < (b::nat)" "\<forall>x\<ge>b. c x = None"
    "jcontainer v \<or> is_token_delim (peek rest)"
  let ?n = "(jfresh (jtype v))\<lparr>bt_left := Some (Suc b)\<rparr>"
  let ?c = "c(Suc b \<mapsto> jfresh TYPE_EMPTYSET, a \<mapsto> ?n)"
  have "json_parse_loop (jset j0 c b (a # hs) l) (s @ rest) =
      json_parse_loop (jset j0 ?c (Suc (Suc b)) hs (l + int (length (jprint v)))) rest"
    by (rule loop_step)
      (use v a p w new_left_first [of j0 c a "jfresh (jtype v)" "Suc b"] in
        \<open>auto simp: NUL_def parse_step_jset json_parse_array_def json_parse_object_def jset_value_new
          algebra_simps simp del: fun_upd_apply\<close>)
  moreover have "jtree ?c b (Suc (Suc b)) a v"
    by (rule tEmpty [of ?c a ?n v "Suc b"]) (use v a in \<open>auto simp: jdata_def jfresh_def\<close>)
  ultimately show "\<exists>c' hi n'. json_parse_loop (jset j0 c b (a # hs) l) (s @ rest) =
      json_parse_loop (jset j0 c' hi hs (l + int (length (jprint v)))) rest \<and>
    (\<forall>x<b. x \<noteq> a \<longrightarrow> c' x = c x) \<and> (\<forall>x\<ge>hi. c' x = None) \<and>
    c' a = Some n' \<and> bt_right n' = None \<and> jtree c' b hi a v"
    using a by (intro exI [of _ ?c] exI [of _ "Suc (Suc b)"] exI [of _ ?n]) simp
qed

lemma reads_array:
  assumes p: "plenty j0" and w: "wsp w" and e: "etext vs e" and r: "reads_elems j0 vs e"
  shows "reads j0 (JArr vs) (''['' @ w @ e @ '']'')"
  unfolding reads_def
proof (intro allI impI)
  fix c b hs l a rest
  assume a: "c a = Some (jfresh (jtype (JArr vs)))" "a < (b::nat)" "\<forall>x\<ge>b. c x = None"
  let ?n = "(jfresh TYPE_ARRAY)\<lparr>bt_left := Some (Suc b)\<rparr>"
  let ?c = "c(Suc b \<mapsto> jfresh (jtype (hd vs)), a \<mapsto> ?n)"
  let ?j = "jset j0 ?c (Suc (Suc (Suc (Suc b)))) (Suc b # a # hs) (l + 1)"
  note k = etext_kind [OF e, of "'']'' @ rest"]
  have "json_parse_loop (jset j0 c b (a # hs) l) ((''['' @ w @ e @ '']'') @ rest) =
      json_parse_loop ?j (e @ '']'' @ rest)"
    by (rule loop_step)
      (use a p w k new_left_first [of j0 c a "jfresh (jtype (JArr vs))" "Suc b"] in
        \<open>auto simp: NUL_def parse_step_jset json_parse_array_def jset_value_create
          simp del: fun_upd_apply\<close>)
  moreover have "rchain ?c (bt_left ?n) ([] @ [Suc b])" using a by simp
  ultimately obtain c' hi n' where
    "json_parse_loop (jset j0 c b (a # hs) l) ((''['' @ w @ e @ '']'') @ rest) =
      json_parse_loop (jset j0 c' hi hs (l + 1 + int (length (jcommas (map jprint vs))) + 1)) rest"
    "\<forall>x<b. x \<noteq> a \<longrightarrow> c' x = ?c x" "\<forall>x\<ge>hi. c' x = None" "c' a = Some n'" "bt_right n' = None"
    "jtree c' b hi a (JArr ([] @ vs))"
    using r [unfolded reads_elems_def, rule_format, of ?c a ?n "[]" "Suc b" b "[]"
        "Suc (Suc (Suc (Suc b)))" hs "l + 1" rest] a by auto
  moreover from this have "\<forall>x<b. x \<noteq> a \<longrightarrow> c' x = c x" by auto
  ultimately show "\<exists>c' hi n'. json_parse_loop (jset j0 c b (a # hs) l) ((''['' @ w @ e @ '']'') @ rest) =
      json_parse_loop (jset j0 c' hi hs (l + int (length (jprint (JArr vs))))) rest \<and>
    (\<forall>x<b. x \<noteq> a \<longrightarrow> c' x = c x) \<and> (\<forall>x\<ge>hi. c' x = None) \<and>
    c' a = Some n' \<and> bt_right n' = None \<and> jtree c' b hi a (JArr vs)"
    by (intro exI [of _ c'] exI [of _ hi] exI [of _ n']) (simp add: algebra_simps)
qed

text \<open>What the reader knows of an array after it has read the last element so far.\<close>

lemma elem_done:
  assumes "c a = Some n" "rchain c (bt_left n) (qs @ [q])" "jelems c lo q qs vs0"
    and "c q = Some (jfresh t)" "a < lo" "q < b"
    and f: "\<forall>x<b. x \<noteq> q \<longrightarrow> c1 x = c x" and q: "c1 q = Some m" "bt_right m = None"
    and v: "jtree c1 b hi q v"
  shows "c1 a = Some n" "rchain c1 (bt_left n) (qs @ [q])" "jelems c1 lo hi (qs @ [q]) (vs0 @ [v])"
    "a \<notin> set (qs @ [q])" "\<forall>x\<in>set (qs @ [q]). lo \<le> x \<and> x < hi" "distinct (qs @ [q])"
proof -
  note b0 = jbounds(2) [OF assms(3)] and b1 = jbounds(1) [OF v]
  show "c1 a = Some n" using assms b0 by auto
  show "rchain c1 (bt_left n) (qs @ [q])"
    by (rule rchain_right_cong [OF assms(2)]) (use assms b0 in auto)
  have e: "jelems c1 lo q qs vs0"
    by (rule jtree_frame(2) [OF assms(3)])
      (use f b0 assms(6) rchain_cells [OF assms(2)] in \<open>force intro!: same_core_eq\<close>)+
  show j: "jelems c1 lo hi (qs @ [q]) (vs0 @ [v])"
    by (rule jelems_append [OF e]) (use v assms(6) in auto)
  show "a \<notin> set (qs @ [q])" "\<forall>x\<in>set (qs @ [q]). lo \<le> x \<and> x < hi" "distinct (qs @ [q])"
    using jbounds(2) [OF j] assms(5) by auto
qed

lemma reads_elems_last:
  assumes v: "reads j0 v s" and w: "wsp w"
  shows "reads_elems j0 [v] (s @ w)"
  unfolding reads_elems_def
proof (intro allI impI)
  fix c b hs l a n qs q lo vs0 rest
  assume a: "c a = Some n" "bt_data n = jdata TYPE_ARRAY" "bt_right n = None"
    "rchain c (bt_left n) (qs @ [q])" "jelems c lo q qs vs0" "c q = Some (jfresh (jtype (hd [v])))"
    "a < lo" "q < b" "\<forall>x\<ge>b. c x = None"
  have d: "is_token_delim (peek (w @ '']'' @ rest))" using w by (simp add: delim_wsp)
  obtain c1 hi m where r:
    "json_parse_loop (jset j0 c b (q # a # hs) l) (s @ w @ '']'' @ rest) =
      json_parse_loop (jset j0 c1 hi (a # hs) (l + int (length (jprint v)))) (w @ '']'' @ rest)"
    "\<forall>x<b. x \<noteq> q \<longrightarrow> c1 x = c x" "\<forall>x\<ge>hi. c1 x = None" "c1 q = Some m" "bt_right m = None"
    "jtree c1 b hi q v"
    using v [unfolded reads_def, rule_format, of c q b "w @ '']'' @ rest" "a # hs" l] a d by auto
  note dn = elem_done [OF a(1,4,5,6,7,8) r(2,4,5,6)]
  have ln: "bt_left n \<noteq> None" using dn(2) by (cases qs) auto
  have "json_parse_loop (jset j0 c1 hi (a # hs) (l + int (length (jprint v)))) (w @ '']'' @ rest) =
      json_parse_loop (jset j0 c1 hi hs (l + int (length (jprint v)) + 1)) rest"
    by (rule loop_step)
      (use dn(1) a(2,3) w ln d in \<open>auto simp: parse_step_jset json_parse_array_def delim_not\<close>)
  moreover have "jtree c1 lo hi a (JArr (vs0 @ [v]))"
    using dn a(2) by (intro tArr [of c1 a n "qs @ [q]"]) (auto simp: jdata_def)
  moreover have "\<forall>x<lo. c1 x = c x" using r(2) jbounds(2) [OF a(5)] a(8) by auto
  ultimately show "\<exists>c' hi n'. json_parse_loop (jset j0 c b (q # a # hs) l) ((s @ w) @ '']'' @ rest) =
      json_parse_loop (jset j0 c' hi hs (l + int (length (jcommas (map jprint [v]))) + 1)) rest \<and>
      (\<forall>x<lo. x \<noteq> a \<longrightarrow> c' x = c x) \<and> (\<forall>x\<ge>hi. c' x = None) \<and>
      c' a = Some n' \<and> bt_right n' = None \<and> jtree c' lo hi a (JArr (vs0 @ [v]))"
    using r dn a by (intro exI [of _ c1] exI [of _ hi] exI [of _ n]) simp
qed

lemma reads_elems_more:
  assumes p: "plenty j0" and v: "reads j0 v s" and w: "wsp w" "wsp w'" and e: "etext vs e"
    and vs: "reads_elems j0 vs e"
  shows "reads_elems j0 (v # vs) (s @ w @ '','' @ w' @ e)"
  unfolding reads_elems_def
proof (intro allI impI)
  fix c b hs l a n qs q lo vs0 rest
  assume a: "c a = Some n" "bt_data n = jdata TYPE_ARRAY" "bt_right n = None"
    "rchain c (bt_left n) (qs @ [q])" "jelems c lo q qs vs0" "c q = Some (jfresh (jtype (hd (v # vs))))"
    "a < lo" "q < b" "\<forall>x\<ge>b. c x = None"
  let ?t = "w @ '','' @ w' @ e @ '']'' @ rest"
  have d: "is_token_delim (peek ?t)" using w by (simp add: delim_wsp)
  obtain c1 b1 m where r:
    "json_parse_loop (jset j0 c b (q # a # hs) l) (s @ ?t) =
      json_parse_loop (jset j0 c1 b1 (a # hs) (l + int (length (jprint v)))) ?t"
    "\<forall>x<b. x \<noteq> q \<longrightarrow> c1 x = c x" "\<forall>x\<ge>b1. c1 x = None" "c1 q = Some m" "bt_right m = None"
    "jtree c1 b b1 q v"
    using v [unfolded reads_def, rule_format, of c q b ?t "a # hs" l] a d by auto
  note dn = elem_done [OF a(1,4,5,6,7,8) r(2,4,5,6)]
  have ln: "bt_left n \<noteq> None" using dn(2) by (cases qs) auto
  let ?q = "Suc b1"
  let ?c = "c1(?q \<mapsto> jfresh (jtype (hd vs)), q \<mapsto> m\<lparr>bt_right := Some ?q\<rparr>)"
  let ?b = "Suc (Suc (Suc (Suc b1)))" and ?l = "l + int (length (jprint v)) + 1"
  have ab: "a < b1" "q < b1" "a \<noteq> q" using dn(1,4,5) r(3) by auto (metis not_le option.distinct(1))
  have nq: "?q \<notin> set (qs @ [q])" "a \<noteq> ?q" using dn(5) ab by auto
  note k = etext_kind [OF e, of "'']'' @ rest"]
  have nat: "json_value_is_native_value (jdata (jtype (hd vs)))"
    by (cases "hd vs") (auto simp: json_value_is_native_value_def)
  have "json_parse_loop (jset j0 c1 b1 (a # hs) (l + int (length (jprint v)))) ?t =
      json_parse_loop (jset j0 ?c ?b (?q # a # hs) ?l) (e @ '']'' @ rest)"
    by (rule loop_step)
      (use dn(1) a(2,3) w ln d k p nat append_left_last [OF dn(1,2) r(4) nq(2,1)] in
        \<open>auto simp: parse_step_jset json_parse_array_def delim_not jset_value_create jset_node_new
          simp del: fun_upd_apply\<close>)
  moreover have "rchain ?c (bt_left n) ((qs @ [q]) @ [?q])"
  proof -
    have "rchain (c1(?q \<mapsto> jfresh (jtype (hd vs)))) (bt_left n) (qs @ [q])"
      using rchain_frame nq(1) dn(2) by fastforce
    from rchain_snoc [OF this dn(6), of m "Some ?q" "[?q]"] show ?thesis
      using r(4) nq by simp
  qed
  moreover have "jelems ?c lo ?q (qs @ [q]) (vs0 @ [v])"
  proof -
    have "jelems c1 lo ?q (qs @ [q]) (vs0 @ [v])"
      using jelems_append [OF dn(3), of ?q "[]" "[]"] by simp
    then show ?thesis
      by (rule jtree_frame(2)) (use dn(5) r(4) nq rchain_cells [OF dn(2)] in
          \<open>auto intro: same_core_eq\<close>)
  qed
  moreover have "?c a = Some n" using dn(1) ab nq by simp
  moreover have "?c ?q = Some (jfresh (jtype (hd vs)))" using nq by simp
  moreover have "\<forall>x\<ge>?b. ?c x = None" using r(3) ab by auto
  ultimately obtain c' hi n' where
    "json_parse_loop (jset j0 c b (q # a # hs) l) (s @ ?t) =
      json_parse_loop (jset j0 c' hi hs (?l + int (length (jcommas (map jprint vs))) + 1)) rest"
    "\<forall>x<lo. x \<noteq> a \<longrightarrow> c' x = ?c x" "\<forall>x\<ge>hi. c' x = None" "c' a = Some n'" "bt_right n' = None"
    "jtree c' lo hi a (JArr ((vs0 @ [v]) @ vs))"
    using vs [unfolded reads_elems_def, rule_format, of ?c a n "qs @ [q]" ?q lo "vs0 @ [v]" ?b hs ?l rest]
      a(2,3,7) r(1) by (simp del: fun_upd_apply) blast
  moreover have "\<forall>x<lo. ?c x = c x"
    using r(2) jbounds(2) [OF a(5)] a(8) ab dn(5) by auto
  moreover have "jcommas (map jprint (v # vs)) = jprint v @ '','' @ jcommas (map jprint vs)"
    using etext_head [OF e] by (cases vs) auto
  ultimately show "\<exists>c' hi n'.
      json_parse_loop (jset j0 c b (q # a # hs) l) ((s @ w @ '','' @ w' @ e) @ '']'' @ rest) =
      json_parse_loop (jset j0 c' hi hs (l + int (length (jcommas (map jprint (v # vs)))) + 1)) rest \<and>
      (\<forall>x<lo. x \<noteq> a \<longrightarrow> c' x = c x) \<and> (\<forall>x\<ge>hi. c' x = None) \<and>
      c' a = Some n' \<and> bt_right n' = None \<and> jtree c' lo hi a (JArr (vs0 @ v # vs))"
    by (intro exI [of _ c'] exI [of _ hi] exI [of _ n']) (simp add: algebra_simps del: fun_upd_apply)
qed

section \<open>Reading members\<close>

lemma member_read:
  assumes p: "plenty j0" and w: "wsp w" "wsp w1" "wsp w2" and k: "string_text k"
    and v: "reads j0 v s" "vtext v s" and t: "is_token_delim (peek t)"
    and c: "c p = Some (jfresh TYPE_NVPAIR)" "p < b" "\<forall>x\<ge>b. c x = None"
  shows "\<exists>c1 b1 n1.
    json_parse_loop (jset j0 c b (p # hs) l) (w @ jquote k @ w1 @ '':'' @ w2 @ s @ t) =
      json_parse_loop (jset j0 c1 b1 (p # hs) (l + int (length (jmember (k, v))))) t \<and>
    (\<forall>x<b. x \<noteq> p \<longrightarrow> c1 x = c x) \<and> (\<forall>x\<ge>b1. c1 x = None) \<and> c1 p = Some n1 \<and>
    bt_right n1 = None \<and> jv_type (bt_data n1) = TYPE_NVPAIR \<and> bt_left n1 \<noteq> None \<and>
    jmembers c1 p b1 [p] [(k, v)]"
proof -
  let ?n = "(jfresh TYPE_NVPAIR)\<lparr>bt_data := (jdata TYPE_NVPAIR)\<lparr>jv_element := Some k\<rparr>\<rparr>"
  let ?q = "Suc (Suc b)" and ?b = "Suc (Suc (Suc (Suc (Suc b))))"
  let ?cp = "c(p \<mapsto> ?n)"
  let ?c = "?cp(?q \<mapsto> jfresh (jtype v), p \<mapsto> ?n\<lparr>bt_left := Some ?q\<rparr>)"
  let ?l = "l + int (length k) + 3"
  have sws: "\<not> is_ws (peek (s @ t))" using vtext_head [OF v(2)] by auto
  have kind: "json_value_kind (s @ t) = Some (jtype v)" using kind_of_text [OF v(2)] t by blast
  have nw: "peek (w @ jquote k @ w1 @ '':'' @ w2 @ s @ t) \<noteq> NUL"
    using w(1) by (cases w) (auto simp: jquote_def NUL_def is_ws_def)
  have skip: "skip_ws (w @ jquote k @ w1 @ '':'' @ w2 @ s @ t) =
      CHR 0x22 # k @ CHR 0x22 # w1 @ '':'' @ w2 @ s @ t"
    using w(1) by (simp add: jquote_def)
  have "json_parse_loop (jset j0 c b (p # hs) l) (w @ jquote k @ w1 @ '':'' @ w2 @ s @ t) =
      json_parse_loop (jset j0 ?c ?b (?q # p # hs) ?l) (s @ t)"
  proof (rule loop_step [OF nw])
    have "json_parse_nvpair p (jfresh TYPE_NVPAIR) (jset j0 c b hs l)
        (CHR 0x22 # k @ CHR 0x22 # w1 @ '':'' @ w2 @ s @ t) =
      Cont (jset j0 ?c ?b (?q # p # hs) ?l) (s @ t)"
      using p c k w sws kind strchr_append [of "CHR 0x22" k "w1 @ '':'' @ w2 @ s @ t"]
        new_left_first [of j0 ?cp p ?n "Suc (Suc b)"]
      by (simp add: json_parse_nvpair_def string_text_def jset_value_create algebra_simps
          fun_upd_same del: fun_upd_apply)
    then show "json_parse_step (jset j0 c b (p # hs) l) (w @ jquote k @ w1 @ '':'' @ w2 @ s @ t) =
        Cont (jset j0 ?c ?b (?q # p # hs) ?l) (s @ t)"
      unfolding parse_step_jset [of c p, OF c(1)] skip by simp
  qed
  moreover obtain c1 b1 m where r:
    "json_parse_loop (jset j0 ?c ?b (?q # p # hs) ?l) (s @ t) =
      json_parse_loop (jset j0 c1 b1 (p # hs) (?l + int (length (jprint v)))) t"
    "\<forall>x<?b. x \<noteq> ?q \<longrightarrow> c1 x = ?c x" "\<forall>x\<ge>b1. c1 x = None" "c1 ?q = Some m" "bt_right m = None"
    "jtree c1 ?b b1 ?q v"
    using v(1) [unfolded reads_def, rule_format, of ?c ?q ?b t "p # hs" ?l] c t by auto
  moreover have p1: "c1 p = Some (?n\<lparr>bt_left := Some ?q\<rparr>)" using r(2) c(2) by simp
  moreover have "jmembers c1 p b1 [p] [(k, v)]"
    by (rule tmCons [of p p ?q ?b c1 "?n\<lparr>bt_left := Some ?q\<rparr>" k m b1])
      (use p1 r(4-6) c(2) in \<open>auto simp: jdata_def\<close>)
  moreover have "\<forall>x<b. x \<noteq> p \<longrightarrow> c1 x = c x" using r(2) by auto
  ultimately show ?thesis
    by (intro exI [of _ c1] exI [of _ b1] exI [of _ "?n\<lparr>bt_left := Some ?q\<rparr>"])
      (simp add: jquote_def algebra_simps del: fun_upd_apply)
qed

lemma member_done:
  assumes "c a = Some n" "rchain c (bt_left n) (ps @ [p])" "jmembers c lo p ps ms0"
    and "c p = Some (jfresh t)" "a < lo" "p < b"
    and f: "\<forall>x<b. x \<noteq> p \<longrightarrow> c1 x = c x" and q: "c1 p = Some m" "bt_right m = None"
    and v: "jmembers c1 p hi [p] [kv]"
  shows "c1 a = Some n" "rchain c1 (bt_left n) (ps @ [p])" "jmembers c1 lo hi (ps @ [p]) (ms0 @ [kv])"
    "a \<notin> set (ps @ [p])" "\<forall>x\<in>set (ps @ [p]). lo \<le> x \<and> x < hi" "distinct (ps @ [p])"
proof -
  note b0 = jbounds(3) [OF assms(3)]
  show "c1 a = Some n" using assms b0 by auto
  show "rchain c1 (bt_left n) (ps @ [p])"
    by (rule rchain_right_cong [OF assms(2)]) (use assms(4,6-9) b0 in auto)
  have e: "jmembers c1 lo p ps ms0"
    by (rule jtree_frame(3) [OF assms(3)])
      (use f b0 assms(6) rchain_cells [OF assms(2)] in \<open>force intro!: same_core_eq\<close>)+
  show j: "jmembers c1 lo hi (ps @ [p]) (ms0 @ [kv])" by (rule jmembers_append [OF e v])
  show "a \<notin> set (ps @ [p])" "\<forall>x\<in>set (ps @ [p]). lo \<le> x \<and> x < hi" "distinct (ps @ [p])"
    using jbounds(3) [OF j] assms(5) by auto
qed

lemma reads_members_last:
  assumes p: "plenty j0" and w: "wsp w1" "wsp w2" "wsp w3" and k: "string_text k"
    and v: "reads j0 v s" "vtext v s"
  shows "reads_members j0 [(k, v)] (jquote k @ w1 @ '':'' @ w2 @ s @ w3)"
  unfolding reads_members_def
proof (intro allI impI)
  fix c b hs l a n ps p lo ms0 w rest
  assume a: "c a = Some n" "bt_data n = jdata TYPE_OBJECT" "bt_right n = None"
    "rchain c (bt_left n) (ps @ [p])" "jmembers c lo p ps ms0" "c p = Some (jfresh TYPE_NVPAIR)"
    "a < lo" "p < b" "\<forall>x\<ge>b. c x = None" "wsp w"
  let ?t = "w3 @ ''}'' @ rest"
  have d: "is_token_delim (peek ?t)" using w by (simp add: delim_wsp)
  let ?l = "l + int (length (jmember (k, v)))"
  obtain c1 hi m where r:
    "json_parse_loop (jset j0 c b (p # a # hs) l) (w @ jquote k @ w1 @ '':'' @ w2 @ s @ ?t) =
      json_parse_loop (jset j0 c1 hi (p # a # hs) ?l) ?t"
    "\<forall>x<b. x \<noteq> p \<longrightarrow> c1 x = c x" "\<forall>x\<ge>hi. c1 x = None" "c1 p = Some m" "bt_right m = None"
    "jv_type (bt_data m) = TYPE_NVPAIR" "bt_left m \<noteq> None" "jmembers c1 p hi [p] [(k, v)]"
    using member_read [OF assms(1) a(10) w(1,2) k v d a(6,8,9), of "a # hs" l] by blast
  note dn = member_done [OF a(1,4,5,6,7,8) r(2,4,5,8)]
  have ln: "bt_left n \<noteq> None" using dn(2) by (cases ps) auto
  have "json_parse_loop (jset j0 c1 hi (p # a # hs) ?l) ?t =
      json_parse_loop (jset j0 c1 hi (a # hs) ?l) (''}'' @ rest)"
    by (rule loop_step) (use r w d in \<open>auto simp: parse_step_jset json_parse_nvpair_def delim_not\<close>)
  also have "\<dots> = json_parse_loop (jset j0 c1 hi hs (?l + 1)) rest"
    by (rule loop_step)
      (use dn(1) a(2,3) ln in \<open>auto simp: parse_step_jset json_parse_object_def NUL_def\<close>)
  finally have "json_parse_loop (jset j0 c1 hi (p # a # hs) ?l) ?t =
      json_parse_loop (jset j0 c1 hi hs (?l + 1)) rest" .
  moreover have "jtree c1 lo hi a (JObj (ms0 @ [(k, v)]))"
    using dn a(2) by (intro tObj [of c1 a n "ps @ [p]"]) (auto simp: jdata_def)
  moreover have "\<forall>x<lo. c1 x = c x" using r(2) jbounds(3) [OF a(5)] a(8) by auto
  ultimately show "\<exists>c' hi n'.
      json_parse_loop (jset j0 c b (p # a # hs) l)
        (w @ (jquote k @ w1 @ '':'' @ w2 @ s @ w3) @ ''}'' @ rest) =
      json_parse_loop (jset j0 c' hi hs (l + int (length (jcommas (map jmember [(k, v)]))) + 1)) rest \<and>
      (\<forall>x<lo. x \<noteq> a \<longrightarrow> c' x = c x) \<and> (\<forall>x\<ge>hi. c' x = None) \<and>
      c' a = Some n' \<and> bt_right n' = None \<and> jtree c' lo hi a (JObj (ms0 @ [(k, v)]))"
    using r dn a by (intro exI [of _ c1] exI [of _ hi] exI [of _ n]) simp
qed

lemma reads_members_more:
  assumes pl: "plenty j0" and w: "wsp w1" "wsp w2" "wsp w3" "wsp w4" and k: "string_text k"
    and v: "reads j0 v s" "vtext v s" and m: "mtext ms m" and ms: "reads_members j0 ms m"
  shows "reads_members j0 ((k, v) # ms) (jquote k @ w1 @ '':'' @ w2 @ s @ w3 @ '','' @ w4 @ m)"
  unfolding reads_members_def
proof (intro allI impI)
  fix c b hs l a n ps p lo ms0 w rest
  assume a: "c a = Some n" "bt_data n = jdata TYPE_OBJECT" "bt_right n = None"
    "rchain c (bt_left n) (ps @ [p])" "jmembers c lo p ps ms0" "c p = Some (jfresh TYPE_NVPAIR)"
    "a < lo" "p < b" "\<forall>x\<ge>b. c x = None" "wsp w"
  let ?t = "w3 @ '','' @ w4 @ m @ ''}'' @ rest"
  have d: "is_token_delim (peek ?t)" using w by (simp add: delim_wsp)
  let ?l = "l + int (length (jmember (k, v)))"
  obtain c1 b1 pn where r:
    "json_parse_loop (jset j0 c b (p # a # hs) l) (w @ jquote k @ w1 @ '':'' @ w2 @ s @ ?t) =
      json_parse_loop (jset j0 c1 b1 (p # a # hs) ?l) ?t"
    "\<forall>x<b. x \<noteq> p \<longrightarrow> c1 x = c x" "\<forall>x\<ge>b1. c1 x = None" "c1 p = Some pn" "bt_right pn = None"
    "jv_type (bt_data pn) = TYPE_NVPAIR" "bt_left pn \<noteq> None" "jmembers c1 p b1 [p] [(k, v)]"
    using member_read [OF pl a(10) w(1,2) k v d a(6,8,9), of "a # hs" l] by blast
  note dn = member_done [OF a(1,4,5,6,7,8) r(2,4,5,8)]
  let ?p = "Suc b1"
  let ?c = "c1(?p \<mapsto> jfresh TYPE_NVPAIR, p \<mapsto> pn\<lparr>bt_right := Some ?p\<rparr>)"
  let ?b = "Suc (Suc (Suc b1))"
  have ab: "a < b1" "p < b1" "a \<noteq> p" using dn(1,4,5) r(3) by auto (metis not_le option.distinct(1))
  have nq: "?p \<notin> set (ps @ [p])" "a \<noteq> ?p" using dn(5) ab by auto
  have ap: "local_binary_tree_node_append_right (Some p) (Some ?p)
      (jheap j0 (c1(?p \<mapsto> jfresh TYPE_NVPAIR)) (Suc ?p)) =
    Some (EZCFG_RET_OK, jheap j0 ?c (Suc ?p))"
    using append_right_single [of "jheap j0 (c1(?p \<mapsto> jfresh TYPE_NVPAIR)) (Suc ?p)" p pn "Some ?p"]
      r(4,5) ab by simp
  have "json_parse_loop (jset j0 c1 b1 (p # a # hs) ?l) ?t =
      json_parse_loop (jset j0 ?c ?b (?p # a # hs) (?l + 1)) (w4 @ m @ ''}'' @ rest)"
    by (rule loop_step)
      (use r w d pl ap in \<open>auto simp: parse_step_jset json_parse_nvpair_def delim_not jset_value_new
          jset_node_new simp del: fun_upd_apply\<close>)
  moreover have "rchain ?c (bt_left n) ((ps @ [p]) @ [?p])"
  proof -
    have "rchain (c1(?p \<mapsto> jfresh TYPE_NVPAIR)) (bt_left n) (ps @ [p])"
      using rchain_frame nq(1) dn(2) by fastforce
    from rchain_snoc [OF this dn(6), of pn "Some ?p" "[?p]"] show ?thesis
      using r(4) nq by simp
  qed
  moreover have "jmembers ?c lo ?p (ps @ [p]) (ms0 @ [(k, v)])"
  proof -
    have "jmembers c1 lo ?p (ps @ [p]) (ms0 @ [(k, v)])"
      using jmembers_append [OF dn(3), of ?p "[]" "[]"] by simp
    then show ?thesis
      by (rule jtree_frame(3)) (use dn(5) r(4) nq rchain_cells [OF dn(2)] in
          \<open>auto intro: same_core_eq\<close>)
  qed
  moreover have "?c a = Some n" using dn(1) ab nq by simp
  moreover have "?c ?p = Some (jfresh TYPE_NVPAIR)" using nq by simp
  moreover have "\<forall>x\<ge>?b. ?c x = None" using r(3) ab by auto
  ultimately obtain c' hi n' where
    "json_parse_loop (jset j0 c b (p # a # hs) l) (w @ jquote k @ w1 @ '':'' @ w2 @ s @ ?t) =
      json_parse_loop (jset j0 c' hi hs (?l + 1 + int (length (jcommas (map jmember ms))) + 1)) rest"
    "\<forall>x<lo. x \<noteq> a \<longrightarrow> c' x = ?c x" "\<forall>x\<ge>hi. c' x = None" "c' a = Some n'" "bt_right n' = None"
    "jtree c' lo hi a (JObj ((ms0 @ [(k, v)]) @ ms))"
    using ms [unfolded reads_members_def, rule_format, of ?c a n "ps @ [p]" ?p lo "ms0 @ [(k, v)]" ?b
        w4 hs "?l + 1" rest]
      a(2,3,7) r(1) w by (simp del: fun_upd_apply) blast
  moreover have "\<forall>x<lo. ?c x = c x"
    using r(2) jbounds(3) [OF a(5)] a(8) ab dn(5) by auto
  moreover have "jcommas (map jmember ((k, v) # ms)) = jmember (k, v) @ '','' @ jcommas (map jmember ms)"
    using mtext_head [OF m] by (cases ms) auto
  ultimately show "\<exists>c' hi n'.
      json_parse_loop (jset j0 c b (p # a # hs) l)
        (w @ (jquote k @ w1 @ '':'' @ w2 @ s @ w3 @ '','' @ w4 @ m) @ ''}'' @ rest) =
      json_parse_loop (jset j0 c' hi hs (l + int (length (jcommas (map jmember ((k, v) # ms)))) + 1)) rest \<and>
      (\<forall>x<lo. x \<noteq> a \<longrightarrow> c' x = c x) \<and> (\<forall>x\<ge>hi. c' x = None) \<and>
      c' a = Some n' \<and> bt_right n' = None \<and> jtree c' lo hi a (JObj (ms0 @ (k, v) # ms))"
    by (intro exI [of _ c'] exI [of _ hi] exI [of _ n']) (simp add: algebra_simps del: fun_upd_apply)
qed

lemma reads_object:
  assumes p: "plenty j0" and w: "wsp w" and e: "mtext ms m" and r: "reads_members j0 ms m"
  shows "reads j0 (JObj ms) (''{'' @ w @ m @ ''}'')"
  unfolding reads_def
proof (intro allI impI)
  fix c b hs l a rest
  assume a: "c a = Some (jfresh (jtype (JObj ms)))" "a < (b::nat)" "\<forall>x\<ge>b. c x = None"
  let ?n = "(jfresh TYPE_OBJECT)\<lparr>bt_left := Some (Suc b)\<rparr>"
  let ?c = "c(Suc b \<mapsto> jfresh TYPE_NVPAIR, a \<mapsto> ?n)"
  let ?j = "jset j0 ?c (Suc (Suc (Suc (Suc b)))) (Suc b # a # hs) (l + 1)"
  note k = mtext_head [OF e, of "''}'' @ rest"]
  have "json_parse_loop (jset j0 c b (a # hs) l) ((''{'' @ w @ m @ ''}'') @ rest) =
      json_parse_loop ?j ([] @ m @ ''}'' @ rest)"
    by (rule loop_step)
      (use a p w k new_left_first [of j0 c a "jfresh (jtype (JObj ms))" "Suc b"] in
        \<open>auto simp: NUL_def parse_step_jset json_parse_object_def jset_value_new
          simp del: fun_upd_apply\<close>)
  moreover have "rchain ?c (bt_left ?n) ([] @ [Suc b])" using a by simp
  ultimately obtain c' hi n' where
    "json_parse_loop (jset j0 c b (a # hs) l) ((''{'' @ w @ m @ ''}'') @ rest) =
      json_parse_loop (jset j0 c' hi hs (l + 1 + int (length (jcommas (map jmember ms))) + 1)) rest"
    "\<forall>x<b. x \<noteq> a \<longrightarrow> c' x = ?c x" "\<forall>x\<ge>hi. c' x = None" "c' a = Some n'" "bt_right n' = None"
    "jtree c' b hi a (JObj ([] @ ms))"
    using r [unfolded reads_members_def, rule_format, of ?c a ?n "[]" "Suc b" b "[]"
        "Suc (Suc (Suc (Suc b)))" "[]" hs "l + 1" rest] a by auto
  moreover from this have "\<forall>x<b. x \<noteq> a \<longrightarrow> c' x = c x" by auto
  ultimately show "\<exists>c' hi n'. json_parse_loop (jset j0 c b (a # hs) l) ((''{'' @ w @ m @ ''}'') @ rest) =
      json_parse_loop (jset j0 c' hi hs (l + int (length (jprint (JObj ms))))) rest \<and>
    (\<forall>x<b. x \<noteq> a \<longrightarrow> c' x = c x) \<and> (\<forall>x\<ge>hi. c' x = None) \<and>
    c' a = Some n' \<and> bt_right n' = None \<and> jtree c' b hi a (JObj ms)"
    by (intro exI [of _ c'] exI [of _ hi] exI [of _ n']) (simp add: algebra_simps)
qed

section \<open>The reader reads every text of the grammar\<close>

theorem reads_vtext:
  assumes "plenty j0"
  shows "vtext v s \<Longrightarrow> reads j0 v s" "etext vs e \<Longrightarrow> reads_elems j0 vs e"
    "mtext ms m \<Longrightarrow> reads_members j0 ms m"
proof (induction rule: vtext_etext_mtext.inducts)
  case (vObj0 w)
  show ?case by (rule reads_empty [OF assms]) (use vObj0 in auto)
next
  case (vArr0 w)
  show ?case by (rule reads_empty [OF assms]) (use vArr0 in auto)
next
  case vFalse
  show ?case by (rule reads_literal) simp_all
next
  case vNull
  show ?case by (rule reads_literal) simp_all
next
  case vTrue
  show ?case by (rule reads_literal) simp_all
next
  case (vNum s)
  then show ?case using assms by (simp add: reads_number)
next
  case (vStr s)
  then show ?case using assms by (simp add: reads_string)
next
  case (vArr w vs e)
  then show ?case using assms by (blast intro: reads_array)
next
  case (vObj w ms m)
  then show ?case using assms by (blast intro: reads_object)
next
  case (e1 v s w)
  then show ?case using assms by (blast intro: reads_elems_last)
next
  case (eC v s w w' vs e)
  then show ?case using assms by (blast intro: reads_elems_more)
next
  case (m1 k w1 w2 v s w3)
  then show ?case using assms by (blast intro: reads_members_last)
next
  case (mC k w1 w2 v s w3 w4 ms m)
  then show ?case using assms by (blast intro: reads_members_more)
qed

end
