(* ===== verification/Json_Write.thy ===== *)
theory Json_Write
  imports Json_Parse
begin

text \<open>
  Correctness of the JSON writer, and the round trip of reader and writer.  On a tree that
  represents a value the writer emits its compact text, restores every \<open>visited\<close> flag and
  never writes outside the buffer.
\<close>

section \<open>One iteration of the writer\<close>

lemma jset_set_visited [simp]:
  "json_set_visited np n v (jset j0 c b hs l) =
     jset j0 (c(np \<mapsto> n\<lparr>bt_data := (bt_data n)\<lparr>jv_visited := v\<rparr>\<rparr>)) b hs l"
  by (simp add: json_set_visited_def jset_def)

lemma write_loop_step:
  assumes "int (length out) < l" "json_write_step len (jset j0 c b (a # hs) l) out = Cont j' out'"
  shows "json_write_loop len (jset j0 c b (a # hs) l) out = json_write_loop len j' out'"
  using assms by (simp add: json_write_loop.simps [of len "jset j0 c b (a # hs) l" out])

lemma write_step_jset:
  "c a = Some n \<Longrightarrow> json_write_step len (jset j0 c b (a # hs) l) out =
    (case jv_type (bt_data n) of
       TYPE_OBJECT \<Rightarrow> json_write_object len a n (jset j0 c b hs l) out
     | TYPE_NVPAIR \<Rightarrow> json_write_nvpair len a n (jset j0 c b hs l) out
     | TYPE_ARRAY \<Rightarrow> json_write_array len a n (jset j0 c b hs l) out
     | TYPE_EMPTYSET \<Rightarrow> json_write_emptyset n (jset j0 c b hs l) out
     | TYPE_STRING \<Rightarrow> json_write_string len n (jset j0 c b hs l) out
     | TYPE_FALSE \<Rightarrow> json_write_literal ''false'' len n (jset j0 c b hs l) out
     | TYPE_NULL \<Rightarrow> json_write_literal ''null'' len n (jset j0 c b hs l) out
     | TYPE_TRUE \<Rightarrow> json_write_literal ''true'' len n (jset j0 c b hs l) out
     | TYPE_NUMBER \<Rightarrow> json_write_number len n (jset j0 c b hs l) out
     | TYPE_UNKNOWN \<Rightarrow> Out (jset j0 c b hs l))"
  by (simp add: json_write_step_def jset_pop jset_pop_upd Let_def split: json_type.split)

definition after :: "ptr \<Rightarrow> string" where
  "after r = (case r of None \<Rightarrow> [] | Some _ \<Rightarrow> '','')"

definition next_stack :: "ptr \<Rightarrow> nat list \<Rightarrow> nat list" where
  "next_stack r hs = (case r of None \<Rightarrow> hs | Some a \<Rightarrow> a # hs)"

lemma after_simps [simp]: "after None = []" "after (Some a) = '',''"
  and next_stack_simps [simp]: "next_stack None hs = hs" "next_stack (Some a) hs = a # hs"
  by (simp_all add: after_def next_stack_def)

lemma write_next_jset:
  "plenty j0 \<Longrightarrow> length out + length (after r) \<le> len \<Longrightarrow>
    \<exists>b'. json_write_next len r (jset j0 c b hs l) out = Cont (jset j0 c b' (next_stack r hs) l) (out @ after r)"
  by (cases r) (auto simp: json_write_next_def json_put_def)

section \<open>Writing a value\<close>

definition writes :: "json \<Rightarrow> nat \<Rightarrow> jv \<Rightarrow> bool" where
  "writes j0 len v \<longleftrightarrow> (\<forall>c lo hi a n b hs l out.
     jtree c lo hi a v \<longrightarrow> a < lo \<longrightarrow> c a = Some n \<longrightarrow>
     int (length out + length (jprint v) + length (after (bt_right n))) \<le> l \<longrightarrow> l < int len \<longrightarrow>
     (\<exists>b'. json_write_loop len (jset j0 c b (a # hs) l) out =
        json_write_loop len (jset j0 c b' (next_stack (bt_right n) hs) l)
          (out @ jprint v @ after (bt_right n))))"

lemma writesD:
  "writes j0 len v \<Longrightarrow> jtree c lo hi a v \<Longrightarrow> a < lo \<Longrightarrow> c a = Some n \<Longrightarrow>
    int (length out + length (jprint v) + length (after (bt_right n))) \<le> l \<Longrightarrow> l < int len \<Longrightarrow>
    \<exists>b'. json_write_loop len (jset j0 c b (a # hs) l) out =
        json_write_loop len (jset j0 c b' (next_stack (bt_right n) hs) l)
          (out @ jprint v @ after (bt_right n))"
  unfolding writes_def by blast

text \<open>The scalars write themselves in one iteration.\<close>

lemma writes_scalar:
  assumes p: "plenty j0" and v: "\<not> jcontainer v"
  shows "writes j0 len v"
  unfolding writes_def
proof (intro allI impI)
  fix c lo hi a n b hs l and out :: string
  assume t: "jtree c lo hi a v" "c a = Some n"
    and s: "int (length out + length (jprint v) + length (after (bt_right n))) \<le> l" "l < int len"
  have sz: "length (out @ jprint v) + length (after (bt_right n)) \<le> len"
    "length out + length (jprint v) < len" using s by simp_all
  obtain b' where nx: "json_write_next len (bt_right n) (jset j0 c b hs l) (out @ jprint v) =
      Cont (jset j0 c b' (next_stack (bt_right n) hs) l) ((out @ jprint v) @ after (bt_right n))"
    using write_next_jset [OF p sz(1)] by blast
  have "json_write_step len (jset j0 c b (a # hs) l) out =
      Cont (jset j0 c b' (next_stack (bt_right n) hs) l) (out @ jprint v @ after (bt_right n))
    \<and> 0 < length (jprint v)"
    using t(1)
    by (cases rule: jtree.cases)
      (use t(2) v nx sz in \<open>auto simp: write_step_jset json_write_literal_def json_write_number_def
        json_write_string_def json_put_element_def json_put_def json_strcpy_def jquote_def\<close>)
  moreover from this have "int (length out) < l" using s by linarith
  ultimately show "\<exists>b'. json_write_loop len (jset j0 c b (a # hs) l) out =
      json_write_loop len (jset j0 c b' (next_stack (bt_right n) hs) l)
        (out @ jprint v @ after (bt_right n))"
    using write_loop_step by blast
qed

lemma visited_back:
  "jv_visited (bt_data n) = 0 \<Longrightarrow>
    n\<lparr>bt_data := (bt_data n)\<lparr>jv_visited := 0\<rparr>\<rparr> = n"
  by (cases n) (simp add: json_value.equality)

section \<open>Elements and members\<close>

lemma write_elems:
  assumes p: "\<forall>v\<in>set vs. writes j0 len v" and l: "l < int len"
  shows "jelems c lo hi qs vs \<Longrightarrow> rchain c (Some q) qs \<Longrightarrow>
    int (length out + length (jcommas (map jprint vs))) \<le> l \<Longrightarrow>
    \<exists>b'. json_write_loop len (jset j0 c b (q # hs) l) out =
      json_write_loop len (jset j0 c b' hs l) (out @ jcommas (map jprint vs))"
  using p
proof (induction qs arbitrary: lo vs q out b)
  case Nil
  then show ?case by simp
next
  case (Cons q' qs)
  from Cons.prems(1) obtain v vs' lo' mid where v: "vs = v # vs'" "lo \<le> q'" "q' < lo'"
    "jtree c lo' mid q' v" "jelems c mid hi qs vs'" by auto
  from Cons.prems(2) obtain n where n: "q' = q" "c q = Some n" "rchain c (bt_right n) qs"
    by (auto split: option.splits)
  have len: "length qs = length vs'" using jbounds(2) [OF v(5)] by simp
  have com: "jcommas (map jprint vs) = jprint v @ after (bt_right n) @ jcommas (map jprint vs')"
    using n(3) len v(1) by (cases qs; cases vs') auto
  have "writes j0 len v" using Cons.prems(4) v(1) by simp
  from writesD [OF this, of c lo' mid q n out l] v n Cons.prems(3) com l obtain b1 where
    w: "json_write_loop len (jset j0 c b (q # hs) l) out =
      json_write_loop len (jset j0 c b1 (next_stack (bt_right n) hs) l)
        (out @ jprint v @ after (bt_right n))" by auto
  show ?case
  proof (cases "bt_right n")
    case None
    then have "qs = []" using n(3) by (cases qs) auto
    then show ?thesis using w None len v(1) by auto
  next
    case (Some r)
    have "\<exists>b'. json_write_loop len (jset j0 c b1 (r # hs) l) (out @ jprint v @ '','') =
      json_write_loop len (jset j0 c b' hs l) ((out @ jprint v @ '','') @ jcommas (map jprint vs'))"
      by (rule Cons.IH [OF v(5)]) (use n Some Cons.prems(3,4) com v(1) in auto)
    then show ?thesis using w Some com by simp
  qed
qed

text \<open>One member: the pair, its value, and the second visit of the pair.\<close>

lemma write_member:
  assumes pl: "plenty j0" and v: "writes j0 len v" and l: "l < int len"
    and c: "c p = Some n" "bt_data n = \<lparr>jv_type = TYPE_NVPAIR, jv_element = Some k, jv_visited = 0\<rparr>"
      "bt_left n = Some q" "c q = Some m" "bt_right m = None" "jtree c lo mid q v" "p < q" "q < lo"
    and s: "int (length out + length (jmember (k, v)) + length (after (bt_right n))) < l"
  shows "\<exists>b'. json_write_loop len (jset j0 c b (p # hs) l) out =
    json_write_loop len (jset j0 c b' (next_stack (bt_right n) hs) l)
      (out @ jmember (k, v) @ after (bt_right n))"
proof -
  let ?n = "n\<lparr>bt_data := (bt_data n)\<lparr>jv_visited := 1\<rparr>\<rparr>"
  let ?c = "c(p \<mapsto> ?n)" and ?out = "out @ jquote k @ '':''"
  have s1: "json_write_loop len (jset j0 c b (p # hs) l) out =
      json_write_loop len (jset j0 ?c (Suc (Suc b)) (q # p # hs) l) ?out"
    by (rule write_loop_step)
      (use pl l s c(1-3) in \<open>auto simp: write_step_jset json_write_nvpair_def json_put_def
        json_put_element_def jquote_def\<close>)
  have t: "jtree ?c lo mid q v"
    by (rule jtree_frame(1) [OF c(6)]) (use c(4,7,8) in \<open>auto intro: same_core_refl\<close>)
  obtain b1 where s2: "json_write_loop len (jset j0 ?c (Suc (Suc b)) (q # p # hs) l) ?out =
      json_write_loop len (jset j0 ?c b1 (p # hs) l) (?out @ jprint v)"
    using writesD [OF v t c(8), of m ?out l "Suc (Suc b)" "p # hs"] c s l by auto
  have restored: "?c(p \<mapsto> ?n\<lparr>bt_data := (bt_data ?n)\<lparr>jv_visited := 0\<rparr>\<rparr>) = c"
    using c(1) visited_back [of n] c(2) by (auto simp: fun_eq_iff)
  have sz: "length (?out @ jprint v) + length (after (bt_right n)) \<le> len" using s l by simp
  obtain b2 where s3: "json_write_next len (bt_right n) (jset j0 c b1 hs l) (?out @ jprint v) =
      Cont (jset j0 c b2 (next_stack (bt_right n) hs) l) ((?out @ jprint v) @ after (bt_right n))"
    using write_next_jset [OF pl sz] by blast
  have "json_write_loop len (jset j0 ?c b1 (p # hs) l) (?out @ jprint v) =
      json_write_loop len (jset j0 c b2 (next_stack (bt_right n) hs) l)
        ((?out @ jprint v) @ after (bt_right n))"
  proof (rule write_loop_step)
    show "int (length (?out @ jprint v)) < l" using s by simp
    have "json_write_nvpair len p ?n (jset j0 ?c b1 hs l) (?out @ jprint v) =
        json_write_next len (bt_right n) (jset j0 c b1 hs l) (?out @ jprint v)"
      unfolding json_write_nvpair_def jset_set_visited restored by simp
    with s3 show "json_write_step len (jset j0 ?c b1 (p # hs) l) (?out @ jprint v) =
        Cont (jset j0 c b2 (next_stack (bt_right n) hs) l) ((?out @ jprint v) @ after (bt_right n))"
      using c(2) by (subst write_step_jset [of ?c p ?n]) simp_all
  qed
  with s1 s2 show ?thesis by auto
qed

lemma write_members:
  assumes pl: "plenty j0" and p: "\<forall>kv\<in>set ms. writes j0 len (snd kv)" and l: "l < int len"
  shows "jmembers c lo hi ps ms \<Longrightarrow> rchain c (Some p) ps \<Longrightarrow>
    int (length out + length (jcommas (map jmember ms))) < l \<Longrightarrow>
    \<exists>b'. json_write_loop len (jset j0 c b (p # hs) l) out =
      json_write_loop len (jset j0 c b' hs l) (out @ jcommas (map jmember ms))"
  using p
proof (induction ps arbitrary: lo ms p out b)
  case Nil
  then show ?case by simp
next
  case (Cons p' ps)
  from Cons.prems(1) obtain q lo' n k m mid v ms' where v: "ms = (k, v) # ms'"
    "lo \<le> p'" "p' < q" "q < lo'" "c p' = Some n"
    "bt_data n = \<lparr>jv_type = TYPE_NVPAIR, jv_element = Some k, jv_visited = 0\<rparr>"
    "bt_left n = Some q" "c q = Some m" "bt_right m = None" "jtree c lo' mid q v"
    "jmembers c mid hi ps ms'" by auto
  from Cons.prems(2) v(5) have n: "p' = p" "rchain c (bt_right n) ps"
    by (auto split: option.splits)
  have len: "length ps = length ms'" using jbounds(3) [OF v(11)] by simp
  have com: "jcommas (map jmember ms) = jmember (k, v) @ after (bt_right n) @ jcommas (map jmember ms')"
    using n(2) len v(1) by (cases ps; cases ms') auto
  have "writes j0 len v" using Cons.prems(4) v(1) by simp
  from write_member [OF pl this l v(5-10) v(3,4), of out b hs] n Cons.prems(3) com obtain b1 where
    w: "json_write_loop len (jset j0 c b (p # hs) l) out =
      json_write_loop len (jset j0 c b1 (next_stack (bt_right n) hs) l)
        (out @ jmember (k, v) @ after (bt_right n))" by auto
  show ?case
  proof (cases "bt_right n")
    case None
    then have "ps = []" using n(2) by (cases ps) auto
    then show ?thesis using w None len v(1) by auto
  next
    case (Some r)
    have "\<exists>b'. json_write_loop len (jset j0 c b1 (r # hs) l) (out @ jmember (k, v) @ '','') =
      json_write_loop len (jset j0 c b' hs l)
        ((out @ jmember (k, v) @ '','') @ jcommas (map jmember ms'))"
      by (rule Cons.IH [OF v(11)]) (use n Some Cons.prems(3,4) com v(1) in auto)
    then show ?thesis using w Some com by simp
  qed
qed

section \<open>Containers\<close>

lemma write_group:
  assumes pl: "plenty j0" and l: "l < int len"
    and T: "T = TYPE_ARRAY \<and> opn = ''['' \<and> cls = '']'' \<or> T = TYPE_OBJECT \<and> opn = ''{'' \<and> cls = ''}''"
    and c: "c a = Some n" "bt_data n = \<lparr>jv_type = T, jv_element = None, jv_visited = 0\<rparr>"
      "bt_left n = Some f"
    and s: "int (length out + length body + 2 + length (after (bt_right n))) \<le> l"
    and body: "\<And>b. \<exists>b'. json_write_loop len
        (jset j0 (c(a \<mapsto> n\<lparr>bt_data := (bt_data n)\<lparr>jv_visited := 1\<rparr>\<rparr>)) b (f # a # hs) l) (out @ opn) =
      json_write_loop len
        (jset j0 (c(a \<mapsto> n\<lparr>bt_data := (bt_data n)\<lparr>jv_visited := 1\<rparr>\<rparr>)) b' (a # hs) l)
        ((out @ opn) @ body)"
  shows "\<exists>b'. json_write_loop len (jset j0 c b (a # hs) l) out =
    json_write_loop len (jset j0 c b' (next_stack (bt_right n) hs) l)
      (out @ (opn @ body @ cls) @ after (bt_right n))"
proof -
  let ?n = "n\<lparr>bt_data := (bt_data n)\<lparr>jv_visited := 1\<rparr>\<rparr>"
  let ?c = "c(a \<mapsto> ?n)" and ?out = "(out @ opn) @ body"
  have s1: "json_write_loop len (jset j0 c b (a # hs) l) out =
      json_write_loop len (jset j0 ?c (Suc (Suc b)) (f # a # hs) l) (out @ opn)"
    by (rule write_loop_step)
      (use pl l s c T in \<open>auto simp: write_step_jset json_write_object_def json_write_array_def
        json_write_group_def json_put_def\<close>)
  obtain b1 where s2: "json_write_loop len (jset j0 ?c (Suc (Suc b)) (f # a # hs) l) (out @ opn) =
      json_write_loop len (jset j0 ?c b1 (a # hs) l) ?out" using body by blast
  have restored: "?c(a \<mapsto> ?n\<lparr>bt_data := (bt_data ?n)\<lparr>jv_visited := 0\<rparr>\<rparr>) = c"
    using c(1) visited_back [of n] c(2) by (auto simp: fun_eq_iff)
  have sz: "length (?out @ cls) + length (after (bt_right n)) \<le> len" using s l T by auto
  obtain b2 where s3: "json_write_next len (bt_right n) (jset j0 c b1 hs l) (?out @ cls) =
      Cont (jset j0 c b2 (next_stack (bt_right n) hs) l) ((?out @ cls) @ after (bt_right n))"
    using write_next_jset [OF pl sz] by blast
  have "json_write_loop len (jset j0 ?c b1 (a # hs) l) ?out =
      json_write_loop len (jset j0 c b2 (next_stack (bt_right n) hs) l)
        ((?out @ cls) @ after (bt_right n))"
  proof (rule write_loop_step)
    show "int (length ?out) < l" using s T by auto
    have "json_write_group opn cls len a ?n (jset j0 ?c b1 hs l) ?out =
        json_write_next len (bt_right n) (jset j0 c b1 hs l) (?out @ cls)"
      unfolding json_write_group_def jset_set_visited restored using sz by (simp add: json_put_def)
    with s3 show "json_write_step len (jset j0 ?c b1 (a # hs) l) ?out =
        Cont (jset j0 c b2 (next_stack (bt_right n) hs) l) ((?out @ cls) @ after (bt_right n))"
      using c(2) T
      by (subst write_step_jset [of ?c a ?n]) (auto simp: json_write_object_def json_write_array_def)
  qed
  with s1 s2 show ?thesis by auto
qed

text \<open>The body of an empty container is the \<open>EMPTYSET\<close> node, which writes nothing.\<close>

lemma write_emptyset:
  assumes "c e = Some (jfresh TYPE_EMPTYSET)" "int (length out) < l"
  shows "json_write_loop len (jset j0 c b (e # hs) l) out = json_write_loop len (jset j0 c b hs l) out"
  by (rule write_loop_step) (use assms in \<open>auto simp: write_step_jset json_write_emptyset_def\<close>)

lemma writes_array:
  assumes pl: "plenty j0" and v: "\<forall>v\<in>set vs. writes j0 len v"
  shows "writes j0 len (JArr vs)"
  unfolding writes_def
proof (intro allI impI)
  fix c lo hi a n b hs l and out :: string
  assume t: "jtree c lo hi a (JArr vs)" "a < lo" "c a = Some n"
    and s: "int (length out + length (jprint (JArr vs)) + length (after (bt_right n))) \<le> l"
    and l: "l < int len"
  let ?n = "n\<lparr>bt_data := (bt_data n)\<lparr>jv_visited := 1\<rparr>\<rparr>" and ?body = "jcommas (map jprint vs)"
  let ?c = "c(a \<mapsto> ?n)"
  from t(1) obtain f where f: "bt_data n = \<lparr>jv_type = TYPE_ARRAY, jv_element = None, jv_visited = 0\<rparr>"
      "bt_left n = Some f"
    and body: "\<And>b. \<exists>b'. json_write_loop len (jset j0 ?c b (f # a # hs) l) (out @ ''['') =
      json_write_loop len (jset j0 ?c b' (a # hs) l) ((out @ ''['') @ ?body)"
  proof (cases rule: jtree.cases)
    case (tEmpty n' e)
    have "json_write_loop len (jset j0 ?c b (e # a # hs) l) (out @ ''['') =
        json_write_loop len (jset j0 ?c b (a # hs) l) (out @ ''['')" for b
      by (rule write_emptyset) (use tEmpty t s in \<open>auto simp: jfresh_def jdata_def\<close>)
    then show ?thesis using that [of e] tEmpty t(3) by auto
  next
    case (tArr n' qs)
    then obtain f qs' where q: "qs = f # qs'" using jbounds(2) [OF tArr(4)] by (cases qs) auto
    have fr: "\<forall>x. lo \<le> x \<longrightarrow> ?c x = c x" using t(2) by auto
    note b = jbounds(2) [OF tArr(4)]
    have na: "a \<notin> set qs" using b t(2) by auto
    have e: "jelems ?c lo hi qs vs"
      by (rule jtree_frame(2) [OF tArr(4)])
        (use na fr b rchain_cells [OF tArr(3)] in \<open>auto intro!: same_core_eq\<close>)
    have r: "rchain ?c (Some f) qs"
      by (rule rchain_cong [of c]) (use tArr(3) q na in auto)
    have "\<exists>b'. json_write_loop len (jset j0 ?c b (f # a # hs) l) (out @ ''['') =
        json_write_loop len (jset j0 ?c b' (a # hs) l) ((out @ ''['') @ ?body)" for b
      by (rule write_elems [OF v l e r]) (use s in simp)
    then show ?thesis using that [of f] tArr t(3) q by auto
  qed (auto simp: t(3))
  have "\<exists>b'. json_write_loop len (jset j0 c b (a # hs) l) out =
    json_write_loop len (jset j0 c b' (next_stack (bt_right n) hs) l)
      (out @ (''['' @ ?body @ '']'') @ after (bt_right n))"
    by (rule write_group [OF pl l _ t(3) f _ body]) (use s in auto)
  then show "\<exists>b'. json_write_loop len (jset j0 c b (a # hs) l) out =
    json_write_loop len (jset j0 c b' (next_stack (bt_right n) hs) l)
      (out @ jprint (JArr vs) @ after (bt_right n))" by simp
qed

lemma writes_object:
  assumes pl: "plenty j0" and v: "\<forall>kv\<in>set ms. writes j0 len (snd kv)"
  shows "writes j0 len (JObj ms)"
  unfolding writes_def
proof (intro allI impI)
  fix c lo hi a n b hs l and out :: string
  assume t: "jtree c lo hi a (JObj ms)" "a < lo" "c a = Some n"
    and s: "int (length out + length (jprint (JObj ms)) + length (after (bt_right n))) \<le> l"
    and l: "l < int len"
  let ?n = "n\<lparr>bt_data := (bt_data n)\<lparr>jv_visited := 1\<rparr>\<rparr>" and ?body = "jcommas (map jmember ms)"
  let ?c = "c(a \<mapsto> ?n)"
  from t(1) obtain f where f: "bt_data n = \<lparr>jv_type = TYPE_OBJECT, jv_element = None, jv_visited = 0\<rparr>"
      "bt_left n = Some f"
    and body: "\<And>b. \<exists>b'. json_write_loop len (jset j0 ?c b (f # a # hs) l) (out @ ''{'') =
      json_write_loop len (jset j0 ?c b' (a # hs) l) ((out @ ''{'') @ ?body)"
  proof (cases rule: jtree.cases)
    case (tEmpty n' e)
    have "json_write_loop len (jset j0 ?c b (e # a # hs) l) (out @ ''{'') =
        json_write_loop len (jset j0 ?c b (a # hs) l) (out @ ''{'')" for b
      by (rule write_emptyset) (use tEmpty t s in \<open>auto simp: jfresh_def jdata_def\<close>)
    then show ?thesis using that [of e] tEmpty t(3) by auto
  next
    case (tObj n' ps)
    then obtain f ps' where q: "ps = f # ps'" using jbounds(3) [OF tObj(4)] by (cases ps) auto
    have fr: "\<forall>x. lo \<le> x \<longrightarrow> ?c x = c x" using t(2) by auto
    note b = jbounds(3) [OF tObj(4)]
    have na: "a \<notin> set ps" using b t(2) by auto
    have e: "jmembers ?c lo hi ps ms"
      by (rule jtree_frame(3) [OF tObj(4)])
        (use na fr b rchain_cells [OF tObj(3)] in \<open>auto intro!: same_core_eq\<close>)
    have r: "rchain ?c (Some f) ps"
      by (rule rchain_cong [of c]) (use tObj(3) q na in auto)
    have "\<exists>b'. json_write_loop len (jset j0 ?c b (f # a # hs) l) (out @ ''{'') =
        json_write_loop len (jset j0 ?c b' (a # hs) l) ((out @ ''{'') @ ?body)" for b
      by (rule write_members [OF pl v l e r]) (use s in simp)
    then show ?thesis using that [of f] tObj t(3) q by auto
  qed (auto simp: t(3))
  have "\<exists>b'. json_write_loop len (jset j0 c b (a # hs) l) out =
    json_write_loop len (jset j0 c b' (next_stack (bt_right n) hs) l)
      (out @ (''{'' @ ?body @ ''}'') @ after (bt_right n))"
    by (rule write_group [OF pl l _ t(3) f _ body]) (use s in auto)
  then show "\<exists>b'. json_write_loop len (jset j0 c b (a # hs) l) out =
    json_write_loop len (jset j0 c b' (next_stack (bt_right n) hs) l)
      (out @ jprint (JObj ms) @ after (bt_right n))" by simp
qed

lemma writes_value:
  assumes "plenty j0"
  shows "writes j0 len v"
proof (induction v)
  case (JArr vs)
  then show ?case using assms by (simp add: writes_array)
next
  case (JObj ms)
  then show ?case using assms by (intro writes_object) (auto simp: snds.simps)
qed (use assms in \<open>simp_all add: writes_scalar\<close>)

section \<open>The round trip\<close>

text \<open>A parser object as \<^verbatim>\<open>local_json_new\<close> or \<^verbatim>\<open>local_json_reset\<close> leaves it.\<close>

definition json_ready :: "json \<Rightarrow> bool" where
  "json_ready j \<longleftrightarrow> heap_ok (js_heap j) \<and> sl_length (js_stack j) = 0 \<and> sl_head (js_stack j) = [] \<and>
     js_msg_len j = 0"

text \<open>A parser object that holds the value \<open>v\<close>.\<close>

definition json_holds :: "json \<Rightarrow> jv \<Rightarrow> bool" where
  "json_holds j v \<longleftrightarrow> (\<exists>j0 c a n lo hi b.
     plenty j0 \<and> j = jset j0 c b [] (int (length (jprint v))) \<and> tr_root (js_text j0) = Some a \<and>
     a < lo \<and> c a = Some n \<and> bt_right n = None \<and> jtree c lo hi a v \<and> jcontainer v)"

lemma jheap_tick: "plenty j \<Longrightarrow> htick (jheap j c b) = (True, jheap j c (Suc b))"
  by (simp add: htick_def jheap_def plenty_def)

lemma parse_holds:
  assumes v: "vtext v s" "jcontainer v" and w: "wsp w1" "wsp w2" and j: "json_ready j" "plenty j"
  shows "\<exists>j'. local_json_parse_text j (w1 @ s @ w2) = Some (EZCFG_RET_OK, j') \<and> json_holds j' v"
proof -
  let ?c = "cells (js_heap j)" and ?b = "brk (js_heap j)"
  let ?np = "Suc ?b" and ?b3 = "Suc (Suc (Suc ?b))"
  let ?j0 = "j\<lparr>js_text := \<lparr>tr_root = Some ?np, tr_del = True\<rparr>\<rparr>"
  let ?c1 = "?c(?np \<mapsto> jfresh (jtype v))"
  have st: "j = jset j ?c ?b [] 0"
    using j(1) by (cases j, cases "js_heap j", cases "js_stack j")
      (simp add: jset_def jheap_def json_ready_def)
  obtain x y where h: "s = x # y" "\<not> is_ws x" using vtext_head [OF v(1)] by auto
  have skip: "skip_ws (w1 @ s @ w2) = s @ w2" using w(1) h by simp
  have hd: "peek (s @ w2) = CHR ''{'' \<or> peek (s @ w2) = CHR ''[''"
    using v by (cases rule: vtext.cases) auto
  have k: "json_value_kind (s @ w2) = Some (jtype v)" using kind_of_text [OF v(1)] v(2) by blast
  have create: "local_json_value_create (s @ w2) (js_heap j) = (Some (jdata (jtype v)), jheap j ?c (Suc ?b))"
    using jset_value_create [OF j(2) k, of ?c ?b "[]" 0] st by simp
  have init: "j\<lparr>js_heap := jheap j ?c1 ?b3, js_text := (js_text j)\<lparr>tr_del := True, tr_root := Some ?np\<rparr>,
      js_stack := (js_stack j)\<lparr>sl_head := [?np], sl_length := 1\<rparr>\<rparr> = jset ?j0 ?c1 ?b3 [?np] 0"
    using j(1) by (cases j, cases "js_stack j", cases "js_text j")
      (simp add: jset_def jheap_def json_ready_def)
  have run: "local_json_parse_text j (w1 @ s @ w2) =
      json_parse_finish (json_parse_loop (jset ?j0 ?c1 ?b3 [?np] 0) (s @ w2))"
    using hd j(1) init
    by (auto simp: local_json_parse_text_def skip create jset_node_new [OF j(2)] jheap_tick [OF j(2)]
        local_binary_tree_set_data_delete_handler_def local_binary_tree_set_root_def
        local_stack_list_push_def json_ready_def Let_def)
  have pl: "plenty ?j0" using j(2) by (simp add: plenty_def)
  have fresh: "\<forall>x\<ge>?b3. ?c1 x = None" using j(1) by (auto simp: json_ready_def heap_ok_def)
  obtain c' hi n' where r:
    "json_parse_loop (jset ?j0 ?c1 ?b3 [?np] 0) (s @ w2) =
      json_parse_loop (jset ?j0 c' hi [] (0 + int (length (jprint v)))) w2"
    "c' ?np = Some n'" "bt_right n' = None" "jtree c' ?b3 hi ?np v"
    using reads_vtext(1) [OF pl v(1), unfolded reads_def, rule_format, of ?c1 ?np ?b3 w2 "[]" 0]
      fresh v(2) by auto
  have "json_parse_loop (jset ?j0 c' hi [] (0 + int (length (jprint v)))) w2 =
      Some (Some w2, jset ?j0 c' hi [] (int (length (jprint v))))"
    by (simp add: json_parse_loop.simps [of _ w2])
  then have "local_json_parse_text j (w1 @ s @ w2) =
      Some (EZCFG_RET_OK, jset ?j0 c' hi [] (int (length (jprint v))))"
    using run r(1) w(2) by (simp add: json_parse_finish_def)
  moreover have "json_holds (jset ?j0 c' hi [] (int (length (jprint v)))) v"
    unfolding json_holds_def
    by (intro exI [of _ ?j0] exI [of _ c'] exI [of _ ?np] exI [of _ n'] exI [of _ ?b3] exI [of _ hi])
      (use pl r v(2) in \<open>auto simp: jset_def\<close>)
  ultimately show ?thesis by blast
qed

lemma write_holds:
  assumes "json_holds j v" "length (jprint v) < len"
  shows "\<exists>j'. local_json_write_message j len = Some (int (length (jprint v)), j', jprint v)"
proof -
  from assms(1) obtain j0 c a n lo hi b where h: "plenty j0"
    "j = jset j0 c b [] (int (length (jprint v)))" "tr_root (js_text j0) = Some a"
    "a < lo" "c a = Some n" "bt_right n = None" "jtree c lo hi a v" "jcontainer v"
    by (auto simp: json_holds_def)
  let ?l = "int (length (jprint v))"
  have ty: "jv_type (bt_data n) = TYPE_OBJECT \<or> jv_type (bt_data n) = TYPE_ARRAY"
    using h(7) by (cases rule: jtree.cases) (use h(5,8) in auto)
  have init: "j\<lparr>js_heap := jheap j0 c (Suc b), js_stack := (js_stack j)\<lparr>sl_head := [a], sl_length := 1\<rparr>\<rparr> =
      jset j0 c (Suc b) [a] ?l"
    using h(2) by (simp add: jset_def)
  obtain b' where w: "json_write_loop len (jset j0 c (Suc b) [a] ?l) [] =
      json_write_loop len (jset j0 c b' [] ?l) (jprint v)"
    using writesD [OF writes_value [OF h(1)] h(7,4,5), of "[]" ?l len "Suc b" "[]"] h(6) assms(2)
    by auto
  have "json_write_loop len (jset j0 c b' [] ?l) (jprint v) =
      Some (Some (jprint v), jset j0 c b' [] ?l)"
    by (simp add: json_write_loop.simps [of len _ "jprint v"])
  then have "json_write_loop len (j\<lparr>js_heap := jheap j0 c (Suc b),
      js_stack := (js_stack j)\<lparr>sl_head := [a], sl_length := 1\<rparr>\<rparr>) [] =
    Some (Some (jprint v), jset j0 c b' [] ?l)" using init w by simp
  then show ?thesis using h(1,3,5) ty assms(2)
    by (auto simp: local_json_write_message_def h(2) local_binary_tree_get_root_def htick_def
        plenty_def local_stack_list_push_def jset_def jheap_def local_stack_list_is_empty_def)
qed

text \<open>A new parser object on an empty heap whose allocations all succeed.\<close>

definition sample_json :: json where
  "sample_json =
     \<lparr>js_heap = \<lparr>cells = (\<lambda>_. None), brk = 0, oom = (\<lambda>_. False), blog = []\<rparr>,
      js_text = \<lparr>tr_root = None, tr_del = False\<rparr>,
      js_stack = \<lparr>sl_length = 0, sl_head = [], sl_del = False\<rparr>, js_msg_len = 0\<rparr>"

lemma sample_json_ready: "json_ready sample_json" "plenty sample_json"
  by (simp_all add: sample_json_def json_ready_def plenty_def heap_ok_def)

text \<open>The text \<^verbatim>\<open>{ "a" :[1 , true],"b":{}}\<close>.\<close>

definition sample_text :: string where
  "sample_text = ''{ '' @ jquote ''a'' @ '' :[1 , true],'' @ jquote ''b'' @ '':{}}''"

definition sample_value :: jv where
  "sample_value = JObj [(''a'', JArr [JNum ''1'', JTrue]), (''b'', JObj [])]"

lemma wsp_space: "wsp '' ''"
  by (simp add: is_ws_def)

lemma sample_vtext: "vtext sample_value sample_text"
proof -
  have n: "vtext (JNum ''1'') ''1''"
    by (rule vNum, unfold number_text_def)
      (rule exI [of _ "[]"], rule exI [of _ "''1''"], simp add: int_part_def frac_part_def exp_part_def
        digits_def is_digit_def)
  have e: "etext [JNum ''1'', JTrue] (''1'' @ '' '' @ '','' @ '' '' @ ''true'')"
    using eC [OF n wsp_space wsp_space e1 [OF vTrue wsp_simps(1)]] by simp
  have b: "mtext [(''b'', JObj [])] (jquote ''b'' @ [] @ '':'' @ [] @ (''{'' @ [] @ ''}'') @ [])"
    by (rule m1) (use vObj0 [of "[]"] in \<open>auto simp: string_text_def NUL_def\<close>)
  have "mtext [(''a'', JArr [JNum ''1'', JTrue]), (''b'', JObj [])]
     (jquote ''a'' @ '' '' @ '':'' @ [] @ (''['' @ [] @ (''1'' @ '' '' @ '','' @ '' '' @ ''true'') @ '']'') @ []
       @ '','' @ [] @ (jquote ''b'' @ [] @ '':'' @ [] @ (''{'' @ [] @ ''}'') @ []))"
    by (rule mC [OF _ wsp_space _ _ _ _ b]) (use vArr [OF wsp_simps(1) e] in \<open>auto simp: string_text_def NUL_def\<close>)
  from vObj [OF wsp_space this] show ?thesis
    by (simp add: sample_value_def sample_text_def)
qed

text \<open>C16: the reader accepts every JSON text of an object or array (white space anywhere around and between the tokens, values
  nested to any depth, numbers as in RFC 7159) in which no string or name contains a double quote
  or a NUL: a ready parser object with memory for every allocation reads it with result OK and computes
  as message length exactly the length of the compact text of the value.  Escape sequences are not
  known to the reader: they are kept as they are written, and a string with an escaped double quote,
  which the reader ends at that quote, is not among these texts.\<close>

theorem json_parse_accepts:
  assumes "vtext v s" and "jcontainer v" and "wsp w1" and "wsp w2" and "json_ready j" and "plenty j"
  shows "\<exists>j'. local_json_parse_text j (w1 @ s @ w2) = Some (EZCFG_RET_OK, j') \<and>
    local_json_get_msg_len j' = int (length (jprint v))"
proof -
  from parse_holds [OF assms] obtain j' where
    "local_json_parse_text j (w1 @ s @ w2) = Some (EZCFG_RET_OK, j')" "json_holds j' v" by blast
  moreover from this have "local_json_get_msg_len j' = int (length (jprint v))"
    by (auto simp: json_holds_def local_json_get_msg_len_def)
  ultimately show ?thesis by blast
qed

theorem json_parse_accepts_witness:
  "\<exists>j'. local_json_parse_text sample_json ('' '' @ sample_text @ []) = Some (EZCFG_RET_OK, j') \<and>
     local_json_get_msg_len j' = 21"
  using json_parse_accepts [OF sample_vtext _ wsp_space wsp_simps(1) sample_json_ready]
  by (simp add: sample_value_def jquote_def)

text \<open>C3: writing back what was read gives the compact text of the same value: the reader followed
  by the writer, on every text that C16 describes and with any buffer longer than the message length, returns that length and leaves
  exactly the compact text in the buffer, without a write outside it.\<close>

theorem json_read_write_roundtrip:
  assumes "vtext v s" and "jcontainer v" and "wsp w1" and "wsp w2" and "json_ready j" and "plenty j"
    and "length (jprint v) < len"
  shows "\<exists>j' j''. local_json_parse_text j (w1 @ s @ w2) = Some (EZCFG_RET_OK, j') \<and>
    local_json_write_message j' len = Some (local_json_get_msg_len j', j'', jprint v)"
proof -
  from parse_holds [OF assms(1-6)] obtain j' where
    r: "local_json_parse_text j (w1 @ s @ w2) = Some (EZCFG_RET_OK, j')" "json_holds j' v" by blast
  moreover from r(2) have "local_json_get_msg_len j' = int (length (jprint v))"
    by (auto simp: json_holds_def local_json_get_msg_len_def)
  ultimately show ?thesis using write_holds [OF r(2) assms(7)] by auto
qed

theorem json_read_write_roundtrip_witness:
  "\<exists>j' j''. local_json_parse_text sample_json ('' '' @ sample_text @ []) = Some (EZCFG_RET_OK, j') \<and>
     local_json_write_message j' 64 = Some (local_json_get_msg_len j', j'',
       ''{'' @ jquote ''a'' @ '':[1,true],'' @ jquote ''b'' @ '':{}}'')"
  using json_read_write_roundtrip [OF sample_vtext _ wsp_space wsp_simps(1) sample_json_ready, of 64]
  by (simp add: sample_value_def jquote_def)

end
