(* ===== verification/Json_Safety.thy ===== *)
theory Json_Safety
  imports Json_Write
begin

text \<open>
  Safety of the JSON reader on arbitrary input: whatever the text and whatever allocations
  fail, the reader returns, never follows a dangling pointer, and after a failure leaves an
  empty parser object.  The invariant says that the nodes reachable from the root form a
  tree and that the stack holds nodes of that tree only; every iteration keeps it.
\<close>

section \<open>Growing a tree by one leaf\<close>

lemma btree_at_cong:
  "btree_at c p t \<Longrightarrow> (\<forall>a\<in>set_tree t. \<exists>n n'. c a = Some n \<and> c' a = Some n' \<and> bt_up n' = bt_up n \<and>
     bt_left n' = bt_left n \<and> bt_right n' = bt_right n) \<Longrightarrow> btree_at c' p t"
  by (induction t arbitrary: p) (fastforce split: option.splits)+

lemma btree_at_cells: "btree_at c p t \<Longrightarrow> a \<in> set_tree t \<Longrightarrow> \<exists>n. c a = Some n \<and> bt_up n = None"
  by (induction t arbitrary: p) (auto split: option.splits)

lemma btree_at_grow:
  assumes "btree_at c p t" "distinct (inorder t)" "e \<in> set_tree t" "c e = Some m"
    and "c b = Some k" "bt_up k = None" "bt_left k = None" "bt_right k = None" "b \<notin> set_tree t"
    and "bt_left m = None \<and> m' = m\<lparr>bt_left := Some b\<rparr> \<or> bt_right m = None \<and> m' = m\<lparr>bt_right := Some b\<rparr>"
  shows "\<exists>t'. btree_at (c(e \<mapsto> m')) p t' \<and> distinct (inorder t') \<and> set_tree t' = insert b (set_tree t)"
  using assms(1-3,9)
proof (induction t arbitrary: p)
  case Leaf
  then show ?case by simp
next
  case (Node l a r)
  then obtain n where n: "p = Some a" "c a = Some n" "bt_up n = None" "btree_at c (bt_left n) l"
    "btree_at c (bt_right n) r" by (auto split: option.splits)
  have d: "distinct (inorder l)" "distinct (inorder r)" "a \<notin> set_tree l" "a \<notin> set_tree r"
    "set_tree l \<inter> set_tree r = {}" using Node.prems(2) by auto
  have nb: "b \<notin> set_tree l" "b \<notin> set_tree r" using Node.prems(4) by auto
  have leaf: "btree_at (c(e \<mapsto> m')) (Some b) (Node Leaf b Leaf)" if "e \<noteq> b"
    using assms(5-8) that by simp
  consider "e = a" | "e \<in> set_tree l" | "e \<in> set_tree r" using Node.prems(3) by auto
  then show ?case
  proof cases
    case 1
    have eb: "e \<noteq> b" using Node.prems(3,4) by auto
    from assms(10) show ?thesis
    proof
      assume m: "bt_left m = None \<and> m' = m\<lparr>bt_left := Some b\<rparr>"
      then have "l = Leaf" using n assms(4) 1 btree_at_root by fastforce
      moreover have "btree_at (c(e \<mapsto> m')) (bt_right n) r" using n(5) d(4) 1 btree_at_frame by metis
      ultimately show ?thesis using m n assms(4) 1 leaf [OF eb] Node.prems
        by (intro exI [of _ "Node (Node Leaf b Leaf) a r"])
          (auto simp: fun_upd_same simp del: fun_upd_apply btree_at.simps(1) intro: leaf [OF eb])
    next
      assume m: "bt_right m = None \<and> m' = m\<lparr>bt_right := Some b\<rparr>"
      then have "r = Leaf" using n assms(4) 1 btree_at_root by fastforce
      moreover have "btree_at (c(e \<mapsto> m')) (bt_left n) l" using n(4) d(3) 1 btree_at_frame by metis
      ultimately show ?thesis using m n assms(4) 1 leaf [OF eb] Node.prems
        by (intro exI [of _ "Node l a (Node Leaf b Leaf)"])
          (auto simp: fun_upd_same simp del: fun_upd_apply btree_at.simps(1) intro: leaf [OF eb])
    qed
  next
    case 2
    then obtain l' where l': "btree_at (c(e \<mapsto> m')) (bt_left n) l'" "distinct (inorder l')"
      "set_tree l' = insert b (set_tree l)" using Node.IH(1) [OF n(4) d(1) 2 nb(1)] by blast
    have ne: "e \<noteq> a" "e \<notin> set_tree r" using 2 d by auto
    then have "btree_at (c(e \<mapsto> m')) (bt_right n) r" using n(5) btree_at_frame by metis
    with l' n ne d Node.prems show ?thesis
      by (intro exI [of _ "Node l' a r"]) (auto simp: fun_upd_other simp del: fun_upd_apply)
  next
    case 3
    then obtain r' where r': "btree_at (c(e \<mapsto> m')) (bt_right n) r'" "distinct (inorder r')"
      "set_tree r' = insert b (set_tree r)" using Node.IH(2) [OF n(5) d(2) 3 nb(2)] by blast
    have ne: "e \<noteq> a" "e \<notin> set_tree l" using 3 d by auto
    then have "btree_at (c(e \<mapsto> m')) (bt_left n) l" using n(4) btree_at_frame by metis
    with r' n ne d Node.prems show ?thesis
      by (intro exI [of _ "Node l a r'"]) (auto simp: fun_upd_other simp del: fun_upd_apply)
  qed
qed

lemma btree_at_child:
  "btree_at c p t \<Longrightarrow> a \<in> set_tree t \<Longrightarrow> c a = Some n \<Longrightarrow>
    (\<forall>b. bt_left n = Some b \<or> bt_right n = Some b \<longrightarrow> b \<in> set_tree t)"
proof (induction t arbitrary: p)
  case (Node l x r)
  then obtain m where m: "c x = Some m" "btree_at c (bt_left m) l" "btree_at c (bt_right m) r"
    by (auto split: option.splits)
  have l: "\<forall>b. bt_left m = Some b \<longrightarrow> b \<in> set_tree l" using m(2) by (cases l) auto
  have r: "\<forall>b. bt_right m = Some b \<longrightarrow> b \<in> set_tree r" using m(3) by (cases r) auto
  show ?case
  proof (cases "a = x")
    case True
    then have "n = m" using m(1) Node.prems(3) by simp
    then show ?thesis using l r by auto
  next
    case False
    then consider "a \<in> set_tree l" | "a \<in> set_tree r" using Node.prems(2) by auto
    then show ?thesis
    proof cases
      case 1
      from Node.IH(1) [OF m(2) 1 Node.prems(3)] show ?thesis by auto
    next
      case 2
      from Node.IH(2) [OF m(3) 2 Node.prems(3)] show ?thesis by auto
    qed
  qed
qed simp

text \<open>The walk along the siblings of a node of the tree ends inside the tree.\<close>

lemma last_right_in_tree:
  "btree_at (cells h) p t \<Longrightarrow> a \<in> set_tree t \<Longrightarrow>
    \<exists>e m. last_right h a = Some e \<and> e \<in> set_tree t \<and> cells h e = Some m \<and> bt_right m = None"
proof (induction t arbitrary: p a)
  case Leaf
  then show ?case by simp
next
  case (Node l x r)
  then obtain n where n: "cells h x = Some n" "btree_at (cells h) (bt_left n) l"
    "btree_at (cells h) (bt_right n) r" by (auto split: option.splits)
  show ?case
  proof (cases "a = x")
    case True
    show ?thesis
    proof (cases r)
      case Leaf
      then show ?thesis using n True by (auto simp: last_right.simps [of h x])
    next
      case (Node r1 y r2)
      then have "bt_right n = Some y" using n(3) by simp
      then have "last_right h a = last_right h y" using n(1) True by (simp add: last_right.simps [of h x])
      moreover have "y \<in> set_tree r" using Node by simp
      ultimately show ?thesis using Node.IH(2) [OF n(3)] Node by fastforce
    qed
  next
    case False
    then show ?thesis using Node.prems(2) Node.IH(1) [OF n(2), of a] Node.IH(2) [OF n(3), of a]
      by fastforce
  qed
qed

section \<open>The invariant of the reader\<close>

definition json_inv :: "json \<Rightarrow> nat set \<Rightarrow> bool" where
  "json_inv j S \<longleftrightarrow> heap_ok (js_heap j) \<and> sl_wf (js_stack j) \<and> set (sl_head (js_stack j)) \<subseteq> S \<and>
     (\<exists>t. btree_at (cells (js_heap j)) (tr_root (js_text j)) t \<and> distinct (inorder t) \<and> set_tree t = S)"

text \<open>A flow is safe when it is no fault and the invariant holds where it leads.\<close>

definition json_ok :: "json \<Rightarrow> bool" where
  "json_ok j \<longleftrightarrow> (\<exists>S. json_inv j S)"

fun safe_flow :: "json_flow \<Rightarrow> bool" where
  "safe_flow Fault = False"
| "safe_flow (Out j) = json_ok j"
| "safe_flow (Cont j cur) = json_ok j"

lemma json_inv_cells: "json_inv j S \<Longrightarrow> a \<in> S \<Longrightarrow> \<exists>n. cells (js_heap j) a = Some n \<and> bt_up n = None"
  by (auto simp: json_inv_def dest: btree_at_cells)

lemma json_inv_frame:
  assumes "json_inv j S" "heap_ok h" "\<forall>a\<in>S. cells h a = cells (js_heap j) a"
  shows "json_inv (j\<lparr>js_heap := h\<rparr>) S"
proof -
  obtain t where t: "btree_at (cells (js_heap j)) (tr_root (js_text j)) t" "distinct (inorder t)"
    "set_tree t = S" using assms(1) by (auto simp: json_inv_def)
  have "btree_at (cells h) (tr_root (js_text j)) t"
    by (rule btree_at_cong [OF t(1)]) (use assms(3) t(3) btree_at_cells [OF t(1)] in force)
  then show ?thesis using assms(1,2) t by (auto simp: json_inv_def)
qed

lemma json_inv_inc [simp]: "json_inv (inc_msg_len i j) S \<longleftrightarrow> json_inv j S"
  by (simp add: json_inv_def inc_msg_len_def)

lemma json_ok_inc [simp]: "json_ok (inc_msg_len i j) \<longleftrightarrow> json_ok j"
  by (simp add: json_ok_def)

lemma json_okI: "json_inv j S \<Longrightarrow> json_ok j"
  by (auto simp: json_ok_def)

lemma json_inv_heap_ok: "json_inv j S \<Longrightarrow> heap_ok (js_heap j)"
  by (simp add: json_inv_def)

lemma htick_ok:
  assumes "htick h = (mem, h')"
  shows "cells h' = cells h" "brk h' = Suc (brk h)" "heap_ok h \<Longrightarrow> heap_ok h'"
  using assms by (auto simp: htick_def heap_ok_def)

lemma value_new_ok:
  assumes "json_value_new t h = (v, h')"
  shows "cells h' = cells h" "brk h \<le> brk h'" "heap_ok h \<Longrightarrow> heap_ok h'"
  using assms htick_ok [of h] by (auto simp: json_value_new_def split: prod.splits)

lemma value_create_ok:
  assumes "local_json_value_create buf h = (v, h')"
  shows "cells h' = cells h" "brk h \<le> brk h'" "heap_ok h \<Longrightarrow> heap_ok h'"
  using assms value_new_ok [of _ h]
  by (auto simp: local_json_value_create_def split: option.splits)

lemma safe_push:
  assumes j: "json_inv j S" "a \<in> S" and k: "\<And>j'. json_inv j' S \<Longrightarrow> safe_flow (k j')"
  shows "safe_flow (json_push a j k)"
proof -
  obtain mem h where h: "htick (js_heap j) = (mem, h)" by fastforce
  have "json_inv (j\<lparr>js_heap := h\<rparr>) S"
    by (rule json_inv_frame [OF j(1)]) (use htick_ok [OF h] j(1) json_inv_heap_ok in auto)
  then have "json_inv (j\<lparr>js_heap := h, js_stack := snd (local_stack_list_push mem (js_stack j) a)\<rparr>) S"
    using j by (auto simp: json_inv_def)
  moreover have "fst (local_stack_list_push mem (js_stack j) a) = mem" by simp
  ultimately show ?thesis using k
    by (auto simp: json_push_def h Let_def intro: json_okI split: prod.split)
qed

lemma safe_set_element:
  assumes j: "json_inv j S" "a \<in> S" and k: "\<And>j'. json_inv j' S \<Longrightarrow> safe_flow (k j')"
  shows "safe_flow (json_value_set_element a buf len j k)"
proof -
  obtain mem h where h: "htick (js_heap j) = (mem, h)" by fastforce
  note ok = htick_ok [OF h]
  have i: "json_inv (j\<lparr>js_heap := h\<rparr>) S"
    by (rule json_inv_frame [OF j(1)]) (use ok j(1) json_inv_heap_ok in auto)
  obtain n where n: "cells h a = Some n" using json_inv_cells [OF j] ok by auto
  let ?h = "h\<lparr>cells := (cells h)(a \<mapsto>
      n\<lparr>bt_data := (bt_data n)\<lparr>jv_element := Some (take len buf)\<rparr>\<rparr>)\<rparr>"
  obtain t where t: "btree_at (cells h) (tr_root (js_text j)) t" "distinct (inorder t)" "set_tree t = S"
    using i by (auto simp: json_inv_def)
  have "btree_at (cells ?h) (tr_root (js_text j)) t"
    by (rule btree_at_cong [OF t(1)]) (use n in \<open>auto dest: btree_at_cells [OF t(1)]\<close>)
  moreover have "heap_ok ?h" using n i by (intro heap_ok_upd) (auto simp: json_inv_def)
  ultimately have "json_inv (j\<lparr>js_heap := ?h\<rparr>) S"
    using i t by (auto simp: json_inv_def simp del: fun_upd_apply)
  then show ?thesis using k i n by (auto simp: json_value_set_element_def h Let_def intro: json_okI)
qed

text \<open>A fresh node hung under, or to the right of, a node of the tree.\<close>

lemma grow_inv:
  assumes j: "json_inv j S" and h: "heap_ok h" "cells h = (cells (js_heap j))(b := cells h b)"
    and b: "b \<notin> S" "cells h b = Some k" "bt_up k = None" "bt_left k = None" "bt_right k = None"
    and e: "e \<in> S" "cells h e = Some m"
      "bt_left m = None \<and> m' = m\<lparr>bt_left := Some b\<rparr> \<or> bt_right m = None \<and> m' = m\<lparr>bt_right := Some b\<rparr>"
  shows "json_inv (j\<lparr>js_heap := h\<lparr>cells := (cells h)(e \<mapsto> m')\<rparr>\<rparr>) (insert b S)"
proof -
  have "json_inv (j\<lparr>js_heap := h\<rparr>) S"
    by (rule json_inv_frame [OF j h(1)]) (use h(2) b(1) in \<open>metis fun_upd_other\<close>)
  then obtain t where t: "btree_at (cells h) (tr_root (js_text j)) t" "distinct (inorder t)"
    "set_tree t = S" by (auto simp: json_inv_def)
  obtain t' where "btree_at ((cells h)(e \<mapsto> m')) (tr_root (js_text j)) t'" "distinct (inorder t')"
    "set_tree t' = insert b S"
    using btree_at_grow [OF t(1,2) _ e(2) b(2-5) _ e(3)] e(1) b(1) t(3) by auto
  moreover have "heap_ok (h\<lparr>cells := (cells h)(e \<mapsto> m')\<rparr>)"
    by (rule heap_ok_upd [OF h(1)]) (use e in simp)
  ultimately show ?thesis using j by (auto simp: json_inv_def simp del: fun_upd_apply)
qed

lemma node_new_ok:
  assumes "local_binary_tree_node_new vp h = (Some q, h')" "heap_ok h"
  shows "q = brk h" "heap_ok h'" "cells h' = (cells h)(q \<mapsto>
    \<lparr>bt_data = vp, bt_up = None, bt_left = None, bt_right = None\<rparr>)"
  using assms by (auto simp: local_binary_tree_node_new_def halloc_def split: if_splits)

lemma fresh_node:
  assumes j: "json_inv j S" and h: "cells h = cells (js_heap j)" "brk (js_heap j) \<le> brk h" "heap_ok h"
    and q: "local_binary_tree_node_new vp h = (Some q, h')"
  shows "q \<notin> S" "cells h' = (cells (js_heap j))(q := cells h' q)" "json_inv (j\<lparr>js_heap := h'\<rparr>) S"
    "cells h' q = Some \<lparr>bt_data = vp, bt_up = None, bt_left = None, bt_right = None\<rparr>" "heap_ok h'"
proof -
  note ok = node_new_ok [OF q h(3)]
  show fresh: "q \<notin> S"
  proof
    assume "q \<in> S"
    then have "cells (js_heap j) q \<noteq> None" using json_inv_cells [OF j] by blast
    then show False using ok(1) h(2) json_inv_heap_ok [OF j] by (simp add: heap_ok_def)
  qed
  show same: "cells h' = (cells (js_heap j))(q := cells h' q)" using ok(3) h(1) by auto
  show "json_inv (j\<lparr>js_heap := h'\<rparr>) S"
    by (rule json_inv_frame [OF j ok(2)]) (use same fresh in \<open>metis fun_upd_other\<close>)
  show "cells h' q = Some \<lparr>bt_data = vp, bt_up = None, bt_left = None, bt_right = None\<rparr>" "heap_ok h'"
    using ok by simp_all
qed

lemma append_left_inv:
  assumes j: "json_inv j S" "np \<in> S" and h: "cells h = cells (js_heap j)" "brk (js_heap j) \<le> brk h" "heap_ok h"
    and q: "local_binary_tree_node_new vp h = (Some q, h')"
  shows "\<exists>ret h''. local_binary_tree_node_append_left (Some np) (Some q) h' = Some (ret, h'') \<and>
    json_inv (j\<lparr>js_heap := h''\<rparr>) (insert q S)"
proof -
  note f = fresh_node [OF j(1) h q]
  obtain n where n: "cells h' np = Some n" using json_inv_cells [OF f(3) j(2)] by auto
  show ?thesis
  proof (cases "bt_left n")
    case None
    have "json_inv (j\<lparr>js_heap := h'\<lparr>cells := (cells h')(np \<mapsto> n\<lparr>bt_left := Some q\<rparr>)\<rparr>\<rparr>) (insert q S)"
      by (rule grow_inv [OF j(1) f(5,2,1,4) _ _ _ j(2) n]) (use None in auto)
    then show ?thesis using append_left_first [OF n None, of "Some q"] by auto
  next
    case (Some b)
    obtain t where t: "btree_at (cells h') (tr_root (js_text j)) t" "set_tree t = S"
      using f(3) by (auto simp: json_inv_def)
    have "b \<in> S" using btree_at_child [OF t(1), of np n] t(2) j(2) n Some by auto
    then obtain e m where e: "last_right h' b = Some e" "e \<in> S" "cells h' e = Some m" "bt_right m = None"
      using last_right_in_tree [OF t(1), of b] t(2) by blast
    have "json_inv (j\<lparr>js_heap := h'\<lparr>cells := (cells h')(e \<mapsto> m\<lparr>bt_right := Some q\<rparr>)\<rparr>\<rparr>) (insert q S)"
      by (rule grow_inv [OF j(1) f(5,2,1,4) _ _ _ e(2,3)]) (use e in auto)
    then show ?thesis using n Some e
      by (auto simp: local_binary_tree_node_append_left_def hstore_def)
  qed
qed

lemma append_right_inv:
  assumes j: "json_inv j S" "np \<in> S" and h: "cells h = cells (js_heap j)" "brk (js_heap j) \<le> brk h" "heap_ok h"
    and q: "local_binary_tree_node_new vp h = (Some q, h')"
  shows "\<exists>ret h''. local_binary_tree_node_append_right (Some np) (Some q) h' = Some (ret, h'') \<and>
    json_inv (j\<lparr>js_heap := h''\<rparr>) (insert q S)"
proof -
  note f = fresh_node [OF j(1) h q]
  obtain t where t: "btree_at (cells h') (tr_root (js_text j)) t" "set_tree t = S"
    using f(3) by (auto simp: json_inv_def)
  obtain e m where e: "last_right h' np = Some e" "e \<in> S" "cells h' e = Some m" "bt_right m = None"
    using last_right_in_tree [OF t(1), of np] t(2) j(2) by blast
  have "json_inv (j\<lparr>js_heap := h'\<lparr>cells := (cells h')(e \<mapsto> m\<lparr>bt_right := Some q\<rparr>)\<rparr>\<rparr>) (insert q S)"
    by (rule grow_inv [OF j(1) f(5,2,1,4) _ _ _ e(2,3)]) (use e in auto)
  then show ?thesis using e
    by (auto simp: local_binary_tree_node_append_right_def hstore_def)
qed

lemma node_new_fail:
  "local_binary_tree_node_new vp h = (None, h') \<Longrightarrow> heap_ok h \<Longrightarrow> heap_ok h' \<and> cells h' = cells h"
  by (auto simp: local_binary_tree_node_new_def halloc_def split: if_splits)

lemma safe_new_left:
  assumes j: "json_inv j S" "np \<in> S"
    and h: "cells h = cells (js_heap j)" "brk (js_heap j) \<le> brk h" "heap_ok h"
    and k: "\<And>q j'. json_inv j' (insert q S) \<Longrightarrow> safe_flow (k q j')"
  shows "safe_flow (json_new_left np (v, h) j k)"
proof (cases v)
  case None
  then show ?thesis using json_inv_frame [OF j(1) h(3)] h(1)
    by (simp add: json_new_left_def json_okI)
next
  case (Some vp)
  obtain q h' where q: "local_binary_tree_node_new vp h = (q, h')" by fastforce
  show ?thesis
  proof (cases q)
    case None
    have "heap_ok h' \<and> cells h' = cells h" by (rule node_new_fail [OF q [unfolded None] h(3)])
    then have "json_inv (j\<lparr>js_heap := h'\<rparr>) S" using h(1) by (intro json_inv_frame [OF j(1)]) auto
    then show ?thesis using q Some None by (simp add: json_new_left_def json_okI)
  next
    case q': (Some a)
    from append_left_inv [OF j h, of vp a h'] q q' obtain ret h'' where
      "local_binary_tree_node_append_left (Some np) (Some a) h' = Some (ret, h'')"
      "json_inv (j\<lparr>js_heap := h''\<rparr>) (insert a S)" by blast
    then show ?thesis using k q q' Some by (simp add: json_new_left_def)
  qed
qed

section \<open>Every iteration is safe\<close>

lemma safe_new_left_new:
  assumes "json_inv j S" "np \<in> S" "\<And>q j'. json_inv j' (insert q S) \<Longrightarrow> safe_flow (k q j')"
  shows "safe_flow (json_new_left np (json_value_new t (js_heap j)) j k)"
proof -
  obtain v h where v: "json_value_new t (js_heap j) = (v, h)" by fastforce
  show ?thesis unfolding v
    by (rule safe_new_left [OF assms(1,2)])
      (use value_new_ok [OF v] json_inv_heap_ok [OF assms(1)] assms(3) in auto)
qed

lemma safe_new_left_create:
  assumes "json_inv j S" "np \<in> S" "\<And>q j'. json_inv j' (insert q S) \<Longrightarrow> safe_flow (k q j')"
  shows "safe_flow (json_new_left np (local_json_value_create buf (js_heap j)) j k)"
proof -
  obtain v h where v: "local_json_value_create buf (js_heap j) = (v, h)" by fastforce
  show ?thesis unfolding v
    by (rule safe_new_left [OF assms(1,2)])
      (use value_create_ok [OF v] json_inv_heap_ok [OF assms(1)] assms(3) in auto)
qed

lemma safe_push2:
  assumes "json_inv j S" "a \<in> S" "b \<in> S"
  shows "safe_flow (json_push a j (\<lambda>j. json_push b j (\<lambda>j. Cont j cur)))"
  by (rule safe_push [OF assms(1,2)], rule safe_push [OF _ assms(3)]) (auto intro: json_okI)

lemma safe_object:
  assumes "json_inv j S" "np \<in> S"
  shows "safe_flow (json_parse_object np n j cur)"
  unfolding json_parse_object_def Let_def
  using assms by (auto intro!: safe_new_left_new [of _ S] safe_push2 intro: json_okI)

lemma safe_string:
  assumes "json_inv j S" "np \<in> S"
  shows "safe_flow (json_parse_string np j cur)"
  unfolding json_parse_string_def Let_def
  using assms by (auto intro!: safe_set_element [of _ S] intro: json_okI split: option.split)

lemma safe_number:
  assumes "json_inv j S" "np \<in> S"
  shows "safe_flow (json_parse_number np j cur)"
  unfolding json_parse_number_def Let_def
  using assms by (auto intro!: safe_set_element [of _ S] intro: json_okI split: option.split)

lemma safe_nvpair:
  assumes j: "json_inv j S" "np \<in> S"
  shows "safe_flow (json_parse_nvpair np n j cur)"
proof (cases "bt_left n = None")
  case True
  have k: "safe_flow (json_new_left np (local_json_value_create cur3 (js_heap j')) j'
      (\<lambda>q j5. json_push np j5 (\<lambda>j6. json_push q j6 (\<lambda>j7. Cont j7 cur3))))"
    if "json_inv j' S" for j' cur3
    by (rule safe_new_left_create [OF that j(2)]) (use j(2) in \<open>auto intro!: safe_push2\<close>)
  show ?thesis
    unfolding json_parse_nvpair_def Let_def using True j
    by (auto intro!: safe_set_element [of _ S] k intro: json_okI split: option.split)
next
  case False
  obtain v h where v: "json_value_new TYPE_NVPAIR (js_heap (inc_msg_len 1 j)) = (v, h)" by fastforce
  note vo = value_new_ok [OF v]
  have h: "cells h = cells (js_heap (inc_msg_len 1 j))" "brk (js_heap (inc_msg_len 1 j)) \<le> brk h"
    "heap_ok h" and j1: "json_inv (inc_msg_len 1 j) S"
    using vo j json_inv_heap_ok [of "inc_msg_len 1 j" S] by auto
  have out: "json_ok ((inc_msg_len 1 j)\<lparr>js_heap := h'\<rparr>)" if "heap_ok h'" "cells h' = cells h" for h'
    using json_inv_frame [OF j1 that(1)] that(2) h(1) by (auto intro: json_okI)
  have "safe_flow (case local_binary_tree_node_new vp h of
      (None, h2) \<Rightarrow> Out ((inc_msg_len 1 j)\<lparr>js_heap := h2\<rparr>)
    | (Some q, h2) \<Rightarrow> (case local_binary_tree_node_append_right (Some np) (Some q) h2 of
         None \<Rightarrow> Fault
       | Some (ret, h3) \<Rightarrow> json_push q ((inc_msg_len 1 j)\<lparr>js_heap := h3\<rparr>) (\<lambda>j2. Cont j2 (tl cur))))" for vp
  proof (cases "local_binary_tree_node_new vp h")
    case (Pair q h2)
    show ?thesis
    proof (cases q)
      case None
      show ?thesis using out [of h2] node_new_fail [OF Pair [unfolded None] h(3)] Pair None by simp
    next
      case (Some a)
      from append_right_inv [OF j1 j(2) h Pair [unfolded Some]] obtain ret h3 where
        "local_binary_tree_node_append_right (Some np) (Some a) h2 = Some (ret, h3)"
        "json_inv ((inc_msg_len 1 j)\<lparr>js_heap := h3\<rparr>) (insert a S)" by blast
      then show ?thesis using Pair Some by (auto intro!: safe_push intro: json_okI)
    qed
  qed
  then show ?thesis using False j v out [OF h(3) refl]
    by (auto simp: json_parse_nvpair_def Let_def intro: json_okI split: option.split)
qed

lemma safe_array:
  assumes j: "json_inv j S" "np \<in> S"
  shows "safe_flow (json_parse_array np n j cur)"
proof (cases "bt_left n = None")
  case True
  show ?thesis
    unfolding json_parse_array_def Let_def using True j
    by (auto intro!: safe_new_left_new [of _ S] safe_new_left_create [of _ S] safe_push2
        intro: json_okI)
next
  case False
  obtain v h where v: "local_json_value_create (skip_ws (tl cur)) (js_heap (inc_msg_len 1 j)) = (v, h)"
    by fastforce
  note vo = value_create_ok [OF v]
  have h: "cells h = cells (js_heap (inc_msg_len 1 j))" "brk (js_heap (inc_msg_len 1 j)) \<le> brk h"
    "heap_ok h" and j1: "json_inv (inc_msg_len 1 j) S"
    using vo j json_inv_heap_ok [of "inc_msg_len 1 j" S] by auto
  have out: "json_ok ((inc_msg_len 1 j)\<lparr>js_heap := h'\<rparr>)" if "heap_ok h'" "cells h' = cells h" for h'
    using json_inv_frame [OF j1 that(1)] that(2) h(1) by (auto intro: json_okI)
  have "safe_flow (case local_binary_tree_node_new vp h of
      (None, h2) \<Rightarrow> Out ((inc_msg_len 1 j)\<lparr>js_heap := h2\<rparr>)
    | (Some q, h2) \<Rightarrow>
        if \<not> json_value_is_native_value vp then Out ((inc_msg_len 1 j)\<lparr>js_heap := h2\<rparr>)
        else (case local_binary_tree_node_append_left (Some np) (Some q) h2 of
            None \<Rightarrow> Fault
          | Some (ret, h3) \<Rightarrow> json_push np ((inc_msg_len 1 j)\<lparr>js_heap := h3\<rparr>)
              (\<lambda>j2. json_push q j2 (\<lambda>j3. Cont j3 (skip_ws (tl cur))))))" for vp
  proof (cases "local_binary_tree_node_new vp h")
    case (Pair q h2)
    show ?thesis
    proof (cases q)
      case None
      show ?thesis using out [of h2] node_new_fail [OF Pair [unfolded None] h(3)] Pair None by simp
    next
      case (Some a)
      from append_left_inv [OF j1 j(2) h Pair [unfolded Some]] obtain ret h3 where
        a: "local_binary_tree_node_append_left (Some np) (Some a) h2 = Some (ret, h3)"
        "json_inv ((inc_msg_len 1 j)\<lparr>js_heap := h3\<rparr>) (insert a S)" by blast
      have "json_ok ((inc_msg_len 1 j)\<lparr>js_heap := h2\<rparr>)"
        by (rule json_okI [OF fresh_node(3) [OF j1 h Pair [unfolded Some]]])
      then show ?thesis using Pair Some a j(2) by (auto intro!: safe_push2)
    qed
  qed
  then show ?thesis using False j v out [OF h(3) refl]
    by (auto simp: json_parse_array_def Let_def intro: json_okI split: option.split)
qed

lemma safe_step:
  assumes "json_ok j" "sl_head (js_stack j) \<noteq> []"
  shows "safe_flow (json_parse_step j cur)"
proof -
  obtain S where S: "json_inv j S" using assms(1) by (auto simp: json_ok_def)
  obtain a as where a: "sl_head (js_stack j) = a # as" using assms(2) by (cases "sl_head (js_stack j)") auto
  let ?st = "(js_stack j)\<lparr>sl_head := as, sl_length := sl_length (js_stack j) - 1\<rparr>"
  have i: "json_inv (j\<lparr>js_stack := ?st\<rparr>) S" and m: "a \<in> S"
    using S a by (auto simp: json_inv_def sl_wf_def)
  obtain n where "cells (js_heap j) a = Some n" using json_inv_cells [OF S m] by auto
  then show ?thesis
    using i m a by (auto simp: json_parse_step_def local_stack_list_pop_def Let_def
        safe_object safe_nvpair safe_array safe_string safe_number intro: json_okI split: json_type.split)
qed

lemma json_parse_loop_safe:
  "json_ok j \<Longrightarrow> \<exists>cur' j'. json_parse_loop j cur = Some (cur', j') \<and> json_ok j'"
proof (induction j cur rule: json_parse_loop.induct)
  case (1 j cur)
  show ?case
  proof (cases "peek cur \<noteq> NUL \<and> \<not> local_stack_list_is_empty (js_stack j)")
    case True
    then have "sl_head (js_stack j) \<noteq> []"
      using "1.prems" by (auto simp: json_ok_def json_inv_def)
    then have sf: "safe_flow (json_parse_step j cur)" by (rule safe_step [OF "1.prems"])
    show ?thesis
    proof (cases "json_parse_step j cur")
      case (Cont j' cur')
      then show ?thesis using True sf "1.IH" [OF True Cont] by (simp add: json_parse_loop.simps [of j cur])
    qed (use True sf in \<open>simp_all add: json_parse_loop.simps [of j cur]\<close>)
  next
    case False
    then show ?thesis using "1.prems" by (auto simp: json_parse_loop.simps [of j cur])
  qed
qed

section \<open>Failure leaves an empty parser\<close>

lemma stack_clean_up_returns:
  "sl_wf st \<Longrightarrow> \<exists>st'. stack_clean_up st = Some st' \<and> sl_length st' = 0 \<and> sl_head st' = []"
proof (induction "sl_head st" arbitrary: st)
  case Nil
  then show ?case by (auto simp: stack_clean_up.simps [of st] sl_wf_def)
next
  case (Cons a as)
  then have a: "sl_head st = a # as" by simp
  have "\<exists>st'. stack_clean_up (snd (local_stack_list_pop st)) = Some st' \<and> sl_length st' = 0 \<and> sl_head st' = []"
    by (rule Cons.hyps(1)) (use a Cons.prems in simp_all)
  then show ?case using a Cons.prems by (simp add: stack_clean_up.simps [of st])
qed

lemma json_reset_returns:
  assumes "json_ok j"
  shows "\<exists>j'. local_json_reset j = Some j' \<and> tr_root (js_text j') = None \<and>
    sl_length (js_stack j') = 0 \<and> sl_head (js_stack j') = [] \<and> js_msg_len j' = 0"
proof -
  obtain S where S: "json_inv j S" using assms by (auto simp: json_ok_def)
  then obtain t where t: "btree_at (cells (js_heap j)) (tr_root (js_text j)) t" "distinct (inorder t)"
    by (auto simp: json_inv_def)
  obtain h where "local_binary_tree_reset (js_text j) (js_heap j) =
      Some (EZCFG_RET_OK, (js_text j)\<lparr>tr_root := None\<rparr>, h)"
    using tree_reset_returns [OF t] by blast
  moreover obtain st where "stack_clean_up (js_stack j) = Some st" "sl_length st = 0" "sl_head st = []"
    using stack_clean_up_returns [of "js_stack j"] S by (auto simp: json_inv_def)
  ultimately show ?thesis by (simp add: local_json_reset_def tree_clean_up_def)
qed

text \<open>An empty parser object: nothing on the stack and no tree.\<close>

definition json_empty :: "json \<Rightarrow> bool" where
  "json_empty j \<longleftrightarrow> tr_root (js_text j) = None \<and> sl_length (js_stack j) = 0 \<and>
     sl_head (js_stack j) = [] \<and> js_msg_len j = 0"

lemma json_parse_finish_safe:
  assumes "r = Some (cur, j)" "json_ok j"
  shows "\<exists>j'. json_parse_finish r = Some (EZCFG_RET_OK, j') \<or>
    json_parse_finish r = Some (EZCFG_RET_FAIL, j') \<and> json_empty j'"
  using json_reset_returns [OF assms(2)] assms(1)
  by (auto simp: json_parse_finish_def json_empty_def split: option.splits)

lemma json_start_ok:
  assumes "json_empty j" "heap_ok h" "local_binary_tree_node_new vp h = (Some np, h2)"
    and "htick h2 = (mem, h3)"
  shows "json_ok (j\<lparr>js_heap := h3, js_text := (js_text j)\<lparr>tr_del := True, tr_root := Some np\<rparr>,
    js_stack := snd (local_stack_list_push mem (js_stack j) np)\<rparr>)"
proof -
  note n = node_new_ok [OF assms(3,2)] and t = htick_ok [OF assms(4)]
  have "btree_at (cells h3) (Some np) (Node Leaf np Leaf)" using n(3) t(1) by simp
  then show ?thesis using assms(1) t(3) [OF n(2)]
    by (auto simp: json_ok_def json_inv_def json_empty_def sl_wf_def local_stack_list_push_def
        intro!: exI [of _ "{np}"] exI [of _ "Node Leaf np Leaf"])
qed

lemma parse_text_returns:
  assumes "json_empty j" and "heap_ok (js_heap j)"
  shows "\<exists>ret j'. local_json_parse_text j text = Some (ret, j') \<and>
    (ret = EZCFG_RET_OK \<or> ret = EZCFG_RET_FAIL \<and> json_empty j')"
proof (cases "peek (skip_ws text) \<noteq> CHR ''{'' \<and> peek (skip_ws text) \<noteq> CHR ''[''")
  case True
  then show ?thesis using assms by (simp add: local_json_parse_text_def)
next
  case False
  obtain v h1 where v: "local_json_value_create (skip_ws text) (js_heap j) = (v, h1)" by fastforce
  have e: "json_empty (j\<lparr>js_heap := h\<rparr>)" for h using assms(1) by (simp add: json_empty_def)
  show ?thesis
  proof (cases v)
    case None
    then show ?thesis using False v e by (auto simp: local_json_parse_text_def Let_def)
  next
    case (Some vp)
    obtain q h2 where q: "local_binary_tree_node_new vp h1 = (q, h2)" by fastforce
    show ?thesis
    proof (cases q)
      case None
      then show ?thesis using False v q e Some by (auto simp: local_json_parse_text_def Let_def)
    next
      case np: (Some np)
      obtain mem h3 where t: "htick h2 = (mem, h3)" by fastforce
      obtain ok st where p: "local_stack_list_push mem (js_stack j) np = (ok, st)" by fastforce
      let ?j = "j\<lparr>js_heap := h3, js_text := (js_text j)\<lparr>tr_del := True, tr_root := Some np\<rparr>, js_stack := st\<rparr>"
      have ok: "json_ok ?j"
        using json_start_ok [OF assms(1) value_create_ok(3) [OF v assms(2)] q [unfolded np] t] p by simp
      obtain cur' j' where r: "(if ok then json_parse_loop ?j (skip_ws text) else Some (None, ?j)) =
          Some (cur', j')" "json_ok j'"
        using json_parse_loop_safe [OF ok, of "skip_ws text"] ok by (cases ok) auto
      have "local_json_parse_text j text =
          json_parse_finish (if ok then json_parse_loop ?j (skip_ws text) else Some (None, ?j))"
        using False v Some q np t p
        by (auto simp: local_json_parse_text_def local_binary_tree_set_data_delete_handler_def
            local_binary_tree_set_root_def Let_def)
      then show ?thesis using json_parse_finish_safe [OF r] by auto
    qed
  qed
qed



end
