(* ===== verification/Keyed_List_Spec.thy ===== *)
theory Keyed_List_Spec
  imports Ez_Prelude
begin

text \<open>
  What the configuration library expects of its keyed lists: a list in which inserting or
  appending a datum replaces the first datum that compares equal and otherwise adds the
  new one at the head or the tail.  The locale \<open>keyed_list\<close> is the interface its
  clients use; the clients' lemmas (appending a sequence, accounting for ownership) are
  proved once in it and reach the code through the interpretations in the theories of the
  implementations.
\<close>

section \<open>The abstract operations\<close>

definition key_in :: "('d \<Rightarrow> 'd \<Rightarrow> int) \<Rightarrow> 'd \<Rightarrow> 'd list \<Rightarrow> bool" where
  "key_in cmp d ds \<longleftrightarrow> (\<exists>x \<in> set ds. cmp x d = 0)"

fun replace_first :: "('d \<Rightarrow> 'd \<Rightarrow> int) \<Rightarrow> 'd \<Rightarrow> 'd list \<Rightarrow> 'd list" where
  "replace_first cmp d [] = []"
| "replace_first cmp d (x # xs) =
     (if cmp x d = 0 then d # xs else x # replace_first cmp d xs)"

fun remove_first :: "('d \<Rightarrow> 'd \<Rightarrow> int) \<Rightarrow> 'd \<Rightarrow> 'd list \<Rightarrow> 'd list" where
  "remove_first cmp d [] = []"
| "remove_first cmp d (x # xs) =
     (if cmp x d = 0 then xs else x # remove_first cmp d xs)"

fun evicted :: "('d \<Rightarrow> 'd \<Rightarrow> int) \<Rightarrow> 'd \<Rightarrow> 'd list \<Rightarrow> 'd list" where
  "evicted cmp d [] = []"
| "evicted cmp d (x # xs) = (if cmp x d = 0 then [x] else evicted cmp d xs)"

definition insert_spec :: "('d \<Rightarrow> 'd \<Rightarrow> int) \<Rightarrow> 'd \<Rightarrow> 'd list \<Rightarrow> 'd list" where
  "insert_spec cmp d ds = (if key_in cmp d ds then replace_first cmp d ds else d # ds)"

definition append_spec :: "('d \<Rightarrow> 'd \<Rightarrow> int) \<Rightarrow> 'd \<Rightarrow> 'd list \<Rightarrow> 'd list" where
  "append_spec cmp d ds = (if key_in cmp d ds then replace_first cmp d ds else ds @ [d])"

lemma key_in_simps [simp]:
  "\<not> key_in cmp d []"
  "key_in cmp d (x # xs) \<longleftrightarrow> cmp x d = 0 \<or> key_in cmp d xs"
  "key_in cmp d (xs @ ys) \<longleftrightarrow> key_in cmp d xs \<or> key_in cmp d ys"
  by (auto simp: key_in_def)

lemma absent_simps [simp]:
  "\<not> key_in cmp d ds \<Longrightarrow> replace_first cmp d ds = ds"
  "\<not> key_in cmp d ds \<Longrightarrow> remove_first cmp d ds = ds"
  "\<not> key_in cmp d ds \<Longrightarrow> evicted cmp d ds = []"
  by (induction ds) auto

lemma present_split_simps:
  assumes "\<not> key_in cmp d us" "cmp x d = 0"
  shows "replace_first cmp d (us @ x # vs) = us @ d # vs"
    and "remove_first cmp d (us @ x # vs) = us @ vs"
    and "evicted cmp d (us @ x # vs) = [x]"
  using assms by (induction us) auto

lemma length_replace_first [simp]: "length (replace_first cmp d ds) = length ds"
  by (induction ds) auto

lemma mset_replace_first:
  "key_in cmp d ds \<Longrightarrow> mset (replace_first cmp d ds) + mset (evicted cmp d ds) = mset ds + {#d#}"
  by (induction ds) auto

lemma mset_remove_first: "mset (remove_first cmp d ds) + mset (evicted cmp d ds) = mset ds"
  by (induction ds) auto

text \<open>Nothing is lost: what an insertion or append displaces is exactly what it evicts.\<close>

lemma mset_insert_spec:
  "mset (insert_spec cmp d ds) + mset (evicted cmp d ds) = mset ds + {#d#}"
  by (simp add: insert_spec_def mset_replace_first)

lemma mset_append_spec:
  "mset (append_spec cmp d ds) + mset (evicted cmp d ds) = mset ds + {#d#}"
  by (simp add: append_spec_def mset_replace_first)

section \<open>Clients: appending a sequence of data\<close>

fun append_all ::
    "('l \<Rightarrow> 'd \<Rightarrow> 'h \<Rightarrow> (int \<times> 'l \<times> 'h) option) \<Rightarrow> 'l \<Rightarrow> 'd list \<Rightarrow> 'h \<Rightarrow>
       (int \<times> 'l \<times> 'h) option" where
  "append_all app l [] h = Some (EZCFG_RET_OK, l, h)"
| "append_all app l (d # ds) h = do {
     (ret, l1, h1) \<leftarrow> app l d h;
     if ret = EZCFG_RET_OK then append_all app l1 ds h1 else Some (ret, l1, h1)
   }"

fun append_spec_all :: "('d \<Rightarrow> 'd \<Rightarrow> int) \<Rightarrow> 'd list \<Rightarrow> 'd list \<Rightarrow> 'd list" where
  "append_spec_all cmp [] xs = xs"
| "append_spec_all cmp (d # ds) xs = append_spec_all cmp ds (append_spec cmp d xs)"

fun keys_distinct :: "('d \<Rightarrow> 'd \<Rightarrow> int) \<Rightarrow> 'd list \<Rightarrow> bool" where
  "keys_distinct cmp [] = True"
| "keys_distinct cmp (d # ds) \<longleftrightarrow> (\<forall>x \<in> set ds. cmp d x \<noteq> 0) \<and> keys_distinct cmp ds"

lemma append_spec_all_distinct:
  "keys_distinct cmp (xs @ ds) \<Longrightarrow> append_spec_all cmp ds xs = xs @ ds"
proof (induction ds arbitrary: xs)
  case Nil
  then show ?case by simp
next
  case (Cons d ds)
  have "\<not> key_in cmp d xs"
    using Cons.prems by (induction xs) auto
  then have "append_spec cmp d xs = xs @ [d]" by (simp add: append_spec_def)
  then show ?case using Cons.IH [of "xs @ [d]"] Cons.prems by simp
qed

locale keyed_list =
  fixes rep :: "('d \<Rightarrow> 'd \<Rightarrow> int) \<Rightarrow> 'h \<Rightarrow> 'l \<Rightarrow> 'd list \<Rightarrow> bool"
    and app :: "'l \<Rightarrow> 'd \<Rightarrow> 'h \<Rightarrow> (int \<times> 'l \<times> 'h) option"
    and gone :: "'h \<Rightarrow> 'd list"
  assumes app_returns: "rep cmp h l ds \<Longrightarrow> \<exists>ret l' h'. app l d h = Some (ret, l', h') \<and>
      (ret = EZCFG_RET_OK \<and> rep cmp h' l' (append_spec cmp d ds) \<and>
         gone h' = gone h @ evicted cmp d ds
       \<or> ret = EZCFG_RET_FAIL \<and> rep cmp h' l' ds \<and> gone h' = gone h)"
begin

lemma append_all_returns:
  "rep cmp h l xs \<Longrightarrow> \<exists>ret l' h' n. append_all app l ds h = Some (ret, l', h') \<and>
     n \<le> length ds \<and> rep cmp h' l' (append_spec_all cmp (take n ds) xs) \<and>
     (ret = EZCFG_RET_OK \<and> n = length ds \<or> ret = EZCFG_RET_FAIL)"
proof (induction ds arbitrary: h l xs)
  case Nil
  then show ?case by auto
next
  case (Cons d ds)
  from app_returns [OF Cons.prems, of d] obtain ret l1 h1 where
    step: "app l d h = Some (ret, l1, h1)" and
    out: "ret = EZCFG_RET_OK \<and> rep cmp h1 l1 (append_spec cmp d xs)
          \<or> ret = EZCFG_RET_FAIL \<and> rep cmp h1 l1 xs" by blast
  show ?case
  proof (cases "ret = EZCFG_RET_OK")
    case True
    with out have "rep cmp h1 l1 (append_spec cmp d xs)" by auto
    from Cons.IH [OF this] obtain r l2 h2 n where
      "append_all app l1 ds h1 = Some (r, l2, h2)" "n \<le> length ds"
      "rep cmp h2 l2 (append_spec_all cmp (take n ds) (append_spec cmp d xs))"
      "r = EZCFG_RET_OK \<and> n = length ds \<or> r = EZCFG_RET_FAIL" by blast
    with step True show ?thesis by (auto intro!: exI [of _ "Suc n"])
  next
    case False
    with out step show ?thesis by (auto intro!: exI [of _ "0::nat"])
  qed
qed

text \<open>Ownership: what the list holds together with what was handed to the deleter is what
  went in.\<close>

lemma append_all_conserves:
  "rep cmp h l xs \<Longrightarrow> append_all app l ds h = Some (EZCFG_RET_OK, l', h') \<Longrightarrow>
     \<exists>ys. rep cmp h' l' ys \<and> mset ys + mset (gone h') = mset xs + mset ds + mset (gone h)"
proof (induction ds arbitrary: h l xs)
  case Nil
  then show ?case by auto
next
  case (Cons d ds)
  from app_returns [OF Cons.prems(1), of d] Cons.prems(2) obtain l1 h1 where
    step: "app l d h = Some (EZCFG_RET_OK, l1, h1)" and
    rep1: "rep cmp h1 l1 (append_spec cmp d xs)" and
    gone1: "gone h1 = gone h @ evicted cmp d xs"
    by (fastforce split: if_splits)
  have "append_all app l1 ds h1 = Some (EZCFG_RET_OK, l', h')"
    using Cons.prems(2) step by simp
  from Cons.IH [OF rep1 this] obtain ys where ys: "rep cmp h' l' ys"
    "mset ys + mset (gone h') = mset (append_spec cmp d xs) + mset ds + mset (gone h1)" by blast
  with gone1 mset_append_spec [of cmp d xs] show ?case
    by (intro exI [of _ ys]) (simp add: ac_simps)
qed

end

end
