(* ===== verification/Linked_List.thy ===== *)
theory Linked_List
  imports Keyed_List_Spec Ez_Context
begin

text \<open>
  The single linked lists of \<^verbatim>\<open>src/basic/linked_list/linked_list.c\<close> (and their copy
  \<^verbatim>\<open>src/common/linked_list.c\<close>) on an explicit heap of nodes.  The heap also logs, in
  order, the data handed to \<^verbatim>\<open>data_del_handler\<close>, so that the theorems account for who
  owns which datum.  \<open>ll_rep\<close> ties a list header and a heap to the abstract list of
  data; every operation is proved to refine the operation of that name on lists.
\<close>

section \<open>Nodes, headers and the node heap\<close>

record 'd linked_list_node =
  ln_data :: "'d option"
  ln_next :: ptr

record 'd lheap = "'d linked_list_node heap" +
  dlog :: "'d list"

record 'd linked_list =
  ll_length :: int
  ll_head :: ptr
  ll_tail :: ptr
  ll_del :: bool \<comment> \<open>\<open>data_del_handler\<close> is not NULL\<close>
  ll_cmp :: "('d \<Rightarrow> 'd \<Rightarrow> int) option" \<comment> \<open>\<open>data_cmp_handler\<close>\<close>

section \<open>Operations\<close>

text \<open>\<^verbatim>\<open>linked_list_node_del\<close>: run the delete handler on non-NULL data, free the node.\<close>

definition linked_list_node_del :: "'d linked_list \<Rightarrow> ptr \<Rightarrow> 'd lheap \<Rightarrow> 'd lheap option" where
  "linked_list_node_del l p h = do {
     n \<leftarrow> hload h p;
     a \<leftarrow> p;
     hfree a (case ln_data n of
                Some d \<Rightarrow> (if ll_del l then h\<lparr>dlog := dlog h @ [d]\<rparr> else h)
              | None \<Rightarrow> h)
   }"

text \<open>The header a successful \<^verbatim>\<open>calloc\<close> of \<^verbatim>\<open>ezcfg_linked_list_new\<close> is filled with.\<close>

definition linked_list_init :: "bool \<Rightarrow> ('d \<Rightarrow> 'd \<Rightarrow> int) option \<Rightarrow> 'd linked_list" where
  "linked_list_init del cmp =
     \<lparr>ll_length = 0, ll_head = None, ll_tail = None, ll_del = del, ll_cmp = cmp\<rparr>"

text \<open>
  \<^verbatim>\<open>ezcfg_linked_list_new\<close>: take a reference on the context, then allocate the header
  (\<open>mem\<close> says whether \<^verbatim>\<open>calloc\<close> succeeds); give the reference back when it does not.
\<close>

definition ezcfg_linked_list_new ::
    "(mutex_call \<times> mutex_call) \<Rightarrow> (mutex_call \<times> mutex_call) \<Rightarrow> bool \<Rightarrow> bool \<Rightarrow>
       ('d \<Rightarrow> 'd \<Rightarrow> int) option \<Rightarrow> ezcfg_refs \<Rightarrow> 'd linked_list option \<times> ezcfg_refs" where
  "ezcfg_linked_list_new m1 m2 mem del_hdl cmp_hdl s =
     (let (ret, s1) = ezcfg_inc_ref (fst m1) (snd m1) s in
      if ret \<noteq> EZCFG_RET_OK then (None, s1)
      else if mem then (Some (linked_list_init del_hdl cmp_hdl), s1)
      else (None, snd (ezcfg_dec_ref (fst m2) (snd m2) s1)))"

text \<open>The loop of \<^verbatim>\<open>ezcfg_linked_list_del\<close> over the nodes.\<close>

partial_function (option) linked_list_del_loop ::
    "'d linked_list \<Rightarrow> 'd lheap \<Rightarrow> ('d linked_list \<times> 'd lheap) option" where
  "linked_list_del_loop l h =
     (case ll_head l of
        None \<Rightarrow> Some (l, h)
      | Some a \<Rightarrow> do {
          n \<leftarrow> hload h (ll_head l);
          let l' = l\<lparr>ll_tail := ll_head l, ll_head := ln_next n\<rparr>;
          h' \<leftarrow> linked_list_node_del l' (ll_tail l') h;
          linked_list_del_loop l' h'
        })"

definition ezcfg_linked_list_del ::
    "(mutex_call \<times> mutex_call) \<Rightarrow> 'd linked_list \<Rightarrow> 'd lheap \<Rightarrow> ezcfg_refs \<Rightarrow>
       (int \<times> 'd lheap \<times> ezcfg_refs) option" where
  "ezcfg_linked_list_del m l h s = do {
     (l', h') \<leftarrow> linked_list_del_loop l h;
     Some (EZCFG_RET_OK, h', snd (ezcfg_dec_ref (fst m) (snd m) s))
   }"

text \<open>
  The search loop shared by insert, append and in: the first node whose data compares
  equal, NULL at the end of the chain.  A handler called on NULL data faults.
\<close>

partial_function (option) linked_list_find ::
    "('d \<Rightarrow> 'd \<Rightarrow> int) \<Rightarrow> 'd lheap \<Rightarrow> ptr \<Rightarrow> 'd \<Rightarrow> ptr option" where
  "linked_list_find cmp h np d =
     (case np of
        None \<Rightarrow> Some None
      | Some a \<Rightarrow> do {
          n \<leftarrow> hload h np;
          d' \<leftarrow> ln_data n;
          if cmp d' d = 0 then Some np else linked_list_find cmp h (ln_next n) d
        })"

text \<open>\<^verbatim>\<open>list->data_del_handler(np->data); np->data = data;\<close>\<close>

definition linked_list_replace :: "nat \<Rightarrow> 'd \<Rightarrow> 'd lheap \<Rightarrow> 'd lheap option" where
  "linked_list_replace a d h = do {
     n \<leftarrow> cells h a;
     d' \<leftarrow> ln_data n;
     hstore a (n\<lparr>ln_data := Some d\<rparr>) (h\<lparr>dlog := dlog h @ [d']\<rparr>)
   }"

definition ezcfg_linked_list_insert ::
    "'d linked_list \<Rightarrow> 'd \<Rightarrow> 'd lheap \<Rightarrow> (int \<times> 'd linked_list \<times> 'd lheap) option" where
  "ezcfg_linked_list_insert l d h =
     (case ll_cmp l of
        None \<Rightarrow> Some (EZCFG_RET_FAIL, l, h)
      | Some cmp \<Rightarrow>
          if \<not> ll_del l then Some (EZCFG_RET_FAIL, l, h)
          else do {
            found \<leftarrow> linked_list_find cmp h (ll_head l) d;
            case found of
              Some a \<Rightarrow> do {
                h1 \<leftarrow> linked_list_replace a d h;
                Some (EZCFG_RET_OK, l, h1)
              }
            | None \<Rightarrow>
                (case halloc \<lparr>ln_data = Some d, ln_next = ll_head l\<rparr> h of
                   (None, h1) \<Rightarrow> Some (EZCFG_RET_FAIL, l, h1)
                 | (Some np, h1) \<Rightarrow>
                     Some (EZCFG_RET_OK,
                           l\<lparr>ll_head := Some np,
                             ll_tail := (if ll_tail l = None then Some np else ll_tail l),
                             ll_length := ll_length l + 1\<rparr>, h1))
          })"

definition ezcfg_linked_list_append ::
    "'d linked_list \<Rightarrow> 'd \<Rightarrow> 'd lheap \<Rightarrow> (int \<times> 'd linked_list \<times> 'd lheap) option" where
  "ezcfg_linked_list_append l d h =
     (case ll_cmp l of
        None \<Rightarrow> Some (EZCFG_RET_FAIL, l, h)
      | Some cmp \<Rightarrow>
          if \<not> ll_del l then Some (EZCFG_RET_FAIL, l, h)
          else do {
            found \<leftarrow> linked_list_find cmp h (ll_head l) d;
            case found of
              Some a \<Rightarrow> do {
                h1 \<leftarrow> linked_list_replace a d h;
                Some (EZCFG_RET_OK, l, h1)
              }
            | None \<Rightarrow>
                (case halloc \<lparr>ln_data = Some d, ln_next = None\<rparr> h of
                   (None, h1) \<Rightarrow> Some (EZCFG_RET_FAIL, l, h1)
                 | (Some np, h1) \<Rightarrow>
                     (case ll_tail l of
                        None \<Rightarrow>
                          Some (EZCFG_RET_OK,
                                l\<lparr>ll_head := Some np, ll_tail := Some np,
                                  ll_length := ll_length l + 1\<rparr>, h1)
                      | Some t \<Rightarrow> do {
                          n \<leftarrow> cells h1 t;
                          h2 \<leftarrow> hstore t (n\<lparr>ln_next := Some np\<rparr>) h1;
                          Some (EZCFG_RET_OK,
                                l\<lparr>ll_tail := Some np, ll_length := ll_length l + 1\<rparr>, h2)
                        }))
          })"

text \<open>\<^verbatim>\<open>ezcfg_linked_list_take_data\<close>: unlink the head and hand its data to the caller.\<close>

definition ezcfg_linked_list_take_data ::
    "'d linked_list \<Rightarrow> 'd lheap \<Rightarrow> ('d option \<times> 'd linked_list \<times> 'd lheap) option" where
  "ezcfg_linked_list_take_data l h =
     (case ll_head l of
        None \<Rightarrow> Some (None, l, h)
      | Some a \<Rightarrow> do {
          n \<leftarrow> hload h (ll_head l);
          let l' = l\<lparr>ll_head := ln_next n,
                     ll_tail := (if ll_tail l = Some a then None else ll_tail l)\<rparr>;
          h1 \<leftarrow> hstore a (n\<lparr>ln_data := None\<rparr>) h;
          h2 \<leftarrow> linked_list_node_del l' (Some a) h1;
          Some (ln_data n, l'\<lparr>ll_length := ll_length l - 1\<rparr>, h2)
        })"

text \<open>The second loop of \<^verbatim>\<open>ezcfg_linked_list_remove\<close>, past the head node.\<close>

partial_function (option) linked_list_remove_loop ::
    "('d \<Rightarrow> 'd \<Rightarrow> int) \<Rightarrow> 'd linked_list \<Rightarrow> nat \<Rightarrow> ptr \<Rightarrow> 'd \<Rightarrow> 'd lheap \<Rightarrow>
       (int \<times> 'd linked_list \<times> 'd lheap) option" where
  "linked_list_remove_loop cmp l npp np d h =
     (case np of
        None \<Rightarrow> Some (EZCFG_RET_FAIL, l, h)
      | Some a \<Rightarrow> do {
          n \<leftarrow> hload h np;
          d' \<leftarrow> ln_data n;
          if cmp d' d = 0 then do {
            pn \<leftarrow> cells h npp;
            h1 \<leftarrow> hstore npp (pn\<lparr>ln_next := ln_next n\<rparr>) h;
            let l' = (if ln_next n = None then l\<lparr>ll_tail := Some npp\<rparr> else l);
            h2 \<leftarrow> linked_list_node_del l' np h1;
            Some (EZCFG_RET_OK, l'\<lparr>ll_length := ll_length l' - 1\<rparr>, h2)
          }
          else linked_list_remove_loop cmp l a (ln_next n) d h
        })"

definition ezcfg_linked_list_remove ::
    "'d linked_list \<Rightarrow> 'd \<Rightarrow> 'd lheap \<Rightarrow> (int \<times> 'd linked_list \<times> 'd lheap) option" where
  "ezcfg_linked_list_remove l d h =
     (case ll_cmp l of
        None \<Rightarrow> Some (EZCFG_RET_FAIL, l, h)
      | Some cmp \<Rightarrow>
          if \<not> ll_del l then Some (EZCFG_RET_FAIL, l, h)
          else do {
            n \<leftarrow> hload h (ll_head l);
            a \<leftarrow> ll_head l;
            d' \<leftarrow> ln_data n;
            if cmp d' d = 0 then do {
              let l' = l\<lparr>ll_head := ln_next n,
                         ll_tail := (if ln_next n = None then None else ll_tail l)\<rparr>;
              h1 \<leftarrow> linked_list_node_del l' (Some a) h;
              Some (EZCFG_RET_OK, l'\<lparr>ll_length := ll_length l' - 1\<rparr>, h1)
            }
            else linked_list_remove_loop cmp l a (ln_next n) d h
          })"

definition ezcfg_linked_list_in :: "'d linked_list \<Rightarrow> 'd \<Rightarrow> 'd lheap \<Rightarrow> bool option" where
  "ezcfg_linked_list_in l d h =
     (case ll_cmp l of
        None \<Rightarrow> Some False
      | Some cmp \<Rightarrow> do {
          found \<leftarrow> linked_list_find cmp h (ll_head l) d;
          Some (found \<noteq> None)
        })"

definition ezcfg_linked_list_get_length :: "'d linked_list \<Rightarrow> int" where
  "ezcfg_linked_list_get_length l = ll_length l"

text \<open>\<^verbatim>\<open>while (i > 0) { np = np->next; i--; }\<close>\<close>

fun linked_list_walk :: "nat \<Rightarrow> 'd lheap \<Rightarrow> ptr \<Rightarrow> ptr option" where
  "linked_list_walk 0 h np = Some np"
| "linked_list_walk (Suc i) h np = do { n \<leftarrow> hload h np; linked_list_walk i h (ln_next n) }"

definition ezcfg_linked_list_get_node_data_by_index ::
    "'d linked_list \<Rightarrow> int \<Rightarrow> 'd lheap \<Rightarrow> 'd option option" where
  "ezcfg_linked_list_get_node_data_by_index l i h = do {
     np \<leftarrow> linked_list_walk (nat (i - 1)) h (ll_head l);
     n \<leftarrow> hload h np;
     Some (ln_data n)
   }"

section \<open>Chains of nodes\<close>

text \<open>\<open>lpath c p xs q\<close>: following \<open>next\<close> from \<open>p\<close> visits exactly the (address, datum) pairs
  \<open>xs\<close> and arrives at \<open>q\<close>.\<close>

fun lpath :: "(nat \<Rightarrow> 'd linked_list_node option) \<Rightarrow> ptr \<Rightarrow> (nat \<times> 'd) list \<Rightarrow> ptr \<Rightarrow> bool" where
  "lpath c p [] q \<longleftrightarrow> p = q"
| "lpath c p ((a, d) # xs) q \<longleftrightarrow>
     p = Some a \<and>
     (case c a of None \<Rightarrow> False | Some n \<Rightarrow> ln_data n = Some d \<and> lpath c (ln_next n) xs q)"

definition ll_rep_at ::
    "('d \<Rightarrow> 'd \<Rightarrow> int) \<Rightarrow> 'd lheap \<Rightarrow> 'd linked_list \<Rightarrow> (nat \<times> 'd) list \<Rightarrow> bool" where
  "ll_rep_at cmp h l xs \<longleftrightarrow>
     lpath (cells h) (ll_head l) xs None \<and> distinct (map fst xs) \<and>
     ll_length l = int (length xs) \<and>
     ll_tail l = (if xs = [] then None else Some (fst (last xs))) \<and>
     ll_del l \<and> ll_cmp l = Some cmp \<and> heap_ok h"

definition ll_rep ::
    "('d \<Rightarrow> 'd \<Rightarrow> int) \<Rightarrow> 'd lheap \<Rightarrow> 'd linked_list \<Rightarrow> 'd list \<Rightarrow> bool" where
  "ll_rep cmp h l ds \<longleftrightarrow> (\<exists>xs. ll_rep_at cmp h l xs \<and> map snd xs = ds)"

lemma ll_rep_length: "ll_rep cmp h l ds \<Longrightarrow> ll_length l = int (length ds)"
  by (auto simp: ll_rep_def ll_rep_at_def)

lemma ll_repI: "ll_rep_at cmp h l xs \<Longrightarrow> map snd xs = ds \<Longrightarrow> ll_rep cmp h l ds"
  by (auto simp: ll_rep_def)

lemma lpath_None_start [simp]: "lpath c None xs q \<longleftrightarrow> xs = [] \<and> q = None"
  by (cases xs) auto

lemma lpath_append [simp]:
  "lpath c p (us @ vs) q \<longleftrightarrow> (\<exists>r. lpath c p us r \<and> lpath c r vs q)"
  by (induction c p us q rule: lpath.induct) (auto split: option.splits)

lemma lpath_frame [simp]: "a \<notin> fst ` set xs \<Longrightarrow> lpath (c(a := v)) p xs q \<longleftrightarrow> lpath c p xs q"
  by (induction c p xs q rule: lpath.induct) (auto split: option.splits)

lemma lpath_cells: "lpath c p xs q \<Longrightarrow> (a, d) \<in> set xs \<Longrightarrow> \<exists>n. c a = Some n \<and> ln_data n = Some d"
  by (induction c p xs q rule: lpath.induct) (auto split: option.splits)

lemma lpath_fresh: "lpath (cells h) p xs q \<Longrightarrow> heap_ok h \<Longrightarrow> brk h \<notin> fst ` set xs"
  by (force simp: heap_ok_def dest: lpath_cells)

lemma lpath_replace:
  assumes "lpath c p (us @ (a, x) # vs) q" "distinct (map fst (us @ (a, x) # vs))"
    and "c a = Some n"
  shows "lpath (c(a \<mapsto> n\<lparr>ln_data := Some d\<rparr>)) p (us @ (a, d) # vs) q"
  using assms by (auto simp: image_iff)

lemma find_key_split:
  "(\<forall>a x. (a, x) \<in> set xs \<longrightarrow> cmp x d \<noteq> 0) \<or>
   (\<exists>us a x vs. xs = us @ (a, x) # vs \<and> cmp x d = 0 \<and> \<not> key_in cmp d (map snd us))"
proof (induction xs)
  case Nil
  then show ?case by simp
next
  case (Cons y ys)
  obtain b y' where y: "y = (b, y')" by force
  show ?case
  proof (cases "cmp y' d = 0")
    case True
    then have "y # ys = [] @ (b, y') # ys \<and> cmp y' d = 0 \<and> \<not> key_in cmp d (map snd [])"
      by (simp add: y)
    then show ?thesis by blast
  next
    case False
    from Cons show ?thesis
    proof
      assume "\<forall>a x. (a, x) \<in> set ys \<longrightarrow> cmp x d \<noteq> 0"
      with False y show ?thesis by auto
    next
      assume "\<exists>us a x vs. ys = us @ (a, x) # vs \<and> cmp x d = 0 \<and> \<not> key_in cmp d (map snd us)"
      then obtain us a x vs where "ys = us @ (a, x) # vs" "cmp x d = 0"
        "\<not> key_in cmp d (map snd us)" by blast
      with False y have "y # ys = ((b, y') # us) @ (a, x) # vs \<and> cmp x d = 0 \<and>
        \<not> key_in cmp d (map snd ((b, y') # us))" by simp
      then show ?thesis by blast
    qed
  qed
qed

lemma linked_list_find_simps [simp]:
  "linked_list_find cmp h None d = Some None"
  "linked_list_find cmp h (Some a) d = do {
     n \<leftarrow> cells h a;
     d' \<leftarrow> ln_data n;
     if cmp d' d = 0 then Some (Some a) else linked_list_find cmp h (ln_next n) d
   }"
  by (simp_all add: linked_list_find.simps)

lemma linked_list_find_absent:
  "lpath (cells h) p xs None \<Longrightarrow> \<not> key_in cmp d (map snd xs) \<Longrightarrow>
     linked_list_find cmp h p d = Some None"
proof (induction xs arbitrary: p)
  case Nil
  then show ?case by simp
next
  case (Cons y ys)
  then show ?case by (cases y) (auto split: option.splits)
qed

lemma linked_list_find_present:
  "lpath (cells h) p (us @ (a, x) # vs) None \<Longrightarrow> cmp x d = 0 \<Longrightarrow>
     \<not> key_in cmp d (map snd us) \<Longrightarrow> linked_list_find cmp h p d = Some (Some a)"
proof (induction us arbitrary: p)
  case Nil
  then show ?case by (auto split: option.splits)
next
  case (Cons y ys)
  then show ?case by (cases y) (auto split: option.splits)
qed

lemma key_absent: "\<forall>a x. (a, x) \<in> set xs \<longrightarrow> cmp x d \<noteq> 0 \<Longrightarrow> \<not> key_in cmp d (map snd xs)"
  by (auto simp: key_in_def)

text \<open>The three ways a search can go, with everything a caller needs to know.\<close>

lemma find_cases:
  assumes "ll_rep_at cmp h l xs"
  obtains (absent) "\<not> key_in cmp d (map snd xs)"
      "linked_list_find cmp h (ll_head l) d = Some None"
    | (present) us a x vs n where "xs = us @ (a, x) # vs" "cmp x d = 0"
      "\<not> key_in cmp d (map snd us)" "key_in cmp d (map snd xs)"
      "linked_list_find cmp h (ll_head l) d = Some (Some a)"
      "cells h a = Some n" "ln_data n = Some x"
proof -
  have path: "lpath (cells h) (ll_head l) xs None" using assms by (simp add: ll_rep_at_def)
  consider "\<forall>a x. (a, x) \<in> set xs \<longrightarrow> cmp x d \<noteq> 0"
    | us a x vs where "xs = us @ (a, x) # vs" "cmp x d = 0" "\<not> key_in cmp d (map snd us)"
    using find_key_split [of xs cmp d] by blast
  then show ?thesis
  proof cases
    case 1
    then have "\<not> key_in cmp d (map snd xs)" by (rule key_absent)
    then show ?thesis by (intro absent linked_list_find_absent [OF path])
  next
    case (2 us a x vs)
    with path obtain n where "cells h a = Some n" "ln_data n = Some x"
      using lpath_cells [of "cells h" "ll_head l" xs None a x] by auto
    with 2 path show ?thesis
      by (intro present [of us a x vs n]) (auto intro: linked_list_find_present)
  qed
qed

lemma replace_rep:
  assumes "ll_rep_at cmp h l (us @ (a, x) # vs)" "cells h a = Some n" "ln_data n = Some x"
  obtains h' where "linked_list_replace a d h = Some h'"
    "ll_rep_at cmp h' l (us @ (a, d) # vs)" "dlog h' = dlog h @ [x]"
proof -
  let ?h' = "h\<lparr>dlog := dlog h @ [x], cells := (cells h)(a \<mapsto> n\<lparr>ln_data := Some d\<rparr>)\<rparr>"
  have "linked_list_replace a d h = Some ?h'"
    using assms(2,3) by (simp add: linked_list_replace_def hstore_def)
  moreover have "ll_rep_at cmp ?h' l (us @ (a, d) # vs)"
    using assms lpath_replace [of "cells h" "ll_head l" us a x vs None n d]
    by (auto simp: ll_rep_at_def heap_ok_def)
  moreover have "dlog ?h' = dlog h @ [x]" by simp
  ultimately show ?thesis by (rule that)
qed

section \<open>Insert and append refine the abstract operations\<close>

lemma insert_refines_at:
  assumes rep: "ll_rep_at cmp h l xs"
  obtains ret l' h' ys where "ezcfg_linked_list_insert l d h = Some (ret, l', h')"
    "ll_rep_at cmp h' l' ys"
    "ret = (if key_in cmp d (map snd xs) \<or> \<not> oom h (brk h) then EZCFG_RET_OK else EZCFG_RET_FAIL)"
    "map snd ys = (if ret = EZCFG_RET_OK then insert_spec cmp d (map snd xs) else map snd xs)"
    "dlog h' = dlog h @ evicted cmp d (map snd xs)"
  using rep
proof (cases rule: find_cases [where d = d])
  case absent
  have l: "ll_cmp l = Some cmp" "ll_del l" using rep by (simp_all add: ll_rep_at_def)
  show ?thesis
  proof (cases "oom h (brk h)")
    case True
    with absent l have "ezcfg_linked_list_insert l d h =
        Some (EZCFG_RET_FAIL, l, h\<lparr>brk := Suc (brk h)\<rparr>)"
      by (simp add: ezcfg_linked_list_insert_def halloc_def)
    from that [OF this, of xs] True absent rep show ?thesis by (simp add: ll_rep_at_def)
  next
    case False
    let ?n = "\<lparr>ln_data = Some d, ln_next = ll_head l\<rparr>"
    let ?h' = "h\<lparr>cells := (cells h)(brk h \<mapsto> ?n), brk := Suc (brk h)\<rparr>"
    let ?l' = "l\<lparr>ll_head := Some (brk h),
                 ll_tail := (if ll_tail l = None then Some (brk h) else ll_tail l),
                 ll_length := ll_length l + 1\<rparr>"
    have "ezcfg_linked_list_insert l d h = Some (EZCFG_RET_OK, ?l', ?h')"
      using False absent l by (simp add: ezcfg_linked_list_insert_def halloc_def)
    moreover have "ll_rep_at cmp ?h' ?l' ((brk h, d) # xs)"
      using rep lpath_fresh [of h "ll_head l" xs None] by (auto simp: ll_rep_at_def)
    ultimately show ?thesis
      using that [of EZCFG_RET_OK ?l' ?h'] absent False by (simp add: insert_spec_def)
  qed
next
  case (present us a x vs n)
  have l: "ll_cmp l = Some cmp" "ll_del l" using rep by (simp_all add: ll_rep_at_def)
  obtain h' where h': "linked_list_replace a d h = Some h'"
    "ll_rep_at cmp h' l (us @ (a, d) # vs)" "dlog h' = dlog h @ [x]"
    using replace_rep [of cmp h l us a x vs n d] rep present by metis
  have "ezcfg_linked_list_insert l d h = Some (EZCFG_RET_OK, l, h')"
    using present l h' by (simp add: ezcfg_linked_list_insert_def)
  from that [OF this h'(2)] present h'(3) show ?thesis
    by (simp add: insert_spec_def present_split_simps)
qed

lemma append_refines_at:
  assumes rep: "ll_rep_at cmp h l xs"
  obtains ret l' h' ys where "ezcfg_linked_list_append l d h = Some (ret, l', h')"
    "ll_rep_at cmp h' l' ys"
    "ret = (if key_in cmp d (map snd xs) \<or> \<not> oom h (brk h) then EZCFG_RET_OK else EZCFG_RET_FAIL)"
    "map snd ys = (if ret = EZCFG_RET_OK then append_spec cmp d (map snd xs) else map snd xs)"
    "dlog h' = dlog h @ evicted cmp d (map snd xs)"
  using rep
proof (cases rule: find_cases [where d = d])
  case absent
  have l: "ll_cmp l = Some cmp" "ll_del l" using rep by (simp_all add: ll_rep_at_def)
  have fresh: "brk h \<notin> fst ` set xs"
    using rep lpath_fresh [of h "ll_head l" xs None] by (simp add: ll_rep_at_def)
  let ?c = "(cells h)(brk h \<mapsto> \<lparr>ln_data = Some d, ln_next = None\<rparr>)"
  show ?thesis
  proof (cases "oom h (brk h)")
    case True
    with absent l have "ezcfg_linked_list_append l d h =
        Some (EZCFG_RET_FAIL, l, h\<lparr>brk := Suc (brk h)\<rparr>)"
      by (simp add: ezcfg_linked_list_append_def halloc_def)
    from that [OF this, of xs] True absent rep show ?thesis by (simp add: ll_rep_at_def)
  next
    case alloc: False
    show ?thesis
    proof (cases xs rule: rev_cases)
      case Nil
      let ?h' = "h\<lparr>cells := ?c, brk := Suc (brk h)\<rparr>"
      let ?l' = "l\<lparr>ll_head := Some (brk h), ll_tail := Some (brk h), ll_length := ll_length l + 1\<rparr>"
      have "ezcfg_linked_list_append l d h = Some (EZCFG_RET_OK, ?l', ?h')"
        using alloc absent l rep Nil
        by (simp add: ezcfg_linked_list_append_def halloc_def ll_rep_at_def)
      moreover have "ll_rep_at cmp ?h' ?l' [(brk h, d)]"
        using rep Nil by (auto simp: ll_rep_at_def)
      ultimately show ?thesis
        using that [of EZCFG_RET_OK ?l' ?h'] alloc absent Nil by (simp add: append_spec_def)
    next
      case (snoc us y)
      obtain t x where y: "y = (t, x)" by force
      obtain n where n: "cells h t = Some n" "ln_data n = Some x"
        using rep snoc y lpath_cells [of "cells h" "ll_head l" xs None t x]
        by (auto simp: ll_rep_at_def)
      have t: "t \<noteq> brk h" "ll_tail l = Some t" using fresh snoc y rep by (auto simp: ll_rep_at_def)
      let ?h' = "h\<lparr>cells := ?c(t \<mapsto> n\<lparr>ln_next := Some (brk h)\<rparr>), brk := Suc (brk h)\<rparr>"
      let ?l' = "l\<lparr>ll_tail := Some (brk h), ll_length := ll_length l + 1\<rparr>"
      have "ezcfg_linked_list_append l d h = Some (EZCFG_RET_OK, ?l', ?h')"
        using alloc absent l t n
        by (simp add: ezcfg_linked_list_append_def halloc_def hstore_def)
      moreover have "ll_rep_at cmp ?h' ?l' (us @ [(t, x), (brk h, d)])"
        using rep snoc y n t fresh heap_ok_fresh [of h t]
        by (auto simp: ll_rep_at_def heap_ok_def image_iff split: option.splits)
      ultimately show ?thesis
        using that [of EZCFG_RET_OK ?l' ?h'] alloc absent snoc y by (simp add: append_spec_def)
    qed
  qed
next
  case (present us a x vs n)
  have l: "ll_cmp l = Some cmp" "ll_del l" using rep by (simp_all add: ll_rep_at_def)
  obtain h' where h': "linked_list_replace a d h = Some h'"
    "ll_rep_at cmp h' l (us @ (a, d) # vs)" "dlog h' = dlog h @ [x]"
    using replace_rep [of cmp h l us a x vs n d] rep present by metis
  have "ezcfg_linked_list_append l d h = Some (EZCFG_RET_OK, l, h')"
    using present l h' by (simp add: ezcfg_linked_list_append_def)
  from that [OF this h'(2)] present h'(3) show ?thesis
    by (simp add: append_spec_def present_split_simps)
qed

section \<open>Unlinking nodes\<close>

lemma node_del_data:
  "cells h a = Some n \<Longrightarrow> ln_data n = Some d \<Longrightarrow> ll_del l \<Longrightarrow>
     linked_list_node_del l (Some a) h =
       Some (h\<lparr>dlog := dlog h @ [d], cells := (cells h)(a := None)\<rparr>)"
  by (simp add: linked_list_node_del_def hfree_def)

lemma node_del_NULL_data:
  "cells h a = Some n \<Longrightarrow> ln_data n = None \<Longrightarrow>
     linked_list_node_del l (Some a) h = Some (h\<lparr>cells := (cells h)(a := None)\<rparr>)"
  by (simp add: linked_list_node_del_def hfree_def)

lemma heap_ok_free: "heap_ok h \<Longrightarrow> heap_ok (h\<lparr>cells := (cells h)(a := None)\<rparr>)"
  by (simp add: heap_ok_def)

lemma take_data_refines_at:
  assumes rep: "ll_rep_at cmp h l xs"
  obtains l' h' where
    "ezcfg_linked_list_take_data l h =
       Some (case xs of [] \<Rightarrow> None | x # _ \<Rightarrow> Some (snd x), l', h')"
    "ll_rep_at cmp h' l' (tl xs)" "dlog h' = dlog h"
proof (cases xs)
  case Nil
  with rep have "ll_head l = None" by (simp add: ll_rep_at_def)
  with that [of l h] Nil rep show ?thesis by (simp add: ezcfg_linked_list_take_data_def)
next
  case (Cons y ys)
  obtain a d where y: "y = (a, d)" by force
  from rep Cons y obtain n where n: "cells h a = Some n" "ln_data n = Some d"
    "ll_head l = Some a" "lpath (cells h) (ln_next n) ys None" "a \<notin> fst ` set ys"
    by (auto simp: ll_rep_at_def image_iff split: option.splits)
  let ?h' = "h\<lparr>cells := (cells h)(a := None)\<rparr>"
  let ?l' = "l\<lparr>ll_head := ln_next n, ll_tail := (if ll_tail l = Some a then None else ll_tail l),
              ll_length := ll_length l - 1\<rparr>"
  have "ezcfg_linked_list_take_data l h = Some (Some d, ?l', ?h')"
    using n by (simp add: ezcfg_linked_list_take_data_def hstore_def node_del_NULL_data)
  moreover have "ll_rep_at cmp ?h' ?l' ys"
    using rep Cons y n
    by (cases ys rule: rev_cases) (auto simp: ll_rep_at_def heap_ok_free image_iff)
  ultimately show ?thesis using that [of ?l' ?h'] Cons y by simp
qed

lemma linked_list_remove_loop_simps [simp]:
  "linked_list_remove_loop cmp l npp None d h = Some (EZCFG_RET_FAIL, l, h)"
  "linked_list_remove_loop cmp l npp (Some a) d h = do {
     n \<leftarrow> cells h a;
     d' \<leftarrow> ln_data n;
     if cmp d' d = 0 then do {
       pn \<leftarrow> cells h npp;
       h1 \<leftarrow> hstore npp (pn\<lparr>ln_next := ln_next n\<rparr>) h;
       let l' = (if ln_next n = None then l\<lparr>ll_tail := Some npp\<rparr> else l);
       h2 \<leftarrow> linked_list_node_del l' (Some a) h1;
       Some (EZCFG_RET_OK, l'\<lparr>ll_length := ll_length l' - 1\<rparr>, h2)
     }
     else linked_list_remove_loop cmp l a (ln_next n) d h
   }"
  by (simp_all add: linked_list_remove_loop.simps)

text \<open>Unlinking the successor of a node inside the chain.\<close>

lemma unlink_next_rep:
  assumes rep: "ll_rep_at cmp h l (us @ (p, x) # (a, y) # vs)"
    and p: "cells h p = Some pn" and a: "cells h a = Some n" "ln_data n = Some y"
  defines "l' \<equiv> (if ln_next n = None then l\<lparr>ll_tail := Some p\<rparr> else l)"
  obtains h' where
    "do { h1 \<leftarrow> hstore p (pn\<lparr>ln_next := ln_next n\<rparr>) h; linked_list_node_del l' (Some a) h1 }
       = Some h'"
    "ll_rep_at cmp h' (l'\<lparr>ll_length := ll_length l' - 1\<rparr>) (us @ (p, x) # vs)"
    "dlog h' = dlog h @ [y]"
proof -
  let ?h' = "h\<lparr>dlog := dlog h @ [y],
              cells := ((cells h)(p \<mapsto> pn\<lparr>ln_next := ln_next n\<rparr>))(a := None)\<rparr>"
  have neq: "p \<noteq> a" and del: "ll_del l'" using rep by (auto simp: ll_rep_at_def l'_def)
  have "do { h1 \<leftarrow> hstore p (pn\<lparr>ln_next := ln_next n\<rparr>) h; linked_list_node_del l' (Some a) h1 }
      = Some ?h'"
    using p a neq del by (simp add: hstore_def node_del_data)
  moreover have "heap_ok ?h'"
    using rep p heap_ok_fresh [of h p] by (auto simp: ll_rep_at_def heap_ok_def)
  then have "ll_rep_at cmp ?h' (l'\<lparr>ll_length := ll_length l' - 1\<rparr>) (us @ (p, x) # vs)"
    using rep p a neq by (auto simp: ll_rep_at_def l'_def image_iff split: option.splits)
  ultimately show ?thesis using that [of ?h'] by simp
qed

lemma remove_loop_refines:
  assumes "ll_rep_at cmp h l (us @ (p, x) # vs)" "cells h p = Some pn"
  shows "\<exists>ret l' h' ys. linked_list_remove_loop cmp l p (ln_next pn) d h = Some (ret, l', h') \<and>
    ll_rep_at cmp h' l' (us @ (p, x) # ys) \<and> map snd ys = remove_first cmp d (map snd vs) \<and>
    ret = (if key_in cmp d (map snd vs) then EZCFG_RET_OK else EZCFG_RET_FAIL) \<and>
    dlog h' = dlog h @ evicted cmp d (map snd vs)"
  using assms
proof (induction vs arbitrary: us p x pn)
  case Nil
  then have "ln_next pn = None" by (auto simp: ll_rep_at_def)
  with Nil show ?case by auto
next
  case (Cons v vs)
  obtain a y where v: "v = (a, y)" by force
  from Cons.prems v obtain n where n: "ln_next pn = Some a" "cells h a = Some n" "ln_data n = Some y"
    by (auto simp: ll_rep_at_def split: option.splits)
  show ?case
  proof (cases "cmp y d = 0")
    case True
    obtain h' where h':
      "do { h1 \<leftarrow> hstore p (pn\<lparr>ln_next := ln_next n\<rparr>) h;
            linked_list_node_del (if ln_next n = None then l\<lparr>ll_tail := Some p\<rparr> else l) (Some a) h1 }
         = Some h'" and rep': "ll_rep_at cmp h'
        ((if ln_next n = None then l\<lparr>ll_tail := Some p\<rparr> else l)\<lparr>ll_length :=
           ll_length (if ln_next n = None then l\<lparr>ll_tail := Some p\<rparr> else l) - 1\<rparr>) (us @ (p, x) # vs)"
      and log: "dlog h' = dlog h @ [y]"
      using unlink_next_rep [of cmp h l us p x a y vs pn n] Cons.prems n v by blast
    then show ?thesis
      using True n v Cons.prems(2) by (auto simp: Let_def bind_eq_Some_conv hstore_def)
  next
    case False
    from Cons.prems(1) v have "ll_rep_at cmp h l ((us @ [(p, x)]) @ (a, y) # vs)" by simp
    from Cons.IH [OF this n(2)] obtain ret l' h' ys where
      "linked_list_remove_loop cmp l a (ln_next n) d h = Some (ret, l', h')"
      "ll_rep_at cmp h' l' ((us @ [(p, x)]) @ (a, y) # ys)"
      "map snd ys = remove_first cmp d (map snd vs)"
      "ret = (if key_in cmp d (map snd vs) then EZCFG_RET_OK else EZCFG_RET_FAIL)"
      "dlog h' = dlog h @ evicted cmp d (map snd vs)" by blast
    with False n v show ?thesis by (auto intro!: exI [of _ "(a, y) # ys"])
  qed
qed

lemma remove_refines_at:
  assumes rep: "ll_rep_at cmp h l xs" and "xs \<noteq> []"
  shows "\<exists>ret l' h' ys. ezcfg_linked_list_remove l d h = Some (ret, l', h') \<and>
    ll_rep_at cmp h' l' ys \<and> map snd ys = remove_first cmp d (map snd xs) \<and>
    ret = (if key_in cmp d (map snd xs) then EZCFG_RET_OK else EZCFG_RET_FAIL) \<and>
    dlog h' = dlog h @ evicted cmp d (map snd xs)"
proof -
  from assms obtain a y vs n where xs: "xs = (a, y) # vs" and n: "ll_head l = Some a"
    "cells h a = Some n" "ln_data n = Some y" "lpath (cells h) (ln_next n) vs None"
    by (cases xs) (auto simp: ll_rep_at_def split: option.splits)
  have l: "ll_cmp l = Some cmp" "ll_del l" using rep by (simp_all add: ll_rep_at_def)
  show ?thesis
  proof (cases "cmp y d = 0")
    case True
    let ?h' = "h\<lparr>dlog := dlog h @ [y], cells := (cells h)(a := None)\<rparr>"
    let ?l' = "l\<lparr>ll_head := ln_next n, ll_tail := (if ln_next n = None then None else ll_tail l),
                ll_length := ll_length l - 1\<rparr>"
    have "ezcfg_linked_list_remove l d h = Some (EZCFG_RET_OK, ?l', ?h')"
      using True n l by (simp add: ezcfg_linked_list_remove_def node_del_data)
    moreover have "heap_ok ?h'" using rep by (auto simp: ll_rep_at_def heap_ok_def)
    then have "ll_rep_at cmp ?h' ?l' vs"
      using rep xs n by (cases vs) (auto simp: ll_rep_at_def image_iff split: option.splits)
    ultimately show ?thesis using True xs by auto
  next
    case False
    from rep xs have "ll_rep_at cmp h l ([] @ (a, y) # vs)" by simp
    from remove_loop_refines [OF this n(2), of d] False xs n l show ?thesis
      by (auto simp: ezcfg_linked_list_remove_def intro!: exI [of _ "(a, y) # _"])
  qed
qed

section \<open>Search, length, indexing, deletion\<close>

lemma in_refines:
  assumes "ll_rep cmp h l ds"
  shows "ezcfg_linked_list_in l d h = Some (key_in cmp d ds)"
proof -
  from assms obtain xs where xs: "ll_rep_at cmp h l xs" "map snd xs = ds" by (auto simp: ll_rep_def)
  then have "ll_cmp l = Some cmp" by (simp add: ll_rep_at_def)
  with xs show ?thesis
    by (cases rule: find_cases [OF xs(1), where d = d]) (auto simp: ezcfg_linked_list_in_def)
qed

lemma linked_list_walk_path:
  "lpath (cells h) p xs q \<Longrightarrow> i < length xs \<Longrightarrow> linked_list_walk i h p = Some (Some (fst (xs ! i)))"
proof (induction xs arbitrary: i p)
  case Nil
  then show ?case by simp
next
  case (Cons y ys)
  then show ?case by (cases y; cases i) (auto split: option.splits)
qed

lemma get_by_index_refines:
  assumes "ll_rep cmp h l ds" "1 \<le> i" "i \<le> int (length ds)"
  shows "ezcfg_linked_list_get_node_data_by_index l i h = Some (Some (ds ! nat (i - 1)))"
proof -
  from assms(1) obtain xs where xs: "ll_rep_at cmp h l xs" and ds: "map snd xs = ds"
    by (auto simp: ll_rep_def)
  let ?k = "nat (i - 1)"
  have k: "?k < length xs" using assms(2,3) ds by auto
  have path: "lpath (cells h) (ll_head l) xs None" using xs by (simp add: ll_rep_at_def)
  obtain n where "cells h (fst (xs ! ?k)) = Some n" "ln_data n = Some (snd (xs ! ?k))"
    using lpath_cells [OF path, of "fst (xs ! ?k)" "snd (xs ! ?k)"] nth_mem [OF k] by auto
  with k ds linked_list_walk_path [OF path k] show ?thesis
    by (auto simp: ezcfg_linked_list_get_node_data_by_index_def)
qed

lemma linked_list_del_loop_path:
  "lpath (cells h) (ll_head l) xs None \<Longrightarrow> distinct (map fst xs) \<Longrightarrow> ll_del l \<Longrightarrow>
     \<exists>l' h'. linked_list_del_loop l h = Some (l', h') \<and> dlog h' = dlog h @ map snd xs \<and>
       cells h' = (\<lambda>a. if a \<in> fst ` set xs then None else cells h a)"
proof (induction xs arbitrary: l h)
  case Nil
  then show ?case by (auto simp: linked_list_del_loop.simps [of l h])
next
  case (Cons y ys)
  obtain a d where y: "y = (a, d)" by force
  with Cons.prems obtain n where n: "ll_head l = Some a" "cells h a = Some n" "ln_data n = Some d"
    "lpath (cells h) (ln_next n) ys None" by (auto split: option.splits)
  let ?l = "l\<lparr>ll_tail := Some a, ll_head := ln_next n\<rparr>"
  let ?h = "h\<lparr>dlog := dlog h @ [d], cells := (cells h)(a := None)\<rparr>"
  have step: "linked_list_del_loop l h = linked_list_del_loop ?l ?h"
    using n Cons.prems(3) by (simp add: linked_list_del_loop.simps [of l h] node_del_data)
  have ys: "a \<notin> fst ` set ys" "distinct (map fst ys)" "ll_del ?l" using Cons.prems(2,3) y by auto
  then have "lpath (cells ?h) (ll_head ?l) ys None" using n(4) by simp
  from Cons.IH [OF this ys(2,3)] obtain l' h' where "linked_list_del_loop ?l ?h = Some (l', h')"
    "dlog h' = dlog ?h @ map snd ys" "cells h' = (\<lambda>b. if b \<in> fst ` set ys then None else cells ?h b)"
    by blast
  then show ?case using step y by (auto simp: fun_eq_iff)
qed

section \<open>The lists implement the keyed-list interface\<close>

interpretation elist: keyed_list ll_rep ezcfg_linked_list_append dlog
proof
  fix cmp and h :: "'d lheap" and l ds d
  assume "ll_rep cmp h l ds"
  then obtain xs where xs: "ll_rep_at cmp h l xs" and ds: "map snd xs = ds"
    by (auto simp: ll_rep_def)
  from append_refines_at [OF xs, of d] obtain ret l' h' ys where
    "ezcfg_linked_list_append l d h = Some (ret, l', h')" "ll_rep_at cmp h' l' ys"
    "ret = (if key_in cmp d ds \<or> \<not> oom h (brk h) then EZCFG_RET_OK else EZCFG_RET_FAIL)"
    "map snd ys = (if ret = EZCFG_RET_OK then append_spec cmp d ds else ds)"
    "dlog h' = dlog h @ evicted cmp d ds"
    unfolding ds .
  then show "\<exists>ret l' h'. ezcfg_linked_list_append l d h = Some (ret, l', h') \<and>
      (ret = EZCFG_RET_OK \<and> ll_rep cmp h' l' (append_spec cmp d ds) \<and>
         dlog h' = dlog h @ evicted cmp d ds
       \<or> ret = EZCFG_RET_FAIL \<and> ll_rep cmp h' l' ds \<and> dlog h' = dlog h)"
    by (auto intro: ll_repI split: if_splits)
qed

lemma ll_rep_init: "heap_ok h \<Longrightarrow> ll_rep cmp h (linked_list_init True (Some cmp)) []"
  by (simp add: ll_rep_def ll_rep_at_def linked_list_init_def)

section \<open>Properties\<close>

text \<open>Inserting a datum into a represented list always returns; it returns OK exactly
  when an equal datum is present (which is then replaced in place and handed to the delete
  handler) or the allocation succeeds (the datum becomes the head), and on failure the list
  is unchanged.\<close>

theorem linked_list_insert_refines:
  assumes "ll_rep cmp h l ds"
  shows "\<exists>ret l' h'. ezcfg_linked_list_insert l d h = Some (ret, l', h') \<and>
    ret = (if key_in cmp d ds \<or> \<not> oom h (brk h) then EZCFG_RET_OK else EZCFG_RET_FAIL) \<and>
    ll_rep cmp h' l' (if ret = EZCFG_RET_OK then insert_spec cmp d ds else ds) \<and>
    dlog h' = dlog h @ evicted cmp d ds"
proof -
  from assms obtain xs where xs: "ll_rep_at cmp h l xs" and ds: "map snd xs = ds"
    by (auto simp: ll_rep_def)
  from insert_refines_at [OF xs, of d] obtain ret l' h' ys where
    r: "ezcfg_linked_list_insert l d h = Some (ret, l', h')" "ll_rep_at cmp h' l' ys"
    "ret = (if key_in cmp d ds \<or> \<not> oom h (brk h) then EZCFG_RET_OK else EZCFG_RET_FAIL)"
    "map snd ys = (if ret = EZCFG_RET_OK then insert_spec cmp d ds else ds)"
    "dlog h' = dlog h @ evicted cmp d ds"
    unfolding ds .
  from ll_repI [OF r(2,4)] r(1,3,5) show ?thesis by blast
qed

text \<open>A one-element list on a heap of one node, and the empty list, for the witnesses.\<close>

definition sample_heap :: "int lheap" where
  "sample_heap = \<lparr>cells = [0 \<mapsto> \<lparr>ln_data = Some 7, ln_next = None\<rparr>], brk = 1, oom = (\<lambda>_. False),
     dlog = []\<rparr>"

definition sample_list :: "int linked_list" where
  "sample_list = \<lparr>ll_length = 1, ll_head = Some 0, ll_tail = Some 0, ll_del = True,
     ll_cmp = Some (\<lambda>x y. x - y)\<rparr>"

lemma sample_rep: "ll_rep (\<lambda>x y. x - y) sample_heap sample_list [7]"
  by (rule ll_repI [of _ _ _ "[(0, 7)]"])
    (simp_all add: ll_rep_at_def sample_heap_def sample_list_def heap_ok_def)

theorem linked_list_insert_refines_witness:
  "ll_rep (\<lambda>x y. x - y) sample_heap sample_list [7] \<and>
   (\<exists>l' h'. ezcfg_linked_list_insert sample_list 5 sample_heap = Some (EZCFG_RET_OK, l', h') \<and>
      ll_rep (\<lambda>x y. x - y) h' l' [5, 7] \<and> dlog h' = [])"
  using linked_list_insert_refines [OF sample_rep, of 5] sample_rep
  by (auto simp: insert_spec_def sample_heap_def)

text \<open>Appending a sequence of data through \<^verbatim>\<open>ezcfg_linked_list_append\<close> returns; when
  every append succeeds, what the list then holds together with what the delete handler
  received is exactly what the list held and received before plus the appended data, so no
  datum is lost, duplicated or freed while still linked.\<close>

theorem linked_list_append_conserves:
  assumes "ll_rep cmp h l xs"
    and "append_all ezcfg_linked_list_append l ds h = Some (EZCFG_RET_OK, l', h')"
  shows "\<exists>ys. ll_rep cmp h' l' ys \<and> mset ys + mset (dlog h') = mset xs + mset ds + mset (dlog h)"
  using assms by (rule elist.append_all_conserves)

theorem linked_list_append_conserves_witness:
  "\<exists>l' h' ys. append_all ezcfg_linked_list_append sample_list [3, 7] sample_heap =
       Some (EZCFG_RET_OK, l', h') \<and> ll_rep (\<lambda>x y. x - y) h' l' ys \<and>
     mset ys + mset (dlog h') = {#7, 3, 7#}"
proof -
  obtain l' h' where run:
    "append_all ezcfg_linked_list_append sample_list [3, 7] sample_heap = Some (EZCFG_RET_OK, l', h')"
    by (simp add: ezcfg_linked_list_append_def sample_list_def sample_heap_def halloc_def hstore_def
        linked_list_replace_def)
  from linked_list_append_conserves [OF sample_rep run] run show ?thesis
    by (auto simp: sample_heap_def)
qed

text \<open>Removing from a non-empty list returns; it reports success exactly when some datum
  compares equal, unlinks the first such datum (head, middle or last node, with the tail and
  the length kept right) and hands exactly it to the delete handler.\<close>

theorem linked_list_remove_refines:
  assumes "ll_rep cmp h l ds" and "ds \<noteq> []"
  shows "\<exists>ret l' h'. ezcfg_linked_list_remove l d h = Some (ret, l', h') \<and>
    ret = (if key_in cmp d ds then EZCFG_RET_OK else EZCFG_RET_FAIL) \<and>
    ll_rep cmp h' l' (remove_first cmp d ds) \<and> dlog h' = dlog h @ evicted cmp d ds"
proof -
  from assms obtain xs where xs: "ll_rep_at cmp h l xs" and ds: "map snd xs = ds" and "xs \<noteq> []"
    by (auto simp: ll_rep_def)
  from remove_refines_at [OF xs \<open>xs \<noteq> []\<close>, of d] show ?thesis unfolding ds by (blast intro: ll_repI)
qed

theorem linked_list_remove_refines_witness:
  "\<exists>l' h'. ezcfg_linked_list_remove sample_list 7 sample_heap = Some (EZCFG_RET_OK, l', h') \<and>
     ll_rep (\<lambda>x y. x - y) h' l' [] \<and> dlog h' = [7]"
  using linked_list_remove_refines [OF sample_rep, of 7] by (auto simp: sample_heap_def)

text \<open>Removing anything from an empty list dereferences the NULL head: the model reports
  the fault instead of a return code, for every heap and every datum.\<close>

theorem linked_list_remove_empty_faults:
  assumes "ll_rep cmp h l []"
  shows "ezcfg_linked_list_remove l d h = None"
  using assms by (auto simp: ll_rep_def ll_rep_at_def ezcfg_linked_list_remove_def)

theorem linked_list_remove_empty_faults_witness:
  "ezcfg_linked_list_remove (linked_list_init True (Some (\<lambda>x y. x - y))) 7
     (sample_heap\<lparr>cells := (\<lambda>_. None)\<rparr>) = None"
  by (rule linked_list_remove_empty_faults [OF ll_rep_init]) (simp add: heap_ok_def)

text \<open>Deleting a list returns OK, hands every datum to the delete handler once and in
  order, frees exactly the nodes of the list, and drops one context reference.\<close>

theorem linked_list_del_releases:
  assumes "ll_rep_at cmp h l xs" and "posix_mutex_call (fst m)" and "posix_mutex_call (snd m)"
    and "ezcfg_ref_counter s > 1"
  shows "\<exists>h'. ezcfg_linked_list_del m l h s =
      Some (EZCFG_RET_OK, h', s\<lparr>ezcfg_ref_counter := ezcfg_ref_counter s - 1\<rparr>) \<and>
    dlog h' = dlog h @ map snd xs \<and>
    cells h' = (\<lambda>a. if a \<in> fst ` set xs then None else cells h a)"
  using linked_list_del_loop_path [of h l xs] assms
  by (auto simp: ezcfg_linked_list_del_def ll_rep_at_def dec_ref_posix)

theorem linked_list_del_releases_witness:
  "\<exists>h'. ezcfg_linked_list_del (\<lambda>_. (0, 0), \<lambda>_. (0, 0)) sample_list sample_heap
       \<lparr>ezcfg_ref_counter = 2, this_ezcfg = Some 9\<rparr> =
     Some (EZCFG_RET_OK, h', \<lparr>ezcfg_ref_counter = 1, this_ezcfg = Some 9\<rparr>) \<and> dlog h' = [7]"
proof -
  have "ll_rep_at (\<lambda>x y. x - y) sample_heap sample_list [(0, 7)]"
    by (simp add: ll_rep_at_def sample_heap_def sample_list_def heap_ok_def)
  from linked_list_del_releases [OF this, of "(\<lambda>_. (0, 0), \<lambda>_. (0, 0))"
      "\<lparr>ezcfg_ref_counter = 2, this_ezcfg = Some 9\<rparr>"]
  show ?thesis by (auto simp: posix_mutex_call_def sample_heap_def)
qed

end
