(* ===== verification/Json_Nvram.thy ===== *)
theory Json_Nvram
  imports Json_Safety Linked_List
begin

text \<open>
  From a JSON text to the list of name-value pairs the configuration store works on:
  the context's copy of the linked list (\<^verbatim>\<open>src/common/linked_list.c\<close>), the pairs of
  \<^verbatim>\<open>src/common/nv_pair.c\<close>, \<^verbatim>\<open>local_json_build_nvram_node_list\<close> and
  \<^verbatim>\<open>local_json_is_nvram_representation\<close> of \<^verbatim>\<open>src/common/json.c\<close>, and the two predicates of
  \<^verbatim>\<open>src/basic/json/json_nvram.c\<close>.
\<close>

section \<open>The context's linked list\<close>

text \<open>The same code as \<^verbatim>\<open>basic/linked_list\<close> without a context reference and with a bool result.\<close>

definition local_linked_list_new ::
    "bool \<Rightarrow> bool \<Rightarrow> ('d \<Rightarrow> 'd \<Rightarrow> int) option \<Rightarrow> 'd linked_list option" where
  "local_linked_list_new mem del_hdl cmp_hdl =
     (if mem then Some (linked_list_init del_hdl cmp_hdl) else None)"

definition local_linked_list_del :: "'d linked_list \<Rightarrow> 'd lheap \<Rightarrow> 'd lheap option" where
  "local_linked_list_del l h = map_option snd (linked_list_del_loop l h)"

definition local_linked_list_insert ::
    "'d linked_list \<Rightarrow> 'd \<Rightarrow> 'd lheap \<Rightarrow> (bool \<times> 'd linked_list \<times> 'd lheap) option" where
  "local_linked_list_insert l d h = do {
     (ret, l', h') \<leftarrow> ezcfg_linked_list_insert l d h;
     Some (ret = EZCFG_RET_OK, l', h')
   }"

definition local_linked_list_append ::
    "'d linked_list \<Rightarrow> 'd \<Rightarrow> 'd lheap \<Rightarrow> (bool \<times> 'd linked_list \<times> 'd lheap) option" where
  "local_linked_list_append l d h = do {
     (ret, l', h') \<leftarrow> ezcfg_linked_list_append l d h;
     Some (ret = EZCFG_RET_OK, l', h')
   }"

definition local_linked_list_get_length :: "'d linked_list \<Rightarrow> int" where
  "local_linked_list_get_length l = ll_length l"

definition local_linked_list_get_node_data_by_index ::
    "'d linked_list \<Rightarrow> int \<Rightarrow> 'd lheap \<Rightarrow> 'd option option" where
  "local_linked_list_get_node_data_by_index l i h = ezcfg_linked_list_get_node_data_by_index l i h"

section \<open>Name-value pairs\<close>

record nv_pair =
  nv_name :: string
  nv_value :: string

definition local_nv_pair_cmp_handler :: "nv_pair \<Rightarrow> nv_pair \<Rightarrow> int" where
  "local_nv_pair_cmp_handler d1 d2 = strcmp (nv_name d1) (nv_name d2)"

section \<open>Building the list\<close>

text \<open>
  The loop of \<^verbatim>\<open>local_json_build_nvram_node_list\<close>.  \<open>linked\<close> says that the variable \<^verbatim>\<open>data\<close>
  still holds the pair appended by the previous iteration: the label \<^verbatim>\<open>exit_fail\<close> then frees
  it and \<^verbatim>\<open>local_linked_list_del\<close> frees it again, a fault.  The result is the list, or
  NULL after the failure path.
\<close>

definition build_fail ::
    "bool \<Rightarrow> nv_pair linked_list \<Rightarrow> nv_pair lheap \<Rightarrow> (nv_pair linked_list option \<times> nv_pair lheap) option" where
  "build_fail linked l h =
     (if linked then None else do { h' \<leftarrow> local_linked_list_del l h; Some (None, h') })"

partial_function (option) build_nvram_loop ::
    "json \<Rightarrow> ptr \<Rightarrow> bool \<Rightarrow> nv_pair linked_list \<Rightarrow> nv_pair lheap \<Rightarrow>
       (nv_pair linked_list option \<times> nv_pair lheap) option" where
  "build_nvram_loop j np linked l h =
     (case np of
        None \<Rightarrow> Some (Some l, h)
      | Some a \<Rightarrow> do {
          n \<leftarrow> cells (js_heap j) a;
          if jv_type (bt_data n) \<noteq> TYPE_NVPAIR then build_fail linked l h
          else case bt_left n of
            None \<Rightarrow> build_fail linked l h
          | Some b \<Rightarrow> do {
              m \<leftarrow> cells (js_heap j) b;
              if jv_type (bt_data m) \<noteq> TYPE_STRING then build_fail linked l h
              else do {
                let (m1, h1) = htick h;
                if \<not> m1 then build_fail False l h1
                else do {
                  name \<leftarrow> jv_element (bt_data n);
                  let (m2, h2) = htick h1;
                  if \<not> m2 then build_fail False l h2
                  else do {
                    val \<leftarrow> jv_element (bt_data m);
                    let (m3, h3) = htick h2;
                    if \<not> m3 then build_fail False l h3
                    else do {
                      (ok, l', h4) \<leftarrow> local_linked_list_append l \<lparr>nv_name = name, nv_value = val\<rparr> h3;
                      if \<not> ok then build_fail False l' h4
                      else build_nvram_loop j (bt_right n) True l' h4
                    }
                  }
                }
              }
            }
        })"

definition local_json_build_nvram_node_list ::
    "json \<Rightarrow> nv_pair lheap \<Rightarrow> (nv_pair linked_list option \<times> nv_pair lheap) option" where
  "local_json_build_nvram_node_list j h = do {
     let (mem, h1) = htick h;
     case local_linked_list_new mem True (Some local_nv_pair_cmp_handler) of
       None \<Rightarrow> Some (None, h1)
     | Some l \<Rightarrow>
         (case local_binary_tree_get_root (js_text j) of
            None \<Rightarrow> build_fail False l h1
          | Some a \<Rightarrow> do {
              n \<leftarrow> cells (js_heap j) a;
              if jv_type (bt_data n) \<noteq> TYPE_OBJECT then build_fail False l h1
              else build_nvram_loop j (bt_left n) False l h1
            })
   }"

section \<open>Recognising a settings object\<close>

partial_function (option) nvram_representation_loop :: "json \<Rightarrow> ptr \<Rightarrow> bool option" where
  "nvram_representation_loop j np =
     (case np of
        None \<Rightarrow> Some True
      | Some a \<Rightarrow> do {
          n \<leftarrow> cells (js_heap j) a;
          if jv_type (bt_data n) \<noteq> TYPE_NVPAIR then Some False
          else case bt_left n of
            None \<Rightarrow> Some False
          | Some b \<Rightarrow> do {
              m \<leftarrow> cells (js_heap j) b;
              if jv_type (bt_data m) \<noteq> TYPE_STRING then Some False
              else nvram_representation_loop j (bt_right n)
            }
        })"

definition local_json_is_nvram_representation :: "json \<Rightarrow> bool option" where
  "local_json_is_nvram_representation j =
     (case local_binary_tree_get_root (js_text j) of
        None \<Rightarrow> Some False
      | Some a \<Rightarrow> do {
          n \<leftarrow> cells (js_heap j) a;
          if jv_type (bt_data n) \<noteq> TYPE_OBJECT then Some False
          else nvram_representation_loop j (bt_left n)
        })"

text \<open>The copy in \<^verbatim>\<open>basic/json/json_nvram.c\<close>, and its test for an empty object.\<close>

definition ezcfg_json_is_nvram_representation :: "json \<Rightarrow> bool option" where
  "ezcfg_json_is_nvram_representation j = local_json_is_nvram_representation j"

definition ezcfg_json_is_nvram_result_ok :: "json \<Rightarrow> bool option" where
  "ezcfg_json_is_nvram_result_ok j =
     (case local_binary_tree_get_root (js_text j) of
        None \<Rightarrow> Some False
      | Some a \<Rightarrow> do {
          n \<leftarrow> cells (js_heap j) a;
          if jv_type (bt_data n) \<noteq> TYPE_OBJECT then Some False
          else Some (bt_left n = None \<and> bt_right n = None)
        })"

section \<open>Lemmas\<close>

lemma hstore_oom: "hstore a c h = Some h' \<Longrightarrow> oom h' = oom h"
  by (auto simp: hstore_def split: option.splits)

lemma halloc_oom: "halloc c h = (p, h') \<Longrightarrow> oom h' = oom h"
  by (auto simp: halloc_def split: if_splits)

lemma replace_oom: "linked_list_replace a d h = Some h' \<Longrightarrow> oom h' = oom h"
  by (auto simp: linked_list_replace_def bind_eq_Some_conv dest!: hstore_oom)

lemma append_oom:
  assumes "ezcfg_linked_list_append l d h = Some (r, l', h')"
  shows "oom h' = oom h"
proof (cases "\<exists>cmp. ll_cmp l = Some cmp \<and> ll_del l")
  case False
  then show ?thesis using assms by (auto simp: ezcfg_linked_list_append_def split: option.splits)
next
  case True
  then obtain cmp f where c: "ll_cmp l = Some cmp" "ll_del l"
    "linked_list_find cmp h (ll_head l) d = Some f"
    using assms by (auto simp: ezcfg_linked_list_append_def bind_eq_Some_conv)
  obtain p h1 where p: "halloc \<lparr>ln_data = Some d, ln_next = None\<rparr> h = (p, h1)" by fastforce
  note h1 = halloc_oom [OF p]
  show ?thesis
  proof (cases f)
    case None
    show ?thesis
    proof (cases p)
      case np: (Some np)
      show ?thesis using assms c None p np h1
        by (cases "ll_tail l") (auto simp: ezcfg_linked_list_append_def bind_eq_Some_conv dest: hstore_oom)
    qed (use assms c None p h1 in \<open>simp add: ezcfg_linked_list_append_def\<close>)
  next
    case (Some a)
    then show ?thesis using assms c
      by (auto simp: ezcfg_linked_list_append_def bind_eq_Some_conv dest: replace_oom)
  qed
qed

lemma ll_rep_tick:
  assumes "ll_rep cmp h l ds" "htick h = (m, h')"
  shows "ll_rep cmp h' l ds"
proof -
  from assms(1) obtain xs where xs: "ll_rep_at cmp h l xs" "map snd xs = ds" unfolding ll_rep_def by blast
  have h': "cells h' = cells h" "heap_ok h'"
    using htick_ok [OF assms(2)] xs(1) by (simp_all add: ll_rep_at_def)
  have "ll_rep_at cmp h' l xs" using xs(1) h' unfolding ll_rep_at_def by simp
  then show ?thesis using xs(2) by (rule ll_repI)
qed

text \<open>Appending when no allocation fails.\<close>

lemma local_append_ok:
  assumes "ll_rep cmp h l ds" "oom h = (\<lambda>_. False)"
  shows "\<exists>l' h'. local_linked_list_append l d h = Some (True, l', h') \<and>
    ll_rep cmp h' l' (append_spec cmp d ds) \<and> oom h' = (\<lambda>_. False)"
proof -
  from assms(1) obtain xs where xs: "ll_rep_at cmp h l xs" and ds: "map snd xs = ds"
    by (auto simp: ll_rep_def)
  from append_refines_at [OF xs, of d] obtain ret l' h' ys where
    "ezcfg_linked_list_append l d h = Some (ret, l', h')" "ll_rep_at cmp h' l' ys"
    "ret = EZCFG_RET_OK" "map snd ys = append_spec cmp d ds"
    using assms(2) ds by (metis (full_types))
  then show ?thesis using append_oom assms(2)
    by (fastforce simp: local_linked_list_append_def intro: ll_repI)
qed

definition string_members :: "(string \<times> jv) list \<Rightarrow> bool" where
  "string_members ms \<longleftrightarrow> (\<forall>kv\<in>set ms. \<exists>s. snd kv = JStr s)"

fun member_pair :: "string \<times> jv \<Rightarrow> nv_pair" where
  "member_pair (k, JStr s) = \<lparr>nv_name = k, nv_value = s\<rparr>"
| "member_pair (k, v) = \<lparr>nv_name = k, nv_value = []\<rparr>"

lemma build_step:
  assumes "cells (js_heap j) a = Some n" "bt_left n = Some b" "cells (js_heap j) b = Some m"
    and "bt_data n = \<lparr>jv_type = TYPE_NVPAIR, jv_element = Some k, jv_visited = 0\<rparr>"
    and "bt_data m = \<lparr>jv_type = TYPE_STRING, jv_element = Some s, jv_visited = 0\<rparr>"
    and "ll_rep cmp h l ds" "oom h = (\<lambda>_. False)"
  shows "\<exists>l' h'. build_nvram_loop j (Some a) linked l h = build_nvram_loop j (bt_right n) True l' h' \<and>
    ll_rep cmp h' l' (append_spec cmp \<lparr>nv_name = k, nv_value = s\<rparr> ds) \<and> oom h' = (\<lambda>_. False)"
proof -
  obtain h1 where h1: "htick h = (True, h1)" "oom h1 = (\<lambda>_. False)"
    using assms(7) by (simp add: htick_def)
  obtain h2 where h2: "htick h1 = (True, h2)" "oom h2 = (\<lambda>_. False)" using h1 by (simp add: htick_def)
  obtain h3 where h3: "htick h2 = (True, h3)" "oom h3 = (\<lambda>_. False)" using h2 by (simp add: htick_def)
  have "ll_rep cmp h3 l ds"
    by (rule ll_rep_tick [OF ll_rep_tick [OF ll_rep_tick [OF assms(6) h1(1)] h2(1)] h3(1)])
  from local_append_ok [OF this h3(2)] obtain l' h' where
    a: "local_linked_list_append l \<lparr>nv_name = k, nv_value = s\<rparr> h3 = Some (True, l', h')"
    "ll_rep cmp h' l' (append_spec cmp \<lparr>nv_name = k, nv_value = s\<rparr> ds)" "oom h' = (\<lambda>_. False)"
    by blast
  have "build_nvram_loop j (Some a) linked l h = build_nvram_loop j (bt_right n) True l' h'"
    using a assms h1 h2 h3 by (simp add: build_nvram_loop.simps [of j "Some a"])
  with a show ?thesis by blast
qed

lemma build_members:
  assumes "string_members ms"
  shows "jmembers (cells (js_heap j)) lo hi ps ms \<Longrightarrow> rchain (cells (js_heap j)) np ps \<Longrightarrow>
    ll_rep cmp h l ds \<Longrightarrow> oom h = (\<lambda>_. False) \<Longrightarrow>
    \<exists>l' h'. build_nvram_loop j np linked l h = Some (Some l', h') \<and>
      ll_rep cmp h' l' (append_spec_all cmp (map member_pair ms) ds)"
  using assms
proof (induction ps arbitrary: lo ms np linked l h ds)
  case Nil
  then show ?case by (simp add: build_nvram_loop.simps [of j None])
next
  case (Cons p ps)
  from Cons.prems(1) obtain q lo' n k m mid v ms' where v: "ms = (k, v) # ms'"
    "cells (js_heap j) p = Some n"
    "bt_data n = \<lparr>jv_type = TYPE_NVPAIR, jv_element = Some k, jv_visited = 0\<rparr>"
    "bt_left n = Some q" "cells (js_heap j) q = Some m" "jtree (cells (js_heap j)) lo' mid q v"
    "jmembers (cells (js_heap j)) mid hi ps ms'" by auto
  obtain s where s: "v = JStr s" and ms': "string_members ms'"
    using Cons.prems(5) v(1) by (auto simp: string_members_def)
  have md: "bt_data m = \<lparr>jv_type = TYPE_STRING, jv_element = Some s, jv_visited = 0\<rparr>"
    using v(6) unfolding s by (cases rule: jtree.cases) (use v(5) in auto)
  have np: "np = Some p" "rchain (cells (js_heap j)) (bt_right n) ps"
    using Cons.prems(2) v(2) by (auto split: option.splits)
  from build_step [OF v(2,4,5,3) md Cons.prems(3,4), of linked] obtain l' h' where
    st: "build_nvram_loop j (Some p) linked l h = build_nvram_loop j (bt_right n) True l' h'"
    "ll_rep cmp h' l' (append_spec cmp \<lparr>nv_name = k, nv_value = s\<rparr> ds)" "oom h' = (\<lambda>_. False)"
    by blast
  from Cons.IH [OF v(7) np(2) st(2,3) ms', of True] show ?case
    using st(1) np(1) v(1) s by simp
qed

lemma holds_object:
  assumes "json_holds j (JObj ms)" "ms \<noteq> []"
  obtains a n lo hi ps where "tr_root (js_text j) = Some a" "cells (js_heap j) a = Some n"
    "jv_type (bt_data n) = TYPE_OBJECT" "bt_right n = None"
    "rchain (cells (js_heap j)) (bt_left n) ps"
    "jmembers (cells (js_heap j)) lo hi ps ms"
proof -
  from assms(1) obtain j0 c a n lo hi b where h:
    "j = jset j0 c b [] (int (length (jprint (JObj ms))))" "tr_root (js_text j0) = Some a"
    "c a = Some n" "bt_right n = None" "jtree c lo hi a (JObj ms)"
    by (auto simp: json_holds_def)
  from h(5) obtain ps where "bt_data n = \<lparr>jv_type = TYPE_OBJECT, jv_element = None, jv_visited = 0\<rparr>"
    "rchain c (bt_left n) ps" "jmembers c lo hi ps ms"
    by (cases rule: jtree.cases) (use h(3) assms(2) in auto)
  then show ?thesis using that [of a n ps lo hi] h by (simp add: jset_def)
qed

lemma representation_members:
  "jmembers (cells (js_heap j)) lo hi ps ms \<Longrightarrow> rchain (cells (js_heap j)) np ps \<Longrightarrow>
    nvram_representation_loop j np = Some (string_members ms)"
proof (induction ps arbitrary: lo ms np)
  case Nil
  then show ?case by (simp add: nvram_representation_loop.simps [of j None] string_members_def)
next
  case (Cons p ps)
  from Cons.prems(1) obtain q lo' n k m mid v ms' where v: "ms = (k, v) # ms'"
    "cells (js_heap j) p = Some n"
    "bt_data n = \<lparr>jv_type = TYPE_NVPAIR, jv_element = Some k, jv_visited = 0\<rparr>"
    "bt_left n = Some q" "cells (js_heap j) q = Some m" "jtree (cells (js_heap j)) lo' mid q v"
    "jmembers (cells (js_heap j)) mid hi ps ms'" by auto
  have t: "jv_type (bt_data m) = jtype v"
    using v(6) by (cases rule: jtree.cases) (use v(5) in auto)
  have "(\<exists>s. v = JStr s) \<longleftrightarrow> jtype v = TYPE_STRING" by (cases v) auto
  moreover have "np = Some p" "rchain (cells (js_heap j)) (bt_right n) ps"
    using Cons.prems(2) v(2) by (auto split: option.splits)
  ultimately show ?case using v t Cons.IH [OF v(7)]
    by (auto simp: nvram_representation_loop.simps [of j "Some p"] string_members_def)
qed

lemma holds_root:
  assumes "json_holds j v"
  obtains a n where "tr_root (js_text j) = Some a" "cells (js_heap j) a = Some n"
    "jv_type (bt_data n) = jtype v" "bt_left n \<noteq> None"
    "v = JObj [] \<Longrightarrow> \<exists>e. bt_left n = Some e \<and> cells (js_heap j) e = Some (jfresh TYPE_EMPTYSET)"
proof -
  from assms obtain j0 c a n lo hi b where h:
    "j = jset j0 c b [] (int (length (jprint v)))" "tr_root (js_text j0) = Some a"
    "c a = Some n" "jtree c lo hi a v" "jcontainer v"
    by (auto simp: json_holds_def)
  from h(4) have "jv_type (bt_data n) = jtype v \<and> bt_left n \<noteq> None \<and>
    (v = JObj [] \<longrightarrow> (\<exists>e. bt_left n = Some e \<and> c e = Some (jfresh TYPE_EMPTYSET)))"
  proof (cases rule: jtree.cases)
    case (tArr n' qs vs)
    then show ?thesis using h(3) jbounds(2) [OF tArr(5)] by (cases qs) auto
  next
    case (tObj n' ps ms)
    then show ?thesis using h(3) jbounds(3) [OF tObj(5)] by (cases ps) auto
  qed (use h(3,5) in \<open>auto simp: jfresh_def jdata_def\<close>)
  then show ?thesis using that [of a n] h by (simp add: jset_def)
qed

lemma build_holds:
  assumes "json_holds j (JObj ms)" and "ms \<noteq> []" and "string_members ms"
    and "heap_ok h" and "oom h = (\<lambda>_. False)"
  shows "\<exists>l h'. local_json_build_nvram_node_list j h = Some (Some l, h') \<and>
    ll_rep local_nv_pair_cmp_handler h' l
      (append_spec_all local_nv_pair_cmp_handler (map member_pair ms) [])"
proof -
  obtain a n ps lo hi where o: "tr_root (js_text j) = Some a" "cells (js_heap j) a = Some n"
    "jv_type (bt_data n) = TYPE_OBJECT" "rchain (cells (js_heap j)) (bt_left n) ps"
    "jmembers (cells (js_heap j)) lo hi ps ms"
    using holds_object [OF assms(1,2)] by metis
  obtain h1 where h1: "htick h = (True, h1)" "oom h1 = (\<lambda>_. False)" "heap_ok h1"
    using assms(4,5) by (simp add: htick_def)
  have "ll_rep local_nv_pair_cmp_handler h1 (linked_list_init True (Some local_nv_pair_cmp_handler)) []"
    by (rule ll_rep_init [OF h1(3)])
  from build_members [OF assms(3) o(5,4) this h1(2), of False] obtain l h' where
    "build_nvram_loop j (bt_left n) False (linked_list_init True (Some local_nv_pair_cmp_handler)) h1 =
      Some (Some l, h')"
    "ll_rep local_nv_pair_cmp_handler h' l (append_spec_all local_nv_pair_cmp_handler (map member_pair ms) [])"
    by blast
  with o h1 show ?thesis
    by (simp add: local_json_build_nvram_node_list_def local_linked_list_new_def
        local_binary_tree_get_root_def)
qed

lemma build_empty:
  assumes "json_holds j (JObj [])" and "oom h = (\<lambda>_. False)"
  shows "\<exists>h'. local_json_build_nvram_node_list j h = Some (None, h')"
proof -
  obtain a n e where o: "tr_root (js_text j) = Some a" "cells (js_heap j) a = Some n"
    "jv_type (bt_data n) = TYPE_OBJECT" "bt_left n = Some e"
    "cells (js_heap j) e = Some (jfresh TYPE_EMPTYSET)"
    using holds_root [OF assms(1)] by (metis jtype.simps(7))
  have "jv_type (bt_data (jfresh TYPE_EMPTYSET)) \<noteq> TYPE_NVPAIR" by (simp add: jfresh_def jdata_def)
  then have "\<exists>h'. build_nvram_loop j (Some e) False (linked_list_init True (Some local_nv_pair_cmp_handler)) h1 = Some (None, h')" for h1
    using o(5) by (simp add: build_nvram_loop.simps [of j "Some e"] build_fail_def local_linked_list_del_def
        linked_list_init_def linked_list_del_loop.simps)
  then show ?thesis using o assms(2)
    by (simp add: local_json_build_nvram_node_list_def local_linked_list_new_def local_binary_tree_get_root_def htick_def)
qed

lemma members_distinct:
  "distinct (map fst ms) \<Longrightarrow> keys_distinct local_nv_pair_cmp_handler (map member_pair ms)"
proof (induction ms)
  case (Cons kv ms)
  have "nv_name (member_pair x) = fst x" for x by (cases x rule: member_pair.cases) auto
  with Cons show ?case by (auto simp: local_nv_pair_cmp_handler_def)
qed simp

section \<open>Properties\<close>


lemma vtext_string_object:
  "string_text k \<Longrightarrow> string_text x \<Longrightarrow> vtext (JObj [(k, JStr x)]) (''{'' @ jquote k @ '':'' @ jquote x @ ''}'')"
  using vObj [OF wsp_simps(1) m1 [OF _ wsp_simps(1) wsp_simps(1) vStr wsp_simps(1)], of k x] by simp


lemma representation_holds:
  assumes "json_holds j v"
  shows "local_json_is_nvram_representation j =
    Some (\<exists>ms. v = JObj ms \<and> ms \<noteq> [] \<and> string_members ms)"
proof (cases "\<exists>ms. v = JObj ms \<and> ms \<noteq> []")
  case True
  then obtain ms where v: "v = JObj ms" "ms \<noteq> []" by blast
  obtain a n ps lo hi where "tr_root (js_text j) = Some a" "cells (js_heap j) a = Some n"
    "jv_type (bt_data n) = TYPE_OBJECT" "rchain (cells (js_heap j)) (bt_left n) ps"
    "jmembers (cells (js_heap j)) lo hi ps ms"
    using holds_object [of j ms] assms v by metis
  then show ?thesis using v representation_members [of j lo hi ps ms "bt_left n"]
    by (simp add: local_json_is_nvram_representation_def local_binary_tree_get_root_def)
next
  case False
  obtain a n where r: "tr_root (js_text j) = Some a" "cells (js_heap j) a = Some n"
    "jv_type (bt_data n) = jtype v"
    "v = JObj [] \<Longrightarrow> \<exists>e. bt_left n = Some e \<and> cells (js_heap j) e = Some (jfresh TYPE_EMPTYSET)"
    using holds_root [OF assms] by metis
  show ?thesis
  proof (cases "v = JObj []")
    case True
    then obtain e where "bt_left n = Some e" "cells (js_heap j) e = Some (jfresh TYPE_EMPTYSET)"
      using r(4) by blast
    then show ?thesis using True r
      by (simp add: local_json_is_nvram_representation_def local_binary_tree_get_root_def
          nvram_representation_loop.simps [of j "Some e"])
  next
    case nv: False
    then have "jtype v \<noteq> TYPE_OBJECT" using False by (cases v) auto
    then show ?thesis using False r
      by (auto simp: local_json_is_nvram_representation_def local_binary_tree_get_root_def)
  qed
qed

text \<open>The settings test accepts a parsed text exactly when it is a non-empty object whose
  values are all strings.\<close>

theorem nvram_representation_exact:
  assumes "json_holds j v"
  shows "local_json_is_nvram_representation j =
    Some (\<exists>ms. v = JObj ms \<and> ms \<noteq> [] \<and> string_members ms)"
  by (rule representation_holds [OF assms])

lemma sample_holds: "\<exists>j'. json_holds j' sample_value"
  using parse_holds [OF sample_vtext _ wsp_space wsp_simps(1) sample_json_ready]
  by (auto simp: sample_value_def)

theorem nvram_representation_exact_witness:
  "\<exists>j. json_holds j sample_value \<and> local_json_is_nvram_representation j = Some False"
  using sample_holds nvram_representation_exact [of _ sample_value]
  by (auto simp: sample_value_def string_members_def)

text \<open>The test for the empty object, which the source documents as the answer that means OK,
  rejects every text the reader accepts, the empty object included: the reader hangs an
  \<open>EMPTYSET\<close> node under it.\<close>

theorem nvram_result_ok_never:
  assumes "vtext v s" and "jcontainer v" and "json_ready j" and "plenty j"
  shows "\<exists>j'. local_json_parse_text j s = Some (EZCFG_RET_OK, j') \<and>
    ezcfg_json_is_nvram_result_ok j' = Some False"
proof -
  from parse_holds [OF assms(1,2) wsp_simps(1) wsp_simps(1) assms(3,4)] obtain j' where
    j': "local_json_parse_text j s = Some (EZCFG_RET_OK, j')" "json_holds j' v" by auto
  obtain a n where "tr_root (js_text j') = Some a" "cells (js_heap j') a = Some n" "bt_left n \<noteq> None"
    using holds_root [OF j'(2)] by metis
  then have "ezcfg_json_is_nvram_result_ok j' = Some False"
    by (auto simp: ezcfg_json_is_nvram_result_ok_def local_binary_tree_get_root_def)
  with j' show ?thesis by blast
qed

theorem nvram_result_ok_never_witness:
  "\<exists>j'. local_json_parse_text sample_json ''{}'' = Some (EZCFG_RET_OK, j') \<and>
     ezcfg_json_is_nvram_result_ok j' = Some False"
  using nvram_result_ok_never [OF vObj0 [OF wsp_simps(1)] _ sample_json_ready] by simp

end
