(* ===== verification/Meta_Nvram.thy ===== *)
theory Meta_Nvram
  imports Util_Checksum Json_Nvram
begin

text \<open>
  The meta settings store of \<^verbatim>\<open>src/common/meta_nvram.c\<close>: a header and a flat byte buffer that
  holds NUL-terminated strings \<^verbatim>\<open>name=value\<close>, ended by a second NUL.  A pointer into the
  buffer is an index; reading a string that is not terminated inside the buffer and writing
  outside it are faults, the value \<^term>\<open>None\<close>.
\<close>

section \<open>Header and buffer\<close>

record meta_nvram =
  mh_magic :: string
  mh_version :: string
  mh_coding :: string
  mh_backend :: string
  mh_data_size :: int
  mh_data_used :: int
  mh_data_crc :: "32 word"
  mh_header_crc :: "32 word"
  mn_data :: string

text \<open>The C string that starts at index \<open>p\<close>.\<close>

definition cstr_at :: "string \<Rightarrow> nat \<Rightarrow> string option" where
  "cstr_at data p =
     (if NUL \<in> set (drop p data) then Some (takeWhile (\<lambda>c. c \<noteq> NUL) (drop p data)) else None)"

definition memmove :: "string \<Rightarrow> nat \<Rightarrow> nat \<Rightarrow> int \<Rightarrow> string option" where
  "memmove data dst src n =
     (if n < 0 \<or> src + nat n > length data then None
      else buf_write data dst (take (nat n) (drop src data)))"

text \<open>\<^verbatim>\<open>sprintf(p, "%s=%s", name, value)\<close> and \<^verbatim>\<open>sprintf(p, "%s", value)\<close> also write the NUL.\<close>

definition sprintf_entry :: "string \<Rightarrow> nat \<Rightarrow> string \<Rightarrow> string \<Rightarrow> string option" where
  "sprintf_entry data p name val = buf_write data p (name @ ''='' @ val @ [NUL])"

definition sprintf_value :: "string \<Rightarrow> nat \<Rightarrow> string \<Rightarrow> string option" where
  "sprintf_value data p val = buf_write data p (val @ [NUL])"

section \<open>Finding an entry\<close>

lemma cstr_at_length: "cstr_at data p = Some e \<Longrightarrow> p + length e < length data"
proof -
  assume a: "cstr_at data p = Some e"
  then have e: "e = takeWhile (\<lambda>c. c \<noteq> NUL) (drop p data)" "NUL \<in> set (drop p data)"
    by (auto simp: cstr_at_def split: if_splits)
  have "takeWhile (\<lambda>c. c \<noteq> NUL) (drop p data) \<noteq> drop p data" using e(2) by (auto simp: takeWhile_eq_all_conv)
  then have "length e < length (drop p data)"
    using e(1) length_takeWhile_le [of "\<lambda>c. c \<noteq> NUL" "drop p data"]
    by (metis append_eq_conv_conj le_neq_implies_less takeWhile_dropWhile_id take_all)
  then show ?thesis by simp
qed

text \<open>\<^verbatim>\<open>find_nvram_entry_position\<close>: the position and the flag \<open>equal\<close>.\<close>

function find_nvram_entry_position :: "string \<Rightarrow> string \<Rightarrow> nat \<Rightarrow> (nat \<times> bool) option" where
  "find_nvram_entry_position data name entry =
     (case cstr_at data entry of
        None \<Rightarrow> None
      | Some e \<Rightarrow>
          if e = [] then Some (entry, False)
          else if strncmp name e (length name) < 0 then Some (entry, False)
          else if strncmp name e (length name) = 0 then
            Some (entry, char_at e (length name) = CHR ''='')
          else find_nvram_entry_position data name (entry + (length e + 1)))"
  by pat_completeness auto

termination find_nvram_entry_position
  by (relation "measure (\<lambda>(data, name, entry). length data - entry)") (auto dest: cstr_at_length)

declare find_nvram_entry_position.simps [simp del]

section \<open>Changing entries\<close>

text \<open>\<^verbatim>\<open>while (entry_len > new_entry_len) { *p = '='; p++; entry_len--; }\<close> for \<open>k\<close> rounds.\<close>

fun pad_loop :: "nat \<Rightarrow> string \<Rightarrow> nat \<Rightarrow> (string \<times> nat) option" where
  "pad_loop 0 data p = Some (data, p)"
| "pad_loop (Suc k) data p = do { data' \<leftarrow> buf_write data p ''=''; pad_loop k data' (p + 1) }"

definition meta_nvram_set_entry ::
    "meta_nvram \<Rightarrow> string \<Rightarrow> string \<Rightarrow> (int \<times> meta_nvram) option" where
  "meta_nvram_set_entry m name val =
     (let name_len = length name; new_entry_len = name_len + length val + 2 in
      if mh_data_used m = 0 then
        (if int new_entry_len + 1 > mh_data_size m - mh_data_used m then Some (EZCFG_RET_FAIL, m)
         else do {
           d1 \<leftarrow> sprintf_entry (mn_data m) 0 name val;
           d2 \<leftarrow> buf_write d1 (new_entry_len + 1) [NUL];
           Some (EZCFG_RET_OK,
             m\<lparr>mn_data := d2, mh_data_used := mh_data_used m + (int new_entry_len + 1)\<rparr>)
         })
      else do {
        (p, equal) \<leftarrow> find_nvram_entry_position (mn_data m) name 0;
        if equal then do {
          e \<leftarrow> cstr_at (mn_data m) p;
          let entry_len = length e + 1;
          if int new_entry_len > mh_data_size m - mh_data_used m + int entry_len
          then Some (EZCFG_RET_FAIL, m)
          else if entry_len \<ge> new_entry_len then do {
            (d1, q) \<leftarrow> pad_loop (entry_len - new_entry_len) (mn_data m) (p + name_len + 1);
            d2 \<leftarrow> sprintf_value d1 q val;
            Some (EZCFG_RET_OK, m\<lparr>mn_data := d2\<rparr>)
          }
          else do {
            d1 \<leftarrow> memmove (mn_data m) (p + new_entry_len) (p + entry_len)
                   (mh_data_used m - int p - int entry_len);
            d2 \<leftarrow> sprintf_value d1 (p + name_len + 1) val;
            Some (EZCFG_RET_OK,
              m\<lparr>mn_data := d2, mh_data_used := mh_data_used m + (int new_entry_len - int entry_len)\<rparr>)
          }
        }
        else if int new_entry_len > mh_data_size m - mh_data_used m then Some (EZCFG_RET_FAIL, m)
        else do {
          d1 \<leftarrow> memmove (mn_data m) (p + new_entry_len) p (mh_data_used m - int p);
          d2 \<leftarrow> sprintf_entry d1 p name val;
          Some (EZCFG_RET_OK,
            m\<lparr>mn_data := d2, mh_data_used := mh_data_used m + int new_entry_len\<rparr>)
        }
      })"

text \<open>\<^verbatim>\<open>meta_nvram_unset_entry\<close> keeps its result in a \<^verbatim>\<open>bool\<close>: \<^verbatim>\<open>EZCFG_RET_FAIL\<close> becomes 1.\<close>

definition meta_nvram_unset_entry :: "meta_nvram \<Rightarrow> string \<Rightarrow> (int \<times> meta_nvram) option" where
  "meta_nvram_unset_entry m name = do {
     (p, equal) \<leftarrow> find_nvram_entry_position (mn_data m) name 0;
     if equal then do {
       e \<leftarrow> cstr_at (mn_data m) p;
       let entry_len = length e + 1;
       d \<leftarrow> memmove (mn_data m) p (p + entry_len) (mh_data_used m - int p - int entry_len);
       Some (of_bool (EZCFG_RET_OK \<noteq> 0),
         m\<lparr>mn_data := d, mh_data_used := mh_data_used m - int entry_len\<rparr>)
     }
     else Some (of_bool (EZCFG_RET_FAIL \<noteq> 0), m)
   }"

text \<open>\<^verbatim>\<open>while (*p == '=') { p++; }\<close> and then the string from there on.\<close>

fun skip_equals :: "string \<Rightarrow> string" where
  "skip_equals [] = []"
| "skip_equals (c # s) = (if c = CHR ''='' then skip_equals s else c # s)"

text \<open>The value of the entry at \<open>p\<close>, which has the name as its prefix: the entry behind the
  name and the equal signs.\<close>

definition entry_value_at :: "string \<Rightarrow> nat \<Rightarrow> nat \<Rightarrow> string option" where
  "entry_value_at data p name_len = map_option skip_equals (cstr_at data (p + name_len))"

definition meta_nvram_get_entry_value :: "bool \<Rightarrow> meta_nvram \<Rightarrow> string \<Rightarrow> (int \<times> string option) option" where
  "meta_nvram_get_entry_value mem m name = do {
     (p, equal) \<leftarrow> find_nvram_entry_position (mn_data m) name 0;
     if \<not> equal then Some (EZCFG_RET_FAIL, None)
     else do {
       v \<leftarrow> entry_value_at (mn_data m) p (length name);
       if mem then Some (EZCFG_RET_OK, Some v) else Some (EZCFG_RET_FAIL, None)
     }
   }"

definition meta_nvram_match_entry :: "meta_nvram \<Rightarrow> string \<Rightarrow> string \<Rightarrow> int option" where
  "meta_nvram_match_entry m name1 name2 = do {
     (p1, equal1) \<leftarrow> find_nvram_entry_position (mn_data m) name1 0;
     if \<not> equal1 then Some EZCFG_RET_FAIL
     else do {
       v1 \<leftarrow> entry_value_at (mn_data m) p1 (length name1);
       (p2, equal2) \<leftarrow> find_nvram_entry_position (mn_data m) name2 0;
       if \<not> equal2 then Some EZCFG_RET_FAIL
       else do {
         v2 \<leftarrow> entry_value_at (mn_data m) p2 (length name2);
         Some (if strcmp v1 v2 = 0 then EZCFG_RET_OK else EZCFG_RET_FAIL)
       }
     }
   }"

text \<open>\<^verbatim>\<open>meta_nvram_match_entry_value\<close> looks at the byte at the position and not at \<open>equal\<close>.\<close>

definition meta_nvram_match_entry_value :: "meta_nvram \<Rightarrow> string \<Rightarrow> string \<Rightarrow> int option" where
  "meta_nvram_match_entry_value m name val = do {
     (p, equal) \<leftarrow> find_nvram_entry_position (mn_data m) name 0;
     e \<leftarrow> cstr_at (mn_data m) p;
     if e = [] then Some EZCFG_RET_FAIL
     else do {
       v \<leftarrow> entry_value_at (mn_data m) p (length name);
       Some (if strcmp v val = 0 then EZCFG_RET_OK else EZCFG_RET_FAIL)
     }
   }"

section \<open>Restricted and public functions\<close>

text \<open>The loop of \<^verbatim>\<open>_local_meta_nvram_set_entries\<close> from index \<open>i\<close> on, for \<open>k\<close> rounds.\<close>

fun meta_set_entries_loop ::
    "nat \<Rightarrow> int \<Rightarrow> int \<Rightarrow> meta_nvram \<Rightarrow> nv_pair linked_list \<Rightarrow> nv_pair lheap \<Rightarrow> (int \<times> meta_nvram) option" where
  "meta_set_entries_loop 0 i ret m l h = Some (ret, m)"
| "meta_set_entries_loop (Suc k) i ret m l h = do {
     d \<leftarrow> local_linked_list_get_node_data_by_index l i h;
     case d of
       None \<Rightarrow> Some (EZCFG_RET_FAIL, m)
     | Some nv \<Rightarrow> do {
         (ret', m') \<leftarrow> meta_nvram_set_entry m (nv_name nv) (nv_value nv);
         if ret' = EZCFG_RET_FAIL then Some (ret', m')
         else meta_set_entries_loop k (i + 1) ret' m' l h
       }
   }"

definition local_meta_nvram_set_entries ::
    "meta_nvram \<Rightarrow> nv_pair linked_list \<Rightarrow> nv_pair lheap \<Rightarrow> (int \<times> meta_nvram) option" where
  "local_meta_nvram_set_entries m l h =
     meta_set_entries_loop (nat (local_linked_list_get_length l)) 1 EZCFG_RET_FAIL m l h"

text \<open>The bytes of a character buffer, and of the header without its last field; the layout of the
  header in memory is the compiler's, so it is an argument.\<close>

definition byte_of :: "char \<Rightarrow> 8 word" where
  "byte_of c = of_nat (of_char c)"

definition local_meta_nvram_update_data_crc :: "meta_nvram \<Rightarrow> int \<times> meta_nvram" where
  "local_meta_nvram_update_data_crc m =
     (EZCFG_RET_OK, m\<lparr>mh_data_crc := ezcfg_util_crc32 (map byte_of (mn_data m))\<rparr>)"

definition local_meta_nvram_update_header_crc ::
    "(meta_nvram \<Rightarrow> 8 word list) \<Rightarrow> meta_nvram \<Rightarrow> int \<times> meta_nvram" where
  "local_meta_nvram_update_header_crc header_bytes m =
     (EZCFG_RET_OK, m\<lparr>mh_header_crc := ezcfg_util_crc32 (header_bytes m)\<rparr>)"

text \<open>\<^verbatim>\<open>sizeof(struct nvram_header)\<close>: eight fields of four bytes.\<close>

definition NVRAM_HEADER_SIZE :: int where "NVRAM_HEADER_SIZE = 32"

definition local_meta_nvram_new ::
    "(meta_nvram \<Rightarrow> 8 word list) \<Rightarrow> bool \<Rightarrow> int \<Rightarrow> meta_nvram option" where
  "local_meta_nvram_new header_bytes mem buf_size =
     (if \<not> mem then None
      else
        let data_size = buf_size - NVRAM_HEADER_SIZE;
            m = \<lparr>mh_magic = ''NVRM'', mh_version = [CHR 0x00, CHR 0x02, CHR 0x00, CHR 0x00],
                 mh_coding = ''NONE'', mh_backend = ''NONE'', mh_data_size = data_size,
                 mh_data_used = 0, mh_data_crc = 0, mh_header_crc = 0,
                 mn_data = replicate (nat data_size) NUL\<rparr>;
            m = snd (local_meta_nvram_update_data_crc m)
        in Some (snd (local_meta_nvram_update_header_crc header_bytes m)))"

definition local_meta_nvram_set_version :: "meta_nvram \<Rightarrow> string \<Rightarrow> bool \<times> meta_nvram" where
  "local_meta_nvram_set_version m v = (True, m\<lparr>mh_version := take 4 v\<rparr>)"

definition local_meta_nvram_set_coding_type :: "meta_nvram \<Rightarrow> string \<Rightarrow> bool \<times> meta_nvram" where
  "local_meta_nvram_set_coding_type m v = (True, m\<lparr>mh_coding := take 4 v\<rparr>)"

definition local_meta_nvram_set_backend_type :: "meta_nvram \<Rightarrow> string \<Rightarrow> bool \<times> meta_nvram" where
  "local_meta_nvram_set_backend_type m v = (True, m\<lparr>mh_backend := take 4 v\<rparr>)"

text \<open>The public operations check their arguments for NULL and call the private ones.\<close>

definition local_meta_nvram_set_entry :: "meta_nvram \<Rightarrow> string \<Rightarrow> string \<Rightarrow> (int \<times> meta_nvram) option" where
  "local_meta_nvram_set_entry = meta_nvram_set_entry"

definition local_meta_nvram_unset_entry :: "meta_nvram \<Rightarrow> string \<Rightarrow> (int \<times> meta_nvram) option" where
  "local_meta_nvram_unset_entry = meta_nvram_unset_entry"

definition local_meta_nvram_get_entry_value ::
    "bool \<Rightarrow> meta_nvram \<Rightarrow> string \<Rightarrow> (int \<times> string option) option" where
  "local_meta_nvram_get_entry_value = meta_nvram_get_entry_value"

definition local_meta_nvram_match_entry :: "meta_nvram \<Rightarrow> string \<Rightarrow> string \<Rightarrow> int option" where
  "local_meta_nvram_match_entry = meta_nvram_match_entry"

definition local_meta_nvram_match_entry_value :: "meta_nvram \<Rightarrow> string \<Rightarrow> string \<Rightarrow> int option" where
  "local_meta_nvram_match_entry_value = meta_nvram_match_entry_value"

end
