(* ===== verification/Nvram.thy ===== *)
theory Nvram
  imports Ez_Context Meta_Nvram
begin

text \<open>
  The read-write settings table of \<^verbatim>\<open>src/common/nvram.c\<close>.  The table is an array of nodes that
  point to separately allocated name and value strings; a string block carries its capacity,
  so that a write past its end is visible.  Every function returns \<^term>\<open>None\<close> when the C code
  would dereference NULL, leave the array, overrun a block or free a block twice.
\<close>

section \<open>Strings on the heap\<close>

type_synonym strbuf = "nat \<times> string"

definition strdup :: "string \<Rightarrow> strbuf heap \<Rightarrow> ptr \<times> strbuf heap" where
  "strdup s h = halloc (length s + 1, s) h"

definition str_at :: "strbuf heap \<Rightarrow> ptr \<Rightarrow> string option" where
  "str_at h p = map_option snd (hload h p)"

definition str_write :: "ptr \<Rightarrow> string \<Rightarrow> strbuf heap \<Rightarrow> strbuf heap option" where
  "str_write p s h = do {
     a \<leftarrow> p;
     (cap, _) \<leftarrow> cells h a;
     if length s + 1 \<le> cap then hstore a (cap, s) h else None
   }"

text \<open>\<^verbatim>\<open>free\<close>: a NULL pointer is ignored.\<close>

definition str_free :: "ptr \<Rightarrow> strbuf heap \<Rightarrow> strbuf heap option" where
  "str_free p h = (case p of None \<Rightarrow> Some h | Some a \<Rightarrow> hfree a h)"

section \<open>The table\<close>

record nvram_node =
  nn_name :: ptr
  nn_value :: ptr
  nn_nlen :: int
  nn_vlen :: int

record nvram =
  node_list :: "nvram_node list"
  node_list_size :: int
  node_list_used :: int
  total_space_used :: "32 word"
  nv_heap :: "strbuf heap"

definition null_node :: nvram_node where
  "null_node = \<lparr>nn_name = None, nn_value = None, nn_nlen = 0, nn_vlen = 0\<rparr>"

definition node_at :: "nvram_node list \<Rightarrow> int \<Rightarrow> nvram_node option" where
  "node_at ns i = (if 0 \<le> i \<and> i < int (length ns) then Some (ns ! nat i) else None)"

text \<open>The assignment \<^verbatim>\<open>node_list[dst] = node_list[src]\<close>.\<close>

definition node_copy :: "int \<Rightarrow> int \<Rightarrow> nvram_node list \<Rightarrow> nvram_node list option" where
  "node_copy dst src ns = do {
     np \<leftarrow> node_at ns src;
     _ \<leftarrow> node_at ns dst;
     Some (ns[nat dst := np])
   }"

section \<open>Locking\<close>

definition lock_nvram_mutex :: "mutex_call \<Rightarrow> int" where
  "lock_nvram_mutex m =
     (case mutex_retry_loop m EZCFG_LOCK_RETRY_MAX 0 of
        None \<Rightarrow> EZCFG_RET_FAIL
      | Some retry \<Rightarrow>
          if retry < EZCFG_LOCK_RETRY_MAX then EZCFG_RET_OK else EZCFG_RET_FAIL)"

definition unlock_nvram_mutex :: "mutex_call \<Rightarrow> int" where
  "unlock_nvram_mutex m =
     (case mutex_retry_loop m EZCFG_UNLOCK_RETRY_MAX 0 of
        None \<Rightarrow> EZCFG_RET_FAIL
      | Some retry \<Rightarrow>
          if retry < EZCFG_UNLOCK_RETRY_MAX then EZCFG_RET_OK else EZCFG_RET_FAIL)"

section \<open>Private functions\<close>

definition nvram_node_clean :: "nvram_node \<Rightarrow> strbuf heap \<Rightarrow> (nvram_node \<times> strbuf heap) option" where
  "nvram_node_clean np h = do {
     h1 \<leftarrow> str_free (nn_name np) h;
     h2 \<leftarrow> str_free (nn_value np) h1;
     Some (np\<lparr>nn_name := None, nn_nlen := 0, nn_value := None, nn_vlen := 0\<rparr>, h2)
   }"

text \<open>The search loop; the value is the final \<^verbatim>\<open>middle\<close> and the flag \<^verbatim>\<open>*equal\<close>.\<close>

function nvram_find_loop :: "nvram \<Rightarrow> string \<Rightarrow> int \<Rightarrow> int \<Rightarrow> int \<Rightarrow> (int \<times> bool) option" where
  "nvram_find_loop nv name bottom upper middle =
     (if bottom < upper then
        let mid = (bottom + upper) div 2 in do {
          np \<leftarrow> node_at (node_list nv) mid;
          s \<leftarrow> str_at (nv_heap nv) (nn_name np);
          if strcmp s name = 0 then Some (mid, True)
          else if strcmp s name < 0 then nvram_find_loop nv name (mid + 1) upper mid
          else nvram_find_loop nv name bottom (mid - 1) mid
        }
      else Some (middle, False))"
  by pat_completeness auto
termination
  by (relation "measure (\<lambda>(nv, name, bottom, upper, middle). nat (upper - bottom))") auto

declare nvram_find_loop.simps [simp del]

definition nvram_find_entry_position :: "nvram \<Rightarrow> string \<Rightarrow> (int \<times> bool) option" where
  "nvram_find_entry_position nv name =
     nvram_find_loop nv name 0 (node_list_used nv) ((0 + node_list_used nv) div 2)"

text \<open>Both strings of a new entry, or (after the label \<^verbatim>\<open>fail_exit\<close>) none.\<close>

definition nvram_dup_entry ::
    "string \<Rightarrow> string \<Rightarrow> strbuf heap \<Rightarrow> ((ptr \<times> ptr) option \<times> strbuf heap) option" where
  "nvram_dup_entry name val h =
     (let (tmp_name, h1) = strdup name h; (tmp_value, h2) = strdup val h1 in
      if tmp_name = None \<or> tmp_value = None then do {
        h3 \<leftarrow> str_free tmp_name h2;
        h4 \<leftarrow> str_free tmp_value h3;
        Some (None, h4)
      }
      else Some (Some (tmp_name, tmp_value), h2))"

text \<open>Storing the two strings in node \<open>i\<close> and counting them.\<close>

definition nvram_fill_node ::
    "nvram \<Rightarrow> int \<Rightarrow> string \<Rightarrow> string \<Rightarrow> ptr \<times> ptr \<Rightarrow> nvram option" where
  "nvram_fill_node nv i name val pq = do {
     _ \<leftarrow> node_at (node_list nv) i;
     let nlen = int (length name) + 1; vlen = int (length val) + 1 in
     Some (nv\<lparr>
       node_list := (node_list nv)[nat i :=
         \<lparr>nn_name = fst pq, nn_value = snd pq, nn_nlen = nlen, nn_vlen = vlen\<rparr>],
       node_list_used := node_list_used nv + 1,
       total_space_used := total_space_used nv + of_int nlen + of_int vlen\<rparr>)
   }"

text \<open>The loop that makes room: \<open>k\<close> copies, from index \<open>j\<close> downwards.\<close>

fun nvram_shift_up :: "nat \<Rightarrow> int \<Rightarrow> nvram_node list \<Rightarrow> nvram_node list option" where
  "nvram_shift_up 0 j ns = Some ns"
| "nvram_shift_up (Suc k) j ns = do { ns' \<leftarrow> node_copy j (j - 1) ns; nvram_shift_up k (j - 1) ns' }"

definition nvram_set_entry :: "nvram \<Rightarrow> string \<Rightarrow> string \<Rightarrow> (int \<times> nvram) option" where
  "nvram_set_entry nv name val =
     (if node_list_used nv = 0 then do {
        (pq, h) \<leftarrow> nvram_dup_entry name val (nv_heap nv);
        let nv1 = nv\<lparr>nv_heap := h\<rparr> in
        case pq of
          None \<Rightarrow> Some (EZCFG_RET_FAIL, nv1)
        | Some pq \<Rightarrow> do { nv2 \<leftarrow> nvram_fill_node nv1 0 name val pq; Some (EZCFG_RET_OK, nv2) }
      }
      else do {
        (i, equal) \<leftarrow> nvram_find_entry_position nv name;
        if equal then do {
          np \<leftarrow> node_at (node_list nv) i;
          if int (length val) < nn_vlen np then do {
            h \<leftarrow> str_write (nn_value np) val (nv_heap nv);
            Some (EZCFG_RET_OK, nv\<lparr>nv_heap := h\<rparr>)
          }
          else
            let (tmp_value, h) = strdup val (nv_heap nv) in
            if tmp_value = None then Some (EZCFG_RET_FAIL, nv\<lparr>nv_heap := h\<rparr>)
            else do {
              h1 \<leftarrow> str_free (nn_value np) h;
              let vlen = int (length val) + 1 in
              Some (EZCFG_RET_OK, nv\<lparr>
                node_list := (node_list nv)[nat i := np\<lparr>nn_value := tmp_value, nn_vlen := vlen\<rparr>],
                total_space_used := total_space_used nv - of_int (nn_vlen np) + of_int vlen,
                nv_heap := h1\<rparr>)
            }
        }
        else if node_list_used nv = node_list_size nv then Some (EZCFG_RET_FAIL, nv)
        else do {
          (pq, h) \<leftarrow> nvram_dup_entry name val (nv_heap nv);
          case pq of
            None \<Rightarrow> Some (EZCFG_RET_FAIL, nv\<lparr>nv_heap := h\<rparr>)
          | Some pq \<Rightarrow> do {
              ns \<leftarrow> nvram_shift_up (nat (node_list_used nv - i)) (node_list_used nv) (node_list nv);
              nv2 \<leftarrow> nvram_fill_node (nv\<lparr>node_list := ns, nv_heap := h\<rparr>) i name val pq;
              Some (EZCFG_RET_OK, nv2)
            }
        }
      })"

text \<open>
  The loop of \<^verbatim>\<open>nvram_unset_entry\<close> counts with \<open>j\<close> but copies \<^verbatim>\<open>node_list[i+1]\<close> to
  \<^verbatim>\<open>node_list[i]\<close> in every round.
\<close>

fun nvram_unset_loop :: "nat \<Rightarrow> int \<Rightarrow> nvram_node list \<Rightarrow> nvram_node list option" where
  "nvram_unset_loop 0 i ns = Some ns"
| "nvram_unset_loop (Suc k) i ns = do { ns' \<leftarrow> node_copy i (i + 1) ns; nvram_unset_loop k i ns' }"

definition nvram_unset_entry :: "nvram \<Rightarrow> string \<Rightarrow> (int \<times> nvram) option" where
  "nvram_unset_entry nv name = do {
     (i, equal) \<leftarrow> nvram_find_entry_position nv name;
     if equal then do {
       np \<leftarrow> node_at (node_list nv) i;
       (np', h) \<leftarrow> nvram_node_clean np (nv_heap nv);
       ns \<leftarrow> nvram_unset_loop (nat (node_list_used nv - 1 - i)) i ((node_list nv)[nat i := np']);
       Some (EZCFG_RET_OK, nv\<lparr>
         node_list := ns,
         node_list_used := node_list_used nv - 1,
         total_space_used := total_space_used nv - of_int (nn_nlen np) - of_int (nn_vlen np),
         nv_heap := h\<rparr>)
     }
     else Some (EZCFG_RET_FAIL, nv)
   }"

definition nvram_commit :: "nvram \<Rightarrow> int" where
  "nvram_commit nv = EZCFG_RET_OK"

text \<open>The result is the code, the string stored through \<^verbatim>\<open>value\<close> (if any) and the table.\<close>

definition nvram_get_entry_value :: "nvram \<Rightarrow> string \<Rightarrow> (int \<times> string option \<times> nvram) option" where
  "nvram_get_entry_value nv name = do {
     (i, equal) \<leftarrow> nvram_find_entry_position nv name;
     if equal then do {
       np \<leftarrow> node_at (node_list nv) i;
       s \<leftarrow> str_at (nv_heap nv) (nn_value np);
       let (p, h) = strdup s (nv_heap nv) in
       if p = None then Some (EZCFG_RET_FAIL, None, nv\<lparr>nv_heap := h\<rparr>)
       else Some (EZCFG_RET_OK, Some s, nv\<lparr>nv_heap := h\<rparr>)
     }
     else Some (EZCFG_RET_FAIL, None, nv)
   }"

text \<open>The result type of \<^verbatim>\<open>nvram_match_entry\<close> is \<^verbatim>\<open>bool\<close>: any code but 0 becomes 1.\<close>

definition nvram_match_entry :: "nvram \<Rightarrow> string \<Rightarrow> string \<Rightarrow> bool option" where
  "nvram_match_entry nv name1 name2 = do {
     (p1, equal1) \<leftarrow> nvram_find_entry_position nv name1;
     if \<not> equal1 then Some (EZCFG_RET_FAIL \<noteq> 0)
     else do {
       np1 \<leftarrow> node_at (node_list nv) p1;
       (p2, equal2) \<leftarrow> nvram_find_entry_position nv name2;
       if \<not> equal2 then Some (EZCFG_RET_FAIL \<noteq> 0)
       else do {
         np2 \<leftarrow> node_at (node_list nv) p2;
         s1 \<leftarrow> str_at (nv_heap nv) (nn_value np1);
         s2 \<leftarrow> str_at (nv_heap nv) (nn_value np2);
         if strcmp s1 s2 = 0 then Some (EZCFG_RET_OK \<noteq> 0) else Some (EZCFG_RET_FAIL \<noteq> 0)
       }
     }
   }"

definition nvram_match_entry_value :: "nvram \<Rightarrow> string \<Rightarrow> string \<Rightarrow> int option" where
  "nvram_match_entry_value nv name val = do {
     (p, equal) \<leftarrow> nvram_find_entry_position nv name;
     if \<not> equal then Some EZCFG_RET_FAIL
     else do {
       np \<leftarrow> node_at (node_list nv) p;
       s \<leftarrow> str_at (nv_heap nv) (nn_value np);
       if strcmp s val = 0 then Some EZCFG_RET_OK else Some EZCFG_RET_FAIL
     }
   }"

section \<open>Public functions\<close>

text \<open>
  A wrapper takes the results of its lock and unlock attempts.  Without the lock it fails and
  does nothing; a failing unlock is only logged.
\<close>

definition local_nvram_set_entry ::
    "mutex_call \<Rightarrow> mutex_call \<Rightarrow> nvram \<Rightarrow> string \<Rightarrow> string \<Rightarrow> (int \<times> nvram) option" where
  "local_nvram_set_entry lk ulk nv name val =
     (if lock_nvram_mutex lk \<noteq> EZCFG_RET_OK then Some (EZCFG_RET_FAIL, nv)
      else nvram_set_entry nv name val)"

definition local_nvram_get_entry_value ::
    "mutex_call \<Rightarrow> mutex_call \<Rightarrow> nvram \<Rightarrow> string \<Rightarrow> (int \<times> string option \<times> nvram) option" where
  "local_nvram_get_entry_value lk ulk nv name =
     (if lock_nvram_mutex lk \<noteq> EZCFG_RET_OK then Some (EZCFG_RET_FAIL, None, nv)
      else nvram_get_entry_value nv name)"

definition local_nvram_unset_entry ::
    "mutex_call \<Rightarrow> mutex_call \<Rightarrow> nvram \<Rightarrow> string \<Rightarrow> (int \<times> nvram) option" where
  "local_nvram_unset_entry lk ulk nv name =
     (if lock_nvram_mutex lk \<noteq> EZCFG_RET_OK then Some (EZCFG_RET_FAIL, nv)
      else nvram_unset_entry nv name)"

definition local_nvram_commit :: "mutex_call \<Rightarrow> mutex_call \<Rightarrow> nvram \<Rightarrow> int" where
  "local_nvram_commit lk ulk nv =
     (if lock_nvram_mutex lk \<noteq> EZCFG_RET_OK then EZCFG_RET_FAIL else nvram_commit nv)"

definition local_nvram_match_entry ::
    "mutex_call \<Rightarrow> mutex_call \<Rightarrow> nvram \<Rightarrow> string \<Rightarrow> string \<Rightarrow> int option" where
  "local_nvram_match_entry lk ulk nv name1 name2 =
     (if lock_nvram_mutex lk \<noteq> EZCFG_RET_OK then Some EZCFG_RET_FAIL
      else map_option of_bool (nvram_match_entry nv name1 name2))"

definition local_nvram_match_entry_value ::
    "mutex_call \<Rightarrow> mutex_call \<Rightarrow> nvram \<Rightarrow> string \<Rightarrow> string \<Rightarrow> int option" where
  "local_nvram_match_entry_value lk ulk nv name val =
     (if lock_nvram_mutex lk \<noteq> EZCFG_RET_OK then Some EZCFG_RET_FAIL
      else nvram_match_entry_value nv name val)"

text \<open>Deleting the table: the nodes up to the first one without a name are cleaned.\<close>

fun nvram_del_loop :: "nvram_node list \<Rightarrow> strbuf heap \<Rightarrow> strbuf heap option" where
  "nvram_del_loop [] h = Some h"
| "nvram_del_loop (np # ns) h =
     (if nn_name np = None then Some h
      else do { (_, h') \<leftarrow> nvram_node_clean np h; nvram_del_loop ns h' })"

definition local_nvram_del :: "mutex_call \<Rightarrow> mutex_call \<Rightarrow> nvram \<Rightarrow> (int \<times> strbuf heap) option" where
  "local_nvram_del lk ulk nv =
     (if lock_nvram_mutex lk \<noteq> EZCFG_RET_OK then Some (EZCFG_RET_FAIL, nv_heap nv)
      else do {
        h \<leftarrow> nvram_del_loop (take (nat (node_list_size nv)) (node_list nv)) (nv_heap nv);
        Some (if unlock_nvram_mutex ulk \<noteq> EZCFG_RET_OK then EZCFG_RET_FAIL else EZCFG_RET_OK, h)
      })"

text \<open>\<^verbatim>\<open>atoi\<close>: white space, an optional sign, digits.\<close>

definition c_isspace :: "char \<Rightarrow> bool" where
  "c_isspace c \<longleftrightarrow> (of_char c :: nat) \<in> {32, 9, 10, 11, 12, 13}"

fun digits_value :: "int \<Rightarrow> string \<Rightarrow> int" where
  "digits_value n [] = n"
| "digits_value n (c # cs) = (if is_digit c then digits_value (10 * n + (of_char c - 48)) cs else n)"

definition atoi :: "string \<Rightarrow> int" where
  "atoi s =
     (case dropWhile c_isspace s of
        [] \<Rightarrow> 0
      | c # cs \<Rightarrow>
          if c = CHR ''-'' then - digits_value 0 cs
          else if c = CHR ''+'' then digits_value 0 cs
          else digits_value 0 (c # cs))"

text \<open>
  Creating the table.  Its size is the setting \<^verbatim>\<open>meta.nvram_node_list_size\<close> of the meta store;
  \<open>mem i\<close> says whether the \<open>i\<close>-th allocation succeeds (the copy of the value, the array, the
  header).  When the lock cannot be taken the array is freed and the header, which has no array
  yet, goes to \<^verbatim>\<open>local_nvram_del\<close>, whose own lock attempts are \<open>lk2\<close> and \<open>ulk2\<close>.
\<close>

definition NVRAM_NODE_LIST_SIZE :: string where
  "NVRAM_NODE_LIST_SIZE = ''meta.'' @ ''nvram_node_list_size''"

definition local_nvram_new ::
    "(nat \<Rightarrow> bool) \<Rightarrow> mutex_call \<Rightarrow> mutex_call \<Rightarrow> mutex_call \<Rightarrow> mutex_call \<Rightarrow> meta_nvram \<Rightarrow> strbuf heap \<Rightarrow>
       nvram option option" where
  "local_nvram_new mem lk ulk lk2 ulk2 m h = do {
     (ret, val) \<leftarrow> local_meta_nvram_get_entry_value (mem 0) m NVRAM_NODE_LIST_SIZE;
     case val of
       None \<Rightarrow> Some None
     | Some v \<Rightarrow>
         let n = atoi v; nv = \<lparr>node_list = [], node_list_size = 0, node_list_used = 0,
                                total_space_used = 0, nv_heap = h\<rparr> in
         if ret \<noteq> EZCFG_RET_OK \<or> n < 1 then Some None
         else if \<not> mem 1 \<or> \<not> mem 2 then Some None
         else if lock_nvram_mutex lk \<noteq> EZCFG_RET_OK then do {
           _ \<leftarrow> local_nvram_del lk2 ulk2 nv;
           Some None
         }
         else if unlock_nvram_mutex ulk \<noteq> EZCFG_RET_OK then Some None
         else Some (Some (nv\<lparr>node_list := replicate (nat n) null_node, node_list_size := n\<rparr>))
   }"

text \<open>The version text is printed into a buffer of \<open>len\<close> bytes.\<close>

definition default_version :: "nat list" where
  "default_version = [0, 2, 0, 0]"

definition version_digit :: "nat \<Rightarrow> string" where
  "version_digit d = [char_of (48 + d)]"

definition snprintf :: "nat \<Rightarrow> string \<Rightarrow> string" where
  "snprintf len s = take (len - 1) s"

definition local_nvram_get_version_string :: "mutex_call \<Rightarrow> mutex_call \<Rightarrow> nat \<Rightarrow> int \<times> string option" where
  "local_nvram_get_version_string lk ulk len =
     (if lock_nvram_mutex lk \<noteq> EZCFG_RET_OK then (EZCFG_RET_FAIL, None)
      else
        let s = version_digit (default_version ! 0) @ ''.'' @ version_digit (default_version ! 1) @ ''.'' @
                version_digit (default_version ! 2) @ ''.'' @ version_digit (default_version ! 3);
            ret = (if length s < len then EZCFG_RET_OK else EZCFG_RET_FAIL)
        in (if unlock_nvram_mutex ulk \<noteq> EZCFG_RET_OK then EZCFG_RET_FAIL else ret,
            Some (snprintf len s)))"

end
