(* ===== verification/Settings_Store.thy ===== *)
theory Settings_Store
  imports Ez_Prelude
begin

text \<open>
  What the library expects of a settings store: a finite map from names to values with a
  budget of free bytes.  The locale \<open>settings_store\<close> is the interface; storing a sequence
  of settings and reading one back is proved once in it.  The implementation that
  interprets it is the flat buffer of \<^verbatim>\<open>common/meta_nvram.c\<close>.
\<close>

section \<open>Sequences of settings\<close>

fun set_all ::
    "('s \<Rightarrow> string \<Rightarrow> string \<Rightarrow> (int \<times> 's) option) \<Rightarrow> 's \<Rightarrow> (string \<times> string) list \<Rightarrow> (int \<times> 's) option" where
  "set_all sset s [] = Some (EZCFG_RET_OK, s)"
| "set_all sset s ((n, v) # kvs) = do {
     (ret, s') \<leftarrow> sset s n v;
     if ret = EZCFG_RET_OK then set_all sset s' kvs else Some (ret, s')
   }"

lemma map_of_rev_distinct: "distinct (map fst kvs) \<Longrightarrow> map_of (rev kvs) = map_of kvs"
  by (simp add: map_of_inject_set rev_map [symmetric])

definition setting_cost :: "string \<times> string \<Rightarrow> nat" where
  "setting_cost kv = length (fst kv) + length (snd kv) + 2"

text \<open>Each setting can be stored in turn.\<close>

fun all_fit ::
    "((string \<rightharpoonup> string) \<Rightarrow> string \<Rightarrow> string \<Rightarrow> bool) \<Rightarrow> (string \<rightharpoonup> string) \<Rightarrow> (string \<times> string) list \<Rightarrow> bool" where
  "all_fit fits M [] = True"
| "all_fit fits M ((n, v) # kvs) \<longleftrightarrow> fits M n v \<and> all_fit fits (M(n \<mapsto> v)) kvs"

section \<open>The interface\<close>

locale settings_store =
  fixes holds :: "'s \<Rightarrow> (string \<rightharpoonup> string) \<Rightarrow> bool"
    and room :: "'s \<Rightarrow> nat \<Rightarrow> bool"
    and fits :: "(string \<rightharpoonup> string) \<Rightarrow> string \<Rightarrow> string \<Rightarrow> bool"
    and sset :: "'s \<Rightarrow> string \<Rightarrow> string \<Rightarrow> (int \<times> 's) option"
    and sget :: "'s \<Rightarrow> string \<Rightarrow> (int \<times> string option) option"
  assumes set_holds: "holds s M \<Longrightarrow> fits M n v \<Longrightarrow> room s (setting_cost (n, v) + k) \<Longrightarrow>
      \<exists>s'. sset s n v = Some (EZCFG_RET_OK, s') \<and> holds s' (M(n \<mapsto> v)) \<and> room s' k"
    and get_holds: "holds s M \<Longrightarrow> M n = Some v \<Longrightarrow> sget s n = Some (EZCFG_RET_OK, Some v)"
begin

lemma set_all_holds:
  "holds s M \<Longrightarrow> all_fit fits M kvs \<Longrightarrow> room s (sum_list (map setting_cost kvs) + k) \<Longrightarrow>
    \<exists>s'. set_all sset s kvs = Some (EZCFG_RET_OK, s') \<and> holds s' (M ++ map_of (rev kvs)) \<and> room s' k"
proof (induction kvs arbitrary: s M)
  case Nil
  then show ?case by simp
next
  case (Cons kv kvs)
  obtain n v where kv: "kv = (n, v)" by (cases kv)
  have "room s (setting_cost (n, v) + (sum_list (map setting_cost kvs) + k))"
    using Cons.prems(3) kv by (simp add: add.assoc)
  from set_holds [OF Cons.prems(1) _ this] Cons.prems(2) kv obtain s1 where
    s1: "sset s n v = Some (EZCFG_RET_OK, s1)" "holds s1 (M(n \<mapsto> v))"
    "room s1 (sum_list (map setting_cost kvs) + k)" by auto
  have "all_fit fits (M(n \<mapsto> v)) kvs" using Cons.prems(2) kv by simp
  from Cons.IH [OF s1(2) this s1(3)] obtain s2 where
    s2: "set_all sset s1 kvs = Some (EZCFG_RET_OK, s2)" "holds s2 (M(n \<mapsto> v) ++ map_of (rev kvs))" "room s2 k"
    by blast
  have "M(n \<mapsto> v) ++ map_of (rev kvs) = M ++ map_of (rev kvs @ [(n, v)])"
    by (rule ext) (simp add: map_of_append map_add_def split: option.splits)
  then have "holds s2 (M ++ map_of (rev kvs @ [(n, v)]))" using s2(2) by (rule subst [where P = "holds s2"])
  then show ?case using s1(1) s2(1,3) kv by (intro exI [of _ s2]) simp
qed

text \<open>After storing a sequence, the last value of every name is read back.\<close>

lemma set_all_get:
  assumes "holds s M" "all_fit fits M kvs" "room s (sum_list (map setting_cost kvs))"
    and "map_of (rev kvs) n = Some v"
  shows "\<exists>s'. set_all sset s kvs = Some (EZCFG_RET_OK, s') \<and> sget s' n = Some (EZCFG_RET_OK, Some v)"
proof -
  from set_all_holds [OF assms(1,2), of 0] assms(3) obtain s' where
    "set_all sset s kvs = Some (EZCFG_RET_OK, s')" "holds s' (M ++ map_of (rev kvs))" by auto
  with get_holds [OF this(2), of n v] assms(4) show ?thesis by (auto simp: map_add_def)
qed

end

end
