(* ===== verification/Nvram_Spec.thy ===== *)
theory Nvram_Spec
  imports Nvram Settings_Store
begin

text \<open>
  What the settings table of \<^verbatim>\<open>common/nvram.c\<close> does, stated on the list of its name-value
  pairs: the table invariant \<open>nv_rep\<close>, the search on a plain list of names, and the operations
  on the list that the C functions refine.
\<close>

section \<open>The table invariant\<close>

definition node_ok :: "strbuf heap \<Rightarrow> nvram_node \<Rightarrow> string \<times> string \<Rightarrow> bool" where
  "node_ok h np e \<longleftrightarrow>
     (\<exists>a b cap. nn_name np = Some a \<and> nn_value np = Some b \<and>
        cells h a = Some (length (fst e) + 1, fst e) \<and>
        cells h b = Some (cap, snd e) \<and> length (snd e) < cap \<and>
        nn_nlen np = int (length (fst e)) + 1 \<and> nn_vlen np = int cap)"

definition node_ptrs :: "nvram_node \<Rightarrow> ptr list" where
  "node_ptrs np = [nn_name np, nn_value np]"

definition node_space :: "nvram_node \<Rightarrow> 32 word" where
  "node_space np = of_int (nn_nlen np) + of_int (nn_vlen np)"

definition nodes_rep :: "strbuf heap \<Rightarrow> nvram_node list \<Rightarrow> (string \<times> string) list \<Rightarrow> bool" where
  "nodes_rep h ns es \<longleftrightarrow> list_all2 (node_ok h) ns es \<and> distinct (concat (map node_ptrs ns))"

text \<open>The used nodes hold the pairs in their own blocks, the others are empty, and the byte count
  is the sum over the used nodes modulo the width of \<^verbatim>\<open>size_t\<close>.\<close>

definition nv_rep :: "nvram \<Rightarrow> (string \<times> string) list \<Rightarrow> bool" where
  "nv_rep nv es \<longleftrightarrow> heap_ok (nv_heap nv) \<and> node_list_used nv = int (length es) \<and>
     node_list_size nv = int (length (node_list nv)) \<and>
     total_space_used nv = sum_list (map node_space (take (length es) (node_list nv))) \<and>
     (\<exists>ns rest. node_list nv = ns @ rest \<and> length ns = length es \<and> nodes_rep (nv_heap nv) ns es \<and>
        (\<forall>np\<in>set rest. np = null_node))"

section \<open>The search on a list of names\<close>

function nsearch :: "string list \<Rightarrow> string \<Rightarrow> int \<Rightarrow> int \<Rightarrow> int \<Rightarrow> int \<times> bool" where
  "nsearch names name bottom upper middle =
     (if bottom < upper then
        let mid = (bottom + upper) div 2; s = names ! nat mid in
        if s = name then (mid, True)
        else if strcmp s name < 0 then nsearch names name (mid + 1) upper mid
        else nsearch names name bottom (mid - 1) mid
      else (middle, False))"
  by pat_completeness auto
termination
  by (relation "measure (\<lambda>(names, name, bottom, upper, middle). nat (upper - bottom))") auto

declare nsearch.simps [simp del]

definition nv_pos :: "(string \<times> string) list \<Rightarrow> string \<Rightarrow> int \<times> bool" where
  "nv_pos es name = nsearch (map fst es) name 0 (int (length es)) (int (length es) div 2)"

lemma nsearch_range:
  "0 \<le> b \<Longrightarrow> u \<le> int (length names) \<Longrightarrow> (b < u \<or> 0 \<le> m \<and> m < int (length names)) \<Longrightarrow>
     nsearch names name b u m = (i, eq) \<Longrightarrow>
     0 \<le> i \<and> i < int (length names) \<and> (eq \<longrightarrow> names ! nat i = name)"
proof (induction names name b u m rule: nsearch.induct)
  case (1 names name b u m)
  show ?case
  proof (cases "b < u")
    case False
    then show ?thesis using "1.prems" by (simp add: nsearch.simps [of names name b u m])
  next
    case True
    define mid where "mid = (b + u) div 2"
    have mid: "b \<le> mid" "mid < u" using True by (auto simp: mid_def)
    note unf = nsearch.simps [of names name b u m, unfolded Let_def, folded mid_def]
    consider "names ! nat mid = name"
      | "names ! nat mid \<noteq> name" "strcmp (names ! nat mid) name < 0"
      | "names ! nat mid \<noteq> name" "\<not> strcmp (names ! nat mid) name < 0" by blast
    then show ?thesis
    proof cases
      case 1
      then show ?thesis using "1.prems" True mid by (simp add: unf)
    next
      case 2
      then show ?thesis
        using "1.IH"(1) [OF True mid_def refl 2] "1.prems" True mid by (simp add: unf)
    next
      case 3
      then show ?thesis
        using "1.IH"(2) [OF True mid_def refl 3] "1.prems" True mid by (simp add: unf)
    qed
  qed
qed

lemma nv_pos_range:
  assumes "nv_pos es name = (i, eq)" and "es \<noteq> []"
  shows "0 \<le> i" "nat i < length es" "eq \<Longrightarrow> fst (es ! nat i) = name"
proof -
  have "0 \<le> i \<and> i < int (length es) \<and> (eq \<longrightarrow> map fst es ! nat i = name)"
    using nsearch_range [of 0 "int (length es)" "map fst es"] assms unfolding nv_pos_def by simp
  then show "0 \<le> i" "nat i < length es" "eq \<Longrightarrow> fst (es ! nat i) = name" by auto
qed

lemma nv_pos_Nil [simp]: "nv_pos [] name = (0, False)"
  by (simp add: nv_pos_def nsearch.simps)

text \<open>The position depends on the names only.\<close>

lemma nv_pos_names: "map fst es = map fst es' \<Longrightarrow> nv_pos es name = nv_pos es' name"
  unfolding nv_pos_def by (metis length_map)

section \<open>Reading a represented table\<close>

lemma nv_rep_node:
  assumes "nv_rep nv es" and "0 \<le> i" and "nat i < length es"
  obtains np where "node_at (node_list nv) i = Some np" "node_ok (nv_heap nv) np (es ! nat i)"
proof -
  obtain ns rest where ns: "node_list nv = ns @ rest" "length ns = length es" "nodes_rep (nv_heap nv) ns es"
    using assms(1) by (auto simp: nv_rep_def)
  then have "node_ok (nv_heap nv) (ns ! nat i) (es ! nat i)"
    using assms(3) by (auto simp: nodes_rep_def list_all2_conv_all_nth)
  moreover have "node_at (node_list nv) i = Some (ns ! nat i)"
    using assms(2,3) ns by (simp add: node_at_def nth_append)
  ultimately show thesis by (rule that [rotated])
qed

lemma node_ok_str:
  assumes "node_ok h np e"
  shows "str_at h (nn_name np) = Some (fst e)" "str_at h (nn_value np) = Some (snd e)"
  using assms by (auto simp: node_ok_def str_at_def)

lemma find_loop_nsearch:
  "nv_rep nv es \<Longrightarrow> 0 \<le> b \<Longrightarrow> u \<le> int (length es) \<Longrightarrow>
     nvram_find_loop nv name b u m = Some (nsearch (map fst es) name b u m)"
proof (induction nv name b u m rule: nvram_find_loop.induct)
  case (1 nv name b u m)
  show ?case
  proof (cases "b < u")
    case False
    then show ?thesis by (simp add: nvram_find_loop.simps [of nv name b u m] nsearch.simps [of _ name b u m])
  next
    case True
    define mid where "mid = (b + u) div 2"
    have mid: "b \<le> mid" "mid < u" using True by (auto simp: mid_def)
    have r: "0 \<le> mid" "nat mid < length es" using mid "1.prems" by auto
    obtain np where np: "node_at (node_list nv) mid = Some np" "node_ok (nv_heap nv) np (es ! nat mid)"
      using nv_rep_node [OF "1.prems"(1) r] by blast
    note s = node_ok_str(1) [OF np(2)]
    have n: "map fst es ! nat mid = fst (es ! nat mid)" using r by simp
    note IH1 = "1.IH"(1) [OF True mid_def np(1) s]
    note IH2 = "1.IH"(2) [OF True mid_def np(1) s]
    show ?thesis
      unfolding nvram_find_loop.simps [of nv name b u m] nsearch.simps [of _ name b u m] Let_def
        mid_def [symmetric]
      using True IH1 IH2 "1.prems" mid by (simp add: np(1) s n)
  qed
qed

lemma find_position_nv_pos: "nv_rep nv es \<Longrightarrow> nvram_find_entry_position nv name = Some (nv_pos es name)"
  unfolding nvram_find_entry_position_def nv_pos_def
  by (simp add: find_loop_nsearch nv_rep_def [of nv es])

section \<open>Framing\<close>

lemma node_ok_frame:
  assumes "node_ok h np e" and "\<And>a. Some a \<in> set (node_ptrs np) \<Longrightarrow> cells h' a = cells h a"
  shows "node_ok h' np e"
  using assms unfolding node_ok_def node_ptrs_def by fastforce

lemma nodes_rep_frame:
  assumes "nodes_rep h ns es" and "\<And>np a. np \<in> set ns \<Longrightarrow> Some a \<in> set (node_ptrs np) \<Longrightarrow> cells h' a = cells h a"
  shows "nodes_rep h' ns es"
  using assms unfolding nodes_rep_def
  by (auto simp: list_all2_conv_all_nth intro!: node_ok_frame [of h _ _ h']) (metis nth_mem)

lemma nodes_rep_live:
  assumes "nodes_rep h ns es" and "np \<in> set ns" and "Some a \<in> set (node_ptrs np)"
  shows "cells h a \<noteq> None"
proof -
  obtain i where "i < length ns" "ns ! i = np" using assms(2) by (auto simp: in_set_conv_nth)
  then have "node_ok h np (es ! i)" using assms(1) by (auto simp: nodes_rep_def list_all2_conv_all_nth)
  then show ?thesis using assms(3) by (auto simp: node_ok_def node_ptrs_def)
qed

text \<open>Blocks at or above the allocation counter, and blocks that no node owns, may change.\<close>

lemma nodes_rep_fresh:
  assumes "nodes_rep h ns es" and "heap_ok h" and "\<And>a. a < brk h \<Longrightarrow> cells h' a = cells h a"
  shows "nodes_rep h' ns es"
  using nodes_rep_frame [OF assms(1)] nodes_rep_live [OF assms(1)] heap_ok_fresh [OF assms(2)] assms(3)
  by blast

lemma nodes_rep_append:
  "length ns1 = length es1 \<Longrightarrow>
     nodes_rep h (ns1 @ ns2) (es1 @ es2) \<longleftrightarrow> nodes_rep h ns1 es1 \<and> nodes_rep h ns2 es2 \<and>
       set (concat (map node_ptrs ns1)) \<inter> set (concat (map node_ptrs ns2)) = {}"
  unfolding nodes_rep_def by (auto simp: list_all2_append)

lemma nodes_rep_Cons:
  "nodes_rep h (np # ns) (e # es) \<longleftrightarrow> node_ok h np e \<and> nodes_rep h ns es \<and> distinct (node_ptrs np) \<and>
     set (node_ptrs np) \<inter> set (concat (map node_ptrs ns)) = {}"
  unfolding nodes_rep_def by auto

lemma nodes_rep_Nil [simp]: "nodes_rep h [] []"
  by (simp add: nodes_rep_def)

section \<open>Allocating the strings of an entry\<close>

lemma strdup_cases:
  assumes "heap_ok h"
  obtains h' where "strdup s h = (None, h')" "oom h (brk h)" "cells h' = cells h" "heap_ok h'"
      "brk h' = Suc (brk h)" "oom h' = oom h"
    | h' where "strdup s h = (Some (brk h), h')" "cells h' = (cells h)(brk h \<mapsto> (length s + 1, s))"
      "heap_ok h'" "brk h' = Suc (brk h)" "oom h' = oom h"
proof (cases "oom h (brk h)")
  case True
  then show thesis using assms by (intro that(1) [of "h\<lparr>brk := Suc (brk h)\<rparr>"]) (auto simp: strdup_def halloc_def)
next
  case False
  then show thesis using assms
    by (intro that(2) [of "h\<lparr>cells := (cells h)(brk h \<mapsto> (length s + 1, s)), brk := Suc (brk h)\<rparr>"])
      (auto simp: strdup_def halloc_def)
qed

text \<open>Either both strings are fresh blocks, or an allocation failed and no block is left over.\<close>

lemma dup_entry_cases:
  assumes "heap_ok h"
  obtains (fail) h' k where "nvram_dup_entry name val h = Some (None, h')" "brk h \<le> k" "oom h k"
      "cells h' = cells h" "heap_ok h'"
    | (ok) a b h' where "nvram_dup_entry name val h = Some (Some (Some a, Some b), h')" "a \<noteq> b"
      "brk h \<le> a" "brk h \<le> b" "heap_ok h'"
      "cells h' = (cells h)(a \<mapsto> (length name + 1, name), b \<mapsto> (length val + 1, val))"
proof -
  have f: "cells h (brk h) = None" "cells h (Suc (brk h)) = None" using assms by (auto simp: heap_ok_def)
  note d = nvram_dup_entry_def strdup_def halloc_def str_free_def hfree_def Let_def
  consider "oom h (brk h)" | "\<not> oom h (brk h)" "oom h (Suc (brk h))"
    | "\<not> oom h (brk h)" "\<not> oom h (Suc (brk h))" by blast
  then show thesis
  proof cases
    case 1
    show thesis
    proof (cases "oom h (Suc (brk h))")
      case True
      with 1 show thesis using assms f
        by (intro fail [of "h\<lparr>brk := Suc (Suc (brk h))\<rparr>" "brk h"]) (auto simp: d heap_ok_def)
    next
      case False
      with 1 show thesis using assms f
        by (intro fail [of "h\<lparr>brk := Suc (Suc (brk h))\<rparr>" "brk h"])
          (auto simp: d heap_ok_def fun_upd_idem intro!: heap.equality)
    qed
  next
    case 2
    then show thesis using assms f
      by (intro fail [of "h\<lparr>brk := Suc (Suc (brk h))\<rparr>" "Suc (brk h)"])
        (auto simp: d heap_ok_def fun_upd_idem intro!: heap.equality)
  next
    case 3
    then show thesis using assms f
      by (intro ok [of "brk h" "Suc (brk h)"
            "h\<lparr>cells := (cells h)(brk h \<mapsto> (length name + 1, name), Suc (brk h) \<mapsto> (length val + 1, val)),
               brk := Suc (Suc (brk h))\<rparr>"])
        (auto simp: d heap_ok_def)
  qed
qed

section \<open>Inserting a node\<close>

lemma node_copy_nth:
  "node_copy (int i) (int j) ns = (if i < length ns \<and> j < length ns then Some (ns[i := ns ! j]) else None)"
  by (simp add: node_copy_def node_at_def)

lemma shift_up_append:
  "nvram_shift_up (length vs) (int (length us + length vs)) (us @ vs @ r # rest) =
     Some (us @ hd (vs @ [r]) # vs @ rest)"
proof (induction vs arbitrary: r rest rule: rev_induct)
  case Nil
  then show ?case by simp
next
  case (snoc x vs)
  have c: "node_copy (int (length us + length vs + 1)) (int (length us + length vs)) (us @ (vs @ [x]) @ r # rest) =
      Some (us @ vs @ x # x # rest)"
    unfolding node_copy_nth by (simp add: nth_append list_update_append)
  have "hd (vs @ [x]) = hd ((vs @ [x]) @ [r])" by (cases vs) auto
  then show ?case using snoc.IH [of x "x # rest"] c by (simp add: add.commute)
qed

lemma sum_list_insert:
  "sum_list (map f (take i xs @ (x::'a) # drop i xs)) = (sum_list (map f xs) :: 'b::comm_monoid_add) + f x"
proof -
  have "sum_list (map f xs) = sum_list (map f (take i xs)) + sum_list (map f (drop i xs))"
    by (metis append_take_drop_id map_append sum_list_append)
  then show ?thesis by (simp add: ac_simps)
qed

lemma nodes_rep_insert:
  assumes rep: "nodes_rep h ns es" and ok: "heap_ok h"
    and c: "cells h' = (cells h)(a \<mapsto> (length name + 1, name), b \<mapsto> (length val + 1, val))"
    and ab: "a \<noteq> b" "brk h \<le> a" "brk h \<le> b"
  shows "nodes_rep h' (take i ns @ \<lparr>nn_name = Some a, nn_value = Some b, nn_nlen = int (length name) + 1,
      nn_vlen = int (length val) + 1\<rparr> # drop i ns) (take i es @ (name, val) # drop i es)"
    (is "nodes_rep h' (take i ns @ ?n # drop i ns) _")
proof -
  have len: "length ns = length es" using rep by (auto simp: nodes_rep_def dest: list_all2_lengthD)
  have rep': "nodes_rep h' ns es" by (rule nodes_rep_fresh [OF rep ok]) (use c ab in auto)
  then have parts: "nodes_rep h' (take i ns) (take i es)" "nodes_rep h' (drop i ns) (drop i es)"
    "set (concat (map node_ptrs (take i ns))) \<inter> set (concat (map node_ptrs (drop i ns))) = {}"
    using nodes_rep_append [of "take i ns" "take i es" h' "drop i ns" "drop i es"] len by auto
  have old: "Some x \<in> set (concat (map node_ptrs ns)) \<Longrightarrow> x < brk h" for x
    using nodes_rep_live [OF rep] heap_ok_fresh [OF ok] by auto
  have "set (concat (map node_ptrs ns)) = set (concat (map node_ptrs (take i ns))) \<union> set (concat (map node_ptrs (drop i ns)))"
    by (metis append_take_drop_id concat_append map_append set_append)
  with old ab have new: "Some a \<notin> set (concat (map node_ptrs (take i ns)))" "Some b \<notin> set (concat (map node_ptrs (take i ns)))"
    "Some a \<notin> set (concat (map node_ptrs (drop i ns)))" "Some b \<notin> set (concat (map node_ptrs (drop i ns)))"
    by (metis UnI1 not_le, metis UnI1 not_le, metis UnI2 not_le, metis UnI2 not_le)
  have "node_ok h' ?n (name, val)" using c ab by (auto simp: node_ok_def)
  moreover have "node_ptrs ?n = [Some a, Some b]" by (simp add: node_ptrs_def)
  ultimately have "nodes_rep h' (?n # drop i ns) ((name, val) # drop i es)"
    unfolding nodes_rep_Cons using parts(2) ab new by auto
  then show ?thesis
    using nodes_rep_append [of "take i ns" "take i es" h' "?n # drop i ns"] len parts new
      \<open>node_ptrs ?n = _\<close> by auto
qed

lemma nv_rep_insert:
  assumes rep: "nv_rep nv es" and i: "i \<le> length es" and space: "length es < length (node_list nv)"
    and h': "heap_ok h'" "cells h' = (cells (nv_heap nv))(a \<mapsto> (length name + 1, name), b \<mapsto> (length val + 1, val))"
    and ab: "a \<noteq> b" "brk (nv_heap nv) \<le> a" "brk (nv_heap nv) \<le> b"
  shows "\<exists>ns nv'. nvram_shift_up (length es - i) (int (length es)) (node_list nv) = Some ns \<and>
     nvram_fill_node (nv\<lparr>node_list := ns, nv_heap := h'\<rparr>) (int i) name val (Some a, Some b) = Some nv' \<and>
     nv_rep nv' (take i es @ (name, val) # drop i es)"
proof -
  obtain ns rest where ns: "node_list nv = ns @ rest" "length ns = length es" "nodes_rep (nv_heap nv) ns es"
    "\<forall>np\<in>set rest. np = null_node" and ok: "heap_ok (nv_heap nv)" using rep by (auto simp: nv_rep_def)
  then obtain r rest' where r: "rest = r # rest'" using space by (cases rest) auto
  let ?n = "\<lparr>nn_name = Some a, nn_value = Some b, nn_nlen = int (length name) + 1, nn_vlen = int (length val) + 1\<rparr>"
  let ?s = "take i ns @ hd (drop i ns @ [r]) # drop i ns @ rest'"
  have sh: "nvram_shift_up (length es - i) (int (length es)) (node_list nv) = Some ?s"
  proof -
    have "take i ns @ drop i ns @ r # rest' = ns @ r # rest'" by (metis append.assoc append_take_drop_id)
    note sh = shift_up_append [of "drop i ns" "take i ns" r rest', unfolded this]
    show ?thesis using sh ns(1,2) r i by simp
  qed
  have upd: "?s[i := ?n] = take i ns @ ?n # drop i ns @ rest'"
    using i ns(2) by (simp add: list_update_append)
  define nv' where "nv' = nv\<lparr>node_list := take i ns @ ?n # drop i ns @ rest', nv_heap := h',
    node_list_used := node_list_used nv + 1,
    total_space_used := total_space_used nv + of_int (int (length name) + 1) + of_int (int (length val) + 1)\<rparr>"
  have fill: "nvram_fill_node (nv\<lparr>node_list := ?s, nv_heap := h'\<rparr>) (int i) name val (Some a, Some b) = Some nv'"
    unfolding nvram_fill_node_def Let_def nv'_def using i ns(2) upd by (simp add: node_at_def)
  have total: "total_space_used nv = sum_list (map node_space ns)" using rep ns(1,2) by (simp add: nv_rep_def)
  have t': "take (Suc (length es)) (take i ns @ ?n # drop i ns @ rest') = take i ns @ ?n # drop i ns"
    using i ns(2) by (simp add: take_Cons')
  have "nv_rep nv' (take i es @ (name, val) # drop i es)"
    unfolding nv_rep_def
  proof (intro conjI exI)
    show "node_list nv' = (take i ns @ ?n # drop i ns) @ rest'" by (simp add: nv'_def)
    show "nodes_rep (nv_heap nv') (take i ns @ ?n # drop i ns) (take i es @ (name, val) # drop i es)"
      unfolding nv'_def using nodes_rep_insert [OF ns(3) ok h'(2) ab] by simp
    show "total_space_used nv' = sum_list (map node_space (take (length (take i es @ (name, val) # drop i es)) (node_list nv')))"
    proof -
      have "length (take i es @ (name, val) # drop i es) = Suc (length es)" using i by simp
      moreover have "node_list nv' = take i ns @ ?n # drop i ns @ rest'" by (simp add: nv'_def)
      ultimately have "sum_list (map node_space (take (length (take i es @ (name, val) # drop i es)) (node_list nv'))) =
          total_space_used nv + node_space ?n"
        using t' sum_list_insert [of node_space i ns ?n] total by metis
      then show ?thesis by (simp add: nv'_def node_space_def add.assoc)
    qed
  qed (use rep i ns r h'(1) in \<open>auto simp: nv'_def nv_rep_def\<close>)
  with sh fill show ?thesis by blast
qed

section \<open>Changing one node\<close>

abbreviation owned :: "nvram_node list \<Rightarrow> ptr set" where
  "owned ns \<equiv> set (concat (map node_ptrs ns))"

lemma nodes_rep_at:
  assumes "i < length ns" and "length ns = length es"
  shows "nodes_rep h (ns[i := np]) (es[i := e]) \<longleftrightarrow>
     nodes_rep h (take i ns) (take i es) \<and> nodes_rep h (drop (Suc i) ns) (drop (Suc i) es) \<and>
     owned (take i ns) \<inter> owned (drop (Suc i) ns) = {} \<and>
     node_ok h np e \<and> distinct (node_ptrs np) \<and>
     set (node_ptrs np) \<inter> (owned (take i ns) \<union> owned (drop (Suc i) ns)) = {}"
proof -
  have "ns[i := np] = take i ns @ np # drop (Suc i) ns" "es[i := e] = take i es @ e # drop (Suc i) es"
    using assms by (auto simp: upd_conv_take_nth_drop)
  then show ?thesis using assms by (simp add: nodes_rep_append nodes_rep_Cons) blast
qed

lemma nodes_rep_update:
  assumes rep: "nodes_rep h ns es" and i: "i < length ns" and np: "node_ok h' np e" "distinct (node_ptrs np)"
    and keep: "\<And>a. Some a \<notin> set (node_ptrs (ns ! i)) \<Longrightarrow> cells h a \<noteq> None \<Longrightarrow> cells h' a = cells h a"
    and sep: "\<And>p. p \<in> set (node_ptrs np) \<Longrightarrow> p \<in> set (node_ptrs (ns ! i)) \<or> (\<forall>a. p = Some a \<longrightarrow> cells h a = None)"
  shows "nodes_rep h' (ns[i := np]) (es[i := e])"
proof -
  have len: "length ns = length es" using rep by (auto simp: nodes_rep_def dest: list_all2_lengthD)
  have "nodes_rep h (ns[i := ns ! i]) (es[i := es ! i])" using rep by simp
  note parts = this [unfolded nodes_rep_at [OF i len]]
  let ?l = "take i ns" and ?r = "drop (Suc i) ns"
  have live: "p \<in> owned ?l \<union> owned ?r \<Longrightarrow> \<exists>a. p = Some a \<and> cells h a \<noteq> None" for p
  proof -
    assume "p \<in> owned ?l \<union> owned ?r"
    then obtain n where n: "n \<in> set ns" "p \<in> set (node_ptrs n)" by (auto dest: in_set_takeD in_set_dropD)
    then obtain k where "k < length ns" "ns ! k = n" by (auto simp: in_set_conv_nth)
    then have "node_ok h n (es ! k)" using rep by (auto simp: nodes_rep_def list_all2_conv_all_nth)
    then show ?thesis using n(2) by (auto simp: node_ok_def node_ptrs_def)
  qed
  have same: "cells h' a = cells h a" if "Some a \<in> owned ?l \<union> owned ?r" for a
  proof (rule keep)
    show "cells h a \<noteq> None" using live [OF that] by simp
    show "Some a \<notin> set (node_ptrs (ns ! i))" using parts that by blast
  qed
  have "nodes_rep h' ?l (take i es)"
  proof (rule nodes_rep_frame)
    show "nodes_rep h ?l (take i es)" using parts by blast
    show "cells h' a = cells h a" if "n \<in> set ?l" "Some a \<in> set (node_ptrs n)" for n a
      by (rule same) (use that in auto)
  qed
  moreover have "nodes_rep h' ?r (drop (Suc i) es)"
  proof (rule nodes_rep_frame)
    show "nodes_rep h ?r (drop (Suc i) es)" using parts by blast
    show "cells h' a = cells h a" if "n \<in> set ?r" "Some a \<in> set (node_ptrs n)" for n a
      by (rule same) (use that in auto)
  qed
  moreover have "set (node_ptrs np) \<inter> (owned ?l \<union> owned ?r) = {}"
  proof (rule Int_emptyI)
    fix p assume p: "p \<in> set (node_ptrs np)" "p \<in> owned ?l \<union> owned ?r"
    from live [OF p(2)] obtain a where "p = Some a" "cells h a \<noteq> None" by blast
    with sep [OF p(1)] have "p \<in> set (node_ptrs (ns ! i))" by simp
    with p(2) parts show False by blast
  qed
  moreover have "owned ?l \<inter> owned ?r = {}" using parts by blast
  ultimately show ?thesis unfolding nodes_rep_at [OF i len] using np by (intro conjI)
qed

lemma sum_list_update_group:
  "i < length xs \<Longrightarrow>
     sum_list (map f (xs[i := x])) = (sum_list (map f xs) :: 'b::ab_group_add) - f (xs ! i) + f x"
proof (induction xs arbitrary: i)
  case Nil
  then show ?case by simp
next
  case (Cons y ys)
  then show ?case by (cases i) (simp_all add: algebra_simps)
qed

lemma nv_rep_update:
  assumes rep: "nv_rep nv es" and i: "i < length es" and np: "node_ok h' np e" "distinct (node_ptrs np)"
    and h': "heap_ok h'"
    and old: "node_at (node_list nv) (int i) = Some np0"
    and keep: "\<And>a. Some a \<notin> set (node_ptrs np0) \<Longrightarrow> cells (nv_heap nv) a \<noteq> None \<Longrightarrow> cells h' a = cells (nv_heap nv) a"
    and sep: "\<And>p. p \<in> set (node_ptrs np) \<Longrightarrow> p \<in> set (node_ptrs np0) \<or> (\<forall>a. p = Some a \<longrightarrow> cells (nv_heap nv) a = None)"
  shows "nv_rep (nv\<lparr>node_list := (node_list nv)[i := np],
      total_space_used := total_space_used nv - node_space np0 + node_space np, nv_heap := h'\<rparr>) (es[i := e])"
proof -
  obtain ns rest where ns: "node_list nv = ns @ rest" "length ns = length es" "nodes_rep (nv_heap nv) ns es"
    "\<forall>np\<in>set rest. np = null_node" using rep by (auto simp: nv_rep_def)
  have np0: "np0 = ns ! i" using old ns i by (auto simp: node_at_def nth_append split: if_splits)
  have "nodes_rep h' (ns[i := np]) (es[i := e])"
    by (rule nodes_rep_update [OF ns(3) _ np]) (use i ns keep sep np0 in auto)
  moreover have "(node_list nv)[i := np] = ns[i := np] @ rest" using ns i by (simp add: list_update_append)
  moreover have "total_space_used nv - node_space np0 + node_space np =
      sum_list (map node_space (take (length es) (ns[i := np] @ rest)))"
    using rep ns i np0 sum_list_update_group [of i ns node_space np] by (simp add: nv_rep_def)
  ultimately have "\<exists>ms rest. (node_list nv)[i := np] = ms @ rest \<and> length ms = length es \<and>
      nodes_rep h' ms (es[i := e]) \<and> (\<forall>np\<in>set rest. np = null_node)"
    "total_space_used nv - node_space np0 + node_space np =
      sum_list (map node_space (take (length es) ((node_list nv)[i := np])))"
    using ns(2,4) by (metis length_list_update, simp)
  then show ?thesis using rep h' unfolding nv_rep_def by simp
qed

section \<open>The operations on the list of pairs\<close>

text \<open>Storing into a table of \<open>n\<close> nodes; \<^term>\<open>None\<close> when the table is full.\<close>

definition table_set :: "nat \<Rightarrow> (string \<times> string) list \<Rightarrow> string \<Rightarrow> string \<Rightarrow> (string \<times> string) list option" where
  "table_set n es name val =
     (if es = [] then Some [(name, val)]
      else
        let (i, equal) = nv_pos es name in
        if equal then Some (es[nat i := (name, val)])
        else if length es = n then None
        else Some (take (nat i) es @ (name, val) # drop (nat i) es))"

text \<open>The value the table's own search comes to, which need not find every entry
  (\<open>nvram_store_lost\<close>).\<close>

definition table_get :: "(string \<times> string) list \<Rightarrow> string \<Rightarrow> string option" where
  "table_get es name =
     (let (i, equal) = nv_pos es name in if equal then Some (snd (es ! nat i)) else None)"

text \<open>An allocation from now on can fail.\<close>

definition may_fail :: "nvram \<Rightarrow> bool" where
  "may_fail nv \<longleftrightarrow> (\<exists>k\<ge>brk (nv_heap nv). oom (nv_heap nv) k)"

lemma nv_rep_heap:
  assumes "nv_rep nv es" and "cells h' = cells (nv_heap nv)" and "heap_ok h'"
  shows "nv_rep (nv\<lparr>nv_heap := h'\<rparr>) es"
proof -
  obtain ns rest where ns: "node_list nv = ns @ rest" "length ns = length es" "nodes_rep (nv_heap nv) ns es"
    "\<forall>np\<in>set rest. np = null_node" using assms(1) by (auto simp: nv_rep_def)
  have "nodes_rep h' ns es" by (rule nodes_rep_frame [OF ns(3)]) (simp add: assms(2))
  with ns assms show ?thesis unfolding nv_rep_def by auto
qed

text \<open>A new entry at position \<open>i\<close>: the allocation fails and nothing changes, or it is inserted.\<close>

lemma set_entry_insert:
  assumes rep: "nv_rep nv es" and i: "i \<le> length es" and space: "length es < length (node_list nv)"
  obtains h where "nvram_dup_entry name val (nv_heap nv) = Some (None, h)" "may_fail nv"
      "nv_rep (nv\<lparr>nv_heap := h\<rparr>) es"
    | pq h ns nv' where "nvram_dup_entry name val (nv_heap nv) = Some (Some pq, h)"
      "nvram_shift_up (length es - i) (int (length es)) (node_list nv) = Some ns"
      "nvram_fill_node (nv\<lparr>node_list := ns, nv_heap := h\<rparr>) (int i) name val pq = Some nv'"
      "nv_rep nv' (take i es @ (name, val) # drop i es)"
proof -
  have ok: "heap_ok (nv_heap nv)" using rep by (simp add: nv_rep_def)
  show thesis
    using ok
  proof (cases rule: dup_entry_cases [of "nv_heap nv" name val])
    case (fail h' k)
    then show thesis using that(1) [of h'] nv_rep_heap [OF rep] by (auto simp: may_fail_def)
  next
    case (ok a b h')
    from nv_rep_insert [OF rep i space ok(5,6,2,3,4)] obtain ns nv' where
      "nvram_shift_up (length es - i) (int (length es)) (node_list nv) = Some ns"
      "nvram_fill_node (nv\<lparr>node_list := ns, nv_heap := h'\<rparr>) (int i) name val (Some a, Some b) = Some nv'"
      "nv_rep nv' (take i es @ (name, val) # drop i es)" by blast
    then show thesis using that(2) ok(1) by blast
  qed
qed

text \<open>Overwriting the value of node \<open>i\<close>, in place or in a new block.\<close>

lemma set_entry_overwrite:
  assumes rep: "nv_rep nv es" and i: "i < length es"
    and np: "node_at (node_list nv) (int i) = Some np" "node_ok (nv_heap nv) np (es ! i)"
  shows "int (length val) < nn_vlen np \<Longrightarrow> \<exists>h. str_write (nn_value np) val (nv_heap nv) = Some h \<and>
      nv_rep (nv\<lparr>nv_heap := h\<rparr>) (es[i := (fst (es ! i), val)])" (is "?A \<Longrightarrow> ?B")
    and "\<lbrakk>strdup val (nv_heap nv) = (Some b', h); heap_ok h\<rbrakk> \<Longrightarrow> \<exists>h1. str_free (nn_value np) h = Some h1 \<and>
      nv_rep (nv\<lparr>node_list := (node_list nv)[i := np\<lparr>nn_value := Some b', nn_vlen := int (length val) + 1\<rparr>],
        total_space_used := total_space_used nv - of_int (nn_vlen np) + of_int (int (length val) + 1),
        nv_heap := h1\<rparr>) (es[i := (fst (es ! i), val)])" (is "\<lbrakk>?C; ?D\<rbrakk> \<Longrightarrow> ?E")
proof -
  have ok: "heap_ok (nv_heap nv)" using rep by (simp add: nv_rep_def)
  obtain a b cap where nd: "nn_name np = Some a" "nn_value np = Some b"
    "cells (nv_heap nv) a = Some (length (fst (es ! i)) + 1, fst (es ! i))"
    "cells (nv_heap nv) b = Some (cap, snd (es ! i))" "length (snd (es ! i)) < cap"
    "nn_nlen np = int (length (fst (es ! i))) + 1" "nn_vlen np = int cap"
    using np(2) by (auto simp: node_ok_def)
  obtain ns rest where ns: "node_list nv = ns @ rest" "length ns = length es" "nodes_rep (nv_heap nv) ns es"
    using rep by (auto simp: nv_rep_def)
  have "np = ns ! i" using np(1) ns i by (auto simp: node_at_def nth_append split: if_splits)
  moreover have "distinct (node_ptrs (ns ! i))"
    using ns i nodes_rep_at [of i ns es "nv_heap nv" "ns ! i" "es ! i"] by simp
  ultimately have ab: "a \<noteq> b" using nd by (auto simp: node_ptrs_def)
  have same: "(node_list nv)[i := np] = node_list nv"
    using np(1) by (auto simp: node_at_def split: if_splits)
  have keep: "Some x \<notin> set (node_ptrs np) \<Longrightarrow> x \<noteq> b" for x using nd by (auto simp: node_ptrs_def)
  show "?A \<Longrightarrow> ?B"
  proof -
    assume v: ?A
    let ?h = "(nv_heap nv)\<lparr>cells := (cells (nv_heap nv))(b \<mapsto> (cap, val))\<rparr>"
    have w: "str_write (nn_value np) val (nv_heap nv) = Some ?h"
      using nd v by (simp add: str_write_def heap_simps)
    have "heap_ok ?h" using heap_ok_upd [OF ok] nd(4) by simp
    moreover have "node_ok ?h np (fst (es ! i), val)" using nd v ab by (auto simp: node_ok_def)
    moreover have "distinct (node_ptrs np)" using nd ab by (simp add: node_ptrs_def)
    ultimately have "nv_rep (nv\<lparr>node_list := (node_list nv)[i := np],
        total_space_used := total_space_used nv - node_space np + node_space np, nv_heap := ?h\<rparr>)
        (es[i := (fst (es ! i), val)])"
      by (intro nv_rep_update [OF rep i _ _ _ np(1)]) (use keep in auto)
    then have "nv_rep (nv\<lparr>nv_heap := ?h\<rparr>) (es[i := (fst (es ! i), val)])" unfolding same by simp
    with w show ?B by blast
  qed
  show "\<lbrakk>?C; ?D\<rbrakk> \<Longrightarrow> ?E"
  proof -
    assume d: ?C ?D
    have b': "b' = brk (nv_heap nv)" "cells h = (cells (nv_heap nv))(b' \<mapsto> (length val + 1, val))"
      using d(1) by (auto simp: strdup_def halloc_def split: if_splits)
    have new: "cells (nv_heap nv) b' = None" using ok b'(1) by (simp add: heap_ok_def)
    then have ne: "b' \<noteq> b" "b' \<noteq> a" using nd by auto
    let ?h = "h\<lparr>cells := (cells h)(b := None)\<rparr>"
    let ?np = "np\<lparr>nn_value := Some b', nn_vlen := int (length val) + 1\<rparr>"
    have f: "str_free (nn_value np) h = Some ?h" using nd b' ne by (simp add: str_free_def hfree_def)
    have "heap_ok ?h" using heap_ok_upd [OF d(2), of b None] nd(4) b'(2) ne by simp
    moreover have "node_ok ?h ?np (fst (es ! i), val)" using nd b' ne ab by (auto simp: node_ok_def)
    moreover have "distinct (node_ptrs ?np)" using nd ne by (simp add: node_ptrs_def)
    ultimately have "nv_rep (nv\<lparr>node_list := (node_list nv)[i := ?np],
        total_space_used := total_space_used nv - node_space np + node_space ?np, nv_heap := ?h\<rparr>)
        (es[i := (fst (es ! i), val)])"
      by (intro nv_rep_update [OF rep i _ _ _ np(1)])
        (use keep b' new nd in \<open>auto simp: node_ptrs_def\<close>)
    moreover have "total_space_used nv - node_space np + node_space ?np =
        total_space_used nv - of_int (nn_vlen np) + of_int (int (length val) + 1)"
      by (simp add: node_space_def)
    ultimately show ?E using f by auto
  qed
qed

text \<open>The whole of \<^verbatim>\<open>nvram_set_entry\<close>.\<close>

lemma set_entry_table:
  assumes rep: "nv_rep nv es" and size: "1 \<le> node_list_size nv"
  shows "\<exists>ret nv'. nvram_set_entry nv name val = Some (ret, nv') \<and>
    (case table_set (nat (node_list_size nv)) es name val of
       None \<Rightarrow> ret = EZCFG_RET_FAIL \<and> nv_rep nv' es
     | Some es' \<Rightarrow> ret = EZCFG_RET_OK \<and> nv_rep nv' es' \<or>
         ret = EZCFG_RET_FAIL \<and> nv_rep nv' es \<and> may_fail nv)"
proof (cases "es = []")
  case True
  have used: "node_list_used nv = 0" and space: "length es < length (node_list nv)"
    using rep True size by (auto simp: nv_rep_def)
  show ?thesis
    using set_entry_insert [OF rep _ space, of 0 name val] used True
    by (cases rule: set_entry_insert [OF rep _ space, of 0 name val])
      (auto simp: nvram_set_entry_def table_set_def)
next
  case False
  have used: "node_list_used nv = int (length es)" and sz: "node_list_size nv = int (length (node_list nv))"
    using rep by (auto simp: nv_rep_def)
  obtain i equal where pos: "nv_pos es name = (i, equal)" by (cases "nv_pos es name")
  note r = nv_pos_range [OF pos False]
  note fnd = find_position_nv_pos [OF rep, of name, unfolded pos]
  have ii: "i = int (nat i)" using r(1) by simp
  show ?thesis
  proof (cases equal)
    case True
    obtain np where np: "node_at (node_list nv) i = Some np" "node_ok (nv_heap nv) np (es ! nat i)"
      using nv_rep_node [OF rep r(1,2)] by blast
    have n: "fst (es ! nat i) = name" using r(3) True by simp
    have np': "node_at (node_list nv) (int (nat i)) = Some np" using np(1) ii by simp
    note ow = set_entry_overwrite [OF rep r(2) np' np(2), of val, unfolded n]
    have t: "table_set (nat (node_list_size nv)) es name val = Some (es[nat i := (name, val)])"
      using False pos True by (simp add: table_set_def)
    show ?thesis
    proof (cases "int (length val) < nn_vlen np")
      case True
      then show ?thesis using ow(1) \<open>equal\<close> used False fnd np(1) t by (auto simp: nvram_set_entry_def)
    next
      case grow: False
      have "heap_ok (nv_heap nv)" using rep by (simp add: nv_rep_def)
      then show ?thesis
      proof (cases rule: strdup_cases [of "nv_heap nv" val])
        case (1 h')
        then have "nv_rep (nv\<lparr>nv_heap := h'\<rparr>) es" "may_fail nv"
          using nv_rep_heap [OF rep] by (auto simp: may_fail_def)
        then show ?thesis using 1 grow \<open>equal\<close> used False fnd np(1) t by (auto simp: nvram_set_entry_def)
      next
        case (2 h')
        from ow(2) [OF 2(1,3)] obtain h1 where
          "str_free (nn_value np) h' = Some h1"
          "nv_rep (nv\<lparr>node_list := (node_list nv)[nat i := np\<lparr>nn_value := Some (brk (nv_heap nv)), nn_vlen := int (length val) + 1\<rparr>],
             total_space_used := total_space_used nv - of_int (nn_vlen np) + of_int (int (length val) + 1),
             nv_heap := h1\<rparr>) (es[nat i := (name, val)])" by blast
        then show ?thesis using 2(1) grow \<open>equal\<close> used False fnd np(1) t
          by (auto simp: nvram_set_entry_def Let_def)
      qed
    qed
  next
    case neq: False
    show ?thesis
    proof (cases "length es = length (node_list nv)")
      case True
      then show ?thesis using neq False rep used sz fnd pos by (auto simp: nvram_set_entry_def table_set_def)
    next
      case sp: False
      then have space: "length es < length (node_list nv)" using rep by (auto simp: nv_rep_def)
      have t: "table_set (nat (node_list_size nv)) es name val =
          Some (take (nat i) es @ (name, val) # drop (nat i) es)"
        using False neq pos sp sz by (simp add: table_set_def)
      have k: "nat (int (length es) - i) = length es - nat i" using r by simp
      have "nat i \<le> length es" using r(2) by simp
      then show ?thesis
      proof (cases rule: set_entry_insert [OF rep _ space, of "nat i" name val])
        case (2 h)
        then show ?thesis using neq False sp used sz fnd t by (auto simp: nvram_set_entry_def)
      next
        case (3 pq h ns nv')
        then show ?thesis using neq False sp used sz fnd t k r(1) by (auto simp: nvram_set_entry_def)
      qed
    qed
  qed
qed

section \<open>Reading, and the reachable tables\<close>

lemma nv_rep_extend:
  assumes "nv_rep nv es" and "heap_ok h'" and "\<And>a. a < brk (nv_heap nv) \<Longrightarrow> cells h' a = cells (nv_heap nv) a"
  shows "nv_rep (nv\<lparr>nv_heap := h'\<rparr>) es"
proof -
  obtain ns rest where ns: "node_list nv = ns @ rest" "length ns = length es" "nodes_rep (nv_heap nv) ns es"
    "\<forall>np\<in>set rest. np = null_node" and ok: "heap_ok (nv_heap nv)" using assms(1) by (auto simp: nv_rep_def)
  have "nodes_rep h' ns es" by (rule nodes_rep_fresh [OF ns(3) ok assms(3)])
  with ns assms show ?thesis unfolding nv_rep_def by auto
qed

lemma get_entry_table:
  assumes rep: "nv_rep nv es"
  shows "\<exists>nv'. nv_rep nv' es \<and> nvram_get_entry_value nv name =
    Some (case table_get es name of
        None \<Rightarrow> (EZCFG_RET_FAIL, None, nv')
      | Some v \<Rightarrow> if oom (nv_heap nv) (brk (nv_heap nv)) then (EZCFG_RET_FAIL, None, nv')
                  else (EZCFG_RET_OK, Some v, nv'))"
proof -
  obtain i equal where pos: "nv_pos es name = (i, equal)" by (cases "nv_pos es name")
  note fnd = find_position_nv_pos [OF rep, of name, unfolded pos]
  show ?thesis
  proof (cases equal)
    case False
    then show ?thesis using fnd pos rep by (simp add: nvram_get_entry_value_def table_get_def)
  next
    case True
    have ne: "es \<noteq> []" using pos True by (cases "es = []") auto
    note r = nv_pos_range [OF pos ne]
    obtain np where np: "node_at (node_list nv) i = Some np" "node_ok (nv_heap nv) np (es ! nat i)"
      using nv_rep_node [OF rep r(1,2)] by blast
    define h' where "h' = snd (strdup (snd (es ! nat i)) (nv_heap nv))"
    have ok: "heap_ok (nv_heap nv)" using rep by (simp add: nv_rep_def)
    have "nv_rep (nv\<lparr>nv_heap := h'\<rparr>) es"
      by (rule nv_rep_extend [OF rep]) (use ok in \<open>auto simp: h'_def strdup_def halloc_def\<close>)
    moreover have "table_get es name = Some (snd (es ! nat i))" using pos True by (simp add: table_get_def)
    ultimately show ?thesis
      using fnd True np(1) node_ok_str(2) [OF np(2)]
      by (intro exI [of _ "nv\<lparr>nv_heap := h'\<rparr>"])
        (auto simp: nvram_get_entry_value_def h'_def strdup_def halloc_def Let_def)
  qed
qed

definition nvram_empty :: "nat \<Rightarrow> strbuf heap \<Rightarrow> nvram" where
  "nvram_empty n h = \<lparr>node_list = replicate n null_node, node_list_size = int n, node_list_used = 0,
     total_space_used = 0, nv_heap = h\<rparr>"

lemma nv_rep_empty: "heap_ok h \<Longrightarrow> nv_rep (nvram_empty n h) []"
  by (auto simp: nv_rep_def nvram_empty_def)

text \<open>The tables that storing and reading produce from an empty one.\<close>

inductive nv_reachable :: "nvram \<Rightarrow> bool" where
  new: "1 \<le> n \<Longrightarrow> heap_ok h \<Longrightarrow> nv_reachable (nvram_empty n h)"
| set_entry: "nv_reachable nv \<Longrightarrow> nvram_set_entry nv name val = Some (ret, nv') \<Longrightarrow> nv_reachable nv'"
| get_entry: "nv_reachable nv \<Longrightarrow> nvram_get_entry_value nv name = Some (ret, v, nv') \<Longrightarrow> nv_reachable nv'"

lemma set_entry_size:
  assumes "nvram_set_entry nv name val = Some (ret, nv')"
  shows "node_list_size nv' = node_list_size nv"
proof -
  have fill: "nvram_fill_node w i n v pq = Some w' \<Longrightarrow> node_list_size w' = node_list_size w" for w i n v pq w'
    by (auto simp: nvram_fill_node_def Let_def split: Option.bind_splits)
  show ?thesis using assms
    by (auto simp: nvram_set_entry_def Let_def split: Option.bind_splits if_splits option.splits prod.splits
        dest!: fill)
qed

lemma get_entry_size:
  "nvram_get_entry_value nv name = Some (ret, v, nv') \<Longrightarrow> node_list_size nv' = node_list_size nv"
  by (auto simp: nvram_get_entry_value_def Let_def split: Option.bind_splits if_splits prod.splits)

lemma nv_reachable_rep: "nv_reachable nv \<Longrightarrow> 1 \<le> node_list_size nv \<and> (\<exists>es. nv_rep nv es)"
proof (induction rule: nv_reachable.induct)
  case (new n h)
  then show ?case using nv_rep_empty by (auto simp: nvram_empty_def)
next
  case (set_entry nv name val ret nv')
  then obtain es where es: "nv_rep nv es" "1 \<le> node_list_size nv" by blast
  with set_entry_table [OF es, of name val] set_entry(2) show ?case
    using set_entry_size [OF set_entry(2)] by (auto split: option.splits)
next
  case (get_entry nv name ret v nv')
  then obtain es where "nv_rep nv es" by blast
  with get_entry_table [OF this, of name] get_entry show ?case
    using get_entry_size [OF get_entry(2)] by (auto split: option.splits if_splits)
qed

section \<open>Deleting the table\<close>

lemma node_clean_frees:
  assumes "node_ok h np e" and "distinct (node_ptrs np)"
  shows "\<exists>np' h'. nvram_node_clean np h = Some (np', h') \<and> nn_name np \<noteq> None \<and>
    (\<forall>a. cells h' a = (if Some a \<in> set (node_ptrs np) then None else cells h a))"
  using assms
  by (auto simp: node_ok_def node_ptrs_def nvram_node_clean_def str_free_def hfree_def)

lemma del_loop_frees:
  "nodes_rep h ns es \<Longrightarrow> \<forall>np\<in>set rest. np = null_node \<Longrightarrow>
     \<exists>h'. nvram_del_loop (ns @ rest) h = Some h' \<and>
       (\<forall>a. cells h' a = (if Some a \<in> owned ns then None else cells h a))"
proof (induction ns arbitrary: es h)
  case Nil
  then show ?case by (cases rest) (auto simp: null_node_def)
next
  case (Cons np ns)
  then obtain e es' where es: "es = e # es'" by (cases es) (auto simp: nodes_rep_def)
  note c = Cons.prems(1) [unfolded es nodes_rep_Cons]
  obtain np' h1 where h1: "nvram_node_clean np h = Some (np', h1)" "nn_name np \<noteq> None"
    "\<forall>a. cells h1 a = (if Some a \<in> set (node_ptrs np) then None else cells h a)"
    using node_clean_frees c by blast
  have "nodes_rep h1 ns es'"
  proof (rule nodes_rep_frame)
    show "nodes_rep h ns es'" using c by blast
    show "cells h1 a = cells h a" if "n \<in> set ns" "Some a \<in> set (node_ptrs n)" for n a
      using h1(3) c that by fastforce
  qed
  from Cons.IH [OF this Cons.prems(2)] obtain h' where
    "nvram_del_loop (ns @ rest) h1 = Some h'"
    "\<forall>a. cells h' a = (if Some a \<in> owned ns then None else cells h1 a)" by blast
  then show ?case using h1 by auto
qed

lemma posix_nvram_lock [simp]: "posix_mutex_call m \<Longrightarrow> lock_nvram_mutex m = EZCFG_RET_OK"
  and posix_nvram_unlock [simp]: "posix_mutex_call m \<Longrightarrow> unlock_nvram_mutex m = EZCFG_RET_OK"
  using posix_lock_ok posix_unlock_ok
  by (simp_all add: lock_nvram_mutex_def unlock_nvram_mutex_def lock_ezcfg_ref_mutex_def unlock_ezcfg_ref_mutex_def)

section \<open>Properties\<close>

text \<open>A table with four nodes and an allocator that never fails.\<close>

definition sample_table :: nvram where
  "sample_table = nvram_empty 4 (empty_heap (\<lambda>_. False))"

lemma sample_table_rep: "nv_rep sample_table []" "nv_reachable sample_table"
  unfolding sample_table_def by (rule nv_rep_empty, simp) (rule nv_reachable.new, simp_all)

lemmas nvram_eval = sample_table_def nvram_empty_def empty_heap_def null_node_def nvram_set_entry_def
  nvram_dup_entry_def strdup_def halloc_def nvram_fill_node_def node_at_def Let_def numeral_eq_Suc
  nvram_find_entry_position_def nvram_find_loop.simps str_at_def nvram_get_entry_value_def node_copy_def

text \<open>C11: a table made by any sequence of stores and reads from an empty one, whichever allocations
  fail, keeps its invariant (the used nodes own distinct live blocks that hold their strings and
  lengths, the other nodes are empty, the byte count is the sum of the block lengths), and on every
  such table storing and reading any name return without a fault.\<close>

theorem nvram_reachable_invariant:
  assumes "nv_reachable nv"
  shows "\<exists>es. nv_rep nv es \<and> nvram_set_entry nv name val \<noteq> None \<and> nvram_get_entry_value nv name \<noteq> None"
proof -
  obtain es where "nv_rep nv es" "1 \<le> node_list_size nv" using nv_reachable_rep [OF assms] by blast
  with set_entry_table [OF this, of name val] get_entry_table [of nv es name] show ?thesis by blast
qed

theorem nvram_reachable_invariant_witness:
  "nv_reachable sample_table \<and> nvram_set_entry sample_table ''ip'' ''1'' \<noteq> None"
  using nvram_reachable_invariant [OF sample_table_rep(2), of "''ip''" "''1''"] sample_table_rep(2) by blast

text \<open>C12: under the lock, storing a setting refines the operation on the list of pairs: the found
  entry gets the new value, else the pair is inserted where the search ended; it fails, leaving the
  pairs as they were, only when the table is full or an allocation fails.\<close>

theorem nvram_set_refines:
  assumes "nv_rep nv es" and "1 \<le> node_list_size nv" and "posix_mutex_call lk" and "posix_mutex_call ulk"
  shows "\<exists>ret nv'. local_nvram_set_entry lk ulk nv name val = Some (ret, nv') \<and>
    (case table_set (nat (node_list_size nv)) es name val of
       None \<Rightarrow> ret = EZCFG_RET_FAIL \<and> nv_rep nv' es
     | Some es' \<Rightarrow> ret = EZCFG_RET_OK \<and> nv_rep nv' es' \<or>
         ret = EZCFG_RET_FAIL \<and> nv_rep nv' es \<and> may_fail nv)"
  using set_entry_table [OF assms(1,2)] assms(3) by (simp add: local_nvram_set_entry_def)

theorem nvram_set_refines_witness:
  "\<exists>nv'. local_nvram_set_entry (\<lambda>_. (0, 0)) (\<lambda>_. (0, 0)) sample_table ''ip'' ''1'' = Some (EZCFG_RET_OK, nv') \<and>
     nv_rep nv' [(''ip'', ''1'')]"
  using nvram_set_refines [OF sample_table_rep(1), of "\<lambda>_. (0, 0)" "\<lambda>_. (0, 0)" "''ip''" "''1''"]
  by (auto simp: sample_table_def nvram_empty_def posix_mutex_call_def table_set_def may_fail_def empty_heap_def)

text \<open>Overwriting a setting that can be read: storing returns OK, reading the name then gives the
  new value and reading any other name gives what it gave before.\<close>

theorem nvram_overwrite_get:
  assumes rep: "nv_rep nv es" and size: "1 \<le> node_list_size nv" and mem: "\<forall>k. \<not> oom (nv_heap nv) k"
    and found: "nvram_get_entry_value nv name = Some (EZCFG_RET_OK, Some old, nv0)"
  shows "\<exists>nv'. nvram_set_entry nv name val = Some (EZCFG_RET_OK, nv') \<and>
    (\<exists>es'. nv_rep nv' es' \<and> table_get es' name = Some val \<and>
       (\<forall>n. n \<noteq> name \<longrightarrow> table_get es' n = table_get es n))"
proof -
  have tg: "table_get es name = Some old"
    using get_entry_table [OF rep, of name] found by (auto split: option.splits if_splits)
  then obtain i where pos: "nv_pos es name = (i, True)"
    by (auto simp: table_get_def split: prod.splits if_splits)
  then have ne: "es \<noteq> []" by (cases "es = []") auto
  note r = nv_pos_range [OF pos ne]
  let ?es = "es[nat i := (name, val)]"
  have names: "map fst ?es = map fst es" using r by (simp add: map_update) (metis list_update_id nth_map)
  note p = nv_pos_names [OF names]
  have "table_get ?es name = Some val" using pos r p by (simp add: table_get_def)
  moreover have "table_get ?es n = table_get es n" if "n \<noteq> name" for n
  proof (cases "nv_pos es n")
    case (Pair j eq)
    have "eq \<Longrightarrow> nat j \<noteq> nat i" using nv_pos_range [OF Pair ne] r that by metis
    then show ?thesis using Pair p by (auto simp: table_get_def)
  qed
  moreover have "table_set (nat (node_list_size nv)) es name val = Some ?es"
    using ne pos by (simp add: table_set_def)
  then obtain nv' where "nvram_set_entry nv name val = Some (EZCFG_RET_OK, nv')" "nv_rep nv' ?es"
    using set_entry_table [OF rep size, of name val] mem by (auto simp: may_fail_def)
  ultimately show ?thesis by blast
qed

theorem nvram_overwrite_get_witness:
  "\<exists>nv nv'. nvram_set_entry sample_table ''ip'' ''1'' = Some (EZCFG_RET_OK, nv) \<and>
     nvram_set_entry nv ''ip'' ''22'' = Some (EZCFG_RET_OK, nv')"
proof -
  obtain nv where nv: "nvram_set_entry sample_table ''ip'' ''1'' = Some (EZCFG_RET_OK, nv)" "nv_rep nv [(''ip'', ''1'')]"
    using set_entry_table [OF sample_table_rep(1), of "''ip''" "''1''"]
    by (auto simp: sample_table_def nvram_empty_def table_set_def may_fail_def empty_heap_def)
  have mem: "\<forall>k. \<not> oom (nv_heap nv) k" and size: "1 \<le> node_list_size nv"
    using nv(1) by (auto simp: nvram_eval)
  obtain nv0 where "nvram_get_entry_value nv ''ip'' = Some (EZCFG_RET_OK, Some ''1'', nv0)"
    using get_entry_table [OF nv(2), of "''ip''"] mem
    by (auto simp: table_get_def nv_pos_def nsearch.simps)
  from nvram_overwrite_get [OF nv(2) size mem this, of "''22''"] nv(1) show ?thesis by blast
qed

text \<open>Deleting a table returns OK and frees exactly the blocks of its nodes.\<close>

theorem nvram_del_releases:
  assumes "nv_rep nv es" and "posix_mutex_call lk" and "posix_mutex_call ulk"
  shows "\<exists>h'. local_nvram_del lk ulk nv = Some (EZCFG_RET_OK, h') \<and>
    (\<forall>a. cells h' a = (if Some a \<in> owned (take (length es) (node_list nv)) then None else cells (nv_heap nv) a))"
proof -
  obtain ns rest where ns: "node_list nv = ns @ rest" "length ns = length es" "nodes_rep (nv_heap nv) ns es"
    "\<forall>np\<in>set rest. np = null_node" "node_list_size nv = int (length (ns @ rest))"
    using assms(1) by (auto simp: nv_rep_def)
  with del_loop_frees [OF ns(3,4)] assms(2,3) show ?thesis by (auto simp: local_nvram_del_def)
qed

theorem nvram_del_releases_witness:
  "\<exists>h'. local_nvram_del (\<lambda>_. (0, 0)) (\<lambda>_. (0, 0)) sample_table = Some (EZCFG_RET_OK, h')"
  using nvram_del_releases [OF sample_table_rep(1), of "\<lambda>_. (0, 0)" "\<lambda>_. (0, 0)"]
  by (auto simp: posix_mutex_call_def)

text \<open>Two successful stores lose the second setting: the search never ends behind the last node,
  so \<^verbatim>\<open>b\<close> is inserted before \<^verbatim>\<open>a\<close> and the binary search does not find it.\<close>

theorem nvram_store_lost:
  "\<exists>nv1 nv2. nvram_set_entry sample_table ''a'' ''1'' = Some (EZCFG_RET_OK, nv1) \<and>
     nvram_set_entry nv1 ''b'' ''2'' = Some (EZCFG_RET_OK, nv2) \<and>
     nvram_get_entry_value nv2 ''b'' = Some (EZCFG_RET_FAIL, None, nv2)"
  by (simp add: nvram_eval)

text \<open>Two neighbouring nodes that own the same name.\<close>

lemma unset_loop_copies:
  "Suc i < length ns \<Longrightarrow> nvram_unset_loop (Suc k) (int i) ns = Some (ns[i := ns ! Suc i])"
proof (induction k arbitrary: ns)
  case 0
  then show ?case by (simp add: node_copy_def node_at_def nat_add_distrib)
next
  case (Suc k)
  have "nvram_unset_loop (Suc (Suc k)) (int i) ns = nvram_unset_loop (Suc k) (int i) (ns[i := ns ! Suc i])"
    using Suc.prems by (simp add: node_copy_def node_at_def nat_add_distrib)
  also have "\<dots> = Some (ns[i := ns ! Suc i])" using Suc.IH [of "ns[i := ns ! Suc i]"] Suc.prems by simp
  finally show ?case .
qed

lemma del_loop_twice:
  assumes "nn_name np = Some a"
  shows "nvram_del_loop (np # np # rest) h = None"
proof (cases "nvram_node_clean np h")
  case (Some r)
  then have "cells (snd r) a = None"
    using assms by (auto simp: nvram_node_clean_def str_free_def hfree_def split: option.splits Option.bind_splits if_splits)
  then have "nvram_node_clean np (snd r) = None" using assms by (simp add: nvram_node_clean_def str_free_def hfree_def)
  then show ?thesis using Some assms by (cases r) simp
qed (simp add: assms)

lemma del_loop_fails:
  "list_all (\<lambda>np. nn_name np \<noteq> None) xs \<Longrightarrow> (\<And>h. nvram_del_loop ys h = None) \<Longrightarrow> nvram_del_loop (xs @ ys) h = None"
  by (induction xs arbitrary: h) (auto split: Option.bind_splits)

lemma nv_rep_names:
  assumes "nv_rep nv es" "i < length es"
  shows "i < length (node_list nv)" "\<exists>a. nn_name (node_list nv ! i) = Some a"
proof -
  from assms obtain np where "node_at (node_list nv) (int i) = Some np" "node_ok (nv_heap nv) np (es ! i)"
    using nv_rep_node [OF assms(1), of "int i"] by auto
  then show "i < length (node_list nv)" "\<exists>a. nn_name (node_list nv ! i) = Some a"
    by (auto simp: node_at_def node_ok_def split: if_splits)
qed

lemma unset_entry_nodes:
  assumes "nv_rep nv es" "nvram_unset_entry nv name = Some (EZCFG_RET_OK, nv')" "name \<noteq> fst (last es)"
  obtains i where "Suc i < length es" "fst (es ! i) = name"
    "node_list nv' = (node_list nv)[i := node_list nv ! Suc i]" "node_list_size nv' = node_list_size nv"
proof -
  obtain j eq where pos: "nv_pos es name = (j, eq)" by force
  note fnd = find_position_nv_pos [OF assms(1), of name, unfolded pos]
  have eq: eq using assms(2) fnd by (auto simp: nvram_unset_entry_def split: if_splits)
  have ne: "es \<noteq> []" using pos eq by auto
  note r = nv_pos_range [OF pos ne]
  let ?i = "nat j"
  have "?i \<noteq> length es - 1" using r(3) [OF eq] assms(3) ne by (metis last_conv_nth)
  then have i: "Suc ?i < length es" using r(2) by simp
  have used: "node_list_used nv = int (length es)" using assms(1) by (simp add: nv_rep_def)
  then obtain k where k: "nat (node_list_used nv - 1 - j) = Suc k" using i r(1) by (cases "nat (node_list_used nv - 1 - j)") auto
  have len: "Suc ?i < length (node_list nv)" using nv_rep_names(1) [OF assms(1) i] .
  obtain np np' h where nv': "nvram_node_clean np (nv_heap nv) = Some (np', h)"
    "nvram_unset_loop (Suc k) j ((node_list nv)[?i := np']) = Some (node_list nv')"
    "node_list_size nv' = node_list_size nv"
    using assms(2) fnd eq k by (auto simp: nvram_unset_entry_def simp del: nvram_unset_loop.simps split: Option.bind_splits)
  have "node_list nv' = (node_list nv)[?i := node_list nv ! Suc ?i]"
    using unset_loop_copies [of ?i "(node_list nv)[?i := np']" k] nv'(2) len r(1) by simp
  with that i r(3) [OF eq] nv'(3) show thesis by blast
qed

text \<open>C40: in every table that meets the table invariant, unsetting a setting that is found, and whose name is not that of
  the last entry, leaves two neighbouring nodes that are equal and so own the same blocks; deleting the
  table afterwards, when its mutex can be taken, frees them twice, a fault.\<close>

theorem nvram_unset_double_free:
  assumes "nv_rep nv es" "nvram_unset_entry nv name = Some (EZCFG_RET_OK, nv')" "name \<noteq> fst (last es)"
    and "posix_mutex_call lk"
  shows "(\<exists>i a. Suc i < length es \<and> fst (es ! i) = name \<and> nn_name (node_list nv' ! i) = Some a \<and>
      node_list nv' ! Suc i = node_list nv' ! i) \<and>
    local_nvram_del lk ulk nv' = None"
proof -
  obtain i where i: "Suc i < length es" "fst (es ! i) = name"
    "node_list nv' = (node_list nv)[i := node_list nv ! Suc i]" "node_list_size nv' = node_list_size nv"
    by (rule unset_entry_nodes [OF assms(1-3)])
  let ?x = "node_list nv ! Suc i" and ?l = "node_list nv"
  have len: "Suc i < length ?l" using nv_rep_names(1) [OF assms(1) i(1)] .
  obtain a where a: "nn_name ?x = Some a" using nv_rep_names(2) [OF assms(1) i(1)] by blast
  have "?l = take i ?l @ ?l ! i # ?x # drop (Suc (Suc i)) ?l"
    using len id_take_nth_drop [of i ?l] Cons_nth_drop_Suc [of "Suc i" ?l] by simp
  then have list: "node_list nv' = take i ?l @ ?x # ?x # drop (Suc (Suc i)) ?l"
    using i(3) len by (metis upd_conv_take_nth_drop Cons_nth_drop_Suc Suc_lessD)
  have "list_all (\<lambda>np. nn_name np \<noteq> None) (take i ?l)"
    using nv_rep_names [OF assms(1)] i(1) by (fastforce simp: list_all_length)
  then have "nvram_del_loop (node_list nv') h = None" for h
    unfolding list by (rule del_loop_fails) (rule del_loop_twice [OF a])
  moreover have "take (nat (node_list_size nv')) (node_list nv') = node_list nv'"
    using i(3,4) assms(1) by (simp add: nv_rep_def)
  ultimately have "local_nvram_del lk ulk nv' = None" using assms(4) by (simp add: local_nvram_del_def)
  moreover have "nn_name (node_list nv' ! i) = Some a" "node_list nv' ! Suc i = node_list nv' ! i"
    using i(3) a len by simp_all
  ultimately show ?thesis using i(1,2) by blast
qed

theorem nvram_unset_double_free_witness:
  "\<exists>nv1 nv2 nv3 nv4. nvram_set_entry sample_table ''a'' ''1'' = Some (EZCFG_RET_OK, nv1) \<and>
     nvram_set_entry nv1 ''b'' ''2'' = Some (EZCFG_RET_OK, nv2) \<and>
     nvram_set_entry nv2 ''c'' ''3'' = Some (EZCFG_RET_OK, nv3) \<and>
     nvram_unset_entry nv3 ''c'' = Some (EZCFG_RET_OK, nv4) \<and>
     local_nvram_del (\<lambda>_. (0, 0)) (\<lambda>_. (0, 0)) nv4 = None"
proof -
  have set: "nv_rep nv' es'" "1 \<le> node_list_size nv'"
    if "nv_rep nv es" "1 \<le> node_list_size nv" "nvram_set_entry nv n v = Some (EZCFG_RET_OK, nv')"
      "table_set (nat (node_list_size nv)) es n v = Some es'" "node_list_size nv' = node_list_size nv" for nv es n v nv' es'
    using set_entry_table [OF that(1,2), of n v] that(2-) by auto
  obtain nv1 nv2 nv3 nv4 where run: "nvram_set_entry sample_table ''a'' ''1'' = Some (EZCFG_RET_OK, nv1)"
     "nvram_set_entry nv1 ''b'' ''2'' = Some (EZCFG_RET_OK, nv2)"
     "nvram_set_entry nv2 ''c'' ''3'' = Some (EZCFG_RET_OK, nv3)"
     "nvram_unset_entry nv3 ''c'' = Some (EZCFG_RET_OK, nv4)"
     "node_list_size sample_table = 4" "node_list_size nv1 = 4" "node_list_size nv2 = 4" "node_list_size nv3 = 4"
    by (simp add: nvram_eval nvram_unset_entry_def nvram_node_clean_def str_free_def hfree_def)
  note pos = table_set_def nv_pos_def nsearch.simps
  have "nv_rep nv1 [(''a'', ''1'')]"
    by (rule set(1) [OF sample_table_rep(1) _ run(1)]) (simp_all add: run pos)
  then have "nv_rep nv2 [(''b'', ''2''), (''a'', ''1'')]"
    by (rule set(1) [OF _ _ run(2)]) (simp_all add: run pos)
  then have "nv_rep nv3 [(''b'', ''2''), (''c'', ''3''), (''a'', ''1'')]"
    by (rule set(1) [OF _ _ run(3)]) (simp_all add: run pos)
  from nvram_unset_double_free [OF this run(4), of "\<lambda>_. (0, 0)" "\<lambda>_. (0, 0)"] run
  show ?thesis by (auto simp: posix_mutex_call_def)
qed

end
