(* ===== verification/Meta_Nvram_Spec.thy ===== *)
theory Meta_Nvram_Spec
  imports Meta_Nvram Settings_Store
begin

text \<open>
  The meta settings store as a finite map.  \<open>meta_rep m es\<close> says that the buffer of \<open>m\<close> holds
  the entries \<open>es\<close> (name, number of padding equal signs, value), sorted by name.  Under the
  condition that no name is a prefix of another, setting, unsetting and looking up entries
  act as on the map \<open>meta_map es\<close>, and no operation reads or writes outside the buffer,
  except for one byte written by the first entry (\<open>meta_first_entry_overflow\<close>).
\<close>

section \<open>Buffer lemmas\<close>

lemma cstr_at_app:
  "NUL \<notin> set e \<Longrightarrow> p = length xs \<Longrightarrow> cstr_at (xs @ e @ NUL # zs) p = Some e"
  by (simp add: cstr_at_def) (metis (mono_tags, lifting) takeWhile_append2 takeWhile_eq_Nil_iff append_Nil2 list.sel(1))

lemma memmove_eq:
  "n = int k \<Longrightarrow> src + k \<le> length d \<Longrightarrow> memmove d dst src n = buf_write d dst (take k (drop src d))"
  by (simp add: memmove_def)

section \<open>Names\<close>

definition meta_name :: "string \<Rightarrow> bool" where
  "meta_name n \<longleftrightarrow> n \<noteq> [] \<and> NUL \<notin> set n \<and> CHR ''='' \<notin> set n"

definition meta_value :: "string \<Rightarrow> bool" where
  "meta_value v \<longleftrightarrow> NUL \<notin> set v \<and> peek v \<noteq> CHR ''=''"

text \<open>Neither name is a proper prefix of the other.\<close>

definition apart :: "string \<Rightarrow> string \<Rightarrow> bool" where
  "apart a b \<longleftrightarrow> a = b \<or> \<not> prefix a b \<and> \<not> prefix b a"

lemma strcmp_refl [simp]: "strcmp a a = 0"
  by simp

lemma strcmp_take_apart:
  "\<not> prefix a b \<Longrightarrow> \<not> prefix b a \<Longrightarrow>
    strcmp (take (length a) a) (take (length a) (b @ x)) = strcmp a b"
proof (induction a b rule: strcmp.induct)
  case (4 c cs d ds)
  then show ?case by (cases "c = d") auto
qed auto

lemma strncmp_entry:
  assumes "apart name n"
  shows "strncmp name (n @ x) (length name) = strcmp name n"
proof (cases "name = n")
  case True
  then show ?thesis by (simp add: strncmp_def)
next
  case False
  then show ?thesis using assms strcmp_take_apart [of name n x] by (simp add: strncmp_def apart_def)
qed

section \<open>Entries\<close>

type_synonym meta_entry = "string \<times> nat \<times> string"

fun entry_text :: "meta_entry \<Rightarrow> string" where
  "entry_text (n, k, v) = n @ replicate (Suc k) (CHR ''='') @ v"

definition entries_text :: "meta_entry list \<Rightarrow> string" where
  "entries_text es = concat (map (\<lambda>e. entry_text e @ [NUL]) es)"

lemma entries_text_simps [simp]:
  "entries_text [] = []" "entries_text (e # es) = entry_text e @ NUL # entries_text es"
  "entries_text (es @ fs) = entries_text es @ entries_text fs"
  by (simp_all add: entries_text_def)

fun entry_ok :: "meta_entry \<Rightarrow> bool" where
  "entry_ok (n, k, v) \<longleftrightarrow> meta_name n \<and> meta_value v"

definition meta_map :: "meta_entry list \<Rightarrow> string \<Rightarrow> string option" where
  "meta_map es = map_of (map (\<lambda>(n, k, v). (n, v)) es)"

definition names_sorted :: "meta_entry list \<Rightarrow> bool" where
  "names_sorted es \<longleftrightarrow> sorted_wrt (\<lambda>e f. strcmp (fst e) (fst f) < 0) es"

definition all_apart :: "string \<Rightarrow> meta_entry list \<Rightarrow> bool" where
  "all_apart name es \<longleftrightarrow> (\<forall>e\<in>set es. apart name (fst e))"

definition meta_rep :: "meta_nvram \<Rightarrow> meta_entry list \<Rightarrow> bool" where
  "meta_rep m es \<longleftrightarrow>
     (\<exists>rest. mn_data m = entries_text es @ NUL # rest \<and>
       (mh_data_used m = int (length (entries_text es)) + 1 \<or>
        mh_data_used m = 0 \<and> es = [] \<and> set rest \<subseteq> {NUL})) \<and>
     mh_data_size m = int (length (mn_data m)) \<and>
     list_all entry_ok es \<and> names_sorted es \<and>
     (\<forall>e\<in>set es. all_apart (fst e) es)"

lemma entry_text_NUL: "entry_ok e \<Longrightarrow> NUL \<notin> set (entry_text e) \<and> entry_text e \<noteq> []"
  by (cases e) (auto simp: meta_name_def meta_value_def NUL_def)

section \<open>Searching\<close>

text \<open>The entries before the position of a name.\<close>

lemma find_skips:
  assumes "list_all entry_ok us" "\<forall>e\<in>set us. apart name (fst e) \<and> strcmp name (fst e) > 0"
    and "p = length xs"
  shows "find_nvram_entry_position (xs @ entries_text us @ ts) name p =
    find_nvram_entry_position (xs @ entries_text us @ ts) name (p + length (entries_text us))"
  using assms
proof (induction us arbitrary: xs p)
  case Nil
  then show ?case by simp
next
  case (Cons u us)
  obtain n k v where u: "u = (n, k, v)" by (cases u)
  let ?e = "entry_text u"
  have e: "NUL \<notin> set ?e" "?e \<noteq> []" using Cons.prems(1) entry_text_NUL [of u] by auto
  have c: "cstr_at (xs @ entries_text (u # us) @ ts) p = Some ?e"
    using cstr_at_app [OF e(1) Cons.prems(3), of "entries_text us @ ts"] by simp
  have s: "strncmp name ?e (length name) > 0"
    using Cons.prems(2) strncmp_entry [of name n] u by simp
  have "find_nvram_entry_position (xs @ entries_text (u # us) @ ts) name p =
      find_nvram_entry_position ((xs @ ?e @ [NUL]) @ entries_text us @ ts) name (p + (length ?e + 1))"
    using c e(2) s by (subst find_nvram_entry_position.simps) simp
  also have "\<dots> = find_nvram_entry_position ((xs @ ?e @ [NUL]) @ entries_text us @ ts) name
      (p + (length ?e + 1) + length (entries_text us))"
    by (rule Cons.IH) (use Cons.prems in auto)
  finally show ?case by (simp add: add.assoc)
qed

lemma strcmp_self_pos: "strcmp a b > 0 \<longleftrightarrow> strcmp b a < 0"
  using strcmp_antisym [of a b] by simp

text \<open>Where the search stops: at an equal name, or in front of the first greater one.\<close>

lemma find_position:
  assumes "list_all entry_ok es" "names_sorted es" "all_apart name es"
  obtains (found) us k v vs where "es = us @ (name, k, v) # vs"
      "\<forall>ts. find_nvram_entry_position (entries_text es @ NUL # ts) name 0 = Some (length (entries_text us), True)"
  | (absent) us vs where "es = us @ vs" "\<forall>e\<in>set es. fst e \<noteq> name"
      "\<forall>e\<in>set us. strcmp (fst e) name < 0" "\<forall>e\<in>set vs. strcmp name (fst e) < 0"
      "\<forall>ts. find_nvram_entry_position (entries_text es @ NUL # ts) name 0 = Some (length (entries_text us), False)"
proof -
  define us where "us = takeWhile (\<lambda>e. strcmp name (fst e) > 0) es"
  define vs where "vs = dropWhile (\<lambda>e. strcmp name (fst e) > 0) es"
  have es: "es = us @ vs" by (simp add: us_def vs_def)
  have us: "\<forall>e\<in>set us. strcmp name (fst e) > 0" unfolding us_def by (metis set_takeWhileD)
  have ne: "\<forall>e\<in>set us. fst e \<noteq> name" using us by (auto simp: strcmp_refl)
  have skip: "find_nvram_entry_position (entries_text es @ NUL # ts) name 0 =
      find_nvram_entry_position (entries_text es @ NUL # ts) name (length (entries_text us))" for ts
    using find_skips [of us name 0 "[]" "entries_text vs @ NUL # ts"] assms us
    by (auto simp: es all_apart_def)
  show ?thesis
  proof (cases vs)
    case Nil
    have stop: "find_nvram_entry_position (entries_text es @ NUL # ts) name (length (entries_text us)) =
        Some (length (entries_text us), False)" for ts
      using cstr_at_app [of "[]" _ "entries_text us" ts] Nil es
      by (subst find_nvram_entry_position.simps) simp
    show ?thesis
    proof (rule absent [of us "[]"])
      show "es = us @ []" "\<forall>e\<in>set es. fst e \<noteq> name" using es Nil ne by simp_all
      show "\<forall>e\<in>set us. strcmp (fst e) name < 0" using us strcmp_self_pos by blast
      show "\<forall>ts. find_nvram_entry_position (entries_text es @ NUL # ts) name 0 =
          Some (length (entries_text us), False)" using trans [OF skip stop] by blast
    qed simp
  next
    case (Cons w ws)
    obtain n k v where w: "w = (n, k, v)" by (cases w)
    have "\<not> strcmp name (fst (hd vs)) > 0"
      unfolding vs_def by (rule hd_dropWhile) (use Cons in \<open>simp add: vs_def\<close>)
    then have wok: "entry_ok w" "apart name n" "strcmp name n \<le> 0"
      using assms(1,3) Cons es w by (auto simp: all_apart_def)
    have c: "cstr_at (entries_text es @ NUL # ts) (length (entries_text us)) = Some (entry_text w)" for ts
      using cstr_at_app [of "entry_text w" _ "entries_text us" "entries_text ws @ NUL # ts"]
        entry_text_NUL [OF wok(1)] es Cons by simp
    have nc: "strncmp name (entry_text w) (length name) = strcmp name n"
      using strncmp_entry [OF wok(2)] w by simp
    show ?thesis
    proof (cases "name = n")
      case True
      have "char_at (entry_text w) (length name) = CHR ''=''"
        using True w by (simp add: char_at_def nth_append)
      then have stop: "find_nvram_entry_position (entries_text es @ NUL # ts) name (length (entries_text us)) =
          Some (length (entries_text us), True)" for ts
        using c nc True entry_text_NUL [OF wok(1)] by (subst find_nvram_entry_position.simps) simp
      show ?thesis
      proof (rule found [of us k v ws])
        show "es = us @ (name, k, v) # ws" using es Cons w True by simp
        show "\<forall>ts. find_nvram_entry_position (entries_text es @ NUL # ts) name 0 =
            Some (length (entries_text us), True)" using trans [OF skip stop] by blast
      qed
    next
      case False
      then have lt: "strcmp name n < 0" using wok(3) by (metis le_less strcmp_eq_0_iff)
      have stop: "find_nvram_entry_position (entries_text es @ NUL # ts) name (length (entries_text us)) =
          Some (length (entries_text us), False)" for ts
        using c nc lt entry_text_NUL [OF wok(1)] by (subst find_nvram_entry_position.simps) simp
      have gt: "\<forall>e\<in>set vs. strcmp name (fst e) < 0"
        using assms(2) es Cons w lt strcmp_trans [of name n]
        by (auto simp: names_sorted_def sorted_wrt_append)
      then have ne': "\<forall>e\<in>set vs. fst e \<noteq> name" by auto
      show ?thesis
      proof (rule absent [of us vs])
        show "es = us @ vs" by (rule es)
        show "\<forall>e\<in>set es. fst e \<noteq> name" unfolding es using ne ne' by auto
        show "\<forall>e\<in>set us. strcmp (fst e) name < 0" using us strcmp_self_pos by blast
        show "\<forall>ts. find_nvram_entry_position (entries_text es @ NUL # ts) name 0 =
            Some (length (entries_text us), False)" using trans [OF skip stop] by blast
      qed (rule gt)
    qed
  qed
qed

section \<open>Looking up\<close>

lemma skip_equals_replicate:
  "peek v \<noteq> CHR ''='' \<Longrightarrow> skip_equals (replicate k (CHR ''='') @ v) = v"
  by (induction k) (cases v, auto)

lemma value_at:
  assumes "entry_ok (n, k, v)"
  shows "entry_value_at (xs @ entry_text (n, k, v) @ NUL # zs) (length xs) (length n) = Some v"
proof -
  have "NUL \<notin> set (replicate (Suc k) (CHR ''='') @ v)"
    using assms by (auto simp: meta_value_def NUL_def)
  then have "cstr_at ((xs @ n) @ (replicate (Suc k) (CHR ''='') @ v) @ NUL # zs) (length (xs @ n)) =
      Some (replicate (Suc k) (CHR ''='') @ v)"
    by (rule cstr_at_app) simp
  then show ?thesis using assms skip_equals_replicate [of v "Suc k"]
    by (simp add: entry_value_at_def meta_value_def)
qed

lemma sorted_name_once:
  assumes "names_sorted (us @ (n, k, v) # vs)"
  shows "n \<notin> fst ` set us" "n \<notin> fst ` set vs"
proof -
  have "\<forall>e\<in>set us. strcmp (fst e) n < 0" "\<forall>e\<in>set vs. strcmp n (fst e) < 0"
    using assms by (auto simp: names_sorted_def sorted_wrt_append)
  then have "\<forall>e\<in>set us. fst e \<noteq> n" "\<forall>e\<in>set vs. fst e \<noteq> n" by (metis less_irrefl strcmp_refl)+
  then show "n \<notin> fst ` set us" "n \<notin> fst ` set vs" by blast+
qed

lemma meta_map_found:
  assumes "names_sorted (us @ (n, k, v) # vs)"
  shows "meta_map (us @ (n, k, v) # vs) n = Some v"
proof -
  have "n \<notin> fst ` set us" using sorted_name_once [OF assms] by simp
  then have "map_of (map (\<lambda>(n, k, v). (n, v)) us) n = None" by (force simp: map_of_eq_None_iff)
  then show ?thesis by (simp add: meta_map_def map_add_def)
qed

lemma meta_map_absent: "\<forall>e\<in>set es. fst e \<noteq> n \<Longrightarrow> meta_map es n = None"
  by (force simp: meta_map_def map_of_eq_None_iff)

lemma meta_repD:
  assumes "meta_rep m es"
  obtains rest where "mn_data m = entries_text es @ NUL # rest" "list_all entry_ok es" "names_sorted es"
    "mh_data_size m = int (length (entries_text es) + Suc (length rest))"
    "mh_data_used m = int (length (entries_text es)) + 1 \<or>
      mh_data_used m = 0 \<and> es = [] \<and> set rest \<subseteq> {NUL}"
    "\<forall>e\<in>set es. all_apart (fst e) es"
  using assms by (auto simp: meta_rep_def)

lemma get_value_map:
  assumes "meta_rep m es" "all_apart name es"
  shows "meta_nvram_get_entry_value True m name =
    Some (case meta_map es name of None \<Rightarrow> (EZCFG_RET_FAIL, None) | Some v \<Rightarrow> (EZCFG_RET_OK, Some v))"
proof -
  obtain rest where r: "mn_data m = entries_text es @ NUL # rest" "list_all entry_ok es" "names_sorted es"
    using meta_repD [OF assms(1)] .
  from r(2,3) assms(2) show ?thesis
  proof (cases rule: find_position)
    case (found us k v vs)
    have "entry_value_at (entries_text us @ entry_text (name, k, v) @ NUL # entries_text vs @ NUL # rest)
        (length (entries_text us)) (length name) = Some v"
      by (rule value_at) (use r(2) found(1) in auto)
    then show ?thesis using r(1,3) found meta_map_found [of us name k v vs]
      by (simp add: meta_nvram_get_entry_value_def)
  next
    case (absent us vs)
    then show ?thesis using r(1) meta_map_absent [of es name]
      by (simp add: meta_nvram_get_entry_value_def)
  qed
qed

section \<open>Unsetting\<close>

lemma buf_write_grow:
  assumes "length ys = length s" "p = length xs" "d = xs @ ys @ zs"
  shows "buf_write d p s = Some (xs @ s @ zs)"
  using assms by (simp add: buf_write_def)

lemma rep_sublist:
  assumes "names_sorted (us @ e # vs)" "list_all entry_ok (us @ e # vs)"
    "\<forall>x\<in>set (us @ e # vs). all_apart (fst x) (us @ e # vs)"
  shows "names_sorted (us @ vs)" "list_all entry_ok (us @ vs)"
    "\<forall>x\<in>set (us @ vs). all_apart (fst x) (us @ vs)"
  using assms by (auto simp: names_sorted_def sorted_wrt_append all_apart_def)

lemma meta_map_remove:
  assumes "names_sorted (us @ (n, k, v) # vs)"
  shows "meta_map (us @ vs) = (meta_map (us @ (n, k, v) # vs))(n := None)"
proof -
  have "n \<notin> fst ` set us" "n \<notin> fst ` set vs" using sorted_name_once [OF assms] by simp_all
  then have "map_of (map (\<lambda>(n, k, v). (n, v)) us) n = None" "map_of (map (\<lambda>(n, k, v). (n, v)) vs) n = None"
    by (force simp: map_of_eq_None_iff)+
  then show ?thesis by (auto simp: meta_map_def map_add_def fun_eq_iff split: option.splits)
qed

lemma unset_map:
  assumes "meta_rep m es" "all_apart name es"
  shows "\<exists>m' es'. meta_nvram_unset_entry m name = Some (of_bool (name \<notin> dom (meta_map es)), m') \<and>
    meta_rep m' es' \<and> meta_map es' = (meta_map es)(name := None) \<and> set es' \<subseteq> set es"
proof -
  obtain rest where r: "mn_data m = entries_text es @ NUL # rest" "list_all entry_ok es" "names_sorted es"
    "mh_data_size m = int (length (entries_text es) + Suc (length rest))"
    "mh_data_used m = int (length (entries_text es)) + 1 \<or>
      mh_data_used m = 0 \<and> es = [] \<and> set rest \<subseteq> {NUL}"
    "\<forall>e\<in>set es. all_apart (fst e) es"
    using meta_repD [OF assms(1)] .
  from r(2,3) assms(2) show ?thesis
  proof (cases rule: find_position)
    case (found us k v vs)
    let ?e = "entry_text (name, k, v)" and ?p = "length (entries_text us)"
    let ?tl = "entries_text vs @ [NUL]"
    have u: "mh_data_used m - int ?p - (1 + int (length ?e)) = 1 + int (length (entries_text vs))"
      using r(5) found(1) by auto
    have c: "cstr_at (mn_data m) ?p = Some ?e"
      using cstr_at_app [of ?e ?p "entries_text us" "entries_text vs @ NUL # rest"]
        entry_text_NUL [of "(name, k, v)"] r(1,2) found(1) by simp
    define old where "old = ?e @ NUL # ?tl"
    have "mn_data m = entries_text us @ old @ rest" using r(1) found(1) by (simp add: old_def)
    then have d: "mn_data m = entries_text us @ take (length ?tl) old @ drop (length ?tl) old @ rest"
      by (metis append.assoc append_take_drop_id)
    have tk: "take (length ?tl) (drop (?p + (length ?e + 1)) (mn_data m)) = ?tl"
      using r(1) found(1) by simp
    have "buf_write (mn_data m) ?p ?tl = Some (entries_text us @ ?tl @ drop (length ?tl) old @ rest)"
      by (rule buf_write_grow [OF _ refl d]) (simp add: old_def)
    then have mv: "memmove (mn_data m) ?p (?p + (length ?e + 1)) (int (length ?tl)) =
        Some (entries_text us @ ?tl @ drop (length ?tl) old @ rest)"
      using memmove_eq [OF refl, of "?p + (length ?e + 1)" "length ?tl" "mn_data m" ?p] tk r(1) found(1)
      by simp
    let ?m = "m\<lparr>mn_data := entries_text us @ ?tl @ drop (length ?tl) old @ rest,
      mh_data_used := mh_data_used m - int (length ?e + 1)\<rparr>"
    have st: "meta_nvram_unset_entry m name = Some (0, ?m)"
      using found(2) r(1) c mv
      by (simp add: meta_nvram_unset_entry_def EZCFG_RET_OK_def u del: entry_text.simps)
    have "meta_rep ?m (us @ vs)"
      unfolding meta_rep_def
      using rep_sublist [of us "(name, k, v)" vs] r(2-6) found(1)
      by (auto simp: old_def intro!: exI [of _ "drop (length ?tl) old @ rest"])
    moreover have "meta_map (us @ vs) = (meta_map es)(name := None)"
      using meta_map_remove r(3) found(1) by metis
    moreover have "name \<in> dom (meta_map es)" using meta_map_found r(3) found(1) by blast
    ultimately show ?thesis using st found(1)
      by (intro exI [of _ ?m] exI [of _ "us @ vs"]) auto
  next
    case (absent us vs)
    have n: "meta_map es name = None" by (rule meta_map_absent) (use absent in simp)
    then have "(meta_map es)(name := None) = meta_map es" by auto
    moreover have "meta_nvram_unset_entry m name = Some (1, m)"
      using absent r(1) by (simp add: meta_nvram_unset_entry_def EZCFG_RET_FAIL_def)
    ultimately show ?thesis using assms(1) n by (intro exI [of _ m] exI [of _ es]) auto
  qed
qed

section \<open>Setting\<close>

lemma pad_loop_app:
  "length ys = k \<Longrightarrow> pad_loop k (xs @ ys @ zs) (length xs) =
     Some (xs @ replicate k (CHR ''='') @ zs, length xs + k)"
proof (induction k arbitrary: xs ys)
  case 0
  then show ?case by simp
next
  case (Suc k)
  then obtain y ys' where y: "ys = y # ys'" "length ys' = k" by (cases ys) auto
  have "buf_write (xs @ ys @ zs) (length xs) ''='' = Some (xs @ ''='' @ ys' @ zs)"
    using y(1) by (simp add: buf_write_def)
  with Suc.IH [OF y(2), of "xs @ ''=''"] show ?case by simp
qed

text \<open>Moving the tail behind a longer text and then writing that text.\<close>

lemma move_then_write:
  assumes "length B \<le> length S" "length S - length B \<le> length R"
  shows "\<exists>d1. memmove (A @ B @ T @ R) (length A + length S) (length A + length B) (int (length T)) = Some d1 \<and>
    buf_write d1 (length A) S = Some (A @ S @ T @ drop (length S - length B) R)"
proof -
  let ?d = "A @ B @ T @ R" and ?q = "length A + length S"
  have "memmove ?d ?q (length A + length B) (int (length T)) = buf_write ?d ?q T"
    by (subst memmove_eq [OF refl]) simp_all
  also have "\<dots> = Some (take ?q ?d @ T @ drop (?q + length T) ?d)"
    using assms by (simp add: buf_write_def)
  finally have m: "memmove ?d ?q (length A + length B) (int (length T)) =
      Some (take ?q ?d @ T @ drop (?q + length T) ?d)" .
  have "drop (?q + length T) ?d = drop (length S - length B) R" using assms by simp
  moreover have "take ?q ?d = A @ take (length S) (B @ T @ R)" by simp
  moreover have "length (take (length S) (B @ T @ R)) = length S" using assms by simp
  ultimately have "buf_write (take ?q ?d @ T @ drop (?q + length T) ?d) (length A) S =
      Some (A @ S @ T @ drop (length S - length B) R)"
    by (intro buf_write_grow [of "take (length S) (B @ T @ R)"]) simp_all
  with m show ?thesis by blast
qed

text \<open>What a list of entries becomes; the operations keep it a representation.\<close>

lemma rep_intro:
  assumes "mn_data m = entries_text es @ NUL # rest"
    and "mh_data_used m = int (length (entries_text es)) + 1"
    and "mh_data_size m = int (length (mn_data m))"
    and "list_all entry_ok es" "names_sorted es" "\<forall>e\<in>set es. all_apart (fst e) es"
  shows "meta_rep m es"
  using assms by (auto simp: meta_rep_def)

lemma apart_sym: "apart a b \<longleftrightarrow> apart b a"
  by (auto simp: apart_def)

lemma replace_entry:
  assumes "names_sorted (us @ (n, k, v) # vs)" "list_all entry_ok (us @ (n, k, v) # vs)"
    and "\<forall>x\<in>set (us @ (n, k, v) # vs). all_apart (fst x) (us @ (n, k, v) # vs)" "meta_value v'"
  shows "names_sorted (us @ (n, k', v') # vs)" "list_all entry_ok (us @ (n, k', v') # vs)"
    "\<forall>x\<in>set (us @ (n, k', v') # vs). all_apart (fst x) (us @ (n, k', v') # vs)"
    "meta_map (us @ (n, k', v') # vs) = (meta_map (us @ (n, k, v) # vs))(n \<mapsto> v')"
proof -
  show ns: "names_sorted (us @ (n, k', v') # vs)"
    using assms(1) by (auto simp: names_sorted_def sorted_wrt_append)
  show "list_all entry_ok (us @ (n, k', v') # vs)"
    "\<forall>x\<in>set (us @ (n, k', v') # vs). all_apart (fst x) (us @ (n, k', v') # vs)"
    using assms by (auto simp: all_apart_def)
  have "n \<notin> fst ` set us" "n \<notin> fst ` set vs" using sorted_name_once [OF assms(1)] by simp_all
  then have "map_of (map (\<lambda>(n, k, v). (n, v)) us) n = None"
    by (force simp: map_of_eq_None_iff)
  then show "meta_map (us @ (n, k', v') # vs) = (meta_map (us @ (n, k, v) # vs))(n \<mapsto> v')"
    by (auto simp: meta_map_def map_add_def fun_eq_iff split: option.splits)
qed

lemma insert_entry:
  assumes "names_sorted (us @ vs)" "list_all entry_ok (us @ vs)"
    and "\<forall>x\<in>set (us @ vs). all_apart (fst x) (us @ vs)" "all_apart n (us @ vs)"
    and "\<forall>e\<in>set us. strcmp (fst e) n < 0" "\<forall>e\<in>set vs. strcmp n (fst e) < 0"
    and "meta_name n" "meta_value v"
  shows "names_sorted (us @ (n, k, v) # vs)" "list_all entry_ok (us @ (n, k, v) # vs)"
    "\<forall>x\<in>set (us @ (n, k, v) # vs). all_apart (fst x) (us @ (n, k, v) # vs)"
    "meta_map (us @ (n, k, v) # vs) = (meta_map (us @ vs))(n \<mapsto> v)"
proof -
  show ns: "names_sorted (us @ (n, k, v) # vs)"
    using assms by (auto simp: names_sorted_def sorted_wrt_append)
  show "list_all entry_ok (us @ (n, k, v) # vs)" using assms by simp
  have "apart n n" by (simp add: apart_def)
  then show "\<forall>x\<in>set (us @ (n, k, v) # vs). all_apart (fst x) (us @ (n, k, v) # vs)"
    using assms(3,4) by (auto simp: all_apart_def apart_sym)
  have "n \<notin> fst ` set us" using sorted_name_once [OF ns] by simp
  then have "map_of (map (\<lambda>(n, k, v). (n, v)) us) n = None"
    by (force simp: map_of_eq_None_iff)
  then show "meta_map (us @ (n, k, v) # vs) = (meta_map (us @ vs))(n \<mapsto> v)"
    by (auto simp: meta_map_def map_add_def fun_eq_iff split: option.splits)
qed

text \<open>The room a new value needs: the free bytes, plus the old entry when there is one; the first
  entry also needs the terminating NUL and, for the stray write, one byte more.\<close>

definition meta_free :: "meta_nvram \<Rightarrow> int" where
  "meta_free m = mh_data_size m - mh_data_used m"

lemma set_first:
  assumes "meta_rep m es" "mh_data_used m = 0" "meta_name name" "meta_value val"
    and "int (length name + length val) + 4 \<le> mh_data_size m"
  shows "\<exists>m'. meta_nvram_set_entry m name val = Some (EZCFG_RET_OK, m') \<and> es = [] \<and>
    meta_rep m' [(name, 0, val)] \<and> mh_data_used m' = int (length name + length val) + 3 \<and>
    mh_data_size m' = mh_data_size m"
proof -
  let ?n = "length name + length val + 2" and ?t = "name @ ''='' @ val @ [NUL]"
  obtain rest where r0: "mn_data m = entries_text es @ NUL # rest"
    "mh_data_size m = int (length (entries_text es) + Suc (length rest))"
    "mh_data_used m = int (length (entries_text es)) + 1 \<or>
      mh_data_used m = 0 \<and> es = [] \<and> set rest \<subseteq> {NUL}"
    using meta_repD [OF assms(1)] .
  have "es = []" "set rest \<subseteq> {NUL}" using r0(3) assms(2) by auto
  note r = r0(1,2) this
  define N where "N = Suc (length rest)"
  have "rest = replicate (length rest) NUL"
    using r(4) by (intro replicate_length_same [symmetric]) auto
  then have d: "mn_data m = replicate N NUL" using r(1,3) by (simp add: N_def)
  have N: "?n + 2 \<le> N" using assms(5) r(2,3) by (simp add: N_def)
  have w1: "sprintf_entry (mn_data m) 0 name val = Some (?t @ replicate (N - ?n) NUL)"
    using N d by (simp add: sprintf_entry_def buf_write_def)
  have w2: "buf_write (?t @ replicate (N - ?n) NUL) (?n + 1) [NUL] = Some (?t @ replicate (N - ?n) NUL)"
  proof -
    have "replicate (N - ?n) NUL = [NUL] @ [NUL] @ replicate (N - ?n - 2) NUL"
      using N by (simp flip: replicate_Suc add: Suc_diff_Suc)
    then have "?t @ replicate (N - ?n) NUL = (?t @ [NUL]) @ [NUL] @ replicate (N - ?n - 2) NUL" by simp
    then show ?thesis using buf_write_app [of "[NUL]" "[NUL]" "?n + 1" "?t @ [NUL]"] by simp
  qed
  let ?m = "m\<lparr>mn_data := ?t @ replicate (N - ?n) NUL, mh_data_used := int ?n + 1\<rparr>"
  have st: "meta_nvram_set_entry m name val = Some (EZCFG_RET_OK, ?m)"
    using assms(2,5) w1 w2 by (simp add: meta_nvram_set_entry_def Let_def)
  have one: "replicate (N - ?n) NUL = NUL # replicate (N - ?n - 1) NUL"
    using N by (simp flip: replicate_Suc add: Suc_diff_Suc)
  have "meta_rep ?m [(name, 0, val)]"
  proof (rule rep_intro)
    show "mn_data ?m = entries_text [(name, 0, val)] @ NUL # replicate (N - ?n - 1) NUL"
      using one by simp
    show "mh_data_size ?m = int (length (mn_data ?m))" using r(2,3) N by (simp add: N_def)
  qed (use assms(3,4) in \<open>auto simp: names_sorted_def all_apart_def apart_def\<close>)
  with st r(3) show ?thesis by (intro exI [of _ ?m]) simp
qed

text \<open>The other branches, on a buffer \<open>A @ B @ T @ R\<close>: \<open>B\<close> is what the new text \<open>S\<close> takes the place
  of, \<open>T\<close> the entries behind it with the final NUL.\<close>

lemma set_replace_shorter:
  assumes "mn_data m = entries_text us @ entry_text (name, k, v) @ NUL # T"
    and "find_nvram_entry_position (mn_data m) name 0 = Some (length (entries_text us), True)"
    and "entry_ok (name, k, v)" "mh_data_used m \<noteq> 0" "mh_data_used m \<le> mh_data_size m"
    and "length val + 1 \<le> Suc k + length v"
  shows "meta_nvram_set_entry m name val = Some (EZCFG_RET_OK,
    m\<lparr>mn_data := entries_text us @ entry_text (name, Suc k + length v - (length val + 1), val) @ NUL # T\<rparr>)"
proof -
  let ?A = "entries_text us @ name @ ''=''" and ?e = "entry_text (name, k, v)"
  let ?B = "replicate k (CHR ''='') @ v @ [NUL]"
  let ?pad = "Suc k + length v - (length val + 1)"
  have c: "cstr_at (mn_data m) (length (entries_text us)) = Some ?e"
    using cstr_at_app [of ?e _ "entries_text us" T] entry_text_NUL [OF assms(3)] assms(1) by simp
  have d: "mn_data m = ?A @ take ?pad ?B @ drop ?pad ?B @ T"
  proof -
    have "mn_data m = ?A @ ?B @ T" using assms(1) by simp
    then show ?thesis by (metis append.assoc append_take_drop_id)
  qed
  have p: "pad_loop ?pad (mn_data m) (length ?A) =
      Some (?A @ replicate ?pad (CHR ''='') @ drop ?pad ?B @ T, length ?A + ?pad)"
    unfolding d by (rule pad_loop_app) simp
  have w: "sprintf_value (?A @ replicate ?pad (CHR ''='') @ drop ?pad ?B @ T) (length ?A + ?pad) val =
      Some ((?A @ replicate ?pad (CHR ''='')) @ (val @ [NUL]) @ T)"
    unfolding sprintf_value_def by (rule buf_write_grow [of "drop ?pad ?B"]) (use assms(6) in simp_all)
  have q: "length (entries_text us) + length name + 1 = length ?A" by simp
  have el: "length ?e + 1 - (length name + length val + 2) = ?pad" by simp
  have le: "length name + length val + 2 \<le> length ?e + 1" using assms(6) by simp
  have "\<not> int (length name + length val + 2) > mh_data_size m - mh_data_used m + int (length ?e + 1)"
    using le assms(5) by simp
  then have "meta_nvram_set_entry m name val =
      Some (EZCFG_RET_OK, m\<lparr>mn_data := (?A @ replicate ?pad (CHR ''='')) @ (val @ [NUL]) @ T\<rparr>)"
    unfolding meta_nvram_set_entry_def Let_def
    using assms(2,4) c le by (simp only: el q p w bind.bind_lunit prod.case if_False if_True refl)
  then show ?thesis by simp
qed

lemma set_replace_longer:
  assumes "mn_data m = entries_text us @ entry_text (name, k, v) @ NUL # T @ R"
    and "find_nvram_entry_position (mn_data m) name 0 = Some (length (entries_text us), True)"
    and "entry_ok (name, k, v)" "mh_data_used m \<noteq> 0"
    and "mh_data_used m = int (length (entries_text us) + length (entry_text (name, k, v)) + 1 + length T)"
    and "mh_data_size m = int (length (mn_data m))"
    and "\<not> length val + 1 \<le> Suc k + length v" "length val - (k + length v) \<le> length R"
  shows "meta_nvram_set_entry m name val = Some (EZCFG_RET_OK,
    m\<lparr>mn_data := entries_text us @ entry_text (name, 0, val) @ NUL # T @ drop (length val - (k + length v)) R,
      mh_data_used := mh_data_used m + int (length val - (k + length v))\<rparr>)"
proof -
  let ?A = "entries_text us @ name @ ''=''" and ?e = "entry_text (name, k, v)"
  let ?B = "replicate k (CHR ''='') @ v @ [NUL]" and ?S = "val @ [NUL]"
  have c: "cstr_at (mn_data m) (length (entries_text us)) = Some ?e"
    using cstr_at_app [of ?e _ "entries_text us" "T @ R"] entry_text_NUL [OF assms(3)] assms(1) by simp
  have d: "mn_data m = ?A @ ?B @ T @ R" using assms(1) by simp
  have g: "length ?S - length ?B = length val - (k + length v)" by simp
  obtain d1 where m: "memmove (mn_data m) (length ?A + length ?S) (length ?A + length ?B) (int (length T)) = Some d1"
    "sprintf_value d1 (length ?A) val = Some (?A @ ?S @ T @ drop (length val - (k + length v)) R)"
    using move_then_write [of ?B ?S R ?A T] assms(7,8) unfolding d sprintf_value_def g by auto
  have q: "length (entries_text us) + length name + 1 = length ?A"
    "length (entries_text us) + (length name + length val + 2) = length ?A + length ?S"
    "length (entries_text us) + (length ?e + 1) = length ?A + length ?B"
    "mh_data_used m - int (length (entries_text us)) - int (length ?e + 1) = int (length T)"
    using assms(5) by simp_all
  have nle: "\<not> length name + length val + 2 \<le> length ?e + 1" using assms(7) by simp
  have room: "\<not> int (length name + length val + 2) > mh_data_size m - mh_data_used m + int (length ?e + 1)"
    using assms(5,6,7,8) d by simp
  have diff: "int (length name + length val + 2) - int (length ?e + 1) = int (length val - (k + length v))"
    using assms(7) by simp
  have "meta_nvram_set_entry m name val = Some (EZCFG_RET_OK,
      m\<lparr>mn_data := ?A @ ?S @ T @ drop (length val - (k + length v)) R,
        mh_data_used := mh_data_used m + int (length val - (k + length v))\<rparr>)"
    unfolding meta_nvram_set_entry_def Let_def
    using assms(2,4) c nle room
    by (simp only: q m diff bind.bind_lunit prod.case if_False if_True refl)
  then show ?thesis by simp
qed

lemma set_insert:
  assumes "mn_data m = entries_text us @ T @ R"
    and "find_nvram_entry_position (mn_data m) name 0 = Some (length (entries_text us), False)"
    and "mh_data_used m \<noteq> 0" "mh_data_used m = int (length (entries_text us) + length T)"
    and "mh_data_size m = int (length (mn_data m))"
    and "length name + length val + 2 \<le> length R"
  shows "meta_nvram_set_entry m name val = Some (EZCFG_RET_OK,
    m\<lparr>mn_data := entries_text us @ entry_text (name, 0, val) @ NUL # T @ drop (length name + length val + 2) R,
      mh_data_used := mh_data_used m + int (length name + length val + 2)\<rparr>)"
proof -
  let ?A = "entries_text us" and ?S = "name @ ''='' @ val @ [NUL]"
  have g: "length ?S - length [] = length name + length val + 2" by simp
  obtain d1 where m: "memmove (mn_data m) (length ?A + length ?S) (length ?A) (int (length T)) = Some d1"
    "sprintf_entry d1 (length ?A) name val = Some (?A @ ?S @ T @ drop (length name + length val + 2) R)"
    using move_then_write [of "[]" ?S R ?A T] assms(6) unfolding assms(1) sprintf_entry_def g by auto
  have q: "length ?A + (length name + length val + 2) = length ?A + length ?S"
    "mh_data_used m - int (length ?A) = int (length T)" using assms(4) by simp_all
  have room: "\<not> int (length name + length val + 2) > mh_data_size m - mh_data_used m"
    using assms by simp
  have "meta_nvram_set_entry m name val = Some (EZCFG_RET_OK,
      m\<lparr>mn_data := ?A @ ?S @ T @ drop (length name + length val + 2) R,
        mh_data_used := mh_data_used m + int (length name + length val + 2)\<rparr>)"
    unfolding meta_nvram_set_entry_def Let_def
    using assms(2,3) room
    by (simp only: q m bind.bind_lunit prod.case if_False refl)
  then show ?thesis by simp
qed

text \<open>The number of free bytes a call needs, beyond those of the entry it replaces.\<close>

definition meta_room :: "meta_nvram \<Rightarrow> meta_entry list \<Rightarrow> string \<Rightarrow> string \<Rightarrow> bool" where
  "meta_room m es name val \<longleftrightarrow>
     (if mh_data_used m = 0 then int (length name + length val) + 4 \<le> meta_free m
      else case meta_map es name of
        None \<Rightarrow> int (length name + length val) + 2 \<le> meta_free m
      | Some v \<Rightarrow> int (length val) \<le> meta_free m + int (length v))"

lemma set_entry_map:
  assumes rep: "meta_rep m es" and ap: "all_apart name es" and n: "meta_name name" "meta_value val"
    and room: "meta_room m es name val"
  shows "\<exists>m' es'. meta_nvram_set_entry m name val = Some (EZCFG_RET_OK, m') \<and>
    meta_rep m' es' \<and> meta_map es' = (meta_map es)(name \<mapsto> val) \<and>
    mh_data_used m' \<noteq> 0 \<and> mh_data_size m' = mh_data_size m \<and>
    mh_data_used m' \<le> mh_data_used m + int (length name + length val) + (if mh_data_used m = 0 then 3 else 2)"
proof (cases "mh_data_used m = 0")
  case True
  have "int (length name + length val) + 4 \<le> mh_data_size m"
    using room True by (simp add: meta_room_def meta_free_def)
  from set_first [OF rep True n this] obtain m' where
    "meta_nvram_set_entry m name val = Some (EZCFG_RET_OK, m')" "es = []" "meta_rep m' [(name, 0, val)]"
    "mh_data_used m' = int (length name + length val) + 3" "mh_data_size m' = mh_data_size m"
    by blast
  then show ?thesis using True by (intro exI [of _ m'] exI [of _ "[(name, 0, val)]"]) (simp add: meta_map_def)
next
  case used: False
  obtain rest where r: "mn_data m = entries_text es @ NUL # rest" "list_all entry_ok es" "names_sorted es"
    "mh_data_size m = int (length (entries_text es) + Suc (length rest))"
    "mh_data_used m = int (length (entries_text es)) + 1 \<or>
      mh_data_used m = 0 \<and> es = [] \<and> set rest \<subseteq> {NUL}"
    "\<forall>e\<in>set es. all_apart (fst e) es"
    using meta_repD [OF rep] .
  have u: "mh_data_used m = int (length (entries_text es)) + 1" using r(5) used by auto
  have fr: "meta_free m = int (length rest)" using r(4) u by (simp add: meta_free_def)
  from r(2,3) ap show ?thesis
  proof (cases rule: find_position)
    case (found us k v vs)
    note ren = replace_entry [OF r(3,2,6) [unfolded found(1)] n(2)]
    have ok: "entry_ok (name, k, v)" using r(2) found(1) by simp
    have f: "find_nvram_entry_position (mn_data m) name 0 = Some (length (entries_text us), True)"
      using found(2) r(1) by simp
    have mv: "meta_map es name = Some v" using meta_map_found r(3) found(1) by blast
    show ?thesis
    proof (cases "length val + 1 \<le> Suc k + length v")
      case True
      let ?es = "us @ (name, Suc k + length v - (length val + 1), val) # vs"
      let ?d = "entries_text us @ entry_text (name, Suc k + length v - (length val + 1), val) @ NUL #
          entries_text vs @ NUL # rest"
      have d: "mn_data m = entries_text us @ entry_text (name, k, v) @ NUL # entries_text vs @ NUL # rest"
        using r(1) found(1) by simp
      have "mh_data_used m \<le> mh_data_size m" using u r(4) by simp
      from set_replace_shorter [OF d f ok used this True]
      have st: "meta_nvram_set_entry m name val = Some (EZCFG_RET_OK, m\<lparr>mn_data := ?d\<rparr>)" .
      have "meta_rep (m\<lparr>mn_data := ?d\<rparr>) ?es"
        by (rule rep_intro [of _ _ rest]) (use u r(4) found(1) True ren in auto)
      with st ren(4) found(1) used show ?thesis by (intro exI [of _ "m\<lparr>mn_data := ?d\<rparr>"] exI [of _ ?es]) auto
    next
      case False
      let ?T = "entries_text vs @ [NUL]" and ?g = "length val - (k + length v)"
      let ?es = "us @ (name, 0, val) # vs"
      let ?d = "entries_text us @ entry_text (name, 0, val) @ NUL # ?T @ drop ?g rest"
      let ?m = "m\<lparr>mn_data := ?d, mh_data_used := mh_data_used m + int ?g\<rparr>"
      have d: "mn_data m = entries_text us @ entry_text (name, k, v) @ NUL # ?T @ rest"
        using r(1) found(1) by simp
      have g: "?g \<le> length rest" using room used mv fr by (simp add: meta_room_def)
      have st: "meta_nvram_set_entry m name val = Some (EZCFG_RET_OK, ?m)"
        by (rule set_replace_longer [OF d f ok used _ _ False g]) (use u r(1,4) found(1) in simp_all)
      have "meta_rep ?m ?es"
        by (rule rep_intro [of _ _ "drop ?g rest"]) (use u r(4) found(1) False g ren in auto)
      with st ren(4) found(1) used u show ?thesis by (intro exI [of _ ?m] exI [of _ ?es]) auto
    qed
  next
    case (absent us vs)
    let ?T = "entries_text vs @ [NUL]" and ?g = "length name + length val + 2"
    let ?es = "us @ (name, 0, val) # vs"
    let ?d = "entries_text us @ entry_text (name, 0, val) @ NUL # ?T @ drop ?g rest"
    let ?m = "m\<lparr>mn_data := ?d, mh_data_used := mh_data_used m + int ?g\<rparr>"
    note ins = insert_entry [OF r(3,2,6) [unfolded absent(1)] ap [unfolded absent(1)] absent(3,4) n]
    have f: "find_nvram_entry_position (mn_data m) name 0 = Some (length (entries_text us), False)"
      using absent(5) r(1) by simp
    have d: "mn_data m = entries_text us @ ?T @ rest" using r(1) absent(1) by simp
    have "meta_map es name = None" by (rule meta_map_absent) (use absent in simp)
    then have g: "?g \<le> length rest" using room used fr by (simp add: meta_room_def)
    have st: "meta_nvram_set_entry m name val = Some (EZCFG_RET_OK, ?m)"
      by (rule set_insert [OF d f used _ _ g]) (use u r(1,4) absent(1) in simp_all)
    have "meta_rep ?m ?es"
      by (rule rep_intro [of _ _ "drop ?g rest"]) (use u r(4) absent(1) g ins in auto)
    with st ins(4) absent(1) used u show ?thesis by (intro exI [of _ ?m] exI [of _ ?es]) auto
  qed
qed

section \<open>The store as a settings map\<close>

definition meta_holds :: "meta_nvram \<Rightarrow> (string \<rightharpoonup> string) \<Rightarrow> bool" where
  "meta_holds m M \<longleftrightarrow> (\<exists>es. meta_rep m es \<and> meta_map es = M)"

definition meta_budget :: "meta_nvram \<Rightarrow> nat \<Rightarrow> bool" where
  "meta_budget m k \<longleftrightarrow> int k + (if mh_data_used m = 0 then 2 else 0) \<le> meta_free m"

definition meta_fits :: "(string \<rightharpoonup> string) \<Rightarrow> string \<Rightarrow> string \<Rightarrow> bool" where
  "meta_fits M n v \<longleftrightarrow> meta_name n \<and> meta_value v \<and> (\<forall>n'\<in>dom M. apart n n')"

lemma dom_meta_map: "dom (meta_map es) = fst ` set es"
  by (force simp: meta_map_def dom_map_of_conv_image_fst)

lemma apart_names: "(\<forall>n'\<in>dom (meta_map es). apart n n') \<longleftrightarrow> all_apart n es"
  by (auto simp: dom_meta_map all_apart_def)

lemma meta_set_holds:
  assumes "meta_holds m M" "meta_fits M n v" "meta_budget m (setting_cost (n, v) + k)"
  shows "\<exists>m'. meta_nvram_set_entry m n v = Some (EZCFG_RET_OK, m') \<and>
    meta_holds m' (M(n \<mapsto> v)) \<and> meta_budget m' k"
proof -
  obtain es where es: "meta_rep m es" "meta_map es = M" using assms(1) by (auto simp: meta_holds_def)
  have ap: "all_apart n es" "meta_name n" "meta_value v"
    using assms(2) es(2) apart_names [of es n] by (auto simp: meta_fits_def)
  have "meta_room m es n v"
    using assms(3) by (auto simp: meta_room_def meta_budget_def setting_cost_def split: option.split)
  from set_entry_map [OF es(1) ap this] obtain m' es' where
    r: "meta_nvram_set_entry m n v = Some (EZCFG_RET_OK, m')" "meta_rep m' es'"
    "meta_map es' = (meta_map es)(n \<mapsto> v)" "mh_data_used m' \<noteq> 0" "mh_data_size m' = mh_data_size m"
    "mh_data_used m' \<le> mh_data_used m + int (length n + length v) + (if mh_data_used m = 0 then 3 else 2)"
    by blast
  have "meta_budget m' k"
    using assms(3) r(4,5,6) by (auto simp: meta_budget_def meta_free_def setting_cost_def split: if_splits)
  with r es(2) show ?thesis by (auto simp: meta_holds_def)
qed

lemma meta_rep_apart: "meta_rep m es \<Longrightarrow> n \<in> dom (meta_map es) \<Longrightarrow> all_apart n es"
  by (auto simp: meta_rep_def dom_meta_map)

interpretation meta: settings_store meta_holds meta_budget meta_fits meta_nvram_set_entry
  "meta_nvram_get_entry_value True"
proof
  fix s M n v k
  assume "meta_holds s M" "meta_fits M n v" "meta_budget s (setting_cost (n, v) + k)"
  then show "\<exists>s'. meta_nvram_set_entry s n v = Some (EZCFG_RET_OK, s') \<and>
      meta_holds s' (M(n \<mapsto> v)) \<and> meta_budget s' k"
    by (rule meta_set_holds)
next
  fix s M n v
  assume a: "meta_holds s M" "M n = Some v"
  then obtain es where es: "meta_rep s es" "meta_map es = M" by (auto simp: meta_holds_def)
  have "all_apart n es" by (rule meta_rep_apart [OF es(1)]) (use es(2) a(2) in auto)
  from get_value_map [OF es(1) this] show "meta_nvram_get_entry_value True s n = Some (EZCFG_RET_OK, Some v)"
    using es(2) a(2) by simp
qed

lemma meta_new_holds:
  assumes "local_meta_nvram_new hb True len = Some m" "NVRAM_HEADER_SIZE < len"
  shows "meta_holds m Map.empty" "meta_free m = len - NVRAM_HEADER_SIZE" "mh_data_used m = 0"
proof -
  obtain N where N: "len - NVRAM_HEADER_SIZE = int (Suc N)"
    using assms(2) by (metis diff_gt_0_iff_gt zero_less_imp_eq_int gr0_implies_Suc)
  have m: "mn_data m = NUL # replicate N NUL" "mh_data_size m = int (Suc N)" "mh_data_used m = 0"
    using assms(1) N
    by (auto simp: local_meta_nvram_new_def local_meta_nvram_update_header_crc_def
        local_meta_nvram_update_data_crc_def Let_def nat_add_distrib)
  have "meta_rep m []"
    unfolding meta_rep_def using m by (auto simp: names_sorted_def)
  then show "meta_holds m Map.empty" by (auto simp: meta_holds_def meta_map_def)
  show "meta_free m = len - NVRAM_HEADER_SIZE" "mh_data_used m = 0"
    using m N by (simp_all add: meta_free_def)
qed

section \<open>Properties\<close>


definition sample_settings :: "(string \<times> string) list" where
  "sample_settings = [(''ip'', ''1''), (''mac'', ''22''), (''ip'', ''333''), (''dns'', ''4''), (''mac'', ''5'')]"

lemma sample_settings_fit: "all_fit meta_fits Map.empty sample_settings"
  by (simp add: sample_settings_def meta_fits_def meta_name_def meta_value_def apart_def NUL_def)


text \<open>Unsetting a name removes exactly that name and keeps every other setting; the result is 0
  when the name was set and 1 (not \<open>EZCFG_RET_FAIL\<close>) when it was not.\<close>

theorem meta_nvram_unset_removes:
  assumes "meta_holds m M" and "\<forall>n'\<in>dom M. apart name n'"
  shows "\<exists>m'. meta_nvram_unset_entry m name = Some (if name \<in> dom M then 0 else 1, m') \<and>
    meta_holds m' (M(name := None))"
proof -
  obtain es where es: "meta_rep m es" "meta_map es = M" using assms(1) by (auto simp: meta_holds_def)
  have "all_apart name es" using assms(2) es(2) apart_names by blast
  from unset_map [OF es(1) this] obtain m' es' where
    u: "meta_nvram_unset_entry m name = Some (of_bool (name \<notin> dom (meta_map es)), m')" "meta_rep m' es'"
    "meta_map es' = (meta_map es)(name := None)" by blast
  have "meta_holds m' (M(name := None))" using u(2,3) unfolding meta_holds_def es(2) by blast
  moreover have "of_bool (name \<notin> dom M) = (if name \<in> dom M then 0 else (1::int))" by simp
  ultimately show ?thesis using u(1) unfolding es(2) by metis
qed

theorem meta_nvram_unset_removes_witness:
  "\<exists>m m'. meta_holds m [''ip'' \<mapsto> ''1''] \<and> meta_nvram_unset_entry m ''ip'' = Some (0, m') \<and>
     meta_holds m' Map.empty"
proof -
  obtain m where m: "local_meta_nvram_new (\<lambda>_. []) True 100 = Some m"
    by (simp add: local_meta_nvram_new_def Let_def)
  have "meta_budget m (setting_cost (''ip'', ''1'') + 0)"
    using meta_new_holds(2,3) [OF m] by (simp add: meta_budget_def setting_cost_def NVRAM_HEADER_SIZE_def)
  then obtain m1 where "meta_holds m1 [''ip'' \<mapsto> ''1'']"
    using meta_set_holds [OF meta_new_holds(1) [OF m], of "''ip''" "''1''" 0]
    by (auto simp: meta_fits_def meta_name_def meta_value_def NUL_def NVRAM_HEADER_SIZE_def)
  with meta_nvram_unset_removes [of m1 "[''ip'' \<mapsto> ''1'']" "''ip''"] show ?thesis
    by (auto simp: apart_def)
qed

text \<open>The first setting that exactly fills the buffer passes the size check and then writes one
  byte behind the buffer: the final NUL goes to index \<open>new_entry_len + 1\<close> instead of
  \<open>new_entry_len\<close>.\<close>

theorem meta_first_entry_overflow:
  assumes "meta_holds m M" and "mh_data_used m = 0"
    and "int (length name + length val) + 3 = mh_data_size m"
  shows "meta_nvram_set_entry m name val = None"
proof -
  obtain es where es: "meta_rep m es" using assms(1) by (auto simp: meta_holds_def)
  then have d: "length (mn_data m) = length name + length val + 3"
    using assms(3) by (auto simp: meta_rep_def)
  then show ?thesis using assms(2,3)
    by (auto simp: meta_nvram_set_entry_def Let_def sprintf_entry_def buf_write_def)
qed

theorem meta_first_entry_overflow_witness:
  "\<exists>m. local_meta_nvram_new (\<lambda>_. []) True 40 = Some m \<and> meta_nvram_set_entry m ''ab'' ''xyz'' = None"
proof -
  obtain m where m: "local_meta_nvram_new (\<lambda>_. []) True 40 = Some m"
    by (simp add: local_meta_nvram_new_def Let_def)
  have h: "meta_holds m Map.empty" "mh_data_used m = 0" "meta_free m = 8"
    using meta_new_holds [OF m] by (simp_all add: NVRAM_HEADER_SIZE_def)
  then have "mh_data_size m = 8" by (simp add: meta_free_def)
  with meta_first_entry_overflow [OF h(1,2), of "''ab''" "''xyz''"] m show ?thesis by simp
qed

text \<open>A name that is a proper prefix of a stored name hides it: after storing \<^verbatim>\<open>ab.x\<close> and then
  \<^verbatim>\<open>ab\<close>, both with result OK, \<^verbatim>\<open>ab.x\<close> is not found any more.\<close>

theorem meta_prefix_hides:
  "\<exists>m m1 m2. local_meta_nvram_new (\<lambda>_. []) True 64 = Some m \<and>
     meta_nvram_set_entry m ''ab.x'' ''1'' = Some (EZCFG_RET_OK, m1) \<and>
     meta_nvram_set_entry m1 ''ab'' ''2'' = Some (EZCFG_RET_OK, m2) \<and>
     meta_nvram_get_entry_value True m1 ''ab.x'' = Some (EZCFG_RET_OK, Some ''1'') \<and>
     meta_nvram_get_entry_value True m2 ''ab.x'' = Some (EZCFG_RET_FAIL, None)"
  by (simp add: local_meta_nvram_new_def NVRAM_HEADER_SIZE_def meta_nvram_set_entry_def
      local_meta_nvram_update_header_crc_def local_meta_nvram_update_data_crc_def Let_def
      sprintf_entry_def buf_write_def numeral_eq_Suc find_nvram_entry_position.simps cstr_at_def
      NUL_def strncmp_def char_at_def memmove_def meta_nvram_get_entry_value_def entry_value_at_def)

end
