(* ===== verification/Ez_Common.thy ===== *)
theory Ez_Common
  imports Nvram_Spec Meta_Nvram_Spec Json_Safety Json_Nvram
begin

text \<open>
  The library context of \<^verbatim>\<open>src/common/ezcfg.c\<close> as a whole: creating it from a JSON settings text
  (reader, meta store, settings table), deleting it, and looking up and storing settings through
  it.  What comes from outside (results of mutex calls, of allocations, the heaps before the
  call) is the record \<open>ez_env\<close>.
\<close>

section \<open>The context\<close>

text \<open>\<open>ez_meta_live\<close> says that the block behind \<^verbatim>\<open>meta_nvram\<close> has not been freed.\<close>

record ezcfg =
  ez_log_file :: string
  ez_meta :: "meta_nvram option"
  ez_meta_live :: bool
  ez_nvram :: "nvram option"

record ez_env =
  ev_addr :: nat
  ev_mem :: bool
  ev_lock :: mutex_call
  ev_unlock :: mutex_call
  ev_json :: "json_value bheap"
  ev_meta_mem :: bool
  ev_header :: "meta_nvram \<Rightarrow> 8 word list"
  ev_list :: "nv_pair lheap"
  ev_nvram_mem :: "nat \<Rightarrow> bool"
  ev_nv_lock :: "nat \<Rightarrow> mutex_call"
  ev_nv_unlock :: "nat \<Rightarrow> mutex_call"
  ev_strings :: "strbuf heap"
  ev_del_lock :: mutex_call
  ev_del_unlock :: mutex_call

section \<open>Logging\<close>

definition EZCFG_PATH_MAX :: nat where "EZCFG_PATH_MAX = 128"

text \<open>The file name is copied into the caller's buffer of \<open>bufsz\<close> bytes.\<close>

definition ezcfg_common_get_log_file :: "ezcfg \<Rightarrow> nat \<Rightarrow> int \<times> string option" where
  "ezcfg_common_get_log_file e bufsz =
     (if bufsz \<le> length (ez_log_file e) then (EZCFG_RET_FAIL, None)
      else (EZCFG_RET_OK, Some (snprintf bufsz (ez_log_file e))))"

definition ezcfg_common_set_log_file :: "ezcfg \<Rightarrow> string \<Rightarrow> int \<times> ezcfg" where
  "ezcfg_common_set_log_file e buf =
     (if length buf < EZCFG_PATH_MAX
      then (EZCFG_RET_OK, e\<lparr>ez_log_file := snprintf EZCFG_PATH_MAX buf\<rparr>)
      else (EZCFG_RET_FAIL, e))"

section \<open>Deleting the context\<close>

definition EZCFG_REF_COUNTER_RETRY_MAX :: nat where "EZCFG_REF_COUNTER_RETRY_MAX = 3"

text \<open>
  The waiting loop runs with the mutex held, so the counter does not change while it sleeps.  It
  returns the final \<^verbatim>\<open>retry\<close>, or \<^term>\<open>None\<close> for the jump to \<^verbatim>\<open>func_exit\<close>.
\<close>

function ref_wait_loop :: "int \<Rightarrow> nat \<Rightarrow> nat option" where
  "ref_wait_loop counter retry =
     (if counter \<noteq> 1 \<and> retry < EZCFG_REF_COUNTER_RETRY_MAX then
        (if counter > 1 then ref_wait_loop counter (Suc retry) else None)
      else Some retry)"
  by pat_completeness auto
termination
  by (relation "measure (\<lambda>(counter, retry). EZCFG_REF_COUNTER_RETRY_MAX - retry)") auto

declare ref_wait_loop.simps [simp del]

text \<open>Freeing the meta store a second time is a fault.\<close>

definition ezcfg_cleanup :: "mutex_call \<Rightarrow> mutex_call \<Rightarrow> ezcfg \<Rightarrow> unit option" where
  "ezcfg_cleanup nvlk nvulk e = do {
     _ \<leftarrow> (case ez_nvram e of None \<Rightarrow> Some () | Some nv \<Rightarrow> map_option (\<lambda>_. ()) (local_nvram_del nvlk nvulk nv));
     if ez_meta e \<noteq> None \<and> \<not> ez_meta_live e then None else Some ()
   }"

definition ezcfg_del ::
    "mutex_call \<Rightarrow> mutex_call \<Rightarrow> mutex_call \<Rightarrow> mutex_call \<Rightarrow> ezcfg \<Rightarrow> ezcfg_refs \<Rightarrow> (int \<times> ezcfg_refs) option" where
  "ezcfg_del lk ulk nvlk nvulk e s =
     (if lock_ezcfg_ref_mutex lk \<noteq> EZCFG_RET_OK then Some (EZCFG_RET_FAIL, s)
      else do {
        (ret, s') \<leftarrow> (case ref_wait_loop (ezcfg_ref_counter s) 0 of
            None \<Rightarrow> Some (EZCFG_RET_FAIL, s)
          | Some retry \<Rightarrow>
              if retry < EZCFG_REF_COUNTER_RETRY_MAX then do {
                _ \<leftarrow> ezcfg_cleanup nvlk nvulk e;
                Some (EZCFG_RET_OK, s\<lparr>ezcfg_ref_counter := ezcfg_ref_counter s - 1, this_ezcfg := None\<rparr>)
              }
              else Some (EZCFG_RET_FAIL, s));
        Some (if unlock_ezcfg_ref_mutex ulk \<noteq> EZCFG_RET_OK then EZCFG_RET_FAIL else ret, s')
      })"

section \<open>Creating the context\<close>

text \<open>
  The memory that the call allocates for itself, so that what a failing call leaves behind can be seen:
  the blocks that are live (\<open>Parser_block\<close> stands for the parser object with its empty tree and
  stack, which are made and freed together) and the heap with the nodes of the text.  Freeing a
  block that is not live is a fault.
\<close>

datatype ez_block = Context_block | Parser_block | Meta_block

record ez_blocks =
  eb_live :: "ez_block list"
  eb_json :: "json_value bheap"

definition alloc_block :: "ez_block \<Rightarrow> ez_blocks \<Rightarrow> ez_blocks" where
  "alloc_block b k = k\<lparr>eb_live := b # eb_live k\<rparr>"

definition free_block :: "ez_block \<Rightarrow> ez_blocks \<Rightarrow> ez_blocks option" where
  "free_block b k = (if b \<in> set (eb_live k) then Some (k\<lparr>eb_live := remove1 b (eb_live k)\<rparr>) else None)"

text \<open>\<^verbatim>\<open>free(ezcfg); return NULL;\<close>\<close>

definition ezcfg_new_abandon ::
    "ez_blocks \<Rightarrow> ezcfg_refs \<Rightarrow> (ezcfg option \<times> ez_blocks \<times> ezcfg_refs) option" where
  "ezcfg_new_abandon k s = map_option (\<lambda>k'. (None, k', s)) (free_block Context_block k)"

text \<open>The code behind \<^verbatim>\<open>fail_out\<close>: the parser object is deleted, the meta store is freed and then the
  context, which still points to it, is deleted; \<^verbatim>\<open>ezcfg_del\<close> has freed the context exactly when
  the counter went down.\<close>

definition ezcfg_new_fail ::
    "ez_env \<Rightarrow> json option \<Rightarrow> ezcfg \<Rightarrow> ez_blocks \<Rightarrow> ezcfg_refs \<Rightarrow> (ezcfg option \<times> ez_blocks \<times> ezcfg_refs) option" where
  "ezcfg_new_fail ev j e k s = do {
     k1 \<leftarrow> (case j of
         None \<Rightarrow> Some k
       | Some j \<Rightarrow> do { h \<leftarrow> local_json_del j; free_block Parser_block (k\<lparr>eb_json := h\<rparr>) });
     k2 \<leftarrow> (if ez_meta e \<noteq> None then free_block Meta_block k1 else Some k1);
     (_, s') \<leftarrow> ezcfg_del (ev_del_lock ev) (ev_del_unlock ev) (ev_nv_lock ev 2) (ev_nv_unlock ev 2)
        (if ez_meta e \<noteq> None then e\<lparr>ez_meta_live := False\<rparr> else e) s;
     k3 \<leftarrow> (if ezcfg_ref_counter s' < ezcfg_ref_counter s then free_block Context_block k2 else Some k2);
     Some (None, k3, s')
   }"

text \<open>Filling the meta store from the parsed text; the code is \<^verbatim>\<open>EZCFG_RET_OK\<close> when nothing was stored.\<close>

definition ezcfg_setup_meta :: "json \<Rightarrow> meta_nvram \<Rightarrow> nv_pair lheap \<Rightarrow> (int \<times> meta_nvram) option" where
  "ezcfg_setup_meta j m h = do {
     rep \<leftarrow> local_json_is_nvram_representation j;
     if \<not> rep then Some (EZCFG_RET_OK, m)
     else do {
       (l, h1) \<leftarrow> local_json_build_nvram_node_list j h;
       case l of
         None \<Rightarrow> Some (EZCFG_RET_OK, m)
       | Some l \<Rightarrow> do {
           (ret, m1) \<leftarrow> local_meta_nvram_set_entries m l h1;
           _ \<leftarrow> local_linked_list_del l h1;
           Some (ret, m1)
         }
     }
   }"

text \<open>The result is the context or NULL, the memory and the counter.  A successful call keeps the parser
  object.\<close>

definition ezcfg_new ::
    "ez_env \<Rightarrow> string option \<Rightarrow> ezcfg_refs \<Rightarrow> (ezcfg option \<times> ez_blocks \<times> ezcfg_refs) option" where
  "ezcfg_new ev text s =
     (let k0 = \<lparr>eb_live = [], eb_json = ev_json ev\<rparr>; k1 = alloc_block Context_block k0 in
      if \<not> ev_mem ev then Some (None, k0, s)
      else if lock_ezcfg_ref_mutex (ev_lock ev) \<noteq> EZCFG_RET_OK then ezcfg_new_abandon k1 s
      else if ezcfg_ref_counter s \<noteq> 0 then ezcfg_new_abandon k1 s
      else
        let s1 = s\<lparr>ezcfg_ref_counter := ezcfg_ref_counter s + 1\<rparr>;
            e = \<lparr>ez_log_file = [], ez_meta = None, ez_meta_live = True, ez_nvram = None\<rparr>;
            s2 = s1\<lparr>this_ezcfg := Some (ev_addr ev)\<rparr>
        in
        if unlock_ezcfg_ref_mutex (ev_unlock ev) \<noteq> EZCFG_RET_OK then ezcfg_new_abandon k1 s1
        else case text of
          None \<Rightarrow> Some (Some e, k1, s2)
        | Some t \<Rightarrow>
            (case local_json_new (ev_json ev) of
               (None, h) \<Rightarrow> ezcfg_new_fail ev None e (k1\<lparr>eb_json := h\<rparr>) s1
             | (Some j0, h) \<Rightarrow> do {
                 let k2 = alloc_block Parser_block k1;
                 (ret, j) \<leftarrow> local_json_parse_text j0 t;
                 if ret \<noteq> EZCFG_RET_OK then ezcfg_new_fail ev (Some j) e k2 s1
                 else
                   (case local_meta_nvram_new (ev_header ev) (ev_meta_mem ev)
                           (local_json_get_msg_len j + NVRAM_HEADER_SIZE) of
                      None \<Rightarrow> ezcfg_new_fail ev (Some j) e k2 s1
                    | Some m0 \<Rightarrow> do {
                        let k3 = alloc_block Meta_block k2;
                        (ret, m) \<leftarrow> ezcfg_setup_meta j m0 (ev_list ev);
                        if ret = EZCFG_RET_FAIL then ezcfg_new_fail ev (Some j) (e\<lparr>ez_meta := Some m\<rparr>) k3 s1
                        else do {
                          nv \<leftarrow> local_nvram_new (ev_nvram_mem ev) (ev_nv_lock ev 0) (ev_nv_unlock ev 0)
                                  (ev_nv_lock ev 1) (ev_nv_unlock ev 1) m (ev_strings ev);
                          Some (Some (e\<lparr>ez_meta := Some m, ez_nvram := nv\<rparr>), k3\<lparr>eb_json := js_heap j\<rparr>, s2)
                        }
                      })
               }))"

section \<open>Settings through the context\<close>

text \<open>The table is asked first, then the meta store; \<open>mem\<close> is the allocation of the latter's copy.\<close>

definition ezcfg_common_get_nvram_entry_value ::
    "mutex_call \<Rightarrow> mutex_call \<Rightarrow> bool \<Rightarrow> ezcfg \<Rightarrow> string \<Rightarrow> (int \<times> string option \<times> ezcfg) option" where
  "ezcfg_common_get_nvram_entry_value lk ulk mem e name = do {
     (ret, val, e1) \<leftarrow> (case ez_nvram e of
         None \<Rightarrow> Some (EZCFG_RET_FAIL, None, e)
       | Some nv \<Rightarrow> do {
           (ret, val, nv') \<leftarrow> local_nvram_get_entry_value lk ulk nv name;
           Some (ret, val, e\<lparr>ez_nvram := Some nv'\<rparr>)
         });
     if ret \<noteq> EZCFG_RET_OK then do {
       m \<leftarrow> ez_meta e1;
       (ret, val) \<leftarrow> local_meta_nvram_get_entry_value mem m name;
       Some (ret, val, e1)
     }
     else Some (ret, val, e1)
   }"

text \<open>The public pair of \<^verbatim>\<open>ezcfg-private.h\<close>: both pointers may be NULL; the lengths count the
  final NUL.\<close>

record ezcfg_nv_pair =
  np_n :: "string option"
  np_v :: "string option"
  np_nlen :: int
  np_vlen :: int

text \<open>The loop of \<^verbatim>\<open>ezcfg_common_set_nvram_entries\<close>: a pair without a value unsets its name.  Without
  a table the first entry dereferences NULL.\<close>

fun set_entries_loop ::
    "nat \<Rightarrow> int \<Rightarrow> nvram option \<Rightarrow> ezcfg_nv_pair linked_list \<Rightarrow> ezcfg_nv_pair lheap \<Rightarrow> (int \<times> nvram option) option" where
  "set_entries_loop 0 i nvo l h = Some (EZCFG_RET_OK, nvo)"
| "set_entries_loop (Suc k) i nvo l h = do {
     d \<leftarrow> ezcfg_linked_list_get_node_data_by_index l i h;
     case d of
       None \<Rightarrow> Some (EZCFG_RET_FAIL, nvo)
     | Some d \<Rightarrow>
         (case np_n d of
            None \<Rightarrow> Some (EZCFG_RET_FAIL, nvo)
          | Some n \<Rightarrow> do {
              nv \<leftarrow> nvo;
              (ret, nv') \<leftarrow> (case np_v d of
                 None \<Rightarrow> nvram_unset_entry nv n
               | Some v \<Rightarrow> nvram_set_entry nv n v);
              if ret \<noteq> EZCFG_RET_OK then Some (EZCFG_RET_FAIL, Some nv')
              else set_entries_loop k (i + 1) (Some nv') l h
            })
   }"

definition ezcfg_common_set_nvram_entries ::
    "mutex_call \<Rightarrow> mutex_call \<Rightarrow> ezcfg \<Rightarrow> ezcfg_nv_pair linked_list \<Rightarrow> ezcfg_nv_pair lheap \<Rightarrow> (int \<times> ezcfg) option" where
  "ezcfg_common_set_nvram_entries lk ulk e l h =
     (let n = ezcfg_linked_list_get_length l in
      if n > 0 \<and> ez_nvram e \<noteq> None \<and> lock_nvram_mutex lk \<noteq> EZCFG_RET_OK then Some (EZCFG_RET_FAIL, e)
      else do {
        (ret, nvo) \<leftarrow> set_entries_loop (nat n) 1 (ez_nvram e) l h;
        Some (ret, e\<lparr>ez_nvram := nvo\<rparr>)
      })"

end
