(* ===== verification/Ez_Common_Spec.thy ===== *)
theory Ez_Common_Spec
  imports Ez_Common
begin

text \<open>
  The composition of the components in \<^verbatim>\<open>common/ezcfg.c\<close>: from a JSON settings text to lookups
  through the context, and the life of the context under its reference counter.
\<close>

section \<open>From the text to the meta store\<close>

definition setting :: "nv_pair \<Rightarrow> string \<times> string" where
  "setting d = (nv_name d, nv_value d)"

definition settings_of :: "(string \<times> jv) list \<Rightarrow> (string \<times> string) list" where
  "settings_of ms = map (\<lambda>kv. setting (member_pair kv)) ms"

lemma settings_of_simps [simp]:
  "settings_of [] = []" "settings_of (kv # ms) = setting (member_pair kv) # settings_of ms"
  by (simp_all add: settings_of_def)

lemma setting_cost_setting [simp]: "setting_cost (setting d) = length (nv_name d) + length (nv_value d) + 2"
  by (simp add: setting_def setting_cost_def)

lemma jcommas_cost:
  "string_members ms \<Longrightarrow> ms \<noteq> [] \<Longrightarrow>
     sum_list (map setting_cost (settings_of ms)) \<le> length (jcommas (map jmember ms))"
proof (induction ms rule: induct_list012)
  case (2 kv)
  then obtain k s where "kv = (k, JStr s)" by (cases kv) (auto simp: string_members_def)
  then show ?case by (simp add: jquote_def)
next
  case (3 kv kv' ms)
  obtain k s where "kv = (k, JStr s)" using 3(3) by (cases kv) (auto simp: string_members_def)
  moreover have "string_members (kv' # ms)" using 3(3) by (simp add: string_members_def)
  with 3(2) have "sum_list (map setting_cost (settings_of (kv' # ms))) \<le> length (jcommas (map jmember (kv' # ms)))"
    by simp
  ultimately show ?case by (simp add: jquote_def)
qed simp

text \<open>The buffer sized by the message length holds all settings of the text.\<close>

lemma settings_room:
  "string_members ms \<Longrightarrow> ms \<noteq> [] \<Longrightarrow>
     int (sum_list (map setting_cost (settings_of ms))) + 2 \<le> int (length (jprint (JObj ms)))"
  using jcommas_cost [of ms] by simp

lemma member_names [simp]: "nv_name (member_pair kv) = fst kv"
  by (cases kv rule: member_pair.cases) auto

text \<open>Storing a represented list is storing its pairs one by one.\<close>

lemma set_entries_set_all:
  "ll_rep cmp h l ds \<Longrightarrow> i + length xs = Suc (length ds) \<Longrightarrow> 1 \<le> i \<Longrightarrow> xs = drop (i - 1) ds \<Longrightarrow>
     set_all meta_nvram_set_entry m (map setting xs) = Some (EZCFG_RET_OK, m') \<Longrightarrow>
     meta_set_entries_loop (length xs) (int i) (if xs = [] then EZCFG_RET_OK else ret) m l h = Some (EZCFG_RET_OK, m')"
proof (induction xs arbitrary: i m ret)
  case Nil
  then show ?case by simp
next
  case (Cons d xs)
  have "ds ! (i - 1) = d" "xs = drop (Suc i - 1) ds"
    using Cons.prems(3,4) by (metis nth_via_drop, metis Suc_diff_1 Suc_le_eq diff_Suc_1 drop_Suc tl_drop list.sel(3) One_nat_def)
  moreover have "local_linked_list_get_node_data_by_index l (int i) h = Some (Some (ds ! (i - 1)))"
    unfolding local_linked_list_get_node_data_by_index_def
    using get_by_index_refines [OF Cons.prems(1), of "int i"] Cons.prems(2,3) by (simp add: nat_diff_distrib)
  moreover obtain m1 where m1: "meta_nvram_set_entry m (nv_name d) (nv_value d) = Some (EZCFG_RET_OK, m1)"
    "set_all meta_nvram_set_entry m1 (map setting xs) = Some (EZCFG_RET_OK, m')"
    using Cons.prems(5) by (auto simp: setting_def [of d] split: Option.bind_splits if_splits)
  ultimately show ?case
    using Cons.IH [of "Suc i" m1 EZCFG_RET_OK] Cons.prems(1,2) by (simp add: add.commute)
qed

lemma list_del_returns: "ll_rep cmp h l ds \<Longrightarrow> \<exists>h'. local_linked_list_del l h = Some h'"
  unfolding ll_rep_def ll_rep_at_def local_linked_list_del_def
  using linked_list_del_loop_path by fastforce

lemma setup_meta_stores:
  assumes "json_holds j (JObj ms)" and "ms \<noteq> []" and "string_members ms" and "distinct (map fst ms)"
    and "heap_ok h" and "oom h = (\<lambda>_. False)"
    and "set_all meta_nvram_set_entry m (settings_of ms) = Some (EZCFG_RET_OK, m')"
  shows "ezcfg_setup_meta j m h = Some (EZCFG_RET_OK, m')"
proof -
  have rep: "local_json_is_nvram_representation j = Some True"
    using representation_holds [OF assms(1)] assms(2,3) by auto
  obtain l h1 where l: "local_json_build_nvram_node_list j h = Some (Some l, h1)"
    "ll_rep local_nv_pair_cmp_handler h1 l (map member_pair ms)"
  proof -
    have "append_spec_all local_nv_pair_cmp_handler (map member_pair ms) [] = map member_pair ms"
      using append_spec_all_distinct [of _ "[]"] members_distinct [OF assms(4)] by simp
    then show thesis using build_holds [OF assms(1,2,3,5,6)] that by metis
  qed
  have "set_all meta_nvram_set_entry m (map setting (map member_pair ms)) = Some (EZCFG_RET_OK, m')"
    using assms(7) by (simp add: settings_of_def comp_def)
  from set_entries_set_all [OF l(2) _ _ _ this, of 1 EZCFG_RET_FAIL] assms(2)
  have "meta_set_entries_loop (length ms) 1 EZCFG_RET_FAIL m l h1 = Some (EZCFG_RET_OK, m')" by simp
  moreover have "local_linked_list_get_length l = int (length ms)"
    using ll_rep_length [OF l(2)] by (simp add: local_linked_list_get_length_def)
  ultimately have "local_meta_nvram_set_entries m l h1 = Some (EZCFG_RET_OK, m')"
    by (simp add: local_meta_nvram_set_entries_def)
  with rep l(1) list_del_returns [OF l(2)] show ?thesis by (auto simp: ezcfg_setup_meta_def)
qed

section \<open>Creating a context\<close>

text \<open>Enough memory, and mutex calls that behave as POSIX says.\<close>

definition env_ok :: "ez_env \<Rightarrow> bool" where
  "env_ok ev \<longleftrightarrow> ev_mem ev \<and> ev_meta_mem ev \<and> ev_nvram_mem ev = (\<lambda>_. True) \<and>
     posix_mutex_call (ev_lock ev) \<and> posix_mutex_call (ev_unlock ev) \<and>
     posix_mutex_call (ev_del_lock ev) \<and> posix_mutex_call (ev_del_unlock ev) \<and>
     (\<forall>k. posix_mutex_call (ev_nv_lock ev k) \<and> posix_mutex_call (ev_nv_unlock ev k)) \<and>
     heap_ok (ev_json ev) \<and> oom (ev_json ev) = (\<lambda>_. False) \<and>
     heap_ok (ev_list ev) \<and> oom (ev_list ev) = (\<lambda>_. False) \<and> heap_ok (ev_strings ev)"

lemma json_new_ready:
  assumes "env_ok ev"
  obtains j h where "local_json_new (ev_json ev) = (Some j, h)" "json_ready j" "plenty j"
  using assms
  by (simp add: env_ok_def local_json_new_def htick_def local_binary_tree_new_def local_stack_list_new_def
      json_ready_def plenty_def heap_ok_def Let_def)

lemma nvram_new_sized:
  assumes "meta_holds m M" and "\<forall>n\<in>dom M. apart NVRAM_NODE_LIST_SIZE n"
    and "posix_mutex_call lk" and "posix_mutex_call ulk"
  shows "local_nvram_new (\<lambda>_. True) lk ulk lk2 ulk2 m h =
    Some (case M NVRAM_NODE_LIST_SIZE of
        None \<Rightarrow> None
      | Some v \<Rightarrow> if atoi v < 1 then None else Some (nvram_empty (nat (atoi v)) h))"
proof -
  obtain es where es: "meta_rep m es" "meta_map es = M" using assms(1) by (auto simp: meta_holds_def)
  have "all_apart NVRAM_NODE_LIST_SIZE es" using assms(2) es(2) apart_names by blast
  from get_value_map [OF es(1) this] show ?thesis using assms(3,4) es(2)
    by (auto simp: local_nvram_new_def local_meta_nvram_get_entry_value_def nvram_empty_def Let_def
        split: option.splits)
qed

text \<open>A context with an empty table, or none, answers from the meta store.\<close>

lemma context_get_meta:
  assumes "ez_meta e = Some m" and "meta_nvram_get_entry_value True m n = Some (EZCFG_RET_OK, Some v)"
    and "ez_nvram e = None \<or> (\<exists>nv. ez_nvram e = Some nv \<and> nv_rep nv [])"
  shows "\<exists>e'. ezcfg_common_get_nvram_entry_value lk ulk True e n = Some (EZCFG_RET_OK, Some v, e')"
proof (cases "ez_nvram e")
  case None
  then show ?thesis using assms(1,2)
    by (simp add: ezcfg_common_get_nvram_entry_value_def local_meta_nvram_get_entry_value_def)
next
  case (Some nv)
  then have "nv_rep nv []" using assms(3) by simp
  from get_entry_table [OF this, of n] obtain nv' where
    "nvram_get_entry_value nv n = Some (EZCFG_RET_FAIL, None, nv')" by (auto simp: table_get_def)
  then show ?thesis using Some assms(1,2)
    by (auto simp: ezcfg_common_get_nvram_entry_value_def local_meta_nvram_get_entry_value_def
        local_nvram_get_entry_value_def)
qed

lemma new_context:
  assumes "env_ok ev" and "ezcfg_ref_counter refs = 0"
    and "vtext (JObj ms) s" and "wsp w1" and "wsp w2" and "ms \<noteq> []" and "string_members ms"
    and "distinct (map fst ms)" and "all_fit meta_fits Map.empty (settings_of ms)"
    and "\<forall>kv\<in>set ms. apart NVRAM_NODE_LIST_SIZE (fst kv)"
  shows "\<exists>m h. meta_holds m (map_of (settings_of ms)) \<and>
    ezcfg_new ev (Some (w1 @ s @ w2)) refs = Some (
      Some \<lparr>ez_log_file = [], ez_meta = Some m, ez_meta_live = True, ez_nvram =
        (case map_of (settings_of ms) NVRAM_NODE_LIST_SIZE of
            None \<Rightarrow> None
          | Some v \<Rightarrow> if atoi v < 1 then None else Some (nvram_empty (nat (atoi v)) (ev_strings ev)))\<rparr>,
      \<lparr>eb_live = [Meta_block, Parser_block, Context_block], eb_json = h\<rparr>,
      refs\<lparr>ezcfg_ref_counter := 1, this_ezcfg := Some (ev_addr ev)\<rparr>)"
proof -
  note ev = assms(1) [unfolded env_ok_def]
  obtain j0 h0 where j0: "local_json_new (ev_json ev) = (Some j0, h0)" "json_ready j0" "plenty j0"
    using json_new_ready [OF assms(1)] .
  obtain j where j: "local_json_parse_text j0 (w1 @ s @ w2) = Some (EZCFG_RET_OK, j)" "json_holds j (JObj ms)"
    using parse_holds [OF assms(3) _ assms(4,5) j0(2,3)] by auto
  let ?len = "int (length (jprint (JObj ms)))"
  have len: "local_json_get_msg_len j = ?len"
    using j(2) by (auto simp: json_holds_def local_json_get_msg_len_def jset_def)
  obtain m0 where m0: "local_meta_nvram_new (ev_header ev) True (?len + NVRAM_HEADER_SIZE) = Some m0"
    by (simp add: local_meta_nvram_new_def Let_def)
  note new = meta_new_holds [OF m0]
  have "meta_budget m0 (sum_list (map setting_cost (settings_of ms)) + 0)"
    using settings_room [OF assms(7,6)] new(2,3) by (simp add: meta_budget_def)
  from meta.set_all_holds [OF _ assms(9) this] new(1) obtain m where
    m: "set_all meta_nvram_set_entry m0 (settings_of ms) = Some (EZCFG_RET_OK, m)"
    "meta_holds m (Map.empty ++ map_of (rev (settings_of ms)))" by auto
  have names: "map fst (settings_of ms) = map fst ms" by (simp add: settings_of_def setting_def comp_def)
  then have mh: "meta_holds m (map_of (settings_of ms))"
    using m(2) map_of_rev_distinct [of "settings_of ms"] assms(8) by simp
  have st: "ezcfg_setup_meta j m0 (ev_list ev) = Some (EZCFG_RET_OK, m)"
    by (rule setup_meta_stores [OF j(2) assms(6,7,8)]) (use ev m(1) in auto)
  have "\<forall>n\<in>dom (map_of (settings_of ms)). apart NVRAM_NODE_LIST_SIZE n"
    using assms(10) names by (metis (no_types, lifting) dom_map_of_conv_image_fst imageE list.set_map)
  note nv = nvram_new_sized [OF mh this]
  have "ezcfg_new ev (Some (w1 @ s @ w2)) refs = Some (
      Some \<lparr>ez_log_file = [], ez_meta = Some m, ez_meta_live = True, ez_nvram =
        (case map_of (settings_of ms) NVRAM_NODE_LIST_SIZE of
            None \<Rightarrow> None
          | Some v \<Rightarrow> if atoi v < 1 then None else Some (nvram_empty (nat (atoi v)) (ev_strings ev)))\<rparr>,
      \<lparr>eb_live = [Meta_block, Parser_block, Context_block], eb_json = js_heap j\<rparr>,
      refs\<lparr>ezcfg_ref_counter := 1, this_ezcfg := Some (ev_addr ev)\<rparr>)"
    using ev assms(2) j0(1) j(1) len m0 st nv by (simp add: ezcfg_new_def alloc_block_def Let_def)
  with mh show ?thesis by blast
qed

section \<open>The life of a context\<close>

text \<open>A context that can be cleaned up: its table is intact and its meta store not yet freed.\<close>

definition context_ok :: "ezcfg \<Rightarrow> bool" where
  "context_ok e \<longleftrightarrow> ez_meta_live e \<and> (case ez_nvram e of None \<Rightarrow> True | Some nv \<Rightarrow> \<exists>es. nv_rep nv es)"

lemma nvram_del_returns:
  assumes "nv_rep nv es" and "posix_mutex_call lk"
  shows "\<exists>r. local_nvram_del lk ulk nv = Some r"
proof -
  obtain ns rest where ns: "node_list nv = ns @ rest" "nodes_rep (nv_heap nv) ns es"
    "\<forall>np\<in>set rest. np = null_node" "node_list_size nv = int (length (ns @ rest))"
    using assms(1) by (auto simp: nv_rep_def)
  with del_loop_frees [OF ns(2,3)] assms(2) show ?thesis by (auto simp: local_nvram_del_def)
qed

lemma cleanup_returns: "context_ok e \<Longrightarrow> posix_mutex_call nvlk \<Longrightarrow> ezcfg_cleanup nvlk nvulk e = Some ()"
  using nvram_del_returns by (fastforce simp: context_ok_def ezcfg_cleanup_def split: option.splits)

lemma ref_wait_loop_held: "counter > 1 \<Longrightarrow> retry \<le> EZCFG_REF_COUNTER_RETRY_MAX \<Longrightarrow>
    ref_wait_loop counter retry = Some EZCFG_REF_COUNTER_RETRY_MAX"
proof (induction "EZCFG_REF_COUNTER_RETRY_MAX - retry" arbitrary: retry)
  case 0
  then have "retry = EZCFG_REF_COUNTER_RETRY_MAX" by simp
  then show ?case by (simp add: ref_wait_loop.simps [of counter EZCFG_REF_COUNTER_RETRY_MAX])
next
  case (Suc n)
  then show ?case using Suc(1) [of "Suc retry"] by (auto simp: ref_wait_loop.simps [of counter retry])
qed

lemma del_posix:
  assumes "posix_mutex_call lk" "posix_mutex_call ulk" "posix_mutex_call nvlk" "context_ok e"
  shows "ezcfg_del lk ulk nvlk nvulk e s = Some (
    if ezcfg_ref_counter s = 1 then (EZCFG_RET_OK, s\<lparr>ezcfg_ref_counter := 0, this_ezcfg := None\<rparr>)
    else (EZCFG_RET_FAIL, s))"
proof -
  consider "ezcfg_ref_counter s = 1" | "ezcfg_ref_counter s > 1" | "ezcfg_ref_counter s < 1" by linarith
  then show ?thesis
  proof cases
    case 1
    then show ?thesis using assms cleanup_returns [OF assms(4,3)]
      by (simp add: ezcfg_del_def ref_wait_loop.simps [of 1 0] EZCFG_REF_COUNTER_RETRY_MAX_def)
  next
    case 2
    then show ?thesis using assms ref_wait_loop_held [of "ezcfg_ref_counter s" 0] by (simp add: ezcfg_del_def)
  next
    case 3
    then show ?thesis using assms
      by (simp add: ezcfg_del_def ref_wait_loop.simps [of "ezcfg_ref_counter s" 0] EZCFG_REF_COUNTER_RETRY_MAX_def)
  qed
qed

text \<open>The states of the counter after creation, with the number of references that clients hold.\<close>

inductive ref_reach :: "ezcfg_refs \<Rightarrow> nat \<Rightarrow> bool" where
  created: "ezcfg_ref_counter s = 1 \<Longrightarrow> ref_reach s 0"
| taken: "ref_reach s k \<Longrightarrow> posix_mutex_call lk \<Longrightarrow> posix_mutex_call ulk \<Longrightarrow>
    ezcfg_inc_ref lk ulk s = (EZCFG_RET_OK, s') \<Longrightarrow> ref_reach s' (Suc k)"
| dropped: "ref_reach s (Suc k) \<Longrightarrow> posix_mutex_call lk \<Longrightarrow> posix_mutex_call ulk \<Longrightarrow>
    ezcfg_dec_ref lk ulk s = (EZCFG_RET_OK, s') \<Longrightarrow> ref_reach s' k"

lemma ref_reach_counter: "ref_reach s k \<Longrightarrow> ezcfg_ref_counter s = 1 + int k"
proof (induction rule: ref_reach.induct)
  case (taken s k lk ulk s')
  then show ?case by (auto simp: inc_ref_posix split: if_splits)
next
  case (dropped s k lk ulk s')
  then show ?case by (auto simp: dec_ref_posix split: if_splits)
qed simp

text \<open>Deleting the parser object of a failed reading.\<close>

lemma json_del_empty: "json_empty j \<Longrightarrow> \<exists>h. local_json_del j = Some h \<and> cells h = cells (js_heap j)"
  by (auto simp: json_empty_def local_json_del_def local_json_reset_def stack_clean_up.simps
      local_stack_list_is_empty_def tree_clean_up_def local_binary_tree_reset_def local_binary_tree_del_def)

lemma json_new_heap:
  assumes "local_json_new h = (jo, h')" "heap_ok h"
  shows "cells h' = cells h" "jo = Some j \<Longrightarrow> json_empty j" "jo = Some j \<Longrightarrow> heap_ok (js_heap j)"
    "jo = Some j \<Longrightarrow> cells (js_heap j) = cells h"
  using assms
  by (auto simp: local_json_new_def htick_def Let_def local_binary_tree_new_def local_stack_list_new_def
      json_empty_def heap_ok_def split: if_splits)

section \<open>Properties\<close>


definition sample_env :: ez_env where
  "sample_env =
     \<lparr>ev_addr = 0, ev_mem = True, ev_lock = (\<lambda>_. (0, 0)), ev_unlock = (\<lambda>_. (0, 0)),
      ev_json = \<lparr>cells = (\<lambda>_. None), brk = 0, oom = (\<lambda>_. False), blog = []\<rparr>,
      ev_meta_mem = True, ev_header = (\<lambda>_. []),
      ev_list = \<lparr>cells = (\<lambda>_. None), brk = 0, oom = (\<lambda>_. False), dlog = []\<rparr>,
      ev_nvram_mem = (\<lambda>_. True), ev_nv_lock = (\<lambda>_ _. (0, 0)), ev_nv_unlock = (\<lambda>_ _. (0, 0)),
      ev_strings = empty_heap (\<lambda>_. False), ev_del_lock = (\<lambda>_. (0, 0)), ev_del_unlock = (\<lambda>_. (0, 0))\<rparr>"

lemma sample_env_ok: "env_ok sample_env"
  by (simp add: sample_env_def env_ok_def posix_mutex_call_def heap_ok_def empty_heap_def)

text \<open>The text \<^verbatim>\<open>{"ip":"1","meta.nvram_node_list_size":"8"}\<close>.\<close>

definition sample_members :: "(string \<times> jv) list" where
  "sample_members = [(''ip'', JStr ''1''), (''meta.nvram_node_list_size'', JStr ''8'')]"

definition sample_settings_text :: string where
  "sample_settings_text = ''{'' @ jquote ''ip'' @ '':'' @ jquote ''1'' @ '','' @
     jquote ''meta.nvram_node_list_size'' @ '':'' @ jquote ''8'' @ ''}''"

lemma sample_members_ok:
  "vtext (JObj sample_members) sample_settings_text" "sample_members \<noteq> []" "string_members sample_members"
  "distinct (map fst sample_members)" "all_fit meta_fits Map.empty (settings_of sample_members)"
  "\<forall>kv\<in>set sample_members. apart NVRAM_NODE_LIST_SIZE (fst kv)"
proof -
  have st: "string_text ''ip''" "string_text ''1''" "string_text ''8''" "string_text ''meta.nvram_node_list_size''"
    by (simp_all add: string_text_def NUL_def)
  have "mtext [(''meta.nvram_node_list_size'', JStr ''8'')]
      (jquote ''meta.nvram_node_list_size'' @ [] @ '':'' @ [] @ jquote ''8'' @ [])"
    by (rule m1 [OF st(4) wsp_simps(1) wsp_simps(1) vStr [OF st(3)] wsp_simps(1)])
  from vObj [OF wsp_simps(1) mC [OF st(1) wsp_simps(1) wsp_simps(1) vStr [OF st(2)] wsp_simps(1) wsp_simps(1) this]]
  show "vtext (JObj sample_members) sample_settings_text"
    by (simp add: sample_members_def sample_settings_text_def)
qed (simp_all add: sample_members_def string_members_def meta_fits_def meta_name_def meta_value_def
    apart_def NUL_def setting_def NVRAM_NODE_LIST_SIZE_def)


text \<open>C13: a context is deleted exactly when no client holds a reference: in every state that taking
  and dropping references produces from a new context, the counter is one more than the number of
  references held, dropping a held reference succeeds, and deleting returns OK (with the counter
  back at 0) if none is held and otherwise FAIL with nothing changed.\<close>

theorem ezcfg_del_when_unreferenced:
  assumes "ref_reach s k" and "context_ok e"
    and "posix_mutex_call lk" and "posix_mutex_call ulk" and "posix_mutex_call nvlk"
  shows "ezcfg_ref_counter s = 1 + int k \<and>
    (0 < k \<longrightarrow> fst (ezcfg_dec_ref lk ulk s) = EZCFG_RET_OK) \<and>
    ezcfg_del lk ulk nvlk nvulk e s = Some (
      if k = 0 then (EZCFG_RET_OK, s\<lparr>ezcfg_ref_counter := 0, this_ezcfg := None\<rparr>) else (EZCFG_RET_FAIL, s))"
  using ref_reach_counter [OF assms(1)] del_posix [OF assms(3,4,5,2), of nvulk s] dec_ref_posix [OF assms(3,4)]
  by auto

theorem ezcfg_del_when_unreferenced_witness:
  "ezcfg_del (\<lambda>_. (0, 0)) (\<lambda>_. (0, 0)) (\<lambda>_. (0, 0)) (\<lambda>_. (0, 0))
      \<lparr>ez_log_file = [], ez_meta = None, ez_meta_live = True, ez_nvram = Some sample_table\<rparr>
      \<lparr>ezcfg_ref_counter = 1, this_ezcfg = Some 0\<rparr> =
     Some (EZCFG_RET_OK, \<lparr>ezcfg_ref_counter = 0, this_ezcfg = None\<rparr>)"
proof -
  have "ref_reach \<lparr>ezcfg_ref_counter = 1, this_ezcfg = Some 0\<rparr> 0" by (rule ref_reach.created) simp
  moreover have "context_ok \<lparr>ez_log_file = [], ez_meta = None, ez_meta_live = True, ez_nvram = Some sample_table\<rparr>"
    using sample_table_rep(1) by (auto simp: context_ok_def)
  ultimately show ?thesis
    using ezcfg_del_when_unreferenced [of "\<lparr>ezcfg_ref_counter = 1, this_ezcfg = Some 0\<rparr>" 0
        "\<lparr>ez_log_file = [], ez_meta = None, ez_meta_live = True, ez_nvram = Some sample_table\<rparr>"
        "\<lambda>_. (0, 0)" "\<lambda>_. (0, 0)" "\<lambda>_. (0, 0)" "\<lambda>_. (0, 0)"]
    by (simp add: posix_mutex_call_def)
qed



text \<open>A context may be created without a settings table (the text gives no table size); storing
  any pair through it then dereferences the NULL table.\<close>

theorem set_entries_without_table_faults:
  assumes "ez_nvram e = None" and "ll_rep cmp h l (d # ds)" and "np_n d \<noteq> None"
  shows "ezcfg_common_set_nvram_entries lk ulk e l h = None"
proof -
  have "ezcfg_linked_list_get_length l = int (Suc (length ds))"
    using ll_rep_length [OF assms(2)] by (simp add: ezcfg_linked_list_get_length_def)
  moreover have "ezcfg_linked_list_get_node_data_by_index l 1 h = Some (Some d)"
    using get_by_index_refines [OF assms(2), of 1] by simp
  ultimately show ?thesis using assms(1,3)
    by (auto simp: ezcfg_common_set_nvram_entries_def Let_def nat_add_distrib)
qed

theorem set_entries_without_table_faults_witness:
  "\<exists>l h. ll_rep (\<lambda>_ _. 1) h l [\<lparr>np_n = Some ''ip'', np_v = Some ''1'', np_nlen = 3, np_vlen = 2\<rparr>] \<and>
     ezcfg_common_set_nvram_entries (\<lambda>_. (0, 0)) (\<lambda>_. (0, 0))
       \<lparr>ez_log_file = [], ez_meta = None, ez_meta_live = True, ez_nvram = None\<rparr> l h = None"
proof -
  let ?d = "\<lparr>np_n = Some ''ip'', np_v = Some ''1'', np_nlen = 3, np_vlen = 2\<rparr>"
  let ?h = "\<lparr>cells = [0 \<mapsto> \<lparr>ln_data = Some ?d, ln_next = None\<rparr>], brk = 1, oom = (\<lambda>_. False), dlog = []\<rparr>"
  let ?l = "\<lparr>ll_length = 1, ll_head = Some 0, ll_tail = Some 0, ll_del = True, ll_cmp = Some (\<lambda>_ _. 1)\<rparr>"
  have "ll_rep (\<lambda>_ _. 1) ?h ?l [?d]"
    by (rule ll_repI [of _ _ _ "[(0, ?d)]"]) (simp_all add: ll_rep_at_def heap_ok_def)
  with set_entries_without_table_faults [OF _ this, of
      "\<lparr>ez_log_file = [], ez_meta = None, ez_meta_live = True, ez_nvram = None\<rparr>"]
  show ?thesis by fastforce
qed

end
