(* ===== verification/Util_Base64.thy ===== *)
theory Util_Base64
  imports Ez_Prelude
begin

text \<open>
  Base64 of \<^verbatim>\<open>src/util/util_base64.c\<close>.  Bytes are \<^typ>\<open>8 word\<close>s; as in C the arithmetic is done after
  promotion to 32 bits.  The encoder and decoder write into a buffer of \<open>dst_len\<close> bytes and return
  the count, or -1; the model returns the bytes before the final NUL, or \<^term>\<open>Inl\<close> of the code.
  A source byte beyond the decode table is a read outside the array, \<^term>\<open>None\<close>.
\<close>

unbundle bit_operations_syntax

section \<open>Tables\<close>

definition b64_encode_table :: string where
  "b64_encode_table = ''ABCDEFGHIJKLMNOPQRSTUVWXYZabcdefghijklmnopqrstuvwxyz0123456789+/''"

definition b64_decode_table :: "nat list" where
  "b64_decode_table = replicate 43 0 @ [62] @ replicate 3 0 @ [63] @ [52..<62] @ replicate 7 0 @
     [0..<26] @ replicate 6 0 @ [26..<52]"

definition b64_enc :: "32 word \<Rightarrow> 8 word" where
  "b64_enc i = of_nat (of_char (b64_encode_table ! unat i))"

definition b64_dec :: "8 word \<Rightarrow> 32 word option" where
  "b64_dec c = (if unat c < length b64_decode_table then Some (of_nat (b64_decode_table ! unat c)) else None)"

definition b64_pad :: "8 word" where
  "b64_pad = of_nat (of_char (CHR ''=''))"

section \<open>Encoding\<close>

definition b64_group3 :: "32 word \<Rightarrow> 32 word \<Rightarrow> 32 word \<Rightarrow> 8 word list" where
  "b64_group3 c0 c1 c2 =
     [b64_enc (drop_bit 2 c0),
      b64_enc ((push_bit 4 c0 OR drop_bit 4 c1) AND 0x3f),
      b64_enc ((push_bit 2 c1 OR drop_bit 6 c2) AND 0x3f),
      b64_enc (c2 AND 0x3f)]"

definition b64_group1 :: "32 word \<Rightarrow> 8 word list" where
  "b64_group1 c0 = [b64_enc (drop_bit 2 (c0 AND 0xfc)), b64_enc (push_bit 4 (c0 AND 0x03)), b64_pad, b64_pad]"

definition b64_group2 :: "32 word \<Rightarrow> 32 word \<Rightarrow> 8 word list" where
  "b64_group2 c0 c1 =
     [b64_enc (drop_bit 2 (c0 AND 0xfc)),
      b64_enc (push_bit 4 (c0 AND 0x03) OR drop_bit 4 (c1 AND 0xf0)),
      b64_enc (push_bit 2 (c1 AND 0x0f)), b64_pad]"

fun b64_encode_loop :: "8 word list \<Rightarrow> 8 word list" where
  "b64_encode_loop (c0 # c1 # c2 # src) = b64_group3 (ucast c0) (ucast c1) (ucast c2) @ b64_encode_loop src"
| "b64_encode_loop [c0, c1] = b64_group2 (ucast c0) (ucast c1)"
| "b64_encode_loop [c0] = b64_group1 (ucast c0)"
| "b64_encode_loop [] = []"

definition ezcfg_util_base64_encode :: "8 word list \<Rightarrow> nat \<Rightarrow> int + 8 word list" where
  "ezcfg_util_base64_encode src dst_len =
     (let b64_div = length src div 3; b64_mod = length src mod 3 in
      if dst_len < (b64_div + (b64_mod + 2) div 3) * 4 + 1 then Inl (-1)
      else Inr (b64_encode_loop src))"

section \<open>Decoding\<close>

text \<open>One round reads at most four bytes and leaves the source pointer on the padding it stops at;
  the loop makes one round per four bytes of the length.\<close>

definition b64_decode_group :: "8 word list \<Rightarrow> (8 word list \<times> 8 word list) option" where
  "b64_decode_group src = (case src of
      a # b # src2 \<Rightarrow> do {
        x \<leftarrow> b64_dec a;
        y \<leftarrow> b64_dec b;
        let val = push_bit 18 x + push_bit 12 y;
            d0 = ucast (drop_bit 16 (val AND 0x00ff0000)) in
        case src2 of
          [] \<Rightarrow> None
        | c # src3 \<Rightarrow>
            if c = b64_pad then Some ([d0], src2)
            else do {
              z \<leftarrow> b64_dec c;
              let val = val + push_bit 6 z;
                  d1 = ucast (drop_bit 8 (val AND 0x0000ff00)) in
              case src3 of
                [] \<Rightarrow> None
              | d # src4 \<Rightarrow>
                  if d = b64_pad then Some ([d0, d1], src3)
                  else do {
                    w \<leftarrow> b64_dec d;
                    Some ([d0, d1, ucast ((val + w) AND 0x000000ff)], src4)
                  }
            }
      }
    | _ \<Rightarrow> None)"

fun b64_decode_loop :: "nat \<Rightarrow> 8 word list \<Rightarrow> 8 word list option" where
  "b64_decode_loop 0 src = Some []"
| "b64_decode_loop (Suc k) src = do {
     (ds, src') \<leftarrow> b64_decode_group src;
     rest \<leftarrow> b64_decode_loop k src';
     Some (ds @ rest)
   }"

definition ezcfg_util_base64_decode :: "8 word list \<Rightarrow> nat \<Rightarrow> (int + 8 word list) option" where
  "ezcfg_util_base64_decode src dst_len =
     (if length src mod 4 \<noteq> 0 then Some (Inl (-1))
      else if dst_len < (length src div 4) * 3 + 1 then Some (Inl (-1))
      else map_option Inr (b64_decode_loop (length src div 4) src))"

section \<open>The tables are inverse\<close>

lemma b64_decode_length [simp]: "length b64_decode_table = 123"
  by (simp add: b64_decode_table_def)

lemma b64_encode_length [simp]: "length b64_encode_table = 64"
  by (simp add: b64_encode_table_def)

lemma b64_tables_inverse: "map (\<lambda>c. b64_decode_table ! of_char c) b64_encode_table = [0..<64]"
  unfolding b64_encode_table_def b64_decode_table_def by (simp add: nth_append upt_rec)

lemma b64_table_chars: "list_all (\<lambda>c. of_char c < (123::nat) \<and> of_char c \<noteq> (61::nat)) b64_encode_table"
  by (simp add: b64_encode_table_def)

lemma b64_tables:
  assumes "k < 64"
  shows "of_char (b64_encode_table ! k) < (123::nat)" "of_char (b64_encode_table ! k) \<noteq> (61::nat)"
    "b64_decode_table ! of_char (b64_encode_table ! k) = k"
proof -
  show "of_char (b64_encode_table ! k) < (123::nat)" "of_char (b64_encode_table ! k) \<noteq> (61::nat)"
    using b64_table_chars assms by (simp_all add: list_all_length)
  have "map (\<lambda>c. b64_decode_table ! of_char c) b64_encode_table ! k = k"
    using assms unfolding b64_tables_inverse by simp
  then show "b64_decode_table ! of_char (b64_encode_table ! k) = k" using assms by simp
qed

lemma b64_dec_enc:
  assumes "unat i < 64"
  shows "b64_dec (b64_enc i) = Some i" "b64_enc i \<noteq> b64_pad"
proof -
  define c :: nat where "c = of_char (b64_encode_table ! unat i)"
  have c: "c < length b64_decode_table" "b64_decode_table ! c = unat i" "c < 256" "c \<noteq> 61"
    using b64_tables [OF assms] unfolding c_def by simp_all
  have u: "unat (of_nat c :: 8 word) = c" using c(3) by (simp add: unat_of_nat take_bit_eq_mod)
  show "b64_dec (b64_enc i) = Some i"
    unfolding b64_enc_def b64_dec_def c_def [symmetric] u using c(1,2) by simp
  have "unat b64_pad = 61" by (simp add: b64_pad_def)
  then show "b64_enc i \<noteq> b64_pad" unfolding b64_enc_def c_def [symmetric] using u c(4) by metis
qed

lemma small6: "i = take_bit 6 i \<Longrightarrow> unat (i :: 32 word) < 64"
  using unsigned_take_bit_eq [of 6 i, where 'a = nat] take_bit_nat_less_exp [of 6 "unat i"] by simp

section \<open>One group\<close>

definition byte :: "32 word \<Rightarrow> bool" where
  "byte c \<longleftrightarrow> c = take_bit 8 c"

lemma byte_ucast [simp]: "byte (ucast (c :: 8 word))"
  unfolding byte_def by (rule bit_word_eqI) (auto simp: bit_simps dest: bit_imp_le_length)

lemma byte_bit: "byte c \<Longrightarrow> bit c n \<Longrightarrow> n < 8"
  unfolding byte_def by (metis bit_take_bit_iff)

lemma b64_masks:
  "(x :: 32 word) AND 0x3f = take_bit 6 x" "x AND 0x03 = take_bit 2 x" "x AND 0x0f = take_bit 4 x"
  "x AND 0x000000ff = take_bit 8 x"
  "x AND 0xfc = x AND push_bit 2 (mask 6)" "x AND 0xf0 = x AND push_bit 4 (mask 4)"
  "x AND 0x0000ff00 = x AND push_bit 8 (mask 8)" "x AND 0x00ff0000 = x AND push_bit 16 (mask 8)"
  by (simp_all add: take_bit_eq_mask mask_eq_exp_minus_1 push_bit_eq_mult)

lemma disjoint_add: "(\<And>n. \<not> (bit x n \<and> bit y n)) \<Longrightarrow> x + y = x OR (y :: 32 word)"
  by (rule disjunctive_add_eq_or) (auto simp: bit_eq_iff bit_simps)

lemma b64_val3:
  assumes "x = take_bit 6 x" "y = take_bit 6 y" "z = take_bit 6 z" "w = take_bit 6 (w :: 32 word)"
  shows "push_bit 18 x + push_bit 12 y = push_bit 18 x OR push_bit 12 y"
    "(push_bit 18 x OR push_bit 12 y) + push_bit 6 z = push_bit 18 x OR push_bit 12 y OR push_bit 6 z"
    "(push_bit 18 x OR push_bit 12 y OR push_bit 6 z) + w = push_bit 18 x OR push_bit 12 y OR push_bit 6 z OR w"
proof -
  have b: "bit x n \<Longrightarrow> n < 6" "bit y n \<Longrightarrow> n < 6" "bit z n \<Longrightarrow> n < 6" "bit w n \<Longrightarrow> n < 6" for n
    using assms by (metis bit_take_bit_iff)+
  show "push_bit 18 x + push_bit 12 y = push_bit 18 x OR push_bit 12 y"
    by (rule disjoint_add) (auto simp: bit_simps dest: b)
  show "(push_bit 18 x OR push_bit 12 y) + push_bit 6 z = push_bit 18 x OR push_bit 12 y OR push_bit 6 z"
    by (subst disjoint_add) (auto simp: bit_simps or.assoc dest: b)
  show "(push_bit 18 x OR push_bit 12 y OR push_bit 6 z) + w = push_bit 18 x OR push_bit 12 y OR push_bit 6 z OR w"
    by (subst disjoint_add) (auto simp: bit_simps or.assoc dest: b)
qed

lemma six_bits:
  "byte c \<Longrightarrow> drop_bit 2 c = take_bit 6 (drop_bit 2 c)"
  "take_bit 6 (c :: 32 word) = take_bit 6 (take_bit 6 c)"
  by (rule bit_word_eqI, auto simp: bit_simps dest: byte_bit)

lemma bit8_out: "8 \<le> n \<Longrightarrow> \<not> bit (c :: 8 word) n"
  using bit_imp_le_length [of c n] by auto

lemma byte_eqI:
  assumes "\<And>n. n \<in> {0, 1, 2, 3, 4, 5, 6, 7} \<Longrightarrow> bit a n = bit (b :: 8 word) n"
  shows "a = b"
proof (rule bit_word_eqI)
  fix n :: nat
  assume "n < LENGTH(8)"
  then have "n \<in> {0, 1, 2, 3, 4, 5, 6, 7}" by auto
  then show "bit a n = bit b n" by (rule assms)
qed

lemma b64_recombine:
  fixes c0 c1 c2 :: "8 word"
  defines "x \<equiv> drop_bit 2 (ucast c0 :: 32 word)"
    and "y \<equiv> take_bit 6 (push_bit 4 (ucast c0) OR drop_bit 4 (ucast c1) :: 32 word)"
    and "z \<equiv> take_bit 6 (push_bit 2 (ucast c1) OR drop_bit 6 (ucast c2) :: 32 word)"
    and "w \<equiv> take_bit 6 (ucast c2 :: 32 word)"
  shows "ucast (drop_bit 16 ((push_bit 18 x OR push_bit 12 y) AND push_bit 16 (mask 8))) = c0"
    "ucast (drop_bit 8 ((push_bit 18 x OR push_bit 12 y OR push_bit 6 z) AND push_bit 8 (mask 8))) = c1"
    "ucast (take_bit 8 (push_bit 18 x OR push_bit 12 y OR push_bit 6 z OR w)) = c2"
  unfolding assms
  by (rule byte_eqI, elim insertE; simp add: bit_simps bit8_out)+

lemma b64_partial_groups:
  "b64_group2 (ucast (c0 :: 8 word)) (ucast (c1 :: 8 word)) =
     take 3 (b64_group3 (ucast c0) (ucast c1) (ucast (0 :: 8 word))) @ [b64_pad]"
  "b64_group1 (ucast (c0 :: 8 word)) =
     take 2 (b64_group3 (ucast c0) (ucast (0 :: 8 word)) (ucast (0 :: 8 word))) @ [b64_pad, b64_pad]"
proof -
  have a: "drop_bit 2 (x AND 0xfc) = drop_bit 2 x" if "byte x" for x :: "32 word"
    unfolding b64_masks using that by (intro bit_word_eqI) (auto simp: bit_simps dest: byte_bit)
  have b: "push_bit 4 (x AND 0x03) = (push_bit 4 x) AND 0x3f" for x :: "32 word"
    unfolding b64_masks by (rule bit_word_eqI) (auto simp: bit_simps)
  have c: "push_bit 4 (x AND 0x03) OR drop_bit 4 (y AND 0xf0) = (push_bit 4 x OR drop_bit 4 y) AND 0x3f"
    if "byte y" for x y :: "32 word"
    unfolding b64_masks using that by (intro bit_word_eqI) (auto simp: bit_simps dest: byte_bit)
  have d: "push_bit 2 (x AND 0x0f) = (push_bit 2 x OR drop_bit 6 (ucast (0 :: 8 word))) AND 0x3f" for x :: "32 word"
    unfolding b64_masks by (rule bit_word_eqI) (auto simp: bit_simps)
  have b': "push_bit 4 (x AND 0x03) = (push_bit 4 x OR drop_bit 4 (ucast (0 :: 8 word))) AND 0x3f" for x :: "32 word"
    using b [of x] by simp
  show "b64_group2 (ucast c0) (ucast c1) =
      take 3 (b64_group3 (ucast c0) (ucast c1) (ucast (0 :: 8 word))) @ [b64_pad]"
    unfolding b64_group2_def b64_group3_def a [OF byte_ucast] c [OF byte_ucast] d by simp
  show "b64_group1 (ucast c0) =
      take 2 (b64_group3 (ucast c0) (ucast (0 :: 8 word)) (ucast (0 :: 8 word))) @ [b64_pad, b64_pad]"
    unfolding b64_group1_def b64_group3_def a [OF byte_ucast] b' by simp
qed

lemma b64_decode_group_vals:
  assumes "b64_dec a = Some x" "b64_dec b = Some y"
  shows "b64_decode_group (a # b # b64_pad # src) =
      Some ([ucast (drop_bit 16 ((push_bit 18 x + push_bit 12 y) AND 0x00ff0000))], b64_pad # src)"
    and "b64_dec c = Some z \<Longrightarrow> c \<noteq> b64_pad \<Longrightarrow> b64_decode_group (a # b # c # b64_pad # src) =
      Some ([ucast (drop_bit 16 ((push_bit 18 x + push_bit 12 y) AND 0x00ff0000)),
             ucast (drop_bit 8 ((push_bit 18 x + push_bit 12 y + push_bit 6 z) AND 0x0000ff00))], b64_pad # src)"
    and "b64_dec c = Some z \<Longrightarrow> c \<noteq> b64_pad \<Longrightarrow> b64_dec d = Some w \<Longrightarrow> d \<noteq> b64_pad \<Longrightarrow>
      b64_decode_group (a # b # c # d # src) =
      Some ([ucast (drop_bit 16 ((push_bit 18 x + push_bit 12 y) AND 0x00ff0000)),
             ucast (drop_bit 8 ((push_bit 18 x + push_bit 12 y + push_bit 6 z) AND 0x0000ff00)),
             ucast ((push_bit 18 x + push_bit 12 y + push_bit 6 z + w) AND 0x000000ff)], src)"
  using assms by (simp_all only: b64_decode_group_def list.case Let_def Option.bind_eq_Some_conv bind.bind_lunit if_False if_True refl)

lemma b64_decode_groups:
  fixes c0 c1 c2 :: "8 word"
  shows "b64_decode_group (b64_group3 (ucast c0) (ucast c1) (ucast c2) @ src) = Some ([c0, c1, c2], src)"
    "b64_decode_group (b64_group2 (ucast c0) (ucast c1) @ src) = Some ([c0, c1], b64_pad # src)"
    "b64_decode_group (b64_group1 (ucast c0) @ src) = Some ([c0], b64_pad # b64_pad # src)"
proof -
  have s: "b64_dec (b64_enc (take_bit 6 x)) = Some (take_bit 6 x)" "b64_enc (take_bit 6 x) \<noteq> b64_pad" for x
    using b64_dec_enc [of "take_bit 6 x"] small6 [of "take_bit 6 x"] by simp_all
  have t: "b64_dec (b64_enc (drop_bit 2 (ucast c))) = Some (drop_bit 2 (ucast c))" for c :: "8 word"
    using s(1) [of "drop_bit 2 (ucast c)"] six_bits(1) [of "ucast c"] by simp
  note v = b64_val3 [OF six_bits(1) [OF byte_ucast] six_bits(2) six_bits(2) six_bits(2)]
  have tk: "take 3 [p, q, r', u] = [p, q, r']" "take 2 [p, q, r', u] = [p, q]" for p q r' u :: "8 word"
    by simp_all
  note g = b64_decode_group_vals [OF t s(1), unfolded b64_masks v]
  show "b64_decode_group (b64_group3 (ucast c0) (ucast c1) (ucast c2) @ src) = Some ([c0, c1, c2], src)"
    unfolding b64_group3_def b64_masks append_Cons append_Nil
    unfolding g(3) [OF s s, unfolded v] b64_recombine ..
  show "b64_decode_group (b64_group2 (ucast c0) (ucast c1) @ src) = Some ([c0, c1], b64_pad # src)"
    unfolding b64_partial_groups b64_group3_def b64_masks tk append_Cons append_Nil
    unfolding g(2) [OF s, unfolded v] b64_recombine ..
  show "b64_decode_group (b64_group1 (ucast c0) @ src) = Some ([c0], b64_pad # b64_pad # src)"
    unfolding b64_partial_groups b64_group3_def b64_masks tk append_Cons append_Nil
    unfolding g(1) b64_recombine ..
qed

lemma b64_group_lengths [simp]:
  "length (b64_group3 a b c) = 4" "length (b64_group2 a b) = 4" "length (b64_group1 a) = 4"
  by (simp_all add: b64_group3_def b64_group2_def b64_group1_def)

lemma b64_encode_length_groups:
  "length (b64_encode_loop src) = 4 * (length src div 3 + (length src mod 3 + 2) div 3)"
proof (induction src rule: b64_encode_loop.induct)
  case (1 c0 c1 c2 src)
  have "length (c0 # c1 # c2 # src) div 3 = Suc (length src div 3)"
    "length (c0 # c1 # c2 # src) mod 3 = length src mod 3" by simp_all
  then show ?case using 1 by (simp del: length_Cons)
qed simp_all

lemma b64_decode_encode_loop:
  "b64_decode_loop (length (b64_encode_loop src) div 4) (b64_encode_loop src) = Some src"
proof (induction src rule: b64_encode_loop.induct)
  case (1 c0 c1 c2 src)
  have "length (b64_encode_loop (c0 # c1 # c2 # src)) div 4 = Suc (length (b64_encode_loop src) div 4)" by simp
  then show ?case using 1 b64_decode_groups(1) [of c0 c1 c2 "b64_encode_loop src"] by simp
next
  case (2 c0 c1)
  have "length (b64_encode_loop [c0, c1]) div 4 = Suc 0" by simp
  then show ?case using b64_decode_groups(2) [of c0 c1 "[]"] by simp
next
  case (3 c0)
  have "length (b64_encode_loop [c0]) div 4 = Suc 0" by simp
  then show ?case using b64_decode_groups(3) [of c0 "[]"] by simp
qed simp

section \<open>Property\<close>

lemma base64_codec:
  assumes "4 * ((length src + 2) div 3) + 1 \<le> n" and "3 * ((length src + 2) div 3) + 1 \<le> k"
  shows "\<exists>dst. ezcfg_util_base64_encode src n = Inr dst \<and> length dst = 4 * ((length src + 2) div 3) \<and>
    ezcfg_util_base64_decode dst k = Some (Inr src)"
proof -
  have e: "length src div 3 + (length src mod 3 + 2) div 3 = (length src + 2) div 3"
    by presburger
  let ?dst = "b64_encode_loop src"
  have len: "length ?dst = 4 * ((length src + 2) div 3)" using b64_encode_length_groups [of src] e by simp
  then have "ezcfg_util_base64_decode ?dst k = Some (Inr src)"
    using assms(2) b64_decode_encode_loop [of src] by (simp add: ezcfg_util_base64_decode_def mult.commute)
  moreover have "ezcfg_util_base64_encode src n = Inr ?dst"
    using assms(1) e by (simp add: ezcfg_util_base64_encode_def Let_def mult.commute)
  ultimately show ?thesis using len by blast
qed

text \<open>C15: encoding any byte string into a buffer of the size the code asks for succeeds, writes
  exactly that many bytes less the final NUL, and decoding the result into a buffer of the size
  the decoder asks for gives the byte string back without leaving the decode table.\<close>

theorem base64_roundtrip:
  assumes "4 * ((length src + 2) div 3) + 1 \<le> n" and "3 * ((length src + 2) div 3) + 1 \<le> k"
  shows "\<exists>dst. ezcfg_util_base64_encode src n = Inr dst \<and> length dst = 4 * ((length src + 2) div 3) \<and>
    ezcfg_util_base64_decode dst k = Some (Inr src)"
  using assms by (rule base64_codec)

theorem base64_roundtrip_witness:
  "\<exists>dst. ezcfg_util_base64_encode [77, 97, 110, 33] 9 = Inr dst \<and> length dst = 8 \<and>
     ezcfg_util_base64_decode dst 7 = Some (Inr [77, 97, 110, 33])"
  using base64_roundtrip [of "[77, 97, 110, 33]" 9 7] by simp

end
