(* ===== verification/Util_Text.thy ===== *)
theory Util_Text
  imports Ez_Prelude
begin

text \<open>
  String utilities of \<^verbatim>\<open>src/util\<close>: escaping for JavaScript string literals, URL decoding and path
  cleaning, argument splitting, trimming, and the reader of section files.
\<close>

section \<open>util\_javascript\_var\_escaped.c\<close>

definition IS_ESCAPED_CHAR :: "char \<Rightarrow> bool" where
  "IS_ESCAPED_CHAR c \<longleftrightarrow> c = CHR 0x5C \<or> c = CHR 0x27"

fun var_escaped_loop :: "int \<Rightarrow> string \<Rightarrow> int" where
  "var_escaped_loop len [] = len"
| "var_escaped_loop len (c # s) = var_escaped_loop ((if IS_ESCAPED_CHAR c then len + 1 else len) + 1) s"

definition var_escaped_length :: "string \<Rightarrow> int" where
  "var_escaped_length s = var_escaped_loop 0 s + 1"

fun escape_copy :: "string \<Rightarrow> string" where
  "escape_copy [] = []"
| "escape_copy (c # s) = (if IS_ESCAPED_CHAR c then [CHR 0x5C] else []) @ c # escape_copy s"

text \<open>The block has \<^verbatim>\<open>len\<close> bytes; writing the text and its NUL past it is a fault.\<close>

definition ezcfg_util_javascript_var_escaped :: "bool \<Rightarrow> string option \<Rightarrow> string option option" where
  "ezcfg_util_javascript_var_escaped mem src = (case src of
      None \<Rightarrow> Some None
    | Some s \<Rightarrow>
        let len = var_escaped_length s in
        if len < 1 then Some None
        else if \<not> mem then Some None
        else if int (length (escape_copy s)) + 1 \<le> len then Some (Some (escape_copy s)) else None)"

section \<open>util\_url.c\<close>

definition isdigit :: "nat \<Rightarrow> bool" where
  "isdigit c \<longleftrightarrow> 48 \<le> c \<and> c \<le> 57"

definition isxdigit :: "nat \<Rightarrow> bool" where
  "isxdigit c \<longleftrightarrow> isdigit c \<or> 65 \<le> c \<and> c \<le> 70 \<or> 97 \<le> c \<and> c \<le> 102"

definition tolower :: "nat \<Rightarrow> nat" where
  "tolower c = (if 65 \<le> c \<and> c \<le> 90 then c + 32 else c)"

definition HEXTOI :: "nat \<Rightarrow> nat" where
  "HEXTOI x = (if isdigit x then x - 48 else x - 87)"

text \<open>\<open>src\<close> is the NUL-terminated text, of which the first \<open>src_len\<close> bytes are decoded; the two bytes
  behind a percent sign are read even beyond \<open>src_len\<close>.  At most \<open>room = dst_len - 1\<close> bytes are
  written before the NUL.\<close>

function url_decode_loop :: "string \<Rightarrow> nat \<Rightarrow> nat \<Rightarrow> nat \<Rightarrow> bool \<Rightarrow> string" where
  "url_decode_loop src src_len i room form =
     (if i < src_len \<and> 0 < room then
        let c = char_at src i; h = of_char (char_at src (i + 1)); l = of_char (char_at src (i + 2)) in
        if c = CHR ''%'' \<and> isxdigit h \<and> isxdigit l
        then char_of (HEXTOI (tolower h) * 16 + HEXTOI (tolower l)) #
               url_decode_loop src src_len (i + 3) (room - 1) form
        else (if form \<and> c = CHR ''+'' then CHR '' '' else c) #
               url_decode_loop src src_len (i + 1) (room - 1) form
      else [])"
  by pat_completeness auto
termination
  by (relation "measure (\<lambda>(src, src_len, i, room, form). room)") auto

declare url_decode_loop.simps [simp del]

definition ezcfg_util_url_decode :: "string \<Rightarrow> nat \<Rightarrow> nat \<Rightarrow> bool \<Rightarrow> nat \<times> string" where
  "ezcfg_util_url_decode src src_len dst_len form =
     (let dst = url_decode_loop src src_len 0 (dst_len - 1) form in (length dst, dst))"

definition is_slash :: "char \<Rightarrow> bool" where
  "is_slash c \<longleftrightarrow> c = CHR ''/'' \<or> c = CHR 0x5C"

fun skip_slashes :: "string \<Rightarrow> string" where
  "skip_slashes [] = []"
| "skip_slashes (c # s) = (if is_slash c then skip_slashes s else c # s)"

fun skip_double_dots :: "string \<Rightarrow> string" where
  "skip_double_dots (c # d # s) =
     (if c = CHR ''.'' \<and> d = CHR ''.'' then skip_double_dots s else c # d # s)"
| "skip_double_dots s = s"

lemma skip_slashes_length: "length (skip_slashes s) \<le> length s"
  by (induction s) auto

lemma skip_double_dots_length: "length (skip_double_dots s) \<le> length s"
  by (induction s rule: skip_double_dots.induct) auto

text \<open>The text is rewritten in place; the write position never passes the read position.\<close>

function ezcfg_util_url_remove_double_dots_and_double_slashes :: "string \<Rightarrow> string" where
  "ezcfg_util_url_remove_double_dots_and_double_slashes [] = []"
| "ezcfg_util_url_remove_double_dots_and_double_slashes (c # s) =
     c # ezcfg_util_url_remove_double_dots_and_double_slashes
       (if is_slash c then skip_double_dots (skip_slashes s) else s)"
  by pat_completeness auto
termination
  by (relation "measure length")
    (auto simp: less_Suc_eq_le intro: order_trans [OF skip_double_dots_length skip_slashes_length])

section \<open>util\_parse\_args.c\<close>

definition EZCFG_CTRL_MAX_ARGS :: nat where "EZCFG_CTRL_MAX_ARGS = 8"

definition IS_BLANK :: "char \<Rightarrow> bool" where
  "IS_BLANK c \<longleftrightarrow> c = CHR '' ''"

text \<open>The loop with the remaining text \<open>p\<close> and the arguments found so far; an argument is the text
  from its start to the NUL that the next round writes over the blank behind it.\<close>

function parse_args_loop :: "string list \<Rightarrow> string \<Rightarrow> string list \<times> string" where
  "parse_args_loop argv p =
     (if length argv < EZCFG_CTRL_MAX_ARGS - 1 \<and> p \<noteq> [] then
        let q = dropWhile IS_BLANK p in
        if q = [] then (argv, q)
        else parse_args_loop (argv @ [takeWhile (\<lambda>c. \<not> IS_BLANK c) q]) (dropWhile (\<lambda>c. \<not> IS_BLANK c) q)
      else (argv, p))"
  by pat_completeness auto
termination
  by (relation "measure (\<lambda>(argv, p). EZCFG_CTRL_MAX_ARGS - length argv)") auto

declare parse_args_loop.simps [simp del]

definition ezcfg_util_parse_args :: "string \<Rightarrow> int \<times> string list" where
  "ezcfg_util_parse_args buf =
     (let (argv, p) = parse_args_loop [] buf in
      if p \<noteq> [] then (-1, argv) else (int (length argv), argv))"

section \<open>util.c: trimming\<close>

function trailing_loop :: "(char \<Rightarrow> bool) \<Rightarrow> nat \<Rightarrow> string \<Rightarrow> string" where
  "trailing_loop P len s =
     (if 0 < len \<and> P (s ! (len - 1)) then trailing_loop P (len - 1) (take (len - 1) s) else s)"
  by pat_completeness auto
termination
  by (relation "measure (\<lambda>(P, len, s). len)") auto

declare trailing_loop.simps [simp del]

definition ezcfg_util_remove_trailing_char :: "string \<Rightarrow> char \<Rightarrow> string" where
  "ezcfg_util_remove_trailing_char s c = trailing_loop (\<lambda>x. x = c) (length s) s"

definition ezcfg_util_remove_trailing_charlist :: "string \<Rightarrow> string \<Rightarrow> string" where
  "ezcfg_util_remove_trailing_charlist s l = trailing_loop (\<lambda>x. strchr l x \<noteq> None) (length s) s"

definition ezcfg_util_skip_leading_char :: "string \<Rightarrow> char \<Rightarrow> string" where
  "ezcfg_util_skip_leading_char s c = (if c = NUL then s else dropWhile (\<lambda>x. x = c) s)"

definition ezcfg_util_skip_leading_charlist :: "string \<Rightarrow> string option \<Rightarrow> string" where
  "ezcfg_util_skip_leading_charlist s l =
     (case l of None \<Rightarrow> s | Some l \<Rightarrow> dropWhile (\<lambda>x. strchr l x \<noteq> None) s)"

section \<open>util\_conf.c\<close>

definition EZCFG_EZCFG_TRAILING_CHARLIST :: string where
  "EZCFG_EZCFG_TRAILING_CHARLIST = [CHR 0x0D, CHR 0x0A, CHR 0x09, CHR '' '']"

text \<open>\<^verbatim>\<open>fgets\<close> with a buffer of \<open>n + 1\<close> bytes: up to and including the next line feed, at most \<open>n\<close>
  characters; \<^term>\<open>None\<close> at the end of the file.\<close>

fun fgets_take :: "nat \<Rightarrow> string \<Rightarrow> string \<times> string" where
  "fgets_take 0 f = ([], f)"
| "fgets_take (Suc n) [] = ([], [])"
| "fgets_take (Suc n) (c # f) =
     (if c = CHR 0x0A then ([c], f) else let (l, r) = fgets_take n f in (c # l, r))"

definition fgets :: "nat \<Rightarrow> string \<Rightarrow> (string \<times> string) option" where
  "fgets bufsz f = (if f = [] then None else Some (fgets_take (bufsz - 1) f))"

lemma fgets_take_le: "length (snd (fgets_take n f)) \<le> length f"
proof (induction n f rule: fgets_take.induct)
  case (3 n c f)
  then show ?case by (cases "fgets_take n f") auto
qed auto

lemma fgets_take_length: "f \<noteq> [] \<Longrightarrow> length (snd (fgets_take (Suc n) f)) < length f"
  using fgets_take_le [of n "tl f"] by (cases f; cases "fgets_take n (tl f)") auto

lemma fgets_length: "fgets 128 f = Some (l, r) \<Longrightarrow> length r < length f"
  using fgets_take_length [of f 126] by (auto simp: fgets_def eval_nat_numeral split: if_splits)

text \<open>The first loop: the rest of the file behind the \<open>idx\<close>-th header of the section, with the
  counter \<open>i\<close>; the flag tells that \<^verbatim>\<open>i == idx\<close> at the end.\<close>

function conf_section_loop :: "string \<Rightarrow> int \<Rightarrow> int \<Rightarrow> string \<Rightarrow> bool \<times> string" where
  "conf_section_loop sect idx i f = (case fgets 128 f of
      None \<Rightarrow> (i = idx, f)
    | Some (line, r) \<Rightarrow>
        let i' = (if peek line = CHR ''['' \<and> strncmp (drop 1 line) sect (length sect) = 0 \<and>
                    char_at line (length sect + 1) = CHR '']'' then i + 1 else i)
        in if i' = idx then (True, r) else conf_section_loop sect idx i' r)"
  by pat_completeness auto
termination
  by (relation "measure (\<lambda>(sect, idx, i, f). length f)") (auto dest: fgets_length)

declare conf_section_loop.simps [simp del]

function conf_keyword_loop :: "string \<Rightarrow> string \<Rightarrow> string option" where
  "conf_keyword_loop keyword f = (case fgets 128 f of
      None \<Rightarrow> None
    | Some (line, r) \<Rightarrow>
        if peek line = CHR ''['' then None
        else if strncmp line keyword (length keyword) = 0 \<and> char_at line (length keyword) = CHR ''=''
        then Some (ezcfg_util_remove_trailing_charlist (drop (length keyword + 1) line) EZCFG_EZCFG_TRAILING_CHARLIST)
        else conf_keyword_loop keyword r)"
  by pat_completeness auto
termination
  by (relation "measure (\<lambda>(keyword, f). length f)") (auto dest: fgets_length)

declare conf_keyword_loop.simps [simp del]

text \<open>\<open>file\<close> is the content behind \<^verbatim>\<open>path\<close> when it can be opened, \<open>mem\<close> the allocation of the copy.\<close>

definition ezcfg_util_get_conf_string ::
    "bool \<Rightarrow> string option \<Rightarrow> string \<Rightarrow> int \<Rightarrow> string \<Rightarrow> string option" where
  "ezcfg_util_get_conf_string mem file sect idx keyword =
     (if idx < 0 \<or> length sect < 1 \<or> length keyword < 1 \<or> length sect > 125 \<or> length keyword > 126 then None
      else case file of
        None \<Rightarrow> None
      | Some f \<Rightarrow>
          let (found, r) = conf_section_loop sect idx (-1) f in
          if found then (case conf_keyword_loop keyword r of None \<Rightarrow> None | Some v \<Rightarrow> if mem then Some v else None)
          else None)"

section \<open>util\_snprintf\_ns\_name.c\<close>

definition ezcfg_util_snprintf_ns_name :: "nat \<Rightarrow> string option \<Rightarrow> string option \<Rightarrow> int \<times> string option" where
  "ezcfg_util_snprintf_ns_name bufsz ns name =
     (if bufsz < 1 then (EZCFG_RET_FAIL, None)
      else case name of
        None \<Rightarrow> (EZCFG_RET_FAIL, None)
      | Some n \<Rightarrow>
          let s = (case ns of None \<Rightarrow> [] | Some x \<Rightarrow> x) @ n in
          (if length s < bufsz then EZCFG_RET_OK else EZCFG_RET_FAIL, Some (take (bufsz - 1) s)))"

section \<open>Lemmas\<close>

lemma var_escaped_loop_length: "var_escaped_loop len s = len + int (length (escape_copy s))"
  by (induction len s rule: var_escaped_loop.induct) auto

text \<open>A single-quoted JavaScript literal after its opening quote: content and rest.\<close>

fun js_literal :: "string \<Rightarrow> (string \<times> string) option" where
  "js_literal [] = None"
| "js_literal (c # s) =
     (if c = CHR 0x27 then Some ([], s)
      else if c = CHR 0x5C then
        (case s of [] \<Rightarrow> None | d # s' \<Rightarrow> map_option (\<lambda>(u, r). (d # u, r)) (js_literal s'))
      else map_option (\<lambda>(u, r). (c # u, r)) (js_literal s))"

lemma js_literal_escape: "js_literal (escape_copy s @ CHR 0x27 # r) = Some (s, r)"
  by (induction s) (auto simp: IS_ESCAPED_CHAR_def)

text \<open>A parent-directory step behind a slash or backslash.\<close>

definition updir :: "string \<Rightarrow> bool" where
  "updir t \<longleftrightarrow> (\<exists>u c v. t = u @ c # CHR ''.'' # CHR ''.'' # v \<and> is_slash c)"

abbreviation dots :: "string \<Rightarrow> bool" where
  "dots s \<equiv> prefix ''..'' s"

lemma updir_Cons: "updir (c # t) \<longleftrightarrow> is_slash c \<and> dots t \<or> updir t"
proof
  assume "updir (c # t)"
  then obtain u d v where u: "c # t = u @ d # CHR ''.'' # CHR ''.'' # v" "is_slash d" by (auto simp: updir_def)
  then show "is_slash c \<and> dots t \<or> updir t" by (cases u) (auto simp: updir_def)
next
  assume "is_slash c \<and> dots t \<or> updir t"
  then show "updir (c # t)"
  proof
    assume "is_slash c \<and> dots t"
    then obtain v where "c # t = [] @ c # CHR ''.'' # CHR ''.'' # v" "is_slash c" by (auto simp: prefix_def)
    then show ?thesis unfolding updir_def by blast
  next
    assume "updir t"
    then obtain u d v where "c # t = (c # u) @ d # CHR ''.'' # CHR ''.'' # v" "is_slash d" by (auto simp: updir_def)
    then show ?thesis unfolding updir_def by blast
  qed
qed

lemma dot_no_slash [simp]: "\<not> is_slash (CHR ''.'')"
  by (simp add: is_slash_def)

lemma skip_double_dots_none: "\<not> dots (skip_double_dots s)"
  by (induction s rule: skip_double_dots.induct) auto

lemma clean_dots:
  "dots (ezcfg_util_url_remove_double_dots_and_double_slashes s) \<Longrightarrow> dots s"
  by (cases s; cases "tl s") (auto split: if_splits)

lemma clean_no_updir: "\<not> updir (ezcfg_util_url_remove_double_dots_and_double_slashes s)"
proof (induction s rule: ezcfg_util_url_remove_double_dots_and_double_slashes.induct)
  case 1
  then show ?case by (simp add: updir_def)
next
  case (2 c s)
  then show ?case using clean_dots skip_double_dots_none by (auto simp: updir_Cons)
qed

lemma clean_subseq: "subseq (ezcfg_util_url_remove_double_dots_and_double_slashes s) s"
proof (induction s rule: ezcfg_util_url_remove_double_dots_and_double_slashes.induct)
  case (2 c s)
  have a: "subseq (skip_slashes x) x" for x by (induction x) auto
  have b: "subseq (skip_double_dots x) x" for x
    by (induction x rule: skip_double_dots.induct) (auto intro: subseq_order.trans)
  show ?case using 2 subseq_order.trans [OF b a, of s] by (auto intro: subseq_order.trans)
qed simp

section \<open>Arguments\<close>

definition arg_word :: "string \<Rightarrow> bool" where
  "arg_word w \<longleftrightarrow> w \<noteq> [] \<and> list_all (\<lambda>c. \<not> IS_BLANK c) w"

abbreviation blanks :: "string \<Rightarrow> bool" where
  "blanks w \<equiv> list_all IS_BLANK w"

text \<open>Words with blanks before each of them (at least one between two words).\<close>

fun args_text :: "(string \<times> string) list \<Rightarrow> string" where
  "args_text [] = []"
| "args_text ((b, w) # ws) = b @ w @ args_text ws"

fun args_ok :: "(string \<times> string) list \<Rightarrow> bool" where
  "args_ok [] = True"
| "args_ok ((b, w) # ws) \<longleftrightarrow> blanks b \<and> arg_word w \<and> args_ok ws \<and> list_all (\<lambda>(b, w). b \<noteq> []) ws"

lemma dropWhile_blanks: "blanks b \<Longrightarrow> dropWhile IS_BLANK (b @ s) = dropWhile IS_BLANK s"
  by (induction b) auto

lemma takeWhile_word:
  assumes "list_all (\<lambda>c. \<not> IS_BLANK c) w" "s = [] \<or> IS_BLANK (hd s)"
  shows "takeWhile (\<lambda>c. \<not> IS_BLANK c) (w @ s) = w" "dropWhile (\<lambda>c. \<not> IS_BLANK c) (w @ s) = s"
  using assms by (induction w) (cases s; auto)+

lemma args_text_head:
  assumes "args_ok ws" "list_all (\<lambda>(b, w). b \<noteq> []) ws"
  shows "args_text ws @ e = e \<and> ws = [] \<or> args_text ws @ e \<noteq> [] \<and> IS_BLANK (hd (args_text ws @ e))"
proof (cases ws)
  case (Cons bw ws')
  then obtain b w where "bw = (b, w)" "b \<noteq> []" "blanks b" using assms by (cases bw) auto
  then show ?thesis using Cons by (cases b) auto
qed simp

lemma parse_args_all:
  assumes "args_ok ws" "blanks e" "length argv + length ws < EZCFG_CTRL_MAX_ARGS - 1"
  shows "parse_args_loop argv (args_text ws @ e) = (argv @ map snd ws, [])"
  using assms
proof (induction ws arbitrary: argv)
  case Nil
  have "dropWhile IS_BLANK e = []" using Nil(2) dropWhile_blanks [of e "[]"] by simp
  then show ?case using Nil by (simp add: parse_args_loop.simps [of argv e] Let_def)
next
  case (Cons bw ws)
  obtain b w where bw: "bw = (b, w)" by (cases bw)
  have w: "blanks b" "w \<noteq> []" "list_all (\<lambda>c. \<not> IS_BLANK c) w" "args_ok ws" "list_all (\<lambda>(b, w). b \<noteq> []) ws"
    using Cons.prems(1) bw by (auto simp: arg_word_def)
  let ?s = "args_text ws @ e"
  have "?s = [] \<or> IS_BLANK (hd ?s)" using args_text_head [OF w(4,5), of e] Cons.prems(2) by (cases e) auto
  note t = takeWhile_word [OF w(3) this]
  have q: "dropWhile IS_BLANK (args_text (bw # ws) @ e) = w @ ?s"
    using w(2,3) bw dropWhile_blanks [OF w(1), of "w @ ?s"] by (cases w) auto
  have "args_text (bw # ws) @ e \<noteq> []" using w(2) bw by simp
  then have "parse_args_loop argv (args_text (bw # ws) @ e) = parse_args_loop (argv @ [w]) ?s"
    using Cons.prems(3) q t w(2) by (simp add: parse_args_loop.simps [of argv "args_text (bw # ws) @ e"] Let_def)
  then show ?case using Cons.IH [of "argv @ [w]"] Cons.prems w bw by simp
qed

section \<open>Percent encoding\<close>

definition hexdigit :: "nat \<Rightarrow> char" where
  "hexdigit n = char_of (if n < 10 then 48 + n else 87 + n)"

text \<open>A reference encoder: the characters in \<open>P\<close> stay, a blank becomes a plus sign, every other
  byte is escaped.\<close>

fun pct_encode :: "(char \<Rightarrow> bool) \<Rightarrow> string \<Rightarrow> string" where
  "pct_encode P [] = []"
| "pct_encode P (c # s) =
     (if P c \<and> c \<noteq> CHR ''%'' \<and> c \<noteq> CHR ''+'' then [c]
      else if c = CHR '' '' then [CHR ''+'']
      else [CHR ''%'', hexdigit (of_char c div 16), hexdigit (of_char c mod 16)]) @ pct_encode P s"

lemma hexdigit_value:
  assumes "n < 16"
  shows "isxdigit (of_char (hexdigit n))" "HEXTOI (tolower (of_char (hexdigit n))) = n"
proof -
  have "of_char (hexdigit n) = (if n < 10 then 48 + n else 87 + n)"
    using assms by (simp add: hexdigit_def)
  then show "isxdigit (of_char (hexdigit n))" "HEXTOI (tolower (of_char (hexdigit n))) = n"
    using assms by (auto simp: isxdigit_def isdigit_def HEXTOI_def tolower_def)
qed

lemma url_decode_append:
  "length s \<le> room \<Longrightarrow>
     url_decode_loop (u @ pct_encode P s) (length (u @ pct_encode P s)) (length u) room True = s"
proof (induction s arbitrary: u room)
  case Nil
  then show ?case by (simp add: url_decode_loop.simps)
next
  case (Cons c s)
  let ?e = "pct_encode P (c # s)"
  have room: "0 < room" "length s \<le> room - 1" using Cons.prems by auto
  consider (stay) "P c" "c \<noteq> CHR ''%''" "c \<noteq> CHR ''+''"
    | (blank) "\<not> (P c \<and> c \<noteq> CHR ''%'' \<and> c \<noteq> CHR ''+'')" "c = CHR '' ''"
    | (esc) "\<not> (P c \<and> c \<noteq> CHR ''%'' \<and> c \<noteq> CHR ''+'')" "c \<noteq> CHR '' ''" by blast
  then show ?case
  proof cases
    case stay
    then have "?e = [c] @ pct_encode P s" by simp
    then show ?thesis using Cons.IH [OF room(2), of "u @ [c]"] stay room(1)
      by (simp add: url_decode_loop.simps [of "u @ c # pct_encode P s"] char_at_def nth_append Let_def)
  next
    case blank
    then have "?e = [CHR ''+''] @ pct_encode P s" by simp
    then show ?thesis using Cons.IH [OF room(2), of "u @ [CHR ''+'']"] blank(2) room(1)
      by (simp add: url_decode_loop.simps [of "u @ CHR ''+'' # pct_encode P s"] char_at_def nth_append Let_def)
  next
    case esc
    let ?h = "hexdigit (of_char c div 16)" and ?l = "hexdigit (of_char c mod 16)"
    have e: "?e = [CHR ''%'', ?h, ?l] @ pct_encode P s" using esc by auto
    have hx: "of_char c div 16 < (16::nat)" "of_char c mod 16 < (16::nat)"
      by (rule less_mult_imp_div_less) simp_all
    have v: "(char_of (of_char c div 16 * 16 + of_char c mod 16 :: nat) :: char) = c"
      by (simp only: div_mult_mod_eq char_of_char)
    let ?t = "u @ CHR ''%'' # ?h # ?l # pct_encode P s"
    have at: "char_at ?t (length u) = CHR ''%''" "char_at ?t (length u + 1) = ?h" "char_at ?t (length u + 2) = ?l"
      by (simp_all add: char_at_def nth_append)
    have l3: "length u + 3 = length (u @ [CHR ''%'', ?h, ?l])" by simp
    have "url_decode_loop ?t (length ?t) (length u) room True =
        c # url_decode_loop ?t (length ?t) (length (u @ [CHR ''%'', ?h, ?l])) (room - 1) True"
      using room(1) l3
      by (simp only: url_decode_loop.simps [of ?t _ "length u"] Let_def at hexdigit_value [OF hx(1)]
          hexdigit_value [OF hx(2)] v l3) simp
    then show ?thesis using Cons.IH [OF room(2), of "u @ [CHR ''%'', ?h, ?l]"] e by simp
  qed
qed

section \<open>Properties\<close>

text \<open>For every string the escaped text fills the allocated block exactly, and as the body of a
  single-quoted JavaScript literal it ends at the closing quote and denotes the string.\<close>

theorem js_escape_denotes:
  "\<exists>t. ezcfg_util_javascript_var_escaped True (Some s) = Some (Some t) \<and>
     int (length t) + 1 = var_escaped_length s \<and> js_literal (t @ CHR 0x27 # r) = Some (s, r)"
  using var_escaped_loop_length [of 0 s] js_literal_escape [of s r]
  by (simp add: ezcfg_util_javascript_var_escaped_def var_escaped_length_def Let_def)

text \<open>The cleaned path of every request text contains no parent-directory step behind a slash or
  backslash, and is obtained by only deleting characters.\<close>

theorem url_clean_no_updir:
  "\<not> updir (ezcfg_util_url_remove_double_dots_and_double_slashes s) \<and>
     subseq (ezcfg_util_url_remove_double_dots_and_double_slashes s) s"
  using clean_no_updir clean_subseq by blast

text \<open>What is left in: a leading parent step, and two slashes around a removed one.\<close>

lemma url_clean_leftovers:
  "ezcfg_util_url_remove_double_dots_and_double_slashes ''../etc'' = ''../etc''"
  "ezcfg_util_url_remove_double_dots_and_double_slashes ''/..//etc'' = ''//etc''"
  by (simp_all add: is_slash_def)

text \<open>URL decoding of form data inverts percent encoding, whichever characters the encoder leaves
  alone, when the destination has room for the text and its NUL.\<close>

theorem url_decode_inverts_encode:
  assumes "length s < dst_len"
  shows "ezcfg_util_url_decode (pct_encode P s) (length (pct_encode P s)) dst_len True = (length s, s)"
  using url_decode_append [of s "dst_len - 1" "[]" P] assms by (simp add: ezcfg_util_url_decode_def Let_def)

theorem url_decode_inverts_encode_witness:
  "ezcfg_util_url_decode (pct_encode (\<lambda>c. c = CHR ''a'') ''a +%'')
      (length (pct_encode (\<lambda>c. c = CHR ''a'') ''a +%'')) 6 True = (length ''a +%'', ''a +%'')"
  by (rule url_decode_inverts_encode) simp

text \<open>A command line of at most six words, with any number of blanks around them (at least one
  between two words), is split into exactly its words.\<close>

theorem parse_args_words:
  assumes "args_ok ws" and "list_all IS_BLANK e" and "length ws < EZCFG_CTRL_MAX_ARGS - 1"
  shows "ezcfg_util_parse_args (args_text ws @ e) = (int (length ws), map snd ws)"
  using parse_args_all [of ws e "[]"] assms by (simp add: ezcfg_util_parse_args_def)

theorem parse_args_words_witness:
  "ezcfg_util_parse_args ''  rc start  '' = (2, [''rc'', ''start''])"
  using parse_args_words [of "[(''  '', ''rc''), ('' '', ''start'')]" "''  ''"]
  by (simp add: arg_word_def IS_BLANK_def EZCFG_CTRL_MAX_ARGS_def)

end
