(* ===== verification/Util_Conf_Spec.thy ===== *)
theory Util_Conf_Spec
  imports Util_Text
begin

text \<open>What the section-file reader of \<^verbatim>\<open>util/util_conf.c\<close> finds, stated on the lines of the file.\<close>

section \<open>Lines\<close>

definition LF :: char where "LF = CHR 0x0A"

text \<open>A line that \<^verbatim>\<open>fgets\<close> reads in one call.\<close>

definition conf_line :: "string \<Rightarrow> bool" where
  "conf_line l \<longleftrightarrow> LF \<notin> set l \<and> length l \<le> 126"

definition conf_text :: "string list \<Rightarrow> string" where
  "conf_text ls = concat (map (\<lambda>l. l @ [LF]) ls)"

lemma conf_text_simps [simp]:
  "conf_text [] = []" "conf_text (l # ls) = l @ LF # conf_text ls"
  "conf_text (ls @ ms) = conf_text ls @ conf_text ms"
  by (simp_all add: conf_text_def)

lemma fgets_take_line: "LF \<notin> set l \<Longrightarrow> length l < n \<Longrightarrow> fgets_take n (l @ LF # r) = (l @ [LF], r)"
proof (induction l arbitrary: n)
  case Nil
  then show ?case by (cases n) (auto simp: LF_def)
next
  case (Cons c l)
  then show ?case by (cases n) (auto simp: LF_def)
qed

lemma fgets_line: "conf_line l \<Longrightarrow> fgets 128 (l @ LF # r) = Some (l @ [LF], r)"
  using fgets_take_line [of l 127 r] by (simp add: conf_line_def fgets_def)

section \<open>Headers and keywords\<close>

definition header_line :: "string \<Rightarrow> string \<Rightarrow> bool" where
  "header_line sect l \<longleftrightarrow> prefix (CHR ''['' # sect @ [CHR '']'']) l"

definition keyword_line :: "string \<Rightarrow> string \<Rightarrow> bool" where
  "keyword_line keyword l \<longleftrightarrow> prefix (keyword @ [CHR ''='']) l"

lemma take_char_prefix:
  assumes "LF \<notin> set s" and "c \<noteq> LF" and "c \<noteq> NUL"
  shows "strncmp (l @ [LF]) s (length s) = 0 \<and> char_at (l @ [LF]) (length s) = c \<longleftrightarrow> prefix (s @ [c]) l"
  using assms
proof (induction s arbitrary: l)
  case Nil
  then show ?case by (cases l) (auto simp: strncmp_def char_at_def)
next
  case (Cons a s)
  then have "a \<noteq> LF" by auto
  show ?case
  proof (cases l)
    case Nil
    then show ?thesis using \<open>a \<noteq> LF\<close> by (auto simp: strncmp_def)
  next
    case (Cons b l')
    then have "strncmp (l @ [LF]) (a # s) (length (a # s)) = 0 \<longleftrightarrow> a = b \<and> strncmp (l' @ [LF]) s (length s) = 0"
      by (auto simp: strncmp_def)
    moreover have "char_at (l @ [LF]) (length (a # s)) = char_at (l' @ [LF]) (length s)"
      using Cons by (simp add: char_at_def)
    ultimately show ?thesis using Cons.IH [of l'] Cons.prems Cons by auto
  qed
qed

lemma header_test:
  assumes "LF \<notin> set sect"
  shows "(peek (l @ [LF]) = CHR ''['' \<and> strncmp (drop 1 (l @ [LF])) sect (length sect) = 0 \<and>
      char_at (l @ [LF]) (length sect + 1) = CHR '']'') \<longleftrightarrow> header_line sect l"
proof (cases l)
  case Nil
  then show ?thesis by (simp add: header_line_def LF_def)
next
  case (Cons b l')
  have "char_at (l @ [LF]) (length sect + 1) = char_at (l' @ [LF]) (length sect)"
    using Cons by (simp add: char_at_def)
  then show ?thesis using take_char_prefix [OF assms, of "CHR '']''" l'] Cons
    by (auto simp: header_line_def LF_def NUL_def)
qed

lemma keyword_test:
  assumes "LF \<notin> set keyword"
  shows "(strncmp (l @ [LF]) keyword (length keyword) = 0 \<and> char_at (l @ [LF]) (length keyword) = CHR ''='') \<longleftrightarrow>
    keyword_line keyword l"
  using take_char_prefix [OF assms, of "CHR ''=''" l] by (simp add: keyword_line_def LF_def NUL_def)

section \<open>Trimming\<close>

lemma trailing_loop_rev: "trailing_loop P (length s) s = rev (dropWhile P (rev s))"
proof (induction s rule: rev_induct)
  case Nil
  then show ?case by (simp add: trailing_loop.simps)
next
  case (snoc x xs)
  then show ?case by (simp add: trailing_loop.simps [of P "Suc (length xs)" "xs @ [x]"])
qed

definition trimmed :: "string \<Rightarrow> string" where
  "trimmed v = rev (dropWhile (\<lambda>c. c \<in> set EZCFG_EZCFG_TRAILING_CHARLIST) (rev v))"

lemma remove_trailing_line:
  "ezcfg_util_remove_trailing_charlist (v @ [LF]) EZCFG_EZCFG_TRAILING_CHARLIST = trimmed v"
proof -
  have "strchr l x \<noteq> None \<longleftrightarrow> x \<in> set l" for l x by simp
  moreover have "LF \<in> set EZCFG_EZCFG_TRAILING_CHARLIST" by (simp add: LF_def EZCFG_EZCFG_TRAILING_CHARLIST_def)
  ultimately show ?thesis
    unfolding ezcfg_util_remove_trailing_charlist_def trailing_loop_rev trimmed_def by simp
qed

section \<open>The two loops\<close>

lemma section_step:
  assumes "fgets 128 f = Some (l @ [LF], r)" "LF \<notin> set sect"
  shows "conf_section_loop sect idx i f =
    (let i' = if header_line sect l then i + 1 else i in if i' = idx then (True, r) else conf_section_loop sect idx i' r)"
  by (simp only: conf_section_loop.simps [of sect idx i f] assms(1) option.case prod.case header_test [OF assms(2)])

lemma keyword_step:
  assumes "fgets 128 f = Some (l @ [LF], r)" "LF \<notin> set keyword"
  shows "conf_keyword_loop keyword f =
    (if peek (l @ [LF]) = CHR ''['' then None
     else if keyword_line keyword l
     then Some (ezcfg_util_remove_trailing_charlist (drop (length keyword + 1) (l @ [LF])) EZCFG_EZCFG_TRAILING_CHARLIST)
     else conf_keyword_loop keyword r)"
  by (simp only: conf_keyword_loop.simps [of keyword f] assms(1) option.case prod.case keyword_test [OF assms(2)])

lemma section_found:
  assumes "LF \<notin> set sect" "list_all conf_line pre" "conf_line h" "header_line sect h"
    "idx = i + int (length (filter (header_line sect) pre)) + 1"
  shows "conf_section_loop sect idx i (conf_text pre @ h @ LF # r) = (True, r)"
  using assms
proof (induction pre arbitrary: i)
  case Nil
  then show ?case using section_step [OF fgets_line [OF Nil(3)] Nil(1), of idx i r] by simp
next
  case (Cons l pre)
  let ?f = "conf_text pre @ h @ LF # r"
  have l: "conf_line l" using Cons.prems(2) by simp
  show ?case
    using section_step [OF fgets_line [OF l] Cons.prems(1), of idx i ?f]
      Cons.IH [of "if header_line sect l then i + 1 else i"] Cons.prems
    by (auto simp: Let_def)
qed

lemma keyword_found:
  assumes "LF \<notin> set keyword" "list_all conf_line body" "conf_line (keyword @ CHR ''='' # v)"
    "list_all (\<lambda>l. peek l \<noteq> CHR ''['' \<and> \<not> keyword_line keyword l) body" "peek keyword \<noteq> CHR ''[''" "keyword \<noteq> []"
  shows "conf_keyword_loop keyword (conf_text body @ (keyword @ CHR ''='' # v) @ LF # r) = Some (trimmed v)"
  using assms(2,4)
proof (induction body)
  case Nil
  let ?l = "keyword @ CHR ''='' # v"
  have "keyword_line keyword ?l" by (simp add: keyword_line_def)
  moreover have "peek (?l @ [LF]) \<noteq> CHR ''[''" using assms(5,6) by (cases keyword) auto
  moreover have "drop (length keyword + 1) (?l @ [LF]) = v @ [LF]" by simp
  ultimately have "conf_keyword_loop keyword (?l @ LF # r) = Some (trimmed v)"
    using keyword_step [OF fgets_line [OF assms(3)] assms(1), of r] remove_trailing_line [of v] by metis
  then show ?case by simp
next
  case (Cons l body)
  let ?f = "conf_text body @ (keyword @ CHR ''='' # v) @ LF # r"
  have l: "conf_line l" using Cons.prems(1) by simp
  have "peek (l @ [LF]) \<noteq> CHR ''[''" using Cons.prems(2) by (cases l) (auto simp: LF_def)
  then have "conf_keyword_loop keyword (l @ LF # ?f) = conf_keyword_loop keyword ?f"
    using keyword_step [OF fgets_line [OF l] assms(1), of ?f] Cons.prems(2) by simp
  then show ?case using Cons.IH Cons.prems by simp
qed

section \<open>Property\<close>

text \<open>In a file of lines shorter than the line buffer, the value of a keyword is found in the
  section whose header is the \<open>idx\<close>-th header of that name (counting from 0): it is the text behind
  the equal sign of the first line of that section that sets the keyword, without trailing white
  space.\<close>

theorem conf_string_found:
  assumes "sect \<noteq> []" and "length sect \<le> 125" and "keyword \<noteq> []" and "length keyword \<le> 126"
    and "LF \<notin> set sect" and "LF \<notin> set keyword" and "peek keyword \<noteq> CHR ''[''"
    and "list_all conf_line pre" and "conf_line h" and "header_line sect h"
    and "idx = int (length (filter (header_line sect) pre))"
    and "list_all conf_line body" and "list_all (\<lambda>l. peek l \<noteq> CHR ''['' \<and> \<not> keyword_line keyword l) body"
    and "conf_line (keyword @ CHR ''='' # v)"
  shows "ezcfg_util_get_conf_string True
      (Some (conf_text pre @ h @ LF # conf_text body @ (keyword @ CHR ''='' # v) @ LF # r)) sect idx keyword =
    Some (trimmed v)"
proof -
  have "conf_section_loop sect idx (-1) (conf_text pre @ h @ LF # conf_text body @ (keyword @ CHR ''='' # v) @ LF # r) =
      (True, conf_text body @ (keyword @ CHR ''='' # v) @ LF # r)"
    by (rule section_found [OF assms(5,8,9,10)]) (simp add: assms(11))
  moreover note keyword_found [OF assms(6,12,14,13,7,3)]
  ultimately show ?thesis using assms(1-4,11)
    by (simp add: ezcfg_util_get_conf_string_def del: append_assoc)
qed

theorem conf_string_found_witness:
  "ezcfg_util_get_conf_string True (Some (conf_text [''[wan]'', ''x=0'', ''[wan]''] @ ''[wan]'' @ LF #
     conf_text [''y=2''] @ (''x'' @ CHR ''='' # ''1 '') @ LF # [])) ''wan'' 2 ''x'' = Some (trimmed ''1 '')"
  by (rule conf_string_found)
    (simp_all add: conf_line_def header_line_def keyword_line_def LF_def)

end
