(* ===== verification/Auth.thy ===== *)
theory Auth
  imports Linked_List
begin

text \<open>
  Authentication entries of \<^verbatim>\<open>src/basic/auth/auth.c\<close>.  An entry is a record of five strings that
  may be NULL; its \<^verbatim>\<open>next\<close> field links it into a list of known entries, so a list is a chain of
  nodes whose data are the strings.  The strings of an entry belong to it; \<^term>\<open>dlog\<close> records
  the entries that were deleted.
\<close>

definition EZCFG_AUTH_TYPE_HTTP_BASIC_STRING :: string where
  "EZCFG_AUTH_TYPE_HTTP_BASIC_STRING = ''http-basic''"

definition EZCFG_AUTH_TYPE_HTTP_DIGEST_STRING :: string where
  "EZCFG_AUTH_TYPE_HTTP_DIGEST_STRING = ''http-digest''"

section \<open>One entry\<close>

record auth =
  au_type :: "string option"
  au_user :: "string option"
  au_realm :: "string option"
  au_domain :: "string option"
  au_secret :: "string option"

type_synonym auth_heap = "auth lheap"

definition auth_http_basic_is_valid :: "auth \<Rightarrow> bool" where
  "auth_http_basic_is_valid a =
     (\<not> (au_user a = None \<or> au_realm a = None \<or> au_domain a = None \<or> au_secret a = None))"

definition auth_http_digest_is_valid :: "auth \<Rightarrow> bool" where
  "auth_http_digest_is_valid a =
     (\<not> (au_user a = None \<or> au_realm a = None \<or> au_domain a = None \<or> au_secret a = None))"

text \<open>\<^verbatim>\<open>strcmp\<close> on pointers: a NULL argument is a fault.\<close>

definition strcmp_p :: "string option \<Rightarrow> string option \<Rightarrow> int option" where
  "strcmp_p p q = do { s \<leftarrow> p; t \<leftarrow> q; Some (strcmp s t) }"

text \<open>\<^verbatim>\<open>&&\<close> looks at its second operand only when the first one holds.\<close>

definition and_then :: "bool option \<Rightarrow> bool option \<Rightarrow> bool option" where
  "and_then p q = do { b \<leftarrow> p; if b then q else Some False }"

definition strs_equal :: "string option \<Rightarrow> string option \<Rightarrow> bool option" where
  "strs_equal p q = map_option (\<lambda>c. c = 0) (strcmp_p p q)"

definition auth_is_same :: "auth \<Rightarrow> auth \<Rightarrow> bool option" where
  "auth_is_same a1 a2 =
     and_then (strs_equal (au_type a1) (au_type a2))
    (and_then (strs_equal (au_user a1) (au_user a2))
    (and_then (strs_equal (au_realm a1) (au_realm a2))
    (and_then (strs_equal (au_domain a1) (au_domain a2))
      (strs_equal (au_secret a1) (au_secret a2)))))"

text \<open>A new entry takes a reference on the context; \<open>mem\<close> says whether \<^verbatim>\<open>calloc\<close> succeeds.\<close>

definition ezcfg_auth_new ::
    "(mutex_call \<times> mutex_call) \<Rightarrow> (mutex_call \<times> mutex_call) \<Rightarrow> bool \<Rightarrow> ezcfg_refs \<Rightarrow> auth option \<times> ezcfg_refs" where
  "ezcfg_auth_new m1 m2 mem s =
     (let (ret, s1) = ezcfg_inc_ref (fst m1) (snd m1) s in
      if ret \<noteq> EZCFG_RET_OK then (None, s1)
      else if mem then
        (Some \<lparr>au_type = None, au_user = None, au_realm = None, au_domain = None, au_secret = None\<rparr>, s1)
      else (None, snd (ezcfg_dec_ref (fst m2) (snd m2) s1)))"

text \<open>The setters: the new string is allocated before the old one is freed; \<open>mem\<close> is the outcome
  of \<^verbatim>\<open>strdup\<close>.\<close>

definition ezcfg_auth_set_type :: "bool \<Rightarrow> auth \<Rightarrow> string \<Rightarrow> bool \<times> auth" where
  "ezcfg_auth_set_type mem a s = (if mem then (True, a\<lparr>au_type := Some s\<rparr>) else (False, a))"

definition ezcfg_auth_set_user :: "bool \<Rightarrow> auth \<Rightarrow> string \<Rightarrow> bool \<times> auth" where
  "ezcfg_auth_set_user mem a s = (if mem then (True, a\<lparr>au_user := Some s\<rparr>) else (False, a))"

definition ezcfg_auth_set_realm :: "bool \<Rightarrow> auth \<Rightarrow> string \<Rightarrow> bool \<times> auth" where
  "ezcfg_auth_set_realm mem a s = (if mem then (True, a\<lparr>au_realm := Some s\<rparr>) else (False, a))"

definition ezcfg_auth_set_domain :: "bool \<Rightarrow> auth \<Rightarrow> string \<Rightarrow> bool \<times> auth" where
  "ezcfg_auth_set_domain mem a s = (if mem then (True, a\<lparr>au_domain := Some s\<rparr>) else (False, a))"

definition ezcfg_auth_set_secret :: "bool \<Rightarrow> auth \<Rightarrow> string \<Rightarrow> bool \<times> auth" where
  "ezcfg_auth_set_secret mem a s = (if mem then (True, a\<lparr>au_secret := Some s\<rparr>) else (False, a))"

definition ezcfg_auth_is_valid :: "auth \<Rightarrow> bool" where
  "ezcfg_auth_is_valid a =
     (case au_type a of
        None \<Rightarrow> False
      | Some t \<Rightarrow>
          if strcmp t EZCFG_AUTH_TYPE_HTTP_BASIC_STRING = 0 then auth_http_basic_is_valid a
          else if strcmp t EZCFG_AUTH_TYPE_HTTP_DIGEST_STRING = 0 then auth_http_digest_is_valid a
          else False)"

section \<open>Lists of entries\<close>

text \<open>\<^verbatim>\<open>ezcfg_auth_delete\<close>: the strings, the entry, and the reference on the context.\<close>

definition ezcfg_auth_delete ::
    "(mutex_call \<times> mutex_call) \<Rightarrow> ptr \<Rightarrow> auth_heap \<Rightarrow> ezcfg_refs \<Rightarrow> (int \<times> auth_heap \<times> ezcfg_refs) option" where
  "ezcfg_auth_delete m p h s = do {
     n \<leftarrow> hload h p;
     a \<leftarrow> p;
     h' \<leftarrow> hfree a (case ln_data n of None \<Rightarrow> h | Some d \<Rightarrow> h\<lparr>dlog := dlog h @ [d]\<rparr>);
     Some (EZCFG_RET_OK, h', snd (ezcfg_dec_ref (fst m) (snd m) s))
   }"

partial_function (option) ezcfg_auth_list_in :: "auth_heap \<Rightarrow> ptr \<Rightarrow> auth \<Rightarrow> bool option" where
  "ezcfg_auth_list_in h ap auth =
     (case ap of
        None \<Rightarrow> Some False
      | Some a \<Rightarrow> do {
          n \<leftarrow> hload h ap;
          d \<leftarrow> ln_data n;
          same \<leftarrow> auth_is_same d auth;
          if same then Some True else ezcfg_auth_list_in h (ln_next n) auth
        })"

definition ezcfg_auth_list_insert :: "ptr \<Rightarrow> ptr \<Rightarrow> auth_heap \<Rightarrow> (bool \<times> ptr \<times> auth_heap) option" where
  "ezcfg_auth_list_insert list p h = do {
     n \<leftarrow> hload h p;
     a \<leftarrow> p;
     h' \<leftarrow> hstore a (n\<lparr>ln_next := list\<rparr>) h;
     Some (True, p, h')
   }"

partial_function (option) ezcfg_auth_list_delete ::
    "(mutex_call \<times> mutex_call) \<Rightarrow> ptr \<Rightarrow> auth_heap \<Rightarrow> ezcfg_refs \<Rightarrow> (ptr \<times> auth_heap \<times> ezcfg_refs) option" where
  "ezcfg_auth_list_delete m ap h s =
     (case ap of
        None \<Rightarrow> Some (None, h, s)
      | Some a \<Rightarrow> do {
          n \<leftarrow> hload h ap;
          (_, h', s') \<leftarrow> ezcfg_auth_delete m ap h s;
          ezcfg_auth_list_delete m (ln_next n) h' s'
        })"

definition ezcfg_auth_check_authorized :: "ptr \<Rightarrow> auth \<Rightarrow> auth_heap \<Rightarrow> bool option" where
  "ezcfg_auth_check_authorized list auth h =
     (if au_type auth = None then Some False else ezcfg_auth_list_in h list auth)"

section \<open>What the list decides\<close>

text \<open>An entry without NULL strings.\<close>

definition auth_complete :: "auth \<Rightarrow> bool" where
  "auth_complete a \<longleftrightarrow> au_type a \<noteq> None \<and> au_user a \<noteq> None \<and> au_realm a \<noteq> None \<and>
     au_domain a \<noteq> None \<and> au_secret a \<noteq> None"

lemma auth_is_same_complete:
  "auth_complete a \<Longrightarrow> auth_complete b \<Longrightarrow> auth_is_same a b = Some (a = b)"
  by (cases a; cases b)
    (auto simp: auth_complete_def auth_is_same_def and_then_def strs_equal_def strcmp_p_def)

lemma auth_valid_complete:
  "ezcfg_auth_is_valid a \<longleftrightarrow> auth_complete a \<and>
     (au_type a = Some EZCFG_AUTH_TYPE_HTTP_BASIC_STRING \<or> au_type a = Some EZCFG_AUTH_TYPE_HTTP_DIGEST_STRING)"
  by (auto simp: ezcfg_auth_is_valid_def auth_complete_def auth_http_basic_is_valid_def
      auth_http_digest_is_valid_def split: option.splits)

definition auth_chain :: "auth_heap \<Rightarrow> ptr \<Rightarrow> (nat \<times> auth) list \<Rightarrow> bool" where
  "auth_chain h p xs \<longleftrightarrow> lpath (cells h) p xs None \<and> distinct (map fst xs)"

lemma auth_list_in_simps [simp]:
  "ezcfg_auth_list_in h None auth = Some False"
  "ezcfg_auth_list_in h (Some a) auth = do {
     n \<leftarrow> cells h a;
     d \<leftarrow> ln_data n;
     same \<leftarrow> auth_is_same d auth;
     if same then Some True else ezcfg_auth_list_in h (ln_next n) auth
   }"
  by (simp_all add: ezcfg_auth_list_in.simps)

lemma auth_list_in_path:
  "lpath (cells h) p xs None \<Longrightarrow> auth_complete auth \<Longrightarrow> \<forall>e \<in> snd ` set xs. auth_complete e \<Longrightarrow>
     ezcfg_auth_list_in h p auth = Some (auth \<in> snd ` set xs)"
proof (induction xs arbitrary: p)
  case Nil
  then show ?case by simp
next
  case (Cons y ys)
  then show ?case by (cases y) (auto simp: auth_is_same_complete split: option.splits)
qed

lemma auth_list_insert_chain:
  assumes "auth_chain h l xs" "cells h a = Some n" "ln_data n = Some d" "a \<notin> fst ` set xs"
  shows "\<exists>h'. ezcfg_auth_list_insert l (Some a) h = Some (True, Some a, h') \<and>
    auth_chain h' (Some a) ((a, d) # xs)"
  using assms by (auto simp: ezcfg_auth_list_insert_def auth_chain_def hstore_def)

section \<open>Properties\<close>

text \<open>C38: when every entry of the list, the entry to insert (an object that is not in the list yet) and the credentials asked for are
  complete, with all five strings there, inserting the entry and then asking whether the
  credentials are authorised returns, and the answer is yes exactly for credentials equal in all
  five strings to the inserted entry or to one that was in the list before.  (Credentials without a
  realm, as reading an HTTP request makes them, are outside: comparing them with an entry of the same type and user
  reads through a NULL pointer, \<open>auth_incomplete_faults\<close>.)\<close>

theorem auth_authorized_exactly:
  assumes "auth_chain h l xs" and "\<forall>e \<in> snd ` set xs. auth_complete e"
    and "cells h a = Some n" and "ln_data n = Some d" and "auth_complete d" and "a \<notin> fst ` set xs"
    and "auth_complete c"
  shows "\<exists>h'. ezcfg_auth_list_insert l (Some a) h = Some (True, Some a, h') \<and>
    ezcfg_auth_check_authorized (Some a) c h' = Some (c = d \<or> c \<in> snd ` set xs)"
proof -
  from auth_list_insert_chain [OF assms(1,3,4,6)] obtain h' where
    h': "ezcfg_auth_list_insert l (Some a) h = Some (True, Some a, h')"
    and chain: "auth_chain h' (Some a) ((a, d) # xs)" by blast
  have "ezcfg_auth_list_in h' (Some a) c = Some (c \<in> snd ` set ((a, d) # xs))"
    using chain assms(2,5,7) by (intro auth_list_in_path) (auto simp: auth_chain_def)
  then show ?thesis using h' assms(7) by (auto simp: ezcfg_auth_check_authorized_def auth_complete_def)
qed

definition sample_auth :: "string \<Rightarrow> auth" where
  "sample_auth u = \<lparr>au_type = Some ''http-basic'', au_user = Some u, au_realm = Some ''r'',
     au_domain = Some ''d'', au_secret = Some ''s''\<rparr>"

theorem auth_authorized_exactly_witness:
  "\<exists>h'. ezcfg_auth_check_authorized (Some 1) (sample_auth ''ann'') h' = Some True \<and>
     ezcfg_auth_check_authorized (Some 1) (sample_auth ''eve'') h' = Some False"
proof -
  let ?h = "\<lparr>cells = [0 \<mapsto> \<lparr>ln_data = Some (sample_auth ''ann''), ln_next = None\<rparr>,
      1 \<mapsto> \<lparr>ln_data = Some (sample_auth ''bob''), ln_next = None\<rparr>], brk = 2, oom = (\<lambda>_. False), dlog = []\<rparr> :: auth_heap"
  have "auth_chain ?h (Some 0) [(0, sample_auth ''ann'')]" by (simp add: auth_chain_def)
  from auth_authorized_exactly [OF this, of 1 _ "sample_auth ''bob''" "sample_auth ''ann''"]
    auth_authorized_exactly [OF this, of 1 _ "sample_auth ''bob''" "sample_auth ''eve''"]
  show ?thesis by (auto simp: auth_complete_def sample_auth_def)
qed

text \<open>The lookup compares strings of entries that may be incomplete: an entry with the same type and
  user but no realm, as \<^verbatim>\<open>ezcfg_http_parse_auth\<close> makes them, is compared with a NULL pointer.\<close>

lemma auth_incomplete_faults:
  assumes "cells h a = Some n" "ln_data n = Some d" "auth_complete d"
    and "au_type c = au_type d" "au_user c = au_user d" "au_realm c = None"
  shows "ezcfg_auth_check_authorized (Some a) c h = None"
  using assms
  by (auto simp: ezcfg_auth_check_authorized_def auth_is_same_def and_then_def strs_equal_def strcmp_p_def
      auth_complete_def)

end
