(* ===== verification/Nv_Linked_List.thy ===== *)
theory Nv_Linked_List
  imports Linked_List
begin

text \<open>
  The list of settings of \<^verbatim>\<open>src/basic/nv_linked_list/nv_linked_list.c\<close>: a linked list whose nodes
  own a name, a value and their lengths.  It uses the nodes and chains of the public linked list;
  the four string fields of a node are its datum, absent while the node is being filled, and
  \<^term>\<open>dlog\<close> records the entries whose strings were freed.  \<open>nvl_rep\<close> ties a list to
  the list of its name-value pairs, on which the operations are those of the keyed lists.
\<close>

section \<open>Nodes and header\<close>

record nv_entry =
  ne_n :: string
  ne_v :: string
  ne_nlen :: int
  ne_vlen :: int

record nv_linked_list =
  nvl_length :: int
  nvl_head :: ptr
  nvl_tail :: ptr

type_synonym nvl_heap = "nv_entry lheap"

definition nv_entry_of :: "string \<Rightarrow> string \<Rightarrow> nv_entry" where
  "nv_entry_of n v = \<lparr>ne_n = n, ne_v = v, ne_nlen = int (length n), ne_vlen = int (length v)\<rparr>"

section \<open>Operations\<close>

text \<open>\<^verbatim>\<open>link_node_del\<close>: the strings, then the node.\<close>

definition link_node_del :: "ptr \<Rightarrow> nvl_heap \<Rightarrow> nvl_heap option" where
  "link_node_del p h = do {
     n \<leftarrow> hload h p;
     a \<leftarrow> p;
     hfree a (case ln_data n of None \<Rightarrow> h | Some d \<Rightarrow> h\<lparr>dlog := dlog h @ [d]\<rparr>)
   }"

definition ezcfg_nv_linked_list_new :: "bool \<Rightarrow> nv_linked_list option" where
  "ezcfg_nv_linked_list_new mem =
     (if mem then Some \<lparr>nvl_length = 0, nvl_head = None, nvl_tail = None\<rparr> else None)"

partial_function (option) nvl_del_loop :: "nv_linked_list \<Rightarrow> nvl_heap \<Rightarrow> nvl_heap option" where
  "nvl_del_loop l h =
     (case nvl_head l of
        None \<Rightarrow> Some h
      | Some a \<Rightarrow> do {
          n \<leftarrow> hload h (nvl_head l);
          let l' = l\<lparr>nvl_tail := nvl_head l, nvl_head := ln_next n\<rparr>;
          h' \<leftarrow> link_node_del (nvl_tail l') h;
          nvl_del_loop l' h'
        })"

definition ezcfg_nv_linked_list_del :: "nv_linked_list \<Rightarrow> nvl_heap \<Rightarrow> (int \<times> nvl_heap) option" where
  "ezcfg_nv_linked_list_del l h = do { h' \<leftarrow> nvl_del_loop l h; Some (EZCFG_RET_OK, h') }"

text \<open>The search loop of insert, append, in and the lookup by name.\<close>

partial_function (option) nvl_find :: "nvl_heap \<Rightarrow> ptr \<Rightarrow> string \<Rightarrow> ptr option" where
  "nvl_find h np name =
     (case np of
        None \<Rightarrow> Some None
      | Some a \<Rightarrow> do {
          n \<leftarrow> hload h np;
          d \<leftarrow> ln_data n;
          if strcmp (ne_n d) name = 0 then Some np else nvl_find h (ln_next n) name
        })"

text \<open>\<^verbatim>\<open>p = strdup(value); free(np->v); np->v = p;\<close>\<close>

definition nvl_replace :: "nat \<Rightarrow> string \<Rightarrow> nvl_heap \<Rightarrow> (int \<times> nvl_heap) option" where
  "nvl_replace a val h = do {
     n \<leftarrow> cells h a;
     d \<leftarrow> ln_data n;
     case strdup_val val h of
       (None, h1) \<Rightarrow> Some (EZCFG_RET_FAIL, h1)
     | (Some p, h1) \<Rightarrow> do {
         h2 \<leftarrow> hstore a (n\<lparr>ln_data := Some (d\<lparr>ne_v := p, ne_vlen := int (length p)\<rparr>)\<rparr>)
                 (h1\<lparr>dlog := dlog h1 @ [d]\<rparr>);
         Some (EZCFG_RET_OK, h2)
       }
   }"

text \<open>A new node with both strings, or none when an allocation fails.\<close>

definition nvl_node_new :: "string \<Rightarrow> string \<Rightarrow> ptr \<Rightarrow> nvl_heap \<Rightarrow> (ptr \<times> nvl_heap) option" where
  "nvl_node_new name val nxt h =
     (case halloc \<lparr>ln_data = None, ln_next = None\<rparr> h of
        (None, h1) \<Rightarrow> Some (None, h1)
      | (Some np, h1) \<Rightarrow>
          (case strdup_val name h1 of
             (None, h2) \<Rightarrow> do { h3 \<leftarrow> link_node_del (Some np) h2; Some (None, h3) }
           | (Some n, h2) \<Rightarrow>
               (case strdup_val val h2 of
                  (None, h3) \<Rightarrow> do { h4 \<leftarrow> link_node_del (Some np) h3; Some (None, h4) }
                | (Some v, h3) \<Rightarrow> do {
                    h4 \<leftarrow> hstore np \<lparr>ln_data = Some (nv_entry_of n v), ln_next = nxt\<rparr> h3;
                    Some (Some np, h4)
                  })))"

definition ezcfg_nv_linked_list_insert ::
    "nv_linked_list \<Rightarrow> string \<Rightarrow> string \<Rightarrow> nvl_heap \<Rightarrow> (int \<times> nv_linked_list \<times> nvl_heap) option" where
  "ezcfg_nv_linked_list_insert l name val h = do {
     found \<leftarrow> nvl_find h (nvl_head l) name;
     case found of
       Some a \<Rightarrow> do { (ret, h1) \<leftarrow> nvl_replace a val h; Some (ret, l, h1) }
     | None \<Rightarrow> do {
         (np, h1) \<leftarrow> nvl_node_new name val (nvl_head l) h;
         if np = None then Some (EZCFG_RET_FAIL, l, h1)
         else Some (EZCFG_RET_OK,
                l\<lparr>nvl_head := np, nvl_tail := (if nvl_tail l = None then np else nvl_tail l),
                  nvl_length := nvl_length l + 1\<rparr>, h1)
       }
   }"

definition ezcfg_nv_linked_list_append ::
    "nv_linked_list \<Rightarrow> string \<Rightarrow> string \<Rightarrow> nvl_heap \<Rightarrow> (int \<times> nv_linked_list \<times> nvl_heap) option" where
  "ezcfg_nv_linked_list_append l name val h = do {
     found \<leftarrow> nvl_find h (nvl_head l) name;
     case found of
       Some a \<Rightarrow> do { (ret, h1) \<leftarrow> nvl_replace a val h; Some (ret, l, h1) }
     | None \<Rightarrow> do {
         (np, h1) \<leftarrow> nvl_node_new name val None h;
         if np = None then Some (EZCFG_RET_FAIL, l, h1)
         else
           (case nvl_tail l of
              None \<Rightarrow> Some (EZCFG_RET_OK,
                l\<lparr>nvl_head := np, nvl_tail := np, nvl_length := nvl_length l + 1\<rparr>, h1)
            | Some t \<Rightarrow> do {
                tn \<leftarrow> cells h1 t;
                h2 \<leftarrow> hstore t (tn\<lparr>ln_next := np\<rparr>) h1;
                Some (EZCFG_RET_OK, l\<lparr>nvl_tail := np, nvl_length := nvl_length l + 1\<rparr>, h2)
              })
       }
   }"

text \<open>The loop of remove behind the first node; \<open>npp\<close> is the node before \<open>np\<close>.\<close>

partial_function (option) nvl_remove_loop ::
    "nv_linked_list \<Rightarrow> nat \<Rightarrow> ptr \<Rightarrow> string \<Rightarrow> nvl_heap \<Rightarrow> (int \<times> nv_linked_list \<times> nvl_heap) option" where
  "nvl_remove_loop l npp np name h =
     (case np of
        None \<Rightarrow> Some (EZCFG_RET_FAIL, l, h)
      | Some a \<Rightarrow> do {
          n \<leftarrow> hload h np;
          d \<leftarrow> ln_data n;
          if strcmp (ne_n d) name = 0 then do {
            pn \<leftarrow> cells h npp;
            h1 \<leftarrow> hstore npp (pn\<lparr>ln_next := ln_next n\<rparr>) h;
            let l' = (if ln_next n = None then l\<lparr>nvl_tail := Some npp\<rparr> else l);
            h2 \<leftarrow> link_node_del np h1;
            Some (EZCFG_RET_OK, l'\<lparr>nvl_length := nvl_length l' - 1\<rparr>, h2)
          }
          else nvl_remove_loop l a (ln_next n) name h
        })"

definition ezcfg_nv_linked_list_remove ::
    "nv_linked_list \<Rightarrow> string \<Rightarrow> nvl_heap \<Rightarrow> (int \<times> nv_linked_list \<times> nvl_heap) option" where
  "ezcfg_nv_linked_list_remove l name h = do {
     n \<leftarrow> hload h (nvl_head l);
     a \<leftarrow> nvl_head l;
     d \<leftarrow> ln_data n;
     if strcmp (ne_n d) name = 0 then do {
       let l' = l\<lparr>nvl_head := ln_next n, nvl_tail := (if ln_next n = None then None else nvl_tail l)\<rparr>;
       h1 \<leftarrow> link_node_del (Some a) h;
       Some (EZCFG_RET_OK, l'\<lparr>nvl_length := nvl_length l' - 1\<rparr>, h1)
     }
     else nvl_remove_loop l a (ln_next n) name h
   }"

definition ezcfg_nv_linked_list_in :: "nv_linked_list \<Rightarrow> string \<Rightarrow> nvl_heap \<Rightarrow> bool option" where
  "ezcfg_nv_linked_list_in l name h = do { found \<leftarrow> nvl_find h (nvl_head l) name; Some (found \<noteq> None) }"

definition ezcfg_nv_linked_list_get_length :: "nv_linked_list \<Rightarrow> int" where
  "ezcfg_nv_linked_list_get_length l = nvl_length l"

text \<open>\<^verbatim>\<open>while (i > 0) { np = np->next; i--; }\<close>\<close>

fun nvl_walk :: "nat \<Rightarrow> nvl_heap \<Rightarrow> ptr \<Rightarrow> ptr option" where
  "nvl_walk 0 h np = Some np"
| "nvl_walk (Suc i) h np = do { n \<leftarrow> hload h np; nvl_walk i h (ln_next n) }"

definition nvl_entry_by_index :: "nv_linked_list \<Rightarrow> int \<Rightarrow> nvl_heap \<Rightarrow> nv_entry option" where
  "nvl_entry_by_index l i h = do {
     np \<leftarrow> nvl_walk (nat (i - 1)) h (nvl_head l);
     n \<leftarrow> hload h np;
     ln_data n
   }"

definition ezcfg_nv_linked_list_get_node_name_by_index ::
    "nv_linked_list \<Rightarrow> int \<Rightarrow> nvl_heap \<Rightarrow> string option option" where
  "ezcfg_nv_linked_list_get_node_name_by_index l i h =
     (if i > nvl_length l then Some None
      else do { d \<leftarrow> nvl_entry_by_index l i h; Some (Some (ne_n d)) })"

definition ezcfg_nv_linked_list_get_node_value_by_index ::
    "nv_linked_list \<Rightarrow> int \<Rightarrow> nvl_heap \<Rightarrow> string option option" where
  "ezcfg_nv_linked_list_get_node_value_by_index l i h =
     (if i > nvl_length l then Some None
      else do { d \<leftarrow> nvl_entry_by_index l i h; Some (Some (ne_v d)) })"

definition ezcfg_nv_linked_list_get_node_value_by_name ::
    "nv_linked_list \<Rightarrow> string \<Rightarrow> nvl_heap \<Rightarrow> string option option" where
  "ezcfg_nv_linked_list_get_node_value_by_name l name h = do {
     found \<leftarrow> nvl_find h (nvl_head l) name;
     case found of
       None \<Rightarrow> Some None
     | Some a \<Rightarrow> do { n \<leftarrow> cells h a; d \<leftarrow> ln_data n; Some (Some (ne_v d)) }
   }"

end
