(* ===== verification/Http.thy ===== *)
theory Http
  imports Auth Nv_Linked_List Util_Base64 Util_Text
begin

text \<open>
  The HTTP/1.1 messages of \<^verbatim>\<open>src/basic/http/http.c\<close>: the message object, reading a request or a
  response head, writing a message into a buffer, credentials and form data.  The headers are a
  chain of nodes with head and tail pointers; a node has no datum while it is being filled.  Text
  that a function reads is the \<^typ>\<open>string\<close> up to its NUL: where the code overwrites a delimiter of
  its input by NUL, the model cuts the text there.  A buffer that is written is a \<^typ>\<open>string\<close> of
  its full size, and a write outside it is a fault.
\<close>

section \<open>The C library functions used here\<close>

fun strcasecmp :: "string \<Rightarrow> string \<Rightarrow> int" where
  "strcasecmp [] [] = 0"
| "strcasecmp [] (y # ys) = -1"
| "strcasecmp (x # xs) [] = 1"
| "strcasecmp (x # xs) (y # ys) =
     (if tolower (of_char x) = tolower (of_char y) then strcasecmp xs ys
      else if tolower (of_char x) < tolower (of_char y) then -1 else 1)"

definition EZCFG_HTTP_CRLF_STRING :: string where
  "EZCFG_HTTP_CRLF_STRING = [CHR 0x0D, CHR 0x0A]"

text \<open>\<^verbatim>\<open>strstr\<close>: the suffix at the first occurrence.\<close>

fun strstr :: "string \<Rightarrow> string \<Rightarrow> string option" where
  "strstr [] pat = (if pat = [] then Some [] else None)"
| "strstr (c # s) pat = (if prefix pat (c # s) then Some (c # s) else strstr s pat)"

text \<open>The text from \<open>s\<close> to a pointer \<open>p\<close> into it.\<close>

definition upto :: "string \<Rightarrow> string \<Rightarrow> string" where
  "upto s p = take (length s - length p) s"

text \<open>\<^verbatim>\<open>%d\<close> of an unsigned number.\<close>

fun decimal :: "nat \<Rightarrow> string" where
  "decimal n = (if n < 10 then [char_of (48 + n)] else decimal (n div 10) @ [char_of (48 + n mod 10)])"

declare decimal.simps [simp del]

text \<open>
  \<^verbatim>\<open>%hd\<close> of \<^verbatim>\<open>sscanf\<close>: white space, a sign, digits.  C leaves open what is stored for a number
  that does not fit a \<^verbatim>\<open>short\<close>; that is the parameter \<open>ovf\<close>.
\<close>

definition isspace :: "char \<Rightarrow> bool" where
  "isspace c \<longleftrightarrow> c \<in> {CHR '' '', CHR 0x09, CHR 0x0A, CHR 0x0B, CHR 0x0C, CHR 0x0D}"

fun scan_digits :: "nat \<Rightarrow> string \<Rightarrow> nat \<times> string" where
  "scan_digits n [] = (n, [])"
| "scan_digits n (c # s) =
     (if isdigit (of_char c) then scan_digits (10 * n + (of_char c - 48)) s else (n, c # s))"

definition scan_hd :: "(int \<Rightarrow> 16 word) \<Rightarrow> string \<Rightarrow> (16 word \<times> string) option" where
  "scan_hd ovf s =
     (let s = dropWhile isspace s;
          neg = (peek s = CHR ''-'');
          t = (if peek s = CHR ''-'' \<or> peek s = CHR ''+'' then tl s else s)
      in if \<not> isdigit (of_char (peek t)) then None
         else let (n, rest) = scan_digits 0 t; v = (if neg then - int n else int n)
              in Some (if -32768 \<le> v \<and> v \<le> 32767 then word_of_int v else ovf v, rest))"

text \<open>
  \<^verbatim>\<open>snprintf(buf + off, n, ...)\<close> of a text \<open>s\<close>: the size is converted to an unsigned 32-bit number,
  so a negative one is a huge one; the result is the length of \<open>s\<close>.
\<close>

definition c_snprintf :: "string \<Rightarrow> int \<Rightarrow> int \<Rightarrow> string \<Rightarrow> (int \<times> string) option" where
  "c_snprintf buf off n s =
     (let k = unat (word_of_int n :: 32 word) in
      if k = 0 then Some (int (length s), buf)
      else do {
        buf' \<leftarrow> buf_write buf (nat off) (take (k - 1) s @ [NUL]);
        Some (int (length s), buf')
      })"

section \<open>The message object\<close>

datatype http_state = HTTP_REQUEST | HTTP_RESPONSE

record http_header =
  hh_name :: string
  hh_value :: "string option"
  is_known_header :: bool

type_synonym http_heap = "http_header lheap"

record http =
  ht_state :: http_state
  num_methods :: nat
  method_strings :: "string option list"
  method_index :: nat
  request_uri :: "string option"
  version_major :: "16 word"
  version_minor :: "16 word"
  num_status_codes :: nat
  status_code_maps :: "(nat \<times> string option) list"
  status_code_index :: nat
  num_known_headers :: nat
  known_header_strings :: "string option list"
  header_head :: ptr
  header_tail :: ptr
  message_body_len :: int
  message_body :: "string option"
  is_ssl :: bool
  is_extension :: bool
  ht_heap :: http_heap

definition default_method_strings :: "string option list" where
  "default_method_strings = None # map Some
     [''OPTIONS'', ''GET'', ''HEAD'', ''POST'', ''PUT'', ''DELETE'', ''TRACE'', ''CONNECT'',
      ''M-OPTIONS'', ''M-GET'', ''M-HEAD'', ''M-POST'', ''M-PUT'', ''M-DELETE'', ''M-TRACE'', ''M-CONNECT'']"

definition default_header_strings :: "string option list" where
  "default_header_strings = None # map Some
     [''Cache-Control'', ''Connection'', ''Date'', ''Pragma'', ''Trailer'', ''Transfer-Encoding'',
      ''Upgrade'', ''Via'', ''Warning'',
      ''Accept'', ''Accept-Charset'', ''Accept-Encoding'', ''Accept-Language'', ''Authorization'',
      ''Expect'', ''From'', ''Host'', ''If-Match'', ''If-Modified-Since'', ''If-None-Match'',
      ''If-Range'', ''If-Unmodified-Since'', ''Max-Forwards'', ''Proxy-Authorization'', ''Range'',
      ''Referer'', ''TE'', ''User-Agent'',
      ''Accept-Ranges'', ''Age'', ''ETag'', ''Location'', ''Proxy-Authenticate'', ''Retry-After'',
      ''Server'', ''Vary'', ''WWW-Authenticate'',
      ''Allow'', ''Content-Encoding'', ''Content-Language'', ''Content-Length'', ''Content-Location'',
      ''Content-MD5'', ''Content-Range'', ''Content-Type'', ''Expires'', ''Last-Modified'',
      ''Man'', ''Opt'', ''C-Man'', ''C-Opt'', ''Ext'', ''C-Ext'']"

definition default_status_code_maps :: "(nat \<times> string option) list" where
  "default_status_code_maps = (0, None) # map (\<lambda>(c, s). (c, Some s))
     [(100, ''Continue''), (101, ''Switching Protocols''), (102, ''Processing''),
      (200, ''OK''), (201, ''Created''), (202, ''Accepted''), (203, ''Non-Authoritative Information''),
      (204, ''No Content''), (205, ''Reset Content''), (206, ''Partial Content''), (207, ''Multi-Status''),
      (300, ''Multiple Choices''), (301, ''Moved Permanently''), (302, ''Found''), (303, ''See Other''),
      (304, ''Not Modified''), (305, ''Use Proxy''), (306, ''(Unused)''), (307, ''Temporary Redirect''),
      (400, ''Bad Request''), (401, ''Unauthorized''), (402, ''Payment Required''), (403, ''Forbidden''),
      (404, ''Not Found''), (405, ''Method Not Allowed''), (406, ''Not Acceptable''),
      (407, ''Proxy Authentication Required''), (408, ''Request Timeout''), (409, ''Conflict''),
      (410, ''Gone''), (411, ''Length Required''), (412, ''Precondition Failed''),
      (413, ''Request Entity Too Large''), (414, ''Request-URI Too Long''), (415, ''Unsupported Media Type''),
      (416, ''Requested Range Not Satisfiable''), (417, ''Expectation Failed''),
      (422, ''Unprocessable Entity''), (423, ''Locked''), (424, ''Failed Dependency''), (426, ''Upgrade Required''),
      (500, ''Internal Server Error''), (501, ''Not Implemented''), (502, ''Bad Gateway''),
      (503, ''Service Unavailable''), (504, ''Gateway Timeout''), (505, ''HTTP Version Not Supported''),
      (507, ''Insufficient Storage'')]"

text \<open>\<open>mem\<close> is the outcome of \<^verbatim>\<open>calloc\<close>; zeroed memory is the state \<^verbatim>\<open>HTTP_REQUEST\<close>.\<close>

definition ezcfg_http_new :: "bool \<Rightarrow> http_heap \<Rightarrow> http option" where
  "ezcfg_http_new mem h =
     (if mem then Some
       \<lparr>ht_state = HTTP_REQUEST,
        num_methods = length default_method_strings - 1, method_strings = default_method_strings,
        method_index = 0, request_uri = None, version_major = 0, version_minor = 0,
        num_status_codes = length default_status_code_maps - 1, status_code_maps = default_status_code_maps,
        status_code_index = 0,
        num_known_headers = length default_header_strings - 1, known_header_strings = default_header_strings,
        header_head = None, header_tail = None, message_body_len = 0, message_body = None,
        is_ssl = False, is_extension = False, ht_heap = h\<rparr>
      else None)"

section \<open>Lookups in the tables\<close>

text \<open>The loops run from index \<open>i\<close> down to 1; index 0 means not found.  A NULL string or an index
  outside the table is a fault.\<close>

fun find_string_loop :: "(string \<Rightarrow> string \<Rightarrow> int) \<Rightarrow> string option list \<Rightarrow> nat \<Rightarrow> string \<Rightarrow> nat option" where
  "find_string_loop cmp strs 0 s = Some 0"
| "find_string_loop cmp strs (Suc i) s =
     (if Suc i < length strs then do {
        t \<leftarrow> strs ! Suc i;
        if cmp t s = 0 then Some (Suc i) else find_string_loop cmp strs i s
      }
      else None)"

definition find_method_index :: "http \<Rightarrow> string \<Rightarrow> nat option" where
  "find_method_index http method = find_string_loop strcmp (method_strings http) (num_methods http) method"

definition find_known_header_name :: "http \<Rightarrow> string \<Rightarrow> string option option" where
  "find_known_header_name http name = do {
     i \<leftarrow> find_string_loop strcasecmp (known_header_strings http) (num_known_headers http) name;
     Some (if i = 0 then None else known_header_strings http ! i)
   }"

fun find_status_loop :: "(nat \<times> string option) list \<Rightarrow> nat \<Rightarrow> nat \<Rightarrow> nat option" where
  "find_status_loop maps 0 code = Some 0"
| "find_status_loop maps (Suc i) code =
     (if Suc i < length maps then
        (if fst (maps ! Suc i) = code then Some (Suc i) else find_status_loop maps i code)
      else None)"

definition find_status_code_index :: "http \<Rightarrow> nat \<Rightarrow> nat option" where
  "find_status_code_index http code = find_status_loop (status_code_maps http) (num_status_codes http) code"

section \<open>Headers\<close>

partial_function (option) header_value_loop :: "http_heap \<Rightarrow> ptr \<Rightarrow> string \<Rightarrow> string option option" where
  "header_value_loop h p name =
     (case p of
        None \<Rightarrow> Some None
      | Some a \<Rightarrow> do {
          n \<leftarrow> hload h p;
          d \<leftarrow> ln_data n;
          if strcasecmp name (hh_name d) = 0 then Some (hh_value d)
          else header_value_loop h (ln_next n) name
        })"

definition get_http_header_value :: "http \<Rightarrow> string \<Rightarrow> string option option" where
  "get_http_header_value http name = header_value_loop (ht_heap http) (header_head http) name"

text \<open>The name (when it is not a known one), the value, the node.\<close>

definition delete_http_header :: "ptr \<Rightarrow> http_heap \<Rightarrow> http_heap option" where
  "delete_http_header p h = do {
     n \<leftarrow> hload h p;
     a \<leftarrow> p;
     hfree a (case ln_data n of None \<Rightarrow> h | Some d \<Rightarrow> h\<lparr>dlog := dlog h @ [d]\<rparr>)
   }"

partial_function (option) clear_headers_loop :: "ptr \<Rightarrow> http_heap \<Rightarrow> http_heap option" where
  "clear_headers_loop p h =
     (case p of
        None \<Rightarrow> Some h
      | Some a \<Rightarrow> do {
          n \<leftarrow> hload h p;
          h' \<leftarrow> delete_http_header p h;
          clear_headers_loop (ln_next n) h'
        })"

definition clear_http_headers :: "http \<Rightarrow> http option" where
  "clear_http_headers http = do {
     h \<leftarrow> clear_headers_loop (header_head http) (ht_heap http);
     Some (http\<lparr>header_head := None, header_tail := None, ht_heap := h\<rparr>)
   }"

text \<open>\<^verbatim>\<open>ezcfg_http_add_header\<close>: the name and the value of the new node, then the node at the tail.\<close>

definition header_strings ::
    "http \<Rightarrow> string \<Rightarrow> string \<Rightarrow> http_heap \<Rightarrow> (http_header option \<times> http_heap) option" where
  "header_strings http name val h = do {
     known \<leftarrow> find_known_header_name http name;
     let (nm, h1) = (case known of Some k \<Rightarrow> (Some k, h) | None \<Rightarrow> strdup_val name h) in
     case nm of
       None \<Rightarrow> Some (None, h1)
     | Some nm \<Rightarrow>
         if peek val = NUL then
           Some (Some \<lparr>hh_name = nm, hh_value = None, is_known_header = (known \<noteq> None)\<rparr>, h1)
         else
           (case strdup_val val h1 of
              (None, h2) \<Rightarrow> Some (None, h2)
            | (Some v, h2) \<Rightarrow>
                Some (Some \<lparr>hh_name = nm, hh_value = Some v, is_known_header = (known \<noteq> None)\<rparr>, h2))
   }"

definition ezcfg_http_add_header :: "http \<Rightarrow> string \<Rightarrow> string \<Rightarrow> (bool \<times> http) option" where
  "ezcfg_http_add_header http name val =
     (case halloc \<lparr>ln_data = None, ln_next = None\<rparr> (ht_heap http) of
        (None, h1) \<Rightarrow> Some (False, http\<lparr>ht_heap := h1\<rparr>)
      | (Some a, h1) \<Rightarrow> do {
          (d, h2) \<leftarrow> header_strings http name val h1;
          if d = None then do { h3 \<leftarrow> hfree a h2; Some (False, http\<lparr>ht_heap := h3\<rparr>) }
          else do {
            h3 \<leftarrow> hstore a \<lparr>ln_data = d, ln_next = None\<rparr> h2;
            case header_tail http of
              None \<Rightarrow> Some (True, http\<lparr>header_tail := Some a, header_head := Some a, ht_heap := h3\<rparr>)
            | Some t \<Rightarrow> do {
                tn \<leftarrow> cells h3 t;
                h4 \<leftarrow> hstore t (tn\<lparr>ln_next := Some a\<rparr>) h3;
                Some (True, http\<lparr>header_tail := Some a, ht_heap := h4\<rparr>)
              }
          }
        })"

section \<open>Reading a message head\<close>

lemma strstr_length: "strstr s pat = Some p \<Longrightarrow> length p \<le> length s"
  by (induction s) (auto split: if_splits)

text \<open>A line and what follows its CRLF.\<close>

definition crlf_line :: "string \<Rightarrow> (string \<times> string) option" where
  "crlf_line buf = do {
     e \<leftarrow> strstr buf EZCFG_HTTP_CRLF_STRING;
     Some (upto buf e, drop 2 e)
   }"

lemma strstr_crlf_prefix: "strstr s EZCFG_HTTP_CRLF_STRING = Some p \<Longrightarrow> 2 \<le> length p"
  by (induction s) (auto simp: EZCFG_HTTP_CRLF_STRING_def prefix_def split: if_splits)

lemma crlf_line_length: "crlf_line buf = Some (line, rest) \<Longrightarrow> length rest < length buf"
  using strstr_length [of buf EZCFG_HTTP_CRLF_STRING] strstr_crlf_prefix [of buf]
  by (fastforce simp: crlf_line_def bind_eq_Some_conv)

function parse_http_headers :: "http \<Rightarrow> string \<Rightarrow> (bool \<times> http) option" where
  "parse_http_headers http buf =
     (case crlf_line buf of
        None \<Rightarrow> Some (False, http)
      | Some (line, rest) \<Rightarrow>
          if peek line = NUL then Some (True, http)
          else
            (case strchr line (CHR '':'') of
               None \<Rightarrow> Some (False, http)
             | Some v \<Rightarrow> do {
                 (ok, http') \<leftarrow> ezcfg_http_add_header http (upto line v)
                    (ezcfg_util_skip_leading_charlist (tl v) (Some [CHR '' '', CHR 0x09]));
                 if \<not> ok then Some (False, http') else parse_http_headers http' rest
               }))"
  by pat_completeness auto
termination
  by (relation "measure (\<lambda>(http, buf). length buf)") (auto dest: crlf_line_length)

declare parse_http_headers.simps [simp del]

text \<open>\<^verbatim>\<open>sscanf(p, "%hd.%hd", ...)\<close>: the first number is stored even when the rest does not match.\<close>

definition scan_version :: "(int \<Rightarrow> 16 word) \<Rightarrow> http \<Rightarrow> string \<Rightarrow> bool \<times> http" where
  "scan_version ovf http p =
     (case scan_hd ovf p of
        None \<Rightarrow> (False, http)
      | Some (major, q) \<Rightarrow>
          let http' = http\<lparr>version_major := major\<rparr> in
          if peek q \<noteq> CHR ''.'' then (False, http')
          else
            (case scan_hd ovf (tl q) of
               None \<Rightarrow> (False, http')
             | Some (minor, _) \<Rightarrow> (True, http'\<lparr>version_minor := minor\<rparr>)))"

definition parse_http_request :: "(int \<Rightarrow> 16 word) \<Rightarrow> http \<Rightarrow> string \<Rightarrow> (bool \<times> http) option" where
  "parse_http_request ovf http buf =
     (case crlf_line buf of
        None \<Rightarrow> Some (False, http)
      | Some (line, headers) \<Rightarrow>
          (case strchr line (CHR '' '') of
             None \<Rightarrow> Some (False, http)
           | Some p \<Rightarrow> do {
               i \<leftarrow> find_method_index http (upto line p);
               let http = http\<lparr>method_index := i\<rparr>; uri = tl p in
               if i = 0 then Some (False, http)
               else if peek uri \<noteq> CHR ''/'' \<and> peek uri \<noteq> CHR ''*'' then Some (False, http)
               else
                 (case strchr uri (CHR '' '') of
                    None \<Rightarrow> Some (False, http)
                  | Some q \<Rightarrow>
                      let (u, h) = strdup_val (upto uri q) (ht_heap http);
                          http = http\<lparr>request_uri := u, ht_heap := h\<rparr>;
                          version = tl q
                      in
                      if u = None then Some (False, http)
                      else if strncmp version ''HTTP/'' 5 \<noteq> 0 then Some (False, http)
                      else
                        let (ok, http) = scan_version ovf http (drop 5 version) in
                        if \<not> ok then Some (False, http) else parse_http_headers http headers)
             }))"

definition parse_http_response :: "(int \<Rightarrow> 16 word) \<Rightarrow> http \<Rightarrow> string \<Rightarrow> (bool \<times> http) option" where
  "parse_http_response ovf http buf =
     (case crlf_line buf of
        None \<Rightarrow> Some (False, http)
      | Some (line, headers) \<Rightarrow>
          (case strchr line (CHR '' '') of
             None \<Rightarrow> Some (False, http)
           | Some q \<Rightarrow>
               let version = upto line q in
               if strncmp version ''HTTP/'' 5 \<noteq> 0 then Some (False, http)
               else
                 let (ok, http) = scan_version ovf http (drop 5 version); p = tl q in
                 if \<not> ok then Some (False, http)
                 else if \<not> isdigit (of_char (char_at p 0)) \<or> \<not> isdigit (of_char (char_at p 1)) \<or>
                    \<not> isdigit (of_char (char_at p 2)) \<or> char_at p 3 \<noteq> CHR '' '' then Some (False, http)
                 else do {
                   i \<leftarrow> find_status_code_index http
                     ((of_char (char_at p 0) - 48) * 100 + (of_char (char_at p 1) - 48) * 10 +
                      (of_char (char_at p 2) - 48));
                   if i = 0 then Some (False, http)
                   else do {
                     reason \<leftarrow> snd (status_code_maps http ! i);
                     if strcasecmp (drop 4 p) reason \<noteq> 0 then Some (False, http)
                     else parse_http_headers (http\<lparr>status_code_index := i\<rparr>) headers
                   }
                 }))"

text \<open>The third branch of the code, for a state that is neither, cannot be taken.\<close>

definition ezcfg_http_parse_header :: "(int \<Rightarrow> 16 word) \<Rightarrow> http \<Rightarrow> string \<Rightarrow> (bool \<times> http) option" where
  "ezcfg_http_parse_header ovf http buf =
     (case ht_state http of
        HTTP_REQUEST \<Rightarrow> parse_http_request ovf http buf
      | HTTP_RESPONSE \<Rightarrow> parse_http_response ovf http buf)"

section \<open>Attributes\<close>

definition ezcfg_http_set_state_request :: "http \<Rightarrow> int \<times> http" where
  "ezcfg_http_set_state_request http = (EZCFG_RET_OK, http\<lparr>ht_state := HTTP_REQUEST\<rparr>)"

definition ezcfg_http_set_state_response :: "http \<Rightarrow> int \<times> http" where
  "ezcfg_http_set_state_response http = (EZCFG_RET_OK, http\<lparr>ht_state := HTTP_RESPONSE\<rparr>)"

definition ezcfg_http_is_state_request :: "http \<Rightarrow> bool" where
  "ezcfg_http_is_state_request http = (ht_state http = HTTP_REQUEST)"

definition ezcfg_http_is_state_response :: "http \<Rightarrow> bool" where
  "ezcfg_http_is_state_response http = (ht_state http = HTTP_RESPONSE)"

text \<open>The strings of the object are values of the model; freeing them is no step of the heap.\<close>

definition ezcfg_http_del :: "http \<Rightarrow> (int \<times> http_heap) option" where
  "ezcfg_http_del http = do { http' \<leftarrow> clear_http_headers http; Some (EZCFG_RET_OK, ht_heap http') }"

definition ezcfg_http_reset_attributes :: "http \<Rightarrow> (int \<times> http) option" where
  "ezcfg_http_reset_attributes http = do {
     http1 \<leftarrow> clear_http_headers http;
     let http2 = http1\<lparr>request_uri := None\<rparr>;
     let http3 = (if message_body http2 \<noteq> None then http2\<lparr>message_body := None, message_body_len := 0\<rparr> else http2);
     Some (EZCFG_RET_OK, http3)
   }"

definition ezcfg_http_get_version_major :: "http \<Rightarrow> 16 word" where
  "ezcfg_http_get_version_major http = version_major http"

definition ezcfg_http_get_version_minor :: "http \<Rightarrow> 16 word" where
  "ezcfg_http_get_version_minor http = version_minor http"

definition ezcfg_http_set_version_major :: "http \<Rightarrow> 16 word \<Rightarrow> bool \<times> http" where
  "ezcfg_http_set_version_major http major = (True, http\<lparr>version_major := major\<rparr>)"

definition ezcfg_http_set_version_minor :: "http \<Rightarrow> 16 word \<Rightarrow> bool \<times> http" where
  "ezcfg_http_set_version_minor http minor = (True, http\<lparr>version_minor := minor\<rparr>)"

definition ezcfg_http_get_header_value :: "http \<Rightarrow> string \<Rightarrow> string option option" where
  "ezcfg_http_get_header_value http name = get_http_header_value http name"

definition ezcfg_http_set_method_strings :: "http \<Rightarrow> string option list \<Rightarrow> 8 word \<Rightarrow> bool \<times> http" where
  "ezcfg_http_set_method_strings http strs n = (True, http\<lparr>num_methods := unat n, method_strings := strs\<rparr>)"

definition ezcfg_http_set_known_header_strings :: "http \<Rightarrow> string option list \<Rightarrow> 8 word \<Rightarrow> bool \<times> http" where
  "ezcfg_http_set_known_header_strings http strs n =
     (True, http\<lparr>num_known_headers := unat n, known_header_strings := strs\<rparr>)"

definition ezcfg_http_set_status_code_maps :: "http \<Rightarrow> (nat \<times> string option) list \<Rightarrow> 16 word \<Rightarrow> bool \<times> http" where
  "ezcfg_http_set_status_code_maps http maps n =
     (True, http\<lparr>num_status_codes := unat n, status_code_maps := maps\<rparr>)"

definition ezcfg_http_set_request_method :: "http \<Rightarrow> string \<Rightarrow> (nat \<times> http) option" where
  "ezcfg_http_set_request_method http method = do {
     i \<leftarrow> find_string_loop strcmp (method_strings http) (num_methods http) method;
     if i = 0 then Some (0, http)
     else Some (i, if char_at method 0 = CHR ''M'' \<and> char_at method 1 = CHR ''-''
                   then http\<lparr>method_index := i, is_extension := True\<rparr>
                   else http\<lparr>method_index := i\<rparr>)
   }"

text \<open>The string of the current method; the table entry must exist.\<close>

definition method_string :: "http \<Rightarrow> string option" where
  "method_string http =
     (if method_index http < length (method_strings http) then method_strings http ! method_index http else None)"

definition ezcfg_http_request_method_cmp :: "http \<Rightarrow> string \<Rightarrow> int option" where
  "ezcfg_http_request_method_cmp http method = do { m \<leftarrow> method_string http; Some (strcmp m method) }"

definition ezcfg_http_set_status_code :: "http \<Rightarrow> nat \<Rightarrow> (nat \<times> http) option" where
  "ezcfg_http_set_status_code http code = do {
     i \<leftarrow> find_status_loop (status_code_maps http) (num_status_codes http) code;
     Some (i, if i = 0 then http else http\<lparr>status_code_index := i\<rparr>)
   }"

definition ezcfg_http_get_request_uri :: "http \<Rightarrow> string option" where
  "ezcfg_http_get_request_uri http = request_uri http"

definition ezcfg_http_set_request_uri :: "http \<Rightarrow> string \<Rightarrow> bool \<times> http" where
  "ezcfg_http_set_request_uri http uri =
     (case strdup_val uri (ht_heap http) of
        (None, h) \<Rightarrow> (False, http\<lparr>ht_heap := h\<rparr>)
      | (Some u, h) \<Rightarrow> (True, http\<lparr>request_uri := Some u, ht_heap := h\<rparr>))"

definition ezcfg_http_get_is_ssl :: "http \<Rightarrow> bool" where
  "ezcfg_http_get_is_ssl http = is_ssl http"

definition ezcfg_http_set_is_ssl :: "http \<Rightarrow> bool \<Rightarrow> bool \<times> http" where
  "ezcfg_http_set_is_ssl http b = (True, http\<lparr>is_ssl := b\<rparr>)"

text \<open>\<open>body\<close> is the caller's array; the copy takes \<open>len\<close> bytes of it and a NUL.\<close>

definition ezcfg_http_set_message_body :: "http \<Rightarrow> string \<Rightarrow> int \<Rightarrow> (string option \<times> http) option" where
  "ezcfg_http_set_message_body http body len =
     (case strdup_val body (ht_heap http) of
        (None, h) \<Rightarrow> Some (None, http\<lparr>ht_heap := h\<rparr>)
      | (Some _, h) \<Rightarrow>
          if len < 0 \<or> len > int (length body) then None
          else Some (Some (take (nat len) body),
                 http\<lparr>message_body := Some (take (nat len) body), message_body_len := len, ht_heap := h\<rparr>))"

definition ezcfg_http_get_message_body_len :: "http \<Rightarrow> int" where
  "ezcfg_http_get_message_body_len http = message_body_len http"

definition ezcfg_http_get_message_body :: "http \<Rightarrow> string option" where
  "ezcfg_http_get_message_body http = message_body http"

section \<open>Writing a message\<close>

text \<open>\<^verbatim>\<open>do { count++; n /= 10; } while (n > 0)\<close>\<close>

fun count_digits :: "nat \<Rightarrow> int" where
  "count_digits n = 1 + (if n div 10 > 0 then count_digits (n div 10) else 0)"

declare count_digits.simps [simp del]

definition ezcfg_http_get_request_line_length :: "http \<Rightarrow> int option" where
  "ezcfg_http_get_request_line_length http =
     (if method_index http = 0 then Some (-1)
      else do {
        m \<leftarrow> method_string http;
        u \<leftarrow> request_uri http;
        Some (int (length m) + 1 + int (length u) + 1 + 5 + count_digits (unat (version_major http)) + 1 +
          count_digits (unat (version_minor http)) + int (length EZCFG_HTTP_CRLF_STRING))
      })"

definition ezcfg_http_write_request_line :: "http \<Rightarrow> string \<Rightarrow> int \<Rightarrow> int \<Rightarrow> (int \<times> string) option" where
  "ezcfg_http_write_request_line http buf off len =
     (if method_index http = 0 then Some (-1, buf)
      else do {
        m \<leftarrow> method_string http;
        u \<leftarrow> request_uri http;
        c_snprintf buf off len
          (m @ '' '' @ u @ '' HTTP/'' @ decimal (unat (version_major http)) @ ''.'' @
           decimal (unat (version_minor http)) @ EZCFG_HTTP_CRLF_STRING)
      })"

text \<open>The entry of the current status code.\<close>

definition status_entry :: "http \<Rightarrow> (nat \<times> string option) option" where
  "status_entry http =
     (if status_code_index http < length (status_code_maps http)
      then Some (status_code_maps http ! status_code_index http) else None)"

definition ezcfg_http_get_status_line_length :: "http \<Rightarrow> int option" where
  "ezcfg_http_get_status_line_length http = do {
     (code, reason) \<leftarrow> status_entry http;
     if code = 0 then Some (-1)
     else
       (case reason of
          None \<Rightarrow> Some (-1)
        | Some r \<Rightarrow> Some (5 + count_digits (unat (version_major http)) + 1 +
            count_digits (unat (version_minor http)) + 1 + 3 + 1 + int (length r) +
            int (length EZCFG_HTTP_CRLF_STRING)))
   }"

text \<open>\<^verbatim>\<open>%3d\<close>\<close>

definition decimal3 :: "nat \<Rightarrow> string" where
  "decimal3 n = (let s = decimal n in replicate (3 - length s) (CHR '' '') @ s)"

definition ezcfg_http_write_status_line :: "http \<Rightarrow> string \<Rightarrow> int \<Rightarrow> int \<Rightarrow> (int \<times> string) option" where
  "ezcfg_http_write_status_line http buf off len = do {
     (code, reason) \<leftarrow> status_entry http;
     if code = 0 then Some (-1, buf)
     else
       (case reason of
          None \<Rightarrow> Some (-1, buf)
        | Some r \<Rightarrow>
            c_snprintf buf off len
              (''HTTP/'' @ decimal (unat (version_major http)) @ ''.'' @ decimal (unat (version_minor http)) @
               '' '' @ decimal3 code @ '' '' @ r @ EZCFG_HTTP_CRLF_STRING))
   }"

definition ezcfg_http_get_start_line_length :: "http \<Rightarrow> int option" where
  "ezcfg_http_get_start_line_length http =
     (case ht_state http of
        HTTP_REQUEST \<Rightarrow> ezcfg_http_get_request_line_length http
      | HTTP_RESPONSE \<Rightarrow> ezcfg_http_get_status_line_length http)"

definition ezcfg_http_write_start_line :: "http \<Rightarrow> string \<Rightarrow> int \<Rightarrow> int \<Rightarrow> (int \<times> string) option" where
  "ezcfg_http_write_start_line http buf off len =
     (case ht_state http of
        HTTP_REQUEST \<Rightarrow> ezcfg_http_write_request_line http buf off len
      | HTTP_RESPONSE \<Rightarrow> ezcfg_http_write_status_line http buf off len)"

definition ezcfg_http_get_crlf_length :: "http \<Rightarrow> int" where
  "ezcfg_http_get_crlf_length http = int (length EZCFG_HTTP_CRLF_STRING)"

definition ezcfg_http_write_crlf :: "string \<Rightarrow> int \<Rightarrow> int \<Rightarrow> (int \<times> string) option" where
  "ezcfg_http_write_crlf buf off len = do {
     (n, buf') \<leftarrow> c_snprintf buf off len EZCFG_HTTP_CRLF_STRING;
     Some (if n < 2 then -1 else n, buf')
   }"

text \<open>\<^verbatim>\<open>h->value ? h->value : ""\<close>\<close>

definition value_text :: "http_header \<Rightarrow> string" where
  "value_text d = (case hh_value d of None \<Rightarrow> [] | Some v \<Rightarrow> v)"

partial_function (option) headers_length_loop :: "http_heap \<Rightarrow> ptr \<Rightarrow> int \<Rightarrow> int option" where
  "headers_length_loop h p cnt =
     (case p of
        None \<Rightarrow> Some cnt
      | Some a \<Rightarrow> do {
          n \<leftarrow> hload h p;
          d \<leftarrow> ln_data n;
          headers_length_loop h (ln_next n)
            (cnt + int (length (hh_name d)) + 1 + int (length (value_text d)) + int (length EZCFG_HTTP_CRLF_STRING))
        })"

definition ezcfg_http_get_headers_length :: "http \<Rightarrow> int option" where
  "ezcfg_http_get_headers_length http =
     (if method_index http = 0 then Some (-1)
      else headers_length_loop (ht_heap http) (header_head http) 0)"

partial_function (option) write_headers_loop ::
    "http_heap \<Rightarrow> ptr \<Rightarrow> string \<Rightarrow> int \<Rightarrow> int \<Rightarrow> int \<Rightarrow> (int \<times> string) option" where
  "write_headers_loop h p buf off len cnt =
     (case p of
        None \<Rightarrow> Some (cnt, buf)
      | Some a \<Rightarrow> do {
          n \<leftarrow> hload h p;
          d \<leftarrow> ln_data n;
          (k, buf') \<leftarrow> c_snprintf buf (off + cnt) (len - cnt)
             (hh_name d @ '':'' @ value_text d @ EZCFG_HTTP_CRLF_STRING);
          write_headers_loop h (ln_next n) buf' off len (cnt + k)
        })"

definition ezcfg_http_write_headers :: "http \<Rightarrow> string \<Rightarrow> int \<Rightarrow> int \<Rightarrow> (int \<times> string) option" where
  "ezcfg_http_write_headers http buf off len =
     (if method_index http = 0 then Some (-1, buf)
      else write_headers_loop (ht_heap http) (header_head http) buf off len 0)"

definition ezcfg_http_write_message_body :: "http \<Rightarrow> string \<Rightarrow> int \<Rightarrow> int \<Rightarrow> (int \<times> string) option" where
  "ezcfg_http_write_message_body http buf off len =
     (if len < message_body_len http then Some (-1, buf)
      else
        (case message_body http of
           None \<Rightarrow> Some (message_body_len http, buf)
         | Some b \<Rightarrow> do {
             buf' \<leftarrow> buf_write buf (nat off) (take (nat (message_body_len http)) b);
             Some (message_body_len http, buf')
           }))"

definition ezcfg_http_get_message_length :: "http \<Rightarrow> int option" where
  "ezcfg_http_get_message_length http = do {
     n \<leftarrow> ezcfg_http_get_start_line_length http;
     if n < 0 then Some (-1)
     else do {
       m \<leftarrow> ezcfg_http_get_headers_length http;
       if m < 0 then Some (-1)
       else
         let c = ezcfg_http_get_crlf_length http; b = ezcfg_http_get_message_body_len http in
         Some (if c < 0 then -1 else if b < 0 then -1 else n + m + c + b)
     }
   }"

text \<open>The three parts behind one another, then the body; \<open>len\<close> counts what is left of the buffer.\<close>

definition ezcfg_http_write_message :: "http \<Rightarrow> string \<Rightarrow> int \<Rightarrow> (int \<times> string) option" where
  "ezcfg_http_write_message http buf len = do {
     (n, buf) \<leftarrow> ezcfg_http_write_start_line http buf 0 len;
     if n < 0 then Some (n, buf)
     else do {
       (m, buf) \<leftarrow> ezcfg_http_write_headers http buf n (len - n);
       if m < 0 then Some (m, buf)
       else do {
         (c, buf) \<leftarrow> ezcfg_http_write_crlf buf (n + m) (len - n - m);
         if c < 0 then Some (c, buf)
         else if ezcfg_http_get_message_body http \<noteq> None then do {
           (b, buf) \<leftarrow> ezcfg_http_write_message_body http buf (n + m + c) (len - n - m - c);
           Some (if b < 0 then b else n + m + c + b, buf)
         }
         else Some (n + m + c, buf)
       }
     }
   }"

section \<open>Credentials and form data\<close>

definition to_bytes :: "string \<Rightarrow> 8 word list" where
  "to_bytes s = map (\<lambda>c. of_nat (of_char c)) s"

definition of_bytes :: "8 word list \<Rightarrow> string" where
  "of_bytes bs = map (\<lambda>b. char_of (unat b)) bs"

text \<open>A byte block read as a C string.\<close>

definition c_string :: "string \<Rightarrow> string" where
  "c_string s = takeWhile (\<lambda>c. c \<noteq> NUL) s"

text \<open>\<open>mem\<close> gives the outcomes of the three \<^verbatim>\<open>strdup\<close> calls of the setters.\<close>

definition ezcfg_http_parse_auth :: "(nat \<Rightarrow> bool) \<Rightarrow> http \<Rightarrow> auth \<Rightarrow> (bool \<times> auth) option" where
  "ezcfg_http_parse_auth mem http auth = do {
     v \<leftarrow> get_http_header_value http ''Authorization'';
     case v of
       None \<Rightarrow> Some (False, auth)
     | Some p \<Rightarrow>
         if strncmp p ''Basic '' 6 \<noteq> 0 then Some (False, auth)
         else do {
           r \<leftarrow> ezcfg_util_base64_decode (to_bytes (drop 6 p)) 1024;
           case r of
             Inl _ \<Rightarrow> Some (False, auth)
           | Inr bs \<Rightarrow>
               let buf = c_string (of_bytes bs) in
               (case strchr buf (CHR '':'') of
                  None \<Rightarrow> Some (False, auth)
                | Some q \<Rightarrow>
                    let (ret, auth) = ezcfg_auth_set_type (mem 0) auth EZCFG_AUTH_TYPE_HTTP_BASIC_STRING in
                    if \<not> ret then Some (False, auth)
                    else
                      let (ret, auth) = ezcfg_auth_set_user (mem 1) auth (upto buf q) in
                      if \<not> ret then Some (False, auth)
                      else
                        let (ret, auth) = ezcfg_auth_set_secret (mem 2) auth (tl q) in
                        Some (ret, auth))
         }
   }"

text \<open>The loop over the fields; the delimiters are restored on every way out.\<close>

function parse_post_loop ::
    "string \<Rightarrow> nv_linked_list \<Rightarrow> nvl_heap \<Rightarrow> (bool \<times> nv_linked_list \<times> nvl_heap) option" where
  "parse_post_loop p l h =
     (let (field, rest) = (case strchr p (CHR ''&'') of
             None \<Rightarrow> (p, None)
           | Some e \<Rightarrow> (upto p e, Some (tl e)))
      in case strchr field (CHR ''='') of
           None \<Rightarrow> Some (False, l, h)
         | Some eq \<Rightarrow> do {
             (ret, l', h') \<leftarrow> ezcfg_nv_linked_list_insert l (upto field eq) (tl eq) h;
             if ret \<noteq> EZCFG_RET_OK then Some (False, l', h')
             else (case rest of None \<Rightarrow> Some (True, l', h') | Some q \<Rightarrow> parse_post_loop q l' h')
           })"
  by pat_completeness auto

lemma strchr_tl_length: "strchr s c = Some p \<Longrightarrow> length (tl p) < length s"
proof (induction s)
  case (Cons x s)
  then show ?case by (auto split: if_splits intro: less_SucI)
qed simp

termination parse_post_loop
  by (relation "measure (\<lambda>(p, l, h). length p)") (auto dest: strchr_tl_length split: option.splits)

declare parse_post_loop.simps [simp del]

definition ezcfg_http_parse_post_data ::
    "http \<Rightarrow> nv_linked_list \<Rightarrow> nvl_heap \<Rightarrow> (bool \<times> nv_linked_list \<times> nvl_heap) option" where
  "ezcfg_http_parse_post_data http l h =
     (case message_body http of
        None \<Rightarrow> Some (True, l, h)
      | Some b \<Rightarrow> parse_post_loop (c_string b) l h)"

end
