(* ===== verification/Nv_Linked_List_Spec.thy ===== *)
theory Nv_Linked_List_Spec
  imports Nv_Linked_List
begin

text \<open>
  Correctness of the settings list of \<^verbatim>\<open>basic/nv_linked_list/nv_linked_list.c\<close>.  Seen through
  \<open>as_ll\<close> the list is a public linked list whose data are compared by name, so search, removal,
  indexing and deletion follow from the lemmas of that list; only the nodes that own their strings
  are new.
\<close>

section \<open>The list of pairs behind a settings list\<close>

definition ne_cmp :: "nv_entry \<Rightarrow> nv_entry \<Rightarrow> int" where
  "ne_cmp x y = strcmp (ne_n x) (ne_n y)"

definition as_ll :: "nv_linked_list \<Rightarrow> nv_entry linked_list" where
  "as_ll l = \<lparr>ll_length = nvl_length l, ll_head = nvl_head l, ll_tail = nvl_tail l, ll_del = True,
     ll_cmp = Some ne_cmp\<rparr>"

lemma as_ll_sel [simp]:
  "ll_length (as_ll l) = nvl_length l" "ll_head (as_ll l) = nvl_head l"
  "ll_tail (as_ll l) = nvl_tail l" "ll_del (as_ll l)" "ll_cmp (as_ll l) = Some ne_cmp"
  by (simp_all add: as_ll_def)

text \<open>The pairs \<open>es\<close> with the addresses of their nodes, in order.\<close>

definition nvl_at :: "nvl_heap \<Rightarrow> nv_linked_list \<Rightarrow> (nat \<times> string \<times> string) list \<Rightarrow> bool" where
  "nvl_at h l xs \<longleftrightarrow> ll_rep_at ne_cmp h (as_ll l) (map (\<lambda>(a, n, v). (a, nv_entry_of n v)) xs)"

definition nvl_rep :: "nvl_heap \<Rightarrow> nv_linked_list \<Rightarrow> (string \<times> string) list \<Rightarrow> bool" where
  "nvl_rep h l es \<longleftrightarrow> (\<exists>xs. nvl_at h l xs \<and> map snd xs = es)"

text \<open>Pairs are compared by name.\<close>

definition nv_key :: "string \<times> string \<Rightarrow> string \<times> string \<Rightarrow> int" where
  "nv_key x y = strcmp (fst x) (fst y)"

abbreviation entries :: "(nat \<times> string \<times> string) list \<Rightarrow> (nat \<times> nv_entry) list" where
  "entries xs \<equiv> map (\<lambda>(a, n, v). (a, nv_entry_of n v)) xs"

lemma nv_entry_of_sel [simp]:
  "ne_n (nv_entry_of n v) = n" "ne_v (nv_entry_of n v) = v"
  "ne_nlen (nv_entry_of n v) = int (length n)" "ne_vlen (nv_entry_of n v) = int (length v)"
  by (simp_all add: nv_entry_of_def)

lemma nv_entry_of_inject [simp]: "nv_entry_of n v = nv_entry_of m w \<longleftrightarrow> n = m \<and> v = w"
  by (auto simp: nv_entry_of_def)

lemma nv_entry_of_update:
  "nv_entry_of n v\<lparr>ne_v := w, ne_vlen := int (length w)\<rparr> = nv_entry_of n w"
  by (simp add: nv_entry_of_def)

lemma entries_snd: "map snd (entries xs) = map (\<lambda>(n, v). nv_entry_of n v) (map snd xs)"
  by (induction xs) auto

lemma fst_entry [simp]:
  "fst (case x of (a, n, v) \<Rightarrow> (a, nv_entry_of n v)) = fst x"
  "fst \<circ> (\<lambda>(a, n, v). (a, nv_entry_of n v)) = fst"
  by (auto split: prod.split)

lemma entries_fst [simp]: "map fst (entries xs) = map fst xs"
  by (induction xs) auto

lemma entries_fst_image [simp]: "fst ` (\<lambda>(a, n, v). (a, nv_entry_of n v)) ` S = fst ` S"
  by force

lemma key_in_entries:
  "key_in ne_cmp (nv_entry_of n v) (map (\<lambda>(n, v). nv_entry_of n v) es) \<longleftrightarrow> n \<in> fst ` set es"
  by (force simp: key_in_def ne_cmp_def)

lemma key_in_pairs [simp]: "key_in nv_key (n, v) es \<longleftrightarrow> n \<in> fst ` set es"
  by (force simp: key_in_def nv_key_def)

lemma remove_first_entries:
  "remove_first ne_cmp (nv_entry_of n v) (map (\<lambda>(n, v). nv_entry_of n v) es) =
     map (\<lambda>(n, v). nv_entry_of n v) (remove_first nv_key (n, v) es)"
  by (induction es) (auto simp: ne_cmp_def nv_key_def)

text \<open>The chain is a public list of entries; conversely a public list of entries is such a chain.\<close>

lemma nvl_atI:
  assumes "ll_rep_at ne_cmp h (as_ll l) ys" "map snd ys = map (\<lambda>(n, v). nv_entry_of n v) es"
  shows "nvl_rep h l es"
proof -
  let ?xs = "zip (map fst ys) es"
  have len: "length ys = length es" using arg_cong [OF assms(2), of length] by simp
  have "entries ?xs = ys"
  proof (rule nth_equalityI)
    show "length (entries ?xs) = length ys" using len by simp
    fix i assume "i < length (entries ?xs)"
    then have i: "i < length ys" using len by simp
    have "snd (ys ! i) = (\<lambda>(n, v). nv_entry_of n v) (es ! i)"
      using arg_cong [OF assms(2), of "\<lambda>zs. zs ! i"] i len by simp
    then show "entries ?xs ! i = ys ! i" using i len by (cases "ys ! i") (auto split: prod.split)
  qed
  moreover have "map snd ?xs = es" using len by simp
  ultimately show ?thesis using assms(1) unfolding nvl_rep_def nvl_at_def by (metis (no_types))
qed

lemma nvl_rep_public:
  assumes "nvl_rep h l es"
  obtains ys where "ll_rep_at ne_cmp h (as_ll l) ys" "map snd ys = map (\<lambda>(n, v). nv_entry_of n v) es"
  using assms entries_snd unfolding nvl_rep_def nvl_at_def by blast

section \<open>Search\<close>

lemma nvl_find_simps [simp]:
  "nvl_find h None name = Some None"
  "nvl_find h (Some a) name = do {
     n \<leftarrow> cells h a;
     d \<leftarrow> ln_data n;
     if strcmp (ne_n d) name = 0 then Some (Some a) else nvl_find h (ln_next n) name
   }"
  by (simp_all add: nvl_find.simps)

lemma nvl_find_public:
  "lpath (cells h) p ys None \<Longrightarrow> nvl_find h p name = linked_list_find ne_cmp h p (nv_entry_of name v)"
proof (induction ys arbitrary: p)
  case Nil
  then show ?case by simp
next
  case (Cons y ys)
  then show ?case by (cases y) (auto simp: ne_cmp_def split: option.splits)
qed

text \<open>The two outcomes of a search.\<close>

lemma nvl_find_cases:
  assumes "nvl_at h l xs"
  obtains (absent) "name \<notin> fst ` set (map snd xs)" "nvl_find h (nvl_head l) name = Some None"
    | (present) us a v vs n where "xs = us @ (a, name, v) # vs" "name \<notin> fst ` set (map snd us)"
      "nvl_find h (nvl_head l) name = Some (Some a)" "cells h a = Some n"
      "ln_data n = Some (nv_entry_of name v)"
proof -
  have rep: "ll_rep_at ne_cmp h (as_ll l) (entries xs)" using assms by (simp add: nvl_at_def)
  then have find: "nvl_find h (nvl_head l) name = linked_list_find ne_cmp h (ll_head (as_ll l)) (nv_entry_of name '''')"
    using nvl_find_public [of h "nvl_head l" "entries xs"] by (simp add: ll_rep_at_def)
  show ?thesis
  proof (cases rule: find_cases [OF rep, where d = "nv_entry_of name ''''"])
    case 1
    then show ?thesis using absent find by (simp add: entries_snd key_in_entries del: map_map)
  next
    case (2 us' a x vs' n)
    from 2(1) obtain us e vs where xs: "xs = us @ e # vs" "us' = entries us"
      "(\<lambda>(a, n, v). (a, nv_entry_of n v)) e = (a, x)"
      by (auto simp: map_eq_append_conv map_eq_Cons_conv)
    obtain n' v' where e: "e = (a, n', v')" "x = nv_entry_of n' v'" using xs(3) by (cases e) auto
    have "n' = name" using 2(2) e by (simp add: ne_cmp_def)
    moreover have "name \<notin> fst ` set (map snd us)"
      using 2(3) xs(2) by (simp add: entries_snd key_in_entries del: map_map)
    ultimately show ?thesis using present [of us a v' vs n] 2 xs e find by simp
  qed
qed

section \<open>New nodes and replaced values\<close>

lemma nvl_node_new_cases:
  assumes "heap_ok h"
  obtains (fails) h' where "nvl_node_new name val nxt h = Some (None, h')" "cells h' = cells h" "heap_ok h'"
      "oom h' = oom h" "dlog h' = dlog h" "\<exists>i < 3. oom h (brk h + i)"
    | (works) h' where "nvl_node_new name val nxt h = Some (Some (brk h), h')"
      "cells h' = (cells h)(brk h \<mapsto> \<lparr>ln_data = Some (nv_entry_of name val), ln_next = nxt\<rparr>)"
      "heap_ok h'" "oom h' = oom h" "dlog h' = dlog h" "\<forall>i < 3. \<not> oom h (brk h + i)"
proof -
  have fresh: "(cells h)(brk h := None) = cells h" using assms by (auto simp: heap_ok_def fun_eq_iff)
  have all3: "(\<forall>i < (3::nat). P i) \<longleftrightarrow> P 0 \<and> P 1 \<and> P 2" for P
    by (auto simp: less_Suc_eq numeral_3_eq_3 numeral_2_eq_2)
  have ok: "heap_ok h' = (\<forall>a\<ge>brk h'. cells h' a = None)" for h' :: nvl_heap by (simp add: heap_ok_def)
  have old: "a \<ge> brk h \<Longrightarrow> cells h a = None" for a using assms by (simp add: heap_ok_def)
  show ?thesis
  proof (cases "\<exists>i < 3. oom h (brk h + i)")
    case True
    let ?h = "h\<lparr>brk := (if oom h (brk h) then brk h + 1 else if oom h (brk h + 1) then brk h + 2 else brk h + 3)\<rparr>"
    have "nvl_node_new name val nxt h = Some (None, ?h)"
      using True all3 [of "\<lambda>i. \<not> oom h (brk h + i)"] fresh
      by (auto simp: nvl_node_new_def halloc_def strdup_val_def link_node_del_def hfree_def numeral_3_eq_3 numeral_2_eq_2)
    then show ?thesis by (rule fails) (use True old in \<open>auto simp: ok\<close>)
  next
    case False
    let ?h = "h\<lparr>cells := (cells h)(brk h \<mapsto> \<lparr>ln_data = Some (nv_entry_of name val), ln_next = nxt\<rparr>), brk := brk h + 3\<rparr>"
    have "nvl_node_new name val nxt h = Some (Some (brk h), ?h)"
      using False all3 [of "\<lambda>i. \<not> oom h (brk h + i)"]
      by (auto simp: nvl_node_new_def halloc_def strdup_val_def hstore_def numeral_3_eq_3 numeral_2_eq_2)
    then show ?thesis by (rule works) (use False old in \<open>auto simp: ok\<close>)
  qed
qed

lemma nvl_replace_at:
  assumes "nvl_at h l (us @ (a, n, v) # vs)" "cells h a = Some c" "ln_data c = Some (nv_entry_of n v)"
  obtains (fails) h' where "nvl_replace a w h = Some (EZCFG_RET_FAIL, h')" "oom h (brk h)"
      "nvl_at h' l (us @ (a, n, v) # vs)" "dlog h' = dlog h"
    | (works) h' where "nvl_replace a w h = Some (EZCFG_RET_OK, h')" "\<not> oom h (brk h)"
      "nvl_at h' l (us @ (a, n, w) # vs)" "dlog h' = dlog h @ [nv_entry_of n v]"
proof (cases "oom h (brk h)")
  case True
  let ?h = "h\<lparr>brk := Suc (brk h)\<rparr>"
  have "nvl_replace a w h = Some (EZCFG_RET_FAIL, ?h)"
    using assms(2,3) True by (simp add: nvl_replace_def strdup_val_def)
  moreover have "nvl_at ?h l (us @ (a, n, v) # vs)" using assms(1) by (simp add: nvl_at_def ll_rep_at_def)
  ultimately show ?thesis using True by (intro fails [of ?h]) auto
next
  case False
  let ?c = "c\<lparr>ln_data := Some (nv_entry_of n w)\<rparr>"
  let ?h = "h\<lparr>brk := Suc (brk h), dlog := dlog h @ [nv_entry_of n v], cells := (cells h)(a \<mapsto> ?c)\<rparr>"
  have "nvl_replace a w h = Some (EZCFG_RET_OK, ?h)"
    using assms(2,3) False by (simp add: nvl_replace_def strdup_val_def hstore_def nv_entry_of_update)
  moreover have "nvl_at ?h l (us @ (a, n, w) # vs)"
    using assms lpath_replace [of "cells h" "nvl_head l" "entries us" a "nv_entry_of n v" "entries vs" None c "nv_entry_of n w"]
    by (auto simp: nvl_at_def ll_rep_at_def heap_ok_def)
  ultimately show ?thesis using False by (intro works [of ?h]) auto
qed

section \<open>Insert and append\<close>

text \<open>The allocations an insertion or append makes: one for a name that is present, else three.\<close>

definition nvl_alloc_ok :: "nvl_heap \<Rightarrow> string \<Rightarrow> (string \<times> string) list \<Rightarrow> bool" where
  "nvl_alloc_ok h name es \<longleftrightarrow>
     (if name \<in> fst ` set es then \<not> oom h (brk h) else \<forall>i < 3. \<not> oom h (brk h + i))"

lemma insert_pairs_present:
  assumes "n \<notin> fst ` set us"
  shows "insert_spec nv_key (n, w) (us @ (n, v) # vs) = us @ (n, w) # vs"
    and "append_spec nv_key (n, w) (us @ (n, v) # vs) = us @ (n, w) # vs"
    and "evicted nv_key (n, w) (us @ (n, v) # vs) = [(n, v)]"
    and "remove_first nv_key (n, w) (us @ (n, v) # vs) = us @ vs"
  using assms present_split_simps [of nv_key "(n, w)" us "(n, v)" vs]
  by (auto simp: insert_spec_def append_spec_def nv_key_def)

lemma nvl_insert_at:
  assumes at: "nvl_at h l xs"
  shows "\<exists>ret l' h' ys. ezcfg_nv_linked_list_insert l name val h = Some (ret, l', h') \<and> nvl_at h' l' ys \<and>
    ret = (if nvl_alloc_ok h name (map snd xs) then EZCFG_RET_OK else EZCFG_RET_FAIL) \<and>
    map snd ys = (if ret = EZCFG_RET_OK then insert_spec nv_key (name, val) (map snd xs) else map snd xs)"
  using at
proof (cases rule: nvl_find_cases [where name = name])
  case absent
  have ok: "heap_ok h" using at by (simp add: nvl_at_def ll_rep_at_def)
  show ?thesis
  proof (cases rule: nvl_node_new_cases [OF ok, of name val "nvl_head l"])
    case (1 h')
    have "nvl_at h' l xs" using at 1 by (simp add: nvl_at_def ll_rep_at_def)
    moreover have "ezcfg_nv_linked_list_insert l name val h = Some (EZCFG_RET_FAIL, l, h')"
      using absent 1 by (simp add: ezcfg_nv_linked_list_insert_def)
    moreover have "\<not> nvl_alloc_ok h name (map snd xs)" using absent 1(6) by (auto simp: nvl_alloc_ok_def)
    ultimately show ?thesis by auto
  next
    case (2 h')
    let ?l = "l\<lparr>nvl_head := Some (brk h),
      nvl_tail := (if nvl_tail l = None then Some (brk h) else nvl_tail l), nvl_length := nvl_length l + 1\<rparr>"
    have "brk h \<notin> fst ` set (entries xs)"
      using at lpath_fresh [of h "nvl_head l" "entries xs" None] by (simp add: nvl_at_def ll_rep_at_def)
    then have a: "nvl_at h' ?l ((brk h, name, val) # xs)"
      using at 2 by (auto simp: nvl_at_def ll_rep_at_def image_iff)
    have b: "ezcfg_nv_linked_list_insert l name val h = Some (EZCFG_RET_OK, ?l, h')"
      using absent 2 by (simp add: ezcfg_nv_linked_list_insert_def)
    have c: "nvl_alloc_ok h name (map snd xs)" using absent 2(6) by (auto simp: nvl_alloc_ok_def)
    have d: "insert_spec nv_key (name, val) (map snd xs) = (name, val) # map snd xs"
      using absent by (simp add: insert_spec_def)
    show ?thesis
      by (rule exI [of _ EZCFG_RET_OK], rule exI [of _ ?l], rule exI [of _ h'],
          rule exI [of _ "(brk h, name, val) # xs"], intro conjI b a) (simp_all add: c d)
  qed
next
  case (present us a v vs n)
  have ok: "nvl_alloc_ok h name (map snd xs) \<longleftrightarrow> \<not> oom h (brk h)" using present(1) by (simp add: nvl_alloc_ok_def)
  have at': "nvl_at h l (us @ (a, name, v) # vs)" using at present(1) by simp
  show ?thesis
  proof (cases rule: nvl_replace_at [OF at' present(4,5), of val])
    case (1 h')
    then have "ezcfg_nv_linked_list_insert l name val h = Some (EZCFG_RET_FAIL, l, h')"
      using present by (simp add: ezcfg_nv_linked_list_insert_def)
    then show ?thesis using 1 ok present(1) by auto
  next
    case (2 h')
    then have "ezcfg_nv_linked_list_insert l name val h = Some (EZCFG_RET_OK, l, h')"
      using present by (simp add: ezcfg_nv_linked_list_insert_def)
    then show ?thesis using 2 ok present insert_pairs_present(1) [OF present(2)] by auto
  qed
qed

lemma nvl_append_at:
  assumes at: "nvl_at h l xs"
  shows "\<exists>ret l' h' ys. ezcfg_nv_linked_list_append l name val h = Some (ret, l', h') \<and> nvl_at h' l' ys \<and>
    ret = (if nvl_alloc_ok h name (map snd xs) then EZCFG_RET_OK else EZCFG_RET_FAIL) \<and>
    map snd ys = (if ret = EZCFG_RET_OK then append_spec nv_key (name, val) (map snd xs) else map snd xs)"
  using at
proof (cases rule: nvl_find_cases [where name = name])
  case absent
  have ok: "heap_ok h" using at by (simp add: nvl_at_def ll_rep_at_def)
  have spec: "append_spec nv_key (name, val) (map snd xs) = map snd (xs @ [(a, name, val)])" for a :: nat
    using absent by (simp add: append_spec_def)
  show ?thesis
  proof (cases rule: nvl_node_new_cases [OF ok, of name val None])
    case (1 h')
    have "nvl_at h' l xs" using at 1 by (simp add: nvl_at_def ll_rep_at_def)
    moreover have "ezcfg_nv_linked_list_append l name val h = Some (EZCFG_RET_FAIL, l, h')"
      using absent 1 by (simp add: ezcfg_nv_linked_list_append_def)
    moreover have "\<not> nvl_alloc_ok h name (map snd xs)" using absent 1(6) by (auto simp: nvl_alloc_ok_def)
    ultimately show ?thesis by auto
  next
    case (2 h')
    have good: "nvl_alloc_ok h name (map snd xs)" using absent 2(6) by (auto simp: nvl_alloc_ok_def)
    have fresh: "brk h \<notin> fst ` set (entries xs)"
      using at lpath_fresh [of h "nvl_head l" "entries xs" None] by (simp add: nvl_at_def ll_rep_at_def)
    show ?thesis
    proof (cases xs rule: rev_cases)
      case Nil
      let ?l = "l\<lparr>nvl_head := Some (brk h), nvl_tail := Some (brk h), nvl_length := nvl_length l + 1\<rparr>"
      have "nvl_at h' ?l [(brk h, name, val)]" using at 2 Nil by (simp add: nvl_at_def ll_rep_at_def)
      moreover have "ezcfg_nv_linked_list_append l name val h = Some (EZCFG_RET_OK, ?l, h')"
        using absent 2 at Nil by (simp add: ezcfg_nv_linked_list_append_def nvl_at_def ll_rep_at_def)
      ultimately show ?thesis using good spec [of "brk h"] Nil by auto
    next
      case (snoc us y)
      obtain t n v where y: "y = (t, n, v)" by (cases y)
      obtain c where c: "cells h t = Some c" "ln_data c = Some (nv_entry_of n v)"
        using at snoc y lpath_cells [of "cells h" "nvl_head l" "entries xs" None t "nv_entry_of n v"]
        by (auto simp: nvl_at_def ll_rep_at_def)
      have t: "t \<noteq> brk h" "nvl_tail l = Some t" using fresh at snoc y by (auto simp: nvl_at_def ll_rep_at_def)
      let ?h = "h'\<lparr>cells := (cells h')(t \<mapsto> c\<lparr>ln_next := Some (brk h)\<rparr>)\<rparr>"
      let ?l = "l\<lparr>nvl_tail := Some (brk h), nvl_length := nvl_length l + 1\<rparr>"
      have run: "ezcfg_nv_linked_list_append l name val h = Some (EZCFG_RET_OK, ?l, ?h)"
        using absent 2 t c by (simp add: ezcfg_nv_linked_list_append_def hstore_def)
      have "heap_ok ?h" using 2(2,3) c t heap_ok_upd [of h' t] by auto
      moreover have "t \<notin> fst ` set (entries us)" "brk h \<notin> fst ` set (entries us)"
        using at snoc y fresh by (auto simp: nvl_at_def ll_rep_at_def)
      then have "lpath (cells ?h) (nvl_head l) (entries us) r = lpath (cells h) (nvl_head l) (entries us) r" for r
        using 2(2) by simp
      ultimately have "nvl_at ?h ?l (xs @ [(brk h, name, val)])"
        using at snoc y c t fresh 2(2)
        by (auto simp: nvl_at_def ll_rep_at_def image_iff split: option.splits)
      then show ?thesis using run good spec [of "brk h"] by auto
    qed
  qed
next
  case (present us a v vs n)
  have ok: "nvl_alloc_ok h name (map snd xs) \<longleftrightarrow> \<not> oom h (brk h)" using present(1) by (simp add: nvl_alloc_ok_def)
  have at': "nvl_at h l (us @ (a, name, v) # vs)" using at present(1) by simp
  show ?thesis
  proof (cases rule: nvl_replace_at [OF at' present(4,5), of val])
    case (1 h')
    then have "ezcfg_nv_linked_list_append l name val h = Some (EZCFG_RET_FAIL, l, h')"
      using present by (simp add: ezcfg_nv_linked_list_append_def)
    then show ?thesis using 1 ok present(1) by auto
  next
    case (2 h')
    then have "ezcfg_nv_linked_list_append l name val h = Some (EZCFG_RET_OK, l, h')"
      using present by (simp add: ezcfg_nv_linked_list_append_def)
    then show ?thesis using 2 ok present insert_pairs_present(2) [OF present(2)] by auto
  qed
qed

section \<open>Removal, lookup and deletion\<close>

lemma node_del_public [simp]: "ll_del L \<Longrightarrow> linked_list_node_del L p h = link_node_del p h"
  by (simp add: link_node_del_def linked_list_node_del_def cong: option.case_cong)

lemma nvl_remove_loop_simps [simp]:
  "nvl_remove_loop l npp None name h = Some (EZCFG_RET_FAIL, l, h)"
  "nvl_remove_loop l npp (Some a) name h = do {
     n \<leftarrow> cells h a;
     d \<leftarrow> ln_data n;
     if strcmp (ne_n d) name = 0 then do {
       pn \<leftarrow> cells h npp;
       h1 \<leftarrow> hstore npp (pn\<lparr>ln_next := ln_next n\<rparr>) h;
       let l' = (if ln_next n = None then l\<lparr>nvl_tail := Some npp\<rparr> else l);
       h2 \<leftarrow> link_node_del (Some a) h1;
       Some (EZCFG_RET_OK, l'\<lparr>nvl_length := nvl_length l' - 1\<rparr>, h2)
     }
     else nvl_remove_loop l a (ln_next n) name h
   }"
  by (simp_all add: nvl_remove_loop.simps)

lemma as_ll_update:
  "as_ll (l\<lparr>nvl_tail := t\<rparr>) = as_ll l\<lparr>ll_tail := t\<rparr>"
  "as_ll (l\<lparr>nvl_length := k\<rparr>) = as_ll l\<lparr>ll_length := k\<rparr>"
  "as_ll (l\<lparr>nvl_head := p\<rparr>) = as_ll l\<lparr>ll_head := p\<rparr>"
  by (simp_all add: as_ll_def)

abbreviation as_ll_result ::
    "(int \<times> nv_linked_list \<times> nvl_heap) option \<Rightarrow> (int \<times> nv_entry linked_list \<times> nvl_heap) option" where
  "as_ll_result \<equiv> map_option (\<lambda>(r, l, h). (r, as_ll l, h))"

lemma nvl_remove_loop_public:
  "lpath (cells h) p ys None \<Longrightarrow>
     as_ll_result (nvl_remove_loop l npp p name h) =
     linked_list_remove_loop ne_cmp (as_ll l) npp p (nv_entry_of name v) h"
proof (induction ys arbitrary: p npp)
  case Nil
  then show ?case by simp
next
  case (Cons y ys)
  obtain a d where y: "y = (a, d)" by force
  with Cons.prems obtain n where n: "p = Some a" "cells h a = Some n" "ln_data n = Some d"
    "lpath (cells h) (ln_next n) ys None" by (auto split: option.splits)
  show ?case
  proof (cases "strcmp (ne_n d) name = 0")
    case True
    then show ?thesis using n
      by (simp add: ne_cmp_def Let_def as_ll_update split: Option.bind_split)
  next
    case False
    with Cons.IH [OF n(4), of a] n show ?thesis by (simp add: ne_cmp_def)
  qed
qed

lemma nvl_remove_public:
  assumes "nvl_at h l xs" "xs \<noteq> []"
  shows "as_ll_result (ezcfg_nv_linked_list_remove l name h) =
    ezcfg_linked_list_remove (as_ll l) (nv_entry_of name v) h"
proof -
  obtain e xs' where xs: "xs = e # xs'" using assms(2) by (cases xs) auto
  obtain a m w where e: "e = (a, m, w)" by (cases e)
  from assms(1) xs e obtain n where n: "nvl_head l = Some a" "cells h a = Some n"
    "ln_data n = Some (nv_entry_of m w)" "lpath (cells h) (ln_next n) (entries xs') None"
    by (auto simp: nvl_at_def ll_rep_at_def split: option.splits)
  show ?thesis
  proof (cases "m = name")
    case True
    then show ?thesis using n
      by (simp add: ezcfg_nv_linked_list_remove_def ezcfg_linked_list_remove_def ne_cmp_def as_ll_update
          split: Option.bind_split)
  next
    case False
    with n nvl_remove_loop_public [OF n(4), of l a name v] show ?thesis
      by (simp add: ezcfg_nv_linked_list_remove_def ezcfg_linked_list_remove_def ne_cmp_def)
  qed
qed

lemma nvl_remove_rep:
  assumes "nvl_rep h l es" "es \<noteq> []"
  shows "\<exists>ret l' h'. ezcfg_nv_linked_list_remove l name h = Some (ret, l', h') \<and>
    ret = (if name \<in> fst ` set es then EZCFG_RET_OK else EZCFG_RET_FAIL) \<and>
    nvl_rep h' l' (remove_first nv_key (name, v) es)"
proof -
  obtain xs where xs: "nvl_at h l xs" "map snd xs = es" using assms(1) by (auto simp: nvl_rep_def)
  then have "xs \<noteq> []" using assms(2) by auto
  let ?d = "nv_entry_of name v"
  from xs(1) have rep: "ll_rep_at ne_cmp h (as_ll l) (entries xs)" by (simp add: nvl_at_def)
  from remove_refines_at [OF rep, of ?d] \<open>xs \<noteq> []\<close> obtain ret L h' ys where
    r: "ezcfg_linked_list_remove (as_ll l) ?d h = Some (ret, L, h')" "ll_rep_at ne_cmp h' L ys"
    "map snd ys = remove_first ne_cmp ?d (map snd (entries xs))"
    "ret = (if key_in ne_cmp ?d (map snd (entries xs)) then EZCFG_RET_OK else EZCFG_RET_FAIL)" by auto
  from nvl_remove_public [OF xs(1) \<open>xs \<noteq> []\<close>, of name v] r(1) obtain l' where
    l': "ezcfg_nv_linked_list_remove l name h = Some (ret, l', h')" "L = as_ll l'"
    by (auto split: prod.splits)
  have snds: "map snd (entries xs) = map (\<lambda>(n, v). nv_entry_of n v) es" using xs(2) entries_snd by metis
  have "map snd ys = map (\<lambda>(n, v). nv_entry_of n v) (remove_first nv_key (name, v) es)"
    using r(3) by (simp only: snds remove_first_entries)
  from nvl_atI [OF r(2) [unfolded l'(2)] this] have "nvl_rep h' l' (remove_first nv_key (name, v) es)" .
  moreover have "ret = (if name \<in> fst ` set es then EZCFG_RET_OK else EZCFG_RET_FAIL)"
    using r(4) by (simp only: snds key_in_entries)
  ultimately show ?thesis using l'(1) by blast
qed

lemma nvl_in_rep:
  assumes "nvl_rep h l es"
  shows "ezcfg_nv_linked_list_in l name h = Some (name \<in> fst ` set es)"
proof -
  obtain xs where xs: "nvl_at h l xs" "map snd xs = es" using assms by (auto simp: nvl_rep_def)
  show ?thesis
    by (cases rule: nvl_find_cases [OF xs(1), of name])
      (use xs(2) in \<open>auto simp: ezcfg_nv_linked_list_in_def\<close>)
qed

lemma nvl_get_rep:
  assumes "nvl_rep h l es"
  shows "ezcfg_nv_linked_list_get_node_value_by_name l name h = Some (map_of es name)"
proof -
  obtain xs where xs: "nvl_at h l xs" "map snd xs = es" using assms by (auto simp: nvl_rep_def)
  show ?thesis
  proof (cases rule: nvl_find_cases [OF xs(1), of name])
    case 1
    then have "map_of es name = None" using xs(2) by (simp add: map_of_eq_None_iff)
    then show ?thesis using 1 by (simp add: ezcfg_nv_linked_list_get_node_value_by_name_def)
  next
    case (2 us a v vs n)
    then have "map_of (map snd us) name = None" by (simp add: map_of_eq_None_iff)
    then have "map_of es name = Some v" using 2(1) xs(2) by (auto simp: map_add_def)
    then show ?thesis using 2 by (simp add: ezcfg_nv_linked_list_get_node_value_by_name_def)
  qed
qed

lemma nvl_walk_public: "nvl_walk i h p = linked_list_walk i h p"
  by (induction i arbitrary: p) simp_all

lemma nvl_index_rep:
  assumes "nvl_rep h l es" "1 \<le> i" "i \<le> int (length es)"
  shows "nvl_entry_by_index l i h = Some ((\<lambda>(n, v). nv_entry_of n v) (es ! nat (i - 1)))"
proof -
  from nvl_rep_public [OF assms(1)] obtain ys where
    ys: "ll_rep_at ne_cmp h (as_ll l) ys" "map snd ys = map (\<lambda>(n, v). nv_entry_of n v) es" .
  from ll_repI [OF ys] get_by_index_refines [of ne_cmp h "as_ll l" "map (\<lambda>(n, v). nv_entry_of n v) es" i] assms(2,3)
  have "ezcfg_linked_list_get_node_data_by_index (as_ll l) i h =
      Some (Some ((\<lambda>(n, v). nv_entry_of n v) (es ! nat (i - 1))))" by simp
  then obtain np n where "linked_list_walk (nat (i - 1)) h (nvl_head l) = Some np" "hload h np = Some n"
    "ln_data n = Some ((\<lambda>(n, v). nv_entry_of n v) (es ! nat (i - 1)))"
    by (auto simp: ezcfg_linked_list_get_node_data_by_index_def bind_eq_Some_conv)
  then show ?thesis by (simp add: nvl_entry_by_index_def nvl_walk_public)
qed

lemma nvl_length_rep: "nvl_rep h l es \<Longrightarrow> nvl_length l = int (length es)"
  by (auto simp: nvl_rep_def nvl_at_def ll_rep_at_def)

lemma nvl_del_loop_path:
  "lpath (cells h) (nvl_head l) ys None \<Longrightarrow> distinct (map fst ys) \<Longrightarrow>
     \<exists>h'. nvl_del_loop l h = Some h' \<and> dlog h' = dlog h @ map snd ys \<and>
       cells h' = (\<lambda>a. if a \<in> fst ` set ys then None else cells h a)"
proof (induction ys arbitrary: l h)
  case Nil
  then show ?case by (auto simp: nvl_del_loop.simps [of l h])
next
  case (Cons y ys)
  obtain a d where y: "y = (a, d)" by force
  with Cons.prems obtain n where n: "nvl_head l = Some a" "cells h a = Some n" "ln_data n = Some d"
    "lpath (cells h) (ln_next n) ys None" by (auto split: option.splits)
  let ?l = "l\<lparr>nvl_tail := Some a, nvl_head := ln_next n\<rparr>"
  let ?h = "h\<lparr>dlog := dlog h @ [d], cells := (cells h)(a := None)\<rparr>"
  have step: "nvl_del_loop l h = nvl_del_loop ?l ?h"
    using n by (simp add: nvl_del_loop.simps [of l h] link_node_del_def hfree_def)
  have ys: "a \<notin> fst ` set ys" "distinct (map fst ys)" using Cons.prems(2) y by auto
  then have "lpath (cells ?h) (nvl_head ?l) ys None" using n(4) by simp
  from Cons.IH [OF this ys(2)] obtain h' where "nvl_del_loop ?l ?h = Some h'"
    "dlog h' = dlog ?h @ map snd ys" "cells h' = (\<lambda>b. if b \<in> fst ` set ys then None else cells ?h b)"
    by blast
  then show ?case using step y by (auto simp: fun_eq_iff)
qed

lemma nvl_new_rep: "heap_ok h \<Longrightarrow> ezcfg_nv_linked_list_new True = Some l \<Longrightarrow> nvl_rep h l []"
  by (auto simp: ezcfg_nv_linked_list_new_def nvl_rep_def nvl_at_def ll_rep_at_def)

section \<open>On the represented pairs\<close>

lemma nvl_insert_rep:
  assumes "nvl_rep h l es"
  shows "\<exists>ret l' h'. ezcfg_nv_linked_list_insert l name val h = Some (ret, l', h') \<and>
    ret = (if nvl_alloc_ok h name es then EZCFG_RET_OK else EZCFG_RET_FAIL) \<and>
    nvl_rep h' l' (if ret = EZCFG_RET_OK then insert_spec nv_key (name, val) es else es)"
proof -
  obtain xs where xs: "nvl_at h l xs" "map snd xs = es" using assms by (auto simp: nvl_rep_def)
  from nvl_insert_at [OF xs(1), of name val] show ?thesis unfolding xs(2) nvl_rep_def by blast
qed

lemma nvl_append_rep:
  assumes "nvl_rep h l es"
  shows "\<exists>ret l' h'. ezcfg_nv_linked_list_append l name val h = Some (ret, l', h') \<and>
    ret = (if nvl_alloc_ok h name es then EZCFG_RET_OK else EZCFG_RET_FAIL) \<and>
    nvl_rep h' l' (if ret = EZCFG_RET_OK then append_spec nv_key (name, val) es else es)"
proof -
  obtain xs where xs: "nvl_at h l xs" "map snd xs = es" using assms by (auto simp: nvl_rep_def)
  from nvl_append_at [OF xs(1), of name val] show ?thesis unfolding xs(2) nvl_rep_def by blast
qed

lemma map_of_replace_first:
  "n \<in> fst ` set es \<Longrightarrow> map_of (replace_first nv_key (n, v) es) = (map_of es)(n \<mapsto> v)"
proof (induction es)
  case (Cons e es)
  show ?case
  proof (cases "fst e = n")
    case True
    then show ?thesis by (cases e) (auto simp: nv_key_def)
  next
    case False
    then have "n \<in> fst ` set es" using Cons.prems by auto
    with Cons.IH False show ?thesis by (cases e) (auto simp: nv_key_def fun_eq_iff)
  qed
qed simp

lemma map_of_insert_spec: "map_of (insert_spec nv_key (n, v) es) = (map_of es)(n \<mapsto> v)"
  by (auto simp: insert_spec_def map_of_replace_first)

lemma map_of_append_spec: "map_of (append_spec nv_key (n, v) es) = (map_of es)(n \<mapsto> v)"
proof (cases "n \<in> fst ` set es")
  case False
  then have "map_of es n = None" by (simp add: map_of_eq_None_iff)
  with False show ?thesis by (auto simp: append_spec_def map_add_def fun_eq_iff split: option.split)
qed (simp add: append_spec_def map_of_replace_first)

lemma fst_replace_first: "map fst (replace_first nv_key (n, v) es) = map fst es"
  by (induction es) (auto simp: nv_key_def)

lemma distinct_insert_spec:
  "distinct (map fst es) \<Longrightarrow> distinct (map fst (insert_spec nv_key (n, v) es))"
  by (auto simp: insert_spec_def fst_replace_first)

section \<open>Properties\<close>

text \<open>Inserting and appending a setting always return.  They report success exactly when the
  allocations they make succeed; then a name that is present keeps its place and gets the new
  value, and a new name becomes the first (insert) or last (append) entry.  When an allocation
  fails the list is unchanged and remains usable.\<close>

theorem settings_list_store_refines:
  assumes "nvl_rep h l es"
  shows "(\<exists>ret l' h'. ezcfg_nv_linked_list_insert l name val h = Some (ret, l', h') \<and>
      ret = (if nvl_alloc_ok h name es then EZCFG_RET_OK else EZCFG_RET_FAIL) \<and>
      nvl_rep h' l' (if ret = EZCFG_RET_OK then insert_spec nv_key (name, val) es else es)) \<and>
    (\<exists>ret l' h'. ezcfg_nv_linked_list_append l name val h = Some (ret, l', h') \<and>
      ret = (if nvl_alloc_ok h name es then EZCFG_RET_OK else EZCFG_RET_FAIL) \<and>
      nvl_rep h' l' (if ret = EZCFG_RET_OK then append_spec nv_key (name, val) es else es))"
  using nvl_insert_rep [OF assms] nvl_append_rep [OF assms] by blast

definition sample_nv_heap :: "(nat \<Rightarrow> bool) \<Rightarrow> nvl_heap" where
  "sample_nv_heap f =
     \<lparr>cells = [0 \<mapsto> \<lparr>ln_data = Some (nv_entry_of ''b'' ''2''), ln_next = None\<rparr>], brk = 1, oom = f, dlog = []\<rparr>"

definition sample_nv_list :: nv_linked_list where
  "sample_nv_list = \<lparr>nvl_length = 1, nvl_head = Some 0, nvl_tail = Some 0\<rparr>"

lemma sample_nv_rep: "nvl_rep (sample_nv_heap f) sample_nv_list [(''b'', ''2'')]"
  unfolding nvl_rep_def
  by (rule exI [of _ "[(0, ''b'', ''2'')]"])
    (simp add: nvl_at_def ll_rep_at_def sample_nv_heap_def sample_nv_list_def heap_ok_def)

theorem settings_list_store_refines_witness:
  "(\<exists>l' h'. ezcfg_nv_linked_list_append sample_nv_list ''a'' ''1'' (sample_nv_heap (\<lambda>_. False)) =
      Some (EZCFG_RET_OK, l', h') \<and> nvl_rep h' l' [(''b'', ''2''), (''a'', ''1'')]) \<and>
   (\<exists>l' h'. ezcfg_nv_linked_list_insert sample_nv_list ''a'' ''1'' (sample_nv_heap (\<lambda>i. i = 3)) =
      Some (EZCFG_RET_FAIL, l', h') \<and> nvl_rep h' l' [(''b'', ''2'')])"
proof -
  have "nvl_alloc_ok (sample_nv_heap (\<lambda>_. False)) ''a'' [(''b'', ''2'')]"
    by (simp add: nvl_alloc_ok_def sample_nv_heap_def)
  moreover have "\<not> nvl_alloc_ok (sample_nv_heap (\<lambda>i. i = 3)) ''a'' [(''b'', ''2'')]"
    by (auto simp: nvl_alloc_ok_def sample_nv_heap_def intro!: exI [of _ "2::nat"])
  moreover have "append_spec nv_key (''a'', ''1'') [(''b'', ''2'')] = [(''b'', ''2''), (''a'', ''1'')]"
    by (simp add: append_spec_def nv_key_def)
  ultimately show ?thesis
    using settings_list_store_refines [OF sample_nv_rep [of "\<lambda>_. False"], of "''a''" "''1''"]
      settings_list_store_refines [OF sample_nv_rep [of "\<lambda>i. i = 3"], of "''a''" "''1''"] by auto
qed

text \<open>Removing a setting from a list that is not empty returns success exactly when the name is
  present and unlinks its entry, wherever it stands; afterwards (for lists without repeated names,
  which insert and append keep) the name is absent and every other name keeps its value.\<close>

theorem settings_list_remove_lookup:
  assumes "nvl_rep h l es" and "es \<noteq> []" and "distinct (map fst es)"
  shows "\<exists>ret l' h'. ezcfg_nv_linked_list_remove l name h = Some (ret, l', h') \<and>
    ret = (if name \<in> fst ` set es then EZCFG_RET_OK else EZCFG_RET_FAIL) \<and>
    ezcfg_nv_linked_list_in l' name h' = Some False \<and>
    (\<forall>other. ezcfg_nv_linked_list_get_node_value_by_name l' other h' =
       Some (if other = name then None else map_of es other)) \<and>
    ezcfg_nv_linked_list_get_length l' = int (length es) - (if name \<in> fst ` set es then 1 else 0)"
proof -
  have map: "map_of (remove_first nv_key (name, '''') es) = (map_of es)(name := None)"
    using assms(3)
  proof (induction es)
    case (Cons e es)
    then have "fst e \<notin> dom (map_of es)" by (simp add: dom_map_of_conv_image_fst)
    with Cons show ?case by (auto simp: nv_key_def fun_eq_iff)
  qed simp
  then have gone: "name \<notin> fst ` set (remove_first nv_key (name, '''') es)"
    by (metis fun_upd_same map_of_eq_None_iff)
  have len: "int (length (remove_first nv_key (name, '''') es)) =
      int (length es) - (if name \<in> fst ` set es then 1 else 0)"
    using assms(3)
  proof (induction es)
    case (Cons e es)
    then show ?case by (cases "fst e = name") (simp_all add: nv_key_def)
  qed simp
  from nvl_remove_rep [OF assms(1,2), of name "''''"] obtain ret l' h' where
    r: "ezcfg_nv_linked_list_remove l name h = Some (ret, l', h')"
    "ret = (if name \<in> fst ` set es then EZCFG_RET_OK else EZCFG_RET_FAIL)"
    "nvl_rep h' l' (remove_first nv_key (name, '''') es)" by blast
  show ?thesis
    using r(1,2) nvl_in_rep [OF r(3), of name] nvl_get_rep [OF r(3)] nvl_length_rep [OF r(3)] map gone len
    by (auto simp: ezcfg_nv_linked_list_get_length_def)
qed

theorem settings_list_remove_lookup_witness:
  "\<exists>l' h'. ezcfg_nv_linked_list_remove sample_nv_list ''b'' (sample_nv_heap (\<lambda>_. False)) =
      Some (EZCFG_RET_OK, l', h') \<and> ezcfg_nv_linked_list_in l' ''b'' h' = Some False \<and>
    ezcfg_nv_linked_list_get_length l' = 0"
  using settings_list_remove_lookup [OF sample_nv_rep [of "\<lambda>_. False"], of "''b''"] by auto

text \<open>As in the public list, removing from an empty list reads through the NULL head.\<close>

lemma settings_list_remove_empty_faults:
  "nvl_rep h l [] \<Longrightarrow> ezcfg_nv_linked_list_remove l name h = None"
  by (auto simp: nvl_rep_def nvl_at_def ll_rep_at_def ezcfg_nv_linked_list_remove_def)

end
