(* ===== verification/Http_Clients.thy ===== *)
theory Http_Clients
  imports Http_Spec
begin

text \<open>
  What the users of an HTTP message of \<^verbatim>\<open>basic/http/http.c\<close> get from it: credentials of the
  Authorization header, through the Base64 decoder and the authentication entries, and the fields
  of a posted form, through the settings list.
\<close>

section \<open>Bytes and characters\<close>

lemma bytes_of_bytes [simp]: "to_bytes (of_bytes bs) = bs"
proof -
  have "of_nat (of_char (char_of (unat b) :: char)) = b" for b :: "8 word"
  proof -
    have "unat b < 2 ^ LENGTH(8)" by (rule unsigned_less)
    then show ?thesis by simp
  qed
  then show ?thesis by (simp add: to_bytes_def of_bytes_def comp_def map_idI)
qed

lemma of_bytes_to_bytes [simp]: "of_bytes (to_bytes s) = s"
proof -
  have "char_of (unat (of_nat (of_char c) :: 8 word)) = c" for c :: char
    using of_char_of [of "of_char c :: nat"] by (simp add: unsigned_of_nat take_bit_eq_mod)
  then show ?thesis by (simp add: to_bytes_def of_bytes_def comp_def map_idI)
qed

lemma length_to_bytes [simp]: "length (to_bytes s) = length s"
  by (simp add: to_bytes_def)

lemma c_string_cstr [simp]: "cstr s \<Longrightarrow> c_string s = s"
  by (simp add: c_string_def cstr_def takeWhile_eq_all_conv) metis

section \<open>Posted forms\<close>

text \<open>The text of a form: fields \<^verbatim>\<open>name=value\<close> joined by ampersands.\<close>

definition field_text :: "string \<times> string \<Rightarrow> string" where
  "field_text kv = fst kv @ ''='' @ snd kv"

fun form_text :: "(string \<times> string) list \<Rightarrow> string" where
  "form_text [] = []"
| "form_text [kv] = field_text kv"
| "form_text (kv # kvs) = field_text kv @ ''&'' @ form_text kvs"

definition field_ok :: "string \<times> string \<Rightarrow> bool" where
  "field_ok kv \<longleftrightarrow> CHR ''='' \<notin> set (fst kv) \<and> CHR ''&'' \<notin> set (fst kv) \<and> CHR ''&'' \<notin> set (snd kv) \<and>
     cstr (fst kv) \<and> cstr (snd kv)"

lemma form_text_cstr: "\<forall>kv \<in> set kvs. field_ok kv \<Longrightarrow> cstr (form_text kvs)"
  by (induction kvs rule: form_text.induct) (auto simp: field_text_def field_ok_def NUL_def)

lemma upto_append: "upto (s @ t) t = s"
  by (simp add: upto_def)

text \<open>One field is one insertion.\<close>

lemma parse_post_field:
  assumes "field_ok (n, v)" "ezcfg_nv_linked_list_insert l n v h = Some (ret, l', h')" "ret = EZCFG_RET_OK"
  shows "parse_post_loop (field_text (n, v)) l h = Some (True, l', h')"
    and "parse_post_loop (field_text (n, v) @ ''&'' @ rest) l h = parse_post_loop rest l' h'"
proof -
  have amp: "CHR ''&'' \<notin> set (field_text (n, v))" using assms(1) by (simp add: field_ok_def field_text_def)
  have eq: "strchr (field_text (n, v)) (CHR ''='') = Some (CHR ''='' # v)"
    "upto (field_text (n, v)) (CHR ''='' # v) = n"
    using assms(1) upto_append [of n "CHR ''='' # v"] by (simp_all add: field_ok_def field_text_def cstr_simps)
  have "strchr (field_text (n, v)) (CHR ''&'') = None" using amp by simp
  then show "parse_post_loop (field_text (n, v)) l h = Some (True, l', h')"
    using eq assms(2,3) by (simp add: parse_post_loop.simps [of "field_text (n, v)"] del: strchr_None_iff)
  have "strchr (field_text (n, v) @ ''&'' @ rest) (CHR ''&'') = Some (CHR ''&'' # rest)"
    "upto (field_text (n, v) @ ''&'' @ rest) (CHR ''&'' # rest) = field_text (n, v)"
    using amp upto_append [of "field_text (n, v)" "CHR ''&'' # rest"] by (simp_all add: cstr_simps)
  then show "parse_post_loop (field_text (n, v) @ ''&'' @ rest) l h = parse_post_loop rest l' h'"
    using eq assms(2,3) by (simp add: parse_post_loop.simps [of "field_text (n, v) @ CHR ''&'' # rest"])
qed

lemma nvl_insert_oom: "ezcfg_nv_linked_list_insert l n v h = Some (ret, l', h') \<Longrightarrow> oom h' = oom h"
  by (auto simp: ezcfg_nv_linked_list_insert_def nvl_replace_def nvl_node_new_def bind_eq_Some_conv halloc_def
      strdup_val_def hstore_def link_node_del_def hfree_def split: option.splits if_splits)

lemma nvl_insert_never_oom:
  assumes "nvl_rep h l es" "\<forall>i. \<not> oom h i"
  obtains l' h' where "ezcfg_nv_linked_list_insert l n v h = Some (EZCFG_RET_OK, l', h')"
    "nvl_rep h' l' (insert_spec nv_key (n, v) es)" "\<forall>i. \<not> oom h' i"
proof -
  have "nvl_alloc_ok h n es" using assms(2) by (simp add: nvl_alloc_ok_def)
  with nvl_insert_rep [OF assms(1), of n v] obtain l' h' where
    "ezcfg_nv_linked_list_insert l n v h = Some (EZCFG_RET_OK, l', h')"
    "nvl_rep h' l' (insert_spec nv_key (n, v) es)" by auto
  with that assms(2) nvl_insert_oom [OF this(1)] show ?thesis by simp
qed

fun insert_all :: "(string \<times> string) list \<Rightarrow> (string \<times> string) list \<Rightarrow> (string \<times> string) list" where
  "insert_all [] es = es"
| "insert_all (kv # kvs) es = insert_all kvs (insert_spec nv_key kv es)"

lemma map_of_insert_all: "map_of (insert_all kvs es) = map_of es ++ map_of (rev kvs)"
proof (induction kvs arbitrary: es)
  case (Cons kv kvs)
  obtain n v where "kv = (n, v)" by (cases kv)
  with Cons show ?case by (auto simp: map_of_insert_spec map_add_def fun_eq_iff split: option.split)
qed simp

lemma parse_post_fields:
  "kvs \<noteq> [] \<Longrightarrow> \<forall>kv \<in> set kvs. field_ok kv \<Longrightarrow> nvl_rep h l es \<Longrightarrow> \<forall>i. \<not> oom h i \<Longrightarrow>
    \<exists>l' h'. parse_post_loop (form_text kvs) l h = Some (True, l', h') \<and> nvl_rep h' l' (insert_all kvs es)"
proof (induction kvs arbitrary: l h es rule: form_text.induct)
  case 1
  then show ?case by simp
next
  case (2 kv)
  obtain n v where kv: "kv = (n, v)" by (cases kv)
  from nvl_insert_never_oom [OF 2(3,4), of n v] obtain l' h' where
    i: "ezcfg_nv_linked_list_insert l n v h = Some (EZCFG_RET_OK, l', h')"
    "nvl_rep h' l' (insert_spec nv_key (n, v) es)" .
  with parse_post_field(1) [OF _ i(1) refl] 2(2) kv show ?case by simp
next
  case (3 kv kv2 kvs)
  obtain n v where kv: "kv = (n, v)" by (cases kv)
  from nvl_insert_never_oom [OF 3(4,5), of n v] obtain l1 h1 where
    i: "ezcfg_nv_linked_list_insert l n v h = Some (EZCFG_RET_OK, l1, h1)"
    "nvl_rep h1 l1 (insert_spec nv_key (n, v) es)" "\<forall>i. \<not> oom h1 i" .
  have "parse_post_loop (form_text (kv # kv2 # kvs)) l h = parse_post_loop (form_text (kv2 # kvs)) l1 h1"
    using parse_post_field(2) [OF _ i(1) refl] 3(3) kv by simp
  with 3(1) [OF _ _ i(2,3)] 3(3) kv show ?case by simp
qed

section \<open>Properties\<close>

text \<open>C10: parsing the body of a posted form inserts its fields one after another: for every
  non-empty sequence of fields without stray delimiters it succeeds, and afterwards each name has
  the value of its last field, while the names that are not in the form keep theirs.\<close>

theorem http_post_data_fields:
  assumes "message_body http = Some (form_text kvs)" and "kvs \<noteq> []" and "\<forall>kv \<in> set kvs. field_ok kv"
    and "nvl_rep h l es" and "\<forall>i. \<not> oom h i"
  shows "\<exists>l' h'. ezcfg_http_parse_post_data http l h = Some (True, l', h') \<and>
    (\<forall>name. ezcfg_nv_linked_list_get_node_value_by_name l' name h' =
       Some (case map_of (rev kvs) name of Some v \<Rightarrow> Some v | None \<Rightarrow> map_of es name))"
proof -
  from parse_post_fields [OF assms(2-5)] obtain l' h' where
    r: "parse_post_loop (form_text kvs) l h = Some (True, l', h')" "nvl_rep h' l' (insert_all kvs es)" by blast
  have "ezcfg_http_parse_post_data http l h = Some (True, l', h')"
    using assms(1) r(1) form_text_cstr [OF assms(3)] by (simp add: ezcfg_http_parse_post_data_def)
  then show ?thesis using nvl_get_rep [OF r(2)] by (auto simp: map_of_insert_all map_add_def)
qed

theorem http_post_data_fields_witness:
  "\<exists>http l' h'. message_body http = Some ''a=1&b=x=y&a=3'' \<and>
     ezcfg_http_parse_post_data http sample_nv_list (sample_nv_heap (\<lambda>_. False)) = Some (True, l', h') \<and>
     ezcfg_nv_linked_list_get_node_value_by_name l' ''a'' h' = Some (Some ''3'') \<and>
     ezcfg_nv_linked_list_get_node_value_by_name l' ''b'' h' = Some (Some ''x=y'')"
proof -
  obtain http0 where new: "ezcfg_http_new True \<lparr>cells = (\<lambda>_. None), brk = 0, oom = (\<lambda>_. False), dlog = []\<rparr> = Some http0"
    by (simp add: ezcfg_http_new_def)
  let ?kvs = "[(''a'', ''1''), (''b'', ''x=y''), (''a'', ''3'')]"
  let ?http = "http0\<lparr>message_body := Some (form_text ?kvs)\<rparr>"
  have body: "message_body ?http = Some (form_text ?kvs)" "form_text ?kvs = ''a=1&b=x=y&a=3''"
    by (simp_all add: field_text_def)
  have fields: "?kvs \<noteq> []" "\<forall>kv \<in> set ?kvs. field_ok kv" by (simp_all add: field_ok_def cstr_def NUL_def)
  have "\<forall>i. \<not> oom (sample_nv_heap (\<lambda>_. False)) i" by (simp add: sample_nv_heap_def)
  from http_post_data_fields [OF body(1) fields sample_nv_rep this] obtain l' h' where
    r: "ezcfg_http_parse_post_data ?http sample_nv_list (sample_nv_heap (\<lambda>_. False)) = Some (True, l', h')"
    and get: "\<forall>name. ezcfg_nv_linked_list_get_node_value_by_name l' name h' =
      Some (case map_of (rev ?kvs) name of Some v \<Rightarrow> Some v | None \<Rightarrow> map_of [(''b'', ''2'')] name)" by blast
  have "message_body ?http = Some ''a=1&b=x=y&a=3''" using body by simp
  moreover have "ezcfg_nv_linked_list_get_node_value_by_name l' ''a'' h' = Some (Some ''3'')"
    "ezcfg_nv_linked_list_get_node_value_by_name l' ''b'' h' = Some (Some ''x=y'')"
    unfolding get [rule_format] by simp_all
  ultimately show ?thesis using r by blast
qed

text \<open>Credentials sent in the Authorization header arrive: when the header that the lookup finds
  is \<^verbatim>\<open>Basic\<close> followed by the Base64 text of user and secret joined by a colon, and they fit the
  buffer of 1024 bytes, the entry gets the type of HTTP basic authentication, exactly that user and
  exactly that secret (which may itself contain colons).\<close>

theorem http_basic_credentials:
  assumes "http_rep http (ds @ d # es)" and "strcasecmp ''Authorization'' (hh_name d) = 0"
    and "\<forall>e \<in> set ds. strcasecmp ''Authorization'' (hh_name e) \<noteq> 0"
    and "ezcfg_util_base64_encode (to_bytes (user @ '':'' @ secret)) n = Inr code"
    and "hh_value d = Some (''Basic '' @ of_bytes code)"
    and "CHR '':'' \<notin> set user" and "cstr user" and "cstr secret"
    and "3 * ((length user + length secret + 3) div 3) < 1024"
  shows "ezcfg_http_parse_auth (\<lambda>_. True) http auth =
    Some (True, auth\<lparr>au_type := Some ''http-basic'', au_user := Some user, au_secret := Some secret\<rparr>)"
proof -
  let ?t = "user @ CHR '':'' # secret"
  have got: "get_http_header_value http ''Authorization'' = Some (Some (''Basic '' @ of_bytes code))"
    using get_header_value_rep [OF assms(1), of "''Authorization''"] assms(2,3,5) by simp
  have "(3 + (length user + length secret)) div 3 \<le> 341" using assms(9) by (simp add: add.commute)
  then have "\<exists>dst. ezcfg_util_base64_encode (to_bytes ?t) (4 * ((length (to_bytes ?t) + 2) div 3) + 1) = Inr dst \<and>
      ezcfg_util_base64_decode dst 1024 = Some (Inr (to_bytes ?t))"
    using base64_codec [of "to_bytes ?t" "4 * ((length (to_bytes ?t) + 2) div 3) + 1" 1024] by auto
  then have decode: "ezcfg_util_base64_decode code 1024 = Some (Inr (to_bytes ?t))"
    using assms(4) by (auto simp: ezcfg_util_base64_encode_def Let_def split: if_splits)
  have plain: "cstr ?t" using assms(7,8) by (simp add: NUL_def)
  have colon: "strchr ?t (CHR '':'') = Some (CHR '':'' # secret)" "upto ?t (CHR '':'' # secret) = user"
    using assms(6) upto_append [of user "CHR '':'' # secret"] by (simp_all add: cstr_simps)
  have "strncmp (''Basic '' @ of_bytes code) ''Basic '' 6 = 0" by (simp add: strncmp_def eval_nat_numeral)
  with got decode plain colon show ?thesis
    by (simp add: ezcfg_http_parse_auth_def ezcfg_auth_set_type_def ezcfg_auth_set_user_def
        ezcfg_auth_set_secret_def EZCFG_AUTH_TYPE_HTTP_BASIC_STRING_def)
qed

theorem http_basic_credentials_witness:
  "\<exists>http. ezcfg_http_get_header_value http ''authorization'' = Some (Some ''Basic YTpiOmM='') \<and>
     ezcfg_http_parse_auth (\<lambda>_. True) http
       \<lparr>au_type = None, au_user = None, au_realm = None, au_domain = None, au_secret = None\<rparr> =
     Some (True, \<lparr>au_type = Some ''http-basic'', au_user = Some ''a'', au_realm = None, au_domain = None,
       au_secret = Some ''b:c''\<rparr>)"
proof -
  let ?d = "\<lparr>hh_name = ''Authorization'', hh_value = Some ''Basic YTpiOmM='', is_known_header = True\<rparr>"
  let ?h = "\<lparr>cells = [0 \<mapsto> \<lparr>ln_data = Some ?d, ln_next = None\<rparr>], brk = 1, oom = (\<lambda>_. False), dlog = []\<rparr> :: http_heap"
  obtain http0 where new: "ezcfg_http_new True ?h = Some http0" by (simp add: ezcfg_http_new_def)
  let ?http = "http0\<lparr>header_head := Some 0, header_tail := Some 0\<rparr>"
  have "ht_heap http0 = ?h" using new by (auto simp: ezcfg_http_new_def)
  then have "http_at ?http [(0, ?d)]" by (simp add: http_at_def heap_ok_def)
  then have rep: "http_rep ?http ([] @ ?d # [])" using http_repI by fastforce
  let ?code = "to_bytes ''YTpiOmM=''"
  have same: "strcasecmp ''Authorization'' (hh_name ?d) = 0" "strcasecmp ''authorization'' (hh_name ?d) = 0"
    by (simp_all add: tolower_def)
  have code: "ezcfg_util_base64_encode (to_bytes (''a'' @ '':'' @ ''b:c'')) 9 = Inr ?code"
    by code_simp
  have "hh_value ?d = Some (''Basic '' @ of_bytes ?code)" by simp
  from http_basic_credentials [OF rep same(1) _ code this, where auth =
      "\<lparr>au_type = None, au_user = None, au_realm = None, au_domain = None, au_secret = None\<rparr>"]
    get_header_value_rep [OF rep, of "''authorization''"] same(2)
  show ?thesis
    by (intro exI [of _ ?http]) (simp add: ezcfg_http_get_header_value_def cstr_def NUL_def)
qed

end
