(* ===== verification/Http_Write.thy ===== *)
theory Http_Write
  imports Http_Spec
begin

text \<open>
  Writing an HTTP message of \<^verbatim>\<open>basic/http/http.c\<close>: \<open>message_text\<close> is the text of a message, and
  the functions that write and measure a message agree with it, in a buffer that is large enough.
  In a buffer that is too small for the start line, the remaining size becomes negative and the
  next write leaves the buffer.
\<close>

section \<open>The text of a message\<close>

definition header_text :: "http_header \<Rightarrow> string" where
  "header_text d = hh_name d @ '':'' @ value_text d @ EZCFG_HTTP_CRLF_STRING"

definition headers_text :: "http_header list \<Rightarrow> string" where
  "headers_text ds = concat (map header_text ds)"

lemma headers_text_simps [simp]:
  "headers_text [] = []" "headers_text (d # ds) = header_text d @ headers_text ds"
  by (simp_all add: headers_text_def)

definition version_text :: "http \<Rightarrow> string" where
  "version_text http = ''HTTP/'' @ decimal (unat (version_major http)) @ ''.'' @ decimal (unat (version_minor http))"

text \<open>The start line without its CRLF, for an object that has one.\<close>

definition start_text :: "http \<Rightarrow> string option" where
  "start_text http =
     (case ht_state http of
        HTTP_REQUEST \<Rightarrow>
          (if method_index http = 0 then None
           else do { m \<leftarrow> method_string http; u \<leftarrow> request_uri http; Some (m @ '' '' @ u @ '' '' @ version_text http) })
      | HTTP_RESPONSE \<Rightarrow> do {
          (code, reason) \<leftarrow> status_entry http;
          if 100 \<le> code \<and> code \<le> 999 then do { r \<leftarrow> reason; Some (version_text http @ '' '' @ decimal code @ '' '' @ r) }
          else None
        })"

definition body_text :: "http \<Rightarrow> string" where
  "body_text http = (case message_body http of None \<Rightarrow> [] | Some b \<Rightarrow> b)"

definition body_ok :: "http \<Rightarrow> bool" where
  "body_ok http \<longleftrightarrow> message_body_len http = int (length (body_text http))"

text \<open>An object that can be written: a start line, a header chain, a method.\<close>

definition sendable :: "http \<Rightarrow> string \<Rightarrow> http_header list \<Rightarrow> bool" where
  "sendable http start ds \<longleftrightarrow>
     start_text http = Some start \<and> http_rep http ds \<and> method_index http \<noteq> 0 \<and> body_ok http"

definition head_text :: "string \<Rightarrow> http_header list \<Rightarrow> string" where
  "head_text start ds = start @ EZCFG_HTTP_CRLF_STRING @ headers_text ds @ EZCFG_HTTP_CRLF_STRING"

section \<open>Numbers\<close>

lemma decimal_not_Nil [simp]: "decimal n \<noteq> []"
  by (simp add: decimal.simps [of n])

lemma count_digits_decimal: "count_digits n = int (length (decimal n))"
proof (induction n rule: decimal.induct)
  case (1 n)
  then show ?case by (cases "n < 10") (simp_all add: decimal.simps [of n] count_digits.simps [of n] div_eq_0_iff)
qed

lemma decimal3_three:
  assumes "100 \<le> n" "n \<le> 999"
  shows "length (decimal n) = 3"
proof -
  have "10 \<le> n div 10" "n div 10 \<le> 99" using div_le_mono [OF assms(1), of 10] div_le_mono [OF assms(2), of 10] by simp_all
  then have "\<not> n < 10" "\<not> n div 10 < 10" "n div 10 div 10 < 10"
    using assms(1) div_le_mono [of "n div 10" 99 10] by simp_all
  then show ?thesis
    by (simp add: decimal.simps [of n] decimal.simps [of "n div 10"] decimal.simps [of "n div 10 div 10"])
qed

lemma crlf_length [simp]: "length EZCFG_HTTP_CRLF_STRING = 2"
  by (simp add: EZCFG_HTTP_CRLF_STRING_def)

section \<open>Writing behind what is there\<close>

text \<open>The buffer \<open>buf\<close> after \<open>t\<close> has been written to its start: only one more byte changed.\<close>

definition holds_text :: "string \<Rightarrow> string \<Rightarrow> string \<Rightarrow> bool" where
  "holds_text buf t buf' \<longleftrightarrow>
     length buf' = length buf \<and> take (length t) buf' = t \<and>
     drop (Suc (length t)) buf' = drop (Suc (length t)) buf"

lemma holds_text_start [simp]: "holds_text buf [] buf"
  by (simp add: holds_text_def)

lemma holds_text_drop:
  assumes "holds_text buf t buf'" "length t < k"
  shows "drop k buf' = drop k buf"
proof -
  have "k = (k - Suc (length t)) + Suc (length t)" using assms(2) by simp
  then show ?thesis using assms(1) unfolding holds_text_def by (metis drop_drop)
qed

lemma snprintf_holds:
  assumes "holds_text buf t buf'" "off = int (length t)" "int (length s) < n" "n \<le> 2147483647"
    and "length t + length s < length buf"
  shows "\<exists>buf''. c_snprintf buf' off n s = Some (int (length s), buf'') \<and> holds_text buf (t @ s) buf''"
proof -
  have size: "unat (word_of_int n :: 32 word) = nat n" using assms(3,4) by (simp add: unat_eq_nat_uint uint_word_of_int)
  let ?b = "take (length t) buf' @ (s @ [NUL]) @ drop (length t + length (s @ [NUL])) buf'"
  have len: "length buf' = length buf" using assms(1) by (simp add: holds_text_def)
  have all: "take (nat n - 1) s = s" using assms(3) by simp
  have "c_snprintf buf' off n s = Some (int (length s), ?b)"
    using assms(2,3,5) len size all by (simp add: c_snprintf_def buf_write_def)
  moreover have t: "take (length t) buf' = t" using assms(1) by (simp add: holds_text_def)
  have "drop (Suc (length t + length s)) buf' = drop (Suc (length t + length s)) buf"
    using holds_text_drop [OF assms(1)] by simp
  then have "holds_text buf (t @ s) ?b"
    using assms(5) len t unfolding holds_text_def by simp
  ultimately show ?thesis by blast
qed

lemma bytes_hold:
  assumes "holds_text buf t buf'" "off = int (length t)" "length t + length s \<le> length buf"
    and "s \<noteq> []"
  shows "\<exists>buf''. buf_write buf' (nat off) s = Some buf'' \<and> length buf'' = length buf \<and>
    take (length (t @ s)) buf'' = t @ s \<and> drop (length (t @ s)) buf'' = drop (length (t @ s)) buf"
proof -
  let ?b = "take (length t) buf' @ s @ drop (length t + length s) buf'"
  have len: "length buf' = length buf" and t: "take (length t) buf' = t"
    using assms(1) by (simp_all add: holds_text_def)
  have "drop (length t + length s) buf' = drop (length t + length s) buf"
    using holds_text_drop [OF assms(1)] assms(4) by simp
  moreover have "buf_write buf' (nat off) s = Some ?b" using assms(2,3) len by (simp add: buf_write_def)
  ultimately show ?thesis using assms(3) len t by simp
qed

section \<open>The parts of a message\<close>

lemma write_start_spec:
  assumes "start_text http = Some start"
  shows "ezcfg_http_write_start_line http buf off len = c_snprintf buf off len (start @ EZCFG_HTTP_CRLF_STRING)"
    and "ezcfg_http_get_start_line_length http = Some (int (length (start @ EZCFG_HTTP_CRLF_STRING)))"
proof -
  have "decimal3 c = decimal c" if "100 \<le> c" "c \<le> 999" for c
    using decimal3_three [OF that] by (simp add: decimal3_def)
  note three = this
  consider (request) m u where "ht_state http = HTTP_REQUEST" "method_index http \<noteq> 0" "method_string http = Some m"
      "request_uri http = Some u" "start = m @ '' '' @ u @ '' '' @ version_text http"
    | (response) c r where "ht_state http = HTTP_RESPONSE" "status_entry http = Some (c, Some r)" "100 \<le> c" "c \<le> 999"
      "start = version_text http @ '' '' @ decimal c @ '' '' @ r"
    using assms by (cases "ht_state http") (auto simp: start_text_def bind_eq_Some_conv split: if_splits)
  note start_cases = this
  show "ezcfg_http_write_start_line http buf off len = c_snprintf buf off len (start @ EZCFG_HTTP_CRLF_STRING)"
    by (cases rule: start_cases)
      (simp_all add: ezcfg_http_write_start_line_def ezcfg_http_write_request_line_def
        ezcfg_http_write_status_line_def version_text_def three)
  show "ezcfg_http_get_start_line_length http = Some (int (length (start @ EZCFG_HTTP_CRLF_STRING)))"
    by (cases rule: start_cases)
      (simp_all add: ezcfg_http_get_start_line_length_def ezcfg_http_get_request_line_length_def
        ezcfg_http_get_status_line_length_def version_text_def count_digits_decimal decimal3_three)
qed

lemma headers_length_path:
  "lpath (cells h) p xs None \<Longrightarrow>
     headers_length_loop h p c = Some (c + int (length (headers_text (map snd xs))))"
proof (induction xs arbitrary: p c)
  case Nil
  then show ?case by (simp add: headers_length_loop.simps)
next
  case (Cons y ys)
  obtain a d where y: "y = (a, d)" by force
  with Cons.prems obtain n where n: "p = Some a" "cells h a = Some n" "ln_data n = Some d"
    "lpath (cells h) (ln_next n) ys None" by (auto split: option.splits)
  from n y Cons.IH [OF n(4)] show ?case
    by (simp add: headers_length_loop.simps [of h "Some a"] header_text_def)
qed

lemma write_headers_path:
  "lpath (cells h) p xs None \<Longrightarrow> holds_text buf t buf' \<Longrightarrow> off + c = int (length t) \<Longrightarrow>
     length t + length (headers_text (map snd xs)) < length buf \<Longrightarrow> int (length buf) = off + len \<Longrightarrow>
     0 \<le> off \<Longrightarrow> 0 \<le> c \<Longrightarrow> int (length buf) \<le> 2147483647 \<Longrightarrow>
     \<exists>buf''. write_headers_loop h p buf' off len c =
         Some (c + int (length (headers_text (map snd xs))), buf'') \<and>
       holds_text buf (t @ headers_text (map snd xs)) buf''"
proof (induction xs arbitrary: p t c buf')
  case Nil
  then show ?case by (simp add: write_headers_loop.simps)
next
  case (Cons y ys)
  obtain a d where y: "y = (a, d)" by force
  with Cons.prems(1) obtain n where n: "p = Some a" "cells h a = Some n" "ln_data n = Some d"
    "lpath (cells h) (ln_next n) ys None" by (auto split: option.splits)
  have "\<exists>b. c_snprintf buf' (off + c) (len - c) (header_text d) = Some (int (length (header_text d)), b) \<and>
      holds_text buf (t @ header_text d) b"
    using Cons.prems y by (intro snprintf_holds) auto
  then obtain b where b: "c_snprintf buf' (off + c) (len - c) (header_text d) = Some (int (length (header_text d)), b)"
    "holds_text buf (t @ header_text d) b" by blast
  have "\<exists>buf''. write_headers_loop h (ln_next n) b off len (c + int (length (header_text d))) =
         Some (c + int (length (header_text d)) + int (length (headers_text (map snd ys))), buf'') \<and>
       holds_text buf ((t @ header_text d) @ headers_text (map snd ys)) buf''"
    using Cons.prems y by (intro Cons.IH [OF n(4) b(2)]) auto
  then show ?case using n b(1) y
    by (auto simp: write_headers_loop.simps [of h "Some a"] header_text_def)
qed

section \<open>A whole message\<close>

lemma message_length:
  assumes "sendable http start ds"
  shows "ezcfg_http_get_message_length http = Some (int (length (head_text start ds @ body_text http)))"
proof -
  from assms obtain xs where xs: "http_at http xs" "map snd xs = ds" by (auto simp: sendable_def http_rep_def)
  then have "lpath (cells (ht_heap http)) (header_head http) xs None" by (simp add: http_at_def)
  from headers_length_path [OF this, of 0] xs(2) assms
  have "ezcfg_http_get_headers_length http = Some (int (length (headers_text ds)))"
    by (simp add: ezcfg_http_get_headers_length_def sendable_def)
  then show ?thesis using assms write_start_spec(2) [of http start]
    by (simp add: ezcfg_http_get_message_length_def sendable_def head_text_def body_ok_def
        ezcfg_http_get_crlf_length_def ezcfg_http_get_message_body_len_def)
qed

lemma write_message_text:
  assumes send: "sendable http start ds"
    and room: "length (head_text start ds @ body_text http) < length buf" "int (length buf) \<le> 2147483647"
  shows "\<exists>buf'. ezcfg_http_write_message http buf (int (length buf)) =
      Some (int (length (head_text start ds @ body_text http)), buf') \<and>
    holds_text buf (head_text start ds @ body_text http) buf'"
proof -
  let ?len = "int (length buf)" and ?s = "start @ EZCFG_HTTP_CRLF_STRING" and ?h = "headers_text ds"
  from send obtain xs where xs: "http_at http xs" "map snd xs = ds" by (auto simp: sendable_def http_rep_def)
  have path: "lpath (cells (ht_heap http)) (header_head http) xs None" using xs by (simp add: http_at_def)
  have start: "start_text http = Some start" and idx: "method_index http \<noteq> 0" and body: "body_ok http"
    using send by (simp_all add: sendable_def)
  have total: "length ?s + length ?h + 2 + length (body_text http) < length buf"
    using room(1) by (simp add: head_text_def)
  have "\<exists>b. c_snprintf buf 0 ?len ?s = Some (int (length ?s), b) \<and> holds_text buf ([] @ ?s) b"
    using room(2) total by (intro snprintf_holds) auto
  then obtain b1 where b1: "ezcfg_http_write_start_line http buf 0 ?len = Some (int (length ?s), b1)"
    "holds_text buf ?s b1" using write_start_spec(1) [OF start] by auto
  have "\<exists>b. write_headers_loop (ht_heap http) (header_head http) b1 (int (length ?s)) (?len - int (length ?s)) 0 =
      Some (0 + int (length (headers_text (map snd xs))), b) \<and> holds_text buf (?s @ headers_text (map snd xs)) b"
    using room(2) total xs(2) by (intro write_headers_path [OF path b1(2)]) auto
  then obtain b2 where b2: "ezcfg_http_write_headers http b1 (int (length ?s)) (?len - int (length ?s)) =
      Some (int (length ?h), b2)" "holds_text buf (?s @ ?h) b2"
    using xs(2) idx by (auto simp: ezcfg_http_write_headers_def)
  let ?off = "int (length ?s) + int (length ?h)"
  have "\<exists>b. c_snprintf b2 ?off (?len - int (length ?s) - int (length ?h)) EZCFG_HTTP_CRLF_STRING =
      Some (int (length EZCFG_HTTP_CRLF_STRING), b) \<and> holds_text buf ((?s @ ?h) @ EZCFG_HTTP_CRLF_STRING) b"
    using room(2) total by (intro snprintf_holds [OF b2(2)]) auto
  then obtain b3 where b3: "ezcfg_http_write_crlf b2 ?off (?len - int (length ?s) - int (length ?h)) = Some (2, b3)"
    "holds_text buf (head_text start ds) b3" by (auto simp: ezcfg_http_write_crlf_def head_text_def)
  have n: "int (length (head_text start ds)) = ?off + 2" by (simp add: head_text_def)
  show ?thesis
  proof (cases "message_body http")
    case None
    then have "ezcfg_http_write_message http buf ?len = Some (?off + 2, b3)"
      using b1(1) b2(1) b3(1) by (simp add: ezcfg_http_write_message_def ezcfg_http_get_message_body_def)
    with None b3(2) n show ?thesis by (simp add: body_text_def)
  next
    case (Some bt)
    have bl: "message_body_len http = int (length bt)" using body Some by (simp add: body_ok_def body_text_def)
    have "\<exists>b4. buf_write b3 (nat (?off + 2)) bt = Some b4 \<and> holds_text buf (head_text start ds @ bt) b4"
    proof (cases "bt = []")
      case True
      moreover have "nat (?off + 2) \<le> length b3" using b3(2) n total by (simp add: holds_text_def)
      ultimately show ?thesis using b3(2) by (simp add: buf_write_def)
    next
      case False
      from bytes_hold [OF b3(2), of "?off + 2" bt] n total False Some obtain b4 where
        "buf_write b3 (nat (?off + 2)) bt = Some b4" "length b4 = length buf"
        "take (length (head_text start ds @ bt)) b4 = head_text start ds @ bt"
        "drop (length (head_text start ds @ bt)) b4 = drop (length (head_text start ds @ bt)) buf"
        by (auto simp: body_text_def)
      moreover from this(4) have "drop (Suc (length (head_text start ds @ bt))) b4 = drop (Suc (length (head_text start ds @ bt))) buf"
        by (metis drop_Suc drop_drop drop_tl)
      ultimately show ?thesis by (simp add: holds_text_def)
    qed
    then obtain b4 where b4: "buf_write b3 (nat (?off + 2)) bt = Some b4"
      "holds_text buf (head_text start ds @ bt) b4" by blast
    have room4: "\<not> ?len - int (length ?s) - int (length ?h) - 2 < int (length bt)"
      using total Some by (simp add: body_text_def)
    have "ezcfg_http_write_message http buf ?len = Some (?off + 2 + int (length bt), b4)"
      using b1(1) b2(1) b3(1) b4(1) Some bl room4
      by (simp add: ezcfg_http_write_message_def ezcfg_http_get_message_body_def ezcfg_http_write_message_body_def)
    with Some b4(2) n show ?thesis by (simp add: body_text_def)
  qed
qed

section \<open>A buffer that is too small\<close>

lemma snprintf_outside:
  assumes "int (length buf) < off" "n < 0" "-2147483648 \<le> n"
  shows "c_snprintf buf off n s = None"
proof -
  have "nat off > length buf" using assms(1) by simp
  moreover have "unat (word_of_int n :: 32 word) \<noteq> 0"
  proof -
    have "n mod 4294967296 = (n + 4294967296) mod 4294967296" by simp
    also have "\<dots> = n + 4294967296" using assms(2,3) by (intro mod_pos_pos_trivial) auto
    finally show ?thesis using assms(2,3) by (simp add: unat_eq_nat_uint uint_word_of_int)
  qed
  ultimately show ?thesis by (simp add: c_snprintf_def buf_write_def)
qed

lemma snprintf_short:
  assumes "0 < n" "n \<le> 2147483647" "n \<le> int (length buf)" "n \<le> int (length s)"
  shows "\<exists>buf'. c_snprintf buf 0 n s = Some (int (length s), buf') \<and> length buf' = length buf"
proof -
  have "unat (word_of_int n :: 32 word) = nat n" using assms(1,2) by (simp add: unat_eq_nat_uint uint_word_of_int)
  then show ?thesis using assms by (auto simp: c_snprintf_def buf_write_def Let_def nat_le_iff)
qed

lemma write_message_overflow:
  assumes send: "sendable http start ds" and buf: "buf \<noteq> []" "int (length buf) \<le> 2147483647"
    and long: "length buf < length (start @ EZCFG_HTTP_CRLF_STRING)" "int (length (start @ EZCFG_HTTP_CRLF_STRING)) \<le> 2147483647"
  shows "ezcfg_http_write_message http buf (int (length buf)) = None"
proof -
  let ?s = "start @ EZCFG_HTTP_CRLF_STRING" and ?len = "int (length buf)"
  from send obtain xs where xs: "http_at http xs" "map snd xs = ds" by (auto simp: sendable_def http_rep_def)
  have path: "lpath (cells (ht_heap http)) (header_head http) xs None" using xs by (simp add: http_at_def)
  have start: "start_text http = Some start" and idx: "method_index http \<noteq> 0" using send by (simp_all add: sendable_def)
  have bounds: "0 < ?len" "?len \<le> int (length ?s)" using buf(1) long(1) by auto
  from snprintf_short [OF bounds(1) buf(2) _ bounds(2), of buf] obtain b where
    b: "ezcfg_http_write_start_line http buf 0 ?len = Some (int (length ?s), b)" "length b = length buf"
    using write_start_spec(1) [OF start] by auto
  have out: "c_snprintf b (int (length ?s)) (?len - int (length ?s)) t = None" for t
    using b(2) long by (intro snprintf_outside) auto
  show ?thesis
  proof (cases xs)
    case Nil
    then have "ezcfg_http_write_headers http b (int (length ?s)) (?len - int (length ?s)) = Some (0, b)"
      using path idx by (simp add: ezcfg_http_write_headers_def write_headers_loop.simps)
    then show ?thesis using b(1) out by (simp add: ezcfg_http_write_message_def ezcfg_http_write_crlf_def)
  next
    case (Cons y ys)
    obtain a d where y: "y = (a, d)" by force
    with path Cons obtain n where "header_head http = Some a" "cells (ht_heap http) a = Some n" "ln_data n = Some d"
      by (auto split: option.splits)
    then have "ezcfg_http_write_headers http b (int (length ?s)) (?len - int (length ?s)) = None"
      using idx out [of "header_text d"]
      by (simp add: ezcfg_http_write_headers_def write_headers_loop.simps [of _ "Some a"] header_text_def)
    then show ?thesis using b(1) by (simp add: ezcfg_http_write_message_def)
  qed
qed

section \<open>Properties\<close>

text \<open>A request with one header and a body, over small tables, for the witnesses.\<close>

definition sample_http_heap :: http_heap where
  "sample_http_heap =
     \<lparr>cells = [0 \<mapsto> \<lparr>ln_data = Some \<lparr>hh_name = ''Host'', hh_value = Some ''x'', is_known_header = True\<rparr>,
                  ln_next = None\<rparr>], brk = 1, oom = (\<lambda>_. False), dlog = []\<rparr>"

definition sample_http :: http where
  "sample_http =
     \<lparr>ht_state = HTTP_REQUEST, num_methods = 1, method_strings = [None, Some ''POST''], method_index = 1,
      request_uri = Some ''/a'', version_major = 1, version_minor = 1,
      num_status_codes = 1, status_code_maps = [(0, None), (200, Some ''OK'')], status_code_index = 0,
      num_known_headers = 1, known_header_strings = [None, Some ''Host''],
      header_head = Some 0, header_tail = Some 0, message_body_len = 2, message_body = Some ''hi'',
      is_ssl = False, is_extension = False, ht_heap = sample_http_heap\<rparr>"

definition sample_header :: http_header where
  "sample_header = \<lparr>hh_name = ''Host'', hh_value = Some ''x'', is_known_header = True\<rparr>"

lemma sample_http_rep: "http_rep sample_http [sample_header]"
  unfolding http_rep_def
  by (rule exI [of _ "[(0, sample_header)]"])
    (simp add: http_at_def sample_http_def sample_http_heap_def sample_header_def heap_ok_def)

lemma decimal_1: "decimal (Suc 0) = ''1''"
  by code_simp

lemma sample_http_sendable: "sendable sample_http ''POST /a HTTP/1.1'' [sample_header]"
  using sample_http_rep
  by (simp add: sendable_def body_ok_def body_text_def start_text_def sample_http_def method_string_def
      version_text_def decimal_1)

lemma sample_head_length: "length (head_text ''POST /a HTTP/1.1'' [sample_header]) = 28"
  by (simp add: head_text_def header_text_def sample_header_def value_text_def)

text \<open>The method check of the header functions stops a response without a method.\<close>

lemma write_without_method:
  assumes start: "start_text http = Some start" and idx: "method_index http = 0"
    and room: "length (head_text start ds @ body_text http) < length buf" "int (length buf) \<le> 2147483647"
  shows "\<exists>buf'. ezcfg_http_write_message http buf (int (length buf)) = Some (-1, buf')"
    "ezcfg_http_get_message_length http = Some (-1)"
proof -
  let ?s = "start @ EZCFG_HTTP_CRLF_STRING" and ?len = "int (length buf)"
  have "\<exists>b. c_snprintf buf 0 ?len ?s = Some (int (length ?s), b) \<and> holds_text buf ([] @ ?s) b"
    using room by (intro snprintf_holds) (auto simp: head_text_def)
  then obtain b1 where "ezcfg_http_write_start_line http buf 0 ?len = Some (int (length ?s), b1)"
    using write_start_spec(1) [OF start] by auto
  then show "\<exists>buf'. ezcfg_http_write_message http buf ?len = Some (-1, buf')"
    using idx by (simp add: ezcfg_http_write_message_def ezcfg_http_write_headers_def)
  show "ezcfg_http_get_message_length http = Some (-1)"
    using write_start_spec(2) [OF start] idx
    by (simp add: ezcfg_http_get_message_length_def ezcfg_http_get_headers_length_def)
qed

text \<open>C8: for an object with a start line, a represented header chain and a consistent body, and every buffer
  of at most 2147483647 bytes that is longer than its message: when the object has a method index, as every request
  has, the message is written; the result and the announced message length
  are the length of the text: start line, headers, empty line, body.  The buffer then starts with
  exactly that text, and beyond the one NUL behind it nothing has changed.  A response whose method index is 0
  is not written: writing and measuring both fail with -1.\<close>

theorem http_message_written_exactly:
  assumes "start_text http = Some start" and "http_rep http ds" and "body_ok http"
    and "length (head_text start ds @ body_text http) < length buf" and "int (length buf) \<le> 2147483647"
  shows "\<exists>buf'. let n = length (head_text start ds @ body_text http) in
    if method_index http = 0 then
      ht_state http = HTTP_RESPONSE \<and>
      ezcfg_http_write_message http buf (int (length buf)) = Some (-1, buf') \<and>
      ezcfg_http_get_message_length http = Some (-1)
    else
      ezcfg_http_write_message http buf (int (length buf)) = Some (int n, buf') \<and>
      ezcfg_http_get_message_length http = Some (int n) \<and>
      take n buf' = head_text start ds @ body_text http \<and>
      length buf' = length buf \<and> drop (Suc n) buf' = drop (Suc n) buf"
proof (cases "method_index http = 0")
  case True
  moreover have "ht_state http = HTTP_RESPONSE"
    using assms(1) True by (simp add: start_text_def split: http_state.splits)
  ultimately show ?thesis using write_without_method [OF assms(1) True assms(4,5)] by simp
next
  case False
  then have "sendable http start ds" using assms(1-3) by (simp add: sendable_def)
  from write_message_text [OF this assms(4,5)] message_length [OF this] False show ?thesis
    unfolding holds_text_def Let_def by auto
qed

theorem http_message_written_exactly_witness:
  "\<exists>buf'. ezcfg_http_write_message sample_http (replicate 40 NUL) 40 = Some (30, buf') \<and>
     take 30 buf' = ''POST /a HTTP/1.1'' @ [CHR 0x0D, CHR 0x0A] @ ''Host:x'' @ [CHR 0x0D, CHR 0x0A, CHR 0x0D, CHR 0x0A] @ ''hi''"
proof -
  have body: "body_text sample_http = ''hi''" by (simp add: body_text_def sample_http_def)
  have len: "length (head_text ''POST /a HTTP/1.1'' [sample_header] @ body_text sample_http) = 30"
    using sample_head_length body by simp
  have "length (head_text ''POST /a HTTP/1.1'' [sample_header] @ body_text sample_http) < length (replicate 40 NUL)"
    unfolding len by simp
  from http_message_written_exactly [OF _ _ _ this] sample_http_sendable obtain buf' where
    "ezcfg_http_write_message sample_http (replicate 40 NUL) 40 = Some (30, buf')"
    "take 30 buf' = head_text ''POST /a HTTP/1.1'' [sample_header] @ body_text sample_http"
    unfolding len Let_def sendable_def by auto
  then show ?thesis using body
    by (simp add: head_text_def header_text_def sample_header_def value_text_def EZCFG_HTTP_CRLF_STRING_def)
qed

text \<open>When the buffer is shorter than the start line, the size left is negative after the start
  line; converted to an unsigned size it no longer limits the next write, which starts behind the
  end of the buffer.  So writing such a message always leaves the buffer.\<close>

theorem http_write_overflows:
  assumes "sendable http start ds" and "buf \<noteq> []"
    and "length buf < length (start @ EZCFG_HTTP_CRLF_STRING)"
    and "int (length (start @ EZCFG_HTTP_CRLF_STRING)) \<le> 2147483647"
  shows "ezcfg_http_write_message http buf (int (length buf)) = None"
  using assms by (intro write_message_overflow) auto

theorem http_write_overflows_witness:
  "ezcfg_http_write_message sample_http (replicate 10 NUL) 10 = None"
  using http_write_overflows [OF sample_http_sendable, of "replicate 10 NUL"] by simp

end
