(* ===== verification/Http_Roundtrip.thy ===== *)
theory Http_Roundtrip
  imports Http_Write
begin

text \<open>
  Reading what was written: the head of a message that \<open>ezcfg_http_write_message\<close> of
  \<^verbatim>\<open>basic/http/http.c\<close> produced is read back into an object with the same method or status, address,
  version and headers.
\<close>

section \<open>Reading numbers, lines and headers\<close>

lemma upto_app [simp]: "upto (s @ t) t = s"
  by (simp add: upto_def)

lemma digit_char [simp]: "n < 10 \<Longrightarrow> isdigit (48 + n)" "isdigit (48 + n mod 10)"
  by (auto simp: isdigit_def)

lemma digits_decimal: "c \<in> set (decimal n) \<Longrightarrow> isdigit (of_char c)"
proof (induction n rule: decimal.induct)
  case (1 n)
  then show ?case by (cases "n < 10") (auto simp: decimal.simps [of n])
qed

lemma decimal_no_special:
  "CHR 0x0D \<notin> set (decimal n)" "CHR '' '' \<notin> set (decimal n)" "NUL \<notin> set (decimal n)"
  "CHR ''.'' \<notin> set (decimal n)"
  using digits_decimal [of _ n] by (auto simp: isdigit_def NUL_def dest: digits_decimal)

lemma scan_digits_decimal:
  "\<not> isdigit (of_char (peek s)) \<Longrightarrow> scan_digits 0 (decimal n @ s) = (n, s)"
proof (induction n arbitrary: s rule: decimal.induct)
  case (1 n)
  have stop: "scan_digits k s = (k, s)" for k using 1(2) by (cases s) auto
  show ?case
  proof (cases "n < 10")
    case True
    then show ?thesis using stop by (simp add: decimal.simps [of n])
  next
    case False
    let ?c = "char_of (48 + n mod 10) :: char"
    have gen: "scan_digits m (xs @ [?c] @ s) = (10 * m' + n mod 10, s)"
      if "scan_digits m (xs @ [CHR '' '']) = (m', [CHR '' ''])" for m m' xs
      using that
    proof (induction xs arbitrary: m)
      case Nil
      then show ?case using stop by (simp add: isdigit_def)
    next
      case (Cons x xs)
      then show ?case by (auto split: if_splits)
    qed
    have "scan_digits 0 (decimal (n div 10) @ [CHR '' '']) = (n div 10, [CHR '' ''])"
      using 1(1) [OF False, of "[CHR '' '']"] by (simp add: isdigit_def)
    from gen [OF this] show ?thesis using False by (simp add: decimal.simps [of n])
  qed
qed

lemma scan_hd_decimal:
  assumes "n \<le> 32767" "\<not> isdigit (of_char (peek s))"
  shows "scan_hd ovf (decimal n @ s) = Some (of_nat n, s)"
proof -
  obtain c cs where d: "decimal n = c # cs" by (cases "decimal n") auto
  then have c: "isdigit (of_char c)" using digits_decimal [of c n] by simp
  then have "\<not> isspace c" "c \<noteq> CHR ''-''" "c \<noteq> CHR ''+''" by (auto simp: isspace_def isdigit_def)
  then have "scan_hd ovf (decimal n @ s) =
      (let (n, rest) = scan_digits 0 (decimal n @ s)
       in Some (if int n \<le> 32767 then word_of_int (int n) else ovf (int n), rest))"
    using d c by (simp add: scan_hd_def Let_def)
  then show ?thesis using assms scan_digits_decimal [OF assms(2), of n] by simp
qed

lemma scan_version_text:
  assumes "unat mjr \<le> 32767" "unat mnr \<le> 32767"
  shows "scan_version ovf http (decimal (unat mjr) @ ''.'' @ decimal (unat mnr)) =
    (True, http\<lparr>version_major := mjr, version_minor := mnr\<rparr>)"
proof -
  have "\<not> isdigit (of_char (peek (CHR ''.'' # decimal (unat mnr))))" "\<not> isdigit (of_char (peek []))"
    by (simp_all add: isdigit_def NUL_def)
  from scan_hd_decimal [OF assms(1) this(1), of ovf] scan_hd_decimal [OF assms(2) this(2), of ovf]
  show ?thesis by (simp add: scan_version_def)
qed

lemma strstr_crlf:
  "CHR 0x0D \<notin> set line \<Longrightarrow>
    strstr (line @ EZCFG_HTTP_CRLF_STRING @ rest) EZCFG_HTTP_CRLF_STRING = Some (EZCFG_HTTP_CRLF_STRING @ rest)"
  by (induction line) (simp_all add: EZCFG_HTTP_CRLF_STRING_def)

lemma crlf_line_app:
  "CHR 0x0D \<notin> set line \<Longrightarrow> crlf_line (line @ EZCFG_HTTP_CRLF_STRING @ rest) = Some (line, rest)"
  by (simp add: crlf_line_def strstr_crlf)

text \<open>A header that survives the trip: its name is the one the table of known headers prescribes
  and ends at the first colon, its value does not start with a blank, neither has a line end.\<close>

definition plain_header :: "http \<Rightarrow> http_header \<Rightarrow> bool" where
  "plain_header http d \<longleftrightarrow>
     header_of http (hh_name d) (value_text d) = d \<and>
     CHR '':'' \<notin> set (hh_name d) \<and> CHR 0x0D \<notin> set (hh_name d) \<and> cstr (hh_name d) \<and>
     CHR 0x0D \<notin> set (value_text d) \<and> cstr (value_text d) \<and> peek (value_text d) \<notin> {CHR '' '', CHR 0x09}"

lemma plain_header_same: "same_head a b \<Longrightarrow> plain_header b d \<longleftrightarrow> plain_header a d"
  by (simp add: plain_header_def header_of_same)

lemma peek_cstr: "cstr s \<Longrightarrow> peek (s @ CHR '':'' # t) \<noteq> NUL"
  by (cases s) (auto simp: NUL_def)

lemma skip_blank_value:
  "peek v \<notin> {CHR '' '', CHR 0x09} \<Longrightarrow> ezcfg_util_skip_leading_charlist v (Some [CHR '' '', CHR 0x09]) = v"
  by (cases v) (auto simp: ezcfg_util_skip_leading_charlist_def)

lemma parse_headers_text:
  "http_rep r es \<Longrightarrow> tables_ok r \<Longrightarrow> never_oom (ht_heap r) \<Longrightarrow> \<forall>d \<in> set ds. plain_header r d \<Longrightarrow>
    \<exists>r'. parse_http_headers r (headers_text ds @ EZCFG_HTTP_CRLF_STRING @ rest) = Some (True, r') \<and>
      same_head r r' \<and> http_rep r' (es @ ds) \<and> oom (ht_heap r') = oom (ht_heap r)"
proof (induction ds arbitrary: r es)
  case Nil
  have "crlf_line ([] @ EZCFG_HTTP_CRLF_STRING @ rest) = Some ([], rest)" by (rule crlf_line_app) simp
  then show ?case using Nil by (auto simp: parse_http_headers.simps [of r])
next
  case (Cons d ds)
  let ?line = "hh_name d @ CHR '':'' # value_text d"
  let ?rest = "headers_text ds @ EZCFG_HTTP_CRLF_STRING @ rest"
  have d: "plain_header r d" using Cons.prems(4) by simp
  then have line: "crlf_line (?line @ EZCFG_HTTP_CRLF_STRING @ ?rest) = Some (?line, ?rest)"
    by (intro crlf_line_app) (simp add: plain_header_def)
  have colon: "strchr ?line (CHR '':'') = Some (CHR '':'' # value_text d)" "peek ?line \<noteq> NUL"
    using d by (simp_all add: plain_header_def cstr_simps peek_cstr)
  from add_header_rep [OF Cons.prems(1,2), of "hh_name d" "value_text d"] obtain ok r1 where
    add: "ezcfg_http_add_header r (hh_name d) (value_text d) = Some (ok, r1)" "same_head r r1"
    "oom (ht_heap r1) = oom (ht_heap r)" "never_oom (ht_heap r) \<longrightarrow> ok"
    "http_rep r1 (es @ (if ok then [header_of r (hh_name d) (value_text d)] else []))" .
  have ok: "ok" using add(4) Cons.prems(3) by blast
  have rep: "http_rep r1 (es @ [d])" using add(5) ok d by (simp add: plain_header_def)
  have step: "parse_http_headers r (headers_text (d # ds) @ EZCFG_HTTP_CRLF_STRING @ rest) = parse_http_headers r1 ?rest"
    using line colon add(1) ok d
    by (simp add: parse_http_headers.simps [of r] header_text_def skip_blank_value plain_header_def)
  have "tables_ok r1" "never_oom (ht_heap r1)" "\<forall>d \<in> set ds. plain_header r1 d"
    using Cons.prems tables_ok_same [OF add(2)] add(3) plain_header_same [OF add(2)] by (simp_all add: never_oom_def)
  from Cons.IH [OF rep this] obtain r' where
    "parse_http_headers r1 ?rest = Some (True, r')" "same_head r1 r'" "http_rep r' ((es @ [d]) @ ds)"
    "oom (ht_heap r') = oom (ht_heap r1)" by blast
  then show ?case using step same_head_trans [OF add(2)] add(3) by auto
qed

section \<open>Reading a request\<close>

text \<open>Objects that use the same tables.\<close>

definition same_tables :: "http \<Rightarrow> http \<Rightarrow> bool" where
  "same_tables a b \<longleftrightarrow> method_strings b = method_strings a \<and> num_methods b = num_methods a \<and>
     known_header_strings b = known_header_strings a \<and> num_known_headers b = num_known_headers a \<and>
     status_code_maps b = status_code_maps a \<and> num_status_codes b = num_status_codes a"

lemma plain_header_tables: "same_tables a b \<Longrightarrow> plain_header b d \<longleftrightarrow> plain_header a d"
proof -
  assume "same_tables a b"
  then have eqs: "known_header_strings b = known_header_strings a" "num_known_headers b = num_known_headers a"
    by (simp_all add: same_tables_def)
  have "find_known_header_name b nm = find_known_header_name a nm" for nm
    unfolding find_known_header_name_def eqs ..
  then show ?thesis by (simp add: plain_header_def header_of_def)
qed

lemma start_only_same_tables: "start_only a b \<Longrightarrow> same_tables a b"
  by (simp add: start_only_def same_tables_def)

lemma same_head_tables: "same_head a b \<Longrightarrow> same_tables a b"
  by (simp add: same_headD same_tables_def)

text \<open>A method name or address that the start line carries unchanged.\<close>

definition word_ok :: "string \<Rightarrow> bool" where
  "word_ok s \<longleftrightarrow> CHR '' '' \<notin> set s \<and> CHR 0x0D \<notin> set s \<and> cstr s"

lemma version_text_plain: "CHR 0x0D \<notin> set (version_text http)" "CHR '' '' \<notin> set (version_text http)" "cstr (version_text http)"
  using decimal_no_special by (auto simp: version_text_def cstr_def NUL_def)

lemma version_text_parts:
  "strncmp (version_text http) ''HTTP/'' 5 = 0"
  "drop 5 (version_text http) = decimal (unat (version_major http)) @ ''.'' @ decimal (unat (version_minor http))"
  by (simp_all add: version_text_def strncmp_def eval_nat_numeral)

lemma parse_request_text:
  assumes rep: "http_rep r []" "tables_ok r" "never_oom (ht_heap r)"
    and m: "0 < j" "j \<le> num_methods r" "method_strings r ! j = Some m" "word_ok m"
    and u: "word_ok u" "peek u \<in> {CHR ''/'', CHR ''*''}"
    and v: "unat (version_major s) \<le> 32767" "unat (version_minor s) \<le> 32767"
    and ds: "\<forall>d \<in> set ds. plain_header r d"
  shows "\<exists>r'. parse_http_request ovf r (head_text (m @ '' '' @ u @ '' '' @ version_text s) ds @ rest) = Some (True, r') \<and>
    method_string r' = Some m \<and> request_uri r' = Some u \<and> version_major r' = version_major s \<and>
    version_minor r' = version_minor s \<and> http_rep r' ds \<and> ht_state r' = ht_state r \<and>
    oom (ht_heap r') = oom (ht_heap r)"
proof -
  let ?start = "m @ '' '' @ u @ '' '' @ version_text s"
  let ?hs = "headers_text ds @ EZCFG_HTTP_CRLF_STRING @ rest"
  have "CHR 0x0D \<notin> set ?start" using m(4) u(1) version_text_plain by (simp add: word_ok_def)
  then have line: "crlf_line (head_text ?start ds @ rest) = Some (?start, ?hs)"
    using crlf_line_app [of ?start ?hs] by (simp add: head_text_def)
  have sp: "strchr ?start (CHR '' '') = Some (CHR '' '' # u @ '' '' @ version_text s)"
    "strchr (u @ '' '' @ version_text s) (CHR '' '') = Some ('' '' @ version_text s)"
    using m(4) u(1) by (simp_all add: word_ok_def cstr_simps)
  have ups: "upto ?start (CHR '' '' # u @ '' '' @ version_text s) = m" "upto (u @ '' '' @ version_text s) ('' '' @ version_text s) = u"
    using upto_app [of m "CHR '' '' # u @ '' '' @ version_text s"] upto_app [of u "'' '' @ version_text s"] by simp_all
  have table: "table_ok (method_strings r) (num_methods r)" using rep(2) by (simp add: tables_ok_def)
  obtain i where i: "find_method_index r m = Some i" "0 < i" "i \<le> num_methods r" "method_strings r ! i = Some m"
    using find_string_loop_spec [OF table, of "num_methods r" strcmp m] m by (auto simp: find_method_index_def)
  have len: "i < length (method_strings r)" using table_ok_nth(1) [OF table i(2,3)] .
  let ?h = "ht_heap r\<lparr>brk := Suc (brk (ht_heap r))\<rparr>"
  let ?r1 = "r\<lparr>method_index := i, request_uri := Some u, ht_heap := ?h\<rparr>"
  let ?r2 = "?r1\<lparr>version_major := version_major s, version_minor := version_minor s\<rparr>"
  have dup: "strdup_val u (ht_heap r) = (Some u, ?h)"
    using rep(3) by (simp add: strdup_val_def never_oom_def)
  have pu: "peek (u @ '' '' @ version_text s) = peek u" using u(2) by (cases u) (auto simp: NUL_def)
  have step: "parse_http_request ovf r (head_text ?start ds @ rest) = parse_http_headers ?r2 ?hs"
    using line sp ups i(1,2) dup u(2) pu scan_version_text [OF v, of ovf ?r1]
    by (auto simp: parse_http_request_def Let_def version_text_parts)
  have start: "start_only r ?r2" by (auto simp: start_only_def)
  have "\<forall>d \<in> set ds. plain_header ?r2 d" using ds plain_header_tables [OF start_only_same_tables [OF start]] by blast
  moreover have "never_oom (ht_heap ?r2)" using rep(3) by (simp add: never_oom_def)
  moreover have "tables_ok ?r2" using rep(2) start_only_tables [OF start] by blast
  ultimately obtain r' where r': "parse_http_headers ?r2 ?hs = Some (True, r')" "same_head ?r2 r'" "http_rep r' ds"
    "oom (ht_heap r') = oom (ht_heap ?r2)"
    using parse_headers_text [OF start_only_rep [OF start rep(1)], of ds rest] by auto
  then show ?thesis using step same_headD [OF r'(2)] i(4) len by (simp add: method_string_def)
qed

section \<open>Reading a response\<close>

lemma decimal_three:
  assumes "100 \<le> c" "c \<le> 999"
  shows "decimal c = [char_of (48 + c div 100), char_of (48 + c div 10 mod 10), char_of (48 + c mod 10)]"
proof -
  have "10 \<le> c div 10" "c div 10 \<le> 99" using div_le_mono [OF assms(1), of 10] div_le_mono [OF assms(2), of 10] by simp_all
  moreover from this have "c div 10 div 10 < 10" using div_le_mono [of "c div 10" 99 10] by simp
  moreover have "c div 10 div 10 = c div 100" by (simp add: div_mult2_eq [symmetric])
  ultimately show ?thesis
    using assms(1) by (simp add: decimal.simps [of c] decimal.simps [of "c div 10"] decimal.simps [of "c div 100"])
qed

lemma decimal_three_read:
  fixes c :: nat and r :: string
  assumes "100 \<le> c" "c \<le> 999"
  defines "p \<equiv> decimal c @ CHR '' '' # r"
  shows "isdigit (of_char (char_at p 0))" "isdigit (of_char (char_at p 1))" "isdigit (of_char (char_at p 2))"
    "char_at p 3 = CHR '' ''" "drop 4 p = r"
    "(of_char (char_at p 0) - 48) * 100 + (of_char (char_at p 1) - 48) * 10 + (of_char (char_at p 2) - 48) = c"
proof -
  have d: "c div 100 < 10" using div_le_mono [OF assms(2), of 100] by simp
  have p: "p = char_of (48 + c div 100) # char_of (48 + c div 10 mod 10) # char_of (48 + c mod 10) # CHR '' '' # r"
    using decimal_three [OF assms(1,2)] by (simp add: p_def)
  show "isdigit (of_char (char_at p 0))" "isdigit (of_char (char_at p 1))" "isdigit (of_char (char_at p 2))"
    "char_at p 3 = CHR '' ''" "drop 4 p = r"
    using d by (simp_all add: p char_at_def)
  have "c div 10 div 10 = c div 100" by (simp add: div_mult2_eq [symmetric])
  with div_mult_mod_eq [of "c div 10" 10] div_mult_mod_eq [of c 10] have "c = c div 100 * 100 + c div 10 mod 10 * 10 + c mod 10" by linarith
  then show "(of_char (char_at p 0) - 48) * 100 + (of_char (char_at p 1) - 48) * 10 + (of_char (char_at p 2) - 48) = c"
    using d by (simp add: p char_at_def)
qed

lemma strcasecmp_refl [simp]: "strcasecmp s s = 0"
  by (induction s) auto

lemma parse_response_text:
  assumes rep: "http_rep r []" "tables_ok r" "never_oom (ht_heap r)"
    and j: "0 < j" "j \<le> num_status_codes r" "status_code_maps r ! j = (c, Some reason)"
    and codes: "distinct (map fst (status_code_maps r))" "100 \<le> c" "c \<le> 999" "CHR 0x0D \<notin> set reason"
    and v: "unat (version_major s) \<le> 32767" "unat (version_minor s) \<le> 32767"
    and ds: "\<forall>d \<in> set ds. plain_header r d"
  shows "\<exists>r'. parse_http_response ovf r (head_text (version_text s @ '' '' @ decimal c @ '' '' @ reason) ds @ rest) = Some (True, r') \<and>
    status_entry r' = Some (c, Some reason) \<and> version_major r' = version_major s \<and>
    version_minor r' = version_minor s \<and> http_rep r' ds \<and> ht_state r' = ht_state r \<and>
    oom (ht_heap r') = oom (ht_heap r)"
proof -
  let ?p = "decimal c @ CHR '' '' # reason"
  let ?start = "version_text s @ CHR '' '' # ?p"
  let ?hs = "headers_text ds @ EZCFG_HTTP_CRLF_STRING @ rest"
  have "CHR 0x0D \<notin> set ?start" using codes(4) version_text_plain decimal_no_special by simp
  then have line: "crlf_line (head_text ?start ds @ rest) = Some (?start, ?hs)"
    using crlf_line_app [of ?start ?hs] by (simp add: head_text_def)
  have sp: "strchr ?start (CHR '' '') = Some (CHR '' '' # ?p)"
    using version_text_plain by (simp add: cstr_simps)
  have ups: "upto ?start (CHR '' '' # ?p) = version_text s" by simp
  have bound: "num_status_codes r < length (status_code_maps r)"
    using rep(2) by (simp add: tables_ok_def table_ok_def)
  obtain i where i: "find_status_code_index r c = Some i" "0 < i" "i \<le> num_status_codes r" "fst (status_code_maps r ! i) = c"
    using find_status_loop_spec [OF bound, of c] j by (auto simp: find_status_code_index_def)
  have "i = j"
    using codes(1) i(3,4) j(2,3) bound nth_eq_iff_index_eq [OF codes(1), of i j] by simp
  let ?r1 = "r\<lparr>version_major := version_major s, version_minor := version_minor s\<rparr>"
  let ?r2 = "?r1\<lparr>status_code_index := j\<rparr>"
  have fi: "find_status_code_index ?r1 c = Some j" using i(1) \<open>i = j\<close> by (simp add: find_status_code_index_def)
  have step: "parse_http_response ovf r (head_text ?start ds @ rest) = parse_http_headers ?r2 ?hs"
    using line sp ups fi j scan_version_text [OF v, of ovf r] decimal_three_read [OF codes(2,3), of reason]
    by (simp add: parse_http_response_def version_text_parts del: append_assoc append_Cons)
  have start: "start_only r ?r2" by (auto simp: start_only_def)
  have "\<forall>d \<in> set ds. plain_header ?r2 d" using ds plain_header_tables [OF start_only_same_tables [OF start]] by blast
  moreover have "never_oom (ht_heap ?r2)" using rep(3) by (simp add: never_oom_def)
  moreover have "tables_ok ?r2" using rep(2) start_only_tables [OF start] by blast
  ultimately obtain r' where r': "parse_http_headers ?r2 ?hs = Some (True, r')" "same_head ?r2 r'" "http_rep r' ds"
    "oom (ht_heap r') = oom (ht_heap ?r2)"
    using parse_headers_text [OF start_only_rep [OF start rep(1)], of ds rest] by auto
  then show ?thesis using step same_headD [OF r'(2)] j bound by (simp add: status_entry_def)
qed

section \<open>Messages that survive the trip\<close>

text \<open>The fields of the start line have no blank or line end, the version fits, and the status codes
  of the table differ.\<close>

definition start_plain :: "http \<Rightarrow> bool" where
  "start_plain http \<longleftrightarrow>
     unat (version_major http) \<le> 32767 \<and> unat (version_minor http) \<le> 32767 \<and>
     (case ht_state http of
        HTTP_REQUEST \<Rightarrow> method_index http \<le> num_methods http \<and>
          (\<forall>m. method_string http = Some m \<longrightarrow> word_ok m) \<and>
          (\<forall>u. request_uri http = Some u \<longrightarrow> word_ok u \<and> peek u \<in> {CHR ''/'', CHR ''*''})
      | HTTP_RESPONSE \<Rightarrow> 0 < status_code_index http \<and> status_code_index http \<le> num_status_codes http \<and>
          distinct (map fst (status_code_maps http)) \<and>
          (\<forall>c r. status_entry http = Some (c, Some r) \<longrightarrow> CHR 0x0D \<notin> set r \<and> cstr r))"

text \<open>What the reader is to recover from the start line.\<close>

definition same_start :: "http \<Rightarrow> http \<Rightarrow> bool" where
  "same_start http r \<longleftrightarrow>
     version_major r = version_major http \<and> version_minor r = version_minor http \<and>
     (case ht_state http of
        HTTP_REQUEST \<Rightarrow> method_string r = method_string http \<and> request_uri r = request_uri http
      | HTTP_RESPONSE \<Rightarrow> status_entry r = status_entry http)"

lemma parse_header_text:
  assumes send: "start_text http = Some start" "method_index http \<noteq> 0" "start_plain http"
    and ds: "\<forall>d \<in> set ds. plain_header http d"
    and r: "http_rep r []" "tables_ok r" "never_oom (ht_heap r)" "same_tables http r" "ht_state r = ht_state http"
  shows "\<exists>r'. ezcfg_http_parse_header ovf r (head_text start ds @ rest) = Some (True, r') \<and>
    same_start http r' \<and> http_rep r' ds \<and> oom (ht_heap r') = oom (ht_heap r)"
proof -
  have tables: "method_strings r = method_strings http" "num_methods r = num_methods http"
    "status_code_maps r = status_code_maps http" "num_status_codes r = num_status_codes http"
    using r(4) by (simp_all add: same_tables_def)
  have v: "unat (version_major http) \<le> 32767" "unat (version_minor http) \<le> 32767"
    using send(3) by (simp_all add: start_plain_def)
  have ds': "\<forall>d \<in> set ds. plain_header r d" using ds plain_header_tables [OF r(4)] by blast
  show ?thesis
  proof (cases "ht_state http")
    case HTTP_REQUEST
    with send obtain m u where mu: "method_string http = Some m" "request_uri http = Some u"
      "start = m @ '' '' @ u @ '' '' @ version_text http" "word_ok m" "word_ok u" "peek u \<in> {CHR ''/'', CHR ''*''}"
      "method_index http \<le> num_methods http"
      by (auto simp: start_text_def start_plain_def bind_eq_Some_conv)
    have "method_strings r ! method_index http = Some m"
      using mu(1) tables(1) by (simp add: method_string_def split: if_splits)
    from parse_request_text [OF r(1-3) _ _ this mu(4-6) v ds', of ovf rest] send(2) mu(7) tables(2) obtain r' where
      "parse_http_request ovf r (head_text start ds @ rest) = Some (True, r')"
      "method_string r' = Some m" "request_uri r' = Some u" "version_major r' = version_major http"
      "version_minor r' = version_minor http" "http_rep r' ds" "oom (ht_heap r') = oom (ht_heap r)" unfolding mu(3) by auto
    then show ?thesis using HTTP_REQUEST r(5) mu(1,2) by (auto simp: ezcfg_http_parse_header_def same_start_def)
  next
    case HTTP_RESPONSE
    with send obtain c reason where cr: "status_entry http = Some (c, Some reason)" "100 \<le> c" "c \<le> 999"
      "start = version_text http @ '' '' @ decimal c @ '' '' @ reason" "CHR 0x0D \<notin> set reason"
      "0 < status_code_index http" "status_code_index http \<le> num_status_codes http"
      "distinct (map fst (status_code_maps http))"
      by (auto simp: start_text_def start_plain_def bind_eq_Some_conv split: if_splits)
    have "status_code_maps r ! status_code_index http = (c, Some reason)"
      using cr(1) tables(3) by (simp add: status_entry_def split: if_splits)
    from parse_response_text [OF r(1-3) cr(6) _ this _ cr(2,3,5) v ds', of ovf rest] cr(7,8) tables(3,4) obtain r' where
      "parse_http_response ovf r (head_text start ds @ rest) = Some (True, r')"
      "status_entry r' = Some (c, Some reason)" "version_major r' = version_major http"
      "version_minor r' = version_minor http" "http_rep r' ds" "oom (ht_heap r') = oom (ht_heap r)" unfolding cr(4) by auto
    then show ?thesis using HTTP_RESPONSE r(5) cr(1) by (auto simp: ezcfg_http_parse_header_def same_start_def)
  qed
qed

lemma head_text_cstr:
  assumes "start_text http = Some start" "start_plain http" "\<forall>d \<in> set ds. plain_header http d"
  shows "cstr (head_text start ds)"
proof -
  have crlf: "cstr EZCFG_HTTP_CRLF_STRING" by (simp add: cstr_def NUL_def EZCFG_HTTP_CRLF_STRING_def)
  have special: "NUL \<noteq> CHR '' ''" "NUL \<noteq> CHR '':''" by (simp_all add: NUL_def)
  have hs: "cstr (headers_text ds)"
    using assms(3) crlf special by (induction ds) (auto simp: header_text_def plain_header_def)
  have "cstr (decimal n)" for n using decimal_no_special(3) [of n] by (simp add: cstr_def)
  then have "cstr start"
    using assms(1,2) version_text_plain(3) [of http] special
    by (cases "ht_state http")
      (auto simp: start_text_def start_plain_def word_ok_def bind_eq_Some_conv split: if_splits)
  with hs crlf show ?thesis by (simp add: head_text_def)
qed

lemma c_string_head: "cstr s \<Longrightarrow> c_string (s @ t) = s @ c_string t"
  unfolding c_string_def by (rule takeWhile_append2) (auto simp: cstr_def)

section \<open>Properties\<close>

text \<open>C6: writing a request or response and reading its text back.  The object has a start line, a method
  index other than 0 (a response too: C8 says what happens otherwise), a represented header chain and a consistent body; version numbers are
  at most 32767; a request's method index is in the table, its method and address have no blank, carriage return or NUL, and the
  address begins with a slash or a star; a response's status index is in the table, whose codes are distinct, its code is in 100..999 and its
  reason has no carriage return or NUL; header names have no colon, carriage return or NUL, header values no carriage return or
  NUL and no blank or tab in front, and each header is as adding it by name and value would store it.  The buffer is longer than the
  message and has at most 2147483647 bytes.  The reader has the same well-formed tables and kind of message, no headers yet and enough memory.
  Then the text written into the buffer is accepted, and the reader has the same method and address, or the same status code and reason, the same
  version, and the same headers in the same order; the body stands behind the head.\<close>

theorem http_message_roundtrip:
  assumes "sendable http start ds" and "start_plain http" and "\<forall>d \<in> set ds. plain_header http d"
    and "length (head_text start ds @ body_text http) < length buf" and "int (length buf) \<le> 2147483647"
    and "http_rep r []" and "tables_ok r" and "never_oom (ht_heap r)" and "same_tables http r"
    and "ht_state r = ht_state http"
  shows "\<exists>n buf' r'. ezcfg_http_write_message http buf (int (length buf)) = Some (int n, buf') \<and>
    ezcfg_http_parse_header ovf r (c_string (take n buf')) = Some (True, r') \<and>
    same_start http r' \<and> http_rep r' ds \<and>
    drop (length (head_text start ds)) (take n buf') = body_text http"
proof -
  let ?t = "head_text start ds @ body_text http"
  have start: "start_text http = Some start" "method_index http \<noteq> 0" using assms(1) by (simp_all add: sendable_def)
  from write_message_text [OF assms(1,4,5)] obtain buf' where
    w: "ezcfg_http_write_message http buf (int (length buf)) = Some (int (length ?t), buf')"
    "take (length ?t) buf' = ?t" by (auto simp: holds_text_def)
  have "c_string ?t = head_text start ds @ c_string (body_text http)"
    by (rule c_string_head [OF head_text_cstr [OF start(1) assms(2,3)]])
  with parse_header_text [OF start assms(2,3,6-10), of ovf "c_string (body_text http)"] obtain r' where
    "ezcfg_http_parse_header ovf r (c_string ?t) = Some (True, r')" "same_start http r'" "http_rep r' ds" by auto
  with w show ?thesis by (intro exI [of _ "length ?t"] exI [of _ buf'] exI [of _ r']) simp
qed

theorem http_message_roundtrip_witness:
  "\<exists>n buf' r'. ezcfg_http_write_message sample_http (replicate 40 NUL) 40 = Some (int n, buf') \<and>
    ezcfg_http_parse_header (\<lambda>_. 0)
      (sample_http\<lparr>method_index := 0, request_uri := None, header_head := None, header_tail := None,
         ht_heap := sample_http_heap\<lparr>cells := \<lambda>_. None\<rparr>\<rparr>) (c_string (take n buf')) = Some (True, r') \<and>
    request_uri r' = Some ''/a'' \<and> http_rep r' [sample_header]"
proof -
  let ?r = "sample_http\<lparr>method_index := 0, request_uri := None, header_head := None, header_tail := None,
    ht_heap := sample_http_heap\<lparr>cells := \<lambda>_. None\<rparr>\<rparr>"
  have plain: "start_plain sample_http"
    by (simp add: start_plain_def sample_http_def method_string_def word_ok_def cstr_def NUL_def)
  have header: "\<forall>d \<in> set [sample_header]. plain_header sample_http d"
    by (simp add: plain_header_def sample_header_def value_text_def header_of_def find_known_header_name_def
        sample_http_def cstr_def NUL_def)
  have body: "body_text sample_http = ''hi''" by (simp add: body_text_def sample_http_def)
  have room: "length (head_text ''POST /a HTTP/1.1'' [sample_header] @ body_text sample_http) < length (replicate 40 NUL)"
    using sample_head_length body by simp
  have r: "http_rep ?r []" "tables_ok ?r" "never_oom (ht_heap ?r)" "same_tables sample_http ?r" "ht_state ?r = ht_state sample_http"
    by (auto simp: http_rep_def http_at_def sample_http_def sample_http_heap_def heap_ok_def tables_ok_def table_ok_def
        never_oom_def same_tables_def)
  from http_message_roundtrip [OF sample_http_sendable plain header room _ r, of "\<lambda>_. 0"] obtain n buf' r' where
    "ezcfg_http_write_message sample_http (replicate 40 NUL) 40 = Some (int n, buf')"
    "ezcfg_http_parse_header (\<lambda>_. 0) ?r (c_string (take n buf')) = Some (True, r')"
    "same_start sample_http r'" "http_rep r' [sample_header]" by auto
  moreover from this(3) have "request_uri r' = Some ''/a''" by (simp add: same_start_def sample_http_def)
  ultimately show ?thesis by blast
qed

end
