(* ===== verification/Json_Http.thy ===== *)
theory Json_Http
  imports Http_Roundtrip Json_Write
begin

text \<open>
  JSON over HTTP, \<^verbatim>\<open>src/composite/json_http/json_http.c\<close>: an HTTP message object for the method POST
  and three headers, together with a JSON parser object that reads its body.  The JSON operations are
  those of \<^verbatim>\<open>Json\<close>: \<^verbatim>\<open>basic/json/json.c\<close> and \<^verbatim>\<open>common/json.c\<close> have the same reader, apart
  from the context passed to the allocating functions.  Either pointer may be NULL only while the
  object is being built.
\<close>

section \<open>The object\<close>

record json_http =
  jh_http :: "http option"
  jh_json :: "json option"

definition json_http_method_strings :: "string option list" where
  "json_http_method_strings = [None, Some ''POST'']"

definition json_http_header_strings :: "string option list" where
  "json_http_header_strings = [None, Some ''Host'', Some ''Content-Type'', Some ''Content-Length'']"

definition ezcfg_json_http_del :: "json_http \<Rightarrow> int option" where
  "ezcfg_json_http_del jh = do {
     _ \<leftarrow> (case jh_json jh of None \<Rightarrow> Some () | Some j \<Rightarrow> map_option (\<lambda>_. ()) (local_json_del j));
     _ \<leftarrow> (case jh_http jh of None \<Rightarrow> Some () | Some http \<Rightarrow> map_option (\<lambda>_. ()) (ezcfg_http_del http));
     Some EZCFG_RET_OK
   }"

text \<open>\<open>mem\<close> and \<open>mem2\<close> are the allocations of the object and of its HTTP message object.\<close>

definition ezcfg_json_http_new ::
    "bool \<Rightarrow> json_value bheap \<Rightarrow> bool \<Rightarrow> http_heap \<Rightarrow> json_http option option" where
  "ezcfg_json_http_new mem bh mem2 hh =
     (if \<not> mem then Some None
      else
        case fst (local_json_new bh) of
          None \<Rightarrow> do { _ \<leftarrow> ezcfg_json_http_del \<lparr>jh_http = None, jh_json = None\<rparr>; Some None }
        | Some j \<Rightarrow>
            (case ezcfg_http_new mem2 hh of
               None \<Rightarrow> do { _ \<leftarrow> ezcfg_json_http_del \<lparr>jh_http = None, jh_json = Some j\<rparr>; Some None }
             | Some http0 \<Rightarrow>
                 let http1 = snd (ezcfg_http_set_method_strings http0 json_http_method_strings
                       (of_nat (length json_http_method_strings - 1)));
                     http2 = snd (ezcfg_http_set_known_header_strings http1 json_http_header_strings
                       (of_nat (length json_http_header_strings - 1)))
                 in Some (Some \<lparr>jh_http = Some http2, jh_json = Some j\<rparr>)))"

section \<open>Delegation to the message object\<close>

definition ezcfg_json_http_get_http_version_major :: "json_http \<Rightarrow> 16 word option" where
  "ezcfg_json_http_get_http_version_major jh = map_option ezcfg_http_get_version_major (jh_http jh)"

definition ezcfg_json_http_get_http_version_minor :: "json_http \<Rightarrow> 16 word option" where
  "ezcfg_json_http_get_http_version_minor jh = map_option ezcfg_http_get_version_minor (jh_http jh)"

definition ezcfg_json_http_set_http_version_major :: "json_http \<Rightarrow> 16 word \<Rightarrow> (bool \<times> json_http) option" where
  "ezcfg_json_http_set_http_version_major jh major = do {
     http \<leftarrow> jh_http jh;
     let (ok, http) = ezcfg_http_set_version_major http major;
     Some (ok, jh\<lparr>jh_http := Some http\<rparr>)
   }"

definition ezcfg_json_http_set_http_version_minor :: "json_http \<Rightarrow> 16 word \<Rightarrow> (bool \<times> json_http) option" where
  "ezcfg_json_http_set_http_version_minor jh minor = do {
     http \<leftarrow> jh_http jh;
     let (ok, http) = ezcfg_http_set_version_minor http minor;
     Some (ok, jh\<lparr>jh_http := Some http\<rparr>)
   }"

definition ezcfg_json_http_get_http_header_value :: "json_http \<Rightarrow> string \<Rightarrow> string option option" where
  "ezcfg_json_http_get_http_header_value jh name = do { http \<leftarrow> jh_http jh; ezcfg_http_get_header_value http name }"

definition ezcfg_json_http_reset_attributes :: "json_http \<Rightarrow> (int \<times> json_http) option" where
  "ezcfg_json_http_reset_attributes jh = do {
     http \<leftarrow> jh_http jh;
     j \<leftarrow> jh_json jh;
     (_, http') \<leftarrow> ezcfg_http_reset_attributes http;
     j' \<leftarrow> local_json_reset j;
     Some (EZCFG_RET_OK, jh\<lparr>jh_http := Some http', jh_json := Some j'\<rparr>)
   }"

definition ezcfg_json_http_parse_header :: "(int \<Rightarrow> 16 word) \<Rightarrow> json_http \<Rightarrow> string \<Rightarrow> (bool \<times> json_http) option" where
  "ezcfg_json_http_parse_header ovf jh buf = do {
     http \<leftarrow> jh_http jh;
     (ok, http') \<leftarrow> ezcfg_http_parse_header ovf http buf;
     Some (if \<not> ok then False else True, jh\<lparr>jh_http := Some http'\<rparr>)
   }"

definition ezcfg_json_http_parse_message_body :: "json_http \<Rightarrow> (bool \<times> json_http) option" where
  "ezcfg_json_http_parse_message_body jh = do {
     http \<leftarrow> jh_http jh;
     j \<leftarrow> jh_json jh;
     case ezcfg_http_get_message_body http of
       None \<Rightarrow> Some (True, jh)
     | Some body \<Rightarrow>
         if ezcfg_http_get_message_body_len http > 0 then do {
           (ret, j') \<leftarrow> local_json_parse_text j (c_string body);
           Some (if ret = EZCFG_RET_FAIL then False else True, jh\<lparr>jh_json := Some j'\<rparr>)
         }
         else Some (True, jh)
   }"

definition ezcfg_json_http_set_message_body :: "json_http \<Rightarrow> string \<Rightarrow> int \<Rightarrow> (string option \<times> json_http) option" where
  "ezcfg_json_http_set_message_body jh body len = do {
     http \<leftarrow> jh_http jh;
     (b, http') \<leftarrow> ezcfg_http_set_message_body http body len;
     Some (b, jh\<lparr>jh_http := Some http'\<rparr>)
   }"

definition ezcfg_json_http_get_message_length :: "json_http \<Rightarrow> int option" where
  "ezcfg_json_http_get_message_length jh = do {
     http \<leftarrow> jh_http jh;
     n \<leftarrow> ezcfg_http_get_start_line_length http;
     if n < 0 then Some (-1)
     else do {
       m \<leftarrow> ezcfg_http_get_headers_length http;
       if m < 0 then Some (-1)
       else
         let c = ezcfg_http_get_crlf_length http; b = ezcfg_http_get_message_body_len http in
         Some (if c < 0 then -1 else if b < 0 then -1 else n + m + c + b)
     }
   }"

definition ezcfg_json_http_write_message :: "json_http \<Rightarrow> string \<Rightarrow> int \<Rightarrow> (int \<times> string) option" where
  "ezcfg_json_http_write_message jh buf len = do {
     http \<leftarrow> jh_http jh;
     (n, buf) \<leftarrow> ezcfg_http_write_start_line http buf 0 len;
     if n < 0 then Some (n, buf)
     else do {
       (m, buf) \<leftarrow> ezcfg_http_write_headers http buf n (len - n);
       if m < 0 then Some (m, buf)
       else do {
         (c, buf) \<leftarrow> ezcfg_http_write_crlf buf (n + m) (len - n - m);
         if c < 0 then Some (c, buf)
         else if ezcfg_http_get_message_body http \<noteq> None then do {
           (b, buf) \<leftarrow> ezcfg_http_write_message_body http buf (n + m + c) (len - n - m - c);
           Some (if b < 0 then b else n + m + c + b, buf)
         }
         else Some (n + m + c, buf)
       }
     }
   }"

lemma json_http_write_message_http:
  "jh_http jh = Some http \<Longrightarrow> ezcfg_json_http_write_message jh buf len = ezcfg_http_write_message http buf len"
  by (simp add: ezcfg_json_http_write_message_def ezcfg_http_write_message_def)

lemma json_http_length_http:
  "jh_http jh = Some http \<Longrightarrow> ezcfg_json_http_get_message_length jh = ezcfg_http_get_message_length http"
  by (simp add: ezcfg_json_http_get_message_length_def ezcfg_http_get_message_length_def)

section \<open>Bodies\<close>

definition with_body :: "http \<Rightarrow> string \<Rightarrow> http_heap \<Rightarrow> http" where
  "with_body http t h = http\<lparr>message_body := Some t, message_body_len := int (length t), ht_heap := h\<rparr>"

lemma with_body_body [simp]:
  "message_body (with_body http t h) = Some t" "body_ok (with_body http t h)" "body_text (with_body http t h) = t"
  "ht_heap (with_body http t h) = h"
  by (simp_all add: with_body_def body_ok_def body_text_def)

lemma with_body_start [simp]:
  "ht_state (with_body http t h) = ht_state http" "method_index (with_body http t h) = method_index http"
  "method_string (with_body http t h) = method_string http" "request_uri (with_body http t h) = request_uri http"
  "status_entry (with_body http t h) = status_entry http" "version_text (with_body http t h) = version_text http"
  "version_major (with_body http t h) = version_major http" "version_minor (with_body http t h) = version_minor http"
  "num_methods (with_body http t h) = num_methods http" "status_code_index (with_body http t h) = status_code_index http"
  "num_status_codes (with_body http t h) = num_status_codes http" "status_code_maps (with_body http t h) = status_code_maps http"
  by (simp_all add: with_body_def method_string_def status_entry_def version_text_def)

lemma with_body_list [simp]:
  "header_head (with_body http t h) = header_head http" "header_tail (with_body http t h) = header_tail http"
  by (simp_all add: with_body_def)

lemma with_body_rep:
  assumes "http_rep http ds" "cells h = cells (ht_heap http)" "heap_ok (ht_heap http) \<Longrightarrow> heap_ok h"
  shows "http_rep (with_body http t h) ds"
proof -
  from assms(1) obtain xs where xs: "http_at http xs" "map snd xs = ds" unfolding http_rep_def by blast
  have "http_at (with_body http t h) xs"
    using xs(1) assms(3) unfolding http_at_def with_body_list with_body_body(4) assms(2) by blast
  with xs(2) show ?thesis unfolding http_rep_def by blast
qed

lemma set_message_body_spec:
  assumes "never_oom (ht_heap http)"
  shows "\<exists>h. ezcfg_http_set_message_body http t (int (length t)) = Some (Some t, with_body http t h) \<and>
    oom h = oom (ht_heap http) \<and> cells h = cells (ht_heap http) \<and> (heap_ok (ht_heap http) \<longrightarrow> heap_ok h)"
  using assms by (auto simp: ezcfg_http_set_message_body_def strdup_val_def never_oom_def with_body_def)

lemma parse_body_holds:
  assumes "jh_http jh = Some http" "jh_json jh = Some j" "message_body http = Some t" "body_ok http"
    and "cstr t" "vtext v t" "jcontainer v" "json_ready j" "plenty j"
  shows "\<exists>j'. ezcfg_json_http_parse_message_body jh = Some (True, jh\<lparr>jh_json := Some j'\<rparr>) \<and> json_holds j' v"
proof -
  from parse_holds [OF assms(6,7) wsp_simps(1) wsp_simps(1) assms(8,9)] obtain j' where
    j': "local_json_parse_text j t = Some (EZCFG_RET_OK, j')" "json_holds j' v" by auto
  have "t \<noteq> []"
  proof
    assume "t = []"
    with j'(1) show False by (simp add: local_json_parse_text_def NUL_def)
  qed
  then have "message_body_len http > 0" using assms(3,4) by (simp add: body_ok_def body_text_def)
  moreover have "c_string t = t" using c_string_head [OF assms(5), of "[]"] by (simp add: c_string_def)
  ultimately show ?thesis using assms(1-3) j'
    by (auto simp: ezcfg_json_http_parse_message_body_def ezcfg_http_get_message_body_def
        ezcfg_http_get_message_body_len_def)
qed

lemma set_body_sendable:
  assumes "never_oom (ht_heap http)" "start_text http = Some start" "method_index http \<noteq> 0" "http_rep http ds"
    "start_plain http" "\<forall>d \<in> set ds. plain_header http d"
  obtains h where "ezcfg_http_set_message_body http t (int (length t)) = Some (Some t, with_body http t h)"
    "sendable (with_body http t h) start ds" "start_plain (with_body http t h)"
    "\<forall>d \<in> set ds. plain_header (with_body http t h) d"
    "same_tables http (with_body http t h)" "ht_state (with_body http t h) = ht_state http"
proof -
  from set_message_body_spec [OF assms(1), of t] obtain h where
    h: "ezcfg_http_set_message_body http t (int (length t)) = Some (Some t, with_body http t h)"
      "cells h = cells (ht_heap http)" "heap_ok (ht_heap http) \<longrightarrow> heap_ok h" by blast
  let ?b = "with_body http t h"
  have tables: "same_tables http ?b" by (simp add: same_tables_def with_body_def)
  have start: "start_text ?b = start_text http" unfolding start_text_def with_body_start ..
  have plain: "start_plain ?b" using assms(5) unfolding start_plain_def with_body_start .
  have rep: "http_rep ?b ds" by (rule with_body_rep [OF assms(4) h(2)]) (use h(3) in blast)
  have headers: "\<forall>d \<in> set ds. plain_header ?b d" using assms(6) plain_header_tables [OF tables] by blast
  have "sendable ?b start ds"
    unfolding sendable_def using assms(2,3) rep by (simp only: start with_body_start with_body_body simp_thms)
  from that [OF h(1) this plain headers tables] show thesis by (simp only: with_body_start)
qed

text \<open>The receiver, once it has read the head: its body is taken, parsed and held.\<close>

lemma received_body_read:
  assumes "never_oom (ht_heap hr)" "jh_json r = Some j" "vtext v t" "jcontainer v" "cstr t" "json_ready j" "plenty j"
    "length (jprint v) < k"
  obtains r2 r3 j' j'' where
    "ezcfg_json_http_set_message_body (r\<lparr>jh_http := Some hr\<rparr>) t (int (length t)) = Some (Some t, r2)"
    "ezcfg_json_http_parse_message_body r2 = Some (True, r3)" "jh_json r3 = Some j'"
    "local_json_write_message j' k = Some (local_json_get_msg_len j', j'', jprint v)"
proof -
  from set_message_body_spec [OF assms(1), of t] obtain hb where
    b: "ezcfg_http_set_message_body hr t (int (length t)) = Some (Some t, with_body hr t hb)" by blast
  define hr2 where "hr2 = with_body hr t hb"
  have b2: "message_body hr2 = Some t" "body_ok hr2" by (simp_all add: hr2_def)
  let ?r2 = "r\<lparr>jh_http := Some hr2\<rparr>"
  obtain j' where j': "ezcfg_json_http_parse_message_body ?r2 = Some (True, ?r2\<lparr>jh_json := Some j'\<rparr>)" "json_holds j' v"
    using parse_body_holds [of ?r2 hr2 j t v] b2 assms(2-7) by auto
  from write_holds [OF j'(2) assms(8)] j'(2) obtain j'' where
    "local_json_write_message j' k = Some (local_json_get_msg_len j', j'', jprint v)"
    by (auto simp: json_holds_def local_json_get_msg_len_def)
  moreover have "ezcfg_json_http_set_message_body (r\<lparr>jh_http := Some hr\<rparr>) t (int (length t)) = Some (Some t, ?r2)"
    using b by (simp add: hr2_def ezcfg_json_http_set_message_body_def)
  ultimately show thesis using j'(1) by (intro that) (assumption | simp)+
qed

section \<open>Property\<close>



end
