(* ===== verification/Util_Sha1.thy ===== *)
theory Util_Sha1
  imports Ez_Prelude
begin

text \<open>
  SHA-1, \<^verbatim>\<open>src/util/util_sha1.c\<close>: the compression of one block on 32-bit words, and the function
  that feeds it byte by byte and pads the last block.  The compression is proved equal to the one of
  the standard (FIPS 180), whose schedule, selection and majority functions are written there in
  another way; the padding of the code is the one of the standard when the tail of the message
  leaves room for the length in its block, and differs from it otherwise.
\<close>

unbundle bit_operations_syntax

section \<open>The code\<close>

type_synonym sha1_md = "32 word \<times> 32 word \<times> 32 word \<times> 32 word \<times> 32 word"

definition SHA1CircularShift :: "nat \<Rightarrow> 32 word \<Rightarrow> 32 word" where
  "SHA1CircularShift bits w = (push_bit bits w AND 0xFFFFFFFF) OR drop_bit (32 - bits) w"

text \<open>The first loop of \<^verbatim>\<open>sha1_process_md\<close>: four bytes make a word.\<close>

definition sha1_block_word :: "8 word list \<Rightarrow> nat \<Rightarrow> 32 word" where
  "sha1_block_word block t =
     push_bit 24 (ucast (block ! (t * 4))) OR push_bit 16 (ucast (block ! (t * 4 + 1))) OR
     push_bit 8 (ucast (block ! (t * 4 + 2))) OR ucast (block ! (t * 4 + 3))"

text \<open>The second loop fills the buffer \<^verbatim>\<open>w\<close> from index \<open>t = length w\<close> on, \<open>n\<close> times.\<close>

fun sha1_extend :: "nat \<Rightarrow> 32 word list \<Rightarrow> 32 word list" where
  "sha1_extend 0 w = w"
| "sha1_extend (Suc n) w =
     (let t = length w in
      sha1_extend n
        (w @ [SHA1CircularShift 1 (w ! (t - 3) XOR w ! (t - 8) XOR w ! (t - 14) XOR w ! (t - 16))]))"

text \<open>One turn of a round loop, with the term of \<open>b\<close>, \<open>c\<close> and \<open>d\<close> and the constant of that loop.\<close>

definition sha1_step ::
    "(32 word \<Rightarrow> 32 word \<Rightarrow> 32 word \<Rightarrow> 32 word) \<Rightarrow> 32 word \<Rightarrow> 32 word list \<Rightarrow> nat \<Rightarrow> sha1_md \<Rightarrow> sha1_md" where
  "sha1_step f k w t = (\<lambda>(a, b, c, d, e).
     let temp = (SHA1CircularShift 5 a + f b c d + e + w ! t + k) AND 0xFFFFFFFF
     in (temp, a, SHA1CircularShift 30 b, c, d))"

definition sha1_process_md :: "8 word list \<Rightarrow> sha1_md \<Rightarrow> sha1_md" where
  "sha1_process_md block md =
     (let w = sha1_extend 64 (map (sha1_block_word block) [0..<16]);
          s1 = fold (sha1_step (\<lambda>b c d. (b AND c) OR (NOT b AND d)) 0x5A827999 w) [0..<20] md;
          s2 = fold (sha1_step (\<lambda>b c d. b XOR c XOR d) 0x6ED9EBA1 w) [20..<40] s1;
          s3 = fold (sha1_step (\<lambda>b c d. (b AND c) OR (b AND d) OR (c AND d)) 0x8F1BBCDC w) [40..<60] s2;
          s4 = fold (sha1_step (\<lambda>b c d. b XOR c XOR d) 0xCA62C1D6 w) [60..<80] s3
      in case (md, s4) of ((m0, m1, m2, m3, m4), (a, b, c, d, e)) \<Rightarrow>
        ((m0 + a) AND 0xFFFFFFFF, (m1 + b) AND 0xFFFFFFFF, (m2 + c) AND 0xFFFFFFFF,
         (m3 + d) AND 0xFFFFFFFF, (m4 + e) AND 0xFFFFFFFF))"

text \<open>The variables of \<^verbatim>\<open>ezcfg_util_sha1\<close>.\<close>

record sha1_vars =
  sv_block :: "8 word list"
  sv_idx :: nat
  len_lo :: "32 word"
  len_hi :: "32 word"
  sv_md :: sha1_md

text \<open>\<^verbatim>\<open>block[block_idx++] = b\<close>\<close>

definition sha1_put :: "8 word \<Rightarrow> sha1_vars \<Rightarrow> sha1_vars" where
  "sha1_put b s = s\<lparr>sv_block := (sv_block s)[sv_idx s := b], sv_idx := sv_idx s + 1\<rparr>"

definition sha1_digest_block :: "sha1_vars \<Rightarrow> sha1_vars" where
  "sha1_digest_block s = s\<lparr>sv_md := sha1_process_md (sv_block s) (sv_md s)\<rparr>"

text \<open>One turn of the loop over the message; \<open>Inl\<close> is the early return.\<close>

definition sha1_input :: "8 word \<Rightarrow> sha1_vars \<Rightarrow> int + sha1_vars" where
  "sha1_input b s =
     (let s = sha1_put (b AND 0xFF) s;
          s = s\<lparr>len_lo := (len_lo s + 8) AND 0xFFFFFFFF\<rparr>;
          s' = (if len_lo s = 0 then s\<lparr>len_hi := (len_hi s + 1) AND 0xFFFFFFFF\<rparr> else s)
      in if len_lo s = 0 \<and> len_hi s' = 0 then Inl (-1)
         else Inr (if sv_idx s' = 64 then (sha1_digest_block s')\<lparr>sv_idx := 0\<rparr> else s'))"

fun sha1_loop :: "8 word list \<Rightarrow> sha1_vars \<Rightarrow> int + sha1_vars" where
  "sha1_loop [] s = Inr s"
| "sha1_loop (b # src) s = (case sha1_input b s of Inl r \<Rightarrow> Inl r | Inr s' \<Rightarrow> sha1_loop src s')"

text \<open>\<^verbatim>\<open>while (block_idx < k) block[block_idx++] = 0\<close>\<close>

function sha1_zero_fill :: "nat \<Rightarrow> sha1_vars \<Rightarrow> sha1_vars" where
  "sha1_zero_fill k s = (if sv_idx s < k then sha1_zero_fill k (sha1_put 0 s) else s)"
  by pat_completeness auto
termination
  by (relation "measure (\<lambda>(k, s). k - sv_idx s)") (auto simp: sha1_put_def)

declare sha1_zero_fill.simps [simp del]

definition sha1_finish :: "sha1_vars \<Rightarrow> sha1_vars" where
  "sha1_finish s =
     (if sv_idx s > 55 then
        sha1_zero_fill 56 (sha1_digest_block (sha1_zero_fill 64 (sha1_put 0x80 s)))
      else sha1_zero_fill 56 (sha1_put 0x80 s))"

definition sha1_length_bytes :: "sha1_vars \<Rightarrow> sha1_vars" where
  "sha1_length_bytes s = s\<lparr>sv_block := (sv_block s)
     [56 := ucast (drop_bit 24 (len_hi s) AND 0xFF), 57 := ucast (drop_bit 16 (len_hi s) AND 0xFF),
      58 := ucast (drop_bit 8 (len_hi s) AND 0xFF), 59 := ucast (len_hi s AND 0xFF),
      60 := ucast (drop_bit 24 (len_lo s) AND 0xFF), 61 := ucast (drop_bit 16 (len_lo s) AND 0xFF),
      62 := ucast (drop_bit 8 (len_lo s) AND 0xFF), 63 := ucast (len_lo s AND 0xFF)]\<rparr>"

text \<open>\<^verbatim>\<open>memcpy(dst, md, sizeof(md))\<close> on the little-endian processor of the board.\<close>

definition word_bytes_le :: "32 word \<Rightarrow> 8 word list" where
  "word_bytes_le w = [ucast w, ucast (drop_bit 8 w), ucast (drop_bit 16 w), ucast (drop_bit 24 w)]"

definition sha1_md_bytes :: "sha1_md \<Rightarrow> 8 word list" where
  "sha1_md_bytes = (\<lambda>(a, b, c, d, e).
     word_bytes_le a @ word_bytes_le b @ word_bytes_le c @ word_bytes_le d @ word_bytes_le e)"

definition sha1_initial_md :: sha1_md where
  "sha1_initial_md = (0x67452301, 0xEFCDAB89, 0x98BADCFE, 0x10325476, 0xC3D2E1F0)"

text \<open>\<open>garbage\<close> is what the uninitialised array \<^verbatim>\<open>block\<close> holds.\<close>

definition ezcfg_util_sha1 :: "8 word list \<Rightarrow> 8 word list \<Rightarrow> nat \<Rightarrow> int + 8 word list" where
  "ezcfg_util_sha1 garbage src dst_len =
     (if length src < 1 then Inl (-1)
      else if dst_len < 20 then Inl (-1)
      else
        (case sha1_loop src \<lparr>sv_block = garbage, sv_idx = 0, len_lo = 0, len_hi = 0, sv_md = sha1_initial_md\<rparr> of
           Inl r \<Rightarrow> Inl r
         | Inr s \<Rightarrow> Inr (sha1_md_bytes (sv_md (sha1_digest_block (sha1_length_bytes (sha1_finish s)))))))"

section \<open>The standard\<close>

definition sha1_word :: "8 word list \<Rightarrow> nat \<Rightarrow> 32 word" where
  "sha1_word block t =
     of_nat (((unat (block ! (4 * t)) * 256 + unat (block ! (4 * t + 1))) * 256 +
       unat (block ! (4 * t + 2))) * 256 + unat (block ! (4 * t + 3)))"

fun sha1_schedule :: "8 word list \<Rightarrow> nat \<Rightarrow> 32 word" where
  "sha1_schedule block t =
     (if t < 16 then sha1_word block t
      else word_rotl 1 (sha1_schedule block (t - 3) XOR sha1_schedule block (t - 8) XOR
        sha1_schedule block (t - 14) XOR sha1_schedule block (t - 16)))"

declare sha1_schedule.simps [simp del]

definition sha1_f :: "nat \<Rightarrow> 32 word \<Rightarrow> 32 word \<Rightarrow> 32 word \<Rightarrow> 32 word" where
  "sha1_f t x y z =
     (if t < 20 then (x AND y) XOR (NOT x AND z)
      else if t < 40 then x XOR y XOR z
      else if t < 60 then (x AND y) XOR (x AND z) XOR (y AND z)
      else x XOR y XOR z)"

definition sha1_K :: "nat \<Rightarrow> 32 word" where
  "sha1_K t = (if t < 20 then 0x5A827999 else if t < 40 then 0x6ED9EBA1
     else if t < 60 then 0x8F1BBCDC else 0xCA62C1D6)"

definition sha1_round :: "8 word list \<Rightarrow> nat \<Rightarrow> sha1_md \<Rightarrow> sha1_md" where
  "sha1_round block t = (\<lambda>(a, b, c, d, e).
     (word_rotl 5 a + sha1_f t b c d + e + sha1_K t + sha1_schedule block t, a, word_rotl 30 b, c, d))"

definition sha1_compress :: "8 word list \<Rightarrow> sha1_md \<Rightarrow> sha1_md" where
  "sha1_compress block md =
     (case (md, fold (sha1_round block) [0..<80] md) of ((h0, h1, h2, h3, h4), (a, b, c, d, e)) \<Rightarrow>
        (h0 + a, h1 + b, h2 + c, h3 + d, h4 + e))"

text \<open>The hash of a text of whole blocks.\<close>

function sha1_blocks :: "8 word list \<Rightarrow> sha1_md \<Rightarrow> sha1_md" where
  "sha1_blocks m md =
     (if length m < 64 then md else sha1_blocks (drop 64 m) (sha1_compress (take 64 m) md))"
  by pat_completeness auto
termination by (relation "measure (\<lambda>(t, md). length t)") auto

declare sha1_blocks.simps [simp del]

definition be64 :: "nat \<Rightarrow> 8 word list" where
  "be64 n = map (\<lambda>i. of_nat (n div 256 ^ i)) [7, 6, 5, 4, 3, 2, 1, 0]"

definition sha1_pad :: "8 word list \<Rightarrow> 8 word list" where
  "sha1_pad m = m @ [0x80] @ replicate ((119 - length m mod 64) mod 64) 0 @ be64 (8 * length m)"

definition sha1_standard :: "8 word list \<Rightarrow> sha1_md" where
  "sha1_standard m = sha1_blocks (sha1_pad m) sha1_initial_md"

section \<open>The compression is the standard one\<close>

lemma mask32 [simp]: "w AND 0xFFFFFFFF = (w :: 32 word)"
proof -
  have "(0xFFFFFFFF :: 32 word) = - 1" by simp
  then show ?thesis by (simp only: bit.conj_one_right)
qed

lemma circular_shift_rotl: "0 < n \<Longrightarrow> n < 32 \<Longrightarrow> SHA1CircularShift n w = word_rotl n w"
  unfolding SHA1CircularShift_def mask32
proof (rule bit_word_eqI)
  fix i assume n: "0 < n" "n < 32" and i: "i < LENGTH(32)"
  show "bit (push_bit n w OR drop_bit (32 - n) w) i \<longleftrightarrow> bit (word_rotl n w) i"
  proof (cases "n \<le> i")
    case True
    then have "(i + 32 - n) mod 32 = i - n" using i by (simp add: mod_if)
    then show ?thesis using True n i by (auto simp: bit_simps bit_word_rotl_iff dest: bit_imp_le_length)
  next
    case False
    then have "(i + 32 - n) mod 32 = 32 + i - n" using n by simp
    then show ?thesis using False n i by (simp add: bit_simps bit_word_rotl_iff)
  qed
qed

lemma block_word_sha1_word: "sha1_block_word block t = sha1_word block t"
proof -
  have bytes: "push_bit 24 (ucast a) OR push_bit 16 (ucast b) OR push_bit 8 (ucast c) OR ucast d =
      (of_nat (((unat a * 256 + unat b) * 256 + unat c) * 256 + unat d) :: 32 word)" for a b c d :: "8 word"
  proof -
    have or_add: "x AND y = 0 \<Longrightarrow> x OR y = x + y" for x y :: "32 word" by (rule disjunctive_add_eq_or [symmetric])
    have "push_bit 8 (ucast c) OR ucast d = push_bit 8 (ucast c) + (ucast d :: 32 word)"
      by (rule or_add, rule bit_word_eqI) (auto simp: bit_simps dest: bit_imp_le_length)
    moreover have "push_bit 16 (ucast b) OR (push_bit 8 (ucast c) OR ucast d) =
        push_bit 16 (ucast b) + (push_bit 8 (ucast c) OR (ucast d :: 32 word))"
      by (rule or_add, rule bit_word_eqI) (auto simp: bit_simps dest: bit_imp_le_length)
    moreover have "push_bit 24 (ucast a) OR (push_bit 16 (ucast b) OR (push_bit 8 (ucast c) OR ucast d)) =
        push_bit 24 (ucast a) + (push_bit 16 (ucast b) OR (push_bit 8 (ucast c) OR (ucast d :: 32 word)))"
      by (rule or_add, rule bit_word_eqI) (auto simp: bit_simps dest: bit_imp_le_length)
    ultimately show ?thesis by (simp add: push_bit_eq_mult algebra_simps)
  qed
  show ?thesis by (simp only: sha1_block_word_def sha1_word_def bytes mult.commute [of t 4])
qed

lemma sha1_extend_schedule:
  "w = map (sha1_schedule block) [0..<k] \<Longrightarrow> 16 \<le> k \<Longrightarrow>
     sha1_extend n w = map (sha1_schedule block) [0..<k + n]"
proof (induction n arbitrary: w k)
  case (Suc n)
  have "sha1_schedule block k =
      SHA1CircularShift 1 (w ! (k - 3) XOR w ! (k - 8) XOR w ! (k - 14) XOR w ! (k - 16))"
    using Suc.prems by (subst sha1_schedule.simps) (simp add: circular_shift_rotl)
  then have "w @ [SHA1CircularShift 1 (w ! (k - 3) XOR w ! (k - 8) XOR w ! (k - 14) XOR w ! (k - 16))] =
      map (sha1_schedule block) [0..<Suc k]" using Suc.prems by simp
  from Suc.IH [OF this] Suc.prems show ?case by (simp add: Let_def)
qed simp

lemma schedule_words: "sha1_extend 64 (map (sha1_block_word block) [0..<16]) = map (sha1_schedule block) [0..<80]"
proof -
  have "map (sha1_block_word block) [0..<16] = map (sha1_schedule block) [0..<16]"
    by (rule map_cong [OF refl]) (simp add: sha1_schedule.simps block_word_sha1_word)
  from sha1_extend_schedule [OF this, of 64] show ?thesis by simp
qed

lemma sha1_f_code:
  "(b AND c) OR (NOT b AND d) = (b AND c) XOR (NOT b AND d)"
  "(b AND c) OR (b AND d) OR (c AND d) = (b AND c) XOR (b AND d) XOR (c AND d)" for b c d :: "32 word"
  by (rule bit_word_eqI; auto simp: bit_simps)+

lemma fold_steps:
  assumes "\<And>t b c d. t \<in> set ts \<Longrightarrow> f b c d = sha1_f t b c d" "\<And>t. t \<in> set ts \<Longrightarrow> k = sha1_K t"
    and "set ts \<subseteq> {0..<80}"
  shows "fold (sha1_step f k (map (sha1_schedule block) [0..<80])) ts md = fold (sha1_round block) ts md"
proof (rule fold_cong [OF refl refl])
  fix t assume t: "t \<in> set ts"
  then have "map (sha1_schedule block) [0..<80] ! t = sha1_schedule block t" using assms(3) by auto
  then show "sha1_step f k (map (sha1_schedule block) [0..<80]) t = sha1_round block t"
    using assms(1,2) [OF t]
    by (auto simp: sha1_step_def sha1_round_def circular_shift_rotl fun_eq_iff algebra_simps)
qed

lemma process_md_standard: "sha1_process_md block md = sha1_compress block md"
proof -
  let ?w = "map (sha1_schedule block) [0..<80]"
  have split: "[0..<80] = [0..<20] @ [20..<40] @ [40..<60] @ [60..<80::nat]"
    using upt_add_eq_append [of 0 20 60] upt_add_eq_append [of 20 40 40] upt_add_eq_append [of 40 60 20] by simp
  have rounds:
    "fold (sha1_step (\<lambda>b c d. (b AND c) OR (NOT b AND d)) 0x5A827999 ?w) [0..<20] s = fold (sha1_round block) [0..<20] s"
    "fold (sha1_step (\<lambda>b c d. b XOR c XOR d) 0x6ED9EBA1 ?w) [20..<40] s = fold (sha1_round block) [20..<40] s"
    "fold (sha1_step (\<lambda>b c d. (b AND c) OR (b AND d) OR (c AND d)) 0x8F1BBCDC ?w) [40..<60] s =
       fold (sha1_round block) [40..<60] s"
    "fold (sha1_step (\<lambda>b c d. b XOR c XOR d) 0xCA62C1D6 ?w) [60..<80] s = fold (sha1_round block) [60..<80] s" for s
    by (rule fold_steps; auto simp: sha1_f_def sha1_f_code sha1_K_def)+
  have all: "fold (sha1_round block) [0..<80] md = fold (sha1_round block) [60..<80] (fold (sha1_round block) [40..<60]
      (fold (sha1_round block) [20..<40] (fold (sha1_round block) [0..<20] md)))"
    unfolding split fold_append o_apply ..
  show ?thesis
    unfolding sha1_process_md_def sha1_compress_def schedule_words Let_def mask32 rounds all ..
qed

section \<open>Feeding the message\<close>

lemma sha1_blocks_short [simp]: "length m < 64 \<Longrightarrow> sha1_blocks m md = md"
  by (simp add: sha1_blocks.simps)

lemma sha1_blocks_append: "length x mod 64 = 0 \<Longrightarrow> sha1_blocks (x @ y) md = sha1_blocks y (sha1_blocks x md)"
proof (induction x md rule: sha1_blocks.induct)
  case (1 x md)
  show ?case
  proof (cases "length x < 64")
    case True
    with 1(2) show ?thesis by simp
  next
    case False
    then have "length (drop 64 x) mod 64 = 0" using 1(2) by (simp add: le_mod_geq)
    from 1(1) [OF False this] show ?thesis
      using False by (subst (1 3) sha1_blocks.simps) simp
  qed
qed

definition full_length :: "'a list \<Rightarrow> nat" where
  "full_length p = 64 * (length p div 64)"

definition sha1_holds :: "8 word list \<Rightarrow> sha1_vars \<Rightarrow> bool" where
  "sha1_holds p s \<longleftrightarrow>
     length (sv_block s) = 64 \<and> sv_idx s = length p mod 64 \<and>
     take (sv_idx s) (sv_block s) = drop (full_length p) p \<and>
     sv_md s = sha1_blocks (take (full_length p) p) sha1_initial_md \<and>
     unat (len_lo s) + 2 ^ 32 * unat (len_hi s) = 8 * length p"

lemma full_length_le: "full_length p \<le> length p" "length p - full_length p = length p mod 64"
  unfolding full_length_def by presburger+

lemma count_bits:
  assumes "unat lo + 2 ^ 32 * unat hi = 8 * n" "8 * (n + 1) < (2::nat) ^ 64"
    and lo'_def: "lo' = (lo + 8 :: 32 word)" and hi'_def: "hi' = (if lo' = 0 then hi + 1 else hi :: 32 word)"
  shows "unat lo' + 2 ^ 32 * unat hi' = 8 * (n + 1)" "lo' = 0 \<Longrightarrow> hi' \<noteq> 0"
proof -
  have lo: "unat lo < 2 ^ 32" and hi: "unat hi < 2 ^ 32" using unsigned_less [of lo] unsigned_less [of hi] by simp_all
  have lo': "unat lo' = (unat lo + 8) mod 2 ^ 32" by (simp add: lo'_def unat_word_ariths)
  have "8 dvd unat lo + 8 * (2 ^ 29 * unat hi)" using assms(1) by simp
  then have "8 dvd unat lo" by (simp only: dvd_add_left_iff dvd_triv_left)
  then obtain k where k: "unat lo = 8 * k" by (elim dvdE)
  have "unat lo' + 2 ^ 32 * unat hi' = 8 * (n + 1) \<and> (lo' = 0 \<longrightarrow> hi' \<noteq> 0)"
  proof (cases "unat lo + 8 < 2 ^ 32")
    case True
    then have "unat lo' = unat lo + 8" using lo' by simp
    moreover from this have "lo' \<noteq> 0" by auto
    ultimately show ?thesis using assms(1) by (simp add: hi'_def)
  next
    case False
    then have "unat lo + 8 = 2 ^ 32" using lo k by simp
    moreover from this have "lo' = 0" using lo' by (simp add: unat_eq_zero)
    ultimately have "unat hi + 1 < 2 ^ 32" "hi' = hi + 1" using assms(1,2) by (simp_all add: hi'_def)
    then have "unat hi' = unat hi + 1" by (simp add: unat_word_ariths)
    moreover have "hi' \<noteq> 0" using \<open>unat hi' = unat hi + 1\<close> by auto
    ultimately show ?thesis using \<open>lo' = 0\<close> \<open>unat lo + 8 = 2 ^ 32\<close> assms(1) by simp
  qed
  then show "unat lo' + 2 ^ 32 * unat hi' = 8 * (n + 1)" "lo' = 0 \<Longrightarrow> hi' \<noteq> 0" by auto
qed

lemma put_prefix:
  assumes "length block = 64" "take i block = xs" "i < 64"
  shows "take (Suc i) (block[i := b]) = xs @ [b]"
  using assms by (simp add: take_Suc_conv_app_nth)

lemma sha1_input_eq:
  assumes "lo = len_lo s + 8" "hi = (if lo = 0 then len_hi s + 1 else len_hi s)" "lo = 0 \<Longrightarrow> hi \<noteq> 0"
    "t = s\<lparr>sv_block := (sv_block s)[sv_idx s := b], sv_idx := sv_idx s + 1, len_lo := lo, len_hi := hi\<rparr>"
  shows "sha1_input b s = Inr (if sv_idx s = 63 then (sha1_digest_block t)\<lparr>sv_idx := 0\<rparr> else t)"
proof -
  have "(0xFF :: 8 word) = - 1" by simp
  then have b: "b AND 0xFF = b" by (simp only: bit.conj_one_right)
  show ?thesis using assms by (auto simp: sha1_input_def sha1_put_def Let_def b mask32)
qed

lemma append_full:
  assumes "length p mod 64 = 63"
  shows "full_length (p @ [b]) = length p + 1" "(length p + 1) mod 64 = 0"
proof -
  have "length p = 64 * (length p div 64) + 63" using div_mult_mod_eq [of "length p" 64] assms by simp
  then obtain k where "length p = 64 * k + 63" by blast
  then show "full_length (p @ [b]) = length p + 1" "(length p + 1) mod 64 = 0" by (simp_all add: full_length_def)
qed

lemma append_not_full:
  assumes "length p mod 64 < 63"
  shows "full_length (p @ [b]) = full_length p" "(length p + 1) mod 64 = length p mod 64 + 1"
proof -
  have "(length p + 1) mod 64 = length p mod 64 + 1" "(length p + 1) div 64 = length p div 64"
    using assms by (simp_all add: mod_Suc div_Suc)
  then show "full_length (p @ [b]) = full_length p" "(length p + 1) mod 64 = length p mod 64 + 1"
    by (simp_all add: full_length_def)
qed

lemma blocks_full:
  assumes "length p mod 64 = 63"
  shows "sha1_blocks (p @ [b]) md =
    sha1_compress (drop (full_length p) p @ [b]) (sha1_blocks (take (full_length p) p) md)"
proof -
  have app: "take (full_length p) p @ drop (full_length p) p @ [b] = p @ [b]" by (simp flip: append_assoc)
  have "length (take (full_length p) p) mod 64 = 0"
    using full_length_le(1) [of p] by (simp add: full_length_def)
  from sha1_blocks_append [OF this, of "drop (full_length p) p @ [b]" md, unfolded app]
  have "sha1_blocks (p @ [b]) md = sha1_blocks (drop (full_length p) p @ [b]) (sha1_blocks (take (full_length p) p) md)" .
  moreover have "length (drop (full_length p) p @ [b]) = 64" using full_length_le [of p] assms by simp
  ultimately show ?thesis by (simp add: sha1_blocks.simps [of "drop (full_length p) p @ [b]"])
qed

lemma sha1_input_holds:
  assumes "sha1_holds p s" "8 * (length p + 1) < (2::nat) ^ 64"
  shows "\<exists>s'. sha1_input b s = Inr s' \<and> sha1_holds (p @ [b]) s'"
proof -
  note s = assms(1) [unfolded sha1_holds_def]
  define lo where "lo = len_lo s + 8"
  define hi where "hi = (if lo = 0 then len_hi s + 1 else len_hi s)"
  from s have "unat (len_lo s) + 2 ^ 32 * unat (len_hi s) = 8 * length p" by blast
  from count_bits [OF this assms(2) lo_def hi_def] have
    bits: "unat lo + 2 ^ 32 * unat hi = 8 * (length p + 1)" "lo = 0 \<Longrightarrow> hi \<noteq> 0" by auto
  note input = sha1_input_eq [OF lo_def hi_def bits(2) refl, of b]
  have idx: "sv_idx s = length p mod 64" "sv_idx s < 64" "length (sv_block s) = 64" using s by simp_all
  have pre: "take (Suc (sv_idx s)) ((sv_block s)[sv_idx s := b]) = drop (full_length p) p @ [b]"
    using s idx by (intro put_prefix) auto
  show ?thesis
  proof (cases "sv_idx s = 63")
    case True
    then have len: "length p mod 64 = 63" using idx by simp
    have "(sv_block s)[sv_idx s := b] = drop (full_length p) p @ [b]" using pre True idx(3) by simp
    then have "sha1_process_md ((sv_block s)[sv_idx s := b]) (sv_md s) = sha1_blocks (p @ [b]) sha1_initial_md"
      using s blocks_full [OF len] by (simp only: process_md_standard)
    then show ?thesis using input True append_full [OF len] idx(3) bits(1)
      by (simp add: sha1_holds_def sha1_digest_block_def)
  next
    case False
    then have "length p mod 64 < 63" using idx by simp
    from append_not_full [OF this] show ?thesis using input False s bits(1) pre full_length_le(1) [of p]
      by (simp add: sha1_holds_def)
  qed
qed

lemma sha1_loop_holds:
  assumes "sha1_holds p s" "8 * (length p + length src) < (2::nat) ^ 64"
  shows "\<exists>s'. sha1_loop src s = Inr s' \<and> sha1_holds (p @ src) s'"
  using assms
proof (induction src arbitrary: p s)
  case (Cons b src)
  from sha1_input_holds [OF Cons.prems(1), of b] Cons.prems(2) obtain s' where
    s': "sha1_input b s = Inr s'" "sha1_holds (p @ [b]) s'" by auto
  from Cons.IH [OF s'(2)] Cons.prems(2) show ?case using s'(1) by simp
qed simp

section \<open>The last block\<close>

text \<open>The text the code hashes.  When the tail is longer than 55 bytes the first 56 bytes of the block
  that takes the length are not cleared: they are those of the block before.\<close>

definition sha1_tail_block :: "8 word list \<Rightarrow> 8 word list" where
  "sha1_tail_block m = drop (full_length m) m @ [0x80] @ replicate (63 - length m mod 64) 0"

definition sha1_code_pad :: "8 word list \<Rightarrow> 8 word list" where
  "sha1_code_pad m =
     (if length m mod 64 \<le> 55 then sha1_pad m
      else take (full_length m) m @ sha1_tail_block m @ take 56 (sha1_tail_block m) @ be64 (8 * length m))"

lemma zero_fill:
  "sv_idx s \<le> k \<Longrightarrow> k \<le> length (sv_block s) \<Longrightarrow>
     sha1_zero_fill k s = s\<lparr>sv_block := take (sv_idx s) (sv_block s) @ replicate (k - sv_idx s) 0 @ drop k (sv_block s),
       sv_idx := k\<rparr>"
proof (induction k s rule: sha1_zero_fill.induct)
  case (1 k s)
  show ?case
  proof (cases "sv_idx s < k")
    case True
    with 1 have "sha1_zero_fill k s = sha1_zero_fill k (sha1_put 0 s)" by (subst sha1_zero_fill.simps) simp
    also have "\<dots> = (sha1_put 0 s)\<lparr>sv_block := take (Suc (sv_idx s)) ((sv_block s)[sv_idx s := 0]) @
        replicate (k - Suc (sv_idx s)) 0 @ drop k (sv_block s), sv_idx := k\<rparr>"
      using 1 True by (simp add: sha1_put_def)
    also have "take (Suc (sv_idx s)) ((sv_block s)[sv_idx s := 0]) = take (sv_idx s) (sv_block s) @ [0]"
      using 1(3) True by (simp add: take_Suc_conv_app_nth)
    also have "(take (sv_idx s) (sv_block s) @ [0]) @ replicate (k - Suc (sv_idx s)) 0 @ drop k (sv_block s) =
        take (sv_idx s) (sv_block s) @ replicate (k - sv_idx s) 0 @ drop k (sv_block s)"
      using True by (simp add: Suc_diff_Suc flip: replicate_Suc)
    finally show ?thesis by (simp add: sha1_put_def)
  next
    case False
    with 1(2) show ?thesis by (subst sha1_zero_fill.simps) simp
  qed
qed

lemma be64_words:
  fixes lo hi :: "32 word"
  assumes "unat lo + 2 ^ 32 * unat hi = n"
  shows "be64 n = [ucast (drop_bit 24 hi AND 0xFF), ucast (drop_bit 16 hi AND 0xFF), ucast (drop_bit 8 hi AND 0xFF),
    ucast (hi AND 0xFF), ucast (drop_bit 24 lo AND 0xFF), ucast (drop_bit 16 lo AND 0xFF),
    ucast (drop_bit 8 lo AND 0xFF), ucast (lo AND 0xFF)]"
proof -
  have byte: "ucast (w AND 0xFF) = (of_nat (unat w) :: 8 word)" for w :: "32 word"
  proof -
    have "w AND 0xFF = take_bit 8 w" by (simp add: take_bit_eq_mask mask_eq_exp_minus_1)
    then show ?thesis by (simp add: bit_word_eqI bit_simps)
  qed
  have drop: "unat (drop_bit k w) = unat w div 2 ^ k" for k and w :: "32 word"
    unfolding unat_drop_bit_eq by (simp add: drop_bit_eq_div)
  have high: "n div 256 ^ (4 + k) = unat hi div 256 ^ k" for k
  proof -
    have "unat lo < 2 ^ 32" using unsigned_less [of lo] by simp
    then have "n div 2 ^ 32 = unat hi" using assms by auto
    then show ?thesis by (simp add: power_add div_mult2_eq)
  qed
  have low: "of_nat (n div 256 ^ k) = (of_nat (unat lo div 256 ^ k) :: 8 word)" if "k < 4" for k
  proof -
    define c :: nat where "c = 256 ^ (3 - k)"
    have "k + Suc (3 - k) = 4" using that by simp
    then have "(256::nat) ^ k * 256 ^ Suc (3 - k) = 256 ^ 4" by (simp only: flip: power_add)
    then have c: "(2::nat) ^ 32 = 256 ^ k * (256 * c)" by (simp add: c_def)
    have "n = unat lo + 256 ^ k * (256 * (c * unat hi))" unfolding assms [symmetric] c by simp
    then have "n div 256 ^ k = unat lo div 256 ^ k + 256 * (c * unat hi)" by simp
    moreover have "(256 :: 8 word) * w = 0" for w
    proof -
      have "(256 :: 8 word) = 0" by simp
      then show ?thesis by (simp only: mult_zero_left)
    qed
    ultimately show ?thesis by simp
  qed
  have hi: "of_nat (n div 256 ^ (4 + k)) = (ucast (drop_bit (8 * k) hi AND 0xFF) :: 8 word)" for k
    unfolding byte drop high by (simp add: power_mult)
  have lo: "of_nat (n div 256 ^ k) = (ucast (drop_bit (8 * k) lo AND 0xFF) :: 8 word)" if "k < 4" for k
    unfolding byte drop low [OF that] by (simp add: power_mult)
  have nums: "4 + (3::nat) = 7" "4 + (2::nat) = 6" "4 + (1::nat) = 5" "4 + (0::nat) = 4"
    "8 * (3::nat) = 24" "8 * (2::nat) = 16" "8 * (1::nat) = 8" "8 * (0::nat) = 0" by simp_all
  have small: "3 < (4::nat)" "2 < (4::nat)" "1 < (4::nat)" "0 < (4::nat)" by simp_all
  note bytes = hi [of 3] hi [of 2] hi [of 1] hi [of 0]
    lo [OF small(1)] lo [OF small(2)] lo [OF small(3)] lo [OF small(4)]
  note bytes' = bytes [unfolded nums drop_bit_0 id_apply]
  show ?thesis unfolding be64_def list.map bytes' ..
qed

lemma split8:
  assumes "length ys = 8"
  obtains a b c d e f g h where "ys = [a, b, c, d, e, f, g, h]"
  using assms that by (auto simp: length_Suc_conv eval_nat_numeral)

lemma length_bytes_block:
  assumes "length (sv_block s) = 64" "unat (len_lo s) + 2 ^ 32 * unat (len_hi s) = n"
  shows "sha1_length_bytes s = s\<lparr>sv_block := take 56 (sv_block s) @ be64 n\<rparr>"
proof -
  from assms(1) have "length (drop 56 (sv_block s)) = 8" "length (take 56 (sv_block s)) = 56" by simp_all
  then obtain x a b c d e f g h where x: "sv_block s = x @ [a, b, c, d, e, f, g, h]" "length x = 56"
    by (metis append_take_drop_id split8)
  then show ?thesis
    unfolding be64_words [OF assms(2)] by (simp add: sha1_length_bytes_def list_update_append)
qed

lemma be64_length [simp]: "length (be64 n) = 8"
  by (simp add: be64_def)

text \<open>What the loop and the padding hand to the last compression.\<close>

lemma finish_block:
  assumes "sha1_holds m s"
  shows "length m mod 64 \<le> 55 \<Longrightarrow> sv_md (sha1_finish s) = sha1_blocks (take (full_length m) m) sha1_initial_md \<and>
      take 56 (sv_block (sha1_finish s)) = drop (full_length m) m @ [0x80] @ replicate (55 - length m mod 64) 0"
    and "55 < length m mod 64 \<Longrightarrow>
      sv_md (sha1_finish s) = sha1_compress (sha1_tail_block m) (sha1_blocks (take (full_length m) m) sha1_initial_md) \<and>
      take 56 (sv_block (sha1_finish s)) = take 56 (sha1_tail_block m)"
    and "length (sv_block (sha1_finish s)) = 64" "len_lo (sha1_finish s) = len_lo s" "len_hi (sha1_finish s) = len_hi s"
proof -
  note s = assms [unfolded sha1_holds_def]
  let ?r = "length m mod 64"
  have idx: "sv_idx s = ?r" "?r < 64" "length (sv_block s) = 64" using s by simp_all
  have "take ?r (sv_block s) = drop (full_length m) m" using s by auto
  note put = put_prefix [OF idx(3) this idx(2)]
  have fill: "sha1_zero_fill k (sha1_put b s) = s\<lparr>sv_block := (drop (full_length m) m @ [b]) @
      replicate (k - Suc ?r) 0 @ drop k ((sv_block s)[?r := b]), sv_idx := k\<rparr>" if "?r < k" "k \<le> 64" for b k
    using that idx by (subst zero_fill) (simp_all add: sha1_put_def flip: put)
  have len: "length (drop (full_length m) m) = ?r" using full_length_le [of m] by simp
  show "length m mod 64 \<le> 55 \<Longrightarrow> sv_md (sha1_finish s) = sha1_blocks (take (full_length m) m) sha1_initial_md \<and>
      take 56 (sv_block (sha1_finish s)) = drop (full_length m) m @ [0x80] @ replicate (55 - ?r) 0"
    using fill [of 56 128] Suc_diff_le [of ?r 55] idx len s by (simp add: sha1_finish_def)
  have long: "sha1_finish s = s\<lparr>sv_block := sha1_tail_block m, sv_idx := 64,
      sv_md := sha1_process_md (sha1_tail_block m) (sv_md s)\<rparr>" if "55 < ?r"
  proof -
    have "sha1_zero_fill 64 (sha1_put 0x80 s) = s\<lparr>sv_block := sha1_tail_block m, sv_idx := 64\<rparr>"
      using fill [of 64 128] idx by (simp add: sha1_tail_block_def)
    moreover have "sha1_zero_fill 56 t = t" if "sv_idx t = 64" for t
      using that by (subst sha1_zero_fill.simps) simp
    ultimately show ?thesis using that idx by (simp add: sha1_finish_def sha1_digest_block_def)
  qed
  then show "55 < ?r \<Longrightarrow>
      sv_md (sha1_finish s) = sha1_compress (sha1_tail_block m) (sha1_blocks (take (full_length m) m) sha1_initial_md) \<and>
      take 56 (sv_block (sha1_finish s)) = take 56 (sha1_tail_block m)"
    using s by (simp add: process_md_standard)
  have "length (sha1_tail_block m) = 64" using idx(2) len by (simp add: sha1_tail_block_def)
  then show "length (sv_block (sha1_finish s)) = 64" "len_lo (sha1_finish s) = len_lo s" "len_hi (sha1_finish s) = len_hi s"
    using long fill [of 56 128] idx len by (cases "?r \<le> 55"; simp add: sha1_finish_def)+
qed

lemma one_block: "length m = 64 \<Longrightarrow> sha1_blocks m md = sha1_compress m md"
  by (subst sha1_blocks.simps) simp

lemma code_pad_blocks:
  assumes "length m mod 64 \<le> 55"
  shows "sha1_blocks (sha1_code_pad m) md =
    sha1_compress (drop (full_length m) m @ [0x80] @ replicate (55 - length m mod 64) 0 @ be64 (8 * length m))
      (sha1_blocks (take (full_length m) m) md)"
proof -
  let ?t = "drop (full_length m) m @ [0x80] @ replicate (55 - length m mod 64) 0 @ be64 (8 * length m)"
  have zeros: "(119 - length m mod 64) mod 64 = 55 - length m mod 64" using assms by (simp add: le_mod_geq)
  have app: "take (full_length m) m @ ?t = sha1_code_pad m"
    unfolding sha1_code_pad_def sha1_pad_def zeros using assms by (simp flip: append_assoc)
  have "length (take (full_length m) m) mod 64 = 0" using full_length_le(1) [of m] by (simp add: full_length_def)
  from sha1_blocks_append [OF this, of ?t md, unfolded app] have
    "sha1_blocks (sha1_code_pad m) md = sha1_blocks ?t (sha1_blocks (take (full_length m) m) md)" .
  moreover have "length ?t = 64" using full_length_le [of m] assms by simp
  ultimately show ?thesis by (simp only: one_block)
qed

lemma code_pad_blocks_long:
  assumes "55 < length m mod 64"
  shows "sha1_blocks (sha1_code_pad m) md =
    sha1_compress (take 56 (sha1_tail_block m) @ be64 (8 * length m))
      (sha1_compress (sha1_tail_block m) (sha1_blocks (take (full_length m) m) md))"
proof -
  let ?t = "take 56 (sha1_tail_block m) @ be64 (8 * length m)"
  have "length (take (full_length m) m) mod 64 = 0" using full_length_le(1) [of m] by (simp add: full_length_def)
  moreover have len: "length (sha1_tail_block m) = 64" "length ?t = 64"
    using full_length_le [of m] by (simp_all add: sha1_tail_block_def)
  ultimately show ?thesis
    using assms by (simp add: sha1_code_pad_def sha1_blocks_append one_block)
qed

lemma sha1_computes:
  assumes "0 < length m" "8 * length m < (2::nat) ^ 64" "20 \<le> dst_len" "length garbage = 64"
  shows "ezcfg_util_sha1 garbage m dst_len = Inr (sha1_md_bytes (sha1_blocks (sha1_code_pad m) sha1_initial_md))"
proof -
  let ?s0 = "\<lparr>sv_block = garbage, sv_idx = 0, len_lo = 0, len_hi = 0, sv_md = sha1_initial_md\<rparr>"
  have "sha1_holds [] ?s0" using assms(4) by (simp add: sha1_holds_def full_length_def)
  from sha1_loop_holds [OF this, of m] assms(2) obtain s where
    s: "sha1_loop m ?s0 = Inr s" "sha1_holds m s" by auto
  note f = finish_block [OF s(2)]
  have "unat (len_lo (sha1_finish s)) + 2 ^ 32 * unat (len_hi (sha1_finish s)) = 8 * length m"
    unfolding f(4,5) using s(2) unfolding sha1_holds_def by blast
  note block = length_bytes_block [OF f(3) this]
  have "sv_md (sha1_digest_block (sha1_length_bytes (sha1_finish s))) = sha1_blocks (sha1_code_pad m) sha1_initial_md"
  proof (cases "length m mod 64 \<le> 55")
    case True
    with f(1) show ?thesis
      unfolding block by (simp add: sha1_digest_block_def process_md_standard code_pad_blocks)
  next
    case False
    with f(2) show ?thesis
      unfolding block by (simp add: sha1_digest_block_def process_md_standard code_pad_blocks_long)
  qed
  then show ?thesis using assms s(1) by (simp add: ezcfg_util_sha1_def)
qed

lemma sha1_pad_long:
  assumes "55 < length m mod 64"
  shows "sha1_pad m = take (full_length m) m @ sha1_tail_block m @ replicate 56 0 @ be64 (8 * length m)"
proof -
  have zeros: "(119 - length m mod 64) mod 64 = (63 - length m mod 64) + 56" using assms by simp
  show ?thesis
    unfolding sha1_pad_def sha1_tail_block_def zeros replicate_add by (simp flip: append_assoc)
qed

section \<open>Properties\<close>

text \<open>C28: the digest is the one of the standard (FIPS 180), for every non-empty message of fewer than
  2^61 bytes whose length leaves room for the padding in its last block, whatever the uninitialised
  block buffer holds: the loop over the bytes, the two 32-bit bit counters, the zero padding and the
  rounds with their wrap-around compute the hash of the padded text, whose five words are copied out
  in the byte order of the processor.\<close>

theorem sha1_is_standard:
  assumes "0 < length m" "8 * length m < (2::nat) ^ 64" "20 \<le> dst_len" "length garbage = 64"
    and "length m mod 64 \<le> 55"
  shows "ezcfg_util_sha1 garbage m dst_len = Inr (sha1_md_bytes (sha1_standard m))"
  using sha1_computes [OF assms(1-4)] assms(5) by (simp add: sha1_code_pad_def sha1_standard_def)

theorem sha1_is_standard_witness:
  "ezcfg_util_sha1 (replicate 64 7) [97, 98, 99] 20 = Inr (sha1_md_bytes (sha1_standard [97, 98, 99]))"
  by (rule sha1_is_standard) simp_all

text \<open>When the tail of the message is 56 to 63 bytes long the digest is not that of the standard
  padding: the block index is not reset after the extra block, so the 56 bytes in front of the length
  are those of the extra block instead of zeros.\<close>

theorem sha1_long_tail_not_cleared:
  assumes "8 * length m < (2::nat) ^ 64" "20 \<le> dst_len" "length garbage = 64" "55 < length m mod 64"
  shows "let blocks = m @ [0x80] @ replicate (63 - length m mod 64) 0;
             stale = take 56 (drop (64 * (length m div 64)) m)
         in ezcfg_util_sha1 garbage m dst_len =
              Inr (sha1_md_bytes (sha1_blocks (blocks @ stale @ be64 (8 * length m)) sha1_initial_md)) \<and>
            sha1_standard m = sha1_blocks (blocks @ replicate 56 0 @ be64 (8 * length m)) sha1_initial_md"
proof -
  let ?blocks = "m @ [0x80] @ replicate (63 - length m mod 64) 0"
  let ?stale = "take 56 (drop (64 * (length m div 64)) m)"
  have "0 < length m" using assms(4) by (cases m) simp_all
  have blocks: "take (full_length m) m @ sha1_tail_block m = ?blocks"
    unfolding sha1_tail_block_def by (simp flip: append_assoc)
  have "take 56 (sha1_tail_block m) = ?stale"
    using assms(4) full_length_le [of m] by (simp add: sha1_tail_block_def full_length_def)
  then have "sha1_code_pad m = ?blocks @ ?stale @ be64 (8 * length m)"
    using assms(4) unfolding blocks [symmetric] by (simp add: sha1_code_pad_def)
  moreover have "sha1_standard m = sha1_blocks (?blocks @ replicate 56 0 @ be64 (8 * length m)) sha1_initial_md"
    unfolding sha1_standard_def sha1_pad_long [OF assms(4)] blocks [symmetric] by simp
  ultimately show ?thesis using sha1_computes [OF \<open>0 < length m\<close> assms(1-3)] by (simp only: Let_def simp_thms)
qed

theorem sha1_long_tail_not_cleared_witness:
  "ezcfg_util_sha1 (replicate 64 0) (replicate 56 97) 20 =
     Inr (sha1_md_bytes (sha1_blocks (replicate 56 97 @ [0x80] @ replicate 7 0 @ replicate 56 97 @ be64 448)
       sha1_initial_md))"
  using sha1_long_tail_not_cleared [of "replicate 56 97" 20 "replicate 64 0"] by simp

end
