(* ===== verification/Settings_Query.thy ===== *)
theory Settings_Query
  imports Ez_Common
begin

text \<open>
  Reading many settings through the context: the public name-value pair of
  \<^verbatim>\<open>src/basic/nv_pair/nv_pair.c\<close>, filling a list of named pairs (\<^verbatim>\<open>ezcfg_common_get_nvram_entries\<close>)
  and collecting the pairs of a name space (\<^verbatim>\<open>ezcfg_common_get_nvram_entries_by_ns\<close> with
  \<^verbatim>\<open>_local_meta_nvram_get_entries_by_ns\<close> and \<^verbatim>\<open>_local_nvram_get_entries_by_ns\<close>), and turning a list
  of pairs into JSON text (\<^verbatim>\<open>ezcfg_linked_list_nv_pair_to_json_text\<close>).
\<close>

section \<open>The public pair\<close>

text \<open>\<open>mem\<close> gives the outcomes of the three allocations.  The blocks are allocated and measured but
  never written, so that their strings are what the allocator left in them: \<open>junk\<close>.\<close>

definition ezcfg_nv_pair_new ::
    "bool \<times> bool \<times> bool \<Rightarrow> string \<times> string \<Rightarrow> string option \<Rightarrow> string option \<Rightarrow> ezcfg_nv_pair option" where
  "ezcfg_nv_pair_new mem junk name val =
     (case mem of (mem_pair, mem_name, mem_value) \<Rightarrow>
        if \<not> mem_pair then None
        else
          let nvp = \<lparr>np_n = None, np_v = None, np_nlen = 0, np_vlen = 0\<rparr> in
          if name \<noteq> None \<and> \<not> mem_name then None
          else
            let nvp = (case name of None \<Rightarrow> nvp
                       | Some s \<Rightarrow> nvp\<lparr>np_n := Some (fst junk), np_nlen := int (length s) + 1\<rparr>) in
            if val \<noteq> None \<and> \<not> mem_value then None
            else Some (case val of None \<Rightarrow> nvp
                       | Some s \<Rightarrow> nvp\<lparr>np_v := Some (snd junk), np_vlen := int (length s) + 1\<rparr>))"

text \<open>Comparing dereferences both strings.\<close>

definition ezcfg_nv_pair_cmp_n :: "ezcfg_nv_pair \<Rightarrow> ezcfg_nv_pair \<Rightarrow> int option" where
  "ezcfg_nv_pair_cmp_n nvp1 nvp2 = do { a \<leftarrow> np_n nvp1; b \<leftarrow> np_n nvp2; Some (strcmp a b) }"

definition ezcfg_nv_pair_cmp_v :: "ezcfg_nv_pair \<Rightarrow> ezcfg_nv_pair \<Rightarrow> int option" where
  "ezcfg_nv_pair_cmp_v nvp1 nvp2 = do { a \<leftarrow> np_v nvp1; b \<leftarrow> np_v nvp2; Some (strcmp a b) }"

definition ezcfg_nv_pair_get_n :: "ezcfg_nv_pair \<Rightarrow> string option" where
  "ezcfg_nv_pair_get_n nvp = np_n nvp"

definition ezcfg_nv_pair_get_v :: "ezcfg_nv_pair \<Rightarrow> string option" where
  "ezcfg_nv_pair_get_v nvp = np_v nvp"

definition ezcfg_nv_pair_get_nlen :: "ezcfg_nv_pair \<Rightarrow> int" where
  "ezcfg_nv_pair_get_nlen nvp = np_nlen nvp"

definition ezcfg_nv_pair_get_vlen :: "ezcfg_nv_pair \<Rightarrow> int" where
  "ezcfg_nv_pair_get_vlen nvp = np_vlen nvp"

text \<open>The comparison handler of the lists; \<^verbatim>\<open>the\<close> has an unknown value where the code dereferences NULL.\<close>

definition ezcfg_nv_pair_cmp_handler :: "ezcfg_nv_pair \<Rightarrow> ezcfg_nv_pair \<Rightarrow> int" where
  "ezcfg_nv_pair_cmp_handler d1 d2 = the (ezcfg_nv_pair_cmp_n d1 d2)"

type_synonym pair_list = "ezcfg_nv_pair linked_list"
type_synonym pair_heap = "ezcfg_nv_pair lheap"

text \<open>\<^verbatim>\<open>ezcfg_nv_pair_del\<close>: the pair is logged as released, like the data a list releases.\<close>

definition ezcfg_nv_pair_del :: "ezcfg_nv_pair \<Rightarrow> pair_heap \<Rightarrow> int \<times> pair_heap" where
  "ezcfg_nv_pair_del nvp h = (EZCFG_RET_OK, h\<lparr>dlog := dlog h @ [nvp]\<rparr>)"

section \<open>Filling a list of named pairs\<close>

text \<open>An assignment through the data pointer of a node.\<close>

definition node_assign :: "ptr \<Rightarrow> 'd \<Rightarrow> 'd lheap \<Rightarrow> 'd lheap option" where
  "node_assign p d h = do { a \<leftarrow> p; n \<leftarrow> cells h a; hstore a (n\<lparr>ln_data := Some d\<rparr>) h }"

text \<open>The loop from index \<open>i\<close> on, for \<open>k\<close> rounds; \<open>mem\<close> gives the allocation of the meta store's copy
  for each index.  The old value is released first; a missing table is a NULL pointer.\<close>

fun get_entries_loop ::
    "(int \<Rightarrow> bool) \<Rightarrow> nat \<Rightarrow> int \<Rightarrow> ezcfg \<Rightarrow> pair_list \<Rightarrow> pair_heap \<Rightarrow> (int \<times> ezcfg \<times> pair_heap) option" where
  "get_entries_loop mem 0 i e l h = Some (EZCFG_RET_OK, e, h)"
| "get_entries_loop mem (Suc k) i e l h = do {
     d \<leftarrow> ezcfg_linked_list_get_node_data_by_index l i h;
     case d of
       None \<Rightarrow> Some (EZCFG_RET_FAIL, e, h)
     | Some d \<Rightarrow>
         (case np_n d of
            None \<Rightarrow> Some (EZCFG_RET_FAIL, e, h)
          | Some n \<Rightarrow> do {
              p \<leftarrow> linked_list_walk (nat (i - 1)) h (ll_head l);
              h1 \<leftarrow> node_assign p (d\<lparr>np_v := None\<rparr>) h;
              nv \<leftarrow> ez_nvram e;
              (ret, v, nv') \<leftarrow> nvram_get_entry_value nv n;
              let e1 = e\<lparr>ez_nvram := Some nv'\<rparr> in
              if ret = EZCFG_RET_OK then do {
                h2 \<leftarrow> node_assign p (d\<lparr>np_v := v\<rparr>) h1;
                get_entries_loop mem k (i + 1) e1 l h2
              }
              else do {
                m \<leftarrow> ez_meta e1;
                (ret, v) \<leftarrow> local_meta_nvram_get_entry_value (mem i) m n;
                h2 \<leftarrow> node_assign p (d\<lparr>np_v := v\<rparr>) h1;
                if ret = EZCFG_RET_OK then get_entries_loop mem k (i + 1) e1 l h2
                else Some (EZCFG_RET_FAIL, e1, h2)
              }
            })
   }"

definition ezcfg_common_get_nvram_entries ::
    "mutex_call \<Rightarrow> (int \<Rightarrow> bool) \<Rightarrow> ezcfg \<Rightarrow> pair_list \<Rightarrow> pair_heap \<Rightarrow> (int \<times> ezcfg \<times> pair_heap) option" where
  "ezcfg_common_get_nvram_entries lk mem e l h =
     (let n = ezcfg_linked_list_get_length l in
      if n > 0 \<and> ez_nvram e \<noteq> None \<and> lock_nvram_mutex lk \<noteq> EZCFG_RET_OK then Some (EZCFG_RET_FAIL, e, h)
      else get_entries_loop mem (nat n) 1 e l h)"

section \<open>Collecting a name space\<close>

text \<open>Allocations: of the pair of round \<open>k\<close>, what its blocks hold, and of the two temporary strings.\<close>

record ns_env =
  pe_mem :: "nat \<Rightarrow> bool \<times> bool \<times> bool"
  pe_junk :: "nat \<Rightarrow> string \<times> string"
  pe_tmp :: "nat \<Rightarrow> bool \<times> bool"

text \<open>The condition of the loop over the table; \<^verbatim>\<open>ns_len\<close> counts the final NUL of \<open>ns\<close>.\<close>

definition ns_skips :: "string option \<Rightarrow> nvram_node \<Rightarrow> string \<Rightarrow> bool" where
  "ns_skips ns np name =
     (case ns of
        None \<Rightarrow> False
      | Some s \<Rightarrow>
          let ns_len = length s + 1 in nn_nlen np < int ns_len \<or> strncmp name s ns_len \<noteq> 0)"

text \<open>The list owns the pair after the append; the pair is released all the same.\<close>

fun nvram_ns_loop ::
    "ns_env \<Rightarrow> nat \<Rightarrow> nat \<Rightarrow> string option \<Rightarrow> nvram \<Rightarrow> pair_list \<Rightarrow> pair_heap \<Rightarrow> (int \<times> pair_list \<times> pair_heap) option" where
  "nvram_ns_loop ev 0 i ns nv l h = Some (EZCFG_RET_OK, l, h)"
| "nvram_ns_loop ev (Suc k) i ns nv l h = do {
     np \<leftarrow> node_at (node_list nv) (int i);
     if nn_name np = None then Some (EZCFG_RET_OK, l, h)
     else do {
       name \<leftarrow> str_at (nv_heap nv) (nn_name np);
       if ns_skips ns np name then nvram_ns_loop ev k (i + 1) ns nv l h
       else do {
         val \<leftarrow> str_at (nv_heap nv) (nn_value np);
         case ezcfg_nv_pair_new (pe_mem ev i) (pe_junk ev i) (Some name) (Some val) of
           None \<Rightarrow> Some (EZCFG_RET_FAIL, l, h)
         | Some d \<Rightarrow> do {
             (ret, l', h') \<leftarrow> ezcfg_linked_list_append l d h;
             let h'' = snd (ezcfg_nv_pair_del d h') in
             if ret \<noteq> EZCFG_RET_OK then Some (EZCFG_RET_FAIL, l', h'')
             else nvram_ns_loop ev k (i + 1) ns nv l' h''
           }
       }
     }
   }"

definition local_nvram_get_entries_by_ns ::
    "ns_env \<Rightarrow> nvram \<Rightarrow> string option \<Rightarrow> pair_list \<Rightarrow> pair_heap \<Rightarrow> (int \<times> pair_list \<times> pair_heap) option" where
  "local_nvram_get_entries_by_ns ev nv ns l h = nvram_ns_loop ev (nat (node_list_size nv)) 0 ns nv l h"

text \<open>\<^verbatim>\<open>(*p == '\0') && (*(p+1) == '\0')\<close>\<close>

definition at_end :: "string \<Rightarrow> nat \<Rightarrow> bool option" where
  "at_end data p =
     (if p \<ge> length data then None
      else if data ! p \<noteq> NUL then Some False
      else if p + 1 \<ge> length data then None
      else Some (data ! (p + 1) = NUL))"

text \<open>The conditions under which the loop over the meta store continues with the entry text \<open>e\<close>, whose
  name has \<open>len\<close> bytes.\<close>

definition meta_ns_skips :: "string option \<Rightarrow> nat \<Rightarrow> string \<Rightarrow> bool" where
  "meta_ns_skips ns len e =
     (case ns of None \<Rightarrow> False | Some s \<Rightarrow> len < length s \<or> strncmp e s (length s) \<noteq> 0)"

text \<open>The loop over the buffer in round \<open>k\<close> with the pointer at \<open>p\<close>.  Skipping an entry does not move
  the pointer, and behind an entry it stands at the value.\<close>

partial_function (option) meta_ns_loop ::
    "ns_env \<Rightarrow> string option \<Rightarrow> string \<Rightarrow> nat \<Rightarrow> nat \<Rightarrow> pair_list \<Rightarrow> pair_heap \<Rightarrow> (int \<times> pair_list \<times> pair_heap) option" where
  "meta_ns_loop ev ns data k p l h = do {
     stop \<leftarrow> at_end data p;
     if stop then Some (EZCFG_RET_OK, l, h)
     else do {
       e \<leftarrow> cstr_at data p;
       if CHR ''='' \<notin> set e then Some (EZCFG_RET_FAIL, l, h)
       else
         let len = length (takeWhile (\<lambda>c. c \<noteq> CHR ''='') e) in
         if meta_ns_skips ns len e then meta_ns_loop ev ns data k p l h
         else
           let name = take len e; v = skip_equals (drop len e);
               p' = (if v \<noteq> [] then p + (length e - length v) else p);
               val = (if v \<noteq> [] then v else e)
           in
           if \<not> fst (pe_tmp ev k) \<or> \<not> snd (pe_tmp ev k) then Some (EZCFG_RET_FAIL, l, h)
           else
             (case ezcfg_nv_pair_new (pe_mem ev k) (pe_junk ev k) (Some name) (Some val) of
                None \<Rightarrow> Some (EZCFG_RET_FAIL, l, h)
              | Some d \<Rightarrow> do {
                  (ret, l', h') \<leftarrow> ezcfg_linked_list_append l d h;
                  if ret \<noteq> EZCFG_RET_OK then Some (EZCFG_RET_FAIL, l', h')
                  else meta_ns_loop ev ns data (Suc k) p' l' h'
                })
     }
   }"

definition local_meta_nvram_get_entries_by_ns ::
    "ns_env \<Rightarrow> meta_nvram \<Rightarrow> string option \<Rightarrow> pair_list \<Rightarrow> pair_heap \<Rightarrow> (int \<times> pair_list \<times> pair_heap) option" where
  "local_meta_nvram_get_entries_by_ns ev m ns l h = meta_ns_loop ev ns (mn_data m) 0 0 l h"

text \<open>The two collections into a new list: \<open>ev\<close> for the meta store, \<open>ev'\<close> for the table; \<open>mx\<close> are the
  reference counter's mutex calls for creating and for deleting the list.\<close>

definition ezcfg_common_get_nvram_entries_by_ns ::
    "(nat \<Rightarrow> mutex_call \<times> mutex_call) \<Rightarrow> mutex_call \<Rightarrow> bool \<Rightarrow> ns_env \<Rightarrow> ns_env \<Rightarrow> ezcfg \<Rightarrow> string \<Rightarrow>
       pair_heap \<Rightarrow> ezcfg_refs \<Rightarrow> (int \<times> pair_list option \<times> pair_heap \<times> ezcfg_refs) option" where
  "ezcfg_common_get_nvram_entries_by_ns mx lk mem ev ev' e ns h s =
     (case ezcfg_linked_list_new (mx 0) (mx 1) mem True (Some ezcfg_nv_pair_cmp_handler) s of
        (None, s1) \<Rightarrow> Some (EZCFG_RET_FAIL, None, h, s1)
      | (Some l, s1) \<Rightarrow> do {
          (ret, l', h') \<leftarrow>
            (if ez_nvram e \<noteq> None \<and> lock_nvram_mutex lk \<noteq> EZCFG_RET_OK then Some (EZCFG_RET_FAIL, l, h)
             else do {
               m \<leftarrow> ez_meta e;
               (ret, l1, h1) \<leftarrow> local_meta_nvram_get_entries_by_ns ev m (Some ns) l h;
               if ret \<noteq> EZCFG_RET_OK then Some (EZCFG_RET_FAIL, l1, h1)
               else
                 (case ez_nvram e of
                    None \<Rightarrow> Some (EZCFG_RET_OK, l1, h1)
                  | Some nv \<Rightarrow> local_nvram_get_entries_by_ns ev' nv (Some ns) l1 h1)
             });
          if ret \<noteq> EZCFG_RET_OK then do {
            (_, h'', s2) \<leftarrow> ezcfg_linked_list_del (mx 2) l' h' s1;
            Some (EZCFG_RET_FAIL, None, h'', s2)
          }
          else Some (EZCFG_RET_OK, Some l', h', s1)
        })"

section \<open>The JSON text of a list of pairs\<close>

text \<open>\<^verbatim>\<open>memcpy(p, s, n)\<close> from the block of a string: its bytes and the final NUL.\<close>

definition block_bytes :: "string option \<Rightarrow> int \<Rightarrow> string option" where
  "block_bytes s n =
     (if n = 0 then Some []
      else do { t \<leftarrow> s; if 0 < n \<and> nat n \<le> length t + 1 then Some (take (nat n) (t @ [NUL])) else None })"

partial_function (option) pairs_text_len :: "pair_heap \<Rightarrow> ptr \<Rightarrow> int \<Rightarrow> int option" where
  "pairs_text_len h np n =
     (case np of
        None \<Rightarrow> Some n
      | Some a \<Rightarrow> do {
          nd \<leftarrow> hload h np;
          nvp \<leftarrow> ln_data nd;
          pairs_text_len h (ln_next nd) (n + np_nlen nvp + 3 + np_vlen nvp + 3)
        })"

text \<open>The loop that writes; the text so far is behind the opening brace.\<close>

partial_function (option) pairs_text_loop :: "pair_heap \<Rightarrow> ptr \<Rightarrow> string \<Rightarrow> string option" where
  "pairs_text_loop h np out =
     (case np of
        None \<Rightarrow> Some out
      | Some a \<Rightarrow> do {
          nd \<leftarrow> hload h np;
          nvp \<leftarrow> ln_data nd;
          n \<leftarrow> block_bytes (np_n nvp) (np_nlen nvp);
          v \<leftarrow> block_bytes (np_v nvp) (np_vlen nvp);
          pairs_text_loop h (ln_next nd)
            (out @ [CHR 0x22] @ n @ [CHR 0x22, CHR '':'', CHR 0x22] @ v @ [CHR 0x22, CHR '',''])
        })"

text \<open>The result is the block (\<^term>\<open>None\<close> when its allocation fails): the last character written is
  replaced by the closing brace.  Writing past the measured length is a fault.\<close>

definition ezcfg_linked_list_nv_pair_to_json_text ::
    "bool \<Rightarrow> pair_list \<Rightarrow> pair_heap \<Rightarrow> string option option" where
  "ezcfg_linked_list_nv_pair_to_json_text mem l h = do {
     n \<leftarrow> pairs_text_len h (ll_head l) 0;
     let text_len = n - 1 + 2 + 1 in
     if \<not> mem then Some None
     else do {
       out \<leftarrow> pairs_text_loop h (ll_head l) [CHR ''{''];
       let bytes = butlast out @ [CHR ''}'', NUL] in
       if int (length bytes) \<le> text_len then Some (Some bytes) else None
     }
   }"

end
