(* ===== verification/Settings_Query_Spec.thy ===== *)
theory Settings_Query_Spec
  imports Settings_Query
begin

text \<open>
  What reading many settings gives: filling a list of named pairs takes the value the table's search finds or else the
  meta store's; the name-space collections do not work on a store or table that has entries, and the
  JSON text of a list of pairs is cut off by the NULs it copies.
\<close>

section \<open>Filling a list\<close>

definition setting_lookup :: "(string \<times> string) list \<Rightarrow> meta_entry list \<Rightarrow> string \<Rightarrow> string option" where
  "setting_lookup es ms n = (case table_get es n of Some v \<Rightarrow> Some v | None \<Rightarrow> meta_map ms n)"

definition pair_filled :: "(string \<times> string) list \<Rightarrow> meta_entry list \<Rightarrow> ezcfg_nv_pair \<Rightarrow> ezcfg_nv_pair" where
  "pair_filled es ms d = d\<lparr>np_v := setting_lookup es ms (the (np_n d))\<rparr>"

definition pair_known :: "(string \<times> string) list \<Rightarrow> meta_entry list \<Rightarrow> ezcfg_nv_pair \<Rightarrow> bool" where
  "pair_known es ms d \<longleftrightarrow> setting_lookup es ms (the (np_n d)) \<noteq> None"

text \<open>A name that can be looked up in the meta store.\<close>

definition pair_askable :: "meta_entry list \<Rightarrow> ezcfg_nv_pair \<Rightarrow> bool" where
  "pair_askable ms d \<longleftrightarrow> (\<exists>n. np_n d = Some n \<and> all_apart n ms)"

lemma get_entry_oom:
  "nvram_get_entry_value nv n = Some (ret, v, nv') \<Longrightarrow> oom (nv_heap nv') = oom (nv_heap nv)"
  by (auto simp: nvram_get_entry_value_def Let_def strdup_def halloc_def split: Option.bind_splits if_splits prod.splits)

lemma node_assign_rep:
  assumes "ll_rep_at cmp h l (us @ (a, x) # vs)"
  obtains h' where "node_assign (Some a) d h = Some h'" "ll_rep_at cmp h' l (us @ (a, d) # vs)"
proof -
  from assms have path: "lpath (cells h) (ll_head l) (us @ (a, x) # vs) None" by (simp add: ll_rep_at_def)
  then obtain n where n: "cells h a = Some n" using lpath_cells [OF path, of a x] by auto
  let ?h' = "h\<lparr>cells := (cells h)(a \<mapsto> n\<lparr>ln_data := Some d\<rparr>)\<rparr>"
  have "node_assign (Some a) d h = Some ?h'" using n by (simp add: node_assign_def hstore_def)
  moreover have "ll_rep_at cmp ?h' l (us @ (a, d) # vs)"
    using assms n lpath_replace [OF path _ n, of d] by (auto simp: ll_rep_at_def heap_ok_def)
  ultimately show ?thesis by (rule that)
qed

lemma node_at_index:
  assumes "ll_rep_at cmp h l (us @ (a, x) # vs)"
  shows "linked_list_walk (length us) h (ll_head l) = Some (Some a)"
    "ezcfg_linked_list_get_node_data_by_index l (int (Suc (length us))) h = Some (Some x)"
proof -
  have path: "lpath (cells h) (ll_head l) (us @ (a, x) # vs) None" using assms by (simp add: ll_rep_at_def)
  from linked_list_walk_path [OF path, of "length us"]
  show "linked_list_walk (length us) h (ll_head l) = Some (Some a)" by simp
  have "ll_rep cmp h l (map snd (us @ (a, x) # vs))" using assms by (auto simp: ll_rep_def)
  from get_by_index_refines [OF this, of "int (Suc (length us))"]
  show "ezcfg_linked_list_get_node_data_by_index l (int (Suc (length us))) h = Some (Some x)"
    by (simp add: nth_append)
qed

text \<open>One table and one meta store that can be read.\<close>

definition context_reads :: "ezcfg \<Rightarrow> (string \<times> string) list \<Rightarrow> meta_entry list \<Rightarrow> bool" where
  "context_reads e es ms \<longleftrightarrow>
     (\<exists>nv m. ez_nvram e = Some nv \<and> nv_rep nv es \<and> (\<forall>k. \<not> oom (nv_heap nv) k) \<and>
       ez_meta e = Some m \<and> meta_rep m ms)"

lemma ask_setting:
  assumes "context_reads e es ms" "all_apart n ms"
  obtains nv m ret v nv' where "ez_nvram e = Some nv" "nvram_get_entry_value nv n = Some (ret, v, nv')"
    "context_reads (e\<lparr>ez_nvram := Some nv'\<rparr>) es ms" "ez_meta e = Some m"
    "if ret = EZCFG_RET_OK then setting_lookup es ms n = v \<and> v \<noteq> None
     else local_meta_nvram_get_entry_value True m n =
       Some (if setting_lookup es ms n = None then EZCFG_RET_FAIL else EZCFG_RET_OK, setting_lookup es ms n)"
proof -
  obtain nv m where c: "ez_nvram e = Some nv" "nv_rep nv es" "\<forall>k. \<not> oom (nv_heap nv) k"
    "ez_meta e = Some m" "meta_rep m ms" using assms(1) by (auto simp: context_reads_def)
  note meta = get_value_map [OF c(5) assms(2)]
  from get_entry_table [OF c(2), of n] obtain nv' where
    nv': "nv_rep nv' es" "nvram_get_entry_value nv n =
      Some (case table_get es n of None \<Rightarrow> (EZCFG_RET_FAIL, None, nv') | Some v \<Rightarrow> (EZCFG_RET_OK, Some v, nv'))"
    using c(3) by (cases "table_get es n") auto
  obtain ret v where g: "nvram_get_entry_value nv n = Some (ret, v, nv')"
    using nv'(2) by (auto split: option.splits)
  have reads: "context_reads (e\<lparr>ez_nvram := Some nv'\<rparr>) es ms"
    using c nv'(1) get_entry_oom [OF g] by (simp add: context_reads_def)
  have "if ret = EZCFG_RET_OK then setting_lookup es ms n = v \<and> v \<noteq> None
     else local_meta_nvram_get_entry_value True m n =
       Some (if setting_lookup es ms n = None then EZCFG_RET_FAIL else EZCFG_RET_OK, setting_lookup es ms n)"
  proof (cases "table_get es n")
    case None
    then show ?thesis using g nv'(2) meta
      by (cases "meta_map ms n") (auto simp: setting_lookup_def local_meta_nvram_get_entry_value_def)
  next
    case (Some x)
    then have "ret = EZCFG_RET_OK" "v = Some x" using g nv'(2) by (simp_all add: Some)
    then show ?thesis by (simp add: setting_lookup_def Some)
  qed
  from that [OF c(1) g reads c(4) this] show ?thesis .
qed

lemma get_entries_loop_fills:
  assumes "ll_rep_at cmp h l (us @ vs)" "context_reads e es ms" "list_all (\<lambda>x. pair_askable ms (snd x)) vs"
  shows "\<exists>e' h' ws. get_entries_loop (\<lambda>_. True) (length vs) (int (Suc (length us))) e l h =
      Some (if list_all (\<lambda>x. pair_known es ms (snd x)) vs then EZCFG_RET_OK else EZCFG_RET_FAIL, e', h') \<and>
    context_reads e' es ms \<and> ll_rep_at cmp h' l (us @ ws) \<and>
    (list_all (\<lambda>x. pair_known es ms (snd x)) vs \<longrightarrow> map snd ws = map (\<lambda>x. pair_filled es ms (snd x)) vs)"
  using assms
proof (induction vs arbitrary: us h e)
  case Nil
  then show ?case by auto
next
  case (Cons x vs)
  obtain a d where x: "x = (a, d)" by (cases x)
  from Cons.prems(3) obtain n where n: "np_n d = Some n" "all_apart n ms" by (auto simp: x pair_askable_def)
  note rep = Cons.prems(1) [unfolded x]
  note at = node_at_index [OF rep]
  from rep obtain h1 where h1: "node_assign (Some a) (d\<lparr>np_v := None\<rparr>) h = Some h1"
    "ll_rep_at cmp h1 l (us @ (a, d\<lparr>np_v := None\<rparr>) # vs)" by (rule node_assign_rep)
  from Cons.prems(2) n(2) obtain nv m ret v nv' where g: "ez_nvram e = Some nv"
    "nvram_get_entry_value nv n = Some (ret, v, nv')" "context_reads (e\<lparr>ez_nvram := Some nv'\<rparr>) es ms"
    "ez_meta e = Some m"
    "if ret = EZCFG_RET_OK then setting_lookup es ms n = v \<and> v \<noteq> None
     else local_meta_nvram_get_entry_value True m n =
       Some (if setting_lookup es ms n = None then EZCFG_RET_FAIL else EZCFG_RET_OK, setting_lookup es ms n)"
    by (rule ask_setting)
  let ?d = "pair_filled es ms d"
  have filled: "?d = d\<lparr>np_v := setting_lookup es ms n\<rparr>" by (simp add: pair_filled_def n)
  from h1(2) obtain h2 where h2: "node_assign (Some a) ?d h1 = Some h2" "ll_rep_at cmp h2 l (us @ (a, ?d) # vs)"
    by (rule node_assign_rep)
  have first: "get_entries_loop (\<lambda>_. True) (length (x # vs)) (int (Suc (length us))) e l h =
      (if pair_known es ms d
       then get_entries_loop (\<lambda>_. True) (length vs) (int (Suc (length us)) + 1) (e\<lparr>ez_nvram := Some nv'\<rparr>) l h2
       else Some (EZCFG_RET_FAIL, e\<lparr>ez_nvram := Some nv'\<rparr>, h2))"
    using at h1(1) g h2(1) n by (cases "ret = EZCFG_RET_OK") (auto simp: filled pair_known_def Let_def)
  show ?case
  proof (cases "pair_known es ms d")
    case False
    then show ?thesis
      unfolding first using g(3) h2(2) by (auto simp: x intro!: exI [of _ "(a, ?d) # vs"])
  next
    case True
    have "ll_rep_at cmp h2 l ((us @ [(a, ?d)]) @ vs)" using h2(2) by simp
    from Cons.IH [OF this g(3)] Cons.prems(3) obtain e' h' ws where ih:
      "get_entries_loop (\<lambda>_. True) (length vs) (int (Suc (length us)) + 1) (e\<lparr>ez_nvram := Some nv'\<rparr>) l h2 =
        Some (if list_all (\<lambda>x. pair_known es ms (snd x)) vs then EZCFG_RET_OK else EZCFG_RET_FAIL, e', h')"
      "context_reads e' es ms" "ll_rep_at cmp h' l (us @ (a, ?d) # ws)"
      "list_all (\<lambda>x. pair_known es ms (snd x)) vs \<longrightarrow> map snd ws = map (\<lambda>x. pair_filled es ms (snd x)) vs"
      by (auto simp: add.commute)
    then show ?thesis
      unfolding first using True by (auto simp: x intro!: exI [of _ "(a, ?d) # ws"])
  qed
qed


section \<open>The name space of the table\<close>

text \<open>Only an entry whose name is the name space itself is taken.\<close>

lemma ns_skips_other: "name \<noteq> s \<Longrightarrow> ns_skips (Some s) np name"
proof -
  assume "name \<noteq> s"
  have "take (length s + 1) name \<noteq> s"
  proof
    assume eq: "take (length s + 1) name = s"
    then have "length (take (length s + 1) name) = length s" by simp
    then have "length name = length s" by (auto simp: min_def split: if_splits)
    with eq \<open>name \<noteq> s\<close> show False by simp
  qed
  then show ?thesis by (simp add: ns_skips_def Let_def strncmp_def)
qed

lemma nvram_ns_loop_skips:
  assumes "nv_rep nv es" "s \<notin> fst ` set es" "k + i \<le> nat (node_list_size nv)"
  shows "nvram_ns_loop ev k i (Some s) nv l h = Some (EZCFG_RET_OK, l, h)"
  using assms(3)
proof (induction k arbitrary: i)
  case (Suc k)
  show ?case
  proof (cases "i < length es")
    case True
    then obtain np where np: "node_at (node_list nv) (int i) = Some np" "node_ok (nv_heap nv) np (es ! i)"
      using nv_rep_node [OF assms(1), of "int i"] by auto
    have "fst (es ! i) \<noteq> s" using assms(2) nth_mem [OF True] by auto
    with np node_ok_str(1) [OF np(2)] Suc show ?thesis
      by (auto simp: ns_skips_other node_ok_def)
  next
    case False
    obtain ns rest where ns: "node_list nv = ns @ rest" "length ns = length es" "\<forall>np\<in>set rest. np = null_node"
      "node_list_size nv = int (length (node_list nv))" using assms(1) by (auto simp: nv_rep_def)
    have "i < length (node_list nv)" using Suc.prems ns(4) by simp
    moreover from this have "node_list nv ! i = null_node"
      using False ns by (auto simp: nth_append)
    ultimately show ?thesis by (simp add: node_at_def null_node_def)
  qed
qed simp

section \<open>The name space of the meta store\<close>

text \<open>The pointer never leaves the first entry, so the loop cannot come to the end of the store.\<close>

lemma cstr_at_suffix:
  assumes "cstr_at data p = Some e" "v = drop k e"
  shows "cstr_at data (p + min k (length e)) = Some v"
proof -
  let ?t = "drop p data"
  from assms(1) have e: "e = takeWhile (\<lambda>c. c \<noteq> NUL) ?t" "NUL \<in> set ?t" by (auto simp: cstr_at_def split: if_splits)
  define j where "j = min k (length e)"
  have t: "?t = e @ dropWhile (\<lambda>c. c \<noteq> NUL) ?t" using e(1) by simp
  have "drop j ?t = drop j e @ dropWhile (\<lambda>c. c \<noteq> NUL) ?t"
    by (subst t) (simp add: j_def)
  moreover obtain zs where zs: "dropWhile (\<lambda>c. c \<noteq> NUL) ?t = NUL # zs"
    using e(2) by (metis (mono_tags, lifting) dropWhile_eq_Nil_conv hd_dropWhile list.exhaust_sel)
  moreover have "NUL \<notin> set (drop j e)" using e(1) by (metis (mono_tags, lifting) in_set_dropD set_takeWhileD)
  moreover have "v = drop j e" using assms(2) by (auto simp: j_def min_def)
  ultimately have "cstr_at data (p + j) = Some v"
    using cstr_at_app [of v 0 "[]" zs] by (simp add: cstr_at_def add.commute)
  then show ?thesis by (simp add: j_def)
qed

lemma skip_equals_suffix: "\<exists>k. skip_equals s = drop k s \<and> k \<le> length s"
proof (induction s)
  case (Cons c s)
  then obtain k where "skip_equals s = drop k s" "k \<le> length s" by blast
  then have "skip_equals (c # s) = drop (if c = CHR ''='' then Suc k else 0) (c # s)" by simp
  then show ?case using \<open>k \<le> length s\<close>
    by (intro exI [of _ "if c = CHR ''='' then Suc k else 0"]) simp
qed simp

lemma skip_equals_drop:
  obtains k where "skip_equals (drop j e) = drop k e" "length e - length (skip_equals (drop j e)) = min k (length e)"
proof -
  obtain i where "skip_equals (drop j e) = drop i (drop j e)" using skip_equals_suffix by blast
  then have "skip_equals (drop j e) = drop (i + j) e" by simp
  then show ?thesis using that [of "i + j"] by simp
qed

lemma not_at_end: "cstr_at data p = Some e \<Longrightarrow> e \<noteq> [] \<Longrightarrow> at_end data p = Some False"
proof -
  assume e: "cstr_at data p = Some e" "e \<noteq> []"
  from cstr_at_length [OF e(1)] have p: "p < length data" by simp
  then have "drop p data = data ! p # drop (Suc p) data" by (rule Cons_nth_drop_Suc [symmetric])
  with e have "data ! p \<noteq> NUL" by (auto simp: cstr_at_def split: if_splits)
  with p show ?thesis by (simp add: at_end_def)
qed

definition stuck_result :: "string option \<Rightarrow> string \<Rightarrow> int \<times> 'l \<times> 'h \<Rightarrow> bool" where
  "stuck_result ns e r \<longleftrightarrow>
     fst r = EZCFG_RET_FAIL \<and>
     (CHR ''='' \<in> set e \<longrightarrow> \<not> meta_ns_skips ns (length (takeWhile (\<lambda>c. c \<noteq> CHR ''='') e)) e)"

lemma meta_ns_loop_never_ok:
  "meta_ns_loop ev ns data k p l h = Some r \<Longrightarrow>
     \<forall>e. cstr_at data p = Some e \<longrightarrow> e \<noteq> [] \<longrightarrow> stuck_result ns e r"
proof (erule meta_ns_loop.raw_induct [rotated])
  fix loop ev ns data k p l h r
  assume ih: "\<And>ev ns data k p l h r. loop ev ns data k p l h = Some r \<Longrightarrow>
      \<forall>e. cstr_at data p = Some e \<longrightarrow> e \<noteq> [] \<longrightarrow> stuck_result ns e r"
    and body: "do {
       stop \<leftarrow> at_end data p;
       if stop then Some (EZCFG_RET_OK, l, h)
       else do {
         e \<leftarrow> cstr_at data p;
         if CHR ''='' \<notin> set e then Some (EZCFG_RET_FAIL, l, h)
         else
           let len = length (takeWhile (\<lambda>c. c \<noteq> CHR ''='') e) in
           if meta_ns_skips ns len e then loop ev ns data k p l h
           else
             let name = take len e; v = skip_equals (drop len e);
                 p' = (if v \<noteq> [] then p + (length e - length v) else p);
                 val = (if v \<noteq> [] then v else e)
             in
             if \<not> fst (pe_tmp ev k) \<or> \<not> snd (pe_tmp ev k) then Some (EZCFG_RET_FAIL, l, h)
             else
               (case ezcfg_nv_pair_new (pe_mem ev k) (pe_junk ev k) (Some name) (Some val) of
                  None \<Rightarrow> Some (EZCFG_RET_FAIL, l, h)
                | Some d \<Rightarrow> do {
                    (ret, l', h') \<leftarrow> ezcfg_linked_list_append l d h;
                    if ret \<noteq> EZCFG_RET_OK then Some (EZCFG_RET_FAIL, l', h')
                    else loop ev ns data (Suc k) p' l' h'
                  })
       }
     } = Some r"
  show "\<forall>e. cstr_at data p = Some e \<longrightarrow> e \<noteq> [] \<longrightarrow> stuck_result ns e r"
  proof (intro allI impI)
    fix e assume e: "cstr_at data p = Some e" "e \<noteq> []"
    let ?len = "length (takeWhile (\<lambda>c. c \<noteq> CHR ''='') e)"
    let ?v = "skip_equals (drop ?len e)"
    obtain j where j: "?v = drop j e" "length e - length ?v = min j (length e)" by (rule skip_equals_drop)
    from cstr_at_suffix [OF e(1) j(1)] have next_: "cstr_at data (p + (length e - length ?v)) = Some ?v"
      unfolding j(2) .
    show "stuck_result ns e r"
      using body e next_ not_at_end [OF e] ih
      by (auto simp: stuck_result_def Let_def split: if_splits option.splits Option.bind_splits prod.splits)
  qed
qed


lemma meta_first_entry:
  assumes "meta_rep m ((n, j, v) # ms)"
  shows "cstr_at (mn_data m) 0 = Some (n @ replicate (Suc j) (CHR ''='') @ v)"
    "takeWhile (\<lambda>c. c \<noteq> CHR ''='') (n @ replicate (Suc j) (CHR ''='') @ v) = n"
proof -
  from meta_repD [OF assms] obtain rest where
    r: "mn_data m = entries_text ((n, j, v) # ms) @ NUL # rest" "list_all entry_ok ((n, j, v) # ms)" by blast
  have ok: "entry_ok (n, j, v)" using r(2) by simp
  show "cstr_at (mn_data m) 0 = Some (n @ replicate (Suc j) (CHR ''='') @ v)"
    using cstr_at_app [of "entry_text (n, j, v)" 0 "[]" "entries_text ms @ NUL # rest"] entry_text_NUL [OF ok] r(1)
    by simp
  have "\<And>c. c \<in> set n \<Longrightarrow> c \<noteq> CHR ''=''" using ok by (auto simp: meta_name_def)
  then show "takeWhile (\<lambda>c. c \<noteq> CHR ''='') (n @ replicate (Suc j) (CHR ''='') @ v) = n"
    by (simp add: takeWhile_append2)
qed

lemma ns_skips_prefix:
  "meta_ns_skips (Some ns) (length n) (n @ t) \<longleftrightarrow> \<not> prefix ns n"
proof -
  have "strncmp (n @ t) ns (length ns) = 0 \<longleftrightarrow> take (length ns) (n @ t) = ns" by (simp add: strncmp_def)
  moreover have "length ns \<le> length n \<Longrightarrow> take (length ns) (n @ t) = ns \<longleftrightarrow> prefix ns n"
    by (auto simp: prefix_def) (metis append_take_drop_id)
  moreover have "prefix ns n \<Longrightarrow> length ns \<le> length n" by (rule prefix_length_le)
  ultimately show ?thesis by (cases "length ns \<le> length n") (auto simp: meta_ns_skips_def)
qed

lemma meta_by_ns_stuck:
  assumes "meta_rep m ((n, j, v) # ms)" "local_meta_nvram_get_entries_by_ns ev m (Some ns) l h = Some r"
  shows "fst r = EZCFG_RET_FAIL" "prefix ns n"
proof -
  note first = meta_first_entry [OF assms(1)]
  have "stuck_result (Some ns) (n @ replicate (Suc j) (CHR ''='') @ v) r"
    using meta_ns_loop_never_ok [OF assms(2) [unfolded local_meta_nvram_get_entries_by_ns_def]] first(1) by auto
  then show "fst r = EZCFG_RET_FAIL" "prefix ns n"
    unfolding stuck_result_def first(2) by (simp_all add: ns_skips_prefix)
qed

section \<open>The JSON text of a list\<close>

text \<open>A pair whose two strings are stored in blocks of their measured lengths.\<close>

definition pair_measured :: "ezcfg_nv_pair \<Rightarrow> bool" where
  "pair_measured d \<longleftrightarrow> (\<exists>n v. np_n d = Some n \<and> np_v d = Some v \<and>
     np_nlen d = int (length n) + 1 \<and> np_vlen d = int (length v) + 1)"

definition pair_member :: "ezcfg_nv_pair \<Rightarrow> string" where
  "pair_member d = [CHR 0x22] @ the (np_n d) @ [NUL, CHR 0x22, CHR '':'', CHR 0x22] @ the (np_v d) @ [NUL, CHR 0x22, CHR '','']"

lemma pairs_text_len_path:
  "lpath (cells h) p xs None \<Longrightarrow> list_all (\<lambda>x. pair_measured (snd x)) xs \<Longrightarrow>
     pairs_text_len h p k = Some (k + int (length (concat (map (\<lambda>x. pair_member (snd x)) xs))))"
proof (induction xs arbitrary: p k)
  case Nil
  then show ?case by (simp add: pairs_text_len.simps)
next
  case (Cons x xs)
  obtain a d where x: "x = (a, d)" by (cases x)
  from Cons.prems(1) obtain nd where nd: "p = Some a" "cells h a = Some nd" "ln_data nd = Some d"
    "lpath (cells h) (ln_next nd) xs None" by (auto simp: x split: option.splits)
  from Cons.prems(2) have "np_nlen d + 3 + np_vlen d + 3 = int (length (pair_member d))"
    by (auto simp: x pair_measured_def pair_member_def)
  with nd Cons.IH [OF nd(4)] Cons.prems(2) show ?case
    by (simp add: x pairs_text_len.simps [of h "Some a"] algebra_simps)
qed

lemma pairs_text_loop_path:
  "lpath (cells h) p xs None \<Longrightarrow> list_all (\<lambda>x. pair_measured (snd x)) xs \<Longrightarrow>
     pairs_text_loop h p out = Some (out @ concat (map (\<lambda>x. pair_member (snd x)) xs))"
proof (induction xs arbitrary: p out)
  case Nil
  then show ?case by (simp add: pairs_text_loop.simps)
next
  case (Cons x xs)
  obtain a d where x: "x = (a, d)" by (cases x)
  from Cons.prems(1) obtain nd where nd: "p = Some a" "cells h a = Some nd" "ln_data nd = Some d"
    "lpath (cells h) (ln_next nd) xs None" by (auto simp: x split: option.splits)
  from Cons.prems(2) obtain n v where d: "np_n d = Some n" "np_v d = Some v" "np_nlen d = int (length n) + 1"
    "np_vlen d = int (length v) + 1" by (auto simp: x pair_measured_def)
  have "block_bytes (np_n d) (np_nlen d) = Some (n @ [NUL])" "block_bytes (np_v d) (np_vlen d) = Some (v @ [NUL])"
    using d by (simp_all add: block_bytes_def nat_add_distrib)
  with nd d Cons.IH [OF nd(4)] Cons.prems(2) show ?case
    by (simp add: x pairs_text_loop.simps [of h "Some a"] pair_member_def)
qed


section \<open>Properties\<close>

text \<open>A context with an empty table and one entry in its meta store, and a list of one pair.\<close>

definition sample_meta :: meta_nvram where
  "sample_meta = \<lparr>mh_magic = [], mh_version = [], mh_coding = [], mh_backend = [], mh_data_size = 6,
     mh_data_used = 5, mh_data_crc = 0, mh_header_crc = 0, mn_data = ''a=1'' @ [NUL, NUL, NUL]\<rparr>"

definition sample_context :: ezcfg where
  "sample_context = \<lparr>ez_log_file = [], ez_meta = Some sample_meta, ez_meta_live = True,
     ez_nvram = Some (nvram_empty 4 (empty_heap (\<lambda>_. False)))\<rparr>"

definition sample_pair :: "string \<Rightarrow> ezcfg_nv_pair" where
  "sample_pair n = \<lparr>np_n = Some n, np_v = Some ''old'', np_nlen = int (length n) + 1, np_vlen = 4\<rparr>"

definition sample_pair_list :: pair_list where
  "sample_pair_list = \<lparr>ll_length = 1, ll_head = Some 0, ll_tail = Some 0, ll_del = True,
     ll_cmp = Some ezcfg_nv_pair_cmp_handler\<rparr>"

definition sample_ns_env :: ns_env where
  "sample_ns_env = \<lparr>pe_mem = \<lambda>_. (True, True, True), pe_junk = \<lambda>_. ([], []), pe_tmp = \<lambda>_. (True, True)\<rparr>"

definition sample_pair_heap :: pair_heap where
  "sample_pair_heap = \<lparr>cells = [0 \<mapsto> \<lparr>ln_data = Some (sample_pair ''a''), ln_next = None\<rparr>], brk = 1,
     oom = (\<lambda>_. False), dlog = []\<rparr>"

lemma sample_meta_rep: "meta_rep sample_meta [(''a'', 0, ''1'')]"
  by (simp add: meta_rep_def sample_meta_def meta_name_def meta_value_def names_sorted_def all_apart_def apart_def NUL_def)

lemma sample_pairs_rep: "ll_rep ezcfg_nv_pair_cmp_handler sample_pair_heap sample_pair_list [sample_pair ''a'']"
  by (rule ll_repI [of _ _ _ "[(0, sample_pair ''a'')]"])
    (simp_all add: ll_rep_at_def sample_pair_heap_def sample_pair_list_def heap_ok_def)

text \<open>The whole call.\<close>

lemma get_entries_filled:
  assumes "ll_rep cmp h l ds" "context_reads e es ms" "list_all (pair_askable ms) ds" "posix_mutex_call lk"
  shows "\<exists>e' h'. ezcfg_common_get_nvram_entries lk (\<lambda>_. True) e l h =
      Some (if list_all (pair_known es ms) ds then EZCFG_RET_OK else EZCFG_RET_FAIL, e', h') \<and>
    context_reads e' es ms \<and>
    (list_all (pair_known es ms) ds \<longrightarrow> ll_rep cmp h' l (map (pair_filled es ms) ds))"
proof -
  from assms(1) obtain xs where xs: "ll_rep_at cmp h l xs" "map snd xs = ds" by (auto simp: ll_rep_def)
  have len: "ll_length l = int (length xs)" using xs(1) by (simp add: ll_rep_at_def)
  have "list_all (\<lambda>x. pair_askable ms (snd x)) xs" using assms(3) by (simp add: list_all_iff flip: xs(2))
  from get_entries_loop_fills [of cmp h l "[]" xs, OF _ assms(2) this] xs(1) obtain e' h' ws where
    "get_entries_loop (\<lambda>_. True) (length xs) 1 e l h =
      Some (if list_all (\<lambda>x. pair_known es ms (snd x)) xs then EZCFG_RET_OK else EZCFG_RET_FAIL, e', h')"
    "context_reads e' es ms" "ll_rep_at cmp h' l ws"
    "list_all (\<lambda>x. pair_known es ms (snd x)) xs \<longrightarrow> map snd ws = map (\<lambda>x. pair_filled es ms (snd x)) xs" by auto
  moreover have "list_all (\<lambda>x. pair_known es ms (snd x)) xs \<longleftrightarrow> list_all (pair_known es ms) ds"
    by (simp add: list_all_iff flip: xs(2))
  moreover have "map (pair_filled es ms) ds = map (\<lambda>x. pair_filled es ms (snd x)) xs" by (simp flip: xs(2))
  ultimately show ?thesis using assms(4) len
    by (auto simp: ezcfg_common_get_nvram_entries_def ezcfg_linked_list_get_length_def ll_rep_def Let_def)
qed

text \<open>What the answer for a name can be, stated of the contents of the table and the store alone: a value one of
  them holds for the name, the store's when the table has no such name, and the table's when the
  entry is the one its search tries first.\<close>

definition probed_first :: "(string \<times> string) list \<Rightarrow> string \<Rightarrow> bool" where
  "probed_first es n \<longleftrightarrow> es \<noteq> [] \<and> fst (es ! (length es div 2)) = n"

definition pair_answer :: "(string \<times> string) list \<Rightarrow> meta_entry list \<Rightarrow> string \<Rightarrow> string \<Rightarrow> bool" where
  "pair_answer es ms n v \<longleftrightarrow> ((n, v) \<in> set es \<or> meta_map ms n = Some v) \<and>
     (n \<notin> fst ` set es \<longrightarrow> meta_map ms n = Some v) \<and>
     (probed_first es n \<longrightarrow> v = snd (es ! (length es div 2)))"

lemma table_get_found: "table_get es n = Some v \<Longrightarrow> (n, v) \<in> set es"
proof -
  assume g: "table_get es n = Some v"
  then obtain i where pos: "nv_pos es n = (i, True)" "v = snd (es ! nat i)"
    by (auto simp: table_get_def split: prod.splits if_splits)
  then have "es \<noteq> []" by auto
  from nv_pos_range [OF pos(1) this] pos(2) show ?thesis by (metis nth_mem prod.collapse)
qed

lemma table_get_first: "probed_first es n \<Longrightarrow> table_get es n = Some (snd (es ! (length es div 2)))"
proof -
  assume p: "probed_first es n"
  then have ne: "0 < length es" by (simp add: probed_first_def)
  have mid: "nat (int (length es) div 2) = length es div 2" by (simp flip: of_nat_div add: nat_div_distrib)
  have "map fst es ! (length es div 2) = n" using p ne by (simp add: probed_first_def)
  then have "nv_pos es n = (int (length es) div 2, True)"
    unfolding nv_pos_def using ne mid by (simp add: nsearch.simps)
  then show ?thesis using mid by (simp add: table_get_def)
qed

lemma setting_lookup_answer: "setting_lookup es ms n = Some v \<Longrightarrow> pair_answer es ms n v"
  using table_get_found [of es n] table_get_first [of es n]
  by (force simp: setting_lookup_def pair_answer_def split: option.splits)

lemma pair_known_sure:
  "meta_map ms (the (np_n d)) \<noteq> None \<or> probed_first es (the (np_n d)) \<Longrightarrow> pair_known es ms d"
  using table_get_first [of es] by (auto simp: pair_known_def setting_lookup_def split: option.splits)

lemma pair_known_held:
  "pair_known es ms d \<Longrightarrow> the (np_n d) \<in> fst ` set es \<or> meta_map ms (the (np_n d)) \<noteq> None"
  using table_get_found [of es] by (force simp: pair_known_def setting_lookup_def split: option.splits)

text \<open>C29: filling a list of named pairs, when a table and a meta store are there, the mutex can be taken,
  memory suffices and every pair has a name that can be looked up in the meta store (is neither a proper prefix of a
  stored name nor the other way round), returns OK or FAIL and leaves table and store as they are. It returns OK when every
  name stands in the meta store or is the entry the table's search tries first (the middle one), and FAIL when some name is in
  neither store; it can also return FAIL for a name that only the table has, since the table's search
  misses entries.  On OK every pair has been given, in place and with
  names, recorded lengths and order left alone, a value that the table or the meta store holds for its name: the meta
  store's when the table has no such name, and the table's when its entry is the middle one.\<close>

theorem settings_list_filled:
  assumes "ll_rep cmp h l ds" "context_reads e es ms" "list_all (pair_askable ms) ds" "posix_mutex_call lk"
  shows "\<exists>ret e' h'. ezcfg_common_get_nvram_entries lk (\<lambda>_. True) e l h = Some (ret, e', h') \<and>
    context_reads e' es ms \<and> ret \<in> {EZCFG_RET_OK, EZCFG_RET_FAIL} \<and>
    ((\<forall>d\<in>set ds. meta_map ms (the (np_n d)) \<noteq> None \<or> probed_first es (the (np_n d))) \<longrightarrow> ret = EZCFG_RET_OK) \<and>
    ((\<exists>d\<in>set ds. the (np_n d) \<notin> fst ` set es \<and> meta_map ms (the (np_n d)) = None) \<longrightarrow> ret = EZCFG_RET_FAIL) \<and>
    (ret = EZCFG_RET_OK \<longrightarrow>
      (\<exists>vs. list_all2 (\<lambda>d v. pair_answer es ms (the (np_n d)) v) ds vs \<and>
        ll_rep cmp h' l (map2 (\<lambda>d v. d\<lparr>np_v := Some v\<rparr>) ds vs)))"
proof -
  let ?known = "list_all (pair_known es ms) ds" and ?v = "\<lambda>d. the (setting_lookup es ms (the (np_n d)))"
  obtain e' h' where call: "ezcfg_common_get_nvram_entries lk (\<lambda>_. True) e l h =
      Some (if ?known then EZCFG_RET_OK else EZCFG_RET_FAIL, e', h')" "context_reads e' es ms"
    "?known \<longrightarrow> ll_rep cmp h' l (map (pair_filled es ms) ds)"
    using get_entries_filled [OF assms] by blast
  have sure: "(\<forall>d\<in>set ds. meta_map ms (the (np_n d)) \<noteq> None \<or> probed_first es (the (np_n d))) \<longrightarrow> ?known"
    using pair_known_sure by (simp add: list_all_iff)
  have held: "(\<exists>d\<in>set ds. the (np_n d) \<notin> fst ` set es \<and> meta_map ms (the (np_n d)) = None) \<longrightarrow> \<not> ?known"
    using pair_known_held by (fastforce simp: list_all_iff)
  have vals: "list_all2 (\<lambda>d v. pair_answer es ms (the (np_n d)) v) ds (map ?v ds)"
    "map2 (\<lambda>d v. d\<lparr>np_v := Some v\<rparr>) ds (map ?v ds) = map (pair_filled es ms) ds" if "?known"
    using that
    by (induction ds) (auto simp: pair_known_def pair_filled_def intro: setting_lookup_answer)
  show ?thesis
  proof (cases ?known)
    case True
    with call(3) vals have "list_all2 (\<lambda>d v. pair_answer es ms (the (np_n d)) v) ds (map ?v ds) \<and>
        ll_rep cmp h' l (map2 (\<lambda>d v. d\<lparr>np_v := Some v\<rparr>) ds (map ?v ds))" by simp
    with True held call(1,2) show ?thesis by (intro exI [of _ EZCFG_RET_OK] exI [of _ e'] exI [of _ h']) (simp; blast)
  next
    case False
    with sure call(1,2) show ?thesis by (intro exI [of _ EZCFG_RET_FAIL] exI [of _ e'] exI [of _ h']) (simp; blast)
  qed
qed

theorem settings_list_filled_witness:
  "\<exists>e' h'. ezcfg_common_get_nvram_entries (\<lambda>_. (0, 0)) (\<lambda>_. True) sample_context sample_pair_list sample_pair_heap =
      Some (EZCFG_RET_OK, e', h') \<and>
    ll_rep ezcfg_nv_pair_cmp_handler h' sample_pair_list [(sample_pair ''a'')\<lparr>np_v := Some ''1''\<rparr>]"
proof -
  have "context_reads sample_context [] [(''a'', 0, ''1'')]"
    using sample_meta_rep nv_rep_empty [of "empty_heap (\<lambda>_. False)" 4]
    by (simp add: context_reads_def sample_context_def nvram_empty_def empty_heap_def heap_ok_def)
  moreover have "list_all (pair_askable [(''a'', 0, ''1'')]) [sample_pair ''a'']"
    by (simp add: pair_askable_def sample_pair_def all_apart_def apart_def)
  moreover have "posix_mutex_call (\<lambda>_. (0, 0))" by (simp add: posix_mutex_call_def)
  moreover have "meta_map [(''a'', 0, ''1'')] ''a'' = Some ''1''" by (simp add: meta_map_def)
  ultimately show ?thesis
    using settings_list_filled [OF sample_pairs_rep, of sample_context "[]" "[(''a'', 0, ''1'')]" "\<lambda>_. (0, 0)"]
    by (fastforce simp: pair_answer_def sample_pair_def list_all2_Cons1)
qed

text \<open>The table's search of a name space takes only an entry whose name is the name space itself:
  when there is none, nothing is collected, whatever stands in the name space.\<close>

theorem nvram_by_ns_misses_namespace:
  assumes "nv_rep nv es" "ns \<notin> fst ` set es"
  shows "local_nvram_get_entries_by_ns ev nv (Some ns) l h = Some (EZCFG_RET_OK, l, h)"
  unfolding local_nvram_get_entries_by_ns_def by (rule nvram_ns_loop_skips [OF assms]) simp

theorem nvram_by_ns_misses_namespace_witness:
  "\<exists>nv. nvram_set_entry sample_table ''thread.stacksize'' ''1'' = Some (EZCFG_RET_OK, nv) \<and>
    local_nvram_get_entries_by_ns sample_ns_env nv (Some ''thread.'') sample_pair_list sample_pair_heap =
      Some (EZCFG_RET_OK, sample_pair_list, sample_pair_heap)"
proof -
  obtain nv where "nvram_set_entry sample_table ''thread.stacksize'' ''1'' = Some (EZCFG_RET_OK, nv)"
    "nv_rep nv [(''thread.stacksize'', ''1'')]"
    using set_entry_table [OF sample_table_rep(1), of "''thread.stacksize''" "''1''"]
    by (auto simp: sample_table_def nvram_empty_def table_set_def may_fail_def empty_heap_def)
  then show ?thesis using nvram_by_ns_misses_namespace [of nv _ "''thread.''"] by auto
qed

lemma list_new_refs:
  "ezcfg_linked_list_new m1 m2 mem del cmp s = (Some l, s') \<Longrightarrow> posix_mutex_call (fst m1) \<Longrightarrow> posix_mutex_call (snd m1) \<Longrightarrow>
     ezcfg_ref_counter s > 0 \<and> s' = s\<lparr>ezcfg_ref_counter := ezcfg_ref_counter s + 1\<rparr>"
  by (auto simp: ezcfg_linked_list_new_def inc_ref_posix split: if_splits)

lemma list_del_refs:
  "ezcfg_linked_list_del m l h s = Some (ret, h', s') \<Longrightarrow> posix_mutex_call (fst m) \<Longrightarrow> posix_mutex_call (snd m) \<Longrightarrow>
     ezcfg_ref_counter s > 1 \<Longrightarrow> s' = s\<lparr>ezcfg_ref_counter := ezcfg_ref_counter s - 1\<rparr>"
  by (auto simp: ezcfg_linked_list_del_def dec_ref_posix split: Option.bind_splits)

lemma by_ns_stuck:
  assumes "ez_meta e = Some m" "meta_rep m ((n, j, v) # ms)" "posix_mutex_call lk"
    and "\<forall>k. posix_mutex_call (fst (mx k)) \<and> posix_mutex_call (snd (mx k))" "ezcfg_ref_counter s > 0"
    and "ezcfg_common_get_nvram_entries_by_ns mx lk mem ev ev' e ns h s = Some (ret, list, h', s')"
  shows "ret = EZCFG_RET_FAIL \<and> list = None \<and> s' = s \<and> (mem \<longrightarrow> prefix ns n)"
proof (cases mem)
  case False
  then show ?thesis using assms(4-6)
    by (auto simp: ezcfg_common_get_nvram_entries_by_ns_def ezcfg_linked_list_new_def inc_ref_posix dec_ref_posix)
next
  case True
  let ?l = "linked_list_init True (Some ezcfg_nv_pair_cmp_handler)"
  let ?s1 = "s\<lparr>ezcfg_ref_counter := ezcfg_ref_counter s + 1\<rparr>"
  have new: "ezcfg_linked_list_new (mx 0) (mx 1) mem True (Some ezcfg_nv_pair_cmp_handler) s = (Some ?l, ?s1)"
    using assms(4,5) True by (simp add: ezcfg_linked_list_new_def inc_ref_posix)
  have del: "s2 = s" if "ezcfg_linked_list_del (mx 2) l2 h2 ?s1 = Some (r, h3, s2)" for l2 h2 r h3 s2
    using list_del_refs [OF that] assms(4,5) by simp
  show ?thesis
    using assms(6) new assms(1,3) meta_by_ns_stuck [OF assms(2), of ev ns ?l h]
    by (auto simp: ezcfg_common_get_nvram_entries_by_ns_def dest!: del
        split: option.splits Option.bind_splits prod.splits if_splits)
qed

text \<open>Collecting a name space through a context whose meta store has an entry never succeeds: the
  pointer into the store is not moved past its first entry, so that the call fails with
  nothing kept, or does not return; it does not return when the first name is outside the name space.\<close>

theorem get_entries_by_ns_never_ok:
  assumes "ez_meta e = Some m" "meta_rep m ((n, j, v) # ms)"
    and "posix_mutex_call lk" "\<forall>k. posix_mutex_call (fst (mx k)) \<and> posix_mutex_call (snd (mx k))"
    and "ezcfg_ref_counter s > 0"
  shows "case ezcfg_common_get_nvram_entries_by_ns mx lk True ev ev' e ns h s of
      None \<Rightarrow> True
    | Some (ret, list, h', s') \<Rightarrow> ret = EZCFG_RET_FAIL \<and> list = None \<and> s' = s \<and> prefix ns n"
  using by_ns_stuck [OF assms(1-5), where mem = True] by (auto split: option.splits)

theorem get_entries_by_ns_never_ok_witness:
  "ezcfg_common_get_nvram_entries_by_ns (\<lambda>_. (\<lambda>_. (0, 0), \<lambda>_. (0, 0))) (\<lambda>_. (0, 0)) True sample_ns_env sample_ns_env sample_context
     ''thread.'' sample_pair_heap \<lparr>ezcfg_ref_counter = 1, this_ezcfg = Some 0\<rparr> = None"
proof -
  let ?mx = "\<lambda>_::nat. (\<lambda>_::nat. (0, 0) :: int \<times> int, \<lambda>_::nat. (0, 0) :: int \<times> int)"
  have "posix_mutex_call (\<lambda>_. (0, 0))" by (simp add: posix_mutex_call_def)
  with get_entries_by_ns_never_ok [OF _ sample_meta_rep, where e = sample_context and lk = "\<lambda>_. (0, 0)" and mx = ?mx
      and s = "\<lparr>ezcfg_ref_counter = 1, this_ezcfg = Some 0\<rparr>" and ev = sample_ns_env and ev' = sample_ns_env and ns = "''thread.''"
      and h = sample_pair_heap]
  show ?thesis by (auto simp: sample_context_def split: option.splits)
qed

text \<open>The JSON text of a list of pairs is cut off in its first name: the measured lengths count the
  final NULs, which are copied into the text.  For an empty list the closing brace replaces the
  opening one.  In both cases the block is written within its measured size.\<close>

theorem pairs_json_text_cut:
  assumes "ll_rep cmp h l ds" "list_all pair_measured ds" "\<And>d. d \<in> set ds \<Longrightarrow> cstr (the (np_n d))"
  shows "\<exists>b. ezcfg_linked_list_nv_pair_to_json_text True l h = Some (Some b) \<and>
    cstr_at b 0 = Some (if ds = [] then [CHR ''}''] else [CHR ''{'', CHR 0x22] @ the (np_n (hd ds)))"
proof -
  from assms(1) obtain xs where xs: "ll_rep_at cmp h l xs" "map snd xs = ds" by (auto simp: ll_rep_def)
  have path: "lpath (cells h) (ll_head l) xs None" using xs(1) by (simp add: ll_rep_at_def)
  have m: "list_all (\<lambda>x. pair_measured (snd x)) xs" using assms(2) by (simp add: list_all_iff flip: xs(2))
  let ?t = "concat (map pair_member ds)"
  have t: "concat (map (\<lambda>x. pair_member (snd x)) xs) = ?t" by (simp flip: xs(2) add: comp_def)
  have block: "ezcfg_linked_list_nv_pair_to_json_text True l h = Some (Some (butlast (CHR ''{'' # ?t) @ [CHR ''}'', NUL]))"
    using pairs_text_len_path [OF path m] pairs_text_loop_path [OF path m, of "[CHR ''{'']"]
    by (simp add: t ezcfg_linked_list_nv_pair_to_json_text_def)
  show ?thesis
  proof (cases ds)
    case Nil
    then show ?thesis using block by (simp add: cstr_at_def NUL_def)
  next
    case (Cons d ds')
    let ?n = "the (np_n d)"
    have "cstr ?n" using assms(3) Cons by simp
    moreover have "butlast (CHR ''{'' # ?t) @ [CHR ''}'', NUL] = [] @ ([CHR ''{'', CHR 0x22] @ ?n) @ NUL #
        (tl (drop (2 + length ?n) (butlast (CHR ''{'' # ?t) @ [CHR ''}'', NUL])))"
      by (simp add: Cons pair_member_def butlast_append)
    ultimately show ?thesis using block cstr_at_app [of "[CHR ''{'', CHR 0x22] @ ?n" 0 "[]"]
      by (auto simp: Cons cstr_def NUL_def)
  qed
qed

theorem pairs_json_text_cut_witness:
  "\<exists>b. ezcfg_linked_list_nv_pair_to_json_text True sample_pair_list sample_pair_heap = Some (Some b) \<and>
    cstr_at b 0 = Some [CHR ''{'', CHR 0x22, CHR ''a'']"
  using pairs_json_text_cut [OF sample_pairs_rep]
  by (auto simp: pair_measured_def sample_pair_def cstr_def NUL_def)

end
