(* ===== verification/Thread.thy ===== *)
theory Thread
  imports Settings_Query_Spec Util_Text
begin

text \<open>
  Threads of \<^verbatim>\<open>src/basic/thread/thread.c\<close>: creating a thread object from the settings, its three
  handlers, starting, stopping and deleting it, and the states it goes through.  The pthread calls
  and the handlers come from outside the program: their results are arguments.
\<close>

section \<open>Locking\<close>

definition lock_thread_state_mutex :: "mutex_call \<Rightarrow> int" where
  "lock_thread_state_mutex m =
     (case mutex_retry_loop m EZCFG_LOCK_RETRY_MAX 0 of
        None \<Rightarrow> EZCFG_RET_FAIL
      | Some retry \<Rightarrow> if retry < EZCFG_LOCK_RETRY_MAX then EZCFG_RET_OK else EZCFG_RET_FAIL)"

definition unlock_thread_state_mutex :: "mutex_call \<Rightarrow> int" where
  "unlock_thread_state_mutex m =
     (case mutex_retry_loop m EZCFG_UNLOCK_RETRY_MAX 0 of
        None \<Rightarrow> EZCFG_RET_FAIL
      | Some retry \<Rightarrow> if retry < EZCFG_UNLOCK_RETRY_MAX then EZCFG_RET_OK else EZCFG_RET_FAIL)"

lemma posix_thread_lock [simp]: "posix_mutex_call m \<Longrightarrow> lock_thread_state_mutex m = EZCFG_RET_OK"
  by (simp add: lock_thread_state_mutex_def posix_mutex_call_def mutex_retry_loop_first [of 0 0] EZCFG_LOCK_RETRY_MAX_def)

section \<open>The thread object\<close>

definition THREAD_STATE_STOPPED :: int where "THREAD_STATE_STOPPED = 0"

definition THREAD_STATE_RUNNING :: int where "THREAD_STATE_RUNNING = 1"

definition THREAD_STATE_STOPPING :: int where "THREAD_STATE_STOPPING = 2"

lemmas thread_state_defs = THREAD_STATE_STOPPED_def THREAD_STATE_RUNNING_def THREAD_STATE_STOPPING_def

text \<open>The attribute object of pthreads with the two attributes the code sets; size 0 is the default.\<close>

record thread_attr =
  ta_detachstate :: int
  ta_stacksize :: int

text \<open>Function pointers and the argument are addresses; the context pointer of the object is left out.\<close>

record ezcfg_thread =
  th_state :: int
  th_id :: nat
  th_attr :: thread_attr
  th_start_routine :: ptr
  th_arg :: ptr
  th_arg_del_handler :: ptr
  th_stop :: ptr

definition PTHREAD_CREATE_JOINABLE :: int where "PTHREAD_CREATE_JOINABLE = 0"

definition PTHREAD_CREATE_DETACHED :: int where "PTHREAD_CREATE_DETACHED = 1"

section \<open>Creating\<close>

definition EZCFG_NAME_MAX :: nat where "EZCFG_NAME_MAX = 128"

definition THREAD_DETACHSTATE :: string where "THREAD_DETACHSTATE = ''thread.'' @ ''detachstate''"

definition THREAD_STACKSIZE :: string where "THREAD_STACKSIZE = ''thread.'' @ ''stacksize''"

text \<open>What comes from outside: the mutex calls of the reference counter in the order they are made
  (taking the reference, creating the list, giving up, deleting the list, giving the reference back),
  the allocations, what the blocks of the two pairs hold, the results of the pthread calls.\<close>

record thread_env =
  te_ref :: "nat \<Rightarrow> mutex_call \<times> mutex_call"
  te_mem :: bool
  te_list_mem :: bool
  te_pair_mem :: "nat \<Rightarrow> bool \<times> bool \<times> bool"
  te_junk :: "nat \<Rightarrow> string \<times> string"
  te_nvram_lock :: mutex_call
  te_copy :: "int \<Rightarrow> bool"
  te_attr_init :: int
  te_setdetachstate :: "int \<Rightarrow> int"
  te_setstacksize :: "int \<Rightarrow> int"

text \<open>The code behind \<^verbatim>\<open>exit_fail\<close>: a pair the list does not own, the list, the object (which has no
  parts of its own yet) and the reference are given up.\<close>

definition thread_new_fail ::
    "thread_env \<Rightarrow> ezcfg_nv_pair option \<Rightarrow> pair_list option \<Rightarrow> ezcfg \<Rightarrow> pair_heap \<Rightarrow> ezcfg_refs \<Rightarrow>
       (ezcfg_thread option \<times> ezcfg \<times> pair_heap \<times> ezcfg_refs) option" where
  "thread_new_fail ev d lo e h s = do {
     let h1 = (case d of None \<Rightarrow> h | Some d \<Rightarrow> snd (ezcfg_nv_pair_del d h));
     (h2, s2) \<leftarrow>
       (case lo of
          None \<Rightarrow> Some (h1, s)
        | Some l \<Rightarrow> do { (_, h2, s2) \<leftarrow> ezcfg_linked_list_del (te_ref ev 3) l h1 s; Some (h2, s2) });
     Some (None, e, h2, snd (ezcfg_dec_ref (fst (te_ref ev 4)) (snd (te_ref ev 4)) s2))
   }"

text \<open>Adding the pair of one setting to the list: \<^term>\<open>Inl\<close> with the pair still to be deleted when
  it fails.\<close>

definition thread_add_setting ::
    "thread_env \<Rightarrow> nat \<Rightarrow> string option \<Rightarrow> string \<Rightarrow> pair_list \<Rightarrow> pair_heap \<Rightarrow>
       ((ezcfg_nv_pair option + unit) \<times> pair_list \<times> pair_heap) option" where
  "thread_add_setting ev k ns setting l h =
     (case ezcfg_util_snprintf_ns_name EZCFG_NAME_MAX ns (Some setting) of
        (ret, name) \<Rightarrow>
          if ret \<noteq> EZCFG_RET_OK then Some (Inl None, l, h)
          else
            (case ezcfg_nv_pair_new (te_pair_mem ev k) (te_junk ev k) name None of
               None \<Rightarrow> Some (Inl None, l, h)
             | Some d \<Rightarrow> do {
                 (ret, l', h') \<leftarrow> ezcfg_linked_list_append l d h;
                 Some (if ret \<noteq> EZCFG_RET_OK then Inl (Some d) else Inr (), l', h')
               }))"

text \<open>The loop over the settings read.  The code tells a pair by the address of its name: the first
  name added, the second one.  A pair without a value is deleted by itself and again with its list.\<close>

datatype thread_setting = Detachstate | Stacksize

fun thread_settings_loop ::
    "thread_setting list \<Rightarrow> int \<Rightarrow> pair_list \<Rightarrow> pair_heap \<Rightarrow> int \<times> int \<Rightarrow> (int \<times> int) option option" where
  "thread_settings_loop [] i l h a = Some (Some a)"
| "thread_settings_loop (k # ks) i l h a = do {
     d \<leftarrow> ezcfg_linked_list_get_node_data_by_index l i h;
     case d of
       None \<Rightarrow> Some None
     | Some d \<Rightarrow> do {
         val \<leftarrow> ezcfg_nv_pair_get_v d;
         thread_settings_loop ks (i + 1) l h
           (case k of Detachstate \<Rightarrow> (atoi val, snd a) | Stacksize \<Rightarrow> (fst a, atoi val))
       }
   }"

text \<open>The second pair replaces the first one when their names compare equal.\<close>

definition thread_settings_order :: "pair_list \<Rightarrow> thread_setting list" where
  "thread_settings_order l =
     (if ezcfg_linked_list_get_length l = 1 then [Stacksize] else [Detachstate, Stacksize])"

text \<open>The calls on the attribute object, each with its failure.\<close>

definition thread_set_attr :: "thread_env \<Rightarrow> int \<times> int \<Rightarrow> thread_attr option" where
  "thread_set_attr ev a =
     (let attr = \<lparr>ta_detachstate = PTHREAD_CREATE_JOINABLE, ta_stacksize = 0\<rparr> in
      if te_attr_init ev \<noteq> 0 then None
      else if te_setdetachstate ev (fst a) \<noteq> 0 then None
      else
        let attr = attr\<lparr>ta_detachstate := fst a\<rparr> in
        if snd a > 0 then
          (if te_setstacksize ev (snd a) \<noteq> 0 then None else Some (attr\<lparr>ta_stacksize := snd a\<rparr>))
        else Some attr)"

definition ezcfg_thread_new ::
    "thread_env \<Rightarrow> ezcfg \<Rightarrow> string option \<Rightarrow> pair_heap \<Rightarrow> ezcfg_refs \<Rightarrow>
       (ezcfg_thread option \<times> ezcfg \<times> pair_heap \<times> ezcfg_refs) option" where
  "ezcfg_thread_new ev e ns h s =
     (case ezcfg_inc_ref (fst (te_ref ev 0)) (snd (te_ref ev 0)) s of
        (ret, s1) \<Rightarrow>
          if ret \<noteq> EZCFG_RET_OK then Some (None, e, h, s1)
          else if \<not> te_mem ev then thread_new_fail ev None None e h s1
          else
            (case ezcfg_linked_list_new (te_ref ev 1) (te_ref ev 2) (te_list_mem ev) True
                    (Some ezcfg_nv_pair_cmp_handler) s1 of
               (None, s2) \<Rightarrow> thread_new_fail ev None None e h s2
             | (Some l0, s2) \<Rightarrow> do {
                 (r1, l1, h1) \<leftarrow> thread_add_setting ev 0 ns THREAD_DETACHSTATE l0 h;
                 case r1 of
                   Inl d \<Rightarrow> thread_new_fail ev d (Some l1) e h1 s2
                 | Inr _ \<Rightarrow> do {
                     (r2, l2, h2) \<leftarrow> thread_add_setting ev 1 ns THREAD_STACKSIZE l1 h1;
                     case r2 of
                       Inl d \<Rightarrow> thread_new_fail ev d (Some l2) e h2 s2
                     | Inr _ \<Rightarrow> do {
                         (ret, e3, h3) \<leftarrow> ezcfg_common_get_nvram_entries (te_nvram_lock ev) (te_copy ev) e l2 h2;
                         if ret \<noteq> EZCFG_RET_OK then thread_new_fail ev None (Some l2) e3 h3 s2
                         else do {
                           a \<leftarrow> thread_settings_loop (thread_settings_order l2) 1 l2 h3 (PTHREAD_CREATE_DETACHED, 0);
                           case a of
                             None \<Rightarrow> thread_new_fail ev None (Some l2) e3 h3 s2
                           | Some a \<Rightarrow> do {
                               (_, h4, s3) \<leftarrow> ezcfg_linked_list_del (te_ref ev 3) l2 h3 s2;
                               case thread_set_attr ev a of
                                 None \<Rightarrow> thread_new_fail ev None None e3 h4 s3
                               | Some attr \<Rightarrow>
                                   Some (Some \<lparr>th_state = THREAD_STATE_STOPPED, th_id = 0, th_attr = attr,
                                     th_start_routine = None, th_arg = None, th_arg_del_handler = None, th_stop = None\<rparr>,
                                     e3, h4, s3)
                             }
                         }
                       }
                   }
               }))"

section \<open>Handlers\<close>

definition ezcfg_thread_set_start_routine :: "ezcfg_thread \<Rightarrow> ptr \<Rightarrow> int \<times> ezcfg_thread" where
  "ezcfg_thread_set_start_routine t func = (EZCFG_RET_OK, t\<lparr>th_start_routine := func\<rparr>)"

definition ezcfg_thread_set_arg_del_handler :: "ezcfg_thread \<Rightarrow> ptr \<Rightarrow> int \<times> ezcfg_thread" where
  "ezcfg_thread_set_arg_del_handler t func = (EZCFG_RET_OK, t\<lparr>th_arg_del_handler := func\<rparr>)"

definition ezcfg_thread_set_stop :: "ezcfg_thread \<Rightarrow> ptr \<Rightarrow> int \<times> ezcfg_thread" where
  "ezcfg_thread_set_stop t func = (EZCFG_RET_OK, t\<lparr>th_stop := func\<rparr>)"

section \<open>Deleting, starting and stopping\<close>

text \<open>\<open>call f arg\<close> is the result of the delete handler at \<open>f\<close>.  A released object is \<^term>\<open>None\<close>.
  In all three operations the result of unlocking is only logged, so that it is no argument.\<close>

definition ezcfg_thread_del ::
    "mutex_call \<Rightarrow> (nat \<Rightarrow> nat \<Rightarrow> int) \<Rightarrow> ezcfg_thread \<Rightarrow> int \<times> ezcfg_thread option" where
  "ezcfg_thread_del lk call t =
     (if lock_thread_state_mutex lk \<noteq> EZCFG_RET_OK then (EZCFG_RET_FAIL, Some t)
      else if th_state t \<noteq> THREAD_STATE_STOPPED then (EZCFG_RET_FAIL, Some t)
      else
        let ret =
          (case th_arg t of
             None \<Rightarrow> EZCFG_RET_OK
           | Some arg \<Rightarrow> (case th_arg_del_handler t of Some f \<Rightarrow> call f arg | None \<Rightarrow> EZCFG_RET_OK))
        in if ret \<noteq> EZCFG_RET_OK then (EZCFG_RET_FAIL, Some t) else (EZCFG_RET_OK, None))"

text \<open>\<open>create\<close> is \<^verbatim>\<open>pthread_create\<close>: the result and the thread id for the attributes, the routine and its
  argument.\<close>

definition ezcfg_thread_start ::
    "mutex_call \<Rightarrow> (thread_attr \<Rightarrow> ptr \<Rightarrow> ptr \<Rightarrow> int \<times> nat) \<Rightarrow> ezcfg_thread \<Rightarrow> int \<times> ezcfg_thread" where
  "ezcfg_thread_start lk create t =
     (if lock_thread_state_mutex lk \<noteq> EZCFG_RET_OK then (EZCFG_RET_FAIL, t)
      else if th_state t \<noteq> THREAD_STATE_STOPPED then (EZCFG_RET_FAIL, t)
      else
        (case create (th_attr t) (th_start_routine t) (th_arg t) of
           (r, i) \<Rightarrow>
             if r \<noteq> 0 then (EZCFG_RET_FAIL, t)
             else (EZCFG_RET_OK, t\<lparr>th_id := i, th_state := THREAD_STATE_RUNNING\<rparr>)))"

text \<open>\<open>call f t\<close> is the stop handler at \<open>f\<close> called with the object: its result, and the object as it
  leaves it.\<close>

definition ezcfg_thread_stop ::
    "mutex_call \<Rightarrow> (nat \<Rightarrow> ezcfg_thread \<Rightarrow> int \<times> ezcfg_thread) \<Rightarrow> ezcfg_thread \<Rightarrow> int \<times> ezcfg_thread" where
  "ezcfg_thread_stop lk call t =
     (if lock_thread_state_mutex lk \<noteq> EZCFG_RET_OK then (EZCFG_RET_FAIL, t)
      else if th_state t = THREAD_STATE_STOPPED then (EZCFG_RET_OK, t)
      else if th_state t \<noteq> THREAD_STATE_RUNNING then (EZCFG_RET_FAIL, t)
      else
        (case th_stop t of
           None \<Rightarrow> (EZCFG_RET_FAIL, t)
         | Some f \<Rightarrow>
             (case call f t of
                (ret, t') \<Rightarrow>
                  if ret = EZCFG_RET_OK then (EZCFG_RET_OK, t'\<lparr>th_state := THREAD_STATE_STOPPING\<rparr>)
                  else (EZCFG_RET_FAIL, t'))))"

end
