(* ===== verification/Thread_Spec.thy ===== *)
theory Thread_Spec
  imports Thread Ez_Common_Spec
begin

text \<open>
  What the thread objects guarantee: the states they go through (a step relation over the calls of a
  client), what their creation takes from the settings, and the context reference they keep.
\<close>

section \<open>The calls of a client\<close>

text \<open>A call and the result of what it gets from outside: the lock, \<^verbatim>\<open>pthread_create\<close>, the handlers.\<close>

datatype thread_call =
    Set_start_routine ptr
  | Set_arg_del_handler ptr
  | Set_stop ptr
  | Start mutex_call "thread_attr \<Rightarrow> ptr \<Rightarrow> ptr \<Rightarrow> int \<times> nat"
  | Stop mutex_call "nat \<Rightarrow> ezcfg_thread \<Rightarrow> int \<times> ezcfg_thread"
  | Del mutex_call "nat \<Rightarrow> nat \<Rightarrow> int"

fun thread_call_result :: "ezcfg_thread \<Rightarrow> thread_call \<Rightarrow> int \<times> ezcfg_thread option" where
  "thread_call_result t (Set_start_routine f) = map_prod id Some (ezcfg_thread_set_start_routine t f)"
| "thread_call_result t (Set_arg_del_handler f) = map_prod id Some (ezcfg_thread_set_arg_del_handler t f)"
| "thread_call_result t (Set_stop f) = map_prod id Some (ezcfg_thread_set_stop t f)"
| "thread_call_result t (Start lk create) = map_prod id Some (ezcfg_thread_start lk create t)"
| "thread_call_result t (Stop lk call) = map_prod id Some (ezcfg_thread_stop lk call t)"
| "thread_call_result t (Del lk call) = ezcfg_thread_del lk call t"

text \<open>A stop handler sees the object only through the three setters.\<close>

definition handler_keeps :: "thread_call \<Rightarrow> bool" where
  "handler_keeps c =
     (case c of
        Stop lk call \<Rightarrow> \<forall>f t r t'. call f t = (r, t') \<longrightarrow> th_state t' = th_state t \<and> th_arg t' = th_arg t
      | _ \<Rightarrow> True)"

inductive thread_steps :: "ezcfg_thread option \<Rightarrow> (thread_call \<times> int) list \<Rightarrow> ezcfg_thread option \<Rightarrow> bool" where
  none: "thread_steps t [] t"
| step: "thread_steps t0 cs (Some t) \<Longrightarrow> handler_keeps c \<Longrightarrow> thread_call_result t c = (ret, t') \<Longrightarrow>
    thread_steps t0 (cs @ [(c, ret)]) t'"

definition new_thread :: "ezcfg_thread \<Rightarrow> bool" where
  "new_thread t \<longleftrightarrow> th_state t = THREAD_STATE_STOPPED \<and> th_arg t = None"

fun started :: "thread_call \<times> int \<Rightarrow> bool" where
  "started (Start lk create, ret) \<longleftrightarrow> ret = EZCFG_RET_OK"
| "started _ \<longleftrightarrow> False"

fun deleted :: "thread_call \<times> int \<Rightarrow> bool" where
  "deleted (Del lk call, ret) \<longleftrightarrow> ret = EZCFG_RET_OK"
| "deleted _ \<longleftrightarrow> False"

text \<open>What the calls made so far say about the object.\<close>

definition thread_history :: "(thread_call \<times> int) list \<Rightarrow> ezcfg_thread option \<Rightarrow> bool" where
  "thread_history cs s \<longleftrightarrow>
     (case s of
        None \<Rightarrow> length (List.filter started cs) = 0 \<and> length (List.filter deleted cs) = 1
      | Some t \<Rightarrow> length (List.filter deleted cs) = 0 \<and> th_arg t = None \<and>
          (th_state t = THREAD_STATE_STOPPED \<and> length (List.filter started cs) = 0 \<or>
           th_state t \<in> {THREAD_STATE_RUNNING, THREAD_STATE_STOPPING} \<and> length (List.filter started cs) = 1))"

lemmas thread_handler_defs = ezcfg_thread_set_start_routine_def ezcfg_thread_set_arg_del_handler_def
  ezcfg_thread_set_stop_def ezcfg_thread_start_def ezcfg_thread_stop_def ezcfg_thread_del_def thread_state_defs

lemma thread_history_step:
  assumes "thread_history cs (Some t)" "handler_keeps c" "thread_call_result t c = (ret, t')"
  shows "thread_history (cs @ [(c, ret)]) t'"
proof (cases "\<exists>lk call. c = Stop lk call \<and> lock_thread_state_mutex lk = EZCFG_RET_OK \<and>
    th_state t = THREAD_STATE_RUNNING \<and> th_stop t \<noteq> None")
  case True
  then obtain lk call f r t1 where c: "c = Stop lk call" "lock_thread_state_mutex lk = EZCFG_RET_OK"
    "th_state t = THREAD_STATE_RUNNING" "th_stop t = Some f" "call f t = (r, t1)" by fastforce
  then have "th_state t1 = th_state t" "th_arg t1 = th_arg t" using assms(2) by (auto simp: handler_keeps_def)
  then show ?thesis using assms(1,3) c
    by (auto simp: thread_history_def ezcfg_thread_stop_def thread_state_defs split: if_splits)
next
  case False
  then show ?thesis using assms(1,3)
    by (cases c) (auto simp: thread_history_def thread_handler_defs split: if_splits prod.splits option.splits)
qed

lemma thread_steps_history:
  "thread_steps (Some t0) cs s \<Longrightarrow> new_thread t0 \<Longrightarrow> thread_history cs s"
proof (induction "Some t0" cs s rule: thread_steps.induct)
  case none
  then show ?case by (simp add: thread_history_def new_thread_def)
next
  case (step cs t c ret t')
  then show ?case using thread_history_step by blast
qed

section \<open>Creation\<close>

lemma add_setting_new:
  assumes "ll_rep ezcfg_nv_pair_cmp_handler h l ds" "\<forall>k. \<not> oom h k" "\<not> key_in ezcfg_nv_pair_cmp_handler d ds"
    and "te_pair_mem ev k = (True, True, True)"
    and "length (case ns of None \<Rightarrow> [] | Some x \<Rightarrow> x) + length sn < EZCFG_NAME_MAX"
    and "d = \<lparr>np_n = Some (fst (te_junk ev k)), np_v = None,
      np_nlen = int (length (case ns of None \<Rightarrow> [] | Some x \<Rightarrow> x)) + int (length sn) + 1, np_vlen = 0\<rparr>"
  obtains l' h' where "thread_add_setting ev k ns sn l h = Some (Inr (), l', h')"
    "ll_rep ezcfg_nv_pair_cmp_handler h' l' (ds @ [d])" "\<forall>k. \<not> oom h' k"
proof -
  from assms(1) obtain xs where xs: "ll_rep_at ezcfg_nv_pair_cmp_handler h l xs" "map snd xs = ds" by (auto simp: ll_rep_def)
  from append_refines_at [OF xs(1), of d] obtain ret l' h' ys where a: "ezcfg_linked_list_append l d h = Some (ret, l', h')"
    "ll_rep_at ezcfg_nv_pair_cmp_handler h' l' ys"
    "ret = (if key_in ezcfg_nv_pair_cmp_handler d (map snd xs) \<or> \<not> oom h (brk h) then EZCFG_RET_OK else EZCFG_RET_FAIL)"
    "map snd ys = (if ret = EZCFG_RET_OK then append_spec ezcfg_nv_pair_cmp_handler d (map snd xs) else map snd xs)"
    by metis
  let ?n = "(case ns of None \<Rightarrow> [] | Some x \<Rightarrow> x) @ sn"
  have name: "ezcfg_util_snprintf_ns_name EZCFG_NAME_MAX ns (Some sn) = (EZCFG_RET_OK, Some ?n)"
    using assms(5) by (auto simp: ezcfg_util_snprintf_ns_name_def EZCFG_NAME_MAX_def)
  have "ezcfg_nv_pair_new (te_pair_mem ev k) (te_junk ev k) (Some ?n) None = Some d"
    using assms(4) by (simp add: ezcfg_nv_pair_new_def assms(6))
  then have "thread_add_setting ev k ns sn l h = Some (Inr (), l', h')"
    using a(1,3) assms(2) by (simp add: thread_add_setting_def name)
  moreover have "ll_rep ezcfg_nv_pair_cmp_handler h' l' (ds @ [d])"
    using a(2-4) assms(2,3) xs(2) by (auto simp: append_spec_def intro: ll_repI)
  moreover have "\<forall>k. \<not> oom h' k" using append_oom [OF a(1)] assms(2) by simp
  ultimately show ?thesis by (rule that)
qed

text \<open>Surroundings in which every call from outside succeeds.\<close>

definition thread_env_ok :: "thread_env \<Rightarrow> bool" where
  "thread_env_ok ev \<longleftrightarrow>
     (\<forall>k. posix_mutex_call (fst (te_ref ev k)) \<and> posix_mutex_call (snd (te_ref ev k))) \<and>
     te_mem ev \<and> te_list_mem ev \<and> (\<forall>k. te_pair_mem ev k = (True, True, True)) \<and>
     posix_mutex_call (te_nvram_lock ev) \<and> te_copy ev = (\<lambda>_. True)"

definition ns_fits :: "string option \<Rightarrow> bool" where
  "ns_fits ns \<longleftrightarrow> length (case ns of None \<Rightarrow> [] | Some x \<Rightarrow> x) + 18 < EZCFG_NAME_MAX"

definition thread_of_attr :: "thread_attr \<Rightarrow> ezcfg_thread" where
  "thread_of_attr attr = \<lparr>th_state = THREAD_STATE_STOPPED, th_id = 0, th_attr = attr,
     th_start_routine = None, th_arg = None, th_arg_del_handler = None, th_stop = None\<rparr>"

lemma settings_loop_two:
  assumes "ll_rep cmp h l [d1, d2]" "np_v d1 = Some v1" "np_v d2 = Some v2"
  shows "thread_settings_loop (thread_settings_order l) 1 l h a = Some (Some (atoi v1, atoi v2))"
  using assms get_by_index_refines [OF assms(1), of 1] get_by_index_refines [OF assms(1), of 2]
    ll_rep_length [OF assms(1)]
  by (simp add: thread_settings_order_def ezcfg_linked_list_get_length_def ezcfg_nv_pair_get_v_def)

lemma del_list_ref:
  assumes "ll_rep cmp h l ds" "posix_mutex_call (fst m)" "posix_mutex_call (snd m)" "ezcfg_ref_counter s > 1"
  shows "\<exists>h'. ezcfg_linked_list_del m l h s = Some (EZCFG_RET_OK, h', s\<lparr>ezcfg_ref_counter := ezcfg_ref_counter s - 1\<rparr>)"
proof -
  from assms(1) obtain xs where "ll_rep_at cmp h l xs" by (auto simp: ll_rep_def)
  then show ?thesis using linked_list_del_loop_path [of h l xs] assms(2-4)
    by (auto simp: ezcfg_linked_list_del_def ll_rep_at_def dec_ref_posix)
qed

lemma thread_new_result:
  assumes env: "thread_env_ok ev" "ns_fits ns" "heap_ok h" "\<forall>k. \<not> oom h k"
    and refs: "ezcfg_ref_counter s > 0" and reads: "context_reads e es ms"
    and names: "fst (te_junk ev 0) = n1" "fst (te_junk ev 1) = n2" "n1 \<noteq> n2" "all_apart n1 ms" "all_apart n2 ms"
    and vals: "setting_lookup es ms n1 = Some v1" "setting_lookup es ms n2 = Some v2"
  shows "\<exists>e' h'. context_reads e' es ms \<and> ezcfg_thread_new ev e ns h s =
    Some (map_option thread_of_attr (thread_set_attr ev (atoi v1, atoi v2)), e', h',
      if thread_set_attr ev (atoi v1, atoi v2) = None then s
      else s\<lparr>ezcfg_ref_counter := ezcfg_ref_counter s + 1\<rparr>)"
proof -
  let ?cmp = "ezcfg_nv_pair_cmp_handler"
  let ?l0 = "linked_list_init True (Some ?cmp)"
  let ?len = "int (length (case ns of None \<Rightarrow> [] | Some x \<Rightarrow> x))"
  let ?s1 = "s\<lparr>ezcfg_ref_counter := ezcfg_ref_counter s + 1\<rparr>"
  let ?s2 = "s\<lparr>ezcfg_ref_counter := ezcfg_ref_counter s + 2\<rparr>"
  note m = env(1) [unfolded thread_env_ok_def]
  define d1 where "d1 = \<lparr>np_n = Some n1, np_v = None, np_nlen = ?len + int (length THREAD_DETACHSTATE) + 1, np_vlen = 0\<rparr>"
  define d2 where "d2 = \<lparr>np_n = Some n2, np_v = None, np_nlen = ?len + int (length THREAD_STACKSIZE) + 1, np_vlen = 0\<rparr>"
  obtain l1 h1 where l1: "thread_add_setting ev 0 ns THREAD_DETACHSTATE ?l0 h = Some (Inr (), l1, h1)"
    "ll_rep ?cmp h1 l1 ([] @ [d1])" "\<forall>k. \<not> oom h1 k"
    by (rule add_setting_new [OF ll_rep_init [OF env(3)] env(4), of d1 ev 0 ns THREAD_DETACHSTATE])
      (use env(2) m names(1) in \<open>auto simp: ns_fits_def THREAD_DETACHSTATE_def d1_def\<close>)
  have new: "\<not> key_in ?cmp d2 ([] @ [d1])"
    using names(3) by (simp add: d1_def d2_def ezcfg_nv_pair_cmp_handler_def ezcfg_nv_pair_cmp_n_def)
  obtain l2 h2 where l2': "thread_add_setting ev 1 ns THREAD_STACKSIZE l1 h1 = Some (Inr (), l2, h2)"
    "ll_rep ?cmp h2 l2 (([] @ [d1]) @ [d2])"
    by (rule add_setting_new [OF l1(2,3) new, of ev 1 ns THREAD_STACKSIZE])
      (use env(2) m names(2) in \<open>auto simp: ns_fits_def THREAD_STACKSIZE_def d2_def\<close>)
  then have l2: "thread_add_setting ev 1 ns THREAD_STACKSIZE l1 h1 = Some (Inr (), l2, h2)"
    "ll_rep ?cmp h2 l2 [d1, d2]" by simp_all
  have ask: "list_all (pair_askable ms) [d1, d2]" using names(4,5) by (simp add: pair_askable_def d1_def d2_def)
  have known: "pair_known es ms d1" "pair_known es ms d2" using vals by (simp_all add: pair_known_def d1_def d2_def)
  from get_entries_filled [OF l2(2) reads ask, of "te_nvram_lock ev"] m known obtain e3 h3 where
    e3: "ezcfg_common_get_nvram_entries (te_nvram_lock ev) (te_copy ev) e l2 h2 = Some (EZCFG_RET_OK, e3, h3)"
    "context_reads e3 es ms" "ll_rep ?cmp h3 l2 [pair_filled es ms d1, pair_filled es ms d2]"
    by auto
  have "np_v (pair_filled es ms d1) = Some v1" "np_v (pair_filled es ms d2) = Some v2"
    using vals by (simp_all add: pair_filled_def d1_def d2_def)
  note parse = settings_loop_two [OF e3(3) this]
  obtain h4 where h4: "ezcfg_linked_list_del (te_ref ev 3) l2 h3 ?s2 = Some (EZCFG_RET_OK, h4, ?s1)"
    using del_list_ref [OF e3(3), of "te_ref ev 3" ?s2] m refs by auto
  have "ezcfg_inc_ref (fst (te_ref ev 0)) (snd (te_ref ev 0)) s = (EZCFG_RET_OK, ?s1)"
    "ezcfg_linked_list_new (te_ref ev 1) (te_ref ev 2) (te_list_mem ev) True (Some ?cmp) ?s1 = (Some ?l0, ?s2)"
    using m refs by (simp_all add: inc_ref_posix ezcfg_linked_list_new_def)
  then have "ezcfg_thread_new ev e ns h s = (case thread_set_attr ev (atoi v1, atoi v2) of
      None \<Rightarrow> thread_new_fail ev None None e3 h4 ?s1
    | Some attr \<Rightarrow> Some (Some (thread_of_attr attr), e3, h4, ?s1))"
    using m l1(1) l2(1) e3(1) parse h4
    by (simp add: ezcfg_thread_new_def thread_of_attr_def split: option.split)
  then show ?thesis using e3(2) m refs
    by (cases "thread_set_attr ev (atoi v1, atoi v2)") (auto simp: thread_new_fail_def dec_ref_posix)
qed

lemma new_fail_none: "thread_new_fail ev d lo e h s = Some (r, x) \<Longrightarrow> r = None"
  by (auto simp: thread_new_fail_def Let_def split: Option.bind_splits prod.splits)

lemma thread_new_keeps_ref:
  assumes new: "ezcfg_thread_new ev e ns h s = Some (Some t, e', h', s')"
    and m: "\<forall>k. posix_mutex_call (fst (te_ref ev k)) \<and> posix_mutex_call (snd (te_ref ev k))"
  shows "ezcfg_ref_counter s > 0 \<and> s' = s\<lparr>ezcfg_ref_counter := ezcfg_ref_counter s + 1\<rparr> \<and> new_thread t"
proof -
  obtain s1 where s1: "ezcfg_inc_ref (fst (te_ref ev 0)) (snd (te_ref ev 0)) s = (EZCFG_RET_OK, s1)" "te_mem ev"
    using new by (auto simp: ezcfg_thread_new_def dest!: new_fail_none split: prod.splits if_splits)
  obtain l0 s2 where l0: "ezcfg_linked_list_new (te_ref ev 1) (te_ref ev 2) (te_list_mem ev) True
      (Some ezcfg_nv_pair_cmp_handler) s1 = (Some l0, s2)"
    using new s1 by (auto simp: ezcfg_thread_new_def dest!: new_fail_none split: prod.splits option.splits)
  have "\<exists>l2 h3 ret. ezcfg_linked_list_del (te_ref ev 3) l2 h3 s2 = Some (ret, h', s') \<and> new_thread t"
    using new s1 l0
    by (auto simp: ezcfg_thread_new_def new_thread_def dest!: new_fail_none
        split: prod.splits option.splits Option.bind_splits if_splits sum.splits)
  then obtain l2 h3 ret where d: "ezcfg_linked_list_del (te_ref ev 3) l2 h3 s2 = Some (ret, h', s')" "new_thread t" by blast
  show ?thesis
    using s1(1) list_new_refs [OF l0] list_del_refs [OF d(1)] d(2) m by (auto simp: inc_ref_posix split: if_splits)
qed

lemma context_del_held:
  assumes "posix_mutex_call lk" "ezcfg_ref_counter s > 1"
  shows "ezcfg_del lk ulk nvlk nvulk e s = Some (EZCFG_RET_FAIL, s)"
  using assms ref_wait_loop_held [OF assms(2), of 0] by (simp add: ezcfg_del_def)

section \<open>Properties\<close>

definition thread_sample :: ezcfg_thread where
  "thread_sample = thread_of_attr \<lparr>ta_detachstate = 0, ta_stacksize = 0\<rparr>\<lparr>th_stop := Some 7\<rparr>"

definition accepting_calls :: "(thread_call \<times> int) list" where
  "accepting_calls = [(Start (\<lambda>_. (0, 0)) (\<lambda>_ _ _. (0, 5)), EZCFG_RET_OK), (Stop (\<lambda>_. (0, 0)) (\<lambda>_ t. (EZCFG_RET_OK, t)), EZCFG_RET_OK)]"

definition thread_sample_stopping :: ezcfg_thread where
  "thread_sample_stopping = thread_sample\<lparr>th_id := 5, th_state := THREAD_STATE_STOPPING\<rparr>"

lemma new_thread_sample: "new_thread thread_sample"
  by (simp add: new_thread_def thread_sample_def thread_of_attr_def)

lemma posix_zero: "posix_mutex_call (\<lambda>_. (0, 0))"
  by (simp add: posix_mutex_call_def)

lemma thread_sample_steps: "thread_steps (Some thread_sample) accepting_calls (Some thread_sample_stopping)"
proof -
  have 1: "thread_steps (Some thread_sample) ([] @ [(Start (\<lambda>_. (0, 0)) (\<lambda>_ _ _. (0, 5)), EZCFG_RET_OK)])
      (Some (thread_sample\<lparr>th_id := 5, th_state := THREAD_STATE_RUNNING\<rparr>))"
    by (rule thread_steps.step [OF thread_steps.none])
      (simp_all add: handler_keeps_def posix_zero ezcfg_thread_start_def thread_sample_def thread_of_attr_def)
  show ?thesis
    using thread_steps.step [OF 1, of "Stop (\<lambda>_. (0, 0)) (\<lambda>_ t. (EZCFG_RET_OK, t))" EZCFG_RET_OK "Some thread_sample_stopping"]
    by (simp add: accepting_calls_def handler_keeps_def posix_zero ezcfg_thread_stop_def thread_sample_def thread_of_attr_def
        thread_sample_stopping_def thread_state_defs)
qed

text \<open>C30: whatever a client calls, a thread object is in one of the three states, never has an argument
  of its own, is started successfully at most once, and is stopped exactly as long as no start has
  succeeded; a deleted object was never started.\<close>

theorem thread_life_cycle:
  assumes "new_thread t0" "thread_steps (Some t0) cs s"
  shows "length (List.filter started cs) \<le> 1 \<and>
    (case s of
       None \<Rightarrow> List.filter started cs = [] \<and> length (List.filter deleted cs) = 1
     | Some t \<Rightarrow> th_state t \<in> {THREAD_STATE_STOPPED, THREAD_STATE_RUNNING, THREAD_STATE_STOPPING} \<and> th_arg t = None \<and>
         List.filter deleted cs = [] \<and> (th_state t = THREAD_STATE_STOPPED \<longleftrightarrow> List.filter started cs = []))"
  using thread_steps_history [OF assms(2,1)]
  by (cases s) (auto simp: thread_history_def thread_state_defs)

theorem thread_life_cycle_witness:
  "length (List.filter started accepting_calls) \<le> 1 \<and> th_arg thread_sample_stopping = None"
  using thread_life_cycle [OF new_thread_sample thread_sample_steps] by simp

text \<open>Once a start has succeeded, every further start and every deletion is refused and leaves the
  object as it is, whatever happens in between: the object is never released.\<close>

theorem started_thread_stays:
  assumes "new_thread t0" "thread_steps (Some t0) cs s" "c \<in> set cs" "started c"
  shows "\<exists>t. s = Some t \<and> (\<forall>lk create. ezcfg_thread_start lk create t = (EZCFG_RET_FAIL, t)) \<and>
    (\<forall>lk call. ezcfg_thread_del lk call t = (EZCFG_RET_FAIL, Some t))"
proof -
  have "List.filter started cs \<noteq> []" using assms(3,4) by (auto simp: filter_empty_conv)
  with thread_steps_history [OF assms(2,1)] show ?thesis
    by (cases s) (auto simp: thread_history_def ezcfg_thread_start_def ezcfg_thread_del_def thread_state_defs)
qed

theorem started_thread_stays_witness:
  "ezcfg_thread_del (\<lambda>_. (0, 0)) (\<lambda>_ _. EZCFG_RET_OK) thread_sample_stopping = (EZCFG_RET_FAIL, Some thread_sample_stopping)"
  using started_thread_stays [OF new_thread_sample thread_sample_steps,
      of "(Start (\<lambda>_. (0, 0)) (\<lambda>_ _ _. (0, 5)), EZCFG_RET_OK)"]
  by (auto simp: accepting_calls_def)

text \<open>C31: every live object of a client can be brought to the stopping state, when the mutex can be taken, the
  thread can be created and stop handlers return OK and leave the object as it is: a stopped one, with or without a start routine so far, by setting a start routine and a stop handler, starting and stopping it, a
  running one by setting a stop handler and stopping it, and a stopping one is there already.  All these calls
  return OK and pass no NULL, and the thread is started with the routine that was set.\<close>

theorem thread_reaches_stopping:
  assumes "new_thread t0" "thread_steps (Some t0) cs (Some t)" "posix_mutex_call lk"
    and "\<And>attr arg. fst (create attr (Some g) arg) = 0" "\<And>f t. call f t = (EZCFG_RET_OK, t)"
  shows "\<exists>cs' t'. thread_steps (Some t0) (cs @ map (\<lambda>c. (c, EZCFG_RET_OK)) cs') (Some t') \<and>
    th_state t' = THREAD_STATE_STOPPING \<and>
    (if th_state t = THREAD_STATE_STOPPED then
       cs' = [Set_start_routine (Some g), Set_stop (Some f), Start lk create, Stop lk call] \<and>
       th_start_routine t' = Some g
     else if th_state t = THREAD_STATE_RUNNING then cs' = [Set_stop (Some f), Stop lk call]
     else cs' = [])"
proof -
  let ?t1 = "t\<lparr>th_start_routine := Some g\<rparr>" and ?stop = "\<lambda>u. u\<lparr>th_stop := Some f\<rparr>"
  let ?c0 = "(Set_start_routine (Some g), EZCFG_RET_OK)" and ?c1 = "(Set_stop (Some f), EZCFG_RET_OK)"
    and ?c2 = "(Start lk create, EZCFG_RET_OK)" and ?c3 = "(Stop lk call, EZCFG_RET_OK)"
  have keeps: "handler_keeps (Set_start_routine (Some g))" "handler_keeps (Set_stop (Some f))" "handler_keeps (Start lk create)"
    "handler_keeps (Stop lk call)"
    using assms(5) by (simp_all add: handler_keeps_def)
  have set: "thread_steps (Some t0) (us @ [?c1]) (Some (?stop u))" if "thread_steps (Some t0) us (Some u)" for us u
    by (rule thread_steps.step [OF that keeps(2)]) (simp add: ezcfg_thread_set_stop_def)
  have stop: "thread_steps (Some t0) (us @ [?c3]) (Some (u\<lparr>th_state := THREAD_STATE_STOPPING\<rparr>))"
    if "thread_steps (Some t0) us (Some u)" "th_state u = THREAD_STATE_RUNNING" "th_stop u = Some f" for us u
    by (rule thread_steps.step [OF that(1) keeps(4)])
      (use assms(3,5) that(2,3) in \<open>simp add: ezcfg_thread_stop_def thread_state_defs\<close>)
  have states: "th_state t \<in> {THREAD_STATE_STOPPED, THREAD_STATE_RUNNING, THREAD_STATE_STOPPING}"
    using thread_steps_history [OF assms(2,1)] by (auto simp: thread_history_def)
  consider "th_state t = THREAD_STATE_STOPPED" | "th_state t = THREAD_STATE_RUNNING" | "th_state t = THREAD_STATE_STOPPING"
    using states by blast
  then show ?thesis
  proof cases
    case 1
    obtain i where i: "create (th_attr t) (Some g) (th_arg t) = (0, i)" using assms(4) by (metis prod.collapse)
    have "thread_steps (Some t0) (cs @ [?c0]) (Some ?t1)"
      by (rule thread_steps.step [OF assms(2) keeps(1)]) (simp add: ezcfg_thread_set_start_routine_def)
    note set [OF this]
    then have "thread_steps (Some t0) (((cs @ [?c0]) @ [?c1]) @ [?c2]) (Some ((?stop ?t1)\<lparr>th_id := i, th_state := THREAD_STATE_RUNNING\<rparr>))"
      by (rule thread_steps.step [OF _ keeps(3)]) (use assms(3) 1 i in \<open>simp add: ezcfg_thread_start_def\<close>)
    from stop [OF this] 1 show ?thesis
      by (intro exI [of _ "map fst [?c0, ?c1, ?c2, ?c3]"] exI [of _ "(?stop ?t1)\<lparr>th_id := i, th_state := THREAD_STATE_STOPPING\<rparr>"]) simp
  next
    case 2
    with stop [OF set [OF assms(2)]] show ?thesis
      by (intro exI [of _ "map fst [?c1, ?c3]"] exI [of _ "(?stop t)\<lparr>th_state := THREAD_STATE_STOPPING\<rparr>"])
        (simp add: thread_state_defs)
  next
    case 3
    with assms(2) show ?thesis by (intro exI [of _ "[]"] exI [of _ t]) (simp add: thread_state_defs)
  qed
qed

theorem thread_reaches_stopping_witness:
  "\<exists>t'. thread_steps (Some thread_sample)
     (map (\<lambda>c. (c, EZCFG_RET_OK)) [Set_start_routine (Some 9), Set_stop (Some 7), Start (\<lambda>_. (0, 0)) (\<lambda>_ _ _. (0, 5)),
        Stop (\<lambda>_. (0, 0)) (\<lambda>_ t. (EZCFG_RET_OK, t))]) (Some t') \<and>
     th_state t' = THREAD_STATE_STOPPING \<and> th_start_routine t' = Some 9"
  using thread_reaches_stopping [OF new_thread_sample thread_steps.none posix_zero,
      of "\<lambda>_ _ _. (0, 5)" 9 "\<lambda>_ t. (EZCFG_RET_OK, t)" 7]
  by (auto simp: thread_sample_def thread_of_attr_def)

definition sample_thread_meta :: meta_nvram where
  "sample_thread_meta = \<lparr>mh_magic = [], mh_version = [], mh_coding = [], mh_backend = [], mh_data_size = 14,
     mh_data_used = 13, mh_data_crc = 0, mh_header_crc = 0, mn_data = ''a=0'' @ [NUL] @ ''b=65536'' @ [NUL, NUL, NUL]\<rparr>"

definition sample_thread_context :: ezcfg where
  "sample_thread_context = sample_context\<lparr>ez_meta := Some sample_thread_meta\<rparr>"

definition sample_thread_env :: thread_env where
  "sample_thread_env = \<lparr>te_ref = \<lambda>_. (\<lambda>_. (0, 0), \<lambda>_. (0, 0)), te_mem = True, te_list_mem = True,
     te_pair_mem = \<lambda>_. (True, True, True), te_junk = \<lambda>k. (if k = 0 then ''a'' else ''b'', []),
     te_nvram_lock = \<lambda>_. (0, 0), te_copy = \<lambda>_. True, te_attr_init = 0, te_setdetachstate = \<lambda>_. 0,
     te_setstacksize = \<lambda>_. 0\<rparr>"

lemma sample_thread_reads:
  "context_reads sample_thread_context [] [(''a'', 0, ''0''), (''b'', 0, ''65536'')]"
  "all_apart ''a'' [(''a'', 0, ''0''), (''b'', 0, ''65536'')]" "all_apart ''b'' [(''a'', 0, ''0''), (''b'', 0, ''65536'')]"
  "setting_lookup [] [(''a'', 0, ''0''), (''b'', 0, ''65536'')] ''a'' = Some ''0''"
  "setting_lookup [] [(''a'', 0, ''0''), (''b'', 0, ''65536'')] ''b'' = Some ''65536''"
proof -
  have "meta_rep sample_thread_meta [(''a'', 0, ''0''), (''b'', 0, ''65536'')]"
    by (simp add: meta_rep_def sample_thread_meta_def meta_name_def meta_value_def names_sorted_def all_apart_def
        apart_def NUL_def)
  then show "context_reads sample_thread_context [] [(''a'', 0, ''0''), (''b'', 0, ''65536'')]"
    using nv_rep_empty [of "empty_heap (\<lambda>_. False)" 4]
    by (simp add: context_reads_def sample_thread_context_def sample_context_def nvram_empty_def empty_heap_def heap_ok_def)
qed (simp_all add: all_apart_def apart_def setting_lookup_def table_get_def meta_map_def)

lemma sample_thread_env_ok: "thread_env_ok sample_thread_env"
  by (simp add: thread_env_ok_def sample_thread_env_def posix_zero)

lemma sample_atoi: "atoi ''0'' = 0" "atoi ''65536'' = 65536"
  by (simp_all add: atoi_def c_isspace_def is_digit_def)

text \<open>The name space a thread is created for plays no part: when the pthread calls accept them, the
  detach state and the stack size are those of the settings whose names happen to stand in the two
  blocks the allocator hands out for the names, since the names are never copied into them.\<close>

theorem thread_new_reads_stray_names:
  assumes "thread_env_ok ev" "ns_fits ns" "heap_ok h" "\<forall>k. \<not> oom h k"
    and "ezcfg_ref_counter s > 0" "context_reads e es ms"
    and "fst (te_junk ev 0) \<noteq> fst (te_junk ev 1)" "all_apart (fst (te_junk ev 0)) ms" "all_apart (fst (te_junk ev 1)) ms"
    and "setting_lookup es ms (fst (te_junk ev 0)) = Some v1" "setting_lookup es ms (fst (te_junk ev 1)) = Some v2"
    and "te_attr_init ev = 0" "te_setdetachstate ev (atoi v1) = 0" "te_setstacksize ev (atoi v2) = 0"
  shows "\<exists>t e' h'. ezcfg_thread_new ev e ns h s =
      Some (Some t, e', h', s\<lparr>ezcfg_ref_counter := ezcfg_ref_counter s + 1\<rparr>) \<and> new_thread t \<and>
    th_attr t = \<lparr>ta_detachstate = atoi v1, ta_stacksize = (if atoi v2 > 0 then atoi v2 else 0)\<rparr>"
  using thread_new_result [OF assms(1-6) refl refl assms(7-11)] assms(12-14)
  by (auto simp: thread_set_attr_def thread_of_attr_def new_thread_def Let_def)

theorem thread_new_reads_stray_names_witness:
  "\<exists>t e' h'. ezcfg_thread_new sample_thread_env sample_thread_context (Some ''lan.'') (sample_pair_heap\<lparr>cells := Map.empty\<rparr>)
      \<lparr>ezcfg_ref_counter = 1, this_ezcfg = Some 0\<rparr> =
    Some (Some t, e', h', \<lparr>ezcfg_ref_counter = 2, this_ezcfg = Some 0\<rparr>) \<and>
    th_attr t = \<lparr>ta_detachstate = 0, ta_stacksize = 65536\<rparr>"
proof -
  have "ns_fits (Some ''lan.'')" by (simp add: ns_fits_def EZCFG_NAME_MAX_def)
  moreover have "heap_ok (sample_pair_heap\<lparr>cells := Map.empty\<rparr>)" "\<forall>k. \<not> oom (sample_pair_heap\<lparr>cells := Map.empty\<rparr>) k"
    by (simp_all add: heap_ok_def sample_pair_heap_def)
  moreover have "fst (te_junk sample_thread_env 0) = ''a''" "fst (te_junk sample_thread_env 1) = ''b''"
    "te_attr_init sample_thread_env = 0" "te_setdetachstate sample_thread_env = (\<lambda>_. 0)"
    "te_setstacksize sample_thread_env = (\<lambda>_. 0)" by (simp_all add: sample_thread_env_def)
  ultimately show ?thesis
    using thread_new_reads_stray_names [OF sample_thread_env_ok, of "Some ''lan.''" "sample_pair_heap\<lparr>cells := Map.empty\<rparr>"
        "\<lparr>ezcfg_ref_counter = 1, this_ezcfg = Some 0\<rparr>" sample_thread_context] sample_thread_reads
    by (fastforce simp: sample_atoi)
qed

text \<open>A thread object keeps its context alive for ever: creating one takes a reference, deleting it
  (which succeeds) does not give it back, so that the context can no more be deleted.\<close>

theorem thread_del_keeps_context:
  assumes "ezcfg_thread_new ev e ns h s = Some (Some t, e', h', s')"
    and "\<forall>k. posix_mutex_call (fst (te_ref ev k)) \<and> posix_mutex_call (snd (te_ref ev k))" "posix_mutex_call lk"
  shows "ezcfg_thread_del lk call t = (EZCFG_RET_OK, None) \<and> ezcfg_del lk ulk nvlk nvulk e' s' = Some (EZCFG_RET_FAIL, s')"
  using thread_new_keeps_ref [OF assms(1,2)] context_del_held [OF assms(3), of s'] assms(3)
  by (auto simp: ezcfg_thread_del_def new_thread_def)

theorem thread_del_keeps_context_witness:
  "\<exists>t e' h' s'. ezcfg_thread_new sample_thread_env sample_thread_context None (sample_pair_heap\<lparr>cells := Map.empty\<rparr>)
      \<lparr>ezcfg_ref_counter = 1, this_ezcfg = Some 0\<rparr> = Some (Some t, e', h', s') \<and>
    ezcfg_del (\<lambda>_. (0, 0)) (\<lambda>_. (0, 0)) (\<lambda>_. (0, 0)) (\<lambda>_. (0, 0)) e' s' = Some (EZCFG_RET_FAIL, s')"
proof -
  have m: "\<forall>k. posix_mutex_call (fst (te_ref sample_thread_env k)) \<and> posix_mutex_call (snd (te_ref sample_thread_env k))"
    using sample_thread_env_ok by (simp add: thread_env_ok_def)
  have "ns_fits None" by (simp add: ns_fits_def EZCFG_NAME_MAX_def)
  moreover have "heap_ok (sample_pair_heap\<lparr>cells := Map.empty\<rparr>)" "\<forall>k. \<not> oom (sample_pair_heap\<lparr>cells := Map.empty\<rparr>) k"
    by (simp_all add: heap_ok_def sample_pair_heap_def)
  moreover have "fst (te_junk sample_thread_env 0) = ''a''" "fst (te_junk sample_thread_env 1) = ''b''"
    "thread_set_attr sample_thread_env (0, 65536) \<noteq> None"
    by (simp_all add: sample_thread_env_def thread_set_attr_def Let_def)
  ultimately obtain t e' h' s' where t: "ezcfg_thread_new sample_thread_env sample_thread_context None
      (sample_pair_heap\<lparr>cells := Map.empty\<rparr>) \<lparr>ezcfg_ref_counter = 1, this_ezcfg = Some 0\<rparr> = Some (Some t, e', h', s')"
    using thread_new_result [OF sample_thread_env_ok, of None "sample_pair_heap\<lparr>cells := Map.empty\<rparr>"
        "\<lparr>ezcfg_ref_counter = 1, this_ezcfg = Some 0\<rparr>" sample_thread_context] sample_thread_reads
    by (fastforce simp: sample_atoi)
  show ?thesis using t thread_del_keeps_context [OF t m posix_zero] by blast
qed

end
