(* ===== verification/Process.thy ===== *)
theory Process
  imports Thread_Spec
begin

text \<open>
  Child processes of \<^verbatim>\<open>src/basic/process/process.c\<close>: the file's mutex and list of children, starting a
  child with the settings of its name space, and deleting a process object.  The mutex is an ordinary
  one: locking it while it is held does not return (\<^const>\<open>None\<close> of \<open>lock_process_mutex\<close>).
\<close>

section \<open>State\<close>

definition PROCESS_STATE_STOPPED :: int where "PROCESS_STATE_STOPPED = 0"

text \<open>\<open>pr_addr\<close> is the address of the object; the context pointer is left out.\<close>

record process =
  pr_addr :: nat
  pr_state :: int
  pr_id :: int

text \<open>The static variables of the file, the nodes of the list, and the objects not yet released.
  \<open>ps_released\<close> says that the list behind the pointer has been deleted: the pointer is never reset.\<close>

record process_table =
  ps_locked :: bool
  ps_children :: "process linked_list option"
  ps_released :: bool
  ps_heap :: "process lheap"
  ps_live :: "nat list"

definition lock_process_mutex :: "mutex_call \<Rightarrow> process_table \<Rightarrow> (int \<times> process_table) option" where
  "lock_process_mutex m st =
     (if ps_locked st then None
      else Some (case mutex_retry_loop m EZCFG_LOCK_RETRY_MAX 0 of
          None \<Rightarrow> (EZCFG_RET_FAIL, st)
        | Some retry \<Rightarrow>
            if retry < EZCFG_LOCK_RETRY_MAX then (EZCFG_RET_OK, st\<lparr>ps_locked := True\<rparr>) else (EZCFG_RET_FAIL, st)))"

definition unlock_process_mutex :: "mutex_call \<Rightarrow> process_table \<Rightarrow> int \<times> process_table" where
  "unlock_process_mutex m st =
     (case mutex_retry_loop m EZCFG_UNLOCK_RETRY_MAX 0 of
        None \<Rightarrow> (EZCFG_RET_FAIL, st)
      | Some retry \<Rightarrow>
          if retry < EZCFG_UNLOCK_RETRY_MAX then (EZCFG_RET_OK, st\<lparr>ps_locked := False\<rparr>) else (EZCFG_RET_FAIL, st))"

section \<open>Handlers and deletion\<close>

definition ezcfg_process_cmp_handler :: "process \<Rightarrow> process \<Rightarrow> int" where
  "ezcfg_process_cmp_handler p1 p2 = (if pr_id p1 = pr_id p2 then 0 else -1)"

definition process_free :: "nat \<Rightarrow> process_table \<Rightarrow> process_table option" where
  "process_free a st = (if a \<in> set (ps_live st) then Some (st\<lparr>ps_live := removeAll a (ps_live st)\<rparr>) else None)"

text \<open>How a deletion ends.  It returns; or it never does, because it waits for a mutex that nobody will
  release (or a loop has no end); or it uses memory that is not there; or the bound on the
  nesting was too small to say.\<close>

datatype 'a outcome = Returns 'a | Never | Faults | No_fuel

text \<open>The loop of \<^verbatim>\<open>ezcfg_linked_list_del\<close> on the children, with a delete handler that works on the
  state: it is called on every child before the child's node is freed.  The result \<^const>\<open>None\<close> is a loop
  without end.\<close>

partial_function (option) child_list_del_loop ::
    "(process \<Rightarrow> process_table \<Rightarrow> ezcfg_refs \<Rightarrow> (int \<times> process_table \<times> ezcfg_refs) outcome) \<Rightarrow>
       ptr \<Rightarrow> process_table \<Rightarrow> ezcfg_refs \<Rightarrow> (process_table \<times> ezcfg_refs) outcome option" where
  "child_list_del_loop handler np st s =
     (case np of
        None \<Rightarrow> Some (Returns (st, s))
      | Some a \<Rightarrow>
          (case cells (ps_heap st) a of
             None \<Rightarrow> Some Faults
           | Some n \<Rightarrow>
               (case (case ln_data n of
                        None \<Rightarrow> Returns (st, s)
                      | Some p \<Rightarrow> map_outcome snd (handler p st s)) of
                  Returns (st1, s1) \<Rightarrow>
                    (case hfree a (ps_heap st1) of
                       None \<Rightarrow> Some Faults
                     | Some h \<Rightarrow> child_list_del_loop handler (ln_next n) (st1\<lparr>ps_heap := h\<rparr>) s1)
                | Never \<Rightarrow> Some Never
                | Faults \<Rightarrow> Some Faults
                | No_fuel \<Rightarrow> Some No_fuel)))"

text \<open>\<^verbatim>\<open>free(process)\<close> and the unlocking at the end.\<close>

definition process_del_end ::
    "mutex_call \<Rightarrow> process \<Rightarrow> process_table \<times> ezcfg_refs \<Rightarrow> (int \<times> process_table \<times> ezcfg_refs) outcome" where
  "process_del_end ulk p r =
     (case r of (st, s) \<Rightarrow>
        (case process_free (pr_addr p) st of
           None \<Rightarrow> Faults
         | Some st' \<Rightarrow> Returns (EZCFG_RET_OK, snd (unlock_process_mutex ulk st'), s)))"

text \<open>\<open>mx\<close> are the calls of the two mutexes: locking and unlocking the process mutex, the reference
  counter's.  The function is the list's delete handler (\<^verbatim>\<open>ezcfg_process_del_handler\<close>) and so calls
  itself; the first argument bounds the nesting.\<close>

primrec ezcfg_process_del ::
    "nat \<Rightarrow> mutex_call \<times> mutex_call \<times> mutex_call \<times> mutex_call \<Rightarrow> process \<Rightarrow> process_table \<Rightarrow> ezcfg_refs \<Rightarrow>
       (int \<times> process_table \<times> ezcfg_refs) outcome" where
  "ezcfg_process_del 0 mx p st s = No_fuel"
| "ezcfg_process_del (Suc n) mx p st s =
     (case mx of (lk, ulk, rlk, rulk) \<Rightarrow>
        (case lock_process_mutex lk st of
           None \<Rightarrow> Never
         | Some (ret, st1) \<Rightarrow>
             if ret \<noteq> EZCFG_RET_OK then Returns (EZCFG_RET_FAIL, st1, s)
             else if pr_addr p \<notin> set (ps_live st1) then Faults
             else if pr_state p \<noteq> PROCESS_STATE_STOPPED then
               Returns (EZCFG_RET_FAIL, snd (unlock_process_mutex ulk st1), s)
             else
               (case ps_children st1 of
                  None \<Rightarrow> process_del_end ulk p (st1, s)
                | Some l \<Rightarrow>
                    if ps_released st1 then Faults
                    else
                      (case child_list_del_loop (ezcfg_process_del n mx) (ll_head l) st1 s of
                         None \<Rightarrow> Never
                       | Some (Returns (st2, s2)) \<Rightarrow>
                           process_del_end ulk p (st2\<lparr>ps_released := True\<rparr>, snd (ezcfg_dec_ref rlk rulk s2))
                       | Some Never \<Rightarrow> Never
                       | Some Faults \<Rightarrow> Faults
                       | Some No_fuel \<Rightarrow> No_fuel))))"

section \<open>Starting a child\<close>

definition PROCESS_PREFIX :: string where "PROCESS_PREFIX = ''process.''"

definition PROCESS_FILENAME :: string where "PROCESS_FILENAME = ''filename''"

definition META_PREFIX :: string where "META_PREFIX = ''meta.''"

text \<open>What comes from outside: what collecting the settings takes (\<open>pv_query_*\<close>), the
  reference counter's calls, allocations, the stray contents of the pairs' blocks, \<^verbatim>\<open>fork\<close>, \<^verbatim>\<open>execve\<close>.\<close>

record process_env =
  pv_query_ref :: "nat \<Rightarrow> mutex_call \<times> mutex_call"
  pv_query_lock :: mutex_call
  pv_query_mem :: bool
  pv_query_meta :: ns_env
  pv_query_table :: ns_env
  pv_ref :: "nat \<Rightarrow> mutex_call \<times> mutex_call"
  pv_list_mem :: bool
  pv_strdup :: "nat \<Rightarrow> bool"
  pv_pair_mem :: "nat \<Rightarrow> bool \<times> bool \<times> bool"
  pv_junk :: "nat \<Rightarrow> string \<times> string"
  pv_text_mem :: bool
  pv_addr :: ptr
  pv_fork :: int
  pv_execve :: "string option \<Rightarrow> string \<Rightarrow> int"
  pv_lock :: mutex_call
  pv_unlock :: mutex_call
  pv_children_mem :: bool

text \<open>What a call returns: in the parent its result, in the child the program and the text given to
  \<^verbatim>\<open>execve\<close> with the result when that fails.\<close>

datatype process_result = In_parent int | In_child "string option" string int

text \<open>The loop over the pairs of the name space from index \<open>i\<close> on: the name behind the name space is
  looked at.  The result is the file name and whether the loop went through; it comes with a pair
  that no list owns when an append failed.  When the copy of the file name fails the pair is deleted
  by itself and again with its list.\<close>

fun process_settings_loop ::
    "process_env \<Rightarrow> nat \<Rightarrow> nat \<Rightarrow> nat \<Rightarrow> string option \<Rightarrow> pair_list \<Rightarrow> pair_list \<Rightarrow> pair_heap \<Rightarrow>
       (bool \<times> string option \<times> ezcfg_nv_pair option \<times> pair_list \<times> pair_heap) option" where
  "process_settings_loop ev sub_ns_len 0 i filename l nl h = Some (True, filename, None, nl, h)"
| "process_settings_loop ev sub_ns_len (Suc k) i filename l nl h = do {
     d \<leftarrow> ezcfg_linked_list_get_node_data_by_index l (int i) h;
     case d of
       None \<Rightarrow> Some (False, filename, None, nl, h)
     | Some d \<Rightarrow> do {
         n \<leftarrow> ezcfg_nv_pair_get_n d;
         if length n < sub_ns_len then None
         else
           let p_name = drop sub_ns_len n in
           if strcmp p_name PROCESS_FILENAME = 0 then do {
             v \<leftarrow> ezcfg_nv_pair_get_v d;
             if \<not> pv_strdup ev i then None
             else process_settings_loop ev sub_ns_len k (i + 1) (Some v) l nl h
           }
           else if strncmp p_name META_PREFIX (length META_PREFIX) = 0 then
             (case ezcfg_nv_pair_new (pv_pair_mem ev i) (pv_junk ev i) (Some p_name) (ezcfg_nv_pair_get_v d) of
                None \<Rightarrow> Some (False, filename, None, nl, h)
              | Some nd \<Rightarrow> do {
                  (ret, nl', h') \<leftarrow> ezcfg_linked_list_append nl nd h;
                  if ret \<noteq> EZCFG_RET_OK then Some (False, filename, Some nd, nl', h')
                  else process_settings_loop ev sub_ns_len k (i + 1) filename l nl' h'
                })
           else process_settings_loop ev sub_ns_len k (i + 1) filename l nl h
       }
   }"

text \<open>The code behind \<^verbatim>\<open>exit_fail\<close>; a reference is given back that the function never took.\<close>

definition process_new_fail ::
    "process_env \<Rightarrow> pair_list option \<Rightarrow> ezcfg_nv_pair option \<Rightarrow> pair_list option \<Rightarrow> ptr \<Rightarrow>
       process_table \<Rightarrow> pair_heap \<Rightarrow> ezcfg_refs \<Rightarrow>
       (process_result \<times> process_table \<times> pair_heap \<times> ezcfg_refs) option" where
  "process_new_fail ev lo nd nlo addr st h s = do {
     (h1, s1) \<leftarrow> (case lo of
         None \<Rightarrow> Some (h, s)
       | Some l \<Rightarrow> do { (_, h1, s1) \<leftarrow> ezcfg_linked_list_del (pv_ref ev 0) l h s; Some (h1, s1) });
     let h2 = (case nd of None \<Rightarrow> h1 | Some d \<Rightarrow> snd (ezcfg_nv_pair_del d h1));
     (h3, s3) \<leftarrow> (case nlo of
         None \<Rightarrow> Some (h2, s1)
       | Some l \<Rightarrow> do { (_, h3, s3) \<leftarrow> ezcfg_linked_list_del (pv_ref ev 1) l h2 s1; Some (h3, s3) });
     st' \<leftarrow> (case addr of None \<Rightarrow> Some st | Some a \<Rightarrow> process_free a st);
     Some (In_parent EZCFG_RET_FAIL, st', h3, snd (ezcfg_dec_ref (fst (pv_ref ev 2)) (snd (pv_ref ev 2)) s3))
   }"

text \<open>The parent's part: the child's object is put into the list of children, which is created when
  needed.  A child of the same id would be deleted by the append, with the mutex held.  The mutex
  is released on the failing paths only.\<close>

definition process_add_child ::
    "process_env \<Rightarrow> process \<Rightarrow> process_table \<Rightarrow> ezcfg_refs \<Rightarrow> (int \<times> process_table \<times> ezcfg_refs) option" where
  "process_add_child ev p st s = do {
     (ret, st1) \<leftarrow> lock_process_mutex (pv_lock ev) st;
     if ret \<noteq> EZCFG_RET_OK then Some (EZCFG_RET_FAIL, st1, s)
     else
       let (lo, s1) =
         (case ps_children st1 of
            Some l \<Rightarrow> (Some l, s)
          | None \<Rightarrow> ezcfg_linked_list_new (pv_ref ev 3) (pv_ref ev 4) (pv_children_mem ev) True
                      (Some ezcfg_process_cmp_handler) s) in
       (case lo of
          None \<Rightarrow> Some (EZCFG_RET_FAIL, snd (unlock_process_mutex (pv_unlock ev) st1), s1)
        | Some l \<Rightarrow>
            if ps_released st1 then None
            else do {
            found \<leftarrow> linked_list_find ezcfg_process_cmp_handler (ps_heap st1) (ll_head l) p;
            if found \<noteq> None then None
            else do {
              (ret, l', h') \<leftarrow> ezcfg_linked_list_append l p (ps_heap st1);
              let st2 = st1\<lparr>ps_children := Some l', ps_heap := h'\<rparr>;
              Some (if ret \<noteq> EZCFG_RET_OK then (EZCFG_RET_FAIL, snd (unlock_process_mutex (pv_unlock ev) st2), s1)
                    else (EZCFG_RET_OK, st2, s1))
            }
          })
   }"

definition ezcfg_process_new ::
    "process_env \<Rightarrow> ezcfg \<Rightarrow> string option \<Rightarrow> process_table \<Rightarrow> pair_heap \<Rightarrow> ezcfg_refs \<Rightarrow>
       (process_result \<times> process_table \<times> pair_heap \<times> ezcfg_refs) option" where
  "ezcfg_process_new ev e ns st h s =
     (case ezcfg_util_snprintf_ns_name EZCFG_NAME_MAX ns (Some PROCESS_PREFIX) of
        (_, None) \<Rightarrow> process_new_fail ev None None None None st h s
      | (ret, Some name) \<Rightarrow>
          if ret \<noteq> EZCFG_RET_OK then process_new_fail ev None None None None st h s
          else do {
            (ret, lo, h1, s1) \<leftarrow> ezcfg_common_get_nvram_entries_by_ns (pv_query_ref ev) (pv_query_lock ev)
              (pv_query_mem ev) (pv_query_meta ev) (pv_query_table ev) e name h s;
            case lo of
              None \<Rightarrow> process_new_fail ev None None None None st h1 s1
            | Some l \<Rightarrow>
                if ret \<noteq> EZCFG_RET_OK then process_new_fail ev (Some l) None None None st h1 s1
                else
                  (case ezcfg_linked_list_new (pv_ref ev 5) (pv_ref ev 6) (pv_list_mem ev) True
                          (Some ezcfg_nv_pair_cmp_handler) s1 of
                     (None, s2) \<Rightarrow> process_new_fail ev (Some l) None None None st h1 s2
                   | (Some nl, s2) \<Rightarrow> do {
                       (through, filename, nd, nl', h2) \<leftarrow> process_settings_loop ev (length name)
                         (nat (ezcfg_linked_list_get_length l)) 1 None l nl h1;
                       if \<not> through then process_new_fail ev (Some l) nd (Some nl') None st h2 s2
                       else do {
                         initconf \<leftarrow> ezcfg_linked_list_nv_pair_to_json_text (pv_text_mem ev) nl' h2;
                         case initconf of
                           None \<Rightarrow> process_new_fail ev (Some l) None (Some nl') None st h2 s2
                         | Some initconf \<Rightarrow> do {
                             (_, h3, s3) \<leftarrow> ezcfg_linked_list_del (pv_ref ev 7) nl' h2 s2;
                             case pv_addr ev of
                               None \<Rightarrow> process_new_fail ev (Some l) None None None st h3 s3
                             | Some a \<Rightarrow>
                                 let st1 = st\<lparr>ps_live := a # ps_live st\<rparr>; cpid = pv_fork ev in
                                 if cpid = -1 then process_new_fail ev (Some l) None None (Some a) st1 h3 s3
                                 else if cpid = 0 then
                                   Some (In_child filename initconf (pv_execve ev filename initconf),
                                     st1\<lparr>ps_locked := False, ps_children := None, ps_released := False\<rparr>, h3, s3)
                                 else do {
                                   (ret, st2, s4) \<leftarrow> process_add_child ev
                                     \<lparr>pr_addr = a, pr_state = PROCESS_STATE_STOPPED, pr_id = cpid\<rparr> st1 s3;
                                   if ret \<noteq> EZCFG_RET_OK then process_new_fail ev (Some l) None None (Some a) st2 h3 s4
                                   else Some (In_parent EZCFG_RET_OK, st2, h3, s4)
                                 }
                           }
                       }
                     })
          })"

end
