(* ===== verification/Process_Spec.thy ===== *)
theory Process_Spec
  imports Process
begin

text \<open>
  What the process objects do: starting a child gives back a reference that was never taken when it
  fails and leaves the mutex locked when it succeeds; and what deleting a process comes to in every state
  that starts and deletions can reach: it never returns while the mutex is held.
\<close>

section \<open>Lemmas\<close>

lemma process_lock_held [simp]: "ps_locked st \<Longrightarrow> lock_process_mutex lk st = None"
  by (simp add: lock_process_mutex_def)

lemma process_lock_posix:
  "posix_mutex_call lk \<Longrightarrow> \<not> ps_locked st \<Longrightarrow> lock_process_mutex lk st = Some (EZCFG_RET_OK, st\<lparr>ps_locked := True\<rparr>)"
  by (simp add: lock_process_mutex_def posix_mutex_call_def mutex_retry_loop_first [of 0 0] EZCFG_LOCK_RETRY_MAX_def)

lemma process_unlock_posix:
  "posix_mutex_call ulk \<Longrightarrow> unlock_process_mutex ulk st = (EZCFG_RET_OK, st\<lparr>ps_locked := False\<rparr>)"
  by (simp add: unlock_process_mutex_def posix_mutex_call_def mutex_retry_loop_first [of 0 0] EZCFG_UNLOCK_RETRY_MAX_def)

lemma lock_ok_locked: "lock_process_mutex lk st = Some (EZCFG_RET_OK, st1) \<Longrightarrow> ps_locked st1"
  by (auto simp: lock_process_mutex_def split: if_splits option.splits)

lemma process_del_blocked: "ps_locked st \<Longrightarrow> ezcfg_process_del (Suc n) mx p st s = Never"
  by (cases mx) simp

lemma add_child_locked:
  "process_add_child ev p st s = Some (EZCFG_RET_OK, st', s') \<Longrightarrow> ps_locked st' \<and> ps_children st' \<noteq> None"
  by (auto simp: process_add_child_def Let_def dest: lock_ok_locked
      split: Option.bind_splits if_splits option.splits prod.splits)

lemma process_fail_result: "process_new_fail ev lo nd nlo addr st h s = Some (r, x) \<Longrightarrow> r = In_parent EZCFG_RET_FAIL"
  by (auto simp: process_new_fail_def Let_def split: Option.bind_splits prod.splits)

text \<open>The first child of the list is handed to the handler while the mutex is held.\<close>

lemma child_list_blocked:
  assumes "cells (ps_heap st) a = Some nd" "ln_data nd = Some c" "ps_locked st"
  shows "child_list_del_loop (ezcfg_process_del (Suc n) mx) (Some a) st s = Some Never"
  using assms process_del_blocked [of st n mx c s] by (subst child_list_del_loop.simps) simp

text \<open>If a list of children were deleted, the deletion would wait for its own mutex.\<close>

lemma process_del_children:
  assumes "\<not> ps_locked st" "posix_mutex_call lk" "pr_addr p \<in> set (ps_live st)" "pr_state p = PROCESS_STATE_STOPPED"
    and "ps_children st = Some l" "\<not> ps_released st" "ll_head l = Some a"
    and "cells (ps_heap st) a = Some nd" "ln_data nd = Some c"
  shows "ezcfg_process_del (Suc (Suc n)) (lk, ulk, rlk, rulk) p st s = Never"
  using assms child_list_blocked [of "st\<lparr>ps_locked := True\<rparr>" a nd c n "(lk, ulk, rlk, rulk)" s]
  by (simp add: process_lock_posix del: ezcfg_process_del.simps(2) add: ezcfg_process_del.simps(2) [of "Suc n"])

section \<open>Reachable states\<close>

text \<open>What starting processes and deleting them makes of the static variables, with the number of
  children that this process has started: at first there is no list and the mutex is free, and a
  child begins so again.\<close>

inductive process_reach :: "nat \<Rightarrow> process_table \<Rightarrow> bool" where
  fresh: "\<not> ps_locked st \<Longrightarrow> ps_children st = None \<Longrightarrow> process_reach 0 st"
| started: "process_reach k st \<Longrightarrow> ezcfg_process_new ev e ns st h s = Some (In_parent EZCFG_RET_OK, st', h', s') \<Longrightarrow>
    process_reach (Suc k) st'"
| refused: "process_reach k st \<Longrightarrow> ezcfg_process_new ev e ns st h s = Some (In_parent r, st', h', s') \<Longrightarrow>
    r \<noteq> EZCFG_RET_OK \<Longrightarrow> process_reach k st'"
| child: "process_reach k st \<Longrightarrow> ezcfg_process_new ev e ns st h s = Some (In_child f t x, st', h', s') \<Longrightarrow>
    process_reach 0 st'"
| deleted: "process_reach k st \<Longrightarrow> ezcfg_process_del n mx p st s = Returns (r, st', s') \<Longrightarrow> process_reach k st'"

definition no_child :: "process_table \<Rightarrow> bool" where
  "no_child st \<longleftrightarrow> (case ps_children st of None \<Rightarrow> True | Some l \<Rightarrow> ll_head l = None)"

definition free_means_childless :: "process_table \<Rightarrow> bool" where
  "free_means_childless st \<longleftrightarrow> ps_locked st \<or> no_child st"

lemma no_child_simps [simp]:
  "no_child (st\<lparr>ps_live := x\<rparr>) = no_child st" "no_child (st\<lparr>ps_locked := b\<rparr>) = no_child st"
  "no_child (st\<lparr>ps_released := b\<rparr>) = no_child st" "no_child (st\<lparr>ps_heap := h\<rparr>) = no_child st"
  by (simp_all add: no_child_def)

lemma lock_children: "lock_process_mutex lk st = Some (r, st1) \<Longrightarrow> ps_children st1 = ps_children st"
  by (auto simp: lock_process_mutex_def split: if_splits option.splits)

lemma unlock_children [simp]: "ps_children (snd (unlock_process_mutex ulk st)) = ps_children st"
  by (auto simp: unlock_process_mutex_def split: option.splits)

lemma unlock_no_child [simp]: "no_child (snd (unlock_process_mutex ulk st)) = no_child st"
  by (simp add: no_child_def)

lemma append_refused: "ezcfg_linked_list_append l d h = Some (r, l', h') \<Longrightarrow> r \<noteq> EZCFG_RET_OK \<Longrightarrow> l' = l"
  by (auto simp: ezcfg_linked_list_append_def split: Option.bind_splits option.splits if_splits prod.splits)

lemma list_new_empty: "ezcfg_linked_list_new r1 r2 m d c s = (Some l, s') \<Longrightarrow> ll_head l = None"
  by (auto simp: ezcfg_linked_list_new_def linked_list_init_def split: if_splits prod.splits)

section \<open>Samples\<close>

definition sample_process :: process where
  "sample_process = \<lparr>pr_addr = 0, pr_state = PROCESS_STATE_STOPPED, pr_id = 41\<rparr>"

definition sample_table_of :: "process linked_list option \<Rightarrow> process lheap \<Rightarrow> process_table" where
  "sample_table_of l h = \<lparr>ps_locked = False, ps_children = l, ps_released = False, ps_heap = h, ps_live = [0]\<rparr>"

definition sample_no_children :: "process lheap" where
  "sample_no_children = \<lparr>cells = Map.empty, brk = 0, oom = (\<lambda>_. False), dlog = []\<rparr>"

text \<open>A context without settings, a name space without settings: the call starts a child.\<close>

definition sample_bare_meta :: meta_nvram where
  "sample_bare_meta = \<lparr>mh_magic = [], mh_version = [], mh_coding = [], mh_backend = [], mh_data_size = 4,
     mh_data_used = 0, mh_data_crc = 0, mh_header_crc = 0, mn_data = [NUL, NUL, NUL, NUL]\<rparr>"

definition sample_bare_context :: ezcfg where
  "sample_bare_context = \<lparr>ez_log_file = [], ez_meta = Some sample_bare_meta, ez_meta_live = True, ez_nvram = None\<rparr>"

definition sample_process_env :: process_env where
  "sample_process_env = \<lparr>pv_query_ref = \<lambda>_. (\<lambda>_. (0, 0), \<lambda>_. (0, 0)), pv_query_lock = \<lambda>_. (0, 0), pv_query_mem = True,
     pv_query_meta = sample_ns_env, pv_query_table = sample_ns_env, pv_ref = \<lambda>_. (\<lambda>_. (0, 0), \<lambda>_. (0, 0)),
     pv_list_mem = True, pv_strdup = \<lambda>_. True, pv_pair_mem = \<lambda>_. (True, True, True), pv_junk = \<lambda>_. ([], []),
     pv_text_mem = True, pv_addr = Some 0, pv_fork = 41, pv_execve = \<lambda>_ _. -1, pv_lock = \<lambda>_. (0, 0),
     pv_unlock = \<lambda>_. (0, 0), pv_children_mem = True\<rparr>"

definition sample_no_pairs :: pair_heap where
  "sample_no_pairs = \<lparr>cells = Map.empty, brk = 0, oom = (\<lambda>_. False), dlog = []\<rparr>"

lemma sample_query:
  "ezcfg_common_get_nvram_entries_by_ns (\<lambda>_. (\<lambda>_. (0, 0), \<lambda>_. (0, 0))) (\<lambda>_. (0, 0)) True sample_ns_env sample_ns_env
     sample_bare_context ''process.'' sample_no_pairs \<lparr>ezcfg_ref_counter = 1, this_ezcfg = Some 0\<rparr> =
   Some (EZCFG_RET_OK, Some (linked_list_init True (Some ezcfg_nv_pair_cmp_handler)), sample_no_pairs,
     \<lparr>ezcfg_ref_counter = 2, this_ezcfg = Some 0\<rparr>)"
  by (simp add: ezcfg_common_get_nvram_entries_by_ns_def ezcfg_linked_list_new_def inc_ref_posix posix_zero
      sample_bare_context_def sample_bare_meta_def local_meta_nvram_get_entries_by_ns_def meta_ns_loop.simps at_end_def)

lemma sample_process_starts:
  "\<exists>st' h' s'. ezcfg_process_new sample_process_env sample_bare_context None (sample_table_of None sample_no_children)
      sample_no_pairs \<lparr>ezcfg_ref_counter = 1, this_ezcfg = Some 0\<rparr> = Some (In_parent EZCFG_RET_OK, st', h', s') \<and>
    0 \<in> set (ps_live st')"
proof -
  have "ezcfg_util_snprintf_ns_name EZCFG_NAME_MAX None (Some PROCESS_PREFIX) = (EZCFG_RET_OK, Some ''process.'')"
    by (simp add: ezcfg_util_snprintf_ns_name_def EZCFG_NAME_MAX_def PROCESS_PREFIX_def)
  moreover have "ezcfg_linked_list_nv_pair_to_json_text True (linked_list_init True (Some ezcfg_nv_pair_cmp_handler))
      sample_no_pairs = Some (Some [CHR ''}'', NUL])"
    by (simp add: ezcfg_linked_list_nv_pair_to_json_text_def pairs_text_len.simps pairs_text_loop.simps linked_list_init_def
        Let_def)
  ultimately show ?thesis
    by (simp add: ezcfg_process_new_def sample_process_env_def sample_query ezcfg_linked_list_new_def inc_ref_posix posix_zero
        ezcfg_linked_list_get_length_def linked_list_init_def ezcfg_linked_list_del_def linked_list_del_loop.simps
        Let_def process_add_child_def process_lock_posix sample_table_of_def sample_no_children_def dec_ref_posix
        ezcfg_linked_list_append_def halloc_def)
qed

lemma process_fail_keeps:
  "process_new_fail ev lo nd nlo addr st h s = Some (r, st', h', s') \<Longrightarrow>
     r = In_parent EZCFG_RET_FAIL \<and> ps_locked st' = ps_locked st \<and> no_child st' = no_child st"
  by (auto simp: process_new_fail_def process_free_def Let_def split: Option.bind_splits prod.splits option.splits if_splits)

lemma add_child_refused:
  assumes "process_add_child ev p st s = Some (r, st', s')" "r \<noteq> EZCFG_RET_OK" "free_means_childless st"
  shows "\<not> ps_locked st \<and> no_child st'"
proof -
  have free: "\<not> ps_locked st" using assms(1) by (auto simp: process_add_child_def)
  then have none: "no_child st" using assms(3) by (simp add: free_means_childless_def)
  have "no_child st'"
    using assms(1,2) none
    by (auto simp: process_add_child_def Let_def no_child_def dest!: append_refused list_new_empty lock_children
        split: Option.bind_splits if_splits option.splits prod.splits)
  with free show ?thesis ..
qed

text \<open>The ways a start can end: before the fork or at it, in the child, and in the parent.\<close>

inductive new_ends :: "process_env \<Rightarrow> process_table \<Rightarrow> process_result \<Rightarrow> process_table \<Rightarrow> bool" where
  before: "process_new_fail ev lo nd nlo addr st h s = Some (res, st', h', s') \<Longrightarrow> new_ends ev st res st'"
| at_fork: "process_new_fail ev lo nd nlo addr (st\<lparr>ps_live := x\<rparr>) h s = Some (res, st', h', s') \<Longrightarrow> new_ends ev st res st'"
| in_child: "new_ends ev st (In_child f t i) (st\<lparr>ps_live := x, ps_locked := False, ps_children := None, ps_released := False\<rparr>)"
| not_added: "process_add_child ev p (st\<lparr>ps_live := x\<rparr>) s0 = Some (r, st1, s1) \<Longrightarrow> r \<noteq> EZCFG_RET_OK \<Longrightarrow>
    process_new_fail ev lo nd nlo addr st1 h s = Some (res, st', h', s') \<Longrightarrow> new_ends ev st res st'"
| added: "process_add_child ev p (st\<lparr>ps_live := x\<rparr>) s0 = Some (EZCFG_RET_OK, st', s1) \<Longrightarrow>
    new_ends ev st (In_parent EZCFG_RET_OK) st'"

lemma process_new_ends:
  "ezcfg_process_new ev e ns st h s = Some (res, st', h', s') \<Longrightarrow> new_ends ev st res st'"
  by (auto simp: ezcfg_process_new_def Let_def intro: new_ends.intros
      split: Option.bind_splits if_splits option.splits prod.splits)

lemma process_new_reaches:
  assumes "free_means_childless st" "ezcfg_process_new ev e ns st h s = Some (res, st', h', s')"
  shows "free_means_childless st' \<and> (res = In_parent EZCFG_RET_OK \<longrightarrow> ps_locked st') \<and>
    (\<forall>r. res = In_parent r \<longrightarrow> ps_locked st \<longrightarrow> ps_locked st')"
  using process_new_ends [OF assms(2)] assms(1)
proof cases
  case (not_added p x s0 r st1 s1 lo nd nlo addr h s h' s')
  have "free_means_childless (st\<lparr>ps_live := x\<rparr>)" using assms(1) by (simp add: free_means_childless_def)
  from add_child_refused [OF not_added(1,2) this] process_fail_keeps [OF not_added(3)]
  show ?thesis by (simp add: free_means_childless_def)
next
  case (added p x s0 s1)
  then show ?thesis using add_child_locked by (auto simp: free_means_childless_def)
qed (auto simp: free_means_childless_def no_child_def dest!: process_fail_keeps)

lemma process_del_reaches:
  assumes "free_means_childless st" "ezcfg_process_del n mx p st s = Returns (r, st', s')"
  shows "\<not> ps_locked st \<and> free_means_childless st'"
proof -
  obtain m lk ulk rlk rulk where n: "n = Suc m" "mx = (lk, ulk, rlk, rulk)"
    using assms(2) by (cases n; cases mx) auto
  obtain ret st1 where l: "lock_process_mutex lk st = Some (ret, st1)"
    using assms(2) n by (auto split: option.splits)
  then have free: "\<not> ps_locked st" by (auto simp: lock_process_mutex_def)
  then have "no_child st1" using assms(1) lock_children [OF l] by (simp add: free_means_childless_def no_child_def)
  then have "no_child st'"
    using assms(2) l
    by (auto simp: n process_del_end_def process_free_def no_child_def child_list_del_loop.simps [of _ None]
        split: option.splits if_splits)
  with free show ?thesis by (simp add: free_means_childless_def)
qed

lemma process_reach_inv: "process_reach k st \<Longrightarrow> free_means_childless st \<and> (0 < k \<longrightarrow> ps_locked st)"
proof (induction rule: process_reach.induct)
  case (fresh st)
  then show ?case by (simp add: free_means_childless_def no_child_def)
next
  case (deleted k st n mx p s r st' s')
  then show ?case using process_del_reaches by blast
qed (use process_new_reaches in blast)+

lemma process_del_free:
  assumes "\<not> ps_locked st" "no_child st" "posix_mutex_call lk" "posix_mutex_call ulk"
    and "pr_addr p \<in> set (ps_live st)" "pr_state p = PROCESS_STATE_STOPPED"
  shows "ezcfg_process_del (Suc n) (lk, ulk, rlk, rulk) p st s =
    (if ps_children st = None then Returns (EZCFG_RET_OK, st\<lparr>ps_live := removeAll (pr_addr p) (ps_live st)\<rparr>, s)
     else if ps_released st then Faults
     else Returns (EZCFG_RET_OK, st\<lparr>ps_live := removeAll (pr_addr p) (ps_live st), ps_released := True\<rparr>,
       snd (ezcfg_dec_ref rlk rulk s)))"
proof -
  have "st\<lparr>ps_locked := False\<rparr> = st" using assms(1) by simp
  then have unlocked: "st\<lparr>ps_locked := False, ps_live := x\<rparr> = st\<lparr>ps_live := x\<rparr>"
    "st\<lparr>ps_locked := False, ps_released := b, ps_live := x\<rparr> = st\<lparr>ps_released := b, ps_live := x\<rparr>" for x b
    by (metis process_table.surjective process_table.update_convs(1,3,4))+
  show ?thesis using assms
    by (auto simp: process_lock_posix process_unlock_posix process_del_end_def process_free_def no_child_def unlocked
        child_list_del_loop.simps [of _ None] split: option.splits)
qed

section \<open>Properties\<close>

text \<open>C32: deleting a process, in every state of the static variables that any number of starts and
  deletions reaches, for a live object that is stopped and mutex calls that do not fail.  Once this
  process has started a child (and is not itself a child that began anew) the process mutex is held;
  while it is held the deletion never returns.  While the mutex is free the deletion comes to an end
  without calling itself, whatever bound is put on the nesting: without a list of children it
  returns OK and has released the object; with a list, which then is empty, it releases that too; and when
  the list has been released before, it faults, because the pointer to it was kept.\<close>

theorem process_del_exactly:
  assumes "process_reach k st" "posix_mutex_call lk" "posix_mutex_call ulk"
    and "pr_addr p \<in> set (ps_live st)" "pr_state p = PROCESS_STATE_STOPPED"
  shows "(0 < k \<longrightarrow> ps_locked st) \<and>
    ezcfg_process_del (Suc n) (lk, ulk, rlk, rulk) p st s =
      (if ps_locked st then Never
       else if ps_children st = None then
         Returns (EZCFG_RET_OK, st\<lparr>ps_live := removeAll (pr_addr p) (ps_live st)\<rparr>, s)
       else if ps_released st then Faults
       else Returns (EZCFG_RET_OK, st\<lparr>ps_live := removeAll (pr_addr p) (ps_live st), ps_released := True\<rparr>,
         snd (ezcfg_dec_ref rlk rulk s)))"
  using process_reach_inv [OF assms(1)] process_del_free [OF _ _ assms(2-5)] process_del_blocked
  by (auto simp: free_means_childless_def simp del: ezcfg_process_del.simps)

theorem process_del_exactly_witness:
  "(\<exists>st' h' s'. ezcfg_process_new sample_process_env sample_bare_context None (sample_table_of None sample_no_children)
      sample_no_pairs \<lparr>ezcfg_ref_counter = 1, this_ezcfg = Some 0\<rparr> = Some (In_parent EZCFG_RET_OK, st', h', s') \<and>
    ezcfg_process_del 2 (\<lambda>_. (0, 0), \<lambda>_. (0, 0), \<lambda>_. (0, 0), \<lambda>_. (0, 0)) sample_process st' s' = Never) \<and>
   ezcfg_process_del 1 (\<lambda>_. (0, 0), \<lambda>_. (0, 0), \<lambda>_. (0, 0), \<lambda>_. (0, 0)) sample_process
      (sample_table_of None sample_no_children) \<lparr>ezcfg_ref_counter = 1, this_ezcfg = Some 0\<rparr> =
    Returns (EZCFG_RET_OK, (sample_table_of None sample_no_children)\<lparr>ps_live := []\<rparr>, \<lparr>ezcfg_ref_counter = 1, this_ezcfg = Some 0\<rparr>)"
proof -
  let ?t = "sample_table_of None sample_no_children" and ?s = "\<lparr>ezcfg_ref_counter = 1, this_ezcfg = Some 0\<rparr>"
  have r0: "process_reach 0 ?t" by (rule process_reach.fresh) (simp_all add: sample_table_of_def)
  have p: "pr_addr sample_process = 0" "pr_state sample_process = PROCESS_STATE_STOPPED" "ps_live ?t = [0]"
    "\<not> ps_locked ?t" "ps_children ?t = None" by (simp_all add: sample_process_def sample_table_of_def)
  obtain st' h' s' where new: "ezcfg_process_new sample_process_env sample_bare_context None ?t sample_no_pairs ?s =
      Some (In_parent EZCFG_RET_OK, st', h', s')" and live: "0 \<in> set (ps_live st')"
    using sample_process_starts by blast
  from process_del_exactly [OF process_reach.started [OF r0 new] posix_zero posix_zero, of sample_process 1]
  have "ezcfg_process_del 2 (\<lambda>_. (0, 0), \<lambda>_. (0, 0), \<lambda>_. (0, 0), \<lambda>_. (0, 0)) sample_process st' s' = Never"
    using p live by (simp add: numeral_2_eq_2 del: ezcfg_process_del.simps)
  moreover from process_del_exactly [OF r0 posix_zero posix_zero, of sample_process 0] p
  have "ezcfg_process_del 1 (\<lambda>_. (0, 0), \<lambda>_. (0, 0), \<lambda>_. (0, 0), \<lambda>_. (0, 0)) sample_process ?t ?s =
      Returns (EZCFG_RET_OK, ?t\<lparr>ps_live := []\<rparr>, ?s)" by (simp del: ezcfg_process_del.simps)
  ultimately show ?thesis using new by blast
qed

text \<open>A call that starts a child and returns OK in the parent leaves the process mutex locked, so
  that from then on neither deleting any process nor adding another child ever returns.\<close>

theorem process_new_keeps_mutex:
  assumes "ezcfg_process_new ev e ns st h s = Some (In_parent EZCFG_RET_OK, st', h', s')"
  shows "ps_locked st' \<and> ezcfg_process_del (Suc n) mx p st' s'' = Never \<and> lock_process_mutex lk st' = None"
proof -
  have "ps_locked st'"
    using process_new_ends [OF assms] by cases (auto dest!: process_fail_keeps add_child_locked)
  then show ?thesis using process_del_blocked by (simp del: ezcfg_process_del.simps)
qed

theorem process_new_keeps_mutex_witness:
  "\<exists>st' h' s'. ezcfg_process_new sample_process_env sample_bare_context None (sample_table_of None sample_no_children)
      sample_no_pairs \<lparr>ezcfg_ref_counter = 1, this_ezcfg = Some 0\<rparr> = Some (In_parent EZCFG_RET_OK, st', h', s') \<and>
    ezcfg_process_del 3 (\<lambda>_. (0, 0), \<lambda>_. (0, 0), \<lambda>_. (0, 0), \<lambda>_. (0, 0)) sample_process st' s' = Never"
  using sample_process_starts process_new_keeps_mutex [where n = 2] by (metis numeral_3_eq_3 numeral_2_eq_2)

text \<open>With a meta store that has an entry no child is ever started: the call fails in the parent with
  the mutex and the children untouched, or does not return; and when it fails it has given back one
  reference to the context that it never took.\<close>

theorem process_new_drops_reference:
  assumes "ez_meta e = Some m" "meta_rep m ((n, j, v) # ms)" "posix_mutex_call (pv_query_lock ev)"
    and "\<forall>k. posix_mutex_call (fst (pv_query_ref ev k)) \<and> posix_mutex_call (snd (pv_query_ref ev k))"
    and "\<forall>k. posix_mutex_call (fst (pv_ref ev k)) \<and> posix_mutex_call (snd (pv_ref ev k))"
    and "ezcfg_ref_counter s > 1"
  shows "case ezcfg_process_new ev e ns st h s of
      None \<Rightarrow> True
    | Some (r, st', h', s') \<Rightarrow> r = In_parent EZCFG_RET_FAIL \<and> st' = st \<and>
        s' = s\<lparr>ezcfg_ref_counter := ezcfg_ref_counter s - 1\<rparr>"
proof -
  have fail: "process_new_fail ev None None None None st h1 s =
      Some (In_parent EZCFG_RET_FAIL, st, h1, s\<lparr>ezcfg_ref_counter := ezcfg_ref_counter s - 1\<rparr>)" for h1
    using assms(5,6) by (simp add: process_new_fail_def dec_ref_posix)
  have "ezcfg_ref_counter s > 0" using assms(6) by simp
  note stuck = by_ns_stuck [OF assms(1-4) this]
  show ?thesis
    by (auto simp: ezcfg_process_new_def fail dest!: stuck
        split: Option.bind_splits if_splits option.splits prod.splits)
qed

definition sample_process_meta :: meta_nvram where
  "sample_process_meta = \<lparr>mh_magic = [], mh_version = [], mh_coding = [], mh_backend = [], mh_data_size = 14,
     mh_data_used = 13, mh_data_crc = 0, mh_header_crc = 0, mn_data = ''process.x=1'' @ [NUL, NUL, NUL]\<rparr>"

lemma sample_process_meta_rep: "meta_rep sample_process_meta [(''process.x'', 0, ''1'')]"
  by (simp add: meta_rep_def sample_process_meta_def meta_name_def meta_value_def names_sorted_def all_apart_def apart_def NUL_def)

lemma sample_query_fails:
  "ezcfg_common_get_nvram_entries_by_ns (\<lambda>_. (\<lambda>_. (0, 0), \<lambda>_. (0, 0))) (\<lambda>_. (0, 0)) True sample_ns_env sample_ns_env
     (sample_bare_context\<lparr>ez_meta := Some sample_process_meta\<rparr>) ''process.'' sample_no_pairs
     \<lparr>ezcfg_ref_counter = 2, this_ezcfg = Some 0\<rparr> \<noteq> None"
  by (simp add: ezcfg_common_get_nvram_entries_by_ns_def ezcfg_linked_list_new_def inc_ref_posix posix_zero
      sample_bare_context_def sample_process_meta_def local_meta_nvram_get_entries_by_ns_def meta_ns_loop.simps at_end_def
      cstr_at_def NUL_def meta_ns_skips_def strncmp_def sample_ns_env_def ezcfg_nv_pair_new_def Let_def
      ezcfg_linked_list_append_def linked_list_init_def halloc_def sample_no_pairs_def ezcfg_linked_list_del_def
      linked_list_del_loop.simps linked_list_node_del_def hfree_def)

theorem process_new_drops_reference_witness:
  "\<exists>h'. ezcfg_process_new sample_process_env (sample_bare_context\<lparr>ez_meta := Some sample_process_meta\<rparr>) None
      (sample_table_of None sample_no_children) sample_no_pairs \<lparr>ezcfg_ref_counter = 2, this_ezcfg = Some 0\<rparr> =
    Some (In_parent EZCFG_RET_FAIL, sample_table_of None sample_no_children, h', \<lparr>ezcfg_ref_counter = 1, this_ezcfg = Some 0\<rparr>)"
proof -
  let ?e = "sample_bare_context\<lparr>ez_meta := Some sample_process_meta\<rparr>"
  let ?s = "\<lparr>ezcfg_ref_counter = 2, this_ezcfg = Some 0\<rparr>"
  have env: "pv_query_lock sample_process_env = (\<lambda>_. (0, 0))" "pv_query_ref sample_process_env = (\<lambda>_. (\<lambda>_. (0, 0), \<lambda>_. (0, 0)))"
    "pv_ref sample_process_env = (\<lambda>_. (\<lambda>_. (0, 0), \<lambda>_. (0, 0)))" "pv_query_mem sample_process_env"
    "pv_query_meta sample_process_env = sample_ns_env" "pv_query_table sample_process_env = sample_ns_env"
    by (simp_all add: sample_process_env_def)
  have name: "ezcfg_util_snprintf_ns_name EZCFG_NAME_MAX None (Some PROCESS_PREFIX) = (EZCFG_RET_OK, Some ''process.'')"
    by (simp add: ezcfg_util_snprintf_ns_name_def EZCFG_NAME_MAX_def PROCESS_PREFIX_def)
  obtain ret lo h1 s1 where q: "ezcfg_common_get_nvram_entries_by_ns (\<lambda>_. (\<lambda>_. (0, 0), \<lambda>_. (0, 0))) (\<lambda>_. (0, 0)) True
      sample_ns_env sample_ns_env ?e ''process.'' sample_no_pairs ?s = Some (ret, lo, h1, s1)"
    using sample_query_fails by (metis option.exhaust prod_cases3)
  have lo: "lo = None" using by_ns_stuck [OF _ sample_process_meta_rep posix_zero _ _ q] posix_zero by simp
  have "ezcfg_process_new sample_process_env ?e None (sample_table_of None sample_no_children) sample_no_pairs ?s \<noteq> None"
    using q by (simp add: ezcfg_process_new_def name env lo process_new_fail_def)
  moreover have "ez_meta ?e = Some sample_process_meta" by simp
  ultimately show ?thesis
    using process_new_drops_reference [OF _ sample_process_meta_rep, where e = ?e and ev = sample_process_env and s = ?s and ns = None
        and st = "sample_table_of None sample_no_children" and h = sample_no_pairs] posix_zero
    by (auto simp: env split: option.splits)
qed

end
