(* ===== verification/Util_Tables.thy ===== *)
theory Util_Tables
  imports Ez_Common Http
begin

text \<open>
  Tables and settings that the rest of the program asks for names and numbers: sockets, UPnP,
  services, wide-area connections, languages, time zones, service actions, from \<^verbatim>\<open>src/util\<close>.  Rows
  that depend on the configuration of the build are guarded by an argument for its switch.  A table
  is searched from its first row on; reading a row outside a table is a fault.
\<close>

definition row_at :: "'a list \<Rightarrow> int \<Rightarrow> 'a option" where
  "row_at rs i = (if 0 \<le> i \<and> i < int (length rs) then Some (rs ! nat i) else None)"

text \<open>Numbers and names form a code when no number and no name occurs twice.\<close>

definition is_code :: "(int \<times> string) list \<Rightarrow> bool" where
  "is_code rs \<longleftrightarrow> distinct (map fst rs) \<and> distinct (map snd rs)"

definition index_of_name :: "(int \<times> string) list \<Rightarrow> int \<Rightarrow> string \<Rightarrow> int" where
  "index_of_name rs d name = (case find (\<lambda>r. strcmp (snd r) name = 0) rs of Some r \<Rightarrow> fst r | None \<Rightarrow> d)"

definition has_index :: "(int \<times> string) list \<Rightarrow> int \<Rightarrow> bool" where
  "has_index rs i = list_ex (\<lambda>r. fst r = i) rs"

lemma find_distinct_snd: "distinct (map snd rs) \<Longrightarrow> (i, n) \<in> set rs \<Longrightarrow> find (\<lambda>r. snd r = n) rs = Some (i, n)"
  by (induction rs) force+

text \<open>In a code, a name is found exactly under the number of its row, and every other name gives the
  default, which a caller can tell apart when no row has it.\<close>

lemma index_of_name_exact:
  assumes "is_code rs" "d \<notin> fst ` set rs"
  shows "index_of_name rs d n = i \<longleftrightarrow> (if i = d then n \<notin> snd ` set rs else (i, n) \<in> set rs)"
proof (cases "n \<in> snd ` set rs")
  case True
  then obtain j where j: "(j, n) \<in> set rs" by auto
  with assms(1) have "index_of_name rs d n = j"
    by (simp add: index_of_name_def is_code_def find_distinct_snd)
  moreover have "(i, n) \<in> set rs \<Longrightarrow> i = j"
    using j assms(1) by (fastforce simp: is_code_def distinct_map inj_on_def)
  ultimately show ?thesis using j assms(2) True by (force simp: image_iff)
next
  case False
  then have "find (\<lambda>r. snd r = n) rs = None" by (force simp: find_None_iff)
  with False show ?thesis by (force simp: index_of_name_def)
qed

section \<open>Sockets\<close>

definition AF_LOCAL :: int where "AF_LOCAL = 1"

definition AF_INET :: int where "AF_INET = 2"

definition AF_INET6 :: int where "AF_INET6 = 10"

definition AF_NETLINK :: int where "AF_NETLINK = 16"

definition SOCK_STREAM :: int where "SOCK_STREAM = 1"

definition SOCK_DGRAM :: int where "SOCK_DGRAM = 2"

definition SOCK_RAW :: int where "SOCK_RAW = 3"

lemmas socket_constants = AF_LOCAL_def AF_INET_def AF_INET6_def AF_NETLINK_def SOCK_STREAM_def SOCK_DGRAM_def SOCK_RAW_def

definition EZCFG_PROTO_UNKNOWN :: int where "EZCFG_PROTO_UNKNOWN = 0"

definition EZCFG_PROTO_IGRS_ISDP :: int where "EZCFG_PROTO_IGRS_ISDP = 6"

definition EZCFG_PROTO_UEVENT :: int where "EZCFG_PROTO_UEVENT = 7"

definition EZCFG_PROTO_UPNP_SSDP :: int where "EZCFG_PROTO_UPNP_SSDP = 8"

lemmas proto_constants = EZCFG_PROTO_UNKNOWN_def EZCFG_PROTO_IGRS_ISDP_def EZCFG_PROTO_UEVENT_def EZCFG_PROTO_UPNP_SSDP_def

text \<open>The rows behind the first one, which has no name and is skipped by every search.\<close>

definition ezcfg_support_domains :: "bool \<Rightarrow> (int \<times> string) list" where
  "ezcfg_support_domains ipv6 =
     [(AF_LOCAL, ''local''), (AF_INET, ''inet''), (AF_NETLINK, ''netlink'')] @ (if ipv6 then [(AF_INET6, ''inet6'')] else [])"

definition ezcfg_support_types :: "(int \<times> string) list" where
  "ezcfg_support_types = [(SOCK_STREAM, ''stream''), (SOCK_DGRAM, ''dgram''), (SOCK_RAW, ''raw'')]"

definition ezcfg_support_protocols :: "bool \<Rightarrow> (int \<times> string) list" where
  "ezcfg_support_protocols upnpd =
     [(1, ''ctrl''), (2, ''http''), (3, ''https''), (4, ''soap-http''), (5, ''igrs''),
      (EZCFG_PROTO_IGRS_ISDP, ''igrs-isdp''), (EZCFG_PROTO_UEVENT, ''uevent'')] @
     (if upnpd then [(EZCFG_PROTO_UPNP_SSDP, ''upnp-ssdp''), (9, ''upnp-http''), (10, ''upnp-gena'')] else []) @
     [(11, ''json-http''), (12, ''nv-json-http'')]"

definition ezcfg_util_socket_domain_get_index :: "bool \<Rightarrow> string \<Rightarrow> int" where
  "ezcfg_util_socket_domain_get_index ipv6 name = index_of_name (ezcfg_support_domains ipv6) (-1) name"

definition ezcfg_util_socket_is_supported_domain :: "bool \<Rightarrow> int \<Rightarrow> bool" where
  "ezcfg_util_socket_is_supported_domain ipv6 domain = has_index (ezcfg_support_domains ipv6) domain"

definition ezcfg_util_socket_type_get_index :: "string \<Rightarrow> int" where
  "ezcfg_util_socket_type_get_index name = index_of_name ezcfg_support_types (-1) name"

definition ezcfg_util_socket_is_supported_type :: "int \<Rightarrow> bool" where
  "ezcfg_util_socket_is_supported_type t = has_index ezcfg_support_types t"

definition ezcfg_util_socket_protocol_get_index :: "bool \<Rightarrow> string \<Rightarrow> int" where
  "ezcfg_util_socket_protocol_get_index upnpd name = index_of_name (ezcfg_support_protocols upnpd) EZCFG_PROTO_UNKNOWN name"

definition ezcfg_util_socket_is_supported_protocol :: "bool \<Rightarrow> int \<Rightarrow> bool" where
  "ezcfg_util_socket_is_supported_protocol upnpd proto = has_index (ezcfg_support_protocols upnpd) proto"

definition ezcfg_util_socket_is_multicast_address :: "bool \<Rightarrow> bool \<Rightarrow> bool \<Rightarrow> int \<Rightarrow> string \<Rightarrow> bool" where
  "ezcfg_util_socket_is_multicast_address igrsd upnpd ipv6 proto addr =
     (if igrsd \<and> proto = EZCFG_PROTO_IGRS_ISDP \<and>
         (strcmp addr ''239.255.255.250'' = 0 \<or>
          ipv6 \<and> (strcasecmp addr ''ff02::c'' = 0 \<or> strcasecmp addr ''ff05::c'' = 0 \<or> strcasecmp addr ''ff0e::c'' = 0))
      then True
      else if upnpd \<and> proto = EZCFG_PROTO_UPNP_SSDP \<and>
         (strcmp addr ''239.255.255.250'' = 0 \<or>
          ipv6 \<and> (strcasecmp addr ''ff02::c'' = 0 \<or> strcasecmp addr ''ff05::c'' = 0 \<or> strcasecmp addr ''ff0e::c'' = 0))
      then True
      else False)"

section \<open>UPnP\<close>

definition ezcfg_util_upnp_role :: "string option \<Rightarrow> int" where
  "ezcfg_util_upnp_role name =
     (case name of
        None \<Rightarrow> 0
      | Some n \<Rightarrow> if strcmp n ''device'' = 0 then 1 else if strcmp n ''control-point'' = 0 then 2 else 0)"

definition ezcfg_support_upnp_device_types :: "(int \<times> string \<times> string) list" where
  "ezcfg_support_upnp_device_types = [(1, ''igd1'', ''/'' @ ''igd1'' @ ''/InternetGatewayDevice1.xml'')]"

definition ezcfg_util_upnp_device_type :: "string option \<Rightarrow> int" where
  "ezcfg_util_upnp_device_type name =
     (case name of
        None \<Rightarrow> 0
      | Some n \<Rightarrow>
          (case find (\<lambda>r. strcmp (fst (snd r)) n = 0) ezcfg_support_upnp_device_types of
             Some r \<Rightarrow> fst r | None \<Rightarrow> 0))"

definition ezcfg_util_upnp_get_device_type_description_path :: "int \<Rightarrow> string option" where
  "ezcfg_util_upnp_get_device_type_description_path t =
     map_option (\<lambda>r. snd (snd r)) (find (\<lambda>r. fst r = t) ezcfg_support_upnp_device_types)"

text \<open>The path of the task file, a buffer of \<^term>\<open>EZCFG_PATH_MAX\<close> bytes.\<close>

definition EZCFG_E_ARGUMENT :: int where "EZCFG_E_ARGUMENT = 100"

definition EZCFG_E_SPACE :: int where "EZCFG_E_SPACE = 106"

definition ezcfg_util_upnp_monitor_set_task_file :: "string option \<Rightarrow> string \<Rightarrow> int \<times> string" where
  "ezcfg_util_upnp_monitor_set_task_file path task_file =
     (case path of
        None \<Rightarrow> (- EZCFG_E_ARGUMENT, task_file)
      | Some p \<Rightarrow>
          if length p \<ge> EZCFG_PATH_MAX then (- EZCFG_E_ARGUMENT, task_file) else (int (length p), p))"

text \<open>The result and the text written to the buffer of the caller, whose size is \<open>len\<close>.\<close>

definition ezcfg_util_upnp_monitor_get_task_file :: "bool \<Rightarrow> nat \<Rightarrow> string \<Rightarrow> int \<times> string option" where
  "ezcfg_util_upnp_monitor_get_task_file path len task_file =
     (if \<not> path then (- EZCFG_E_ARGUMENT, None)
      else if len < length task_file + 1 then (- EZCFG_E_SPACE, None)
      else (int (length task_file), Some task_file))"

section \<open>Services, connections, languages and time zones\<close>

definition ezcfg_util_service_binding :: "string \<Rightarrow> int" where
  "ezcfg_util_service_binding interface =
     (if strcmp interface ''lan'' = 0 then 1 else if strcmp interface ''wan'' = 0 then 2 else 0)"

definition ezcfg_support_file_extensions :: "(int \<times> string) list" where
  "ezcfg_support_file_extensions = [(1, ''.shtm''), (2, ''.js'')]"

definition ezcfg_util_file_get_type_extension_index :: "string \<Rightarrow> int" where
  "ezcfg_util_file_get_type_extension_index path =
     (case find (\<lambda>r. strstr path (snd r) \<noteq> None) ezcfg_support_file_extensions of Some r \<Rightarrow> fst r | None \<Rightarrow> 0)"

definition ezcfg_wan_types :: "bool \<Rightarrow> bool \<Rightarrow> bool \<Rightarrow> (string \<times> string) list" where
  "ezcfg_wan_types pppoe pptp l2tp =
     [(''static'', ''Static IP''), (''dhcp'', ''Automatic Configuration - DHCP'')] @
     (if pppoe then [(''pppoe'', ''PPPoE'')] else []) @ (if pptp then [(''pptp'', ''PPTP'')] else []) @
     (if l2tp then [(''l2tp'', ''L2TP'')] else []) @ [(''disabled'', ''Disabled'')]"

definition ezcfg_util_wan_get_type_length :: "(string \<times> string) list \<Rightarrow> nat" where
  "ezcfg_util_wan_get_type_length rows = length rows"

definition ezcfg_util_wan_get_type_name_by_index :: "(string \<times> string) list \<Rightarrow> int \<Rightarrow> string option" where
  "ezcfg_util_wan_get_type_name_by_index rows i = map_option fst (row_at rows i)"

definition ezcfg_util_wan_get_type_desc_by_index :: "(string \<times> string) list \<Rightarrow> int \<Rightarrow> string option" where
  "ezcfg_util_wan_get_type_desc_by_index rows i = map_option snd (row_at rows i)"

definition ezcfg_util_wan_get_type_desc_by_name :: "(string \<times> string) list \<Rightarrow> string \<Rightarrow> string option" where
  "ezcfg_util_wan_get_type_desc_by_name rows name = map_option snd (find (\<lambda>r. strcmp (fst r) name = 0) rows)"

definition ezcfg_support_langs :: "(string \<times> string) list" where
  "ezcfg_support_langs = [(''en_HK'', ''English (Hong Kong)''), (''zh_CN'', ''Chinese (China)'')]"

definition ezcfg_util_lang_get_length :: int where
  "ezcfg_util_lang_get_length = int (length ezcfg_support_langs)"

definition ezcfg_util_lang_get_name_by_index :: "int \<Rightarrow> string option" where
  "ezcfg_util_lang_get_name_by_index i = map_option fst (row_at ezcfg_support_langs i)"

definition ezcfg_util_lang_get_desc_by_index :: "int \<Rightarrow> string option" where
  "ezcfg_util_lang_get_desc_by_index i = map_option snd (row_at ezcfg_support_langs i)"

definition ezcfg_util_lang_get_desc_by_name :: "string \<Rightarrow> string option" where
  "ezcfg_util_lang_get_desc_by_name name = map_option snd (find (\<lambda>r. strcmp (fst r) name = 0) ezcfg_support_langs)"

text \<open>An area, its description, its places; the row without a name behind the places stands for their end.\<close>

definition ezcfg_support_areas :: "(string \<times> string \<times> (string \<times> string) list) list" where
  "ezcfg_support_areas =
     [(''Africa'', ''Africa'', [(''Algeria'', ''Algeria'')]),
      (''America'', ''America'', [(''Anguilla'', ''Anguilla'')]),
      (''Antarctica'', ''Antarctica'', [(''McMurdo'', ''McMurdo Station, Ross Island'')]),
      (''Arctic'', ''Arctic Ocean'', [(''Longyearbyen'', ''Svalbard & Jan Mayen'')]),
      (''Asia'', ''Asia'',
        [(''Shanghai'', ''east China - Beijing, Guangdong, Shanghai, etc.''), (''Hong_Kong'', ''Hong Kong'')]),
      (''Atlantic'', ''Atlantic Ocean'', [(''Bermuda'', ''Bermuda'')]),
      (''Australia'', ''Australia'', [(''Lord_Howe'', ''Lord Howe Island'')]),
      (''Europe'', ''Europe'', [(''Mariehamn'', ''Aaland Islands'')]),
      (''Indian'', ''Indian Ocean'', [(''Chagos'', ''British Indian Ocean Territory'')]),
      (''Pacific'', ''Pacific Ocean'', [(''Chatham'', ''Chatham Islands'')]),
      (''none'', ''Posix TZ format'', [(''GST-10'', ''GST-10'')])]"

definition ezcfg_util_tzdata_get_area_length :: int where
  "ezcfg_util_tzdata_get_area_length = int (length ezcfg_support_areas)"

definition ezcfg_util_tzdata_get_area_name_by_index :: "int \<Rightarrow> string option" where
  "ezcfg_util_tzdata_get_area_name_by_index i = map_option fst (row_at ezcfg_support_areas i)"

definition ezcfg_util_tzdata_get_area_desc_by_index :: "int \<Rightarrow> string option" where
  "ezcfg_util_tzdata_get_area_desc_by_index i = map_option (fst \<circ> snd) (row_at ezcfg_support_areas i)"

definition area_of_name :: "string \<Rightarrow> (string \<times> string \<times> (string \<times> string) list) option" where
  "area_of_name name = find (\<lambda>r. strcmp (fst r) name = 0) ezcfg_support_areas"

definition ezcfg_util_tzdata_get_area_desc_by_name :: "string \<Rightarrow> string option" where
  "ezcfg_util_tzdata_get_area_desc_by_name name = map_option (fst \<circ> snd) (area_of_name name)"

definition ezcfg_util_tzdata_get_location_length :: "string \<Rightarrow> int" where
  "ezcfg_util_tzdata_get_location_length area =
     (case area_of_name area of Some r \<Rightarrow> int (length (snd (snd r))) | None \<Rightarrow> -1)"

text \<open>The outer option is a fault, the inner one the null pointer of an unknown area or of the last row.\<close>

definition location_by_index :: "string \<Rightarrow> int \<Rightarrow> (string \<times> string) option option" where
  "location_by_index area i =
     (case area_of_name area of
        None \<Rightarrow> Some None
      | Some r \<Rightarrow> row_at (map Some (snd (snd r)) @ [None]) i)"

definition ezcfg_util_tzdata_get_location_name_by_index :: "string \<Rightarrow> int \<Rightarrow> string option option" where
  "ezcfg_util_tzdata_get_location_name_by_index area i = map_option (map_option fst) (location_by_index area i)"

definition ezcfg_util_tzdata_get_location_desc_by_index :: "string \<Rightarrow> int \<Rightarrow> string option option" where
  "ezcfg_util_tzdata_get_location_desc_by_index area i = map_option (map_option snd) (location_by_index area i)"

text \<open>An area without the place is left and the search goes on with the areas behind it.\<close>

fun location_desc_loop :: "(string \<times> string \<times> (string \<times> string) list) list \<Rightarrow> string \<Rightarrow> string \<Rightarrow> string option" where
  "location_desc_loop [] area name = None"
| "location_desc_loop (r # rs) area name =
     (if strcmp (fst r) area = 0 then
        (case find (\<lambda>l. strcmp (fst l) name = 0) (snd (snd r)) of
           Some l \<Rightarrow> Some (snd l)
         | None \<Rightarrow> location_desc_loop rs area name)
      else location_desc_loop rs area name)"

definition ezcfg_util_tzdata_get_location_desc_by_name :: "string \<Rightarrow> string \<Rightarrow> string option" where
  "ezcfg_util_tzdata_get_location_desc_by_name area name = location_desc_loop ezcfg_support_areas area name"

definition ezcfg_util_tzdata_check_area_location :: "string \<Rightarrow> string \<Rightarrow> bool" where
  "ezcfg_util_tzdata_check_area_location area location =
     (ezcfg_util_tzdata_get_location_desc_by_name area location \<noteq> None)"

definition ezcfg_util_text_get_mtu_enable :: "int \<Rightarrow> string" where
  "ezcfg_util_text_get_mtu_enable i = (if i = 0 then ''Auto'' else ''Manual'')"

definition ezcfg_util_text_get_keep_enable :: "int \<Rightarrow> string" where
  "ezcfg_util_text_get_keep_enable i = (if i = 0 then ''Dial on Demand'' else ''Keep Alive'')"

definition ezcfg_util_text_get_service_switch :: "bool \<Rightarrow> string" where
  "ezcfg_util_text_get_service_switch v = (if v then ''Enabled'' else ''Disabled'')"

section \<open>Service actions\<close>

text \<open>A service, the action to take and how long to wait.\<close>

type_synonym ezcfg_rc_triple = "string \<times> string option \<times> int"

fun rc_list_loop :: "ezcfg_rc_triple list \<Rightarrow> string \<Rightarrow> string option \<Rightarrow> int \<Rightarrow> ezcfg_rc_triple list" where
  "rc_list_loop [] func act s = []"
| "rc_list_loop (r # rs) func act s =
     (if strcmp (fst r) func = 0 then (fst r, act, s) # rs else r # rc_list_loop rs func act s)"

definition ezcfg_util_rc_list ::
    "ezcfg_rc_triple list option \<Rightarrow> string option \<Rightarrow> string option \<Rightarrow> int \<Rightarrow> bool \<times> ezcfg_rc_triple list option" where
  "ezcfg_util_rc_list list func act s =
     (case (list, func) of
        (Some rs, Some f) \<Rightarrow> (True, Some (rc_list_loop rs f act s))
      | _ \<Rightarrow> (False, list))"

text \<open>The words handed to the program that acts; \<^verbatim>\<open>snprintf\<close> cuts the number at the size of its buffer.\<close>

definition ezcfg_util_rc :: "string option \<Rightarrow> string option \<Rightarrow> int \<Rightarrow> bool \<times> string list" where
  "ezcfg_util_rc func act s =
     (case (func, act) of
        (Some f, Some a) \<Rightarrow>
          (True, if s < 1 then [''/sbin/rc'', f, a] else [''/sbin/rc'', take 7 (decimal (nat s)), f, a])
      | _ \<Rightarrow> (False, []))"

section \<open>The socket tables are codes\<close>

lemma socket_tables_are_codes [simp]:
  "is_code (ezcfg_support_domains ipv6)" "is_code ezcfg_support_types" "is_code (ezcfg_support_protocols upnpd)"
  by (auto simp: is_code_def ezcfg_support_domains_def ezcfg_support_types_def ezcfg_support_protocols_def
      socket_constants proto_constants)

lemma socket_tables_default [simp]:
  "-1 \<notin> fst ` set (ezcfg_support_domains ipv6)" "-1 \<notin> fst ` set ezcfg_support_types"
  "EZCFG_PROTO_UNKNOWN \<notin> fst ` set (ezcfg_support_protocols upnpd)"
  by (auto simp: ezcfg_support_domains_def ezcfg_support_types_def ezcfg_support_protocols_def
      socket_constants proto_constants)

text \<open>The names and the numbers of socket families, types and protocols translate into each other: a
  number is supported exactly when it is what some name stands for.\<close>

theorem socket_names_denote:
  "(ezcfg_util_socket_is_supported_domain ipv6 i \<longleftrightarrow> i \<noteq> -1 \<and> (\<exists>!n. ezcfg_util_socket_domain_get_index ipv6 n = i)) \<and>
   (ezcfg_util_socket_is_supported_type i \<longleftrightarrow> i \<noteq> -1 \<and> (\<exists>!n. ezcfg_util_socket_type_get_index n = i)) \<and>
   (ezcfg_util_socket_is_supported_protocol upnpd i \<longleftrightarrow>
      i \<noteq> EZCFG_PROTO_UNKNOWN \<and> (\<exists>!n. ezcfg_util_socket_protocol_get_index upnpd n = i))"
proof -
  have "has_index rs i \<longleftrightarrow> i \<noteq> d \<and> (\<exists>!n. index_of_name rs d n = i)" if "is_code rs" "d \<notin> fst ` set rs" for rs d
  proof (cases "i = d")
    case True
    then show ?thesis using that(2) by (force simp: has_index_def list_ex_iff)
  next
    case False
    have "(\<exists>!n. (i, n) \<in> set rs) \<longleftrightarrow> (\<exists>n. (i, n) \<in> set rs)"
      using that(1) by (auto simp: is_code_def dest: eq_key_imp_eq_value)
    then show ?thesis using False
      by (simp add: index_of_name_exact [OF that] has_index_def list_ex_iff) force
  qed
  from this [of "ezcfg_support_domains ipv6" "-1"] this [of ezcfg_support_types "-1"]
    this [of "ezcfg_support_protocols upnpd" EZCFG_PROTO_UNKNOWN]
  show ?thesis
    by (simp add: ezcfg_util_socket_is_supported_domain_def ezcfg_util_socket_domain_get_index_def
        ezcfg_util_socket_is_supported_type_def ezcfg_util_socket_type_get_index_def
        ezcfg_util_socket_is_supported_protocol_def ezcfg_util_socket_protocol_get_index_def)
qed

end
