(* ===== verification/Socket.thy ===== *)
theory Socket
  imports Ez_Context Util_Tables
begin

text \<open>
  Sockets of \<^verbatim>\<open>src/basic/socket/socket.c\<close>: the socket object and its fields, comparing sockets, the
  lists of sockets, deleting, and the reading and writing loops.  The system calls come from outside.
  Those that open, name and close sockets are recorded, and what one returns may depend on all
  calls before it; for reading and writing a list gives what the calls that follow return, and a
  call behind its end does not return.
\<close>

section \<open>The socket object\<close>

text \<open>An address: its length and the bytes of the union that holds it.\<close>

record usa =
  usa_len :: nat
  usa_u :: string

text \<open>The context pointer is left out, and so is the multicast request: the code that would set it is
  compiled out.\<close>

record ezcfg_socket =
  so_next :: ptr
  so_sock :: int
  so_proto :: int
  so_backlog :: int
  so_domain :: int
  so_type :: int
  so_lsa :: usa
  so_rsa :: usa
  so_need_unlink :: bool
  so_need_delete :: bool
  so_buffer :: "string option"
  so_buffer_len :: int

text \<open>The system calls on descriptors, names and options; a reading call that throws away what is still
  to come has no result of its own.\<close>

datatype sock_option =
    Rcvbuf_force int
  | Rcvbuf int
  | Ip_add_membership
  | Ip_multicast_loop
  | Ip_multicast_if
  | Ipv6_multicast_loop
  | Ipv6_multicast_if

datatype sys_call =
    Sys_socket int int int
  | Sys_bind int usa
  | Sys_listen int int
  | Sys_accept int
  | Sys_connect int usa
  | Sys_setsockopt int sock_option
  | Sys_getsockname int
  | Sys_shutdown int
  | Sys_set_nonblock int
  | Sys_set_cloexec int
  | Sys_read_pending int
  | Sys_close int
  | Sys_unlink string

text \<open>The sockets in memory, with the calls made so far and the number of copies of address texts that are
  allocated and not yet freed.\<close>

record socket_heap = "ezcfg_socket heap" +
  sk_trace :: "sys_call list"
  sk_copies :: nat

text \<open>What the kernel answers: \<open>ne_ret\<close> the result of the last call of a trace, \<open>ne_addr\<close> the address
  that an \<^verbatim>\<open>accept\<close> or a \<^verbatim>\<open>getsockname\<close> fills in; \<open>ne_inet_addr\<close> gives the four bytes of an address in
  dots, \<open>ne_getaddrinfo\<close> the addresses of a host and a service, or none when it fails.\<close>

record net_env =
  ne_ret :: "sys_call list \<Rightarrow> int"
  ne_addr :: "sys_call list \<Rightarrow> usa"
  ne_inet_addr :: "string \<Rightarrow> string"
  ne_getaddrinfo :: "string \<Rightarrow> string option \<Rightarrow> int \<Rightarrow> string list"

definition sys :: "net_env \<Rightarrow> sys_call \<Rightarrow> socket_heap \<Rightarrow> int \<times> socket_heap" where
  "sys ev c h = (let h' = h\<lparr>sk_trace := sk_trace h @ [c]\<rparr> in (ne_ret ev (sk_trace h'), h'))"

section \<open>Fields\<close>

definition ezcfg_socket_set_sock :: "ezcfg_socket \<Rightarrow> int \<Rightarrow> bool \<times> ezcfg_socket" where
  "ezcfg_socket_set_sock sp sock = (True, sp\<lparr>so_sock := sock\<rparr>)"

definition ezcfg_socket_get_sock :: "ezcfg_socket \<Rightarrow> int" where
  "ezcfg_socket_get_sock sp = so_sock sp"

definition ezcfg_socket_set_proto :: "ezcfg_socket \<Rightarrow> int \<Rightarrow> bool \<times> ezcfg_socket" where
  "ezcfg_socket_set_proto sp proto = (True, sp\<lparr>so_proto := proto\<rparr>)"

definition ezcfg_socket_get_proto :: "ezcfg_socket \<Rightarrow> int" where
  "ezcfg_socket_get_proto sp = so_proto sp"

definition ezcfg_socket_set_domain :: "ezcfg_socket \<Rightarrow> int \<Rightarrow> bool \<times> ezcfg_socket" where
  "ezcfg_socket_set_domain sp domain = (True, sp\<lparr>so_domain := domain\<rparr>)"

definition ezcfg_socket_get_domain :: "ezcfg_socket \<Rightarrow> int" where
  "ezcfg_socket_get_domain sp = so_domain sp"

definition ezcfg_socket_set_type :: "ezcfg_socket \<Rightarrow> int \<Rightarrow> bool \<times> ezcfg_socket" where
  "ezcfg_socket_set_type sp t = (True, sp\<lparr>so_type := t\<rparr>)"

definition ezcfg_socket_get_type :: "ezcfg_socket \<Rightarrow> int" where
  "ezcfg_socket_get_type sp = so_type sp"

text \<open>\<open>mem\<close> is the allocation of the copy; reading past the end of \<open>buf\<close> is a fault.\<close>

definition ezcfg_socket_set_buffer :: "bool \<Rightarrow> ezcfg_socket \<Rightarrow> string \<Rightarrow> nat \<Rightarrow> (bool \<times> ezcfg_socket) option" where
  "ezcfg_socket_set_buffer mem sp buf buf_len =
     (if \<not> mem then Some (False, sp)
      else if buf_len > length buf then None
      else Some (True, sp\<lparr>so_buffer := Some (take buf_len buf), so_buffer_len := int buf_len\<rparr>))"

definition ezcfg_socket_get_buffer :: "ezcfg_socket \<Rightarrow> string option" where
  "ezcfg_socket_get_buffer sp = so_buffer sp"

definition ezcfg_socket_get_buffer_len :: "ezcfg_socket \<Rightarrow> int" where
  "ezcfg_socket_get_buffer_len sp = so_buffer_len sp"

definition ezcfg_socket_get_next :: "ezcfg_socket \<Rightarrow> ptr" where
  "ezcfg_socket_get_next sp = so_next sp"

definition ezcfg_socket_get_local_socket_len :: "ezcfg_socket \<Rightarrow> nat" where
  "ezcfg_socket_get_local_socket_len sp = usa_len (so_lsa sp)"

definition ezcfg_socket_get_remote_socket_len :: "ezcfg_socket \<Rightarrow> nat" where
  "ezcfg_socket_get_remote_socket_len sp = usa_len (so_rsa sp)"

text \<open>The path of a local address stands behind the two bytes of the family, up to its NUL.\<close>

definition sun_path :: "usa \<Rightarrow> string" where
  "sun_path a = takeWhile (\<lambda>c. c \<noteq> NUL) (drop 2 (usa_u a))"

definition ezcfg_socket_get_local_socket_path :: "ezcfg_socket \<Rightarrow> nat \<Rightarrow> string option" where
  "ezcfg_socket_get_local_socket_path sp size' =
     (let path = sun_path (so_lsa sp) in if length path < size' then Some path else None)"

definition ezcfg_socket_get_remote_socket_path :: "ezcfg_socket \<Rightarrow> nat \<Rightarrow> string option" where
  "ezcfg_socket_get_remote_socket_path sp size' =
     (let path = sun_path (so_rsa sp) in if length path < size' then Some path else None)"

definition ezcfg_socket_set_need_unlink :: "ezcfg_socket \<Rightarrow> bool \<Rightarrow> ezcfg_socket" where
  "ezcfg_socket_set_need_unlink sp need_unlink = sp\<lparr>so_need_unlink := need_unlink\<rparr>"

definition ezcfg_socket_set_need_delete :: "ezcfg_socket \<Rightarrow> bool \<Rightarrow> ezcfg_socket" where
  "ezcfg_socket_set_need_delete sp need_delete = sp\<lparr>so_need_delete := need_delete\<rparr>"

definition ezcfg_socket_get_need_delete :: "ezcfg_socket \<Rightarrow> bool" where
  "ezcfg_socket_get_need_delete sp = so_need_delete sp"

definition ezcfg_socket_sync_lsa :: "ezcfg_socket \<Rightarrow> ezcfg_socket \<Rightarrow> bool \<times> ezcfg_socket" where
  "ezcfg_socket_sync_lsa dsp ssp =
     (if so_proto dsp \<noteq> so_proto ssp then (False, dsp) else (True, dsp\<lparr>so_lsa := so_lsa ssp\<rparr>))"

definition ezcfg_socket_sync_rsa :: "ezcfg_socket \<Rightarrow> ezcfg_socket \<Rightarrow> bool \<times> ezcfg_socket" where
  "ezcfg_socket_sync_rsa dsp ssp =
     (if so_proto dsp \<noteq> so_proto ssp then (False, dsp) else (True, dsp\<lparr>so_rsa := so_rsa ssp\<rparr>))"

text \<open>\<^verbatim>\<open>memcmp\<close> looks at as many bytes of the two addresses as their common length says.\<close>

definition ezcfg_socket_compare :: "ezcfg_socket \<Rightarrow> ezcfg_socket \<Rightarrow> bool" where
  "ezcfg_socket_compare sp1 sp2 \<longleftrightarrow>
     (let usa1 = so_lsa sp1; usa2 = so_lsa sp2 in
      so_proto sp1 = so_proto sp2 \<and> so_domain sp1 = so_domain sp2 \<and> so_type sp1 = so_type sp2 \<and>
      usa_len usa1 = usa_len usa2 \<and> take (usa_len usa1) (usa_u usa1) = take (usa_len usa1) (usa_u usa2))"

section \<open>Deleting\<close>

text \<open>The bytes the peer has still sent are read and thrown away; a peer that sends for ever keeps the
  loop going.\<close>

partial_function (option) read_pending_loop :: "net_env \<Rightarrow> int \<Rightarrow> socket_heap \<Rightarrow> socket_heap option" where
  "read_pending_loop ev sock h =
     (case sys ev (Sys_read_pending sock) h of
        (n, h') \<Rightarrow> if n > 0 then read_pending_loop ev sock h' else Some h')"

definition close_socket_gracefully :: "net_env \<Rightarrow> int \<Rightarrow> socket_heap \<Rightarrow> socket_heap option" where
  "close_socket_gracefully ev sock h = do {
     h' \<leftarrow> read_pending_loop ev sock (h\<lparr>sk_trace := sk_trace h @ [Sys_shutdown sock, Sys_set_nonblock sock]\<rparr>);
     Some (h'\<lparr>sk_trace := sk_trace h' @ [Sys_close sock]\<rparr>)
   }"

definition ezcfg_socket_close_sock ::
    "net_env \<Rightarrow> ezcfg_socket \<Rightarrow> socket_heap \<Rightarrow> (ezcfg_socket \<times> socket_heap) option" where
  "ezcfg_socket_close_sock ev sp h =
     (if so_sock sp \<ge> 0 then do {
        h' \<leftarrow> close_socket_gracefully ev (so_sock sp) h;
        Some (sp\<lparr>so_sock := -1\<rparr>, h')
      }
      else Some (sp, h))"

definition ezcfg_socket_del ::
    "mutex_call \<times> mutex_call \<Rightarrow> ptr \<Rightarrow> socket_heap \<Rightarrow> ezcfg_refs \<Rightarrow> (int \<times> socket_heap \<times> ezcfg_refs) option" where
  "ezcfg_socket_del m p h s = do {
     sp \<leftarrow> hload h p;
     a \<leftarrow> p;
     let h1 = h\<lparr>sk_trace := sk_trace h @
       (if so_sock sp \<ge> 0 then
          Sys_close (so_sock sp) #
          (if so_domain sp = AF_LOCAL \<and> so_need_unlink sp then [Sys_unlink (sun_path (so_lsa sp))] else [])
        else [])\<rparr>;
     h2 \<leftarrow> hfree a h1;
     Some (EZCFG_RET_OK, h2, snd (ezcfg_dec_ref (fst m) (snd m) s))
   }"

section \<open>Lists of sockets\<close>

definition ezcfg_socket_list_insert :: "ptr \<Rightarrow> nat \<Rightarrow> socket_heap \<Rightarrow> (int \<times> ptr \<times> socket_heap) option" where
  "ezcfg_socket_list_insert list sp h = do {
     s \<leftarrow> cells h sp;
     h1 \<leftarrow> hstore sp (s\<lparr>so_next := list\<rparr>) h;
     Some (0, Some sp, h1)
   }"

text \<open>The loop of \<^verbatim>\<open>ezcfg_socket_list_delete_socket\<close> behind the first socket.\<close>

partial_function (option) socket_delete_loop ::
    "mutex_call \<times> mutex_call \<Rightarrow> ptr \<Rightarrow> ptr \<Rightarrow> ptr \<Rightarrow> socket_heap \<Rightarrow> ezcfg_refs \<Rightarrow> (bool \<times> socket_heap \<times> ezcfg_refs) option" where
  "socket_delete_loop m sp prev cur h s =
     (case cur of
        None \<Rightarrow> Some (False, h, s)
      | Some c \<Rightarrow> do {
          cn \<leftarrow> cells h c;
          if sp = cur then do {
            p \<leftarrow> prev;
            pn \<leftarrow> cells h p;
            h1 \<leftarrow> hstore p (pn\<lparr>so_next := so_next cn\<rparr>) h;
            (_, h2, s2) \<leftarrow> ezcfg_socket_del m cur h1 s;
            Some (True, h2, s2)
          }
          else socket_delete_loop m sp cur (so_next cn) h s
        })"

text \<open>The result, the new start of the list, the memory.  The start is dereferenced without a test.\<close>

definition ezcfg_socket_list_delete_socket ::
    "mutex_call \<times> mutex_call \<Rightarrow> ptr \<Rightarrow> ptr \<Rightarrow> socket_heap \<Rightarrow> ezcfg_refs \<Rightarrow>
       (bool \<times> ptr \<times> socket_heap \<times> ezcfg_refs) option" where
  "ezcfg_socket_list_delete_socket m list sp h s =
     (if sp = None then Some (True, list, h, s)
      else do {
        cn \<leftarrow> hload h list;
        if sp = list then do {
          (_, h1, s1) \<leftarrow> ezcfg_socket_del m list h s;
          Some (True, so_next cn, h1, s1)
        }
        else do {
          (ret, h1, s1) \<leftarrow> socket_delete_loop m sp list (so_next cn) h s;
          Some (ret, list, h1, s1)
        }
      })"

partial_function (option) ezcfg_socket_list_delete ::
    "(nat \<Rightarrow> mutex_call \<times> mutex_call) \<Rightarrow> nat \<Rightarrow> ptr \<Rightarrow> socket_heap \<Rightarrow> ezcfg_refs \<Rightarrow> (socket_heap \<times> ezcfg_refs) option" where
  "ezcfg_socket_list_delete m k list h s =
     (case list of
        None \<Rightarrow> Some (h, s)
      | Some c \<Rightarrow> do {
          cn \<leftarrow> cells h c;
          (_, h1, s1) \<leftarrow> ezcfg_socket_del (m k) list h s;
          ezcfg_socket_list_delete m (Suc k) (so_next cn) h1 s1
        })"

partial_function (option) ezcfg_socket_list_in :: "ptr \<Rightarrow> ezcfg_socket \<Rightarrow> socket_heap \<Rightarrow> bool option" where
  "ezcfg_socket_list_in cur sp h =
     (case cur of
        None \<Rightarrow> Some False
      | Some c \<Rightarrow> do {
          cn \<leftarrow> cells h c;
          if ezcfg_socket_compare sp cn then Some True else ezcfg_socket_list_in (so_next cn) sp h
        })"

definition ezcfg_socket_list_next :: "ptr \<Rightarrow> socket_heap \<Rightarrow> ptr option" where
  "ezcfg_socket_list_next list h = do { s \<leftarrow> hload h list; Some (so_next s) }"

partial_function (option) socket_need_delete_loop ::
    "ptr \<Rightarrow> ezcfg_socket \<Rightarrow> bool \<Rightarrow> bool \<Rightarrow> socket_heap \<Rightarrow> (bool \<times> socket_heap) option" where
  "socket_need_delete_loop cur sp need_delete ret h =
     (case cur of
        None \<Rightarrow> Some (ret, h)
      | Some c \<Rightarrow> do {
          cn \<leftarrow> cells h c;
          if ezcfg_socket_compare sp cn then do {
            h1 \<leftarrow> hstore c (cn\<lparr>so_need_delete := need_delete\<rparr>) h;
            socket_need_delete_loop (so_next cn) sp need_delete True h1
          }
          else socket_need_delete_loop (so_next cn) sp need_delete ret h
        })"

definition ezcfg_socket_list_set_need_delete ::
    "ptr \<Rightarrow> ezcfg_socket \<Rightarrow> bool \<Rightarrow> socket_heap \<Rightarrow> (bool \<times> socket_heap) option" where
  "ezcfg_socket_list_set_need_delete list sp need_delete h = socket_need_delete_loop list sp need_delete False h"

section \<open>Reading and writing\<close>

text \<open>What a receiving call returns: bytes (none at the end of the connection) with the sender's address,
  or the error number; a sending call: the number of bytes it took, or the error number.\<close>

datatype read_result = Got string usa | Read_error int

datatype write_result = Took nat | Write_error int

definition EPIPE :: int where "EPIPE = 32"

definition EINTR :: int where "EINTR = 4"

definition EAGAIN :: int where "EAGAIN = 11"

text \<open>\<^verbatim>\<open>recvfrom\<close> is used on datagram sockets, which also gives the peer's address.\<close>

definition is_datagram :: "bool \<Rightarrow> ezcfg_socket \<Rightarrow> bool" where
  "is_datagram ipv6 sp \<longleftrightarrow> so_type sp = SOCK_DGRAM \<and> (so_domain sp = AF_INET \<or> ipv6 \<and> so_domain sp = AF_INET6)"

text \<open>Reading \<open>len\<close> bytes: the result, the buffer, which is cleared first, the socket, and the calls not
  yet made.  At the end of the connection the last byte of the buffer is written, which for an
  empty buffer lies in front of it.  A call that returns more than it was asked for overruns the buffer.\<close>

fun ezcfg_socket_read ::
    "bool \<Rightarrow> ezcfg_socket \<Rightarrow> nat \<Rightarrow> read_result list \<Rightarrow> (int \<times> string \<times> ezcfg_socket \<times> read_result list) option" where
  "ezcfg_socket_read ipv6 sp len [] = None"
| "ezcfg_socket_read ipv6 sp len (Read_error e # rs) =
     (if e = EPIPE then Some (- EPIPE, replicate len NUL, sp, rs)
      else if e = EINTR \<or> e = EAGAIN then ezcfg_socket_read ipv6 sp len rs
      else Some (- e, replicate len NUL, sp, rs))"
| "ezcfg_socket_read ipv6 sp len (Got d from # rs) =
     (let sp' = (if is_datagram ipv6 sp then sp\<lparr>so_rsa := from\<rparr> else sp) in
      if length d > len then None
      else if d = [] then (if len = 0 then None else Some (0, replicate len NUL, sp', rs))
      else Some (int (length d), d @ replicate (len - length d) NUL, sp', rs))"

text \<open>Writing the bytes of \<open>buf\<close> from \<open>status\<close> on; \<open>out\<close> are the bytes that the calls took so far.\<close>

fun socket_write_loop ::
    "string \<Rightarrow> nat \<Rightarrow> write_result list \<Rightarrow> string \<Rightarrow> (int \<times> string \<times> write_result list) option" where
  "socket_write_loop buf status rs out =
     (if status = length buf then Some (int status, out, rs)
      else
        (case rs of
           [] \<Rightarrow> None
         | Write_error e # rs \<Rightarrow>
             if e = EPIPE then Some (- EPIPE, out, rs)
             else if e = EINTR \<or> e = EAGAIN then socket_write_loop buf status rs out
             else Some (- e, out, rs)
         | Took n # rs \<Rightarrow>
             if n > length buf - status then None
             else socket_write_loop buf (status + n) rs (out @ take n (drop status buf))))"

declare socket_write_loop.simps [simp del]

definition ezcfg_socket_write :: "string \<Rightarrow> write_result list \<Rightarrow> (int \<times> string \<times> write_result list) option" where
  "ezcfg_socket_write buf rs = socket_write_loop buf 0 rs []"

end
