(* ===== verification/Socket_Create.thy ===== *)
theory Socket_Create
  imports Socket Thread
begin

text \<open>
  Opening sockets, the other half of \<^verbatim>\<open>src/basic/socket/socket.c\<close>: making a socket from its addresses or
  from the settings of a name space, binding, listening, connecting, accepting, and opening a socket
  anew.  Every system call goes through \<^const>\<open>sys\<close>.
\<close>

section \<open>Addresses\<close>

text \<open>The union that holds an address has the size of its largest member, rounded up; it starts zeroed.\<close>

definition USA_SIZE :: nat where "USA_SIZE = 112"

definition usa_zero :: usa where
  "usa_zero = \<lparr>usa_len = 0, usa_u = replicate USA_SIZE NUL\<rparr>"

definition SUN_PATH_MAX :: nat where "SUN_PATH_MAX = 108"

text \<open>A 16 bit number as the machine stores it, and as the network does.\<close>

definition le16 :: "nat \<Rightarrow> string" where
  "le16 n = [char_of (n mod 256), char_of (n div 256 mod 256)]"

definition be16 :: "nat \<Rightarrow> string" where
  "be16 n = [char_of (n div 256 mod 256), char_of (n mod 256)]"

text \<open>A local address: the path is copied without a look at its length, so that a long one or none at
  all is a fault; a leading \<^verbatim>\<open>@\<close> stands for a name that is not in the file system.\<close>

definition local_address :: "usa \<Rightarrow> string option \<Rightarrow> usa option" where
  "local_address a path = do {
     s \<leftarrow> path;
     if length s \<ge> SUN_PATH_MAX then None
     else do {
       u1 \<leftarrow> buf_write (usa_u a) 0 (le16 (nat AF_LOCAL));
       u2 \<leftarrow> buf_write u1 2 (s @ [NUL]);
       u3 \<leftarrow> (if s \<noteq> [] \<and> hd s = CHR ''@'' then buf_write u2 2 [NUL] else Some u2);
       Some \<lparr>usa_len = 2 + length s, usa_u = u3\<rparr>
     }
   }"

text \<open>A copy of the text, split at the first colon.\<close>

definition host_port :: "string \<Rightarrow> string \<times> string option" where
  "host_port s = (takeWhile (\<lambda>c. c \<noteq> CHR '':'') s, map_option tl (strchr s (CHR '':'')))"

text \<open>The copy of an address text is allocated before it is parsed and freed after that, or at the
  common exit when something fails in between; freeing what is not allocated is a fault.\<close>

definition copy_address :: "socket_heap \<Rightarrow> socket_heap" where
  "copy_address h = h\<lparr>sk_copies := sk_copies h + 1\<rparr>"

definition free_copy :: "socket_heap \<Rightarrow> socket_heap option" where
  "free_copy h = (if sk_copies h = 0 then None else Some (h\<lparr>sk_copies := sk_copies h - 1\<rparr>))"

definition inet_address :: "net_env \<Rightarrow> usa \<Rightarrow> string \<Rightarrow> usa option" where
  "inet_address ev a s =
     (case host_port s of
        (addr, port) \<Rightarrow> do {
          u1 \<leftarrow> buf_write (usa_u a) 0 (le16 (nat AF_INET));
          u2 \<leftarrow> buf_write u1 4 (ne_inet_addr ev addr);
          u3 \<leftarrow> buf_write u2 2 (be16 (case port of Some p \<Rightarrow> nat (atoi p mod 65536) | None \<Rightarrow> 0));
          Some \<lparr>usa_len = 16, usa_u = u3\<rparr>
        })"

text \<open>One of the two addresses, when it is there; \<open>str\<close> is the allocation of the copy.  \<^term>\<open>Inl\<close> is a
  failure, with whether \<^verbatim>\<open>addr\<close> still points to the copy.\<close>

definition inet_option ::
    "net_env \<Rightarrow> bool \<Rightarrow> usa \<Rightarrow> string option \<Rightarrow> socket_heap \<Rightarrow> ((bool + usa) \<times> socket_heap) option" where
  "inet_option ev str a t h =
     (case t of
        None \<Rightarrow> Some (Inr a, h)
      | Some s \<Rightarrow>
          if \<not> str then Some (Inl False, h)
          else do {
            u \<leftarrow> inet_address ev a s;
            h' \<leftarrow> free_copy (copy_address h);
            Some (Inr u, h')
          })"

text \<open>An address in brackets, then a colon and the port, if any; \<open>first\<close> is the character in front, which
  the code looks for in the local address, also when the remote one is parsed.  \<^term>\<open>Inl\<close> is a refused
  address, with whether \<^verbatim>\<open>addr\<close> still points to the copy.\<close>

definition inet6_host_port :: "string \<Rightarrow> (string \<times> string option) option" where
  "inet6_host_port s =
     (case strchr s (CHR '']'') of
        None \<Rightarrow> None
      | Some t \<Rightarrow>
          Some (takeWhile (\<lambda>c. c \<noteq> CHR '']'') s, if peek (tl t) = CHR '':'' then Some (tl (tl t)) else None))"

definition inet6_address ::
    "net_env \<Rightarrow> bool \<Rightarrow> int \<Rightarrow> usa \<Rightarrow> string option \<Rightarrow> string \<Rightarrow> socket_heap \<Rightarrow>
       ((bool + usa) \<times> socket_heap) option" where
  "inet6_address ev str t a first s h = do {
     f \<leftarrow> first;
     if peek f \<noteq> CHR ''['' then Some (Inl False, h)
     else if s = [] then None
     else if \<not> str then Some (Inl False, h)
     else
       let h1 = copy_address h in
       (case inet6_host_port (tl s) of
          None \<Rightarrow> Some (Inl True, h1)
        | Some (addr, port) \<Rightarrow>
            (case ne_getaddrinfo ev addr port t of
               [ai] \<Rightarrow> do {
                 u1 \<leftarrow> buf_write (usa_u a) 0 (le16 (nat AF_INET6));
                 u2 \<leftarrow> buf_write u1 0 ai;
                 h2 \<leftarrow> free_copy h1;
                 Some (Inr \<lparr>usa_len = 28, usa_u = u2\<rparr>, h2)
               }
             | _ \<Rightarrow> Some (Inl True, h1)))
   }"

text \<open>The groups are those of kernel events or none; the kernel is asked for the port number when the
  descriptor exists.\<close>

definition netlink_address ::
    "net_env \<Rightarrow> bool \<Rightarrow> int \<Rightarrow> usa \<Rightarrow> string \<Rightarrow> socket_heap \<Rightarrow> (usa \<times> socket_heap) option" where
  "netlink_address ev create_sockfd sock a s h = do {
     u1 \<leftarrow> buf_write (usa_u a) 0 (le16 (nat AF_NETLINK));
     u2 \<leftarrow> buf_write u1 8 (le16 (if strcmp s ''kernel'' = 0 then 1 else 0) @ le16 0);
     if create_sockfd then
       (case sys ev (Sys_getsockname sock) h of
          (err, h') \<Rightarrow> do {
            u3 \<leftarrow> (if err = 0 then buf_write u2 4 (take 4 (drop 4 (usa_u (ne_addr ev (sk_trace h'))))) else Some u2);
            Some (\<lparr>usa_len = 12, usa_u = u3\<rparr>, h')
          })
     else Some (\<lparr>usa_len = 12, usa_u = u2\<rparr>, h)
   }"

section \<open>Creating\<close>

definition NETLINK_KOBJECT_UEVENT :: int where "NETLINK_KOBJECT_UEVENT = 15"

definition sock_protocol :: "int \<Rightarrow> int" where
  "sock_protocol proto = (if proto = EZCFG_PROTO_UEVENT then NETLINK_KOBJECT_UEVENT else 0)"

definition zero_socket :: "int \<Rightarrow> int \<Rightarrow> int \<Rightarrow> ezcfg_socket" where
  "zero_socket domain t proto =
     \<lparr>so_next = None, so_sock = -1, so_proto = proto, so_backlog = 0, so_domain = domain, so_type = t,
      so_lsa = usa_zero, so_rsa = usa_zero, so_need_unlink = False, so_need_delete = False,
      so_buffer = None, so_buffer_len = 0\<rparr>"

text \<open>What is given up when something fails: the copy of an address, when \<^verbatim>\<open>addr\<close> points to one, the
  descriptor, when there is one, and the object.\<close>

definition create_fail :: "bool \<Rightarrow> nat \<Rightarrow> ezcfg_socket \<Rightarrow> socket_heap \<Rightarrow> (ptr \<times> socket_heap) option" where
  "create_fail addr a sp h = do {
     h \<leftarrow> (if addr then free_copy h else Some h);
     h' \<leftarrow> hfree a (if so_sock sp \<ge> 0 then h\<lparr>sk_trace := sk_trace h @ [Sys_close (so_sock sp)]\<rparr> else h);
     Some (None, h')
   }"

definition create_done :: "nat \<Rightarrow> ezcfg_socket \<Rightarrow> socket_heap \<Rightarrow> (ptr \<times> socket_heap) option" where
  "create_done a sp h = do { h' \<leftarrow> hstore a sp h; Some (Some a, h') }"

text \<open>The descriptor, if it is asked for: the socket that has it, or none when the call fails.\<close>

definition open_descriptor ::
    "net_env \<Rightarrow> bool \<Rightarrow> int \<Rightarrow> ezcfg_socket \<Rightarrow> socket_heap \<Rightarrow> bool \<times> ezcfg_socket \<times> socket_heap" where
  "open_descriptor ev create_sockfd domain sp h =
     (if create_sockfd then
        (case sys ev (Sys_socket domain (so_type sp) (sock_protocol (so_proto sp))) h of
           (r, h') \<Rightarrow> (r \<ge> 0, sp\<lparr>so_sock := r\<rparr>, h'))
      else (True, sp, h))"

definition create_local ::
    "string option \<Rightarrow> string option \<Rightarrow> nat \<Rightarrow> ezcfg_socket \<Rightarrow> socket_heap \<Rightarrow> (ptr \<times> socket_heap) option" where
  "create_local laddr raddr a sp h = do {
     lsa \<leftarrow> local_address (so_lsa sp) laddr;
     rsa \<leftarrow> local_address (so_rsa sp) raddr;
     create_done a (sp\<lparr>so_lsa := lsa, so_rsa := rsa\<rparr>) h
   }"

text \<open>\<open>str k\<close> is the allocation of the copy of the \<open>k\<close>-th address.\<close>

definition create_inet ::
    "net_env \<Rightarrow> (nat \<Rightarrow> bool) \<Rightarrow> string option \<Rightarrow> string option \<Rightarrow> nat \<Rightarrow> ezcfg_socket \<Rightarrow> socket_heap \<Rightarrow>
       (ptr \<times> socket_heap) option" where
  "create_inet ev str laddr raddr a sp h =
     do {
       (l, h) \<leftarrow> inet_option ev (str 0) (so_lsa sp) laddr h;
       case l of
         Inl addr \<Rightarrow> create_fail addr a sp h
       | Inr lsa \<Rightarrow> do {
           (r, h) \<leftarrow> inet_option ev (str 1) (so_rsa sp) raddr h;
           case r of
             Inl addr \<Rightarrow> create_fail addr a sp h
           | Inr rsa \<Rightarrow> create_done a (sp\<lparr>so_lsa := lsa, so_rsa := rsa\<rparr>) h
         }
     }"

definition create_inet6 ::
    "net_env \<Rightarrow> (nat \<Rightarrow> bool) \<Rightarrow> string option \<Rightarrow> string option \<Rightarrow> nat \<Rightarrow> ezcfg_socket \<Rightarrow> socket_heap \<Rightarrow>
       (ptr \<times> socket_heap) option" where
  "create_inet6 ev str laddr raddr a sp h = do {
     (l, h) \<leftarrow> (case laddr of
                  None \<Rightarrow> Some (Inr (so_lsa sp), h)
                | Some s \<Rightarrow> inet6_address ev (str 0) (so_type sp) (so_lsa sp) laddr s h);
     case l of
       Inl addr \<Rightarrow> create_fail addr a sp h
     | Inr lsa \<Rightarrow> do {
         (r, h) \<leftarrow> (case raddr of
                      None \<Rightarrow> Some (Inr (so_rsa sp), h)
                    | Some s \<Rightarrow> inet6_address ev (str 1) (so_type sp) (so_rsa sp) laddr s h);
         case r of
           Inl addr \<Rightarrow> create_fail addr a sp h
         | Inr rsa \<Rightarrow> create_done a (sp\<lparr>so_lsa := lsa, so_rsa := rsa\<rparr>) h
       }
   }"

definition create_netlink ::
    "net_env \<Rightarrow> bool \<Rightarrow> string option \<Rightarrow> string option \<Rightarrow> nat \<Rightarrow> ezcfg_socket \<Rightarrow> socket_heap \<Rightarrow>
       (ptr \<times> socket_heap) option" where
  "create_netlink ev create_sockfd laddr raddr a sp h =
     (case (if create_sockfd then
              (case sys ev (Sys_setsockopt (so_sock sp) (Rcvbuf_force (16 * 1024 * 1024))) h of
                 (r, h1) \<Rightarrow>
                   if r \<noteq> 0 then
                     (case sys ev (Sys_setsockopt (so_sock sp) (Rcvbuf 106496)) h1 of (r2, h2) \<Rightarrow> (r2 = 0, h2))
                   else (True, h1))
            else (True, h)) of
        (ok, h1) \<Rightarrow>
          if \<not> ok then create_fail False a sp h1
          else do {
            (lsa, h2) \<leftarrow> (case laddr of
                            None \<Rightarrow> Some (so_lsa sp, h1)
                          | Some s \<Rightarrow> netlink_address ev create_sockfd (so_sock sp) (so_lsa sp) s h1);
            (rsa, h3) \<leftarrow> (case raddr of
                            None \<Rightarrow> Some (so_rsa sp, h2)
                          | Some s \<Rightarrow> netlink_address ev create_sockfd (so_sock sp) (so_rsa sp) s h2);
            create_done a (sp\<lparr>so_lsa := lsa, so_rsa := rsa\<rparr>) h3
          })"

text \<open>A family that is supported is one of the four; the object is on the heap from the allocation on.\<close>

definition create_socket ::
    "bool \<Rightarrow> bool \<Rightarrow> net_env \<Rightarrow> (nat \<Rightarrow> bool) \<Rightarrow> int \<Rightarrow> int \<Rightarrow> int \<Rightarrow> string option \<Rightarrow> string option \<Rightarrow> bool \<Rightarrow>
       socket_heap \<Rightarrow> (ptr \<times> socket_heap) option" where
  "create_socket ipv6 upnpd ev str domain t proto laddr raddr create_sockfd h =
     (if \<not> ezcfg_util_socket_is_supported_domain ipv6 domain then Some (None, h)
      else if \<not> ezcfg_util_socket_is_supported_protocol upnpd proto then Some (None, h)
      else
        (case halloc (zero_socket domain t proto) h of
           (None, h1) \<Rightarrow> Some (None, h1)
         | (Some a, h1) \<Rightarrow>
             let sp = zero_socket domain t proto in
             if domain = AF_LOCAL \<or> domain = AF_INET \<or> ipv6 \<and> domain = AF_INET6 \<or> domain = AF_NETLINK then
               (case open_descriptor ev create_sockfd domain sp h1 of
                  (ok, sp, h2) \<Rightarrow>
                    if \<not> ok then create_fail False a sp h2
                    else if domain = AF_LOCAL then create_local laddr raddr a sp h2
                    else if domain = AF_INET then create_inet ev str laddr raddr a sp h2
                    else if domain = AF_NETLINK then create_netlink ev create_sockfd laddr raddr a sp h2
                    else create_inet6 ev str laddr raddr a sp h2)
             else create_fail False a sp h1))"

definition ezcfg_socket_fake_new ::
    "bool \<Rightarrow> bool \<Rightarrow> net_env \<Rightarrow> (nat \<Rightarrow> bool) \<Rightarrow> int \<Rightarrow> int \<Rightarrow> int \<Rightarrow> string option \<Rightarrow> string option \<Rightarrow>
       socket_heap \<Rightarrow> (ptr \<times> socket_heap) option" where
  "ezcfg_socket_fake_new ipv6 upnpd ev str domain t proto laddr raddr h =
     create_socket ipv6 upnpd ev str domain t proto laddr raddr False h"

definition ezcfg_socket_calloc :: "bool \<Rightarrow> nat \<Rightarrow> ezcfg_socket list option" where
  "ezcfg_socket_calloc mem size' = (if mem then Some (replicate size' (zero_socket 0 0 0)) else None)"

section \<open>From the settings\<close>

text \<open>What comes from outside beside the kernel: the mutex calls of the reference counter in the order
  they are made (taking the reference, creating the list and giving up, deleting the list, giving the
  reference back), the allocations, what the blocks of the pairs hold.\<close>

record socket_new_env =
  sn_ref :: "nat \<Rightarrow> mutex_call \<times> mutex_call"
  sn_list_mem :: bool
  sn_pair_mem :: "nat \<Rightarrow> bool \<times> bool \<times> bool"
  sn_junk :: "nat \<Rightarrow> string \<times> string"
  sn_nvram_lock :: mutex_call
  sn_copy :: "int \<Rightarrow> bool"
  sn_addr_mem :: "bool \<times> bool"
  sn_str :: "nat \<Rightarrow> bool"
  sn_net :: net_env
  sn_ipv6 :: bool
  sn_upnpd :: bool

definition socket_settings :: "string list" where
  "socket_settings =
     [''socket.'' @ ''domain'', ''socket.'' @ ''type'', ''socket.'' @ ''protocol'', ''socket.'' @ ''local_address'',
      ''socket.'' @ ''remote_address'']"

text \<open>Everything the settings of a socket go through: the pairs and their heap, the settings, the counter.\<close>

record socket_new_state =
  ns_pairs :: pair_heap
  ns_ezcfg :: ezcfg
  ns_refs :: ezcfg_refs

text \<open>Adding the pairs of the settings in turn; \<^term>\<open>Inl\<close> with the pair that the list does not own when
  it fails.\<close>

fun socket_add_settings ::
    "socket_new_env \<Rightarrow> nat \<Rightarrow> string option \<Rightarrow> string list \<Rightarrow> pair_list \<Rightarrow> pair_heap \<Rightarrow>
       ((ezcfg_nv_pair option + unit) \<times> pair_list \<times> pair_heap) option" where
  "socket_add_settings ev k ns [] l h = Some (Inr (), l, h)"
| "socket_add_settings ev k ns (s # ss) l h =
     (case ezcfg_util_snprintf_ns_name EZCFG_NAME_MAX ns (Some s) of
        (ret, name) \<Rightarrow>
          if ret \<noteq> EZCFG_RET_OK then Some (Inl None, l, h)
          else
            (case ezcfg_nv_pair_new (sn_pair_mem ev k) (sn_junk ev k) name None of
               None \<Rightarrow> Some (Inl None, l, h)
             | Some d \<Rightarrow> do {
                 (ret, l', h') \<leftarrow> ezcfg_linked_list_append l d h;
                 if ret \<noteq> EZCFG_RET_OK then Some (Inl (Some d), l', h')
                 else socket_add_settings ev (Suc k) ns ss l' h'
               }))"

text \<open>Which setting the pairs in the list stand for: a pair takes the place of the first one whose name
  compares equal, and with it the earlier name is released.\<close>

fun add_setting :: "(nat \<Rightarrow> string) \<Rightarrow> nat \<Rightarrow> nat list \<Rightarrow> nat list" where
  "add_setting name k [] = [k]"
| "add_setting name k (j # js) = (if strcmp (name j) (name k) = 0 then k # js else j # add_setting name k js)"

definition settings_in_list :: "(nat \<Rightarrow> string) \<Rightarrow> nat \<Rightarrow> nat list" where
  "settings_in_list name n = fold (add_setting name) [0 ..< n] []"

text \<open>The loop over the pairs.  Each is told by comparing the address of its name with those of the five
  settings in turn, of which one that has been released must not be used any more.  A setting
  without a value is a fault: for the first three the pair is deleted by itself and again with the
  list, for the addresses the null pointer is read.  The copies of the two addresses are \<open>mem\<close>.\<close>

record socket_setup =
  su_domain :: int
  su_type :: int
  su_proto :: int
  su_laddr :: "string option"
  su_raddr :: "string option"

definition socket_use_setting :: "bool \<times> bool \<Rightarrow> nat \<Rightarrow> string \<Rightarrow> socket_setup \<Rightarrow> socket_setup option" where
  "socket_use_setting mem k val a =
     (if k = 0 then Some (a\<lparr>su_domain := atoi val\<rparr>)
      else if k = 1 then Some (a\<lparr>su_type := atoi val\<rparr>)
      else if k = 2 then Some (a\<lparr>su_proto := atoi val\<rparr>)
      else if val = [] then Some a
      else if k = 3 then (if fst mem then Some (a\<lparr>su_laddr := Some val\<rparr>) else None)
      else (if snd mem then Some (a\<lparr>su_raddr := Some val\<rparr>) else None))"

fun socket_settings_loop ::
    "bool \<times> bool \<Rightarrow> nat list \<Rightarrow> nat list \<Rightarrow> int \<Rightarrow> pair_list \<Rightarrow> pair_heap \<Rightarrow> socket_setup \<Rightarrow> socket_setup option option" where
  "socket_settings_loop mem alive [] i l h a = Some (Some a)"
| "socket_settings_loop mem alive (k # ks) i l h a = do {
     d \<leftarrow> ezcfg_linked_list_get_node_data_by_index l i h;
     case d of
       None \<Rightarrow> Some None
     | Some d \<Rightarrow>
         if list_ex (\<lambda>j. j \<notin> set alive) [0 ..< k] then None
         else do {
           val \<leftarrow> ezcfg_nv_pair_get_v d;
           case socket_use_setting mem k val a of
             None \<Rightarrow> Some None
           | Some a' \<Rightarrow> socket_settings_loop mem alive ks (i + 1) l h a'
         }
   }"

text \<open>The code behind \<^verbatim>\<open>exit_fail\<close>.\<close>

definition socket_new_fail ::
    "socket_new_env \<Rightarrow> ezcfg_nv_pair option \<Rightarrow> pair_list option \<Rightarrow> socket_new_state \<Rightarrow> socket_heap \<Rightarrow>
       (ptr \<times> socket_new_state \<times> socket_heap) option" where
  "socket_new_fail ev d lo st h = do {
     let h1 = (case d of None \<Rightarrow> ns_pairs st | Some d \<Rightarrow> snd (ezcfg_nv_pair_del d (ns_pairs st)));
     (h2, s2) \<leftarrow>
       (case lo of
          None \<Rightarrow> Some (h1, ns_refs st)
        | Some l \<Rightarrow> do { (_, h2, s2) \<leftarrow> ezcfg_linked_list_del (sn_ref ev 3) l h1 (ns_refs st); Some (h2, s2) });
     Some (None, st\<lparr>ns_pairs := h2, ns_refs := snd (ezcfg_dec_ref (fst (sn_ref ev 4)) (snd (sn_ref ev 4)) s2)\<rparr>, h)
   }"

definition ezcfg_socket_new ::
    "socket_new_env \<Rightarrow> string option \<Rightarrow> socket_new_state \<Rightarrow> socket_heap \<Rightarrow>
       (ptr \<times> socket_new_state \<times> socket_heap) option" where
  "ezcfg_socket_new ev ns st h =
     (case ezcfg_inc_ref (fst (sn_ref ev 0)) (snd (sn_ref ev 0)) (ns_refs st) of
        (ret, s1) \<Rightarrow>
          if ret \<noteq> EZCFG_RET_OK then Some (None, st\<lparr>ns_refs := s1\<rparr>, h)
          else
            (case ezcfg_linked_list_new (sn_ref ev 1) (sn_ref ev 2) (sn_list_mem ev) True
                    (Some ezcfg_nv_pair_cmp_handler) s1 of
               (None, s2) \<Rightarrow> socket_new_fail ev None None (st\<lparr>ns_refs := s2\<rparr>) h
             | (Some l0, s2) \<Rightarrow> do {
                 (r, l1, h1) \<leftarrow> socket_add_settings ev 0 ns socket_settings l0 (ns_pairs st);
                 case r of
                   Inl d \<Rightarrow> socket_new_fail ev d (Some l1) (st\<lparr>ns_pairs := h1, ns_refs := s2\<rparr>) h
                 | Inr _ \<Rightarrow> do {
                     (ret, e2, h2) \<leftarrow> ezcfg_common_get_nvram_entries (sn_nvram_lock ev) (sn_copy ev) (ns_ezcfg st) l1 h1;
                     let st2 = \<lparr>ns_pairs = h2, ns_ezcfg = e2, ns_refs = s2\<rparr>;
                     if ret \<noteq> EZCFG_RET_OK then socket_new_fail ev None (Some l1) st2 h
                     else do {
                       let alive = settings_in_list (\<lambda>k. fst (sn_junk ev k)) (length socket_settings);
                       a \<leftarrow> socket_settings_loop (sn_addr_mem ev) alive alive 1 l1 h2
                             \<lparr>su_domain = -1, su_type = -1, su_proto = -1, su_laddr = None, su_raddr = None\<rparr>;
                       case a of
                         None \<Rightarrow> socket_new_fail ev None (Some l1) st2 h
                       | Some a \<Rightarrow> do {
                           (_, h3, s3) \<leftarrow> ezcfg_linked_list_del (sn_ref ev 3) l1 h2 s2;
                           (p, h') \<leftarrow> create_socket (sn_ipv6 ev) (sn_upnpd ev) (sn_net ev) (sn_str ev)
                             (su_domain a) (su_type a) (su_proto a) (su_laddr a) (su_raddr a) True h;
                           Some (p, st2\<lparr>ns_pairs := h3,
                             ns_refs := (if p = None then snd (ezcfg_dec_ref (fst (sn_ref ev 4)) (snd (sn_ref ev 4)) s3) else s3)\<rparr>, h')
                         }
                     }
                   }
               }))"

section \<open>Binding, listening, connecting\<close>

definition EINVAL :: int where "EINVAL = 22"

definition ezcfg_socket_binding :: "bool \<Rightarrow> net_env \<Rightarrow> ezcfg_socket \<Rightarrow> socket_heap \<Rightarrow> int \<times> socket_heap" where
  "ezcfg_socket_binding ipv6 ev sp h =
     (if so_domain sp = AF_LOCAL \<or> so_domain sp = AF_INET \<or> ipv6 \<and> so_domain sp = AF_INET6 \<or> so_domain sp = AF_NETLINK then
        (case sys ev (Sys_bind (so_sock sp) (so_lsa sp)) h of (err, h') \<Rightarrow> (if err < 0 then err else 0, h'))
      else (- EINVAL, h))"

text \<open>A multicast listener takes every local address and joins the group.  IPv6 is not among the families.\<close>

definition any_address :: "usa \<Rightarrow> usa option" where
  "any_address a = do { u \<leftarrow> buf_write (usa_u a) 4 (replicate 4 NUL); Some (a\<lparr>usa_u := u\<rparr>) }"

definition ezcfg_socket_enable_receiving ::
    "net_env \<Rightarrow> ezcfg_socket \<Rightarrow> socket_heap \<Rightarrow> (int \<times> ezcfg_socket \<times> socket_heap) option" where
  "ezcfg_socket_enable_receiving ev sp h =
     (if so_domain sp = AF_LOCAL \<or> so_domain sp = AF_NETLINK then
        (case sys ev (Sys_bind (so_sock sp) (so_lsa sp)) h of (err, h') \<Rightarrow> Some (if err < 0 then err else 0, sp, h'))
      else if so_domain sp = AF_INET then
        if so_proto sp = EZCFG_PROTO_UPNP_SSDP then do {
          lsa \<leftarrow> any_address (so_lsa sp);
          let sp = sp\<lparr>so_lsa := lsa\<rparr>;
          case sys ev (Sys_bind (so_sock sp) (so_lsa sp)) h of
            (err, h1) \<Rightarrow>
              if err < 0 then Some (err, sp, h1)
              else (case sys ev (Sys_setsockopt (so_sock sp) Ip_add_membership) h1 of
                      (err, h2) \<Rightarrow> Some (if err < 0 then err else 0, sp, h2))
        }
        else (case sys ev (Sys_bind (so_sock sp) (so_lsa sp)) h of (err, h') \<Rightarrow> Some (if err < 0 then err else 0, sp, h'))
      else Some (- EINVAL, sp, h))"

definition ezcfg_socket_enable_listening ::
    "bool \<Rightarrow> net_env \<Rightarrow> ezcfg_socket \<Rightarrow> int \<Rightarrow> socket_heap \<Rightarrow> int \<times> ezcfg_socket \<times> socket_heap" where
  "ezcfg_socket_enable_listening ipv6 ev sp backlog h =
     (let sp = sp\<lparr>so_backlog := backlog\<rparr> in
      if so_domain sp = AF_LOCAL \<or> so_domain sp = AF_INET \<or> ipv6 \<and> so_domain sp = AF_INET6 then
        if so_type sp = SOCK_STREAM then
          (case sys ev (Sys_listen (so_sock sp) backlog) h of (err, h') \<Rightarrow> (if err < 0 then err else 0, sp, h'))
        else (0, sp, h)
      else if so_domain sp = AF_NETLINK then (0, sp, h)
      else (- EINVAL, sp, h))"

definition ezcfg_socket_set_close_on_exec :: "ezcfg_socket \<Rightarrow> socket_heap \<Rightarrow> socket_heap" where
  "ezcfg_socket_set_close_on_exec sp h =
     (if so_sock sp \<ge> 0 then h\<lparr>sk_trace := sk_trace h @ [Sys_set_cloexec (so_sock sp)]\<rparr> else h)"

definition ezcfg_socket_enable_again ::
    "bool \<Rightarrow> net_env \<Rightarrow> ezcfg_socket \<Rightarrow> socket_heap \<Rightarrow> (int \<times> ezcfg_socket \<times> socket_heap) option" where
  "ezcfg_socket_enable_again ipv6 ev sp h = do {
     (sp, h1) \<leftarrow> ezcfg_socket_close_sock ev sp h;
     case sys ev (Sys_socket (so_domain sp) (so_type sp) (sock_protocol (so_proto sp))) h1 of
       (r, h2) \<Rightarrow>
         let sp = sp\<lparr>so_sock := r\<rparr> in
         if r < 0 then Some (-1, sp, h2)
         else do {
           (err, sp, h3) \<leftarrow> ezcfg_socket_enable_receiving ev sp h2;
           if err < 0 then Some (err, sp, h3)
           else
             (case (if so_backlog sp > 0 then ezcfg_socket_enable_listening ipv6 ev sp (so_backlog sp) h3 else (0, sp, h3)) of
                (err, sp, h4) \<Rightarrow>
                  if err < 0 then Some (err, sp, h4) else Some (0, sp, ezcfg_socket_set_close_on_exec sp h4))
         }
   }"

definition multicast_sending ::
    "net_env \<Rightarrow> sock_option \<Rightarrow> sock_option \<Rightarrow> ezcfg_socket \<Rightarrow> socket_heap \<Rightarrow> int \<times> socket_heap" where
  "multicast_sending ev loop_opt if_opt sp h =
     (case sys ev (Sys_setsockopt (so_sock sp) loop_opt) h of
        (err, h1) \<Rightarrow>
          if err < 0 then (err, h1)
          else
            (case sys ev (Sys_setsockopt (so_sock sp) if_opt) h1 of
               (err, h2) \<Rightarrow>
                 if err < 0 then (err, h2)
                 else (case sys ev (Sys_connect (so_sock sp) (so_rsa sp)) h2 of (err, h3) \<Rightarrow> (if err < 0 then err else 0, h3))))"

definition ezcfg_socket_enable_sending :: "bool \<Rightarrow> net_env \<Rightarrow> ezcfg_socket \<Rightarrow> socket_heap \<Rightarrow> int \<times> socket_heap" where
  "ezcfg_socket_enable_sending ipv6 ev sp h =
     (if so_domain sp = AF_LOCAL \<or> so_domain sp = AF_NETLINK then (0, h)
      else if so_domain sp = AF_INET then
        if so_proto sp = EZCFG_PROTO_UPNP_SSDP then multicast_sending ev Ip_multicast_loop Ip_multicast_if sp h else (0, h)
      else if ipv6 \<and> so_domain sp = AF_INET6 then
        if so_proto sp = EZCFG_PROTO_UPNP_SSDP then multicast_sending ev Ipv6_multicast_loop Ipv6_multicast_if sp h else (0, h)
      else (- EINVAL, h))"

definition ezcfg_socket_connect_remote :: "net_env \<Rightarrow> ezcfg_socket \<Rightarrow> socket_heap \<Rightarrow> int \<times> socket_heap" where
  "ezcfg_socket_connect_remote ev sp h =
     (if so_domain sp = AF_LOCAL then
        (case sys ev (Sys_connect (so_sock sp) (so_rsa sp)) h of (err, h') \<Rightarrow> (if err < 0 then err else 0, h'))
      else (- EINVAL, h))"

definition ezcfg_socket_set_receive_buffer_size ::
    "net_env \<Rightarrow> ezcfg_socket option \<Rightarrow> int \<Rightarrow> socket_heap \<Rightarrow> int \<times> socket_heap" where
  "ezcfg_socket_set_receive_buffer_size ev p size' h =
     (case p of
        None \<Rightarrow> (-1, h)
      | Some sp \<Rightarrow>
          (case sys ev (Sys_setsockopt (so_sock sp) (Rcvbuf_force size')) h of (r, h') \<Rightarrow> (if r < 0 then -1 else 0, h')))"

text \<open>A queue is an array of sockets; a place outside it is a fault.\<close>

definition ezcfg_socket_queue_get_socket :: "ezcfg_socket list \<Rightarrow> int \<Rightarrow> (int \<times> ezcfg_socket) option" where
  "ezcfg_socket_queue_get_socket queue pos = do { sp \<leftarrow> row_at queue pos; Some (0, sp) }"

definition ezcfg_socket_queue_set_socket ::
    "ezcfg_socket list \<Rightarrow> int \<Rightarrow> ezcfg_socket \<Rightarrow> (int \<times> ezcfg_socket list) option" where
  "ezcfg_socket_queue_set_socket queue pos sp =
     (if 0 \<le> pos \<and> pos < int (length queue) then Some (0, queue[nat pos := sp]) else None)"

section \<open>Accepting\<close>

text \<open>The new socket takes over the addresses, and the wish to remove the file; it takes no reference
  to the context.\<close>

definition accepted_of :: "ezcfg_socket \<Rightarrow> ezcfg_socket" where
  "accepted_of l =
     (zero_socket (so_domain l) (so_type l) (so_proto l))\<lparr>so_lsa := so_lsa l, so_rsa := so_rsa l, so_need_unlink := so_need_unlink l\<rparr>"

definition new_accepted_socket_stream ::
    "bool \<Rightarrow> net_env \<Rightarrow> ezcfg_socket \<Rightarrow> socket_heap \<Rightarrow> (ptr \<times> socket_heap) option" where
  "new_accepted_socket_stream ipv6 ev l h =
     (case halloc (accepted_of l) h of
        (None, h1) \<Rightarrow> Some (None, h1)
      | (Some a, h1) \<Rightarrow>
          if so_domain l = AF_LOCAL \<or> so_domain l = AF_INET \<or> ipv6 \<and> so_domain l = AF_INET6 then
            (case sys ev (Sys_accept (so_sock l)) h1 of
               (r, h2) \<Rightarrow>
                 if r = -1 then do { h3 \<leftarrow> hfree a h2; Some (None, h3) }
                 else do {
                   h3 \<leftarrow> hstore a ((accepted_of l)\<lparr>so_sock := r, so_rsa := ne_addr ev (sk_trace h2)\<rparr>) h2;
                   Some (Some a, h3)
                 })
          else do { h2 \<leftarrow> hfree a h1; Some (None, h2) })"

definition new_accepted_socket_datagram ::
    "bool \<Rightarrow> net_env \<Rightarrow> ezcfg_socket \<Rightarrow> socket_heap \<Rightarrow> (ptr \<times> socket_heap) option" where
  "new_accepted_socket_datagram ipv6 ev l h =
     (case halloc (accepted_of l) h of
        (None, h1) \<Rightarrow> Some (None, h1)
      | (Some a, h1) \<Rightarrow>
          if so_domain l = AF_INET \<or> ipv6 \<and> so_domain l = AF_INET6 then
            (case sys ev (Sys_socket (so_domain l) (so_type l) (sock_protocol (so_proto l))) h1 of
               (r, h2) \<Rightarrow>
                 if r = -1 then do { h3 \<leftarrow> hfree a h2; Some (None, h3) }
                 else do { h3 \<leftarrow> hstore a ((accepted_of l)\<lparr>so_sock := r\<rparr>) h2; Some (Some a, h3) })
          else Some (Some a, h1))"

definition ezcfg_socket_new_accepted_socket ::
    "bool \<Rightarrow> net_env \<Rightarrow> ezcfg_socket \<Rightarrow> socket_heap \<Rightarrow> (ptr \<times> socket_heap) option" where
  "ezcfg_socket_new_accepted_socket ipv6 ev l h =
     (if so_proto l = EZCFG_PROTO_UEVENT then new_accepted_socket_datagram ipv6 ev l h
      else if so_proto l = EZCFG_PROTO_UPNP_SSDP then new_accepted_socket_datagram ipv6 ev l h
      else new_accepted_socket_stream ipv6 ev l h)"

end
