(* ===== verification/Socket_Spec.thy ===== *)
theory Socket_Spec
  imports Socket
begin

text \<open>
  What the socket lists and the writing loop guarantee: a list in memory stands for a list of
  addresses, deleting one socket takes exactly this one out and closes it, and writing either
  sends everything or reports an error.
\<close>

section \<open>A list in memory\<close>

fun spath :: "(nat \<Rightarrow> ezcfg_socket option) \<Rightarrow> ptr \<Rightarrow> nat list \<Rightarrow> bool" where
  "spath c p [] \<longleftrightarrow> p = None"
| "spath c p (a # as) \<longleftrightarrow> p = Some a \<and> (case c a of None \<Rightarrow> False | Some s \<Rightarrow> spath c (so_next s) as)"

lemma spath_frame: "a \<notin> set as \<Longrightarrow> spath (c(a := v)) p as \<longleftrightarrow> spath c p as"
  by (induction as arbitrary: p) (auto split: option.splits)

lemma spath_cong: "(\<And>x. x \<in> set as \<Longrightarrow> c x = d x) \<Longrightarrow> spath c p as \<longleftrightarrow> spath d p as"
  by (induction as arbitrary: p) (auto split: option.splits)

text \<open>What closing a socket leaves behind.\<close>

definition closes :: "ezcfg_socket \<Rightarrow> socket_heap \<Rightarrow> socket_heap \<Rightarrow> bool" where
  "closes s h h' \<longleftrightarrow>
     sk_trace h' = sk_trace h @
       (if so_sock s \<ge> 0 then
          Sys_close (so_sock s) #
          (if so_domain s = AF_LOCAL \<and> so_need_unlink s then [Sys_unlink (sun_path (so_lsa s))] else [])
        else [])"

lemma socket_del_frees:
  assumes "cells h a = Some s"
  obtains h' where "ezcfg_socket_del m (Some a) h r = Some (EZCFG_RET_OK, h', snd (ezcfg_dec_ref (fst m) (snd m) r))"
    "cells h' = (cells h)(a := None)" "closes s h h'"
  using assms by (auto simp: ezcfg_socket_del_def hfree_def closes_def Let_def)

lemma delete_loop_refines:
  assumes "cells h p = Some pn" "so_next pn = cur" "spath (cells h) cur as" "distinct (p # as)"
  shows "if a \<in> set as then \<exists>h'. socket_delete_loop m (Some a) (Some p) cur h r =
        Some (True, h', snd (ezcfg_dec_ref (fst m) (snd m) r)) \<and>
      spath (cells h') (Some p) (p # remove1 a as) \<and> cells h' a = None \<and> closes (the (cells h a)) h h' \<and>
      (\<forall>x. x \<notin> set (p # as) \<longrightarrow> cells h' x = cells h x)
    else socket_delete_loop m (Some a) (Some p) cur h r = Some (False, h, r)"
  using assms
proof (induction as arbitrary: p pn cur)
  case Nil
  then show ?case by (simp add: socket_delete_loop.simps)
next
  case (Cons c as)
  then obtain cn where cn: "cur = Some c" "cells h c = Some cn" "spath (cells h) (so_next cn) as"
    by (auto split: option.splits)
  show ?case
  proof (cases "a = c")
    case True
    let ?h1 = "h\<lparr>cells := (cells h)(p \<mapsto> pn\<lparr>so_next := so_next cn\<rparr>)\<rparr>"
    have "cells ?h1 c = Some cn" using cn(2) Cons.prems(4) by auto
    then obtain h' where h': "ezcfg_socket_del m (Some c) ?h1 r = Some (EZCFG_RET_OK, h', snd (ezcfg_dec_ref (fst m) (snd m) r))"
      "cells h' = (cells ?h1)(c := None)" "closes cn ?h1 h'" by (rule socket_del_frees)
    have "socket_delete_loop m (Some a) (Some p) cur h r = Some (True, h', snd (ezcfg_dec_ref (fst m) (snd m) r))"
      using Cons.prems(1) cn(1,2) h'(1) True by (simp add: socket_delete_loop.simps hstore_def)
    moreover have "spath (cells h') (Some p) (p # as)"
      using cn(3) Cons.prems(4) h'(2) by (simp add: spath_frame)
    ultimately show ?thesis using True h' cn(2) by (auto simp: closes_def)
  next
    case False
    have loop: "socket_delete_loop m (Some a) (Some p) cur h r = socket_delete_loop m (Some a) (Some c) (so_next cn) h r"
      using False cn(1,2) by (subst socket_delete_loop.simps) simp
    have "distinct (c # as)" using Cons.prems(4) by simp
    note ih = Cons.IH [OF cn(2) refl cn(3) this]
    show ?thesis
    proof (cases "a \<in> set as")
      case True
      with ih obtain h' where h': "socket_delete_loop m (Some a) (Some c) (so_next cn) h r =
          Some (True, h', snd (ezcfg_dec_ref (fst m) (snd m) r))"
        "spath (cells h') (Some c) (c # remove1 a as)" "cells h' a = None" "closes (the (cells h a)) h h'"
        "\<forall>x. x \<notin> set (c # as) \<longrightarrow> cells h' x = cells h x" by auto
      have "cells h' p = Some pn" using h'(5) Cons.prems(1,4) by simp
      then have "spath (cells h') (Some p) (p # c # remove1 a as)" using h'(2) Cons.prems(2) cn(1) by simp
      then show ?thesis using True False h' loop by (auto simp del: spath.simps)
    next
      case no: False
      then show ?thesis using ih False loop by simp
    qed
  qed
qed

section \<open>Properties\<close>

text \<open>C37: deleting a socket from a list that is not empty takes exactly this socket out, frees it, closes
  its descriptor (and removes its file when it is a local one that asks for it), gives one context
  reference back, and leaves the order of the others alone; a socket that is not in the list
  changes nothing and is reported.\<close>

theorem socket_list_delete_refines:
  assumes "spath (cells h) list as" "distinct as" "as \<noteq> []"
  shows "if a \<in> set as then \<exists>list' h'. ezcfg_socket_list_delete_socket m list (Some a) h r =
        Some (True, list', h', snd (ezcfg_dec_ref (fst m) (snd m) r)) \<and>
      spath (cells h') list' (remove1 a as) \<and> cells h' a = None \<and> closes (the (cells h a)) h h'
    else ezcfg_socket_list_delete_socket m list (Some a) h r = Some (False, list, h, r)"
proof -
  obtain c as' where as: "as = c # as'" using assms(3) by (cases as) auto
  then obtain cn where cn: "list = Some c" "cells h c = Some cn" "spath (cells h) (so_next cn) as'"
    using assms(1) by (auto split: option.splits)
  show ?thesis
  proof (cases "a = c")
    case True
    obtain h' where h': "ezcfg_socket_del m (Some c) h r = Some (EZCFG_RET_OK, h', snd (ezcfg_dec_ref (fst m) (snd m) r))"
      "cells h' = (cells h)(c := None)" "closes cn h h'" by (rule socket_del_frees [OF cn(2)])
    then show ?thesis using True cn assms(2) as
      by (auto simp: ezcfg_socket_list_delete_socket_def spath_frame)
  next
    case False
    have "distinct (c # as')" using assms(2) as by simp
    from delete_loop_refines [OF cn(2) refl cn(3) this, of a m r] show ?thesis using False cn as
      by (auto simp: ezcfg_socket_list_delete_socket_def simp del: spath.simps split: if_splits)
  qed
qed

lemma socket_write_loop_sends:
  assumes "socket_write_loop buf status rs out0 = Some (n, out, rs')" "out0 = take status buf" "status \<le> length buf"
    "\<And>e. Write_error e \<in> set rs \<Longrightarrow> e > 0"
  shows "if n \<ge> 0 then n = int (length buf) \<and> out = buf else strict_prefix out buf"
  using assms
proof (induction buf status rs out0 rule: socket_write_loop.induct)
  case (1 buf status rs out0)
  have sp: "status \<noteq> length buf \<Longrightarrow> strict_prefix (take status buf) buf"
    using 1(5) take_is_prefix [of status buf] by (auto simp: strict_prefix_def dest: arg_cong [where f = length])
  show ?case
  proof (cases "status = length buf")
    case True
    then show ?thesis using 1(3,4) by (auto simp: socket_write_loop.simps)
  next
    case False
    then show ?thesis
    proof (cases rs)
      case Nil
      then show ?thesis using 1(3) False by (subst (asm) socket_write_loop.simps) simp
    next
      case (Cons x rs2)
      show ?thesis
      proof (cases x)
        case (Took k)
        have fits: "\<not> k > length buf - status"
          and rest: "socket_write_loop buf (status + k) rs2 (out0 @ take k (drop status buf)) = Some (n, out, rs')"
          using 1(3) False Cons Took by (auto simp: socket_write_loop.simps [of buf status] split: if_splits)
        show ?thesis
          by (rule 1(1) [OF False Cons Took fits rest])
            (use 1(4-6) Cons fits in \<open>auto simp: take_add\<close>)
      next
        case (Write_error e)
        have pos: "e > 0" using 1(6) Cons Write_error by simp
        show ?thesis
        proof (cases "e \<noteq> EPIPE \<and> (e = EINTR \<or> e = EAGAIN)")
          case True
          then have "socket_write_loop buf status rs2 out0 = Some (n, out, rs')"
            using 1(3) False Cons Write_error by (simp add: socket_write_loop.simps [of buf status "Write_error e # rs2"])
          from 1(2) [OF False Cons Write_error _ _ this 1(4,5)] True 1(6) Cons show ?thesis by simp
        next
          case no: False
          then show ?thesis using pos sp [OF False] 1(3,4) False Cons Write_error
            by (auto simp: socket_write_loop.simps [of buf status] EPIPE_def split: if_splits)
        qed
      qed
    qed
  qed
qed

text \<open>C36: a write that reports no error has sent exactly the bytes of the buffer, in order and once,
  however the calls divide them and however often they were interrupted; a write that reports
  an error has sent a proper prefix.\<close>

theorem socket_write_sends_all:
  assumes "ezcfg_socket_write buf rs = Some (n, out, rs')" "\<And>e. Write_error e \<in> set rs \<Longrightarrow> e > 0"
  shows "if n \<ge> 0 then n = int (length buf) \<and> out = buf else strict_prefix out buf"
  using socket_write_loop_sends [of buf 0 rs "[]" n out rs'] assms by (simp add: ezcfg_socket_write_def)

theorem socket_write_sends_all_witness:
  "ezcfg_socket_write ''abc'' [Took 1, Write_error 4, Took 2] = Some (3, ''abc'', []) \<and> (3::int) = int (length ''abc'')"
proof -
  have eval: "ezcfg_socket_write ''abc'' [Took 1, Write_error 4, Took 2] = Some (3, ''abc'', [])"
    by (simp add: ezcfg_socket_write_def socket_write_loop.simps EPIPE_def EINTR_def)
  then show ?thesis using socket_write_sends_all [OF eval] by simp
qed

definition two_sockets :: "ezcfg_socket \<Rightarrow> socket_heap" where
  "two_sockets s = \<lparr>cells = [0 \<mapsto> s\<lparr>so_next := Some 1, so_sock := 7\<rparr>, 1 \<mapsto> s\<lparr>so_next := None, so_sock := 8\<rparr>], brk = 2,
     oom = (\<lambda>_. False), sk_trace = [], sk_copies = 0\<rparr>"

definition plain_socket :: ezcfg_socket where
  "plain_socket = \<lparr>so_next = None, so_sock = 5, so_proto = 2, so_backlog = 0, so_domain = AF_INET, so_type = 1,
     so_lsa = \<lparr>usa_len = 0, usa_u = []\<rparr>, so_rsa = \<lparr>usa_len = 0, usa_u = []\<rparr>, so_need_unlink = False,
     so_need_delete = False, so_buffer = None, so_buffer_len = 0\<rparr>"

theorem socket_list_delete_refines_witness:
  "\<exists>list' h'. ezcfg_socket_list_delete_socket (\<lambda>_. (0, 0), \<lambda>_. (0, 0)) (Some 0) (Some 1) (two_sockets plain_socket)
      \<lparr>ezcfg_ref_counter = 3, this_ezcfg = Some 0\<rparr> =
      Some (True, list', h', snd (ezcfg_dec_ref (\<lambda>_. (0, 0)) (\<lambda>_. (0, 0)) \<lparr>ezcfg_ref_counter = 3, this_ezcfg = Some 0\<rparr>)) \<and>
    spath (cells h') list' [0] \<and>
    sk_trace h' = [Sys_close 8]"
  using socket_list_delete_refines [of "two_sockets plain_socket" "Some 0" "[0, 1]" 1 "(\<lambda>_. (0, 0), \<lambda>_. (0, 0))"
      "\<lparr>ezcfg_ref_counter = 3, this_ezcfg = Some 0\<rparr>"]
  by (auto simp: two_sockets_def closes_def plain_socket_def AF_LOCAL_def AF_INET_def)

end
