(* ===== verification/Socket_Create_Spec.thy ===== *)
theory Socket_Create_Spec
  imports Socket_Create Socket_Spec "HOL-Library.Multiset"
begin

text \<open>
  What opening sockets guarantees: the descriptors open at the end are those open before and the one
  the new socket holds, on every path; and what the copy made for an accepted connection does to the
  socket it was accepted on.
\<close>

section \<open>Open descriptors\<close>

text \<open>What a call does to the descriptors of the program.\<close>

definition fd_effect :: "net_env \<Rightarrow> sys_call list \<Rightarrow> sys_call \<Rightarrow> int multiset \<Rightarrow> int multiset" where
  "fd_effect ev tr c fds =
     (case c of
        Sys_socket _ _ _ \<Rightarrow> if ne_ret ev tr \<ge> 0 then add_mset (ne_ret ev tr) fds else fds
      | Sys_accept _ \<Rightarrow> if ne_ret ev tr \<ge> 0 then add_mset (ne_ret ev tr) fds else fds
      | Sys_close fd \<Rightarrow> fds - {#fd#}
      | _ \<Rightarrow> fds)"

fun open_fds_rev :: "net_env \<Rightarrow> sys_call list \<Rightarrow> int multiset" where
  "open_fds_rev ev [] = {#}"
| "open_fds_rev ev (c # cs) = fd_effect ev (rev (c # cs)) c (open_fds_rev ev cs)"

definition open_fds :: "net_env \<Rightarrow> sys_call list \<Rightarrow> int multiset" where
  "open_fds ev tr = open_fds_rev ev (rev tr)"

lemma open_fds_Nil [simp]: "open_fds ev [] = {#}"
  by (simp add: open_fds_def)

lemma open_fds_snoc [simp]: "open_fds ev (tr @ [c]) = fd_effect ev (tr @ [c]) c (open_fds ev tr)"
  by (simp add: open_fds_def)

lemma open_fds_snoc2: "open_fds ev (tr @ [c, d]) = fd_effect ev (tr @ [c, d]) d (fd_effect ev (tr @ [c]) c (open_fds ev tr))"
  using open_fds_snoc [of ev "tr @ [c]" d] by simp

definition sock_fds :: "ezcfg_socket \<Rightarrow> int multiset" where
  "sock_fds sp = (if so_sock sp \<ge> 0 then {#so_sock sp#} else {#})"

section \<open>Creating\<close>

text \<open>While a socket is made at \<open>a\<close>: the heap holds it, its descriptor is open on top of \<open>fds\<close>, and there are
  \<open>k\<close> copies of address texts.\<close>

definition making :: "net_env \<Rightarrow> (nat \<Rightarrow> ezcfg_socket option) \<Rightarrow> int multiset \<Rightarrow> nat \<Rightarrow> nat \<Rightarrow> ezcfg_socket \<Rightarrow> socket_heap \<Rightarrow> bool" where
  "making ev c fds k a sp h \<longleftrightarrow>
     (\<exists>z. cells h = c(a \<mapsto> z)) \<and> open_fds ev (sk_trace h) = fds + sock_fds sp \<and> sk_copies h = k"

text \<open>How it ends: nothing is left, or the socket with its descriptor \<open>fd\<close>.\<close>

definition made :: "net_env \<Rightarrow> (nat \<Rightarrow> ezcfg_socket option) \<Rightarrow> int multiset \<Rightarrow> nat \<Rightarrow> nat \<Rightarrow> int \<Rightarrow> ptr \<times> socket_heap \<Rightarrow> bool" where
  "made ev c fds k a fd r \<longleftrightarrow>
     sk_copies (snd r) = k \<and>
     (case r of
        (None, h) \<Rightarrow> cells h = c \<and> open_fds ev (sk_trace h) = fds
      | (Some b, h) \<Rightarrow> b = a \<and>
          (\<exists>sp. cells h = c(a \<mapsto> sp) \<and> so_sock sp = fd \<and> open_fds ev (sk_trace h) = fds + sock_fds sp))"

lemma create_fail_made:
  "making ev c fds (k + of_bool addr) a sp h \<Longrightarrow> c a = None \<Longrightarrow> create_fail addr a sp h = Some r \<Longrightarrow> made ev c fds k a fd r"
  by (auto simp: making_def made_def create_fail_def free_copy_def hfree_def sock_fds_def fd_effect_def
      split: if_splits) (auto simp: fun_eq_iff)

lemmas create_fail_plain = create_fail_made [where addr = False, simplified]

lemma create_done_made:
  "making ev c fds k a sp h \<Longrightarrow> create_done a sp h = Some r \<Longrightarrow> made ev c fds k a (so_sock sp) r"
  by (auto simp: making_def made_def create_done_def hstore_def intro!: exI [of _ sp])

lemma making_addresses [simp]:
  "making ev c fds k a (sp\<lparr>so_lsa := l, so_rsa := r\<rparr>) h = making ev c fds k a sp h"
  by (simp add: making_def sock_fds_def)

lemma making_sys:
  assumes "making ev c fds k a sp h" "sys ev call h = (r, h')"
    and "\<And>tr M. fd_effect ev tr call M = M"
  shows "making ev c fds k a sp h'"
  using assms by (auto simp: making_def sys_def Let_def)

lemma netlink_address_making:
  assumes "making ev c fds k a sp h" "netlink_address ev cr sock u s h = Some (u', h')"
  shows "making ev c fds k a sp h'"
  using assms
  by (auto simp: netlink_address_def fd_effect_def split: if_splits prod.splits bind_splits
      dest: making_sys [where call = "Sys_getsockname sock"])

lemma create_local_made:
  "making ev c fds k a sp h \<Longrightarrow> create_local laddr raddr a sp h = Some r \<Longrightarrow> made ev c fds k a (so_sock sp) r"
  by (auto simp: create_local_def split: bind_splits dest: create_done_made [rotated])

lemma inet_option_making:
  assumes "making ev c fds k a sp h" "inet_option ev str u t h = Some (x, h')"
  shows "making ev c fds (k + (case x of Inl addr \<Rightarrow> of_bool addr | Inr _ \<Rightarrow> 0)) a sp h'"
  using assms
  by (auto simp: inet_option_def copy_address_def free_copy_def making_def split: option.splits if_splits bind_splits)

lemma inet6_address_making:
  assumes "making ev c fds k a sp h" "inet6_address ev str t u first s h = Some (x, h')"
  shows "making ev c fds (k + (case x of Inl addr \<Rightarrow> of_bool addr | Inr _ \<Rightarrow> 0)) a sp h'"
  using assms
  by (auto simp: inet6_address_def copy_address_def free_copy_def making_def Let_def
      split: option.splits if_splits bind_splits prod.splits list.splits)

lemma inet6_option_making:
  assumes "making ev c fds k a sp h"
    "(case p of None \<Rightarrow> Some (Inr u, h) | Some s \<Rightarrow> inet6_address ev str t u first s h) = Some (x, h')"
  shows "making ev c fds (k + (case x of Inl addr \<Rightarrow> of_bool addr | Inr _ \<Rightarrow> 0)) a sp h'"
  using assms by (auto split: option.splits dest: inet6_address_making)

lemma create_inet_made:
  "making ev c fds k a sp h \<Longrightarrow> c a = None \<Longrightarrow> create_inet ev str laddr raddr a sp h = Some r \<Longrightarrow>
   made ev c fds k a (so_sock sp) r"
  by (fastforce simp: create_inet_def split: bind_splits sum.splits
      dest: create_done_made [rotated] create_fail_made inet_option_making [rotated])

lemma create_inet6_made:
  "making ev c fds k a sp h \<Longrightarrow> c a = None \<Longrightarrow> create_inet6 ev str laddr raddr a sp h = Some r \<Longrightarrow>
   made ev c fds k a (so_sock sp) r"
  by (fastforce simp: create_inet6_def split: bind_splits sum.splits
      dest: create_done_made [rotated] create_fail_made inet6_option_making [rotated])

lemma making_sockopt:
  "making ev c fds k a sp h \<Longrightarrow> sys ev (Sys_setsockopt s opt) h = (r, h') \<Longrightarrow> making ev c fds k a sp h'"
  by (auto simp: making_def sys_def Let_def fd_effect_def)

lemma netlink_option_making:
  assumes "making ev c fds k a sp h"
    "(case p of None \<Rightarrow> Some (u, h) | Some s \<Rightarrow> netlink_address ev cr sock u s h) = Some (u', h')"
  shows "making ev c fds k a sp h'"
  using assms by (auto split: option.splits dest: netlink_address_making)

lemma create_netlink_made:
  assumes "making ev c fds k a sp h" "c a = None" "create_netlink ev cr laddr raddr a sp h = Some r"
  shows "made ev c fds k a (so_sock sp) r"
proof -
  obtain ok h1 where opt: "(if cr then
              (case sys ev (Sys_setsockopt (so_sock sp) (Rcvbuf_force (16 * 1024 * 1024))) h of
                 (r, h1) \<Rightarrow>
                   if r \<noteq> 0 then
                     (case sys ev (Sys_setsockopt (so_sock sp) (Rcvbuf 106496)) h1 of (r2, h2) \<Rightarrow> (r2 = 0, h2))
                   else (True, h1))
            else (True, h)) = (ok, h1)" (is "?o = _") by (cases ?o)
  have m: "making ev c fds k a sp h1"
    using opt assms(1) by (auto split: if_splits prod.splits dest: making_sockopt)
  show ?thesis
  proof (cases ok)
    case False
    then show ?thesis using assms(2,3) opt create_fail_plain [OF m]
      by (auto simp: create_netlink_def simp del: if_split)
  next
    case True
    then obtain lsa h2 rsa h3 where
      "(case laddr of None \<Rightarrow> Some (so_lsa sp, h1) | Some s \<Rightarrow> netlink_address ev cr (so_sock sp) (so_lsa sp) s h1) = Some (lsa, h2)"
      "(case raddr of None \<Rightarrow> Some (so_rsa sp, h2) | Some s \<Rightarrow> netlink_address ev cr (so_sock sp) (so_rsa sp) s h2) = Some (rsa, h3)"
      and fin: "create_done a (sp\<lparr>so_lsa := lsa, so_rsa := rsa\<rparr>) h3 = Some r"
      using assms(3) unfolding create_netlink_def opt by (auto split: bind_splits)
    then have "making ev c fds k a sp h3" by (metis netlink_option_making m)
    then show ?thesis using create_done_made [OF _ fin] by simp
  qed
qed

lemma open_descriptor_making:
  assumes "open_descriptor ev cr d sp h = (ok, sp', h')" "making ev c fds k a sp h" "so_sock sp = -1"
  shows "making ev c fds k a sp' h'" "\<not> cr \<Longrightarrow> sp' = sp" "\<not> cr \<Longrightarrow> ok" "cr \<Longrightarrow> ok \<longleftrightarrow> so_sock sp' \<ge> 0"
  using assms
  by (auto simp: open_descriptor_def making_def sys_def Let_def sock_fds_def fd_effect_def split: if_splits)

text \<open>What is left of it when it failed, or the new socket at the next free address.\<close>

lemma create_socket_made:
  assumes "heap_ok h" "create_socket ipv6 upnpd ev str d t proto laddr raddr cr h = Some r"
  shows "\<exists>fd. made ev (cells h) (open_fds ev (sk_trace h)) (sk_copies h) (brk h) fd r \<and> (fst r \<noteq> None \<longrightarrow> (if cr then fd \<ge> 0 else fd = -1))"
proof -
  let ?sp = "zero_socket d t proto" and ?fds = "open_fds ev (sk_trace h)"
  have fresh: "cells h (brk h) = None" using assms(1) by (simp add: heap_ok_def)
  show ?thesis
  proof (cases "ezcfg_util_socket_is_supported_domain ipv6 d \<and> ezcfg_util_socket_is_supported_protocol upnpd proto \<and> \<not> oom h (brk h)")
    case False
    then have "r = (None, h) \<or> r = (None, h\<lparr>brk := Suc (brk h)\<rparr>)"
      using assms(2) by (auto simp: create_socket_def halloc_def split: if_splits)
    then show ?thesis by (auto simp: made_def)
  next
    case True
    let ?h1 = "h\<lparr>cells := (cells h)(brk h \<mapsto> ?sp), brk := Suc (brk h)\<rparr>"
    have sock: "so_sock ?sp = -1" by (simp add: zero_socket_def)
    have m1: "making ev (cells h) ?fds (sk_copies h) (brk h) ?sp ?h1"
      using sock by (auto simp: making_def sock_fds_def intro!: exI [of _ ?sp])
    obtain ok sp h2 where od: "open_descriptor ev cr d ?sp ?h1 = (ok, sp, h2)" by (metis prod_cases3)
    note m2 = open_descriptor_making [OF od m1 sock]
    have fd: "ok \<Longrightarrow> if cr then so_sock sp \<ge> 0 else so_sock sp = -1" using m2 sock by auto
    have fail: "create_fail False (brk h) sp' h' = Some r \<Longrightarrow> fst r = None" for sp' h'
      by (auto simp: create_fail_def split: bind_splits)
    show ?thesis
    proof (cases "d = AF_LOCAL \<or> d = AF_INET \<or> ipv6 \<and> d = AF_INET6 \<or> d = AF_NETLINK")
      case known: True
      show ?thesis
      proof (cases ok)
        case True
        then have "made ev (cells h) ?fds (sk_copies h) (brk h) (so_sock sp) r"
          using assms(2) known \<open>ezcfg_util_socket_is_supported_domain ipv6 d \<and> _\<close> od
            create_local_made [OF m2(1)] create_inet_made [OF m2(1) fresh] create_inet6_made [OF m2(1) fresh]
            create_netlink_made [OF m2(1) fresh]
          by (auto simp: create_socket_def halloc_def Let_def split: if_splits)
        then show ?thesis using fd [OF True] by auto
      next
        case False
        then have f: "create_fail False (brk h) sp h2 = Some r"
          using assms(2) known True od by (auto simp: create_socket_def halloc_def Let_def split: if_splits)
        show ?thesis using create_fail_plain [OF m2(1) fresh f] fail [OF f] by auto
      qed
    next
      case False
      then have f: "create_fail False (brk h) ?sp ?h1 = Some r"
        using assms(2) True by (auto simp: create_socket_def halloc_def Let_def split: if_splits)
      show ?thesis using create_fail_plain [OF m1 fresh f] fail [OF f] by auto
    qed
  qed
qed

lemma closes_fds:
  assumes "closes sp h h'" "open_fds ev (sk_trace h) = fds + sock_fds sp"
  shows "open_fds ev (sk_trace h') = fds"
  using assms by (auto simp: closes_def sock_fds_def open_fds_snoc2 fd_effect_def split: if_splits)

lemma socket_del_copies: "ezcfg_socket_del m p h r = Some (ret, h', r') \<Longrightarrow> sk_copies h' = sk_copies h"
  by (auto simp: ezcfg_socket_del_def Let_def hfree_def split: bind_splits if_splits)

section \<open>Properties\<close>

text \<open>C35: whatever the kernel and the allocations answer, a socket that cannot be made leaves no
  descriptor open and no memory behind, neither a socket object nor a copy of an address text; one that is made has no such copy left, holds exactly one new descriptor, if one was
  asked for, and deleting it leaves the descriptors and the memory as they were before.  This is stated of the calls
  that return; a local path that is missing or does not fit the address is a fault of the code.\<close>

theorem socket_descriptors_balanced:
  assumes "heap_ok h"
    and "create_socket ipv6 upnpd ev str domain t proto laddr raddr create_sockfd h = Some (p, h')"
  shows "sk_copies h' = sk_copies h \<and>
    (case p of
      None \<Rightarrow> cells h' = cells h \<and> open_fds ev (sk_trace h') = open_fds ev (sk_trace h)
    | Some a \<Rightarrow> \<exists>sp h'' r'. cells h' a = Some sp \<and>
        open_fds ev (sk_trace h') = open_fds ev (sk_trace h) + (if create_sockfd then {#so_sock sp#} else {#}) \<and>
        ezcfg_socket_del m p h' r = Some (EZCFG_RET_OK, h'', r') \<and>
        cells h'' = cells h \<and> open_fds ev (sk_trace h'') = open_fds ev (sk_trace h) \<and>
        sk_copies h'' = sk_copies h)"
proof -
  obtain fd where made: "made ev (cells h) (open_fds ev (sk_trace h)) (sk_copies h) (brk h) fd (p, h')"
    and fd: "p \<noteq> None \<longrightarrow> (if create_sockfd then fd \<ge> 0 else fd = -1)"
    using create_socket_made [OF assms] by auto
  have copies: "sk_copies h' = sk_copies h" using made by (simp add: made_def)
  show ?thesis
  proof (cases p)
    case None
    then show ?thesis using made copies by (simp add: made_def)
  next
    case (Some a)
    then obtain sp where sp: "a = brk h" "cells h' = (cells h)(a \<mapsto> sp)" "so_sock sp = fd"
      "open_fds ev (sk_trace h') = open_fds ev (sk_trace h) + sock_fds sp"
      using made by (auto simp: made_def)
    then have "cells h' a = Some sp" by simp
    then obtain h'' where h'': "ezcfg_socket_del m (Some a) h' r = Some (EZCFG_RET_OK, h'', snd (ezcfg_dec_ref (fst m) (snd m) r))"
      "cells h'' = (cells h')(a := None)" "closes sp h' h''" by (rule socket_del_frees)
    have "cells h'' = cells h" using h''(2) sp(1,2) assms(1) by (auto simp: heap_ok_def fun_eq_iff)
    moreover have "sock_fds sp = (if create_sockfd then {#so_sock sp#} else {#})"
      using fd Some sp(3) by (simp add: sock_fds_def)
    moreover have "sk_copies h'' = sk_copies h" using socket_del_copies [OF h''(1)] copies by simp
    ultimately show ?thesis using Some sp h'' copies closes_fds [OF h''(3) sp(4)] by auto
  qed
qed

text \<open>Deleting the socket of a connection accepted on a local listener removes the listener's file,
  so that nobody can connect any more, and gives back a context reference that was never taken.\<close>

theorem accepted_del_breaks_listener:
  assumes "so_domain l = AF_LOCAL" "so_need_unlink l" "so_proto l \<notin> {EZCFG_PROTO_UEVENT, EZCFG_PROTO_UPNP_SSDP}"
    and "ezcfg_socket_new_accepted_socket ipv6 ev l h = Some (Some a, h1)" "ne_ret ev (sk_trace h1) \<ge> 0"
    and "posix_mutex_call lk" "posix_mutex_call ulk" "ezcfg_ref_counter r > 1"
  shows "\<exists>h2 r2. ezcfg_socket_del (lk, ulk) (Some a) h1 r = Some (EZCFG_RET_OK, h2, r2) \<and>
    sk_trace h2 = sk_trace h @ [Sys_accept (so_sock l), Sys_close (ne_ret ev (sk_trace h1)), Sys_unlink (sun_path (so_lsa l))] \<and>
    ezcfg_ref_counter r2 = ezcfg_ref_counter r - 1"
proof -
  have "new_accepted_socket_stream ipv6 ev l h = Some (Some a, h1)"
    using assms(3,4) by (simp add: ezcfg_socket_new_accepted_socket_def)
  then obtain sp where sp: "cells h1 a = Some sp" "so_sock sp = ne_ret ev (sk_trace h1)" "so_domain sp = AF_LOCAL"
      "so_need_unlink sp" "so_lsa sp = so_lsa l" and tr: "sk_trace h1 = sk_trace h @ [Sys_accept (so_sock l)]"
    using assms(1,2,5)
    by (auto simp: new_accepted_socket_stream_def halloc_def sys_def Let_def hstore_def hfree_def accepted_of_def
        zero_socket_def split: if_splits)
  obtain h2 where "ezcfg_socket_del (lk, ulk) (Some a) h1 r = Some (EZCFG_RET_OK, h2, snd (ezcfg_dec_ref lk ulk r))"
    "closes sp h1 h2" using socket_del_frees [OF sp(1), of "(lk, ulk)" r] by auto
  moreover have "ezcfg_ref_counter (snd (ezcfg_dec_ref lk ulk r)) = ezcfg_ref_counter r - 1"
    using assms(6-8) by (simp add: ezcfg_dec_ref_def)
  ultimately show ?thesis using sp tr assms(5) by (auto simp: closes_def)
qed

section \<open>Witnesses\<close>

text \<open>A kernel that answers every call with 3, and an empty memory.\<close>

definition sample_net :: net_env where
  "sample_net = \<lparr>ne_ret = (\<lambda>_. 3), ne_addr = (\<lambda>_. usa_zero), ne_inet_addr = (\<lambda>_. replicate 4 NUL), ne_getaddrinfo = (\<lambda>_ _ _. [])\<rparr>"

definition no_sockets :: socket_heap where
  "no_sockets = \<lparr>cells = Map.empty, brk = 0, oom = (\<lambda>_. False), sk_trace = [], sk_copies = 0\<rparr>"

theorem socket_descriptors_balanced_witness:
  "\<exists>a h1 sp h2 r2.
     create_socket False False sample_net (\<lambda>_. True) AF_LOCAL SOCK_STREAM 2 (Some ''/a'') (Some ''/b'') True no_sockets = Some (Some a, h1) \<and>
     cells h1 a = Some sp \<and> open_fds sample_net (sk_trace h1) = {#so_sock sp#} \<and>
     ezcfg_socket_del (\<lambda>_. (0, 0), \<lambda>_. (0, 0)) (Some a) h1 \<lparr>ezcfg_ref_counter = 3, this_ezcfg = Some 0\<rparr> = Some (EZCFG_RET_OK, h2, r2) \<and>
     open_fds sample_net (sk_trace h2) = {#}"
proof -
  have "\<exists>a h1. create_socket False False sample_net (\<lambda>_. True) AF_LOCAL SOCK_STREAM 2 (Some ''/a'') (Some ''/b'') True no_sockets = Some (Some a, h1)"
    by (simp add: create_socket_def ezcfg_util_socket_is_supported_domain_def ezcfg_util_socket_is_supported_protocol_def
        has_index_def ezcfg_support_domains_def ezcfg_support_protocols_def halloc_def no_sockets_def open_descriptor_def
        sys_def sample_net_def create_local_def local_address_def zero_socket_def usa_zero_def USA_SIZE_def SUN_PATH_MAX_def
        le16_def buf_write_def create_done_def hstore_def)
  then obtain a h1 where c: "create_socket False False sample_net (\<lambda>_. True) AF_LOCAL SOCK_STREAM 2 (Some ''/a'') (Some ''/b'') True no_sockets = Some (Some a, h1)"
    by blast
  have "heap_ok no_sockets" by (simp add: heap_ok_def no_sockets_def)
  from socket_descriptors_balanced [OF this c, of "(\<lambda>_. (0, 0), \<lambda>_. (0, 0))" "\<lparr>ezcfg_ref_counter = 3, this_ezcfg = Some 0\<rparr>"]
  show ?thesis using c by (fastforce simp: no_sockets_def)
qed

definition local_listener :: ezcfg_socket where
  "local_listener = (zero_socket AF_LOCAL SOCK_STREAM 1)\<lparr>so_sock := 7, so_need_unlink := True\<rparr>"

theorem accepted_del_breaks_listener_witness:
  "\<exists>a h1 h2 r2. ezcfg_socket_new_accepted_socket False sample_net local_listener no_sockets = Some (Some a, h1) \<and>
     ezcfg_socket_del (\<lambda>_. (0, 0), \<lambda>_. (0, 0)) (Some a) h1 \<lparr>ezcfg_ref_counter = 3, this_ezcfg = Some 0\<rparr> = Some (EZCFG_RET_OK, h2, r2) \<and>
     sk_trace h2 = [Sys_accept 7, Sys_close 3, Sys_unlink (sun_path usa_zero)] \<and> ezcfg_ref_counter r2 = 2"
proof -
  have "\<exists>a h1. ezcfg_socket_new_accepted_socket False sample_net local_listener no_sockets = Some (Some a, h1) \<and> ne_ret sample_net (sk_trace h1) = 3"
    by (simp add: ezcfg_socket_new_accepted_socket_def local_listener_def zero_socket_def proto_constants
        new_accepted_socket_stream_def halloc_def no_sockets_def sys_def sample_net_def hstore_def)
  then obtain a h1 where c: "ezcfg_socket_new_accepted_socket False sample_net local_listener no_sockets = Some (Some a, h1)"
      "ne_ret sample_net (sk_trace h1) = 3" by blast
  from accepted_del_breaks_listener [OF _ _ _ c(1), of "\<lambda>_. (0, 0)" "\<lambda>_. (0, 0)" "\<lparr>ezcfg_ref_counter = 3, this_ezcfg = Some 0\<rparr>"]
  show ?thesis using c
    by (auto simp: local_listener_def zero_socket_def proto_constants posix_mutex_call_def no_sockets_def)
qed

end
