(* ===== verification/Socket_Http.thy ===== *)
theory Socket_Http
  imports Socket Http Meta_Nvram Nvram
begin

text \<open>
  Receiving an HTTP message from a socket, \<^verbatim>\<open>src/basic/socket/socket_http.c\<close>: reading until the head is
  complete, then the rest of the body, whose end is given by its length or by the chunks it is cut
  into.  The buffer is the list of its bytes; reading or writing outside it is a fault.
\<close>

section \<open>The end of the head\<close>

text \<open>Neither a printable character nor the end of a line; bytes from 128 on are let through.\<close>

definition head_control :: "char \<Rightarrow> bool" where
  "head_control c \<longleftrightarrow>
     (let n = (of_char c :: nat) in \<not> (32 \<le> n \<and> n \<le> 126) \<and> n \<noteq> 13 \<and> n \<noteq> 10 \<and> n < 128)"

text \<open>The loop at byte \<open>i\<close>, which is the first of the bytes left; the last byte of the buffer is not
  looked at by itself.\<close>

fun header_len_loop :: "nat \<Rightarrow> int \<Rightarrow> string \<Rightarrow> int" where
  "header_len_loop i len (a # b # s) =
     (if len > 0 then len
      else
        header_len_loop (i + 1)
          (if head_control a then -1
           else if a = CHR 0x0A \<and> b = CHR 0x0A then int i + 2
           else if a = CHR 0x0A \<and> s \<noteq> [] \<and> b = CHR 0x0D \<and> hd s = CHR 0x0A then int i + 3
           else len) (b # s))"
| "header_len_loop i len s = len"

definition get_http_header_len :: "string \<Rightarrow> nat \<Rightarrow> int" where
  "get_http_header_len buf buflen = header_len_loop 0 0 (take buflen buf)"

section \<open>Reading the head\<close>

text \<open>The bytes read go to the end of those already there.\<close>

partial_function (option) read_http_header_loop ::
    "bool \<Rightarrow> ezcfg_socket \<Rightarrow> string \<Rightarrow> nat \<Rightarrow> int \<Rightarrow> read_result list \<Rightarrow>
       (int \<times> string \<times> nat \<times> ezcfg_socket \<times> read_result list) option" where
  "read_http_header_loop ipv6 sp buf nread len rs =
     (if nread < length buf \<and> len = 0 then do {
        (n, b, sp', rs') \<leftarrow> ezcfg_socket_read ipv6 sp (length buf - nread) rs;
        let buf' = take nread buf @ b;
        if n \<le> 0 then Some (len, buf', nread, sp', rs')
        else
          let nread' = nread + nat n in
          read_http_header_loop ipv6 sp' buf' nread' (get_http_header_len buf' nread') rs'
      }
      else Some (len, buf, nread, sp, rs))"

definition ezcfg_socket_read_http_header ::
    "bool \<Rightarrow> ezcfg_socket \<Rightarrow> string \<Rightarrow> nat \<Rightarrow> read_result list \<Rightarrow>
       (int \<times> string \<times> nat \<times> ezcfg_socket \<times> read_result list) option" where
  "ezcfg_socket_read_http_header ipv6 sp buf nread rs = read_http_header_loop ipv6 sp buf nread 0 rs"

section \<open>Reading the body\<close>

definition EZCFG_BUFFER_SIZE :: nat where "EZCFG_BUFFER_SIZE = 8192"

definition EZCFG_HTTP_MAX_BUFFER_SIZE :: int where "EZCFG_HTTP_MAX_BUFFER_SIZE = 8 * 1024 * 1024"

definition EZCFG_HTTP_CHUNK_SIZE :: int where "EZCFG_HTTP_CHUNK_SIZE = 20480"

definition EZCFG_HTTP_MAX_REQUEST_SIZE :: nat where "EZCFG_HTTP_MAX_REQUEST_SIZE = 20480 * 32"

text \<open>The loop that fills the buffer up.\<close>

partial_function (option) socket_fill_loop ::
    "bool \<Rightarrow> ezcfg_socket \<Rightarrow> string \<Rightarrow> nat \<Rightarrow> read_result list \<Rightarrow>
       (string \<times> nat \<times> ezcfg_socket \<times> read_result list) option" where
  "socket_fill_loop ipv6 sp buf nread rs =
     (if nread < length buf then do {
        (n, b, sp', rs') \<leftarrow> ezcfg_socket_read ipv6 sp (length buf - nread) rs;
        let buf' = take nread buf @ b;
        if n \<le> 0 then Some (buf', nread, sp', rs') else socket_fill_loop ipv6 sp' buf' (nread + nat n) rs'
      }
      else Some (buf, nread, sp, rs))"

text \<open>\<^verbatim>\<open>realloc\<close> to \<open>n\<close> bytes, which the code only calls to grow; the new bytes are \<open>junk\<close>.\<close>

definition realloc_bytes :: "(nat \<Rightarrow> char) \<Rightarrow> nat \<Rightarrow> string \<Rightarrow> string" where
  "realloc_bytes junk n buf = take n buf @ map junk [length buf ..< n]"

text \<open>The reading loop of a body in chunks, in round \<open>k\<close>: up to the end of the connection.  The first
  component says whether the code goes on.\<close>

partial_function (option) chunk_read_loop ::
    "bool \<Rightarrow> (nat \<Rightarrow> bool) \<Rightarrow> (nat \<Rightarrow> char) \<Rightarrow> nat \<Rightarrow> ezcfg_socket \<Rightarrow> string \<Rightarrow> nat \<Rightarrow> read_result list \<Rightarrow>
       (bool \<times> string \<times> nat \<times> ezcfg_socket \<times> read_result list) option" where
  "chunk_read_loop ipv6 mem junk k sp buf nread rs =
     (let buf_len = (if length buf \<le> nread then length buf + EZCFG_BUFFER_SIZE else length buf) in
      if buf_len > EZCFG_HTTP_MAX_REQUEST_SIZE then Some (False, buf, nread, sp, rs)
      else if \<not> mem k then Some (False, buf, nread, sp, rs)
      else do {
        (buf', nread', sp', rs') \<leftarrow> socket_fill_loop ipv6 sp (realloc_bytes junk buf_len buf) nread rs;
        if nread' = buf_len then chunk_read_loop ipv6 mem junk (Suc k) sp' buf' nread' rs'
        else Some (True, buf', nread', sp', rs')
      })"

text \<open>\<^verbatim>\<open>strtol\<close> to base 16, with a \<^verbatim>\<open>long\<close> of 32 bits.\<close>

definition hex_value :: "char \<Rightarrow> int option" where
  "hex_value c =
     (let n = int (of_char c) in
      if 48 \<le> n \<and> n \<le> 57 then Some (n - 48)
      else if 97 \<le> n \<and> n \<le> 102 then Some (n - 87)
      else if 65 \<le> n \<and> n \<le> 70 then Some (n - 55)
      else None)"

fun hex_digits :: "int \<Rightarrow> string \<Rightarrow> int" where
  "hex_digits n [] = n"
| "hex_digits n (c # s) = (case hex_value c of None \<Rightarrow> n | Some d \<Rightarrow> hex_digits (16 * n + d) s)"

definition hex_prefix :: "string \<Rightarrow> string" where
  "hex_prefix s =
     (case s of
        a # x # d # s' \<Rightarrow>
          if a = CHR ''0'' \<and> (x = CHR ''x'' \<or> x = CHR ''X'') \<and> hex_value d \<noteq> None then d # s' else s
      | _ \<Rightarrow> s)"

definition LONG_MAX :: int where "LONG_MAX = 2147483647"

definition strtol16 :: "string \<Rightarrow> int" where
  "strtol16 s =
     (let s1 = dropWhile c_isspace s;
          neg = (s1 \<noteq> [] \<and> hd s1 = CHR ''-'');
          s2 = (if s1 \<noteq> [] \<and> (hd s1 = CHR ''-'' \<or> hd s1 = CHR ''+'') then tl s1 else s1);
          v = hex_digits 0 (hex_prefix s2)
      in max (- LONG_MAX - 1) (min LONG_MAX (if neg then - v else v)))"

text \<open>The loop that moves the chunks together: \<open>dst\<close> is where the next chunk goes, \<open>p\<close> stands at the size
  of the chunk.  It returns whether it went through, the last size, the buffer and the new end.\<close>

partial_function (option) chunk_concat_loop ::
    "string \<Rightarrow> nat \<Rightarrow> nat \<Rightarrow> int \<Rightarrow> (bool \<times> int \<times> string \<times> nat) option" where
  "chunk_concat_loop buf dst p chunk_size =
     (if chunk_size > 0 \<and> chunk_size \<le> EZCFG_HTTP_CHUNK_SIZE then do {
        s \<leftarrow> cstr_at buf p;
        case strstr s EZCFG_HTTP_CRLF_STRING of
          None \<Rightarrow> Some (False, chunk_size, buf, dst)
        | Some t \<Rightarrow> do {
            let q = p + (length s - length t) + length EZCFG_HTTP_CRLF_STRING;
            buf' \<leftarrow> memmove buf dst q chunk_size;
            let p' = q + nat chunk_size + length EZCFG_HTTP_CRLF_STRING;
            s' \<leftarrow> cstr_at buf' p';
            chunk_concat_loop buf' (dst + nat chunk_size) p' (strtol16 s')
          }
      }
      else Some (True, chunk_size, buf, dst))"

text \<open>The body: \<open>mem k\<close> is the \<open>k\<close>-th reallocation.  The result, the buffer, the number of bytes in it.\<close>

definition ezcfg_socket_read_http_content ::
    "bool \<Rightarrow> (nat \<Rightarrow> bool) \<Rightarrow> (nat \<Rightarrow> char) \<Rightarrow> ezcfg_socket \<Rightarrow> http \<Rightarrow> string \<Rightarrow> nat \<Rightarrow> nat \<Rightarrow> read_result list \<Rightarrow>
       (int \<times> string \<times> nat \<times> ezcfg_socket \<times> read_result list) option" where
  "ezcfg_socket_read_http_content ipv6 mem junk sp http buf header_len nread rs = do {
     cl \<leftarrow> ezcfg_http_get_header_value http ''Content-Length'';
     case cl of
       Some v \<Rightarrow>
         let content_length = atoi v; have_len = int nread - int header_len in
         if content_length > EZCFG_HTTP_MAX_BUFFER_SIZE then Some (EZCFG_RET_FAIL, buf, nread, sp, rs)
         else if have_len < content_length then
           if \<not> mem 0 then Some (EZCFG_RET_FAIL, buf, nread, sp, rs)
           else do {
             (buf', nread', sp', rs') \<leftarrow> socket_fill_loop ipv6 sp
               (realloc_bytes junk (length buf + nat (content_length - have_len)) buf) nread rs;
             Some (if int nread' - int header_len < content_length then EZCFG_RET_FAIL else EZCFG_RET_OK,
               buf', nread', sp', rs')
           }
         else Some (EZCFG_RET_OK, buf, nread, sp, rs)
     | None \<Rightarrow> do {
         te \<leftarrow> ezcfg_http_get_header_value http ''Transfer-Encoding'';
         case te of
           None \<Rightarrow> Some (EZCFG_RET_OK, buf, nread, sp, rs)
         | Some v \<Rightarrow>
             if strcmp v ''chunked'' \<noteq> 0 then Some (EZCFG_RET_FAIL, buf, nread, sp, rs)
             else do {
               (go, buf1, nread1, sp1, rs1) \<leftarrow> chunk_read_loop ipv6 mem junk 0 sp buf nread rs;
               if \<not> go then Some (EZCFG_RET_FAIL, buf1, nread1, sp1, rs1)
               else do {
                 buf2 \<leftarrow> buf_write buf1 nread1 [NUL];
                 s \<leftarrow> cstr_at buf2 header_len;
                 (through, chunk_size, buf3, dst) \<leftarrow> chunk_concat_loop buf2 header_len header_len (strtol16 s);
                 if \<not> through \<or> chunk_size < 0 \<or> chunk_size > EZCFG_HTTP_CHUNK_SIZE
                 then Some (EZCFG_RET_FAIL, buf3, nread1, sp1, rs1)
                 else Some (EZCFG_RET_OK, buf3, dst, sp1, rs1)
               }
             }
       }
   }"

end
