(* ===== verification/Socket_Http_Spec.thy ===== *)
theory Socket_Http_Spec
  imports Socket_Http Http_Roundtrip Meta_Nvram_Spec
begin

text \<open>
  What receiving an HTTP message guarantees: where the head ends, that it does not matter how the
  network cuts the bytes into pieces, that the chunks of a body are put together, and how many bytes
  the code waits for when the length of the body is given.
\<close>

section \<open>The end of the head\<close>

text \<open>The number of bytes up to the end of the first empty line.\<close>

fun head_end :: "string \<Rightarrow> nat option" where
  "head_end [] = None"
| "head_end (c # s) =
     (if c = CHR 0x0A \<and> prefix [CHR 0x0A] s then Some 2
      else if c = CHR 0x0A \<and> prefix [CHR 0x0D, CHR 0x0A] s then Some 3
      else map_option Suc (head_end s))"

lemma not_control_LF [simp]: "\<not> head_control (CHR 0x0A)"
  by (simp add: head_control_def)

lemma prefix_one: "prefix [x] s \<longleftrightarrow> (\<exists>t. s = x # t)"
  by (cases s) auto

lemma prefix_two: "prefix [x, y] s \<longleftrightarrow> (\<exists>t. s = x # y # t)"
  by (cases s) (auto simp: prefix_one)

lemma header_len_stop: "len > 0 \<Longrightarrow> header_len_loop i len s = len"
  by (cases "(i, len, s)" rule: header_len_loop.cases) auto

lemma header_len_loop_end:
  "len \<le> 0 \<Longrightarrow> header_len_loop i len s =
     (case head_end s of
        Some k \<Rightarrow> int (i + k)
      | None \<Rightarrow> if \<exists>c\<in>set (butlast s). head_control c then -1 else len)"
proof (induction i len s rule: header_len_loop.induct)
  case (1 i len a b s)
  let ?len = "if head_control a then -1
     else if a = CHR 0x0A \<and> b = CHR 0x0A then int i + 2
     else if a = CHR 0x0A \<and> s \<noteq> [] \<and> b = CHR 0x0D \<and> hd s = CHR 0x0A then int i + 3 else len"
  have step: "header_len_loop i len (a # b # s) = header_len_loop (i + 1) ?len (b # s)" using 1(2) by simp
  show ?case
  proof (cases "?len > 0")
    case True
    then have a: "a = CHR 0x0A" "\<not> head_control a" using 1(2) by (auto split: if_splits)
    show ?thesis
      unfolding step header_len_stop [OF True] using a 1(2) True
      by (cases s) (auto simp: prefix_one prefix_two split: if_splits)
  next
    case False
    then have no: "\<not> (a = CHR 0x0A \<and> prefix [CHR 0x0A] (b # s))" "\<not> (a = CHR 0x0A \<and> prefix [CHR 0x0D, CHR 0x0A] (b # s))"
      by (auto simp: prefix_one split: if_splits)
    have he: "head_end (a # b # s) = map_option Suc (head_end (b # s))"
      by (subst head_end.simps) (simp only: no if_False)
    have ih: "header_len_loop (i + 1) ?len (b # s) =
        (case head_end (b # s) of Some k \<Rightarrow> int (i + 1 + k)
         | None \<Rightarrow> if \<exists>c\<in>set (butlast (b # s)). head_control c then -1 else ?len)"
      using 1 False by (auto simp del: head_end.simps)
    have len: "?len = (if head_control a then -1 else len)" using False by (auto split: if_splits)
    show ?thesis unfolding step ih he unfolding len
      by (cases "head_end (b # s)") (auto simp del: head_end.simps)
  qed
qed (simp_all add: prefix_one prefix_two)

lemma head_end_append: "head_end u = Some k \<Longrightarrow> head_end (u @ v) = Some k"
proof (induction u arbitrary: k)
  case (Cons c u)
  have "prefix [x, y] (u @ v) \<longleftrightarrow> prefix [x, y] u \<or> (\<exists>t. u = [x] \<and> v = y # t) \<or> u = [] \<and> prefix [x, y] v" for x y
    by (cases u rule: list.exhaust; cases "tl u") (auto simp: prefix_two prefix_one)
  moreover have "prefix [x] (u @ v) \<longleftrightarrow> prefix [x] u \<or> u = [] \<and> prefix [x] v" for x
    by (cases u) (auto simp: prefix_one)
  ultimately show ?case using Cons by (auto split: if_splits)
qed simp

lemma head_end_le: "head_end u = Some k \<Longrightarrow> k \<le> length u"
proof (induction u arbitrary: k)
  case (Cons c u)
  then show ?case by (fastforce simp: prefix_one prefix_two split: if_splits)
qed simp

lemma head_end_pos: "head_end u = Some k \<Longrightarrow> 0 < k"
  by (cases u) (auto split: if_splits)

lemma head_end_take_self: "head_end u = Some k \<Longrightarrow> head_end (take k u) = Some k"
proof (induction u arbitrary: k)
  case (Cons c u)
  have take: "prefix p (take n u) \<Longrightarrow> prefix p u" for p n
    using take_is_prefix prefix_order.trans by blast
  let ?one = "c = CHR 0x0A \<and> prefix [CHR 0x0A] u" and ?two = "c = CHR 0x0A \<and> prefix [CHR 0x0D, CHR 0x0A] u"
  show ?case
  proof (cases "?one \<or> ?two")
    case True
    then show ?thesis using Cons.prems by (auto simp: prefix_one prefix_two)
  next
    case False
    then obtain k' where k: "head_end u = Some k'" "k = Suc k'" using Cons.prems by auto
    have "\<not> (c = CHR 0x0A \<and> prefix [CHR 0x0A] (take k' u))" "\<not> (c = CHR 0x0A \<and> prefix [CHR 0x0D, CHR 0x0A] (take k' u))"
      using False take by blast+
    then have "head_end (c # take k' u) = map_option Suc (head_end (take k' u))"
      by (subst head_end.simps) (simp only: if_False)
    then show ?thesis using Cons.IH k by simp
  qed
qed simp

lemma head_end_take:
  assumes "head_end u = Some k" "k \<le> n"
  shows "head_end (take n u) = Some k"
proof -
  have "take n u = take k u @ take (n - k) (drop k u)" using assms(2) by (metis le_add_diff_inverse take_add)
  then show ?thesis using head_end_append [OF head_end_take_self [OF assms(1)]] by simp
qed

lemma get_header_len:
  "get_http_header_len buf n =
     (case head_end (take n buf) of
        Some k \<Rightarrow> int k
      | None \<Rightarrow> if \<exists>c\<in>set (butlast (take n buf)). head_control c then -1 else 0)"
  using header_len_loop_end [of 0 0 "take n buf"] by (auto simp: get_http_header_len_def split: option.splits)

section \<open>Pieces from the network\<close>

definition pieces :: "(string \<times> usa) list \<Rightarrow> read_result list" where
  "pieces xs = map (\<lambda>(d, from). Got d from) xs"

definition piece_bytes :: "(string \<times> usa) list \<Rightarrow> string" where
  "piece_bytes xs = concat (map fst xs)"

lemma pieces_simps [simp]:
  "pieces [] = []" "pieces ((d, from) # xs) = Got d from # pieces xs"
  "piece_bytes [] = []" "piece_bytes ((d, from) # xs) = d @ piece_bytes xs"
  by (simp_all add: pieces_def piece_bytes_def)

text \<open>One call that gets a piece.\<close>

lemma read_piece:
  assumes "d \<noteq> []" "length d \<le> len"
  obtains sp' where "ezcfg_socket_read ipv6 sp len (Got d from # rs) =
    Some (int (length d), d @ replicate (len - length d) NUL, sp', rs)"
  using assms by (auto simp: Let_def)

lemma read_head_pieces:
  assumes "head_end (t0 @ piece_bytes xs) = Some k" "\<forall>c\<in>set (take k (t0 @ piece_bytes xs)). \<not> head_control c"
    and "take (length t0) buf = t0" "length t0 + length (piece_bytes xs) \<le> length buf" "\<forall>x\<in>set xs. fst x \<noteq> []"
    and "head_end t0 = None"
  shows "\<exists>buf' sp' us vs. xs = us @ vs \<and>
    read_http_header_loop ipv6 sp buf (length t0) 0 (pieces xs @ rs) =
      Some (int k, buf', length (t0 @ piece_bytes us), sp', pieces vs @ rs) \<and>
    take (length (t0 @ piece_bytes us)) buf' = t0 @ piece_bytes us \<and> length buf' = length buf \<and>
    k \<le> length (t0 @ piece_bytes us)"
  using assms
proof (induction xs arbitrary: t0 buf sp)
  case Nil
  then show ?case by simp
next
  case (Cons x xs)
  obtain d f where x: "x = (d, f)" by (cases x)
  have d: "d \<noteq> []" "length t0 < length buf" "length d \<le> length buf - length t0"
    using Cons.prems(4,5) by (cases d; auto simp: x)+
  obtain sp' where r: "ezcfg_socket_read ipv6 sp (length buf - length t0) (Got d f # pieces xs @ rs) =
      Some (int (length d), d @ replicate (length buf - length t0 - length d) NUL, sp', pieces xs @ rs)"
    by (rule read_piece [OF d(1,3)])
  let ?buf = "t0 @ d @ replicate (length buf - length t0 - length d) NUL"
  let ?t = "t0 @ d"
  have buf: "take (length ?t) ?buf = ?t" "length ?buf = length buf" using d by simp_all
  have loop: "read_http_header_loop ipv6 sp buf (length t0) 0 (pieces (x # xs) @ rs) =
      read_http_header_loop ipv6 sp' ?buf (length ?t) (get_http_header_len ?buf (length ?t)) (pieces xs @ rs)"
    using d r Cons.prems(3) by (subst read_http_header_loop.simps) (simp add: x Let_def nat_add_distrib)
  show ?case
  proof (cases "head_end ?t")
    case (Some k')
    then have "k' = k" using head_end_append [OF Some, of "piece_bytes xs"] Cons.prems(1) by (simp add: x)
    then have len: "get_http_header_len ?buf (length ?t) = int k" "k \<le> length ?t"
      using Some head_end_le [OF Some] by (simp_all add: get_header_len buf(1))
    have "k \<noteq> 0" using head_end_pos [OF Cons.prems(1)] by simp
    then have "read_http_header_loop ipv6 sp' ?buf (length ?t) (int k) (pieces xs @ rs) =
        Some (int k, ?buf, length ?t, sp', pieces xs @ rs)"
      by (subst read_http_header_loop.simps) simp
    then show ?thesis using len buf loop
      by (intro exI [of _ ?buf] exI [of _ sp'] exI [of _ "[x]"] exI [of _ xs]) (simp add: x)
  next
    case None
    have short: "length ?t < k"
    proof (rule ccontr)
      assume "\<not> length ?t < k"
      then show False using head_end_take [OF Cons.prems(1), of "length ?t"] None by (simp add: x)
    qed
    have "set (butlast ?t) \<subseteq> set (take k (t0 @ piece_bytes (x # xs)))"
      using short by (auto simp: x dest!: in_set_butlastD)
    then have len: "get_http_header_len ?buf (length ?t) = 0"
      using Cons.prems(2) by (auto simp: get_header_len buf(1) None)
    have "\<exists>buf' sp'' us vs. xs = us @ vs \<and>
        read_http_header_loop ipv6 sp' ?buf (length ?t) 0 (pieces xs @ rs) =
          Some (int k, buf', length (?t @ piece_bytes us), sp'', pieces vs @ rs) \<and>
        take (length (?t @ piece_bytes us)) buf' = ?t @ piece_bytes us \<and> length buf' = length ?buf \<and>
        k \<le> length (?t @ piece_bytes us)"
      by (rule Cons.IH) (use Cons.prems buf None in \<open>auto simp: x\<close>)
    then obtain buf' sp'' us vs where "xs = us @ vs"
      "read_http_header_loop ipv6 sp' ?buf (length ?t) 0 (pieces xs @ rs) =
          Some (int k, buf', length (?t @ piece_bytes us), sp'', pieces vs @ rs)"
      "take (length (?t @ piece_bytes us)) buf' = ?t @ piece_bytes us" "length buf' = length ?buf"
      "k \<le> length (?t @ piece_bytes us)" by blast
    then show ?thesis using loop len buf(2)
      by (intro exI [of _ buf'] exI [of _ sp''] exI [of _ "x # us"] exI [of _ vs]) (simp add: x)
  qed
qed

section \<open>Filling the buffer\<close>

lemma fill_loop_pieces:
  assumes "take nread buf = t" "length t = nread" "nread + length (piece_bytes xs) \<le> length buf" "\<forall>x\<in>set xs. fst x \<noteq> []"
  shows "\<exists>buf' sp'. socket_fill_loop ipv6 sp buf nread (pieces xs @ rs) =
      socket_fill_loop ipv6 sp' buf' (nread + length (piece_bytes xs)) rs \<and>
    take (nread + length (piece_bytes xs)) buf' = t @ piece_bytes xs \<and> length buf' = length buf"
  using assms
proof (induction xs arbitrary: t nread buf sp)
  case Nil
  then show ?case by auto
next
  case (Cons x xs)
  obtain d f where x: "x = (d, f)" by (cases x)
  have d: "d \<noteq> []" "nread < length buf" "length d \<le> length buf - nread"
    using Cons.prems(3,4) by (cases d; auto simp: x)+
  obtain sp' where r: "ezcfg_socket_read ipv6 sp (length buf - nread) (Got d f # pieces xs @ rs) =
      Some (int (length d), d @ replicate (length buf - nread - length d) NUL, sp', pieces xs @ rs)"
    by (rule read_piece [OF d(1,3)])
  let ?buf = "t @ d @ replicate (length buf - nread - length d) NUL"
  have buf: "take (nread + length d) ?buf = t @ d" "length ?buf = length buf" using d Cons.prems(2) by simp_all
  have "socket_fill_loop ipv6 sp buf nread (pieces (x # xs) @ rs) =
      socket_fill_loop ipv6 sp' ?buf (nread + length d) (pieces xs @ rs)"
    using d r Cons.prems(1) by (subst socket_fill_loop.simps) (simp add: x Let_def)
  moreover have "\<exists>buf' sp''. socket_fill_loop ipv6 sp' ?buf (nread + length d) (pieces xs @ rs) =
      socket_fill_loop ipv6 sp'' buf' (nread + length d + length (piece_bytes xs)) rs \<and>
      take (nread + length d + length (piece_bytes xs)) buf' = (t @ d) @ piece_bytes xs \<and> length buf' = length ?buf"
    by (rule Cons.IH) (use Cons.prems buf in \<open>auto simp: x\<close>)
  ultimately show ?case using buf(2) by (auto simp: x add.assoc)
qed

lemma fill_loop_full: "nread \<ge> length buf \<Longrightarrow> socket_fill_loop ipv6 sp buf nread rs = Some (buf, nread, sp, rs)"
  by (subst socket_fill_loop.simps) simp

lemma fill_loop_waits: "nread < length buf \<Longrightarrow> socket_fill_loop ipv6 sp buf nread [] = None"
  by (subst socket_fill_loop.simps) simp

lemma fill_loop_closed:
  assumes "nread < length buf" "take nread buf = t" "length t = nread"
  shows "\<exists>buf' sp'. socket_fill_loop ipv6 sp buf nread [Got [] f] = Some (buf', nread, sp', []) \<and>
    take nread buf' = t \<and> length buf' = length buf"
  using assms by (subst socket_fill_loop.simps) (auto simp: Let_def)

lemma realloc_length: "length buf \<le> n \<Longrightarrow> length (realloc_bytes junk n buf) = n"
  by (simp add: realloc_bytes_def)

lemma realloc_take: "length buf \<le> n \<Longrightarrow> k \<le> length buf \<Longrightarrow> take k (realloc_bytes junk n buf) = take k buf"
  by (simp add: realloc_bytes_def)

section \<open>Chunks\<close>

fun hex_of :: "nat \<Rightarrow> string" where
  "hex_of n = (if n < 16 then [hexdigit n] else hex_of (n div 16) @ [hexdigit (n mod 16)])"

declare hex_of.simps [simp del]

definition chunk_text :: "string \<Rightarrow> string" where
  "chunk_text d = hex_of (length d) @ EZCFG_HTTP_CRLF_STRING @ d @ EZCFG_HTTP_CRLF_STRING"

definition chunked_body :: "string list \<Rightarrow> string" where
  "chunked_body ds = concat (map chunk_text ds) @ hex_of 0 @ EZCFG_HTTP_CRLF_STRING @ EZCFG_HTTP_CRLF_STRING"

lemma hexdigit_code: "n < 16 \<Longrightarrow> (of_char (hexdigit n) :: nat) = (if n < 10 then 48 + n else 87 + n)"
  by (simp add: hexdigit_def)

lemma hexdigit_plain:
  assumes "n < 16"
  shows "hex_value (hexdigit n) = Some (int n)" "hexdigit n \<noteq> NUL" "hexdigit n \<noteq> CHR 0x0D"
    "\<not> c_isspace (hexdigit n)" "hexdigit n \<noteq> CHR ''-''" "hexdigit n \<noteq> CHR ''+''"
    "hexdigit n \<noteq> CHR ''x''" "hexdigit n \<noteq> CHR ''X''" "hexdigit n = CHR ''0'' \<longleftrightarrow> n = 0"
proof -
  have c: "(of_char (hexdigit n) :: nat) = (if n < 10 then 48 + n else 87 + n)" by (rule hexdigit_code [OF assms])
  show "hex_value (hexdigit n) = Some (int n)" using assms by (auto simp: hex_value_def Let_def c)
  show "\<not> c_isspace (hexdigit n)" using assms by (auto simp: c_isspace_def c split: if_splits)
  have ne: "hexdigit n \<noteq> x" if "(of_char (hexdigit n) :: nat) \<noteq> of_char x" for x using that by metis
  show "hexdigit n \<noteq> NUL" "hexdigit n \<noteq> CHR 0x0D" "hexdigit n \<noteq> CHR ''-''" "hexdigit n \<noteq> CHR ''+''"
    "hexdigit n \<noteq> CHR ''x''" "hexdigit n \<noteq> CHR ''X''"
    using assms by (auto intro!: ne simp: NUL_def c split: if_splits)
  show "hexdigit n = CHR ''0'' \<longleftrightarrow> n = 0"
  proof
    assume "hexdigit n = CHR ''0''"
    then have "(of_char (hexdigit n) :: nat) = 48" by simp
    then show "n = 0" using assms by (auto simp: c split: if_splits)
  next
    assume "n = 0"
    then have "(of_char (hexdigit n) :: nat) = of_char (CHR ''0'')" using c by simp
    then show "hexdigit n = CHR ''0''" by (simp only: of_char_eq_iff)
  qed
qed

lemma hex_of_chars: "c \<in> set (hex_of n) \<Longrightarrow> \<exists>k < 16. c = hexdigit k"
proof (induction n rule: hex_of.induct)
  case (1 n)
  show ?case
  proof (cases "n < 16")
    case True
    then show ?thesis using 1(2) by (auto simp: hex_of.simps [of n])
  next
    case False
    then have "c \<in> set (hex_of (n div 16)) \<or> c = hexdigit (n mod 16)" using 1(2) by (auto simp: hex_of.simps [of n])
    moreover have "n mod 16 < 16" by simp
    ultimately show ?thesis using 1(1) [OF False] by blast
  qed
qed

lemma hex_of_plain: "NUL \<notin> set (hex_of n)" "CHR 0x0D \<notin> set (hex_of n)"
  using hex_of_chars hexdigit_plain(2,3) by metis+

lemma hex_of_value: "hex_digits v (hex_of n @ s) = hex_digits (v * 16 ^ length (hex_of n) + int n) s"
proof (induction n arbitrary: v s rule: hex_of.induct)
  case (1 n)
  show ?case
  proof (cases "n < 16")
    case True
    then show ?thesis by (simp add: hex_of.simps [of n] hexdigit_plain mult.commute)
  next
    case False
    have n: "int (n mod 16) + 16 * int (n div 16) = int n" by (metis mod_mult_div_eq of_nat_add of_nat_mult of_nat_numeral)
    have "hex_digits v (hex_of n @ s) = hex_digits v (hex_of (n div 16) @ hexdigit (n mod 16) # s)"
      using False by (simp add: hex_of.simps [of n])
    also have "\<dots> = hex_digits (16 * (v * 16 ^ length (hex_of (n div 16)) + int (n div 16)) + int (n mod 16)) s"
      by (simp add: 1 [OF False] hexdigit_plain)
    also have "16 * (v * 16 ^ length (hex_of (n div 16)) + int (n div 16)) + int (n mod 16) =
        v * 16 ^ length (hex_of n) + int n"
      using False n by (subst (2) hex_of.simps) (simp add: algebra_simps)
    finally show ?thesis .
  qed
qed

lemma hex_of_head: "\<exists>k u. k < 16 \<and> hex_of n = hexdigit k # u \<and> (k = 0 \<longrightarrow> u = [])"
proof (induction n rule: hex_of.induct)
  case (1 n)
  show ?case
  proof (cases "n < 16")
    case True
    then show ?thesis by (auto simp: hex_of.simps [of n])
  next
    case False
    with 1 obtain k u where k: "k < 16" "hex_of (n div 16) = hexdigit k # u" "k = 0 \<longrightarrow> u = []" by auto
    have "k \<noteq> 0"
    proof
      assume "k = 0"
      then have "hex_digits 0 (hex_of (n div 16) @ []) = 0" using k by (simp add: hexdigit_plain)
      then have "n div 16 = 0" by (simp only: hex_of_value) simp
      then show False using False by simp
    qed
    then show ?thesis using k False by (auto simp: hex_of.simps [of n])
  qed
qed

lemma strtol_hex:
  assumes "int n \<le> LONG_MAX"
  shows "strtol16 (hex_of n @ CHR 0x0D # s) = int n"
proof -
  obtain k u where k: "k < 16" "hex_of n = hexdigit k # u" "k = 0 \<longrightarrow> u = []" using hex_of_head by blast
  have "hex_prefix (hex_of n @ CHR 0x0D # s) = hex_of n @ CHR 0x0D # s"
    using k by (auto simp: hex_prefix_def hexdigit_plain split: list.splits)
  moreover have "hex_digits 0 (hex_of n @ CHR 0x0D # s) = int n"
    by (simp add: hex_of_value hex_value_def Let_def)
  ultimately show ?thesis using k assms
    by (simp add: strtol16_def Let_def hexdigit_plain LONG_MAX_def)
qed

text \<open>The chunks behind \<open>p\<close> go, one after the other, to \<open>dst\<close>.\<close>

lemma chunk_at:
  assumes "drop p buf = chunk_text d @ rest @ NUL # z"
  shows "\<exists>s t. cstr_at buf p = Some s \<and> strstr s EZCFG_HTTP_CRLF_STRING = Some t \<and>
    length s - length t = length (hex_of (length d))"
    and "int (length d) \<le> LONG_MAX \<Longrightarrow> \<exists>s. cstr_at buf p = Some s \<and> strtol16 s = int (length d)"
proof -
  let ?u = "takeWhile (\<lambda>c. c \<noteq> NUL) (d @ EZCFG_HTTP_CRLF_STRING @ rest @ NUL # z)"
  have "takeWhile (\<lambda>c. c \<noteq> NUL) (drop p buf) = hex_of (length d) @ EZCFG_HTTP_CRLF_STRING @ ?u"
    using hex_of_plain(1) [of "length d"]
    by (simp add: assms chunk_text_def EZCFG_HTTP_CRLF_STRING_def NUL_def takeWhile_append split: if_splits)
  moreover have "NUL \<in> set (drop p buf)" by (simp add: assms)
  ultimately have s: "cstr_at buf p = Some (hex_of (length d) @ EZCFG_HTTP_CRLF_STRING @ ?u)" by (simp add: cstr_at_def)
  then show "\<exists>s t. cstr_at buf p = Some s \<and> strstr s EZCFG_HTTP_CRLF_STRING = Some t \<and>
      length s - length t = length (hex_of (length d))"
    using strstr_crlf [OF hex_of_plain(2)] by fastforce
  show "int (length d) \<le> LONG_MAX \<Longrightarrow> \<exists>s. cstr_at buf p = Some s \<and> strtol16 s = int (length d)"
    using s strtol_hex by (simp add: EZCFG_HTTP_CRLF_STRING_def)
qed

lemma chunk_concat:
  assumes "drop p buf = chunked_body ds @ NUL # z" "dst \<le> p" "p \<le> length buf"
    and "\<forall>d\<in>set ds. d \<noteq> [] \<and> int (length d) \<le> EZCFG_HTTP_CHUNK_SIZE"
    and "cstr_at buf p = Some s"
  shows "\<exists>buf'. chunk_concat_loop buf dst p (strtol16 s) = Some (True, 0, buf', dst + length (concat ds)) \<and>
    take (dst + length (concat ds)) buf' = take dst buf @ concat ds"
  using assms
proof (induction ds arbitrary: buf dst p s)
  case Nil
  have "drop p buf = chunk_text [] @ [] @ NUL # z" using Nil.prems(1) by (simp add: chunked_body_def chunk_text_def)
  from chunk_at(2) [OF this] Nil.prems(5) have "strtol16 s = 0" by (simp add: LONG_MAX_def)
  then show ?case by (subst chunk_concat_loop.simps) simp
next
  case (Cons d ds)
  let ?h = "length (hex_of (length d))" and ?n = "length d"
  have d: "d \<noteq> []" "int ?n \<le> EZCFG_HTTP_CHUNK_SIZE" using Cons.prems(4) by simp_all
  have at: "drop p buf = chunk_text d @ chunked_body ds @ NUL # z"
    using Cons.prems(1) by (simp add: chunked_body_def)
  have size: "strtol16 s = int ?n"
    using chunk_at(2) [OF at] Cons.prems(5) d(2) by (simp add: LONG_MAX_def EZCFG_HTTP_CHUNK_SIZE_def)
  obtain t where t: "strstr s EZCFG_HTTP_CRLF_STRING = Some t" "length s - length t = ?h"
    using chunk_at(1) [OF at] Cons.prems(5) by auto
  let ?q = "p + ?h + 2" and ?p' = "p + ?h + 2 + ?n + 2"
  have "length (drop p buf) = length (chunk_text d @ chunked_body ds @ NUL # z)" by (simp only: at)
  then have len: "length buf = p + (?h + 2 + ?n + 2 + length (chunked_body ds @ NUL # z))"
    using Cons.prems(3) by (simp add: chunk_text_def EZCFG_HTTP_CRLF_STRING_def)
  have q: "drop ?q buf = d @ EZCFG_HTTP_CRLF_STRING @ chunked_body ds @ NUL # z"
  proof -
    have "drop ?q buf = drop (?h + 2) (drop p buf)" by (simp add: add.commute add.left_commute)
    then show ?thesis by (simp add: at chunk_text_def EZCFG_HTTP_CRLF_STRING_def)
  qed
  define buf' where "buf' = take dst buf @ d @ drop (dst + ?n) buf"
  have "memmove buf dst ?q (int ?n) = buf_write buf dst (take ?n (drop ?q buf))"
    by (rule memmove_eq [OF refl]) (use len in simp)
  also have "take ?n (drop ?q buf) = d" by (simp only: q) simp
  also have "buf_write buf dst d = Some buf'" using len Cons.prems(2) by (simp add: buf_write_def buf'_def)
  finally have move: "memmove buf dst ?q (int ?n) = Some buf'" .
  have p': "drop ?p' buf' = chunked_body ds @ NUL # z"
  proof -
    have e: "?p' - (dst + ?n) + (dst + ?n) = ?p'" "?n + 2 + ?q = ?p'" using Cons.prems(2) by simp_all
    have "drop ?p' buf' = drop (?p' - (dst + ?n)) (drop (dst + ?n) buf)"
      using Cons.prems(2) len by (simp add: buf'_def)
    also have "\<dots> = drop ?p' buf" by (simp only: drop_drop e(1))
    also have "\<dots> = drop (?n + 2) (drop ?q buf)" by (simp only: drop_drop e(2))
    finally show ?thesis unfolding q by (simp add: EZCFG_HTTP_CRLF_STRING_def)
  qed
  obtain s' where s': "cstr_at buf' ?p' = Some s'" using p' by (simp add: cstr_at_def)
  have buf': "length buf' = length buf" "take (dst + ?n) buf' = take dst buf @ d"
    using Cons.prems(2) len by (simp_all add: buf'_def)
  have "\<exists>b. chunk_concat_loop buf' (dst + ?n) ?p' (strtol16 s') = Some (True, 0, b, dst + ?n + length (concat ds)) \<and>
      take (dst + ?n + length (concat ds)) b = take (dst + ?n) buf' @ concat ds"
    by (rule Cons.IH [OF p' _ _ _ s']) (use Cons.prems(2,4) len buf'(1) in auto)
  moreover have "chunk_concat_loop buf dst p (strtol16 s) = chunk_concat_loop buf' (dst + ?n) ?p' (strtol16 s')"
    using d move s' by (subst chunk_concat_loop.simps) (simp add: size Cons.prems(5) t crlf_length Let_def)
  ultimately show ?case by (simp add: buf'(2) add.assoc)
qed

section \<open>Properties\<close>

text \<open>The head is taken to end behind the first empty line among the bytes read so far, whatever
  control characters stand in front of it; only without an empty line is a head with a control
  character (in any byte but the last) refused, and otherwise it is not complete yet.\<close>

theorem http_header_len_exact:
  "get_http_header_len buf n =
     (case head_end (take n buf) of
        Some k \<Rightarrow> int k
      | None \<Rightarrow> if \<exists>c\<in>set (butlast (take n buf)). head_control c then -1 else 0)"
  by (rule get_header_len)

theorem http_header_len_exact_witness:
  "get_http_header_len ([CHR ''A'', CHR 0x01, CHR 0x0D, CHR 0x0A, CHR 0x0D, CHR 0x0A, CHR ''B'']) 7 = 6 \<and>
   get_http_header_len ([CHR ''A'', CHR 0x01, CHR 0x0D, CHR 0x0A, CHR 0x0D, CHR 0x0A, CHR ''B'']) 4 = -1"
  by (simp add: http_header_len_exact head_control_def prefix_one)

text \<open>C34: it plays no part how the network cuts the bytes of a message into pieces: if its head has no
  control characters and the buffer has room for it, reading the head always comes to its end,
  and the buffer then holds the pieces taken so far, in order.\<close>

theorem head_read_any_split:
  assumes "head_end (piece_bytes xs) = Some k" "\<forall>c\<in>set (take k (piece_bytes xs)). \<not> head_control c"
    and "length (piece_bytes xs) \<le> length buf" "\<forall>x\<in>set xs. fst x \<noteq> []"
  shows "\<exists>buf' sp' us vs. xs = us @ vs \<and>
    ezcfg_socket_read_http_header ipv6 sp buf 0 (pieces xs @ rs) =
      Some (int k, buf', length (piece_bytes us), sp', pieces vs @ rs) \<and>
    take (length (piece_bytes us)) buf' = piece_bytes us \<and> k \<le> length (piece_bytes us)"
  using read_head_pieces [of "[]" xs k buf ipv6 sp rs] assms
  by (simp add: ezcfg_socket_read_http_header_def) blast

definition sample_socket :: ezcfg_socket where
  "sample_socket = \<lparr>so_next = None, so_sock = 5, so_proto = 2, so_backlog = 0, so_domain = AF_INET, so_type = 1,
     so_lsa = \<lparr>usa_len = 0, usa_u = []\<rparr>, so_rsa = \<lparr>usa_len = 0, usa_u = []\<rparr>, so_need_unlink = False,
     so_need_delete = False, so_buffer = None, so_buffer_len = 0\<rparr>"

definition sample_from :: usa where
  "sample_from = \<lparr>usa_len = 0, usa_u = []\<rparr>"

theorem head_read_any_split_witness:
  "\<exists>buf' sp' us vs. [([CHR ''A'', CHR 0x0A, CHR 0x0D], sample_from), ([CHR 0x0A, CHR ''B''], sample_from)] = us @ vs \<and>
    ezcfg_socket_read_http_header False sample_socket (replicate 9 NUL) 0
      (pieces [([CHR ''A'', CHR 0x0A, CHR 0x0D], sample_from), ([CHR 0x0A, CHR ''B''], sample_from)] @ []) =
      Some (4, buf', length (piece_bytes us), sp', pieces vs @ []) \<and>
    take (length (piece_bytes us)) buf' = piece_bytes us \<and> 4 \<le> length (piece_bytes us)"
  using head_read_any_split [of "[([CHR ''A'', CHR 0x0A, CHR 0x0D], sample_from), ([CHR 0x0A, CHR ''B''], sample_from)]" 4
      "replicate 9 NUL" False sample_socket "[]"]
  by (simp add: prefix_one prefix_two head_control_def)

text \<open>C33: a body in chunks is put together: whatever bytes the chunks hold, if each is of the allowed size,
  the buffer has room and the peer closes the connection behind them, reading the body ends, and
  behind the head the buffer holds the chunks one after the other.\<close>

theorem chunked_body_decoded:
  assumes "ezcfg_http_get_header_value http ''Content-Length'' = Some None"
    and "ezcfg_http_get_header_value http ''Transfer-Encoding'' = Some (Some ''chunked'')"
    and "take nread buf = head @ part" "length (head @ part) = nread" "part @ piece_bytes xs = chunked_body ds"
    and "nread + length (piece_bytes xs) < length buf" "length buf \<le> EZCFG_HTTP_MAX_REQUEST_SIZE" "mem 0"
    and "\<forall>x\<in>set xs. fst x \<noteq> []" "\<forall>d\<in>set ds. d \<noteq> [] \<and> int (length d) \<le> EZCFG_HTTP_CHUNK_SIZE"
  shows "\<exists>buf' sp'. ezcfg_socket_read_http_content ipv6 mem junk sp http buf (length head) nread (pieces xs @ [Got [] f]) =
      Some (EZCFG_RET_OK, buf', length (head @ concat ds), sp', []) \<and>
    take (length (head @ concat ds)) buf' = head @ concat ds"
proof -
  let ?m = "nread + length (piece_bytes xs)" and ?t = "(head @ part) @ piece_bytes xs"
  have t: "?t = head @ chunked_body ds" using assms(5) by simp
  from fill_loop_pieces [OF assms(3,4) less_imp_le [OF assms(6)] assms(9), of ipv6 sp "[Got [] f]"]
  obtain b1 sp1 where b1: "socket_fill_loop ipv6 sp buf nread (pieces xs @ [Got [] f]) =
      socket_fill_loop ipv6 sp1 b1 ?m [Got [] f]" "take ?m b1 = ?t" "length b1 = length buf" by blast
  have lt: "length ?t = ?m" using assms(4) by simp
  obtain b2 sp2 where b2: "socket_fill_loop ipv6 sp1 b1 ?m [Got [] f] = Some (b2, ?m, sp2, [])" "take ?m b2 = ?t"
    "length b2 = length buf"
    using fill_loop_closed [OF _ b1(2) lt, of ipv6 sp1 f] assms(6) b1(3) by auto
  have "realloc_bytes junk (length buf) buf = buf" by (simp add: realloc_bytes_def)
  then have read: "chunk_read_loop ipv6 mem junk 0 sp buf nread (pieces xs @ [Got [] f]) = Some (True, b2, ?m, sp2, [])"
    using assms(6-8) b1(1) b2(1) by (subst chunk_read_loop.simps) (simp add: Let_def)
  let ?b3 = "?t @ NUL # drop (Suc ?m) b2"
  have wr: "buf_write b2 ?m [NUL] = Some ?b3" using b2(2,3) assms(6) by (simp add: buf_write_def)
  have at: "drop (length head) ?b3 = chunked_body ds @ NUL # drop (Suc ?m) b2" by (simp add: assms(5))
  obtain s where s: "cstr_at ?b3 (length head) = Some s" using at by (simp add: cstr_at_def)
  have "\<exists>b. chunk_concat_loop ?b3 (length head) (length head) (strtol16 s) =
      Some (True, 0, b, length head + length (concat ds)) \<and>
    take (length head + length (concat ds)) b = take (length head) ?b3 @ concat ds"
    by (rule chunk_concat [OF at order_refl _ assms(10) s]) simp
  then obtain b where b: "chunk_concat_loop ?b3 (length head) (length head) (strtol16 s) =
      Some (True, 0, b, length head + length (concat ds))"
    "take (length head + length (concat ds)) b = head @ concat ds" by auto
  then show ?thesis
    using assms(1,2) read wr s
    by (auto simp: ezcfg_socket_read_http_content_def EZCFG_HTTP_CHUNK_SIZE_def)
qed

text \<open>With a given length, the code waits for more than the body whenever the buffer has room behind
  the bytes already read: when exactly the missing bytes arrive and the connection stays open, reading
  returns only if the buffer was full; when the peer then closes it, the whole body has been read.\<close>

theorem content_length_waits:
  assumes "ezcfg_http_get_header_value http ''Content-Length'' = Some (Some v)" "atoi v \<le> EZCFG_HTTP_MAX_BUFFER_SIZE"
    and "take nread buf = head @ part" "length (head @ part) = nread" "nread \<le> length buf"
    and "int (length part) < atoi v" "int (length (part @ piece_bytes xs)) = atoi v" "mem 0" "\<forall>x\<in>set xs. fst x \<noteq> []"
  shows "\<exists>buf' sp' sp''. take (length head + nat (atoi v)) buf' = head @ part @ piece_bytes xs \<and>
    ezcfg_socket_read_http_content ipv6 mem junk sp http buf (length head) nread (pieces xs) =
      (if nread < length buf then None else Some (EZCFG_RET_OK, buf', length head + nat (atoi v), sp', [])) \<and>
    (nread < length buf \<longrightarrow>
      ezcfg_socket_read_http_content ipv6 mem junk sp http buf (length head) nread (pieces xs @ [Got [] f]) =
        Some (EZCFG_RET_OK, buf', length head + nat (atoi v), sp'', []))"
proof -
  let ?miss = "length (piece_bytes xs)" and ?t = "(head @ part) @ piece_bytes xs"
  let ?b = "realloc_bytes junk (length buf + ?miss) buf"
  have have_len: "int nread - int (length head) = int (length part)" using assms(4) by auto
  have miss: "nat (atoi v - int (length part)) = ?miss" "nread + ?miss = length head + nat (atoi v)"
    using assms(4,7) by auto
  have b: "take nread ?b = head @ part" "length ?b = length buf + ?miss"
    using assms(3,5) by (simp_all add: realloc_take realloc_length)
  have content: "ezcfg_socket_read_http_content ipv6 mem junk sp http buf (length head) nread rs =
      map_option (\<lambda>(buf', nread', sp', rs').
        (if int nread' - int (length head) < atoi v then EZCFG_RET_FAIL else EZCFG_RET_OK, buf', nread', sp', rs'))
        (socket_fill_loop ipv6 sp ?b nread rs)" for rs
    using assms(1,2,6,8) miss(1)
    by (cases "socket_fill_loop ipv6 sp ?b nread rs")
      (auto simp: ezcfg_socket_read_http_content_def have_len Let_def)
  have room: "nread + ?miss \<le> length ?b" using assms(5) b(2) by simp
  have fill: "\<exists>b1 sp1. socket_fill_loop ipv6 sp ?b nread (pieces xs @ rs) = socket_fill_loop ipv6 sp1 b1 (nread + ?miss) rs \<and>
      take (nread + ?miss) b1 = ?t \<and> length b1 = length ?b" for rs
    by (rule fill_loop_pieces [OF b(1) assms(4) room assms(9)])
  obtain b1 sp1 where b1: "socket_fill_loop ipv6 sp ?b nread (pieces xs @ []) = socket_fill_loop ipv6 sp1 b1 (nread + ?miss) []"
    "take (nread + ?miss) b1 = ?t" "length b1 = length ?b" using fill [of "[]"] by blast
  show ?thesis
  proof (cases "nread < length buf")
    case False
    then have "socket_fill_loop ipv6 sp1 b1 (nread + ?miss) [] = Some (b1, nread + ?miss, sp1, [])"
      using b1(3) b(2) by (simp add: fill_loop_full)
    then show ?thesis using b1(1,2) False miss(2)
      by (intro exI [of _ b1] exI [of _ sp1]) (simp add: content)
  next
    case True
    then have wait: "socket_fill_loop ipv6 sp1 b1 (nread + ?miss) [] = None"
      using b1(3) b(2) by (simp add: fill_loop_waits)
    obtain b2 sp2 where b2: "socket_fill_loop ipv6 sp ?b nread (pieces xs @ [Got [] f]) =
        socket_fill_loop ipv6 sp2 b2 (nread + ?miss) [Got [] f]"
      "take (nread + ?miss) b2 = ?t" "length b2 = length ?b" using fill [of "[Got [] f]"] by blast
    have "length ?t = nread + ?miss" using assms(4) by simp
    from fill_loop_closed [OF _ b2(2) this, of ipv6 sp2 f] True b2(3) b(2) obtain b3 sp3 where
      "socket_fill_loop ipv6 sp2 b2 (nread + ?miss) [Got [] f] = Some (b3, nread + ?miss, sp3, [])"
      "take (nread + ?miss) b3 = ?t" by auto
    then show ?thesis using b1(1) b2(1) wait True miss(2)
      by (intro exI [of _ b3] exI [of _ sp3]) (simp add: content)
  qed
qed

definition one_header_http :: "string \<Rightarrow> string \<Rightarrow> http" where
  "one_header_http name val = sample_http\<lparr>ht_heap := sample_http_heap\<lparr>cells :=
     [0 \<mapsto> \<lparr>ln_data = Some \<lparr>hh_name = name, hh_value = Some val, is_known_header = True\<rparr>, ln_next = None\<rparr>]\<rparr>\<rparr>"

lemma one_header_value:
  "ezcfg_http_get_header_value (one_header_http name val) n = Some (if strcasecmp n name = 0 then Some val else None)"
  by (simp add: ezcfg_http_get_header_value_def get_http_header_value_def header_value_loop.simps one_header_http_def
      sample_http_def)

definition sample_chunked :: string where
  "sample_chunked = chunked_body [''hi'', ''you'']"

lemma sample_chunked_length: "length sample_chunked = 20"
  by (simp add: sample_chunked_def chunked_body_def chunk_text_def hex_of.simps)

theorem chunked_body_decoded_witness:
  "\<exists>buf' sp'. ezcfg_socket_read_http_content False (\<lambda>_. True) (\<lambda>_. NUL) sample_socket
      (one_header_http ''Transfer-Encoding'' ''chunked'') (CHR ''H'' # replicate 99 NUL) (length ''H'') 1
      (pieces [(take 5 sample_chunked, sample_from), (drop 5 sample_chunked, sample_from)] @ [Got [] sample_from]) =
      Some (EZCFG_RET_OK, buf', length (''H'' @ concat [''hi'', ''you'']), sp', []) \<and>
    take (length (''H'' @ concat [''hi'', ''you''])) buf' = ''H'' @ concat [''hi'', ''you'']"
proof (rule chunked_body_decoded [where part = "[]"])
  show "ezcfg_http_get_header_value (one_header_http ''Transfer-Encoding'' ''chunked'') ''Content-Length'' = Some None"
    "ezcfg_http_get_header_value (one_header_http ''Transfer-Encoding'' ''chunked'') ''Transfer-Encoding'' = Some (Some ''chunked'')"
    by (simp_all add: one_header_value)
  show "[] @ piece_bytes [(take 5 sample_chunked, sample_from), (drop 5 sample_chunked, sample_from)] = chunked_body [''hi'', ''you'']"
    by (simp add: sample_chunked_def)
  show "\<forall>x\<in>set [(take 5 sample_chunked, sample_from), (drop 5 sample_chunked, sample_from)]. fst x \<noteq> []"
    using sample_chunked_length by (auto simp: take_eq_Nil)
  show "1 + length (piece_bytes [(take 5 sample_chunked, sample_from), (drop 5 sample_chunked, sample_from)])
      < length (CHR ''H'' # replicate 99 NUL)"
    using sample_chunked_length by simp
qed (simp_all add: EZCFG_HTTP_MAX_REQUEST_SIZE_def EZCFG_HTTP_CHUNK_SIZE_def)

theorem content_length_waits_witness:
  "ezcfg_socket_read_http_content False (\<lambda>_. True) (\<lambda>_. NUL) sample_socket (one_header_http ''Content-Length'' ''3'')
      ''Hx_____'' (length ''H'') 2 (pieces [(''yz'', sample_from)]) = None \<and>
    (\<exists>buf' sp'. ezcfg_socket_read_http_content False (\<lambda>_. True) (\<lambda>_. NUL) sample_socket (one_header_http ''Content-Length'' ''3'')
      ''Hx_____'' (length ''H'') 2 (pieces [(''yz'', sample_from)] @ [Got [] sample_from]) = Some (EZCFG_RET_OK, buf', 4, sp', []) \<and>
      take 4 buf' = ''Hxyz'')"
proof -
  have "atoi ''3'' = 3" by (simp add: atoi_def c_isspace_def is_digit_def)
  then show ?thesis
    using content_length_waits [of "one_header_http ''Content-Length'' ''3''" "''3''" 2 "''Hx_____''" "''H''" "''x''"
        "[(''yz'', sample_from)]" "\<lambda>_. True" False "\<lambda>_. NUL" sample_socket sample_from]
    by (auto simp: one_header_value EZCFG_HTTP_MAX_BUFFER_SIZE_def)
qed

end
