(* ===== verification/Aes.thy ===== *)
theory Aes
  imports "HOL-Library.Word" "HOL-Library.Monad_Syntax"
begin

text \<open>
  The cipher of the boot loader, \<^verbatim>\<open>u-boot-2010.06/lib/aes.c\<close>: the tables that \<^verbatim>\<open>gen_tabs\<close> computes, the
  key schedule, encryption and decryption of one block.  Bytes and table entries are words of 8 and
  32 bits, the tables a record of lists; key and block are lists of bytes that are read in words.
\<close>

unbundle bit_operations_syntax

section \<open>The tables\<close>

type_synonym u8 = "8 word"
type_synonym u32 = "32 word"

record aes_tabs =
  pow_tab :: "u8 list"
  log_tab :: "u8 list"
  sbx_tab :: "u8 list"
  isb_tab :: "u8 list"
  rco_tab :: "u32 list"
  ft_tab :: "u32 list list"
  it_tab :: "u32 list list"
  fl_tab :: "u32 list list"
  il_tab :: "u32 list list"

definition zero_tabs :: aes_tabs where
  "zero_tabs = \<lparr>pow_tab = replicate 256 0, log_tab = replicate 256 0, sbx_tab = replicate 256 0,
     isb_tab = replicate 256 0, rco_tab = replicate 10 0, ft_tab = replicate 4 (replicate 256 0),
     it_tab = replicate 4 (replicate 256 0), fl_tab = replicate 4 (replicate 256 0), il_tab = replicate 4 (replicate 256 0)\<rparr>"

definition byte :: "u32 \<Rightarrow> nat \<Rightarrow> u8" where
  "byte x n = ucast (drop_bit (8 * n) x)"

definition rol32 :: "u32 \<Rightarrow> nat \<Rightarrow> u32" where
  "rol32 word shift = push_bit shift word OR drop_bit (32 - shift) word"

definition ror32 :: "u32 \<Rightarrow> nat \<Rightarrow> u32" where
  "ror32 word shift = drop_bit shift word OR push_bit (32 - shift) word"

definition f_mult :: "aes_tabs \<Rightarrow> u8 \<Rightarrow> u8 \<Rightarrow> u8" where
  "f_mult T a b =
     (let aa = log_tab T ! unat a; cc = aa + log_tab T ! unat b in
      pow_tab T ! (unat cc + (if cc < aa then 1 else 0)))"

definition ff_mult :: "aes_tabs \<Rightarrow> u8 \<Rightarrow> u8 \<Rightarrow> u8" where
  "ff_mult T a b = (if a \<noteq> 0 \<and> b \<noteq> 0 then f_mult T a b else 0)"

definition shl1_reduce :: "u8 \<Rightarrow> u8" where
  "shl1_reduce p = push_bit 1 p XOR (if p AND 0x80 \<noteq> 0 then 0x1b else 0)"

text \<open>The loops of \<^verbatim>\<open>gen_tabs\<close>, each as what one round does with its index.\<close>

definition pow_step :: "nat \<Rightarrow> u8 \<times> aes_tabs \<Rightarrow> u8 \<times> aes_tabs" where
  "pow_step i s =
     (case s of (p, T) \<Rightarrow>
        (p XOR shl1_reduce p,
         T\<lparr>pow_tab := (pow_tab T)[i := p], log_tab := (log_tab T)[unat p := of_nat i]\<rparr>))"

definition rco_step :: "nat \<Rightarrow> u8 \<times> aes_tabs \<Rightarrow> u8 \<times> aes_tabs" where
  "rco_step i s = (case s of (p, T) \<Rightarrow> (shl1_reduce p, T\<lparr>rco_tab := (rco_tab T)[i := ucast p]\<rparr>))"

definition sbox_byte :: "aes_tabs \<Rightarrow> nat \<Rightarrow> u8" where
  "sbox_byte T i =
     (let p = (if i \<noteq> 0 then pow_tab T ! (255 - unat (log_tab T ! i)) else 0);
          q = (drop_bit 7 p OR push_bit 1 p) XOR (drop_bit 6 p OR push_bit 2 p)
      in p XOR (0x63 XOR q XOR (drop_bit 6 q OR push_bit 2 q)))"

definition sbox_step :: "nat \<Rightarrow> aes_tabs \<Rightarrow> aes_tabs" where
  "sbox_step i T =
     (let p = sbox_byte T i in
      T\<lparr>sbx_tab := (sbx_tab T)[i := p], isb_tab := (isb_tab T)[unat p := of_nat i]\<rparr>)"

definition put_rotated :: "nat \<Rightarrow> u32 \<Rightarrow> u32 list list \<Rightarrow> u32 list list" where
  "put_rotated i t tab =
     [(tab ! 0)[i := t], (tab ! 1)[i := rol32 t 8], (tab ! 2)[i := rol32 t 16], (tab ! 3)[i := rol32 t 24]]"

definition round_step :: "nat \<Rightarrow> aes_tabs \<Rightarrow> aes_tabs" where
  "round_step i T =
     (let p = sbx_tab T ! i;
          tf = ucast (ff_mult T 2 p) OR push_bit 8 (ucast p) OR push_bit 16 (ucast p) OR push_bit 24 (ucast (ff_mult T 3 p));
          q = isb_tab T ! i;
          ti = ucast (ff_mult T 14 q) OR push_bit 8 (ucast (ff_mult T 9 q)) OR
               push_bit 16 (ucast (ff_mult T 13 q)) OR push_bit 24 (ucast (ff_mult T 11 q))
      in T\<lparr>fl_tab := put_rotated i (ucast p) (fl_tab T), ft_tab := put_rotated i tf (ft_tab T),
           il_tab := put_rotated i (ucast q) (il_tab T), it_tab := put_rotated i ti (it_tab T)\<rparr>)"

definition gen_tabs :: "aes_tabs \<Rightarrow> aes_tabs" where
  "gen_tabs T =
     (let T1 = snd (fold pow_step [0 ..< 256] (1, T));
          T2 = T1\<lparr>log_tab := (log_tab T1)[1 := 0]\<rparr>;
          T3 = snd (fold rco_step [0 ..< 10] (1, T2));
          T4 = fold sbox_step [0 ..< 256] T3
      in fold round_step [0 ..< 256] T4)"

section \<open>The key schedule\<close>

definition E_KEY :: nat where "E_KEY = 0"

definition D_KEY :: nat where "D_KEY = 60"

record aes_ctx =
  key_length :: nat
  buf :: "u32 list"

definition AES_MIN_KEY_SIZE :: nat where "AES_MIN_KEY_SIZE = 16"

definition AES_MAX_KEY_SIZE :: nat where "AES_MAX_KEY_SIZE = 32"

text \<open>The \<open>i\<close>-th word of a text of bytes, the lowest byte first.\<close>

definition le32_at :: "u8 list \<Rightarrow> nat \<Rightarrow> u32" where
  "le32_at bs i =
     ucast (bs ! (4 * i)) OR push_bit 8 (ucast (bs ! (4 * i + 1))) OR
     push_bit 16 (ucast (bs ! (4 * i + 2))) OR push_bit 24 (ucast (bs ! (4 * i + 3)))"

definition ls_box :: "aes_tabs \<Rightarrow> u32 \<Rightarrow> u32" where
  "ls_box T x =
     fl_tab T ! 0 ! unat (byte x 0) XOR fl_tab T ! 1 ! unat (byte x 1) XOR
     fl_tab T ! 2 ! unat (byte x 2) XOR fl_tab T ! 3 ! unat (byte x 3)"

text \<open>The words from \<open>src\<close> on are combined with \<open>t\<close> one after the other and stored from \<open>dst\<close> on.\<close>

fun key_chain :: "nat \<Rightarrow> nat \<Rightarrow> nat \<Rightarrow> u32 \<times> u32 list \<Rightarrow> u32 \<times> u32 list" where
  "key_chain 0 src dst (t, b) = (t, b)"
| "key_chain (Suc n) src dst (t, b) =
     (let t' = t XOR b ! src in key_chain n (Suc src) (Suc dst) (t', b[dst := t']))"

definition loop4 :: "aes_tabs \<Rightarrow> nat \<Rightarrow> u32 \<times> u32 list \<Rightarrow> u32 \<times> u32 list" where
  "loop4 T i s = key_chain 4 (4 * i) (4 * i + 4) (ls_box T (ror32 (fst s) 8) XOR rco_tab T ! i, snd s)"

definition loop6 :: "aes_tabs \<Rightarrow> nat \<Rightarrow> u32 \<times> u32 list \<Rightarrow> u32 \<times> u32 list" where
  "loop6 T i s = key_chain 6 (6 * i) (6 * i + 6) (ls_box T (ror32 (fst s) 8) XOR rco_tab T ! i, snd s)"

definition loop8 :: "aes_tabs \<Rightarrow> nat \<Rightarrow> u32 \<times> u32 list \<Rightarrow> u32 \<times> u32 list" where
  "loop8 T i s =
     (case key_chain 4 (8 * i) (8 * i + 8) (ls_box T (ror32 (fst s) 8) XOR rco_tab T ! i, snd s) of
        (t, b) \<Rightarrow> key_chain 4 (8 * i + 4) (8 * i + 12) (ls_box T t, b))"

definition star_x :: "u32 \<Rightarrow> u32" where
  "star_x x = push_bit 1 (x AND 0x7f7f7f7f) XOR (drop_bit 7 (x AND 0x80808080) * 0x1b)"

definition imix_col :: "u32 \<Rightarrow> u32" where
  "imix_col x =
     (let u = star_x x; v = star_x u; w = star_x v; t = w XOR x in
      (u XOR v XOR w) XOR (ror32 (u XOR t) 8 XOR ror32 (v XOR t) 16 XOR ror32 t 24))"

text \<open>A key shorter than its announced length is read past its end.\<close>

definition aes_set_key :: "aes_tabs \<Rightarrow> aes_ctx \<Rightarrow> u8 list \<Rightarrow> nat \<Rightarrow> (int \<times> aes_ctx) option" where
  "aes_set_key T ctx in_key key_len =
     (if key_len mod 8 \<noteq> 0 \<or> key_len < AES_MIN_KEY_SIZE \<or> key_len > AES_MAX_KEY_SIZE then Some (-1, ctx)
      else if length in_key < key_len then None
      else
        let b0 = fold (\<lambda>i b. b[E_KEY + i := le32_at in_key i]) [0 ..< key_len div 4] (buf ctx);
            t = b0 ! (E_KEY + key_len div 4 - 1);
            b1 = snd (if key_len = 16 then fold (loop4 T) [0 ..< 10] (t, b0)
                      else if key_len = 24 then fold (loop6 T) [0 ..< 8] (t, b0)
                      else fold (loop8 T) [0 ..< 7] (t, b0));
            b2 = fold (\<lambda>i b. b[D_KEY + i := b ! (E_KEY + i)]) [0 ..< 4] b1;
            b3 = fold (\<lambda>i b. b[D_KEY + i := imix_col (b ! (E_KEY + i))]) [4 ..< key_len + 24] b2
        in Some (0, ctx\<lparr>key_length := key_len, buf := b3\<rparr>))"

section \<open>Encryption\<close>

definition f_rn :: "aes_tabs \<Rightarrow> u32 list \<Rightarrow> u32 list \<Rightarrow> nat \<Rightarrow> nat \<Rightarrow> u32" where
  "f_rn T b bi k n =
     ft_tab T ! 0 ! unat (byte (bi ! n) 0) XOR ft_tab T ! 1 ! unat (byte (bi ! ((n + 1) AND 3)) 1) XOR
     ft_tab T ! 2 ! unat (byte (bi ! ((n + 2) AND 3)) 2) XOR ft_tab T ! 3 ! unat (byte (bi ! ((n + 3) AND 3)) 3) XOR
     b ! (k + n)"

definition f_rl :: "aes_tabs \<Rightarrow> u32 list \<Rightarrow> u32 list \<Rightarrow> nat \<Rightarrow> nat \<Rightarrow> u32" where
  "f_rl T b bi k n =
     fl_tab T ! 0 ! unat (byte (bi ! n) 0) XOR fl_tab T ! 1 ! unat (byte (bi ! ((n + 1) AND 3)) 1) XOR
     fl_tab T ! 2 ! unat (byte (bi ! ((n + 2) AND 3)) 2) XOR fl_tab T ! 3 ! unat (byte (bi ! ((n + 3) AND 3)) 3) XOR
     b ! (k + n)"

definition f_nround :: "aes_tabs \<Rightarrow> u32 list \<Rightarrow> u32 list \<times> nat \<Rightarrow> u32 list \<times> nat" where
  "f_nround T b s = (case s of (bi, k) \<Rightarrow> (map (f_rn T b bi k) [0, 1, 2, 3], k + 4))"

definition f_lround :: "aes_tabs \<Rightarrow> u32 list \<Rightarrow> u32 list \<times> nat \<Rightarrow> u32 list" where
  "f_lround T b s = (case s of (bi, k) \<Rightarrow> map (f_rl T b bi k) [0, 1, 2, 3])"

definition store_le32 :: "u32 list \<Rightarrow> u8 list" where
  "store_le32 ws = concat (map (\<lambda>w. [byte w 0, byte w 1, byte w 2, byte w 3]) ws)"

text \<open>The two buffers of the code take turns; the key length decides how many rounds come first.\<close>

definition aes_encrypt :: "aes_tabs \<Rightarrow> aes_ctx \<Rightarrow> u8 list \<Rightarrow> u8 list" where
  "aes_encrypt T ctx src =
     (let b = buf ctx;
          s0 = (map (\<lambda>i. le32_at src i XOR b ! (E_KEY + i)) [0, 1, 2, 3], E_KEY + 4);
          s1 = (if key_length ctx > 24 then f_nround T b (f_nround T b s0) else s0);
          s2 = (if key_length ctx > 16 then f_nround T b (f_nround T b s1) else s1);
          s3 = (f_nround T b ^^ 9) s2
      in store_le32 (f_lround T b s3))"

section \<open>Decryption\<close>

definition i_rn :: "aes_tabs \<Rightarrow> u32 list \<Rightarrow> u32 list \<Rightarrow> nat \<Rightarrow> nat \<Rightarrow> u32" where
  "i_rn T b bi k n =
     it_tab T ! 0 ! unat (byte (bi ! n) 0) XOR it_tab T ! 1 ! unat (byte (bi ! ((n + 3) AND 3)) 1) XOR
     it_tab T ! 2 ! unat (byte (bi ! ((n + 2) AND 3)) 2) XOR it_tab T ! 3 ! unat (byte (bi ! ((n + 1) AND 3)) 3) XOR
     b ! (k + n)"

definition i_rl :: "aes_tabs \<Rightarrow> u32 list \<Rightarrow> u32 list \<Rightarrow> nat \<Rightarrow> nat \<Rightarrow> u32" where
  "i_rl T b bi k n =
     il_tab T ! 0 ! unat (byte (bi ! n) 0) XOR il_tab T ! 1 ! unat (byte (bi ! ((n + 3) AND 3)) 1) XOR
     il_tab T ! 2 ! unat (byte (bi ! ((n + 2) AND 3)) 2) XOR il_tab T ! 3 ! unat (byte (bi ! ((n + 1) AND 3)) 3) XOR
     b ! (k + n)"

definition i_nround :: "aes_tabs \<Rightarrow> u32 list \<Rightarrow> u32 list \<times> nat \<Rightarrow> u32 list \<times> nat" where
  "i_nround T b s = (case s of (bi, k) \<Rightarrow> (map (i_rn T b bi k) [0, 1, 2, 3], k - 4))"

definition i_lround :: "aes_tabs \<Rightarrow> u32 list \<Rightarrow> u32 list \<times> nat \<Rightarrow> u32 list" where
  "i_lround T b s = (case s of (bi, k) \<Rightarrow> map (i_rl T b bi k) [0, 1, 2, 3])"

definition aes_decrypt :: "aes_tabs \<Rightarrow> aes_ctx \<Rightarrow> u8 list \<Rightarrow> u8 list" where
  "aes_decrypt T ctx src =
     (let b = buf ctx; key_len = key_length ctx;
          s0 = (map (\<lambda>i. le32_at src i XOR b ! (E_KEY + key_len + 24 + i)) [0, 1, 2, 3], D_KEY + key_len + 20);
          s1 = (if key_len > 24 then i_nround T b (i_nround T b s0) else s0);
          s2 = (if key_len > 16 then i_nround T b (i_nround T b s1) else s1);
          s3 = (i_nround T b ^^ 9) s2
      in store_le32 (i_lround T b s3))"

end
