(* ===== verification/Aes_Field.thy ===== *)
theory Aes_Field
  imports Aes
begin

text \<open>
  The field with 256 elements behind the cipher, and the tables: multiplication is defined from
  shifting and reducing, the generator 3 runs through all elements but zero, and the tables that
  \<^verbatim>\<open>gen_tabs\<close> leaves are those of powers, logarithms, the substitution and its inverse.
\<close>

section \<open>Multiplication\<close>

text \<open>Multiplication by the polynomial x.\<close>

definition xtime :: "u8 \<Rightarrow> u8" where
  "xtime b = push_bit 1 b XOR (if bit b 7 then 0x1b else 0)"

lemma and_80: "(p :: u8) AND 0x80 \<noteq> 0 \<longleftrightarrow> bit p 7"
  using and_exp_eq_0_iff_not_bit [of p 7] by simp

lemma shl1_reduce_xtime [simp]: "shl1_reduce p = xtime p"
  by (simp add: shl1_reduce_def xtime_def and_80)

lemma xtime_xor: "xtime (a XOR b) = xtime a XOR xtime b"
  by (simp add: xtime_def push_bit_xor bit_xor_iff xor.assoc xor.left_commute)

lemma xtime_0 [simp]: "xtime 0 = 0"
  by (simp add: xtime_def)

text \<open>The product as a sum over the bits of the first factor.\<close>

definition gmul :: "u8 \<Rightarrow> u8 \<Rightarrow> u8" where
  "gmul a b = fold (\<lambda>k r. r XOR (if bit a k then (xtime ^^ k) b else 0)) [0 ..< 8] 0"

lemma upt_8: "[0 ..< 8] = [0, 1, 2, 3, 4, 5, 6, 7]"
  by (simp add: upt_conv_Cons)

lemma xtime_pow_xor: "(xtime ^^ k) (a XOR b) = (xtime ^^ k) a XOR (xtime ^^ k) b"
  by (induction k) (simp_all add: xtime_xor)

lemma gmul_xor: "gmul a (b XOR c) = gmul a b XOR gmul a c"
proof -
  have "fold (\<lambda>k r. r XOR (if bit a k then (xtime ^^ k) (b XOR c) else 0)) ks (r XOR s) =
    fold (\<lambda>k r. r XOR (if bit a k then (xtime ^^ k) b else 0)) ks r XOR
    fold (\<lambda>k r. r XOR (if bit a k then (xtime ^^ k) c else 0)) ks s" for ks r s
  proof (induction ks arbitrary: r s)
    case (Cons k ks)
    have "(r XOR s) XOR (if bit a k then (xtime ^^ k) (b XOR c) else 0) =
        (r XOR (if bit a k then (xtime ^^ k) b else 0)) XOR (s XOR (if bit a k then (xtime ^^ k) c else 0))"
      by (simp add: xtime_pow_xor xor.assoc xor.left_commute)
    then show ?case using Cons.IH by simp
  qed simp
  from this [of "[0 ..< 8]" 0 0] show ?thesis by (simp add: gmul_def)
qed

lemma gmul_xtime: "gmul a (xtime b) = xtime (gmul a b)"
proof -
  have "fold (\<lambda>k r. r XOR (if bit a k then (xtime ^^ k) (xtime b) else 0)) ks (xtime r) =
    xtime (fold (\<lambda>k r. r XOR (if bit a k then (xtime ^^ k) b else 0)) ks r)" for ks r
  proof (induction ks arbitrary: r)
    case (Cons k ks)
    have "xtime r XOR (if bit a k then (xtime ^^ k) (xtime b) else 0) =
        xtime (r XOR (if bit a k then (xtime ^^ k) b else 0))"
      by (simp add: xtime_xor funpow_swap1)
    then show ?case using Cons.IH by simp
  qed simp
  from this [of "[0 ..< 8]" 0] show ?thesis by (simp add: gmul_def)
qed

lemma gmul_0 [simp]: "gmul a 0 = 0"
  using gmul_xor [of a 0 0] by simp

lemma fold_bits: "m \<le> 8 \<Longrightarrow> fold (\<lambda>k r. r XOR (if bit a k then push_bit k 1 else 0)) [0 ..< m] 0 = take_bit m (a :: u8)"
proof (induction m)
  case (Suc m)
  have "take_bit (Suc m) a = take_bit m a XOR (if bit a m then push_bit m 1 else 0)"
    by (rule bit_word_eqI) (auto simp: bit_xor_iff bit_take_bit_iff bit_exp_iff less_Suc_eq)
  then show ?case using Suc by simp
qed simp

lemma xtime_pow_1: "k < 8 \<Longrightarrow> (xtime ^^ k) 1 = push_bit k 1"
proof (induction k)
  case (Suc k)
  then have "\<not> bit (2 ^ k :: u8) 7" by (simp add: bit_exp_iff)
  then show ?case using Suc by (simp add: xtime_def push_bit_push_bit)
qed simp

lemma gmul_1 [simp]: "gmul a 1 = a"
proof -
  have "gmul a 1 = fold (\<lambda>k r. r XOR (if bit a k then push_bit k 1 else 0)) [0 ..< 8] 0"
    unfolding gmul_def by (rule fold_cong) (auto simp: xtime_pow_1)
  also have "\<dots> = a" using fold_bits [of 8 a] take_bit_length_eq [of a] by simp
  finally show ?thesis .
qed

lemma gmul_numerals:
  "gmul 1 b = b" "gmul 2 b = xtime b" "gmul 3 b = b XOR xtime b"
  "gmul 9 b = b XOR xtime (xtime (xtime b))"
  "gmul 11 b = b XOR xtime b XOR xtime (xtime (xtime b))"
  "gmul 13 b = b XOR xtime (xtime b) XOR xtime (xtime (xtime b))"
  "gmul 14 b = xtime b XOR xtime (xtime b) XOR xtime (xtime (xtime b))"
  by (simp_all add: gmul_def upt_8 eval_nat_numeral xor.assoc)

section \<open>The generator\<close>

definition g_step :: "u8 \<Rightarrow> u8" where
  "g_step p = p XOR xtime p"

definition gpow :: "nat \<Rightarrow> u8" where
  "gpow n = (g_step ^^ n) 1"

lemma gpow_0 [simp]: "gpow 0 = 1"
  and gpow_Suc: "gpow (Suc n) = g_step (gpow n)"
  by (simp_all add: gpow_def)

lemma g_step_xor: "g_step (a XOR b) = g_step a XOR g_step b"
  by (simp add: g_step_def xtime_xor xor.assoc xor.left_commute)

lemma gmul_gpow: "gmul a (gpow n) = (g_step ^^ n) a"
  by (induction n) (simp_all add: gpow_Suc g_step_def gmul_xor gmul_xtime)

lemma gpow_add: "gmul (gpow i) (gpow j) = gpow (i + j)"
  by (simp add: gmul_gpow) (simp add: gpow_def flip: funpow_add [THEN fun_cong, unfolded comp_def] add: add.commute)

text \<open>The powers from the first to the 255th, which is 1 again; the others are all different.\<close>

definition powers :: "u8 list" where
  "powers =
    [0x03, 0x05, 0x0f, 0x11, 0x33, 0x55, 0xff, 0x1a, 0x2e, 0x72, 0x96, 0xa1, 0xf8, 0x13, 0x35, 0x5f,
     0xe1, 0x38, 0x48, 0xd8, 0x73, 0x95, 0xa4, 0xf7, 0x02, 0x06, 0x0a, 0x1e, 0x22, 0x66, 0xaa, 0xe5,
     0x34, 0x5c, 0xe4, 0x37, 0x59, 0xeb, 0x26, 0x6a, 0xbe, 0xd9, 0x70, 0x90, 0xab, 0xe6, 0x31, 0x53,
     0xf5, 0x04, 0x0c, 0x14, 0x3c, 0x44, 0xcc, 0x4f, 0xd1, 0x68, 0xb8, 0xd3, 0x6e, 0xb2, 0xcd, 0x4c,
     0xd4, 0x67, 0xa9, 0xe0, 0x3b, 0x4d, 0xd7, 0x62, 0xa6, 0xf1, 0x08, 0x18, 0x28, 0x78, 0x88, 0x83,
     0x9e, 0xb9, 0xd0, 0x6b, 0xbd, 0xdc, 0x7f, 0x81, 0x98, 0xb3, 0xce, 0x49, 0xdb, 0x76, 0x9a, 0xb5,
     0xc4, 0x57, 0xf9, 0x10, 0x30, 0x50, 0xf0, 0x0b, 0x1d, 0x27, 0x69, 0xbb, 0xd6, 0x61, 0xa3, 0xfe,
     0x19, 0x2b, 0x7d, 0x87, 0x92, 0xad, 0xec, 0x2f, 0x71, 0x93, 0xae, 0xe9, 0x20, 0x60, 0xa0, 0xfb,
     0x16, 0x3a, 0x4e, 0xd2, 0x6d, 0xb7, 0xc2, 0x5d, 0xe7, 0x32, 0x56, 0xfa, 0x15, 0x3f, 0x41, 0xc3,
     0x5e, 0xe2, 0x3d, 0x47, 0xc9, 0x40, 0xc0, 0x5b, 0xed, 0x2c, 0x74, 0x9c, 0xbf, 0xda, 0x75, 0x9f,
     0xba, 0xd5, 0x64, 0xac, 0xef, 0x2a, 0x7e, 0x82, 0x9d, 0xbc, 0xdf, 0x7a, 0x8e, 0x89, 0x80, 0x9b,
     0xb6, 0xc1, 0x58, 0xe8, 0x23, 0x65, 0xaf, 0xea, 0x25, 0x6f, 0xb1, 0xc8, 0x43, 0xc5, 0x54, 0xfc,
     0x1f, 0x21, 0x63, 0xa5, 0xf4, 0x07, 0x09, 0x1b, 0x2d, 0x77, 0x99, 0xb0, 0xcb, 0x46, 0xca, 0x45,
     0xcf, 0x4a, 0xde, 0x79, 0x8b, 0x86, 0x91, 0xa8, 0xe3, 0x3e, 0x42, 0xc6, 0x51, 0xf3, 0x0e, 0x12,
     0x36, 0x5a, 0xee, 0x29, 0x7b, 0x8d, 0x8c, 0x8f, 0x8a, 0x85, 0x94, 0xa7, 0xf2, 0x0d, 0x17, 0x39,
     0x4b, 0xdd, 0x7c, 0x84, 0x97, 0xa2, 0xfd, 0x1c, 0x24, 0x6c, 0xb4, 0xc7, 0x52, 0xf6, 0x01]"

fun steps_along :: "u8 list \<Rightarrow> u8 \<Rightarrow> bool" where
  "steps_along [] p \<longleftrightarrow> True"
| "steps_along (q # qs) p \<longleftrightarrow> g_step p = q \<and> steps_along qs q"

lemma steps_along_nth: "steps_along qs (gpow n) \<Longrightarrow> i < length qs \<Longrightarrow> qs ! i = gpow (n + Suc i)"
proof (induction qs arbitrary: n i)
  case (Cons q qs)
  then have q: "q = gpow (Suc n)" "steps_along qs (gpow (Suc n))" by (simp_all add: gpow_Suc)
  then show ?case using Cons.IH [OF q(2)] Cons.prems(2) by (cases i) simp_all
qed simp

lemma powers_steps: "steps_along powers 1"
  by (simp add: powers_def g_step_def xtime_def)

lemma powers_distinct: "distinct (map unat powers)"
  by (simp add: powers_def)

lemma powers_no_zero: "0 \<notin> set powers"
  by (simp add: powers_def)

lemma powers_length: "length powers = 255"
  by (simp add: powers_def)

lemma powers_nth: "i < 255 \<Longrightarrow> powers ! i = gpow (Suc i)"
  using steps_along_nth [of powers 0 i] powers_steps by (simp add: powers_length)

lemma gpow_255: "gpow 255 = 1"
proof -
  have "last powers = 1" by (simp add: powers_def)
  moreover have "powers \<noteq> []" by (simp add: powers_def)
  then have "last powers = powers ! 254" using powers_length by (simp add: last_conv_nth)
  ultimately show ?thesis using powers_nth [of 254] by simp
qed

lemma gpow_period: "gpow (n + 255) = gpow n"
  using gpow_add [of n 255] by (simp add: gpow_255)

text \<open>The place of a power in the list.\<close>

lemma gpow_place: "n < 255 \<Longrightarrow> gpow n = powers ! (if n = 0 then 254 else n - 1)"
  using powers_nth [of "n - 1"] powers_nth [of 254] gpow_255 by (cases n) simp_all

lemma gpow_nonzero: "gpow n \<noteq> 0"
proof (induction n rule: less_induct)
  case (less n)
  show ?case
  proof (cases "n < 255")
    case True
    then have "gpow n \<in> set powers" by (auto simp: gpow_place powers_length intro!: nth_mem)
    then show ?thesis using powers_no_zero by metis
  next
    case False
    then show ?thesis using less.IH [of "n - 255"] gpow_period [of "n - 255"] by simp
  qed
qed

lemma gpow_inj:
  assumes "i < 255" "j < 255"
  shows "gpow i = gpow j \<longleftrightarrow> i = j"
proof -
  have "distinct powers" using powers_distinct by (simp only: distinct_map)
  then have "gpow i = gpow j \<longleftrightarrow> (if i = 0 then 254 else i - 1) = (if j = 0 then 254 else j - 1)"
    unfolding gpow_place [OF assms(1)] gpow_place [OF assms(2)]
    by (rule nth_eq_iff_index_eq) (use assms powers_length in auto)
  also have "\<dots> \<longleftrightarrow> i = j" using assms by auto
  finally show ?thesis .
qed

text \<open>Every byte but zero is a power.\<close>

lemma gpow_onto: "x \<noteq> 0 \<Longrightarrow> \<exists>n < 255. gpow n = x"
proof -
  assume "x \<noteq> 0"
  have "inj_on gpow {..<255}" by (auto simp: inj_on_def gpow_inj)
  then have "card (gpow ` {..<255}) = 255" by (simp add: card_image)
  moreover have "card (UNIV - {0 :: u8}) = 255" by (simp add: card_Diff_singleton card_word)
  moreover have "gpow ` {..<255} \<subseteq> UNIV - {0}" using gpow_nonzero by auto
  ultimately have "gpow ` {..<255} = UNIV - {0}" by (intro card_subset_eq) simp_all
  then have "x \<in> gpow ` {..<255}" using \<open>x \<noteq> 0\<close> by simp
  then show ?thesis by auto
qed

end
