(* ===== verification/Aes_Tables.thy ===== *)
theory Aes_Tables
  imports Aes_Field
begin

text \<open>
  What \<^verbatim>\<open>gen_tabs\<close> leaves in the tables: powers and logarithms, the substitution of the standard and its
  inverse, and for each byte the columns that one round adds up.
\<close>

section \<open>The substitution\<close>

definition rolb :: "nat \<Rightarrow> u8 \<Rightarrow> u8" where
  "rolb k b = push_bit k b OR drop_bit (8 - k) b"

text \<open>The inverse in the field, zero for zero, as the 254th power; then the affine map of the standard.\<close>

definition ginv :: "u8 \<Rightarrow> u8" where
  "ginv x = (gmul x ^^ 253) x"

definition affine :: "u8 \<Rightarrow> u8" where
  "affine b = b XOR rolb 1 b XOR rolb 2 b XOR rolb 3 b XOR rolb 4 b XOR 0x63"

definition sbox :: "u8 \<Rightarrow> u8" where
  "sbox x = affine (ginv x)"

lemma ginv_gpow: "i < 255 \<Longrightarrow> ginv (gpow i) = gpow (255 - i)"
proof -
  assume i: "i < 255"
  have "(gmul (gpow i) ^^ k) (gpow i) = gpow (i * Suc k)" for k
    by (induction k) (simp_all add: gpow_add algebra_simps)
  then have "ginv (gpow i) = gpow (254 * i)" by (simp add: ginv_def mult.commute)
  also have "\<dots> = gpow (255 - i)"
  proof -
    have per: "gpow (n + 255 * k) = gpow n" for n k
      by (induction k arbitrary: n) (simp_all add: gpow_period add.assoc [symmetric] add.commute [of 255])
    have "255 - i + 255 * i = 254 * i + 255" using i by simp
    then show ?thesis using per [of "255 - i" i] gpow_period [of "254 * i"] by simp
  qed
  finally show ?thesis .
qed

lemma ginv_0 [simp]: "ginv 0 = 0"
proof -
  have "(gmul 0 ^^ k) 0 = 0" for k by (induction k) simp_all
  then show ?thesis by (simp add: ginv_def)
qed

lemma gmul_ginv: "x \<noteq> 0 \<Longrightarrow> gmul x (ginv x) = 1"
  using gpow_onto [of x] by (auto simp: ginv_gpow gpow_add gpow_255)

lemma ginv_inj: "ginv x = ginv y \<longleftrightarrow> x = y"
proof -
  have nz: "ginv x \<noteq> 0" if "x \<noteq> 0" for x using gmul_ginv [OF that] by auto
  have "x = y" if xy: "ginv x = ginv y" "x \<noteq> 0" "y \<noteq> 0"
  proof -
    obtain i j where ij: "i < 255" "gpow i = x" "j < 255" "gpow j = y" using gpow_onto xy(2,3) by metis
    then have e: "gpow (255 - i) = gpow (255 - j)" using xy(1) ginv_gpow by metis
    have "gpow i = gmul (gpow (255 - j)) (gpow (i + j))"
      using ij by (simp add: gpow_add) (metis gpow_period add.commute)
    also have "\<dots> = gpow j" using ij by (simp add: e [symmetric] gpow_add) (metis gpow_period add.commute)
    finally show ?thesis using ij by simp
  qed
  then show ?thesis using nz [of x] nz [of y] by (cases "x = 0"; cases "y = 0") auto
qed

lemma bit_rolb: "n < 8 \<Longrightarrow> k \<le> 8 \<Longrightarrow> bit (rolb k x) n \<longleftrightarrow> bit x ((n + 8 - k) mod 8)"
proof -
  assume n: "n < 8" and k: "k \<le> 8"
  have "bit (rolb k x) n \<longleftrightarrow> k \<le> n \<and> bit x (n - k) \<or> bit x (8 - k + n)"
    unfolding rolb_def bit_or_iff bit_push_bit_iff bit_drop_bit_eq using n by simp
  also have "\<dots> \<longleftrightarrow> bit x ((n + 8 - k) mod 8)"
  proof (cases "k \<le> n")
    case True
    then have "\<not> bit x (8 - k + n)" using k by (intro impossible_bit) simp
    moreover have "(n + 8 - k) mod 8 = n - k" using True n by (simp add: mod_if)
    ultimately show ?thesis using True by simp
  next
    case False
    then have "(n + 8 - k) mod 8 = 8 - k + n" using n k by simp
    then show ?thesis using False by simp
  qed
  finally show ?thesis .
qed

lemma rolb_xor: "rolb k (x XOR y) = rolb k x XOR rolb k y"
  by (rule bit_word_eqI) (auto simp: rolb_def bit_or_iff bit_xor_iff bit_push_bit_iff bit_drop_bit_eq dest: bit_imp_le_length)

lemma rolb_rolb: "a \<le> 8 \<Longrightarrow> b \<le> 8 \<Longrightarrow> rolb a (rolb b x) = rolb ((a + b) mod 8) x"
proof (rule bit_word_eqI)
  fix n assume ab: "a \<le> 8" "b \<le> 8" and "n < LENGTH(8)"
  then have n: "n < 8" by simp
  have "(((n + 8 - a) mod 8) + 8 - b) mod 8 = ((n + 8 - a) + (8 - b)) mod 8"
    using ab mod_add_left_eq [of "n + 8 - a" 8 "8 - b"] by (simp only: Nat.add_diff_assoc)
  also have "(n + 8 - a) + (8 - b) = n + (16 - (a + b))" using ab by simp
  also have "(n + (16 - (a + b))) mod 8 = (n + 8 - (a + b) mod 8) mod 8"
  proof -
    consider "a + b < 8" | "8 \<le> a + b" "a + b < 16" | "a + b = 16" using ab by linarith
    then show ?thesis
    proof cases
      case 1
      then have "n + (16 - (a + b)) = (n + 8 - (a + b)) + 8" by simp
      then show ?thesis using 1 by (metis mod_add_self2 mod_less)
    next
      case 2
      then have "(a + b) mod 8 = a + b - 8" by (simp add: le_mod_geq)
      then show ?thesis using 2 by (simp add: add.commute)
    qed simp
  qed
  finally have "(((n + 8 - a) mod 8) + 8 - b) mod 8 = (n + 8 - (a + b) mod 8) mod 8" .
  then show "bit (rolb a (rolb b x)) n = bit (rolb ((a + b) mod 8) x) n"
    using ab n by (simp add: bit_rolb)
qed

lemma rolb_0 [simp]: "rolb 0 x = x"
  by (rule bit_word_eqI) (simp add: bit_rolb)

text \<open>The affine map can be undone.\<close>

lemma affine_inj: "affine a = affine b \<longleftrightarrow> a = b"
proof -
  let ?l = "\<lambda>b. b XOR rolb 1 b XOR rolb 2 b XOR rolb 3 b XOR rolb 4 b"
  let ?m = "\<lambda>b. rolb 1 b XOR rolb 3 b XOR rolb 6 b"
  have "?m (?l b) = b" for b
    by (simp add: rolb_xor rolb_rolb xor.assoc xor.commute xor.left_commute del: One_nat_def)
  moreover have "affine b XOR 0x63 = ?l b" for b by (simp add: affine_def xor.assoc)
  ultimately show ?thesis by metis
qed

lemma sbox_inj: "sbox x = sbox y \<longleftrightarrow> x = y"
  by (simp add: sbox_def affine_inj ginv_inj)

section \<open>Filling tables\<close>

lemma fill_step:
  "length xs = n \<Longrightarrow> n < length ys \<Longrightarrow> (xs @ drop n ys)[n := v] = (xs @ [v]) @ drop (Suc n) ys"
  by (simp add: list_update_append Cons_nth_drop_Suc [symmetric])

text \<open>Where the loop has stored, under each value of \<open>f\<close>, the place it has it for.\<close>

fun inverses :: "(nat \<Rightarrow> u8) \<Rightarrow> nat \<Rightarrow> u8 list \<Rightarrow> u8 list" where
  "inverses f 0 L = L"
| "inverses f (Suc n) L = (inverses f n L)[unat (f n) := of_nat n]"

lemma inverses_length [simp]: "length (inverses f n L) = length L"
  by (induction n) simp_all

lemma u8_less: "unat (x :: u8) < 256"
  using unsigned_less [of x] by simp

lemma inverses_nth:
  "inj_on f {..<n} \<Longrightarrow> length L = 256 \<Longrightarrow> i < n \<Longrightarrow> inverses f n L ! unat (f i) = of_nat i"
proof (induction n)
  case (Suc n)
  then have "inj_on f {..<n}" "f i = f n \<longleftrightarrow> i = n" by (auto simp: inj_on_def)
  then show ?case using Suc u8_less [of "f n"] by (cases "i = n") (auto simp: nth_list_update dest: unsigned_word_eqI)
qed simp

lemma pow_fold:
  assumes "n \<le> length (pow_tab T)"
  shows "fold pow_step [0 ..< n] (1, T) =
    (gpow n, T\<lparr>pow_tab := map gpow [0 ..< n] @ drop n (pow_tab T), log_tab := inverses gpow n (log_tab T)\<rparr>)"
  using assms
proof (induction n)
  case (Suc n)
  then show ?case
    by (simp add: pow_step_def gpow_Suc g_step_def fill_step)
qed simp

definition rcon :: "nat \<Rightarrow> u8" where
  "rcon i = (xtime ^^ i) 1"

lemma rco_fold:
  assumes "n \<le> length (rco_tab T)"
  shows "fold rco_step [0 ..< n] (1, T) =
    (rcon n, T\<lparr>rco_tab := map (\<lambda>i. ucast (rcon i)) [0 ..< n] @ drop n (rco_tab T)\<rparr>)"
  using assms
proof (induction n)
  case (Suc n)
  then show ?case by (simp add: rco_step_def rcon_def fill_step)
qed (simp add: rcon_def)

lemma sbox_fold:
  assumes "n \<le> length (sbx_tab T)" "\<And>i. i < n \<Longrightarrow> f i = sbox_byte T i"
  shows "fold sbox_step [0 ..< n] T =
    T\<lparr>sbx_tab := map f [0 ..< n] @ drop n (sbx_tab T), isb_tab := inverses f n (isb_tab T)\<rparr>"
  using assms
proof (induction n)
  case (Suc n)
  have "sbox_byte (T\<lparr>sbx_tab := s, isb_tab := t\<rparr>) n = f n" for s t
    using Suc.prems(2) [of n] by (simp add: sbox_byte_def)
  then show ?case using Suc by (simp add: sbox_step_def Let_def fill_step)
qed simp

text \<open>The four rows of a table whose first row is \<open>f\<close>, filled up to \<open>n\<close>.\<close>

definition rows :: "(nat \<Rightarrow> u32) \<Rightarrow> nat \<Rightarrow> u32 list list \<Rightarrow> u32 list list" where
  "rows f n tab =
     [map f [0 ..< n] @ drop n (tab ! 0), map (\<lambda>i. rol32 (f i) 8) [0 ..< n] @ drop n (tab ! 1),
      map (\<lambda>i. rol32 (f i) 16) [0 ..< n] @ drop n (tab ! 2), map (\<lambda>i. rol32 (f i) 24) [0 ..< n] @ drop n (tab ! 3)]"

definition table_shape :: "u32 list list \<Rightarrow> bool" where
  "table_shape tab \<longleftrightarrow> length tab = 4 \<and> (\<forall>k < 4. length (tab ! k) = 256)"

lemma rows_0: "table_shape tab \<Longrightarrow> rows f 0 tab = tab"
proof -
  assume "table_shape tab"
  then have "length tab = Suc (Suc (Suc (Suc 0)))" by (simp add: table_shape_def)
  then obtain a b c d where "tab = [a, b, c, d]" by (auto simp only: length_Suc_conv length_0_conv)
  then show ?thesis by (simp add: rows_def)
qed

lemma rows_step: "table_shape tab \<Longrightarrow> n < 256 \<Longrightarrow> put_rotated n (f n) (rows f n tab) = rows f (Suc n) tab"
  by (simp add: put_rotated_def rows_def table_shape_def fill_step)

lemma rows_nth:
  "i < 256 \<Longrightarrow> rows f 256 tab ! 0 ! i = f i" "i < 256 \<Longrightarrow> rows f 256 tab ! 1 ! i = rol32 (f i) 8"
  "i < 256 \<Longrightarrow> rows f 256 tab ! 2 ! i = rol32 (f i) 16" "i < 256 \<Longrightarrow> rows f 256 tab ! 3 ! i = rol32 (f i) 24"
  by (simp_all add: rows_def nth_append)

lemma round_fold:
  fixes T
  defines "tf \<equiv> \<lambda>i. let p = sbx_tab T ! i in
      ucast (ff_mult T 2 p) OR push_bit 8 (ucast p) OR push_bit 16 (ucast p) OR push_bit 24 (ucast (ff_mult T 3 p))"
    and "ti \<equiv> \<lambda>i. let q = isb_tab T ! i in
      ucast (ff_mult T 14 q) OR push_bit 8 (ucast (ff_mult T 9 q)) OR
      push_bit 16 (ucast (ff_mult T 13 q)) OR push_bit 24 (ucast (ff_mult T 11 q))"
  assumes "table_shape (fl_tab T)" "table_shape (ft_tab T)" "table_shape (il_tab T)" "table_shape (it_tab T)" "n \<le> 256"
  shows "fold round_step [0 ..< n] T =
    T\<lparr>fl_tab := rows (\<lambda>i. ucast (sbx_tab T ! i)) n (fl_tab T), ft_tab := rows tf n (ft_tab T),
      il_tab := rows (\<lambda>i. ucast (isb_tab T ! i)) n (il_tab T), it_tab := rows ti n (it_tab T)\<rparr>"
  using assms(7)
proof (induction n)
  case 0
  then show ?case using assms(3-6) by (simp add: rows_0)
next
  case (Suc n)
  have ff: "ff_mult (T\<lparr>fl_tab := a, ft_tab := b, il_tab := c, it_tab := d\<rparr>) = ff_mult T" for a b c d
    by (simp add: fun_eq_iff ff_mult_def f_mult_def)
  have step: "round_step n (T\<lparr>fl_tab := a, ft_tab := b, il_tab := c, it_tab := d\<rparr>) =
      T\<lparr>fl_tab := put_rotated n (ucast (sbx_tab T ! n)) a, ft_tab := put_rotated n (tf n) b,
        il_tab := put_rotated n (ucast (isb_tab T ! n)) c, it_tab := put_rotated n (ti n) d\<rparr>" for a b c d
    by (simp add: round_step_def ff tf_def ti_def Let_def)
  have "n < 256" using Suc.prems by simp
  then show ?case using Suc rows_step [OF assms(3), of n "\<lambda>i. ucast (sbx_tab T ! i)"]
      rows_step [OF assms(5), of n "\<lambda>i. ucast (isb_tab T ! i)"] rows_step [OF assms(4), of n tf] rows_step [OF assms(6), of n ti]
    by (simp add: step)
qed

section \<open>The tables of the cipher\<close>

lemma sbox_byte_code: "i < 256 \<Longrightarrow> pow_tab T ! (255 - unat (log_tab T ! i)) = p \<Longrightarrow> i \<noteq> 0 \<Longrightarrow> sbox_byte T i = affine p"
  and sbox_byte_0: "sbox_byte T 0 = affine 0"
proof -
  have q: "p XOR (0x63 XOR (rolb 1 p XOR rolb 2 p) XOR rolb 2 (rolb 1 p XOR rolb 2 p)) = affine p" for p
    by (simp add: affine_def rolb_xor rolb_rolb xor.assoc xor.commute xor.left_commute del: One_nat_def)
  have r: "drop_bit 7 p OR push_bit 1 p = rolb 1 p" "drop_bit 6 p OR push_bit 2 p = rolb 2 p" for p
    by (simp_all add: rolb_def or.commute)
  show "i < 256 \<Longrightarrow> pow_tab T ! (255 - unat (log_tab T ! i)) = p \<Longrightarrow> i \<noteq> 0 \<Longrightarrow> sbox_byte T i = affine p"
    unfolding sbox_byte_def Let_def r by (simp add: q [unfolded One_nat_def])
  show "sbox_byte T 0 = affine 0"
    unfolding sbox_byte_def Let_def r by (simp add: q [unfolded One_nat_def])
qed

lemma u8_of_nat: "i < 256 \<Longrightarrow> unat (of_nat i :: u8) = i"
  by (simp add: unat_of_nat take_bit_eq_mod)

definition power_tabs :: "aes_tabs \<Rightarrow> bool" where
  "power_tabs T \<longleftrightarrow> pow_tab T = map gpow [0 ..< 256] \<and> (\<forall>i < 255. log_tab T ! unat (gpow i) = of_nat i)"

lemma power_tabs_sbox:
  assumes "power_tabs T" "i < 256"
  shows "sbox_byte T i = sbox (of_nat i)"
proof (cases "i = 0")
  case True
  then show ?thesis by (simp add: sbox_byte_0 sbox_def)
next
  case False
  have u: "unat (of_nat i :: u8) = i" using assms(2) by (rule u8_of_nat)
  then have "(of_nat i :: u8) \<noteq> 0" using False by (metis unsigned_0)
  then obtain k where k: "k < 255" "gpow k = of_nat i" using gpow_onto by metis
  have uk: "unat (of_nat k :: u8) = k" using k(1) by (simp add: u8_of_nat)
  have "log_tab T ! i = of_nat k" using assms(1) k u by (auto simp: power_tabs_def)
  then have "pow_tab T ! (255 - unat (log_tab T ! i)) = ginv (of_nat i)"
    using assms(1) uk k(1) ginv_gpow [OF k(1)] k(2) by (simp add: power_tabs_def del: upt.simps)
  then show ?thesis using sbox_byte_code [OF assms(2) _ False] by (simp add: sbox_def)
qed

lemma power_tabs_mult:
  assumes "power_tabs T"
  shows "ff_mult T a b = gmul a b"
proof (cases "a = 0 \<or> b = 0")
  case True
  have "gmul 0 b = 0" by (simp add: gmul_def upt_8)
  then show ?thesis using True by (auto simp: ff_mult_def)
next
  case False
  then obtain i j where ij: "i < 255" "gpow i = a" "j < 255" "gpow j = b" using gpow_onto by metis
  have log: "log_tab T ! unat a = of_nat i" "log_tab T ! unat b = of_nat j"
    using assms ij by (auto simp: power_tabs_def)
  have ui: "unat (of_nat i :: u8) = i" using ij(1) by (simp add: u8_of_nat)
  have uc: "unat (of_nat i + of_nat j :: u8) = (i + j) mod 256"
    by (simp add: unat_of_nat take_bit_eq_mod flip: of_nat_add)
  have less: "(of_nat i + of_nat j :: u8) < of_nat i \<longleftrightarrow> 256 \<le> i + j"
    unfolding word_less_nat_alt ui uc using ij by (auto simp: mod_if)
  have "f_mult T a b = gpow (i + j)"
  proof (cases "256 \<le> i + j")
    case True
    then have "(i + j) mod 256 + 1 = i + j - 255" "(i + j) mod 256 + 1 < 256" using ij by (auto simp: mod_if)
    moreover have "gpow (i + j - 255) = gpow (i + j)" using gpow_period [of "i + j - 255"] True by simp
    ultimately show ?thesis using assms True
      by (simp add: f_mult_def log less uc power_tabs_def Let_def del: upt.simps)
  next
    case small: False
    then show ?thesis using assms
      by (simp add: f_mult_def log less uc power_tabs_def Let_def del: upt.simps)
  qed
  then show ?thesis using False ij gpow_add by (auto simp: ff_mult_def)
qed

definition word4 :: "u8 \<Rightarrow> u8 \<Rightarrow> u8 \<Rightarrow> u8 \<Rightarrow> u32" where
  "word4 a b c d = ucast a OR push_bit 8 (ucast b) OR push_bit 16 (ucast c) OR push_bit 24 (ucast d)"

text \<open>The rows of the four round tables, as functions of the byte they are for.\<close>

definition ft_word :: "u8 \<Rightarrow> u32" where
  "ft_word x = (let p = sbox x in word4 (gmul 2 p) p p (gmul 3 p))"

definition it_word :: "u8 \<Rightarrow> u32" where
  "it_word q = word4 (gmul 14 q) (gmul 9 q) (gmul 13 q) (gmul 11 q)"

definition four_rows :: "u32 list list \<Rightarrow> (u8 \<Rightarrow> u32) \<Rightarrow> bool" where
  "four_rows tab f \<longleftrightarrow>
     (\<forall>x. tab ! 0 ! unat x = f x \<and> tab ! 1 ! unat x = rol32 (f x) 8 \<and>
          tab ! 2 ! unat x = rol32 (f x) 16 \<and> tab ! 3 ! unat x = rol32 (f x) 24)"

text \<open>What the cipher relies on.\<close>

definition aes_tables :: "aes_tabs \<Rightarrow> bool" where
  "aes_tables T \<longleftrightarrow>
     (\<forall>x. sbx_tab T ! unat x = sbox x) \<and> (\<forall>x. isb_tab T ! unat (sbox x) = x) \<and>
     four_rows (fl_tab T) (\<lambda>x. ucast (sbox x)) \<and> four_rows (ft_tab T) ft_word \<and>
     four_rows (il_tab T) (\<lambda>x. ucast (isb_tab T ! unat x)) \<and>
     four_rows (it_tab T) (\<lambda>x. it_word (isb_tab T ! unat x)) \<and>
     (\<forall>i < 10. rco_tab T ! i = ucast (rcon i))"

lemma four_rows_rows: "(\<And>x. f (unat x) = g x) \<Longrightarrow> four_rows (rows f 256 tab) g"
  by (simp add: four_rows_def rows_nth u8_less del: One_nat_def)

lemma gen_tabs_tables: "aes_tables (gen_tabs zero_tabs)"
proof -
  define T1 where "T1 = snd (fold pow_step [0 ..< 256] (1, zero_tabs))"
  define T2 where "T2 = T1\<lparr>log_tab := (log_tab T1)[1 := 0]\<rparr>"
  define T3 where "T3 = snd (fold rco_step [0 ..< 10] (1, T2))"
  define T4 where "T4 = fold sbox_step [0 ..< 256] T3"
  have T1: "T1 = zero_tabs\<lparr>pow_tab := map gpow [0 ..< 256], log_tab := inverses gpow 256 (replicate 256 0)\<rparr>"
    unfolding T1_def by (subst pow_fold) (simp_all add: zero_tabs_def)
  have T2: "power_tabs T2"
  proof -
    have "(inverses gpow 256 (replicate 256 0))[1 := 0] ! unat (gpow i) = of_nat i" if i: "i < 255" for i
    proof (cases "i = 0")
      case False
      have inj: "inj_on gpow {..<255}" by (auto simp: inj_on_def gpow_inj)
      have "unat (gpow i) \<noteq> 1" using False i gpow_inj [of i 0] by (metis gpow_0 unsigned_1 unsigned_word_eqI zero_less_numeral)
      moreover have "inverses gpow 256 L = (inverses gpow 255 L)[unat (gpow 255) := of_nat 255]" for L
        using inverses.simps(2) [of gpow 255] by simp
      ultimately show ?thesis using inverses_nth [OF inj, of "replicate 256 0" i] i
        by (simp add: gpow_255)
    qed simp
    then show ?thesis by (simp add: power_tabs_def T2_def T1)
  qed
  have T3: "T3 = T2\<lparr>rco_tab := map (\<lambda>i. ucast (rcon i)) [0 ..< 10]\<rparr>"
    unfolding T3_def by (subst rco_fold) (simp_all add: T2_def T1 zero_tabs_def)
  have p3: "power_tabs T3" using T2 by (simp add: T3 power_tabs_def)
  let ?s = "\<lambda>i. sbox (of_nat i)"
  have T4: "T4 = T3\<lparr>sbx_tab := map ?s [0 ..< 256], isb_tab := inverses ?s 256 (replicate 256 0)\<rparr>"
    unfolding T4_def by (subst sbox_fold [where f = ?s])
      (simp_all add: power_tabs_sbox [OF p3], simp_all add: T3 T2_def T1 zero_tabs_def)
  have p4: "power_tabs T4" using p3 by (simp add: T4 power_tabs_def)
  have sbx: "sbx_tab T4 ! unat x = sbox x" for x using u8_less [of x] by (simp add: T4)
  have isb: "isb_tab T4 ! unat (sbox x) = x" for x
  proof -
    have "inj_on ?s {..<256}"
    proof (rule inj_onI)
      fix i j assume ij: "i \<in> {..<256 :: nat}" "j \<in> {..<256}" "?s i = ?s j"
      then have "(of_nat i :: u8) = of_nat j" by (simp only: sbox_inj)
      then show "i = j" using ij(1,2) u8_of_nat by (metis lessThan_iff)
    qed
    then show ?thesis using inverses_nth [of ?s 256 "replicate 256 0" "unat x"] u8_less [of x] by (simp add: T4)
  qed
  have shape: "table_shape (fl_tab T4)" "table_shape (ft_tab T4)" "table_shape (il_tab T4)" "table_shape (it_tab T4)"
    by (simp_all add: T4 T3 T2_def T1 zero_tabs_def table_shape_def)
  have "gen_tabs zero_tabs = fold round_step [0 ..< 256] T4"
    by (simp add: gen_tabs_def T1_def T2_def T3_def T4_def Let_def)
  note gen = this [unfolded round_fold [OF shape order_refl]]
  have "\<forall>i < 10. rco_tab T4 ! i = ucast (rcon i)" by (simp add: T4 T3)
  then show ?thesis unfolding aes_tables_def gen
    using sbx isb by (auto intro!: four_rows_rows simp: ft_word_def it_word_def word4_def power_tabs_mult [OF p4] Let_def)
qed

text \<open>The substitution table that the code computes from powers and logarithms is the S-box of the
  standard, that is the affine map after the inverse in the field with 256 elements, and the other
  table is its inverse.\<close>

theorem aes_sbox_is_standard:
  "sbx_tab (gen_tabs zero_tabs) ! unat x = affine (ginv x) \<and>
   (if x = 0 then ginv x = 0 else gmul x (ginv x) = 1) \<and>
   isb_tab (gen_tabs zero_tabs) ! unat (affine (ginv x)) = x"
  using gen_tabs_tables by (simp add: aes_tables_def sbox_def gmul_ginv)

end
