(* ===== verification/Aes_Words.thy ===== *)
theory Aes_Words
  imports Aes_Tables
begin

text \<open>
  Words as columns of four bytes: what the operations of the cipher on words of 32 bits do to their
  bytes.
\<close>

definition col :: "u32 \<Rightarrow> u8 list" where
  "col w = [byte w 0, byte w 1, byte w 2, byte w 3]"

lemma bit_byte: "bit (byte x n) k \<longleftrightarrow> k < 8 \<and> bit x (8 * n + k)"
  by (auto simp: byte_def bit_ucast_iff bit_drop_bit_eq)

lemma byte_xor [simp]: "byte (x XOR y) n = byte x n XOR byte y n"
  by (rule bit_word_eqI) (simp add: bit_byte bit_xor_iff)

lemma byte_and: "byte (x AND y) n = byte x n AND byte y n"
  by (rule bit_word_eqI) (simp add: bit_byte bit_and_iff)

lemma byte_0 [simp]: "byte 0 n = 0"
  by (simp add: byte_def)

lemma bit_high [simp]: "8 \<le> n \<Longrightarrow> \<not> bit (a :: u8) n"
  by (rule impossible_bit) simp

lemma byte_word4 [simp]:
  "byte (word4 a b c d) 0 = a" "byte (word4 a b c d) (Suc 0) = b" "byte (word4 a b c d) 2 = c" "byte (word4 a b c d) 3 = d"
  by (rule bit_word_eqI, auto simp: bit_byte word4_def bit_or_iff bit_push_bit_iff bit_ucast_iff)+

lemma byte_of_byte [simp]: "byte (ucast a) 0 = a" "byte (ucast (a :: u8)) (Suc 0) = 0" "byte (ucast a) 2 = 0" "byte (ucast a) 3 = 0"
  by (rule bit_word_eqI, auto simp: bit_byte bit_ucast_iff)+

lemma byte_rol32 [simp]:
  "byte (rol32 w 8) 0 = byte w 3" "byte (rol32 w 8) (Suc 0) = byte w 0" "byte (rol32 w 8) 2 = byte w 1" "byte (rol32 w 8) 3 = byte w 2"
  "byte (rol32 w 16) 0 = byte w 2" "byte (rol32 w 16) (Suc 0) = byte w 3" "byte (rol32 w 16) 2 = byte w 0" "byte (rol32 w 16) 3 = byte w 1"
  "byte (rol32 w 24) 0 = byte w 1" "byte (rol32 w 24) (Suc 0) = byte w 2" "byte (rol32 w 24) 2 = byte w 3" "byte (rol32 w 24) 3 = byte w 0"
  by (rule bit_word_eqI, auto simp: bit_byte rol32_def bit_or_iff bit_push_bit_iff bit_drop_bit_eq dest: bit_imp_le_length)+

lemma byte_ror32 [simp]:
  "byte (ror32 w 8) 0 = byte w 1" "byte (ror32 w 8) (Suc 0) = byte w 2" "byte (ror32 w 8) 2 = byte w 3" "byte (ror32 w 8) 3 = byte w 0"
  "byte (ror32 w 16) 0 = byte w 2" "byte (ror32 w 16) (Suc 0) = byte w 3" "byte (ror32 w 16) 2 = byte w 0" "byte (ror32 w 16) 3 = byte w 1"
  "byte (ror32 w 24) 0 = byte w 3" "byte (ror32 w 24) (Suc 0) = byte w 0" "byte (ror32 w 24) 2 = byte w 1" "byte (ror32 w 24) 3 = byte w 2"
  by (rule bit_word_eqI, auto simp: bit_byte ror32_def bit_or_iff bit_push_bit_iff bit_drop_bit_eq dest: bit_imp_le_length)+

lemma word4_bytes: "word4 (byte w 0) (byte w 1) (byte w 2) (byte w 3) = w"
proof (rule bit_word_eqI)
  fix n assume "n < LENGTH(32)"
  then consider "n < 8" | "8 \<le> n" "n < 16" | "16 \<le> n" "n < 24" | "24 \<le> n" "n < 32" by fastforce
  then show "bit (word4 (byte w 0) (byte w 1) (byte w 2) (byte w 3)) n = bit w n"
    by cases (auto simp: word4_def bit_or_iff bit_push_bit_iff bit_ucast_iff bit_byte)
qed

lemma col_inj: "col v = col w \<Longrightarrow> v = w"
  using word4_bytes [of v] word4_bytes [of w] by (simp add: col_def)

lemma le32_word4: "le32_at bs i = word4 (bs ! (4 * i)) (bs ! (4 * i + 1)) (bs ! (4 * i + 2)) (bs ! (4 * i + 3))"
  unfolding le32_at_def word4_def by (rule refl)

section \<open>Doubling four bytes at once\<close>

text \<open>All bytes of a word at once.\<close>

lemma bytes_eqI: "(\<And>n. n < 4 \<Longrightarrow> byte v n = byte w n) \<Longrightarrow> v = w"
  by (rule col_inj) (simp add: col_def)

lemma byte_masks:
  "n < 4 \<Longrightarrow> byte 0x7f7f7f7f n = 0x7f" "n < 4 \<Longrightarrow> byte 0x80808080 n = 0x80"
proof -
  assume "n < 4"
  then consider "n = 0" | "n = 1" | "n = 2" | "n = 3" by linarith
  then show "byte 0x7f7f7f7f n = 0x7f" "byte 0x80808080 n = 0x80"
    by (cases, simp_all add: byte_def)+
qed

lemma shl_masked: "byte (push_bit 1 (w AND 0x7f7f7f7f)) n = push_bit 1 (byte w n)" if "n < 4"
proof (rule bit_word_eqI)
  fix k assume "k < LENGTH(8)"
  then have k: "k < 8" by simp
  have m: "bit (0x7f7f7f7f :: u32) (8 * n + j) \<longleftrightarrow> j \<noteq> 7" if "j < 8" "n < 4" for j n
  proof -
    have "bit (0x7f :: u8) j \<longleftrightarrow> j \<noteq> 7"
      using \<open>j < 8\<close> by (auto simp: less_Suc_eq numeral_eq_Suc bit_simps)
    then show ?thesis using byte_masks(1) [OF \<open>n < 4\<close>] bit_byte [of "0x7f7f7f7f" n j] that by simp
  qed
  show "bit (byte (push_bit 1 (w AND 0x7f7f7f7f)) n) k = bit (push_bit 1 (byte w n)) k"
  proof (cases k)
    case 0
    have "\<not> bit (0x7f7f7f7f :: u32) (8 * n - 1)" if "n > 0"
      using m [of 7 "n - 1"] that \<open>n < 4\<close> by (simp add: algebra_simps)
    then show ?thesis using 0 k unfolding bit_byte bit_push_bit_iff bit_and_iff by auto
  next
    case (Suc j)
    then show ?thesis using k m [of j n] that unfolding bit_byte bit_push_bit_iff bit_and_iff by auto
  qed
qed

text \<open>The top bit of each byte, as a byte that is 0 or 1.\<close>

lemma top_bits:
  assumes M: "M = (0x80808080 :: u32)"
  shows "drop_bit 7 (w AND M) = word4 (of_bool (bit (byte w 0) 7)) (of_bool (bit (byte w 1) 7))
     (of_bool (bit (byte w 2) 7)) (of_bool (bit (byte w 3) 7))"
proof (rule bytes_eqI)
  fix n :: nat assume n: "n < 4"
  have m: "bit M (8 * n + j) \<longleftrightarrow> j = 7" if "j < 8" for j
  proof -
    have "bit (0x80 :: u8) j \<longleftrightarrow> j = 7"
      using \<open>j < 8\<close> by (auto simp: less_Suc_eq numeral_eq_Suc bit_simps)
    then show ?thesis using byte_masks(2) [OF n, folded M] bit_byte [of M n j] that by simp
  qed
  have "byte (drop_bit 7 (w AND M)) n = of_bool (bit (byte w n) 7)"
  proof (rule bit_word_eqI)
    fix k assume "k < LENGTH(8)"
    then have k: "k < 8" by simp
    show "bit (byte (drop_bit 7 (w AND M)) n) k = bit (of_bool (bit (byte w n) 7) :: u8) k"
    proof (cases k)
      case 0
      then show ?thesis using m [of 7] k by (simp add: bit_byte bit_drop_bit_eq bit_and_iff bit_of_bool_iff add.commute)
    next
      case (Suc j)
      have "\<not> bit M (8 * n + (7 + k))"
      proof (cases "n = 3")
        case True
        then show ?thesis using Suc by (intro impossible_bit) simp
      next
        case False
        have "byte M (Suc n) = 0x80" using byte_masks(2) [of "Suc n", folded M] n False by simp
        then have "bit M (8 * Suc n + j) \<longleftrightarrow> bit (0x80 :: u8) j"
          using bit_byte [of M "Suc n" j] k Suc by simp
        moreover have "\<not> bit (0x80 :: u8) j"
          using k Suc by (auto simp: less_Suc_eq numeral_eq_Suc bit_simps)
        moreover have "8 * Suc n + j = 8 * n + (7 + k)" using Suc by simp
        ultimately show ?thesis by metis
      qed
      then show ?thesis using Suc
        by (simp add: bit_byte bit_drop_bit_eq bit_and_iff bit_of_bool_iff ac_simps)
    qed
  qed
  note top = this
  consider "n = 0" | "n = 1" | "n = 2" | "n = 3" using n by linarith
  then show "byte (drop_bit 7 (w AND M)) n =
    byte (word4 (of_bool (bit (byte w 0) 7)) (of_bool (bit (byte w 1) 7))
     (of_bool (bit (byte w 2) 7)) (of_bool (bit (byte w 3) 7))) n"
    unfolding top by cases simp_all
qed

lemma word4_times:
  "word4 (of_bool a) (of_bool b) (of_bool c) (of_bool d) * 0x1b =
   word4 (if a then 0x1b else 0) (if b then 0x1b else 0) (if c then 0x1b else 0) (if d then 0x1b else 0)"
  by (cases a; cases b; cases c; cases d) (simp_all add: word4_def)

lemma byte_star_x: "n < 4 \<Longrightarrow> byte (star_x w) n = xtime (byte w n)"
proof -
  assume n: "n < 4"
  then consider "n = 0" | "n = 1" | "n = 2" | "n = 3" by linarith
  then have "byte (drop_bit 7 (w AND 0x80808080) * 0x1b) n = (if bit (byte w n) 7 then 0x1b else 0)"
    unfolding top_bits [OF refl] word4_times by cases simp_all
  then show ?thesis by (simp only: star_x_def byte_xor shl_masked [OF n] xtime_def)
qed

lemma byte_imix_col:
  "col (imix_col w) =
     [gmul 14 (byte w 0) XOR gmul 11 (byte w 1) XOR gmul 13 (byte w 2) XOR gmul 9 (byte w 3),
      gmul 9 (byte w 0) XOR gmul 14 (byte w 1) XOR gmul 11 (byte w 2) XOR gmul 13 (byte w 3),
      gmul 13 (byte w 0) XOR gmul 9 (byte w 1) XOR gmul 14 (byte w 2) XOR gmul 11 (byte w 3),
      gmul 11 (byte w 0) XOR gmul 13 (byte w 1) XOR gmul 9 (byte w 2) XOR gmul 14 (byte w 3)]"
  by (simp add: col_def imix_col_def Let_def byte_star_x gmul_numerals xor.assoc xor.left_commute xor.commute)

end
