(* ===== verification/Aes_Spec.thy ===== *)
theory Aes_Spec
  imports Aes_Words
begin

text \<open>
  The cipher of the standard (FIPS 197) on states of four columns of bytes, and what one round of the
  code does to the columns that its four words are.
\<close>

section \<open>The standard\<close>

type_synonym aes_state = "u8 list list"

definition sub_bytes :: "aes_state \<Rightarrow> aes_state" where
  "sub_bytes = map (map sbox)"

definition shift_rows :: "aes_state \<Rightarrow> aes_state" where
  "shift_rows s = map (\<lambda>c. map (\<lambda>r. s ! ((c + r) mod 4) ! r) [0 ..< 4]) [0 ..< 4]"

definition mix_column :: "u8 list \<Rightarrow> u8 list" where
  "mix_column a =
     map (\<lambda>r. gmul 2 (a ! r) XOR gmul 3 (a ! ((r + 1) mod 4)) XOR a ! ((r + 2) mod 4) XOR a ! ((r + 3) mod 4)) [0 ..< 4]"

definition inv_mix_column :: "u8 list \<Rightarrow> u8 list" where
  "inv_mix_column a =
     map (\<lambda>r. gmul 14 (a ! r) XOR gmul 11 (a ! ((r + 1) mod 4)) XOR gmul 13 (a ! ((r + 2) mod 4)) XOR
               gmul 9 (a ! ((r + 3) mod 4))) [0 ..< 4]"

definition xor_column :: "u8 list \<Rightarrow> u8 list \<Rightarrow> u8 list" where
  "xor_column = map2 (XOR)"

definition add_round_key :: "aes_state \<Rightarrow> aes_state \<Rightarrow> aes_state" where
  "add_round_key = map2 xor_column"

text \<open>The key schedule appends one word after the other.\<close>

definition schedule_word :: "nat \<Rightarrow> nat \<Rightarrow> u8 list \<Rightarrow> u8 list" where
  "schedule_word nk i t =
     (if i mod nk = 0 then xor_column (map sbox (rotate1 t)) [rcon (i div nk - 1), 0, 0, 0]
      else if nk > 6 \<and> i mod nk = 4 then map sbox t else t)"

primrec key_words :: "aes_state \<Rightarrow> nat \<Rightarrow> aes_state" where
  "key_words key 0 = key"
| "key_words key (Suc n) =
     (let ws = key_words key n in
      ws @ [xor_column (ws ! n) (schedule_word (length key) (length ws) (last ws))])"

definition round_key :: "aes_state \<Rightarrow> nat \<Rightarrow> aes_state" where
  "round_key ws r = map (\<lambda>i. ws ! (4 * r + i)) [0 ..< 4]"

definition aes_round :: "aes_state \<Rightarrow> nat \<Rightarrow> aes_state \<Rightarrow> aes_state" where
  "aes_round ws r s = add_round_key (map mix_column (shift_rows (sub_bytes s))) (round_key ws r)"

definition columns :: "u8 list \<Rightarrow> aes_state" where
  "columns bs = map (\<lambda>i. map (\<lambda>j. bs ! (4 * i + j)) [0 ..< 4]) [0 ..< length bs div 4]"

definition aes_cipher :: "u8 list \<Rightarrow> u8 list \<Rightarrow> u8 list" where
  "aes_cipher key msg =
     (let nk = length key div 4; nr = nk + 6;
          ws = key_words (columns key) (4 * (nr + 1) - nk);
          s = fold (aes_round ws) [1 ..< nr] (add_round_key (columns msg) (round_key ws 0))
      in concat (add_round_key (shift_rows (sub_bytes s)) (round_key ws nr)))"

section \<open>One round\<close>

lemma upt_4: "[0 ..< 4] = [0, 1, 2, 3]"
  by (simp add: upt_conv_Cons)

lemma four_words:
  assumes "length bi = 4"
  obtains p q r s where "bi = [p, q, r, s]"
proof -
  have "length bi = Suc (Suc (Suc (Suc 0)))" using assms by simp
  then show thesis using that by (auto simp only: length_Suc_conv length_0_conv)
qed

lemma and_3 [simp]: "(Suc 0 :: nat) AND 3 = 1" "Suc (Suc 0) AND 3 = 2" "Suc (Suc (Suc 0)) AND 3 = 3" "(2 :: nat) AND 3 = 2" "(3 :: nat) AND 3 = 3" "(4 :: nat) AND 3 = 0"
  "(5 :: nat) AND 3 = 1" "(6 :: nat) AND 3 = 2"
  by (simp_all flip: One_nat_def)

lemma tables_rows:
  assumes "aes_tables T"
  shows "fl_tab T ! 0 ! unat x = ucast (sbox x)" "fl_tab T ! Suc 0 ! unat x = rol32 (ucast (sbox x)) 8"
    "fl_tab T ! 2 ! unat x = rol32 (ucast (sbox x)) 16" "fl_tab T ! 3 ! unat x = rol32 (ucast (sbox x)) 24"
    "ft_tab T ! 0 ! unat x = ft_word x" "ft_tab T ! Suc 0 ! unat x = rol32 (ft_word x) 8"
    "ft_tab T ! 2 ! unat x = rol32 (ft_word x) 16" "ft_tab T ! 3 ! unat x = rol32 (ft_word x) 24"
    "il_tab T ! 0 ! unat x = ucast (isb_tab T ! unat x)" "il_tab T ! Suc 0 ! unat x = rol32 (ucast (isb_tab T ! unat x)) 8"
    "il_tab T ! 2 ! unat x = rol32 (ucast (isb_tab T ! unat x)) 16" "il_tab T ! 3 ! unat x = rol32 (ucast (isb_tab T ! unat x)) 24"
    "it_tab T ! 0 ! unat x = it_word (isb_tab T ! unat x)" "it_tab T ! Suc 0 ! unat x = rol32 (it_word (isb_tab T ! unat x)) 8"
    "it_tab T ! 2 ! unat x = rol32 (it_word (isb_tab T ! unat x)) 16" "it_tab T ! 3 ! unat x = rol32 (it_word (isb_tab T ! unat x)) 24"
    "isb_tab T ! unat (sbox x) = x"
  using assms by (simp_all add: aes_tables_def four_rows_def)

lemma byte_ft_word [simp]:
  "byte (ft_word x) 0 = gmul 2 (sbox x)" "byte (ft_word x) (Suc 0) = sbox x"
  "byte (ft_word x) 2 = sbox x" "byte (ft_word x) 3 = gmul 3 (sbox x)"
  by (simp_all add: ft_word_def Let_def)

lemma byte_it_word [simp]:
  "byte (it_word x) 0 = gmul 14 x" "byte (it_word x) (Suc 0) = gmul 9 x"
  "byte (it_word x) 2 = gmul 13 x" "byte (it_word x) 3 = gmul 11 x"
  by (simp_all add: it_word_def)

definition key_at :: "u32 list \<Rightarrow> nat \<Rightarrow> aes_state" where
  "key_at b k = map (\<lambda>i. col (b ! (k + i))) [0 ..< 4]"

lemma col_xor: "col (v XOR w) = xor_column (col v) (col w)"
  by (simp add: col_def xor_column_def)

lemma f_nround_columns:
  assumes "aes_tables T" "length bi = 4"
  shows "map col (fst (f_nround T b (bi, k))) =
    add_round_key (map mix_column (shift_rows (sub_bytes (map col bi)))) (key_at b k)"
proof -
  from assms(2) obtain p q r s where bi: "bi = [p, q, r, s]" by (rule four_words)
  show ?thesis unfolding bi
    by (simp add: f_nround_def f_rn_def col_def add_round_key_def xor_column_def mix_column_def shift_rows_def sub_bytes_def
        key_at_def upt_4 tables_rows [OF assms(1)] xor.assoc xor.left_commute xor.commute)
qed

lemma f_lround_columns:
  assumes "aes_tables T" "length bi = 4"
  shows "map col (f_lround T b (bi, k)) = add_round_key (shift_rows (sub_bytes (map col bi))) (key_at b k)"
proof -
  from assms(2) obtain p q r s where bi: "bi = [p, q, r, s]" by (rule four_words)
  show ?thesis unfolding bi
    by (simp add: f_lround_def f_rl_def col_def add_round_key_def xor_column_def shift_rows_def sub_bytes_def
        key_at_def upt_4 tables_rows [OF assms(1)])
qed

section \<open>One round back\<close>

definition square :: "aes_state \<Rightarrow> bool" where
  "square s \<longleftrightarrow> length s = 4 \<and> (\<forall>c \<in> set s. length c = 4)"

lemma four_bytes:
  assumes "length c = 4"
  obtains p q r s where "c = [p, q, r, s :: u8]"
proof -
  have "length c = Suc (Suc (Suc (Suc 0)))" using assms by simp
  then show thesis using that by (auto simp only: length_Suc_conv length_0_conv)
qed

lemma square_cases:
  assumes "square s"
  obtains a0 a1 a2 a3 b0 b1 b2 b3 c0 c1 c2 c3 d0 d1 d2 d3 where
    "s = [[a0, a1, a2, a3], [b0, b1, b2, b3], [c0, c1, c2, c3], [d0, d1, d2, d3]]"
proof -
  have "length s = Suc (Suc (Suc (Suc 0)))" using assms by (simp add: square_def)
  then obtain a b c d where s: "s = [a, b, c, d]" by (auto simp only: length_Suc_conv length_0_conv)
  then have "length a = 4" "length b = 4" "length c = 4" "length d = 4" using assms by (simp_all add: square_def)
  then show thesis using that s by (metis four_bytes)
qed

lemma inv_mix_mix: "length c = 4 \<Longrightarrow> inv_mix_column (mix_column c) = c"
  by (erule four_bytes) (simp add: inv_mix_column_def mix_column_def upt_4 gmul_xor gmul_numerals xtime_xor
      xor.assoc xor.left_commute xor.commute)

lemma inv_mix_xor: "length c = 4 \<Longrightarrow> length d = 4 \<Longrightarrow>
    inv_mix_column (xor_column c d) = xor_column (inv_mix_column c) (inv_mix_column d)"
  by (erule four_bytes, erule four_bytes)
    (simp add: inv_mix_column_def xor_column_def upt_4 gmul_xor xor.assoc xor.left_commute xor.commute)

lemma xor_column_self: "length c = length d \<Longrightarrow> xor_column (xor_column c d) d = c"
  unfolding xor_column_def by (induction c d rule: list_induct2) (simp_all add: xor.assoc)

lemma add_round_key_self: "square s \<Longrightarrow> square k \<Longrightarrow> add_round_key (add_round_key s k) k = s"
  by (erule square_cases, erule square_cases) (simp add: add_round_key_def xor_column_self)

lemma square_ops:
  "square (shift_rows s)" "square s \<Longrightarrow> square (sub_bytes s)" "length s = 4 \<Longrightarrow> square (map mix_column s)"
  "square (key_at b i)" "length bi = 4 \<Longrightarrow> square (map col bi)"
  by (auto simp: square_def shift_rows_def sub_bytes_def mix_column_def key_at_def col_def)

lemma square_add: "square s \<Longrightarrow> square k \<Longrightarrow> square (add_round_key s k)"
  by (erule square_cases, erule square_cases) (simp add: square_def add_round_key_def xor_column_def)

lemma inv_round:
  assumes "square s" "square k"
  shows "add_round_key (map inv_mix_column (add_round_key (map mix_column s) k)) (map inv_mix_column k) = s"
proof -
  have "map inv_mix_column (add_round_key (map mix_column s) k) = add_round_key s (map inv_mix_column k)"
    using assms by (elim square_cases) (simp add: add_round_key_def inv_mix_xor inv_mix_mix mix_column_def [THEN arg_cong [where f = length]])
  moreover have "square (map inv_mix_column k)" using assms(2) by (auto simp: square_def inv_mix_column_def)
  ultimately show ?thesis using add_round_key_self assms(1) by simp
qed

lemma i_nround_columns:
  assumes "aes_tables T" "length bi = 4" "map col bi = shift_rows (sub_bytes s)" "square s"
  shows "map col (fst (i_nround T b (bi, k))) = add_round_key (map inv_mix_column s) (key_at b k)"
proof -
  from assms(2) obtain p q r t where bi: "bi = [p, q, r, t]" by (rule four_words)
  from assms(4) obtain a0 a1 a2 a3 b0 b1 b2 b3 c0 c1 c2 c3 d0 d1 d2 d3 where
    s: "s = [[a0, a1, a2, a3], [b0, b1, b2, b3], [c0, c1, c2, c3], [d0, d1, d2, d3]]" by (rule square_cases)
  show ?thesis using assms(3) unfolding bi s
    by (simp add: i_nround_def i_rn_def col_def add_round_key_def xor_column_def inv_mix_column_def shift_rows_def sub_bytes_def
        key_at_def upt_4 tables_rows [OF assms(1)] xor.assoc xor.left_commute xor.commute)
qed

lemma i_lround_columns:
  assumes "aes_tables T" "length bi = 4" "map col bi = shift_rows (sub_bytes s)" "square s"
  shows "map col (i_lround T b (bi, k)) = add_round_key s (key_at b k)"
proof -
  from assms(2) obtain p q r t where bi: "bi = [p, q, r, t]" by (rule four_words)
  from assms(4) obtain a0 a1 a2 a3 b0 b1 b2 b3 c0 c1 c2 c3 d0 d1 d2 d3 where
    s: "s = [[a0, a1, a2, a3], [b0, b1, b2, b3], [c0, c1, c2, c3], [d0, d1, d2, d3]]" by (rule square_cases)
  show ?thesis using assms(3) unfolding bi s
    by (simp add: i_lround_def i_rl_def col_def add_round_key_def xor_column_def shift_rows_def sub_bytes_def
        key_at_def upt_4 tables_rows [OF assms(1)])
qed

lemma imix_col_column: "col (imix_col w) = inv_mix_column (col w)"
  by (simp add: byte_imix_col inv_mix_column_def upt_4) (simp add: col_def xor.assoc xor.left_commute xor.commute)

end
