(* ===== verification/Aes_Schedule.thy ===== *)
theory Aes_Schedule
  imports Aes_Spec
begin

text \<open>
  The key schedule: the loops of \<^verbatim>\<open>aes_set_key\<close> put the words of the standard into the first part of the
  buffer, and the same words, mixed back, into the second.
\<close>

section \<open>The words of the standard\<close>

lemma key_words_length [simp]: "length (key_words key n) = length key + n"
  by (induction n) (simp_all add: Let_def)

lemma key_words_stable: "n \<le> m \<Longrightarrow> i < length key + n \<Longrightarrow> key_words key m ! i = key_words key n ! i"
  by (induction m rule: dec_induct) (simp_all add: Let_def nth_append)

definition recurrence :: "(nat \<Rightarrow> u8 list) \<Rightarrow> nat \<Rightarrow> bool" where
  "recurrence W nk \<longleftrightarrow> (\<forall>n < 60. W (nk + n) = xor_column (W n) (schedule_word nk (nk + n) (W (nk + n - 1))))"

lemma key_words_recurrence:
  assumes "key \<noteq> []"
  shows "recurrence ((!) (key_words key 60)) (length key)"
proof -
  have "key_words key 60 ! (length key + n) =
      xor_column (key_words key 60 ! n) (schedule_word (length key) (length key + n) (key_words key 60 ! (length key + n - 1)))"
    if n: "n < 60" for n
  proof -
    have len: "length key > 0" using assms by simp
    have "key_words key 60 ! (length key + n) = key_words key (Suc n) ! (length key + n)"
      using n by (intro key_words_stable) simp_all
    also have "\<dots> = xor_column (key_words key n ! n) (schedule_word (length key) (length key + n) (last (key_words key n)))"
      using key_words_length [of key n] by (simp add: Let_def nth_append)
    also have "key_words key n ! n = key_words key 60 ! n"
      using n len by (intro key_words_stable [symmetric]) simp_all
    also have "last (key_words key n) = key_words key n ! (length key + n - 1)"
    proof -
      have "key_words key n \<noteq> []" using len by (metis key_words_length length_0_conv add_is_0 less_numeral_extra(3))
      then show ?thesis by (simp add: last_conv_nth)
    qed
    also have "\<dots> = key_words key 60 ! (length key + n - 1)"
      using n len by (intro key_words_stable [symmetric]) simp_all
    finally show ?thesis .
  qed
  then show ?thesis by (simp add: recurrence_def)
qed

section \<open>The loops\<close>

lemma fold_upt_inv: "P 0 s \<Longrightarrow> (\<And>i s. i < n \<Longrightarrow> P i s \<Longrightarrow> P (Suc i) (f i s)) \<Longrightarrow> P n (fold f [0 ..< n] s)"
  by (induction n) simp_all

definition sched :: "(nat \<Rightarrow> u8 list) \<Rightarrow> nat \<Rightarrow> u32 list \<Rightarrow> bool" where
  "sched W m b \<longleftrightarrow> length b = 120 \<and> (\<forall>j < m. col (b ! j) = W j)"

lemma xor_column_commute: "xor_column c d = xor_column d c"
proof (induction c arbitrary: d)
  case (Cons x c)
  then show ?case by (cases d) (simp_all add: xor_column_def xor.commute)
qed (simp add: xor_column_def)

lemma ls_box_col: "aes_tables T \<Longrightarrow> col (ls_box T w) = map sbox (col w)"
  by (simp add: ls_box_def col_def tables_rows)

lemma key_chain_sched:
  assumes "sched W m b" "src + n \<le> m" "m + n \<le> 120"
    and "\<And>k. k < n \<Longrightarrow> W (m + k) = xor_column (if k = 0 then col t else W (m + k - 1)) (W (src + k))"
  shows "sched W (m + n) (snd (key_chain n src m (t, b))) \<and>
    col (fst (key_chain n src m (t, b))) = (if n = 0 then col t else W (m + n - 1))"
  using assms
proof (induction n arbitrary: t b src m)
  case (Suc n)
  let ?t = "t XOR b ! src"
  have "col (b ! src) = W src" using Suc.prems(1,2) by (simp add: sched_def)
  then have t: "col ?t = W m" using Suc.prems(4) [of 0] by (simp add: col_xor)
  have 1: "sched W (Suc m) (b[m := ?t])"
    using Suc.prems(1,3) t by (auto simp: sched_def nth_list_update less_Suc_eq)
  have 2: "W (Suc m + k) = xor_column (if k = 0 then col ?t else W (Suc m + k - 1)) (W (Suc src + k))" if "k < n" for k
    using Suc.prems(4) [of "Suc k"] that t by simp
  show ?case using Suc.IH [OF 1 _ _ 2] Suc.prems(2,3) t by (simp add: Let_def)
qed simp

lemma chain:
  assumes "recurrence W nk" "sched W m b" "src + nk = m" "0 < n" "n \<le> nk" "src + n \<le> 60" "m + n \<le> 120"
    and "col t = schedule_word nk m (W (m - 1))"
    and "\<And>k v. 0 < k \<Longrightarrow> k < n \<Longrightarrow> schedule_word nk (m + k) v = v"
  shows "sched W (m + n) (snd (key_chain n src m (t, b))) \<and> col (fst (key_chain n src m (t, b))) = W (m + n - 1)"
proof -
  have "W (m + k) = xor_column (if k = 0 then col t else W (m + k - 1)) (W (src + k))" if k: "k < n" for k
  proof -
    have "W (nk + (src + k)) = xor_column (W (src + k)) (schedule_word nk (nk + (src + k)) (W (nk + (src + k) - 1)))"
      using assms(1,6) k by (simp add: recurrence_def)
    moreover have "nk + (src + k) = m + k" using assms(3) by simp
    ultimately show ?thesis using assms(8,9) k by (auto simp: xor_column_commute)
  qed
  then show ?thesis using key_chain_sched [of W m b src n t] assms by simp
qed

definition loop_inv :: "(nat \<Rightarrow> u8 list) \<Rightarrow> nat \<Rightarrow> nat \<Rightarrow> u32 \<times> u32 list \<Rightarrow> bool" where
  "loop_inv W nk i s \<longleftrightarrow> sched W (nk * i + nk) (snd s) \<and> col (fst s) = W (nk * i + nk - 1)"

text \<open>The word that opens a group of \<open>nk\<close> words.\<close>

lemma group_head:
  assumes "aes_tables T" "i < 10" "0 < nk" "col t = W (nk * i + nk - 1)"
  shows "col (ls_box T (ror32 t 8) XOR rco_tab T ! i) = schedule_word nk (nk * i + nk) (W (nk * i + nk - 1))"
proof -
  have "(nk * i + nk) mod nk = 0" by simp
  moreover have "(nk * i + nk) div nk - 1 = i" using assms(3) by simp
  moreover have "col (ror32 t 8) = rotate1 (col t)" by (simp add: col_def)
  moreover have "col (rco_tab T ! i) = [rcon i, 0, 0, 0]"
    using assms(1,2) by (simp add: aes_tables_def col_def)
  ultimately show ?thesis using assms by (simp add: schedule_word_def col_xor ls_box_col)
qed

lemma no_step: "0 < k \<Longrightarrow> k < nk \<Longrightarrow> nk \<le> 6 \<or> k mod 8 \<noteq> 4 \<and> nk = 8 \<Longrightarrow> schedule_word nk (nk * i + nk + k) v = v"
proof -
  assume k: "0 < k" "k < nk" "nk \<le> 6 \<or> k mod 8 \<noteq> 4 \<and> nk = 8"
  have "nk * i + nk + k = k + (i + 1) * nk" by simp
  then have "(nk * i + nk + k) mod nk = k" using k(2) by (metis mod_mult_self1 mod_less)
  then show ?thesis using k by (auto simp: schedule_word_def)
qed

lemma loop4_inv: "aes_tables T \<Longrightarrow> recurrence W 4 \<Longrightarrow> i < 10 \<Longrightarrow> loop_inv W 4 i s \<Longrightarrow> loop_inv W 4 (Suc i) (loop4 T i s)"
  using chain [of W 4 "4 * i + 4" "snd s" "4 * i" 4 "ls_box T (ror32 (fst s) 8) XOR rco_tab T ! i"]
    group_head [of T i 4 "fst s" W] no_step [of _ 4 i]
  by (simp add: loop_inv_def loop4_def algebra_simps)

lemma loop6_inv: "aes_tables T \<Longrightarrow> recurrence W 6 \<Longrightarrow> i < 8 \<Longrightarrow> loop_inv W 6 i s \<Longrightarrow> loop_inv W 6 (Suc i) (loop6 T i s)"
  using chain [of W 6 "6 * i + 6" "snd s" "6 * i" 6 "ls_box T (ror32 (fst s) 8) XOR rco_tab T ! i"]
    group_head [of T i 6 "fst s" W] no_step [of _ 6 i]
  by (simp add: loop_inv_def loop6_def algebra_simps)

lemma loop8_inv:
  assumes "aes_tables T" "recurrence W 8" "i < 7" "loop_inv W 8 i s"
  shows "loop_inv W 8 (Suc i) (loop8 T i s)"
proof -
  let ?m = "8 * i + 8"
  define r where "r = key_chain 4 (8 * i) ?m (ls_box T (ror32 (fst s) 8) XOR rco_tab T ! i, snd s)"
  have "sched W ?m (snd s)" using assms(4) by (simp add: loop_inv_def)
  moreover have "schedule_word 8 (?m + k) v = v" if "0 < k" "k < 4" for k v
    using no_step [of k 8 i v] that by simp
  moreover have "col (ls_box T (ror32 (fst s) 8) XOR rco_tab T ! i) = schedule_word 8 ?m (W (?m - 1))"
    using assms group_head [of T i 8 "fst s" W] by (simp add: loop_inv_def)
  ultimately have r: "sched W (?m + 4) (snd r)" "col (fst r) = W (?m + 3)"
    using chain [of W 8 ?m "snd s" "8 * i" 4] assms(2,3) by (simp_all add: r_def)
  have head: "col (ls_box T (fst r)) = schedule_word 8 (?m + 4) (W (?m + 4 - 1))"
    using assms(1) r(2) by (simp add: ls_box_col schedule_word_def)
  have rest: "schedule_word 8 (?m + 4 + k) v = v" if "0 < k" "k < 4" for k v
    using no_step [of "4 + k" 8 i v] that by (simp add: mod_if add.assoc)
  have "sched W (?m + 4 + 4) (snd (key_chain 4 (8 * i + 4) (?m + 4) (ls_box T (fst r), snd r))) \<and>
      col (fst (key_chain 4 (8 * i + 4) (?m + 4) (ls_box T (fst r), snd r))) = W (?m + 4 + 4 - 1)"
    by (rule chain [OF assms(2) r(1) _ _ _ _ _ head rest]) (use assms(3) in simp_all)
  moreover have "loop8 T i s = key_chain 4 (8 * i + 4) (?m + 4) (ls_box T (fst r), snd r)"
    by (cases r) (simp add: loop8_def r_def add.commute)
  ultimately show ?thesis by (simp add: loop_inv_def algebra_simps)
qed

end
