(* ===== verification/Aes_Cipher.thy ===== *)
theory Aes_Cipher
  imports Aes_Schedule
begin

text \<open>
  The cipher as a whole: what the key schedule leaves in the buffer, encryption as the cipher of the
  standard, and decryption as its inverse.
\<close>

section \<open>What the key schedule leaves\<close>

definition expanded :: "aes_state \<Rightarrow> nat \<Rightarrow> u32 list \<Rightarrow> bool" where
  "expanded ws nr b \<longleftrightarrow>
     (\<forall>r \<le> nr. key_at b (4 * r) = round_key ws r) \<and>
     (\<forall>r < nr. key_at b (60 + 4 * r) = (if r = 0 then round_key ws 0 else map inv_mix_column (round_key ws r)))"

lemma copy_fold:
  assumes "m \<le> n" "n \<le> 60" "length b = 120"
  shows "length (fold (\<lambda>i b. b[60 + i := g (b ! i)]) [m ..< n] b) = 120 \<and>
    (\<forall>j < 120. fold (\<lambda>i b. b[60 + i := g (b ! i)]) [m ..< n] b ! j =
       (if 60 + m \<le> j \<and> j < 60 + n then g (b ! (j - 60)) else b ! j))"
  using assms
proof (induction n rule: dec_induct)
  case (step n)
  then show ?case by (auto simp: nth_list_update less_Suc_eq)
qed auto

lemma columns_nth: "i < length bs div 4 \<Longrightarrow> columns bs ! i = col (le32_at bs i)"
  by (simp add: columns_def le32_word4 col_def upt_4)

lemma columns_length [simp]: "length (columns bs) = length bs div 4"
  by (simp add: columns_def)

lemma first_words:
  assumes "length b = 120" "n \<le> 60"
  shows "length (fold (\<lambda>i b. b[E_KEY + i := le32_at key i]) [0 ..< n] b) = 120 \<and>
    (\<forall>j < n. fold (\<lambda>i b. b[E_KEY + i := le32_at key i]) [0 ..< n] b ! j = le32_at key j)"
  using assms(2)
proof (induction n)
  case (Suc n)
  then show ?case by (auto simp: E_KEY_def nth_list_update less_Suc_eq)
qed (simp add: assms(1))

text \<open>The three loops together: as many words as a number of rounds needs.\<close>

lemma loops_sched:
  assumes "aes_tables T" "key_len \<in> {16, 24, 32}" "nk = key_len div 4" "recurrence W nk" "loop_inv W nk 0 s"
  shows "\<exists>m \<ge> 4 * (nk + 7). sched W m
    (snd (if key_len = 16 then fold (loop4 T) [0 ..< 10] s
          else if key_len = 24 then fold (loop6 T) [0 ..< 8] s else fold (loop8 T) [0 ..< 7] s))"
proof -
  define s4 s6 s8 where "s4 = fold (loop4 T) [0 ..< 10] s" and "s6 = fold (loop6 T) [0 ..< 8] s"
    and "s8 = fold (loop8 T) [0 ..< 7] s"
  have 4: "loop_inv W 4 10 s4" if "nk = 4"
    unfolding s4_def by (rule fold_upt_inv [where P = "loop_inv W 4"]) (use assms that loop4_inv in auto)
  have 6: "loop_inv W 6 8 s6" if "nk = 6"
    unfolding s6_def by (rule fold_upt_inv [where P = "loop_inv W 6"]) (use assms that loop6_inv in auto)
  have 8: "loop_inv W 8 7 s8" if "nk = 8"
    unfolding s8_def by (rule fold_upt_inv [where P = "loop_inv W 8"]) (use assms that loop8_inv in auto)
  consider "key_len = 16" "nk = 4" | "key_len = 24" "nk = 6" | "key_len = 32" "nk = 8"
    using assms(2,3) by auto
  then show ?thesis unfolding s4_def [symmetric] s6_def [symmetric] s8_def [symmetric]
    by cases (use 4 6 8 in \<open>auto simp: loop_inv_def intro: exI [of _ 44] exI [of _ 54] exI [of _ 64]\<close>)
qed

lemma set_key_expanded:
  assumes "aes_tables T" "length key \<in> {16, 24, 32}" "length (buf ctx) = 120"
  shows "\<exists>b. aes_set_key T ctx key (length key) = Some (0, ctx\<lparr>key_length := length key, buf := b\<rparr>) \<and>
    expanded (key_words (columns key) (4 * (length key div 4 + 7) - length key div 4)) (length key div 4 + 6) b"
proof -
  define nk where "nk = length key div 4"
  define W where "W = (!) (key_words (columns key) 60)"
  have nk: "4 \<le> nk" "nk \<le> 8" "length key = 4 * nk" "length key mod 8 = 0" using assms(2) by (auto simp: nk_def)
  have ne: "columns key \<noteq> []" using nk columns_length [of key] by (metis length_0_conv nk_def not_numeral_le_zero)
  have rec: "recurrence W nk" using key_words_recurrence [OF ne] by (simp add: W_def nk_def)
  define b0 where "b0 = fold (\<lambda>i b. b[E_KEY + i := le32_at key i]) [0 ..< nk] (buf ctx)"
  have b0: "length b0 = 120" "\<forall>j < nk. b0 ! j = le32_at key j"
    using first_words [of "buf ctx" nk key] assms(3) nk(2) by (auto simp: b0_def)
  have W0: "W j = col (le32_at key j)" if "j < nk" for j
    using key_words_stable [of 0 60 j "columns key"] columns_nth [of j key] that nk(2) by (simp add: W_def nk_def)
  define s where "s = (b0 ! (E_KEY + nk - 1), b0)"
  have "loop_inv W nk 0 s" using b0 W0 nk by (simp add: loop_inv_def sched_def s_def E_KEY_def)
  from loops_sched [OF assms(1,2) nk_def rec this] obtain m where m: "m \<ge> 4 * (nk + 7)"
    and sm: "sched W m (snd (if length key = 16 then fold (loop4 T) [0 ..< 10] s
          else if length key = 24 then fold (loop6 T) [0 ..< 8] s else fold (loop8 T) [0 ..< 7] s))" (is "sched W m ?b1")
    by blast
  define b1 where "b1 = ?b1"
  have b1: "length b1 = 120" "\<forall>j < 4 * (nk + 7). col (b1 ! j) = W j" using sm m by (auto simp: b1_def sched_def)
  define b2 where "b2 = fold (\<lambda>i b. b[D_KEY + i := b ! (E_KEY + i)]) [0 ..< 4] b1"
  define b3 where "b3 = fold (\<lambda>i b. b[D_KEY + i := imix_col (b ! (E_KEY + i))]) [4 ..< length key + 24] b2"
  have b2: "length b2 = 120" "\<forall>j < 120. b2 ! j = (if 60 \<le> j \<and> j < 64 then b1 ! (j - 60) else b1 ! j)"
    using copy_fold [of 0 4 b1 "\<lambda>x. x"] b1(1) by (simp_all add: b2_def D_KEY_def E_KEY_def)
  have b3: "\<forall>j < 120. b3 ! j = (if 64 \<le> j \<and> j < 60 + (4 * nk + 24) then imix_col (b2 ! (j - 60)) else b2 ! j)"
    using copy_fold [of 4 "4 * nk + 24" b2 imix_col] b2(1) nk(2) unfolding b3_def D_KEY_def E_KEY_def nk(3) by simp
  have long: "(length key mod 8 \<noteq> 0 \<or> length key < AES_MIN_KEY_SIZE \<or> length key > AES_MAX_KEY_SIZE) = False"
    using nk(1,2,4) unfolding AES_MIN_KEY_SIZE_def AES_MAX_KEY_SIZE_def nk(3) by simp
  have set: "aes_set_key T ctx key (length key) = Some (0, ctx\<lparr>key_length := length key, buf := b3\<rparr>)"
    by (simp only: aes_set_key_def long less_irrefl if_False Let_def b3_def b2_def b1_def s_def b0_def nk_def)
  define ws where "ws = key_words (columns key) (4 * (nk + 7) - nk)"
  have ws: "ws ! j = W j" if "j < 4 * (nk + 7)" for j
    unfolding W_def ws_def
  proof (rule key_words_stable [symmetric])
    show "j < length (columns key) + (4 * (nk + 7) - nk)" unfolding columns_length nk_def [symmetric] using that by simp
  qed (use nk(2) in simp)
  have enc: "col (b3 ! j) = ws ! j" if "j < 4 * (nk + 7)" for j
    using that b3 b2(2) b1(2) nk(2) ws [of j] by auto
  have dec: "col (b3 ! (60 + j)) = (if j < 4 then ws ! j else inv_mix_column (ws ! j))" if "j < 4 * (nk + 6)" for j
    using that b3 b2(2) b1(2) nk(2) ws [of j] by (auto simp: imix_col_column)
  have "key_at b3 (4 * r) = round_key ws r" if "r \<le> nk + 6" for r
    unfolding key_at_def round_key_def using that by (intro map_cong refl enc) simp
  moreover have "key_at b3 (60 + 4 * r) = (if r = 0 then round_key ws 0 else map inv_mix_column (round_key ws r))"
    if r: "r < nk + 6" for r
  proof -
    have "map (\<lambda>i. col (b3 ! (60 + 4 * r + i))) [0 ..< 4] =
        map (\<lambda>i. if r = 0 then ws ! (4 * r + i) else inv_mix_column (ws ! (4 * r + i))) [0 ..< 4]"
      by (rule map_cong [OF refl]) (use dec [of "4 * r + i" for i] r in \<open>auto simp: add.assoc\<close>)
    then show ?thesis by (cases "r = 0") (simp_all add: key_at_def round_key_def comp_def del: upt_rec_numeral)
  qed
  ultimately have "expanded ws (nk + 6) b3" by (simp add: expanded_def)
  then show ?thesis using set unfolding nk_def ws_def by blast
qed

section \<open>Encryption and decryption\<close>

text \<open>The state after round \<open>r\<close>.\<close>

definition after_round :: "aes_state \<Rightarrow> aes_state \<Rightarrow> nat \<Rightarrow> aes_state" where
  "after_round ws s r = fold (aes_round ws) [1 ..< Suc r] (add_round_key s (round_key ws 0))"

lemma after_round_0: "after_round ws s 0 = add_round_key s (round_key ws 0)"
  and after_round_Suc: "after_round ws s (Suc r) = aes_round ws (Suc r) (after_round ws s r)"
  by (simp_all add: after_round_def)

lemma f_rounds:
  assumes "aes_tables T" "expanded ws nr b" "length bi = 4" "map col bi = add_round_key s (round_key ws 0)" "r \<le> nr"
  shows "map col (fst ((f_nround T b ^^ r) (bi, 4))) = after_round ws s r \<and> snd ((f_nround T b ^^ r) (bi, 4)) = 4 * Suc r"
  using assms(5)
proof (induction r)
  case 0
  then show ?case using assms(4) by (simp add: after_round_0)
next
  case (Suc r)
  obtain bi' k where x: "(f_nround T b ^^ r) (bi, 4) = (bi', k)" by fastforce
  have len: "length bi' = 4"
    using x assms(3) by (cases r) (auto simp: f_nround_def split: prod.splits)
  have "key_at b (4 * Suc r) = round_key ws (Suc r)" using assms(2) Suc.prems unfolding expanded_def by blast
  moreover have "map col bi' = after_round ws s r" "k = 4 * Suc r" using Suc x by simp_all
  ultimately show ?case using f_nround_columns [OF assms(1) len, of b k] x
    by (simp add: after_round_Suc aes_round_def) (simp add: f_nround_def)
qed

lemma square_round_key: "square (round_key ws r) \<longleftrightarrow> (\<forall>i < 4. length (ws ! (4 * r + i)) = 4)"
  by (auto simp: square_def round_key_def)

lemma expanded_square: "expanded ws nr b \<Longrightarrow> r \<le> nr \<Longrightarrow> square (round_key ws r)"
  unfolding expanded_def by (metis square_ops(4))

lemma square_after_round: "expanded ws nr b \<Longrightarrow> square s \<Longrightarrow> r \<le> nr \<Longrightarrow> square (after_round ws s r)"
proof (induction r)
  case 0
  then show ?case using expanded_square [of ws nr b 0] by (simp add: after_round_0 square_add)
next
  case (Suc r)
  then show ?case using expanded_square [of ws nr b "Suc r"] square_ops(1) [of "sub_bytes (after_round ws s r)"]
    by (auto simp: after_round_Suc aes_round_def square_def intro!: square_add [unfolded square_def] square_ops(3) [unfolded square_def])
qed

lemma i_rounds:
  assumes "aes_tables T" "expanded ws nr b" "length bi = 4" "square s" "0 < nr"
    and "map col bi = shift_rows (sub_bytes (after_round ws s (nr - 1)))" "j < nr"
  shows "map col (fst ((i_nround T b ^^ j) (bi, 60 + 4 * (nr - 1)))) = shift_rows (sub_bytes (after_round ws s (nr - 1 - j))) \<and>
    snd ((i_nround T b ^^ j) (bi, 60 + 4 * (nr - 1))) = 60 + 4 * (nr - 1 - j)"
  using assms(7)
proof (induction j)
  case 0
  then show ?case using assms(6) by simp
next
  case (Suc j)
  obtain bi' k where x: "(i_nround T b ^^ j) (bi, 60 + 4 * (nr - 1)) = (bi', k)" by fastforce
  have len: "length bi' = 4"
    using x assms(3) by (cases j) (auto simp: i_nround_def split: prod.splits)
  define r where "r = nr - 2 - j"
  have r: "nr - 1 - j = Suc r" "Suc r < nr" using Suc.prems by (simp_all add: r_def)
  have bi': "map col bi' = shift_rows (sub_bytes (after_round ws s (Suc r)))" "k = 60 + 4 * Suc r" using Suc x r by simp_all
  let ?u = "shift_rows (sub_bytes (after_round ws s r))"
  have "key_at b (60 + 4 * Suc r) = map inv_mix_column (round_key ws (Suc r))"
    using assms(2) r(2) unfolding expanded_def by auto
  then have "map col (fst (i_nround T b (bi', k))) =
      add_round_key (map inv_mix_column (after_round ws s (Suc r))) (map inv_mix_column (round_key ws (Suc r)))"
    using i_nround_columns [OF assms(1) len bi'(1) square_after_round [OF assms(2,4)], of b k] r(2) bi'(2) by simp
  also have "\<dots> = ?u"
    unfolding after_round_Suc aes_round_def
    by (rule inv_round [OF square_ops(1) expanded_square [OF assms(2)]]) (use r(2) in simp)
  finally have "map col (fst (i_nround T b (bi', k))) = ?u" .
  moreover have "nr - 1 - Suc j = r" using r(1) by simp
  moreover have "snd (i_nround T b (bi', k)) = 60 + 4 * r" using bi'(2) by (simp add: i_nround_def)
  ultimately show ?case using x by simp
qed

text \<open>The rounds that the length of the key adds.\<close>

lemma rounds_by_length:
  assumes "n \<in> {16, 24, 32}"
  shows "(f ^^ 9) (if n > 16 then f (f (if n > 24 then f (f x) else x)) else (if n > 24 then f (f x) else x)) =
    (f ^^ (n div 4 + 5)) x"
proof -
  have two: "(f ^^ (k + 2)) x = f (f ((f ^^ k) x))" for k x by simp
  from two [of 9 x] two [of 11 x] show ?thesis using assms by (auto simp: funpow_swap1)
qed

lemma load_columns:
  assumes "length src = 16"
  shows "map col (map (\<lambda>i. le32_at src i XOR b ! (k + i)) [0, 1, 2, 3]) = add_round_key (columns src) (key_at b k)"
  using assms by (simp add: columns_def upt_4 add_round_key_def key_at_def col_xor le32_word4) (simp add: col_def)

lemma store_columns: "store_le32 ws = concat (map col ws)"
  by (simp add: store_le32_def col_def [abs_def])

lemma columns_concat:
  assumes "square s"
  shows "columns (concat s) = s"
  using assms by (elim square_cases) (simp add: columns_def upt_4)

lemma concat_columns: "length msg = 16 \<Longrightarrow> concat (columns msg) = msg"
proof -
  assume msg: "length msg = 16"
  have "[0 ..< 16] = [0, 1, 2, 3, 4, 5, 6, 7, 8, 9, 10, 11, 12, 13, 14, 15 :: nat]" by (simp add: upt_conv_Cons)
  then have "concat (columns msg) = map ((!) msg) [0 ..< 16]" using msg by (simp add: columns_def upt_4 numeral_2_eq_2 del: upt_rec_numeral)
  then show ?thesis using msg map_nth [of msg] by simp
qed

lemma encrypt_columns:
  assumes "aes_tables T" "key_length ctx \<in> {16, 24, 32}" "nr = key_length ctx div 4 + 6" "expanded ws nr (buf ctx)" "length msg = 16"
  shows "aes_encrypt T ctx msg =
    concat (add_round_key (shift_rows (sub_bytes (after_round ws (columns msg) (nr - 1)))) (round_key ws nr))"
proof -
  define w0 where "w0 = map (\<lambda>i. le32_at msg i XOR buf ctx ! (E_KEY + i)) [0, 1, 2, 3]"
  have w0: "length w0 = 4" "map col w0 = add_round_key (columns msg) (round_key ws 0)"
    using load_columns [OF assms(5), of "buf ctx" 0] assms(4) unfolding expanded_def w0_def E_KEY_def by auto
  obtain bi k where x: "(f_nround T (buf ctx) ^^ (nr - 1)) (w0, 4) = (bi, k)" by fastforce
  have bi: "map col bi = after_round ws (columns msg) (nr - 1)" "k = 4 * nr"
    using f_rounds [OF assms(1,4) w0, of "nr - 1"] x assms(3) by simp_all
  have len: "length bi = 4" using x w0(1) by (cases "nr - 1") (auto simp: f_nround_def split: prod.splits)
  have n: "nr - 1 = key_length ctx div 4 + 5" using assms(3) by simp
  have "aes_encrypt T ctx msg = store_le32 (f_lround T (buf ctx) (bi, k))"
    unfolding aes_encrypt_def Let_def w0_def [symmetric] rounds_by_length [OF assms(2)] using x n by (simp add: E_KEY_def)
  moreover have "key_at (buf ctx) k = round_key ws nr" using assms(4) bi(2) by (simp add: expanded_def)
  ultimately show ?thesis using f_lround_columns [OF assms(1) len, of "buf ctx" k] bi(1) by (simp add: store_columns)
qed

lemma decrypt_columns:
  assumes "aes_tables T" "key_length ctx \<in> {16, 24, 32}" "nr = key_length ctx div 4 + 6" "expanded ws nr (buf ctx)" "length msg = 16"
    and "square s"
  shows "aes_decrypt T ctx
     (concat (add_round_key (shift_rows (sub_bytes (after_round ws s (nr - 1)))) (round_key ws nr))) = concat s"
proof -
  let ?x = "add_round_key (shift_rows (sub_bytes (after_round ws s (nr - 1)))) (round_key ws nr)"
  have kl: "key_length ctx + 24 = 4 * nr" using assms(2,3) by auto
  have sq: "square (round_key ws nr)" using expanded_square [OF assms(4)] by simp
  have x: "square ?x" by (rule square_add [OF square_ops(1) sq])
  define w0 where "w0 = map (\<lambda>i. le32_at (concat ?x) i XOR buf ctx ! (E_KEY + key_length ctx + 24 + i)) [0, 1, 2, 3]"
  have "length (concat ?x) = 16" using x by (elim square_cases) simp
  from load_columns [OF this, of "buf ctx" "4 * nr"]
  have "map col w0 = add_round_key ?x (key_at (buf ctx) (4 * nr))"
    unfolding w0_def columns_concat [OF x] by (simp add: E_KEY_def kl)
  also have "key_at (buf ctx) (4 * nr) = round_key ws nr" using assms(4) by (simp add: expanded_def)
  also have "add_round_key ?x (round_key ws nr) = shift_rows (sub_bytes (after_round ws s (nr - 1)))"
    by (rule add_round_key_self [OF square_ops(1) sq])
  finally have w0: "map col w0 = shift_rows (sub_bytes (after_round ws s (nr - 1)))" .
  have len0: "length w0 = 4" by (simp add: w0_def)
  obtain bi k where y: "(i_nround T (buf ctx) ^^ (nr - 1)) (w0, 60 + 4 * (nr - 1)) = (bi, k)" by fastforce
  have nr: "0 < nr" using assms(3) by simp
  have bi: "map col bi = shift_rows (sub_bytes (after_round ws s 0))" "k = 60"
    using i_rounds [OF assms(1,4) len0 assms(6) nr w0, of "nr - 1"] y nr by simp_all
  have len: "length bi = 4" using y len0 by (cases "nr - 1") (auto simp: i_nround_def split: prod.splits)
  have n: "nr - 1 = key_length ctx div 4 + 5" "D_KEY + key_length ctx + 20 = 60 + 4 * (nr - 1)"
    using assms(3) kl by (simp_all add: D_KEY_def)
  have "aes_decrypt T ctx (concat ?x) = store_le32 (i_lround T (buf ctx) (bi, k))"
    unfolding aes_decrypt_def Let_def w0_def [symmetric] rounds_by_length [OF assms(2)] n(2) using y n(1) by simp
  also have "\<dots> = concat (add_round_key (after_round ws s 0) (key_at (buf ctx) 60))"
    using i_lround_columns [OF assms(1) len bi(1) square_after_round [OF assms(4,6)], of "buf ctx" k] bi(2) by (simp add: store_columns)
  also have "key_at (buf ctx) 60 = round_key ws 0" using assms(4) nr unfolding expanded_def by auto
  also have "add_round_key (after_round ws s 0) (round_key ws 0) = s"
    unfolding after_round_0 using add_round_key_self [OF assms(6) expanded_square [OF assms(4)]] by simp
  finally show ?thesis .
qed

section \<open>The cipher\<close>

text \<open>C18: with the generated tables and a key of 16, 24 or 32 bytes, the key is accepted, and encrypting a
  block gives what the cipher of the standard (FIPS 197) gives for this key.\<close>

theorem aes_encrypt_is_standard:
  assumes "length key \<in> {16, 24, 32}" "length msg = 16" "length (buf ctx) = 120"
  shows "\<exists>ctx'. aes_set_key (gen_tabs zero_tabs) ctx key (length key) = Some (0, ctx') \<and>
    aes_encrypt (gen_tabs zero_tabs) ctx' msg = aes_cipher key msg"
proof -
  let ?nk = "length key div 4"
  from set_key_expanded [OF gen_tabs_tables assms(1,3)] obtain b where
    b: "aes_set_key (gen_tabs zero_tabs) ctx key (length key) = Some (0, ctx\<lparr>key_length := length key, buf := b\<rparr>)"
      "expanded (key_words (columns key) (4 * (?nk + 7) - ?nk)) (?nk + 6) b" by blast
  have "aes_encrypt (gen_tabs zero_tabs) (ctx\<lparr>key_length := length key, buf := b\<rparr>) msg = aes_cipher key msg"
    using encrypt_columns [OF gen_tabs_tables, of "ctx\<lparr>key_length := length key, buf := b\<rparr>" "?nk + 6"] b(2) assms(1,2)
    by (simp add: aes_cipher_def Let_def after_round_def add.commute)
  then show ?thesis using b(1) by blast
qed

theorem aes_encrypt_is_standard_witness:
  "\<exists>ctx'. aes_set_key (gen_tabs zero_tabs) \<lparr>key_length = 0, buf = replicate 120 0\<rparr> (replicate 24 7) (length (replicate 24 (7 :: u8))) =
      Some (0, ctx') \<and>
    aes_encrypt (gen_tabs zero_tabs) ctx' (replicate 16 9) = aes_cipher (replicate 24 7) (replicate 16 9)"
  by (rule aes_encrypt_is_standard) simp_all

text \<open>C19: with the generated tables, a block that was encrypted under a key of 16, 24 or 32 bytes is given back
  by decrypting it with the context that this key has set up.\<close>

theorem aes_decrypt_encrypt:
  assumes "aes_set_key (gen_tabs zero_tabs) ctx key (length key) = Some (0, ctx')" "length msg = 16" "length (buf ctx) = 120"
  shows "aes_decrypt (gen_tabs zero_tabs) ctx' (aes_encrypt (gen_tabs zero_tabs) ctx' msg) = msg"
proof -
  have "length key mod 8 = 0" "16 \<le> length key" "length key \<le> 32"
    using assms(1) by (auto simp: aes_set_key_def AES_MIN_KEY_SIZE_def AES_MAX_KEY_SIZE_def split: if_splits)
  then have key: "length key \<in> {16, 24, 32}" by auto
  let ?nk = "length key div 4"
  from set_key_expanded [OF gen_tabs_tables key assms(3)] assms(1) obtain b where
    ctx': "ctx' = ctx\<lparr>key_length := length key, buf := b\<rparr>"
      "expanded (key_words (columns key) (4 * (?nk + 7) - ?nk)) (?nk + 6) b" by auto
  have sq: "square (columns msg)" using assms(2) by (auto simp: square_def columns_def)
  have ctx: "key_length ctx' \<in> {16, 24, 32}" "?nk + 6 = key_length ctx' div 4 + 6"
      "expanded (key_words (columns key) (4 * (?nk + 7) - ?nk)) (?nk + 6) (buf ctx')"
    unfolding ctx'(1) using key ctx'(2) by simp_all
  show ?thesis unfolding encrypt_columns [OF gen_tabs_tables ctx assms(2)] decrypt_columns [OF gen_tabs_tables ctx assms(2) sq]
    by (rule concat_columns [OF assms(2)])
qed

theorem aes_decrypt_encrypt_witness:
  "\<exists>ctx'. aes_set_key (gen_tabs zero_tabs) \<lparr>key_length = 0, buf = replicate 120 0\<rparr> (replicate 32 7) (length (replicate 32 (7 :: u8))) =
      Some (0, ctx') \<and>
    aes_decrypt (gen_tabs zero_tabs) ctx' (aes_encrypt (gen_tabs zero_tabs) ctx' (replicate 16 9)) = replicate 16 9"
proof -
  let ?ctx = "\<lparr>key_length = 0, buf = replicate 120 0\<rparr>" and ?key = "replicate 32 (7 :: u8)"
  obtain ctx' where ctx': "aes_set_key (gen_tabs zero_tabs) ?ctx ?key (length ?key) = Some (0, ctx')"
    using set_key_expanded [OF gen_tabs_tables, of ?key ?ctx] by auto
  show ?thesis by (rule exI [of _ ctx'], rule conjI [OF ctx'], rule aes_decrypt_encrypt [OF ctx']) simp_all
qed

end
