(* ===== verification/Ez_Errno.thy ===== *)
theory Ez_Errno
  imports Util_Tables
begin

text \<open>Error codes of the API, \<^verbatim>\<open>include/ezcfg-errno.h\<close>; two of them stand with the tables.\<close>

definition EZCFG_E_RESOURCE :: int where "EZCFG_E_RESOURCE = 101"

definition EZCFG_E_PARSE :: int where "EZCFG_E_PARSE = 105"

definition EZCFG_E_CRC :: int where "EZCFG_E_CRC = 108"

end
