(* ===== verification/Uboot_Env.thy ===== *)
theory Uboot_Env
  imports Meta_Nvram_Spec Socket_Http Ez_Errno
begin

text \<open>
  The environment of the boot loader, \<^verbatim>\<open>libezcfg/api/src/api-ubootenv.c\<close>: a flash partition that
  holds a CRC-32 over the rest, then strings \<^verbatim>\<open>name=value\<close>, each with its NUL, and a second NUL
  after the last.  The partition is found in the text of \<^verbatim>\<open>/proc/mtd\<close>, read into a buffer, searched
  or changed there, and written back block by block.  A read behind the buffer is a fault; a write is
  one if it leaves the block that the allocator gave, which has \<open>me_slack\<close> bytes more than were asked for.
\<close>

unbundle bit_operations_syntax

section \<open>The system\<close>

text \<open>The text of \<^verbatim>\<open>/proc/mtd\<close>, and what the devices hold.\<close>

record mtd_sys =
  proc_mtd :: "string option"
  flash :: "string \<Rightarrow> string option"

text \<open>What the calls answer: whether the buffer can be allocated and how much larger it is than asked
  for, what a number out of range becomes, whether the device opens for writing, its size and the size
  of its blocks, which blocks can be erased, how many bytes a write at a place takes.\<close>

record mtd_env =
  me_alloc :: bool
  me_slack :: nat
  me_ovf :: "int \<Rightarrow> int"
  me_open :: bool
  me_geometry :: "(nat \<times> nat) option"
  me_erase :: "nat \<Rightarrow> bool"
  me_write :: "nat \<Rightarrow> nat \<Rightarrow> int"

record ubootenv_info =
  ubootenv_redundant :: bool
  ubootenv_size :: nat
  ubootenv_erasesize :: nat
  ubootenv_dev_name :: string
  ubootenv2_size :: nat
  ubootenv2_erasesize :: nat
  ubootenv2_dev_name :: string

definition no_info :: ubootenv_info where
  "no_info = \<lparr>ubootenv_redundant = False, ubootenv_size = 0, ubootenv_erasesize = 0, ubootenv_dev_name = [],
     ubootenv2_size = 0, ubootenv2_erasesize = 0, ubootenv2_dev_name = []\<rparr>"

section \<open>Finding the partition\<close>

text \<open>\<^verbatim>\<open>%d\<close>, \<^verbatim>\<open>%8llx\<close> and \<^verbatim>\<open>%8x\<close>, \<^verbatim>\<open>%s\<close> of \<^verbatim>\<open>sscanf\<close>.\<close>

definition scan_int :: "(int \<Rightarrow> int) \<Rightarrow> string \<Rightarrow> (int \<times> string) option" where
  "scan_int ovf s =
     (let s = dropWhile c_isspace s;
          t = (if peek s = CHR ''-'' \<or> peek s = CHR ''+'' then tl s else s)
      in if \<not> isdigit (of_char (peek t)) then None
         else let (n, rest) = scan_digits 0 t; v = (if peek s = CHR ''-'' then - int n else int n)
              in Some (if -2147483648 \<le> v \<and> v \<le> 2147483647 then v else ovf v, rest))"

definition scan_hex :: "nat \<Rightarrow> nat \<Rightarrow> string \<Rightarrow> (nat \<times> string) option" where
  "scan_hex width bits s =
     (let s = dropWhile c_isspace s; w = take width s;
          t = hex_prefix (if peek w = CHR ''-'' \<or> peek w = CHR ''+'' then tl w else w);
          v = hex_digits 0 t
      in if hex_value (peek t) = None then None
         else Some (nat ((if peek w = CHR ''-'' then - v else v) mod 2 ^ bits),
                    dropWhile (\<lambda>c. hex_value c \<noteq> None) t @ drop width s))"

definition scan_word :: "string \<Rightarrow> string option" where
  "scan_word s =
     (let w = takeWhile (\<lambda>c. \<not> c_isspace c) (dropWhile c_isspace s) in if w = [] then None else Some w)"

text \<open>\<^verbatim>\<open>sscanf(line, "mtd%d: %8llx %8x %s")\<close>, when all four are found.\<close>

definition scan_mtd_line :: "(int \<Rightarrow> int) \<Rightarrow> string \<Rightarrow> (int \<times> nat \<times> nat \<times> string) option" where
  "scan_mtd_line ovf line =
     (if take 3 line \<noteq> ''mtd'' then None
      else do {
        (idx, s) \<leftarrow> scan_int ovf (drop 3 line);
        if peek s \<noteq> CHR '':'' then None
        else do {
          (sz, s) \<leftarrow> scan_hex 8 64 (tl s);
          (erasesize, s) \<leftarrow> scan_hex 8 32 s;
          name \<leftarrow> scan_word s;
          Some (idx, sz, erasesize, name)
        }
      })"

text \<open>\<^verbatim>\<open>sprintf\<close> into the 16 bytes of a device name.\<close>

definition mtd_dev_name :: "int \<Rightarrow> string option" where
  "mtd_dev_name idx =
     (let s = ''/dev/mtd'' @ (if idx < 0 then CHR ''-'' # decimal (nat (- idx)) else decimal (nat idx))
      in if length s > 15 then None else Some s)"

text \<open>What a line adds; a name of more than 63 bytes leaves the variable that it is read into.\<close>

definition info_line :: "(int \<Rightarrow> int) \<Rightarrow> string \<Rightarrow> ubootenv_info \<Rightarrow> ubootenv_info option" where
  "info_line ovf line info =
     (case scan_mtd_line ovf line of
        None \<Rightarrow> Some info
      | Some (idx, sz, erasesize, name) \<Rightarrow>
          if length name > 63 then None
          else if name = ''\"u-boot-env\"'' then do {
            d \<leftarrow> mtd_dev_name idx;
            Some (info\<lparr>ubootenv_dev_name := d, ubootenv_size := sz, ubootenv_erasesize := erasesize\<rparr>)
          }
          else if name = ''\"u-boot-env2\"'' then do {
            d \<leftarrow> mtd_dev_name idx;
            Some (info\<lparr>ubootenv2_dev_name := d, ubootenv2_size := sz, ubootenv2_erasesize := erasesize,
                       ubootenv_redundant := True\<rparr>)
          }
          else Some info)"

function info_loop :: "(int \<Rightarrow> int) \<Rightarrow> string \<Rightarrow> ubootenv_info \<Rightarrow> ubootenv_info option" where
  "info_loop ovf s info =
     (case fgets 128 s of
        None \<Rightarrow> Some info
      | Some (line, s') \<Rightarrow> do {
          info' \<leftarrow> info_line ovf line info;
          info_loop ovf s' info'
        })"
  by pat_completeness auto

lemma fgets_shorter: "fgets 128 s = Some (line, s') \<Longrightarrow> length s' < length s"
  using fgets_take_length [of s 126] by (auto simp: fgets_def split: if_splits)

termination info_loop
  by (relation "measure (\<lambda>(ovf, s, info). length s)") (auto simp: fgets_shorter)

declare info_loop.simps [simp del]

definition init_ubootenv_info :: "mtd_env \<Rightarrow> mtd_sys \<Rightarrow> (int \<times> ubootenv_info) option" where
  "init_ubootenv_info E S =
     (case proc_mtd S of
        None \<Rightarrow> Some (- EZCFG_E_RESOURCE, no_info)
      | Some s \<Rightarrow>
          (case fgets 128 s of
             None \<Rightarrow> Some (0, no_info)
           | Some (_, s') \<Rightarrow> map_option (\<lambda>info. (0, info)) (info_loop (me_ovf E) s' no_info)))"

section \<open>The buffer\<close>

definition byte_at :: "string \<Rightarrow> nat \<Rightarrow> char option" where
  "byte_at data i = (if i < length data then Some (data ! i) else None)"

definition load32 :: "string \<Rightarrow> 32 word" where
  "load32 data =
     ucast (byte_of (data ! 0)) OR push_bit 8 (ucast (byte_of (data ! 1))) OR
     push_bit 16 (ucast (byte_of (data ! 2))) OR push_bit 24 (ucast (byte_of (data ! 3)))"

definition store32 :: "32 word \<Rightarrow> string" where
  "store32 w = map (\<lambda>i. char_of (unat (ucast (drop_bit (8 * i) w) :: 8 word))) [0, 1, 2, 3]"

text \<open>\<^verbatim>\<open>memset(p, 0, n)\<close> in a block with \<open>slack\<close> more bytes than the buffer has.\<close>

definition memset0 :: "nat \<Rightarrow> string \<Rightarrow> nat \<Rightarrow> int \<Rightarrow> string option" where
  "memset0 slack data p n =
     (if n < 0 \<or> p + nat n > length data + slack then None
      else Some (take (length data) (take p data @ replicate (nat n) NUL @ drop (p + nat n) data)))"

text \<open>Whether the string \<open>e\<close> at \<open>p\<close> is the entry of the name.\<close>

definition entry_is :: "string \<Rightarrow> nat \<Rightarrow> string \<Rightarrow> string \<Rightarrow> bool option" where
  "entry_is data p e name =
     (let entry_len = length e + 1; cmp_len = (if entry_len > length name then length name else entry_len) in
      if strncmp name e cmp_len = 0 then map_option (\<lambda>c. c = CHR ''='') (byte_at data (p + cmp_len)) else Some False)"

function find_entry_position :: "string \<Rightarrow> string \<Rightarrow> nat \<Rightarrow> nat option" where
  "find_entry_position data name entry =
     (case cstr_at data entry of
        None \<Rightarrow> None
      | Some e \<Rightarrow>
          if e = [] then Some entry
          else
            (case entry_is data entry e name of
               None \<Rightarrow> None
             | Some True \<Rightarrow> Some entry
             | Some False \<Rightarrow> find_entry_position data name (entry + (length e + 1))))"
  by pat_completeness auto

termination find_entry_position
  by (relation "measure (\<lambda>(data, name, entry). length data - entry)") (auto dest: cstr_at_length)

declare find_entry_position.simps [simp del]

text \<open>The loop for the two NULs.\<close>

function find_end :: "string \<Rightarrow> nat \<Rightarrow> nat" where
  "find_end buf e =
     (if e < length buf \<and> (buf ! (e - 1) \<noteq> NUL \<or> buf ! e \<noteq> NUL) then find_end buf (e + 1) else e)"
  by pat_completeness auto

termination find_end
  by (relation "measure (\<lambda>(buf, e). length buf - e)") auto

declare find_end.simps [simp del]

definition read_ubootenv :: "mtd_sys \<Rightarrow> ubootenv_info \<Rightarrow> int \<times> string" where
  "read_ubootenv S info =
     (case flash S (ubootenv_dev_name info) of
        None \<Rightarrow> (- EZCFG_E_RESOURCE, replicate (ubootenv_size info) NUL)
      | Some f \<Rightarrow>
          let n = ubootenv_size info in
          (if n = 0 \<or> length f < n then - EZCFG_E_RESOURCE else 0,
           take n f @ replicate (n - length f) NUL))"

text \<open>What every operation does first: the partition is found, read and checked.  The result is an error
  or the buffer with the place of the second NUL.\<close>

definition ubootenv_loaded :: "mtd_env \<Rightarrow> mtd_sys \<Rightarrow> (int + ubootenv_info \<times> string \<times> nat) option" where
  "ubootenv_loaded E S = do {
     (rc, info) \<leftarrow> init_ubootenv_info E S;
     if rc < 0 then Some (Inl rc)
     else if \<not> me_alloc E then Some (Inl (- EZCFG_E_SPACE))
     else let (rc, buf) = read_ubootenv S info in
       if rc < 0 then Some (Inl rc)
       else if ubootenv_size info < 4 then None
       else if ezcfg_util_crc32 (map byte_of (drop 4 buf)) XOR load32 buf \<noteq> 0 then Some (Inl (- EZCFG_E_CRC))
       else let end = find_end buf 5 in
         if end = ubootenv_size info then Some (Inl (- EZCFG_E_PARSE))
         else Some (Inr (info, buf, end))
   }"

section \<open>Reading\<close>

text \<open>Whether the string at \<open>p\<close> is a setting of the name.\<close>

definition entry_found :: "string \<Rightarrow> nat \<Rightarrow> string \<Rightarrow> bool option" where
  "entry_found data p name = do {
     e \<leftarrow> cstr_at data p;
     if e = [] then Some False else entry_is data p e name
   }"

text \<open>The buffer for the value is the text it holds, NULL is \<^const>\<open>None\<close>.\<close>

definition ezcfg_api_ubootenv_get ::
    "mtd_env \<Rightarrow> mtd_sys \<Rightarrow> string option \<Rightarrow> string option \<Rightarrow> nat \<Rightarrow> (int \<times> string option) option" where
  "ezcfg_api_ubootenv_get E S name val len =
     (case (name, val) of
        (Some n, Some _) \<Rightarrow>
          if length n < 1 \<or> len < 1 then Some (- EZCFG_E_PARSE, val)
          else do {
            r \<leftarrow> ubootenv_loaded E S;
            case r of
              Inl rc \<Rightarrow> Some (rc, val)
            | Inr (info, data, _) \<Rightarrow> do {
                tmp \<leftarrow> find_entry_position data n 4;
                found \<leftarrow> entry_found data tmp n;
                if found then do {
                  e \<leftarrow> cstr_at data tmp;
                  if length e + 1 - (length n + 1) > len then Some (- EZCFG_E_SPACE, val)
                  else do {
                    v \<leftarrow> cstr_at data (tmp + length n + 1);
                    Some (0, Some (take (len - 1) v))
                  }
                }
                else Some (- EZCFG_E_PARSE, val)
              }
          }
      | _ \<Rightarrow> Some (- EZCFG_E_PARSE, val))"

definition ezcfg_api_ubootenv_list :: "mtd_env \<Rightarrow> mtd_sys \<Rightarrow> string option \<Rightarrow> nat \<Rightarrow> (int \<times> string option) option" where
  "ezcfg_api_ubootenv_list E S lst len =
     (if lst = None \<or> len < 1 then Some (- EZCFG_E_ARGUMENT, lst)
      else do {
        r \<leftarrow> ubootenv_loaded E S;
        case r of
          Inl rc \<Rightarrow> Some (rc, lst)
        | Inr (info, data, end) \<Rightarrow>
            Some (0, Some (map (\<lambda>c. if c = NUL then CHR 0x0A else c) (take (len - 1) (take (end - 4) (drop 4 data)))))
      })"

definition ezcfg_api_ubootenv_check :: "mtd_env \<Rightarrow> mtd_sys \<Rightarrow> int option" where
  "ezcfg_api_ubootenv_check E S = map_option (case_sum (\<lambda>rc. rc) (\<lambda>_. 0)) (ubootenv_loaded E S)"

definition ezcfg_api_ubootenv_size :: "mtd_env \<Rightarrow> mtd_sys \<Rightarrow> int option" where
  "ezcfg_api_ubootenv_size E S =
     map_option (\<lambda>(rc, info). if rc \<ge> 0 then int (ubootenv_size info) else rc) (init_ubootenv_info E S)"

section \<open>Writing\<close>

text \<open>A setting on this list can be replaced only while it has the value of the list.\<close>

definition default_checklist :: "(string \<times> string) list" where
  "default_checklist =
     [(''ethaddr'', ''0x00:0xaa:0xbb:0xcc:0xdd:0xee''), (''serial#'', ''########''), (''pin#'', ''########''),
      (''model#'', ''########'')]"

fun check_ubootenv_name :: "string \<Rightarrow> string \<Rightarrow> (string \<times> string) list \<Rightarrow> int" where
  "check_ubootenv_name v name [] = 0"
| "check_ubootenv_name v name (c # cs) = (if fst c = name \<and> snd c \<noteq> v then -1 else check_ubootenv_name v name cs)"

definition erase_block :: "nat \<Rightarrow> nat \<Rightarrow> string \<Rightarrow> string" where
  "erase_block start n f = take start f @ replicate (min n (length f - start)) (CHR 0xFF) @ drop (start + n) f"

definition flash_put :: "nat \<Rightarrow> string \<Rightarrow> string \<Rightarrow> string" where
  "flash_put pos s f = take (length f) (take pos f @ s @ drop (pos + length s) f)"

text \<open>The loop over the blocks: \<open>start\<close> is a 32 bit number, \<open>pos\<close> the position in the file, \<open>len\<close> what is left.\<close>

partial_function (option) write_blocks ::
    "mtd_env \<Rightarrow> nat \<Rightarrow> nat \<Rightarrow> string \<Rightarrow> nat \<Rightarrow> nat \<Rightarrow> nat \<Rightarrow> string \<Rightarrow> (int \<times> string) option" where
  "write_blocks E mtd_size erasesize data start len pos f =
     (if start < mtd_size then
        if \<not> me_erase E start then Some (- EZCFG_E_RESOURCE, f)
        else
          let f1 = erase_block start erasesize f; count = min len erasesize; n = me_write E start count in
          if count > 0 \<and> start + count > length data then None
          else
            let f2 = flash_put pos (take (nat (min n (int count))) (drop start data)) f1 in
            if n \<noteq> int count then Some (- EZCFG_E_RESOURCE, f2)
            else write_blocks E mtd_size erasesize data ((start + erasesize) mod 2 ^ 32) (len - count) (pos + count) f2
      else Some (0, f))"

definition write_ubootenv :: "mtd_env \<Rightarrow> mtd_sys \<Rightarrow> ubootenv_info \<Rightarrow> string \<Rightarrow> nat \<Rightarrow> (int \<times> mtd_sys) option" where
  "write_ubootenv E S info data len =
     (case flash S (ubootenv_dev_name info) of
        None \<Rightarrow> Some (- EZCFG_E_RESOURCE, S)
      | Some f \<Rightarrow>
          if \<not> me_open E then Some (- EZCFG_E_RESOURCE, S)
          else
            (case me_geometry E of
               None \<Rightarrow> Some (- EZCFG_E_RESOURCE, S)
             | Some (mtd_size, erasesize) \<Rightarrow> do {
                 (rc, f') \<leftarrow> write_blocks E mtd_size erasesize data 0 len 0 f;
                 Some (rc, S\<lparr>flash := (flash S)(ubootenv_dev_name info \<mapsto> f')\<rparr>)
               }))"

text \<open>The change in the buffer: the old setting goes out, the new one is put at the end, the rest is cleared.
  The result is an error or the buffer, still with the old CRC.\<close>

definition ubootenv_change :: "nat \<Rightarrow> string \<Rightarrow> nat \<Rightarrow> string \<Rightarrow> string option \<Rightarrow> (int + string) option" where
  "ubootenv_change slack data end name val = do {
     let new_entry_len = (case val of None \<Rightarrow> 0 | Some v \<Rightarrow> length name + length v + 2);
     tmp \<leftarrow> find_entry_position data name 4;
     found \<leftarrow> entry_found data tmp name;
     r \<leftarrow> (if found then do {
             e \<leftarrow> cstr_at data tmp;
             v \<leftarrow> cstr_at data (tmp + length name + 1);
             let rc = check_ubootenv_name v name default_checklist;
             if rc < 0 then Some (Inl rc)
             else do {
               data' \<leftarrow> memmove data tmp (tmp + (length e + 1)) (int (end + 1) - int (tmp + (length e + 1)));
               Some (Inr (data', end - (length e + 1)))
             }
           }
           else Some (Inr (data, end)));
     case r of
       Inl rc \<Rightarrow> Some (Inl rc)
     | Inr (data, end) \<Rightarrow>
         if int (length data) - int end < int new_entry_len then Some (Inl (- EZCFG_E_SPACE))
         else do {
           (data, end) \<leftarrow> (case val of
              None \<Rightarrow> Some (data, end)
            | Some v \<Rightarrow> map_option (\<lambda>d. (d, end + new_entry_len)) (sprintf_entry data end name v));
           data \<leftarrow> memset0 slack data end (int (length data) - (int end - 4));
           Some (Inr data)
         }
   }"

definition ezcfg_api_ubootenv_set :: "mtd_env \<Rightarrow> mtd_sys \<Rightarrow> string option \<Rightarrow> string option \<Rightarrow> (int \<times> mtd_sys) option" where
  "ezcfg_api_ubootenv_set E S name val =
     (case name of
        None \<Rightarrow> Some (- EZCFG_E_PARSE, S)
      | Some n \<Rightarrow>
          if length n < 1 then Some (- EZCFG_E_PARSE, S)
          else do {
            r \<leftarrow> ubootenv_loaded E S;
            case r of
              Inl rc \<Rightarrow> Some (rc, S)
            | Inr (info, data, end) \<Rightarrow> do {
                r \<leftarrow> ubootenv_change (me_slack E) data end n val;
                case r of
                  Inl rc \<Rightarrow> Some (rc, S)
                | Inr data \<Rightarrow>
                    write_ubootenv E S info (store32 (ezcfg_util_crc32 (map byte_of (drop 4 data))) @ drop 4 data)
                      (ubootenv_size info)
              }
          })"

end
