(* ===== verification/Uboot_Env_Spec.thy ===== *)
theory Uboot_Env_Spec
  imports Uboot_Env
begin

text \<open>
  The environment of the boot loader as a list of pairs: what a flash partition holds, that reading
  is looking up, that storing is removing and appending, and where the code leaves its buffer.
\<close>

unbundle bit_operations_syntax

section \<open>Any content\<close>

lemma byte_at_Some: "i < length data \<Longrightarrow> byte_at data i = Some (data ! i)"
  by (simp add: byte_at_def)

lemma strncmp_0: "strncmp s t n = 0 \<longleftrightarrow> take n s = take n t"
  by (simp add: strncmp_def)

text \<open>Comparing an entry with a name never reads behind the entry.\<close>

lemma entry_is_total:
  assumes "cstr_at data p = Some e"
  shows "\<exists>b. entry_is data p e name = Some b"
proof (cases "length e + 1 > length name")
  case True
  then have "p + length name < length data" using cstr_at_length [OF assms] by simp
  then show ?thesis using True by (auto simp: entry_is_def byte_at_Some Let_def)
next
  case False
  then have "take (length e + 1) name \<noteq> take (length e + 1) e" by (auto dest: arg_cong [where f = length])
  then show ?thesis using False by (auto simp: entry_is_def strncmp_0 Let_def)
qed

text \<open>A text that has a NUL behind each of its places can be searched.\<close>

definition closed_from :: "string \<Rightarrow> nat \<Rightarrow> bool" where
  "closed_from data p \<longleftrightarrow> (\<exists>r. p \<le> r \<and> r < length data \<and> data ! r = NUL \<and> (p < r \<longrightarrow> data ! (r - 1) = NUL))"

lemma cstr_at_before:
  assumes "p \<le> q" "q < length data" "data ! q = NUL"
  shows "\<exists>e. cstr_at data p = Some e \<and> p + length e \<le> q"
proof -
  let ?d = "drop p data" and ?e = "takeWhile (\<lambda>c. c \<noteq> NUL) (drop p data)"
  have d: "q - p < length ?d" "?d ! (q - p) = NUL" using assms by simp_all
  then have "NUL \<in> set ?d" by (metis nth_mem)
  then have c: "cstr_at data p = Some ?e" by (simp add: cstr_at_def)
  have "length ?e \<le> q - p"
  proof (rule ccontr)
    assume "\<not> length ?e \<le> q - p"
    then have "?e ! (q - p) \<in> set ?e" by (intro nth_mem) simp
    moreover have "?e ! (q - p) = NUL" using \<open>\<not> length ?e \<le> q - p\<close> d(2) by (subst takeWhile_nth) simp_all
    ultimately show False by (auto dest: set_takeWhileD)
  qed
  then show ?thesis using c assms(1) by auto
qed

lemma find_entry_total:
  assumes "closed_from data p"
  shows "\<exists>t e. find_entry_position data name p = Some t \<and> cstr_at data t = Some e"
  using assms
proof (induction "length data - p" arbitrary: p rule: less_induct)
  case less
  from less.prems obtain r where r: "p \<le> r" "r < length data" "data ! r = NUL" "p < r \<Longrightarrow> data ! (r - 1) = NUL"
    by (auto simp: closed_from_def)
  from cstr_at_before [OF r(1-3)] obtain e where e: "cstr_at data p = Some e" "p + length e \<le> r" by auto
  from entry_is_total [OF e(1)] obtain b where b: "entry_is data p e name = Some b" by blast
  show ?case
  proof (cases "e = [] \<or> b")
    case True
    then show ?thesis using e b by (subst find_entry_position.simps) auto
  next
    case False
    have "p < r" using False e r(1) by (cases e) auto
    then have "\<exists>e'. cstr_at data p = Some e' \<and> p + length e' \<le> r - 1"
      by (intro cstr_at_before) (use r in auto)
    then have "p + (length e + 1) \<le> r" using e(1) \<open>p < r\<close> by auto
    then have "closed_from data (p + (length e + 1))" using r \<open>p < r\<close> unfolding closed_from_def by (intro exI [of _ r]) simp
    then show ?thesis using less.hyps [of "p + (length e + 1)"] b False e(1) cstr_at_length [OF e(1)]
      by (subst find_entry_position.simps) auto
  qed
qed

lemma find_end_spec: "e \<le> find_end data e" "find_end data e < length data \<Longrightarrow> data ! (find_end data e - 1) = NUL \<and> data ! find_end data e = NUL"
  "e \<le> length data \<Longrightarrow> find_end data e \<le> length data"
proof -
  have "e \<le> find_end data e \<and> (find_end data e < length data \<longrightarrow> data ! (find_end data e - 1) = NUL \<and> data ! find_end data e = NUL) \<and>
      (e \<le> length data \<longrightarrow> find_end data e \<le> length data)"
  proof (induction data e rule: find_end.induct)
    case (1 bf e)
    show ?case
    proof (cases "e < length bf \<and> (bf ! (e - 1) \<noteq> NUL \<or> bf ! e \<noteq> NUL)")
      case True
      then show ?thesis using 1 [OF True] by (simp add: find_end.simps [of bf e])
    next
      case False
      then show ?thesis by (auto simp: find_end.simps [of bf e])
    qed
  qed
  then show "e \<le> find_end data e" "find_end data e < length data \<Longrightarrow> data ! (find_end data e - 1) = NUL \<and> data ! find_end data e = NUL"
    "e \<le> length data \<Longrightarrow> find_end data e \<le> length data" by auto
qed

text \<open>What loading leaves, whatever the flash holds.\<close>

lemma read_length: "read_ubootenv S info = (0, data) \<Longrightarrow> length data = ubootenv_size info"
  by (auto simp: read_ubootenv_def Let_def split: option.splits if_splits)

lemma loaded_total:
  assumes "init_ubootenv_info E S = Some (rc, info)" "ubootenv_size info = 0 \<or> 4 < ubootenv_size info"
  shows "\<exists>r. ubootenv_loaded E S = Some r \<and>
    (\<forall>info' data end. r = Inr (info', data, end) \<longrightarrow> closed_from data 4 \<and> 4 < end \<and> end < length data)"
proof (cases "rc < 0 \<or> \<not> me_alloc E \<or> fst (read_ubootenv S info) < 0")
  case True
  then show ?thesis using assms(1) by (cases "read_ubootenv S info") (auto simp: ubootenv_loaded_def)
next
  case False
  then obtain data where r: "read_ubootenv S info = (0, data)"
    by (cases "read_ubootenv S info") (auto simp: read_ubootenv_def Let_def EZCFG_E_RESOURCE_def split: option.splits if_splits)
  have len: "length data = ubootenv_size info" using read_length [OF r] .
  have size: "4 < ubootenv_size info"
    using r assms(2) by (auto simp: read_ubootenv_def Let_def EZCFG_E_RESOURCE_def split: option.splits if_splits)
  let ?e = "find_end data 5"
  have e: "5 \<le> ?e" "?e \<le> length data" using find_end_spec(1,3) [of 5 data] size len by (simp_all add: find_end_spec)
  have "closed_from data 4 \<and> ?e < length data" if "?e \<noteq> ubootenv_size info"
    using that e len find_end_spec(2) [of data 5] unfolding closed_from_def by (intro conjI exI [of _ ?e]) auto
  then show ?thesis using False assms(1) r size e by (auto simp: ubootenv_loaded_def Let_def)
qed

section \<open>Lists of settings\<close>

fun setting_text :: "string \<times> string \<Rightarrow> string" where
  "setting_text (n, v) = n @ CHR ''='' # v"

definition env_text :: "(string \<times> string) list \<Rightarrow> string" where
  "env_text es = concat (map (\<lambda>e. setting_text e @ [NUL]) es)"

lemma env_text_simps [simp]:
  "env_text [] = []" "env_text (e # es) = setting_text e @ NUL # env_text es" "env_text (es @ fs) = env_text es @ env_text fs"
  by (simp_all add: env_text_def)

definition setting_ok :: "string \<times> string \<Rightarrow> bool" where
  "setting_ok e \<longleftrightarrow> meta_name (fst e) \<and> cstr (snd e)"

lemma setting_text_ok: "setting_ok e \<Longrightarrow> NUL \<notin> set (setting_text e) \<and> setting_text e \<noteq> []"
  by (cases e) (auto simp: setting_ok_def meta_name_def cstr_def NUL_def)

lemma cstr_at_setting: "setting_ok e \<Longrightarrow> p = length xs \<Longrightarrow> cstr_at (xs @ setting_text e @ NUL # zs) p = Some (setting_text e)"
  using setting_text_ok by (intro cstr_at_app) auto

lemma cstr_at_value:
  "setting_ok (n, v) \<Longrightarrow> p = length xs \<Longrightarrow> cstr_at (xs @ setting_text (n, v) @ NUL # zs) (p + length n + 1) = Some v"
  using cstr_at_app [of v "length (xs @ n @ [CHR ''=''])" "xs @ n @ [CHR ''='']" zs] by (auto simp: setting_ok_def cstr_def)

lemma entry_is_setting:
  assumes "setting_ok e" "meta_name name" "p = length xs"
  shows "entry_is (xs @ setting_text e @ NUL # zs) p (setting_text e) name = Some (fst e = name)"
proof -
  obtain n v where e: "e = (n, v)" by (cases e)
  let ?t = "setting_text e" and ?d = "xs @ setting_text e @ NUL # zs"
  have n: "CHR ''='' \<notin> set n" "CHR ''='' \<notin> set name" using assms(1,2) e by (auto simp: setting_ok_def meta_name_def)
  show ?thesis
  proof (cases "length ?t + 1 > length name")
    case True
    have d: "?d ! (p + length name) = (?t @ [NUL]) ! length name"
      using True assms(3) by (simp add: nth_append)
    have "take (length name) ?t = name \<and> (?t @ [NUL]) ! length name = CHR ''='' \<longleftrightarrow> n = name"
    proof
      assume a: "take (length name) ?t = name \<and> (?t @ [NUL]) ! length name = CHR ''=''"
      then have less: "length name < length ?t" using True by (auto simp: nth_append NUL_def split: if_splits)
      have "?t ! length name = CHR ''=''" using a less by (simp add: nth_append)
      then have t: "?t = name @ CHR ''='' # drop (Suc (length name)) ?t"
        using a id_take_nth_drop [OF less] by simp
      have "takeWhile (\<lambda>c. c \<noteq> CHR ''='') (name @ CHR ''='' # drop (Suc (length name)) ?t) = name"
        using n(2) by (subst takeWhile_append2) auto
      then have "takeWhile (\<lambda>c. c \<noteq> CHR ''='') ?t = name" by (simp only: t [symmetric])
      moreover have "takeWhile (\<lambda>c. c \<noteq> CHR ''='') ?t = n" using n(1) by (simp add: e) (subst takeWhile_append2, auto)
      ultimately show "n = name" by simp
    next
      assume "n = name"
      then show "take (length name) ?t = name \<and> (?t @ [NUL]) ! length name = CHR ''=''" by (simp add: e nth_append)
    qed
    then show ?thesis using True assms(3) d
      by (auto simp: entry_is_def Let_def strncmp_0 byte_at_def e)
  next
    case False
    then have "take (length ?t + 1) name \<noteq> take (length ?t + 1) ?t" by (auto dest: arg_cong [where f = length])
    moreover have "n \<noteq> name" using False e by auto
    ultimately show ?thesis using False e by (auto simp: entry_is_def strncmp_0 Let_def)
  qed
qed

text \<open>The entries before the one of a name.\<close>

definition before :: "string \<Rightarrow> (string \<times> string) list \<Rightarrow> (string \<times> string) list" where
  "before name es = takeWhile (\<lambda>e. fst e \<noteq> name) es"

lemma find_setting:
  assumes "list_all setting_ok es" "meta_name name"
  shows "find_entry_position (xs @ env_text es @ NUL # zs) name (length xs) = Some (length (xs @ env_text (before name es)))"
  using assms(1)
proof (induction es arbitrary: xs)
  case Nil
  then show ?case using cstr_at_app [of "[]" "length xs" xs zs] by (subst find_entry_position.simps) (simp add: before_def)
next
  case (Cons e es)
  let ?d = "xs @ setting_text e @ NUL # env_text es @ NUL # zs"
  have e: "cstr_at ?d (length xs) = Some (setting_text e)" "setting_text e \<noteq> []"
    "entry_is ?d (length xs) (setting_text e) name = Some (fst e = name)"
    using Cons.prems cstr_at_setting [of e] entry_is_setting [of e name "length xs" xs] setting_text_ok [of e] assms(2) by auto
  show ?case
  proof (cases "fst e = name")
    case True
    then show ?thesis using e by (subst find_entry_position.simps) (simp add: before_def)
  next
    case False
    then show ?thesis using e Cons.IH [of "xs @ setting_text e @ [NUL]"] Cons.prems
      by (subst find_entry_position.simps) (simp add: before_def)
  qed
qed

lemma split_before:
  assumes "map_of es name = Some v"
  obtains ws where "es = before name es @ (name, v) # ws"
proof -
  have "dropWhile (\<lambda>e. fst e \<noteq> name) es \<noteq> []" using assms by (force dest!: map_of_SomeD simp: dropWhile_eq_Nil_conv)
  then obtain e ws where d: "dropWhile (\<lambda>e. fst e \<noteq> name) es = e # ws" by (cases "dropWhile (\<lambda>e. fst e \<noteq> name) es") auto
  then have "fst e = name" using hd_dropWhile [of "\<lambda>e. fst e \<noteq> name" es] by auto
  have es: "es = before name es @ e # ws" using d by (metis before_def takeWhile_dropWhile_id)
  have "map_of (before name es) name = None"
    by (auto simp: before_def map_of_eq_None_iff dest: set_takeWhileD)
  then have "map_of (before name es @ e # ws) name = Some (snd e)"
    using \<open>fst e = name\<close> by (cases e) (simp add: map_add_def)
  then have "map_of es name = Some (snd e)" by (simp only: es [symmetric])
  then have "e = (name, v)" using assms \<open>fst e = name\<close> by (cases e) simp
  then show thesis using es that by simp
qed

lemma absent_before: "map_of es name = None \<Longrightarrow> before name es = es"
  by (auto simp: before_def map_of_eq_None_iff takeWhile_eq_all_conv)

section \<open>What the flash holds\<close>

definition env_holds :: "nat \<Rightarrow> (string \<times> string) list \<Rightarrow> string \<Rightarrow> bool" where
  "env_holds n es f \<longleftrightarrow>
     list_all setting_ok es \<and> distinct (map fst es) \<and> 4 < n \<and> n \<le> length f \<and>
     load32 f = ezcfg_util_crc32 (map byte_of (drop 4 (take n f))) \<and>
     (\<exists>rest. drop 4 (take n f) = env_text es @ NUL # rest \<and> (es = [] \<longrightarrow> rest \<noteq> [] \<and> hd rest = NUL))"

definition partition_at :: "mtd_env \<Rightarrow> mtd_sys \<Rightarrow> ubootenv_info \<Rightarrow> string \<Rightarrow> bool" where
  "partition_at E S info f \<longleftrightarrow>
     me_alloc E \<and> init_ubootenv_info E S = Some (0, info) \<and> flash S (ubootenv_dev_name info) = Some f"

definition no_double :: "string \<Rightarrow> bool" where
  "no_double s \<longleftrightarrow> (\<forall>i. Suc i < length s \<longrightarrow> s ! i \<noteq> NUL \<or> s ! Suc i \<noteq> NUL)"

lemma no_double_Cons: "no_double (c # s) \<longleftrightarrow> (s = [] \<or> c \<noteq> NUL \<or> hd s \<noteq> NUL) \<and> no_double s"
proof -
  have "no_double (c # s) \<longleftrightarrow> (s \<noteq> [] \<longrightarrow> c \<noteq> NUL \<or> s ! 0 \<noteq> NUL) \<and> no_double s"
    unfolding no_double_def by (auto simp: less_Suc_eq_0_disj all_conj_distrib nth_Cons split: nat.splits)
  then show ?thesis by (cases s) simp_all
qed

lemma no_double_app: "NUL \<notin> set u \<Longrightarrow> no_double (u @ s) \<longleftrightarrow> no_double s"
  by (induction u) (auto simp: no_double_Cons)

lemma no_double_env_text: "list_all setting_ok es \<Longrightarrow> no_double (env_text es)"
proof (induction es)
  case Nil
  then show ?case by (simp add: no_double_def)
next
  case (Cons e es)
  have "env_text es = [] \<or> hd (env_text es) \<noteq> NUL"
    using Cons.prems setting_text_ok [of "hd es"] by (cases es) (auto simp: hd_append dest: hd_in_set)
  then show ?case using Cons setting_text_ok [of e] by (simp add: no_double_app no_double_Cons)
qed

lemma find_end_first:
  assumes "e \<le> r" "r < length data" "data ! (r - 1) = NUL" "data ! r = NUL"
    and "\<And>i. e \<le> i \<Longrightarrow> i < r \<Longrightarrow> data ! (i - 1) \<noteq> NUL \<or> data ! i \<noteq> NUL"
  shows "find_end data e = r"
  using assms
proof (induction "r - e" arbitrary: e)
  case 0
  then show ?case by (simp add: find_end.simps [of data e])
next
  case (Suc k)
  then have "find_end data e = find_end data (e + 1)" using Suc.prems(5) [of e] by (simp add: find_end.simps [of data e])
  also have "\<dots> = r" using Suc by (intro Suc.hyps(1)) auto
  finally show ?case .
qed

lemma env_text_last: "es \<noteq> [] \<Longrightarrow> env_text es \<noteq> [] \<and> last (env_text es) = NUL"
  by (cases es rule: rev_cases) auto

lemma find_end_text:
  assumes "length c = 4" "list_all setting_ok es" "es = [] \<longrightarrow> rest \<noteq> [] \<and> hd rest = NUL"
  shows "find_end (c @ env_text es @ NUL # rest) 5 = (if es = [] then 5 else 4 + length (env_text es))"
proof (cases "es = []")
  case True
  then show ?thesis using assms
    by (cases rest) (simp_all add: find_end.simps [of _ 5] nth_append)
next
  case False
  let ?t = "env_text es"
  have t: "?t \<noteq> []" "last ?t = NUL" using env_text_last [OF False] by auto
  have nd: "no_double ?t" by (rule no_double_env_text [OF assms(2)])
  have len: "length ?t \<ge> 2" using False setting_text_ok [of "hd es"] assms(2) by (cases es) (auto simp: Suc_le_eq)
  have "find_end (c @ ?t @ NUL # rest) 5 = 4 + length ?t"
  proof (rule find_end_first)
    show "(c @ ?t @ NUL # rest) ! (4 + length ?t - 1) = NUL"
      using t assms(1) by (simp add: nth_append last_conv_nth)
    show "(c @ ?t @ NUL # rest) ! (4 + length ?t) = NUL" using assms(1) by (simp add: nth_append)
  next
    fix i assume i: "5 \<le> i" "i < 4 + length ?t"
    then obtain k where k: "i = k + 5" by (metis add.commute le_Suc_ex)
    then have "?t ! k \<noteq> NUL \<or> ?t ! Suc k \<noteq> NUL" using nd i(2) by (simp add: no_double_def)
    moreover have "(c @ ?t @ NUL # rest) ! (4 + k) = ?t ! k" "(c @ ?t @ NUL # rest) ! (5 + k) = ?t ! Suc k"
      using i(2) k assms(1) by (simp_all add: nth_append)
    ultimately show "(c @ ?t @ NUL # rest) ! (i - 1) \<noteq> NUL \<or> (c @ ?t @ NUL # rest) ! i \<noteq> NUL"
      using k by (simp add: add.commute)
  qed (use assms(1) len in auto)
  then show ?thesis using False by simp
qed

lemma load32_take: "4 \<le> n \<Longrightarrow> n \<le> length f \<Longrightarrow> load32 (take n f) = load32 f"
  by (simp add: load32_def)

lemma holds_buffer:
  assumes "env_holds n es f"
  obtains c rest where "take n f = c @ env_text es @ NUL # rest" "length c = 4" "es = [] \<longrightarrow> rest \<noteq> [] \<and> hd rest = NUL"
proof -
  obtain rest where r: "drop 4 (take n f) = env_text es @ NUL # rest" "es = [] \<longrightarrow> rest \<noteq> [] \<and> hd rest = NUL"
    using assms by (auto simp: env_holds_def)
  have "take n f = take 4 (take n f) @ env_text es @ NUL # rest" using r(1) by (metis append_take_drop_id)
  moreover have "length (take 4 (take n f)) = 4" using assms by (simp add: env_holds_def)
  ultimately show thesis using that r(2) by blast
qed

lemma loaded_holds:
  assumes "partition_at E S info f" "env_holds (ubootenv_size info) es f"
  shows "ubootenv_loaded E S =
    Some (Inr (info, take (ubootenv_size info) f, if es = [] then 5 else 4 + length (env_text es)))"
proof -
  let ?n = "ubootenv_size info"
  obtain c rest where b: "take ?n f = c @ env_text es @ NUL # rest" "length c = 4" "es = [] \<longrightarrow> rest \<noteq> [] \<and> hd rest = NUL"
    using holds_buffer [OF assms(2)] .
  have h: "4 < ?n" "?n \<le> length f" "load32 f = ezcfg_util_crc32 (map byte_of (drop 4 (take ?n f)))" "list_all setting_ok es"
    using assms(2) by (simp_all add: env_holds_def)
  have read: "read_ubootenv S info = (0, take ?n f)"
    using assms(1) h(1,2) by (simp add: read_ubootenv_def partition_at_def)
  have e: "find_end (take ?n f) 5 = (if es = [] then 5 else 4 + length (env_text es))"
    unfolding b(1) by (rule find_end_text [OF b(2) h(4) b(3)])
  have "?n = 4 + length (env_text es) + 1 + length rest" using h(2) arg_cong [OF b(1), of length] b(2) by simp
  then have "find_end (take ?n f) 5 < ?n" unfolding e using b(3) by (cases rest) auto
  then show ?thesis using assms(1) h read load32_take [of ?n f]
    by (simp add: ubootenv_loaded_def partition_at_def Let_def e [symmetric])
qed

section \<open>Reading a setting\<close>

lemma entry_found_absent:
  assumes "list_all setting_ok es" "meta_name name" "length c = 4" "map_of es name = None"
  shows "find_entry_position (c @ env_text es @ NUL # rest) name 4 = Some (4 + length (env_text es)) \<and>
    entry_found (c @ env_text es @ NUL # rest) (4 + length (env_text es)) name = Some False"
  using find_setting [OF assms(1,2), of c rest] absent_before [OF assms(4)] assms(3)
    cstr_at_app [of "[]" "4 + length (env_text es)" "c @ env_text es" rest]
  by (simp add: entry_found_def)

lemma entry_found_present:
  fixes us ws rest
  assumes "list_all setting_ok (us @ (name, v) # ws)" "before name (us @ (name, v) # ws) = us" "length c = 4"
  defines "d \<equiv> c @ env_text (us @ (name, v) # ws) @ NUL # rest" and "p \<equiv> 4 + length (env_text us)"
  shows "find_entry_position d name 4 = Some p" "entry_found d p name = Some True"
    "cstr_at d p = Some (setting_text (name, v))" "cstr_at d (p + length name + 1) = Some v"
proof -
  have ok: "setting_ok (name, v)" "meta_name name" using assms(1) by (simp_all add: setting_ok_def)
  show "find_entry_position d name 4 = Some p"
    using find_setting [OF assms(1) ok(2), of c rest] assms(2,3) by (simp add: d_def p_def)
  have d: "d = (c @ env_text us) @ setting_text (name, v) @ NUL # (env_text ws @ NUL # rest)" "p = length (c @ env_text us)"
    using assms(3) by (simp_all add: d_def p_def)
  show c: "cstr_at d p = Some (setting_text (name, v))" unfolding d by (rule cstr_at_setting [OF ok(1) refl])
  show "cstr_at d (p + length name + 1) = Some v" unfolding d by (rule cstr_at_value [OF ok(1) refl])
  show "entry_found d p name = Some True"
    using entry_is_setting [OF ok(1,2) d(2), of "env_text ws @ NUL # rest"] c by (simp add: entry_found_def d(1) del: setting_text.simps) simp
qed

text \<open>What reading a name gives.\<close>

definition get_result :: "string option \<Rightarrow> string \<Rightarrow> nat \<Rightarrow> int \<times> string option" where
  "get_result r old len =
     (case r of
        None \<Rightarrow> (- EZCFG_E_PARSE, Some old)
      | Some v \<Rightarrow> if length v < len then (0, Some v) else (- EZCFG_E_SPACE, Some old))"

lemma get_holds:
  assumes "partition_at E S info f" "env_holds (ubootenv_size info) es f" "meta_name name" "0 < len"
  shows "ezcfg_api_ubootenv_get E S (Some name) (Some old) len = Some (get_result (map_of es name) old len)"
proof -
  obtain c rest where b: "take (ubootenv_size info) f = c @ env_text es @ NUL # rest" "length c = 4"
    using holds_buffer [OF assms(2)] by metis
  have ok: "list_all setting_ok es" using assms(2) by (simp add: env_holds_def)
  have name: "length name \<ge> 1" using assms(3) by (cases name) (auto simp: meta_name_def)
  note load = loaded_holds [OF assms(1,2), unfolded b(1)]
  show ?thesis
  proof (cases "map_of es name")
    case None
    then show ?thesis using entry_found_absent [OF ok assms(3) b(2) None, of rest] name assms(4)
      by (simp add: ezcfg_api_ubootenv_get_def load get_result_def not_less)
  next
    case (Some v)
    obtain ws where es: "es = before name es @ (name, v) # ws" using split_before [OF Some] .
    define us where "us = before name es"
    have us: "es = us @ (name, v) # ws" "before name (us @ (name, v) # ws) = us" using es unfolding us_def by metis+
    note found = entry_found_present [OF ok [unfolded us(1)] us(2) b(2), of rest]
    have "name \<noteq> []" using name by auto
    then show ?thesis unfolding ezcfg_api_ubootenv_get_def load Some get_result_def unfolding us(1) using assms(4) found
      by (simp add: not_less Suc_le_eq)
  qed
qed

section \<open>Storing a setting\<close>

definition env_update :: "string \<Rightarrow> string option \<Rightarrow> (string \<times> string) list \<Rightarrow> (string \<times> string) list" where
  "env_update name val es =
     filter (\<lambda>e. fst e \<noteq> name) es @ (case val of None \<Rightarrow> [] | Some v \<Rightarrow> [(name, v)])"

lemma map_of_env_update: "map_of (env_update name val es) = (map_of es)(name := val)"
proof (rule ext)
  fix m
  show "map_of (env_update name val es) m = ((map_of es)(name := val)) m"
    by (induction es) (auto simp: env_update_def map_add_def split: option.splits)
qed

lemma env_update_ok:
  assumes "list_all setting_ok es" "distinct (map fst es)" "meta_name name" "\<And>v. val = Some v \<Longrightarrow> cstr v"
  shows "list_all setting_ok (env_update name val es) \<and> distinct (map fst (env_update name val es))"
  using assms by (auto simp: env_update_def setting_ok_def list_all_iff distinct_map_filter split: option.splits)

lemma memset0_tail:
  assumes "p \<le> length data" "4 \<le> slack"
  shows "memset0 slack data p (int (length data) - (int p - 4)) = Some (take p data @ replicate (length data - p) NUL)"
proof -
  have "nat (int (length data) - (int p - 4)) = length data - p + 4" using assms(1) by simp
  then show ?thesis using assms by (simp add: memset0_def take_replicate min_def)
qed

text \<open>The buffer when the old setting has gone out.\<close>

lemma remove_setting:
  assumes "length c = 4" "data = c @ env_text (us @ e # ws) @ NUL # rest" "setting_ok e"
    and "p = 4 + length (env_text us)" "k = length (setting_text e) + 1" "end = 4 + length (env_text (us @ e # ws))"
  shows "\<exists>rest'. memmove data p (p + k) (int (end + 1) - int (p + k)) = Some (c @ env_text (us @ ws) @ NUL # rest') \<and>
    length (c @ env_text (us @ ws) @ NUL # rest') = length data"
proof -
  let ?n = "length (env_text ws) + 1"
  have n: "int (end + 1) - int (p + k) = int ?n" using assms(4-6) by simp
  have fits: "p + k + ?n \<le> length data" using assms by simp
  have src: "take ?n (drop (p + k) data) = env_text ws @ [NUL]" using assms(1,2,4,5) by simp
  have "take p data = c @ env_text us" using assms(1,2,4) by simp
  then have "memmove data p (p + k) (int (end + 1) - int (p + k)) = Some ((c @ env_text us) @ (env_text ws @ [NUL]) @ drop (p + ?n) data)"
    unfolding memmove_eq [OF n fits] src using fits by (simp add: buf_write_def)
  moreover have "length ((c @ env_text us) @ (env_text ws @ [NUL]) @ drop (p + ?n) data) = length data"
    using fits assms(1,4) by simp
  ultimately show ?thesis by (intro exI [of _ "drop (p + ?n) data"]) simp
qed

lemma filter_present:
  assumes "distinct (map fst (us @ (name, v) # ws))"
  shows "filter (\<lambda>e. fst e \<noteq> name) (us @ (name, v) # ws) = us @ ws"
proof -
  have "\<forall>e \<in> set us. fst e \<noteq> name" "\<forall>e \<in> set ws. fst e \<noteq> name" using assms by force+
  then show ?thesis by (simp add: filter_id_conv)
qed

text \<open>Putting the new one at the end.\<close>

lemma append_setting:
  assumes "length c = 4" "data = c @ env_text fs @ NUL # rest" "e = 4 + length (env_text fs)"
    and "length (env_text (fs @ [(name, v)])) + 4 \<le> length data"
  shows "\<exists>d. sprintf_entry data e name v = Some d \<and> length d = length data \<and>
    take (e + (length name + length v + 2)) d = c @ env_text (fs @ [(name, v)])"
proof -
  let ?s = "name @ ''='' @ v @ [NUL]"
  have fits: "e + length ?s \<le> length data" using assms(3,4) by simp
  have "take e data = c @ env_text fs" using assms(1-3) by simp
  then have "sprintf_entry data e name v = Some ((c @ env_text fs) @ ?s @ drop (e + length ?s) data)"
    using fits by (simp add: sprintf_entry_def buf_write_def)
  moreover have "length ((c @ env_text fs) @ ?s @ drop (e + length ?s) data) = length data"
    using fits assms(1,3) by simp
  moreover have "take (e + (length name + length v + 2)) ((c @ env_text fs) @ ?s @ drop (e + length ?s) data) = c @ env_text (fs @ [(name, v)])"
    using assms(1,3) by simp
  ultimately show ?thesis by blast
qed

lemma check_unprotected: "check_ubootenv_name w name cs = 0 \<or> check_ubootenv_name w name cs = -1"
  by (induction cs) auto

text \<open>The whole change, with room for the setting and one more NUL.\<close>

lemma change_holds:
  assumes "list_all setting_ok es" "distinct (map fst es)" "es \<noteq> []" "meta_name name" "length c = 4"
    and "data = c @ env_text es @ NUL # rest" "end = 4 + length (env_text es)"
    and "\<And>w. map_of es name = Some w \<Longrightarrow> check_ubootenv_name w name default_checklist = 0"
    and "length (env_text (env_update name val es)) + 4 \<le> length data"
  shows "ubootenv_change slack data end name val =
    (if slack < 4 then None
     else Some (Inr (c @ env_text (env_update name val es) @ replicate (length data - (4 + length (env_text (env_update name val es)))) NUL)))"
proof -
  let ?fs = "filter (\<lambda>e. fst e \<noteq> name) es"
  let ?put = "\<lambda>data end. (if int (length data) - int end < int (case val of None \<Rightarrow> 0 | Some v \<Rightarrow> length name + length v + 2)
      then Some (Inl (- EZCFG_E_SPACE))
      else do {
        (data, end) \<leftarrow> (case val of
           None \<Rightarrow> Some (data, end)
         | Some v \<Rightarrow> map_option (\<lambda>d. (d, end + (case val of None \<Rightarrow> 0 | Some v \<Rightarrow> length name + length v + 2))) (sprintf_entry data end name v));
        data \<leftarrow> memset0 slack data end (int (length data) - (int end - 4));
        Some (Inr data)
      }) :: (int + string) option"
  have removed: "\<exists>d rest'. d = c @ env_text ?fs @ NUL # rest' \<and> length d = length data \<and>
      ubootenv_change slack data end name val = ?put d (4 + length (env_text ?fs))"
  proof (cases "map_of es name")
    case None
    then have fs: "?fs = es" by (auto simp: filter_id_conv map_of_eq_None_iff)
    show ?thesis
      by (rule exI [of _ data], rule exI [of _ rest])
        (cases val; simp add: ubootenv_change_def assms(6,7) entry_found_absent [OF assms(1,4,5) None] fs)
  next
    case (Some w)
    define us where "us = before name es"
    obtain ws where "es = before name es @ (name, w) # ws" using split_before [OF Some] .
    then have us: "es = us @ (name, w) # ws" "before name (us @ (name, w) # ws) = us" unfolding us_def by metis+
    note found = entry_found_present [OF assms(1) [unfolded us(1)] us(2) assms(5), of rest]
    have ok: "setting_ok (name, w)" using assms(1) us(1) by simp
    have fs: "?fs = us @ ws" unfolding us(1) by (rule filter_present [OF assms(2) [unfolded us(1)]])
    obtain rest' where rest': "memmove data (4 + length (env_text us)) (4 + length (env_text us) + (length (setting_text (name, w)) + 1))
        (int (end + 1) - int (4 + length (env_text us) + (length (setting_text (name, w)) + 1))) = Some (c @ env_text (us @ ws) @ NUL # rest')"
        "length (c @ env_text (us @ ws) @ NUL # rest') = length data"
      using remove_setting [OF assms(5) _ ok refl refl, of data us ws rest "end"] assms(6,7) us(1) by blast
    have e: "end - (length (setting_text (name, w)) + 1) = 4 + length (env_text ?fs)"
      unfolding fs by (simp add: assms(7) us(1))
    have d: "data = c @ env_text (us @ (name, w) # ws) @ NUL # rest" using assms(6) us(1) by simp
    have change: "ubootenv_change slack data end name val = ?put (c @ env_text (us @ ws) @ NUL # rest') (4 + length (env_text ?fs))"
      unfolding ubootenv_change_def Let_def
      using found [folded d] rest' assms(8) [OF Some] e by (cases val; simp)
    show ?thesis
      by (rule exI [of _ "c @ env_text (us @ ws) @ NUL # rest'"], rule exI [of _ rest'], intro conjI, unfold fs,
          rule refl, rule rest'(2), rule change [unfolded fs])
  qed
  then obtain d rest' where d: "d = c @ env_text ?fs @ NUL # rest'" "length d = length data"
    "ubootenv_change slack data end name val = ?put d (4 + length (env_text ?fs))" by blast
  have memset: "memset0 slack x p (int (length x) - (int p - 4)) =
      (if slack < 4 then None else Some (take p x @ replicate (length x - p) NUL))" if "p \<le> length x" "4 \<le> p" for x p
    using that memset0_tail [of p x slack] by (auto simp: memset0_def)
  show ?thesis
  proof (cases val)
    case None
    then show ?thesis using d assms(5,9) memset [of "4 + length (env_text ?fs)" d] by (simp add: env_update_def)
  next
    case (Some v)
    have "length (env_text (?fs @ [(name, v)])) + 4 \<le> length d" using assms(9) Some d(2) by (simp add: env_update_def)
    from append_setting [OF assms(5) d(1) refl this] obtain x where
      x: "sprintf_entry d (4 + length (env_text ?fs)) name v = Some x" "length x = length d"
        "take (4 + length (env_text ?fs) + (length name + length v + 2)) x = c @ env_text (?fs @ [(name, v)])" by blast
    then show ?thesis using Some d(2,3) assms(9) memset [of "4 + length (env_text ?fs) + (length name + length v + 2)" x]
      by (simp add: env_update_def)
  qed
qed

section \<open>Writing the flash\<close>

text \<open>A device of \<open>n\<close> bytes on which every call succeeds.\<close>

definition writable :: "mtd_env \<Rightarrow> nat \<Rightarrow> bool" where
  "writable E n \<longleftrightarrow>
     me_open E \<and> (\<forall>s. me_erase E s) \<and> (\<forall>s k. me_write E s k = int k) \<and>
     (case me_geometry E of None \<Rightarrow> False | Some (m, b) \<Rightarrow> m = n \<and> 0 < b \<and> n + b \<le> 2 ^ 32)"

lemma write_blocks_all:
  assumes "writable E n" "me_geometry E = Some (n, b)" "length data = n" "length f = n" "start \<le> n" "take start f = take start data"
  shows "write_blocks E n b data start (n - start) start f = Some (0, data)"
  using assms(4-6)
proof (induction "n - start" arbitrary: start f rule: less_induct)
  case less
  have w: "\<forall>s. me_erase E s" "\<forall>s k. me_write E s k = int k" "0 < b" "n + b \<le> 2 ^ 32"
    using assms(1,2) by (auto simp: writable_def)
  show ?case
  proof (cases "start < n")
    case False
    then show ?thesis using less.prems assms(3) by (simp add: write_blocks.simps)
  next
    case True
    let ?k = "min (n - start) b"
    let ?s = "take ?k (drop start data)" and ?g = "erase_block start b f"
    let ?f = "flash_put start ?s ?g"
    have g: "take start ?g = take start f" "length ?g = n"
      using less.prems(1) True by (simp_all add: erase_block_def)
    have s: "length ?s = ?k" "start + ?k \<le> n" using assms(3) True by simp_all
    have "?f = take n (take start f @ ?s @ drop (start + ?k) ?g)" unfolding flash_put_def g s(1) ..
    also have "\<dots> = take start f @ ?s @ drop (start + ?k) ?g"
      using g(2) s less.prems(1) True by (intro take_all) simp
    finally have f: "?f = take start f @ ?s @ drop (start + ?k) ?g" .
    have len: "length ?f = n" unfolding f using g(2) s less.prems(1) True by simp
    have "take (start + ?k) ?f = take start f @ ?s" unfolding f using less.prems(1) True s(1) by simp
    also have "\<dots> = take (start + ?k) data" unfolding less.prems(3) take_add ..
    finally have tk: "take (start + ?k) ?f = take (start + ?k) data" .
    have nxt: "(start + b) mod 2 ^ 32 = start + b" using w(4,3) True by (intro mod_less) simp
    have step: "write_blocks E n b data start (n - start) start f = write_blocks E n b data (start + b) (n - start - ?k) (start + ?k) ?f"
      using True w(1,2) assms(3) nxt s(2) by (subst write_blocks.simps) (simp add: Let_def not_less)
    show ?thesis
    proof (cases "start + b < n")
      case more: True
      then have "?k = b" "n - start - ?k = n - (start + b)" by simp_all
      then show ?thesis using step less.hyps [of "start + b" ?f] len tk more w(3) by simp
    next
      case False
      then have "?f = data" using tk len assms(3) True by (simp add: min_def)
      moreover have "write_blocks E n b data (start + b) m p f' = Some (0, f')" for m p f'
        using False by (subst write_blocks.simps) simp
      ultimately show ?thesis using step by simp
    qed
  qed
qed

lemma write_ubootenv_all:
  assumes "writable E n" "length data = n" "length f = n" "flash S (ubootenv_dev_name info) = Some f"
  shows "write_ubootenv E S info data n = Some (0, S\<lparr>flash := (flash S)(ubootenv_dev_name info \<mapsto> data)\<rparr>)"
proof -
  obtain b where b: "me_geometry E = Some (n, b)" "me_open E" using assms(1) by (auto simp: writable_def split: option.splits)
  show ?thesis using write_blocks_all [OF assms(1) b(1) assms(2,3), of 0] b assms(4) by (simp add: write_ubootenv_def)
qed

section \<open>The check sum\<close>

lemma byte_of_char_of: "byte_of (char_of (unat (b :: 8 word))) = b"
proof -
  have "unat b < 256" using unsigned_less [of b] by simp
  then show ?thesis by (simp add: byte_of_def)
qed

lemma load32_store32: "load32 (store32 w @ s) = w"
proof (rule bit_word_eqI)
  fix n assume "n < LENGTH(32)"
  then consider "n < 8" | "8 \<le> n" "n < 16" | "16 \<le> n" "n < 24" | "24 \<le> n" "n < 32" by fastforce
  then show "bit (load32 (store32 w @ s)) n = bit w n"
    by cases (auto simp: load32_def store32_def byte_of_char_of bit_or_iff bit_push_bit_iff bit_ucast_iff bit_drop_bit_eq)
qed

lemma store32_length [simp]: "length (store32 w) = 4"
  by (simp add: store32_def)

lemma env_holds_image:
  assumes "list_all setting_ok es" "distinct (map fst es)" "k = n - (4 + length (env_text es))" "length (env_text es) + 6 \<le> n"
  defines "body \<equiv> env_text es @ replicate k NUL"
  shows "env_holds n es (store32 (ezcfg_util_crc32 (map byte_of body)) @ body)"
proof -
  have j: "k = Suc (Suc (k - 2))" using assms(3,4) by simp
  have "length (store32 (ezcfg_util_crc32 (map byte_of body)) @ body) = n" using assms(3,4) by (simp add: body_def)
  then have "env_holds n es (store32 (ezcfg_util_crc32 (map byte_of body)) @ body) \<longleftrightarrow>
      (\<exists>rest. body = env_text es @ NUL # rest \<and> (es = [] \<longrightarrow> rest \<noteq> [] \<and> hd rest = NUL))"
    using assms(1,2,4) by (simp add: env_holds_def load32_store32)
  moreover have "body = env_text es @ NUL # NUL # replicate (k - 2) NUL"
    unfolding body_def by (subst j) simp
  ultimately show ?thesis by auto
qed

lemma cstr_at_end: "cstr_at data p = Some e \<Longrightarrow> data ! (p + length e) = NUL"
proof -
  assume c: "cstr_at data p = Some e"
  then have e: "e = takeWhile (\<lambda>c. c \<noteq> NUL) (drop p data)" by (auto simp: cstr_at_def split: if_splits)
  have "length e < length (drop p data)" using cstr_at_length [OF c] by simp
  then have "drop p data ! length e = NUL" using nth_length_takeWhile [of "\<lambda>c. c \<noteq> NUL" "drop p data"] e by simp
  then show ?thesis using cstr_at_length [OF c] by simp
qed

lemma entry_value_total:
  assumes "cstr_at data t = Some e" "entry_is data t e n = Some True"
  shows "\<exists>v. cstr_at data (t + length n + 1) = Some v"
proof -
  have "length n < length e + 1"
  proof (rule ccontr)
    assume long: "\<not> length n < length e + 1"
    then have "take (length e + 1) n \<noteq> take (length e + 1) e" by (auto dest: arg_cong [where f = length])
    then show False using assms(2) long by (auto simp: entry_is_def Let_def strncmp_0 split: if_splits)
  qed
  then have "byte_at data (t + length n) = Some (CHR ''='')"
    using assms(2) by (auto simp: entry_is_def Let_def split: if_splits)
  then have "length n \<noteq> length e" using cstr_at_end [OF assms(1)] by (auto simp: byte_at_def NUL_def split: if_splits)
  then have "t + length n + 1 \<le> t + length e" using \<open>length n < length e + 1\<close> by simp
  from cstr_at_before [OF this cstr_at_length [OF assms(1)] cstr_at_end [OF assms(1)]] show ?thesis by blast
qed

section \<open>Properties\<close>

lemma set_holds:
  assumes "partition_at E S info f" "env_holds (ubootenv_size info) es f" "es \<noteq> []" "length f = ubootenv_size info"
    and "writable E (ubootenv_size info)" "meta_name name" "\<And>v. val = Some v \<Longrightarrow> cstr v"
    and "\<And>w. map_of es name = Some w \<Longrightarrow> check_ubootenv_name w name default_checklist = 0"
    and "length (env_text (env_update name val es)) + 6 \<le> ubootenv_size info"
  shows "if me_slack E < 4 then ezcfg_api_ubootenv_set E S (Some name) val = None
    else \<exists>f'. ezcfg_api_ubootenv_set E S (Some name) val = Some (0, S\<lparr>flash := (flash S)(ubootenv_dev_name info \<mapsto> f')\<rparr>) \<and>
      env_holds (ubootenv_size info) (env_update name val es) f' \<and> length f' = ubootenv_size info"
proof -
  let ?n = "ubootenv_size info" and ?es = "env_update name val es"
  obtain c rest where b: "take ?n f = c @ env_text es @ NUL # rest" "length c = 4"
    using holds_buffer [OF assms(2)] by metis
  have ok: "list_all setting_ok es" "distinct (map fst es)" using assms(2) by (simp_all add: env_holds_def)
  have len: "length (take ?n f) = ?n" using assms(4) by simp
  have name: "\<not> length name < 1" using assms(6) by (cases name) (auto simp: meta_name_def)
  have load: "ubootenv_loaded E S = Some (Inr (info, take ?n f, 4 + length (env_text es)))"
    using loaded_holds [OF assms(1,2)] assms(3) by simp
  have "length (env_text ?es) + 4 \<le> length (take ?n f)" using assms(9) len by simp
  note change = change_holds [OF ok assms(3,6) b(2,1) refl assms(8) this, of "me_slack E", unfolded len]
  show ?thesis
  proof (cases "me_slack E < 4")
    case True
    then show ?thesis using change load name by (simp add: ezcfg_api_ubootenv_set_def)
  next
    case False
    define k where "k = ?n - (4 + length (env_text ?es))"
    let ?body = "env_text ?es @ replicate k NUL"
    let ?f = "store32 (ezcfg_util_crc32 (map byte_of ?body)) @ ?body"
    have new: "list_all setting_ok ?es" "distinct (map fst ?es)" using env_update_ok [OF ok assms(6)] assms(7) by blast+
    have holds: "env_holds ?n ?es ?f" by (rule env_holds_image [OF new k_def]) (use assms(9) in simp)
    have lenf: "length ?f = ?n" using assms(9) by (simp add: k_def)
    have "flash S (ubootenv_dev_name info) = Some f" using assms(1) by (simp add: partition_at_def)
    note written = write_ubootenv_all [OF assms(5) lenf assms(4) this]
    have "ezcfg_api_ubootenv_set E S (Some name) val = write_ubootenv E S info ?f ?n"
      using change False load name b(2) by (simp add: ezcfg_api_ubootenv_set_def k_def)
    then show ?thesis using False written holds lenf by auto
  qed
qed

text \<open>A setting that must not be changed: its name is on the list of protected names and it no longer has the value
  of the list.\<close>

definition protected_setting :: "(string \<times> string) list \<Rightarrow> string \<Rightarrow> bool" where
  "protected_setting es name \<longleftrightarrow>
     (\<exists>w d. map_of es name = Some w \<and> (name, d) \<in> set default_checklist \<and> w \<noteq> d)"

lemma check_name_cases: "check_ubootenv_name w name cs = (if \<exists>d. (name, d) \<in> set cs \<and> w \<noteq> d then -1 else 0)"
  by (induction cs) auto

lemma unprotected_check:
  "\<not> protected_setting es name \<Longrightarrow> map_of es name = Some w \<Longrightarrow> check_ubootenv_name w name default_checklist = 0"
  by (auto simp: protected_setting_def check_name_cases)

lemma set_protected:
  assumes "partition_at E S info f" "env_holds (ubootenv_size info) es f" "es \<noteq> []" "meta_name name"
    and "protected_setting es name"
  shows "ezcfg_api_ubootenv_set E S (Some name) val = Some (-1, S)"
proof -
  let ?n = "ubootenv_size info"
  obtain w where w: "map_of es name = Some w" "check_ubootenv_name w name default_checklist = -1"
    using assms(5) by (auto simp: protected_setting_def check_name_cases) (metis (no_types, lifting))
  obtain c rest where b: "take ?n f = c @ env_text es @ NUL # rest" "length c = 4"
    using holds_buffer [OF assms(2)] by metis
  have ok: "list_all setting_ok es" using assms(2) by (simp add: env_holds_def)
  define us where "us = before name es"
  obtain ws where "es = before name es @ (name, w) # ws" using split_before [OF w(1)] .
  then have us: "es = us @ (name, w) # ws" "before name (us @ (name, w) # ws) = us" unfolding us_def by metis+
  note found = entry_found_present [OF ok [unfolded us(1)] us(2) b(2), of rest]
  have d: "take ?n f = c @ env_text (us @ (name, w) # ws) @ NUL # rest" using b(1) us(1) by simp
  have "ubootenv_change (me_slack E) (take ?n f) (4 + length (env_text es)) name val = Some (Inl (-1))"
    unfolding ubootenv_change_def Let_def using found [folded d] w(2) by simp
  moreover have "ubootenv_loaded E S = Some (Inr (info, take ?n f, 4 + length (env_text es)))"
    using loaded_holds [OF assms(1,2)] assms(3) by simp
  moreover have "\<not> length name < 1" using assms(4) by (cases name) (auto simp: meta_name_def)
  ultimately show ?thesis by (simp add: ezcfg_api_ubootenv_set_def)
qed

text \<open>C20: storing a setting in an environment that has some, or deleting one, and reading afterwards. The names,
  stored and asked for, are not empty and have no equals sign and no NUL, the value has no NUL; the device has the size of the partition, holds the environment (with different names) and its
  checksum, and can be erased and written, the buffer can be allocated, the updated settings and two more NULs fit, and the allocator gives at least four bytes more than the buffer was asked to
  have.  A setting on the list of protected names (the address, the serial number, the pin, the model) that no longer has the value of the list is
  refused with -1 and nothing changes; every other change succeeds with 0.  Reading any name afterwards gives what the list of settings says:
  the old list after a refusal, and otherwise the updated one (a value that does not fit the buffer of the reader is reported).\<close>

theorem ubootenv_set_then_get:
  assumes "partition_at E S info f" "env_holds (ubootenv_size info) es f" "es \<noteq> []" "length f = ubootenv_size info"
    and "writable E (ubootenv_size info)" "4 \<le> me_slack E" "meta_name name" "\<And>v. val = Some v \<Longrightarrow> cstr v"
    and "length (env_text (env_update name val es)) + 6 \<le> ubootenv_size info"
  shows "\<exists>S'. ezcfg_api_ubootenv_set E S (Some name) val = Some (if protected_setting es name then -1 else 0, S') \<and>
    (protected_setting es name \<longrightarrow> S' = S) \<and>
    (\<forall>m old len. meta_name m \<and> 0 < len \<longrightarrow>
       ezcfg_api_ubootenv_get E S' (Some m) (Some old) len =
         Some (get_result ((if protected_setting es name then map_of es else (map_of es)(name := val)) m) old len))"
proof (cases "protected_setting es name")
  case True
  then show ?thesis using set_protected [OF assms(1-3,7)] get_holds [OF assms(1,2)] by simp
next
  case False
  obtain f' where f': "ezcfg_api_ubootenv_set E S (Some name) val = Some (0, S\<lparr>flash := (flash S)(ubootenv_dev_name info \<mapsto> f')\<rparr>)"
      "env_holds (ubootenv_size info) (env_update name val es) f'"
    using set_holds [OF assms(1-5,7,8) unprotected_check [OF False] assms(9)] assms(6) by auto
  let ?S = "S\<lparr>flash := (flash S)(ubootenv_dev_name info \<mapsto> f')\<rparr>"
  have "partition_at E ?S info f'" using assms(1) by (simp add: partition_at_def init_ubootenv_info_def)
  from get_holds [OF this f'(2)] f'(1) False show ?thesis by (auto simp: map_of_env_update)
qed

definition sample_mtd :: string where
  "sample_mtd = ''dev:    size   erasesize  name'' @ [CHR 0x0A] @ ''mtd1: 00000040 00000020 \"u-boot-env\"'' @ [CHR 0x0A]"

definition sample_info :: ubootenv_info where
  "sample_info = no_info\<lparr>ubootenv_dev_name := ''/dev/mtd1'', ubootenv_size := 64, ubootenv_erasesize := 32\<rparr>"

definition sample_body :: string where
  "sample_body = env_text [(''a'', ''1''), (''b'', ''2'')] @ replicate 52 NUL"

definition sample_sys :: mtd_sys where
  "sample_sys = \<lparr>proc_mtd = Some sample_mtd,
     flash = [''/dev/mtd1'' \<mapsto> store32 (ezcfg_util_crc32 (map byte_of sample_body)) @ sample_body]\<rparr>"

definition sample_mtd_env :: "nat \<Rightarrow> mtd_env" where
  "sample_mtd_env slack = \<lparr>me_alloc = True, me_slack = slack, me_ovf = (\<lambda>v. v), me_open = True, me_geometry = Some (64, 32),
     me_erase = (\<lambda>_. True), me_write = (\<lambda>s k. int k)\<rparr>"

definition sample_line :: string where
  "sample_line = ''mtd1: 00000040 00000020 \"u-boot-env\"'' @ [CHR 0x0A]"

lemma sample_lines: "map_option snd (fgets 128 sample_mtd) = Some sample_line" "fgets 128 sample_line = Some (sample_line, [])"
  "fgets 128 [] = None"
  by code_simp+

lemma sample_scan: "scan_mtd_line (\<lambda>v. v) sample_line = Some (1, 64, 32, ''\"u-boot-env\"'')"
  by (simp add: sample_line_def scan_mtd_line_def scan_int_def scan_hex_def scan_word_def c_isspace_def isdigit_def
      hex_value_def hex_prefix_def Let_def)

lemma sample_init: "init_ubootenv_info (sample_mtd_env k) sample_sys = Some (0, sample_info)"
proof -
  have one: "(char_of (49 :: nat) :: char) = CHR ''1''" by code_simp
  obtain l where l: "fgets 128 sample_mtd = Some (l, sample_line)" using sample_lines(1) by auto
  show ?thesis
    by (simp add: init_ubootenv_info_def sample_mtd_env_def sample_sys_def l sample_lines(2,3) info_loop.simps info_line_def sample_scan
        mtd_dev_name_def decimal.simps one sample_info_def)
qed

lemma sample_partition:
  "partition_at (sample_mtd_env k) sample_sys sample_info (store32 (ezcfg_util_crc32 (map byte_of sample_body)) @ sample_body)"
  unfolding partition_at_def using sample_init [of k] by (simp add: sample_mtd_env_def sample_sys_def sample_info_def)

lemma sample_env_holds:
  "env_holds 64 [(''a'', ''1''), (''b'', ''2'')] (store32 (ezcfg_util_crc32 (map byte_of sample_body)) @ sample_body)"
  unfolding sample_body_def by (rule env_holds_image) (simp_all add: setting_ok_def meta_name_def NUL_def)

lemma sample_simps:
  "ubootenv_size sample_info = 64" "writable (sample_mtd_env k) 64" "me_slack (sample_mtd_env k) = k" "meta_name ''a''" "CHR ''3'' \<noteq> NUL"
  "length sample_body = 60" "check_ubootenv_name ''1'' ''a'' default_checklist = 0"
  "env_update ''a'' (Some ''33'') [(''a'', ''1''), (''b'', ''2'')] = [(''b'', ''2''), (''a'', ''33'')]"
  by (simp_all add: sample_info_def writable_def sample_mtd_env_def meta_name_def NUL_def cstr_def sample_body_def default_checklist_def
      env_update_def)

theorem ubootenv_set_then_get_witness:
  "\<exists>S'. ezcfg_api_ubootenv_set (sample_mtd_env 4) sample_sys (Some ''a'') (Some ''33'') = Some (0, S') \<and>
    (\<forall>m old len. meta_name m \<and> 0 < len \<longrightarrow>
       ezcfg_api_ubootenv_get (sample_mtd_env 4) S' (Some m) (Some old) len =
       Some (get_result (((map_of [(''a'', ''1''), (''b'', ''2'')])(''a'' := Some ''33'')) m) old len))"
proof -
  have "\<not> protected_setting [(''a'', ''1''), (''b'', ''2'')] ''a''" by (simp add: protected_setting_def default_checklist_def)
  with ubootenv_set_then_get [OF sample_partition, of "[(''a'', ''1''), (''b'', ''2'')]" 4 "''a''" "Some ''33''"] show ?thesis
    by (simp add: sample_simps sample_env_holds)
qed

text \<open>C21: the last step of storing clears four bytes more than the buffer has: when the allocator gives fewer than four bytes
  more, every change of an environment that has settings leaves the block (the change being one that C20 describes: names and
  value as there, the setting not protected, room for it, the flash writable).\<close>

theorem ubootenv_set_overflows:
  assumes "partition_at E S info f" "env_holds (ubootenv_size info) es f" "es \<noteq> []" "length f = ubootenv_size info"
    and "writable E (ubootenv_size info)" "me_slack E < 4" "meta_name name" "\<And>v. val = Some v \<Longrightarrow> cstr v"
    and "\<And>w. map_of es name = Some w \<Longrightarrow> check_ubootenv_name w name default_checklist = 0"
    and "length (env_text (env_update name val es)) + 6 \<le> ubootenv_size info"
  shows "ezcfg_api_ubootenv_set E S (Some name) val = None"
  using set_holds [OF assms(1-5,7-10)] assms(6) by simp

theorem ubootenv_set_overflows_witness:
  "ezcfg_api_ubootenv_set (sample_mtd_env 0) sample_sys (Some ''a'') (Some ''33'') = None"
  by (rule ubootenv_set_overflows [OF sample_partition, of "[(''a'', ''1''), (''b'', ''2'')]"]) (simp_all add: sample_simps sample_env_holds)

text \<open>C22: whatever the flash holds and whatever name is asked for, reading a setting, listing the settings and
  checking the environment return and read nothing outside their buffer, when the partition was found in
  a readable table and does not have one to four bytes.\<close>

theorem ubootenv_reads_any_flash:
  assumes "init_ubootenv_info E S = Some (rc, info)" "ubootenv_size info \<notin> {1, 2, 3, 4}"
  shows "ezcfg_api_ubootenv_get E S name val len \<noteq> None \<and> ezcfg_api_ubootenv_list E S val len \<noteq> None \<and>
    ezcfg_api_ubootenv_check E S \<noteq> None"
proof -
  have "ubootenv_size info = 0 \<or> 4 < ubootenv_size info" using assms(2) by auto
  from loaded_total [OF assms(1) this] obtain r where r: "ubootenv_loaded E S = Some r"
    "\<And>info' data e. r = Inr (info', data, e) \<Longrightarrow> closed_from data 4" by auto
  have "ezcfg_api_ubootenv_get E S name val len \<noteq> None"
  proof (cases r)
    case (Inl x)
    then show ?thesis using r(1) by (simp add: ezcfg_api_ubootenv_get_def split: option.split)
  next
    case (Inr x)
    obtain info' data e where x: "x = (info', data, e)" by (cases x)
    have c: "closed_from data 4" using r(2) Inr x by simp
    have "ezcfg_api_ubootenv_get E S (Some n) (Some old) len \<noteq> None" for n old
    proof -
      obtain t e where t: "find_entry_position data n 4 = Some t" "cstr_at data t = Some e"
        using find_entry_total [OF c] by blast
      obtain b where b: "entry_is data t e n = Some b" using entry_is_total [OF t(2)] by blast
      show ?thesis using r(1) Inr x t b entry_value_total [OF t(2), of n]
        by (cases b) (auto simp: ezcfg_api_ubootenv_get_def entry_found_def)
    qed
    then show ?thesis by (cases name; cases val) (auto simp: ezcfg_api_ubootenv_get_def)
  qed
  then show ?thesis using r(1) by (cases r) (auto simp: ezcfg_api_ubootenv_list_def ezcfg_api_ubootenv_check_def)
qed

theorem ubootenv_reads_any_flash_witness:
  "ezcfg_api_ubootenv_get (sample_mtd_env 0) sample_sys (Some ''zz'') (Some []) 8 \<noteq> None \<and>
    ezcfg_api_ubootenv_list (sample_mtd_env 0) sample_sys (Some []) 8 \<noteq> None \<and>
    ezcfg_api_ubootenv_check (sample_mtd_env 0) sample_sys \<noteq> None"
  by (rule ubootenv_reads_any_flash [OF sample_init]) (simp add: sample_info_def)

end
