(* ===== verification/Agent.thy ===== *)
theory Agent
  imports Ez_Common_Spec Http Ez_Errno
begin

text \<open>
  The entry of the library that starts an agent: \<^verbatim>\<open>api/src/api-common.c\<close> keeps the path of the
  configuration file and reads its text, \<^verbatim>\<open>api/src/api-agent.c\<close> creates a context from the text, looks up
  the agent's name, creates the agent of \<^verbatim>\<open>src/composite/socket_agent/socket_agent.c\<close> and starts it.
\<close>

section \<open>The configuration file\<close>

text \<open>The two static variables.\<close>

record api_common =
  ac_initialized :: bool
  ac_config_file :: string

definition ezcfg_api_common_initialized :: "api_common \<Rightarrow> bool" where
  "ezcfg_api_common_initialized c = ac_initialized c"

definition ezcfg_api_common_get_config_file :: "api_common \<Rightarrow> string" where
  "ezcfg_api_common_get_config_file c = ac_config_file c"

text \<open>The result is the length that \<^verbatim>\<open>snprintf\<close> returns.\<close>

definition ezcfg_api_common_set_config_file :: "string option \<Rightarrow> api_common \<Rightarrow> int \<times> api_common" where
  "ezcfg_api_common_set_config_file path c =
     (case path of
        None \<Rightarrow> (- EZCFG_E_ARGUMENT, c)
      | Some p \<Rightarrow>
          if length p \<ge> EZCFG_PATH_MAX then (- EZCFG_E_ARGUMENT, c)
          else (int (length p), \<lparr>ac_initialized = True, ac_config_file = snprintf EZCFG_PATH_MAX p\<rparr>))"

text \<open>The white space at the end becomes NULs, from the last byte on.\<close>

fun trim_loop :: "nat \<Rightarrow> string \<Rightarrow> string" where
  "trim_loop 0 data = data"
| "trim_loop (Suc k) data = (if is_ws (data ! k) then trim_loop k (data[k := NUL]) else data)"

text \<open>The file: its size for \<^verbatim>\<open>stat\<close>, its bytes for \<^verbatim>\<open>fread\<close>; either call may fail.  The result is the buffer
  with the NUL behind the text.\<close>

definition ezcfg_api_common_get_config_file_content ::
    "bool \<Rightarrow> (string \<Rightarrow> nat option) \<Rightarrow> (string \<Rightarrow> string option) \<Rightarrow> api_common \<Rightarrow> string option" where
  "ezcfg_api_common_get_config_file_content mem stat file c =
     (case stat (ac_config_file c) of
        None \<Rightarrow> None
      | Some st_size \<Rightarrow>
          if \<not> mem then None
          else
            (case file (ac_config_file c) of
               None \<Rightarrow> None
             | Some content \<Rightarrow>
                 let read_size = min st_size (length content) in
                 if st_size \<noteq> read_size then None
                 else Some (trim_loop read_size (take st_size content @ [NUL]))))"

definition ezcfg_api_common_new :: "ez_env \<Rightarrow> string option \<Rightarrow> ezcfg_refs \<Rightarrow> (ezcfg option \<times> ezcfg_refs) option" where
  "ezcfg_api_common_new ev path s =
     (case path of None \<Rightarrow> Some (None, s) | Some p \<Rightarrow> map_option (\<lambda>(e, _, s'). (e, s')) (ezcfg_new ev (Some p) s))"

definition ezcfg_api_common_del ::
    "mutex_call \<Rightarrow> mutex_call \<Rightarrow> mutex_call \<Rightarrow> mutex_call \<Rightarrow> ezcfg \<Rightarrow> ezcfg_refs \<Rightarrow> ezcfg_refs option" where
  "ezcfg_api_common_del lk ulk nvlk nvulk e s = map_option snd (ezcfg_del lk ulk nvlk nvulk e s)"

section \<open>The agent\<close>

text \<open>The parts of the agent that are released with it; the others are only set to zero.\<close>

record socket_agent =
  sa_process :: ptr
  sa_master_thread :: ptr
  sa_worker_threads :: ptr

definition ezcfg_socket_agent_new :: "bool \<Rightarrow> socket_agent option" where
  "ezcfg_socket_agent_new mem =
     (if \<not> mem then None else Some \<lparr>sa_process = None, sa_master_thread = None, sa_worker_threads = None\<rparr>)"

text \<open>The result, and the blocks that go before the agent itself.\<close>

definition ezcfg_socket_agent_del :: "socket_agent option \<Rightarrow> int \<times> nat list" where
  "ezcfg_socket_agent_del agent =
     (case agent of
        None \<Rightarrow> (EZCFG_RET_FAIL, [])
      | Some a \<Rightarrow> (EZCFG_RET_OK, List.map_filter (\<lambda>p. p) [sa_worker_threads a, sa_master_thread a, sa_process a]))"

text \<open>\<open>prctl\<close> is the result of making the process a subreaper.\<close>

definition ezcfg_socket_agent_start :: "int \<Rightarrow> socket_agent \<Rightarrow> int" where
  "ezcfg_socket_agent_start prctl agent = (if prctl < 0 then EZCFG_RET_FAIL else EZCFG_RET_OK)"

definition ezcfg_socket_agent_stop :: "socket_agent option \<Rightarrow> int" where
  "ezcfg_socket_agent_stop agent = (if agent = None then EZCFG_RET_FAIL else EZCFG_RET_OK)"

section \<open>Starting the agent\<close>

definition AGENT_NAME :: string where
  "AGENT_NAME = ''agent.'' @ ''name''"

record agent_env =
  ae_new :: ez_env
  ae_lock :: mutex_call
  ae_unlock :: mutex_call
  ae_copy :: bool
  ae_mem :: bool
  ae_prctl :: int
  ae_del_lock :: mutex_call
  ae_del_unlock :: mutex_call
  ae_nv_lock :: mutex_call
  ae_nv_unlock :: mutex_call

text \<open>The code behind \<^verbatim>\<open>func_out\<close>, which is also reached after a successful start.\<close>

definition agent_start_out ::
    "agent_env \<Rightarrow> int \<Rightarrow> socket_agent option \<Rightarrow> ezcfg \<Rightarrow> ezcfg_refs \<Rightarrow> (int \<times> ezcfg_refs) option" where
  "agent_start_out E rc agent e s = do {
     let _ = (if agent \<noteq> None then ezcfg_socket_agent_del agent else (EZCFG_RET_OK, []));
     (_, s') \<leftarrow> ezcfg_del (ae_del_lock E) (ae_del_unlock E) (ae_nv_lock E) (ae_nv_unlock E) e s;
     Some (rc, s')
   }"

definition ezcfg_api_agent_start :: "agent_env \<Rightarrow> string option \<Rightarrow> ezcfg_refs \<Rightarrow> (int \<times> ezcfg_refs) option" where
  "ezcfg_api_agent_start E init_conf s =
     (case init_conf of
        None \<Rightarrow> Some (- EZCFG_E_ARGUMENT, s)
      | Some t \<Rightarrow> do {
          (eo, _, s1) \<leftarrow> ezcfg_new (ae_new E) (Some t) s;
          case eo of
            None \<Rightarrow> Some (- EZCFG_E_RESOURCE, s1)
          | Some e \<Rightarrow> do {
              (ret, val, e1) \<leftarrow> ezcfg_common_get_nvram_entry_value (ae_lock E) (ae_unlock E) (ae_copy E) e AGENT_NAME;
              if ret \<noteq> EZCFG_RET_OK then agent_start_out E (- EZCFG_E_ARGUMENT) None e1 s1
              else
                (case ezcfg_socket_agent_new (ae_mem E) of
                   None \<Rightarrow> agent_start_out E (- EZCFG_E_RESOURCE) None e1 s1
                 | Some a \<Rightarrow>
                     if ezcfg_socket_agent_start (ae_prctl E) a = EZCFG_RET_OK then agent_start_out E 0 (Some a) e1 s1
                     else
                       (let _ = ezcfg_socket_agent_stop (Some a)
                        in agent_start_out E (- EZCFG_E_RESOURCE) (Some a) e1 s1))
            }
        })"

definition ezcfg_api_agent_stop :: "string option \<Rightarrow> int" where
  "ezcfg_api_agent_stop init_conf = (if init_conf = None then - EZCFG_E_ARGUMENT else 0)"

definition ezcfg_api_agent_reload :: "string option \<Rightarrow> int" where
  "ezcfg_api_agent_reload init_conf = (if init_conf = None then - EZCFG_E_ARGUMENT else 0)"

text \<open>The result and the static variable.\<close>

definition ezcfg_api_agent_set_debug :: "string option \<Rightarrow> bool \<Rightarrow> bool \<Rightarrow> int \<times> bool" where
  "ezcfg_api_agent_set_debug init_conf flag debug =
     (if init_conf = None then (- EZCFG_E_ARGUMENT, debug) else (0, flag))"

section \<open>Reading the file\<close>

lemma trim_loop_ws:
  "wsp w \<Longrightarrow> u \<noteq> [] \<Longrightarrow> \<not> is_ws (last u) \<Longrightarrow>
    trim_loop (length (u @ w)) (u @ w @ zs) = u @ replicate (length w) NUL @ zs"
proof (induction w arbitrary: zs rule: rev_induct)
  case Nil
  then show ?case by (cases u rule: rev_cases) (simp_all add: nth_append)
next
  case (snoc c w)
  have "(u @ w @ c # zs)[length (u @ w) := NUL] = u @ w @ NUL # zs" by (simp add: list_update_append)
  then show ?case using snoc.IH [of "NUL # zs"] snoc.prems
    by (simp add: nth_append replicate_app_Cons_same)
qed

lemma config_content:
  assumes "stat (ac_config_file c) = Some (length (u @ w))" "file (ac_config_file c) = Some (u @ w)"
    and "wsp w" "u \<noteq> []" "\<not> is_ws (last u)" "cstr u"
  shows "map_option c_string (ezcfg_api_common_get_config_file_content True stat file c) = Some u"
proof -
  have "c_string (u @ replicate n NUL @ [NUL]) = u" for n
  proof -
    have "replicate n NUL @ [NUL] = NUL # replicate n NUL" by (simp add: replicate_append_same)
    then show ?thesis using assms(6) by (simp add: c_string_def cstr_def takeWhile_tail) (metis (mono_tags, lifting) append_Nil2 takeWhile.simps(2) takeWhile_append2)
  qed
  then show ?thesis using assms(1,2) trim_loop_ws [OF assms(3-5), of "[NUL]"]
    by (simp add: ezcfg_api_common_get_config_file_content_def Let_def)
qed

section \<open>Starting from a configuration\<close>

lemma context_lookup:
  assumes "meta_holds m M" "ez_meta e = Some m" "ez_nvram e = None \<or> (\<exists>nv. ez_nvram e = Some nv \<and> nv_rep nv [])"
    and "ez_meta_live e" "\<forall>n \<in> dom M. apart name n"
  shows "\<exists>ret val e'. ezcfg_common_get_nvram_entry_value lk ulk True e name = Some (ret, val, e') \<and> context_ok e' \<and>
    (ret = EZCFG_RET_OK \<longleftrightarrow> M name \<noteq> None)"
proof -
  obtain es where es: "meta_rep m es" "meta_map es = M" using assms(1) by (auto simp: meta_holds_def)
  have "all_apart name es" using assms(5) es(2) apart_names by blast
  note get = get_value_map [OF es(1) this]
  show ?thesis
  proof (cases "ez_nvram e")
    case None
    then show ?thesis using assms(2,4) get es(2)
      by (auto simp: ezcfg_common_get_nvram_entry_value_def local_meta_nvram_get_entry_value_def context_ok_def split: option.splits)
  next
    case (Some nv)
    then have rep: "nv_rep nv []" using assms(3) by simp
    from get_entry_table [OF rep, of name] obtain nv' where
      "nv_rep nv' []" "nvram_get_entry_value nv name = Some (EZCFG_RET_FAIL, None, nv')" by (auto simp: table_get_def)
    then show ?thesis using Some rep assms(2,4) get es(2)
      by (auto simp: ezcfg_common_get_nvram_entry_value_def local_meta_nvram_get_entry_value_def
          local_nvram_get_entry_value_def context_ok_def split: option.splits)
  qed
qed

lemma wsp_cstr: "wsp w \<Longrightarrow> cstr w"
  by (induction w) (auto simp: is_ws_def NUL_def)

lemma object_last: "vtext (JObj ms) s \<Longrightarrow> s \<noteq> [] \<and> \<not> is_ws (last s)"
  by (cases rule: vtext.cases) (auto simp: is_ws_def)

text \<open>Starting an agent with the text of a JSON object of settings: an argument error when the settings do not name
  the agent, a resource error when it cannot be allocated or started; in every case the context is gone afterwards, also
  after a successful start.\<close>

lemma agent_start_text:
  assumes "env_ok (ae_new E)" "ezcfg_ref_counter refs = 0" "ae_copy E"
    and "posix_mutex_call (ae_del_lock E)" "posix_mutex_call (ae_del_unlock E)" "posix_mutex_call (ae_nv_lock E)"
    and "vtext (JObj ms) s" "wsp w1" "wsp w2" "ms \<noteq> []" "string_members ms"
    and "distinct (map fst ms)" "all_fit meta_fits Map.empty (settings_of ms)"
    and "\<forall>kv \<in> set ms. apart NVRAM_NODE_LIST_SIZE (fst kv) \<and> apart AGENT_NAME (fst kv)"
  shows "ezcfg_api_agent_start E (Some (w1 @ s @ w2)) refs =
    Some (if AGENT_NAME \<notin> fst ` set ms then - EZCFG_E_ARGUMENT
          else if ae_mem E \<and> ae_prctl E \<ge> 0 then 0 else - EZCFG_E_RESOURCE,
          refs\<lparr>ezcfg_ref_counter := 0, this_ezcfg := None\<rparr>)"
proof -
  have "\<forall>kv \<in> set ms. apart NVRAM_NODE_LIST_SIZE (fst kv)" using assms(14) by blast
  from new_context [OF assms(1,2,7-13) this] obtain m k where
    m: "meta_holds m (map_of (settings_of ms))" and new: "ezcfg_new (ae_new E) (Some (w1 @ s @ w2)) refs =
      Some (Some \<lparr>ez_log_file = [], ez_meta = Some m, ez_meta_live = True, ez_nvram =
        (case map_of (settings_of ms) NVRAM_NODE_LIST_SIZE of
            None \<Rightarrow> None
          | Some v \<Rightarrow> if atoi v < 1 then None else Some (nvram_empty (nat (atoi v)) (ev_strings (ae_new E))))\<rparr>, k,
        refs\<lparr>ezcfg_ref_counter := 1, this_ezcfg := Some (ev_addr (ae_new E))\<rparr>)"
    (is "_ = Some (Some ?e, k, ?s)") by auto
  have names: "dom (map_of (settings_of ms)) = fst ` set ms"
    by (simp add: dom_map_of_conv_image_fst settings_of_def setting_def image_image)
  have tab: "ez_nvram ?e = None \<or> (\<exists>nv. ez_nvram ?e = Some nv \<and> nv_rep nv [])"
    using nv_rep_empty assms(1) by (auto simp: env_ok_def split: option.splits)
  have "\<forall>n \<in> dom (map_of (settings_of ms)). apart AGENT_NAME n" unfolding names using assms(14) by auto
  from context_lookup [OF m _ tab _ this, of "ae_lock E" "ae_unlock E"] obtain ret val e' where
    look: "ezcfg_common_get_nvram_entry_value (ae_lock E) (ae_unlock E) True ?e AGENT_NAME = Some (ret, val, e')"
      "context_ok e'" "ret = EZCFG_RET_OK \<longleftrightarrow> AGENT_NAME \<in> fst ` set ms"
    unfolding names [symmetric] domIff by auto
  have out: "agent_start_out E rc a e' ?s = Some (rc, refs\<lparr>ezcfg_ref_counter := 0, this_ezcfg := None\<rparr>)" for rc a
    using del_posix [OF assms(4-6) look(2)] by (simp add: agent_start_out_def)
  show ?thesis using new look assms(3) out
    by (auto simp: ezcfg_api_agent_start_def ezcfg_socket_agent_new_def ezcfg_socket_agent_start_def Let_def)
qed

definition sample_agent_env :: agent_env where
  "sample_agent_env =
     \<lparr>ae_new = sample_env, ae_lock = (\<lambda>_. (0, 0)), ae_unlock = (\<lambda>_. (0, 0)), ae_copy = True, ae_mem = True, ae_prctl = 0,
      ae_del_lock = (\<lambda>_. (0, 0)), ae_del_unlock = (\<lambda>_. (0, 0)), ae_nv_lock = (\<lambda>_. (0, 0)), ae_nv_unlock = (\<lambda>_. (0, 0))\<rparr>"

definition sample_agent_members :: "(string \<times> jv) list" where
  "sample_agent_members = [(''agent.name'', JStr ''a'')]"

definition sample_agent_text :: string where
  "sample_agent_text = ''{'' @ jquote ''agent.name'' @ '':'' @ jquote ''a'' @ ''}''"

lemma sample_agent:
  "vtext (JObj sample_agent_members) sample_agent_text" "sample_agent_members \<noteq> []" "string_members sample_agent_members"
  "cstr sample_agent_text" "distinct (map fst sample_agent_members)" "all_fit meta_fits Map.empty (settings_of sample_agent_members)"
  "\<forall>kv \<in> set sample_agent_members. apart NVRAM_NODE_LIST_SIZE (fst kv) \<and> apart AGENT_NAME (fst kv)"
  "posix_mutex_call (\<lambda>_. (0, 0))" "wsp [CHR 0x0A]"
proof -
  have st: "string_text ''agent.name''" "string_text ''a''" by (simp_all add: string_text_def NUL_def)
  from vObj [OF wsp_simps(1) m1 [OF st(1) wsp_simps(1) wsp_simps(1) vStr [OF st(2)] wsp_simps(1)]]
  show "vtext (JObj sample_agent_members) sample_agent_text" by (simp add: sample_agent_members_def sample_agent_text_def)
  show "wsp [CHR 0x0A]" by (simp add: is_ws_def)
  show "posix_mutex_call (\<lambda>_. (0, 0))" by (simp add: posix_mutex_call_def)
qed (simp_all add: sample_agent_members_def sample_agent_text_def string_members_def meta_fits_def meta_name_def meta_value_def
        apart_def NUL_def setting_def settings_of_def NVRAM_NODE_LIST_SIZE_def AGENT_NAME_def jquote_def cstr_def)

end
