(* ===== verification/Boot_Os.thy ===== *)
theory Boot_Os
  imports Util_Text "HOL-Library.Word"
begin

text \<open>
  What the helpers of \<^verbatim>\<open>ezcd/src/utils\<close> see of the operating system, and the helpers that run a command
  (\<^verbatim>\<open>utils_parse_args.c\<close>, \<^verbatim>\<open>utils_system.c\<close>, \<^verbatim>\<open>utils_execute.c\<close>), make directories (\<^verbatim>\<open>utils_mkdir.c\<close>) and write
  a whole buffer (\<^verbatim>\<open>utils_read_write.c\<close>).
\<close>

section \<open>The operating system\<close>

datatype file_kind = Regular | Directory | Block_device | Symbolic_link | Other_file

record file_stat =
  st_kind :: file_kind
  st_rusr :: bool
  st_wusr :: bool

datatype exec_result = Fork_failed int | Wait_failed int | Exited int | Signalled int

datatype mkdir_result = Made | Exists | Mkdir_failed

text \<open>
  The calls, over a state \<^typ>\<open>'w\<close> of the system: the text of a file that can be opened, \<^verbatim>\<open>stat\<close> and \<^verbatim>\<open>lstat\<close>,
  the target of a link, the names in a directory in the order of \<^verbatim>\<open>readdir\<close>, running a program to its
  end, one second of sleep, \<^verbatim>\<open>mkdir\<close>, \<^verbatim>\<open>mknod\<close> of a character or block device, opening a file and writing to
  it, and whether the next allocation succeeds.  Two more fields stand for what C leaves open: the bytes of a
  buffer that was not written, and what \<^verbatim>\<open>%u\<close> stores for a number that does not fit.
\<close>

record 'w os =
  os_file :: "string \<Rightarrow> 'w \<Rightarrow> string option"
  os_stat :: "string \<Rightarrow> 'w \<Rightarrow> file_stat option"
  os_lstat :: "string \<Rightarrow> 'w \<Rightarrow> file_stat option"
  os_readlink :: "string \<Rightarrow> 'w \<Rightarrow> string option"
  os_readdir :: "string \<Rightarrow> 'w \<Rightarrow> string list option"
  os_run :: "string list \<Rightarrow> 'w \<Rightarrow> exec_result \<times> 'w"
  os_sleep :: "'w \<Rightarrow> 'w"
  os_mkdir :: "string \<Rightarrow> 'w \<Rightarrow> mkdir_result \<times> 'w"
  os_mknod :: "string \<Rightarrow> bool \<Rightarrow> nat \<Rightarrow> nat \<Rightarrow> 'w \<Rightarrow> 'w"
  os_write :: "string \<Rightarrow> string \<Rightarrow> 'w \<Rightarrow> 'w"
  os_mem :: "'w \<Rightarrow> bool"
  os_junk :: string
  os_ovf :: "nat \<Rightarrow> 32 word"

definition EXIT_SUCCESS :: int where "EXIT_SUCCESS = 0"

definition EXIT_FAILURE :: int where "EXIT_FAILURE = 1"

section \<open>Running a command\<close>

definition RC_MAX_ARGS :: nat where "RC_MAX_ARGS = 16"

definition RC_COMMAND_LINE_SIZE :: nat where "RC_COMMAND_LINE_SIZE = 256"

definition RC_BLANK :: "char \<Rightarrow> bool" where
  "RC_BLANK c \<longleftrightarrow> c = CHR '' '' \<or> c = CHR 0x09"

text \<open>The remaining text \<open>p\<close> and the arguments found so far; an argument ends at the blank over which the next
  round writes a NUL.\<close>

function rc_args_loop :: "string list \<Rightarrow> string \<Rightarrow> string list \<times> string" where
  "rc_args_loop argv p =
     (if length argv < RC_MAX_ARGS - 1 \<and> p \<noteq> [] then
        let q = dropWhile RC_BLANK p in
        if q = [] then (argv, q)
        else rc_args_loop (argv @ [takeWhile (\<lambda>c. \<not> RC_BLANK c) q]) (dropWhile (\<lambda>c. \<not> RC_BLANK c) q)
      else (argv, p))"
  by pat_completeness auto
termination
  by (relation "measure (\<lambda>(argv, p). RC_MAX_ARGS - length argv)") auto

declare rc_args_loop.simps [simp del]

definition utils_parse_args :: "string \<Rightarrow> int \<times> string list" where
  "utils_parse_args buf =
     (let (argv, p) = rc_args_loop [] buf in
      if p \<noteq> [] then (-1, argv) else (int (length argv), argv))"

text \<open>The parent's side: the child runs the program found in \<^verbatim>\<open>/sbin:/bin:/usr/sbin:/usr/bin\<close>.\<close>

definition utils_execute :: "'w os \<Rightarrow> string list \<Rightarrow> 'w \<Rightarrow> int \<times> 'w" where
  "utils_execute os argv w =
     (case os_run os argv w of
        (Fork_failed errno, w') \<Rightarrow> (errno, w')
      | (Wait_failed errno, w') \<Rightarrow> (errno, w')
      | (Exited status, w') \<Rightarrow> (status, w')
      | (Signalled status, w') \<Rightarrow> (status, w'))"

definition utils_system :: "'w os \<Rightarrow> string \<Rightarrow> 'w \<Rightarrow> int \<times> 'w" where
  "utils_system os command w =
     (if length command > RC_COMMAND_LINE_SIZE - 1 then (-1, w)
      else
        let (argc, argv) = utils_parse_args command in
        if argc < 1 then (-1, w) else utils_execute os argv w)"

section \<open>Directories\<close>

lemma dropWhile_less: "c # r = dropWhile P (dropWhile Q s) \<Longrightarrow> length r < length s"
  using length_dropWhile_le [of P "dropWhile Q s"] length_dropWhile_le [of Q s] by (metis Suc_le_lessD length_Cons order_trans)

text \<open>\<open>pre\<close> is the text in front of \<open>s\<close>; each slash behind a name is replaced by a NUL for one call.\<close>

function mkdir_loop :: "'w os \<Rightarrow> string \<Rightarrow> string \<Rightarrow> 'w \<Rightarrow> bool \<times> 'w" where
  "mkdir_loop os pre s w =
     (if s = [] then (True, w)
      else
        let t = dropWhile (\<lambda>c. c = CHR ''/'') s;
            path = pre @ takeWhile (\<lambda>c. c = CHR ''/'') s @ takeWhile (\<lambda>c. c \<noteq> CHR ''/'') t
        in (case dropWhile (\<lambda>c. c \<noteq> CHR ''/'') t of
              [] \<Rightarrow> (True, w)
            | c # r \<Rightarrow>
                (case os_mkdir os path w of
                   (Mkdir_failed, w') \<Rightarrow> (False, w')
                 | (_, w') \<Rightarrow> mkdir_loop os (path @ [c]) r w')))"
  by pat_completeness auto
termination
  by (relation "measure (\<lambda>(os, pre, s, w). length s)") (auto dest: dropWhile_less [OF sym])

declare mkdir_loop.simps [simp del]

definition utils_mkdir :: "'w os \<Rightarrow> string option \<Rightarrow> bool \<Rightarrow> 'w \<Rightarrow> int \<times> 'w" where
  "utils_mkdir os path is_dir w =
     (case path of
        None \<Rightarrow> (-1, w)
      | Some p \<Rightarrow>
          if length p > RC_COMMAND_LINE_SIZE - 1 then (-1, w)
          else
            (case mkdir_loop os [] p w of
               (False, w') \<Rightarrow> (-1, w')
             | (True, w') \<Rightarrow>
                 if is_dir then
                   (case os_mkdir os p w' of
                      (Mkdir_failed, w'') \<Rightarrow> (-1, w'')
                    | (_, w'') \<Rightarrow> (0, w''))
                 else (0, w')))"

section \<open>Paths\<close>

text \<open>A path as the list of its names.\<close>

definition path_text :: "string list \<Rightarrow> string" where
  "path_text cs = concat (map (\<lambda>c. CHR ''/'' # c) cs)"

lemma path_text_Cons: "path_text (c # cs) = CHR ''/'' # c @ path_text cs"
  by (simp add: path_text_def)

definition file_name :: "string \<Rightarrow> bool" where
  "file_name c \<longleftrightarrow> c \<noteq> [] \<and> CHR ''/'' \<notin> set c \<and> c \<noteq> ''..''"

lemma name_split:
  assumes "file_name c" "r = [] \<or> hd r = CHR ''/''"
  shows "takeWhile (\<lambda>x. x = CHR ''/'') (c @ r) = []" "dropWhile (\<lambda>x. x = CHR ''/'') (c @ r) = c @ r"
    "takeWhile (\<lambda>x. x \<noteq> CHR ''/'') (c @ r) = c" "dropWhile (\<lambda>x. x \<noteq> CHR ''/'') (c @ r) = r"
proof -
  have c: "c \<noteq> []" "hd c \<noteq> CHR ''/''" "\<forall>x\<in>set c. x \<noteq> CHR ''/''"
    using assms(1) by (auto simp: file_name_def) (metis list.set_sel(1))
  show "takeWhile (\<lambda>x. x = CHR ''/'') (c @ r) = []" "dropWhile (\<lambda>x. x = CHR ''/'') (c @ r) = c @ r"
    using c(1,2) by (cases c; simp)+
  have "takeWhile (\<lambda>x. x \<noteq> CHR ''/'') r = []" "dropWhile (\<lambda>x. x \<noteq> CHR ''/'') r = r" using assms(2) by (cases r; simp)+
  then show "takeWhile (\<lambda>x. x \<noteq> CHR ''/'') (c @ r) = c" "dropWhile (\<lambda>x. x \<noteq> CHR ''/'') (c @ r) = r"
    using c(3) by (simp_all add: takeWhile_append2 dropWhile_append2)
qed

lemma mkdir_step:
  assumes "file_name c" "r = [] \<or> hd r = CHR ''/''"
  shows "mkdir_loop os pre (c @ r) w =
      (case r of
         [] \<Rightarrow> (True, w)
       | d # r \<Rightarrow> (case os_mkdir os (pre @ c) w of
           (Mkdir_failed, w') \<Rightarrow> (False, w')
         | (_, w') \<Rightarrow> mkdir_loop os ((pre @ c) @ [d]) r w'))"
  and "mkdir_loop os pre (CHR ''/'' # c @ r) w =
      (case r of
         [] \<Rightarrow> (True, w)
       | d # r \<Rightarrow> (case os_mkdir os (pre @ CHR ''/'' # c) w of
           (Mkdir_failed, w') \<Rightarrow> (False, w')
         | (_, w') \<Rightarrow> mkdir_loop os ((pre @ CHR ''/'' # c) @ [d]) r w'))"
proof -
  have "c @ r \<noteq> []" using assms(1) by (simp add: file_name_def)
  then show "mkdir_loop os pre (c @ r) w =
      (case r of
         [] \<Rightarrow> (True, w)
       | d # r \<Rightarrow> (case os_mkdir os (pre @ c) w of
           (Mkdir_failed, w') \<Rightarrow> (False, w')
         | (_, w') \<Rightarrow> mkdir_loop os ((pre @ c) @ [d]) r w'))"
    by (subst mkdir_loop.simps) (unfold Let_def name_split [OF assms] append_Nil, simp)
  have slash: "takeWhile (\<lambda>x. x = CHR ''/'') (CHR ''/'' # c @ r) = [CHR ''/'']"
    "dropWhile (\<lambda>x. x = CHR ''/'') (CHR ''/'' # c @ r) = c @ r"
    using name_split(1,2) [OF assms] by simp_all
  show "mkdir_loop os pre (CHR ''/'' # c @ r) w =
      (case r of
         [] \<Rightarrow> (True, w)
       | d # r \<Rightarrow> (case os_mkdir os (pre @ CHR ''/'' # c) w of
           (Mkdir_failed, w') \<Rightarrow> (False, w')
         | (_, w') \<Rightarrow> mkdir_loop os ((pre @ CHR ''/'' # c) @ [d]) r w'))"
    by (subst mkdir_loop.simps) (unfold Let_def slash name_split(3,4) [OF assms] append_Nil append_Cons, simp)
qed

text \<open>Making a directory makes all its parents, from the top down.\<close>

lemma mkdir_loop_path:
  assumes "\<And>p w. fst (os_mkdir os p w) \<noteq> Mkdir_failed"
  shows "list_all file_name cs \<Longrightarrow> cs \<noteq> [] \<Longrightarrow> pre = path_text ps \<Longrightarrow>
    mkdir_loop os (pre @ [CHR ''/'']) (tl (path_text cs)) w =
      (True, fold (\<lambda>p w. snd (os_mkdir os p w)) (map (\<lambda>i. path_text (ps @ take i cs)) [1..<length cs]) w)"
proof (induction cs arbitrary: pre ps w)
  case (Cons c cs)
  have tl: "tl (path_text (c # cs)) = c @ path_text cs" by (simp add: path_text_def)
  have c: "file_name c" "path_text cs = [] \<or> hd (path_text cs) = CHR ''/''"
    using Cons.prems(1) by (auto simp: path_text_def) (cases cs; simp)
  note step = mkdir_step(1) [OF c, of os "pre @ [CHR ''/'']" w]
  show ?case
  proof (cases "cs = []")
    case True
    then show ?thesis using step tl by (simp add: path_text_def)
  next
    case False
    let ?p = "path_text (ps @ [c])"
    have p: "(pre @ [CHR ''/'']) @ c = ?p" using Cons.prems(3) by (simp add: path_text_def)
    have rest: "path_text cs = CHR ''/'' # tl (path_text cs)" using False by (cases cs) (auto simp: path_text_def)
    obtain m w1 where w1: "os_mkdir os ?p w = (m, w1)" "m \<noteq> Mkdir_failed" using assms [of ?p w] by (cases "os_mkdir os ?p w") auto
    have "mkdir_loop os (pre @ [CHR ''/'']) (c @ path_text cs) w = mkdir_loop os (?p @ [CHR ''/'']) (tl (path_text cs)) w1"
      unfolding step using w1 p by (subst rest) (cases m; simp)
    also have "\<dots> = (True, fold (\<lambda>p w. snd (os_mkdir os p w)) (map (\<lambda>i. path_text ((ps @ [c]) @ take i cs)) [1..<length cs]) w1)"
      using Cons.IH [OF _ False refl] Cons.prems(1) by simp
    also have "map (\<lambda>i. path_text ((ps @ [c]) @ take i cs)) [1..<length cs] =
        map (\<lambda>i. path_text (ps @ take i (c # cs))) [2..<Suc (length cs)]"
      by (simp add: map_Suc_upt [symmetric] numeral_2_eq_2 del: upt_Suc)
    also have "fold (\<lambda>p w. snd (os_mkdir os p w)) (map (\<lambda>i. path_text (ps @ take i (c # cs))) [2..<Suc (length cs)]) w1 =
        fold (\<lambda>p w. snd (os_mkdir os p w)) (map (\<lambda>i. path_text (ps @ take i (c # cs))) [1..<Suc (length cs)]) w"
      using False w1(1) by (subst (2) upt_conv_Cons) (auto simp: numeral_2_eq_2)
    finally show ?thesis unfolding tl by simp
  qed
qed simp

theorem mkdir_makes_parents:
  assumes "\<And>p w. fst (os_mkdir os p w) \<noteq> Mkdir_failed" "list_all file_name cs" "cs \<noteq> []" "length (path_text cs) \<le> 255"
  shows "utils_mkdir os (Some (path_text cs)) is_dir w =
    (0, fold (\<lambda>p w. snd (os_mkdir os p w))
      (map (\<lambda>i. path_text (take i cs)) [1..<(if is_dir then Suc (length cs) else length cs)]) w)"
proof -
  let ?make = "\<lambda>p w. snd (os_mkdir os p w)"
  obtain c r where cs: "cs = c # r" using assms(3) by (cases cs) auto
  have c: "file_name c" "path_text r = [] \<or> hd (path_text r) = CHR ''/''"
    using assms(2) cs by (auto simp: path_text_def) (cases r; simp)
  have "mkdir_loop os [] (path_text cs) w = mkdir_loop os ([] @ [CHR ''/'']) (tl (path_text cs)) w"
    unfolding cs path_text_Cons list.sel mkdir_step [OF c] append_Nil append_Cons by (rule refl)
  also have "\<dots> = (True, fold ?make (map (\<lambda>i. path_text (take i cs)) [1..<length cs]) w)"
    using mkdir_loop_path [OF assms(1-3), of "[]" "[]" w] by (simp add: path_text_def)
  finally have loop: "mkdir_loop os [] (path_text cs) w =
      (True, fold ?make (map (\<lambda>i. path_text (take i cs)) [1..<length cs]) w)" .
  obtain m w2 where last: "os_mkdir os (path_text cs) (fold ?make (map (\<lambda>i. path_text (take i cs)) [1..<length cs]) w) = (m, w2)"
      "m \<noteq> Mkdir_failed"
    by (metis assms(1) prod.collapse)
  have "[1..<Suc (length cs)] = [1..<length cs] @ [length cs]" using cs by simp
  then show ?thesis using loop last assms(4)
    by (cases m) (auto simp: utils_mkdir_def RC_COMMAND_LINE_SIZE_def)
qed

end
