(* ===== verification/Boot_Files.thy ===== *)
theory Boot_Files
  imports Http Nvram Boot_Os "HOL-Library.Signed_Division"
begin

text \<open>
  Reading the files of the kernel and the boot configuration: lines (\<^verbatim>\<open>utils_file_get_line.c\<close>, of which
  \<^verbatim>\<open>libezcfg/src/util/util_file_get_line.c\<close> is a copy), the value behind a keyword
  (\<^verbatim>\<open>utils_file_get_keyword.c\<close>), the callers that look up one keyword, and whole files.
\<close>

section \<open>Lines\<close>

lemma c_string_NUL: "cstr u \<Longrightarrow> c_string (u @ NUL # z) = u"
  by (induction u) (auto simp: c_string_def cstr_def)

definition LINE_TAIL_STRING :: string where
  "LINE_TAIL_STRING = [CHR '' '', CHR 0x09, CHR 0x0D, CHR 0x0A]"

text \<open>The buffer after \<^verbatim>\<open>fgets\<close>: the line, a NUL, and what stood behind before.\<close>

definition buf_put :: "string \<Rightarrow> string \<Rightarrow> string" where
  "buf_put line buf = line @ NUL # drop (length line + 1) buf"

text \<open>The inner loop looks at \<^verbatim>\<open>buf[len]\<close>, for the first time at the NUL behind the line, and stops before
  \<^verbatim>\<open>buf[0]\<close>.\<close>

fun tail_loop :: "string \<Rightarrow> string \<Rightarrow> nat \<Rightarrow> string \<times> nat" where
  "tail_loop rm buf 0 = (buf, 0)"
| "tail_loop rm buf (Suc k) =
     (if buf ! Suc k = NUL \<or> buf ! Suc k \<in> set rm then tail_loop rm (buf[Suc k := NUL]) k else (buf, Suc k))"

lemma fgets_less: "fgets (Suc (Suc n)) f = Some (l, r) \<Longrightarrow> length r < length f"
  using fgets_take_length [of f n] by (auto simp: fgets_def split: if_splits)

text \<open>The loop for a buffer of \<open>n + 2\<close> bytes: whether there is a line, the buffer, the rest of the file.\<close>

function get_line_loop :: "nat \<Rightarrow> string \<Rightarrow> string \<Rightarrow> string \<Rightarrow> string \<Rightarrow> bool \<times> string \<times> string" where
  "get_line_loop n comment rm buf f =
     (case fgets (n + 2) f of
        None \<Rightarrow> (False, buf, f)
      | Some (line, r) \<Rightarrow>
          let b = buf_put line buf in
          if b ! 0 = NUL \<or> b ! 0 \<in> set comment then get_line_loop n comment rm b r
          else
            let (b', len) = tail_loop rm b (length (c_string b)) in
            if 0 < len then (True, b', r) else get_line_loop n comment rm b' r)"
  by pat_completeness auto
termination
  by (relation "measure (\<lambda>(n, comment, rm, buf, f). length f)") (auto simp: fgets_less)

declare get_line_loop.simps [simp del]

text \<open>With one byte of buffer \<^verbatim>\<open>fgets\<close> reads nothing and the loop does not end.\<close>

definition utils_file_get_line :: "nat \<Rightarrow> string \<Rightarrow> string \<Rightarrow> string \<Rightarrow> string \<Rightarrow> (bool \<times> string \<times> string) option" where
  "utils_file_get_line bufsz comment rm buf f =
     (if bufsz < 1 then Some (False, buf, f)
      else if bufsz = 1 then None
      else Some (get_line_loop (bufsz - 2) comment rm buf f))"

section \<open>Keywords\<close>

text \<open>\<^verbatim>\<open>strstr\<close> and \<^verbatim>\<open>strchr\<close> on the text of the buffer from an index on, with the index found.\<close>

definition strstr_at :: "string \<Rightarrow> nat \<Rightarrow> string \<Rightarrow> nat option" where
  "strstr_at buf i pat =
     (let s = c_string buf in map_option (\<lambda>t. length s - length t) (strstr (drop i s) pat))"

definition strchr_at :: "string \<Rightarrow> nat \<Rightarrow> char \<Rightarrow> nat option" where
  "strchr_at buf i c =
     (let s = c_string (drop i buf) in map_option (\<lambda>t. i + length s - length t) (strchr s c))"

lemma strstr_found: "strstr s pat = Some t \<Longrightarrow> prefix pat t \<and> suffix t s"
  by (induction s) (auto split: if_splits intro: suffix_ConsI)

lemma strstr_at_bounds:
  assumes "strstr_at buf i pat = Some j"
  shows "j + length pat \<le> length (c_string buf)" "i \<le> j \<or> pat = []"
proof -
  let ?s = "c_string buf"
  obtain t where t: "strstr (drop i ?s) pat = Some t" "j = length ?s - length t"
    using assms by (auto simp: strstr_at_def Let_def)
  have "length pat \<le> length t" "length t \<le> length ?s - i"
    using strstr_found [OF t(1)] by (auto dest: prefix_length_le suffix_length_le)
  then show "j + length pat \<le> length ?s" using t(2) by linarith
  have "pat = [] \<or> 0 < length pat" by simp
  with \<open>length pat \<le> length t\<close> \<open>length t \<le> length ?s - i\<close> show "i \<le> j \<or> pat = []" using t(2) by linarith
qed

lemma keyword_skip_less:
  assumes "strstr_at buf (q + length kw) kw = Some j" "kw \<noteq> []"
  shows "length (c_string buf) - j < length (c_string buf) - q"
proof -
  have "0 < length kw" using assms(2) by simp
  then show ?thesis using strstr_at_bounds [OF assms(1)] assms(2) by linarith
qed

text \<open>The loop past the occurrences inside a word, with \<open>p\<close> and \<open>q\<close>.  It is not reached with an empty
  keyword, which is found at the start of the line.\<close>

function keyword_skip :: "string \<Rightarrow> string \<Rightarrow> nat option \<Rightarrow> nat \<Rightarrow> nat option \<times> nat option" where
  "keyword_skip buf kw p q =
     (if kw = [] \<or> isspace (buf ! (q - 1)) then (p, Some q)
      else
        let p' = q + length kw in
        (case strstr_at buf p' kw of None \<Rightarrow> (Some p', None) | Some q' \<Rightarrow> keyword_skip buf kw (Some p') q'))"
  by pat_completeness auto
termination
  by (relation "measure (\<lambda>(buf, kw, p, q). length (c_string buf) - q)") (auto simp: keyword_skip_less)

declare keyword_skip.simps [simp del]

text \<open>One line: \<open>p\<close> as the loop leaves it, and the occurrence that is used.\<close>

definition keyword_find :: "string \<Rightarrow> string \<Rightarrow> nat option \<Rightarrow> nat option \<times> nat option" where
  "keyword_find buf kw p =
     (case strstr_at buf 0 kw of
        None \<Rightarrow> (p, None)
      | Some q \<Rightarrow> if q \<noteq> 0 \<and> \<not> isspace (buf ! (q - 1)) then keyword_skip buf kw p q else (p, Some q))"

text \<open>A NUL over the first occurrence of a character at or behind \<open>p\<close>.\<close>

definition cut_at :: "string \<Rightarrow> nat \<Rightarrow> char \<Rightarrow> string" where
  "cut_at buf p c = (case strchr_at buf p c of None \<Rightarrow> buf | Some q \<Rightarrow> buf[q := NUL])"

fun skip_commas :: "string \<Rightarrow> nat \<Rightarrow> nat \<Rightarrow> nat option" where
  "skip_commas buf 0 p = Some p"
| "skip_commas buf (Suc k) p =
     (case strchr_at buf p (CHR '','') of None \<Rightarrow> None | Some q \<Rightarrow> skip_commas buf k (q + 1))"

definition keyword_value :: "int \<Rightarrow> string \<Rightarrow> nat \<Rightarrow> nat option \<times> string" where
  "keyword_value idx buf p =
     (let b = (if idx \<ge> 0 then cut_at buf p (CHR '' '') else buf) in
      if idx > 0 then
        (case skip_commas b (nat (idx - 1)) p of
           None \<Rightarrow> (None, b)
         | Some p' \<Rightarrow> (Some p', cut_at b p' (CHR '','')))
      else (Some p, b))"

text \<open>The loop over the lines: \<open>p\<close> and the buffer at the end.\<close>

definition KEYWORD_BUFFER :: nat where "KEYWORD_BUFFER = 1024"

lemma get_line_less: "get_line_loop n cm rm buf f = (True, b, r) \<Longrightarrow> length r < length f"
proof (induction "length f" arbitrary: buf f rule: less_induct)
  case less
  obtain line r' where l: "fgets (n + 2) f = Some (line, r')"
    using less.prems by (subst (asm) get_line_loop.simps) (auto split: option.splits)
  then have "length r' < length f" using fgets_less [of n f] by simp
  then have IH: "get_line_loop n cm rm buf' r' = (True, b, r) \<Longrightarrow> length r < length f" for buf'
    using less.hyps [of r'] by fastforce
  show ?case using less.prems l \<open>length r' < length f\<close>
    by (subst (asm) get_line_loop.simps) (auto simp: Let_def split: if_splits prod.splits intro: IH)
qed

function keyword_loop :: "string \<Rightarrow> int \<Rightarrow> nat option \<Rightarrow> string \<Rightarrow> string \<Rightarrow> nat option \<times> string" where
  "keyword_loop kw idx p buf f =
     (case get_line_loop (KEYWORD_BUFFER - 2) ''#'' LINE_TAIL_STRING buf f of
        (False, b, r) \<Rightarrow> (p, b)
      | (True, b, r) \<Rightarrow>
          (case keyword_find b kw p of
             (p', None) \<Rightarrow> keyword_loop kw idx p' b r
           | (p', Some q) \<Rightarrow> keyword_value idx b (q + length kw)))"
  by pat_completeness auto
termination
  by (relation "measure (\<lambda>(kw, idx, p, buf, f). length f)") (auto dest: get_line_less [OF sym])

declare keyword_loop.simps [simp del]

text \<open>\<open>mem\<close> is the allocation of the copy.\<close>

definition utils_file_get_keyword_by_index :: "bool \<Rightarrow> string option \<Rightarrow> string \<Rightarrow> int \<Rightarrow> string option" where
  "utils_file_get_keyword_by_index mem content keyword idx =
     (case content of
        None \<Rightarrow> None
      | Some f \<Rightarrow>
          (case keyword_loop keyword idx None (replicate KEYWORD_BUFFER NUL) f of
             (None, b) \<Rightarrow> None
           | (Some p, b) \<Rightarrow> if mem then Some (c_string (drop p b)) else None))"

definition utils_file_get_keyword :: "bool \<Rightarrow> string option \<Rightarrow> string \<Rightarrow> string option" where
  "utils_file_get_keyword mem content keyword = utils_file_get_keyword_by_index mem content keyword 0"

definition utils_file_get_keyword_full :: "bool \<Rightarrow> string option \<Rightarrow> string \<Rightarrow> string option" where
  "utils_file_get_keyword_full mem content keyword = utils_file_get_keyword_by_index mem content keyword (-1)"

section \<open>The callers\<close>

text \<open>\<^verbatim>\<open>snprintf\<close> into the caller's buffer: its result, and the text stored.\<close>

definition report :: "nat \<Rightarrow> string option \<Rightarrow> int \<times> string option" where
  "report buf_len v = (case v of None \<Rightarrow> (-1, None) | Some p \<Rightarrow> (int (length p), Some (snprintf buf_len p)))"

definition PROC_CMDLINE :: string where "PROC_CMDLINE = ''/proc/cmdline''"

definition BOOT_CONFIG_FILE_PATH :: string where "BOOT_CONFIG_FILE_PATH = ''/boot/ezbox_boot.cfg''"

definition utils_get_kernel_init :: "'w os \<Rightarrow> nat \<Rightarrow> 'w \<Rightarrow> int \<times> string option" where
  "utils_get_kernel_init os buf_len w =
     report buf_len (utils_file_get_keyword (os_mem os w) (os_file os PROC_CMDLINE w) ''init='')"

definition utils_get_kernel_modules :: "'w os \<Rightarrow> nat \<Rightarrow> 'w \<Rightarrow> int \<times> string option" where
  "utils_get_kernel_modules os buf_len w =
     report buf_len (utils_file_get_keyword (os_mem os w) (os_file os PROC_CMDLINE w) ''modules='')"

text \<open>One line of at most 63 characters.\<close>

definition utils_get_kernel_version :: "'w os \<Rightarrow> 'w \<Rightarrow> string option" where
  "utils_get_kernel_version os w =
     (case os_file os ''/proc/version'' w of
        None \<Rightarrow> None
      | Some f \<Rightarrow>
          (case fgets 64 f of
             None \<Rightarrow> None
           | Some (line, _) \<Rightarrow>
               (case strstr (c_string line) ''Linux version '' of
                  None \<Rightarrow> None
                | Some q \<Rightarrow>
                    let p = drop 14 q in
                    (case strchr p (CHR '' '') of
                       None \<Rightarrow> None
                     | Some t \<Rightarrow> if os_mem os w then Some (upto p t) else None))))"

text \<open>\<^verbatim>\<open>%ld\<close> behind the literal; a number beyond a \<^verbatim>\<open>long\<close> is left to \<open>ovf\<close>.\<close>

definition scan_memtotal :: "(int \<Rightarrow> int) \<Rightarrow> string \<Rightarrow> int option" where
  "scan_memtotal ovf line =
     (if \<not> prefix ''MemTotal:'' line then None
      else
        let s = dropWhile isspace (drop 9 line);
            neg = (peek s = CHR ''-'');
            t = (if peek s = CHR ''-'' \<or> peek s = CHR ''+'' then tl s else s)
        in if \<not> isdigit (of_char (peek t)) then None
           else let v = (if neg then - int (fst (scan_digits 0 t)) else int (fst (scan_digits 0 t)))
                in Some (if - (2 ^ 63) \<le> v \<and> v < 2 ^ 63 then v else ovf v))"

function mem_size_loop :: "(int \<Rightarrow> int) \<Rightarrow> string \<Rightarrow> int" where
  "mem_size_loop ovf f =
     (case fgets 1024 f of
        None \<Rightarrow> -1
      | Some (line, r) \<Rightarrow>
          (case scan_memtotal ovf (c_string line) of
             Some v \<Rightarrow> v sdiv 1024
           | None \<Rightarrow> mem_size_loop ovf r))"
  by pat_completeness auto
termination
  using fgets_less [of 1022] by (relation "measure (\<lambda>(ovf, f). length f)") (auto simp: eval_nat_numeral)

declare mem_size_loop.simps [simp del]

definition utils_get_mem_size_mb :: "(int \<Rightarrow> int) \<Rightarrow> 'w os \<Rightarrow> 'w \<Rightarrow> int" where
  "utils_get_mem_size_mb ovf os w =
     (case os_file os ''/proc/meminfo'' w of None \<Rightarrow> -1 | Some f \<Rightarrow> sint (word_of_int (mem_size_loop ovf f) :: 32 word))"

definition get_bootcfg_keyword :: "'w os \<Rightarrow> string option \<Rightarrow> bool \<Rightarrow> int \<Rightarrow> bool \<Rightarrow> 'w \<Rightarrow> int \<times> string option" where
  "get_bootcfg_keyword os name has_buf buf_len full w =
     (case name of
        None \<Rightarrow> (-1, None)
      | Some n \<Rightarrow>
          if \<not> has_buf \<or> buf_len < 1 then (-1, None)
          else if \<not> os_mem os w then (-1, None)
          else
            (case os_stat os BOOT_CONFIG_FILE_PATH w of
               None \<Rightarrow> (-1, None)
             | Some st \<Rightarrow>
                 if st_kind st \<noteq> Regular then (-1, None)
                 else
                   report (nat buf_len)
                     (if full then utils_file_get_keyword_full (os_mem os w) (os_file os BOOT_CONFIG_FILE_PATH w) (n @ ''='')
                      else utils_file_get_keyword (os_mem os w) (os_file os BOOT_CONFIG_FILE_PATH w) (n @ ''=''))))"

definition utils_get_bootcfg_keyword :: "'w os \<Rightarrow> string option \<Rightarrow> bool \<Rightarrow> int \<Rightarrow> 'w \<Rightarrow> int \<times> string option" where
  "utils_get_bootcfg_keyword os name has_buf buf_len w = get_bootcfg_keyword os name has_buf buf_len False w"

definition utils_get_bootcfg_keyword_full :: "'w os \<Rightarrow> string option \<Rightarrow> bool \<Rightarrow> int \<Rightarrow> 'w \<Rightarrow> int \<times> string option" where
  "utils_get_bootcfg_keyword_full os name has_buf buf_len w = get_bootcfg_keyword os name has_buf buf_len True w"

section \<open>utils\_get\_device\_info.c\<close>

definition DEVICE_INFO_PATH_INDEX :: int where "DEVICE_INFO_PATH_INDEX = 1"

definition DEVICE_INFO_FS_TYPE_INDEX :: int where "DEVICE_INFO_FS_TYPE_INDEX = 2"

definition utils_get_boot_device_path :: "'w os \<Rightarrow> nat \<Rightarrow> 'w \<Rightarrow> int \<times> string option" where
  "utils_get_boot_device_path os buf_len w =
     report buf_len
       (utils_file_get_keyword_by_index (os_mem os w) (os_file os PROC_CMDLINE w) ''boot_dev='' DEVICE_INFO_PATH_INDEX)"

definition utils_get_boot_device_fs_type :: "'w os \<Rightarrow> nat \<Rightarrow> 'w \<Rightarrow> int \<times> string option" where
  "utils_get_boot_device_fs_type os buf_len w =
     report buf_len
       (utils_file_get_keyword_by_index (os_mem os w) (os_file os PROC_CMDLINE w) ''boot_dev='' DEVICE_INFO_FS_TYPE_INDEX)"

definition utils_get_root_device_path :: "'w os \<Rightarrow> nat \<Rightarrow> 'w \<Rightarrow> int \<times> string option" where
  "utils_get_root_device_path os buf_len w =
     report buf_len
       (case utils_file_get_keyword (os_mem os w) (os_file os PROC_CMDLINE w) ''root='' of
          None \<Rightarrow> None
        | Some p \<Rightarrow> Some (if strncmp p ''/dev/'' 5 = 0 then drop 5 p else p))"

definition utils_get_root_device_fs_type :: "'w os \<Rightarrow> nat \<Rightarrow> 'w \<Rightarrow> int \<times> string option" where
  "utils_get_root_device_fs_type os buf_len w =
     report buf_len (utils_file_get_keyword (os_mem os w) (os_file os PROC_CMDLINE w) ''rootfstype='')"

text \<open>The loop that waits for the boot configuration; the calls differ in the name and the index.\<close>

fun cfg_device_loop :: "'w os \<Rightarrow> string \<Rightarrow> int \<Rightarrow> nat \<Rightarrow> 'w \<Rightarrow> string option \<times> 'w" where
  "cfg_device_loop os name idx 0 w = (None, w)"
| "cfg_device_loop os name idx (Suc i) w =
     (case os_stat os BOOT_CONFIG_FILE_PATH w of
        None \<Rightarrow> cfg_device_loop os name idx i (os_sleep os w)
      | Some st \<Rightarrow>
          if st_kind st = Regular
          then (utils_file_get_keyword_by_index (os_mem os w) (os_file os BOOT_CONFIG_FILE_PATH w) (name @ ''='') idx, w)
          else cfg_device_loop os name idx i (os_sleep os w))"

definition utils_get_data_device_path :: "'w os \<Rightarrow> nat \<Rightarrow> 'w \<Rightarrow> (int \<times> string option) \<times> 'w" where
  "utils_get_data_device_path os buf_len w =
     map_prod (report buf_len) (\<lambda>w'. w') (cfg_device_loop os ''sys.data_dev'' DEVICE_INFO_PATH_INDEX 3 w)"

definition utils_get_data_device_fs_type :: "'w os \<Rightarrow> nat \<Rightarrow> 'w \<Rightarrow> (int \<times> string option) \<times> 'w" where
  "utils_get_data_device_fs_type os buf_len w =
     map_prod (report buf_len) (\<lambda>w'. w') (cfg_device_loop os ''sys.data_dev'' DEVICE_INFO_FS_TYPE_INDEX 3 w)"

definition utils_get_hdd_device_path :: "'w os \<Rightarrow> nat \<Rightarrow> 'w \<Rightarrow> (int \<times> string option) \<times> 'w" where
  "utils_get_hdd_device_path os buf_len w =
     map_prod (report buf_len) (\<lambda>w'. w') (cfg_device_loop os ''sys.hdd_device'' DEVICE_INFO_PATH_INDEX 3 w)"

definition utils_get_swap_device_path :: "'w os \<Rightarrow> nat \<Rightarrow> 'w \<Rightarrow> (int \<times> string option) \<times> 'w" where
  "utils_get_swap_device_path os buf_len w =
     map_prod (report buf_len) (\<lambda>w'. w') (cfg_device_loop os ''sys.swap_dev'' DEVICE_INFO_PATH_INDEX 3 w)"

section \<open>Whole files\<close>

text \<open>The text with the NUL behind it, and the length with the NUL.\<close>

definition utils_file_get_content ::
    "bool \<Rightarrow> (string \<Rightarrow> nat option) \<Rightarrow> (string \<Rightarrow> string option) \<Rightarrow> string option \<Rightarrow> int \<times> (string \<times> nat) option" where
  "utils_file_get_content mem st_size content path =
     (case path of
        None \<Rightarrow> (EZCFG_RET_FAIL, None)
      | Some p \<Rightarrow>
          (case st_size p of
             None \<Rightarrow> (EZCFG_RET_FAIL, None)
           | Some n \<Rightarrow>
               if \<not> mem then (EZCFG_RET_FAIL, None)
               else
                 (case content p of
                    None \<Rightarrow> (EZCFG_RET_FAIL, None)
                  | Some f \<Rightarrow>
                      if n \<noteq> min n (length f) then (EZCFG_RET_FAIL, None)
                      else (EZCFG_RET_OK, Some (take n f @ [NUL], n + 1)))))"

end
