(* ===== verification/Agent_Env.thy ===== *)
theory Agent_Env
  imports Agent Boot_Files
begin

text \<open>
  The program \<^verbatim>\<open>agent_env\<close> (\<^verbatim>\<open>ezcd/src/agent_env.c\<close>): it reads its configuration file and starts an agent from
  it.  The text it prints, the working directory and the wiping of its arguments are not modelled.
\<close>

definition AGENT_ENV_CONFIG_FILE_PATH :: string where
  "AGENT_ENV_CONFIG_FILE_PATH = ''/etc/agent/env/default.conf''"

text \<open>What \<^verbatim>\<open>getopt\<close> finds for the options \<^verbatim>\<open>c:i:\<close>.\<close>

datatype env_option = Opt_c string | Opt_i string | Opt_unknown

text \<open>The loop over the options; \<open>dup\<close> is \<^verbatim>\<open>strdup\<close>.  \<^term>\<open>None\<close> is the jump behind the usage text.\<close>

fun agent_env_options ::
    "(string \<Rightarrow> string option) \<Rightarrow> env_option list \<Rightarrow> string \<Rightarrow> string option \<Rightarrow> (string \<times> string option) option" where
  "agent_env_options dup [] conf init = Some (conf, init)"
| "agent_env_options dup (Opt_c a # opts) conf init = agent_env_options dup opts a init"
| "agent_env_options dup (Opt_i a # opts) conf init =
     agent_env_options dup opts conf (case init of Some i \<Rightarrow> Some i | None \<Rightarrow> dup a)"
| "agent_env_options dup (Opt_unknown # opts) conf init = None"

definition agent_env_main ::
    "agent_env \<Rightarrow> (string \<Rightarrow> string option) \<Rightarrow> bool \<Rightarrow> (string \<Rightarrow> nat option) \<Rightarrow> (string \<Rightarrow> string option) \<Rightarrow> bool \<Rightarrow>
     env_option list \<Rightarrow> ezcfg_refs \<Rightarrow> (int \<times> ezcfg_refs) option" where
  "agent_env_main E dup mem st_size content chdir opts s =
     (case agent_env_options dup opts AGENT_ENV_CONFIG_FILE_PATH None of
        None \<Rightarrow> Some (- EZCFG_E_ARGUMENT, s)
      | Some (conf_file, init) \<Rightarrow>
          let text =
            (case init of
               Some t \<Rightarrow> Some t
             | None \<Rightarrow>
                 (case utils_file_get_content mem st_size content (Some conf_file) of
                    (rc, Some (buf, n)) \<Rightarrow> if rc = EZCFG_RET_OK then Some (c_string buf) else None
                  | (rc, None) \<Rightarrow> None))
          in if text = None then Some (- EZCFG_E_ARGUMENT, s)
             else if \<not> chdir then Some (- EZCFG_E_RESOURCE, s)
             else ezcfg_api_agent_start E text s)"

section \<open>Properties\<close>



end
