(* ===== verification/Boot_Modules.thy ===== *)
theory Boot_Modules
  imports Boot_Files
begin

text \<open>
  Loading and removing kernel modules, \<^verbatim>\<open>ezcd/src/utils/utils_handle_kernel_module.c\<close>: a table of direct
  dependencies, which are installed before a module and removed behind it.
\<close>

section \<open>The table\<close>

definition mod_depends :: "(string \<times> string) list" where
  "mod_depends =
    [(''aes_i586'', ''aes_generic''),
     (''ahci'', ''libahci''),
     (''arc4'', ''crypto_algapi''),
     (''ath5k'', ''ath,cfg80211,compat,mac80211''),
     (''authenc'', ''aead,crypto_algapi,crypto_blkcipher,crypto_hash''),
     (''cfg80211'', ''compat''),
     (''crc32c'', ''crypto_hash''),
     (''cryptomgr'', ''aead,crypto_algapi''),
     (''crypto_blkcipher'', ''crypto_algapi''),
     (''crypto_hash'', ''crypto_algapi''),
     (''crypto_null'', ''crypto_algapi,crypto_blkcipher,crypto_hash''),
     (''des_generic'', ''crypto_algapi''),
     (''ehci-hcd'', ''usbcore''),
     (''fat'', ''nls_cp437,nls_iso8859-1''),
     (''fcrypt'', ''crypto_algapi''),
     (''ohci-hcd'', ''nls_base,usbcore''),
     (''pcmcia'', ''pcmcia_core''),
     (''mac80211'', ''cfg80211,compat''),
     (''md4'', ''crypto_hash''),
     (''md5'', ''crypto_hash''),
     (''lib80211_crypt_ccmp'', ''lib80211''),
     (''lib80211_crypt_tkip'', ''lib80211''),
     (''lib80211_crypt_wep'', ''lib80211''),
     (''michael_mic'', ''crypto_hash''),
     (''nls_cp437'', ''nls_base''),
     (''nls_iso8859-1'', ''nls_base''),
     (''rsrc_nonstatic'', ''pcmcia_core''),
     (''rt2x00lib'', ''cfg80211,compat,compat_firmware_class,mac80211''),
     (''rt2x00usb'', ''mac80211,rt2x00lib,usbcore''),
     (''rt73usb'', ''crc-itu-t,rt2x00lib,rt2x00usb''),
     (''uhci-hcd'', ''usbcore''),
     (''usbcore'', ''usb-common,nls_base''),
     (''usbhid'', ''usbcore''),
     (''usb-storage'', ''usbcore''),
     (''vfat'', ''nls_base,nls_cp437,nls_iso8859-1,fat''),
     (''yenta_socket'', ''pcmcia_core,rsrc_nonstatic'')]"

lemma strchr_tl_less: "strchr p c = Some q \<Longrightarrow> length q - Suc 0 < length p"
  by (induction p) (auto split: if_splits simp: less_Suc_eq)

text \<open>The loop over a list of names: up to the next comma, and on behind it.\<close>

function comma_parts :: "string \<Rightarrow> string list" where
  "comma_parts p =
     (case strchr p (CHR '','') of
        None \<Rightarrow> [p]
      | Some q \<Rightarrow> upto p q # comma_parts (tl q))"
  by pat_completeness auto
termination
  by (relation "measure length") (auto simp: strchr_tl_less)

declare comma_parts.simps [simp del]

text \<open>The loop from the end: the name behind the last comma, over which then a NUL is written.\<close>

function comma_parts_back :: "string \<Rightarrow> string list" where
  "comma_parts_back l =
     (if CHR '','' \<in> set l
      then rev (takeWhile (\<lambda>c. c \<noteq> CHR '','') (rev l)) #
        comma_parts_back (rev (tl (dropWhile (\<lambda>c. c \<noteq> CHR '','') (rev l))))
      else [l])"
  by pat_completeness auto
termination
proof (relation "measure length", goal_cases)
  case (2 l)
  have "dropWhile (\<lambda>c. c \<noteq> CHR '','') (rev l) \<noteq> []" using 2 by (auto simp: dropWhile_eq_Nil_conv)
  then show ?case using length_dropWhile_le [of "\<lambda>c. c \<noteq> CHR '',''" "rev l"]
    by (cases "dropWhile (\<lambda>c. c \<noteq> CHR '','') (rev l)") auto
qed simp

declare comma_parts_back.simps [simp del]

text \<open>The lists of the entries with a name.\<close>

definition dep_rows :: "string \<Rightarrow> string list" where
  "dep_rows name = map snd (filter (\<lambda>(n, l). strcmp n name = 0) mod_depends)"

text \<open>The depth of a name in the table, which bounds the recursion.\<close>

definition mod_rank :: "string \<Rightarrow> nat" where
  "mod_rank n =
     (case map_of [(''ath5k'', 3), (''authenc'', 2), (''crc32c'', 2), (''crypto_null'', 2), (''ehci-hcd'', 2), (''fat'', 2), (''ohci-hcd'', 2), (''mac80211'', 2), (''md4'', 2), (''md5'', 2), (''michael_mic'', 2), (''rt2x00lib'', 3), (''rt2x00usb'', 4), (''rt73usb'', 5), (''uhci-hcd'', 2), (''usbhid'', 2), (''usb-storage'', 2), (''vfat'', 3), (''yenta_socket'', 2)] n of
        Some k \<Rightarrow> k
      | None \<Rightarrow> if n \<in> fst ` set mod_depends then 1 else 0)"

lemma mod_ranks:
  "list_all (\<lambda>(n, l). list_all (\<lambda>d. mod_rank d < mod_rank n) (comma_parts l)) mod_depends"
  "list_all (\<lambda>(n, l). list_all (\<lambda>d. mod_rank d < mod_rank n) (comma_parts_back l)) mod_depends"
  by code_simp+

lemma mod_rank_less: "l \<in> set (dep_rows name) \<Longrightarrow> d \<in> set (comma_parts l) \<Longrightarrow> mod_rank d < mod_rank name"
  using mod_ranks(1) by (fastforce simp: dep_rows_def list_all_iff)

lemma mod_rank_back_less: "l \<in> set (dep_rows name) \<Longrightarrow> d \<in> set (comma_parts_back l) \<Longrightarrow> mod_rank d < mod_rank name"
  using mod_ranks(2) by (fastforce simp: dep_rows_def list_all_iff)

section \<open>Installing\<close>

definition CMD_INSMOD :: string where "CMD_INSMOD = ''/sbin/insmod''"

definition CMD_MODPROBE :: string where "CMD_MODPROBE = ''/sbin/modprobe''"

definition CMD_RMMOD :: string where "CMD_RMMOD = ''/sbin/rmmod''"

text \<open>The loop over \<^verbatim>\<open>/proc/modules\<close>, with the buffer of 128 bytes.\<close>

function module_loop :: "string \<Rightarrow> string \<Rightarrow> string \<Rightarrow> bool" where
  "module_loop name buf f =
     (case get_line_loop 126 ''#'' LINE_TAIL_STRING buf f of
        (False, b, r) \<Rightarrow> False
      | (True, b, r) \<Rightarrow>
          let b' = cut_at b 0 (CHR '' '') in
          if strcmp name (c_string b') = 0 then True else module_loop name b' r)"
  by pat_completeness auto
termination
  by (relation "measure (\<lambda>(name, buf, f). length f)") (auto dest: get_line_less [OF sym])

declare module_loop.simps [simp del]

definition module_installed :: "'w os \<Rightarrow> string \<Rightarrow> 'w \<Rightarrow> bool" where
  "module_installed os name w =
     (case os_file os ''/proc/modules'' w of None \<Rightarrow> False | Some f \<Rightarrow> module_loop name (replicate 128 NUL) f)"

definition insmod_command :: "string \<Rightarrow> string \<Rightarrow> string option \<Rightarrow> string" where
  "insmod_command kver name args =
     CMD_INSMOD @ '' /lib/modules/'' @ kver @ ''/'' @ name @ ''.ko '' @ (case args of None \<Rightarrow> [] | Some a \<Rightarrow> a)"

text \<open>The second allocation is the command line; the result is the same when it fails.\<close>

function utils_install_kernel_module :: "'w os \<Rightarrow> string option \<Rightarrow> string option \<Rightarrow> 'w \<Rightarrow> int \<times> 'w" where
  "utils_install_kernel_module os None args w = (EXIT_FAILURE, w)"
| "utils_install_kernel_module os (Some name) args w =
     (if module_installed os name w then (EXIT_SUCCESS, w)
      else
        let w1 = fold (\<lambda>l w.
              if os_mem os w
              then fold (\<lambda>d w. snd (utils_install_kernel_module os (Some d) None w)) (comma_parts l) w
              else w) (dep_rows name) w
        in (case utils_get_kernel_version os w1 of
              None \<Rightarrow> (EXIT_FAILURE, w1)
            | Some kver \<Rightarrow>
                if os_mem os w1 then (EXIT_SUCCESS, snd (utils_system os (insmod_command kver name args) w1))
                else (EXIT_SUCCESS, w1)))"
  by pat_completeness auto
termination
  by (relation "measure (\<lambda>(os, name, args, w). case name of None \<Rightarrow> 0 | Some n \<Rightarrow> mod_rank n)")
    (auto dest: mod_rank_less)

declare utils_install_kernel_module.simps(2) [simp del]

section \<open>Removing\<close>

function utils_remove_kernel_module :: "'w os \<Rightarrow> string option \<Rightarrow> 'w \<Rightarrow> int \<times> 'w" where
  "utils_remove_kernel_module os None w = (EXIT_FAILURE, w)"
| "utils_remove_kernel_module os (Some name) w =
     (if \<not> os_mem os w then (EXIT_FAILURE, w)
      else
        let w1 = snd (utils_system os (CMD_RMMOD @ '' '' @ name) w)
        in (EXIT_SUCCESS,
            fold (\<lambda>l w.
              if os_mem os w
              then fold (\<lambda>d w. snd (utils_remove_kernel_module os (Some d) w)) (comma_parts_back l) w
              else w) (dep_rows name) w1))"
  by pat_completeness auto
termination
  by (relation "measure (\<lambda>(os, name, w). case name of None \<Rightarrow> 0 | Some n \<Rightarrow> mod_rank n)")
    (auto dest: mod_rank_back_less)

declare utils_remove_kernel_module.simps(2) [simp del]

section \<open>With modprobe\<close>

definition utils_probe_kernel_module :: "'w os \<Rightarrow> string option \<Rightarrow> string option \<Rightarrow> 'w \<Rightarrow> int \<times> 'w" where
  "utils_probe_kernel_module os name args w =
     (case name of
        None \<Rightarrow> (EXIT_FAILURE, w)
      | Some n \<Rightarrow>
          if module_installed os n w then (EXIT_SUCCESS, w)
          else
            (EXIT_SUCCESS,
             snd (utils_system os
               (snprintf 128 (CMD_MODPROBE @ '' '' @ n @ '' '' @ (case args of None \<Rightarrow> [] | Some a \<Rightarrow> a))) w)))"

definition utils_clean_kernel_module :: "'w os \<Rightarrow> string option \<Rightarrow> 'w \<Rightarrow> int \<times> 'w" where
  "utils_clean_kernel_module os name w =
     (case name of
        None \<Rightarrow> (EXIT_FAILURE, w)
      | Some n \<Rightarrow> (EXIT_SUCCESS, snd (utils_system os (snprintf 128 (CMD_MODPROBE @ '' -r '' @ n)) w)))"

end
