(* ===== verification/Boot_Udev.thy ===== *)
theory Boot_Udev
  imports Boot_Files "HOL-Library.Monad_Syntax"
begin

text \<open>
  \<^verbatim>\<open>ezcd/src/utils/utils_udev_trigger_pop.c\<close>: a walk over \<^verbatim>\<open>/sys\<close> that sends an event for every device or makes
  its node in \<^verbatim>\<open>/dev\<close>.  \<^term>\<open>None\<close> is a write outside a buffer.
\<close>

section \<open>One device\<close>

definition UDEV_PATH_MAX :: nat where "UDEV_PATH_MAX = 512"

definition SYS_BASE :: string where "SYS_BASE = ''/sys''"

definition BLOCK_BASE :: string where "BLOCK_BASE = ''/sys/block''"

definition CLASS_BASE :: string where "CLASS_BASE = ''/sys/class''"

definition UEVENT_BASE :: string where "UEVENT_BASE = ''/uevent''"

definition DEVICES_BASE :: string where "DEVICES_BASE = ''/devices''"

definition DEV_BASE :: string where "DEV_BASE = ''/dev''"

datatype udev_op = OP_TRIGGER | OP_POP_NODE | Unknown_op

definition trigger_uevent :: "'w os \<Rightarrow> string \<Rightarrow> 'w \<Rightarrow> 'w" where
  "trigger_uevent os devpath w = os_write os (snprintf UDEV_PATH_MAX (SYS_BASE @ devpath @ UEVENT_BASE)) ''add'' w"

text \<open>\<^verbatim>\<open>%u\<close>: white space, a sign, digits.\<close>

definition scan_u :: "(nat \<Rightarrow> 32 word) \<Rightarrow> string \<Rightarrow> (32 word \<times> string) option" where
  "scan_u ovf s =
     (let s = dropWhile isspace s;
          neg = (peek s = CHR ''-'');
          t = (if peek s = CHR ''-'' \<or> peek s = CHR ''+'' then tl s else s)
      in if \<not> isdigit (of_char (peek t)) then None
         else let (n, rest) = scan_digits 0 t; v = (if n < 2 ^ 32 then of_nat n else ovf n)
              in Some (if neg then - v else v, rest))"

definition scan_dev :: "(nat \<Rightarrow> 32 word) \<Rightarrow> string \<Rightarrow> (32 word \<times> 32 word) option" where
  "scan_dev ovf s = do {
     (major, s) \<leftarrow> scan_u ovf s;
     if peek s \<noteq> CHR '':'' then None
     else do {
       (minor, _) \<leftarrow> scan_u ovf (tl s);
       Some (major, minor)
     }
   }"

text \<open>The text from the last slash on, and the text before it.\<close>

definition last_slash :: "string \<Rightarrow> (string \<times> string) option" where
  "last_slash s =
     (if CHR ''/'' \<notin> set s then None
      else
        let name = rev (takeWhile (\<lambda>c. c \<noteq> CHR ''/'') (rev s))
        in Some (take (length s - length name - 1) s, CHR ''/'' # name))"

text \<open>At most 16 bytes are read into the buffer, which has no room for a NUL behind them.\<close>

definition make_device :: "'w os \<Rightarrow> string \<Rightarrow> 'w \<Rightarrow> 'w" where
  "make_device os devpath w =
     (case os_file os (snprintf UDEV_PATH_MAX (SYS_BASE @ devpath @ DEV_BASE)) w of
        None \<Rightarrow> w
      | Some f \<Rightarrow>
          if f = [] then w
          else
            (case scan_dev (os_ovf os) (c_string (take 16 f @ os_junk os)) of
               None \<Rightarrow> w
             | Some (major, minor) \<Rightarrow>
                 (case last_slash devpath of
                    None \<Rightarrow> w
                  | Some (_, node_name) \<Rightarrow>
                      if sint major \<ge> 0
                      then os_mknod os (snprintf UDEV_PATH_MAX (DEV_BASE @ ''/'' @ node_name))
                             (strstr devpath ''/block/'' \<noteq> None) (unat major) (unat minor) w
                      else w)))"

section \<open>Links\<close>

text \<open>The number of \<^verbatim>\<open>../\<close> in front of the target.\<close>

fun count_back :: "string \<Rightarrow> nat" where
  "count_back (c # d # e # s) = (if [c, d, e] = ''../'' then Suc (count_back s) else 0)"
| "count_back s = 0"

fun go_back :: "nat \<Rightarrow> string \<Rightarrow> string option" where
  "go_back 0 devpath = Some devpath"
| "go_back (Suc i) devpath = do { (d, _) \<leftarrow> last_slash devpath; go_back i d }"

text \<open>\<^verbatim>\<open>readlink\<close> fills at most 512 bytes; the NUL behind them would then be written outside the buffer.\<close>

definition sysfs_resolve_link :: "'w os \<Rightarrow> string \<Rightarrow> 'w \<Rightarrow> (int \<times> string) option" where
  "sysfs_resolve_link os devpath w =
     (case os_readlink os (snprintf UDEV_PATH_MAX (SYS_BASE @ devpath)) w of
        None \<Rightarrow> Some (-1, devpath)
      | Some target \<Rightarrow>
          if target = [] then Some (-1, devpath)
          else if length target \<ge> UDEV_PATH_MAX then None
          else
            let back = count_back target in
            (case go_back (back + 1) devpath of
               None \<Rightarrow> Some (-1, devpath)
             | Some d \<Rightarrow> Some (0, d @ snprintf (UDEV_PATH_MAX - length d) (CHR ''/'' # drop (back * 3) target))))"

section \<open>The walk\<close>

definition device_list_insert_op :: "'w os \<Rightarrow> string \<Rightarrow> udev_op \<Rightarrow> 'w \<Rightarrow> (int \<times> 'w) option" where
  "device_list_insert_op os path op w =
     (let ready =
        (case op of
           OP_TRIGGER \<Rightarrow>
             (case os_stat os (snprintf UDEV_PATH_MAX (path @ UEVENT_BASE)) w of None \<Rightarrow> False | Some st \<Rightarrow> st_wusr st)
         | OP_POP_NODE \<Rightarrow>
             (case os_stat os (snprintf UDEV_PATH_MAX (path @ DEV_BASE)) w of None \<Rightarrow> False | Some st \<Rightarrow> st_rusr st)
         | Unknown_op \<Rightarrow> False)
      in if \<not> ready then Some (-1, w)
         else
           (case os_lstat os path w of
              None \<Rightarrow> Some (-1, w)
            | Some st \<Rightarrow> do {
                (ret, devpath) \<leftarrow>
                  (if st_kind st = Symbolic_link then sysfs_resolve_link os (drop 4 path) w else Some (0, drop 4 path));
                if ret \<noteq> 0 then Some (-1, w)
                else
                  (case op of
                     OP_TRIGGER \<Rightarrow> Some (0, trigger_uevent os devpath w)
                   | OP_POP_NODE \<Rightarrow> Some (0, make_device os devpath w)
                   | Unknown_op \<Rightarrow> Some (0, w))
              }))"

fun for_each :: "(string \<Rightarrow> 'w \<Rightarrow> 'w option) \<Rightarrow> string list \<Rightarrow> 'w \<Rightarrow> 'w option" where
  "for_each body [] w = Some w"
| "for_each body (d # ds) w = do { w' \<leftarrow> body d w; for_each body ds w' }"

definition hidden :: "string \<Rightarrow> bool" where
  "hidden name \<longleftrightarrow> peek name = CHR ''.''"

definition scan_dir :: "'w os \<Rightarrow> (string \<Rightarrow> bool) \<Rightarrow> string \<Rightarrow> udev_op \<Rightarrow> 'w \<Rightarrow> 'w option" where
  "scan_dir os skip dirname op w =
     (case os_readdir os dirname w of
        None \<Rightarrow> Some w
      | Some names \<Rightarrow>
          for_each (\<lambda>name w.
            if hidden name \<or> skip name then Some w
            else map_option snd (device_list_insert_op os (snprintf UDEV_PATH_MAX (dirname @ ''/'' @ name)) op w)) names w)"

definition scan_subsystem :: "'w os \<Rightarrow> string \<Rightarrow> udev_op \<Rightarrow> 'w \<Rightarrow> 'w option" where
  "scan_subsystem os subsys op w =
     (let base = snprintf UDEV_PATH_MAX (SYS_BASE @ ''/'' @ subsys) in
      case os_readdir os base w of
        None \<Rightarrow> Some w
      | Some names \<Rightarrow>
          for_each (\<lambda>name w.
            if hidden name then Some w
            else scan_dir os (\<lambda>_. False) (snprintf UDEV_PATH_MAX (base @ ''/'' @ name @ DEVICES_BASE)) op w) names w)"

definition scan_block :: "'w os \<Rightarrow> udev_op \<Rightarrow> 'w \<Rightarrow> 'w option" where
  "scan_block os op w =
     (case os_readdir os BLOCK_BASE w of
        None \<Rightarrow> Some w
      | Some names \<Rightarrow>
          for_each (\<lambda>name w.
            if hidden name then Some w
            else do {
              let dirname = snprintf UDEV_PATH_MAX (BLOCK_BASE @ ''/'' @ name);
              (ret, w') \<leftarrow> device_list_insert_op os dirname op w;
              if ret \<noteq> 0 then Some w'
              else scan_dir os (\<lambda>n. strcmp n ''device'' = 0) dirname op w'
            }) names w)"

definition scan_class :: "'w os \<Rightarrow> udev_op \<Rightarrow> 'w \<Rightarrow> 'w option" where
  "scan_class os op w =
     (case os_readdir os CLASS_BASE w of
        None \<Rightarrow> Some w
      | Some names \<Rightarrow>
          for_each (\<lambda>name w.
            if hidden name then Some w
            else scan_dir os (\<lambda>n. strcmp n ''device'' = 0) (snprintf UDEV_PATH_MAX (CLASS_BASE @ ''/'' @ name)) op w) names w)"

text \<open>\<^verbatim>\<open>access\<close> for existence is taken as \<^verbatim>\<open>stat\<close>.\<close>

definition udev_trigger_pop :: "'w os \<Rightarrow> udev_op \<Rightarrow> 'w \<Rightarrow> (int \<times> 'w) option" where
  "udev_trigger_pop os op w = do {
     w1 \<leftarrow> scan_subsystem os ''bus'' op w;
     w2 \<leftarrow> scan_class os op w1;
     w3 \<leftarrow> (if os_stat os ''/sys/class/block'' w2 = None then scan_block os op w2 else Some w2);
     Some (EXIT_SUCCESS, w3)
   }"

definition utils_udev_trigger :: "'w os \<Rightarrow> 'w \<Rightarrow> (int \<times> 'w) option" where
  "utils_udev_trigger os w = udev_trigger_pop os OP_TRIGGER w"

definition utils_udev_pop_nodes :: "'w os \<Rightarrow> 'w \<Rightarrow> (int \<times> 'w) option" where
  "utils_udev_pop_nodes os w = udev_trigger_pop os OP_POP_NODE w"

end
