(* ===== verification/Boot_Mount.thy ===== *)
theory Boot_Mount
  imports Boot_Modules Boot_Udev
begin

text \<open>
  Mounting the partitions that the command line of the kernel and the boot configuration name:
  \<^verbatim>\<open>utils_mount_partition.c\<close>, \<^verbatim>\<open>utils_swap_partition.c\<close> and the data directories of \<^verbatim>\<open>utils_make_dirs.c\<close>.
\<close>

definition CMD_MOUNT :: string where "CMD_MOUNT = ''/bin/mount''"

definition CMD_UMOUNT :: string where "CMD_UMOUNT = ''/bin/umount''"

definition CMD_SWAPON :: string where "CMD_SWAPON = ''/sbin/swapon''"

definition CMD_SWAPOFF :: string where "CMD_SWAPOFF = ''/sbin/swapoff''"

definition KERNEL_COMMAND_LINE_SIZE :: nat where "KERNEL_COMMAND_LINE_SIZE = 512"

definition PARTITION_MOUNT_TIMEOUT :: nat where "PARTITION_MOUNT_TIMEOUT = 10"

section \<open>One partition\<close>

definition install_fs_modules :: "'w os \<Rightarrow> string \<Rightarrow> 'w \<Rightarrow> int \<times> 'w" where
  "install_fs_modules os fs_type w =
     (if strcmp fs_type ''ntfs-3g'' = 0 then utils_install_kernel_module os (Some ''fuse'') None w
      else if strcmp fs_type ''vfat'' = 0 then utils_install_kernel_module os (Some ''vfat'') None w
      else if strcmp fs_type ''fat'' = 0 then utils_install_kernel_module os (Some ''fat'') None w
      else (-1, w))"

function mounts_loop :: "string \<Rightarrow> string \<Rightarrow> string \<Rightarrow> bool" where
  "mounts_loop mount_entry buf f =
     (case get_line_loop 254 [] LINE_TAIL_STRING buf f of
        (False, b, r) \<Rightarrow> False
      | (True, b, r) \<Rightarrow>
          if strncmp (c_string b) mount_entry (length mount_entry) = 0 then True else mounts_loop mount_entry b r)"
  by pat_completeness auto
termination
  by (relation "measure (\<lambda>(mount_entry, buf, f). length f)") (auto dest: get_line_less [OF sym])

declare mounts_loop.simps [simp del]

definition utils_partition_is_mounted :: "'w os \<Rightarrow> string \<Rightarrow> string \<Rightarrow> 'w \<Rightarrow> bool" where
  "utils_partition_is_mounted os dev mount_point w =
     (case os_file os ''/proc/mounts'' w of
        None \<Rightarrow> False
      | Some f \<Rightarrow> mounts_loop (snprintf 128 (dev @ '' '' @ mount_point @ '' '')) (replicate 256 NUL) f)"

definition utils_mount_partition ::
    "'w os \<Rightarrow> string option \<Rightarrow> string option \<Rightarrow> string option \<Rightarrow> string option \<Rightarrow> 'w \<Rightarrow> int \<times> 'w" where
  "utils_mount_partition os dev path fs_type args w =
     (case (dev, path) of
        (Some d, Some m) \<Rightarrow>
          let p = (case args of None \<Rightarrow> [] | Some a \<Rightarrow> a) in
          (case fs_type of
             Some fs \<Rightarrow>
               let w1 = snd (install_fs_modules os fs w);
                   command = (if strcmp fs ''ntfs-3g'' = 0 then ''/usr/bin/ntfs-3g '' @ p @ '' '' @ d @ '' '' @ m
                              else CMD_MOUNT @ '' '' @ p @ '' -t '' @ fs @ '' '' @ d @ '' '' @ m)
               in (EXIT_SUCCESS, snd (utils_system os (snprintf 128 command) w1))
           | None \<Rightarrow>
               (EXIT_SUCCESS, snd (utils_system os (snprintf 128 (CMD_MOUNT @ '' '' @ p @ '' '' @ d @ '' '' @ m)) w)))
      | _ \<Rightarrow> (EXIT_FAILURE, w))"

definition utils_umount_partition :: "'w os \<Rightarrow> string option \<Rightarrow> 'w \<Rightarrow> int \<times> 'w" where
  "utils_umount_partition os path w =
     (case path of
        None \<Rightarrow> (EXIT_FAILURE, w)
      | Some m \<Rightarrow> (EXIT_SUCCESS, snd (utils_system os (snprintf 128 (CMD_UMOUNT @ '' '' @ m)) w)))"

definition utils_remount_partition ::
    "'w os \<Rightarrow> string option \<Rightarrow> string option \<Rightarrow> string option \<Rightarrow> string option \<Rightarrow> 'w \<Rightarrow> int \<times> 'w" where
  "utils_remount_partition os dev path fs_type args w =
     (if dev = None \<or> path = None then (EXIT_FAILURE, w)
      else utils_mount_partition os dev path fs_type args (os_sleep os (snd (utils_umount_partition os path w))))"

section \<open>Waiting for the device\<close>

text \<open>The loop of the functions that mount a partition; \<open>finish\<close> is what comes behind a successful mount.\<close>

fun mount_loop ::
    "'w os \<Rightarrow> string \<Rightarrow> string \<Rightarrow> string option \<Rightarrow> string option \<Rightarrow> ('w \<Rightarrow> int \<times> 'w) \<Rightarrow> nat \<Rightarrow> 'w \<Rightarrow> (int \<times> 'w) option" where
  "mount_loop os dev path fs_type args finish 0 w = Some (EXIT_FAILURE, w)"
| "mount_loop os dev path fs_type args finish (Suc i) w =
     (case os_stat os dev w of
        None \<Rightarrow> do {
          (_, w1) \<leftarrow> utils_udev_pop_nodes os w;
          mount_loop os dev path fs_type args finish i (os_sleep os w1)
        }
      | Some st \<Rightarrow>
          if st_kind st \<noteq> Block_device then Some (EXIT_FAILURE, w)
          else
            let (rc, w1) = utils_mount_partition os (Some dev) (Some path) fs_type args w in
            if rc \<noteq> EXIT_SUCCESS then Some (EXIT_FAILURE, w1)
            else
              let (rc, w2) = finish w1 in
              Some (if rc \<noteq> EXIT_SUCCESS then EXIT_FAILURE else EXIT_SUCCESS, w2))"

text \<open>The type of the file system, if there is one, and the options that depend on it.\<close>

definition fs_options :: "string option \<Rightarrow> string option \<Rightarrow> int \<times> string option \<Rightarrow> string option \<times> string option" where
  "fs_options ntfs other r =
     (case r of
        (rc, Some s) \<Rightarrow>
          if rc > 0 then
            let fs = snprintf 64 s in (Some fs, if strcmp fs ''ntfs-3g'' = 0 then ntfs else other)
          else (None, None)
      | (rc, None) \<Rightarrow> (None, None))"

definition utils_mount_boot_partition_readonly :: "'w os \<Rightarrow> 'w \<Rightarrow> (int \<times> 'w) option" where
  "utils_mount_boot_partition_readonly os w =
     (case utils_get_boot_device_path os KERNEL_COMMAND_LINE_SIZE w of
        (rc, None) \<Rightarrow> Some (EXIT_FAILURE, w)
      | (rc, Some s) \<Rightarrow>
          if rc > 0 then
            let (fs_type, args) =
              fs_options (Some ''-o ro'') (Some ''-r'') (utils_get_boot_device_fs_type os KERNEL_COMMAND_LINE_SIZE w)
            in mount_loop os (snprintf 64 (''/dev/'' @ s)) ''/boot'' fs_type args (\<lambda>w. (EXIT_SUCCESS, w)) PARTITION_MOUNT_TIMEOUT w
          else Some (EXIT_FAILURE, w))"

definition utils_mount_boot_partition_writable :: "'w os \<Rightarrow> 'w \<Rightarrow> (int \<times> 'w) option" where
  "utils_mount_boot_partition_writable os w =
     (case utils_get_boot_device_path os KERNEL_COMMAND_LINE_SIZE w of
        (rc, None) \<Rightarrow> Some (EXIT_FAILURE, w)
      | (rc, Some s) \<Rightarrow>
          if rc > 0 then
            let (fs_type, args) =
              fs_options None (Some ''-w'') (utils_get_boot_device_fs_type os KERNEL_COMMAND_LINE_SIZE w)
            in mount_loop os (snprintf 64 (''/dev/'' @ s)) ''/boot'' fs_type args (\<lambda>w. (EXIT_SUCCESS, w)) PARTITION_MOUNT_TIMEOUT w
          else Some (EXIT_FAILURE, w))"

definition utils_umount_boot_partition :: "'w os \<Rightarrow> 'w \<Rightarrow> int \<times> 'w" where
  "utils_umount_boot_partition os w =
     (case utils_get_boot_device_path os 64 w of
        (rc, None) \<Rightarrow> (EXIT_FAILURE, w)
      | (rc, Some s) \<Rightarrow>
          if rc > 0 then
            (EXIT_SUCCESS,
             if utils_partition_is_mounted os (snprintf 64 (''/dev/'' @ s)) ''/boot'' w
             then snd (utils_umount_partition os (Some ''/boot'') w) else w)
          else (EXIT_FAILURE, w))"

definition utils_remount_boot_partition_readonly :: "'w os \<Rightarrow> 'w \<Rightarrow> (int \<times> 'w) option" where
  "utils_remount_boot_partition_readonly os w =
     utils_mount_boot_partition_readonly os (os_sleep os (snd (utils_umount_boot_partition os w)))"

definition utils_remount_boot_partition_writable :: "'w os \<Rightarrow> 'w \<Rightarrow> (int \<times> 'w) option" where
  "utils_remount_boot_partition_writable os w =
     utils_mount_boot_partition_writable os (os_sleep os (snd (utils_umount_boot_partition os w)))"

definition utils_mount_root_partition_writable :: "'w os \<Rightarrow> 'w \<Rightarrow> (int \<times> 'w) option" where
  "utils_mount_root_partition_writable os w =
     (case utils_get_root_device_path os KERNEL_COMMAND_LINE_SIZE w of
        (rc, None) \<Rightarrow> Some (EXIT_FAILURE, w)
      | (rc, Some s) \<Rightarrow>
          if rc > 0 then
            let (fs_type, args) =
              fs_options None (Some ''-w'') (utils_get_root_device_fs_type os KERNEL_COMMAND_LINE_SIZE w)
            in mount_loop os (snprintf 64 (''/dev/'' @ s)) ''/root'' fs_type args (\<lambda>w. (EXIT_SUCCESS, w)) PARTITION_MOUNT_TIMEOUT w
          else Some (EXIT_FAILURE, w))"

section \<open>Data and swap\<close>

definition data_dirs :: "string list" where
  "data_dirs =
    [''/data/backup'', ''/data/rootfs'', ''/data/rootfs/bin'', ''/data/rootfs/home'', ''/data/rootfs/lib'',
     ''/data/rootfs/root'', ''/data/rootfs/sbin'', ''/data/rootfs/usr'', ''/data/rootfs/var'']"

definition utils_make_data_dirs :: "'w os \<Rightarrow> 'w \<Rightarrow> int \<times> 'w" where
  "utils_make_data_dirs os w = (EXIT_SUCCESS, fold (\<lambda>d w. snd (os_mkdir os d w)) data_dirs w)"

definition utils_mount_data_partition_writable :: "'w os \<Rightarrow> 'w \<Rightarrow> (int \<times> 'w) option" where
  "utils_mount_data_partition_writable os w =
     (let ((rc, s), w1) = utils_get_data_device_path os 64 w;
          dev = (if rc > 0 then map_option (\<lambda>s. snprintf 64 (''/dev/'' @ s)) s else None);
          (r, w2) = utils_get_data_device_fs_type os 64 w1;
          (fs_type, args) = fs_options None (Some ''-w'') r
      in (case dev of
            None \<Rightarrow> Some (EXIT_FAILURE, w2)
          | Some d \<Rightarrow> mount_loop os d ''/data'' fs_type args (utils_make_data_dirs os) PARTITION_MOUNT_TIMEOUT w2))"

definition utils_umount_data_partition :: "'w os \<Rightarrow> 'w \<Rightarrow> int \<times> 'w" where
  "utils_umount_data_partition os w =
     (case utils_get_data_device_path os 64 w of
        ((rc, None), w1) \<Rightarrow> (EXIT_FAILURE, w1)
      | ((rc, Some s), w1) \<Rightarrow>
          if rc > 0 then
            (EXIT_SUCCESS,
             if utils_partition_is_mounted os (snprintf 64 (''/dev/'' @ s)) ''/data'' w1
             then snd (utils_umount_partition os (Some ''/data'') w1) else w1)
          else (EXIT_FAILURE, w1))"

definition utils_swap_partition_on :: "'w os \<Rightarrow> 'w \<Rightarrow> int \<times> 'w" where
  "utils_swap_partition_on os w =
     (case utils_get_swap_device_path os 64 w of
        ((rc, None), w1) \<Rightarrow> (EXIT_FAILURE, w1)
      | ((rc, Some s), w1) \<Rightarrow>
          if rc < 1 then (EXIT_FAILURE, w1)
          else (EXIT_SUCCESS, snd (utils_system os (snprintf 128 (CMD_SWAPON @ '' /dev/'' @ s)) w1)))"

definition utils_swap_partition_off :: "'w os \<Rightarrow> 'w \<Rightarrow> int \<times> 'w" where
  "utils_swap_partition_off os w =
     (case utils_get_swap_device_path os 64 w of
        ((rc, None), w1) \<Rightarrow> (EXIT_FAILURE, w1)
      | ((rc, Some s), w1) \<Rightarrow>
          if rc < 1 then (EXIT_FAILURE, w1)
          else (EXIT_SUCCESS, snd (utils_system os (snprintf 128 (CMD_SWAPOFF @ '' /dev/'' @ s)) w1)))"

end
