(* ===== verification/Boot_Files_Spec.thy ===== *)
theory Boot_Files_Spec
  imports Boot_Files Util_Conf_Spec
begin

text \<open>
  What the readers of \<^verbatim>\<open>Boot_Files\<close> return: the lines that the line reader shows, and the value behind a
  keyword, with the words of a line as the abstraction.
\<close>

section \<open>Lines\<close>

lemma tail_run:
  "x \<noteq> [] \<Longrightarrow> set t \<subseteq> insert NUL (set rm) \<Longrightarrow>
    tail_loop rm (x @ t @ z) (length (x @ t) - 1) = tail_loop rm (x @ replicate (length t) NUL @ z) (length x - 1)"
proof (induction t arbitrary: z rule: rev_induct)
  case (snoc c t)
  have "(x @ t @ c # z)[length x + length t := NUL] = x @ t @ NUL # z"
    using list_update_length [of "x @ t" c z NUL] by simp
  moreover obtain k where k: "length x + length t = Suc k" using snoc.prems(1) by (cases x) auto
  moreover have "(x @ t @ c # z) ! (length x + length t) = c" using nth_append_length [of "x @ t" c z] by simp
  ultimately have "tail_loop rm (x @ t @ c # z) (length x + length t) = tail_loop rm (x @ t @ NUL # z) k"
    using snoc.prems(2) by auto
  then show ?case using snoc.IH [of "NUL # z"] snoc.prems k by (simp add: replicate_app_Cons_same)
qed simp

text \<open>The line without the blanks at its end.\<close>

definition rtrim :: "string \<Rightarrow> string" where
  "rtrim l = rev (dropWhile (\<lambda>c. c \<in> set LINE_TAIL_STRING) (rev l))"

lemma rtrim_split: "\<exists>t. l = rtrim l @ t \<and> set t \<subseteq> set LINE_TAIL_STRING"
proof -
  let ?P = "\<lambda>c. c \<in> set LINE_TAIL_STRING"
  have "l = rtrim l @ rev (takeWhile ?P (rev l))"
    unfolding rtrim_def rev_append [symmetric] takeWhile_dropWhile_id by simp
  moreover have "set (rev (takeWhile ?P (rev l))) \<subseteq> set LINE_TAIL_STRING" by (auto dest: set_takeWhileD)
  ultimately show ?thesis by blast
qed

lemma rtrim_last: "rtrim l \<noteq> [] \<Longrightarrow> last (rtrim l) \<notin> set LINE_TAIL_STRING"
  unfolding rtrim_def by (metis hd_dropWhile last_rev rev_is_Nil_conv rev_rev_ident)

lemma rtrim_id: "l = [] \<or> last l \<notin> set LINE_TAIL_STRING \<Longrightarrow> rtrim l = l"
  unfolding rtrim_def by (cases l rule: rev_cases) auto

text \<open>The lines of a file, and the text that the reader shows for one: a comment, a line of blanks, and
  also a line of one character are passed over.\<close>

definition file_line :: "nat \<Rightarrow> string \<Rightarrow> bool" where
  "file_line n l \<longleftrightarrow> cstr l \<and> LF \<notin> set l \<and> length l \<le> n"

definition file_text :: "string list \<Rightarrow> string" where
  "file_text ls = concat (map (\<lambda>l. l @ [LF]) ls)"

definition shown :: "string \<Rightarrow> string \<Rightarrow> string option" where
  "shown comment l =
     (if l \<noteq> [] \<and> hd l \<in> set comment \<or> length (rtrim l) < 2 then None else Some (rtrim l))"

lemma tail_line:
  assumes "cstr l" "l \<noteq> []"
  shows "\<exists>b. tail_loop LINE_TAIL_STRING (l @ [LF, NUL] @ z) (length l + 1) =
    (b, if length (rtrim l) < 2 then 0 else length (rtrim l) - 1) \<and>
    (length (rtrim l) < 2 \<or> (\<exists>z'. b = rtrim l @ NUL # z'))"
proof (cases "rtrim l = []")
  case True
  obtain c r where l: "l = c # r" using assms(2) by (cases l) auto
  have "set l \<subseteq> set LINE_TAIL_STRING" using rtrim_split [of l] True by auto
  then have "set (r @ [LF, NUL]) \<subseteq> insert NUL (set LINE_TAIL_STRING)"
    using l by (auto simp: LINE_TAIL_STRING_def LF_def)
  from tail_run [OF _ this, of "[c]" z] show ?thesis using True l by auto
next
  case False
  let ?u = "rtrim l"
  obtain t where t: "l = ?u @ t" "set t \<subseteq> set LINE_TAIL_STRING" using rtrim_split [of l] by blast
  have "set (t @ [LF, NUL]) \<subseteq> insert NUL (set LINE_TAIL_STRING)" using t(2) by (auto simp: LINE_TAIL_STRING_def LF_def)
  note run = tail_run [OF False this, of z]
  have b: "?u @ (t @ [LF, NUL]) @ z = l @ [LF, NUL] @ z" using arg_cong [OF t(1), of "\<lambda>x. x @ [LF, NUL] @ z"] by simp
  have n: "length (?u @ (t @ [LF, NUL])) - 1 = length l + 1" using arg_cong [OF t(1), of length] by simp
  define b where "b = ?u @ replicate (length (t @ [LF, NUL])) NUL @ z"
  have "tail_loop LINE_TAIL_STRING (l @ [LF, NUL] @ z) (length l + 1) = tail_loop LINE_TAIL_STRING b (length ?u - 1)"
    using run unfolding b n b_def .
  moreover have "b ! (length ?u - 1) = last ?u" using False by (simp add: b_def nth_append last_conv_nth)
  moreover have "last ?u \<noteq> NUL" using assms(1) t(1) False by (metis cstr_def in_set_conv_decomp last_in_set append_eq_append_conv2 UnCI set_append)
  moreover have "b = ?u @ NUL # replicate (length t + 1) NUL @ z" by (simp add: b_def)
  ultimately show ?thesis using rtrim_last [OF False] False
    by (cases "length ?u - 1") (auto simp: Suc_le_eq)
qed

lemma get_line_step:
  assumes "file_line n l"
  shows "get_line_loop n comment LINE_TAIL_STRING buf (l @ LF # f) =
    (let b = l @ [LF, NUL] @ drop (length l + 2) buf in
     if b ! 0 \<in> set comment then get_line_loop n comment LINE_TAIL_STRING b f
     else
       let (b', len) = tail_loop LINE_TAIL_STRING b (length l + 1) in
       if 0 < len then (True, b', f) else get_line_loop n comment LINE_TAIL_STRING b' f)"
proof -
  have "fgets (n + 2) (l @ LF # f) = Some (l @ [LF], f)"
    using assms fgets_take_line [of l "n + 1" f] by (simp add: fgets_def file_line_def)
  moreover have put: "buf_put (l @ [LF]) buf = l @ [LF, NUL] @ drop (length l + 2) buf" by (simp add: buf_put_def)
  moreover have "c_string (l @ [LF, NUL] @ drop (length l + 2) buf) = l @ [LF]"
    using assms c_string_NUL [of "l @ [LF]"] by (simp add: file_line_def LF_def NUL_def)
  moreover have "(l @ [LF, NUL] @ drop (length l + 2) buf) ! 0 \<noteq> NUL"
    using assms by (cases l) (auto simp: file_line_def LF_def NUL_def)
  ultimately show ?thesis by (subst get_line_loop.simps) (simp add: Let_def)
qed

lemma get_line_shown:
  assumes "file_line n l" "shown comment l = Some u"
  shows "\<exists>z. get_line_loop n comment LINE_TAIL_STRING buf (l @ LF # f) = (True, u @ NUL # z, f)"
proof -
  have l: "l \<noteq> []" "hd l \<notin> set comment" "2 \<le> length (rtrim l)" "u = rtrim l" "cstr l"
    using assms by (auto simp: shown_def file_line_def rtrim_def split: if_splits)
  obtain z where "tail_loop LINE_TAIL_STRING (l @ [LF, NUL] @ drop (length l + 2) buf) (length l + 1) =
      (u @ NUL # z, length u - 1)"
    using tail_line [OF l(5,1), of "drop (length l + 2) buf"] l(3,4) by auto
  then show ?thesis using l get_line_step [OF assms(1), of comment buf f]
    by (cases l) (auto simp: Let_def)
qed

lemma get_line_hidden:
  assumes "file_line n l" "shown comment l = None"
  shows "\<exists>b. get_line_loop n comment LINE_TAIL_STRING buf (l @ LF # f) = get_line_loop n comment LINE_TAIL_STRING b f"
proof (cases "l = []")
  case True
  then show ?thesis using get_line_step [OF assms(1), of comment buf f] by (auto simp: Let_def)
next
  case False
  have "hd l \<notin> set comment \<Longrightarrow> length (rtrim l) < 2" using assms(2) False by (auto simp: shown_def split: if_splits)
  moreover have "cstr l" using assms(1) by (simp add: file_line_def)
  ultimately show ?thesis
    using tail_line [OF _ False, of "drop (length l + 2) buf"] False get_line_step [OF assms(1), of comment buf f]
    by (cases l) (auto simp: Let_def)
qed

lemma get_line_end: "get_line_loop n comment rm buf [] = (False, buf, [])"
  by (subst get_line_loop.simps) (simp add: fgets_def)

section \<open>Occurrences\<close>

lemma strstr_None: "strstr s pat = None \<longleftrightarrow> \<not> sublist pat s"
  by (induction s) (auto simp: sublist_Cons_right)

lemma strstr_Some: "strstr s pat = Some t \<Longrightarrow> \<exists>a. s = a @ t \<and> prefix pat t \<and> (\<forall>j<length a. \<not> prefix pat (drop j s))"
proof (induction s)
  case (Cons c s)
  show ?case
  proof (cases "prefix pat (c # s)")
    case True
    then show ?thesis using Cons.prems by auto
  next
    case False
    then obtain a where "s = a @ t" "prefix pat t" "\<forall>j<length a. \<not> prefix pat (drop j s)" using Cons by auto
    then show ?thesis using False by (intro exI [of _ "c # a"]) (auto simp: nth_Cons drop_Cons' less_Suc_eq_0_disj)
  qed
qed (auto split: if_splits)

text \<open>The keyword at the start of a word of the line.\<close>

definition word_at :: "string \<Rightarrow> string \<Rightarrow> nat \<Rightarrow> bool" where
  "word_at u kw q \<longleftrightarrow> prefix kw (drop q u) \<and> (q = 0 \<or> isspace (u ! (q - 1)))"

definition keyword :: "string \<Rightarrow> bool" where
  "keyword kw \<longleftrightarrow> kw \<noteq> [] \<and> cstr kw \<and> (\<forall>c\<in>set kw. \<not> isspace c)"

lemma strstr_at_None:
  assumes "cstr u" "strstr_at (u @ NUL # z) i kw = None" "i \<le> j"
  shows "\<not> prefix kw (drop j u)"
proof
  assume "prefix kw (drop j u)"
  then obtain b where b: "drop j u = kw @ b" by (auto simp: prefix_def)
  have "drop i u = take (j - i) (drop i u) @ drop (j - i) (drop i u)" by (rule append_take_drop_id [symmetric])
  then have "drop i u = take (j - i) (drop i u) @ kw @ b" using b assms(3) by (simp add: drop_drop)
  then have "sublist kw (drop i u)" unfolding sublist_def by blast
  moreover have "strstr (drop i u) kw = None" using assms(2) by (simp add: strstr_at_def Let_def c_string_NUL [OF assms(1)])
  ultimately show False by (simp add: strstr_None)
qed

lemma strstr_at_Some:
  assumes "cstr u" "strstr_at (u @ NUL # z) i kw = Some q" "i \<le> length u"
  shows "i \<le> q" "q \<le> length u" "prefix kw (drop q u)" "\<And>j. i \<le> j \<Longrightarrow> j < q \<Longrightarrow> \<not> prefix kw (drop j u)"
proof -
  obtain t where t: "strstr (drop i u) kw = Some t" "q = length u - length t"
    using assms(2) by (auto simp: strstr_at_def Let_def c_string_NUL [OF assms(1)])
  obtain a where a: "drop i u = a @ t" "prefix kw t" "\<forall>j<length a. \<not> prefix kw (drop j (drop i u))"
    using strstr_Some [OF t(1)] by blast
  have "length u - i = length a + length t" using arg_cong [OF a(1), of length] by simp
  then have q: "q = i + length a" using t(2) assms(3) by simp
  show "i \<le> q" "q \<le> length u" using q t(2) by auto
  have "drop q u = t" unfolding q using arg_cong [OF a(1), of "drop (length a)"] by (simp add: drop_drop add.commute)
  then show "prefix kw (drop q u)" using a(2) by simp
  show "\<not> prefix kw (drop j u)" if "i \<le> j" "j < q" for j
    using a(3) [rule_format, of "j - i"] that q by (simp add: drop_drop)
qed

lemma word_at_gap:
  assumes "keyword kw" "prefix kw (drop q u)" "q < j" "j < q + length kw"
  shows "\<not> word_at u kw j"
proof -
  obtain b where "drop q u = kw @ b" using assms(2) by (auto simp: prefix_def)
  then have "drop q u ! (j - 1 - q) = kw ! (j - 1 - q)" using assms(3,4) less_diff_conv2 [of "q + 1" j "length kw"]
    by (auto simp: nth_append)
  moreover have "q \<le> length u" using assms(1,2) by (cases "q \<le> length u") (auto simp: keyword_def)
  ultimately have "u ! (j - 1) = kw ! (j - 1 - q)" using assms(3) by (simp add: nth_drop)
  moreover have "kw ! (j - 1 - q) \<in> set kw" using assms(3,4) by simp
  ultimately show ?thesis using assms(1,3) by (auto simp: word_at_def keyword_def)
qed

text \<open>The search finds the first word that starts with the keyword.  When there is none, an occurrence inside a
  word leaves a pointer behind.\<close>

lemma keyword_skip_spec:
  "keyword kw \<Longrightarrow> cstr u \<Longrightarrow> prefix kw (drop q u) \<Longrightarrow> 0 < q \<Longrightarrow> (\<forall>j<q. \<not> word_at u kw j) \<Longrightarrow>
    (case keyword_skip (u @ NUL # z) kw p q of
       (p', Some q') \<Rightarrow> word_at u kw q' \<and> (\<forall>j<q'. \<not> word_at u kw j)
     | (p', None) \<Rightarrow> \<forall>j. \<not> word_at u kw j)"
proof (induction "length u - q" arbitrary: p q rule: less_induct)
  case less
  have q: "q + length kw \<le> length u"
    using prefix_length_le [OF less.prems(3)] less.prems(1) by (cases "q \<le> length u") (auto simp: keyword_def)
  have kw: "kw \<noteq> []" using less.prems(1) by (simp add: keyword_def)
  have "0 < length kw" using kw by simp
  with q have "q - 1 < length u" by linarith
  then have at: "(u @ NUL # z) ! (q - 1) = u ! (q - 1)" by (simp add: nth_append)
  show ?case
  proof (cases "isspace (u ! (q - 1))")
    case True
    then show ?thesis using less.prems at by (subst keyword_skip.simps) (simp add: word_at_def)
  next
    case False
    let ?p = "q + length kw"
    have none: "\<forall>j<?p. \<not> word_at u kw j"
    proof (intro allI impI)
      fix j assume "j < ?p"
      then consider "j < q" | "j = q" | "q < j" "j < ?p" by linarith
      then show "\<not> word_at u kw j"
        using less.prems(5) False less.prems(4) word_at_gap [OF less.prems(1,3)] by cases (auto simp: word_at_def)
    qed
    have step: "keyword_skip (u @ NUL # z) kw p q =
      (case strstr_at (u @ NUL # z) ?p kw of None \<Rightarrow> (Some ?p, None) | Some q' \<Rightarrow> keyword_skip (u @ NUL # z) kw (Some ?p) q')"
      using False kw at by (subst keyword_skip.simps) (simp add: Let_def)
    show ?thesis
    proof (cases "strstr_at (u @ NUL # z) ?p kw")
      case None
      then have "\<not> word_at u kw j" for j
        using none strstr_at_None [OF less.prems(2) None, of j] by (cases "j < ?p") (auto simp: word_at_def)
      then show ?thesis using None step by simp
    next
      case (Some q')
      note s = strstr_at_Some [OF less.prems(2) Some q]
      have no: "\<forall>j<q'. \<not> word_at u kw j"
      proof (intro allI impI)
        fix j assume "j < q'"
        then show "\<not> word_at u kw j" using none s(4) [of j] by (cases "j < ?p") (auto simp: word_at_def)
      qed
      have "length u - q' < length u - q" using s(1,2) q kw by (cases kw) auto
      moreover have "0 < q'" using s(1) less.prems(4) by linarith
      ultimately show ?thesis using Some step less.hyps [OF _ less.prems(1,2) s(3) _ no, of "Some ?p"] by simp
    qed
  qed
qed

lemma keyword_find_spec:
  assumes "keyword kw" "cstr u"
  shows "case keyword_find (u @ NUL # z) kw p of
       (p', Some q) \<Rightarrow> word_at u kw q \<and> (\<forall>j<q. \<not> word_at u kw j)
     | (p', None) \<Rightarrow> (\<forall>j. \<not> word_at u kw j)"
proof (cases "strstr_at (u @ NUL # z) 0 kw")
  case None
  then show ?thesis using strstr_at_None [OF assms(2) None] by (simp add: keyword_find_def word_at_def)
next
  case (Some q)
  note s = strstr_at_Some [OF assms(2) Some le0]
  have no: "\<forall>j<q. \<not> word_at u kw j" using s(4) by (simp add: word_at_def)
  have "q + length kw \<le> length u" using prefix_length_le [OF s(3)] s(2) by simp
  moreover have "0 < length kw" using assms(1) by (simp add: keyword_def)
  ultimately have "q - 1 < length u" by linarith
  then have "(u @ NUL # z) ! (q - 1) = u ! (q - 1)" by (simp add: nth_append)
  then show ?thesis
    using Some s(3) no keyword_skip_spec [OF assms s(3) _ no, of z p]
    by (auto simp: keyword_find_def word_at_def split: if_splits)
qed

lemma keyword_find_absent:
  assumes "cstr u" "\<not> sublist kw u"
  shows "keyword_find (u @ NUL # z) kw p = (p, None)"
proof -
  have "strstr u kw = None" using assms(2) by (simp add: strstr_None)
  then show ?thesis by (simp add: keyword_find_def strstr_at_def Let_def c_string_NUL [OF assms(1)])
qed

section \<open>Values\<close>

lemma strchr_takeWhile: "strchr s c = Some t \<Longrightarrow> s = takeWhile (\<lambda>x. x \<noteq> c) s @ t \<and> t \<noteq> [] \<and> hd t = c"
  by (induction s) (auto split: if_splits)

lemma c_string_split: "\<exists>r. b = c_string b @ r"
  unfolding c_string_def by (metis takeWhile_dropWhile_id)

lemma cstr_c_string [simp]: "cstr (c_string b)"
  by (auto simp: cstr_def c_string_def dest: set_takeWhileD)

lemma drop_c_string: "j \<le> length (c_string b) \<Longrightarrow> c_string (drop j b) = drop j (c_string b)"
  unfolding c_string_def
proof (induction b arbitrary: j)
  case (Cons c b)
  then show ?case by (cases j) auto
qed simp

text \<open>Cutting the text in the buffer, and the text behind the comma.\<close>

lemma cut_at_string:
  assumes "c \<noteq> NUL"
  shows "c_string (drop p (cut_at b p c)) = takeWhile (\<lambda>x. x \<noteq> c) (c_string (drop p b))"
proof (cases "strchr (c_string (drop p b)) c")
  case None
  then have "takeWhile (\<lambda>x. x \<noteq> c) (c_string (drop p b)) = c_string (drop p b)"
    by (auto simp: takeWhile_eq_all_conv)
  then show ?thesis using None by (simp add: cut_at_def strchr_at_def Let_def del: strchr_None_iff takeWhile_eq_all_conv)
next
  case (Some t)
  let ?s = "c_string (drop p b)"
  let ?w = "takeWhile (\<lambda>x. x \<noteq> c) ?s"
  obtain r where r: "drop p b = ?s @ r" using c_string_split by blast
  have s: "?s = ?w @ t" "t \<noteq> []" using strchr_takeWhile [OF Some] by auto
  have n: "p + length ?s - length t = p + length ?w" using arg_cong [OF s(1), of length] by simp
  have "drop p (b[p + length ?w := NUL]) = (drop p b)[length ?w := NUL]" by (simp add: drop_update_swap)
  also have "\<dots> = (?w @ t @ r)[length ?w := NUL]" using r s(1) by (metis append.assoc)
  also have "\<dots> = ?w @ NUL # (tl t @ r)" using s(2) by (cases t) (simp_all add: list_update_append)
  finally have "drop p (cut_at b p c) = ?w @ NUL # (tl t @ r)"
    using Some n by (simp add: cut_at_def strchr_at_def Let_def)
  moreover have "cstr ?w" using cstr_c_string [of "drop p b"] by (auto simp: cstr_def dest: set_takeWhileD)
  ultimately show ?thesis by (simp add: c_string_NUL)
qed

fun skip_fields :: "nat \<Rightarrow> string \<Rightarrow> string option" where
  "skip_fields 0 s = Some s"
| "skip_fields (Suc k) s = (case strchr s (CHR '','') of None \<Rightarrow> None | Some t \<Rightarrow> skip_fields k (tl t))"

lemma skip_commas_fields:
  "map_option (\<lambda>p'. c_string (drop p' b)) (skip_commas b k p) = skip_fields k (c_string (drop p b))"
proof (induction b k p rule: skip_commas.induct)
  case (2 b k p)
  let ?s = "c_string (drop p b)"
  show ?case
  proof (cases "strchr ?s (CHR '','')")
    case None
    then show ?thesis by (simp add: strchr_at_def Let_def del: strchr_None_iff)
  next
    case (Some t)
    let ?w = "takeWhile (\<lambda>x. x \<noteq> CHR '','') ?s"
    have s: "?s = ?w @ t" "t \<noteq> []" using strchr_takeWhile [OF Some] by auto
    have n: "length ?s = length ?w + length t" using arg_cong [OF s(1), of length] by simp
    then have at: "strchr_at b p (CHR '','') = Some (p + length ?w)" using Some by (simp add: strchr_at_def Let_def)
    have "length ?w + 1 \<le> length ?s" using n s(2) by (cases t) auto
    then have "c_string (drop (length ?w + 1) (drop p b)) = drop (length ?w + 1) ?s" by (rule drop_c_string)
    also have "\<dots> = tl t" by (subst s(1)) (simp add: drop_Suc)
    finally have "c_string (drop (p + length ?w + 1) b) = tl t" by (simp add: drop_drop add.commute add.left_commute)
    then show ?thesis using 2 [OF at] at Some by simp
  qed
qed simp

text \<open>The value that the text behind a keyword stands for.\<close>

definition value_of :: "int \<Rightarrow> string \<Rightarrow> string option" where
  "value_of idx s =
     (let t = (if idx \<ge> 0 then takeWhile (\<lambda>x. x \<noteq> CHR '' '') s else s)
      in if idx > 0 then map_option (takeWhile (\<lambda>x. x \<noteq> CHR '','')) (skip_fields (nat (idx - 1)) t) else Some t)"

lemma keyword_value_spec:
  "(case keyword_value idx b p of (None, b') \<Rightarrow> None | (Some p', b') \<Rightarrow> Some (c_string (drop p' b'))) =
    value_of idx (c_string (drop p b))"
proof -
  define b1 where "b1 = (if idx \<ge> 0 then cut_at b p (CHR '' '') else b)"
  have s: "c_string (drop p b1) = (if idx \<ge> 0 then takeWhile (\<lambda>x. x \<noteq> CHR '' '') (c_string (drop p b)) else c_string (drop p b))"
    using cut_at_string [of "CHR '' ''" p b] by (auto simp: b1_def NUL_def)
  have comma: "c_string (drop p' (cut_at b1 p' (CHR '',''))) = takeWhile (\<lambda>x. x \<noteq> CHR '','') (c_string (drop p' b1))" for p'
    by (rule cut_at_string) (simp add: NUL_def)
  show ?thesis
    using skip_commas_fields [of b1 "nat (idx - 1)" p]
    by (cases "skip_commas b1 (nat (idx - 1)) p")
      (auto simp: keyword_value_def Let_def b1_def [symmetric] s value_of_def comma
        dest: arg_cong [of _ _ "map_option (takeWhile (\<lambda>x. x \<noteq> CHR '',''))"])
qed

section \<open>The search through a file\<close>

lemma file_text_Cons: "file_text (l # ls) = l @ LF # file_text ls"
  by (simp add: file_text_def)

lemma keyword_loop_hidden:
  assumes "file_line 1022 l" "shown ''#'' l = None"
  shows "\<exists>b. keyword_loop kw idx p buf (l @ LF # f) = keyword_loop kw idx p b f"
proof -
  obtain b where "get_line_loop 1022 ''#'' LINE_TAIL_STRING buf (l @ LF # f) = get_line_loop 1022 ''#'' LINE_TAIL_STRING b f"
    using get_line_hidden [OF assms] by blast
  then have "keyword_loop kw idx p buf (l @ LF # f) = keyword_loop kw idx p b f"
    by (subst (1 2) keyword_loop.simps) (simp add: KEYWORD_BUFFER_def)
  then show ?thesis by blast
qed

lemma keyword_loop_shown:
  assumes "file_line 1022 l" "shown ''#'' l = Some u"
  shows "\<exists>z. keyword_loop kw idx p buf (l @ LF # f) =
    (case keyword_find (u @ NUL # z) kw p of
       (p', None) \<Rightarrow> keyword_loop kw idx p' (u @ NUL # z) f
     | (p', Some q) \<Rightarrow> keyword_value idx (u @ NUL # z) (q + length kw))"
proof -
  obtain z where "get_line_loop 1022 ''#'' LINE_TAIL_STRING buf (l @ LF # f) = (True, u @ NUL # z, f)"
    using get_line_shown [OF assms] by blast
  then have "keyword_loop kw idx p buf (l @ LF # f) =
    (case keyword_find (u @ NUL # z) kw p of
       (p', None) \<Rightarrow> keyword_loop kw idx p' (u @ NUL # z) f
     | (p', Some q) \<Rightarrow> keyword_value idx (u @ NUL # z) (q + length kw))"
    by (subst keyword_loop.simps) (simp add: KEYWORD_BUFFER_def)
  then show ?thesis by blast
qed

text \<open>Words with one blank between them.\<close>

fun unwords :: "string list \<Rightarrow> string" where
  "unwords [] = []"
| "unwords [w] = w"
| "unwords (w # v # ws) = w @ CHR '' '' # unwords (v # ws)"

definition plain_word :: "string \<Rightarrow> bool" where
  "plain_word w \<longleftrightarrow> w \<noteq> [] \<and> cstr w \<and> (\<forall>c\<in>set w. \<not> isspace c)"

lemma unwords_Cons: "unwords (w # ws) = w @ (if ws = [] then [] else CHR '' '' # unwords ws)"
  by (cases ws) auto

lemma unwords_cstr: "list_all plain_word ws \<Longrightarrow> cstr (unwords ws)"
  by (induction ws rule: unwords.induct) (auto simp: plain_word_def NUL_def)

lemma unwords_no_LF: "list_all plain_word ws \<Longrightarrow> LF \<notin> set (unwords ws)"
  by (induction ws rule: unwords.induct) (auto simp: plain_word_def LF_def isspace_def)

lemma unwords_last: "list_all plain_word ws \<Longrightarrow> ws \<noteq> [] \<Longrightarrow> unwords ws \<noteq> [] \<and> \<not> isspace (last (unwords ws))"
proof (induction ws rule: unwords.induct)
  case (2 w)
  then show ?case by (auto simp: plain_word_def)
qed auto

lemma word_at_word:
  assumes "plain_word w" "keyword kw" "ws = [] \<longrightarrow> t = []" "ws \<noteq> [] \<longrightarrow> t = CHR '' '' # unwords ws"
  shows "word_at (w @ t) kw q \<longleftrightarrow>
    q = 0 \<and> prefix kw w \<or> (\<exists>q'. q = length w + 1 + q' \<and> ws \<noteq> [] \<and> word_at (unwords ws) kw q')"
proof -
  have kw: "prefix kw (w @ t) \<longleftrightarrow> prefix kw w"
  proof
    assume "prefix kw (w @ t)"
    then consider "prefix kw w" | us where "kw = w @ us" "prefix us t" by (auto simp: prefix_append)
    then show "prefix kw w"
    proof cases
      case (2 us)
      show ?thesis
      proof (cases us)
        case (Cons c us')
        then have "c = CHR '' ''" using 2(2) assms(3,4) by (cases "ws = []") auto
        moreover have "c \<in> set kw" using 2(1) Cons by simp
        ultimately show ?thesis using assms(2) by (auto simp: keyword_def isspace_def)
      qed (use 2 in simp)
    qed simp
  qed simp
  consider "q = 0" | "0 < q" "q \<le> length w" | "length w < q" by linarith
  then show ?thesis
  proof cases
    case 1
    then show ?thesis using kw by (simp add: word_at_def)
  next
    case 2
    then have "(w @ t) ! (q - 1) \<in> set w" by (auto simp: nth_append)
    then show ?thesis using 2 assms(1) by (auto simp: word_at_def plain_word_def)
  next
    case 3
    then obtain q' where q: "q = length w + 1 + q'" using less_iff_Suc_add by force
    show ?thesis
    proof (cases "ws = []")
      case True
      then show ?thesis using assms(2,3) q by (auto simp: word_at_def keyword_def)
    next
      case False
      then have "drop q (w @ t) = drop q' (unwords ws)" using assms(4) q by simp
      moreover have "(w @ t) ! (q - 1) = (if q' = 0 then CHR '' '' else unwords ws ! (q' - 1))"
        using assms(4) False q by (cases q') (auto simp: nth_append)
      ultimately show ?thesis using q False by (auto simp: word_at_def isspace_def)
    qed
  qed
qed

text \<open>The first word that starts with the keyword, and what follows the keyword in the line.\<close>

lemma word_at_unwords:
  assumes "list_all plain_word ws" "keyword kw" "word_at (unwords ws) kw q" "\<forall>j<q. \<not> word_at (unwords ws) kw j"
  shows "\<exists>w t. find (prefix kw) ws = Some w \<and> drop (q + length kw) (unwords ws) = drop (length kw) w @ t \<and>
    (t = [] \<or> hd t = CHR '' '')"
  using assms
proof (induction ws arbitrary: q)
  case Nil
  then show ?case by (auto simp: word_at_def keyword_def)
next
  case (Cons w ws)
  define t where "t = (if ws = [] then [] else CHR '' '' # unwords ws)"
  have u: "unwords (w # ws) = w @ t" by (simp add: unwords_Cons t_def)
  have at: "word_at (w @ t) kw j \<longleftrightarrow>
    j = 0 \<and> prefix kw w \<or> (\<exists>q'. j = length w + 1 + q' \<and> ws \<noteq> [] \<and> word_at (unwords ws) kw q')" for j
    using Cons.prems(1,2) by (intro word_at_word) (auto simp: t_def)
  show ?case
  proof (cases "prefix kw w")
    case True
    then have "q = 0" using Cons.prems(4) at [of 0] u by (metis gr0I)
    then show ?thesis using True prefix_length_le [OF True] u by (auto simp: t_def)
  next
    case False
    then obtain q' where q: "q = length w + 1 + q'" "ws \<noteq> []" "word_at (unwords ws) kw q'"
      using Cons.prems(3) at u by auto
    have no: "\<forall>j<q'. \<not> word_at (unwords ws) kw j"
    proof (intro allI impI notI)
      fix j assume "j < q'" "word_at (unwords ws) kw j"
      then show False using Cons.prems(4) at [of "length w + 1 + j"] u q(1,2) by auto
    qed
    have "drop (q + length kw) (unwords (w # ws)) = drop (q' + length kw) (unwords ws)" using u q by (simp add: t_def)
    then show ?thesis using Cons.IH [OF _ Cons.prems(2) q(3) no] Cons.prems(1) False by auto
  qed
qed

lemma no_word_at_unwords:
  assumes "list_all plain_word ws" "keyword kw" "\<forall>j. \<not> word_at (unwords ws) kw j"
  shows "find (prefix kw) ws = None"
  using assms
proof (induction ws)
  case (Cons w ws)
  define t where "t = (if ws = [] then [] else CHR '' '' # unwords ws)"
  have at: "word_at (w @ t) kw j \<longleftrightarrow>
    j = 0 \<and> prefix kw w \<or> (\<exists>q'. j = length w + 1 + q' \<and> ws \<noteq> [] \<and> word_at (unwords ws) kw q')" for j
    using Cons.prems(1,2) by (intro word_at_word) (auto simp: t_def)
  have no: "\<not> word_at (w @ t) kw j" for j using Cons.prems(3) by (simp add: unwords_Cons t_def)
  have "\<not> prefix kw w" using no [of 0] at [of 0] by simp
  moreover have "ws = [] \<or> (\<forall>j. \<not> word_at (unwords ws) kw j)" using no at by blast
  ultimately show ?case using Cons.IH Cons.prems(1,2) by auto
qed simp

lemma keyword_skip_stale:
  "keyword kw \<Longrightarrow> cstr u \<Longrightarrow> prefix kw (drop q u) \<Longrightarrow> 0 < q \<Longrightarrow>
    keyword_skip (u @ NUL # z) kw p q = (p', None) \<Longrightarrow>
    \<exists>i. p' = Some (i + length kw) \<and> prefix kw (drop i u)"
proof (induction "length u - q" arbitrary: p q rule: less_induct)
  case less
  have kw: "kw \<noteq> []" "0 < length kw" using less.prems(1) by (simp_all add: keyword_def)
  have q: "q + length kw \<le> length u"
    using prefix_length_le [OF less.prems(3)] kw by (cases "q \<le> length u") auto
  let ?p = "q + length kw"
  have step: "(case strstr_at (u @ NUL # z) ?p kw of None \<Rightarrow> (Some ?p, None)
      | Some q' \<Rightarrow> keyword_skip (u @ NUL # z) kw (Some ?p) q') = (p', None)"
    using less.prems(5) kw by (subst (asm) keyword_skip.simps) (simp add: Let_def split: if_splits)
  show ?case
  proof (cases "strstr_at (u @ NUL # z) ?p kw")
    case None
    then show ?thesis using step less.prems(3) by auto
  next
    case (Some q')
    note s = strstr_at_Some [OF less.prems(2) Some q]
    have "length u - q' < length u - q" "0 < q'" using s(1,2) q kw(2) by linarith+
    then show ?thesis using less.hyps [OF _ less.prems(1,2) s(3)] step Some by simp
  qed
qed

text \<open>A line of the file that does not mention the keyword, as a text or because it is not shown.\<close>

definition silent :: "string \<Rightarrow> string \<Rightarrow> bool" where
  "silent kw l \<longleftrightarrow> file_line 1022 l \<and> (shown ''#'' l = None \<or> \<not> sublist kw (rtrim l))"

lemma keyword_loop_silent:
  assumes "silent kw l"
  shows "\<exists>b. keyword_loop kw idx p buf (l @ LF # f) = keyword_loop kw idx p b f"
proof (cases "shown ''#'' l")
  case None
  then show ?thesis using keyword_loop_hidden assms by (auto simp: silent_def)
next
  case (Some u)
  then have u: "u = rtrim l" "file_line 1022 l" "\<not> sublist kw u"
    using assms by (auto simp: silent_def shown_def split: if_splits)
  obtain t where "l = u @ t" using rtrim_split [of l] u(1) by blast
  then have "cstr u" using u(2) by (auto simp: file_line_def)
  then show ?thesis using keyword_loop_shown [OF u(2) Some, of kw idx p buf f] keyword_find_absent [OF _ u(3)] by auto
qed

lemma keyword_loop_silents:
  "list_all (silent kw) ls \<Longrightarrow> \<exists>b. keyword_loop kw idx p buf (file_text ls @ f) = keyword_loop kw idx p b f"
proof (induction ls arbitrary: buf)
  case Nil
  then show ?case by (auto simp: file_text_def)
next
  case (Cons l ls)
  then obtain b where "keyword_loop kw idx p buf (l @ LF # file_text ls @ f) = keyword_loop kw idx p b (file_text ls @ f)"
    using keyword_loop_silent [of kw l idx p buf "file_text ls @ f"] by auto
  then show ?case using Cons.IH [of b] Cons.prems by (simp add: file_text_Cons)
qed

definition word_line :: "string list \<Rightarrow> bool" where
  "word_line ws \<longleftrightarrow> list_all plain_word ws \<and> ws \<noteq> [] \<and> hd (hd ws) \<noteq> CHR ''#'' \<and>
     2 \<le> length (unwords ws) \<and> length (unwords ws) \<le> 1022"

lemma word_line_shown:
  assumes "word_line ws"
  shows "file_line 1022 (unwords ws)" "shown ''#'' (unwords ws) = Some (unwords ws)" "cstr (unwords ws)"
proof -
  have ws: "list_all plain_word ws" "ws \<noteq> []" using assms by (simp_all add: word_line_def)
  show "cstr (unwords ws)" using ws(1) by (rule unwords_cstr)
  then show "file_line 1022 (unwords ws)" using assms unwords_no_LF [OF ws(1)] by (simp add: file_line_def word_line_def)
  have "last (unwords ws) \<notin> set LINE_TAIL_STRING"
    using unwords_last [OF ws] by (auto simp: LINE_TAIL_STRING_def isspace_def)
  then have "rtrim (unwords ws) = unwords ws" by (simp add: rtrim_id)
  moreover have "hd (unwords ws) \<noteq> CHR ''#''"
    using assms by (cases ws) (auto simp: word_line_def unwords_Cons plain_word_def)
  ultimately show "shown ''#'' (unwords ws) = Some (unwords ws)" using assms by (simp add: shown_def word_line_def)
qed

lemma value_of_word:
  assumes "0 \<le> idx" "\<forall>c\<in>set v. c \<noteq> CHR '' ''" "t = [] \<or> hd t = CHR '' ''"
  shows "value_of idx (v @ t) = value_of idx v"
proof -
  let ?P = "\<lambda>x. x \<noteq> CHR '' ''"
  have "takeWhile ?P (v @ t) = v @ takeWhile ?P t" using assms(2) by (intro takeWhile_append2) auto
  moreover have "takeWhile ?P t = []" using assms(3) by (cases t) auto
  moreover have "takeWhile ?P v = v" using assms(2) by (intro takeWhile_eq_all_conv [THEN iffD2])
  ultimately have "takeWhile ?P (v @ t) = takeWhile ?P v" by (simp only: append_Nil2)
  then show ?thesis using assms(1) by (simp only: value_of_def if_True)
qed

lemma keyword_loop_found:
  assumes "keyword kw" "word_line ws" "find (prefix kw) ws = Some w" "0 \<le> idx"
  shows "(case keyword_loop kw idx p buf (unwords ws @ LF # f) of (None, b) \<Rightarrow> None | (Some p, b) \<Rightarrow> Some (c_string (drop p b))) =
    value_of idx (drop (length kw) w)"
proof -
  let ?u = "unwords ws"
  note l = word_line_shown [OF assms(2)]
  have ws: "list_all plain_word ws" using assms(2) by (simp add: word_line_def)
  obtain z where z: "keyword_loop kw idx p buf (?u @ LF # f) =
    (case keyword_find (?u @ NUL # z) kw p of
       (p', None) \<Rightarrow> keyword_loop kw idx p' (?u @ NUL # z) f
     | (p', Some q) \<Rightarrow> keyword_value idx (?u @ NUL # z) (q + length kw))"
    using keyword_loop_shown [OF l(1,2)] by blast
  obtain p' q where q: "keyword_find (?u @ NUL # z) kw p = (p', Some q)" "word_at ?u kw q" "\<forall>j<q. \<not> word_at ?u kw j"
    using keyword_find_spec [OF assms(1) l(3), of z p] no_word_at_unwords [OF ws assms(1)] assms(3)
    by (auto split: prod.splits option.splits)
  obtain t where t: "drop (q + length kw) ?u = drop (length kw) w @ t" "t = [] \<or> hd t = CHR '' ''"
    using word_at_unwords [OF ws assms(1) q(2,3)] assms(3) by auto
  have "prefix kw (drop q ?u)" "0 < length kw" using q(2) assms(1) by (simp_all add: word_at_def keyword_def)
  then have "q + length kw \<le> length ?u" using prefix_length_le [of kw "drop q ?u"] by (cases "q \<le> length ?u") auto
  then have s: "c_string (drop (q + length kw) (?u @ NUL # z)) = drop (length kw) w @ t"
    using drop_c_string [of "q + length kw" "?u @ NUL # z"] t(1) l(3) by (simp add: c_string_NUL)
  have "w \<in> set ws" using assms(3) by (auto simp: find_Some_iff)
  then have "\<forall>c\<in>set (drop (length kw) w). c \<noteq> CHR '' ''"
    using ws by (auto simp: list_all_iff plain_word_def isspace_def dest: in_set_dropD)
  from value_of_word [OF assms(4) this t(2)] show ?thesis
    using z q(1) keyword_value_spec [of idx "?u @ NUL # z" "q + length kw"] s by simp
qed

section \<open>Properties\<close>

text \<open>C25: looking up a keyword in a file of words.  When the lines before do not mention the keyword (comments
  and blank lines may), the first word of the line that starts with the keyword gives the value: all
  that follows in the word for index 0, the field between the commas for a positive index, and nothing when there are too
  few fields; what stands in the other words, also the keyword in the middle of one, does not matter.\<close>

theorem keyword_lookup:
  assumes "keyword kw" "list_all (silent kw) pre" "word_line ws" "find (prefix kw) ws = Some w" "0 \<le> idx"
  shows "utils_file_get_keyword_by_index True (Some (file_text pre @ unwords ws @ LF # rest)) kw idx =
    value_of idx (drop (length kw) w)"
proof -
  obtain b where "keyword_loop kw idx None (replicate KEYWORD_BUFFER NUL) (file_text pre @ unwords ws @ LF # rest) =
    keyword_loop kw idx None b (unwords ws @ LF # rest)"
    using keyword_loop_silents [OF assms(2)] by blast
  then show ?thesis using keyword_loop_found [OF assms(1,3-5), of None b rest]
    by (simp add: utils_file_get_keyword_by_index_def split: option.splits prod.splits)
qed

theorem keyword_lookup_witness:
  "utils_file_get_keyword_by_index True
     (Some (''# boot_dev=hda1'' @ [LF] @ ''quiet my.boot_dev=x boot_dev=sda1,ext2 init=/init'' @ [LF])) ''boot_dev='' 2 = Some ''ext2''"
proof -
  have "utils_file_get_keyword_by_index True
     (Some (file_text [''# boot_dev=hda1''] @ unwords [''quiet'', ''my.boot_dev=x'', ''boot_dev=sda1,ext2'', ''init=/init''] @ LF # []))
     ''boot_dev='' 2 = value_of 2 (drop (length ''boot_dev='') ''boot_dev=sda1,ext2'')"
    by (rule keyword_lookup) (simp_all add: keyword_def isspace_def silent_def file_line_def shown_def word_line_def plain_word_def NUL_def LF_def)
  then show ?thesis by (simp add: file_text_def value_of_def)
qed

text \<open>C26: when the last line of the file (of 2 to 1022 characters, words with single blanks between them, not a comment) has the
  keyword only inside words, so that no word starts with it, and the lines before, of at most 1022 characters each, do not mention the keyword, the search does not fail:
  whatever the index, it returns the rest of that line behind an occurrence of the keyword, the following words included.  (The
  pointer left behind by the search is into the line buffer; lines that follow would change what it points to.)\<close>

theorem keyword_inside_word:
  assumes "keyword kw" "list_all (silent kw) pre" "word_line ws" "find (prefix kw) ws = None" "sublist kw (unwords ws)"
  shows "\<exists>a v. unwords ws = a @ kw @ v \<and>
    utils_file_get_keyword_by_index True (Some (file_text pre @ unwords ws @ [LF])) kw idx = Some v"
proof -
  let ?u = "unwords ws"
  note l = word_line_shown [OF assms(3)]
  have ws: "list_all plain_word ws" using assms(3) by (simp add: word_line_def)
  obtain b where b: "keyword_loop kw idx None (replicate KEYWORD_BUFFER NUL) (file_text pre @ ?u @ [LF]) =
    keyword_loop kw idx None b (?u @ LF # [])"
    using keyword_loop_silents [OF assms(2)] by blast
  obtain z where z: "keyword_loop kw idx None b (?u @ LF # []) =
    (case keyword_find (?u @ NUL # z) kw None of
       (p', None) \<Rightarrow> keyword_loop kw idx p' (?u @ NUL # z) []
     | (p', Some q) \<Rightarrow> keyword_value idx (?u @ NUL # z) (q + length kw))"
    using keyword_loop_shown [OF l(1,2)] by blast
  have no: "\<not> word_at ?u kw j" if "\<forall>i<j. \<not> word_at ?u kw i" for j
    using word_at_unwords [OF ws assms(1) _ that] assms(4) by auto
  obtain p' where p': "keyword_find (?u @ NUL # z) kw None = (p', None)"
    using keyword_find_spec [OF assms(1) l(3), of z None] no by (fastforce split: prod.splits option.splits)
  have "strstr_at (?u @ NUL # z) 0 kw \<noteq> None"
    using assms(5) strstr_None [of ?u kw] by (auto simp: strstr_at_def Let_def c_string_NUL [OF l(3)])
  then obtain q where q: "strstr_at (?u @ NUL # z) 0 kw = Some q" by auto
  note s = strstr_at_Some [OF l(3) q le0]
  have skip: "0 < q" "keyword_skip (?u @ NUL # z) kw None q = (p', None)"
    using p' q by (auto simp: keyword_find_def split: if_splits)
  obtain i v where i: "p' = Some (i + length kw)" "drop i ?u = kw @ v"
    using keyword_skip_stale [OF assms(1) l(3) s(3) skip] by (auto simp: prefix_def)
  have "?u = take i ?u @ kw @ v" using i(2) by (metis append_take_drop_id)
  moreover have "0 < length kw" using assms(1) by (simp add: keyword_def)
  then have "i + length kw \<le> length ?u" using arg_cong [OF i(2), of length] by (cases "i \<le> length ?u") auto
  then have "c_string (drop (i + length kw) (?u @ NUL # z)) = drop (i + length kw) ?u"
    using drop_c_string [of "i + length kw" "?u @ NUL # z"] l(3) by (simp add: c_string_NUL)
  moreover have "drop (i + length kw) ?u = v" using i(2) by (metis append_eq_conv_conj drop_drop add.commute)
  moreover have "keyword_loop kw idx p' (?u @ NUL # z) [] = (p', ?u @ NUL # z)"
    by (subst keyword_loop.simps) (simp add: get_line_end)
  ultimately show ?thesis using b z p' i(1) by (intro exI [of _ "take i ?u"] exI [of _ v]) (simp add: utils_file_get_keyword_by_index_def)
qed

theorem keyword_inside_word_witness:
  "\<exists>a v. ''nfsroot=10.0.0.1 quiet'' = a @ ''root='' @ v \<and>
     utils_file_get_keyword_by_index True (Some (''# boot'' @ [LF] @ ''nfsroot=10.0.0.1 quiet'' @ [LF])) ''root='' 2 = Some v"
proof -
  have "sublist ''root='' (unwords [''nfsroot=10.0.0.1'', ''quiet''])" by (simp add: sublist_Cons_right)
  then have "\<exists>a v. unwords [''nfsroot=10.0.0.1'', ''quiet''] = a @ ''root='' @ v \<and>
     utils_file_get_keyword_by_index True (Some (file_text [''# boot''] @ unwords [''nfsroot=10.0.0.1'', ''quiet''] @ [LF])) ''root='' 2 = Some v"
    by (intro keyword_inside_word)
      (simp_all add: keyword_def isspace_def silent_def file_line_def shown_def word_line_def plain_word_def NUL_def LF_def)
  then show ?thesis by (simp add: file_text_def)
qed

end
