(* ===== verification/Boot_Modules_Spec.thy ===== *)
theory Boot_Modules_Spec
  imports Boot_Modules Boot_Files_Spec Http_Roundtrip
begin

text \<open>
  Installing a module brings in everything it needs, each module after those it needs itself.  The kernel is
  described by what \<^verbatim>\<open>insmod\<close> does: a module whose dependencies are loaded gets loaded.
\<close>

section \<open>Commands\<close>

lemma drop_word_less: "q = dropWhile P p \<Longrightarrow> q \<noteq> [] \<Longrightarrow> length (dropWhile (\<lambda>c. \<not> P c) q) < length p"
proof -
  assume q: "q = dropWhile P p" "q \<noteq> []"
  then have "\<not> P (hd q)" using hd_dropWhile [of P p] by simp
  then have "length (dropWhile (\<lambda>c. \<not> P c) q) \<le> length (tl q)"
    using q(2) length_dropWhile_le [of "\<lambda>c. \<not> P c" "tl q"] by (cases q) auto
  also have "\<dots> < length q" using q(2) by simp
  also have "\<dots> \<le> length p" unfolding q(1) by (rule length_dropWhile_le)
  finally show ?thesis .
qed

text \<open>The arguments of a command line, without the bound on their number.\<close>

function tokens :: "string \<Rightarrow> string list" where
  "tokens p =
     (let q = dropWhile RC_BLANK p in
      if q = [] then []
      else takeWhile (\<lambda>c. \<not> RC_BLANK c) q # tokens (dropWhile (\<lambda>c. \<not> RC_BLANK c) q))"
  by pat_completeness auto
termination
  by (relation "measure length") (simp_all add: drop_word_less)

declare tokens.simps [simp del]

lemma tokens_Nil [simp]: "tokens [] = []"
  by (simp add: tokens.simps)

lemma tokens_blank [simp]: "RC_BLANK c \<Longrightarrow> tokens (c # p) = tokens p"
  by (subst (1 2) tokens.simps) simp

definition cmd_word :: "string \<Rightarrow> bool" where
  "cmd_word w \<longleftrightarrow> w \<noteq> [] \<and> (\<forall>c\<in>set w. \<not> RC_BLANK c)"

lemma tokens_word:
  assumes "cmd_word w" "p = [] \<or> RC_BLANK (hd p)"
  shows "tokens (w @ p) = w # tokens p"
proof -
  have drop: "dropWhile RC_BLANK (w @ p) = w @ p" using assms(1) by (cases w) (auto simp: cmd_word_def)
  have "takeWhile (\<lambda>c. \<not> RC_BLANK c) p = []" "dropWhile (\<lambda>c. \<not> RC_BLANK c) p = p"
    using assms(2) by (cases p; auto)+
  then have "takeWhile (\<lambda>c. \<not> RC_BLANK c) (w @ p) = w" "dropWhile (\<lambda>c. \<not> RC_BLANK c) (w @ p) = p"
    using assms(1) by (simp_all add: cmd_word_def)
  then show ?thesis using assms(1) drop by (subst tokens.simps) (simp add: cmd_word_def)
qed

lemma rc_args_tokens:
  "length argv + length (tokens p) < RC_MAX_ARGS - 1 \<Longrightarrow> rc_args_loop argv p = (argv @ tokens p, [])"
proof (induction p arbitrary: argv rule: tokens.induct)
  case (1 p)
  let ?q = "dropWhile RC_BLANK p"
  let ?w = "takeWhile (\<lambda>c. \<not> RC_BLANK c) ?q" and ?r = "dropWhile (\<lambda>c. \<not> RC_BLANK c) ?q"
  show ?case
  proof (cases "?q = []")
    case True
    then have "tokens p = []" by (subst tokens.simps) (simp add: Let_def)
    then show ?thesis using True 1(2) by (subst rc_args_loop.simps) (cases "p = []"; simp add: Let_def)
  next
    case False
    have t: "tokens p = ?w # tokens ?r" using False by (subst tokens.simps) (simp only: Let_def if_False)
    have "p \<noteq> []" using False by auto
    then have "rc_args_loop argv p = rc_args_loop (argv @ [?w]) ?r"
      using False 1(2) by (subst rc_args_loop.simps) (simp only: Let_def if_False if_True simp_thms, simp)
    then show ?thesis using 1(1) [OF refl False, of "argv @ [?w]"] 1(2) t by simp
  qed
qed

lemma utils_system_runs:
  assumes "length command < RC_COMMAND_LINE_SIZE" "tokens command \<noteq> []" "length (tokens command) < RC_MAX_ARGS - 1"
  shows "utils_system os command w = utils_execute os (tokens command) w"
  using rc_args_tokens [of "[]" command] assms
  by (cases "tokens command") (simp_all add: utils_system_def utils_parse_args_def RC_COMMAND_LINE_SIZE_def)

lemma utils_execute_state [simp]: "snd (utils_execute os argv w) = snd (os_run os argv w)"
  by (auto simp: utils_execute_def split: prod.splits exec_result.splits)

lemma insmod_runs:
  assumes "cmd_word kver" "cmd_word name" "length kver + length name \<le> 200"
  shows "snd (utils_system os (insmod_command kver name None) w) =
    snd (os_run os [CMD_INSMOD, ''/lib/modules/'' @ kver @ ''/'' @ name @ ''.ko''] w)"
proof -
  let ?path = "''/lib/modules/'' @ kver @ ''/'' @ name @ ''.ko''"
  have cmd: "insmod_command kver name None = CMD_INSMOD @ '' '' @ ?path @ '' ''"
    by (simp add: insmod_command_def)
  have "cmd_word CMD_INSMOD" "cmd_word ?path" using assms(1,2) by (auto simp: cmd_word_def CMD_INSMOD_def RC_BLANK_def)
  moreover from this(2) have "tokens (?path @ '' '') = [?path]" using tokens_word [of ?path "'' ''"] by (simp add: RC_BLANK_def)
  ultimately have "tokens (insmod_command kver name None) = [CMD_INSMOD, ?path]"
    unfolding cmd using tokens_word [of CMD_INSMOD "'' '' @ ?path @ '' ''"] by (simp add: RC_BLANK_def)
  moreover have "length (insmod_command kver name None) < RC_COMMAND_LINE_SIZE"
    using assms(3) by (simp add: cmd CMD_INSMOD_def RC_COMMAND_LINE_SIZE_def)
  ultimately show ?thesis
    using utils_system_runs [of "insmod_command kver name None" os w] by (simp add: RC_MAX_ARGS_def)
qed

section \<open>The list of modules\<close>

text \<open>A line of \<^verbatim>\<open>/proc/modules\<close>: the name as the kernel spells it, a blank, and the rest.\<close>

definition module_line :: "string \<times> string \<Rightarrow> string" where
  "module_line m = fst m @ CHR '' '' # snd m"

definition module_line_ok :: "string \<times> string \<Rightarrow> bool" where
  "module_line_ok m \<longleftrightarrow> plain_word (fst m) \<and> hd (fst m) \<noteq> CHR ''#'' \<and> snd m \<noteq> [] \<and> cstr (snd m) \<and> LF \<notin> set (snd m) \<and>
     last (snd m) \<notin> set LINE_TAIL_STRING \<and> length (module_line m) \<le> 126"

definition proc_modules :: "(string \<times> string) list \<Rightarrow> string" where
  "proc_modules ms = file_text (map module_line ms)"

lemma module_loop_listing:
  assumes "list_all module_line_ok ms" "CHR '' '' \<notin> set name"
  shows "module_loop name buf (proc_modules ms) \<longleftrightarrow> name \<in> fst ` set ms"
  using assms
proof (induction ms arbitrary: buf)
  case Nil
  then show ?case by (subst module_loop.simps) (simp add: proc_modules_def file_text_def get_line_end)
next
  case (Cons m ms)
  let ?l = "module_line m"
  have m: "module_line_ok m" using Cons.prems(1) by simp
  then have "file_line 126 ?l"
    by (auto simp: module_line_ok_def module_line_def file_line_def plain_word_def LF_def NUL_def isspace_def)
  moreover have "rtrim ?l = ?l" using m by (intro rtrim_id) (simp add: module_line_def module_line_ok_def)
  then have "shown ''#'' ?l = Some ?l" using m by (cases "fst m") (auto simp: shown_def module_line_def module_line_ok_def plain_word_def)
  ultimately obtain z where z: "get_line_loop 126 ''#'' LINE_TAIL_STRING buf (?l @ LF # proc_modules ms) =
      (True, ?l @ NUL # z, proc_modules ms)"
    using get_line_shown by blast
  have "c_string (?l @ NUL # z) = ?l"
    using m by (intro c_string_NUL) (auto simp: module_line_def module_line_ok_def plain_word_def NUL_def)
  then have "c_string (cut_at (?l @ NUL # z) 0 (CHR '' '')) = takeWhile (\<lambda>x. x \<noteq> CHR '' '') ?l"
    using cut_at_string [of "CHR '' ''" 0 "?l @ NUL # z"] by (simp add: NUL_def)
  also have "\<dots> = fst m"
    using m unfolding module_line_def by (subst takeWhile_append2) (auto simp: module_line_ok_def plain_word_def isspace_def)
  finally have "module_loop name buf (proc_modules (m # ms)) \<longleftrightarrow>
      name = fst m \<or> module_loop name (cut_at (?l @ NUL # z) 0 (CHR '' '')) (proc_modules ms)"
    using z by (subst module_loop.simps) (auto simp: proc_modules_def file_text_Cons Let_def)
  then show ?case using Cons by auto
qed

section \<open>What a module needs\<close>

definition mod_deps :: "string \<Rightarrow> string list" where
  "mod_deps n = concat (map comma_parts (dep_rows n))"

lemma mod_deps_less: "d \<in> set (mod_deps n) \<Longrightarrow> mod_rank d < mod_rank n"
  by (auto simp: mod_deps_def mod_rank_less)

function mod_needs :: "string \<Rightarrow> string list" where
  "mod_needs n = n # concat (map mod_needs (mod_deps n))"
  by pat_completeness auto
termination
  by (relation "measure mod_rank") (auto simp: mod_deps_less)

declare mod_needs.simps [simp del]

lemma mod_needs_self: "n \<in> set (mod_needs n)"
  by (subst mod_needs.simps) simp

text \<open>The kernel writes an underscore for a hyphen.\<close>

definition kernel_name :: "string \<Rightarrow> string" where
  "kernel_name n = map (\<lambda>c. if c = CHR ''-'' then CHR ''_'' else c) n"

text \<open>The spelling of the table, when the module is in it.\<close>

definition table_spelling :: "string \<Rightarrow> bool" where
  "table_spelling n \<longleftrightarrow> list_all (\<lambda>m. kernel_name (fst m) = kernel_name n \<longrightarrow> fst m = n) mod_depends"

lemma table_names:
  "list_all (\<lambda>(n, l). list_all (\<lambda>d. table_spelling d \<and> d \<noteq> [] \<and> hd d \<noteq> CHR ''#'' \<and> length d \<le> 100 \<and>
      list_all (\<lambda>c. \<not> isspace c \<and> c \<noteq> NUL) d)
    (comma_parts l)) mod_depends"
  by code_simp

definition mod_name :: "string \<Rightarrow> bool" where
  "mod_name n \<longleftrightarrow> plain_word n \<and> hd n \<noteq> CHR ''#'' \<and> table_spelling n \<and> length n \<le> 100"

lemma plain_cmd_word: "plain_word n \<Longrightarrow> cmd_word n"
  by (auto simp: plain_word_def cmd_word_def isspace_def RC_BLANK_def)

lemma mod_deps_names: "d \<in> set (mod_deps n) \<Longrightarrow> mod_name d"
  using table_names by (fastforce simp: mod_deps_def dep_rows_def list_all_iff mod_name_def plain_word_def cstr_def)

lemma mod_deps_spelling: "table_spelling n \<Longrightarrow> kernel_name m = kernel_name n \<Longrightarrow> mod_deps m \<noteq> [] \<Longrightarrow> m = n"
  by (fastforce simp: mod_deps_def dep_rows_def table_spelling_def list_all_iff filter_empty_conv)

text \<open>A set of loaded modules with all that they need.\<close>

definition closed_mods :: "string set \<Rightarrow> bool" where
  "closed_mods M \<longleftrightarrow> (\<forall>n. kernel_name n \<in> M \<longrightarrow> kernel_name ` set (mod_deps n) \<subseteq> M)"

lemma closed_needs: "closed_mods M \<Longrightarrow> kernel_name n \<in> M \<Longrightarrow> kernel_name ` set (mod_needs n) \<subseteq> M"
proof (induction n rule: mod_needs.induct)
  case (1 n)
  have "kernel_name ` set (mod_needs d) \<subseteq> M" if "d \<in> set (mod_deps n)" for d
    using 1 that by (auto simp: closed_mods_def)
  then show ?case using 1(3) by (subst mod_needs.simps) auto
qed

lemma closed_insert:
  assumes "closed_mods M" "table_spelling n" "kernel_name ` set (mod_deps n) \<subseteq> M"
  shows "closed_mods (insert (kernel_name n) M)"
  unfolding closed_mods_def
proof (intro allI impI)
  fix m assume m: "kernel_name m \<in> insert (kernel_name n) M"
  show "kernel_name ` set (mod_deps m) \<subseteq> insert (kernel_name n) M"
  proof (cases "kernel_name m = kernel_name n \<and> mod_deps m \<noteq> []")
    case True
    then have "m = n" using mod_deps_spelling assms(2) by blast
    then show ?thesis using assms(3) by auto
  next
    case False
    then show ?thesis using m assms(1) by (auto simp: closed_mods_def)
  qed
qed

section \<open>The kernel\<close>

lemma fgets_take_append:
  "LF \<notin> set a \<Longrightarrow> length a \<le> n \<Longrightarrow> fgets_take n (a @ r) = (let (l, r') = fgets_take (n - length a) r in (a @ l, r'))"
proof (induction a arbitrary: n)
  case Nil
  then show ?case by (simp split: prod.splits)
next
  case (Cons c a)
  then obtain k where "n = Suc k" by (cases n) auto
  then show ?case using Cons by (auto simp: LF_def split: prod.splits)
qed

lemma kernel_version_read:
  assumes "os_file os ''/proc/version'' w = Some (''Linux version '' @ kver @ CHR '' '' # v)" "plain_word kver"
    and "length kver \<le> 40" "os_mem os w"
  shows "utils_get_kernel_version os w = Some kver"
proof -
  let ?a = "''Linux version '' @ kver @ '' ''"
  have a: "LF \<notin> set ?a" "cstr ?a" "length ?a \<le> 63"
    using assms(2,3) by (auto simp: plain_word_def LF_def NUL_def isspace_def)
  obtain l r where "fgets_take 63 (?a @ v) = (?a @ l, r)"
    using fgets_take_append [OF a(1,3), of v] by (auto split: prod.splits)
  then have line: "fgets 64 (''Linux version '' @ kver @ CHR '' '' # v) = Some (?a @ l, r)" by (simp add: fgets_def)
  have "c_string (?a @ l) = ?a @ c_string l" by (rule c_string_head [OF a(2)])
  moreover have "strstr (?a @ c_string l) ''Linux version '' = Some (?a @ c_string l)" by simp
  moreover have "CHR '' '' \<notin> set kver" using assms(2) by (auto simp: plain_word_def isspace_def)
  then have "strchr (kver @ CHR '' '' # c_string l) (CHR '' '') = Some (CHR '' '' # c_string l)" by (rule strchr_append)
  ultimately show ?thesis using assms(1,4) line by (simp add: utils_get_kernel_version_def upto_def)
qed

text \<open>\<open>listing\<close> is what \<^verbatim>\<open>/proc/modules\<close> shows in a state, \<open>kver\<close> the release in \<^verbatim>\<open>/proc/version\<close>.\<close>

definition loaded :: "('w \<Rightarrow> (string \<times> string) list) \<Rightarrow> 'w \<Rightarrow> string set" where
  "loaded listing w = fst ` set (listing w)"

definition kernel_laws :: "'w os \<Rightarrow> ('w \<Rightarrow> (string \<times> string) list) \<Rightarrow> string \<Rightarrow> bool" where
  "kernel_laws os listing kver \<longleftrightarrow>
     (\<forall>w. os_mem os w) \<and>
     (\<forall>w. os_file os ''/proc/modules'' w = Some (proc_modules (listing w))) \<and>
     (\<forall>w. list_all (\<lambda>m. module_line_ok m \<and> kernel_name (fst m) = fst m) (listing w)) \<and>
     (\<forall>w. \<exists>v. os_file os ''/proc/version'' w = Some (''Linux version '' @ kver @ CHR '' '' # v)) \<and>
     plain_word kver \<and> length kver \<le> 40 \<and>
     (\<forall>w n. mod_name n \<longrightarrow> kernel_name ` set (mod_deps n) \<subseteq> loaded listing w \<longrightarrow>
        loaded listing (snd (os_run os [CMD_INSMOD, ''/lib/modules/'' @ kver @ ''/'' @ n @ ''.ko''] w)) =
        insert (kernel_name n) (loaded listing w))"

lemma module_installed_loaded:
  assumes "kernel_laws os listing kver" "mod_name n"
  shows "module_installed os n w \<longleftrightarrow> n \<in> loaded listing w"
proof -
  have "list_all module_line_ok (listing w)" using assms(1) by (auto simp: kernel_laws_def list_all_iff)
  moreover have "CHR '' '' \<notin> set n" using assms(2) by (auto simp: mod_name_def plain_word_def isspace_def)
  ultimately show ?thesis
    using assms(1) by (simp add: module_installed_def kernel_laws_def module_loop_listing loaded_def)
qed

text \<open>The recursive calls, once their effect is known.\<close>

definition adds :: "('w \<Rightarrow> (string \<times> string) list) \<Rightarrow> ('w \<Rightarrow> 'w) \<Rightarrow> string list \<Rightarrow> bool" where
  "adds listing f ns \<longleftrightarrow>
     (\<forall>w. closed_mods (loaded listing w) \<longrightarrow>
        loaded listing (f w) = loaded listing w \<union> kernel_name ` set ns \<and> closed_mods (loaded listing (f w)))"

lemma adds_comp:
  assumes "adds listing f a" "adds listing g b"
  shows "adds listing (g \<circ> f) (a @ b)"
  using assms unfolding adds_def comp_def set_append image_Un by (metis Un_assoc)

lemma adds_fold:
  "(\<And>d. d \<in> set ds \<Longrightarrow> adds listing (f d) (ns d)) \<Longrightarrow> adds listing (fold f ds) (concat (map ns ds))"
proof (induction ds)
  case Nil
  then show ?case by (simp add: adds_def)
next
  case (Cons d ds)
  have "adds listing (f d) (ns d)" "adds listing (fold f ds) (concat (map ns ds))" using Cons by simp_all
  from adds_comp [OF this] show ?case by (simp add: comp_def)
qed

lemma install_deps:
  assumes "kernel_laws os listing kver" "\<And>d. d \<in> set (mod_deps n) \<Longrightarrow>
    adds listing (\<lambda>w. snd (utils_install_kernel_module os (Some d) None w)) (mod_needs d)"
  shows "adds listing (fold (\<lambda>l w. if os_mem os w
      then fold (\<lambda>d w. snd (utils_install_kernel_module os (Some d) None w)) (comma_parts l) w else w) (dep_rows n))
    (concat (map mod_needs (mod_deps n)))"
proof -
  let ?f = "\<lambda>l. fold (\<lambda>d w. snd (utils_install_kernel_module os (Some d) None w)) (comma_parts l)"
  have "adds listing (?f l) (concat (map mod_needs (comma_parts l)))" if "l \<in> set (dep_rows n)" for l
    using that by (intro adds_fold assms(2)) (auto simp: mod_deps_def)
  then have "adds listing (fold ?f (dep_rows n)) (concat (map (\<lambda>l. concat (map mod_needs (comma_parts l))) (dep_rows n)))"
    by (rule adds_fold)
  moreover have "concat (map (\<lambda>l. concat (map mod_needs (comma_parts l))) ls) = concat (map mod_needs (concat (map comma_parts ls)))"
    for ls by (induction ls) auto
  ultimately show ?thesis using assms(1) by (simp add: kernel_laws_def mod_deps_def)
qed

lemma install_adds:
  "kernel_laws os listing kver \<Longrightarrow> mod_name n \<Longrightarrow> closed_mods (loaded listing w) \<Longrightarrow>
    fst (utils_install_kernel_module os (Some n) None w) = EXIT_SUCCESS \<and>
    loaded listing (snd (utils_install_kernel_module os (Some n) None w)) =
      loaded listing w \<union> kernel_name ` set (mod_needs n) \<and>
    closed_mods (loaded listing (snd (utils_install_kernel_module os (Some n) None w)))"
proof (induction "mod_rank n" arbitrary: n w rule: less_induct)
  case less
  let ?L = "loaded listing"
  note laws = less.prems(1)
  have self: "n \<in> ?L w \<Longrightarrow> kernel_name n = n"
    using laws by (auto simp: kernel_laws_def loaded_def list_all_iff)
  show ?case
  proof (cases "module_installed os n w")
    case True
    then have "kernel_name n \<in> ?L w" using self module_installed_loaded [OF laws less.prems(2)] by auto
    then show ?thesis
      using True closed_needs [OF less.prems(3)] less.prems(3) by (auto simp: utils_install_kernel_module.simps)
  next
    case False
    define w1 where "w1 = fold (\<lambda>l w. if os_mem os w
      then fold (\<lambda>d w. snd (utils_install_kernel_module os (Some d) None w)) (comma_parts l) w else w) (dep_rows n) w"
    have "adds listing (\<lambda>w. snd (utils_install_kernel_module os (Some d) None w)) (mod_needs d)"
      if "d \<in> set (mod_deps n)" for d
      using less.hyps [OF mod_deps_less [OF that] laws mod_deps_names [OF that]] unfolding adds_def by blast
    from install_deps [of os listing kver n, OF laws this] less.prems(3) have w1:
      "?L w1 = ?L w \<union> kernel_name ` set (concat (map mod_needs (mod_deps n)))" "closed_mods (?L w1)"
      unfolding adds_def w1_def by blast+
    have deps: "kernel_name ` set (mod_deps n) \<subseteq> ?L w1"
      unfolding w1(1) using mod_needs_self by auto
    obtain v where v: "os_file os ''/proc/version'' w1 = Some (''Linux version '' @ kver @ CHR '' '' # v)"
      using laws unfolding kernel_laws_def by blast
    have kver: "plain_word kver" "length kver \<le> 40" "os_mem os w1" using laws unfolding kernel_laws_def by blast+
    have run: "snd (utils_system os (insmod_command kver n None) w1) =
        snd (os_run os [CMD_INSMOD, ''/lib/modules/'' @ kver @ ''/'' @ n @ ''.ko''] w1)"
      using kver(1,2) less.prems(2) by (intro insmod_runs) (auto simp: mod_name_def plain_cmd_word)
    have "utils_install_kernel_module os (Some n) None w = (EXIT_SUCCESS, snd (utils_system os (insmod_command kver n None) w1))"
      using False kernel_version_read [OF v kver] kver(3)
      by (subst utils_install_kernel_module.simps) (simp add: Let_def w1_def [symmetric])
    moreover have "?L (snd (utils_system os (insmod_command kver n None) w1)) = insert (kernel_name n) (?L w1)"
      unfolding run using laws less.prems(2) deps by (simp add: kernel_laws_def)
    moreover have "closed_mods (insert (kernel_name n) (?L w1))"
      using w1(2) deps less.prems(2) by (intro closed_insert) (simp_all add: mod_name_def)
    moreover have "kernel_name ` set (mod_needs n) = insert (kernel_name n) (kernel_name ` set (concat (map mod_needs (mod_deps n))))"
      by (subst mod_needs.simps) simp
    ultimately show ?thesis using w1(1) by simp
  qed
qed

section \<open>Properties\<close>

text \<open>C24: installing a kernel module whose own dependencies the code finds in its table.  For a kernel that loads a
  module exactly when what it needs is loaded already (so that the order matters), starting from a set of
  loaded modules that is closed under the table, the call succeeds and afterwards exactly the module and
  all that it needs, directly or not, are loaded besides, and the set is closed again.\<close>

theorem module_install_complete:
  assumes "kernel_laws os listing kver" "mod_name n" "closed_mods (loaded listing w)"
  shows "fst (utils_install_kernel_module os (Some n) None w) = EXIT_SUCCESS \<and>
    loaded listing (snd (utils_install_kernel_module os (Some n) None w)) =
      loaded listing w \<union> kernel_name ` set (mod_needs n) \<and>
    closed_mods (loaded listing (snd (utils_install_kernel_module os (Some n) None w)))"
  using assms by (rule install_adds)

text \<open>A kernel for the witness: the state is the list of the loaded modules, an \<^verbatim>\<open>insmod\<close> puts the module in front when
  its dependencies are there.\<close>

definition sample_listing :: "string list \<Rightarrow> (string \<times> string) list" where
  "sample_listing w = map (\<lambda>n. (n, ''1'')) (filter (\<lambda>n. module_line_ok (n, ''1'') \<and> kernel_name n = n) w)"

definition sample_insmod :: "string list \<Rightarrow> string list \<Rightarrow> exec_result \<times> string list" where
  "sample_insmod argv w =
     (case argv of
        [cmd, path] \<Rightarrow>
          let n = take (length path - length ''/lib/modules/3.0/.ko'') (drop (length ''/lib/modules/3.0/'') path)
          in (Exited 0, if kernel_name ` set (mod_deps n) \<subseteq> fst ` set (sample_listing w) then kernel_name n # w else w)
      | _ \<Rightarrow> (Exited 1, w))"

definition sample_kernel :: "string list os" where
  "sample_kernel =
     \<lparr>os_file = (\<lambda>path w. if path = ''/proc/modules'' then Some (proc_modules (sample_listing w))
                      else Some (''Linux version '' @ ''3.0'' @ '' x'')),
      os_stat = (\<lambda>_ _. None), os_lstat = (\<lambda>_ _. None), os_readlink = (\<lambda>_ _. None), os_readdir = (\<lambda>_ _. None),
      os_run = sample_insmod, os_sleep = (\<lambda>w. w), os_mkdir = (\<lambda>_ w. (Made, w)), os_mknod = (\<lambda>_ _ _ _ w. w),
      os_write = (\<lambda>_ _ w. w), os_mem = (\<lambda>_. True),
      os_junk = [], os_ovf = of_nat\<rparr>"

lemma kernel_name_line:
  assumes "mod_name n"
  shows "module_line_ok (kernel_name n, ''1'')" "kernel_name (kernel_name n) = kernel_name n"
proof -
  have "kernel_name n \<noteq> []" "hd (kernel_name n) \<noteq> CHR ''#''"
    using assms by (cases n; auto simp: mod_name_def plain_word_def kernel_name_def)+
  moreover have "c = CHR ''_'' \<or> c \<in> set n" if "c \<in> set (kernel_name n)" for c
    using that by (auto simp: kernel_name_def split: if_splits)
  moreover have "length (kernel_name n) = length n" by (simp add: kernel_name_def)
  ultimately show "module_line_ok (kernel_name n, ''1'')"
    using assms by (fastforce simp: module_line_ok_def module_line_def mod_name_def plain_word_def cstr_def NUL_def isspace_def
        LF_def LINE_TAIL_STRING_def)
  show "kernel_name (kernel_name n) = kernel_name n" by (simp add: kernel_name_def comp_def cong: map_cong)
qed

lemma sample_kernel_laws: "kernel_laws sample_kernel sample_listing ''3.0''"
proof -
  have "loaded sample_listing (snd (sample_insmod [CMD_INSMOD, ''/lib/modules/'' @ ''3.0'' @ ''/'' @ n @ ''.ko''] w)) =
        insert (kernel_name n) (loaded sample_listing w)"
    if "mod_name n" "kernel_name ` set (mod_deps n) \<subseteq> loaded sample_listing w" for n w
    using that kernel_name_line [OF that(1)] by (simp add: sample_insmod_def loaded_def) (simp add: sample_listing_def)
  then show ?thesis
    by (auto simp: kernel_laws_def sample_kernel_def sample_listing_def list_all_iff plain_word_def NUL_def isspace_def)
qed

theorem module_install_complete_witness:
  "loaded sample_listing (snd (utils_install_kernel_module sample_kernel (Some ''usb-storage'') None [])) =
     {''usb_storage'', ''usbcore'', ''usb_common'', ''nls_base''}"
proof -
  have "mod_name ''usb-storage''" by code_simp
  moreover have "closed_mods (loaded sample_listing [])" by (simp add: closed_mods_def loaded_def sample_listing_def)
  ultimately have "loaded sample_listing (snd (utils_install_kernel_module sample_kernel (Some ''usb-storage'') None [])) =
      loaded sample_listing [] \<union> kernel_name ` set (mod_needs ''usb-storage'')"
    using module_install_complete [OF sample_kernel_laws] by blast
  moreover have "map kernel_name (mod_needs ''usb-storage'') = [''usb_storage'', ''usbcore'', ''usb_common'', ''nls_base'']" by code_simp
  then have "kernel_name ` set (mod_needs ''usb-storage'') = set [''usb_storage'', ''usbcore'', ''usb_common'', ''nls_base'']"
    unfolding set_map [symmetric] by (rule arg_cong)
  ultimately show ?thesis by (simp add: loaded_def sample_listing_def)
qed

end
