(* ===== verification/Boot_Mount_Spec.thy ===== *)
theory Boot_Mount_Spec
  imports Boot_Mount Boot_Modules_Spec
begin

text \<open>
  Mounting the boot partition, from the command line of the kernel to the command that is run, and the test
  whether a partition is mounted.
\<close>

section \<open>Commands of words\<close>

lemma tokens_unwords: "list_all cmd_word ws \<Longrightarrow> tokens (unwords ws) = ws"
proof (induction ws rule: unwords.induct)
  case (2 w)
  then show ?case using tokens_word [of w "[]"] by simp
next
  case (3 w v ws)
  then show ?case using tokens_word [of w "CHR '' '' # unwords (v # ws)"] by (simp add: RC_BLANK_def)
qed simp

lemma system_unwords:
  assumes "list_all cmd_word ws" "ws \<noteq> []" "length ws < 15" "length (unwords ws) < 128"
  shows "snd (utils_system os (snprintf 128 (unwords ws)) w) = snd (os_run os ws w)"
  using utils_system_runs [of "unwords ws" os w] tokens_unwords [OF assms(1)] assms(2-4)
  by (simp add: snprintf_def RC_COMMAND_LINE_SIZE_def RC_MAX_ARGS_def)

section \<open>Waiting\<close>

fun pop_rounds :: "'w os \<Rightarrow> nat \<Rightarrow> 'w \<Rightarrow> 'w option" where
  "pop_rounds os 0 w = Some w"
| "pop_rounds os (Suc k) w = do { (_, w1) \<leftarrow> utils_udev_pop_nodes os w; pop_rounds os k (os_sleep os w1) }"

lemma mount_loop_waits:
  assumes "pop_rounds os k w = Some wk" "\<And>j wj. j < k \<Longrightarrow> pop_rounds os j w = Some wj \<Longrightarrow> os_stat os dev wj = None"
  shows "mount_loop os dev path fs_type args finish (k + i) w = mount_loop os dev path fs_type args finish i wk"
  using assms
proof (induction k arbitrary: w)
  case (Suc k)
  obtain rc w1 where w1: "utils_udev_pop_nodes os w = Some (rc, w1)" "pop_rounds os k (os_sleep os w1) = Some wk"
    using Suc.prems(1) by (auto simp: bind_eq_Some_conv)
  have "os_stat os dev w = None" using Suc.prems(2) [of 0 w] by simp
  moreover have "os_stat os dev wj = None" if "j < k" "pop_rounds os j (os_sleep os w1) = Some wj" for j wj
    using Suc.prems(2) [of "Suc j" wj] that w1(1) by simp
  ultimately show ?case using w1 Suc.IH [OF w1(2)] by simp
qed simp

section \<open>The fields of a device entry\<close>

lemma device_fields:
  assumes "plain_word (dev @ CHR '','' # fs)" "CHR '','' \<notin> set dev" "CHR '','' \<notin> set fs"
  shows "value_of 1 (dev @ CHR '','' # fs) = Some dev" "value_of 2 (dev @ CHR '','' # fs) = Some fs"
proof -
  have "\<forall>c\<in>set (dev @ CHR '','' # fs). c \<noteq> CHR '' ''" using assms(1) by (auto simp: plain_word_def isspace_def)
  then have all: "takeWhile (\<lambda>x. x \<noteq> CHR '' '') (dev @ CHR '','' # fs) = dev @ CHR '','' # fs"
    by (intro takeWhile_eq_all_conv [THEN iffD2])
  have dev: "takeWhile (\<lambda>x. x \<noteq> CHR '','') (dev @ CHR '','' # fs) = dev"
    using assms(2) by (subst takeWhile_append2) auto
  have fs: "takeWhile (\<lambda>x. x \<noteq> CHR '','') fs = fs" using assms(3) by (intro takeWhile_eq_all_conv [THEN iffD2]) auto
  show "value_of 1 (dev @ CHR '','' # fs) = Some dev" by (simp add: value_of_def all dev)
  have "strchr (dev @ CHR '','' # fs) (CHR '','') = Some (CHR '','' # fs)" using assms(2) by (rule strchr_append)
  then show "value_of 2 (dev @ CHR '','' # fs) = Some fs" by (simp add: value_of_def all fs)
qed

text \<open>C23: mounting the boot partition read-only, from the text of the kernel's command line on.  The word
  \<^verbatim>\<open>boot_dev=dev,fs\<close> names the device and its file system (one that needs no module).  When the node of the device appears as a block
  device after fewer than ten rounds of making nodes and sleeping a second, the call runs exactly the mount command
  with these two, in the state of that moment, and succeeds.\<close>

theorem boot_partition_mounted:
  assumes "os_file os ''/proc/cmdline'' w = Some (unwords ws @ LF # rest)" "os_mem os w" "word_line ws"
    and "find (prefix ''boot_dev='') ws = Some (''boot_dev='' @ dev @ CHR '','' # fs)"
    and "CHR '','' \<notin> set dev" "CHR '','' \<notin> set fs" "dev \<noteq> []" "fs \<noteq> []" "length dev + length fs \<le> 50"
    and "fs \<notin> {''ntfs-3g'', ''vfat'', ''fat''}"
    and "k < 10" "pop_rounds os k w = Some wk" "os_stat os (''/dev/'' @ dev) wk = Some st" "st_kind st = Block_device"
    and "\<And>j wj. j < k \<Longrightarrow> pop_rounds os j w = Some wj \<Longrightarrow> os_stat os (''/dev/'' @ dev) wj = None"
  shows "utils_mount_boot_partition_readonly os w =
    Some (EXIT_SUCCESS, snd (os_run os [''/bin/mount'', ''-r'', ''-t'', fs, ''/dev/'' @ dev, ''/boot''] wk))"
proof -
  let ?word = "dev @ CHR '','' # fs" and ?kw = "''boot_dev=''"
  have "?kw @ ?word \<in> set ws" using assms(4) by (auto simp: find_Some_iff)
  then have "plain_word (?kw @ ?word)" using assms(3) by (auto simp: word_line_def list_all_iff)
  then have word: "plain_word ?word" by (simp add: plain_word_def)
  note val = device_fields [OF word assms(5,6)]
  have get: "utils_file_get_keyword_by_index True (os_file os PROC_CMDLINE w) ?kw idx = value_of idx ?word"
    if "0 \<le> idx" for idx
    using keyword_lookup [of ?kw "[]" ws "?kw @ ?word" idx rest] assms(1,3,4) that
    by (simp add: PROC_CMDLINE_def file_text_def keyword_def isspace_def NUL_def)
  have dev: "utils_get_boot_device_path os KERNEL_COMMAND_LINE_SIZE w = (int (length dev), Some dev)"
    using get [of 1] val(1) assms(2,9)
    by (simp add: utils_get_boot_device_path_def DEVICE_INFO_PATH_INDEX_def report_def snprintf_def KERNEL_COMMAND_LINE_SIZE_def)
  have fs: "utils_get_boot_device_fs_type os KERNEL_COMMAND_LINE_SIZE w = (int (length fs), Some fs)"
    using get [of 2] val(2) assms(2,9)
    by (simp add: utils_get_boot_device_fs_type_def DEVICE_INFO_FS_TYPE_INDEX_def report_def snprintf_def KERNEL_COMMAND_LINE_SIZE_def)
  let ?cmd = "[''/bin/mount'', ''-r'', ''-t'', fs, ''/dev/'' @ dev, ''/boot'']"
  have cmd: "list_all cmd_word ?cmd"
    using word assms(7,8) by (auto simp: cmd_word_def plain_word_def isspace_def RC_BLANK_def)
  have run: "utils_mount_partition os (Some (''/dev/'' @ dev)) (Some ''/boot'') (Some fs) (Some ''-r'') wk =
      (EXIT_SUCCESS, snd (os_run os ?cmd wk))"
    using system_unwords [OF cmd, of os wk] assms(9,10)
    by (simp add: utils_mount_partition_def install_fs_modules_def Let_def CMD_MOUNT_def)
  have "utils_mount_boot_partition_readonly os w =
      mount_loop os (''/dev/'' @ dev) ''/boot'' (Some fs) (Some ''-r'') (\<lambda>w. (EXIT_SUCCESS, w)) PARTITION_MOUNT_TIMEOUT w"
    using dev fs assms(7-10)
    by (simp add: utils_mount_boot_partition_readonly_def fs_options_def snprintf_def Let_def)
  also have "PARTITION_MOUNT_TIMEOUT = k + Suc (9 - k)" using assms(11) by (simp add: PARTITION_MOUNT_TIMEOUT_def)
  also have "mount_loop os (''/dev/'' @ dev) ''/boot'' (Some fs) (Some ''-r'') (\<lambda>w. (EXIT_SUCCESS, w)) (k + Suc (9 - k)) w =
      mount_loop os (''/dev/'' @ dev) ''/boot'' (Some fs) (Some ''-r'') (\<lambda>w. (EXIT_SUCCESS, w)) (Suc (9 - k)) wk"
    by (rule mount_loop_waits [OF assms(12)]) (rule assms(15))
  also have "\<dots> = Some (EXIT_SUCCESS, snd (os_run os ?cmd wk))" using assms(13,14) run by simp
  finally show ?thesis .
qed

text \<open>A system for the witness: the node appears when the devices have been walked through once; the state holds the
  seconds slept and the commands run.\<close>

definition sample_boot :: "(nat \<times> string list list) os" where
  "sample_boot =
     \<lparr>os_file = (\<lambda>path w. if path = ''/proc/cmdline'' then Some (''quiet boot_dev=sda1,ext2'' @ [LF]) else None),
      os_stat = (\<lambda>path w. if path = ''/dev/sda1'' \<and> 0 < fst w
         then Some \<lparr>st_kind = Block_device, st_rusr = True, st_wusr = True\<rparr> else None),
      os_lstat = (\<lambda>_ _. None), os_readlink = (\<lambda>_ _. None), os_readdir = (\<lambda>_ _. None),
      os_run = (\<lambda>argv w. (Exited 0, (fst w, snd w @ [argv]))), os_sleep = (\<lambda>w. (fst w + 1, snd w)),
      os_mkdir = (\<lambda>_ w. (Made, w)), os_mknod = (\<lambda>_ _ _ _ w. w), os_write = (\<lambda>_ _ w. w), os_mem = (\<lambda>_. True),
      os_junk = [], os_ovf = of_nat\<rparr>"

lemma sample_pop: "utils_udev_pop_nodes sample_boot w = Some (EXIT_SUCCESS, w)"
  by (simp add: utils_udev_pop_nodes_def udev_trigger_pop_def scan_subsystem_def scan_class_def scan_block_def sample_boot_def)

theorem boot_partition_mounted_witness:
  "utils_mount_boot_partition_readonly sample_boot (0, []) =
     Some (EXIT_SUCCESS, (1, [[''/bin/mount'', ''-r'', ''-t'', ''ext2'', ''/dev/sda1'', ''/boot'']]))"
proof -
  have "utils_mount_boot_partition_readonly sample_boot (0, []) =
    Some (EXIT_SUCCESS, snd (os_run sample_boot [''/bin/mount'', ''-r'', ''-t'', ''ext2'', ''/dev/'' @ ''sda1'', ''/boot''] (1, [])))"
  proof (rule boot_partition_mounted [where ws = "[''quiet'', ''boot_dev=sda1,ext2'']" and k = 1 and rest = "[]"
      and st = "\<lparr>st_kind = Block_device, st_rusr = True, st_wusr = True\<rparr>"])
    show "pop_rounds sample_boot 1 (0, []) = Some (1, [])" by (simp add: sample_pop eval_nat_numeral) (simp add: sample_boot_def)
  qed (auto simp: sample_boot_def word_line_def plain_word_def isspace_def NUL_def)
  then show ?thesis by (simp add: sample_boot_def)
qed

end
