(* ===== verification/Boot_Udev_Spec.thy ===== *)
theory Boot_Udev_Spec
  imports Boot_Udev
begin

text \<open>The links under \<^verbatim>\<open>/sys\<close> are resolved the way the file system does it.\<close>

text \<open>Following a relative path from a directory.\<close>

fun follow :: "string list \<Rightarrow> string list \<Rightarrow> string list" where
  "follow dir [] = dir"
| "follow dir (c # cs) = follow (if c = ''..'' then butlast dir else dir @ [c]) cs"

lemma follow_names: "list_all file_name cs \<Longrightarrow> follow dir cs = dir @ cs"
  by (induction cs arbitrary: dir) (auto simp: file_name_def)

lemma follow_back: "follow dir (replicate k ''..'' @ cs) = follow (take (length dir - k) dir) cs"
  by (induction k arbitrary: dir) (auto simp: butlast_conv_take)

lemma last_slash_path:
  assumes "CHR ''/'' \<notin> set c"
  shows "last_slash (d @ CHR ''/'' # c) = Some (d, CHR ''/'' # c)"
proof -
  have "takeWhile (\<lambda>x. x \<noteq> CHR ''/'') (rev c @ CHR ''/'' # rev d) = rev c"
    using assms by (subst takeWhile_append2) auto
  then show ?thesis by (simp add: last_slash_def)
qed

lemma go_back_path:
  "list_all file_name cs \<Longrightarrow> k \<le> length cs \<Longrightarrow> go_back k (path_text cs) = Some (path_text (take (length cs - k) cs))"
proof (induction k arbitrary: cs)
  case (Suc k)
  then obtain ds c where cs: "cs = ds @ [c]" by (cases cs rule: rev_cases) auto
  then have "last_slash (path_text cs) = Some (path_text ds, CHR ''/'' # c)"
    using Suc.prems(1) last_slash_path [of c "path_text ds"] by (simp add: path_text_def file_name_def)
  then show ?case using Suc.IH [of ds] Suc.prems cs by simp
qed simp

lemma count_back_path:
  "file_name (hd ts) \<Longrightarrow> ts \<noteq> [] \<Longrightarrow> count_back (concat (replicate k ''../'') @ tl (path_text ts)) = k"
proof (induction k)
  case 0
  then obtain c r where ts: "ts = c # r" "c \<noteq> []" "CHR ''/'' \<notin> set c" "c \<noteq> ''..''" by (cases ts) (auto simp: file_name_def)
  have "\<not> prefix ''../'' (c @ path_text r)"
  proof
    assume "prefix ''../'' (c @ path_text r)"
    then consider "prefix ''../'' c" | us where "''../'' = c @ us" "prefix us (path_text r)" by (auto simp: prefix_append)
    then show False
    proof cases
      case 1
      then show ?thesis using ts(3) by (auto simp: prefix_def)
    next
      case (2 us)
      then have "c = [CHR ''.''] \<or> c = ''..'' \<or> c = ''../''" using ts(2) by (auto simp: Cons_eq_append_conv)
      then have "c = [CHR ''.'']" using ts(3,4) by auto
      then have "us = ''./''" using 2(1) by simp
      then show ?thesis using 2(2) by (cases r) (auto simp: path_text_def)
    qed
  qed
  then have "\<not> (\<exists>s. c @ path_text r = ''../'' @ s)" by (auto simp: prefix_def)
  moreover have "tl (path_text ts) = c @ path_text r" using ts(1) by (simp add: path_text_def)
  moreover have "count_back s = 0" if "\<not> (\<exists>r. s = ''../'' @ r)" for s
    using that by (cases s rule: count_back.cases) auto
  ultimately show ?case by simp
qed simp

text \<open>C27: a link in \<^verbatim>\<open>/sys\<close> with a relative target, which goes up some directories and then down by names.  When
  the paths fit the buffers, the resolved device path is what following the target from the link's own directory gives.\<close>

theorem sysfs_link_resolved:
  assumes "list_all file_name cs" "list_all file_name ts" "ts \<noteq> []" "k < length cs"
    and "length (path_text cs) < 508" "length (path_text ts) + 3 * k < 512" "length (path_text cs) + length (path_text ts) < 512"
    and "os_readlink os (''/sys'' @ path_text cs) w = Some (concat (replicate k ''../'') @ tl (path_text ts))"
  shows "sysfs_resolve_link os (path_text cs) w = Some (0, path_text (follow (butlast cs) (replicate k ''..'' @ ts)))"
proof -
  let ?t = "concat (replicate k ''../'') @ tl (path_text ts)" and ?d = "path_text (take (length cs - Suc k) cs)"
  obtain c r where ts: "ts = c # r" "file_name c" using assms(2,3) by (cases ts) auto
  have cb: "count_back ?t = k" using count_back_path [of ts k] ts by simp
  have path: "path_text ts = CHR ''/'' # tl (path_text ts)" using ts(1) by (simp add: path_text_def)
  have len: "length (concat (replicate k ''../'')) = 3 * k" by (induction k) auto
  then have "length ?t < UDEV_PATH_MAX" "?t \<noteq> []" "drop (k * 3) ?t = tl (path_text ts)"
    using assms(6) ts by (auto simp: UDEV_PATH_MAX_def path_text_def file_name_def)
  moreover have "length ?d \<le> length (path_text cs)"
    using append_take_drop_id [of "length cs - Suc k" cs] by (metis concat_append length_append le_add1 map_append path_text_def)
  then have "snprintf (UDEV_PATH_MAX - length ?d) (CHR ''/'' # tl (path_text ts)) = path_text ts"
    using assms(7) path by (simp add: snprintf_def UDEV_PATH_MAX_def)
  moreover have "snprintf UDEV_PATH_MAX (SYS_BASE @ path_text cs) = ''/sys'' @ path_text cs"
    using assms(5) by (simp add: snprintf_def UDEV_PATH_MAX_def SYS_BASE_def)
  ultimately have "sysfs_resolve_link os (path_text cs) w = Some (0, ?d @ path_text ts)"
    using assms(8) cb go_back_path [OF assms(1), of "Suc k"] assms(4)
    by (simp add: sysfs_resolve_link_def Let_def)
  moreover have "follow (butlast cs) (replicate k ''..'' @ ts) = take (length cs - Suc k) cs @ ts"
    using assms(4) by (simp add: follow_back follow_names [OF assms(2)] butlast_conv_take min_def)
  ultimately show ?thesis by (simp add: path_text_def)
qed

definition sample_sys :: "unit os" where
  "sample_sys =
     \<lparr>os_file = (\<lambda>_ _. None), os_stat = (\<lambda>_ _. None), os_lstat = (\<lambda>_ _. None),
      os_readlink = (\<lambda>path _. if path = ''/sys/class/net/eth0'' then Some ''../../devices/virtual/net/eth0'' else None),
      os_readdir = (\<lambda>_ _. None), os_run = (\<lambda>_ w. (Exited 0, w)), os_sleep = (\<lambda>w. w), os_mkdir = (\<lambda>_ w. (Made, w)),
      os_mknod = (\<lambda>_ _ _ _ w. w), os_write = (\<lambda>_ _ w. w), os_mem = (\<lambda>_. True), os_junk = [], os_ovf = of_nat\<rparr>"

theorem sysfs_link_resolved_witness:
  "sysfs_resolve_link sample_sys ''/class/net/eth0'' () = Some (0, ''/devices/virtual/net/eth0'')"
proof -
  let ?cs = "[''class'', ''net'', ''eth0'']" and ?ts = "[''devices'', ''virtual'', ''net'', ''eth0'']"
  have "sysfs_resolve_link sample_sys (path_text ?cs) () = Some (0, path_text (follow (butlast ?cs) (replicate 2 ''..'' @ ?ts)))"
    by (rule sysfs_link_resolved)
      (simp_all add: file_name_def path_text_def sample_sys_def eval_nat_numeral)
  then show ?thesis by (simp add: path_text_def eval_nat_numeral)
qed

end
