(* ===== verification/Util_Env.thy ===== *)
theory Util_Env
  imports Boot_Files
begin

text \<open>
  The helpers of \<^verbatim>\<open>libezcfg/src/util\<close> that touch the system: lines of a file (\<^verbatim>\<open>util_file_get_line.c\<close>), directories
  (\<^verbatim>\<open>util_mkdir.c\<close>), commands (\<^verbatim>\<open>util_execute.c\<close>) and the address of an interface (\<^verbatim>\<open>util_if_ipaddr.c\<close>).
\<close>

section \<open>Lines and directories\<close>

definition ezcfg_util_file_get_line :: "nat \<Rightarrow> string \<Rightarrow> string \<Rightarrow> string \<Rightarrow> string \<Rightarrow> (bool \<times> string \<times> string) option" where
  "ezcfg_util_file_get_line bufsz comment rm buf f =
     (if bufsz < 1 then Some (False, buf, f)
      else if bufsz = 1 then None
      else Some (get_line_loop (bufsz - 2) comment rm buf f))"

definition UTIL_PATH_SIZE :: nat where "UTIL_PATH_SIZE = 1024"

definition ezcfg_util_mkdir :: "'w os \<Rightarrow> string option \<Rightarrow> bool \<Rightarrow> 'w \<Rightarrow> int \<times> 'w" where
  "ezcfg_util_mkdir os path is_dir w =
     (case path of
        None \<Rightarrow> (-1, w)
      | Some p \<Rightarrow>
          if length p > UTIL_PATH_SIZE - 1 then (-1, w)
          else
            (case mkdir_loop os [] p w of
               (False, w') \<Rightarrow> (-1, w')
             | (True, w') \<Rightarrow>
                 if is_dir then
                   (case os_mkdir os p w' of
                      (Mkdir_failed, w'') \<Rightarrow> (-1, w'')
                    | (_, w'') \<Rightarrow> (0, w''))
                 else (0, w')))"

section \<open>Commands\<close>

datatype out_mode = Out_plain | Out_append | Out_truncate

definition out_target :: "string \<Rightarrow> out_mode \<times> string" where
  "out_target p =
     (if strncmp p ''>>'' 2 = 0 then (Out_append, drop 2 p)
      else if strncmp p ''>'' 1 = 0 then (Out_truncate, drop 1 p)
      else (Out_plain, p))"

text \<open>What the child does before and when it becomes the program: the files it puts over its standard input and
  output (the console otherwise), and the alarm.\<close>

record child_setup =
  ch_argv :: "string list"
  ch_in :: "string option"
  ch_out :: "(out_mode \<times> string) option"
  ch_timeout :: int

text \<open>\<open>fork\<close> gives the error number or the process of a child, \<open>waitpid\<close> waits for it.  The result with what is
  stored behind \<open>ppid\<close>.\<close>

definition ezcfg_util_execute ::
    "(child_setup \<Rightarrow> 'w \<Rightarrow> (int + int) \<times> 'w) \<Rightarrow> (int \<Rightarrow> 'w \<Rightarrow> exec_result \<times> 'w) \<Rightarrow>
     string list \<Rightarrow> string option \<Rightarrow> string option \<Rightarrow> int \<Rightarrow> bool \<Rightarrow> 'w \<Rightarrow> (int \<times> int option) \<times> 'w" where
  "ezcfg_util_execute fork waitpid argv in_path out_path timeout has_ppid w =
     (case fork \<lparr>ch_argv = argv, ch_in = in_path, ch_out = map_option out_target out_path, ch_timeout = timeout\<rparr> w of
        (Inl errno, w') \<Rightarrow> ((errno, None), w')
      | (Inr pid, w') \<Rightarrow>
          if has_ppid then ((0, Some pid), w')
          else
            (case waitpid pid w' of
               (Fork_failed errno, w'') \<Rightarrow> ((errno, None), w'')
             | (Wait_failed errno, w'') \<Rightarrow> ((errno, None), w'')
             | (Exited status, w'') \<Rightarrow> ((status, None), w'')
             | (Signalled status, w'') \<Rightarrow> ((status, None), w'')))"

section \<open>The address of an interface\<close>

text \<open>\<open>ifs\<close> is what the kernel reports (of which 16 entries fit), \<open>ntop\<close> is \<^verbatim>\<open>inet_ntop\<close>.  The result, the text
  of the address, and whether the socket was closed.\<close>

fun if_loop :: "('a \<Rightarrow> string option) \<Rightarrow> string \<Rightarrow> (string \<times> 'a) list \<Rightarrow> bool \<times> string option" where
  "if_loop ntop ifname [] = (False, None)"
| "if_loop ntop ifname ((name, addr) # ifs) =
     (if strcmp ifname name = 0 then (case ntop addr of None \<Rightarrow> (False, None) | Some ip \<Rightarrow> (True, Some ip))
      else if_loop ntop ifname ifs)"

definition ezcfg_util_if_get_ipaddr ::
    "int \<Rightarrow> (string \<times> 'a) list option \<Rightarrow> ('a \<Rightarrow> string option) \<Rightarrow> string \<Rightarrow> (bool \<times> string option) \<times> bool" where
  "ezcfg_util_if_get_ipaddr sock ifs ntop ifname =
     (if sock < 0 then ((False, None), False)
      else
        (case ifs of
           None \<Rightarrow> ((False, None), False)
         | Some l \<Rightarrow> (if_loop ntop ifname (take 16 l), True)))"

end
