(* ===== verification/Spec2Isabelle.thy ===== *)
theory Spec2Isabelle
  imports Ez_Common_Spec Util_Checksum Util_Base64 Util_Conf_Spec Http_Clients Json_Http
    Util_Sha1 Process_Spec Socket_Create_Spec Socket_Http_Spec Aes_Cipher Uboot_Env_Spec
    Agent_Env Boot_Mount_Spec Boot_Udev_Spec Util_Env
begin

text \<open>
  The repository holds the additions of a board (hi3520d) to a boot loader and a small Linux system.
  Its own core is \<^verbatim>\<open>ezcfg\<close>, a library of C that keeps the settings of a device and serves them to the
  programs on it; the boot loader part is one file with the cipher AES.  Below, file names are relative to
  \<^verbatim>\<open>src/osdrv/ezcfg/ezcfg-0.1/libezcfg\<close> unless they say otherwise; \<^verbatim>\<open>lib/Makefile.am\<close> lists what is compiled,
  and the development follows that list (nothing under \<^verbatim>\<open>src/bak\<close> is compiled).

  A \<^emph>\<open>context\<close> (\<^verbatim>\<open>common/ezcfg.c\<close>) owns two stores of settings.  Its creation parses a JSON text
  (\<^verbatim>\<open>common/json.c\<close>, on a tree and a stack), puts the pairs into the \<^emph>\<open>meta store\<close>
  (\<^verbatim>\<open>common/meta_nvram.c\<close>, a byte buffer of \<^verbatim>\<open>name=value\<close> entries, checked by CRC-32), and makes the empty
  \<^emph>\<open>settings table\<close> (\<^verbatim>\<open>common/nvram.c\<close>, an array of nodes behind a mutex).  A lookup asks the table first,
  then the meta store.  Everything else holds a counted reference to the context: lists, threads,
  processes, sockets.  Clients talk HTTP (\<^verbatim>\<open>basic/http/http.c\<close>) with a JSON body
  (\<^verbatim>\<open>composite/json_http/json_http.c\<close>) over sockets (\<^verbatim>\<open>basic/socket\<close>), log in with records of
  \<^verbatim>\<open>basic/auth/auth.c\<close>, and name their settings in lists of pairs (\<^verbatim>\<open>basic/nv_pair\<close>,
  \<^verbatim>\<open>basic/linked_list\<close>, \<^verbatim>\<open>basic/nv_linked_list\<close>).  \<^verbatim>\<open>util\<close> holds independent helpers.
\<close>

section \<open>How the code is read\<close>

text \<open>
  \<^item> A function of C becomes a definition of the same name.  A struct is a record; a struct that is
    reached through pointers lies in a heap (\<^verbatim>\<open>heap\<close> of the prelude: a map from addresses, the next free
    address, and a predicate that says which allocations fail), and a pointer is \<^typ>\<open>nat option\<close>.
  \<^item> The outermost \<^const>\<open>None\<close> of a result is a fault (a null or dangling pointer followed, a buffer left,
    memory freed twice) or a loop that does not end; a claim that the code returns is a claim that the
    result is \<^const>\<open>Some\<close>.  Loops that may run for ever are \<^verbatim>\<open>partial_function (option)\<close>, the others \<^verbatim>\<open>fun\<close> or
    \<^verbatim>\<open>function\<close> with a termination proof.  The only fuel is the nesting bound of \<^verbatim>\<open>ezcfg_process_del\<close>, whose
    result says apart from each other that the call returns, never does (it waits for a mutex that is not released), faults,
    or ran out of the bound; its property shows that in the states that can be reached a bound of one call is
    enough to tell.
  \<^item> Strings are lists of characters without the final NUL; a buffer whose bytes matter (the meta store,
    HTTP and socket buffers) is the list of its bytes with NULs.  Strings that are only owned and
    released with their object are kept as values (\<^verbatim>\<open>strdup_val\<close>); where releasing them twice is the point
    (the settings table) they have a heap of their own.  Data a list releases goes to a log (\<^verbatim>\<open>dlog\<close>).
  \<^item> Integers are \<^typ>\<open>int\<close> where the code stays in range, and words where it wraps: checksums, SHA-1, AES,
    the sizes of the settings table, the 16 bit version numbers of HTTP.  \<^verbatim>\<open>snprintf\<close> converts a negative size
    to a 32 bit unsigned number, \<^verbatim>\<open>strtol\<close> has a 32 bit \<^verbatim>\<open>long\<close>.
  \<^item> \<^verbatim>\<open>ASSERT\<close> and the debug output are compiled out.

  What lies outside the program is an argument: the outcomes of the mutex calls (\<^verbatim>\<open>mutex_call\<close>;
  \<^verbatim>\<open>posix_mutex_call\<close> says that no result is negative, as POSIX has it), of allocations, of \<^verbatim>\<open>pthread\<close>, \<^verbatim>\<open>fork\<close> and
  \<^verbatim>\<open>execve\<close>, the content of memory that is read before it is written (\<^verbatim>\<open>junk\<close>), what a conversion out of
  range stores (\<^verbatim>\<open>ovf\<close>), the results of reading and writing on a socket as lists of results, and the kernel's
  answers to the other system calls as a function of all calls made so far (\<^verbatim>\<open>net_env\<close>).
\<close>

section \<open>The theories\<close>

text \<open>
  \<^item> \<^verbatim>\<open>Ez_Prelude\<close>: return codes, C strings and their comparison, heaps, buffers, the collections of
    rewrite rules that the other theories extend.
  \<^item> \<^verbatim>\<open>Ez_Context\<close>: the mutex retry loops and the reference counter of \<^verbatim>\<open>common/ezcfg.c\<close>.
  \<^item> \<^verbatim>\<open>Keyed_List_Spec\<close>, \<^verbatim>\<open>Linked_List\<close>: the interface of keyed lists as a locale, the linked list of
    \<^verbatim>\<open>basic/linked_list\<close> and its interpretation; the lists in memory are related to lists of data.
  \<^item> \<^verbatim>\<open>Nv_Linked_List\<close>, \<^verbatim>\<open>Nv_Linked_List_Spec\<close>: the list of named settings, seen as an association list.
  \<^item> \<^verbatim>\<open>Stack_List\<close>, \<^verbatim>\<open>Binary_Tree\<close>: the stack and the tree of the JSON reader; the tree in memory is related to
    the library's trees.
  \<^item> \<^verbatim>\<open>Json\<close>, \<^verbatim>\<open>Json_Spec\<close>, \<^verbatim>\<open>Json_Parse\<close>, \<^verbatim>\<open>Json_Write\<close>, \<^verbatim>\<open>Json_Safety\<close>, \<^verbatim>\<open>Json_Nvram\<close>: the reader and the
    writer, abstract values with their grammar, correctness of both directions and their round trip,
    safety on every text, and the settings list taken from a text.
  \<^item> \<^verbatim>\<open>Settings_Store\<close>: the interface of a settings store as a locale, a map with a budget of bytes.
    \<^verbatim>\<open>Meta_Nvram\<close> and \<^verbatim>\<open>Meta_Nvram_Spec\<close> model \<^verbatim>\<open>common/meta_nvram.c\<close> and interpret it, \<^verbatim>\<open>Nvram\<close> and \<^verbatim>\<open>Nvram_Spec\<close> do
    so for \<^verbatim>\<open>common/nvram.c\<close>, with the states that the table can reach.
  \<^item> \<^verbatim>\<open>Ez_Common\<close>, \<^verbatim>\<open>Ez_Common_Spec\<close>: creating and deleting the context, with the blocks it allocates on the way
    (\<^verbatim>\<open>ez_blocks\<close>), and lookups through both stores.
  \<^item> \<^verbatim>\<open>Settings_Query\<close>, \<^verbatim>\<open>Settings_Query_Spec\<close>: many settings at once, by list and by name space.
  \<^item> \<^verbatim>\<open>Http\<close>, \<^verbatim>\<open>Http_Spec\<close>, \<^verbatim>\<open>Http_Write\<close>, \<^verbatim>\<open>Http_Roundtrip\<close>, \<^verbatim>\<open>Http_Clients\<close>: HTTP messages, safety of parsing any text,
    the exact text and length written, reading what was written, form data and credentials.
    \<^verbatim>\<open>Auth\<close>: the authorisation records.  \<^verbatim>\<open>Json_Http\<close>: a JSON body carried by a message.
  \<^item> \<^verbatim>\<open>Thread\<close>, \<^verbatim>\<open>Thread_Spec\<close>, \<^verbatim>\<open>Process\<close>, \<^verbatim>\<open>Process_Spec\<close>: the life cycle of a thread object as a step relation, the
    children of a process and their mutex.
  \<^item> \<^verbatim>\<open>Socket\<close>, \<^verbatim>\<open>Socket_Create\<close>, \<^verbatim>\<open>Socket_Http\<close> and their \<^verbatim>\<open>_Spec\<close> theories: socket objects and lists, creation,
    binding, accepting, with a trace of the system calls and the count of the address texts that are copied; receiving an HTTP message.
  \<^item> \<^verbatim>\<open>Util_Checksum\<close>, \<^verbatim>\<open>Util_Base64\<close>, \<^verbatim>\<open>Util_Text\<close>, \<^verbatim>\<open>Util_Conf_Spec\<close>, \<^verbatim>\<open>Util_Sha1\<close>, \<^verbatim>\<open>Util_Tables\<close>: the helpers of \<^verbatim>\<open>util\<close>,
    each with its reference definition.
  \<^item> \<^verbatim>\<open>Aes\<close>, \<^verbatim>\<open>Aes_Field\<close>, \<^verbatim>\<open>Aes_Tables\<close>, \<^verbatim>\<open>Aes_Words\<close>, \<^verbatim>\<open>Aes_Spec\<close>, \<^verbatim>\<open>Aes_Schedule\<close>, \<^verbatim>\<open>Aes_Cipher\<close>: the cipher of
    \<^verbatim>\<open>src/osdrv/uboot/u-boot-2010.06/lib/aes.c\<close>; the field behind its generated tables and what they hold;
    words as columns of bytes; the cipher of the standard; the key schedule; encryption as the standard has
    it, and decryption as its inverse.
  \<^item> \<^verbatim>\<open>Uboot_Env\<close>, \<^verbatim>\<open>Uboot_Env_Spec\<close>: the environment of the boot loader in flash, \<^verbatim>\<open>libezcfg/api/src/api-ubootenv.c\<close>:
    finding the partition, the check sum, reading and storing, seen as a list of pairs.
    \<^verbatim>\<open>Ez_Errno\<close>: the error numbers that the entry points under \<^verbatim>\<open>libezcfg/api\<close> return.
  \<^item> \<^verbatim>\<open>Agent\<close>, \<^verbatim>\<open>Agent_Env\<close>: \<^verbatim>\<open>api-common.c\<close>, \<^verbatim>\<open>api-agent.c\<close>, \<^verbatim>\<open>composite/socket_agent\<close> and \<^verbatim>\<open>ezcd/src/agent_env.c\<close>: from the
    configuration file to a started agent, over the reader of JSON texts, the settings store and the context.
  \<^item> \<^verbatim>\<open>Boot_Os\<close>: what the helpers under \<^verbatim>\<open>ezcd/src/utils\<close> see of the operating system, as a record of functions over
    an arbitrary state; running commands and making directories.  \<^verbatim>\<open>Boot_Files\<close>, \<^verbatim>\<open>Boot_Files_Spec\<close>: lines and the value
    behind a keyword.  \<^verbatim>\<open>Boot_Modules\<close>, \<^verbatim>\<open>Boot_Modules_Spec\<close>: kernel modules and what they need.
    \<^verbatim>\<open>Boot_Udev\<close>, \<^verbatim>\<open>Boot_Udev_Spec\<close>: the walk over \<^verbatim>\<open>/sys\<close> and its links.  \<^verbatim>\<open>Boot_Mount\<close>, \<^verbatim>\<open>Boot_Mount_Spec\<close>: mounting
    partitions, from the command line of the kernel to the command that is run.  \<^verbatim>\<open>Util_Env\<close>: the system utilities of the library.
  A group of lemmas usually comes in three layers: a predicate that relates the memory to an abstract
  value, one lemma per operation that keeps it (or says what fails), and the property, which only combines
  these.  The properties are the theorems whose text begins with a claim number.
\<close>

section \<open>Results that are not as one would wish\<close>

text \<open>
  Most properties say that the code does what it is for.  Some state, as theorems, what it does
  instead: deleting the context while a reference is left retries a bounded number of times and then
  fails, since it holds the mutex that giving the reference back needs; taking a name back from the
  settings table leaves two owners of the same strings, unless it is the last entry; a refused text leaves nodes of its tree that
  nothing points to; a setting that only the table has may not be found; the writer of messages can leave its buffer and writes no response while the
  object has no request method; a process that
  has started a child keeps its mutex, so that deleting it never returns; deleting the socket of an accepted connection removes the file of the
  listener; SHA-1 is only computed for messages whose last block has room for the length.
\<close>

section \<open>Not modelled\<close>

text \<open>
  \<^item> \<^verbatim>\<open>src/bak\<close>: an earlier generation of the library that no makefile compiles; its parts that live on are the
    ones modelled here.
  \<^item> \<^verbatim>\<open>ezcd/src\<close>, but for \<^verbatim>\<open>agent_env.c\<close> and the helpers under \<^verbatim>\<open>utils\<close> that the makefile compiles: programs that mount, start
    and stop other programs and write their configuration files with \<^verbatim>\<open>fprintf\<close>.
  \<^item> \<^verbatim>\<open>basic/json\<close>, \<^verbatim>\<open>basic/binary_tree\<close>: copies of files under \<^verbatim>\<open>common\<close> that are modelled.
  \<^item> \<^verbatim>\<open>composite/nv_json_http_socket\<close>: it uses variables that it does not declare, and is not on the build list.
  \<^item> The semaphores of \<^verbatim>\<open>util_upnp_monitor.c\<close>, the printing of addresses by \<^verbatim>\<open>inet_ntoa\<close>, the mount of an encrypted data
    partition and the fixed list of mounts before the boot.
  \<^item> \<^verbatim>\<open>api-nvram.c\<close>, whose bodies are inside \<^verbatim>\<open>#if 0\<close>, and the command line programs under \<^verbatim>\<open>api\<close>, which only call the library.
\<close>

end
